(* ===== verification/Prelude.thy ===== *)
theory Prelude
  imports Main "HOL-Library.Sublist" "HOL-Library.Code_Target_Numeral"
begin

section \<open>Prelude: Go values, strings, times and the lemmas the components share\<close>

text \<open>
  Conventions used by every theory of the development.
  \<^item> A Go \<^verbatim>\<open>string\<close> is a byte sequence: the HOL type \<^typ>\<open>string\<close>, whose characters are bytes.
  \<^item> A Go \<^verbatim>\<open>time.Time\<close> is its distance in nanoseconds from the zero time (January 1, year 1, UTC),
    so \<^verbatim>\<open>IsZero\<close> is equality with 0; a \<^verbatim>\<open>time.Duration\<close> is an integer of nanoseconds.
    \<^verbatim>\<open>Sub\<close> saturates at the ends of the 64-bit range as in the Go library.
  \<^item> A function that returns \<^verbatim>\<open>(T, error)\<close> returns a value of a sum type, \<open>Inl\<close> for the error.
  \<^item> A Go \<^verbatim>\<open>int\<close> or \<^verbatim>\<open>int64\<close> that counts or identifies is an \<^typ>\<open>int\<close>; where the width matters a
    theory says so and writes the bound out or uses a word.
\<close>

named_theorems go_simps \<open>unfolding rules for the models of the Go library\<close>

lemma pair_of_fst: "fst p = r \<Longrightarrow> p = (r, snd p)"
  by (cases p) simp

subsection \<open>Times and durations\<close>

type_synonym time = int
type_synonym duration = int

definition max_int64 :: int where "max_int64 = 9223372036854775807"
definition min_int64 :: int where "min_int64 = - 9223372036854775808"

definition zero_time :: time where [go_simps]: "zero_time = 0"

definition is_zero :: "time \<Rightarrow> bool" where [go_simps]: "is_zero t \<longleftrightarrow> t = 0"

text \<open>\<^verbatim>\<open>t.Before(u)\<close>, \<^verbatim>\<open>t.After(u)\<close>, \<^verbatim>\<open>t.Add(d)\<close> and the saturating \<^verbatim>\<open>t.Sub(u)\<close>.\<close>

definition before :: "time \<Rightarrow> time \<Rightarrow> bool" where [go_simps]: "before t u \<longleftrightarrow> t < u"
definition after :: "time \<Rightarrow> time \<Rightarrow> bool" where [go_simps]: "after t u \<longleftrightarrow> u < t"
definition add_time :: "time \<Rightarrow> duration \<Rightarrow> time" where [go_simps]: "add_time t d = t + d"
definition sub_time :: "time \<Rightarrow> time \<Rightarrow> duration" where
  "sub_time t u = max min_int64 (min max_int64 (t - u))"

definition nanosecond :: duration where [go_simps]: "nanosecond = 1"
definition second :: duration where [go_simps]: "second = 1000000000"
definition minute :: duration where [go_simps]: "minute = 60 * 1000000000"
definition hour :: duration where [go_simps]: "hour = 3600 * 1000000000"

lemma sub_time_exact: "min_int64 \<le> t - u \<Longrightarrow> t - u \<le> max_int64 \<Longrightarrow> sub_time t u = t - u"
  by (simp add: sub_time_def)

lemma sub_time_nonneg_iff [simp]: "0 \<le> sub_time t u \<longleftrightarrow> u \<le> t"
  by (auto simp: sub_time_def min_int64_def max_int64_def)

lemma sub_time_less: "d \<le> max_int64 \<Longrightarrow> min_int64 < d \<Longrightarrow> sub_time t u < d \<longleftrightarrow> t - u < d"
  by (auto simp: sub_time_def min_int64_def max_int64_def)

lemma less_sub_time: "d < max_int64 \<Longrightarrow> min_int64 \<le> d \<Longrightarrow> d < sub_time t u \<longleftrightarrow> d < t - u"
  by (auto simp: sub_time_def min_int64_def max_int64_def)

text \<open>Go's integer division truncates towards zero, and its remainder has the dividend's sign.\<close>

definition go_div :: "int \<Rightarrow> int \<Rightarrow> int" where
  "go_div a b = sgn a * sgn b * (\<bar>a\<bar> div \<bar>b\<bar>)"

definition go_mod :: "int \<Rightarrow> int \<Rightarrow> int" where
  "go_mod a b = a - b * go_div a b"

lemma go_div_nonneg: "0 \<le> a \<Longrightarrow> 0 < b \<Longrightarrow> go_div a b = a div b"
  by (cases "a = 0") (auto simp: go_div_def)

lemma go_mod_nonneg: "0 \<le> a \<Longrightarrow> 0 < b \<Longrightarrow> go_mod a b = a mod b"
  by (simp add: go_mod_def go_div_nonneg minus_mult_div_eq_mod)

text \<open>
  \<^verbatim>\<open>int(d.Seconds())\<close>: the whole seconds of the duration. The floating-point result of \<^verbatim>\<open>Seconds\<close> gives
  them exactly for durations below 90 days.
\<close>

definition whole_seconds :: "duration \<Rightarrow> int" where
  "whole_seconds d = go_div d second"

lemma whole_seconds_nonneg: "0 \<le> d \<Longrightarrow> whole_seconds d = d div second"
  by (simp add: whole_seconds_def second_def go_div_nonneg)

lemma whole_seconds_pos: "second \<le> d \<Longrightarrow> 0 < whole_seconds d"
  by (simp add: whole_seconds_def second_def go_div_nonneg pos_imp_zdiv_pos_iff)

subsection \<open>Round trips to a server\<close>

text \<open>What the network does to a request: both failures are an error to the caller, and the second one comes
  after the server has executed the request.\<close>

datatype link = Delivered | NotSent string | ReplyLost string

subsection \<open>Decimal representation of integers\<close>

text \<open>\<^verbatim>\<open>strconv.FormatInt(n, 10)\<close> and \<^verbatim>\<open>%d\<close>, and the base-10 reader \<^verbatim>\<open>strconv.ParseInt(s, 10, 64)\<close>.\<close>

definition digit_char :: "nat \<Rightarrow> char" where "digit_char d = char_of (48 + d)"

fun nat_digits :: "nat \<Rightarrow> string" where
  "nat_digits n = (if n < 10 then [digit_char n] else nat_digits (n div 10) @ [digit_char (n mod 10)])"

declare nat_digits.simps [simp del]

definition itoa :: "int \<Rightarrow> string" where
  "itoa n = (if n < 0 then CHR ''-'' # nat_digits (nat (- n)) else nat_digits (nat n))"

definition is_digit :: "char \<Rightarrow> bool" where
  "is_digit c \<longleftrightarrow> 48 \<le> (of_char c :: nat) \<and> (of_char c :: nat) \<le> 57"

definition digits_value :: "string \<Rightarrow> nat" where
  "digits_value s = foldl (\<lambda>v c. 10 * v + (of_char c - 48)) 0 s"

definition parse_digits :: "string \<Rightarrow> nat option" where
  "parse_digits s = (if s \<noteq> [] \<and> list_all is_digit s then Some (digits_value s) else None)"

definition in_int64 :: "int \<Rightarrow> bool" where "in_int64 n \<longleftrightarrow> min_int64 \<le> n \<and> n \<le> max_int64"

definition parse_int64 :: "string \<Rightarrow> int option" where
  "parse_int64 s =
     (let (neg, body) = (case s of [] \<Rightarrow> (False, [])
                         | c # cs \<Rightarrow> if c = CHR ''-'' then (True, cs)
                                     else if c = CHR ''+'' then (False, cs) else (False, s))
      in case parse_digits body of
           None \<Rightarrow> None
         | Some v \<Rightarrow> (let n = (if neg then - int v else int v) in if in_int64 n then Some n else None))"

lemma of_char_digit_char: "d < 10 \<Longrightarrow> (of_char (digit_char d) :: nat) = 48 + d"
  by (simp add: digit_char_def)

lemma is_digit_digit_char: "d < 10 \<Longrightarrow> is_digit (digit_char d)"
  by (simp add: is_digit_def of_char_digit_char)

lemma nat_digits_nonempty [simp]: "nat_digits n \<noteq> []"
  by (subst nat_digits.simps) simp

lemma nat_digits_all_digits: "list_all is_digit (nat_digits n)"
proof (induction n rule: nat_digits.induct)
  case (1 n)
  then show ?case
    by (subst nat_digits.simps) (auto simp: is_digit_digit_char)
qed

lemma digits_value_nat_digits [simp]: "digits_value (nat_digits n) = n"
proof (induction n rule: nat_digits.induct)
  case (1 n)
  then show ?case
    by (subst nat_digits.simps) (auto simp: digits_value_def of_char_digit_char)
qed

lemma parse_digits_nat_digits [simp]: "parse_digits (nat_digits n) = Some n"
  by (simp add: parse_digits_def nat_digits_all_digits)

lemma nat_digits_hd: "nat_digits n = c # cs \<Longrightarrow> is_digit c"
  using nat_digits_all_digits [of n] by simp

lemma digit_not_sign: "\<not> is_digit CHR ''-''" "\<not> is_digit CHR ''+''"
  by (simp_all add: is_digit_def)

lemma parse_int64_itoa: "in_int64 n \<Longrightarrow> parse_int64 (itoa n) = Some n"
proof (cases "n < 0")
  case True
  assume "in_int64 n"
  with True show ?thesis by (simp add: parse_int64_def itoa_def)
next
  case False
  assume n: "in_int64 n"
  obtain c cs where c: "nat_digits (nat n) = c # cs" by (cases "nat_digits (nat n)") auto
  then have "is_digit c" by (rule nat_digits_hd)
  then have "c \<noteq> CHR ''-''" "c \<noteq> CHR ''+''" using digit_not_sign by auto
  with False c n parse_digits_nat_digits [of "nat n"] show ?thesis
    by (simp add: parse_int64_def itoa_def)
qed

lemma nat_digits_inject [simp]: "nat_digits m = nat_digits n \<longleftrightarrow> m = n"
  by (metis digits_value_nat_digits)

lemma itoa_inject [simp]: "itoa m = itoa n \<longleftrightarrow> m = n"
proof
  assume eq: "itoa m = itoa n"
  have nodash: "CHR ''-'' # xs \<noteq> nat_digits k" for xs k
    using digit_not_sign(1) nat_digits_hd by metis
  from eq nodash show "m = n"
    by (auto simp: itoa_def split: if_splits dest: sym)
qed simp

subsection \<open>Trimming white space\<close>

text \<open>
  \<^verbatim>\<open>strings.TrimSpace\<close> removes the leading and trailing Unicode white space of a UTF-8 string.
  The white-space code points are listed by their encodings.
\<close>

definition bytes :: "nat list \<Rightarrow> string" where "bytes ns = map char_of ns"

definition space_runes :: "string list" where
  "space_runes = map bytes
     [[9], [10], [11], [12], [13], [32], [0xC2, 0x85], [0xC2, 0xA0], [0xE1, 0x9A, 0x80],
      [0xE2, 0x80, 0x80], [0xE2, 0x80, 0x81], [0xE2, 0x80, 0x82], [0xE2, 0x80, 0x83], [0xE2, 0x80, 0x84],
      [0xE2, 0x80, 0x85], [0xE2, 0x80, 0x86], [0xE2, 0x80, 0x87], [0xE2, 0x80, 0x88], [0xE2, 0x80, 0x89],
      [0xE2, 0x80, 0x8A], [0xE2, 0x80, 0xA8], [0xE2, 0x80, 0xA9], [0xE2, 0x80, 0xAF], [0xE2, 0x81, 0x9F],
      [0xE3, 0x80, 0x80]]"

function strip_any :: "string list \<Rightarrow> string \<Rightarrow> string" where
  "strip_any ps s = (case find (\<lambda>p. p \<noteq> [] \<and> prefix p s) ps of
                       None \<Rightarrow> s
                     | Some p \<Rightarrow> strip_any ps (drop (length p) s))"
  by pat_completeness auto
termination
  by (relation "measure (\<lambda>(ps, s). length s)") (auto simp: find_Some_iff prefix_def)

declare strip_any.simps [simp del]

definition trim_left :: "string \<Rightarrow> string" where "trim_left = strip_any space_runes"
definition trim_right :: "string \<Rightarrow> string" where "trim_right s = rev (strip_any (map rev space_runes) (rev s))"
definition trim_space :: "string \<Rightarrow> string" where "trim_space s = trim_right (trim_left s)"

lemma strip_any_suffix: "suffix (strip_any ps s) s"
proof (induction ps s rule: strip_any.induct)
  case (1 ps s)
  show ?case
  proof (cases "find (\<lambda>p. p \<noteq> [] \<and> prefix p s) ps")
    case None
    then show ?thesis by (subst strip_any.simps) simp
  next
    case (Some p)
    with 1 have "suffix (strip_any ps (drop (length p) s)) (drop (length p) s)" by simp
    then have "suffix (strip_any ps (drop (length p) s)) s"
      by (meson suffix_drop suffix_order.order_trans)
    with Some show ?thesis by (subst strip_any.simps) simp
  qed
qed

lemma trim_left_Nil [simp]: "trim_left [] = []"
  using strip_any_suffix [of space_runes "[]"] by (simp add: trim_left_def)

lemma trim_right_Nil [simp]: "trim_right [] = []"
  using strip_any_suffix [of "map rev space_runes" "[]"] by (simp add: trim_right_def)

lemma trim_space_Nil [simp]: "trim_space [] = []"
  by (simp add: trim_space_def)

lemma length_strip_any: "length (strip_any ps s) \<le> length s"
  using strip_any_suffix by (rule suffix_length_le)

lemma length_trim_space: "length (trim_space s) \<le> length s"
  using length_strip_any [of "map rev space_runes" "rev (trim_left s)"] length_strip_any [of space_runes s]
  by (simp add: trim_space_def trim_right_def trim_left_def)

text \<open>A string whose ends are no white space is left alone, and other characters are never removed.\<close>

lemma strip_any_id: "(\<And>p. p \<in> set ps \<Longrightarrow> p \<noteq> [] \<Longrightarrow> s \<noteq> [] \<Longrightarrow> hd p \<noteq> hd s) \<Longrightarrow> strip_any ps s = s"
proof -
  assume neq: "\<And>p. p \<in> set ps \<Longrightarrow> p \<noteq> [] \<Longrightarrow> s \<noteq> [] \<Longrightarrow> hd p \<noteq> hd s"
  have "find (\<lambda>p. p \<noteq> [] \<and> prefix p s) ps = None"
    unfolding find_None_iff
  proof clarsimp
    fix p assume "p \<in> set ps" "p \<noteq> []" "prefix p s"
    moreover from this have "s \<noteq> []" "hd p = hd s" by (auto simp: prefix_def)
    ultimately show False using neq by blast
  qed
  then show ?thesis by (subst strip_any.simps) simp
qed

lemma strip_any_keeps: "c \<in> set s \<Longrightarrow> (\<And>p. p \<in> set ps \<Longrightarrow> c \<notin> set p) \<Longrightarrow> c \<in> set (strip_any ps s)"
proof (induction ps s rule: strip_any.induct)
  case (1 ps s)
  show ?case
  proof (cases "find (\<lambda>p. p \<noteq> [] \<and> prefix p s) ps")
    case None
    then show ?thesis using 1 by (subst strip_any.simps) simp
  next
    case (Some p)
    then have p: "p \<in> set ps" "prefix p s" by (auto simp: find_Some_iff)
    then have "c \<in> set (drop (length p) s)"
      using 1 by (auto simp: prefix_def)
    with 1 Some have "c \<in> set (strip_any ps (drop (length p) s))" by simp
    with Some show ?thesis by (subst strip_any.simps) simp
  qed
qed

definition plain_char :: "char \<Rightarrow> bool" where
  "plain_char c \<longleftrightarrow> 33 \<le> (of_char c :: nat) \<and> (of_char c :: nat) \<le> 126"

lemma space_runes_not_plain: "p \<in> set space_runes \<Longrightarrow> c \<in> set p \<Longrightarrow> \<not> plain_char c"
  by (auto simp: space_runes_def bytes_def plain_char_def)

lemma space_runes_nonempty: "p \<in> set space_runes \<Longrightarrow> p \<noteq> []"
  by (auto simp: space_runes_def bytes_def)

lemma trim_space_plain:
  assumes "list_all plain_char s"
  shows "trim_space s = s"
proof -
  have "trim_left s = s"
    unfolding trim_left_def
    by (rule strip_any_id) (metis assms hd_in_set list_all_iff space_runes_not_plain)
  moreover have "strip_any (map rev space_runes) (rev s) = rev s"
  proof (rule strip_any_id)
    fix p assume "p \<in> set (map rev space_runes)" "p \<noteq> []" "rev s \<noteq> []"
    then have "\<not> plain_char (hd p)" "plain_char (hd (rev s))"
      using space_runes_not_plain assms by (auto simp: list_all_iff hd_rev)
    then show "hd p \<noteq> hd (rev s)" by auto
  qed
  ultimately show ?thesis by (simp add: trim_space_def trim_right_def)
qed

lemma trim_space_keeps: "c \<in> set s \<Longrightarrow> plain_char c \<Longrightarrow> c \<in> set (trim_space s)"
  using strip_any_keeps [of c s space_runes] strip_any_keeps [of c "rev (trim_left s)" "map rev space_runes"]
    space_runes_not_plain [of _ c]
  by (force simp: trim_space_def trim_right_def trim_left_def)

lemma plain_char_digit: "is_digit c \<Longrightarrow> plain_char c"
  by (simp add: is_digit_def plain_char_def)

lemma trim_space_itoa [simp]: "trim_space (itoa n) = itoa n"
proof (rule trim_space_plain)
  have "list_all plain_char (nat_digits k)" for k
    using nat_digits_all_digits [of k] plain_char_digit by (auto simp: list_all_iff)
  then show "list_all plain_char (itoa n)" by (simp add: itoa_def plain_char_def)
qed

lemma itoa_nonempty [simp]: "itoa n \<noteq> []"
  by (simp add: itoa_def)

subsection \<open>UTF-8\<close>

text \<open>
  \<^verbatim>\<open>utf8.ValidString\<close>: every character is encoded in its shortest form, is not a surrogate and is at
  most U+10FFFF. The table of the Go library is written as one clause per length.
\<close>

definition code_byte :: "char \<Rightarrow> nat" where "code_byte c = of_char c"

definition is_cont :: "char \<Rightarrow> bool" where "is_cont c \<longleftrightarrow> 0x80 \<le> code_byte c \<and> code_byte c \<le> 0xBF"

definition utf8_len2 :: "char \<Rightarrow> char \<Rightarrow> bool" where
  "utf8_len2 a b \<longleftrightarrow> 0xC2 \<le> code_byte a \<and> code_byte a \<le> 0xDF \<and> is_cont b"

definition utf8_len3 :: "char \<Rightarrow> char \<Rightarrow> char \<Rightarrow> bool" where
  "utf8_len3 a b c \<longleftrightarrow> 0xE0 \<le> code_byte a \<and> code_byte a \<le> 0xEF \<and> is_cont b \<and> is_cont c \<and>
     (code_byte a = 0xE0 \<longrightarrow> 0xA0 \<le> code_byte b) \<and> (code_byte a = 0xED \<longrightarrow> code_byte b \<le> 0x9F)"

definition utf8_len4 :: "char \<Rightarrow> char \<Rightarrow> char \<Rightarrow> char \<Rightarrow> bool" where
  "utf8_len4 a b c d \<longleftrightarrow> 0xF0 \<le> code_byte a \<and> code_byte a \<le> 0xF4 \<and> is_cont b \<and> is_cont c \<and> is_cont d \<and>
     (code_byte a = 0xF0 \<longrightarrow> 0x90 \<le> code_byte b) \<and> (code_byte a = 0xF4 \<longrightarrow> code_byte b \<le> 0x8F)"

text \<open>The length of the valid encoding a string starts with, if it starts with one.\<close>

definition rune_len :: "string \<Rightarrow> nat option" where
  "rune_len s = (case s of
       [] \<Rightarrow> None
     | a # s1 \<Rightarrow>
         if code_byte a < 0x80 then Some 1
         else (case s1 of
             [] \<Rightarrow> None
           | b # s2 \<Rightarrow>
               if utf8_len2 a b then Some 2
               else (case s2 of
                   [] \<Rightarrow> None
                 | c # s3 \<Rightarrow>
                     if utf8_len3 a b c then Some 3
                     else (case s3 of [] \<Rightarrow> None | d # _ \<Rightarrow> if utf8_len4 a b c d then Some 4 else None))))"

lemma rune_len_bounds: "rune_len s = Some n \<Longrightarrow> 0 < n \<and> n \<le> 4 \<and> n \<le> length s"
  by (auto simp: rune_len_def split: list.splits if_splits)

function valid_utf8 :: "string \<Rightarrow> bool" where
  "valid_utf8 s = (if s = [] then True
                   else case rune_len s of None \<Rightarrow> False | Some n \<Rightarrow> valid_utf8 (drop n s))"
  by pat_completeness auto
termination
  by (relation "measure length") (auto dest: rune_len_bounds)

declare valid_utf8.simps [simp del]

lemma valid_utf8_Nil [simp]: "valid_utf8 []"
  by (subst valid_utf8.simps) simp

text \<open>Cutting a valid string at any length leaves a valid string after dropping at most three bytes.\<close>

lemma rune_len_take: "rune_len s = Some n \<Longrightarrow> n \<le> m \<Longrightarrow> rune_len (take m s) = Some n"
proof -
  assume n: "rune_len s = Some n" "n \<le> m"
  then obtain k where m: "m = n + k" using le_iff_add by blast
  from n(1) show ?thesis
    unfolding m by (auto simp: rune_len_def eval_nat_numeral split: list.splits if_splits)
qed

lemma valid_utf8_boundary:
  "valid_utf8 s \<Longrightarrow> n \<le> length s \<Longrightarrow> \<exists>m. n \<le> m + 3 \<and> m \<le> n \<and> valid_utf8 (take m s)"
proof (induction s arbitrary: n rule: valid_utf8.induct)
  case (1 s)
  show ?case
  proof (cases "s = []")
    case False
    with 1(2) obtain k where k: "rune_len s = Some k" "valid_utf8 (drop k s)"
      by (subst (asm) valid_utf8.simps) (auto split: option.splits)
    note b = rune_len_bounds [OF k(1)]
    show ?thesis
    proof (cases "n < k")
      case True
      with b show ?thesis by (intro exI [of _ 0]) simp
    next
      case kn: False
      have "n - k \<le> length (drop k s)" using 1(3) by simp
      from 1(1) [OF False k this] obtain m where
        m: "n - k \<le> m + 3" "m \<le> n - k" "valid_utf8 (take m (drop k s))" by blast
      have "rune_len (take (k + m) s) = Some k" using rune_len_take [OF k(1)] by simp
      moreover have "drop k (take (k + m) s) = take m (drop k s)" by (simp add: drop_take)
      ultimately have "valid_utf8 (take (k + m) s)"
        using m(3) by (subst valid_utf8.simps) simp
      with m kn show ?thesis by (intro exI [of _ "k + m"]) (auto simp: le_diff_conv2)
    qed
  qed (use 1 in simp)
qed

end
