(* ===== verification/RedisStore.thy ===== *)
theory RedisStore
  imports Prelude
begin

section \<open>The Redis server as an interface\<close>

text \<open>
  The repositories under \<^verbatim>\<open>src/backend/internal/repository\<close> run commands and Lua scripts on a Redis
  server, which is not code of the repository. It enters every definition as a parameter: a record
  \<open>redis_ops\<close> of the commands the code uses, over an arbitrary type of server states. The locale
  \<open>redis\<close> states the documented behaviour of these commands as a simulation: a function \<open>view\<close>
  maps a server state to the sorted sets, integer strings, expiry deadlines and clock it holds, and each
  command acts on the view as its documentation says. The theory ends with a reference server on
  association lists that satisfies the interface.

  A command or a script reaches the server in one round trip, which may fail before the server ran it
  or lose the reply after the server ran it; both are an error to the caller.
\<close>

subsection \<open>The commands\<close>

record 'r redis_ops =
  r_time :: "'r \<Rightarrow> int"
  r_zadd :: "string \<Rightarrow> int \<Rightarrow> string \<Rightarrow> 'r \<Rightarrow> 'r"
  r_zrem :: "string \<Rightarrow> string \<Rightarrow> 'r \<Rightarrow> 'r"
  r_zremrangebyscore :: "string \<Rightarrow> int \<Rightarrow> 'r \<Rightarrow> 'r"
  r_zcard :: "string \<Rightarrow> 'r \<Rightarrow> int"
  r_zscore :: "string \<Rightarrow> string \<Rightarrow> 'r \<Rightarrow> int option"
  r_zrange :: "string \<Rightarrow> 'r \<Rightarrow> string list"
  r_zrangebyscore :: "string \<Rightarrow> int \<Rightarrow> nat \<Rightarrow> 'r \<Rightarrow> string list"
  r_expire :: "string \<Rightarrow> int \<Rightarrow> 'r \<Rightarrow> 'r"
  r_del :: "string \<Rightarrow> 'r \<Rightarrow> 'r"
  r_get :: "string \<Rightarrow> 'r \<Rightarrow> int option"
  r_exists :: "string \<Rightarrow> 'r \<Rightarrow> bool"
  r_set :: "string \<Rightarrow> int \<Rightarrow> 'r \<Rightarrow> 'r"
  r_incrby :: "string \<Rightarrow> int \<Rightarrow> 'r \<Rightarrow> 'r"
  r_scan :: "string \<Rightarrow> 'r \<Rightarrow> string list list"
  r_link :: "'r \<Rightarrow> link \<times> 'r"

text \<open>
  One round trip: \<open>cmd\<close> is the command, pipeline or script the server runs atomically. An error of the
  link reaches the Go code as a non-nil \<^verbatim>\<open>err\<close>.
\<close>

definition roundtrip :: "'r redis_ops \<Rightarrow> ('r \<Rightarrow> 'a \<times> 'r) \<Rightarrow> 'r \<Rightarrow> (string + 'a) \<times> 'r" where
  "roundtrip R cmd s =
     (case r_link R s of
        (Delivered, t) \<Rightarrow> (let (a, u) = cmd t in (Inr a, u))
      | (NotSent e, t) \<Rightarrow> (Inl e, t)
      | (ReplyLost e, t) \<Rightarrow> (Inl e, snd (cmd t)))"

text \<open>Sequencing of methods that return \<^verbatim>\<open>(T, error)\<close>: \<^verbatim>\<open>if err != nil { return ..., err }\<close>.\<close>

definition then_ok :: "('r \<Rightarrow> (string + 'a) \<times> 'r) \<Rightarrow> ('a \<Rightarrow> 'r \<Rightarrow> (string + 'b) \<times> 'r) \<Rightarrow> 'r \<Rightarrow> (string + 'b) \<times> 'r" where
  "then_ok m f s = (case m s of (Inl e, t) \<Rightarrow> (Inl e, t) | (Inr a, t) \<Rightarrow> f a t)"

lemma then_ok_Inr: "m s = (Inr a, t) \<Longrightarrow> then_ok m f s = f a t"
  by (simp add: then_ok_def)

lemma then_ok_Inl: "m s = (Inl e, t) \<Longrightarrow> then_ok m f s = (Inl e, t)"
  by (simp add: then_ok_def)

lemma then_ok_eq_InrD:
  "then_ok m f s = (Inr b, u) \<Longrightarrow> \<exists>a t. m s = (Inr a, t) \<and> f a t = (Inr b, u)"
  by (auto simp: then_ok_def split: prod.splits sum.splits)

subsection \<open>What a server state holds\<close>

record redis_view =
  zsets :: "string \<Rightarrow> string \<rightharpoonup> int"
  strs :: "string \<rightharpoonup> int"
  deadline :: "string \<rightharpoonup> int"
  clock :: int

definition key_exists :: "string \<Rightarrow> redis_view \<Rightarrow> bool" where
  "key_exists k v \<longleftrightarrow> zsets v k \<noteq> Map.empty \<or> strs v k \<noteq> None"

definition zkeep :: "(int \<Rightarrow> bool) \<Rightarrow> (string \<rightharpoonup> int) \<Rightarrow> (string \<rightharpoonup> int)" where
  "zkeep P z = (\<lambda>m. case z m of None \<Rightarrow> None | Some sc \<Rightarrow> if P sc then Some sc else None)"

text \<open>A key that holds nothing any more is removed, and its deadline with it.\<close>

definition v_gc :: "string \<Rightarrow> redis_view \<Rightarrow> redis_view" where
  "v_gc k v = (if key_exists k v then v else v\<lparr>deadline := (deadline v)(k := None)\<rparr>)"

definition v_zadd :: "string \<Rightarrow> int \<Rightarrow> string \<Rightarrow> redis_view \<Rightarrow> redis_view" where
  "v_zadd k sc m v = v\<lparr>zsets := (zsets v)(k := (zsets v k)(m \<mapsto> sc))\<rparr>"

definition v_zrem :: "string \<Rightarrow> string \<Rightarrow> redis_view \<Rightarrow> redis_view" where
  "v_zrem k m v = v_gc k (v\<lparr>zsets := (zsets v)(k := (zsets v k)(m := None))\<rparr>)"

definition v_zremrange :: "string \<Rightarrow> int \<Rightarrow> redis_view \<Rightarrow> redis_view" where
  "v_zremrange k b v = v_gc k (v\<lparr>zsets := (zsets v)(k := zkeep (\<lambda>sc. b < sc) (zsets v k))\<rparr>)"

definition v_zcard :: "string \<Rightarrow> redis_view \<Rightarrow> int" where
  "v_zcard k v = int (card (dom (zsets v k)))"

definition v_del :: "string \<Rightarrow> redis_view \<Rightarrow> redis_view" where
  "v_del k v = v\<lparr>zsets := (zsets v)(k := Map.empty), strs := (strs v)(k := None),
                 deadline := (deadline v)(k := None)\<rparr>"

definition v_expire :: "string \<Rightarrow> int \<Rightarrow> redis_view \<Rightarrow> redis_view" where
  "v_expire k ttl v = (if \<not> key_exists k v then v
                       else if ttl \<le> 0 then v_del k v
                       else v\<lparr>deadline := (deadline v)(k \<mapsto> clock v + ttl)\<rparr>)"

definition v_set :: "string \<Rightarrow> int \<Rightarrow> redis_view \<Rightarrow> redis_view" where
  "v_set k n v = (v_del k v)\<lparr>strs := (strs v)(k \<mapsto> n)\<rparr>"

definition v_incrby :: "string \<Rightarrow> int \<Rightarrow> redis_view \<Rightarrow> redis_view" where
  "v_incrby k d v = v\<lparr>strs := (strs v)(k \<mapsto> (case strs v k of None \<Rightarrow> d | Some n \<Rightarrow> n + d))\<rparr>"

text \<open>The passing of \<open>d\<close> seconds: keys whose deadline is reached disappear.\<close>

definition v_dead :: "int \<Rightarrow> redis_view \<Rightarrow> string \<Rightarrow> bool" where
  "v_dead now v k \<longleftrightarrow> (case deadline v k of None \<Rightarrow> False | Some t \<Rightarrow> t \<le> now)"

definition v_tick :: "nat \<Rightarrow> redis_view \<Rightarrow> redis_view" where
  "v_tick d v = (let now = clock v + int d in
     v\<lparr>clock := now,
       zsets := (\<lambda>k. if v_dead now v k then Map.empty else zsets v k),
       strs := (\<lambda>k. if v_dead now v k then None else strs v k),
       deadline := (\<lambda>k. if v_dead now v k then None else deadline v k)\<rparr>)"

lemma zsets_v [simp]:
  "zsets (v_zadd k sc m v) = (zsets v)(k := (zsets v k)(m \<mapsto> sc))"
  "zsets (v_gc k v) = zsets v"
  "zsets (v_zrem k m v) = (zsets v)(k := (zsets v k)(m := None))"
  "zsets (v_zremrange k b v) = (zsets v)(k := zkeep (\<lambda>sc. b < sc) (zsets v k))"
  "zsets (v_del k v) = (zsets v)(k := Map.empty)"
  "zsets (v_set k n v) = (zsets v)(k := Map.empty)"
  "zsets (v_incrby k d v) = zsets v"
  by (auto simp: v_zadd_def v_gc_def v_zrem_def v_zremrange_def v_del_def v_set_def v_incrby_def)

lemma strs_v [simp]:
  "strs (v_zadd k sc m v) = strs v"
  "strs (v_gc k v) = strs v"
  "strs (v_zrem k m v) = strs v"
  "strs (v_zremrange k b v) = strs v"
  "strs (v_del k v) = (strs v)(k := None)"
  "strs (v_set k n v) = (strs v)(k \<mapsto> n)"
  "strs (v_incrby k d v) = (strs v)(k \<mapsto> (case strs v k of None \<Rightarrow> d | Some n \<Rightarrow> n + d))"
  by (auto simp: v_zadd_def v_gc_def v_zrem_def v_zremrange_def v_del_def v_set_def v_incrby_def)

lemma clock_v [simp]:
  "clock (v_zadd k sc m v) = clock v"
  "clock (v_gc k v) = clock v"
  "clock (v_zrem k m v) = clock v"
  "clock (v_zremrange k b v) = clock v"
  "clock (v_del k v) = clock v"
  "clock (v_set k n v) = clock v"
  "clock (v_incrby k d v) = clock v"
  "clock (v_expire k ttl v) = clock v"
  "clock (v_tick dt v) = clock v + int dt"
  by (auto simp: v_zadd_def v_gc_def v_zrem_def v_zremrange_def v_del_def v_set_def v_incrby_def
      v_expire_def v_tick_def Let_def)

lemma v_expire_pos [simp]:
  "0 < ttl \<Longrightarrow> zsets (v_expire k ttl v) = zsets v"
  "0 < ttl \<Longrightarrow> strs (v_expire k ttl v) = strs v"
  by (auto simp: v_expire_def)

lemma zkeep_Some [simp]: "zkeep P z m = Some sc \<longleftrightarrow> z m = Some sc \<and> P sc"
  by (auto simp: zkeep_def split: option.splits)

lemma zkeep_None: "zkeep P z m = None \<longleftrightarrow> (\<forall>sc. z m = Some sc \<longrightarrow> \<not> P sc)"
  by (auto simp: zkeep_def split: option.splits)

lemma zkeep_upd [simp]: "P sc \<Longrightarrow> zkeep P (z(m \<mapsto> sc)) = (zkeep P z)(m \<mapsto> sc)"
  by (auto simp: zkeep_def fun_eq_iff)

lemma dom_zkeep: "dom (zkeep P z) = {m. \<exists>sc. z m = Some sc \<and> P sc}"
  by (auto simp: dom_def)

lemma dom_zkeep_subset: "dom (zkeep P z) \<subseteq> dom z"
  by (auto simp: dom_zkeep)

subsection \<open>The interface\<close>

locale redis =
  fixes R :: "'r redis_ops" and view :: "'r \<Rightarrow> redis_view"
  assumes r_time: "r_time R s = clock (view s)"
    and view_zadd: "view (r_zadd R k sc m s) = v_zadd k sc m (view s)"
    and view_zrem: "view (r_zrem R k m s) = v_zrem k m (view s)"
    and view_zremrange: "view (r_zremrangebyscore R k b s) = v_zremrange k b (view s)"
    and r_zcard: "r_zcard R k s = v_zcard k (view s)"
    and r_zscore: "r_zscore R k m s = zsets (view s) k m"
    and set_zrange: "set (r_zrange R k s) = dom (zsets (view s) k)"
    and distinct_zrange: "distinct (r_zrange R k s)"
    and zrangebyscore_sound: "m \<in> set (r_zrangebyscore R k b n s) \<Longrightarrow> \<exists>sc. zsets (view s) k m = Some sc \<and> sc \<le> b"
    and zrangebyscore_complete:
      "length (r_zrangebyscore R k b n s) < n \<Longrightarrow> zsets (view s) k m = Some sc \<Longrightarrow> sc \<le> b \<Longrightarrow>
       m \<in> set (r_zrangebyscore R k b n s)"
    and distinct_zrangebyscore: "distinct (r_zrangebyscore R k b n s)"
    and view_expire: "view (r_expire R k ttl s) = v_expire k ttl (view s)"
    and view_del: "view (r_del R k s) = v_del k (view s)"
    and r_get: "r_get R k s = strs (view s) k"
    and r_exists: "r_exists R k s \<longleftrightarrow> key_exists k (view s)"
    and view_set: "view (r_set R k i s) = v_set k i (view s)"
    and view_incrby: "view (r_incrby R k d s) = v_incrby k d (view s)"
    and scan_sound: "page \<in> set (r_scan R p s) \<Longrightarrow> k \<in> set page \<Longrightarrow> prefix p k"
    and scan_complete: "key_exists k (view s) \<Longrightarrow> prefix p k \<Longrightarrow> \<exists>page \<in> set (r_scan R p s). k \<in> set page"
    and view_link: "view (snd (r_link R s)) = view s"
begin

lemmas view_simps = r_time view_zadd view_zrem view_zremrange r_zcard r_zscore view_expire view_del
  r_get r_exists view_set view_incrby view_link

lemma finite_dom_zset: "finite (dom (zsets (view s) k))"
  by (metis List.finite_set set_zrange)

lemma link_view: "r_link R s = (l, t) \<Longrightarrow> view t = view s"
  using view_link [of s] by simp

text \<open>A round trip that answers ran the command on a state with the same view.\<close>

lemma roundtrip_InrD:
  assumes "roundtrip R cmd s = (Inr a, u)"
  shows "\<exists>t. view t = view s \<and> cmd t = (a, u)"
  using assms link_view
  by (force simp: roundtrip_def split: prod.splits link.splits)

text \<open>A relation on views that every command keeps is kept by round trips and their sequences.\<close>

lemma roundtrip_rel:
  assumes "\<And>v. Q v v" and "\<And>t. Q (view t) (view (snd (cmd t)))"
  shows "Q (view s) (view (snd (roundtrip R cmd s)))"
proof -
  obtain l t where lt: "r_link R s = (l, t)" by (cases "r_link R s")
  then have "view t = view s" by (rule link_view)
  with assms(1) [of "view s"] assms(2) [of t] lt show ?thesis
    by (auto simp: roundtrip_def split: link.splits prod.splits)
qed

lemma then_ok_rel:
  assumes trans: "\<And>u v w. Q u v \<Longrightarrow> Q v w \<Longrightarrow> Q u w"
    and "Q (view s) (view (snd (m s)))"
    and "\<And>a t. m s = (Inr a, t) \<Longrightarrow> Q (view t) (view (snd (f a t)))"
  shows "Q (view s) (view (snd (then_ok m f s)))"
proof (cases "m s")
  case (Pair r t)
  with assms show ?thesis
    by (cases r) (auto simp: then_ok_def intro: trans)
qed

lemma fold_rel:
  assumes refl: "\<And>v. Q v v" and trans: "\<And>u v w. Q u v \<Longrightarrow> Q v w \<Longrightarrow> Q u w"
    and "\<And>x t. x \<in> set xs \<Longrightarrow> Q (view t) (view (f x t))"
  shows "Q (view s) (view (fold f xs s))"
  using assms(3)
proof (induction xs arbitrary: s)
  case (Cons x xs)
  then have "Q (view s) (view (f x s))" "Q (view (f x s)) (view (fold f xs (f x s)))" by auto
  then show ?case by (auto intro: trans)
qed (simp add: refl)

text \<open>Whatever happens to it, a round trip either did nothing or ran the command.\<close>

lemma roundtrip_cases:
  assumes "roundtrip R cmd s = (res, u)"
  shows "(\<exists>e. res = Inl e \<and> view u = view s) \<or> (\<exists>t. view t = view s \<and> u = snd (cmd t))"
  using assms link_view
  by (fastforce simp: roundtrip_def split: prod.splits link.splits)

end

subsection \<open>Live members and counts\<close>

definition live :: "int \<Rightarrow> redis_view \<Rightarrow> string \<Rightarrow> string \<rightharpoonup> int" where
  "live ttl v k = zkeep (\<lambda>sc. clock v - ttl < sc) (zsets v k)"

definition live_count :: "int \<Rightarrow> redis_view \<Rightarrow> string \<Rightarrow> int" where
  "live_count ttl v k = int (card (dom (live ttl v k)))"

definition zmembers :: "redis_view \<Rightarrow> string \<Rightarrow> int" where
  "zmembers v k = int (card (dom (zsets v k)))"

lemma live_subset: "dom (live ttl v k) \<subseteq> dom (zsets v k)"
  by (simp add: live_def dom_zkeep_subset)

context redis
begin

lemma finite_live [simp]: "finite (dom (live ttl (view s) k))"
  using finite_dom_zset live_subset by (rule finite_subset [rotated])

lemma live_count_le: "live_count ttl (view s) k \<le> zmembers (view s) k"
  by (simp add: live_count_def zmembers_def card_mono finite_dom_zset live_subset)

end

subsection \<open>Operations that never add a member to some sets\<close>

definition shrinks :: "string set \<Rightarrow> redis_view \<Rightarrow> redis_view \<Rightarrow> bool" where
  "shrinks K v v' \<longleftrightarrow> (\<forall>k \<in> K. dom (zsets v' k) \<subseteq> dom (zsets v k))"

named_theorems shrink_intros \<open>operations that only remove members\<close>

lemma shrinks_refl [simp]: "shrinks K v v"
  by (simp add: shrinks_def)

lemma shrinks_trans: "shrinks K u v \<Longrightarrow> shrinks K v w \<Longrightarrow> shrinks K u w"
  unfolding shrinks_def by blast

lemma shrinks_v [simp]:
  "k \<notin> K \<Longrightarrow> shrinks K v (v_zadd k sc m v)"
  "shrinks K v (v_zrem k m v)" "shrinks K v (v_zremrange k b v)" "shrinks K v (v_del k v)"
  "shrinks K v (v_expire k ttl v)" "shrinks K v (v_set k n v)" "shrinks K v (v_incrby k d v)"
  "shrinks K v (v_tick dt v)"
  by (auto simp: shrinks_def v_expire_def dom_zkeep v_tick_def Let_def split: if_splits)

lemma shrinks_v_step:
  "shrinks K u v \<Longrightarrow> k \<notin> K \<Longrightarrow> shrinks K u (v_zadd k sc m v)"
  "shrinks K u v \<Longrightarrow> shrinks K u (v_zrem k m v)" "shrinks K u v \<Longrightarrow> shrinks K u (v_zremrange k b v)"
  "shrinks K u v \<Longrightarrow> shrinks K u (v_del k v)" "shrinks K u v \<Longrightarrow> shrinks K u (v_expire k ttl v)"
  "shrinks K u v \<Longrightarrow> shrinks K u (v_set k n v)" "shrinks K u v \<Longrightarrow> shrinks K u (v_incrby k d v)"
  by (meson shrinks_trans shrinks_v)+

context redis
begin

lemma shrinks_roundtrip:
  "(\<And>t. shrinks K (view t) (view (snd (cmd t)))) \<Longrightarrow> shrinks K (view s) (view (snd (roundtrip R cmd s)))"
  by (rule roundtrip_rel) auto

lemma shrinks_then_ok:
  "shrinks K (view s) (view (snd (m s))) \<Longrightarrow> (\<And>a t. shrinks K (view t) (view (snd (f a t)))) \<Longrightarrow>
   shrinks K (view s) (view (snd (then_ok m f s)))"
  by (rule then_ok_rel) (auto intro: shrinks_trans)

lemma shrinks_members:
  assumes "shrinks K (view s) v" "k \<in> K"
  shows "zmembers v k \<le> zmembers (view s) k"
  using assms finite_dom_zset by (auto simp: shrinks_def zmembers_def intro!: card_mono)

end

subsection \<open>A reference server\<close>

text \<open>
  A server on association lists: the sorted sets as a list of entries (key, member, score) in which the
  first entry of a key and a member counts, the strings and the deadlines as association lists, the
  clock, and the outcomes of the next round trips.
\<close>

record ref_redis =
  rf_zsets :: "(string \<times> string \<times> int) list"
  rf_strs :: "(string \<times> int) list"
  rf_deadline :: "(string \<times> int) list"
  rf_clock :: int
  rf_links :: "link list"

definition rf_zset :: "string \<Rightarrow> ref_redis \<Rightarrow> (string \<times> int) list" where
  "rf_zset k s = map snd (filter (\<lambda>e. fst e = k) (rf_zsets s))"

definition rf_score :: "string \<Rightarrow> string \<Rightarrow> ref_redis \<Rightarrow> int option" where
  "rf_score k m s = map_of (rf_zset k s) m"

definition rf_members :: "string \<Rightarrow> ref_redis \<Rightarrow> string list" where
  "rf_members k s = remdups (map fst (rf_zset k s))"

definition rf_view :: "ref_redis \<Rightarrow> redis_view" where
  "rf_view s = \<lparr>zsets = (\<lambda>k m. rf_score k m s), strs = map_of (rf_strs s),
                deadline = map_of (rf_deadline s), clock = rf_clock s\<rparr>"

definition rf_gc :: "string \<Rightarrow> ref_redis \<Rightarrow> ref_redis" where
  "rf_gc k s = (if rf_zset k s \<noteq> [] \<or> map_of (rf_strs s) k \<noteq> None then s
                else s\<lparr>rf_deadline := filter (\<lambda>e. fst e \<noteq> k) (rf_deadline s)\<rparr>)"

definition rf_zadd :: "string \<Rightarrow> int \<Rightarrow> string \<Rightarrow> ref_redis \<Rightarrow> ref_redis" where
  "rf_zadd k sc m s = s\<lparr>rf_zsets := (k, m, sc) # rf_zsets s\<rparr>"

definition rf_zrem :: "string \<Rightarrow> string \<Rightarrow> ref_redis \<Rightarrow> ref_redis" where
  "rf_zrem k m s = rf_gc k (s\<lparr>rf_zsets := filter (\<lambda>(k', m', _). \<not> (k' = k \<and> m' = m)) (rf_zsets s)\<rparr>)"

definition rf_zremrange :: "string \<Rightarrow> int \<Rightarrow> ref_redis \<Rightarrow> ref_redis" where
  "rf_zremrange k b s = rf_gc k (s\<lparr>rf_zsets :=
     filter (\<lambda>(k', m', _). \<not> (k' = k \<and> (case rf_score k m' s of None \<Rightarrow> False | Some sc \<Rightarrow> sc \<le> b))) (rf_zsets s)\<rparr>)"

definition rf_del :: "string \<Rightarrow> ref_redis \<Rightarrow> ref_redis" where
  "rf_del k s = s\<lparr>rf_zsets := filter (\<lambda>e. fst e \<noteq> k) (rf_zsets s),
                  rf_strs := filter (\<lambda>e. fst e \<noteq> k) (rf_strs s),
                  rf_deadline := filter (\<lambda>e. fst e \<noteq> k) (rf_deadline s)\<rparr>"

definition rf_exists :: "string \<Rightarrow> ref_redis \<Rightarrow> bool" where
  "rf_exists k s \<longleftrightarrow> rf_zset k s \<noteq> [] \<or> map_of (rf_strs s) k \<noteq> None"

definition rf_expire :: "string \<Rightarrow> int \<Rightarrow> ref_redis \<Rightarrow> ref_redis" where
  "rf_expire k ttl s = (if \<not> rf_exists k s then s else if ttl \<le> 0 then rf_del k s
                        else s\<lparr>rf_deadline := (k, rf_clock s + ttl) # rf_deadline s\<rparr>)"

definition rf_set :: "string \<Rightarrow> int \<Rightarrow> ref_redis \<Rightarrow> ref_redis" where
  "rf_set k n s = (rf_del k s)\<lparr>rf_strs := (k, n) # rf_strs s\<rparr>"

definition rf_incrby :: "string \<Rightarrow> int \<Rightarrow> ref_redis \<Rightarrow> ref_redis" where
  "rf_incrby k d s = s\<lparr>rf_strs := (k, case map_of (rf_strs s) k of None \<Rightarrow> d | Some n \<Rightarrow> n + d) # rf_strs s\<rparr>"

definition rf_rangebyscore :: "string \<Rightarrow> int \<Rightarrow> nat \<Rightarrow> ref_redis \<Rightarrow> string list" where
  "rf_rangebyscore k b n s =
     take n (filter (\<lambda>m. case rf_score k m s of None \<Rightarrow> False | Some sc \<Rightarrow> sc \<le> b) (rf_members k s))"

definition rf_scan :: "string \<Rightarrow> ref_redis \<Rightarrow> string list list" where
  "rf_scan p s = [filter (prefix p) (remdups (map fst (rf_zsets s) @ map fst (rf_strs s)))]"

definition rf_link :: "ref_redis \<Rightarrow> link \<times> ref_redis" where
  "rf_link s = (case rf_links s of [] \<Rightarrow> (Delivered, s) | l # ls \<Rightarrow> (l, s\<lparr>rf_links := ls\<rparr>))"

definition ref_ops :: "ref_redis redis_ops" where
  "ref_ops = \<lparr>r_time = rf_clock, r_zadd = rf_zadd, r_zrem = rf_zrem, r_zremrangebyscore = rf_zremrange,
     r_zcard = (\<lambda>k s. int (length (rf_members k s))), r_zscore = rf_score, r_zrange = rf_members,
     r_zrangebyscore = rf_rangebyscore, r_expire = rf_expire, r_del = rf_del,
     r_get = (\<lambda>k s. map_of (rf_strs s) k), r_exists = rf_exists, r_set = rf_set, r_incrby = rf_incrby, r_scan = rf_scan,
     r_link = rf_link\<rparr>"

lemmas ref_defs = ref_ops_def rf_zset_def rf_score_def rf_members_def rf_view_def rf_gc_def rf_zadd_def
  rf_zrem_def rf_zremrange_def rf_del_def rf_exists_def rf_expire_def rf_set_def rf_incrby_def
  rf_rangebyscore_def rf_scan_def rf_link_def

definition ref_empty :: ref_redis where
  "ref_empty = \<lparr>rf_zsets = [], rf_strs = [], rf_deadline = [], rf_clock = 1000, rf_links = []\<rparr>"

lemma map_of_filter_key: "map_of (filter (\<lambda>e. fst e \<noteq> k) al) = (map_of al)(k := None)"
  by (induction al) (auto simp: fun_eq_iff)

lemma rf_zset_eq_Nil: "rf_zset k s = [] \<longleftrightarrow> (\<lambda>m. rf_score k m s) = Map.empty"
proof -
  have "map_of (rf_zset k s) = Map.empty \<longleftrightarrow> rf_zset k s = []" by (rule map_of_eq_empty_iff)
  then show ?thesis by (auto simp: rf_score_def)
qed

lemma rf_exists_view: "rf_exists k s \<longleftrightarrow> key_exists k (rf_view s)"
  by (simp add: rf_exists_def key_exists_def rf_zset_eq_Nil rf_view_def)

lemma view_rf_gc: "rf_view (rf_gc k s) = v_gc k (rf_view s)"
proof -
  have "rf_gc k s = (if rf_exists k s then s
                     else s\<lparr>rf_deadline := filter (\<lambda>e. fst e \<noteq> k) (rf_deadline s)\<rparr>)"
    by (simp add: rf_gc_def rf_exists_def)
  then show ?thesis
    by (auto simp: v_gc_def rf_exists_view)
      (simp add: rf_view_def map_of_filter_key rf_score_def rf_zset_def)
qed

lemma map_of_filter_member:
  "map_of (map snd (filter (\<lambda>e. fst e = k) (filter (\<lambda>(k', m', _). \<not> (k' = k0 \<and> P m')) es))) m =
   (if k = k0 \<and> P m then None else map_of (map snd (filter (\<lambda>e. fst e = k) es)) m)"
  by (induction es) auto

lemma rf_score_filter_member:
  "rf_score k m (s\<lparr>rf_zsets := filter (\<lambda>(k', m', _). \<not> (k' = k0 \<and> P m')) (rf_zsets s)\<rparr>) =
   (if k = k0 \<and> P m then None else rf_score k m s)"
  using map_of_filter_member [of k k0 P "rf_zsets s" m] by (simp add: rf_score_def rf_zset_def)

lemma map_of_filter_keys: "map_of (map snd (filter (\<lambda>e. fst e = k) (filter (\<lambda>e. fst e \<noteq> k0) es))) m =
   (if k = k0 then None else map_of (map snd (filter (\<lambda>e. fst e = k) es)) m)"
  by (induction es) auto

lemma rf_score_del: "rf_score k m (rf_del k0 s) = (if k = k0 then None else rf_score k m s)"
  using map_of_filter_keys [of k k0 "rf_zsets s" m] by (simp add: rf_score_def rf_zset_def rf_del_def)

lemma rf_score_zadd: "rf_score k m (rf_zadd k0 sc m0 s) = (if k = k0 \<and> m = m0 then Some sc else rf_score k m s)"
  by (auto simp: rf_score_def rf_zset_def rf_zadd_def)

lemma rf_score_upd [simp]:
  "rf_score k m (s\<lparr>rf_strs := x\<rparr>) = rf_score k m s"
  "rf_score k m (s\<lparr>rf_deadline := y\<rparr>) = rf_score k m s"
  "rf_score k m (s\<lparr>rf_links := z\<rparr>) = rf_score k m s"
  by (simp_all add: rf_score_def rf_zset_def)

lemma rf_zrem_score: "rf_score k m (s\<lparr>rf_zsets := filter (\<lambda>(k', m', _). k' = k0 \<longrightarrow> m' \<noteq> m0) (rf_zsets s)\<rparr>) =
   (if k = k0 \<and> m = m0 then None else rf_score k m s)"
  using rf_score_filter_member [where P = "\<lambda>m'. m' = m0"] by simp

lemma view_rf_zrem: "rf_view (rf_zrem k m s) = v_zrem k m (rf_view s)"
  unfolding rf_zrem_def v_zrem_def view_rf_gc
  by (rule arg_cong [where f = "v_gc k"]) (auto simp: rf_view_def rf_zrem_score fun_eq_iff)

lemma rf_zremrange_score:
  "rf_score k m (s\<lparr>rf_zsets := filter (\<lambda>(k', m', _). k' = k0 \<longrightarrow>
      \<not> (case rf_score k0 m' s of None \<Rightarrow> False | Some sc \<Rightarrow> sc \<le> b)) (rf_zsets s)\<rparr>) =
   (if k = k0 then zkeep (\<lambda>sc. b < sc) (\<lambda>m. rf_score k0 m s) m else rf_score k m s)"
  using rf_score_filter_member
    [where P = "\<lambda>m'. case rf_score k0 m' s of None \<Rightarrow> False | Some sc \<Rightarrow> sc \<le> b" and s = s]
  by (auto simp: zkeep_def split: option.splits)

lemma view_rf_zremrange: "rf_view (rf_zremrange k b s) = v_zremrange k b (rf_view s)"
  unfolding rf_zremrange_def v_zremrange_def view_rf_gc
  by (rule arg_cong [where f = "v_gc k"]) (auto simp: rf_view_def rf_zremrange_score fun_eq_iff)

lemma view_rf_zadd: "rf_view (rf_zadd k sc m s) = v_zadd k sc m (rf_view s)"
  using rf_score_zadd [where ?k0.0 = k and sc = sc and ?m0.0 = m and s = s]
  by (auto simp: rf_view_def v_zadd_def fun_eq_iff) (auto simp: rf_zadd_def)

lemma view_rf_del: "rf_view (rf_del k s) = v_del k (rf_view s)"
  using rf_score_del [where ?k0.0 = k and s = s]
  by (auto simp: rf_view_def v_del_def fun_eq_iff) (auto simp: rf_del_def map_of_filter_key)

lemma view_rf_expire: "rf_view (rf_expire k ttl s) = v_expire k ttl (rf_view s)"
  by (simp add: rf_expire_def v_expire_def rf_exists_view view_rf_del) (simp add: rf_view_def fun_eq_iff)

lemma view_rf_set: "rf_view (rf_set k n s) = v_set k n (rf_view s)"
  unfolding v_set_def view_rf_del [symmetric] by (simp add: rf_set_def rf_view_def)

lemma view_rf_incrby: "rf_view (rf_incrby k d s) = v_incrby k d (rf_view s)"
  by (auto simp: rf_incrby_def v_incrby_def rf_view_def)

lemma set_rf_members: "set (rf_members k s) = dom (zsets (rf_view s) k)"
  by (auto simp: rf_members_def rf_view_def rf_score_def dom_map_of_conv_image_fst)

lemma distinct_rf_members [simp]: "distinct (rf_members k s)"
  by (simp add: rf_members_def)

lemma card_rf_members: "int (length (rf_members k s)) = v_zcard k (rf_view s)"
  unfolding v_zcard_def set_rf_members [symmetric]
  by (simp add: rf_members_def length_remdups_card_conv)

lemma rf_scan_sound: "page \<in> set (rf_scan p s) \<Longrightarrow> k \<in> set page \<Longrightarrow> prefix p k"
  by (auto simp: rf_scan_def)

lemma rf_scan_complete:
  assumes "key_exists k (rf_view s)" "prefix p k"
  shows "\<exists>page \<in> set (rf_scan p s). k \<in> set page"
proof -
  have "k \<in> fst ` set (rf_zsets s) \<or> k \<in> fst ` set (rf_strs s)"
  proof (cases "rf_zset k s = []")
    case True
    then have "map_of (rf_strs s) k \<noteq> None"
      using assms(1) by (simp add: rf_exists_view [symmetric] rf_exists_def)
    then show ?thesis by (auto simp: dom_map_of_conv_image_fst [symmetric])
  next
    case False
    then show ?thesis by (force simp: rf_zset_def filter_empty_conv)
  qed
  with assms(2) show ?thesis by (auto simp: rf_scan_def)
qed

interpretation ref: redis ref_ops rf_view
proof (unfold_locales, goal_cases)
  case 5
  then show ?case by (simp add: ref_ops_def card_rf_members)
next
  case 9
  then show ?case
    by (auto simp: ref_ops_def rf_rangebyscore_def rf_view_def dest!: in_set_takeD split: option.splits)
next
  case (10 k b n s m sc)
  then have "m \<in> set (rf_members k s)"
    by (auto simp: set_rf_members)
  with 10 show ?case
    by (auto simp: ref_ops_def rf_rangebyscore_def rf_view_def)
next
  case 18
  then show ?case using rf_scan_sound by (simp add: ref_ops_def)
next
  case 19
  then show ?case using rf_scan_complete by (simp add: ref_ops_def)
next
  case 20
  then show ?case
    by (auto simp: ref_ops_def rf_link_def rf_view_def rf_score_def rf_zset_def split: list.splits)
qed (auto simp: ref_ops_def rf_exists_view view_rf_zadd view_rf_zrem view_rf_zremrange view_rf_expire view_rf_del
      view_rf_set view_rf_incrby set_rf_members rf_rangebyscore_def distinct_rf_members, auto simp: rf_view_def)

end
