(* ===== verification/ConcurrencyCache.thy ===== *)
theory ConcurrencyCache
  imports RedisStore
begin

section \<open>The concurrency cache: request slots, live leases and wait queues on Redis\<close>

text \<open>
  Models \<^verbatim>\<open>src/backend/internal/repository/concurrency_cache.go\<close>: the Lua scripts as functions on the
  server state (a script runs atomically, at one server time), and the methods of
  \<^verbatim>\<open>concurrencyCache\<close> that run them. A slot is a member (request id) of a sorted set per account, user
  or API key, scored with the server time of its last refresh; live leases have sets of their own.
  Every definition takes the Redis commands as its first parameter. A script's \<^verbatim>\<open>tonumber\<close> and
  \<^verbatim>\<open>redis.replicate_commands\<close> have no effect on the model; a pipeline runs as one round trip. A nil
  cache or client (\<^verbatim>\<open>c == nil || c.rdb == nil\<close>) is not represented.
\<close>

subsection \<open>Keys and configuration\<close>

definition accountSlotKeyPrefix :: string where "accountSlotKeyPrefix = ''concurrency:account:''"
definition userSlotKeyPrefix :: string where "userSlotKeyPrefix = ''concurrency:user:''"
definition apiKeySlotKeyPrefix :: string where "apiKeySlotKeyPrefix = ''concurrency:api_key:''"
definition liveAccountSlotKeyPrefix :: string where "liveAccountSlotKeyPrefix = ''concurrency:live:account:''"
definition liveUserSlotKeyPrefix :: string where "liveUserSlotKeyPrefix = ''concurrency:live:user:''"
definition liveAPIKeySlotKeyPrefix :: string where "liveAPIKeySlotKeyPrefix = ''concurrency:live:api_key:''"
definition openAIWSIngressLeaseKeyPrefix :: string where
  "openAIWSIngressLeaseKeyPrefix = ''concurrency:openai_ws_ingress:api_key:''"
definition openAIWSIngressLeaseTTLSeconds :: int where "openAIWSIngressLeaseTTLSeconds = 60"
definition liveLeaseTTLSeconds :: int where "liveLeaseTTLSeconds = 60"
definition waitQueueKeyPrefix :: string where "waitQueueKeyPrefix = ''concurrency:wait:''"
definition accountWaitKeyPrefix :: string where "accountWaitKeyPrefix = ''wait:account:''"
definition defaultSlotTTLMinutes :: int where "defaultSlotTTLMinutes = 15"
definition accountActiveIndexKey :: string where "accountActiveIndexKey = ''concurrency:account:active_index''"
definition userActiveIndexKey :: string where "userActiveIndexKey = ''concurrency:user:active_index''"
definition activeIndexCleanupBatchSize :: nat where "activeIndexCleanupBatchSize = 1000"
definition activeIndexPipelineChunkSize :: nat where "activeIndexPipelineChunkSize = 500"
definition legacyWaitSweepMarkerKey :: string where
  "legacyWaitSweepMarkerKey = ''concurrency:startup:legacy_wait_sweep:v1''"

definition accountSlotKey :: "int \<Rightarrow> string" where "accountSlotKey a = accountSlotKeyPrefix @ itoa a"
definition userSlotKey :: "int \<Rightarrow> string" where "userSlotKey u = userSlotKeyPrefix @ itoa u"
definition apiKeySlotKey :: "int \<Rightarrow> string" where "apiKeySlotKey k = apiKeySlotKeyPrefix @ itoa k"
definition liveAccountSlotKey :: "int \<Rightarrow> string" where "liveAccountSlotKey a = liveAccountSlotKeyPrefix @ itoa a"
definition liveUserSlotKey :: "int \<Rightarrow> string" where "liveUserSlotKey u = liveUserSlotKeyPrefix @ itoa u"
definition liveAPIKeySlotKey :: "int \<Rightarrow> string" where "liveAPIKeySlotKey k = liveAPIKeySlotKeyPrefix @ itoa k"
definition openAIWSIngressLeaseKey :: "int \<Rightarrow> string" where
  "openAIWSIngressLeaseKey k = openAIWSIngressLeaseKeyPrefix @ itoa k"
definition waitQueueKey :: "int \<Rightarrow> string" where "waitQueueKey u = waitQueueKeyPrefix @ itoa u"
definition accountWaitKey :: "int \<Rightarrow> string" where "accountWaitKey a = accountWaitKeyPrefix @ itoa a"

record concurrencyCache =
  slotTTLSeconds :: int
  waitQueueTTLSeconds :: int

definition NewConcurrencyCache :: "int \<Rightarrow> int \<Rightarrow> concurrencyCache" where
  "NewConcurrencyCache slotTTLMinutes waitTTLSeconds =
     (let slotTTLMinutes' = (if slotTTLMinutes \<le> 0 then defaultSlotTTLMinutes else slotTTLMinutes);
          waitTTL = (if waitTTLSeconds \<le> 0 then slotTTLMinutes' * 60 else waitTTLSeconds)
      in \<lparr>slotTTLSeconds = slotTTLMinutes' * 60, waitQueueTTLSeconds = waitTTL\<rparr>)"

subsection \<open>The Lua scripts\<close>

definition acquireScript ::
  "'r redis_ops \<Rightarrow> string \<Rightarrow> string \<Rightarrow> int \<Rightarrow> int \<Rightarrow> string \<Rightarrow> 'r \<Rightarrow> (int \<times> int) \<times> 'r" where
  "acquireScript R key liveKey maxConcurrency ttl requestID s =
     (let now = r_time R s;
          expireBefore = now - ttl;
          s = r_zremrangebyscore R key expireBefore s;
          s = r_zremrangebyscore R liveKey (now - 60) s
      in if r_zscore R key requestID s \<noteq> None
         then ((1, now), r_expire R key ttl (r_zadd R key now requestID s))
         else if r_zcard R key s + r_zcard R liveKey s < maxConcurrency
         then ((1, now), r_expire R key ttl (r_zadd R key now requestID s))
         else ((0, now), s))"

definition getCountScript :: "'r redis_ops \<Rightarrow> string \<Rightarrow> string \<Rightarrow> int \<Rightarrow> 'r \<Rightarrow> int \<times> 'r" where
  "getCountScript R key liveKey ttl s =
     (let now = r_time R s;
          expireBefore = now - ttl;
          s = r_zremrangebyscore R key expireBefore s;
          s = r_zremrangebyscore R liveKey (now - 60) s
      in (r_zcard R key s + r_zcard R liveKey s, s))"

definition acquireLiveLeaseScript ::
  "'r redis_ops \<Rightarrow> string \<Rightarrow> string \<Rightarrow> string \<Rightarrow> string \<Rightarrow> string \<Rightarrow> int \<Rightarrow> int \<Rightarrow> int \<Rightarrow> string \<Rightarrow> int \<Rightarrow> 'r \<Rightarrow> int \<times> 'r"
where
  "acquireLiveLeaseScript R accountRegular accountLive userRegular userLive apiLive accountMax userMax ttl leaseID
     replacing s =
     (let now = r_time R s;
          liveExpireBefore = now - ttl;
          s = r_zremrangebyscore R accountLive liveExpireBefore s;
          s = r_zremrangebyscore R userLive liveExpireBefore s;
          s = r_zremrangebyscore R apiLive liveExpireBefore s
      in if r_zscore R accountLive leaseID s \<noteq> None then (1, s)
         else
           (let accountCount = r_zcard R accountRegular s + r_zcard R accountLive s;
                userCount = r_zcard R userRegular s + r_zcard R userLive s;
                allowance = (if replacing = 1 then 1 else 0)
            in if accountMax > 0 \<and> accountCount \<ge> accountMax + allowance then (0, s)
               else if userMax > 0 \<and> userCount \<ge> userMax + allowance then (0, s)
               else
                 (let s = r_zadd R accountLive now leaseID s;
                      s = r_zadd R userLive now leaseID s;
                      s = r_zadd R apiLive now leaseID s;
                      s = r_expire R accountLive ttl s;
                      s = r_expire R userLive ttl s;
                      s = r_expire R apiLive ttl s
                  in (1, s))))"

text \<open>
  The first loop of the refresh script prunes and checks key by key and returns at the first key
  that lost the lease; the second loop refreshes every key.
\<close>

fun refreshLiveLeaseCheck :: "'r redis_ops \<Rightarrow> string list \<Rightarrow> int \<Rightarrow> string \<Rightarrow> 'r \<Rightarrow> bool \<times> 'r" where
  "refreshLiveLeaseCheck R [] expireBefore leaseID s = (True, s)"
| "refreshLiveLeaseCheck R (key # keys) expireBefore leaseID s =
     (let s = r_zremrangebyscore R key expireBefore s
      in if r_zscore R key leaseID s = None then (False, s)
         else refreshLiveLeaseCheck R keys expireBefore leaseID s)"

definition refreshLiveLeaseScript :: "'r redis_ops \<Rightarrow> string list \<Rightarrow> int \<Rightarrow> string \<Rightarrow> 'r \<Rightarrow> int \<times> 'r" where
  "refreshLiveLeaseScript R keys ttl leaseID s =
     (let now = r_time R s;
          expireBefore = now - ttl;
          (ok, s) = refreshLiveLeaseCheck R keys expireBefore leaseID s
      in if \<not> ok then (0, s)
         else (1, fold (\<lambda>key s. r_expire R key ttl (r_zadd R key now leaseID s)) keys s))"

definition trackSlotScript :: "'r redis_ops \<Rightarrow> string \<Rightarrow> int \<Rightarrow> string \<Rightarrow> 'r \<Rightarrow> int \<times> 'r" where
  "trackSlotScript R key ttl requestID s =
     (let now = r_time R s;
          expireBefore = now - ttl;
          s = r_zremrangebyscore R key expireBefore s;
          s = r_zadd R key now requestID s
      in (1, r_expire R key ttl s))"

definition acquireOpenAIWSIngressLeaseScript ::
  "'r redis_ops \<Rightarrow> string \<Rightarrow> int \<Rightarrow> int \<Rightarrow> string \<Rightarrow> 'r \<Rightarrow> int \<times> 'r" where
  "acquireOpenAIWSIngressLeaseScript R key maxConnections ttl leaseID s =
     (let now = r_time R s;
          expireBefore = now - ttl;
          s = r_zremrangebyscore R key expireBefore s
      in if r_zscore R key leaseID s \<noteq> None then (1, r_expire R key ttl (r_zadd R key now leaseID s))
         else if r_zcard R key s < maxConnections then (1, r_expire R key ttl (r_zadd R key now leaseID s))
         else (0, s))"

definition refreshOpenAIWSIngressLeaseScript :: "'r redis_ops \<Rightarrow> string \<Rightarrow> int \<Rightarrow> string \<Rightarrow> 'r \<Rightarrow> int \<times> 'r" where
  "refreshOpenAIWSIngressLeaseScript R key ttl leaseID s =
     (let now = r_time R s;
          expireBefore = now - ttl;
          s = r_zremrangebyscore R key expireBefore s
      in if r_zscore R key leaseID s = None then (0, s)
         else (1, r_expire R key ttl (r_zadd R key now leaseID s)))"

definition incrementWaitScript :: "'r redis_ops \<Rightarrow> string \<Rightarrow> int \<Rightarrow> int \<Rightarrow> 'r \<Rightarrow> (int \<times> int) \<times> 'r" where
  "incrementWaitScript R key maxWait ttl s =
     (let current = (case r_get R key s of None \<Rightarrow> 0 | Some n \<Rightarrow> n);
          now = r_time R s
      in if current \<ge> maxWait then ((0, now), s)
         else ((1, now), r_expire R key ttl (r_incrby R key 1 s)))"

definition incrementAccountWaitScript :: "'r redis_ops \<Rightarrow> string \<Rightarrow> int \<Rightarrow> int \<Rightarrow> 'r \<Rightarrow> (int \<times> int) \<times> 'r" where
  "incrementAccountWaitScript R key maxWait ttl s =
     (let current = (case r_get R key s of None \<Rightarrow> 0 | Some n \<Rightarrow> n);
          now = r_time R s
      in if current \<ge> maxWait then ((0, now), s)
         else ((1, now), r_expire R key ttl (r_incrby R key 1 s)))"

definition decrementWaitScript :: "'r redis_ops \<Rightarrow> string \<Rightarrow> 'r \<Rightarrow> int \<times> 'r" where
  "decrementWaitScript R key s =
     (case r_get R key s of
        None \<Rightarrow> (1, s)
      | Some current \<Rightarrow> (1, if current > 0 then r_incrby R key (- 1) s else s))"

definition cleanupExpiredSlotsScript :: "'r redis_ops \<Rightarrow> string \<Rightarrow> int \<Rightarrow> 'r \<Rightarrow> int \<times> 'r" where
  "cleanupExpiredSlotsScript R key ttl s =
     (let now = r_time R s;
          expireBefore = now - ttl;
          s = r_zremrangebyscore R key expireBefore s
      in (1, if r_zcard R key s = 0 then r_del R key s else r_expire R key ttl s))"

text \<open>\<^verbatim>\<open>string.sub(member, 1, #prefix) ~= prefix\<close> is: the prefix is not a prefix of the member.\<close>

fun removeForeignMembers :: "'r redis_ops \<Rightarrow> string \<Rightarrow> string \<Rightarrow> string list \<Rightarrow> int \<Rightarrow> 'r \<Rightarrow> int \<times> 'r" where
  "removeForeignMembers R key activePrefix [] removed s = (removed, s)"
| "removeForeignMembers R key activePrefix (member # members) removed s =
     (if take (length activePrefix) member \<noteq> activePrefix
      then removeForeignMembers R key activePrefix members
             (removed + (if r_zscore R key member s = None then 0 else 1)) (r_zrem R key member s)
      else removeForeignMembers R key activePrefix members removed s)"

definition startupCleanupSlotScript :: "'r redis_ops \<Rightarrow> string \<Rightarrow> string \<Rightarrow> int \<Rightarrow> 'r \<Rightarrow> (int \<times> int) \<times> 'r" where
  "startupCleanupSlotScript R key activePrefix slotTTL s =
     (let (removed, s) = removeForeignMembers R key activePrefix (r_zrange R key s) 0 s;
          remaining = r_zcard R key s
      in ((removed, remaining), if remaining = 0 then r_del R key s else r_expire R key slotTTL s))"

subsection \<open>The active index\<close>

record slotIndexSpec =
  indexKey :: string
  slotKey :: "int \<Rightarrow> string"
  waitKey :: "int \<Rightarrow> string"

definition accountSlotIndex :: slotIndexSpec where
  "accountSlotIndex = \<lparr>indexKey = accountActiveIndexKey, slotKey = accountSlotKey, waitKey = accountWaitKey\<rparr>"

definition userSlotIndex :: slotIndexSpec where
  "userSlotIndex = \<lparr>indexKey = userActiveIndexKey, slotKey = userSlotKey, waitKey = waitQueueKey\<rparr>"

record activeIndexLoad =
  load_id :: int
  load_member :: string
  slotCount :: int
  waitCount :: int

definition redisUnixSeconds :: "'r redis_ops \<Rightarrow> 'r \<Rightarrow> (string + int) \<times> 'r" where
  "redisUnixSeconds R = roundtrip R (\<lambda>s. (r_time R s, s))"

text \<open>Index maintenance is best effort: its errors are logged and dropped, so only the state is returned.\<close>

definition touchActiveIndexAt :: "'r redis_ops \<Rightarrow> string \<Rightarrow> int \<Rightarrow> int \<Rightarrow> 'r \<Rightarrow> 'r" where
  "touchActiveIndexAt R index i expireAt s =
     (if i \<le> 0 \<or> expireAt \<le> 0 then s
      else snd (roundtrip R (\<lambda>s. ((), r_zadd R index expireAt (itoa i) s)) s))"

definition activeIndexTTL :: "concurrencyCache \<Rightarrow> int \<Rightarrow> int \<Rightarrow> int" where
  "activeIndexTTL c slots waits =
     (let ttlSeconds = (if slots > 0 then slotTTLSeconds c else 0)
      in if waits > 0 \<and> waitQueueTTLSeconds c > ttlSeconds then waitQueueTTLSeconds c else ttlSeconds)"

definition readActiveLoadForKey ::
  "'r redis_ops \<Rightarrow> concurrencyCache \<Rightarrow> int \<Rightarrow> string \<Rightarrow> string \<Rightarrow> int \<Rightarrow> 'r \<Rightarrow> (string + activeIndexLoad) \<times> 'r" where
  "readActiveLoadForKey R c i slot wait now =
     then_ok
       (roundtrip R (\<lambda>s. let s = r_zremrangebyscore R slot (now - slotTTLSeconds c) s
                         in ((r_zcard R slot s, r_get R wait s), s)))
       (\<lambda>(zcard, got) s.
          (Inr \<lparr>load_id = i, load_member = itoa i, slotCount = zcard,
                waitCount = (case got of Some v \<Rightarrow> if v > 0 then v else 0 | None \<Rightarrow> 0)\<rparr>, s))"

definition refreshActiveIndex ::
  "'r redis_ops \<Rightarrow> concurrencyCache \<Rightarrow> string \<Rightarrow> int \<Rightarrow> string \<Rightarrow> string \<Rightarrow> 'r \<Rightarrow> 'r" where
  "refreshActiveIndex R c index i slot wait s =
     (if i \<le> 0 then s
      else case redisUnixSeconds R s of
        (Inl err, s) \<Rightarrow> s
      | (Inr now, s) \<Rightarrow>
          (case readActiveLoadForKey R c i slot wait now s of
             (Inl err, s) \<Rightarrow> s
           | (Inr ld, s) \<Rightarrow>
               if slotCount ld = 0 \<and> waitCount ld \<le> 0
               then snd (roundtrip R (\<lambda>s. ((), r_zrem R index (itoa i) s)) s)
               else
                 (let ttlSeconds = activeIndexTTL c (slotCount ld) (waitCount ld)
                  in if ttlSeconds \<le> 0 then s
                     else touchActiveIndexAt R index i (now + ttlSeconds) s)))"

definition refreshAccountActiveIndex :: "'r redis_ops \<Rightarrow> concurrencyCache \<Rightarrow> int \<Rightarrow> 'r \<Rightarrow> 'r" where
  "refreshAccountActiveIndex R c a =
     refreshActiveIndex R c accountActiveIndexKey a (accountSlotKey a) (accountWaitKey a)"

definition refreshUserActiveIndex :: "'r redis_ops \<Rightarrow> concurrencyCache \<Rightarrow> int \<Rightarrow> 'r \<Rightarrow> 'r" where
  "refreshUserActiveIndex R c u =
     refreshActiveIndex R c userActiveIndexKey u (userSlotKey u) (waitQueueKey u)"

subsection \<open>Slots of accounts, users and API keys\<close>

definition AcquireAccountSlot ::
  "'r redis_ops \<Rightarrow> concurrencyCache \<Rightarrow> int \<Rightarrow> int \<Rightarrow> string \<Rightarrow> 'r \<Rightarrow> (string + bool) \<times> 'r" where
  "AcquireAccountSlot R c accountID maxConcurrency requestID =
     then_ok
       (roundtrip R (acquireScript R (accountSlotKey accountID) (liveAccountSlotKey accountID) maxConcurrency
                       (slotTTLSeconds c) requestID))
       (\<lambda>(result, now) s.
          (Inr (result = 1),
           if result = 1 then touchActiveIndexAt R accountActiveIndexKey accountID (now + slotTTLSeconds c) s else s))"

definition ReleaseAccountSlot ::
  "'r redis_ops \<Rightarrow> concurrencyCache \<Rightarrow> int \<Rightarrow> string \<Rightarrow> 'r \<Rightarrow> (string + unit) \<times> 'r" where
  "ReleaseAccountSlot R c accountID requestID =
     then_ok (roundtrip R (\<lambda>s. ((), r_zrem R (accountSlotKey accountID) requestID s)))
       (\<lambda>_ s. (Inr (), refreshAccountActiveIndex R c accountID s))"

definition GetAccountConcurrency :: "'r redis_ops \<Rightarrow> concurrencyCache \<Rightarrow> int \<Rightarrow> 'r \<Rightarrow> (string + int) \<times> 'r" where
  "GetAccountConcurrency R c accountID =
     roundtrip R (getCountScript R (accountSlotKey accountID) (liveAccountSlotKey accountID) (slotTTLSeconds c))"

definition AcquireUserSlot ::
  "'r redis_ops \<Rightarrow> concurrencyCache \<Rightarrow> int \<Rightarrow> int \<Rightarrow> string \<Rightarrow> 'r \<Rightarrow> (string + bool) \<times> 'r" where
  "AcquireUserSlot R c userID maxConcurrency requestID =
     then_ok
       (roundtrip R (acquireScript R (userSlotKey userID) (liveUserSlotKey userID) maxConcurrency
                       (slotTTLSeconds c) requestID))
       (\<lambda>(result, now) s.
          (Inr (result = 1),
           if result = 1 then touchActiveIndexAt R userActiveIndexKey userID (now + slotTTLSeconds c) s else s))"

definition ReleaseUserSlot ::
  "'r redis_ops \<Rightarrow> concurrencyCache \<Rightarrow> int \<Rightarrow> string \<Rightarrow> 'r \<Rightarrow> (string + unit) \<times> 'r" where
  "ReleaseUserSlot R c userID requestID =
     then_ok (roundtrip R (\<lambda>s. ((), r_zrem R (userSlotKey userID) requestID s)))
       (\<lambda>_ s. (Inr (), refreshUserActiveIndex R c userID s))"

definition GetUserConcurrency :: "'r redis_ops \<Rightarrow> concurrencyCache \<Rightarrow> int \<Rightarrow> 'r \<Rightarrow> (string + int) \<times> 'r" where
  "GetUserConcurrency R c userID =
     roundtrip R (getCountScript R (userSlotKey userID) (liveUserSlotKey userID) (slotTTLSeconds c))"

definition TrackAPIKeySlot ::
  "'r redis_ops \<Rightarrow> concurrencyCache \<Rightarrow> int \<Rightarrow> string \<Rightarrow> 'r \<Rightarrow> (string + unit) \<times> 'r" where
  "TrackAPIKeySlot R c apiKeyID requestID =
     then_ok (roundtrip R (trackSlotScript R (apiKeySlotKey apiKeyID) (slotTTLSeconds c) requestID))
       (\<lambda>_ s. (Inr (), s))"

definition ReleaseAPIKeySlot :: "'r redis_ops \<Rightarrow> int \<Rightarrow> string \<Rightarrow> 'r \<Rightarrow> (string + unit) \<times> 'r" where
  "ReleaseAPIKeySlot R apiKeyID requestID =
     roundtrip R (\<lambda>s. ((), r_zrem R (apiKeySlotKey apiKeyID) requestID s))"

text \<open>
  The batch readers send, for each id, the two prunings and the two counts in one pipeline; the result
  is the Go map from id to the sum of the counts.
\<close>

fun countPipeline ::
  "'r redis_ops \<Rightarrow> string \<Rightarrow> string \<Rightarrow> int \<Rightarrow> int \<Rightarrow> int list \<Rightarrow> 'r \<Rightarrow> (int \<times> int) list \<times> 'r" where
  "countPipeline R slotPrefix livePrefix cutoff liveCutoff [] s = ([], s)"
| "countPipeline R slotPrefix livePrefix cutoff liveCutoff (i # is) s =
     (let slot = slotPrefix @ itoa i;
          live = livePrefix @ itoa i;
          s = r_zremrangebyscore R slot cutoff s;
          s = r_zremrangebyscore R live liveCutoff s;
          n = r_zcard R slot s + r_zcard R live s;
          (rest, s) = countPipeline R slotPrefix livePrefix cutoff liveCutoff is s
      in ((i, n) # rest, s))"

definition fill_map :: "('k \<times> 'v) list \<Rightarrow> ('k \<rightharpoonup> 'v)" where
  "fill_map kvs = fold (\<lambda>(k, v) m. m(k \<mapsto> v)) kvs Map.empty"

definition GetAccountConcurrencyBatch ::
  "'r redis_ops \<Rightarrow> concurrencyCache \<Rightarrow> int list \<Rightarrow> 'r \<Rightarrow> (string + (int \<rightharpoonup> int)) \<times> 'r" where
  "GetAccountConcurrencyBatch R c accountIDs s =
     (if accountIDs = [] then (Inr Map.empty, s)
      else then_ok (redisUnixSeconds R)
             (\<lambda>now. then_ok
                (roundtrip R (countPipeline R accountSlotKeyPrefix liveAccountSlotKeyPrefix
                                (now - slotTTLSeconds c) (now - liveLeaseTTLSeconds) accountIDs))
                (\<lambda>counts s. (Inr (fill_map counts), s))) s)"

definition GetAPIKeyConcurrencyBatch ::
  "'r redis_ops \<Rightarrow> concurrencyCache \<Rightarrow> int list \<Rightarrow> 'r \<Rightarrow> (string + (int \<rightharpoonup> int)) \<times> 'r" where
  "GetAPIKeyConcurrencyBatch R c apiKeyIDs s =
     (if apiKeyIDs = [] then (Inr Map.empty, s)
      else then_ok (redisUnixSeconds R)
             (\<lambda>now. then_ok
                (roundtrip R (countPipeline R apiKeySlotKeyPrefix liveAPIKeySlotKeyPrefix
                                (now - slotTTLSeconds c) (now - liveLeaseTTLSeconds) apiKeyIDs))
                (\<lambda>counts s. (Inr (fill_map counts), s))) s)"

subsection \<open>Leases of WebSocket ingress and live sessions\<close>

definition AcquireOpenAIWSIngressLease ::
  "'r redis_ops \<Rightarrow> int \<Rightarrow> int \<Rightarrow> string \<Rightarrow> 'r \<Rightarrow> (string + bool) \<times> 'r" where
  "AcquireOpenAIWSIngressLease R apiKeyID maxConnections leaseID s =
     (if apiKeyID \<le> 0 \<or> maxConnections \<le> 0 \<or> leaseID = [] then (Inr False, s)
      else then_ok
        (roundtrip R (acquireOpenAIWSIngressLeaseScript R (openAIWSIngressLeaseKey apiKeyID) maxConnections
                        openAIWSIngressLeaseTTLSeconds leaseID))
        (\<lambda>result s. (Inr (result = 1), s)) s)"

definition RefreshOpenAIWSIngressLease :: "'r redis_ops \<Rightarrow> int \<Rightarrow> string \<Rightarrow> 'r \<Rightarrow> (string + bool) \<times> 'r" where
  "RefreshOpenAIWSIngressLease R apiKeyID leaseID s =
     (if apiKeyID \<le> 0 \<or> leaseID = [] then (Inr False, s)
      else then_ok
        (roundtrip R (refreshOpenAIWSIngressLeaseScript R (openAIWSIngressLeaseKey apiKeyID)
                        openAIWSIngressLeaseTTLSeconds leaseID))
        (\<lambda>result s. (Inr (result = 1), s)) s)"

definition ReleaseOpenAIWSIngressLease :: "'r redis_ops \<Rightarrow> int \<Rightarrow> string \<Rightarrow> 'r \<Rightarrow> (string + unit) \<times> 'r" where
  "ReleaseOpenAIWSIngressLease R apiKeyID leaseID s =
     (if apiKeyID \<le> 0 \<or> leaseID = [] then (Inr (), s)
      else roundtrip R (\<lambda>s. ((), r_zrem R (openAIWSIngressLeaseKey apiKeyID) leaseID s)) s)"

definition AcquireLiveLease ::
  "'r redis_ops \<Rightarrow> int \<Rightarrow> int \<Rightarrow> int \<Rightarrow> int \<Rightarrow> int \<Rightarrow> string \<Rightarrow> bool \<Rightarrow> 'r \<Rightarrow> (string + bool) \<times> 'r" where
  "AcquireLiveLease R accountID accountMax userID userMax apiKeyID leaseID replacingRegularSlots s =
     (if accountID \<le> 0 \<or> userID \<le> 0 \<or> apiKeyID \<le> 0 \<or> leaseID = [] then (Inr False, s)
      else
        (let replacing = (if replacingRegularSlots then 1 else 0)
         in then_ok
              (roundtrip R (acquireLiveLeaseScript R (accountSlotKey accountID) (liveAccountSlotKey accountID)
                 (userSlotKey userID) (liveUserSlotKey userID) (liveAPIKeySlotKey apiKeyID)
                 accountMax userMax liveLeaseTTLSeconds leaseID replacing))
              (\<lambda>result s. (Inr (result = 1), s)) s))"

definition liveLeaseKeys :: "int \<Rightarrow> int \<Rightarrow> int \<Rightarrow> string list" where
  "liveLeaseKeys accountID userID apiKeyID =
     [liveAccountSlotKey accountID, liveUserSlotKey userID, liveAPIKeySlotKey apiKeyID]"

definition RefreshLiveLease :: "'r redis_ops \<Rightarrow> int \<Rightarrow> int \<Rightarrow> int \<Rightarrow> string \<Rightarrow> 'r \<Rightarrow> (string + bool) \<times> 'r" where
  "RefreshLiveLease R accountID userID apiKeyID leaseID s =
     (if leaseID = [] then (Inr False, s)
      else then_ok
        (roundtrip R (refreshLiveLeaseScript R (liveLeaseKeys accountID userID apiKeyID) liveLeaseTTLSeconds leaseID))
        (\<lambda>result s. (Inr (result = 1), s)) s)"

definition ReleaseLiveLease :: "'r redis_ops \<Rightarrow> int \<Rightarrow> int \<Rightarrow> int \<Rightarrow> string \<Rightarrow> 'r \<Rightarrow> (string + unit) \<times> 'r" where
  "ReleaseLiveLease R accountID userID apiKeyID leaseID s =
     (if leaseID = [] then (Inr (), s)
      else roundtrip R
        (\<lambda>s. ((), fold (\<lambda>key. r_zrem R key leaseID) (liveLeaseKeys accountID userID apiKeyID) s)) s)"

subsection \<open>Wait queues\<close>

definition IncrementWaitCount ::
  "'r redis_ops \<Rightarrow> concurrencyCache \<Rightarrow> int \<Rightarrow> int \<Rightarrow> 'r \<Rightarrow> (string + bool) \<times> 'r" where
  "IncrementWaitCount R c userID maxWait =
     then_ok (roundtrip R (incrementWaitScript R (waitQueueKey userID) maxWait (waitQueueTTLSeconds c)))
       (\<lambda>(result, now) s.
          (Inr (result = 1),
           if result = 1 then touchActiveIndexAt R userActiveIndexKey userID (now + waitQueueTTLSeconds c) s else s))"

definition DecrementWaitCount :: "'r redis_ops \<Rightarrow> concurrencyCache \<Rightarrow> int \<Rightarrow> 'r \<Rightarrow> (string + unit) \<times> 'r" where
  "DecrementWaitCount R c userID =
     then_ok (roundtrip R (decrementWaitScript R (waitQueueKey userID)))
       (\<lambda>_ s. (Inr (), refreshUserActiveIndex R c userID s))"

definition IncrementAccountWaitCount ::
  "'r redis_ops \<Rightarrow> concurrencyCache \<Rightarrow> int \<Rightarrow> int \<Rightarrow> 'r \<Rightarrow> (string + bool) \<times> 'r" where
  "IncrementAccountWaitCount R c accountID maxWait =
     then_ok (roundtrip R (incrementAccountWaitScript R (accountWaitKey accountID) maxWait (waitQueueTTLSeconds c)))
       (\<lambda>(result, now) s.
          (Inr (result = 1),
           if result = 1 then touchActiveIndexAt R accountActiveIndexKey accountID (now + waitQueueTTLSeconds c) s
           else s))"

definition DecrementAccountWaitCount :: "'r redis_ops \<Rightarrow> concurrencyCache \<Rightarrow> int \<Rightarrow> 'r \<Rightarrow> (string + unit) \<times> 'r" where
  "DecrementAccountWaitCount R c accountID =
     then_ok (roundtrip R (decrementWaitScript R (accountWaitKey accountID)))
       (\<lambda>_ s. (Inr (), refreshAccountActiveIndex R c accountID s))"

definition GetAccountWaitingCount :: "'r redis_ops \<Rightarrow> int \<Rightarrow> 'r \<Rightarrow> (string + int) \<times> 'r" where
  "GetAccountWaitingCount R accountID =
     then_ok (roundtrip R (\<lambda>s. (r_get R (accountWaitKey accountID) s, s)))
       (\<lambda>got s. (Inr (case got of None \<Rightarrow> 0 | Some val \<Rightarrow> val), s))"

subsection \<open>Load of accounts and users\<close>

record loadInfo =
  info_id :: int
  CurrentConcurrency :: int
  WaitingCount :: int
  LoadRate :: int

fun loadPipeline ::
  "'r redis_ops \<Rightarrow> string \<Rightarrow> string \<Rightarrow> string \<Rightarrow> int \<Rightarrow> int \<Rightarrow> (int \<times> int) list \<Rightarrow> 'r \<Rightarrow>
   (int \<times> int \<times> int \<times> int option) list \<times> 'r" where
  "loadPipeline R slotPrefix livePrefix waitPrefix cutoff liveCutoff [] s = ([], s)"
| "loadPipeline R slotPrefix livePrefix waitPrefix cutoff liveCutoff ((i, maxConcurrency) # is) s =
     (let slot = slotPrefix @ itoa i;
          live = livePrefix @ itoa i;
          s = r_zremrangebyscore R slot cutoff s;
          s = r_zremrangebyscore R live liveCutoff s;
          cmd = (i, maxConcurrency, r_zcard R slot s + r_zcard R live s, r_get R (waitPrefix @ itoa i) s);
          (rest, s) = loadPipeline R slotPrefix livePrefix waitPrefix cutoff liveCutoff is s
      in (cmd # rest, s))"

definition load_info :: "int \<times> int \<times> int \<times> int option \<Rightarrow> int \<times> loadInfo" where
  "load_info cmd =
     (case cmd of (i, maxConcurrency, currentConcurrency, got) \<Rightarrow>
        let waitingCount = (case got of None \<Rightarrow> 0 | Some v \<Rightarrow> v);
            loadRate = (if maxConcurrency > 0
                        then go_div ((currentConcurrency + waitingCount) * 100) maxConcurrency else 0)
        in (i, \<lparr>info_id = i, CurrentConcurrency = currentConcurrency, WaitingCount = waitingCount,
                LoadRate = loadRate\<rparr>))"

definition GetAccountsLoadBatch ::
  "'r redis_ops \<Rightarrow> concurrencyCache \<Rightarrow> (int \<times> int) list \<Rightarrow> 'r \<Rightarrow> (string + (int \<rightharpoonup> loadInfo)) \<times> 'r" where
  "GetAccountsLoadBatch R c accounts s =
     (if accounts = [] then (Inr Map.empty, s)
      else then_ok (redisUnixSeconds R)
             (\<lambda>now. then_ok
                (roundtrip R (loadPipeline R accountSlotKeyPrefix liveAccountSlotKeyPrefix accountWaitKeyPrefix
                                (now - slotTTLSeconds c) (now - liveLeaseTTLSeconds) accounts))
                (\<lambda>cmds s. (Inr (fill_map (map load_info cmds)), s))) s)"

definition GetUsersLoadBatch ::
  "'r redis_ops \<Rightarrow> concurrencyCache \<Rightarrow> (int \<times> int) list \<Rightarrow> 'r \<Rightarrow> (string + (int \<rightharpoonup> loadInfo)) \<times> 'r" where
  "GetUsersLoadBatch R c users s =
     (if users = [] then (Inr Map.empty, s)
      else then_ok (redisUnixSeconds R)
             (\<lambda>now. then_ok
                (roundtrip R (loadPipeline R userSlotKeyPrefix liveUserSlotKeyPrefix waitQueueKeyPrefix
                                (now - slotTTLSeconds c) (now - liveLeaseTTLSeconds) users))
                (\<lambda>cmds s. (Inr (fill_map (map load_info cmds)), s))) s)"

subsection \<open>Background and startup cleanup\<close>

definition CleanupExpiredAccountSlots ::
  "'r redis_ops \<Rightarrow> concurrencyCache \<Rightarrow> int \<Rightarrow> 'r \<Rightarrow> (string + unit) \<times> 'r" where
  "CleanupExpiredAccountSlots R c accountID =
     then_ok (roundtrip R (cleanupExpiredSlotsScript R (accountSlotKey accountID) (slotTTLSeconds c)))
       (\<lambda>_ s. (Inr (), refreshAccountActiveIndex R c accountID s))"

text \<open>\<^verbatim>\<open>readIndexLoads\<close>: members that are not positive ids are stale, the others are read in chunks.\<close>

fun split_candidates :: "string list \<Rightarrow> (int \<times> string) list \<times> string list" where
  "split_candidates [] = ([], [])"
| "split_candidates (member # members) =
     (let (candidates, stale) = split_candidates members
      in case parse_int64 member of
           None \<Rightarrow> (candidates, member # stale)
         | Some i \<Rightarrow> if i \<le> 0 then (candidates, member # stale) else ((i, member) # candidates, stale))"

fun indexPipeline ::
  "'r redis_ops \<Rightarrow> slotIndexSpec \<Rightarrow> int \<Rightarrow> (int \<times> string) list \<Rightarrow> 'r \<Rightarrow> activeIndexLoad list \<times> 'r" where
  "indexPipeline R spec cutoff [] s = ([], s)"
| "indexPipeline R spec cutoff ((i, member) # cs) s =
     (let s = r_zremrangebyscore R (slotKey spec i) cutoff s;
          ld = \<lparr>load_id = i, load_member = member, slotCount = r_zcard R (slotKey spec i) s,
                waitCount = (case r_get R (waitKey spec i) s of Some v \<Rightarrow> if v > 0 then v else 0 | None \<Rightarrow> 0)\<rparr>;
          (rest, s) = indexPipeline R spec cutoff cs s
      in (ld # rest, s))"

function readChunks ::
  "'r redis_ops \<Rightarrow> slotIndexSpec \<Rightarrow> int \<Rightarrow> (int \<times> string) list \<Rightarrow> 'r \<Rightarrow> (string + activeIndexLoad list) \<times> 'r" where
  "readChunks R spec cutoff candidates s =
     (if candidates = [] then (Inr [], s)
      else then_ok (roundtrip R (indexPipeline R spec cutoff (take activeIndexPipelineChunkSize candidates)))
             (\<lambda>loads. then_ok (readChunks R spec cutoff (drop activeIndexPipelineChunkSize candidates))
                (\<lambda>rest s. (Inr (loads @ rest), s))) s)"
  by pat_completeness auto
termination
  by (relation "measure (\<lambda>(R, spec, cutoff, candidates, s). length candidates)")
    (auto simp: activeIndexPipelineChunkSize_def)

declare readChunks.simps [simp del]

definition readIndexLoads ::
  "'r redis_ops \<Rightarrow> concurrencyCache \<Rightarrow> slotIndexSpec \<Rightarrow> string list \<Rightarrow> int \<Rightarrow> 'r \<Rightarrow>
   (string + activeIndexLoad list \<times> string list) \<times> 'r" where
  "readIndexLoads R c spec members now =
     (let (candidates, staleMembers) = split_candidates members
      in then_ok (readChunks R spec (now - slotTTLSeconds c) candidates)
           (\<lambda>loads s. (Inr (loads, staleMembers), s)))"

definition removeActiveIndexMembers :: "'r redis_ops \<Rightarrow> string \<Rightarrow> string list \<Rightarrow> 'r \<Rightarrow> 'r" where
  "removeActiveIndexMembers R index members s =
     (if members = [] then s else snd (roundtrip R (\<lambda>s. ((), fold (r_zrem R index) members s)) s))"

definition addActiveIndexMembers :: "'r redis_ops \<Rightarrow> string \<Rightarrow> (int \<times> string) list \<Rightarrow> 'r \<Rightarrow> 'r" where
  "addActiveIndexMembers R index refreshed s =
     (if refreshed = [] then s
      else snd (roundtrip R (\<lambda>s. ((), fold (\<lambda>(score, member). r_zadd R index score member) refreshed s)) s))"

definition load_is_empty :: "activeIndexLoad \<Rightarrow> bool" where
  "load_is_empty ld \<longleftrightarrow> slotCount ld = 0 \<and> waitCount ld \<le> 0"

definition reconcileExpiredIndexCandidates ::
  "'r redis_ops \<Rightarrow> concurrencyCache \<Rightarrow> slotIndexSpec \<Rightarrow> 'r \<Rightarrow> (string + unit) \<times> 'r" where
  "reconcileExpiredIndexCandidates R c spec =
     then_ok (redisUnixSeconds R) (\<lambda>now.
     then_ok (roundtrip R (\<lambda>s. (r_zrangebyscore R (indexKey spec) now activeIndexCleanupBatchSize s, s))) (\<lambda>members.
     then_ok (readIndexLoads R c spec members now) (\<lambda>(loads, staleMembers) s.
       let stale = staleMembers @ map load_member (filter load_is_empty loads);
           refreshed = map (\<lambda>ld. (now + activeIndexTTL c (slotCount ld) (waitCount ld), load_member ld))
                         (filter (\<lambda>ld. \<not> load_is_empty ld) loads);
           s = addActiveIndexMembers R (indexKey spec) refreshed s;
           s = removeActiveIndexMembers R (indexKey spec) stale s
       in (Inr (), s))))"

definition CleanupExpiredAccountSlotKeys ::
  "'r redis_ops \<Rightarrow> concurrencyCache \<Rightarrow> 'r \<Rightarrow> (string + unit) \<times> 'r" where
  "CleanupExpiredAccountSlotKeys R c =
     then_ok (reconcileExpiredIndexCandidates R c accountSlotIndex)
       (\<lambda>_. reconcileExpiredIndexCandidates R c userSlotIndex)"

text \<open>
  The one-time sweep deletes the wait counters page by page. A complete \<^verbatim>\<open>SCAN\<close> iteration is the list
  of pages it returns.
\<close>

fun deletePages :: "'r redis_ops \<Rightarrow> string list list \<Rightarrow> 'r \<Rightarrow> (string + unit) \<times> 'r" where
  "deletePages R [] s = (Inr (), s)"
| "deletePages R (keys # pages) s =
     (if keys = [] then deletePages R pages s
      else then_ok (roundtrip R (\<lambda>s. ((), fold (r_del R) keys s))) (\<lambda>_. deletePages R pages) s)"

definition sweepPattern :: "'r redis_ops \<Rightarrow> string \<Rightarrow> 'r \<Rightarrow> (string + unit) \<times> 'r" where
  "sweepPattern R keyPrefix =
     then_ok (roundtrip R (\<lambda>s. (r_scan R keyPrefix s, s))) (deletePages R)"

definition sweepLegacyWaitKeysOnce :: "'r redis_ops \<Rightarrow> 'r \<Rightarrow> (string + unit) \<times> 'r" where
  "sweepLegacyWaitKeysOnce R =
     then_ok (roundtrip R (\<lambda>s. (r_exists R legacyWaitSweepMarkerKey s, s)))
       (\<lambda>exists s. if exists then (Inr (), s)
         else then_ok (sweepPattern R accountWaitKeyPrefix) (\<lambda>_.
              then_ok (sweepPattern R waitQueueKeyPrefix) (\<lambda>_.
              roundtrip R (\<lambda>s. ((), r_set R legacyWaitSweepMarkerKey 1 s)))) s)"

definition allIndexMembers :: "'r redis_ops \<Rightarrow> string \<Rightarrow> 'r \<Rightarrow> (string + string list) \<times> 'r" where
  "allIndexMembers R index = roundtrip R (\<lambda>s. (r_zrange R index s, s))"

fun cleanupStaleLoop ::
  "'r redis_ops \<Rightarrow> concurrencyCache \<Rightarrow> slotIndexSpec \<Rightarrow> string \<Rightarrow> int \<Rightarrow> string list \<Rightarrow> 'r \<Rightarrow>
   (string + (int \<times> string) list \<times> string list) \<times> 'r" where
  "cleanupStaleLoop R c spec activePrefix now [] s = (Inr ([], []), s)"
| "cleanupStaleLoop R c spec activePrefix now (member # members) s =
     (case parse_int64 member of
        None \<Rightarrow> then_ok (cleanupStaleLoop R c spec activePrefix now members)
                  (\<lambda>(refreshed, stale) s. (Inr (refreshed, member # stale), s)) s
      | Some i \<Rightarrow>
          if i \<le> 0 then then_ok (cleanupStaleLoop R c spec activePrefix now members)
                          (\<lambda>(refreshed, stale) s. (Inr (refreshed, member # stale), s)) s
          else
            then_ok (roundtrip R (startupCleanupSlotScript R (slotKey spec i) activePrefix (slotTTLSeconds c)))
              (\<lambda>(_, remaining).
                 then_ok (roundtrip R (\<lambda>s. ((), r_del R (waitKey spec i) s))) (\<lambda>_.
                 then_ok (cleanupStaleLoop R c spec activePrefix now members) (\<lambda>(refreshed, stale) s.
                   (Inr (if remaining > 0 then ((now + slotTTLSeconds c, member) # refreshed, stale)
                         else (refreshed, member # stale)), s)))) s)"

definition cleanupStaleProcessSlotsForIndex ::
  "'r redis_ops \<Rightarrow> concurrencyCache \<Rightarrow> slotIndexSpec \<Rightarrow> string list \<Rightarrow> string \<Rightarrow> int \<Rightarrow> 'r \<Rightarrow> (string + unit) \<times> 'r" where
  "cleanupStaleProcessSlotsForIndex R c spec members activePrefix now =
     then_ok (cleanupStaleLoop R c spec activePrefix now members)
       (\<lambda>(refreshed, stale) s.
          (Inr (), removeActiveIndexMembers R (indexKey spec) stale
                     (addActiveIndexMembers R (indexKey spec) refreshed s)))"

definition CleanupStaleProcessSlots ::
  "'r redis_ops \<Rightarrow> concurrencyCache \<Rightarrow> string \<Rightarrow> 'r \<Rightarrow> (string + unit) \<times> 'r" where
  "CleanupStaleProcessSlots R c activeRequestPrefix s =
     (if activeRequestPrefix = [] then (Inr (), s)
      else
        then_ok (sweepLegacyWaitKeysOnce R) (\<lambda>_.
        then_ok (redisUnixSeconds R) (\<lambda>now.
        then_ok (allIndexMembers R accountActiveIndexKey) (\<lambda>accountMembers.
        then_ok (cleanupStaleProcessSlotsForIndex R c accountSlotIndex accountMembers activeRequestPrefix now) (\<lambda>_.
        then_ok (allIndexMembers R userActiveIndexKey) (\<lambda>userMembers.
        cleanupStaleProcessSlotsForIndex R c userSlotIndex userMembers activeRequestPrefix now))))) s)"

subsection \<open>The cache as a state machine\<close>

text \<open>
  The calls the rest of the program makes, and a run: any sequence of calls by any number of processes
  and of clock ticks of the server. Each call is run to its end; the scripts are atomic in Redis, and what
  a method does after its script is index maintenance.
\<close>

datatype cc_op =
    OpAcquireAccount int int string
  | OpReleaseAccount int string
  | OpAcquireUser int int string
  | OpReleaseUser int string
  | OpTrackAPIKey int string
  | OpReleaseAPIKey int string
  | OpAcquireIngress int int string
  | OpRefreshIngress int string
  | OpReleaseIngress int string
  | OpAcquireLive int int int int int string bool
  | OpRefreshLive int int int string
  | OpReleaseLive int int int string
  | OpIncrementWait int int
  | OpDecrementWait int
  | OpIncrementAccountWait int int
  | OpDecrementAccountWait int
  | OpGetAccountConcurrency int
  | OpGetUserConcurrency int
  | OpGetAccountConcurrencyBatch "int list"
  | OpGetAPIKeyConcurrencyBatch "int list"
  | OpGetAccountWaitingCount int
  | OpGetAccountsLoadBatch "(int \<times> int) list"
  | OpGetUsersLoadBatch "(int \<times> int) list"
  | OpCleanupExpiredAccountSlots int
  | OpCleanupExpiredAccountSlotKeys
  | OpCleanupStaleProcessSlots string

fun run_op :: "'r redis_ops \<Rightarrow> concurrencyCache \<Rightarrow> cc_op \<Rightarrow> 'r \<Rightarrow> 'r" where
  "run_op R c (OpAcquireAccount a mx rid) s = snd (AcquireAccountSlot R c a mx rid s)"
| "run_op R c (OpReleaseAccount a rid) s = snd (ReleaseAccountSlot R c a rid s)"
| "run_op R c (OpAcquireUser u mx rid) s = snd (AcquireUserSlot R c u mx rid s)"
| "run_op R c (OpReleaseUser u rid) s = snd (ReleaseUserSlot R c u rid s)"
| "run_op R c (OpTrackAPIKey k rid) s = snd (TrackAPIKeySlot R c k rid s)"
| "run_op R c (OpReleaseAPIKey k rid) s = snd (ReleaseAPIKeySlot R k rid s)"
| "run_op R c (OpAcquireIngress k mx l) s = snd (AcquireOpenAIWSIngressLease R k mx l s)"
| "run_op R c (OpRefreshIngress k l) s = snd (RefreshOpenAIWSIngressLease R k l s)"
| "run_op R c (OpReleaseIngress k l) s = snd (ReleaseOpenAIWSIngressLease R k l s)"
| "run_op R c (OpAcquireLive a amx u umx k l replacing) s = snd (AcquireLiveLease R a amx u umx k l replacing s)"
| "run_op R c (OpRefreshLive a u k l) s = snd (RefreshLiveLease R a u k l s)"
| "run_op R c (OpReleaseLive a u k l) s = snd (ReleaseLiveLease R a u k l s)"
| "run_op R c (OpIncrementWait u mx) s = snd (IncrementWaitCount R c u mx s)"
| "run_op R c (OpDecrementWait u) s = snd (DecrementWaitCount R c u s)"
| "run_op R c (OpIncrementAccountWait a mx) s = snd (IncrementAccountWaitCount R c a mx s)"
| "run_op R c (OpDecrementAccountWait a) s = snd (DecrementAccountWaitCount R c a s)"
| "run_op R c (OpGetAccountConcurrency a) s = snd (GetAccountConcurrency R c a s)"
| "run_op R c (OpGetUserConcurrency u) s = snd (GetUserConcurrency R c u s)"
| "run_op R c (OpGetAccountConcurrencyBatch as) s = snd (GetAccountConcurrencyBatch R c as s)"
| "run_op R c (OpGetAPIKeyConcurrencyBatch ks) s = snd (GetAPIKeyConcurrencyBatch R c ks s)"
| "run_op R c (OpGetAccountWaitingCount a) s = snd (GetAccountWaitingCount R a s)"
| "run_op R c (OpGetAccountsLoadBatch as) s = snd (GetAccountsLoadBatch R c as s)"
| "run_op R c (OpGetUsersLoadBatch us) s = snd (GetUsersLoadBatch R c us s)"
| "run_op R c (OpCleanupExpiredAccountSlots a) s = snd (CleanupExpiredAccountSlots R c a s)"
| "run_op R c OpCleanupExpiredAccountSlotKeys s = snd (CleanupExpiredAccountSlotKeys R c s)"
| "run_op R c (OpCleanupStaleProcessSlots p) s = snd (CleanupStaleProcessSlots R c p s)"

inductive cc_run ::
  "'r redis_ops \<Rightarrow> ('r \<Rightarrow> redis_view) \<Rightarrow> concurrencyCache \<Rightarrow> (cc_op \<Rightarrow> bool) \<Rightarrow> 'r \<Rightarrow> 'r \<Rightarrow> bool"
  for R view c allowed
where
  run_start: "cc_run R view c allowed s s"
| run_call: "cc_run R view c allowed s t \<Longrightarrow> allowed op \<Longrightarrow> cc_run R view c allowed s (run_op R c op t)"
| run_tick: "cc_run R view c allowed s t \<Longrightarrow> view u = v_tick d (view t) \<Longrightarrow> cc_run R view c allowed s u"

end
