(* ===== verification/ConcurrencyProofs.thy ===== *)
theory ConcurrencyProofs
  imports ConcurrencyCache
begin

section \<open>The concurrency cache: limits, re-entry, leases, cleanup\<close>

text \<open>
  The lemmas about the scripts and methods of \<^verbatim>\<open>concurrency_cache.go\<close>. The lemmas inside
  \<^verbatim>\<open>context redis\<close> hold for every server that behaves as documented; the properties at the end of the
  theory state the ones that matter with that assumption written out.
\<close>

subsection \<open>Keys\<close>

lemmas key_defs = accountSlotKeyPrefix_def userSlotKeyPrefix_def apiKeySlotKeyPrefix_def
  liveAccountSlotKeyPrefix_def liveUserSlotKeyPrefix_def liveAPIKeySlotKeyPrefix_def
  openAIWSIngressLeaseKeyPrefix_def waitQueueKeyPrefix_def accountWaitKeyPrefix_def
  accountActiveIndexKey_def userActiveIndexKey_def legacyWaitSweepMarkerKey_def
  accountSlotKey_def userSlotKey_def apiKeySlotKey_def liveAccountSlotKey_def liveUserSlotKey_def
  liveAPIKeySlotKey_def openAIWSIngressLeaseKey_def waitQueueKey_def accountWaitKey_def

lemma itoa_not_name [simp]: "itoa n \<noteq> ''active_index''" "''active_index'' \<noteq> itoa n"
proof -
  have no: "nat_digits k \<noteq> CHR ''a'' # cs" for k cs
    using nat_digits_hd [of k "CHR ''a''"] by (auto simp: is_digit_def)
  show "itoa n \<noteq> ''active_index''"
    using no by (simp add: itoa_def)
  then show "''active_index'' \<noteq> itoa n" by (rule not_sym)
qed

lemma slot_key_neq [simp]:
  "accountSlotKey a \<noteq> liveAccountSlotKey b" "liveAccountSlotKey b \<noteq> accountSlotKey a"
  "accountSlotKey a \<noteq> userSlotKey b" "userSlotKey b \<noteq> accountSlotKey a"
  "accountSlotKey a \<noteq> apiKeySlotKey b" "apiKeySlotKey b \<noteq> accountSlotKey a"
  "accountSlotKey a \<noteq> liveUserSlotKey b" "liveUserSlotKey b \<noteq> accountSlotKey a"
  "accountSlotKey a \<noteq> liveAPIKeySlotKey b" "liveAPIKeySlotKey b \<noteq> accountSlotKey a"
  "accountSlotKey a \<noteq> openAIWSIngressLeaseKey b" "openAIWSIngressLeaseKey b \<noteq> accountSlotKey a"
  "accountSlotKey a \<noteq> accountActiveIndexKey" "accountActiveIndexKey \<noteq> accountSlotKey a"
  "accountSlotKey a \<noteq> userActiveIndexKey" "userActiveIndexKey \<noteq> accountSlotKey a"
  "accountSlotKey a = accountSlotKey b \<longleftrightarrow> a = b"
  by (simp_all add: key_defs)

lemma live_key_neq [simp]:
  "liveAccountSlotKey a \<noteq> userSlotKey b" "userSlotKey b \<noteq> liveAccountSlotKey a"
  "liveAccountSlotKey a \<noteq> apiKeySlotKey b" "apiKeySlotKey b \<noteq> liveAccountSlotKey a"
  "liveAccountSlotKey a \<noteq> liveUserSlotKey b" "liveUserSlotKey b \<noteq> liveAccountSlotKey a"
  "liveAccountSlotKey a \<noteq> liveAPIKeySlotKey b" "liveAPIKeySlotKey b \<noteq> liveAccountSlotKey a"
  "liveAccountSlotKey a \<noteq> openAIWSIngressLeaseKey b" "openAIWSIngressLeaseKey b \<noteq> liveAccountSlotKey a"
  "liveAccountSlotKey a \<noteq> accountActiveIndexKey" "accountActiveIndexKey \<noteq> liveAccountSlotKey a"
  "liveAccountSlotKey a \<noteq> userActiveIndexKey" "userActiveIndexKey \<noteq> liveAccountSlotKey a"
  "liveAccountSlotKey a = liveAccountSlotKey b \<longleftrightarrow> a = b"
  "userSlotKey a \<noteq> liveUserSlotKey b" "liveUserSlotKey b \<noteq> userSlotKey a"
  "userSlotKey a \<noteq> liveAPIKeySlotKey b" "liveAPIKeySlotKey b \<noteq> userSlotKey a"
  "liveUserSlotKey a \<noteq> liveAPIKeySlotKey b" "liveAPIKeySlotKey b \<noteq> liveUserSlotKey a"
  "userSlotKey a \<noteq> accountActiveIndexKey" "accountActiveIndexKey \<noteq> userSlotKey a"
  "userSlotKey a \<noteq> userActiveIndexKey" "userActiveIndexKey \<noteq> userSlotKey a"
  "userSlotKey a = userSlotKey b \<longleftrightarrow> a = b"
  by (simp_all add: key_defs)

subsection \<open>The acquire script\<close>

text \<open>The slots of an account: the request slots and the live leases.\<close>

definition account_load :: "redis_view \<Rightarrow> int \<Rightarrow> int" where
  "account_load v a = zmembers v (accountSlotKey a) + zmembers v (liveAccountSlotKey a)"

context redis
begin

text \<open>The acquire script, on every branch.\<close>

lemma acquireScript_cases:
  assumes run: "acquireScript R k lk mx ttl rid s = ((r, now), t)" and "k \<noteq> lk" "0 < ttl"
  defines "v \<equiv> view s"
  shows "now = clock v" "clock (view t) = clock v" "strs (view t) = strs v"
    "zsets (view t) lk = live 60 v lk"
    "k' \<noteq> k \<Longrightarrow> k' \<noteq> lk \<Longrightarrow> zsets (view t) k' = zsets v k'"
    "r = 1 \<longleftrightarrow> live ttl v k rid \<noteq> None \<or> live_count ttl v k + live_count 60 v lk < mx"
    "r \<noteq> 1 \<Longrightarrow> r = 0"
    "r = 1 \<Longrightarrow> zsets (view t) k = (live ttl v k)(rid \<mapsto> clock v)"
    "r \<noteq> 1 \<Longrightarrow> zsets (view t) k = live ttl v k"
  using assms
  by (auto simp: acquireScript_def Let_def view_simps live_def live_count_def v_zcard_def v_def
      split: if_splits)

lemma acquireScript_keep_r:
  "acquireScript R k lk mx ttl rid s = (p, t) \<Longrightarrow> fst p = 0 \<or> fst p = 1"
  by (auto simp: acquireScript_def Let_def split: if_splits)

end

subsection \<open>Operations that never add a member to some sets\<close>

context redis
begin

lemma shrinks_touch [shrink_intros]:
  "index \<notin> K \<Longrightarrow> shrinks K (view s) (view (touchActiveIndexAt R index i e s))"
  by (auto simp: touchActiveIndexAt_def view_simps intro!: shrinks_roundtrip)

lemma shrinks_redisUnixSeconds [shrink_intros]: "shrinks K (view s) (view (snd (redisUnixSeconds R s)))"
  by (auto simp: redisUnixSeconds_def intro!: shrinks_roundtrip)

lemma shrinks_readActiveLoad [shrink_intros]:
  "shrinks K (view s) (view (snd (readActiveLoadForKey R c i slot wait now s)))"
  by (auto simp: readActiveLoadForKey_def view_simps Let_def intro!: shrinks_then_ok shrinks_roundtrip)

lemma shrinks_zrem_trip [shrink_intros]:
  "shrinks K (view s) (view (snd (roundtrip R (\<lambda>s. (x, r_zrem R k m s)) s)))"
  by (auto simp: view_simps intro!: shrinks_roundtrip)

lemma shrinks_refreshActiveIndex [shrink_intros]:
  assumes "index \<notin> K"
  shows "shrinks K (view s) (view (refreshActiveIndex R c index i slot wait s))"
proof -
  have 1: "shrinks K (view s) (view t)" if "redisUnixSeconds R s = (x, t)" for x t
    using shrinks_redisUnixSeconds [of K s] that by simp
  have 2: "shrinks K (view t) (view u)" if "readActiveLoadForKey R c i slot wait now t = (x, u)" for now t x u
    using shrinks_readActiveLoad [of K t] that by (metis snd_conv)
  have 3: "shrinks K (view s) w"
    if "redisUnixSeconds R s = (x, t)" "readActiveLoadForKey R c i slot wait now t = (y, u)" "shrinks K (view u) w"
    for x t now y u w
    using 1 [OF that(1)] 2 [OF that(2)] that(3) by (blast intro: shrinks_trans)
  show ?thesis
    using assms
    by (auto simp: refreshActiveIndex_def Let_def split: prod.splits sum.splits
        intro: 1 3 shrink_intros intro!: shrinks_refl)
qed

lemma shrinks_refreshIndexes [shrink_intros]:
  "accountActiveIndexKey \<notin> K \<Longrightarrow> shrinks K (view s) (view (refreshAccountActiveIndex R c a s))"
  "userActiveIndexKey \<notin> K \<Longrightarrow> shrinks K (view s) (view (refreshUserActiveIndex R c a s))"
  by (simp_all add: refreshAccountActiveIndex_def refreshUserActiveIndex_def shrink_intros)

lemma shrinks_scripts:
  "shrinks K (view s) (view (snd (getCountScript R k lk ttl s)))"
  "k \<notin> K \<Longrightarrow> shrinks K (view s) (view (snd (acquireScript R k lk mx ttl rid s)))"
  "shrinks K (view s) (view (snd (incrementWaitScript R k mx ttl s)))"
  "shrinks K (view s) (view (snd (incrementAccountWaitScript R k mx ttl s)))"
  "shrinks K (view s) (view (snd (decrementWaitScript R k s)))"
  "shrinks K (view s) (view (snd (cleanupExpiredSlotsScript R k ttl s)))"
  "k \<notin> K \<Longrightarrow> shrinks K (view s) (view (snd (trackSlotScript R k ttl rid s)))"
  "k \<notin> K \<Longrightarrow> shrinks K (view s) (view (snd (acquireOpenAIWSIngressLeaseScript R k mx ttl rid s)))"
  by (auto simp: getCountScript_def acquireScript_def incrementWaitScript_def incrementAccountWaitScript_def
      decrementWaitScript_def cleanupExpiredSlotsScript_def trackSlotScript_def
      acquireOpenAIWSIngressLeaseScript_def Let_def view_simps
      intro!: shrinks_v_step split: option.splits)

text \<open>A lease that is refreshed was there, so a refresh adds no member.\<close>

lemma refresh_check_other:
  assumes "refreshLiveLeaseCheck R keys b lease s = (ok, t)" "k \<notin> set keys"
  shows "zsets (view t) k = zsets (view s) k"
  using assms
  by (induction keys arbitrary: s) (fastforce simp: Let_def view_simps split: if_splits)+

lemma refresh_check_view:
  assumes "refreshLiveLeaseCheck R keys b lease s = (ok, t)"
  shows "shrinks K (view s) (view t)" "clock (view t) = clock (view s)"
    "ok \<Longrightarrow> distinct keys \<Longrightarrow> k \<in> set keys \<Longrightarrow> lease \<in> dom (zsets (view t) k)"
  using assms
proof (induction keys arbitrary: s)
  case (Cons key keys)
  have first: "shrinks K (view s) (view (r_zremrangebyscore R key b s))" for s by (simp add: view_simps)
  {
    case (1 s)
    then show ?case
      using Cons.IH(1) first by (auto simp: Let_def split: if_splits intro: shrinks_trans)
  next
    case (2 s)
    then show ?case using Cons.IH(2) by (fastforce simp: Let_def view_simps split: if_splits)
  next
    case (3 s)
    let ?s = "r_zremrangebyscore R key b s"
    from 3 have rest: "refreshLiveLeaseCheck R keys b lease ?s = (ok, t)" and "lease \<in> dom (zsets (view ?s) key)"
      by (auto simp: Let_def view_simps split: if_splits)
    moreover have "zsets (view t) key = zsets (view ?s) key"
      using refresh_check_other [OF rest] 3 by simp
    ultimately show ?case
      using Cons.IH(3) rest 3 by (cases "k = key") auto
  }
qed auto

lemma refresh_loop_dom:
  assumes "\<And>k. k \<in> set keys \<Longrightarrow> lease \<in> dom (zsets (view s) k)" "0 < ttl"
  shows "dom (zsets (view (fold (\<lambda>key s. r_expire R key ttl (r_zadd R key now lease s)) keys s)) k) = dom (zsets (view s) k)"
  using assms(1)
proof (induction keys arbitrary: s)
  case (Cons key keys)
  let ?s = "r_expire R key ttl (r_zadd R key now lease s)"
  have dom: "dom (zsets (view ?s) k') = dom (zsets (view s) k')" for k'
    using Cons.prems assms(2) by (auto simp: view_simps)
  with Cons show ?case by simp
qed simp

lemma shrinks_refresh_script:
  assumes "distinct keys" "0 < ttl"
  shows "shrinks K (view s) (view (snd (refreshLiveLeaseScript R keys ttl lease s)))"
proof -
  obtain ok t where t: "refreshLiveLeaseCheck R keys (r_time R s - ttl) lease s = (ok, t)"
    by (cases "refreshLiveLeaseCheck R keys (r_time R s - ttl) lease s")
  have sh: "shrinks K (view s) (view t)" by (rule refresh_check_view(1) [OF t])
  show ?thesis
  proof (cases ok)
    case True
    then have "shrinks K (view t) (view (fold (\<lambda>key s. r_expire R key ttl (r_zadd R key (r_time R s') lease s)) keys t))" for s'
      unfolding shrinks_def
      using refresh_loop_dom [OF refresh_check_view(3) [OF t True assms(1)] assms(2)] by blast
    with sh show ?thesis
      using t True by (auto simp: refreshLiveLeaseScript_def Let_def intro: shrinks_trans)
  qed (use sh t in \<open>auto simp: refreshLiveLeaseScript_def Let_def\<close>)
qed

subsection \<open>The live-lease script\<close>

lemma card_insert_dom: "finite (dom z) \<Longrightarrow> m \<notin> dom z \<Longrightarrow> card (dom (z(m \<mapsto> sc))) = Suc (card (dom z))"
  by simp

lemma acquireLiveLease_other:
  assumes "acquireLiveLeaseScript R ar al ur ul apil amax umax ttl lease rep s = (r, t)"
    and "k \<notin> {al, ul, apil}" "0 < ttl"
  shows "zsets (view t) k = zsets (view s) k"
  using assms by (auto simp: acquireLiveLeaseScript_def Let_def view_simps split: if_splits)

lemma acquireLiveLease_load:
  assumes run: "acquireLiveLeaseScript R ar al ur ul apil amax umax ttl lease rep s = (r, t)"
    and distinct: "distinct [ar, al, ur, ul, apil]" and "0 < ttl" "0 < amax"
  shows "zmembers (view t) ar + zmembers (view t) al \<le>
         max (zmembers (view s) ar + zmembers (view s) al) (amax + (if rep = 1 then 1 else 0))"
proof -
  let ?v = "view s"
  let ?z = "zkeep (\<lambda>sc. clock ?v - ttl < sc) (zsets ?v al)"
  have fin: "finite (dom ?z)" using finite_dom_zset dom_zkeep_subset by (rule finite_subset [rotated])
  have ar: "zsets (view t) ar = zsets ?v ar"
    by (rule acquireLiveLease_other [OF run]) (use distinct assms(3) in auto)
  have le: "card (dom ?z) \<le> card (dom (zsets ?v al))"
    by (rule card_mono [OF finite_dom_zset dom_zkeep_subset])
  have "zsets (view t) al = ?z \<or>
        (zsets (view t) al = ?z(lease \<mapsto> clock ?v) \<and> lease \<notin> dom ?z \<and>
         int (card (dom (zsets ?v ar))) + int (card (dom ?z)) < amax + (if rep = 1 then 1 else 0))"
    using run distinct assms(3,4)
    by (auto simp: acquireLiveLeaseScript_def Let_def view_simps v_zcard_def zkeep_None split: if_splits)
  then show ?thesis
  proof
    assume "zsets (view t) al = ?z"
    with ar le show ?thesis by (simp add: zmembers_def)
  next
    assume "zsets (view t) al = ?z(lease \<mapsto> clock ?v) \<and> lease \<notin> dom ?z \<and>
         int (card (dom (zsets ?v ar))) + int (card (dom ?z)) < amax + (if rep = 1 then 1 else 0)"
    with ar fin show ?thesis by (auto simp: zmembers_def)
  qed
qed

lemma acquireScript_load:
  assumes run: "acquireScript R k lk mx ttl rid s = (p, t)" and "k \<noteq> lk" "0 < ttl"
  shows "zmembers (view t) k + zmembers (view t) lk \<le> max (zmembers (view s) k + zmembers (view s) lk) mx"
proof -
  obtain r now where p: "p = (r, now)" by (cases p)
  note c = acquireScript_cases [OF run [unfolded p] assms(2,3)]
  have lk: "zmembers (view t) lk \<le> zmembers (view s) lk"
    using live_count_le [of 60 s lk] by (simp add: c(4) zmembers_def live_count_def)
  have fin: "finite (dom (live ttl (view s) k))" by simp
  show ?thesis
  proof (cases "r = 1")
    case False
    then have "zmembers (view t) k \<le> zmembers (view s) k"
      using c(9) live_count_le [of ttl s k] by (simp add: zmembers_def live_count_def)
    with lk show ?thesis by simp
  next
    case True
    note z = c(8) [OF True]
    show ?thesis
    proof (cases "live ttl (view s) k rid")
      case None
      with True c(6) have "live_count ttl (view s) k + live_count 60 (view s) lk < mx" by simp
      with None show ?thesis
        using fin by (auto simp: zmembers_def live_count_def z c(4) domIff)
    next
      case (Some y)
      then have "dom ((live ttl (view s) k)(rid \<mapsto> clock (view s))) = dom (live ttl (view s) k)" by auto
      then have "zmembers (view t) k \<le> zmembers (view s) k"
        using live_count_le [of ttl s k] by (simp only: zmembers_def live_count_def z)
      with lk show ?thesis by simp
    qed
  qed
qed

subsection \<open>The methods and the load of an account\<close>

lemma account_load_shrinks:
  assumes "shrinks {accountSlotKey a, liveAccountSlotKey a} (view s) v"
  shows "account_load v a \<le> account_load (view s) a"
  using shrinks_members [OF assms, of "accountSlotKey a"] shrinks_members [OF assms, of "liveAccountSlotKey a"]
  by (simp add: account_load_def)

end

definition keeps_load :: "int \<Rightarrow> int \<Rightarrow> redis_view \<Rightarrow> redis_view \<Rightarrow> bool" where
  "keeps_load a B v v' \<longleftrightarrow> (account_load v a \<le> B \<longrightarrow> account_load v' a \<le> B)"

lemma keeps_load_refl [simp]: "keeps_load a B v v"
  by (simp add: keeps_load_def)

lemma keeps_load_trans: "keeps_load a B u v \<Longrightarrow> keeps_load a B v w \<Longrightarrow> keeps_load a B u w"
  by (simp add: keeps_load_def)

context redis
begin

lemma keeps_load_roundtrip:
  "(\<And>t. keeps_load a B (view t) (view (snd (cmd t)))) \<Longrightarrow>
   keeps_load a B (view s) (view (snd (roundtrip R cmd s)))"
  by (rule roundtrip_rel) auto

lemma keeps_load_then_ok:
  "keeps_load a B (view s) (view (snd (m s))) \<Longrightarrow> (\<And>x t. keeps_load a B (view t) (view (snd (f x t)))) \<Longrightarrow>
   keeps_load a B (view s) (view (snd (then_ok m f s)))"
  by (rule then_ok_rel) (auto intro: keeps_load_trans)

lemma shrinks_keeps_load:
  "shrinks {accountSlotKey a, liveAccountSlotKey a} (view s) v \<Longrightarrow> keeps_load a B (view s) v"
  using account_load_shrinks [of a s v] by (simp add: keeps_load_def)

lemma AcquireAccountSlot_keeps_load:
  assumes "0 < slotTTLSeconds c" "mx \<le> B"
  shows "keeps_load a B (view s) (view (snd (AcquireAccountSlot R c a mx rid s)))"
proof -
  have "keeps_load a B (view t) (view (snd (acquireScript R (accountSlotKey a) (liveAccountSlotKey a) mx
          (slotTTLSeconds c) rid t)))" for t
    using acquireScript_load [OF prod.collapse [symmetric], of "accountSlotKey a" "liveAccountSlotKey a"
        "slotTTLSeconds c" mx rid t] assms
    by (auto simp: keeps_load_def account_load_def)
  then show ?thesis
    unfolding AcquireAccountSlot_def
    by (intro keeps_load_then_ok keeps_load_roundtrip)
      (auto intro!: shrinks_keeps_load shrinks_touch split: prod.splits)
qed

lemma AcquireLiveLease_keeps_load:
  assumes "0 < mx" "mx + (if rep then 1 else 0) \<le> B"
  shows "keeps_load a B (view s) (view (snd (AcquireLiveLease R a mx u umx kid lease rep s)))"
proof -
  have "keeps_load a B (view t) (view (snd (acquireLiveLeaseScript R (accountSlotKey a) (liveAccountSlotKey a)
          (userSlotKey u) (liveUserSlotKey u) (liveAPIKeySlotKey kid)
          mx umx liveLeaseTTLSeconds lease (if rep then 1 else 0) t)))" for t
    using acquireLiveLease_load [OF prod.collapse [symmetric], of "accountSlotKey a" "liveAccountSlotKey a"
        "userSlotKey u" "liveUserSlotKey u" "liveAPIKeySlotKey kid" liveLeaseTTLSeconds mx umx lease
        "if rep then 1 else 0" t] assms
    by (auto simp: keeps_load_def account_load_def liveLeaseTTLSeconds_def split: if_splits)
  then show ?thesis
    unfolding AcquireLiveLease_def Let_def
    by (auto intro!: keeps_load_then_ok keeps_load_roundtrip)
qed

text \<open>Every other method leaves the slots of an account alone or removes some.\<close>

lemmas shrinks_rules = shrinks_then_ok shrinks_roundtrip shrinks_scripts shrink_intros

lemma zrem_fold_shrinks: "shrinks K (view s) (view (fold (\<lambda>key. r_zrem R key m) keys s))"
  by (rule fold_rel) (auto intro: shrinks_trans simp: view_simps)

lemma zadd_fold_shrinks:
  "index \<notin> K \<Longrightarrow> shrinks K (view s) (view (fold (\<lambda>(score, member). r_zadd R index score member) ms s))"
  by (rule fold_rel) (auto intro: shrinks_trans simp: view_simps)

lemma zrem_members_shrinks: "shrinks K (view s) (view (fold (r_zrem R index) ms s))"
  by (rule fold_rel) (auto intro: shrinks_trans simp: view_simps)

lemma del_fold_shrinks: "shrinks K (view s) (view (fold (r_del R) ks s))"
  by (rule fold_rel) (auto intro: shrinks_trans simp: view_simps)

lemma countPipeline_shrinks: "shrinks K (view s) (view (snd (countPipeline R p q b b' is s)))"
proof (induction "is" arbitrary: s)
  case (Cons i "is")
  let ?s = "r_zremrangebyscore R (q @ itoa i) b' (r_zremrangebyscore R (p @ itoa i) b s)"
  have "shrinks K (view s) (view ?s)" by (auto simp: view_simps intro!: shrinks_v_step)
  with Cons.IH [of ?s] show ?case by (auto simp: Let_def split: prod.splits intro: shrinks_trans)
qed simp

lemma loadPipeline_shrinks: "shrinks K (view s) (view (snd (loadPipeline R p q w b b' is s)))"
proof (induction "is" arbitrary: s)
  case (Cons im "is")
  obtain i m where im: "im = (i, m)" by (cases im)
  let ?s = "r_zremrangebyscore R (q @ itoa i) b' (r_zremrangebyscore R (p @ itoa i) b s)"
  have "shrinks K (view s) (view ?s)" by (auto simp: view_simps intro!: shrinks_v_step)
  with Cons.IH [of ?s] show ?case by (auto simp: im Let_def split: prod.splits intro: shrinks_trans)
qed simp

lemma indexPipeline_shrinks: "shrinks K (view s) (view (snd (indexPipeline R spec b cs s)))"
proof (induction cs arbitrary: s)
  case (Cons im cs)
  obtain i m where im: "im = (i, m)" by (cases im)
  let ?s = "r_zremrangebyscore R (slotKey spec i) b s"
  have "shrinks K (view s) (view ?s)" by (auto simp: view_simps intro!: shrinks_v_step)
  with Cons.IH [of ?s] show ?case by (auto simp: im Let_def split: prod.splits intro: shrinks_trans)
qed simp

lemma readChunks_shrinks: "shrinks K (view s) (view (snd (readChunks R spec b cs s)))"
proof (induction cs arbitrary: s rule: length_induct)
  case (1 cs)
  show ?case
  proof (cases "cs = []")
    case True
    then show ?thesis by (subst readChunks.simps) simp
  next
    case False
    show ?thesis
      by (subst readChunks.simps)
        (use 1 False in \<open>auto simp: activeIndexPipelineChunkSize_def
          intro!: shrinks_then_ok shrinks_roundtrip indexPipeline_shrinks\<close>)
  qed
qed

lemma readIndexLoads_shrinks: "shrinks K (view s) (view (snd (readIndexLoads R c spec ms now s)))"
  by (auto simp: readIndexLoads_def split: prod.splits intro!: shrinks_then_ok readChunks_shrinks)

lemma index_members_shrinks:
  "shrinks K (view s) (view (removeActiveIndexMembers R index ms s))"
  "index \<notin> K \<Longrightarrow> shrinks K (view s) (view (addActiveIndexMembers R index zs s))"
  by (auto simp: removeActiveIndexMembers_def addActiveIndexMembers_def
      intro!: shrinks_roundtrip zrem_members_shrinks zadd_fold_shrinks)

lemma reconcile_shrinks:
  assumes "indexKey spec \<notin> K"
  shows "shrinks K (view s) (view (snd (reconcileExpiredIndexCandidates R c spec s)))"
proof -
  have "shrinks K (view t) (view (removeActiveIndexMembers R i xs (addActiveIndexMembers R (indexKey spec) ys t)))"
    for i xs ys t
    by (rule shrinks_trans [OF index_members_shrinks(2) [OF assms] index_members_shrinks(1)])
  then show ?thesis
    by (auto simp: reconcileExpiredIndexCandidates_def Let_def
        intro!: shrinks_then_ok shrinks_roundtrip shrink_intros readIndexLoads_shrinks split: prod.splits)
qed

lemma deletePages_shrinks: "shrinks K (view s) (view (snd (deletePages R pages s)))"
  by (induction pages arbitrary: s)
    (auto intro!: shrinks_then_ok shrinks_roundtrip del_fold_shrinks)

lemma sweep_shrinks: "shrinks K (view s) (view (snd (sweepLegacyWaitKeysOnce R s)))"
  by (auto simp: sweepLegacyWaitKeysOnce_def sweepPattern_def view_simps
      intro!: shrinks_then_ok shrinks_roundtrip deletePages_shrinks)

lemma removeForeign_shrinks: "shrinks K (view s) (view (snd (removeForeignMembers R k p ms n s)))"
proof (induction ms arbitrary: n s)
  case (Cons m ms)
  have "shrinks K (view s) (view (r_zrem R k m s))" by (simp add: view_simps)
  with Cons show ?case by (auto intro: shrinks_trans)
qed simp

lemma startupScript_shrinks: "shrinks K (view s) (view (snd (startupCleanupSlotScript R k p ttl s)))"
proof -
  obtain n t where t: "removeForeignMembers R k p (r_zrange R k s) 0 s = (n, t)"
    by (cases "removeForeignMembers R k p (r_zrange R k s) 0 s")
  then have "shrinks K (view s) (view t)"
    using removeForeign_shrinks [of K s k p "r_zrange R k s" 0] by simp
  with t show ?thesis
    by (auto simp: startupCleanupSlotScript_def Let_def view_simps intro!: shrinks_v_step)
qed

lemma cleanupStaleLoop_shrinks: "shrinks K (view s) (view (snd (cleanupStaleLoop R c spec p now ms s)))"
proof (induction ms arbitrary: s)
  case (Cons m ms)
  then show ?case
    by (auto simp: view_simps intro!: shrinks_then_ok shrinks_roundtrip startupScript_shrinks
        split: option.splits prod.splits)
qed simp

lemma cleanupStale_shrinks:
  assumes "accountActiveIndexKey \<notin> K" "userActiveIndexKey \<notin> K"
  shows "shrinks K (view s) (view (snd (CleanupStaleProcessSlots R c p s)))"
proof -
  have index: "shrinks K (view t) (view (snd (cleanupStaleProcessSlotsForIndex R c spec ms p now t)))"
    if "indexKey spec \<notin> K" for spec ms now t
  proof -
    have "shrinks K (view u) (view (removeActiveIndexMembers R i xs (addActiveIndexMembers R (indexKey spec) ys u)))"
      for i xs ys u
      by (rule shrinks_trans [OF index_members_shrinks(2) [OF that] index_members_shrinks(1)])
    then show ?thesis
      by (auto simp: cleanupStaleProcessSlotsForIndex_def intro!: shrinks_then_ok cleanupStaleLoop_shrinks
          split: prod.splits)
  qed
  show ?thesis
    using assms
    by (auto simp: CleanupStaleProcessSlots_def allIndexMembers_def accountSlotIndex_def userSlotIndex_def
        intro!: shrinks_then_ok shrinks_roundtrip sweep_shrinks shrink_intros index)
qed

lemma refreshLive_shrinks: "shrinks K (view s) (view (snd (RefreshLiveLease R a u k l s)))"
proof -
  have "shrinks K (view t) (view (snd (refreshLiveLeaseScript R (liveLeaseKeys a u k) liveLeaseTTLSeconds l t)))" for t
    by (rule shrinks_refresh_script) (auto simp: liveLeaseKeys_def liveLeaseTTLSeconds_def)
  then show ?thesis
    by (auto simp: RefreshLiveLease_def intro!: shrinks_then_ok shrinks_roundtrip)
qed

lemma refreshIngress_shrinks:
  "openAIWSIngressLeaseKey k \<notin> K \<Longrightarrow> shrinks K (view s) (view (snd (RefreshOpenAIWSIngressLease R k l s)))"
  by (auto simp: RefreshOpenAIWSIngressLease_def refreshOpenAIWSIngressLeaseScript_def view_simps Let_def
      intro!: shrinks_then_ok shrinks_roundtrip shrinks_v_step)

lemma acquireLiveScript_shrinks:
  assumes "{al, ul, apil} \<inter> K = {}"
  shows "shrinks K (view s) (view (snd (acquireLiveLeaseScript R ar al ur ul apil amx umx ttl l rep s)))"
proof -
  let ?b = "r_time R s - ttl"
  let ?t = "r_zremrangebyscore R apil ?b (r_zremrangebyscore R ul ?b (r_zremrangebyscore R al ?b s))"
  let ?z = "\<lambda>k. r_zadd R k (r_time R s) l"
  let ?u = "r_expire R apil ttl (r_expire R ul ttl (r_expire R al ttl (?z apil (?z ul (?z al ?t)))))"
  have "snd (acquireLiveLeaseScript R ar al ur ul apil amx umx ttl l rep s) \<in> {?t, ?u}"
    by (simp add: acquireLiveLeaseScript_def Let_def)
  moreover have "shrinks K (view s) (view ?t)"
    unfolding view_simps by (intro shrinks_v_step shrinks_refl)
  moreover have "shrinks K (view ?t) (view ?u)"
    unfolding view_simps using assms by (intro shrinks_v_step shrinks_refl) auto
  ultimately show ?thesis by (auto intro: shrinks_trans)
qed

lemma slot_methods_shrinks:
  "accountSlotKey b \<notin> K \<Longrightarrow> accountActiveIndexKey \<notin> K \<Longrightarrow>
   shrinks K (view s) (view (snd (AcquireAccountSlot R c b mx rid s)))"
  "userSlotKey u \<notin> K \<Longrightarrow> userActiveIndexKey \<notin> K \<Longrightarrow>
   shrinks K (view s) (view (snd (AcquireUserSlot R c u mx rid s)))"
  "apiKeySlotKey k \<notin> K \<Longrightarrow> shrinks K (view s) (view (snd (TrackAPIKeySlot R c k rid s)))"
  "openAIWSIngressLeaseKey k \<notin> K \<Longrightarrow>
   shrinks K (view s) (view (snd (AcquireOpenAIWSIngressLease R k mx rid s)))"
  by (auto simp: AcquireAccountSlot_def AcquireUserSlot_def TrackAPIKeySlot_def AcquireOpenAIWSIngressLease_def
      intro!: shrinks_then_ok shrinks_roundtrip shrinks_scripts shrinks_touch split: prod.splits)

lemma acquireLive_shrinks:
  "{liveAccountSlotKey b, liveUserSlotKey u, liveAPIKeySlotKey k} \<inter> K = {} \<Longrightarrow>
   shrinks K (view s) (view (snd (AcquireLiveLease R b mx u umx k l rep s)))"
  unfolding AcquireLiveLease_def Let_def
  by (simp, intro conjI impI shrinks_then_ok shrinks_roundtrip acquireLiveScript_shrinks) auto

lemma release_methods_shrinks:
  "accountActiveIndexKey \<notin> K \<Longrightarrow> shrinks K (view s) (view (snd (ReleaseAccountSlot R c b rid s)))"
  "userActiveIndexKey \<notin> K \<Longrightarrow> shrinks K (view s) (view (snd (ReleaseUserSlot R c b rid s)))"
  "shrinks K (view s) (view (snd (ReleaseAPIKeySlot R b rid s)))"
  "shrinks K (view s) (view (snd (ReleaseOpenAIWSIngressLease R b rid s)))"
  "shrinks K (view s) (view (snd (ReleaseLiveLease R b u k rid s)))"
  by (auto simp: ReleaseAccountSlot_def ReleaseUserSlot_def ReleaseAPIKeySlot_def
      ReleaseOpenAIWSIngressLease_def ReleaseLiveLease_def
      intro!: shrinks_then_ok shrinks_zrem_trip shrinks_refreshIndexes zrem_fold_shrinks
      intro: shrinks_roundtrip)

lemma wait_methods_shrinks:
  "userActiveIndexKey \<notin> K \<Longrightarrow> shrinks K (view s) (view (snd (IncrementWaitCount R c b mx s)))"
  "userActiveIndexKey \<notin> K \<Longrightarrow> shrinks K (view s) (view (snd (DecrementWaitCount R c b s)))"
  "accountActiveIndexKey \<notin> K \<Longrightarrow> shrinks K (view s) (view (snd (IncrementAccountWaitCount R c b mx s)))"
  "accountActiveIndexKey \<notin> K \<Longrightarrow> shrinks K (view s) (view (snd (DecrementAccountWaitCount R c b s)))"
  "accountActiveIndexKey \<notin> K \<Longrightarrow> shrinks K (view s) (view (snd (CleanupExpiredAccountSlots R c b s)))"
  by (auto simp: IncrementWaitCount_def DecrementWaitCount_def IncrementAccountWaitCount_def
      DecrementAccountWaitCount_def CleanupExpiredAccountSlots_def
      intro!: shrinks_then_ok shrinks_roundtrip shrinks_scripts shrinks_touch shrinks_refreshIndexes
      split: prod.splits)

lemma read_methods_shrinks:
  "shrinks K (view s) (view (snd (GetAccountConcurrency R c b s)))"
  "shrinks K (view s) (view (snd (GetUserConcurrency R c b s)))"
  "shrinks K (view s) (view (snd (GetAccountWaitingCount R b s)))"
  "shrinks K (view s) (view (snd (GetAccountConcurrencyBatch R c bs s)))"
  "shrinks K (view s) (view (snd (GetAPIKeyConcurrencyBatch R c bs s)))"
  "shrinks K (view s) (view (snd (GetAccountsLoadBatch R c ps s)))"
  "shrinks K (view s) (view (snd (GetUsersLoadBatch R c ps s)))"
  by (auto simp: GetAccountConcurrency_def GetUserConcurrency_def GetAccountWaitingCount_def
      GetAccountConcurrencyBatch_def GetAPIKeyConcurrencyBatch_def GetAccountsLoadBatch_def GetUsersLoadBatch_def
      intro!: shrinks_then_ok shrinks_roundtrip shrinks_scripts shrinks_redisUnixSeconds
        countPipeline_shrinks loadPipeline_shrinks)

lemma cleanupKeys_shrinks:
  assumes "accountActiveIndexKey \<notin> K" "userActiveIndexKey \<notin> K"
  shows "shrinks K (view s) (view (snd (CleanupExpiredAccountSlotKeys R c s)))"
  unfolding CleanupExpiredAccountSlotKeys_def
  by (intro shrinks_then_ok reconcile_shrinks)
    (use assms in \<open>simp_all add: accountSlotIndex_def userSlotIndex_def\<close>)

text \<open>Only two calls may add a member to the sets of account \<open>a\<close>.\<close>

lemma run_op_shrinks:
  assumes "\<And>b mx rid. op = OpAcquireAccount b mx rid \<Longrightarrow> b \<noteq> a"
    and "\<And>b mx u umx k l rep. op = OpAcquireLive b mx u umx k l rep \<Longrightarrow> b \<noteq> a"
  shows "shrinks {accountSlotKey a, liveAccountSlotKey a} (view s) (view (run_op R c op s))"
  using assms
  by (cases op)
    (simp_all add: slot_methods_shrinks acquireLive_shrinks release_methods_shrinks wait_methods_shrinks
      read_methods_shrinks refreshLive_shrinks refreshIngress_shrinks cleanupStale_shrinks cleanupKeys_shrinks)

lemma run_op_keeps_load:
  assumes "0 < slotTTLSeconds c"
    and "\<And>mx rid. op = OpAcquireAccount a mx rid \<Longrightarrow> mx \<le> B"
    and "\<And>mx u umx k l rep. op = OpAcquireLive a mx u umx k l rep \<Longrightarrow> 0 < mx \<and> mx + (if rep then 1 else 0) \<le> B"
  shows "keeps_load a B (view s) (view (run_op R c op s))"
proof -
  consider (acq) mx rid where "op = OpAcquireAccount a mx rid"
    | (live) mx u umx k l rep where "op = OpAcquireLive a mx u umx k l rep"
    | (other) "\<And>b mx rid. op = OpAcquireAccount b mx rid \<Longrightarrow> b \<noteq> a"
        "\<And>b mx u umx k l rep. op = OpAcquireLive b mx u umx k l rep \<Longrightarrow> b \<noteq> a"
    by (cases op) auto
  then show ?thesis
  proof cases
    case acq
    with assms show ?thesis by (simp add: AcquireAccountSlot_keeps_load)
  next
    case live
    with assms(3) [of mx u umx k l rep] show ?thesis
      by (simp only: run_op.simps) (rule AcquireLiveLease_keeps_load, auto)
  next
    case other
    then show ?thesis by (rule shrinks_keeps_load [OF run_op_shrinks])
  qed
qed

lemma account_load_tick:
  assumes "view u = v_tick d (view t)"
  shows "account_load (view u) a \<le> account_load (view t) a"
  using account_load_shrinks [of a t "view u"] assms by simp

lemma cc_run_load:
  assumes "cc_run R view c allowed s t" "0 < slotTTLSeconds c" "account_load (view s) a \<le> B"
    and "\<And>mx rid. allowed (OpAcquireAccount a mx rid) \<Longrightarrow> mx \<le> B"
    and "\<And>mx u umx k l rep. allowed (OpAcquireLive a mx u umx k l rep) \<Longrightarrow>
           0 < mx \<and> mx + (if rep then 1 else 0) \<le> B"
  shows "account_load (view t) a \<le> B"
  using assms(1,3)
proof (induction rule: cc_run.induct)
  case (run_call s t op)
  have "keeps_load a B (view t) (view (run_op R c op t))"
    by (rule run_op_keeps_load) (use assms(2,4,5) run_call in blast)+
  with run_call show ?case by (simp add: keeps_load_def)
next
  case (run_tick s t u d)
  then show ?case using account_load_tick [OF run_tick.hyps(2), of a] by simp
qed

lemma touch_other_key:
  "k \<noteq> index \<Longrightarrow> zsets (view (touchActiveIndexAt R index i e s)) k = zsets (view s) k"
  unfolding touchActiveIndexAt_def
  by (simp, intro impI roundtrip_rel [of "\<lambda>v v'. zsets v' k = zsets v k"]) (simp_all add: view_simps)

lemma AcquireAccountSlot_decision:
  assumes run: "AcquireAccountSlot R c a mx rid s = (Inr ok, t)" and ttl: "0 < slotTTLSeconds c"
  shows "ok \<longleftrightarrow> live (slotTTLSeconds c) (view s) (accountSlotKey a) rid \<noteq> None \<or>
                 live_count (slotTTLSeconds c) (view s) (accountSlotKey a) +
                 live_count 60 (view s) (liveAccountSlotKey a) < mx"
    and "zsets (view t) (accountSlotKey a) =
         (if ok then (live (slotTTLSeconds c) (view s) (accountSlotKey a))(rid \<mapsto> clock (view s))
          else live (slotTTLSeconds c) (view s) (accountSlotKey a))"
proof -
  let ?sc = "acquireScript R (accountSlotKey a) (liveAccountSlotKey a) mx (slotTTLSeconds c) rid"
  from run obtain r now u where trip: "roundtrip R ?sc s = (Inr (r, now), u)"
    and ok: "ok \<longleftrightarrow> r = 1"
    and t: "t = (if r = 1 then touchActiveIndexAt R accountActiveIndexKey a (now + slotTTLSeconds c) u else u)"
    unfolding AcquireAccountSlot_def by (auto dest!: then_ok_eq_InrD)
  from roundtrip_InrD [OF trip] obtain s' where s': "view s' = view s" "?sc s' = ((r, now), u)" by blast
  note c = acquireScript_cases [OF s'(2) _ ttl, unfolded s'(1)]
  show "ok \<longleftrightarrow> live (slotTTLSeconds c) (view s) (accountSlotKey a) rid \<noteq> None \<or>
                 live_count (slotTTLSeconds c) (view s) (accountSlotKey a) +
                 live_count 60 (view s) (liveAccountSlotKey a) < mx"
    using c(6) ok by simp
  show "zsets (view t) (accountSlotKey a) =
         (if ok then (live (slotTTLSeconds c) (view s) (accountSlotKey a))(rid \<mapsto> clock (view s))
          else live (slotTTLSeconds c) (view s) (accountSlotKey a))"
    using c(8,9) ok t by (auto simp: touch_other_key)
qed

text \<open>A refresh of a live lease answers no, and adds nothing, when one of its sets lost the lease.\<close>

lemma refresh_check_result:
  assumes "refreshLiveLeaseCheck R keys b lease s = (ok, t)" "distinct keys"
  shows "ok \<longleftrightarrow> (\<forall>k \<in> set keys. \<exists>sc. zsets (view s) k lease = Some sc \<and> b < sc)"
  using assms
proof (induction keys arbitrary: s)
  case (Cons key keys)
  let ?s = "r_zremrangebyscore R key b s"
  have other: "zsets (view ?s) k = zsets (view s) k" if "k \<in> set keys" for k
    using that Cons.prems(2) by (auto simp: view_simps)
  show ?case
  proof (cases "zsets (view ?s) key lease")
    case None
    with Cons.prems show ?thesis by (force simp: Let_def view_simps zkeep_None)
  next
    case (Some sc)
    with Cons.prems have "refreshLiveLeaseCheck R keys b lease ?s = (ok, t)" "distinct keys"
      by (auto simp: Let_def r_zscore)
    note IH = Cons.IH [OF this]
    from Some have "zsets (view s) key lease = Some sc \<and> b < sc" by (simp add: view_simps)
    with IH other show ?thesis by auto
  qed
qed simp

lemma RefreshLiveLease_result:
  assumes run: "RefreshLiveLease R a u k l s = (Inr ok, t)" and "l \<noteq> []"
  shows "ok \<longleftrightarrow> (\<forall>key \<in> set (liveLeaseKeys a u k). live liveLeaseTTLSeconds (view s) key l \<noteq> None)"
proof -
  let ?sc = "refreshLiveLeaseScript R (liveLeaseKeys a u k) liveLeaseTTLSeconds l"
  from run \<open>l \<noteq> []\<close> obtain r u' where trip: "roundtrip R ?sc s = (Inr r, u')" and ok: "ok \<longleftrightarrow> r = 1"
    unfolding RefreshLiveLease_def by (auto dest!: then_ok_eq_InrD)
  from roundtrip_InrD [OF trip] obtain s' where s': "view s' = view s" "?sc s' = (r, u')" by blast
  obtain ok' v where chk:
    "refreshLiveLeaseCheck R (liveLeaseKeys a u k) (r_time R s' - liveLeaseTTLSeconds) l s' = (ok', v)"
    by (cases "refreshLiveLeaseCheck R (liveLeaseKeys a u k) (r_time R s' - liveLeaseTTLSeconds) l s'")
  have "ok' = ok" using s'(2) ok chk by (auto simp: refreshLiveLeaseScript_def Let_def split: if_splits)
  moreover have "distinct (liveLeaseKeys a u k)" by (simp add: liveLeaseKeys_def)
  ultimately show ?thesis
    using refresh_check_result [OF chk] s'(1)
    by (auto simp: live_def zkeep_None r_time)
qed

text \<open>The load pipeline reads, for each account, what is live, and the waiting count.\<close>

lemma zkeep_idem: "zkeep P (zkeep P z) = zkeep P z"
  by (auto simp: zkeep_def fun_eq_iff split: option.splits)

lemma pipeline_live:
  assumes "view s = v" "b = clock v - ttl" "b' = clock v - 60" "k \<noteq> lk"
  defines "s' \<equiv> r_zremrangebyscore R lk b' (r_zremrangebyscore R k b s)"
  shows "r_zcard R k s' + r_zcard R lk s' = live_count ttl v k + live_count 60 v lk"
    "k' \<noteq> lk \<Longrightarrow> live_count ttl (view s') k' = live_count ttl v k'"
    "k' \<noteq> k \<Longrightarrow> live_count 60 (view s') k' = live_count 60 v k'"
    "clock (view s') = clock v" "strs (view s') = strs v"
  using assms
  by (auto simp: view_simps v_zcard_def live_count_def live_def zkeep_idem)

lemma loadPipeline_result:
  assumes "clock (view s) = now"
  shows "fst (loadPipeline R accountSlotKeyPrefix liveAccountSlotKeyPrefix accountWaitKeyPrefix (now - ttl) (now - 60) ids s) =
    map (\<lambda>(i, mx). (i, mx, live_count ttl (view s) (accountSlotKey i) + live_count 60 (view s) (liveAccountSlotKey i),
                    strs (view s) (accountWaitKey i))) ids"
  using assms
proof (induction ids arbitrary: s)
  case (Cons im ids)
  obtain i mx where im: "im = (i, mx)" by (cases im)
  let ?s = "r_zremrangebyscore R (liveAccountSlotKeyPrefix @ itoa i) (now - 60)
              (r_zremrangebyscore R (accountSlotKeyPrefix @ itoa i) (now - ttl) s)"
  note keys = accountSlotKey_def [symmetric] liveAccountSlotKey_def [symmetric] accountWaitKey_def [symmetric]
  have p: "r_zcard R (accountSlotKey i) ?s + r_zcard R (liveAccountSlotKey i) ?s =
           live_count ttl (view s) (accountSlotKey i) + live_count 60 (view s) (liveAccountSlotKey i)"
    "live_count ttl (view ?s) (accountSlotKey j) = live_count ttl (view s) (accountSlotKey j)"
    "live_count 60 (view ?s) (liveAccountSlotKey j) = live_count 60 (view s) (liveAccountSlotKey j)"
    "clock (view ?s) = now" "strs (view ?s) = strs (view s)" for j
    using pipeline_live [of s "view s" "now - ttl" ttl "now - 60" "accountSlotKey i" "liveAccountSlotKey i"]
      Cons.prems by (simp_all add: keys)
  show ?case
    using Cons.IH [OF p(4)] p
    by (auto simp: im Let_def keys r_get split: prod.splits)
qed simp

lemma fill_map_lookup:
  "fill_map kvs k = map_of (rev kvs) k"
proof -
  have "fold (\<lambda>(k, v) m. m(k \<mapsto> v)) kvs m k = (case map_of (rev kvs) k of None \<Rightarrow> m k | Some v \<Rightarrow> Some v)" for m
    by (induction kvs arbitrary: m) (auto simp: map_add_def split: option.splits)
  then show ?thesis by (auto simp: fill_map_def split: option.splits)
qed

lemma GetAccountsLoadBatch_result:
  assumes "GetAccountsLoadBatch R c accounts s = (Inr loads, t)"
    and "distinct (map fst accounts)" and "(a, mx) \<in> set accounts"
  shows "loads a = Some
    (let cur = live_count (slotTTLSeconds c) (view s) (accountSlotKey a) + live_count 60 (view s) (liveAccountSlotKey a);
         wait = (case strs (view s) (accountWaitKey a) of None \<Rightarrow> 0 | Some n \<Rightarrow> n)
     in \<lparr>info_id = a, CurrentConcurrency = cur, WaitingCount = wait,
         LoadRate = (if 0 < mx then go_div ((cur + wait) * 100) mx else 0)\<rparr>)"
proof -
  have "accounts \<noteq> []" using assms(3) by auto
  with assms(1) obtain now u cmds where now: "redisUnixSeconds R s = (Inr now, u)"
    and trip: "roundtrip R (loadPipeline R accountSlotKeyPrefix liveAccountSlotKeyPrefix accountWaitKeyPrefix
                 (now - slotTTLSeconds c) (now - 60) accounts) u = (Inr cmds, t)"
    and loads: "loads = fill_map (map load_info cmds)"
    by (auto simp: GetAccountsLoadBatch_def liveLeaseTTLSeconds_def dest!: then_ok_eq_InrD)
  have u: "view u = view s" "now = clock (view s)"
    using now by (auto simp: redisUnixSeconds_def r_time dest!: roundtrip_InrD)
  from roundtrip_InrD [OF trip] obtain u' where u': "view u' = view s"
    "cmds = fst (loadPipeline R accountSlotKeyPrefix liveAccountSlotKeyPrefix accountWaitKeyPrefix
                 (now - slotTTLSeconds c) (now - 60) accounts u')"
    using u(1) by (metis fst_conv)
  have cmds: "cmds = map (\<lambda>(i, mx). (i, mx, live_count (slotTTLSeconds c) (view s) (accountSlotKey i) +
        live_count 60 (view s) (liveAccountSlotKey i), strs (view s) (accountWaitKey i))) accounts"
    unfolding u'(2) using loadPipeline_result [of u' now] u u'(1) by simp
  have dist: "distinct (map fst (map load_info cmds))" and mem: "load_info (a, mx,
      live_count (slotTTLSeconds c) (view s) (accountSlotKey a) + live_count 60 (view s) (liveAccountSlotKey a),
      strs (view s) (accountWaitKey a)) \<in> set (map load_info cmds)"
    using assms(2,3) by (force simp: cmds load_info_def Let_def comp_def split_def)+
  have "map_of (rev (map load_info cmds)) a = Some (snd (load_info (a, mx,
      live_count (slotTTLSeconds c) (view s) (accountSlotKey a) + live_count 60 (view s) (liveAccountSlotKey a),
      strs (view s) (accountWaitKey a))))"
    by (rule map_of_is_SomeI)
      (use dist in \<open>metis distinct_rev rev_map\<close>, use mem in \<open>simp add: load_info_def Let_def\<close>)
  then show ?thesis
    by (simp add: loads fill_map_lookup load_info_def Let_def)
qed

end

subsection \<open>Startup cleanup\<close>

text \<open>
  What the startup cleanup does to one sorted set \<open>k\<close> and its wait counter \<open>w\<close>: nothing is added, the
  members of the running process stay as they are, a counter that is gone stays gone.
\<close>

definition own :: "string \<Rightarrow> string \<Rightarrow> bool" where "own p m \<longleftrightarrow> take (length p) m = p"

definition calm :: "string \<Rightarrow> string \<Rightarrow> string \<Rightarrow> redis_view \<Rightarrow> redis_view \<Rightarrow> bool" where
  "calm p k w v v' \<longleftrightarrow> dom (zsets v' k) \<subseteq> dom (zsets v k) \<and> (\<forall>m. own p m \<longrightarrow> zsets v' k m = zsets v k m) \<and>
     (strs v w = None \<longrightarrow> strs v' w = None)"

definition swept :: "string \<Rightarrow> string \<Rightarrow> string \<Rightarrow> redis_view \<Rightarrow> bool" where
  "swept p k w v \<longleftrightarrow> (\<forall>m \<in> dom (zsets v k). own p m) \<and> strs v w = None"

lemma calm_refl [simp]: "calm p k w v v"
  by (simp add: calm_def)

lemma calm_trans: "calm p k w u v \<Longrightarrow> calm p k w v x \<Longrightarrow> calm p k w u x"
  unfolding calm_def by (metis order_trans)

lemma calm_swept: "calm p k w v v' \<Longrightarrow> swept p k w v \<Longrightarrow> swept p k w v'"
  by (auto simp: calm_def swept_def)

context redis
begin

lemma calm_roundtrip:
  "(\<And>t. calm p k w (view t) (view (snd (cmd t)))) \<Longrightarrow> calm p k w (view s) (view (snd (roundtrip R cmd s)))"
  by (rule roundtrip_rel) auto

lemma calm_then_ok:
  "calm p k w (view s) (view (snd (m s))) \<Longrightarrow> (\<And>x t. calm p k w (view t) (view (snd (f x t)))) \<Longrightarrow>
   calm p k w (view s) (view (snd (then_ok m f s)))"
  by (rule then_ok_rel) (auto intro: calm_trans)

lemma removeForeign_view:
  assumes "removeForeignMembers R key p ms n s = (n', t)"
  shows "zsets (view t) key = (\<lambda>m. if m \<in> set ms \<and> \<not> own p m then None else zsets (view s) key m)"
    "k' \<noteq> key \<Longrightarrow> zsets (view t) k' = zsets (view s) k'" "strs (view t) = strs (view s)"
  using assms
  by (induction ms arbitrary: n s)
    (auto simp: view_simps own_def fun_eq_iff split: if_splits)

lemma startupScript_view:
  assumes "startupCleanupSlotScript R key p ttl s = (r, t)" "0 < ttl"
  shows "zsets (view t) key = (\<lambda>m. if own p m then zsets (view s) key m else None)"
    "k' \<noteq> key \<Longrightarrow> zsets (view t) k' = zsets (view s) k'"
    "strs (view s) w = None \<Longrightarrow> strs (view t) w = None"
proof -
  obtain n u where u: "removeForeignMembers R key p (r_zrange R key s) 0 s = (n, u)"
    by (cases "removeForeignMembers R key p (r_zrange R key s) 0 s")
  note v = removeForeign_view [OF u]
  have z: "zsets (view u) key = (\<lambda>m. if own p m then zsets (view s) key m else None)"
    unfolding v(1) set_zrange by (auto simp: fun_eq_iff domIff)
  have fin: "finite (dom (zsets (view u) key))" by (rule finite_dom_zset)
  show "zsets (view t) key = (\<lambda>m. if own p m then zsets (view s) key m else None)"
    using assms u z fin
    by (auto simp: startupCleanupSlotScript_def Let_def view_simps v_zcard_def split: if_splits)
  show "k' \<noteq> key \<Longrightarrow> zsets (view t) k' = zsets (view s) k'"
    using assms u v(2) by (auto simp: startupCleanupSlotScript_def Let_def view_simps split: if_splits)
  show "strs (view s) w = None \<Longrightarrow> strs (view t) w = None"
    using assms u v(3) by (auto simp: startupCleanupSlotScript_def Let_def view_simps split: if_splits)
qed

lemma calm_startupScript:
  assumes "0 < ttl"
  shows "calm p k w (view s) (view (snd (startupCleanupSlotScript R key p ttl s)))"
proof -
  obtain r t where t: "startupCleanupSlotScript R key p ttl s = (r, t)"
    by (cases "startupCleanupSlotScript R key p ttl s")
  show ?thesis
    using startupScript_view [OF t assms] t by (cases "key = k") (auto simp: calm_def split: if_splits)
qed

lemma calm_del: "key \<noteq> k \<Longrightarrow> calm p k w (view s) (view (r_del R key s))"
  by (auto simp: calm_def view_simps)

lemma calm_zadd: "index \<noteq> k \<Longrightarrow> calm p k w (view s) (view (r_zadd R index sc m s))"
  by (auto simp: calm_def view_simps)

lemma calm_zrem: "index \<noteq> k \<Longrightarrow> calm p k w (view s) (view (r_zrem R index m s))"
  by (auto simp: calm_def view_simps)

lemma calm_loop:
  assumes "0 < slotTTLSeconds c" "\<And>i. waitKey spec i \<noteq> k"
  shows "calm p k w (view s) (view (snd (cleanupStaleLoop R c spec p now ms s)))"
proof (induction ms arbitrary: s)
  case (Cons m ms)
  from Cons show ?case
    using assms(1)
    by (auto intro!: calm_then_ok calm_roundtrip calm_startupScript calm_del [OF assms(2)] split: option.splits prod.splits)
qed simp

lemma loop_sweeps:
  assumes "cleanupStaleLoop R c spec p now ms s = (Inr res, t)" "itoa a \<in> set ms" "0 < a" "in_int64 a"
    and c: "0 < slotTTLSeconds c" and wk: "\<And>i. waitKey spec i \<noteq> slotKey spec a"
  shows "swept p (slotKey spec a) (waitKey spec a) (view t)"
  using assms(1,2)
proof (induction ms arbitrary: s res)
  case (Cons m ms)
  let ?k = "slotKey spec a" and ?w = "waitKey spec a"
  have rest: "swept p ?k ?w (view t)" if "swept p ?k ?w (view u)" "cleanupStaleLoop R c spec p now ms u = (x, t)" for u x
    using calm_loop [OF c, of spec ?k p ?w u now ms] wk that by (auto intro: calm_swept)
  show ?case
  proof (cases "m = itoa a")
    case False
    with Cons.prems(2) have "itoa a \<in> set ms" by simp
    with Cons.prems(1) show ?thesis
      by (auto split: option.splits if_splits prod.splits dest!: then_ok_eq_InrD intro: Cons.IH)
  next
    case True
    with Cons.prems(1) assms(3,4) obtain r u1 u2 y u3 where
      1: "roundtrip R (startupCleanupSlotScript R ?k p (slotTTLSeconds c)) s = (Inr r, u1)" and
      2: "roundtrip R (\<lambda>s. ((), r_del R ?w s)) u1 = (Inr (), u2)" and
      3: "cleanupStaleLoop R c spec p now ms u2 = (Inr y, u3)" "t = u3"
      by (auto simp: parse_int64_itoa split: prod.splits dest!: then_ok_eq_InrD)
    from roundtrip_InrD [OF 1] obtain s' where s': "startupCleanupSlotScript R ?k p (slotTTLSeconds c) s' = (r, u1)"
      by blast
    from roundtrip_InrD [OF 2] obtain u1' where "view u1' = view u1" "u2 = r_del R ?w u1'" by auto
    then have "swept p ?k ?w (view u2)"
      using startupScript_view(1) [OF s' c] wk by (auto simp: swept_def view_simps split: if_splits)
    with 3 show ?thesis using rest by blast
  qed
qed simp

lemma calm_fold:
  "(\<And>x t. x \<in> set xs \<Longrightarrow> calm p k w (view t) (view (f x t))) \<Longrightarrow> calm p k w (view s) (view (fold f xs s))"
  by (rule fold_rel) (auto intro: calm_trans)

lemma calm_index_members:
  assumes "index \<noteq> k"
  shows "calm p k w (view s) (view (removeActiveIndexMembers R index xs (addActiveIndexMembers R index ys s)))"
proof -
  have "calm p k w (view s) (view (addActiveIndexMembers R index ys s))"
    using assms by (auto simp: addActiveIndexMembers_def intro!: calm_roundtrip calm_fold calm_zadd split: prod.splits)
  moreover have "calm p k w (view t) (view (removeActiveIndexMembers R index xs t))" for t
    using assms by (auto simp: removeActiveIndexMembers_def intro!: calm_roundtrip calm_fold calm_zrem)
  ultimately show ?thesis by (rule calm_trans)
qed

lemma calm_deletePages:
  assumes "\<And>page key. page \<in> set pages \<Longrightarrow> key \<in> set page \<Longrightarrow> key \<noteq> k"
  shows "calm p k w (view s) (view (snd (deletePages R pages s)))"
  using assms
proof (induction pages arbitrary: s)
  case (Cons page pages)
  have "calm p k w (view t) (view (fold (r_del R) page t))" for t
    by (rule calm_fold, rule calm_del, rule Cons.prems) auto
  with Cons show ?case by (auto intro!: calm_then_ok calm_roundtrip)
qed simp

lemma calm_sweepPattern:
  assumes "\<not> prefix pat k"
  shows "calm p k w (view s) (view (snd (sweepPattern R pat s)))"
proof (cases "roundtrip R (\<lambda>s. (r_scan R pat s, s)) s")
  case (Pair r t)
  have "calm p k w (view s) (view t)"
    using calm_roundtrip [of p k w "\<lambda>s. (r_scan R pat s, s)" s] Pair by simp
  moreover have "calm p k w (view t) (view (snd (deletePages R pages t)))" if "r = Inr pages" for pages
  proof (rule calm_deletePages)
    fix page key assume in_page: "page \<in> set pages" "key \<in> set page"
    from roundtrip_InrD [OF Pair [unfolded that]] obtain t' where "pages = r_scan R pat t'" by auto
    with in_page have "prefix pat key" by (auto dest: scan_sound)
    with assms show "key \<noteq> k" by auto
  qed
  ultimately show ?thesis
    using Pair by (cases r) (auto simp: sweepPattern_def then_ok_def intro: calm_trans)
qed

lemma calm_sweep:
  assumes "\<not> prefix accountWaitKeyPrefix k" "\<not> prefix waitQueueKeyPrefix k" "k \<noteq> legacyWaitSweepMarkerKey"
    "w \<noteq> legacyWaitSweepMarkerKey"
  shows "calm p k w (view s) (view (snd (sweepLegacyWaitKeysOnce R s)))"
  unfolding sweepLegacyWaitKeysOnce_def
  using assms
  by (auto simp: calm_def [of p k w _ "v_set _ _ _"] view_simps
      intro!: calm_then_ok calm_roundtrip calm_sweepPattern)

lemma CleanupStale_account:
  assumes run: "CleanupStaleProcessSlots R c p s = (Inr (), t)" and "p \<noteq> []" "0 < slotTTLSeconds c"
  shows "own p m \<Longrightarrow> zsets (view t) (accountSlotKey a) m = zsets (view s) (accountSlotKey a) m"
    and "0 < a \<Longrightarrow> in_int64 a \<Longrightarrow> itoa a \<in> dom (zsets (view s) accountActiveIndexKey) \<Longrightarrow>
         swept p (accountSlotKey a) (accountWaitKey a) (view t)"
proof -
  let ?k = "accountSlotKey a" and ?w = "accountWaitKey a"
  have keys: "?k \<noteq> legacyWaitSweepMarkerKey" "?w \<noteq> legacyWaitSweepMarkerKey" "\<not> prefix accountWaitKeyPrefix ?k"
    "\<not> prefix waitQueueKeyPrefix ?k" "accountWaitKey i \<noteq> ?k" "waitQueueKey i \<noteq> ?k" for i
    by (simp_all add: key_defs prefix_def)
  from run \<open>p \<noteq> []\<close> obtain s1 now s2 as s3 s4 us s5 where
    1: "sweepLegacyWaitKeysOnce R s = (Inr (), s1)" and
    2: "redisUnixSeconds R s1 = (Inr now, s2)" and
    3: "allIndexMembers R accountActiveIndexKey s2 = (Inr as, s3)" and
    4: "cleanupStaleProcessSlotsForIndex R c accountSlotIndex as p now s3 = (Inr (), s4)" and
    5: "allIndexMembers R userActiveIndexKey s4 = (Inr us, s5)" and
    6: "cleanupStaleProcessSlotsForIndex R c userSlotIndex us p now s5 = (Inr (), t)"
    unfolding CleanupStaleProcessSlots_def by (auto dest!: then_ok_eq_InrD)
  have c1: "calm p ?k ?w (view s) (view s1)" for p
    using calm_sweep [of ?k ?w p s] keys 1 by simp
  have v2: "view s2 = view s1" using 2 by (auto simp: redisUnixSeconds_def dest!: roundtrip_InrD)
  have v3: "view s3 = view s2" "set as = dom (zsets (view s2) accountActiveIndexKey)"
    using 3 by (auto simp: allIndexMembers_def set_zrange dest!: roundtrip_InrD)
  have v5: "view s5 = view s4" using 5 by (auto simp: allIndexMembers_def dest!: roundtrip_InrD)
  have index: "calm p ?k ?w (view x) (view y)"
    if "cleanupStaleProcessSlotsForIndex R c spec ms p now x = (Inr (), y)"
      "spec \<in> {accountSlotIndex, userSlotIndex}" for spec ms x y
  proof -
    have "calm p ?k ?w (view x) (view (snd (cleanupStaleProcessSlotsForIndex R c spec ms p now x)))"
      unfolding cleanupStaleProcessSlotsForIndex_def
      using that(2) keys assms(3)
      by (auto simp: accountSlotIndex_def userSlotIndex_def
          intro!: calm_then_ok calm_loop calm_index_members split: prod.splits)
    with that(1) show ?thesis by simp
  qed
  have c4: "calm p ?k ?w (view s3) (view s4)" and c6: "calm p ?k ?w (view s5) (view t)"
    using index [OF 4] index [OF 6] by auto
  from c1 [of p] v2 v3 c4 v5 c6 have "calm p ?k ?w (view s) (view t)"
    by (metis calm_trans)
  then show "own p m \<Longrightarrow> zsets (view t) ?k m = zsets (view s) ?k m" by (simp add: calm_def)
  assume a: "0 < a" "in_int64 a" "itoa a \<in> dom (zsets (view s) accountActiveIndexKey)"
  have "accountActiveIndexKey \<noteq> legacyWaitSweepMarkerKey" "?w \<noteq> legacyWaitSweepMarkerKey"
    "\<not> prefix accountWaitKeyPrefix accountActiveIndexKey" "\<not> prefix waitQueueKeyPrefix accountActiveIndexKey"
    by (simp_all add: key_defs)
  from calm_sweep [OF this(3,4,1,2), of "[]" s] 1 have "itoa a \<in> set as"
    using a(3) v2 v3 by (auto simp: calm_def own_def domIff)
  from 4 obtain res u where u: "cleanupStaleLoop R c accountSlotIndex p now as s3 = (Inr res, u)"
    and s4: "s4 = removeActiveIndexMembers R accountActiveIndexKey (snd res)
               (addActiveIndexMembers R accountActiveIndexKey (fst res) u)"
    unfolding cleanupStaleProcessSlotsForIndex_def
    by (auto dest!: then_ok_eq_InrD simp: accountSlotIndex_def split: prod.splits)
  have "swept p ?k ?w (view u)"
    using loop_sweeps [OF u \<open>itoa a \<in> set as\<close> a(1,2) assms(3)] keys by (simp add: accountSlotIndex_def)
  moreover have "calm p ?k ?w (view u) (view s4)"
    unfolding s4 by (rule calm_index_members) simp
  ultimately show "swept p ?k ?w (view t)"
    using c6 v5 by (metis calm_swept)
qed

end

subsection \<open>Properties\<close>

definition witness_cache :: concurrencyCache where
  "witness_cache = NewConcurrencyCache 1 0"

lemma witness_cache_simps [simp]: "slotTTLSeconds witness_cache = 60" "waitQueueTTLSeconds witness_cache = 60"
  by (simp_all add: witness_cache_def NewConcurrencyCache_def)

lemma ref_empty_view: "rf_view ref_empty = \<lparr>zsets = (\<lambda>_. Map.empty), strs = Map.empty, deadline = Map.empty, clock = 1000\<rparr>"
  by (simp add: rf_view_def ref_empty_def rf_score_def rf_zset_def)

text \<open>C9: in any run of the cache's calls by any number of processes, with any failures of the Redis
  round trips and any passing of time, the slots and live leases of an account never exceed the largest
  limit its callers pass, plus one when live sessions that replace regular slots are admitted.\<close>

theorem account_limit:
  assumes "redis R view" and "cc_run R view c allowed s t" and "0 < slotTTLSeconds c"
    and "account_load (view s) a \<le> limit"
    and "\<And>mx rid. allowed (OpAcquireAccount a mx rid) \<Longrightarrow> mx \<le> limit"
    and "\<And>mx u umx k l. allowed (OpAcquireLive a mx u umx k l False) \<Longrightarrow> 0 < mx \<and> mx \<le> limit"
    and "\<And>mx u umx k l. allowed (OpAcquireLive a mx u umx k l True) \<Longrightarrow> 0 < mx \<and> mx \<le> limit \<and> replacing"
  shows "account_load (view t) a \<le> limit + (if replacing then 1 else 0)"
proof (rule redis.cc_run_load [OF assms(1,2,3)])
  show "account_load (view s) a \<le> limit + (if replacing then 1 else 0)" using assms(4) by simp
  show "mx \<le> limit + (if replacing then 1 else 0)" if "allowed (OpAcquireAccount a mx rid)" for mx rid
    using assms(5) [OF that] by simp
  show "0 < mx \<and> mx + (if rep then 1 else 0) \<le> limit + (if replacing then 1 else 0)"
    if "allowed (OpAcquireLive a mx u umx k l rep)" for mx u umx k l rep
    using assms(6) [of mx u umx k l] assms(7) [of mx u umx k l] that by (cases rep) auto
qed

theorem account_limit_witness:
  "account_load (rf_view (run_op ref_ops witness_cache (OpAcquireAccount 7 2 ''r2'')
     (run_op ref_ops witness_cache (OpAcquireAccount 7 2 ''r1'') ref_empty))) 7 \<le> 2"
  using account_limit [OF ref.redis_axioms
      cc_run.run_call [OF cc_run.run_call [OF cc_run.run_start]], of
      "\<lambda>op. \<exists>rid. op = OpAcquireAccount 7 2 rid" "OpAcquireAccount 7 2 ''r1''" "OpAcquireAccount 7 2 ''r2''"
      witness_cache ref_empty 7 2 False]
  by (simp add: ref_empty_view account_load_def zmembers_def)

text \<open>C28: an answered call of \<^verbatim>\<open>AcquireAccountSlot\<close> grants the slot exactly when the request already holds a
  live slot or the live slots and leases of the account are below the limit, and afterwards the account's
  set holds the live slots, with the granted request refreshed to the current time.\<close>

theorem acquire_decides:
  assumes "redis R view" and "AcquireAccountSlot R c a mx rid s = (Inr ok, t)" and "0 < slotTTLSeconds c"
  shows "(ok \<longleftrightarrow> live (slotTTLSeconds c) (view s) (accountSlotKey a) rid \<noteq> None \<or>
                  live_count (slotTTLSeconds c) (view s) (accountSlotKey a) +
                  live_count 60 (view s) (liveAccountSlotKey a) < mx) \<and>
         zsets (view t) (accountSlotKey a) =
           (if ok then (live (slotTTLSeconds c) (view s) (accountSlotKey a))(rid \<mapsto> clock (view s))
            else live (slotTTLSeconds c) (view s) (accountSlotKey a))"
  using redis.AcquireAccountSlot_decision [OF assms] by simp

theorem acquire_decides_witness:
  "zsets (rf_view (snd (AcquireAccountSlot ref_ops witness_cache 7 2 ''r1'' ref_empty))) (accountSlotKey 7) =
   [''r1'' \<mapsto> 1000]"
proof -
  have "fst (AcquireAccountSlot ref_ops witness_cache 7 2 ''r1'' ref_empty) = Inr True" by code_simp
  note run = pair_of_fst [OF this]
  show ?thesis
    using acquire_decides [OF ref.redis_axioms run]
    by (simp add: ref_empty_view live_def live_count_def zkeep_def)
qed

text \<open>An answered \<^verbatim>\<open>RefreshLiveLease\<close> says yes exactly when the lease is still live in the account's, the
  user's and the API key's set: a lease that expired or was released anywhere is never renewed.\<close>

theorem refresh_needs_lease:
  assumes "redis R view" and "RefreshLiveLease R a u k l s = (Inr ok, t)" and "l \<noteq> []"
  shows "ok \<longleftrightarrow> live 60 (view s) (liveAccountSlotKey a) l \<noteq> None \<and>
                live 60 (view s) (liveUserSlotKey u) l \<noteq> None \<and>
                live 60 (view s) (liveAPIKeySlotKey k) l \<noteq> None"
  using redis.RefreshLiveLease_result [OF assms] by (simp add: liveLeaseKeys_def liveLeaseTTLSeconds_def)

theorem refresh_needs_lease_witness:
  "fst (RefreshLiveLease ref_ops 1 2 3 ''l'' ref_empty) = Inr False \<and>
   live 60 (rf_view ref_empty) (liveAccountSlotKey 1) ''l'' = None"
proof -
  have no: "fst (RefreshLiveLease ref_ops 1 2 3 ''l'' ref_empty) = Inr False" by code_simp
  show ?thesis
    using no refresh_needs_lease [OF ref.redis_axioms pair_of_fst [OF no]] by (simp add: ref_empty_view live_def zkeep_def)
qed

text \<open>An answered \<^verbatim>\<open>GetAccountsLoadBatch\<close> reports, for every account asked for once, the live slots and
  leases as its concurrency, its wait counter, and their sum as a percentage of the account's limit.\<close>

theorem loads_are_live:
  assumes "redis R view" and "GetAccountsLoadBatch R c accounts s = (Inr loads, t)"
    and "distinct (map fst accounts)" and "(a, mx) \<in> set accounts"
  shows "loads a = Some
    (let cur = live_count (slotTTLSeconds c) (view s) (accountSlotKey a) + live_count 60 (view s) (liveAccountSlotKey a);
         wait = (case strs (view s) (accountWaitKey a) of None \<Rightarrow> 0 | Some n \<Rightarrow> n)
     in \<lparr>info_id = a, CurrentConcurrency = cur, WaitingCount = wait,
         LoadRate = (if 0 < mx then go_div ((cur + wait) * 100) mx else 0)\<rparr>)"
  by (rule redis.GetAccountsLoadBatch_result [OF assms])

theorem loads_are_live_witness:
  "(case GetAccountsLoadBatch ref_ops witness_cache [(7, 2)] ref_empty of
      (Inr loads, _) \<Rightarrow> loads 7 | _ \<Rightarrow> None) =
   Some \<lparr>info_id = 7, CurrentConcurrency = 0, WaitingCount = 0, LoadRate = 0\<rparr>"
proof -
  obtain r t where run: "GetAccountsLoadBatch ref_ops witness_cache [(7, 2)] ref_empty = (r, t)"
    by (cases "GetAccountsLoadBatch ref_ops witness_cache [(7, 2)] ref_empty")
  have "isl (fst (GetAccountsLoadBatch ref_ops witness_cache [(7, 2)] ref_empty)) = False" by code_simp
  with run obtain loads where r: "r = Inr loads" by (cases r) auto
  show ?thesis
    using loads_are_live [OF ref.redis_axioms run [unfolded r], of 7 2]
    by (simp add: run r ref_empty_view live_def live_count_def zkeep_def go_div_def)
qed

text \<open>C26: a completed startup cleanup leaves the slots of the calling process as they were, and for every
  account of the active index removes the slots of every other process and the wait counter.\<close>

theorem startup_cleanup:
  assumes "redis R view" and "CleanupStaleProcessSlots R c p s = (Inr (), t)" and "p \<noteq> []" and "0 < slotTTLSeconds c"
    and "0 < a" and "in_int64 a" and "itoa a \<in> dom (zsets (view s) accountActiveIndexKey)"
  shows "zsets (view t) (accountSlotKey a) =
           (\<lambda>m. if prefix p m then zsets (view s) (accountSlotKey a) m else None) \<and>
         strs (view t) (accountWaitKey a) = None"
proof -
  note facts = redis.CleanupStale_account [OF assms(1-4)]
  have own: "own p m \<longleftrightarrow> prefix p m" for m
    by (metis own_def append_eq_conv_conj prefix_def take_is_prefix)
  have "swept p (accountSlotKey a) (accountWaitKey a) (view t)"
    using facts(2) assms(5-7) .
  with facts(1) show ?thesis
    by (auto simp: swept_def own fun_eq_iff domIff)
qed

definition witness_restart :: ref_redis where
  "witness_restart = snd (AcquireAccountSlot ref_ops witness_cache 7 5 ''new-1''
     (snd (AcquireAccountSlot ref_ops witness_cache 7 5 ''old-1'' ref_empty)))"

theorem startup_cleanup_witness:
  "zsets (rf_view (snd (CleanupStaleProcessSlots ref_ops witness_cache ''new-'' witness_restart)))
     (accountSlotKey 7) ''old-1'' = None"
proof -
  have finished: "fst (CleanupStaleProcessSlots ref_ops witness_cache ''new-'' witness_restart) = Inr ()" by code_simp
  have "rf_score accountActiveIndexKey (itoa 7) witness_restart = Some 1060" by code_simp
  then have index: "itoa 7 \<in> dom (zsets (rf_view witness_restart) accountActiveIndexKey)"
    by (auto simp: rf_view_def)
  show ?thesis
    using startup_cleanup [OF ref.redis_axioms pair_of_fst [OF finished], of 7] index
    by (simp add: in_int64_def max_int64_def min_int64_def)
qed

end
