(* ===== verification/SessionLimit.thy ===== *)
theory SessionLimit
  imports RedisStore
begin

section \<open>The session limit of an account\<close>

text \<open>
  Models the session part of \<^verbatim>\<open>src/backend/internal/repository/session_limit_cache.go\<close>: the sessions of
  an account are the members of a sorted set, scored with the server time of their last activity. The
  scripts run atomically on the server of \<open>RedisStore\<close>.
  The cached window costs of the same file are floating-point values and are not modelled.
\<close>

subsection \<open>Keys, scripts and methods\<close>

definition sessionLimitKeyPrefix :: string where "sessionLimitKeyPrefix = ''session_limit:account:''"

definition sessionLimitKey :: "int \<Rightarrow> string" where
  "sessionLimitKey accountID = sessionLimitKeyPrefix @ itoa accountID"

record sessionLimitCache =
  defaultIdleTimeout :: duration

definition NewSessionLimitCache :: "int \<Rightarrow> sessionLimitCache" where
  "NewSessionLimitCache defaultIdleTimeoutMinutes =
     (let minutes = (if defaultIdleTimeoutMinutes \<le> 0 then 5 else defaultIdleTimeoutMinutes)
      in \<lparr>defaultIdleTimeout = minutes * minute\<rparr>)"

definition registerSessionScript :: "'r redis_ops \<Rightarrow> string \<Rightarrow> int \<Rightarrow> int \<Rightarrow> string \<Rightarrow> 'r \<Rightarrow> int \<times> 'r" where
  "registerSessionScript R key maxSessions idleTimeout sessionUUID s =
     (let now = r_time R s;
          expireBefore = now - idleTimeout;
          s = r_zremrangebyscore R key expireBefore s
      in if r_zscore R key sessionUUID s \<noteq> None
         then (1, r_expire R key (idleTimeout + 60) (r_zadd R key now sessionUUID s))
         else
           (let count = r_zcard R key s
            in if count < maxSessions
               then (1, r_expire R key (idleTimeout + 60) (r_zadd R key now sessionUUID s))
               else (0, s)))"

definition refreshSessionScript :: "'r redis_ops \<Rightarrow> string \<Rightarrow> int \<Rightarrow> string \<Rightarrow> 'r \<Rightarrow> int \<times> 'r" where
  "refreshSessionScript R key idleTimeout sessionUUID s =
     (let now = r_time R s
      in (1, if r_zscore R key sessionUUID s \<noteq> None
             then r_expire R key (idleTimeout + 60) (r_zadd R key now sessionUUID s) else s))"

definition getActiveSessionCountScript :: "'r redis_ops \<Rightarrow> string \<Rightarrow> int \<Rightarrow> 'r \<Rightarrow> int \<times> 'r" where
  "getActiveSessionCountScript R key idleTimeout s =
     (let now = r_time R s;
          expireBefore = now - idleTimeout;
          s = r_zremrangebyscore R key expireBefore s
      in (r_zcard R key s, s))"

definition isSessionActiveScript :: "'r redis_ops \<Rightarrow> string \<Rightarrow> int \<Rightarrow> string \<Rightarrow> 'r \<Rightarrow> int \<times> 'r" where
  "isSessionActiveScript R key idleTimeout sessionUUID s =
     (let now = r_time R s;
          expireBefore = now - idleTimeout
      in case r_zscore R key sessionUUID s of
           None \<Rightarrow> (0, s)
         | Some score \<Rightarrow> if score \<le> expireBefore then (0, s) else (1, s))"

definition idle_seconds :: "sessionLimitCache \<Rightarrow> duration \<Rightarrow> int" where
  "idle_seconds c idleTimeout =
     (let idleTimeoutSeconds = whole_seconds idleTimeout
      in if idleTimeoutSeconds \<le> 0 then whole_seconds (defaultIdleTimeout c) else idleTimeoutSeconds)"

text \<open>\<^verbatim>\<open>RegisterSession\<close> answers \<^verbatim>\<open>true\<close> together with an error when Redis fails, so its result is a pair.\<close>

definition RegisterSession ::
  "'r redis_ops \<Rightarrow> sessionLimitCache \<Rightarrow> int \<Rightarrow> string \<Rightarrow> int \<Rightarrow> duration \<Rightarrow> 'r \<Rightarrow> (bool \<times> string option) \<times> 'r" where
  "RegisterSession R c accountID sessionUUID maxSessions idleTimeout s =
     (if sessionUUID = [] \<or> maxSessions \<le> 0 then ((True, None), s)
      else
        (let key = sessionLimitKey accountID;
             idleTimeoutSeconds = idle_seconds c idleTimeout
         in case roundtrip R (registerSessionScript R key maxSessions idleTimeoutSeconds sessionUUID) s of
              (Inl err, s) \<Rightarrow> ((True, Some err), s)
            | (Inr result, s) \<Rightarrow> ((result = 1, None), s)))"

definition UnregisterSession :: "'r redis_ops \<Rightarrow> int \<Rightarrow> string \<Rightarrow> 'r \<Rightarrow> (string + unit) \<times> 'r" where
  "UnregisterSession R accountID sessionUUID s =
     (if sessionUUID = [] then (Inr (), s)
      else roundtrip R (\<lambda>s. ((), r_zrem R (sessionLimitKey accountID) sessionUUID s)) s)"

definition RefreshSession ::
  "'r redis_ops \<Rightarrow> sessionLimitCache \<Rightarrow> int \<Rightarrow> string \<Rightarrow> duration \<Rightarrow> 'r \<Rightarrow> (string + unit) \<times> 'r" where
  "RefreshSession R c accountID sessionUUID idleTimeout s =
     (if sessionUUID = [] then (Inr (), s)
      else
        (let key = sessionLimitKey accountID;
             idleTimeoutSeconds = idle_seconds c idleTimeout
         in then_ok (roundtrip R (refreshSessionScript R key idleTimeoutSeconds sessionUUID))
              (\<lambda>_ s. (Inr (), s)) s))"

definition GetActiveSessionCount :: "'r redis_ops \<Rightarrow> sessionLimitCache \<Rightarrow> int \<Rightarrow> 'r \<Rightarrow> (string + int) \<times> 'r" where
  "GetActiveSessionCount R c accountID =
     roundtrip R (getActiveSessionCountScript R (sessionLimitKey accountID) (whole_seconds (defaultIdleTimeout c)))"

fun sessionCountPipeline ::
  "'r redis_ops \<Rightarrow> sessionLimitCache \<Rightarrow> (int \<rightharpoonup> duration) \<Rightarrow> int list \<Rightarrow> 'r \<Rightarrow> (int \<times> int) list \<times> 'r" where
  "sessionCountPipeline R c idleTimeouts [] s = ([], s)"
| "sessionCountPipeline R c idleTimeouts (accountID # accountIDs) s =
     (let idleTimeout = (case idleTimeouts accountID of
                           Some t \<Rightarrow> if t > 0 then t else defaultIdleTimeout c
                         | None \<Rightarrow> defaultIdleTimeout c);
          (count, s) = getActiveSessionCountScript R (sessionLimitKey accountID) (whole_seconds idleTimeout) s;
          (rest, s) = sessionCountPipeline R c idleTimeouts accountIDs s
      in ((accountID, count) # rest, s))"

text \<open>A failed pipeline leaves every command with an error, and the result without entries.\<close>

definition GetActiveSessionCountBatch ::
  "'r redis_ops \<Rightarrow> sessionLimitCache \<Rightarrow> int list \<Rightarrow> (int \<rightharpoonup> duration) \<Rightarrow> 'r \<Rightarrow> (int \<rightharpoonup> int) \<times> 'r" where
  "GetActiveSessionCountBatch R c accountIDs idleTimeouts s =
     (if accountIDs = [] then (Map.empty, s)
      else case roundtrip R (sessionCountPipeline R c idleTimeouts accountIDs) s of
             (Inl err, s) \<Rightarrow> (Map.empty, s)
           | (Inr counts, s) \<Rightarrow> (fold (\<lambda>(k, n) m. m(k \<mapsto> n)) counts Map.empty, s))"

definition IsSessionActive :: "'r redis_ops \<Rightarrow> sessionLimitCache \<Rightarrow> int \<Rightarrow> string \<Rightarrow> 'r \<Rightarrow> (string + bool) \<times> 'r" where
  "IsSessionActive R c accountID sessionUUID s =
     (if sessionUUID = [] then (Inr False, s)
      else then_ok
        (roundtrip R (isSessionActiveScript R (sessionLimitKey accountID) (whole_seconds (defaultIdleTimeout c)) sessionUUID))
        (\<lambda>result s. (Inr (result = 1), s)) s)"

subsection \<open>Runs of the cache\<close>

datatype session_op =
    OpRegister int string int duration
  | OpUnregister int string
  | OpRefresh int string duration
  | OpCount int
  | OpCountBatch "int list" "int \<rightharpoonup> duration"
  | OpIsActive int string

fun session_step :: "'r redis_ops \<Rightarrow> sessionLimitCache \<Rightarrow> session_op \<Rightarrow> 'r \<Rightarrow> 'r" where
  "session_step R c (OpRegister a u mx d) s = snd (RegisterSession R c a u mx d s)"
| "session_step R c (OpUnregister a u) s = snd (UnregisterSession R a u s)"
| "session_step R c (OpRefresh a u d) s = snd (RefreshSession R c a u d s)"
| "session_step R c (OpCount a) s = snd (GetActiveSessionCount R c a s)"
| "session_step R c (OpCountBatch as ds) s = snd (GetActiveSessionCountBatch R c as ds s)"
| "session_step R c (OpIsActive a u) s = snd (IsSessionActive R c a u s)"

inductive session_run ::
  "'r redis_ops \<Rightarrow> ('r \<Rightarrow> redis_view) \<Rightarrow> sessionLimitCache \<Rightarrow> (session_op \<Rightarrow> bool) \<Rightarrow> 'r \<Rightarrow> 'r \<Rightarrow> bool"
  for R view c allowed
where
  sr_start: "session_run R view c allowed s s"
| sr_call: "session_run R view c allowed s t \<Longrightarrow> allowed op \<Longrightarrow>
            session_run R view c allowed s (session_step R c op t)"
| sr_tick: "session_run R view c allowed s t \<Longrightarrow> view u = v_tick d (view t) \<Longrightarrow>
            session_run R view c allowed s u"

lemma sessionLimitKey_eq [simp]: "sessionLimitKey a = sessionLimitKey b \<longleftrightarrow> a = b"
  by (simp add: sessionLimitKey_def)

lemma NewSessionLimitCache_pos: "minute \<le> defaultIdleTimeout (NewSessionLimitCache m)"
  by (simp add: NewSessionLimitCache_def minute_def)

lemma idle_seconds_pos: "second \<le> defaultIdleTimeout c \<Longrightarrow> 0 < idle_seconds c d"
  by (simp add: idle_seconds_def Let_def whole_seconds_pos)

context redis
begin

lemma registerScript_cases:
  assumes run: "registerSessionScript R k mx idle u s = (r, t)" and "0 < idle"
  shows "r = 1 \<longleftrightarrow> live idle (view s) k u \<noteq> None \<or> live_count idle (view s) k < mx"
    "zsets (view t) k = (if r = 1 then (live idle (view s) k)(u \<mapsto> clock (view s)) else live idle (view s) k)"
    "k' \<noteq> k \<Longrightarrow> zsets (view t) k' = zsets (view s) k'"
  using assms
  by (auto simp: registerSessionScript_def Let_def view_simps live_def live_count_def v_zcard_def split: if_splits)

lemma registerScript_members:
  assumes run: "registerSessionScript R k mx idle u s = (r, t)" and "0 < idle"
  shows "zmembers (view t) k \<le> max (zmembers (view s) k) mx"
proof -
  note c = registerScript_cases [OF assms]
  have le: "live_count idle (view s) k \<le> zmembers (view s) k" by (rule live_count_le)
  show ?thesis
  proof (cases "r = 1 \<and> live idle (view s) k u = None")
    case True
    then have "zmembers (view t) k = live_count idle (view s) k + 1" "live_count idle (view s) k < mx"
      using c(1,2) by (auto simp: zmembers_def live_count_def domIff)
    then show ?thesis by simp
  next
    case False
    then have "dom (zsets (view t) k) = dom (live idle (view s) k)"
      using c(1,2) by (auto split: if_splits)
    then show ?thesis using le by (simp add: zmembers_def live_count_def)
  qed
qed

lemma shrinks_sessionScripts:
  "shrinks K (view s) (view (snd (refreshSessionScript R k idle u s)))"
  "shrinks K (view s) (view (snd (getActiveSessionCountScript R k idle s)))"
  "view (snd (isSessionActiveScript R k idle u s)) = view s"
proof -
  have "shrinks K v (v_zadd k now u v)" if "u \<in> dom (zsets v k)" for v now
    using that by (auto simp: shrinks_def)
  then show "shrinks K (view s) (view (snd (refreshSessionScript R k idle u s)))"
    by (auto simp: refreshSessionScript_def Let_def view_simps intro!: shrinks_v_step(5))
qed (auto simp: getActiveSessionCountScript_def isSessionActiveScript_def Let_def view_simps
       split: option.splits)

lemma shrinks_sessionPipeline: "shrinks K (view s) (view (snd (sessionCountPipeline R c ds as s)))"
proof (induction as arbitrary: s)
  case (Cons a as)
  show ?case
  proof (cases "getActiveSessionCountScript R (sessionLimitKey a)
      (whole_seconds (case ds a of Some t \<Rightarrow> if t > 0 then t else defaultIdleTimeout c
                      | None \<Rightarrow> defaultIdleTimeout c)) s")
    case (Pair n t)
    then have "shrinks K (view s) (view t)" using shrinks_sessionScripts(2) by (metis snd_conv)
    from shrinks_trans [OF this Cons.IH [of t]] Pair show ?thesis by (simp add: Let_def split_def)
  qed
qed simp

text \<open>Every call but a registration only removes sessions.\<close>

lemma session_step_shrinks:
  assumes "\<And>a u mx d. op \<noteq> OpRegister a u mx d"
  shows "shrinks K (view s) (view (session_step R c op s))"
proof (cases op)
  case (OpCountBatch as ds)
  have "shrinks K (view s) (view (snd (roundtrip R (sessionCountPipeline R c ds as) s)))"
    by (rule shrinks_roundtrip) (rule shrinks_sessionPipeline)
  then show ?thesis
    using OpCountBatch by (auto simp: GetActiveSessionCountBatch_def split: prod.splits sum.splits)
qed (use assms in \<open>auto simp: UnregisterSession_def RefreshSession_def GetActiveSessionCount_def IsSessionActive_def
       Let_def view_simps shrinks_sessionScripts intro!: shrinks_roundtrip shrinks_then_ok\<close>)

lemma RegisterSession_members:
  assumes "0 < idle_seconds c d"
  shows "zmembers (view (snd (RegisterSession R c a u mx d s))) (sessionLimitKey b) \<le>
         max (zmembers (view s) (sessionLimitKey b)) (if a = b then mx else 0)"
proof (cases "u = [] \<or> mx \<le> 0")
  case False
  let ?script = "registerSessionScript R (sessionLimitKey a) mx (idle_seconds c d) u"
  obtain r t where rt: "roundtrip R ?script s = (r, t)" by (cases "roundtrip R ?script s")
  then have t: "snd (RegisterSession R c a u mx d s) = t"
    using False by (simp add: RegisterSession_def Let_def split: sum.splits)
  from roundtrip_cases [OF rt] consider "view t = view s"
    | s' r' where "view s' = view s" "?script s' = (r', t)" by (metis prod.collapse)
  then show ?thesis
  proof cases
    case 2
    with registerScript_members [OF 2(2) assms] registerScript_cases(3) [OF 2(2) assms, of "sessionLimitKey b"]
    show ?thesis unfolding t by (cases "a = b") (auto simp: zmembers_def)
  qed (simp add: t)
qed (auto simp: RegisterSession_def)

lemma session_run_members:
  assumes "session_run R view c allowed s t" and "second \<le> defaultIdleTimeout c"
    and "\<And>u mx d. allowed (OpRegister a u mx d) \<Longrightarrow> mx \<le> limit"
  shows "zmembers (view t) (sessionLimitKey a) \<le> max (zmembers (view s) (sessionLimitKey a)) limit"
  using assms(1)
proof induction
  case (sr_call s t op)
  have "zmembers (view (session_step R c op t)) (sessionLimitKey a) \<le>
        max (zmembers (view t) (sessionLimitKey a)) limit"
  proof (cases "\<exists>b u mx d. op = OpRegister b u mx d")
    case True
    then obtain b u mx d where op: "op = OpRegister b u mx d" by blast
    then show ?thesis
      using RegisterSession_members [OF idle_seconds_pos [OF assms(2)], of b u mx d t a] sr_call.hyps(2) assms(3) [of u mx d]
      by (force simp: zmembers_def split: if_splits)
  next
    case False
    then have "shrinks {sessionLimitKey a} (view t) (view (session_step R c op t))"
      by (intro session_step_shrinks) blast
    from shrinks_members [OF this, of "sessionLimitKey a"] show ?thesis by simp
  qed
  with sr_call.IH show ?case by simp
next
  case (sr_tick s t u d)
  have "shrinks {sessionLimitKey a} (view t) (view u)" by (simp add: sr_tick.hyps)
  from shrinks_members [OF this, of "sessionLimitKey a"] sr_tick.IH show ?case by simp
qed simp

lemma RegisterSession_result:
  assumes run: "RegisterSession R c a u mx d s = ((ok, None), t)"
    and "u \<noteq> []" "0 < mx" "0 < idle_seconds c d"
  shows "ok \<longleftrightarrow> live (idle_seconds c d) (view s) (sessionLimitKey a) u \<noteq> None \<or>
                live_count (idle_seconds c d) (view s) (sessionLimitKey a) < mx"
    and "zsets (view t) (sessionLimitKey a) =
         (if ok then (live (idle_seconds c d) (view s) (sessionLimitKey a))(u \<mapsto> clock (view s))
          else live (idle_seconds c d) (view s) (sessionLimitKey a))"
proof -
  from run assms(2,3) obtain r where
    "roundtrip R (registerSessionScript R (sessionLimitKey a) mx (idle_seconds c d) u) s = (Inr r, t)" "ok \<longleftrightarrow> r = 1"
    by (auto simp: RegisterSession_def Let_def split: prod.splits sum.splits)
  from roundtrip_InrD [OF this(1)] obtain s' where
    s': "view s' = view s" "registerSessionScript R (sessionLimitKey a) mx (idle_seconds c d) u s' = (r, t)" by blast
  note c = registerScript_cases [OF s'(2) assms(4), unfolded s'(1)]
  show "ok \<longleftrightarrow> live (idle_seconds c d) (view s) (sessionLimitKey a) u \<noteq> None \<or>
                live_count (idle_seconds c d) (view s) (sessionLimitKey a) < mx"
    using c(1) \<open>ok \<longleftrightarrow> r = 1\<close> by simp
  show "zsets (view t) (sessionLimitKey a) =
         (if ok then (live (idle_seconds c d) (view s) (sessionLimitKey a))(u \<mapsto> clock (view s))
          else live (idle_seconds c d) (view s) (sessionLimitKey a))"
    using c(2) \<open>ok \<longleftrightarrow> r = 1\<close> by simp
qed

end

subsection \<open>Properties\<close>

text \<open>C25: in any run of the session cache by any number of processes, with any failures of Redis and any
  passing of time, an account has at most as many registered sessions as the largest limit it is
  registered with (or as it had at the start).\<close>

theorem session_limit:
  assumes "redis R view" and "session_run R view c allowed s t" and "second \<le> defaultIdleTimeout c"
    and "\<And>u mx d. allowed (OpRegister a u mx d) \<Longrightarrow> mx \<le> limit"
  shows "zmembers (view t) (sessionLimitKey a) \<le> max (zmembers (view s) (sessionLimitKey a)) limit"
  by (rule redis.session_run_members [OF assms])

theorem session_limit_witness:
  "zmembers (rf_view (session_step ref_ops (NewSessionLimitCache 5) (OpRegister 7 ''u2'' 1 0)
     (session_step ref_ops (NewSessionLimitCache 5) (OpRegister 7 ''u1'' 1 0) ref_empty))) (sessionLimitKey 7) \<le> 1"
  using session_limit [OF ref.redis_axioms
      session_run.sr_call [OF session_run.sr_call [OF session_run.sr_start]], of
      "\<lambda>op. \<exists>u. op = OpRegister 7 u 1 0" "OpRegister 7 ''u1'' 1 0" "OpRegister 7 ''u2'' 1 0"
      "NewSessionLimitCache 5" 7 1 ref_empty]
  by (simp add: NewSessionLimitCache_def minute_def second_def ref_empty_def rf_view_def rf_score_def rf_zset_def zmembers_def)

text \<open>A registration is refused only when the account is full: Redis answered, the session was not
  live, and the live sessions reached the limit. An error of Redis admits the session.\<close>

theorem session_refused_only_when_full:
  assumes "redis R view" and "RegisterSession R c a u mx d s = ((False, err), t)" and "second \<le> defaultIdleTimeout c"
  shows "err = None \<and> live (idle_seconds c d) (view s) (sessionLimitKey a) u = None \<and>
         mx \<le> live_count (idle_seconds c d) (view s) (sessionLimitKey a)"
proof -
  from assms(2) have "err = None" "u \<noteq> []" "0 < mx"
    by (auto simp: RegisterSession_def Let_def split: prod.splits sum.splits if_splits)
  with redis.RegisterSession_result(1) [OF assms(1) assms(2) [unfolded \<open>err = None\<close>]] idle_seconds_pos [OF assms(3)]
  show ?thesis by auto
qed

definition witness_session :: ref_redis where
  "witness_session = snd (RegisterSession ref_ops (NewSessionLimitCache 5) 7 ''u1'' 1 0 ref_empty)"

theorem session_refused_only_when_full_witness:
  "1 \<le> live_count 300 (rf_view witness_session) (sessionLimitKey 7)"
proof -
  have "fst (RegisterSession ref_ops (NewSessionLimitCache 5) 7 ''u2'' 1 0 witness_session) = (False, None)" by code_simp
  note run = pair_of_fst [OF this]
  show ?thesis
    using session_refused_only_when_full [OF ref.redis_axioms run]
    by (simp add: NewSessionLimitCache_def minute_def second_def idle_seconds_def whole_seconds_def go_div_def)
qed

end
