(* ===== verification/LogRedact.thy ===== *)
theory LogRedact
  imports Prelude
begin

section \<open>Redaction of JSON documents\<close>

text \<open>
  Models the JSON part of \<^verbatim>\<open>src/backend/internal/util/logredact/redact.go\<close>: \<^verbatim>\<open>RedactMap\<close>, \<^verbatim>\<open>RedactJSON\<close>, \<^verbatim>\<open>RedactText\<close> and the
  functions under them. A JSON value is what \<^verbatim>\<open>json.Unmarshal\<close> puts into an \<^verbatim>\<open>any\<close>; an object is the list of
  its entries, a number its literal. The JSON encoder and decoder and the Unicode case table of
  \<^verbatim>\<open>strings.ToLower\<close> belong to the Go library and are parameters. The regular expressions with which
  \<^verbatim>\<open>RedactText\<close> treats text that is not JSON are a parameter too.
\<close>

datatype json =
    JNull
  | JBool bool
  | JNum string
  | JStr string
  | JArr "json list"
  | JObj "(string \<times> json) list"

record json_lib =
  j_marshal :: "json \<Rightarrow> string"
  j_unmarshal :: "string \<Rightarrow> json option"
  j_lower :: "string \<Rightarrow> string"
  j_replace :: "string \<Rightarrow> string"

definition maxRedactDepth :: nat where "maxRedactDepth = 32"

definition defaultSensitiveKeys :: "string list" where
  "defaultSensitiveKeys =
     [''authorization_code'', ''code'', ''code_verifier'', ''access_token'', ''refresh_token'', ''id_token'',
      ''client_secret'', ''password'']"

definition normalizeKey :: "'x json_lib_scheme \<Rightarrow> string \<Rightarrow> string" where
  "normalizeKey J key = j_lower J (trim_space key)"

definition buildKeySet :: "'x json_lib_scheme \<Rightarrow> string list \<Rightarrow> string list" where
  "buildKeySet J extraKeys =
     defaultSensitiveKeys @ filter (\<lambda>normalized. normalized \<noteq> []) (map (normalizeKey J) extraKeys)"

definition isSensitiveKey :: "'x json_lib_scheme \<Rightarrow> string \<Rightarrow> string list \<Rightarrow> bool" where
  "isSensitiveKey J key keys \<longleftrightarrow> normalizeKey J key \<in> set keys"

function redactValueWithDepth :: "'x json_lib_scheme \<Rightarrow> json \<Rightarrow> string list \<Rightarrow> nat \<Rightarrow> json" where
  "redactValueWithDepth J v keys depth =
     (if depth > maxRedactDepth then JStr ''<depth limit exceeded>''
      else case v of
        JObj es \<Rightarrow> JObj (map (\<lambda>(k, val).
                     (k, if isSensitiveKey J k keys then JStr ''***''
                         else redactValueWithDepth J val keys (depth + 1))) es)
      | JArr vs \<Rightarrow> JArr (map (\<lambda>item. redactValueWithDepth J item keys (depth + 1)) vs)
      | _ \<Rightarrow> v)"
  by pat_completeness auto
termination
  by (relation "measure (\<lambda>(J, v, keys, depth). Suc maxRedactDepth - depth)") auto

declare redactValueWithDepth.simps [simp del]

definition RedactMap :: "'x json_lib_scheme \<Rightarrow> (string \<times> json) list option \<Rightarrow> string list \<Rightarrow> (string \<times> json) list" where
  "RedactMap J input extraKeys =
     (case input of
        None \<Rightarrow> []
      | Some es \<Rightarrow> (case redactValueWithDepth J (JObj es) (buildKeySet J extraKeys) 0 of JObj out \<Rightarrow> out | _ \<Rightarrow> []))"

definition RedactJSON :: "'x json_lib_scheme \<Rightarrow> string \<Rightarrow> string list \<Rightarrow> string" where
  "RedactJSON J raw extraKeys =
     (if raw = [] then []
      else case j_unmarshal J raw of
        None \<Rightarrow> ''<non-json payload redacted>''
      | Some v \<Rightarrow> j_marshal J (redactValueWithDepth J v (buildKeySet J extraKeys) 0))"

text \<open>\<open>j_replace\<close> is the effect of the regular expressions, on text that is not a JSON document.\<close>

definition RedactText :: "'x json_lib_scheme \<Rightarrow> string \<Rightarrow> string list \<Rightarrow> string" where
  "RedactText J text extraKeys =
     (let input = trim_space text
      in if input = [] then []
         else if j_unmarshal J input \<noteq> None then RedactJSON J input extraKeys
         else j_replace J input)"

text \<open>No entry under a sensitive key, at any depth, holds anything but the mask.\<close>

fun masked :: "'x json_lib_scheme \<Rightarrow> string list \<Rightarrow> json \<Rightarrow> bool" where
  "masked J keys (JObj es) \<longleftrightarrow>
     (\<forall>e \<in> set es. if isSensitiveKey J (fst e) keys then snd e = JStr ''***'' else masked J keys (snd e))"
| "masked J keys (JArr vs) \<longleftrightarrow> (\<forall>v \<in> set vs. masked J keys v)"
| "masked J keys v \<longleftrightarrow> True"

lemma masked_redact: "masked J keys (redactValueWithDepth J v keys depth)"
proof (induction J v keys depth rule: redactValueWithDepth.induct)
  case (1 J v keys depth)
  then show ?case
    by (subst redactValueWithDepth.simps) (auto split: json.splits)
qed

lemma redact_deep: "depth > maxRedactDepth \<Longrightarrow> redactValueWithDepth J v keys depth = JStr ''<depth limit exceeded>''"
  by (simp add: redactValueWithDepth.simps)

lemma redact_cases:
  assumes "\<not> depth > maxRedactDepth"
  shows "redactValueWithDepth J JNull keys depth = JNull"
    "redactValueWithDepth J (JBool b) keys depth = JBool b"
    "redactValueWithDepth J (JNum n) keys depth = JNum n"
    "redactValueWithDepth J (JStr x) keys depth = JStr x"
    "redactValueWithDepth J (JArr vs) keys depth = JArr (map (\<lambda>item. redactValueWithDepth J item keys (depth + 1)) vs)"
    "redactValueWithDepth J (JObj es) keys depth =
       JObj (map (\<lambda>(k, val). (k, if isSensitiveKey J k keys then JStr ''***''
                                else redactValueWithDepth J val keys (depth + 1))) es)"
  by (subst redactValueWithDepth.simps, use assms in simp)+

lemma redact_again:
  "redactValueWithDepth J (redactValueWithDepth J v keys depth) keys depth = redactValueWithDepth J v keys depth"
proof (induction J v keys depth rule: redactValueWithDepth.induct)
  case (1 J v keys depth)
  show ?case
  proof (cases "depth > maxRedactDepth")
    case True
    then show ?thesis by (simp add: redact_deep)
  next
    case False
    note IH = 1 [OF False] and rules = redact_cases [OF False]
    show ?thesis
    proof (cases v)
      case (JArr vs)
      then show ?thesis using IH(1) [OF JArr] by (simp add: rules)
    next
      case (JObj es)
      then show ?thesis using IH(2) [OF JObj] by (auto simp: rules)
    qed (simp_all only: rules)
  qed
qed

subsection \<open>Properties\<close>

text \<open>The entries of the objects of a document, at any depth.\<close>

fun doc_entries :: "json \<Rightarrow> (string \<times> json) list" where
  "doc_entries (JObj es) = es @ concat (map (\<lambda>e. doc_entries (snd e)) es)"
| "doc_entries (JArr vs) = concat (map doc_entries vs)"
| "doc_entries v = []"

lemma masked_entries: "masked J keys v \<Longrightarrow> (k, w) \<in> set (doc_entries v) \<Longrightarrow> isSensitiveKey J k keys \<Longrightarrow> w = JStr ''***''"
proof (induction J keys v rule: masked.induct)
  case (1 J keys es)
  then consider "(k, w) \<in> set es" | e where "e \<in> set es" "(k, w) \<in> set (doc_entries (snd e))" by auto
  then show ?case
  proof cases
    case 1
    then show ?thesis using \<open>masked J keys (JObj es)\<close> \<open>isSensitiveKey J k keys\<close> by fastforce
  next
    case (2 e)
    show ?thesis
    proof (cases "isSensitiveKey J (fst e) keys")
      case True
      then have "snd e = JStr ''***''" using 2(1) \<open>masked J keys (JObj es)\<close> by auto
      then show ?thesis using 2(2) by simp
    next
      case False
      then show ?thesis using "1.IH" [OF 2(1) False] 2 "1.prems" by auto
    qed
  qed
qed auto

text \<open>C21: at any depth of a redacted document, an entry holds only the mask when its key, trimmed and in lower case, is one of
  the eight names of secrets or one of the names the caller adds, trimmed and in lower case.\<close>

theorem redact_hides_secrets:
  assumes "(k, w) \<in> set (doc_entries (redactValueWithDepth J v (buildKeySet J extra) 0))"
    and "j_lower J (trim_space k) \<in> {''authorization_code'', ''code'', ''code_verifier'', ''access_token'', ''refresh_token'',
           ''id_token'', ''client_secret'', ''password''} \<or>
         (\<exists>x\<in>set extra. j_lower J (trim_space x) \<noteq> '''' \<and> j_lower J (trim_space k) = j_lower J (trim_space x))"
  shows "w = JStr ''***''"
proof -
  have "isSensitiveKey J k (buildKeySet J extra)"
    using assms(2) by (auto simp: isSensitiveKey_def buildKeySet_def defaultSensitiveKeys_def normalizeKey_def)
  then show ?thesis using masked_entries [OF masked_redact assms(1)] by blast
qed

definition plain_lib :: json_lib where
  "plain_lib = \<lparr>j_marshal = (\<lambda>_. []), j_unmarshal = (\<lambda>_. None),
     j_lower = map (\<lambda>c. if c = CHR ''P'' then CHR ''p'' else c), j_replace = id\<rparr>"

definition user_document :: json where
  "user_document = JArr [JObj [(''user'', JObj [('' Password'', JStr ''x''), (''seed'', JNum ''7'')])]]"

theorem redact_hides_secrets_witness:
  "map_of (doc_entries (redactValueWithDepth plain_lib user_document (buildKeySet plain_lib ['' seed'']) 0)) '' Password'' = Some (JStr ''***'')"
proof -
  let ?es = "doc_entries (redactValueWithDepth plain_lib user_document (buildKeySet plain_lib ['' seed'']) 0)"
  have "map_of ?es '' Password'' \<noteq> None" by code_simp
  then obtain w where w: "map_of ?es '' Password'' = Some w" by blast
  have "j_lower plain_lib (trim_space '' Password'') = ''password''" by code_simp
  then have "w = JStr ''***''" using redact_hides_secrets [OF map_of_SomeD [OF w]] by simp
  then show ?thesis using w by simp
qed

end
