(* ===== verification/AppErrors.thy ===== *)
theory AppErrors
  imports Prelude
begin

section \<open>Application errors\<close>

text \<open>
  Models \<^verbatim>\<open>src/backend/internal/pkg/errors\<close> (\<^verbatim>\<open>errors.go\<close>, the constructors of \<^verbatim>\<open>types.go\<close>, \<^verbatim>\<open>http.go\<close>).
  An error value is an application error with its status and cause, or any other error with the error
  it wraps; a nil error is \<open>None\<close>. A metadata map is the list of its entries. A status code is the HTTP code the callers pass, far inside \<^verbatim>\<open>int32\<close>.
\<close>

record app_status =
  Code :: int
  Reason :: string
  Message :: string
  Metadata :: "(string \<times> string) list option"

datatype go_error =
    AppError app_status "go_error option"
  | OtherError string "go_error option"

definition UnknownCode :: int where "UnknownCode = 500"
definition UnknownReason :: string where "UnknownReason = ''''"
definition UnknownMessage :: string where "UnknownMessage = ''internal error''"

definition New :: "int \<Rightarrow> string \<Rightarrow> string \<Rightarrow> go_error" where
  "New code reason message = AppError \<lparr>Code = code, Reason = reason, Message = message, Metadata = None\<rparr> None"

definition BadRequest :: "string \<Rightarrow> string \<Rightarrow> go_error" where "BadRequest = New 400"
definition Forbidden :: "string \<Rightarrow> string \<Rightarrow> go_error" where "Forbidden = New 403"
definition NotFound :: "string \<Rightarrow> string \<Rightarrow> go_error" where "NotFound = New 404"
definition Conflict :: "string \<Rightarrow> string \<Rightarrow> go_error" where "Conflict = New 409"
definition TooManyRequests :: "string \<Rightarrow> string \<Rightarrow> go_error" where "TooManyRequests = New 429"
definition InternalServer :: "string \<Rightarrow> string \<Rightarrow> go_error" where "InternalServer = New 500"
definition ServiceUnavailable :: "string \<Rightarrow> string \<Rightarrow> go_error" where "ServiceUnavailable = New 503"

text \<open>\<^verbatim>\<open>errors.As\<close> with an \<^verbatim>\<open>*ApplicationError\<close> target: the first application error of the chain.\<close>

fun as_app :: "go_error \<Rightarrow> (app_status \<times> go_error option) option" where
  "as_app (AppError st cause) = Some (st, cause)"
| "as_app (OtherError msg (Some e)) = as_app e"
| "as_app (OtherError msg None) = None"

fun WithCause :: "go_error \<Rightarrow> go_error \<Rightarrow> go_error" where
  "WithCause (AppError st cause) c = AppError st (Some c)"
| "WithCause e c = e"

fun WithMetadata :: "go_error \<Rightarrow> (string \<times> string) list option \<Rightarrow> go_error" where
  "WithMetadata (AppError st cause) md = AppError (st\<lparr>Metadata := md\<rparr>) cause"
| "WithMetadata e md = e"

definition FromError :: "go_error \<Rightarrow> app_status \<times> go_error option" where
  "FromError err =
     (case as_app err of
        Some se \<Rightarrow> se
      | None \<Rightarrow> (\<lparr>Code = UnknownCode, Reason = UnknownReason, Message = UnknownMessage, Metadata = None\<rparr>, Some err))"

definition error_code :: "go_error option \<Rightarrow> int" where
  "error_code err = (case err of None \<Rightarrow> 200 | Some e \<Rightarrow> Code (fst (FromError e)))"

definition error_reason :: "go_error option \<Rightarrow> string" where
  "error_reason err = (case err of None \<Rightarrow> UnknownReason | Some e \<Rightarrow> Reason (fst (FromError e)))"

definition error_message :: "go_error option \<Rightarrow> string" where
  "error_message err = (case err of None \<Rightarrow> '''' | Some e \<Rightarrow> Message (fst (FromError e)))"

definition error_is :: "app_status \<Rightarrow> go_error \<Rightarrow> bool" where
  "error_is st target = (case as_app target of Some (se, _) \<Rightarrow> Code se = Code st \<and> Reason se = Reason st | None \<Rightarrow> False)"

definition ToHTTP :: "go_error option \<Rightarrow> int \<times> app_status" where
  "ToHTTP err =
     (case err of
        None \<Rightarrow> (200, \<lparr>Code = 200, Reason = '''', Message = '''', Metadata = None\<rparr>)
      | Some e \<Rightarrow> (let st = fst (FromError e)
                   in (Code st, \<lparr>Code = Code st, Reason = Reason st, Message = Message st, Metadata = Metadata st\<rparr>)))"

lemmas error_ctor_defs = BadRequest_def Forbidden_def NotFound_def Conflict_def TooManyRequests_def
  InternalServer_def ServiceUnavailable_def New_def

text \<open>A cause or metadata added on the way never changes the status code and reason a client sees.\<close>

lemma ToHTTP_WithCause [simp]: "ToHTTP (Some (WithCause e c)) = ToHTTP (Some e) \<or> as_app e = None"
  by (cases e) (simp_all add: ToHTTP_def FromError_def split: option.splits)

lemma error_code_WithMetadata [simp]: "error_code (Some (WithMetadata e md)) = error_code (Some e)"
  by (cases e) (simp_all add: error_code_def FromError_def)

end
