(* ===== verification/IdempotencyRepo.thy ===== *)
theory IdempotencyRepo
  imports Prelude
begin

section \<open>The idempotency records: interface and SQL repository\<close>

text \<open>
  Models the interface \<^verbatim>\<open>IdempotencyRepository\<close> of \<^verbatim>\<open>src/backend/internal/service/idempotency.go\<close> and its
  implementation \<^verbatim>\<open>src/backend/internal/repository/idempotency_repo.go\<close>. The interface is the locale
  \<open>idempotency_repository\<close>: each operation performs an atomic step on a table keyed by scope and key
  hash, or fails with or without having performed it. The SQL statements are modelled as functions on
  the list of rows of \<^verbatim>\<open>idempotency_records\<close>, and the locale is interpreted on them. Times are those a
  \<^verbatim>\<open>TIMESTAMPTZ\<close> column holds: the digits below a microsecond are not represented. The length limits of the
  \<^verbatim>\<open>VARCHAR\<close> columns are among the errors a statement may return.
\<close>

subsection \<open>Records\<close>

record IdempotencyRecord =
  ID :: int
  Scope :: string
  IdempotencyKeyHash :: string
  RequestFingerprint :: string
  Status :: string
  ResponseStatus :: "int option"
  ResponseBody :: "string option"
  ErrorReason :: "string option"
  LockedUntil :: "time option"
  ExpiresAt :: time
  CreatedAt :: time
  UpdatedAt :: time

definition IdempotencyStatusProcessing :: string where "IdempotencyStatusProcessing = ''processing''"
definition IdempotencyStatusSucceeded :: string where "IdempotencyStatusSucceeded = ''succeeded''"
definition IdempotencyStatusFailedRetryable :: string where
  "IdempotencyStatusFailedRetryable = ''failed_retryable''"

lemmas status_defs = IdempotencyStatusProcessing_def IdempotencyStatusSucceeded_def
  IdempotencyStatusFailedRetryable_def

record 'r idempotency_ops =
  CreateProcessing :: "IdempotencyRecord \<Rightarrow> 'r \<Rightarrow> (string + bool \<times> IdempotencyRecord) \<times> 'r"
  GetByScopeAndKeyHash :: "string \<Rightarrow> string \<Rightarrow> 'r \<Rightarrow> (string + IdempotencyRecord option) \<times> 'r"
  TryReclaim :: "int \<Rightarrow> string \<Rightarrow> time \<Rightarrow> time \<Rightarrow> time \<Rightarrow> 'r \<Rightarrow> (string + bool) \<times> 'r"
  ExtendProcessingLock :: "int \<Rightarrow> string \<Rightarrow> time \<Rightarrow> time \<Rightarrow> 'r \<Rightarrow> (string + bool) \<times> 'r"
  MarkSucceeded :: "int \<Rightarrow> int \<Rightarrow> string \<Rightarrow> time \<Rightarrow> 'r \<Rightarrow> (string + unit) \<times> 'r"
  MarkFailedRetryable :: "int \<Rightarrow> string \<Rightarrow> time \<Rightarrow> time \<Rightarrow> 'r \<Rightarrow> (string + unit) \<times> 'r"
  DeleteExpired :: "time \<Rightarrow> int \<Rightarrow> 'r \<Rightarrow> (string + int) \<times> 'r"

subsection \<open>What the operations promise\<close>

type_synonym idem_table = "string \<times> string \<rightharpoonup> IdempotencyRecord"

definition record_key :: "IdempotencyRecord \<Rightarrow> string \<times> string" where
  "record_key r = (Scope r, IdempotencyKeyHash r)"

definition fresh_row :: "IdempotencyRecord \<Rightarrow> int \<Rightarrow> time \<Rightarrow> IdempotencyRecord" where
  "fresh_row r i ts = r\<lparr>ID := i, ResponseStatus := None, ResponseBody := None, ErrorReason := None,
                        CreatedAt := ts, UpdatedAt := ts\<rparr>"

definition update_where :: "(IdempotencyRecord \<Rightarrow> bool) \<Rightarrow> (IdempotencyRecord \<Rightarrow> IdempotencyRecord) \<Rightarrow>
    IdempotencyRecord \<Rightarrow> IdempotencyRecord" where
  "update_where P f r = (if P r then f r else r)"

definition reclaimable :: "int \<Rightarrow> string \<Rightarrow> time \<Rightarrow> IdempotencyRecord \<Rightarrow> bool" where
  "reclaimable i fromStatus now r \<longleftrightarrow> ID r = i \<and> Status r = fromStatus \<and>
     (case LockedUntil r of None \<Rightarrow> True | Some l \<Rightarrow> l \<le> now)"

definition reclaim_row :: "time \<Rightarrow> time \<Rightarrow> time \<Rightarrow> IdempotencyRecord \<Rightarrow> IdempotencyRecord" where
  "reclaim_row newLockedUntil newExpiresAt ts r =
     r\<lparr>Status := IdempotencyStatusProcessing, LockedUntil := Some newLockedUntil, ErrorReason := None,
       UpdatedAt := ts, ExpiresAt := newExpiresAt\<rparr>"

definition extendable :: "int \<Rightarrow> string \<Rightarrow> IdempotencyRecord \<Rightarrow> bool" where
  "extendable i requestFingerprint r \<longleftrightarrow>
     ID r = i \<and> Status r = IdempotencyStatusProcessing \<and> RequestFingerprint r = requestFingerprint"

definition extend_row :: "time \<Rightarrow> time \<Rightarrow> time \<Rightarrow> IdempotencyRecord \<Rightarrow> IdempotencyRecord" where
  "extend_row newLockedUntil newExpiresAt ts r =
     r\<lparr>LockedUntil := Some newLockedUntil, ExpiresAt := newExpiresAt, UpdatedAt := ts\<rparr>"

definition succeed_row :: "int \<Rightarrow> string \<Rightarrow> time \<Rightarrow> time \<Rightarrow> IdempotencyRecord \<Rightarrow> IdempotencyRecord" where
  "succeed_row responseStatus responseBody expiresAt ts r =
     r\<lparr>Status := IdempotencyStatusSucceeded, ResponseStatus := Some responseStatus,
       ResponseBody := Some responseBody, ErrorReason := None, LockedUntil := None,
       ExpiresAt := expiresAt, UpdatedAt := ts\<rparr>"

definition fail_row :: "string \<Rightarrow> time \<Rightarrow> time \<Rightarrow> time \<Rightarrow> IdempotencyRecord \<Rightarrow> IdempotencyRecord" where
  "fail_row errorReason lockedUntil expiresAt ts r =
     r\<lparr>Status := IdempotencyStatusFailedRetryable, ErrorReason := Some errorReason,
       LockedUntil := Some lockedUntil, ExpiresAt := expiresAt, UpdatedAt := ts\<rparr>"

definition update_table :: "(IdempotencyRecord \<Rightarrow> bool) \<Rightarrow> (IdempotencyRecord \<Rightarrow> IdempotencyRecord) \<Rightarrow>
    idem_table \<Rightarrow> idem_table" where
  "update_table P f T = (\<lambda>k. map_option (update_where P f) (T k))"

text \<open>
  The abstract store is the table and a bound on the ids issued so far: an id is never issued twice. The
  specifications relate the store before, the answer and the store after.
\<close>

record idem_store =
  table :: idem_table
  issued_below :: int

definition create_spec where
  "create_spec rc v answer v' \<longleftrightarrow>
     issued_below v \<le> issued_below v' \<and>
     (if fst answer
      then record_key rc \<notin> dom (table v) \<and>
           (\<exists>i ts. 0 < i \<and> issued_below v \<le> i \<and> i < issued_below v' \<and>
                   snd answer = rc\<lparr>ID := i, CreatedAt := ts, UpdatedAt := ts\<rparr> \<and>
                   table v' = (table v)(record_key rc \<mapsto> fresh_row rc i ts))
      else record_key rc \<in> dom (table v) \<and> snd answer = rc \<and> table v' = table v)"

definition on_table :: "(idem_table \<Rightarrow> 'a \<Rightarrow> idem_table \<Rightarrow> bool) \<Rightarrow> idem_store \<Rightarrow> 'a \<Rightarrow> idem_store \<Rightarrow> bool" where
  "on_table spec v answer v' \<longleftrightarrow> spec (table v) answer (table v') \<and> issued_below v' = issued_below v"

definition get_spec where
  "get_spec scope keyHash T answer T' \<longleftrightarrow> answer = T (scope, keyHash) \<and> T' = (T :: idem_table)"

definition conditional_update where
  "conditional_update P f T answer T' \<longleftrightarrow>
     (answer \<longleftrightarrow> (\<exists>r \<in> ran T. P r)) \<and> (\<exists>ts. T' = update_table P (f (ts :: time)) T)"

definition mark_spec where
  "mark_spec i f T answer T' \<longleftrightarrow> (\<exists>ts. T' = update_table (\<lambda>r. ID r = i) (f (ts :: time)) T)"

definition delete_spec where
  "delete_spec now limit T answer T' \<longleftrightarrow>
     (\<exists>K. K \<subseteq> dom T \<and> (\<forall>k r. k \<in> K \<longrightarrow> T k = Some r \<longrightarrow> ExpiresAt r \<le> now) \<and> T' = T |` (- K) \<and>
          answer = int (card K) \<and> answer \<le> (if limit \<le> 0 then 500 else limit) \<and>
          (answer < (if limit \<le> 0 then 500 else limit) \<longrightarrow>
             (\<forall>k r. T k = Some r \<longrightarrow> ExpiresAt r \<le> now \<longrightarrow> k \<in> K)))"

definition performs :: "('r \<Rightarrow> bool) \<Rightarrow> ('r \<Rightarrow> idem_store) \<Rightarrow> (idem_store \<Rightarrow> 'a \<Rightarrow> idem_store \<Rightarrow> bool) \<Rightarrow>
    ('r \<Rightarrow> (string + 'a) \<times> 'r) \<Rightarrow> bool" where
  "performs ok view spec m \<longleftrightarrow>
     (\<forall>s r t. ok s \<longrightarrow> m s = (r, t) \<longrightarrow> ok t \<and>
        (case r of Inr a \<Rightarrow> spec (view s) a (view t)
                 | Inl e \<Rightarrow> view t = view s \<or> (\<exists>a. spec (view s) a (view t))))"

locale idempotency_repository =
  fixes P :: "'r idempotency_ops" and ok :: "'r \<Rightarrow> bool" and view :: "'r \<Rightarrow> idem_store"
  assumes keys: "ok s \<Longrightarrow> table (view s) k = Some r \<Longrightarrow> record_key r = k"
    and ids_unique: "ok s \<Longrightarrow> table (view s) k = Some r \<Longrightarrow> table (view s) k' = Some r' \<Longrightarrow> ID r = ID r' \<Longrightarrow> k = k'"
    and ids_bounds: "ok s \<Longrightarrow> table (view s) k = Some r \<Longrightarrow> 0 < ID r \<and> ID r < issued_below (view s)"
    and create: "performs ok view (create_spec rc) (CreateProcessing P rc)"
    and get: "performs ok view (on_table (get_spec scope keyHash)) (GetByScopeAndKeyHash P scope keyHash)"
    and reclaim: "performs ok view (on_table (conditional_update (reclaimable i fromStatus now) (reclaim_row lu ex)))
                    (TryReclaim P i fromStatus now lu ex)"
    and extend: "performs ok view (on_table (conditional_update (extendable i fp) (extend_row lu ex)))
                    (ExtendProcessingLock P i fp lu ex)"
    and succeed: "performs ok view (on_table (mark_spec i (succeed_row st body ex))) (MarkSucceeded P i st body ex)"
    and fail: "performs ok view (on_table (mark_spec i (fail_row reason lu ex))) (MarkFailedRetryable P i reason lu ex)"
    and delete: "performs ok view (on_table (delete_spec now limit)) (DeleteExpired P now limit)"
begin

text \<open>The answers, one case at a time.\<close>

lemma performsD:
  assumes "performs ok view spec m" "ok s" "m s = (r, t)"
  shows "ok t" "r = Inr a \<Longrightarrow> spec (view s) a (view t)"
    "r = Inl e \<Longrightarrow> view t = view s \<or> (\<exists>a. spec (view s) a (view t))"
proof -
  from assms have "ok t \<and> (case r of Inr a \<Rightarrow> spec (view s) a (view t)
                 | Inl e \<Rightarrow> view t = view s \<or> (\<exists>a. spec (view s) a (view t)))"
    unfolding performs_def by blast
  then show "ok t" "r = Inr a \<Longrightarrow> spec (view s) a (view t)"
    "r = Inl e \<Longrightarrow> view t = view s \<or> (\<exists>a. spec (view s) a (view t))" by auto
qed

lemma get_result:
  assumes "ok s" "GetByScopeAndKeyHash P scope keyHash s = (r, t)"
  shows "ok t" "view t = view s" "r = Inr x \<Longrightarrow> x = table (view s) (scope, keyHash)"
  using performsD [OF get assms] by (cases r; force simp: get_spec_def on_table_def)+

lemma update_table_other: "(\<And>r. T k = Some r \<Longrightarrow> \<not> Q r) \<Longrightarrow> update_table Q f T k = T k"
  by (cases "T k") (auto simp: update_table_def update_where_def)

lemma update_table_hit: "T k = Some r \<Longrightarrow> Q r \<Longrightarrow> update_table Q f T k = Some (f r)"
  by (simp add: update_table_def update_where_def)

end

subsection \<open>The SQL repository\<close>

record idem_db =
  rows :: "IdempotencyRecord list"
  next_id :: int
  db_now :: time
  db_links :: "link list"

text \<open>A statement is one round trip to the database; \<^verbatim>\<open>err\<close> is the error of the driver or of the server.\<close>

definition sql_exec :: "(idem_db \<Rightarrow> 'a \<times> idem_db) \<Rightarrow> idem_db \<Rightarrow> (string + 'a) \<times> idem_db" where
  "sql_exec stmt db =
     (case db_links db of
        [] \<Rightarrow> (let (a, d) = stmt db in (Inr a, d))
      | l # ls \<Rightarrow>
          (let db' = db\<lparr>db_links := ls\<rparr>
           in case l of
                Delivered \<Rightarrow> (let (a, d) = stmt db' in (Inr a, d))
              | NotSent e \<Rightarrow> (Inl e, db')
              | ReplyLost e \<Rightarrow> (Inl e, snd (stmt db'))))"

text \<open>
  \<^verbatim>\<open>INSERT ... ON CONFLICT (scope, idempotency_key_hash) DO NOTHING RETURNING id, created_at, updated_at\<close>:
  no row is returned when the key is taken. The id comes from a sequence, which moves on in both cases.
\<close>

definition insert_ignore :: "IdempotencyRecord \<Rightarrow> idem_db \<Rightarrow> (int \<times> time \<times> time) option \<times> idem_db" where
  "insert_ignore rc db =
     (let i = next_id db; db' = db\<lparr>next_id := i + 1\<rparr>
      in if list_ex (\<lambda>r. Scope r = Scope rc \<and> IdempotencyKeyHash r = IdempotencyKeyHash rc) (rows db)
         then (None, db')
         else (Some (i, db_now db, db_now db), db'\<lparr>rows := rows db @ [fresh_row rc i (db_now db)]\<rparr>))"

definition sql_CreateProcessing ::
  "IdempotencyRecord \<Rightarrow> idem_db \<Rightarrow> (string + bool \<times> IdempotencyRecord) \<times> idem_db" where
  "sql_CreateProcessing rc db =
     (case sql_exec (insert_ignore rc) db of
        (Inl err, db) \<Rightarrow> (Inl err, db)
      | (Inr None, db) \<Rightarrow> (Inr (False, rc), db)
      | (Inr (Some (i, createdAt, updatedAt)), db) \<Rightarrow>
          (Inr (True, rc\<lparr>ID := i, CreatedAt := createdAt, UpdatedAt := updatedAt\<rparr>), db))"

definition sql_GetByScopeAndKeyHash ::
  "string \<Rightarrow> string \<Rightarrow> idem_db \<Rightarrow> (string + IdempotencyRecord option) \<times> idem_db" where
  "sql_GetByScopeAndKeyHash scope keyHash =
     sql_exec (\<lambda>db. (find (\<lambda>r. Scope r = scope \<and> IdempotencyKeyHash r = keyHash) (rows db), db))"

definition update_rows ::
  "(IdempotencyRecord \<Rightarrow> bool) \<Rightarrow> (time \<Rightarrow> IdempotencyRecord \<Rightarrow> IdempotencyRecord) \<Rightarrow> idem_db \<Rightarrow> int \<times> idem_db" where
  "update_rows Q f db =
     (int (length (filter Q (rows db))), db\<lparr>rows := map (update_where Q (f (db_now db))) (rows db)\<rparr>)"

definition affected :: "(string + int) \<times> idem_db \<Rightarrow> (string + bool) \<times> idem_db" where
  "affected res = (case res of (Inl err, db) \<Rightarrow> (Inl err, db) | (Inr n, db) \<Rightarrow> (Inr (n > 0), db))"

definition no_result :: "(string + int) \<times> idem_db \<Rightarrow> (string + unit) \<times> idem_db" where
  "no_result res = (case res of (Inl err, db) \<Rightarrow> (Inl err, db) | (Inr n, db) \<Rightarrow> (Inr (), db))"

definition sql_TryReclaim ::
  "int \<Rightarrow> string \<Rightarrow> time \<Rightarrow> time \<Rightarrow> time \<Rightarrow> idem_db \<Rightarrow> (string + bool) \<times> idem_db" where
  "sql_TryReclaim i fromStatus now newLockedUntil newExpiresAt db =
     affected (sql_exec (update_rows (reclaimable i fromStatus now) (reclaim_row newLockedUntil newExpiresAt)) db)"

definition sql_ExtendProcessingLock ::
  "int \<Rightarrow> string \<Rightarrow> time \<Rightarrow> time \<Rightarrow> idem_db \<Rightarrow> (string + bool) \<times> idem_db" where
  "sql_ExtendProcessingLock i requestFingerprint newLockedUntil newExpiresAt db =
     affected (sql_exec (update_rows (extendable i requestFingerprint) (extend_row newLockedUntil newExpiresAt)) db)"

definition sql_MarkSucceeded :: "int \<Rightarrow> int \<Rightarrow> string \<Rightarrow> time \<Rightarrow> idem_db \<Rightarrow> (string + unit) \<times> idem_db" where
  "sql_MarkSucceeded i responseStatus responseBody expiresAt db =
     no_result (sql_exec (update_rows (\<lambda>r. ID r = i) (succeed_row responseStatus responseBody expiresAt)) db)"

definition sql_MarkFailedRetryable :: "int \<Rightarrow> string \<Rightarrow> time \<Rightarrow> time \<Rightarrow> idem_db \<Rightarrow> (string + unit) \<times> idem_db" where
  "sql_MarkFailedRetryable i errorReason lockedUntil expiresAt db =
     no_result (sql_exec (update_rows (\<lambda>r. ID r = i) (fail_row errorReason lockedUntil expiresAt)) db)"

definition sql_DeleteExpired :: "time \<Rightarrow> int \<Rightarrow> idem_db \<Rightarrow> (string + int) \<times> idem_db" where
  "sql_DeleteExpired now limit =
     (let limit' = (if limit \<le> 0 then 500 else limit)
      in sql_exec (\<lambda>db.
           let victims = map ID (take (nat limit') (sort_key ExpiresAt (filter (\<lambda>r. ExpiresAt r \<le> now) (rows db))));
               kept = filter (\<lambda>r. ID r \<notin> set victims) (rows db)
           in (int (length (rows db)) - int (length kept), db\<lparr>rows := kept\<rparr>)))"

definition sql_repo :: "idem_db idempotency_ops" where
  "sql_repo = \<lparr>CreateProcessing = sql_CreateProcessing, GetByScopeAndKeyHash = sql_GetByScopeAndKeyHash,
     TryReclaim = sql_TryReclaim, ExtendProcessingLock = sql_ExtendProcessingLock,
     MarkSucceeded = sql_MarkSucceeded, MarkFailedRetryable = sql_MarkFailedRetryable,
     DeleteExpired = sql_DeleteExpired\<rparr>"

definition empty_db :: idem_db where
  "empty_db = \<lparr>rows = [], next_id = 1, db_now = 0, db_links = []\<rparr>"

text \<open>What the unique index, the primary key and the sequence guarantee.\<close>

definition db_ok :: "idem_db \<Rightarrow> bool" where
  "db_ok db \<longleftrightarrow> distinct (map record_key (rows db)) \<and> distinct (map ID (rows db)) \<and> 0 < next_id db \<and>
     (\<forall>r \<in> set (rows db). 0 < ID r \<and> ID r < next_id db)"

definition db_table :: "idem_db \<Rightarrow> idem_table" where
  "db_table db = map_of (map (\<lambda>r. (record_key r, r)) (rows db))"

definition db_view :: "idem_db \<Rightarrow> idem_store" where
  "db_view db = \<lparr>table = db_table db, issued_below = next_id db\<rparr>"

lemma db_view_simps [simp]: "table (db_view db) = db_table db" "issued_below (db_view db) = next_id db"
  by (simp_all add: db_view_def)

subsection \<open>The SQL repository implements the interface\<close>

lemma sql_exec_performs:
  assumes "\<And>db ls. db_ok (db\<lparr>db_links := ls\<rparr>) = db_ok db"
    and stmt: "\<And>db a d. db_ok db \<Longrightarrow> stmt db = (a, d) \<Longrightarrow> db_ok d \<and> spec (db_view db) a (db_view d)"
  shows "performs db_ok db_view spec (sql_exec stmt)"
  unfolding performs_def
proof (intro allI impI)
  fix db r t
  assume ok: "db_ok db" and run: "sql_exec stmt db = (r, t)"
  have same: "db_view (db\<lparr>db_links := ls\<rparr>) = db_view db" for ls by (simp add: db_view_def db_table_def)
  have ok': "db_ok (db\<lparr>db_links := ls\<rparr>)" for ls using ok assms(1) by simp
  note stmts = stmt [OF ok] stmt [OF ok', unfolded same]
  show "db_ok t \<and> (case r of Inr a \<Rightarrow> spec (db_view db) a (db_view t)
                 | Inl e \<Rightarrow> db_view t = db_view db \<or> (\<exists>a. spec (db_view db) a (db_view t)))"
    using run ok' stmts
    by (auto simp: sql_exec_def Let_def same split: list.splits link.splits prod.splits)
      (metis prod.collapse stmts)+
qed

lemma db_ok_links [simp]: "db_ok (db\<lparr>db_links := ls\<rparr>) = db_ok db"
  by (simp add: db_ok_def)

lemma db_table_Some_iff:
  assumes "db_ok db"
  shows "db_table db k = Some r \<longleftrightarrow> r \<in> set (rows db) \<and> record_key r = k"
proof -
  have "distinct (map fst (map (\<lambda>r. (record_key r, r)) (rows db)))"
    using assms by (simp add: db_ok_def comp_def)
  then show ?thesis by (auto simp: db_table_def)
qed

lemma db_table_dom: "dom (db_table db) = record_key ` set (rows db)"
  by (simp add: db_table_def dom_map_of_conv_image_fst image_image)

lemma db_table_ran: "db_ok db \<Longrightarrow> ran (db_table db) = set (rows db)"
  by (auto simp: ran_def db_table_Some_iff)

lemma insert_ignore_spec:
  assumes ok: "db_ok db" and run: "insert_ignore rc db = (a, d)"
  shows "db_ok d" "next_id db \<le> next_id d"
    "a = None \<Longrightarrow> record_key rc \<in> dom (db_table db) \<and> db_table d = db_table db"
    "a = Some (i, c, u) \<Longrightarrow> record_key rc \<notin> dom (db_table db) \<and> 0 < i \<and> next_id db \<le> i \<and> i < next_id d \<and> u = c \<and>
       db_table d = (db_table db)(record_key rc \<mapsto> fresh_row rc i c)"
proof -
  have taken: "list_ex (\<lambda>r. Scope r = Scope rc \<and> IdempotencyKeyHash r = IdempotencyKeyHash rc) (rows db) \<longleftrightarrow>
               record_key rc \<in> dom (db_table db)"
    by (simp add: db_table_dom list_ex_iff record_key_def image_iff) metis
  have key: "record_key (fresh_row rc i ts) = record_key rc" for i ts
    by (simp add: record_key_def fresh_row_def)
  have new: "db_table (db\<lparr>next_id := n, rows := rows db @ [fresh_row rc i ts]\<rparr>) =
             (db_table db)(record_key rc \<mapsto> fresh_row rc i ts)" if "record_key rc \<notin> dom (db_table db)" for n i ts
    using that by (auto simp: db_table_def key fun_eq_iff map_add_def domIff split: option.splits)
  have fresh: "0 < next_id db" using ok by (simp add: db_ok_def)
  show "next_id db \<le> next_id d" using run by (auto simp: insert_ignore_def Let_def split: if_splits)
  show "db_ok d"
  proof (cases "record_key rc \<in> dom (db_table db)")
    case True
    with run taken have "d = db\<lparr>next_id := next_id db + 1\<rparr>" by (auto simp: insert_ignore_def Let_def)
    with ok show ?thesis by (fastforce simp: db_ok_def)
  next
    case False
    then have "record_key rc \<notin> record_key ` set (rows db)" by (simp add: db_table_dom)
    with False run ok taken show ?thesis
      by (auto simp: insert_ignore_def Let_def db_ok_def key) (auto simp: fresh_row_def)
  qed
  show "a = None \<Longrightarrow> record_key rc \<in> dom (db_table db) \<and> db_table d = db_table db"
    using run taken by (auto simp: insert_ignore_def Let_def db_table_def split: if_splits)
  show "a = Some (i, c, u) \<Longrightarrow> record_key rc \<notin> dom (db_table db) \<and> 0 < i \<and> next_id db \<le> i \<and> i < next_id d \<and> u = c \<and>
       db_table d = (db_table db)(record_key rc \<mapsto> fresh_row rc i c)"
    using run taken fresh new by (auto simp: insert_ignore_def Let_def split: if_splits)
qed

lemma map_of_rows_map:
  assumes "\<And>r. record_key (g r) = record_key r"
  shows "map_of (map (\<lambda>r. (record_key (g r), g r)) rs) k =
         map_option g (map_of (map (\<lambda>r. (record_key r, r)) rs) k)"
  by (induction rs) (auto simp: assms)

text \<open>An update keeps the keys and ids, so it keeps the constraints and is the update of the table.\<close>

lemma update_rows_spec:
  assumes ok: "db_ok db" and run: "update_rows Q f db = (n, d)"
    and keeps: "\<And>ts r. ID (f ts r) = ID r" "\<And>ts r. record_key (f ts r) = record_key r"
  shows "db_ok d" "n > 0 \<longleftrightarrow> (\<exists>r \<in> ran (db_table db). Q r)" "db_table d = update_table Q (f (db_now db)) (db_table db)"
    "next_id d = next_id db"
proof -
  have d: "d = db\<lparr>rows := map (update_where Q (f (db_now db))) (rows db)\<rparr>" "n = int (length (filter Q (rows db)))"
    using run by (auto simp: update_rows_def)
  then show "next_id d = next_id db" by simp
  have keep: "ID (update_where Q (f ts) r) = ID r" "record_key (update_where Q (f ts) r) = record_key r" for ts r
    by (simp_all add: update_where_def keeps)
  then show "db_ok d" using ok by (simp add: d db_ok_def comp_def)
  show "n > 0 \<longleftrightarrow> (\<exists>r \<in> ran (db_table db). Q r)"
    by (simp add: d db_table_ran [OF ok] filter_empty_conv)
  show "db_table d = update_table Q (f (db_now db)) (db_table db)"
    using map_of_rows_map [of "update_where Q (f (db_now db))" "rows db"] keep
    by (simp add: d db_table_def update_table_def fun_eq_iff comp_def)
qed

lemma row_keeps:
  "ID (reclaim_row lu ex ts r) = ID r" "record_key (reclaim_row lu ex ts r) = record_key r"
  "ID (extend_row lu ex ts r) = ID r" "record_key (extend_row lu ex ts r) = record_key r"
  "ID (succeed_row st body ex ts r) = ID r" "record_key (succeed_row st body ex ts r) = record_key r"
  "ID (fail_row reason lu ex ts r) = ID r" "record_key (fail_row reason lu ex ts r) = record_key r"
  by (simp_all add: reclaim_row_def extend_row_def succeed_row_def fail_row_def record_key_def)

lemma update_performs:
  assumes "\<And>ts r. ID (f ts r) = ID r" "\<And>ts r. record_key (f ts r) = record_key r"
  shows "performs db_ok db_view (on_table (\<lambda>T n T'. (n > 0 \<longleftrightarrow> (\<exists>r \<in> ran T. Q r)) \<and> (\<exists>ts. T' = update_table Q (f ts) T)))
           (sql_exec (update_rows Q f))"
proof (rule sql_exec_performs)
  fix db a d
  assume "db_ok db" "update_rows Q f db = (a, d)"
  from update_rows_spec [OF this assms]
  show "db_ok d \<and> on_table (\<lambda>T n T'. (n > 0 \<longleftrightarrow> (\<exists>r \<in> ran T. Q r)) \<and> (\<exists>ts. T' = update_table Q (f ts) T))
          (db_view db) a (db_view d)" by (auto simp: on_table_def)
qed simp

lemma performs_map:
  assumes "performs ok view spec m" "\<And>T a T'. spec T a T' \<Longrightarrow> spec' T (g a) T'"
    and "\<And>s. m' s = (case m s of (Inl err, t) \<Rightarrow> (Inl err, t) | (Inr a, t) \<Rightarrow> (Inr (g a), t))"
  shows "performs ok view spec' m'"
  unfolding performs_def
proof (intro allI impI)
  fix s r t
  assume s: "ok s" "m' s = (r, t)"
  obtain r0 t0 where m: "m s = (r0, t0)" by (cases "m s")
  with assms(1) s(1) have now: "ok t0 \<and> (case r0 of Inr a \<Rightarrow> spec (view s) a (view t0)
                 | Inl e \<Rightarrow> view t0 = view s \<or> (\<exists>a. spec (view s) a (view t0)))"
    unfolding performs_def by blast
  show "ok t \<and> (case r of Inr a \<Rightarrow> spec' (view s) a (view t)
                 | Inl e \<Rightarrow> view t = view s \<or> (\<exists>a. spec' (view s) a (view t)))"
  proof (cases r0)
    case (Inl e)
    with s(2) m have "r = Inl e" "t = t0" by (auto simp: assms(3))
    with now Inl assms(2) show ?thesis by simp blast
  next
    case (Inr a)
    with s(2) m have "r = Inr (g a)" "t = t0" by (auto simp: assms(3))
    with now Inr assms(2) show ?thesis by simp
  qed
qed

lemma sql_create_performs: "performs db_ok db_view (create_spec rc) (sql_CreateProcessing rc)"
proof (rule performs_map)
  let ?spec = "\<lambda>v a v'. issued_below v \<le> issued_below v' \<and>
     (a = None \<longrightarrow> record_key rc \<in> dom (table v) \<and> table v' = table v) \<and>
     (\<forall>i c u. a = Some (i, c, u) \<longrightarrow> record_key rc \<notin> dom (table v) \<and> 0 < i \<and> issued_below v \<le> i \<and>
        i < issued_below v' \<and> u = c \<and> table v' = (table v)(record_key rc \<mapsto> fresh_row rc i c))"
  show "performs db_ok db_view ?spec (sql_exec (insert_ignore rc))"
    by (rule sql_exec_performs) (simp, use insert_ignore_spec in \<open>simp, blast\<close>)
  show "sql_CreateProcessing rc db = (case sql_exec (insert_ignore rc) db of
          (Inl err, t) \<Rightarrow> (Inl err, t)
        | (Inr a, t) \<Rightarrow> (Inr (case a of None \<Rightarrow> (False, rc)
                            | Some (i, c, u) \<Rightarrow> (True, rc\<lparr>ID := i, CreatedAt := c, UpdatedAt := u\<rparr>)), t))" for db
    by (auto simp: sql_CreateProcessing_def split: prod.splits sum.splits option.splits)
  fix v a v'
  assume "?spec v a v'"
  then show "create_spec rc v (case a of None \<Rightarrow> (False, rc)
                            | Some (i, c, u) \<Rightarrow> (True, rc\<lparr>ID := i, CreatedAt := c, UpdatedAt := u\<rparr>)) v'"
    unfolding create_spec_def by (cases a) (simp, cases "the a", simp, blast)
qed

lemma delete_rows:
  assumes ok: "db_ok db" and dead: "set dead \<subseteq> set (rows db)" and dist: "distinct dead"
    and d: "d = db\<lparr>rows := filter (\<lambda>r. ID r \<notin> set (map ID dead)) (rows db)\<rparr>"
  shows "db_ok d" "db_table d = db_table db |` (- record_key ` set dead)"
    "int (length (rows db)) - int (length (rows d)) = int (card (record_key ` set dead))"
    "card (record_key ` set dead) = length dead"
proof -
  have inj: "inj_on ID (set (rows db))" "inj_on record_key (set (rows db))" "distinct (rows db)"
    using ok by (simp_all add: db_ok_def distinct_map)
  have kept: "set (rows d) = set (rows db) - set dead"
    using dead inj(1) by (auto simp: d dest: inj_onD)
  show okd: "db_ok d" using ok by (auto simp: d db_ok_def distinct_map_filter)
  have "db_table d k = Some r \<longleftrightarrow> (db_table db |` (- record_key ` set dead)) k = Some r" for k r
  proof -
    have "r \<in> set dead \<longleftrightarrow> record_key r \<in> record_key ` set dead" if "r \<in> set (rows db)"
      using that dead inj(2) by (auto dest: inj_onD)
    then show ?thesis
      by (auto simp: db_table_Some_iff okd ok kept restrict_map_def)
  qed
  then show "db_table d = db_table db |` (- record_key ` set dead)"
    by (metis (no_types, lifting) ext not_None_eq)
  show card: "card (record_key ` set dead) = length dead"
    using card_image [OF inj_on_subset [OF inj(2) dead]] distinct_card [OF dist] by simp
  have "length (rows d) = card (set (rows db) - set dead)"
    using inj(3) by (metis d distinct_card distinct_filter idem_db.select_convs(1) idem_db.surjective
        idem_db.update_convs(1) kept)
  also have "\<dots> = length (rows db) - length dead"
    using card_Diff_subset [OF _ dead] distinct_card [OF dist] distinct_card [OF inj(3)] by simp
  moreover have "length dead \<le> length (rows db)"
    using card_mono [OF _ dead] distinct_card [OF dist] distinct_card [OF inj(3)] by simp
  ultimately show "int (length (rows db)) - int (length (rows d)) = int (card (record_key ` set dead))"
    using card by simp
qed

lemma sql_delete_performs: "performs db_ok db_view (on_table (delete_spec now limit)) (sql_DeleteExpired now limit)"
  unfolding sql_DeleteExpired_def Let_def
proof (rule sql_exec_performs)
  fix db :: idem_db and a :: int and d :: idem_db
  let ?limit = "if limit \<le> 0 then 500 else limit"
  define expired where "expired = filter (\<lambda>r. ExpiresAt r \<le> now) (rows db)"
  define dead where "dead = take (nat ?limit) (sort_key ExpiresAt expired)"
  assume ok: "db_ok db"
    and "(int (length (rows db)) - int (length (filter (\<lambda>r. ID r \<notin> set (map ID (take (nat ?limit)
             (sort_key ExpiresAt (filter (\<lambda>r. ExpiresAt r \<le> now) (rows db)))))) (rows db))),
          db\<lparr>rows := filter (\<lambda>r. ID r \<notin> set (map ID (take (nat ?limit)
             (sort_key ExpiresAt (filter (\<lambda>r. ExpiresAt r \<le> now) (rows db)))))) (rows db)\<rparr>) = (a, d)"
  then have d: "d = db\<lparr>rows := filter (\<lambda>r. ID r \<notin> set (map ID dead)) (rows db)\<rparr>"
    and a: "a = int (length (rows db)) - int (length (rows d))"
    unfolding expired_def dead_def by auto
  have sub: "set dead \<subseteq> set expired" unfolding dead_def by (metis set_sort set_take_subset)
  then have "set dead \<subseteq> set (rows db)" by (auto simp: expired_def)
  moreover have "distinct dead"
    using ok by (simp add: dead_def expired_def db_ok_def distinct_map distinct_take)
  ultimately have facts: "db_ok d" "db_table d = db_table db |` (- record_key ` set dead)"
    "a = int (card (record_key ` set dead))" "card (record_key ` set dead) = length dead"
    using delete_rows [OF ok _ _ d] a by simp_all
  have all: "set dead = set expired" if "a < ?limit"
  proof -
    have "length expired \<le> nat ?limit"
      using that facts(3,4) by (auto simp: dead_def split: if_splits)
    then show ?thesis by (simp add: dead_def)
  qed
  have row: "r \<in> set (rows db)" "record_key r = k" if "db_table db k = Some r" for k r
    using that by (simp_all add: db_table_Some_iff [OF ok])
  have inj: "inj_on record_key (set (rows db))" using ok by (simp add: db_ok_def distinct_map)
  have "delete_spec now limit (db_table db) a (db_table d)"
    unfolding delete_spec_def
  proof (intro conjI exI [of _ "record_key ` set dead"])
    show "record_key ` set dead \<subseteq> dom (db_table db)"
      using sub by (auto simp: db_table_dom expired_def)
    show "\<forall>k r. k \<in> record_key ` set dead \<longrightarrow> db_table db k = Some r \<longrightarrow> ExpiresAt r \<le> now"
    proof (intro allI impI)
      fix k r assume k: "k \<in> record_key ` set dead" "db_table db k = Some r"
      then obtain r' where r': "r' \<in> set dead" "record_key r' = k" by auto
      with sub have "r' \<in> set (rows db)" "ExpiresAt r' \<le> now" by (auto simp: expired_def)
      with row [OF k(2)] r'(2) inj show "ExpiresAt r \<le> now" by (auto dest: inj_onD)
    qed
    have "length dead \<le> nat ?limit" by (simp add: dead_def)
    then show "a \<le> ?limit" unfolding facts(3,4) by (simp split: if_splits)
    show "a < ?limit \<longrightarrow> (\<forall>k r. db_table db k = Some r \<longrightarrow> ExpiresAt r \<le> now \<longrightarrow> k \<in> record_key ` set dead)"
    proof (intro impI allI)
      fix k r assume "a < ?limit" and k: "db_table db k = Some r" "ExpiresAt r \<le> now"
      then have "r \<in> set dead" using all row(1) [OF k(1)] by (auto simp: expired_def)
      with row(2) [OF k(1)] show "k \<in> record_key ` set dead" by blast
    qed
  qed (use facts in auto)
  then show "db_ok d \<and> on_table (delete_spec now limit) (db_view db) a (db_view d)"
    using facts(1) by (simp add: on_table_def d)
qed simp

interpretation sql: idempotency_repository sql_repo db_ok db_view
proof (unfold_locales, goal_cases)
  case (1 s k r)
  then show ?case by (simp add: db_table_Some_iff)
next
  case (2 s k r k' r')
  then show ?case
    by (auto simp: db_table_Some_iff db_ok_def distinct_map dest: inj_onD)
next
  case (3 s k r)
  then show ?case by (auto simp: db_table_Some_iff db_ok_def)
next
  case (4 rc)
  then show ?case by (simp add: sql_repo_def sql_create_performs)
next
  case (5 scope keyHash)
  have "performs db_ok db_view (on_table (get_spec scope keyHash)) (sql_GetByScopeAndKeyHash scope keyHash)"
    unfolding sql_GetByScopeAndKeyHash_def
  proof (rule sql_exec_performs)
    fix db a d
    assume ok: "db_ok db" and "(find (\<lambda>r. Scope r = scope \<and> IdempotencyKeyHash r = keyHash) (rows db), db) = (a, d)"
    then have a: "d = db" "a = find (\<lambda>r. record_key r = (scope, keyHash)) (rows db)"
      by (auto simp: record_key_def)
    have "db_table db (scope, keyHash) = a"
    proof (cases a)
      case None
      then have "(scope, keyHash) \<notin> dom (db_table db)"
        using a(2) by (auto simp: find_None_iff db_table_dom)
      with None show ?thesis by (simp add: domIff)
    next
      case (Some r)
      then have "r \<in> set (rows db)" "record_key r = (scope, keyHash)"
        using a(2) by (auto simp: find_Some_iff)
      with Some ok show ?thesis by (simp add: db_table_Some_iff)
    qed
    with ok a show "db_ok d \<and> on_table (get_spec scope keyHash) (db_view db) a (db_view d)"
      by (simp add: get_spec_def on_table_def)
  qed simp
  then show ?case by (simp add: sql_repo_def)
next
  case (6 i fromStatus now lu ex)
  show ?case
    unfolding sql_repo_def sql_TryReclaim_def affected_def
    by simp (rule performs_map [OF update_performs [OF row_keeps(1,2)], where g = "\<lambda>n. n > 0"];
      auto simp: conditional_update_def on_table_def)
next
  case (7 i fp lu ex)
  show ?case
    unfolding sql_repo_def sql_ExtendProcessingLock_def affected_def
    by simp (rule performs_map [OF update_performs [OF row_keeps(3,4)], where g = "\<lambda>n. n > 0"];
      auto simp: conditional_update_def on_table_def)
next
  case (8 i st body ex)
  show ?case
    unfolding sql_repo_def sql_MarkSucceeded_def no_result_def
    by simp (rule performs_map [OF update_performs [OF row_keeps(5,6)], where g = "\<lambda>_. ()"];
      auto simp: mark_spec_def on_table_def)
next
  case (9 i reason lu ex)
  show ?case
    unfolding sql_repo_def sql_MarkFailedRetryable_def no_result_def
    by simp (rule performs_map [OF update_performs [OF row_keeps(7,8)], where g = "\<lambda>_. ()"];
      auto simp: mark_spec_def on_table_def)
next
  case (10 now limit)
  then show ?case by (simp add: sql_repo_def sql_delete_performs)
qed

end
