(* ===== verification/Idempotency.thy ===== *)
theory Idempotency
  imports AppErrors LogRedact IdempotencyRepo
begin

section \<open>The idempotency coordinator\<close>

text \<open>
  Models \<^verbatim>\<open>src/backend/internal/service/idempotency.go\<close>: the normal form of keys, the fingerprint of a
  request, and \<^verbatim>\<open>IdempotencyCoordinator.Execute\<close> on every branch. The repository is the interface
  \<open>idempotency_repository\<close>; SHA-256, the JSON library and the upper-case table are parameters. The two
  calls of \<^verbatim>\<open>time.Now\<close> are arguments, the metrics and audit logs are left out, and a stored lock or expiry
  is a time the database holds (microseconds).
\<close>

subsection \<open>Errors, configuration, options\<close>

definition ErrIdempotencyKeyRequired :: go_error where
  "ErrIdempotencyKeyRequired = BadRequest ''IDEMPOTENCY_KEY_REQUIRED'' ''idempotency key is required''"
definition ErrIdempotencyKeyInvalid :: go_error where
  "ErrIdempotencyKeyInvalid = BadRequest ''IDEMPOTENCY_KEY_INVALID'' ''idempotency key is invalid''"
definition ErrIdempotencyKeyConflict :: go_error where
  "ErrIdempotencyKeyConflict = Conflict ''IDEMPOTENCY_KEY_CONFLICT'' ''idempotency key reused with different payload''"
definition ErrIdempotencyInProgress :: go_error where
  "ErrIdempotencyInProgress = Conflict ''IDEMPOTENCY_IN_PROGRESS'' ''idempotent request is still processing''"
definition ErrIdempotencyRetryBackoff :: go_error where
  "ErrIdempotencyRetryBackoff = Conflict ''IDEMPOTENCY_RETRY_BACKOFF'' ''idempotent request is in retry backoff window''"
definition ErrIdempotencyStoreUnavail :: go_error where
  "ErrIdempotencyStoreUnavail = ServiceUnavailable ''IDEMPOTENCY_STORE_UNAVAILABLE'' ''idempotency store unavailable''"
definition ErrIdempotencyInvalidPayload :: go_error where
  "ErrIdempotencyInvalidPayload = BadRequest ''IDEMPOTENCY_PAYLOAD_INVALID'' ''failed to normalize request payload''"

lemmas idem_error_defs = ErrIdempotencyKeyRequired_def ErrIdempotencyKeyInvalid_def ErrIdempotencyKeyConflict_def
  ErrIdempotencyInProgress_def ErrIdempotencyRetryBackoff_def ErrIdempotencyStoreUnavail_def
  ErrIdempotencyInvalidPayload_def

record IdempotencyConfig =
  DefaultTTL :: duration
  SystemOperationTTL :: duration
  ProcessingTimeout :: duration
  FailedRetryBackoff :: duration
  MaxStoredResponseLen :: int
  ObserveOnly :: bool

definition DefaultIdempotencyConfig :: IdempotencyConfig where
  "DefaultIdempotencyConfig =
     \<lparr>DefaultTTL = 24 * hour, SystemOperationTTL = 1 * hour, ProcessingTimeout = 30 * second,
      FailedRetryBackoff = 5 * second, MaxStoredResponseLen = 64 * 1024, ObserveOnly = True\<rparr>"

text \<open>
  A value of type \<^verbatim>\<open>any\<close> is one that has a JSON document, or one that \<^verbatim>\<open>json.Marshal\<close> refuses with an error.
\<close>

datatype go_any = Document json | Unmarshalable string

record idem_lib = json_lib +
  sha256_hex :: "string \<Rightarrow> string"
  to_upper :: "string \<Rightarrow> string"

definition json_Marshal :: "idem_lib \<Rightarrow> go_any \<Rightarrow> string + string" where
  "json_Marshal L v = (case v of Document d \<Rightarrow> Inr (j_marshal L d) | Unmarshalable e \<Rightarrow> Inl e)"

record IdempotencyExecuteOptions =
  OptScope :: string
  OptActorScope :: string
  OptMethod :: string
  OptRoute :: string
  OptIdempotencyKey :: string
  OptPayload :: go_any
  OptTTL :: duration
  OptRequireKey :: bool

record IdempotencyExecuteResult =
  Data :: go_any
  Replayed :: bool

subsection \<open>Keys and fingerprints\<close>

text \<open>
  The loop runs over the runes of the key. A byte from 128 on belongs to a rune above 126 (an invalid byte
  reads as U+FFFD), so the runes are all between 33 and 126 exactly if the bytes are.
\<close>

definition NormalizeIdempotencyKey :: "string \<Rightarrow> go_error + string" where
  "NormalizeIdempotencyKey raw =
     (let key = trim_space raw
      in if key = [] then Inr []
         else if length key > 128 then Inl ErrIdempotencyKeyInvalid
         else if list_ex (\<lambda>c. code_byte c < 33 \<or> code_byte c > 126) key then Inl ErrIdempotencyKeyInvalid
         else Inr key)"

definition HashIdempotencyKey :: "idem_lib \<Rightarrow> string \<Rightarrow> string" where
  "HashIdempotencyKey L key = sha256_hex L key"

definition BuildIdempotencyFingerprint ::
  "idem_lib \<Rightarrow> string \<Rightarrow> string \<Rightarrow> string \<Rightarrow> go_any \<Rightarrow> go_error + string" where
  "BuildIdempotencyFingerprint L method route actorScope payload =
     (let method = (if method = [] then ''POST'' else method);
          route = (if route = [] then ''/'' else route);
          actorScope = (if actorScope = [] then ''anonymous'' else actorScope)
      in case json_Marshal L payload of
           Inl err \<Rightarrow> Inl (WithCause ErrIdempotencyInvalidPayload (OtherError err None))
         | Inr raw \<Rightarrow> Inr (sha256_hex L
             (to_upper L method @ bytes [10] @ route @ bytes [10] @ actorScope @ bytes [10] @ raw)))"

definition RetryAfterSecondsFromError :: "go_error \<Rightarrow> int" where
  "RetryAfterSecondsFromError err =
     (case as_app err of
        None \<Rightarrow> 0
      | Some (appErr, _) \<Rightarrow>
          (case Metadata appErr of
             None \<Rightarrow> 0
           | Some md \<Rightarrow>
               (let v = trim_space (case map_of md ''retry_after'' of None \<Rightarrow> [] | Some x \<Rightarrow> x)
                in if v = [] then 0
                   else case parse_int64 v of None \<Rightarrow> 0 | Some seconds \<Rightarrow> if seconds \<le> 0 then 0 else seconds)))"

definition conflictWithRetryAfter :: "go_error \<Rightarrow> time option \<Rightarrow> time \<Rightarrow> go_error" where
  "conflictWithRetryAfter base lockedUntil now =
     (case lockedUntil of
        None \<Rightarrow> base
      | Some l \<Rightarrow>
          (let sec = whole_seconds (sub_time l now);
               sec = (if sec \<le> 0 then 1 else sec)
           in WithMetadata base (Some [(''retry_after'', itoa sec)])))"

subsection \<open>Stored responses\<close>

text \<open>The loop of \<^verbatim>\<open>truncateUTF8\<close>: the length shrinks until the prefix is valid UTF-8.\<close>

fun utf8_cut :: "string \<Rightarrow> nat \<Rightarrow> nat" where
  "utf8_cut s 0 = 0"
| "utf8_cut s (Suc n) = (if valid_utf8 (take (Suc n) s) then Suc n else utf8_cut s n)"

definition truncateUTF8 :: "string \<Rightarrow> int \<Rightarrow> string" where
  "truncateUTF8 s maxBytes =
     (if maxBytes \<le> 0 \<or> int (length s) \<le> maxBytes then s else take (utf8_cut s (nat maxBytes)) s)"

definition truncatedMark :: string where "truncatedMark = ''...(truncated)''"

definition marshalStoredResponse :: "idem_lib \<Rightarrow> IdempotencyConfig \<Rightarrow> go_any \<Rightarrow> string + string" where
  "marshalStoredResponse L cfg data =
     (case json_Marshal L data of
        Inl err \<Rightarrow> Inl err
      | Inr raw \<Rightarrow>
          (let redacted = RedactText L raw []
           in Inr (if MaxStoredResponseLen cfg > 0 \<and> int (length redacted) > MaxStoredResponseLen cfg
                   then truncateUTF8 redacted (MaxStoredResponseLen cfg) @ truncatedMark
                   else redacted)))"

definition decodeStoredResponse :: "idem_lib \<Rightarrow> string option \<Rightarrow> go_error + go_any" where
  "decodeStoredResponse L stored =
     (case stored of
        None \<Rightarrow> Inr (Document (JObj []))
      | Some body \<Rightarrow>
          if trim_space body = [] then Inr (Document (JObj []))
          else case j_unmarshal L body of
                 None \<Rightarrow> Inl (OtherError ''decode stored response'' (Some (OtherError ''invalid JSON'' None)))
               | Some out \<Rightarrow> Inr (Document out))"

subsection \<open>Execute\<close>

text \<open>
  The part of \<^verbatim>\<open>Execute\<close> up to the ownership of the record either ends the call (\<open>Finished\<close>) or yields the
  id of the record the caller owns (\<open>Claimed\<close>).
\<close>

datatype claim = Finished "go_error + IdempotencyExecuteResult" | Claimed int

definition store_unavailable :: "string \<Rightarrow> go_error" where
  "store_unavailable err = WithCause ErrIdempotencyStoreUnavail (OtherError err None)"

definition switch_status ::
  "idem_lib \<Rightarrow> 'r idempotency_ops \<Rightarrow> time \<Rightarrow> time \<Rightarrow> time \<Rightarrow> IdempotencyRecord \<Rightarrow> 'r \<Rightarrow> claim \<times> 'r" where
  "switch_status L P now lockedUntil expiresAt existing s =
     (if Status existing = IdempotencyStatusSucceeded then
        (case decodeStoredResponse L (ResponseBody existing) of
           Inl parseErr \<Rightarrow> (Finished (Inl (WithCause ErrIdempotencyStoreUnavail parseErr)), s)
         | Inr data \<Rightarrow> (Finished (Inr \<lparr>Data = data, Replayed = True\<rparr>), s))
      else if Status existing = IdempotencyStatusProcessing then
        (Finished (Inl (conflictWithRetryAfter ErrIdempotencyInProgress (LockedUntil existing) now)), s)
      else if Status existing = IdempotencyStatusFailedRetryable then
        (if (case LockedUntil existing of None \<Rightarrow> False | Some l \<Rightarrow> after l now)
         then (Finished (Inl (conflictWithRetryAfter ErrIdempotencyRetryBackoff (LockedUntil existing) now)), s)
         else case TryReclaim P (ID existing) IdempotencyStatusFailedRetryable now lockedUntil expiresAt s of
                (Inl reclaimErr, s) \<Rightarrow> (Finished (Inl (store_unavailable reclaimErr)), s)
              | (Inr taken, s) \<Rightarrow>
                  if \<not> taken
                  then (Finished (Inl (conflictWithRetryAfter ErrIdempotencyInProgress (LockedUntil existing) now)), s)
                  else (Claimed (ID existing), s))
      else (Finished (Inl ErrIdempotencyKeyConflict), s))"

definition claim_found ::
  "idem_lib \<Rightarrow> 'r idempotency_ops \<Rightarrow> string \<Rightarrow> string \<Rightarrow> string \<Rightarrow> time \<Rightarrow> time \<Rightarrow> time \<Rightarrow>
   IdempotencyRecord \<Rightarrow> 'r \<Rightarrow> claim \<times> 'r" where
  "claim_found L P scope keyHash fingerprint now lockedUntil expiresAt existing s =
     (if RequestFingerprint existing \<noteq> fingerprint then (Finished (Inl ErrIdempotencyKeyConflict), s)
      else if \<not> after (ExpiresAt existing) now then
        (case TryReclaim P (ID existing) (Status existing) now lockedUntil expiresAt s of
           (Inl reclaimErr, s) \<Rightarrow> (Finished (Inl (store_unavailable reclaimErr)), s)
         | (Inr taken, s) \<Rightarrow>
             if taken then (Claimed (ID existing), s)
             else
               (case GetByScopeAndKeyHash P scope keyHash s of
                  (Inl latestErr, s) \<Rightarrow> (Finished (Inl (store_unavailable latestErr)), s)
                | (Inr None, s) \<Rightarrow> (Finished (Inl ErrIdempotencyStoreUnavail), s)
                | (Inr (Some latest), s) \<Rightarrow>
                    if RequestFingerprint latest \<noteq> fingerprint then (Finished (Inl ErrIdempotencyKeyConflict), s)
                    else switch_status L P now lockedUntil expiresAt latest s))
      else switch_status L P now lockedUntil expiresAt existing s)"

definition claim_existing ::
  "idem_lib \<Rightarrow> 'r idempotency_ops \<Rightarrow> string \<Rightarrow> string \<Rightarrow> string \<Rightarrow> time \<Rightarrow> time \<Rightarrow> time \<Rightarrow> 'r \<Rightarrow> claim \<times> 'r" where
  "claim_existing L P scope keyHash fingerprint now lockedUntil expiresAt s =
     (case GetByScopeAndKeyHash P scope keyHash s of
        (Inl getErr, s) \<Rightarrow> (Finished (Inl (store_unavailable getErr)), s)
      | (Inr None, s) \<Rightarrow> (Finished (Inl ErrIdempotencyStoreUnavail), s)
      | (Inr (Some existing), s) \<Rightarrow>
          claim_found L P scope keyHash fingerprint now lockedUntil expiresAt existing s)"

definition new_record :: "string \<Rightarrow> string \<Rightarrow> string \<Rightarrow> time \<Rightarrow> time \<Rightarrow> IdempotencyRecord" where
  "new_record scope keyHash fingerprint lockedUntil expiresAt =
     \<lparr>ID = 0, Scope = scope, IdempotencyKeyHash = keyHash, RequestFingerprint = fingerprint,
      Status = IdempotencyStatusProcessing, ResponseStatus = None, ResponseBody = None, ErrorReason = None,
      LockedUntil = Some lockedUntil, ExpiresAt = expiresAt, CreatedAt = zero_time, UpdatedAt = zero_time\<rparr>"

definition claim_record ::
  "idem_lib \<Rightarrow> 'r idempotency_ops \<Rightarrow> string \<Rightarrow> string \<Rightarrow> string \<Rightarrow> time \<Rightarrow> time \<Rightarrow> time \<Rightarrow> 'r \<Rightarrow> claim \<times> 'r" where
  "claim_record L P scope keyHash fingerprint now lockedUntil expiresAt s =
     (case CreateProcessing P (new_record scope keyHash fingerprint lockedUntil expiresAt) s of
        (Inl err, s) \<Rightarrow> (Finished (Inl (store_unavailable err)), s)
      | (Inr (owner, rc), s) \<Rightarrow>
          if owner then (Claimed (ID rc), s)
          else claim_existing L P scope keyHash fingerprint now lockedUntil expiresAt s)"

text \<open>The executor runs on the state of the world, which it may change.\<close>

definition run_claimed ::
  "idem_lib \<Rightarrow> 'r idempotency_ops \<Rightarrow> IdempotencyConfig \<Rightarrow> int \<Rightarrow> time \<Rightarrow>
   ('r \<Rightarrow> (go_error + go_any) \<times> 'r) \<Rightarrow> time \<Rightarrow> 'r \<Rightarrow> (go_error + IdempotencyExecuteResult) \<times> 'r" where
  "run_claimed L P cfg recordID expiresAt execute failedAt s =
     (if recordID = 0 then (Inl ErrIdempotencyStoreUnavail, s)
      else case execute s of
        (Inl execErr, s) \<Rightarrow>
          (let backoffUntil = add_time failedAt (FailedRetryBackoff cfg);
               reason = error_reason (Some execErr);
               reason = (if reason = [] then ''EXECUTION_FAILED'' else reason)
           in (Inl execErr, snd (MarkFailedRetryable P recordID reason backoffUntil expiresAt s)))
      | (Inr data, s) \<Rightarrow>
          (case marshalStoredResponse L cfg data of
             Inl marshalErr \<Rightarrow> (Inl (store_unavailable marshalErr), s)
           | Inr storedBody \<Rightarrow>
               (case MarkSucceeded P recordID 200 storedBody expiresAt s of
                  (Inl markErr, s) \<Rightarrow> (Inl (store_unavailable markErr), s)
                | (Inr _, s) \<Rightarrow> (Inr \<lparr>Data = data, Replayed = False\<rparr>, s))))"

definition exec_ttl :: "IdempotencyConfig \<Rightarrow> IdempotencyExecuteOptions \<Rightarrow> duration" where
  "exec_ttl cfg opts = (if OptTTL opts \<le> 0 then DefaultTTL cfg else OptTTL opts)"

definition Execute ::
  "idem_lib \<Rightarrow> 'r idempotency_ops option \<Rightarrow> IdempotencyConfig \<Rightarrow> IdempotencyExecuteOptions \<Rightarrow>
   ('r \<Rightarrow> (go_error + go_any) \<times> 'r) option \<Rightarrow> time \<Rightarrow> time \<Rightarrow> 'r \<Rightarrow>
   (go_error + IdempotencyExecuteResult) \<times> 'r" where
  "Execute L repo cfg opts executor now failedAt s =
     (case executor of
        None \<Rightarrow> (Inl (InternalServer ''IDEMPOTENCY_EXECUTOR_NIL'' ''idempotency executor is nil''), s)
      | Some execute \<Rightarrow>
          (case NormalizeIdempotencyKey (OptIdempotencyKey opts) of
             Inl err \<Rightarrow> (Inl err, s)
           | Inr key \<Rightarrow>
               if key = [] then
                 (if OptRequireKey opts \<and> \<not> ObserveOnly cfg then (Inl ErrIdempotencyKeyRequired, s)
                  else case execute s of
                         (Inl execErr, s) \<Rightarrow> (Inl execErr, s)
                       | (Inr data, s) \<Rightarrow> (Inr \<lparr>Data = data, Replayed = False\<rparr>, s))
               else
                 (case repo of
                    None \<Rightarrow> (Inl ErrIdempotencyStoreUnavail, s)
                  | Some P \<Rightarrow>
                      if OptScope opts = []
                      then (Inl (BadRequest ''IDEMPOTENCY_SCOPE_REQUIRED'' ''idempotency scope is required''), s)
                      else
                        (case BuildIdempotencyFingerprint L (OptMethod opts) (OptRoute opts) (OptActorScope opts)
                                (OptPayload opts) of
                           Inl err \<Rightarrow> (Inl err, s)
                         | Inr fingerprint \<Rightarrow>
                             (let expiresAt = add_time now (exec_ttl cfg opts);
                                  lockedUntil = add_time now (ProcessingTimeout cfg);
                                  keyHash = HashIdempotencyKey L key
                              in case claim_record L P (OptScope opts) keyHash fingerprint now lockedUntil expiresAt s of
                                   (Finished result, s) \<Rightarrow> (result, s)
                                 | (Claimed recordID, s) \<Rightarrow>
                                     run_claimed L P cfg recordID expiresAt execute failedAt s)))))"

end
