(* ===== verification/IdempotencyProofs.thy ===== *)
theory IdempotencyProofs
  imports Idempotency
begin

section \<open>The idempotency coordinator: claims, replays, conflicts, stored responses\<close>

text \<open>
  Facts about one call of \<^verbatim>\<open>Execute\<close> on any repository that keeps its promises. The lemmas are proved in the
  locale of the repository; the properties state that assumption, and their witnesses run the SQL model.
\<close>

subsection \<open>Errors of the store\<close>

lemma store_unavailable_code [simp]:
  "error_code (Some (store_unavailable e)) = 503" "error_code (Some ErrIdempotencyStoreUnavail) = 503"
  "error_code (Some (WithCause ErrIdempotencyStoreUnavail c)) = 503"
  "error_code (Some ErrIdempotencyKeyConflict) = 409"
  by (simp_all add: store_unavailable_def idem_error_defs error_ctor_defs error_code_def FromError_def)

definition unavailable :: "go_error + IdempotencyExecuteResult \<Rightarrow> bool" where
  "unavailable res \<longleftrightarrow> (\<exists>e. res = Inl e \<and> error_code (Some e) = 503)"

lemma unavailable_simps [simp]:
  "unavailable (Inl (store_unavailable e))" "unavailable (Inl ErrIdempotencyStoreUnavail)"
  "unavailable (Inl (WithCause ErrIdempotencyStoreUnavail c))" "\<not> unavailable (Inr x)"
  by (simp_all add: unavailable_def)

subsection \<open>What identifies a call\<close>

definition exec_identity :: "idem_lib \<Rightarrow> IdempotencyExecuteOptions \<Rightarrow> (string \<times> string \<times> string) option" where
  "exec_identity L opts =
     (case NormalizeIdempotencyKey (OptIdempotencyKey opts) of
        Inl _ \<Rightarrow> None
      | Inr key \<Rightarrow>
          if key = [] \<or> OptScope opts = [] then None
          else (case BuildIdempotencyFingerprint L (OptMethod opts) (OptRoute opts) (OptActorScope opts) (OptPayload opts) of
                  Inl _ \<Rightarrow> None
                | Inr fingerprint \<Rightarrow> Some (OptScope opts, HashIdempotencyKey L key, fingerprint)))"

lemma Execute_identified:
  assumes "exec_identity L opts = Some (scope, keyHash, fingerprint)"
  shows "Execute L (Some P) cfg opts (Some execute) now failedAt s =
     (case claim_record L P scope keyHash fingerprint now (add_time now (ProcessingTimeout cfg))
             (add_time now (exec_ttl cfg opts)) s of
        (Finished result, s) \<Rightarrow> (result, s)
      | (Claimed recordID, s) \<Rightarrow> run_claimed L P cfg recordID (add_time now (exec_ttl cfg opts)) execute failedAt s)"
  using assms
  by (auto simp: exec_identity_def Execute_def Let_def split: sum.splits if_splits option.splits)

subsection \<open>Operations on one record\<close>

lemma update_table_same: "\<not> (\<exists>r \<in> ran T. Q r) \<Longrightarrow> update_table Q f T = T"
  by (rule ext) (auto simp: update_table_def update_where_def map_option_case ranI split: option.splits)

lemma update_table_at:
  "update_table Q f T k = (case T k of None \<Rightarrow> None | Some r \<Rightarrow> Some (if Q r then f r else r))"
  by (cases "T k") (simp_all add: update_table_def update_where_def)

text \<open>Who claims a record has a row of its own: processing, locked and expiring as the caller asked.\<close>

definition owned :: "idem_table \<Rightarrow> string \<Rightarrow> string \<Rightarrow> string \<Rightarrow> time \<Rightarrow> time \<Rightarrow> int \<Rightarrow> bool" where
  "owned T scope keyHash fp lu ex i \<longleftrightarrow>
     (\<exists>r. T (scope, keyHash) = Some r \<and> ID r = i \<and> 0 < i \<and> Status r = IdempotencyStatusProcessing \<and>
          RequestFingerprint r = fp \<and> LockedUntil r = Some lu \<and> ExpiresAt r = ex)"

context idempotency_repository
begin

lemma create_taken:
  assumes "ok s" "CreateProcessing P rc s = (r, t)" "record_key rc \<in> dom (table (view s))"
  shows "ok t" "table (view t) = table (view s)" "r = Inr a \<Longrightarrow> a = (False, rc)"
  using performsD [OF create assms(1,2)] assms(3)
  by (auto simp: create_spec_def prod_eq_iff split: if_splits) (cases r; force simp: create_spec_def split: if_splits)+

lemma create_free:
  assumes "ok s" "CreateProcessing P rc s = (Inr (owner, rc'), t)" "record_key rc \<notin> dom (table (view s))"
  shows "owner" "\<exists>i ts. 0 < i \<and> issued_below (view s) \<le> i \<and> rc' = rc\<lparr>ID := i, CreatedAt := ts, UpdatedAt := ts\<rparr> \<and>
           table (view t) = (table (view s))(record_key rc \<mapsto> fresh_row rc i ts)"
  using performsD(2) [OF create assms(1,2) refl] assms(3)
  by (auto simp: create_spec_def split: if_splits)

text \<open>The answers of a compare-and-set of a record that is in the table.\<close>

lemma reclaim_result:
  assumes "ok s" "TryReclaim P (ID ex) from now lu exp s = (r, t)"
  shows "ok t" "issued_below (view t) = issued_below (view s)"
    "r = Inr False \<Longrightarrow> table (view t) = table (view s)"
    "r = Inr True \<Longrightarrow> table (view s) k = Some ex \<Longrightarrow>
       Status ex = from \<and> (case LockedUntil ex of None \<Rightarrow> True | Some l \<Rightarrow> l \<le> now) \<and>
       (\<exists>ts. table (view t) = (table (view s))(k \<mapsto> reclaim_row lu exp ts ex))"
proof -
  let ?T = "table (view s)"
  note facts = performsD [OF reclaim assms]
  show "ok t" by (rule facts)
  show "issued_below (view t) = issued_below (view s)"
    using facts(2,3) by (cases r) (auto simp: on_table_def)
  show "table (view t) = ?T" if "r = Inr False"
    using facts(2) [OF that] by (auto simp: on_table_def conditional_update_def update_table_same)
  assume "r = Inr True" and k: "?T k = Some ex"
  from facts(2) [OF this(1)] obtain x ts where
    x: "x \<in> ran ?T" "reclaimable (ID ex) from now x" and
    t: "table (view t) = update_table (reclaimable (ID ex) from now) (reclaim_row lu exp ts) ?T"
    by (auto simp: on_table_def conditional_update_def)
  from x(1) obtain k' where k': "?T k' = Some x" by (auto simp: ran_def)
  have "k' = k" using ids_unique [OF assms(1) k' k] x(2) by (simp add: reclaimable_def)
  with k k' have "x = ex" by simp
  with x(2) have r: "reclaimable (ID ex) from now ex" by simp
  have "table (view t) = ?T(k \<mapsto> reclaim_row lu exp ts ex)"
  proof
    fix k'
    have "\<not> reclaimable (ID ex) from now x'" if "?T k' = Some x'" "k' \<noteq> k" for x'
      using that ids_unique [OF assms(1) that(1) k] by (auto simp: reclaimable_def)
    then show "table (view t) k' = (?T(k \<mapsto> reclaim_row lu exp ts ex)) k'"
      using update_table_hit [of ?T k ex "reclaimable (ID ex) from now", OF k r] update_table_other [of ?T k'] by (cases "k' = k") (simp_all add: t)
  qed
  with r show "Status ex = from \<and> (case LockedUntil ex of None \<Rightarrow> True | Some l \<Rightarrow> l \<le> now) \<and>
       (\<exists>ts. table (view t) = ?T(k \<mapsto> reclaim_row lu exp ts ex))"
    by (auto simp: reclaimable_def)
qed

lemma mark_result:
  assumes "performs ok view (on_table (mark_spec (ID r0) f)) m" "ok s" "m s = (res, t)" "table (view s) k = Some r0"
  shows "ok t" "res = Inr () \<Longrightarrow> \<exists>ts. table (view t) = (table (view s))(k \<mapsto> f ts r0)"
proof -
  let ?T = "table (view s)"
  note facts = performsD [OF assms(1-3)]
  show "ok t" by (rule facts)
  assume "res = Inr ()"
  from facts(2) [OF this] obtain ts where t: "table (view t) = update_table (\<lambda>r. ID r = ID r0) (f ts) ?T"
    by (auto simp: on_table_def mark_spec_def)
  have "table (view t) = ?T(k \<mapsto> f ts r0)"
  proof
    fix k'
    have "ID x' \<noteq> ID r0" if "?T k' = Some x'" "k' \<noteq> k" for x'
      using that ids_unique [OF assms(2) that(1) assms(4)] by auto
    then show "table (view t) k' = (?T(k \<mapsto> f ts r0)) k'"
      using update_table_hit [of ?T k r0 "\<lambda>r. ID r = ID r0", OF assms(4) refl] update_table_other [of ?T k'] by (cases "k' = k") (simp_all add: t)
  qed
  then show "\<exists>ts. table (view t) = ?T(k \<mapsto> f ts r0)" by blast
qed

subsection \<open>The outcome of a claim\<close>

lemma owned_reclaim_row:
  "RequestFingerprint r = fp \<Longrightarrow> 0 < ID r \<Longrightarrow>
   owned (T((scope, keyHash) \<mapsto> reclaim_row lu ex ts r)) scope keyHash fp lu ex (ID r)"
  by (simp add: owned_def reclaim_row_def)

lemma switch_claimed:
  assumes "ok s" "table (view s) (scope, keyHash) = Some r" "RequestFingerprint r = fp"
    and "switch_status L P now lu ex r s = (Claimed i, t)"
  shows "ok t \<and> owned (table (view t)) scope keyHash fp lu ex i"
proof -
  from assms(4) have i: "i = ID r" and run: "TryReclaim P (ID r) IdempotencyStatusFailedRetryable now lu ex s = (Inr True, t)"
    by (auto simp: switch_status_def split: if_splits prod.splits sum.splits)
  from reclaim_result(4) [OF assms(1) run refl assms(2)] reclaim_result(1) [OF assms(1) run]
    ids_bounds [OF assms(1,2)]
  show ?thesis using owned_reclaim_row [OF assms(3)] i by auto
qed

lemma claim_existing_claimed:
  assumes "ok s" "claim_existing L P scope keyHash fp now lu ex s = (Claimed i, t)"
  shows "ok t \<and> owned (table (view t)) scope keyHash fp lu ex i"
proof -
  let ?k = "(scope, keyHash)"
  from assms(2) obtain r s1 where get: "GetByScopeAndKeyHash P scope keyHash s = (Inr (Some r), s1)"
    by (auto simp: claim_existing_def claim_found_def split: prod.splits sum.splits option.splits)
  note g = get_result [OF assms(1) get]
  have r: "table (view s1) ?k = Some r" using g(2,3) by simp
  from assms(2) get have fp: "RequestFingerprint r = fp"
    by (auto simp: claim_existing_def claim_found_def split: if_splits)
  show ?thesis
  proof (cases "after (ExpiresAt r) now")
    case True
    with assms(2) get fp have "switch_status L P now lu ex r s1 = (Claimed i, t)"
      by (simp add: claim_existing_def claim_found_def)
    then show ?thesis by (rule switch_claimed [OF g(1) r fp])
  next
    case False
    then obtain x s2 where rec: "TryReclaim P (ID r) (Status r) now lu ex s1 = (x, s2)" by fastforce
    note c = reclaim_result [OF g(1) rec]
    show ?thesis
    proof (cases "x = Inr True")
      case True
      with assms(2) get fp False rec have "i = ID r" "t = s2" by (auto simp: claim_existing_def claim_found_def)
      with True c(1) c(4) [OF True r] ids_bounds [OF g(1) r] show ?thesis
        using owned_reclaim_row [OF fp] by auto
    next
      case no: False
      with assms(2) get fp False rec have x: "x = Inr False"
        by (auto simp: claim_existing_def claim_found_def split: sum.splits)
      with assms(2) get fp False rec obtain r' s3 where
        get': "GetByScopeAndKeyHash P scope keyHash s2 = (Inr (Some r'), s3)"
        by (auto simp: claim_existing_def claim_found_def split: prod.splits sum.splits option.splits)
      with assms(2) get fp False rec x have sw: "switch_status L P now lu ex r' s3 = (Claimed i, t)"
        and fp': "RequestFingerprint r' = fp"
        by (auto simp: claim_existing_def claim_found_def split: if_splits)
      note g' = get_result [OF c(1) get']
      have "table (view s3) ?k = Some r'" using g'(2,3) by simp
      from switch_claimed [OF g'(1) this fp' sw] show ?thesis .
    qed
  qed
qed

lemma claim_record_claimed:
  assumes "ok s" "claim_record L P scope keyHash fp now lu ex s = (Claimed i, t)"
  shows "ok t \<and> owned (table (view t)) scope keyHash fp lu ex i"
proof -
  let ?rc = "new_record scope keyHash fp lu ex"
  from assms(2) obtain owner rc s1 where cr: "CreateProcessing P ?rc s = (Inr (owner, rc), s1)"
    by (auto simp: claim_record_def split: prod.splits sum.splits)
  have ok1: "ok s1" using performsD(1) [OF create assms(1) cr] .
  show ?thesis
  proof (cases owner)
    case False
    with assms(2) cr have "claim_existing L P scope keyHash fp now lu ex s1 = (Claimed i, t)"
      by (simp add: claim_record_def)
    then show ?thesis by (rule claim_existing_claimed [OF ok1])
  next
    case True
    with assms(2) cr have "i = ID rc" "t = s1" by (auto simp: claim_record_def)
    with True performsD(2) [OF create assms(1) cr refl] ok1 show ?thesis
      by (auto simp: create_spec_def owned_def new_record_def fresh_row_def record_key_def)
  qed
qed

text \<open>When there is a record, the call ends in its treatment, or the store fails and nothing has changed.\<close>

lemma claim_taken:
  assumes "ok s" "table (view s) (scope, keyHash) = Some r"
    and "claim_record L P scope keyHash fp now lu ex s = (c, t)"
  shows "(\<exists>s'. ok s' \<and> table (view s') = table (view s) \<and>
           (c, t) = claim_found L P scope keyHash fp now lu ex r s') \<or>
         (\<exists>res. c = Finished res \<and> unavailable res \<and> table (view t) = table (view s))"
proof -
  let ?rc = "new_record scope keyHash fp lu ex"
  have key: "record_key ?rc \<in> dom (table (view s))"
    using assms(2) by (auto simp: new_record_def record_key_def)
  obtain x s1 where cr: "CreateProcessing P ?rc s = (x, s1)" by fastforce
  note c = create_taken [OF assms(1) cr key]
  obtain y s2 where get: "GetByScopeAndKeyHash P scope keyHash s1 = (y, s2)" by fastforce
  note g = get_result [OF c(1) get]
  show ?thesis
  proof (cases x)
    case (Inl e)
    with assms(3) cr c(2) show ?thesis by (auto simp: claim_record_def)
  next
    case (Inr a)
    with c(3) have x: "x = Inr (False, ?rc)" by simp
    show ?thesis
    proof (cases y)
      case (Inl e)
      with assms(3) cr x get g(2) c(2) show ?thesis by (auto simp: claim_record_def claim_existing_def)
    next
      case (Inr b)
      with g(2,3) c(2) assms(2) have "y = Inr (Some r)" "table (view s2) = table (view s)" by auto
      with assms(3) cr x get g(1) show ?thesis
        by (auto simp: claim_record_def claim_existing_def)
    qed
  qed
qed

lemma claim_mismatch:
  assumes "ok s" "table (view s) (scope, keyHash) = Some r" "RequestFingerprint r \<noteq> fp"
    and "claim_record L P scope keyHash fp now lu ex s = (c, t)"
  shows "table (view t) = table (view s)" "c = Finished (Inl ErrIdempotencyKeyConflict) \<or> (\<exists>res. c = Finished res \<and> unavailable res)"
  using claim_taken [OF assms(1,2,4)] assms(3) by (auto simp: claim_found_def)

subsection \<open>Replay\<close>

lemma claim_succeeded:
  assumes "ok s" "table (view s) (scope, keyHash) = Some r" "now < ExpiresAt r"
    and "RequestFingerprint r = fp" "Status r = IdempotencyStatusSucceeded"
    and "claim_record L P scope keyHash fp now lu ex s = (c, t)"
  shows "table (view t) = table (view s)"
    "\<exists>res. c = Finished res \<and> (unavailable res \<or>
       (\<exists>data. decodeStoredResponse L (ResponseBody r) = Inr data \<and> res = Inr \<lparr>Data = data, Replayed = True\<rparr>))"
  using claim_taken [OF assms(1,2,6)] assms(3-5)
  by (cases "decodeStoredResponse L (ResponseBody r)"; auto simp: claim_found_def switch_status_def after_def)+

lemma Execute_replays:
  assumes "exec_identity L opts = Some (scope, keyHash, fp)"
    and "ok s" "table (view s) (scope, keyHash) = Some r" "now < ExpiresAt r"
    and "RequestFingerprint r = fp" "Status r = IdempotencyStatusSucceeded"
    and "Execute L (Some P) cfg opts (Some execute) now failedAt s = (res, t)"
  shows "table (view t) = table (view s)"
    "unavailable res \<or> (\<exists>data. decodeStoredResponse L (ResponseBody r) = Inr data \<and> res = Inr \<lparr>Data = data, Replayed = True\<rparr>)"
proof -
  obtain c u where c: "claim_record L P scope keyHash fp now (add_time now (ProcessingTimeout cfg))
             (add_time now (exec_ttl cfg opts)) s = (c, u)" by fastforce
  note facts = claim_succeeded [OF assms(2-6) c]
  with assms(7) c have "res = (case c of Finished r \<Rightarrow> r)" "t = u"
    by (auto simp: Execute_identified [OF assms(1)])
  with facts show "table (view t) = table (view s)"
    "unavailable res \<or> (\<exists>data. decodeStoredResponse L (ResponseBody r) = Inr data \<and> res = Inr \<lparr>Data = data, Replayed = True\<rparr>)"
    by auto
qed

lemma Execute_mismatch:
  assumes "exec_identity L opts = Some (scope, keyHash, fp)"
    and "ok s" "table (view s) (scope, keyHash) = Some r" "RequestFingerprint r \<noteq> fp"
    and "Execute L (Some P) cfg opts (Some execute) now failedAt s = (res, t)"
  shows "table (view t) = table (view s)" "res = Inl ErrIdempotencyKeyConflict \<or> unavailable res"
proof -
  obtain c u where c: "claim_record L P scope keyHash fp now (add_time now (ProcessingTimeout cfg))
             (add_time now (exec_ttl cfg opts)) s = (c, u)" by fastforce
  note facts = claim_mismatch [OF assms(2-4) c]
  with assms(5) c show "table (view t) = table (view s)" "res = Inl ErrIdempotencyKeyConflict \<or> unavailable res"
    by (auto simp: Execute_identified [OF assms(1)])
qed

text \<open>A call that answers with fresh data has left the record succeeded, with the stored body.\<close>

lemma Execute_fresh:
  assumes "exec_identity L opts = Some (scope, keyHash, fp)" and "ok s"
    and keeps: "\<And>u. ok u \<Longrightarrow> ok (snd (execute u)) \<and> table (view (snd (execute u))) = table (view u)"
    and "Execute L (Some P) cfg opts (Some execute) now failedAt s = (Inr \<lparr>Data = data, Replayed = False\<rparr>, t)"
  shows "ok t \<and> (\<exists>r body. table (view t) (scope, keyHash) = Some r \<and> Status r = IdempotencyStatusSucceeded \<and>
           RequestFingerprint r = fp \<and> ExpiresAt r = add_time now (exec_ttl cfg opts) \<and>
           ResponseBody r = Some body \<and> marshalStoredResponse L cfg data = Inr body)"
proof -
  let ?lu = "add_time now (ProcessingTimeout cfg)" and ?ex = "add_time now (exec_ttl cfg opts)"
  obtain c u where c: "claim_record L P scope keyHash fp now ?lu ?ex s = (c, u)" by fastforce
  show ?thesis
  proof (cases c)
    case (Finished res)
    with assms(4) c have "claim_record L P scope keyHash fp now ?lu ?ex s =
        (Finished (Inr \<lparr>Data = data, Replayed = False\<rparr>), u)"
      by (simp add: Execute_identified [OF assms(1)])
    then have False
      by (auto simp: claim_record_def claim_existing_def claim_found_def switch_status_def
          split: prod.splits sum.splits if_splits option.splits)
    then show ?thesis ..
  next
    case (Claimed i)
    note cl = claim_record_claimed [OF assms(2) c [unfolded Claimed]]
    from assms(4) c Claimed have run:
      "run_claimed L P cfg i ?ex execute failedAt u = (Inr \<lparr>Data = data, Replayed = False\<rparr>, t)"
      by (simp add: Execute_identified [OF assms(1)])
    then obtain s1 body where 1: "execute u = (Inr data, s1)" and 2: "marshalStoredResponse L cfg data = Inr body"
      and 3: "MarkSucceeded P i 200 body ?ex s1 = (Inr (), t)"
      by (auto simp: run_claimed_def Let_def split: if_splits prod.splits sum.splits)
    from keeps [of u] cl 1 have s1: "ok s1" "table (view s1) = table (view u)" by auto
    from cl s1 obtain r where r: "table (view s1) (scope, keyHash) = Some r" "ID r = i" "RequestFingerprint r = fp"
      by (auto simp: owned_def)
    from mark_result [OF succeed [of i, folded r(2)] s1(1) 3 [folded r(2)] r(1)] obtain ts where
      "ok t" "table (view t) = (table (view s1))((scope, keyHash) \<mapsto> succeed_row 200 body ?ex ts r)"
      by auto
    with 2 r(3) show ?thesis by (simp add: succeed_row_def)
  qed
qed

end

subsection \<open>Keys, waiting times, truncation\<close>

lemma normalized_key_chars:
  "NormalizeIdempotencyKey raw = Inr key \<Longrightarrow> key \<noteq> [] \<Longrightarrow> length key \<le> 128 \<and> list_all plain_char key"
  by (auto simp: NormalizeIdempotencyKey_def Let_def list_ex_iff list_all_iff plain_char_def code_byte_def
      split: if_splits)

lemma whole_seconds_int64: "in_int64 (whole_seconds (sub_time l now))"
proof -
  have "\<bar>sub_time l now\<bar> div 1000000000 \<le> 9223372036854775808 div 1000000000"
    by (rule zdiv_mono1) (auto simp: sub_time_def max_int64_def min_int64_def)
  moreover have "\<bar>whole_seconds (sub_time l now)\<bar> \<le> \<bar>sub_time l now\<bar> div 1000000000"
    by (simp add: whole_seconds_def go_div_def second_def abs_mult abs_sgn_eq pos_imp_zdiv_nonneg_iff)
  ultimately have "\<bar>whole_seconds (sub_time l now)\<bar> \<le> 9223372036" by simp
  then show ?thesis by (auto simp: in_int64_def max_int64_def min_int64_def)
qed

lemma utf8_cut_facts:
  "utf8_cut s n \<le> n" "valid_utf8 (take (utf8_cut s n) s)"
  "m \<le> n \<Longrightarrow> valid_utf8 (take m s) \<Longrightarrow> m \<le> utf8_cut s n"
proof (induction n)
  case (Suc n)
  {
    case 1
    then show ?case using Suc(1) by simp
  next
    case 2
    then show ?case using Suc(2) by simp
  next
    case 3
    then show ?case using Suc(3) by (cases "m = Suc n") auto
  }
qed simp_all

lemma truncated_not_blank: "trim_space (x @ truncatedMark) \<noteq> []"
  using trim_space_keeps [of "CHR '')''" "x @ truncatedMark"] by (auto simp: truncatedMark_def plain_char_def)

subsection \<open>Properties\<close>

text \<open>A client key is accepted only if it has at most 128 bytes, all printable and none a space, and a
  normalised key is its own normal form.\<close>

theorem normalized_key:
  assumes "NormalizeIdempotencyKey raw = Inr key"
  shows "length key \<le> 128 \<and> list_all plain_char key \<and> NormalizeIdempotencyKey key = Inr key"
proof (cases "key = []")
  case True
  then show ?thesis by (simp add: NormalizeIdempotencyKey_def)
next
  case False
  with normalized_key_chars [OF assms] trim_space_plain [of key] show ?thesis
    by (auto simp: NormalizeIdempotencyKey_def list_ex_iff list_all_iff plain_char_def code_byte_def)
qed

theorem normalized_key_witness: "NormalizeIdempotencyKey ''k-1'' = Inr ''k-1''"
proof -
  have "NormalizeIdempotencyKey ''  k-1 '' = Inr ''k-1''" by code_simp
  from normalized_key [OF this] show ?thesis by simp
qed

text \<open>The waiting time a conflicting client reads off the error is the remaining whole seconds of the lock,
  and at least one second.\<close>

theorem retry_after:
  "RetryAfterSecondsFromError (conflictWithRetryAfter (Conflict reason message) (Some lockedUntil) now) =
   max 1 (whole_seconds (sub_time lockedUntil now))"
  using whole_seconds_int64 [of lockedUntil now] parse_int64_itoa [of 1]
  by (simp add: RetryAfterSecondsFromError_def conflictWithRetryAfter_def Conflict_def New_def Let_def
      parse_int64_itoa in_int64_def max_int64_def min_int64_def)

text \<open>A stored response that is cut is cut to at most the limit, at a character boundary, and loses no more
  than the character at the limit.\<close>

theorem truncate_at_boundary:
  assumes "valid_utf8 s" and "0 < m"
  shows "prefix (truncateUTF8 s m) s \<and> valid_utf8 (truncateUTF8 s m) \<and> int (length (truncateUTF8 s m)) \<le> m \<and>
         min m (int (length s)) - 3 \<le> int (length (truncateUTF8 s m))"
proof (cases "int (length s) \<le> m")
  case True
  then show ?thesis using assms by (simp add: truncateUTF8_def)
next
  case False
  let ?n = "nat m"
  have "?n \<le> length s" using False by simp
  from valid_utf8_boundary [OF assms(1) this] obtain k where
    k: "?n \<le> k + 3" "k \<le> ?n" "valid_utf8 (take k s)" by blast
  have "k \<le> utf8_cut s ?n" by (rule utf8_cut_facts(3) [OF k(2,3)])
  with k utf8_cut_facts(1,2) [of s ?n] False assms(2) show ?thesis
    by (auto simp: truncateUTF8_def take_is_prefix)
qed

theorem truncate_at_boundary_witness:
  "prefix (truncateUTF8 (bytes [65, 0xE4, 0xB8, 0xAD]) 3) (bytes [65, 0xE4, 0xB8, 0xAD])"
proof -
  have "valid_utf8 (bytes [65, 0xE4, 0xB8, 0xAD])" by code_simp
  from truncate_at_boundary [OF this, of 3] show ?thesis by simp
qed

text \<open>C17: when a call has answered with fresh data, every call with the same key, scope and request before the
  record expires answers with the same document, its secrets masked, or with \<^verbatim>\<open>503\<close> when the store fails; it
  changes no record and never runs its executor (any executor gives the same answer).\<close>

theorem replay_answers_once:
  assumes repo: "idempotency_repository P ok view" and "ok s"
    and "exec_identity L opts = Some (scope, keyHash, fp)" and "exec_identity L opts' = Some (scope, keyHash, fp)"
    and keeps: "\<And>u. ok u \<Longrightarrow> ok (snd (execute u)) \<and> table (view (snd (execute u))) = table (view u)"
    and first: "Execute L (Some P) cfg opts (Some execute) now failedAt s =
                  (Inr \<lparr>Data = Document d, Replayed = False\<rparr>, t)"
    and red: "red = redactValueWithDepth L d (buildKeySet L []) 0"
    and json: "j_unmarshal L (j_marshal L d) = Some d" "trim_space (j_marshal L d) = j_marshal L d" "j_marshal L d \<noteq> []"
      "j_unmarshal L (j_marshal L red) = Some red" "trim_space (j_marshal L red) \<noteq> []"
    and fits: "MaxStoredResponseLen cfg \<le> 0 \<or> int (length (j_marshal L red)) \<le> MaxStoredResponseLen cfg"
    and early: "now' < add_time now (exec_ttl cfg opts)"
    and again: "Execute L (Some P) cfg opts' (Some execute') now' failedAt' t = (res, u)"
  shows "table (view u) = table (view t) \<and>
         (res = Inr \<lparr>Data = Document red, Replayed = True\<rparr> \<or> unavailable res)"
proof -
  from idempotency_repository.Execute_fresh [OF repo assms(3) \<open>ok s\<close> keeps first]
  obtain r body where ok: "ok t" and r: "table (view t) (scope, keyHash) = Some r"
    "Status r = IdempotencyStatusSucceeded" "RequestFingerprint r = fp"
    "ExpiresAt r = add_time now (exec_ttl cfg opts)" "ResponseBody r = Some body"
    and body: "marshalStoredResponse L cfg (Document d) = Inr body" by blast
  have "body = j_marshal L red"
    using body json(1-3) fits
    by (auto simp: marshalStoredResponse_def json_Marshal_def RedactText_def RedactJSON_def Let_def red split: if_splits)
  then have decode: "decodeStoredResponse L (ResponseBody r) = Inr (Document red)"
    using json(4,5) by (simp add: decodeStoredResponse_def r)
  have unexpired: "now' < ExpiresAt r" using early r(4) by simp
  show ?thesis
    using idempotency_repository.Execute_replays [OF repo assms(4) ok r(1) unexpired r(3,2) again] decode by auto
qed

definition witness_lib :: idem_lib where
  "witness_lib = \<lparr>j_marshal = (\<lambda>v. if v = JBool True then ''true'' else ''null''),
     j_unmarshal = (\<lambda>s. if s = ''true'' then Some (JBool True) else if s = ''null'' then Some JNull else None),
     j_lower = (\<lambda>s. s), j_replace = (\<lambda>s. s), sha256_hex = (\<lambda>s. s), to_upper = (\<lambda>s. s)\<rparr>"

definition witness_opts :: IdempotencyExecuteOptions where
  "witness_opts = \<lparr>OptScope = ''s'', OptActorScope = ''u'', OptMethod = ''POST'', OptRoute = ''/r'',
     OptIdempotencyKey = ''k'', OptPayload = Document JNull, OptTTL = 0, OptRequireKey = True\<rparr>"

definition witness_execute :: "'r \<Rightarrow> (go_error + go_any) \<times> 'r" where
  "witness_execute s = (Inr (Document (JBool True)), s)"

lemma witness_identity:
  "exec_identity witness_lib witness_opts = Some (''s'', ''k'', ''POST'' @ bytes [10] @ ''/r'' @ bytes [10] @ ''u'' @ bytes [10] @ ''null'')"
  by code_simp

lemma empty_db_ok: "db_ok empty_db"
  by (simp add: db_ok_def empty_db_def)

theorem replay_answers_once_witness:
  "fst (Execute witness_lib (Some sql_repo) DefaultIdempotencyConfig witness_opts (Some witness_execute) 5 5
     (snd (Execute witness_lib (Some sql_repo) DefaultIdempotencyConfig witness_opts (Some witness_execute) 0 0 empty_db)))
   = Inr \<lparr>Data = Document (JBool True), Replayed = True\<rparr>"
proof -
  let ?first = "Execute witness_lib (Some sql_repo) DefaultIdempotencyConfig witness_opts (Some witness_execute) 0 0 empty_db"
  have 1: "fst ?first = Inr \<lparr>Data = Document (JBool True), Replayed = False\<rparr>" by code_simp
  have 2: "isl (fst (Execute witness_lib (Some sql_repo) DefaultIdempotencyConfig witness_opts (Some witness_execute) 5 5 (snd ?first))) = False"
    by code_simp
  have red: "JBool True = redactValueWithDepth witness_lib (JBool True) (buildKeySet witness_lib []) 0"
    by (simp add: redact_cases maxRedactDepth_def)
  have trim: "trim_space ''true'' = ''true''" by code_simp
  obtain res u where again: "Execute witness_lib (Some sql_repo) DefaultIdempotencyConfig witness_opts
      (Some witness_execute) 5 5 (snd ?first) = (res, u)" by fastforce
  have "res = Inr \<lparr>Data = Document (JBool True), Replayed = True\<rparr> \<or> unavailable res"
    using replay_answers_once [OF sql.idempotency_repository_axioms empty_db_ok witness_identity witness_identity _
        pair_of_fst [OF 1] red _ _ _ _ _ _ _ again]
    by (simp add: witness_execute_def witness_lib_def trim DefaultIdempotencyConfig_def exec_ttl_def
        witness_opts_def add_time_def hour_def)
  with again 2 show ?thesis by (auto simp: unavailable_def)
qed

text \<open>A key that was used for another request is refused as a conflict, whatever the state of the record;
  nothing is executed and no record changes. A failing store is the only other answer.\<close>

theorem other_request_conflicts:
  assumes "idempotency_repository P ok view" and "exec_identity L opts = Some (scope, keyHash, fp)"
    and "ok s" and "table (view s) (scope, keyHash) = Some r" and "RequestFingerprint r \<noteq> fp"
    and "Execute L (Some P) cfg opts (Some execute) now failedAt s = (res, t)"
  shows "table (view t) = table (view s) \<and> (res = Inl ErrIdempotencyKeyConflict \<or> unavailable res)"
  using idempotency_repository.Execute_mismatch [OF assms(1,2,3,4,5,6)] by simp

definition witness_row :: IdempotencyRecord where
  "witness_row = (new_record ''s'' ''k'' ''other'' 30 100)\<lparr>ID := 1\<rparr>"

definition witness_db :: idem_db where
  "witness_db = \<lparr>rows = [witness_row], next_id = 2, db_now = 0, db_links = []\<rparr>"

theorem other_request_conflicts_witness:
  "fst (Execute witness_lib (Some sql_repo) DefaultIdempotencyConfig witness_opts (Some witness_execute) 5 5 witness_db)
   = Inl ErrIdempotencyKeyConflict"
proof -
  let ?run = "Execute witness_lib (Some sql_repo) DefaultIdempotencyConfig witness_opts (Some witness_execute) 5 5 witness_db"
  obtain res t where run: "?run = (res, t)" by fastforce
  have "db_ok witness_db" by (simp add: db_ok_def witness_db_def witness_row_def)
  moreover have "table (db_view witness_db) (''s'', ''k'') = Some witness_row"
    by (simp add: db_table_def witness_db_def witness_row_def record_key_def new_record_def)
  ultimately have "res = Inl ErrIdempotencyKeyConflict \<or> unavailable res"
    using other_request_conflicts [OF sql.idempotency_repository_axioms witness_identity _ _ _ run]
    by (simp add: witness_row_def new_record_def)
  moreover have "error_code (case fst ?run of Inl e \<Rightarrow> Some e | Inr _ \<Rightarrow> None) = 409" by code_simp
  ultimately show ?thesis using run by (auto simp: unavailable_def)
qed

text \<open>C35: a response longer than \<^verbatim>\<open>MaxStoredResponseLen\<close> is stored cut and marked, which is no JSON document, so
  the key can never be replayed: until the record expires every repetition answers \<^verbatim>\<open>503\<close>.\<close>

theorem long_response_never_replayed:
  assumes repo: "idempotency_repository P ok view" and "ok s"
    and "exec_identity L opts = Some (scope, keyHash, fp)" and "exec_identity L opts' = Some (scope, keyHash, fp)"
    and keeps: "\<And>u. ok u \<Longrightarrow> ok (snd (execute u)) \<and> table (view (snd (execute u))) = table (view u)"
    and first: "Execute L (Some P) cfg opts (Some execute) now failedAt s =
                  (Inr \<lparr>Data = Document d, Replayed = False\<rparr>, t)"
    and long: "0 < MaxStoredResponseLen cfg" "MaxStoredResponseLen cfg < int (length (RedactText L (j_marshal L d) []))"
    and no_json: "\<And>x. j_unmarshal L (x @ truncatedMark) = None"
    and early: "now' < add_time now (exec_ttl cfg opts)"
    and again: "Execute L (Some P) cfg opts' (Some execute') now' failedAt' t = (res, u)"
  shows "unavailable res \<and> table (view u) = table (view t)"
proof -
  from idempotency_repository.Execute_fresh [OF repo assms(3) \<open>ok s\<close> keeps first]
  obtain r body where ok: "ok t" and r: "table (view t) (scope, keyHash) = Some r"
    "Status r = IdempotencyStatusSucceeded" "RequestFingerprint r = fp"
    "ExpiresAt r = add_time now (exec_ttl cfg opts)" "ResponseBody r = Some body"
    and body: "marshalStoredResponse L cfg (Document d) = Inr body" by blast
  have "\<exists>x. body = x @ truncatedMark"
    using body long by (auto simp: marshalStoredResponse_def json_Marshal_def Let_def)
  then have decode: "\<exists>e. decodeStoredResponse L (ResponseBody r) = Inl e"
    using no_json truncated_not_blank by (auto simp: decodeStoredResponse_def r)
  have unexpired: "now' < ExpiresAt r" using early r(4) by simp
  show ?thesis
    using idempotency_repository.Execute_replays [OF repo assms(4) ok r(1) unexpired r(3,2) again] decode by auto
qed

definition witness_small :: IdempotencyConfig where
  "witness_small = DefaultIdempotencyConfig\<lparr>MaxStoredResponseLen := 3\<rparr>"

theorem long_response_never_replayed_witness:
  "unavailable (fst (Execute witness_lib (Some sql_repo) witness_small witness_opts (Some witness_execute) 5 5
     (snd (Execute witness_lib (Some sql_repo) witness_small witness_opts (Some witness_execute) 0 0 empty_db))))"
proof -
  let ?first = "Execute witness_lib (Some sql_repo) witness_small witness_opts (Some witness_execute) 0 0 empty_db"
  have 1: "fst ?first = Inr \<lparr>Data = Document (JBool True), Replayed = False\<rparr>" by code_simp
  have red: "length (RedactText witness_lib (j_marshal witness_lib (JBool True)) []) = 4" by code_simp
  obtain res u where again: "Execute witness_lib (Some sql_repo) witness_small witness_opts
      (Some witness_execute) 5 5 (snd ?first) = (res, u)" by fastforce
  have mark: "x @ truncatedMark \<noteq> ''true''" "x @ truncatedMark \<noteq> ''null''" for x
    by (auto simp: truncatedMark_def append_eq_Cons_conv)
  have "unavailable res"
    using long_response_never_replayed [OF sql.idempotency_repository_axioms empty_db_ok witness_identity witness_identity _
        pair_of_fst [OF 1] _ _ _ _ again] red mark
    by (simp add: witness_execute_def witness_lib_def witness_small_def DefaultIdempotencyConfig_def exec_ttl_def
        witness_opts_def add_time_def hour_def)
  with again show ?thesis by simp
qed

end
