(* ===== verification/IdempotencyRun.thy ===== *)
theory IdempotencyRun
  imports IdempotencyProofs
begin

section \<open>Concurrent calls of the idempotency coordinator\<close>

text \<open>
  \<^verbatim>\<open>Execute\<close> is not atomic: other processes run between its statements. This theory cuts the call at its
  database statements and at the executor, one step each (\<open>db_step\<close>, \<open>outcome_pc\<close>), and shows that the
  steps of a call that runs alone give \<open>Execute\<close>. Any number of calls, crashes of processes, the cleanup
  of expired records and the passing of time interleave in the relation \<open>idem_step\<close>.

  The relation lets time pass only as long as the calls are timely: a call claims its record before the
  lock it asked for is over, and finishes before the record it owns expires. These are the assumptions
  under which the code promises one execution at a time; they are the guards of the rule \<open>is_tick\<close>.
\<close>

subsection \<open>The steps of a call\<close>

datatype exec_pc =
    Creating
  | Fetching
  | ReclaimingExpired IdempotencyRecord
  | Refetching
  | ReclaimingFailed IdempotencyRecord
  | Executing int
  | MarkingFailed int go_error string time
  | MarkingSucceeded int go_any string
  | Returned "go_error + IdempotencyExecuteResult"

record exec_call =
  c_scope :: string
  c_hash :: string
  c_fp :: string
  c_now :: time
  c_locked :: time
  c_expires :: time
  c_pc :: exec_pc

definition new_call :: "IdempotencyConfig \<Rightarrow> IdempotencyExecuteOptions \<Rightarrow> string \<times> string \<times> string \<Rightarrow> time \<Rightarrow> exec_call" where
  "new_call cfg opts ident now =
     (case ident of (scope, keyHash, fp) \<Rightarrow>
       \<lparr>c_scope = scope, c_hash = keyHash, c_fp = fp, c_now = now,
        c_locked = add_time now (ProcessingTimeout cfg), c_expires = add_time now (exec_ttl cfg opts), c_pc = Creating\<rparr>)"

text \<open>Where the call stands once it knows the id of the record it claimed, or the status of a record.\<close>

definition claimed_pc :: "int \<Rightarrow> exec_pc" where
  "claimed_pc i = (if i = 0 then Returned (Inl ErrIdempotencyStoreUnavail) else Executing i)"

definition status_pc :: "idem_lib \<Rightarrow> time \<Rightarrow> IdempotencyRecord \<Rightarrow> exec_pc" where
  "status_pc L now existing =
     (if Status existing = IdempotencyStatusSucceeded then
        (case decodeStoredResponse L (ResponseBody existing) of
           Inl parseErr \<Rightarrow> Returned (Inl (WithCause ErrIdempotencyStoreUnavail parseErr))
         | Inr data \<Rightarrow> Returned (Inr \<lparr>Data = data, Replayed = True\<rparr>))
      else if Status existing = IdempotencyStatusProcessing then
        Returned (Inl (conflictWithRetryAfter ErrIdempotencyInProgress (LockedUntil existing) now))
      else if Status existing = IdempotencyStatusFailedRetryable then
        (if (case LockedUntil existing of None \<Rightarrow> False | Some l \<Rightarrow> after l now)
         then Returned (Inl (conflictWithRetryAfter ErrIdempotencyRetryBackoff (LockedUntil existing) now))
         else ReclaimingFailed existing)
      else Returned (Inl ErrIdempotencyKeyConflict))"

definition fetched_pc :: "idem_lib \<Rightarrow> exec_call \<Rightarrow> bool \<Rightarrow> IdempotencyRecord option \<Rightarrow> exec_pc" where
  "fetched_pc L p again found =
     (case found of
        None \<Rightarrow> Returned (Inl ErrIdempotencyStoreUnavail)
      | Some existing \<Rightarrow>
          if RequestFingerprint existing \<noteq> c_fp p then Returned (Inl ErrIdempotencyKeyConflict)
          else if \<not> again \<and> \<not> after (ExpiresAt existing) (c_now p) then ReclaimingExpired existing
          else status_pc L (c_now p) existing)"

definition answer_pc :: "('a \<Rightarrow> exec_pc) \<Rightarrow> string + 'a \<Rightarrow> exec_pc" where
  "answer_pc f r = (case r of Inl err \<Rightarrow> Returned (Inl (store_unavailable err)) | Inr a \<Rightarrow> f a)"

fun db_step :: "idem_lib \<Rightarrow> 'r idempotency_ops \<Rightarrow> exec_call \<Rightarrow> exec_pc \<Rightarrow> 'r \<Rightarrow> exec_pc \<times> 'r" where
  "db_step L P p Creating s =
     apfst (answer_pc (\<lambda>(owner, rc). if owner then claimed_pc (ID rc) else Fetching))
       (CreateProcessing P (new_record (c_scope p) (c_hash p) (c_fp p) (c_locked p) (c_expires p)) s)"
| "db_step L P p Fetching s =
     apfst (answer_pc (fetched_pc L p False)) (GetByScopeAndKeyHash P (c_scope p) (c_hash p) s)"
| "db_step L P p (ReclaimingExpired existing) s =
     apfst (answer_pc (\<lambda>taken. if taken then claimed_pc (ID existing) else Refetching))
       (TryReclaim P (ID existing) (Status existing) (c_now p) (c_locked p) (c_expires p) s)"
| "db_step L P p Refetching s =
     apfst (answer_pc (fetched_pc L p True)) (GetByScopeAndKeyHash P (c_scope p) (c_hash p) s)"
| "db_step L P p (ReclaimingFailed existing) s =
     apfst (answer_pc (\<lambda>taken. if taken then claimed_pc (ID existing)
                else Returned (Inl (conflictWithRetryAfter ErrIdempotencyInProgress (LockedUntil existing) (c_now p)))))
       (TryReclaim P (ID existing) IdempotencyStatusFailedRetryable (c_now p) (c_locked p) (c_expires p) s)"
| "db_step L P p (Executing i) s = (Executing i, s)"
| "db_step L P p (MarkingFailed i execErr reason backoffUntil) s =
     (Returned (Inl execErr), snd (MarkFailedRetryable P i reason backoffUntil (c_expires p) s))"
| "db_step L P p (MarkingSucceeded i data storedBody) s =
     apfst (answer_pc (\<lambda>_. Returned (Inr \<lparr>Data = data, Replayed = False\<rparr>))) (MarkSucceeded P i 200 storedBody (c_expires p) s)"
| "db_step L P p (Returned res) s = (Returned res, s)"

definition outcome_pc :: "idem_lib \<Rightarrow> IdempotencyConfig \<Rightarrow> int \<Rightarrow> time \<Rightarrow> go_error + go_any \<Rightarrow> exec_pc" where
  "outcome_pc L cfg i failedAt outcome =
     (case outcome of
        Inl execErr \<Rightarrow>
          (let reason = error_reason (Some execErr)
           in MarkingFailed i execErr (if reason = [] then ''EXECUTION_FAILED'' else reason)
                (add_time failedAt (FailedRetryBackoff cfg)))
      | Inr data \<Rightarrow>
          (case marshalStoredResponse L cfg data of
             Inl marshalErr \<Rightarrow> Returned (Inl (store_unavailable marshalErr))
           | Inr storedBody \<Rightarrow> MarkingSucceeded i data storedBody))"

subsection \<open>A call that runs alone is Execute\<close>

fun drive :: "nat \<Rightarrow> idem_lib \<Rightarrow> 'r idempotency_ops \<Rightarrow> IdempotencyConfig \<Rightarrow> ('r \<Rightarrow> (go_error + go_any) \<times> 'r) \<Rightarrow> time \<Rightarrow>
    exec_call \<Rightarrow> 'r \<Rightarrow> ((go_error + IdempotencyExecuteResult) \<times> 'r) option" where
  "drive 0 L P cfg execute failedAt p s = None"
| "drive (Suc n) L P cfg execute failedAt p s =
     (case c_pc p of
        Returned res \<Rightarrow> Some (res, s)
      | Executing i \<Rightarrow>
          (case execute s of (outcome, t) \<Rightarrow>
             drive n L P cfg execute failedAt (p\<lparr>c_pc := outcome_pc L cfg i failedAt outcome\<rparr>) t)
      | pc \<Rightarrow>
          (case db_step L P p pc s of (pc', t) \<Rightarrow> drive n L P cfg execute failedAt (p\<lparr>c_pc := pc'\<rparr>) t))"

lemma drive_returned [simp]: "0 < n \<Longrightarrow> c_pc p = Returned res \<Longrightarrow> drive n L P cfg execute failedAt p s = Some (res, s)"
  by (cases n) simp_all

lemma drive_claimed:
  assumes "3 \<le> n"
  shows "drive n L P cfg execute failedAt (p\<lparr>c_pc := claimed_pc i\<rparr>) s =
         Some (run_claimed L P cfg i (c_expires p) execute failedAt s)"
proof -
  have "n = Suc (Suc (Suc (n - 3)))" using assms by simp
  then obtain m where m: "n = Suc (Suc (Suc m))" by blast
  show ?thesis
    by (auto simp: m claimed_pc_def run_claimed_def outcome_pc_def answer_pc_def Let_def
        split: sum.splits prod.splits)
qed

lemma drive_status:
  assumes "4 \<le> n"
  shows "drive n L P cfg execute failedAt (p\<lparr>c_pc := status_pc L (c_now p) existing\<rparr>) s =
     Some (case switch_status L P (c_now p) (c_locked p) (c_expires p) existing s of
             (Finished res, t) \<Rightarrow> (res, t)
           | (Claimed i, t) \<Rightarrow> run_claimed L P cfg i (c_expires p) execute failedAt t)"
proof -
  obtain m where m: "n = Suc m" "3 \<le> m" using assms by (cases n) auto
  then have "0 < m" by simp
  show ?thesis
    using \<open>0 < m\<close> drive_claimed [OF m(2)]
    by (auto simp: m(1) status_pc_def switch_status_def answer_pc_def split: sum.splits prod.splits option.splits)
qed

lemma drive_refetched:
  assumes "5 \<le> n"
  shows "drive n L P cfg execute failedAt (p\<lparr>c_pc := Refetching\<rparr>) s =
     Some (case GetByScopeAndKeyHash P (c_scope p) (c_hash p) s of
             (Inl latestErr, t) \<Rightarrow> (Inl (store_unavailable latestErr), t)
           | (Inr None, t) \<Rightarrow> (Inl ErrIdempotencyStoreUnavail, t)
           | (Inr (Some latest), t) \<Rightarrow>
               if RequestFingerprint latest \<noteq> c_fp p then (Inl ErrIdempotencyKeyConflict, t)
               else (case switch_status L P (c_now p) (c_locked p) (c_expires p) latest t of
                       (Finished res, u) \<Rightarrow> (res, u)
                     | (Claimed i, u) \<Rightarrow> run_claimed L P cfg i (c_expires p) execute failedAt u))"
proof -
  obtain m where m: "n = Suc m" "4 \<le> m" using assms by (cases n) auto
  then have "0 < m" by simp
  show ?thesis
    using \<open>0 < m\<close> drive_status [OF m(2), of L P cfg execute failedAt p]
    by (auto simp: m(1) answer_pc_def fetched_pc_def split: sum.splits prod.splits option.splits)
qed

lemma drive_fetched:
  assumes "6 \<le> n"
  shows "drive n L P cfg execute failedAt (p\<lparr>c_pc := fetched_pc L p False (Some existing)\<rparr>) s =
     Some (case claim_found L P (c_scope p) (c_hash p) (c_fp p) (c_now p) (c_locked p) (c_expires p) existing s of
             (Finished res, t) \<Rightarrow> (res, t)
           | (Claimed i, t) \<Rightarrow> run_claimed L P cfg i (c_expires p) execute failedAt t)"
proof -
  obtain m where m: "n = Suc m" "5 \<le> m" "3 \<le> m" "4 \<le> n" using assms by (cases n) auto
  then have "0 < m" by simp
  show ?thesis
  proof (cases "RequestFingerprint existing = c_fp p \<and> \<not> after (ExpiresAt existing) (c_now p)")
    case True
    then show ?thesis
      using \<open>0 < m\<close> drive_refetched [OF m(2), of L P cfg execute failedAt p] drive_claimed [OF m(3), where p = p]
      by (auto simp: m(1) answer_pc_def fetched_pc_def claim_found_def split: sum.splits prod.splits option.splits)
  next
    case False
    then show ?thesis
      using assms drive_status [OF m(4), of L P cfg execute failedAt p]
      by (auto simp: fetched_pc_def claim_found_def)
  qed
qed

lemma fetched_pc_call [simp]: "fetched_pc L (p\<lparr>c_pc := pc\<rparr>) = fetched_pc L p"
  by (auto simp: fetched_pc_def fun_eq_iff split: option.splits)

lemma drive_fetching:
  assumes "7 \<le> n"
  shows "drive n L P cfg execute failedAt (p\<lparr>c_pc := Fetching\<rparr>) s =
     Some (case claim_existing L P (c_scope p) (c_hash p) (c_fp p) (c_now p) (c_locked p) (c_expires p) s of
             (Finished res, t) \<Rightarrow> (res, t)
           | (Claimed i, t) \<Rightarrow> run_claimed L P cfg i (c_expires p) execute failedAt t)"
proof -
  obtain m where m: "n = Suc m" "6 \<le> m" using assms by (cases n) auto
  then have "0 < m" by simp
  show ?thesis
    using \<open>0 < m\<close> drive_fetched [OF m(2), of L P cfg execute failedAt p]
    by (auto simp: m(1) answer_pc_def claim_existing_def fetched_pc_def [of _ _ _ None]
        split: sum.splits prod.splits option.splits)
qed

lemma drive_new:
  assumes "8 \<le> n" "c_pc p = Creating"
  shows "drive n L P cfg execute failedAt p s =
     Some (case claim_record L P (c_scope p) (c_hash p) (c_fp p) (c_now p) (c_locked p) (c_expires p) s of
             (Finished res, t) \<Rightarrow> (res, t)
           | (Claimed i, t) \<Rightarrow> run_claimed L P cfg i (c_expires p) execute failedAt t)"
proof -
  obtain m where m: "n = Suc m" "7 \<le> m" "3 \<le> m" using assms(1) by (cases n) auto
  then have "0 < m" by simp
  show ?thesis
    using \<open>0 < m\<close> assms(2) drive_fetching [OF m(2), of L P cfg execute failedAt p] drive_claimed [OF m(3), where p = p]
    by (auto simp: m(1) answer_pc_def claim_record_def split: sum.splits prod.splits)
qed

subsection \<open>Interleaved calls\<close>

text \<open>A call is claiming until it owns a record, and owns it until the record is marked.\<close>

fun claiming_pc :: "exec_pc \<Rightarrow> bool" where
  "claiming_pc Creating = True"
| "claiming_pc Fetching = True"
| "claiming_pc (ReclaimingExpired r) = True"
| "claiming_pc Refetching = True"
| "claiming_pc (ReclaimingFailed r) = True"
| "claiming_pc _ = False"

fun owned_id :: "exec_pc \<Rightarrow> int option" where
  "owned_id (Executing i) = Some i"
| "owned_id (MarkingFailed i e reason t) = Some i"
| "owned_id (MarkingSucceeded i d body) = Some i"
| "owned_id _ = None"

record 'r idem_sys =
  world :: 'r
  wall :: time
  calls :: "nat \<rightharpoonup> exec_call"

definition timely :: "time \<Rightarrow> (nat \<rightharpoonup> exec_call) \<Rightarrow> bool" where
  "timely now cs \<longleftrightarrow>
     (\<forall>pid p. cs pid = Some p \<longrightarrow>
        (claiming_pc (c_pc p) \<longrightarrow> now < c_locked p \<and> now < c_expires p) \<and>
        (owned_id (c_pc p) \<noteq> None \<longrightarrow> now < c_expires p))"

inductive idem_step ::
  "idem_lib \<Rightarrow> 'r idempotency_ops \<Rightarrow> ('r \<Rightarrow> bool) \<Rightarrow> ('r \<Rightarrow> idem_store) \<Rightarrow> IdempotencyConfig \<Rightarrow>
   'r idem_sys \<Rightarrow> 'r idem_sys \<Rightarrow> bool"
  for L P ok view cfg
where
  is_start: "calls s pid = None \<Longrightarrow> 0 < ProcessingTimeout cfg \<Longrightarrow> 0 < exec_ttl cfg opts \<Longrightarrow>
     idem_step L P ok view cfg s (s\<lparr>calls := (calls s)(pid \<mapsto> new_call cfg opts ident (wall s))\<rparr>)"
| is_db: "calls s pid = Some p \<Longrightarrow> db_step L P p (c_pc p) (world s) = (pc', w') \<Longrightarrow>
     idem_step L P ok view cfg s (s\<lparr>world := w', calls := (calls s)(pid \<mapsto> p\<lparr>c_pc := pc'\<rparr>)\<rparr>)"
| is_outcome: "calls s pid = Some p \<Longrightarrow> c_pc p = Executing i \<Longrightarrow> ok w' \<Longrightarrow> view w' = view (world s) \<Longrightarrow>
     idem_step L P ok view cfg s
       (s\<lparr>world := w', calls := (calls s)(pid \<mapsto> p\<lparr>c_pc := outcome_pc L cfg i (wall s) outcome\<rparr>)\<rparr>)"
| is_crash: "idem_step L P ok view cfg s (s\<lparr>calls := (calls s)(pid := None)\<rparr>)"
| is_cleanup: "now \<le> wall s \<Longrightarrow> DeleteExpired P now limit (world s) = (r, w') \<Longrightarrow>
     idem_step L P ok view cfg s (s\<lparr>world := w'\<rparr>)"
| is_tick: "wall s \<le> now \<Longrightarrow> timely now (calls s) \<Longrightarrow> idem_step L P ok view cfg s (s\<lparr>wall := now\<rparr>)"

inductive idem_reach ::
  "idem_lib \<Rightarrow> 'r idempotency_ops \<Rightarrow> ('r \<Rightarrow> bool) \<Rightarrow> ('r \<Rightarrow> idem_store) \<Rightarrow> IdempotencyConfig \<Rightarrow> 'r idem_sys \<Rightarrow> bool"
  for L P ok view cfg
where
  ir_start: "ok w \<Longrightarrow> idem_reach L P ok view cfg \<lparr>world = w, wall = now, calls = Map.empty\<rparr>"
| ir_step: "idem_reach L P ok view cfg s \<Longrightarrow> idem_step L P ok view cfg s t \<Longrightarrow> idem_reach L P ok view cfg t"

subsection \<open>The invariant\<close>

text \<open>What a call that is about to reclaim a record knows of it: only the row of its own key can have that id.\<close>

definition knows :: "idem_store \<Rightarrow> exec_call \<Rightarrow> IdempotencyRecord \<Rightarrow> bool" where
  "knows v p ex \<longleftrightarrow> 0 < ID ex \<and> ID ex < issued_below v \<and>
     (\<forall>k r. table v k = Some r \<longrightarrow> ID r = ID ex \<longrightarrow> k = (c_scope p, c_hash p) \<and> RequestFingerprint r = c_fp p)"

definition call_owns :: "idem_store \<Rightarrow> exec_call \<Rightarrow> int \<Rightarrow> bool" where
  "call_owns v p i \<longleftrightarrow> owned (table v) (c_scope p) (c_hash p) (c_fp p) (c_locked p) (c_expires p) i"

fun reclaiming :: "exec_pc \<Rightarrow> IdempotencyRecord option" where
  "reclaiming (ReclaimingExpired ex) = Some ex"
| "reclaiming (ReclaimingFailed ex) = Some ex"
| "reclaiming _ = None"

definition idem_inv :: "('r \<Rightarrow> bool) \<Rightarrow> ('r \<Rightarrow> idem_store) \<Rightarrow> 'r idem_sys \<Rightarrow> bool" where
  "idem_inv ok view s \<longleftrightarrow>
     ok (world s) \<and> timely (wall s) (calls s) \<and>
     (\<forall>pid p. calls s pid = Some p \<longrightarrow> c_now p \<le> wall s) \<and>
     (\<forall>pid p i. calls s pid = Some p \<longrightarrow> owned_id (c_pc p) = Some i \<longrightarrow> call_owns (view (world s)) p i) \<and>
     (\<forall>pid p pid' q i. calls s pid = Some p \<longrightarrow> calls s pid' = Some q \<longrightarrow>
        owned_id (c_pc p) = Some i \<longrightarrow> owned_id (c_pc q) = Some i \<longrightarrow> pid = pid') \<and>
     (\<forall>pid p ex. calls s pid = Some p \<longrightarrow> reclaiming (c_pc p) = Some ex \<longrightarrow> knows (view (world s)) p ex) \<and>
     (\<forall>pid p pid' q ex. calls s pid = Some p \<longrightarrow> calls s pid' = Some q \<longrightarrow>
        owned_id (c_pc p) = Some (ID ex) \<longrightarrow> c_pc q = ReclaimingExpired ex \<longrightarrow> c_now q < c_locked p)"

lemma call_owns_pc [simp]: "call_owns v (p\<lparr>c_pc := pc\<rparr>) i \<longleftrightarrow> call_owns v p i"
  by (simp add: call_owns_def)

lemma knows_pc [simp]: "knows v (p\<lparr>c_pc := pc\<rparr>) ex \<longleftrightarrow> knows v p ex"
  by (simp add: knows_def)

lemma idem_invD:
  assumes "idem_inv ok view s"
  shows "ok (world s)"
    "calls s pid = Some p \<Longrightarrow> c_now p \<le> wall s"
    "calls s pid = Some p \<Longrightarrow> claiming_pc (c_pc p) \<Longrightarrow> wall s < c_locked p \<and> wall s < c_expires p"
    "calls s pid = Some p \<Longrightarrow> owned_id (c_pc p) = Some i \<Longrightarrow> wall s < c_expires p"
    "calls s pid = Some p \<Longrightarrow> owned_id (c_pc p) = Some i \<Longrightarrow> call_owns (view (world s)) p i"
    "calls s pid = Some p \<Longrightarrow> calls s pid' = Some q \<Longrightarrow> owned_id (c_pc p) = Some i \<Longrightarrow> owned_id (c_pc q) = Some i \<Longrightarrow> pid = pid'"
    "calls s pid = Some p \<Longrightarrow> reclaiming (c_pc p) = Some ex \<Longrightarrow> knows (view (world s)) p ex"
    "calls s pid = Some p \<Longrightarrow> calls s pid' = Some q \<Longrightarrow> owned_id (c_pc p) = Some (ID ex) \<Longrightarrow>
       c_pc q = ReclaimingExpired ex \<Longrightarrow> c_now q < c_locked p"
proof -
  from assms show "ok (world s)" by (simp add: idem_inv_def)
  from assms have now: "\<forall>pid p. calls s pid = Some p \<longrightarrow> c_now p \<le> wall s"
    and timely: "timely (wall s) (calls s)"
    and own: "\<forall>pid p i. calls s pid = Some p \<longrightarrow> owned_id (c_pc p) = Some i \<longrightarrow> call_owns (view (world s)) p i"
    and one: "\<forall>pid p pid' q i. calls s pid = Some p \<longrightarrow> calls s pid' = Some q \<longrightarrow>
        owned_id (c_pc p) = Some i \<longrightarrow> owned_id (c_pc q) = Some i \<longrightarrow> pid = pid'"
    and know: "\<forall>pid p ex. calls s pid = Some p \<longrightarrow> reclaiming (c_pc p) = Some ex \<longrightarrow> knows (view (world s)) p ex"
    and lock: "\<forall>pid p pid' q ex. calls s pid = Some p \<longrightarrow> calls s pid' = Some q \<longrightarrow>
        owned_id (c_pc p) = Some (ID ex) \<longrightarrow> c_pc q = ReclaimingExpired ex \<longrightarrow> c_now q < c_locked p"
    by (simp_all only: idem_inv_def) (elim conjE, assumption)+
  show "calls s pid = Some p \<Longrightarrow> c_now p \<le> wall s" using now by blast
  show "calls s pid = Some p \<Longrightarrow> claiming_pc (c_pc p) \<Longrightarrow> wall s < c_locked p \<and> wall s < c_expires p"
    "calls s pid = Some p \<Longrightarrow> owned_id (c_pc p) = Some i \<Longrightarrow> wall s < c_expires p"
    using timely by (auto simp: timely_def)
  show "calls s pid = Some p \<Longrightarrow> owned_id (c_pc p) = Some i \<Longrightarrow> call_owns (view (world s)) p i" using own by blast
  show "calls s pid = Some p \<Longrightarrow> calls s pid' = Some q \<Longrightarrow> owned_id (c_pc p) = Some i \<Longrightarrow>
    owned_id (c_pc q) = Some i \<Longrightarrow> pid = pid'" using one by blast
  show "calls s pid = Some p \<Longrightarrow> reclaiming (c_pc p) = Some ex \<Longrightarrow> knows (view (world s)) p ex" using know by blast
  show "calls s pid = Some p \<Longrightarrow> calls s pid' = Some q \<Longrightarrow> owned_id (c_pc p) = Some (ID ex) \<Longrightarrow>
       c_pc q = ReclaimingExpired ex \<Longrightarrow> c_now q < c_locked p" using lock by blast
qed

lemma idem_invI:
  assumes "ok (world s)" "timely (wall s) (calls s)"
    and "\<And>pid p. calls s pid = Some p \<Longrightarrow> c_now p \<le> wall s"
    and "\<And>pid p i. calls s pid = Some p \<Longrightarrow> owned_id (c_pc p) = Some i \<Longrightarrow> call_owns (view (world s)) p i"
    and "\<And>pid p pid' q i. calls s pid = Some p \<Longrightarrow> calls s pid' = Some q \<Longrightarrow> owned_id (c_pc p) = Some i \<Longrightarrow>
       owned_id (c_pc q) = Some i \<Longrightarrow> pid = pid'"
    and "\<And>pid p ex. calls s pid = Some p \<Longrightarrow> reclaiming (c_pc p) = Some ex \<Longrightarrow> knows (view (world s)) p ex"
    and "\<And>pid p pid' q ex. calls s pid = Some p \<Longrightarrow> calls s pid' = Some q \<Longrightarrow> owned_id (c_pc p) = Some (ID ex) \<Longrightarrow>
       c_pc q = ReclaimingExpired ex \<Longrightarrow> c_now q < c_locked p"
  shows "idem_inv ok view s"
  unfolding idem_inv_def
  by (intro conjI allI impI) (fact assms(1), fact assms(2), (erule assms(3-7); assumption)+)

text \<open>The invariant after a step of one call, from what the step does to the store.\<close>

lemma idem_inv_update:
  assumes inv: "idem_inv ok view s" and p: "calls s pid = Some p" and ok: "ok w'"
    and owners: "\<And>pid' q i. pid' \<noteq> pid \<Longrightarrow> calls s pid' = Some q \<Longrightarrow> owned_id (c_pc q) = Some i \<Longrightarrow> call_owns (view w') q i"
    and others: "\<And>pid' q ex. pid' \<noteq> pid \<Longrightarrow> calls s pid' = Some q \<Longrightarrow> reclaiming (c_pc q) = Some ex \<Longrightarrow> knows (view w') q ex"
    and claiming: "claiming_pc pc' \<Longrightarrow> claiming_pc (c_pc p)"
    and owning: "\<And>i. owned_id pc' = Some i \<Longrightarrow> call_owns (view w') p i \<and>
       (owned_id (c_pc p) = Some i \<or>
        claiming_pc (c_pc p) \<and> (\<forall>pid' q. pid' \<noteq> pid \<longrightarrow> calls s pid' = Some q \<longrightarrow> owned_id (c_pc q) \<noteq> Some i))"
    and knowing: "\<And>ex. reclaiming pc' = Some ex \<Longrightarrow> knows (view w') p ex"
    and stale: "\<And>ex pid' q. pc' = ReclaimingExpired ex \<Longrightarrow> pid' \<noteq> pid \<Longrightarrow> calls s pid' = Some q \<Longrightarrow>
       owned_id (c_pc q) = Some (ID ex) \<Longrightarrow> c_now p < c_locked q"
  shows "idem_inv ok view (s\<lparr>world := w', calls := (calls s)(pid \<mapsto> p\<lparr>c_pc := pc'\<rparr>)\<rparr>)" (is "idem_inv ok view ?s")
proof -
  note I = idem_invD [OF inv]
  have own_p: "wall s < c_expires p" if "owned_id pc' = Some i" for i
    using owning [OF that] I(3,4) [OF p] by blast
  have lock_p: "c_now q < c_locked p" if "owned_id pc' = Some (ID ex)" "pid' \<noteq> pid" "calls s pid' = Some q"
    "c_pc q = ReclaimingExpired ex" for pid' q ex
    using owning [OF that(1)] I(8) [OF p that(3) _ that(4)] I(2) [OF that(3)] I(3) [OF p] by force
  show ?thesis
  proof (rule idem_invI)
    show "ok (world ?s)" using ok by simp
    show "timely (wall ?s) (calls ?s)"
      using inv I(3) [OF p] claiming own_p by (auto simp: idem_inv_def timely_def)
    fix pid1 p1 assume 1: "calls ?s pid1 = Some p1"
    then show "c_now p1 \<le> wall ?s" using I(2) p by (auto split: if_splits)
    show "call_owns (view (world ?s)) p1 i" if "owned_id (c_pc p1) = Some i" for i
      using 1 that owners owning by (auto split: if_splits)
    show "knows (view (world ?s)) p1 ex" if "reclaiming (c_pc p1) = Some ex" for ex
      using 1 that others knowing by (auto split: if_splits)
    fix pid2 p2 assume 2: "calls ?s pid2 = Some p2"
    show "pid1 = pid2" if "owned_id (c_pc p1) = Some i" "owned_id (c_pc p2) = Some i" for i
    proof -
      have "pid' = pid" if "owned_id pc' = Some i" "calls s pid' = Some q" "owned_id (c_pc q) = Some i" for pid' q
        using owning [OF that(1)] I(6) [OF p that(2) _ that(3)] that(2,3) by metis
      with that 1 2 I(6) [of pid1 p1 pid2 p2 i] show ?thesis by (auto split: if_splits)
    qed
    show "c_now p2 < c_locked p1" if "owned_id (c_pc p1) = Some (ID ex)" "c_pc p2 = ReclaimingExpired ex" for ex
    proof (cases "pid1 = pid")
      case True
      show ?thesis
      proof (cases "pid2 = pid")
        case same: True
        with True 1 2 that show ?thesis by simp
      next
        case False
        with True 1 2 that lock_p [of ex pid2 p2] show ?thesis by auto
      qed
    next
      case False
      with 1 2 that I(8) [of pid1 p1 pid2 p2 ex] stale [of ex pid1 p1] show ?thesis by (auto split: if_splits)
    qed
  qed
qed

subsection \<open>What the statements do to the other calls\<close>

text \<open>A change of the store that leaves alone the rows owned by others, and gives no known id to another key.\<close>

lemma pc_cases_claimed: "owned_id (claimed_pc i) = Some j \<Longrightarrow> j = i \<and> i \<noteq> 0"
  "claiming_pc (claimed_pc i) = False" "reclaiming (claimed_pc i) = None"
  by (auto simp: claimed_pc_def split: if_splits)

lemma status_pc_simps [simp]:
  "owned_id (status_pc L now r) = None"
  "status_pc L now r \<noteq> ReclaimingExpired ex"
  by (auto simp: status_pc_def split: if_splits sum.splits option.splits)

lemma status_pc_reclaiming: "reclaiming (status_pc L now r) = Some ex \<Longrightarrow> ex = r"
  by (auto simp: status_pc_def split: if_splits sum.splits option.splits)

lemma knows_same: "table v' = table v \<Longrightarrow> issued_below v \<le> issued_below v' \<Longrightarrow> knows v p ex \<Longrightarrow> knows v' p ex"
  by (auto simp: knows_def)

lemma call_owns_same: "table v' (c_scope p, c_hash p) = table v (c_scope p, c_hash p) \<Longrightarrow> call_owns v p i \<Longrightarrow> call_owns v' p i"
  by (simp add: call_owns_def owned_def)

context idempotency_repository
begin

abbreviation sys_inv :: "'r idem_sys \<Rightarrow> bool" where "sys_inv s \<equiv> idem_inv ok view s"

text \<open>An update of the rows with one id: other owners keep their rows if none of them owns that id.\<close>

lemma update_keeps_owner:
  assumes "call_owns v q i" "table v' = update_table Q f (table v)" "\<And>r. Q r \<Longrightarrow> ID r = i0" "i \<noteq> i0"
  shows "call_owns v' q i"
proof -
  from assms(1) obtain r where r: "table v (c_scope q, c_hash q) = Some r" "ID r = i"
    by (auto simp: call_owns_def owned_def)
  then have "table v' (c_scope q, c_hash q) = table v (c_scope q, c_hash q)"
    unfolding assms(2) using assms(3,4) by (intro update_table_other) auto
  with assms(1) show ?thesis by (rule call_owns_same [rotated])
qed

lemma update_keeps_knows:
  assumes "knows v q ex" "table v' = update_table Q f (table v)" "issued_below v' = issued_below v"
    and "\<And>r. ID (f r) = ID r" "\<And>r. RequestFingerprint (f r) = RequestFingerprint r"
  shows "knows v' q ex"
  using assms(1)
  by (auto simp: knows_def assms(2-5) update_table_at split: option.splits if_splits)

lemma row_keeps_fp:
  "ID (reclaim_row lu ex ts r) = ID r" "RequestFingerprint (reclaim_row lu ex ts r) = RequestFingerprint r"
  "ID (succeed_row st body ex ts r) = ID r" "RequestFingerprint (succeed_row st body ex ts r) = RequestFingerprint r"
  "ID (fail_row reason lu ex ts r) = ID r" "RequestFingerprint (fail_row reason lu ex ts r) = RequestFingerprint r"
  by (simp_all add: reclaim_row_def succeed_row_def fail_row_def)

text \<open>The owner of an id has the row with that id.\<close>

lemma owner_row:
  assumes "sys_inv s" "calls s pid = Some q" "owned_id (c_pc q) = Some i"
    and "table (view (world s)) k = Some r" "ID r = i"
  shows "k = (c_scope q, c_hash q)" "Status r = IdempotencyStatusProcessing" "LockedUntil r = Some (c_locked q)"
    "ExpiresAt r = c_expires q" "RequestFingerprint r = c_fp q"
proof -
  note I = idem_invD [OF assms(1)]
  from I(5) [OF assms(2,3)] obtain r' where
    r': "table (view (world s)) (c_scope q, c_hash q) = Some r'" "ID r' = i" "Status r' = IdempotencyStatusProcessing"
      "RequestFingerprint r' = c_fp q" "LockedUntil r' = Some (c_locked q)" "ExpiresAt r' = c_expires q"
    by (auto simp: call_owns_def owned_def)
  from ids_unique [OF I(1) assms(4) r'(1)] r'(2) assms(5) show k: "k = (c_scope q, c_hash q)" by simp
  with r'(1) assms(4) have "r = r'" by simp
  with r' show "Status r = IdempotencyStatusProcessing" "LockedUntil r = Some (c_locked q)"
    "ExpiresAt r = c_expires q" "RequestFingerprint r = c_fp q" by simp_all
qed

text \<open>Creating: the row is new, so no one owns or knows its id.\<close>

lemma step_creating:
  assumes inv: "sys_inv s" and p: "calls s pid = Some p" "c_pc p = Creating"
    and step: "db_step L P p (c_pc p) (world s) = (pc', w')"
  shows "sys_inv (s\<lparr>world := w', calls := (calls s)(pid \<mapsto> p\<lparr>c_pc := pc'\<rparr>)\<rparr>)"
proof -
  note I = idem_invD [OF inv]
  let ?rc = "new_record (c_scope p) (c_hash p) (c_fp p) (c_locked p) (c_expires p)"
  let ?v = "view (world s)" and ?k = "(c_scope p, c_hash p)"
  obtain r where cr: "CreateProcessing P ?rc (world s) = (r, w')"
    and pc': "pc' = answer_pc (\<lambda>(owner, rc). if owner then claimed_pc (ID rc) else Fetching) r"
    using step p(2) by (cases "CreateProcessing P ?rc (world s)") auto
  note facts = performsD [OF create I(1) cr]
  have key: "record_key ?rc = ?k" by (simp add: new_record_def record_key_def)
  have store: "issued_below ?v \<le> issued_below (view w') \<and>
      (table (view w') = table ?v \<or>
       (\<exists>i ts. ?k \<notin> dom (table ?v) \<and> issued_below ?v \<le> i \<and> table (view w') = (table ?v)(?k \<mapsto> fresh_row ?rc i ts)))"
    using facts(2,3) by (cases r) (auto simp: create_spec_def key split: if_splits)
  show ?thesis
  proof (rule idem_inv_update [OF inv p(1) facts(1)])
    fix pid' q i assume q: "calls s pid' = Some q" "owned_id (c_pc q) = Some i"
    from I(5) [OF this] have owns: "call_owns ?v q i" .
    then have "(c_scope q, c_hash q) \<in> dom (table ?v)" by (auto simp: call_owns_def owned_def)
    with store have "table (view w') (c_scope q, c_hash q) = table ?v (c_scope q, c_hash q)"
      by (metis fun_upd_apply)
    with owns show "call_owns (view w') q i" by (rule call_owns_same [rotated])
  next
    fix pid' q ex assume q: "calls s pid' = Some q" "reclaiming (c_pc q) = Some ex"
    have knows: "knows ?v q ex" by (rule I(7) [OF q])
    from store consider "table (view w') = table ?v"
      | i ts where "issued_below ?v \<le> i" "table (view w') = (table ?v)(?k \<mapsto> fresh_row ?rc i ts)" by blast
    then show "knows (view w') q ex"
    proof cases
      case 1
      with store knows show ?thesis by (auto intro: knows_same)
    next
      case 2
      from knows 2(1) store show ?thesis
        by (auto simp: knows_def 2(2) fresh_row_def split: if_splits)
    qed
  next
    fix i assume own: "owned_id pc' = Some i"
    then obtain rc where r: "r = Inr (True, rc)" "ID rc = i"
      by (auto simp: pc' answer_pc_def dest!: pc_cases_claimed(1) split: sum.splits if_splits)
    from facts(2) [OF r(1)] obtain j ts where j: "0 < j" "issued_below ?v \<le> j"
      "rc = ?rc\<lparr>ID := j, CreatedAt := ts, UpdatedAt := ts\<rparr>" "table (view w') = (table ?v)(?k \<mapsto> fresh_row ?rc j ts)"
      unfolding create_spec_def key fst_conv snd_conv if_True by blast
    with r(2) have i: "0 < i" "issued_below ?v \<le> i" "table (view w') = (table ?v)(?k \<mapsto> fresh_row ?rc i ts)"
      by auto
    have "owned_id (c_pc q) \<noteq> Some i" if "calls s pid' = Some q" for pid' q
    proof
      assume "owned_id (c_pc q) = Some i"
      from I(5) [OF that this] ids_bounds [OF I(1)] i(2) show False
        by (force simp: call_owns_def owned_def)
    qed
    with i p(2) show "call_owns (view w') p i \<and> (owned_id (c_pc p) = Some i \<or>
        claiming_pc (c_pc p) \<and> (\<forall>pid' q. pid' \<noteq> pid \<longrightarrow> calls s pid' = Some q \<longrightarrow> owned_id (c_pc q) \<noteq> Some i))"
      by (auto simp: call_owns_def owned_def fresh_row_def new_record_def)
  next
    show "claiming_pc pc' \<Longrightarrow> claiming_pc (c_pc p)" using p(2) by simp
    show "reclaiming pc' = Some ex' \<Longrightarrow> knows (view w') p ex'" for ex'
      by (auto simp: pc' answer_pc_def pc_cases_claimed split: sum.splits if_splits)
    show "c_now p < c_locked q" if "pc' = ReclaimingExpired ex'" for ex' q
      using that by (auto simp: pc' answer_pc_def claimed_pc_def split: sum.splits if_splits)
  qed
qed

text \<open>Fetching: the store is as before, and an expired record is owned by no one.\<close>

lemma step_fetching:
  assumes inv: "sys_inv s" and p: "calls s pid = Some p" "c_pc p = Fetching \<or> c_pc p = Refetching"
    and step: "db_step L P p (c_pc p) (world s) = (pc', w')"
  shows "sys_inv (s\<lparr>world := w', calls := (calls s)(pid \<mapsto> p\<lparr>c_pc := pc'\<rparr>)\<rparr>)"
proof -
  note I = idem_invD [OF inv]
  let ?v = "view (world s)" and ?k = "(c_scope p, c_hash p)"
  obtain r again where get: "GetByScopeAndKeyHash P (c_scope p) (c_hash p) (world s) = (r, w')"
    and pc': "pc' = answer_pc (fetched_pc L p again) r"
    using step p(2) by (cases "GetByScopeAndKeyHash P (c_scope p) (c_hash p) (world s)") auto
  note g = get_result [OF I(1) get]
  have found: "r = Inr (Some ex) \<and> table ?v ?k = Some ex \<and> RequestFingerprint ex = c_fp p" if "reclaiming pc' = Some ex" for ex
    using that g(3)
    by (auto simp: pc' answer_pc_def fetched_pc_def dest: status_pc_reclaiming split: sum.splits option.splits if_splits)
  have expired: "ExpiresAt ex \<le> c_now p" if "pc' = ReclaimingExpired ex" for ex
    using that by (auto simp: pc' answer_pc_def fetched_pc_def after_def split: sum.splits option.splits if_splits)
  show ?thesis
  proof (rule idem_inv_update [OF inv p(1) g(1)])
    fix ex assume ex: "reclaiming pc' = Some ex"
    from found [OF this] ids_bounds [OF I(1)] ids_unique [OF I(1)] show "knows (view w') p ex"
      by (auto simp: knows_def g(2)) (metis option.inject prod.inject)+
  next
    fix ex pid' q assume ex: "pc' = ReclaimingExpired ex" and q: "calls s pid' = Some q" "owned_id (c_pc q) = Some (ID ex)"
    from found [of ex] ex have "table ?v ?k = Some ex" by simp
    from owner_row(4) [OF inv q this] expired [OF ex] I(4) [OF q] I(2) [OF p(1)] show "c_now p < c_locked q" by simp
  next
    show "claiming_pc pc' \<Longrightarrow> claiming_pc (c_pc p)" using p(2) by auto
    show "owned_id pc' = Some i \<Longrightarrow> call_owns (view w') p i \<and> (owned_id (c_pc p) = Some i \<or>
        claiming_pc (c_pc p) \<and> (\<forall>pid' q. pid' \<noteq> pid \<longrightarrow> calls s pid' = Some q \<longrightarrow> owned_id (c_pc q) \<noteq> Some i))" for i
      by (auto simp: pc' answer_pc_def fetched_pc_def split: sum.splits option.splits if_splits)
  qed (use I(5,7) in \<open>auto simp: g(2)\<close>)
qed

text \<open>Reclaiming: no other call owns the record, or the compare-and-set fails.\<close>

lemma step_reclaiming:
  assumes inv: "sys_inv s" and p: "calls s pid = Some p" "reclaiming (c_pc p) = Some ex" "claiming_pc (c_pc p)"
    and run: "TryReclaim P (ID ex) from (c_now p) (c_locked p) (c_expires p) (world s) = (r, w')"
    and pc': "pc' = answer_pc (\<lambda>taken. if taken then claimed_pc (ID ex) else rest) r"
    and rest: "owned_id rest = None" "reclaiming rest = None"
    and from_: "c_pc p = ReclaimingExpired ex \<or> from \<noteq> IdempotencyStatusProcessing"
  shows "sys_inv (s\<lparr>world := w', calls := (calls s)(pid \<mapsto> p\<lparr>c_pc := pc'\<rparr>)\<rparr>)"
proof -
  note I = idem_invD [OF inv]
  let ?v = "view (world s)" and ?k = "(c_scope p, c_hash p)"
  let ?Q = "reclaimable (ID ex) from (c_now p)" and ?f = "reclaim_row (c_locked p) (c_expires p)"
  note facts = performsD [OF reclaim I(1) run]
  have knows: "knows ?v p ex" by (rule I(7) [OF p(1,2)])
  have free: "\<not> ?Q x" if "calls s pid' = Some q" "owned_id (c_pc q) = Some (ID ex)" "x \<in> ran (table ?v)" for pid' q x
  proof
    assume Q: "?Q x"
    from that(3) obtain k where k: "table ?v k = Some x" by (auto simp: ran_def)
    from Q have "ID x = ID ex" by (simp add: reclaimable_def)
    note row = owner_row [OF inv that(1,2) k this]
    from from_ show False
    proof
      assume "c_pc p = ReclaimingExpired ex"
      from I(8) [OF that(1) p(1) that(2) this] row(3) Q show False by (simp add: reclaimable_def)
    next
      assume "from \<noteq> IdempotencyStatusProcessing"
      with row(2) Q show False by (simp add: reclaimable_def)
    qed
  qed
  have upd: "issued_below (view w') = issued_below ?v \<and>
      (table (view w') = table ?v \<or> (\<exists>ts. table (view w') = update_table ?Q (?f ts) (table ?v)))"
    using facts(2,3) by (cases r) (auto simp: on_table_def conditional_update_def)
  have store: "issued_below (view w') = issued_below ?v \<and>
      (table (view w') = table ?v \<or>
       (\<exists>ts x. x \<in> ran (table ?v) \<and> ?Q x \<and> table (view w') = update_table ?Q (?f ts) (table ?v)))"
  proof (cases "\<exists>x \<in> ran (table ?v). ?Q x")
    case True
    with upd show ?thesis by blast
  next
    case False
    with upd update_table_same [OF False] show ?thesis by auto
  qed
  show ?thesis
  proof (rule idem_inv_update [OF inv p(1) facts(1)])
    fix pid' q i assume q: "calls s pid' = Some q" "owned_id (c_pc q) = Some i"
    from store consider "table (view w') = table ?v"
      | x ts where "x \<in> ran (table ?v)" "?Q x" "table (view w') = update_table ?Q (?f ts) (table ?v)" by blast
    then show "call_owns (view w') q i"
    proof cases
      case 1
      with I(5) [OF q] show ?thesis by (simp add: call_owns_same)
    next
      case 2
      from free [OF q(1) _ 2(1)] 2(2) q(2) have "i \<noteq> ID ex" by auto
      then show ?thesis
        by (rule update_keeps_owner [OF I(5) [OF q] 2(3), rotated]) (simp add: reclaimable_def)
    qed
  next
    fix pid' q ex' assume q: "calls s pid' = Some q" "reclaiming (c_pc q) = Some ex'"
    from store consider "table (view w') = table ?v" | ts where "table (view w') = update_table ?Q (?f ts) (table ?v)" by blast
    then show "knows (view w') q ex'"
    proof cases
      case 1
      with I(7) [OF q] store show ?thesis by (simp add: knows_same)
    next
      case 2
      with store show ?thesis by (intro update_keeps_knows [OF I(7) [OF q] 2]) (auto simp: row_keeps_fp)
    qed
  next
    fix i assume own: "owned_id pc' = Some i"
    with rest have r: "r = Inr True" "i = ID ex"
      by (auto simp: pc' answer_pc_def dest!: pc_cases_claimed(1) split: sum.splits if_splits)
    from facts(2) [OF r(1)] obtain x ts where x: "x \<in> ran (table ?v)" "?Q x"
      "table (view w') = update_table ?Q (?f ts) (table ?v)"
      by (auto simp: on_table_def conditional_update_def)
    from x(1) obtain k where k: "table ?v k = Some x" by (auto simp: ran_def)
    from x(2) have "ID x = ID ex" by (simp add: reclaimable_def)
    with knows k have "k = ?k" "RequestFingerprint x = c_fp p" "0 < ID x" unfolding knows_def by metis+
    moreover have "table (view w') k = Some (?f ts x)" using update_table_hit [where Q = ?Q and T = "table ?v", OF k x(2)] by (simp add: x(3))
    ultimately have "call_owns (view w') p i"
      using \<open>ID x = ID ex\<close> by (simp add: call_owns_def owned_def reclaim_row_def r(2))
    moreover have "owned_id (c_pc q) \<noteq> Some i" if "calls s pid' = Some q" for pid' q
      using free [OF that _ x(1)] x(2) by (auto simp: r(2))
    ultimately show "call_owns (view w') p i \<and> (owned_id (c_pc p) = Some i \<or>
        claiming_pc (c_pc p) \<and> (\<forall>pid' q. pid' \<noteq> pid \<longrightarrow> calls s pid' = Some q \<longrightarrow> owned_id (c_pc q) \<noteq> Some i))"
      using p(3) by blast
  next
    show "claiming_pc pc' \<Longrightarrow> claiming_pc (c_pc p)" by (rule p(3))
    show "reclaiming pc' = Some ex' \<Longrightarrow> knows (view w') p ex'" for ex'
      using rest by (auto simp: pc' answer_pc_def pc_cases_claimed split: sum.splits if_splits)
    show "c_now p < c_locked q" if "pc' = ReclaimingExpired ex'" for ex' q
      using that rest by (auto simp: pc' answer_pc_def claimed_pc_def split: sum.splits if_splits)
  qed
qed

text \<open>Marking: only the row of the caller changes, and the caller ends.\<close>

lemma step_marking:
  assumes inv: "sys_inv s" and p: "calls s pid = Some p" "owned_id (c_pc p) = Some i"
    and mark: "performs ok view (on_table (mark_spec i f)) m" "m (world s) = (r, w')"
    and keeps: "\<And>ts r. ID (f ts r) = ID r" "\<And>ts r. RequestFingerprint (f ts r) = RequestFingerprint r"
  shows "sys_inv (s\<lparr>world := w', calls := (calls s)(pid \<mapsto> p\<lparr>c_pc := Returned res\<rparr>)\<rparr>)"
proof -
  note I = idem_invD [OF inv]
  let ?v = "view (world s)"
  note facts = performsD [OF mark(1) I(1) mark(2)]
  have store: "issued_below (view w') = issued_below ?v \<and>
      (table (view w') = table ?v \<or> (\<exists>ts. table (view w') = update_table (\<lambda>r. ID r = i) (f ts) (table ?v)))"
    using facts(2,3) by (cases r) (auto simp: on_table_def mark_spec_def)
  show ?thesis
  proof (rule idem_inv_update [OF inv p(1) facts(1)])
    fix pid' q j assume q: "pid' \<noteq> pid" "calls s pid' = Some q" "owned_id (c_pc q) = Some j"
    with I(6) [OF p(1) q(2) p(2)] have "j \<noteq> i" by auto
    with store I(5) [OF q(2,3)] show "call_owns (view w') q j"
      by (auto intro: update_keeps_owner call_owns_same)
  next
    fix pid' q ex' assume q: "calls s pid' = Some q" "reclaiming (c_pc q) = Some ex'"
    from store consider "table (view w') = table ?v"
      | ts where "table (view w') = update_table (\<lambda>r. ID r = i) (f ts) (table ?v)" by blast
    then show "knows (view w') q ex'"
    proof cases
      case 1
      with I(7) [OF q] store show ?thesis by (simp add: knows_same)
    next
      case 2
      with store show ?thesis by (intro update_keeps_knows [OF I(7) [OF q] 2]) (auto simp: keeps)
    qed
  qed auto
qed

lemma step_db:
  assumes inv: "sys_inv s" and p: "calls s pid = Some p" and step: "db_step L P p (c_pc p) (world s) = (pc', w')"
  shows "sys_inv (s\<lparr>world := w', calls := (calls s)(pid \<mapsto> p\<lparr>c_pc := pc'\<rparr>)\<rparr>)"
proof (cases "c_pc p")
  case Creating
  then show ?thesis using step_creating [OF inv p _ step] by simp
next
  case Fetching
  then show ?thesis using step_fetching [OF inv p _ step] by simp
next
  case Refetching
  then show ?thesis using step_fetching [OF inv p _ step] by simp
next
  case (ReclaimingExpired ex)
  obtain r where run: "TryReclaim P (ID ex) (Status ex) (c_now p) (c_locked p) (c_expires p) (world s) = (r, w')"
    and "pc' = answer_pc (\<lambda>taken. if taken then claimed_pc (ID ex) else Refetching) r"
    using step ReclaimingExpired
    by (cases "TryReclaim P (ID ex) (Status ex) (c_now p) (c_locked p) (c_expires p) (world s)") auto
  from step_reclaiming [OF inv p _ _ this] ReclaimingExpired show ?thesis by simp
next
  case (ReclaimingFailed ex)
  let ?from = IdempotencyStatusFailedRetryable
  let ?rest = "Returned (Inl (conflictWithRetryAfter ErrIdempotencyInProgress (LockedUntil ex) (c_now p)))"
  obtain r where run: "TryReclaim P (ID ex) ?from (c_now p) (c_locked p) (c_expires p) (world s) = (r, w')"
    and "pc' = answer_pc (\<lambda>taken. if taken then claimed_pc (ID ex) else ?rest) r"
    using step ReclaimingFailed
    by (cases "TryReclaim P (ID ex) ?from (c_now p) (c_locked p) (c_expires p) (world s)") auto
  from step_reclaiming [OF inv p _ _ this] ReclaimingFailed show ?thesis by (simp add: status_defs)
next
  case (MarkingFailed i e reason t)
  obtain r where "MarkFailedRetryable P i reason t (c_expires p) (world s) = (r, w')"
    using step MarkingFailed by (cases "MarkFailedRetryable P i reason t (c_expires p) (world s)") auto
  from step_marking [OF inv p _ fail this row_keeps_fp(5,6)] MarkingFailed step show ?thesis by auto
next
  case (MarkingSucceeded i d body)
  obtain r where r: "MarkSucceeded P i 200 body (c_expires p) (world s) = (r, w')"
    and pc': "pc' = answer_pc (\<lambda>_. Returned (Inr \<lparr>Data = d, Replayed = False\<rparr>)) r"
    using step MarkingSucceeded by (cases "MarkSucceeded P i 200 body (c_expires p) (world s)") auto
  then have "\<exists>res. pc' = Returned res" by (cases r) (auto simp: answer_pc_def)
  with step_marking [OF inv p _ succeed r row_keeps_fp(3,4)] MarkingSucceeded show ?thesis by auto
qed (use step p inv in \<open>auto simp: fun_upd_idem\<close>)

lemma idem_step_inv:
  assumes "idem_step L P ok view cfg s t" "sys_inv s"
  shows "sys_inv t"
  using assms(1)
proof cases
  case (is_start pid opts ident)
  note I = idem_invD [OF assms(2)]
  let ?c = "new_call cfg opts ident (wall s)"
  have c: "c_now ?c = wall s" "c_pc ?c = Creating" "wall s < c_locked ?c" "wall s < c_expires ?c"
    using is_start(3,4) by (auto simp: new_call_def add_time_def split: prod.splits)
  show ?thesis
    unfolding is_start(1)
  proof (rule idem_invI)
    show "timely (wall (s\<lparr>calls := (calls s)(pid \<mapsto> ?c)\<rparr>)) (calls (s\<lparr>calls := (calls s)(pid \<mapsto> ?c)\<rparr>))"
      using assms(2) c by (auto simp: idem_inv_def timely_def)
  qed (use I c in \<open>auto split: if_splits\<close>)
next
  case (is_db pid p pc' w')
  then show ?thesis using step_db [OF assms(2)] by simp
next
  case (is_outcome pid p i w' outcome)
  note I = idem_invD [OF assms(2)]
  have pc: "claiming_pc (outcome_pc L cfg i (wall s) outcome) = False"
    "reclaiming (outcome_pc L cfg i (wall s) outcome) = None"
    "owned_id (outcome_pc L cfg i (wall s) outcome) = Some j \<Longrightarrow> j = i" for j
    by (auto simp: outcome_pc_def Let_def split: sum.splits)
  show ?thesis
    unfolding is_outcome(1)
    by (rule idem_inv_update [OF assms(2) is_outcome(2,4)])
      (use I is_outcome(2,3,5) pc in \<open>auto dest: arg_cong [where f = reclaiming]\<close>)
next
  case (is_crash pid)
  note I = idem_invD [OF assms(2)]
  show ?thesis
    unfolding is_crash
  proof (rule idem_invI)
    show "timely (wall (s\<lparr>calls := (calls s)(pid := None)\<rparr>)) (calls (s\<lparr>calls := (calls s)(pid := None)\<rparr>))"
      using assms(2) by (auto simp: idem_inv_def timely_def)
  qed (use I in \<open>auto split: if_splits\<close>)
next
  case (is_cleanup now limit r w')
  note I = idem_invD [OF assms(2)]
  let ?v = "view (world s)"
  note facts = performsD [OF delete I(1) is_cleanup(3)]
  have store: "issued_below (view w') = issued_below ?v \<and> table (view w') \<subseteq>\<^sub>m table ?v \<and>
      (\<forall>k r. table ?v k = Some r \<longrightarrow> table (view w') k = None \<longrightarrow> ExpiresAt r \<le> now)"
    using facts(2,3) by (cases r) (auto simp: on_table_def delete_spec_def map_le_def restrict_map_def split: if_splits)
  have own: "call_owns (view w') p i" if "calls s pid = Some p" "owned_id (c_pc p) = Some i" for pid p i
  proof -
    from I(5) [OF that] obtain r where r: "table ?v (c_scope p, c_hash p) = Some r" "ExpiresAt r = c_expires p"
      by (auto simp: call_owns_def owned_def)
    with I(4) [OF that] is_cleanup(2) store have "table (view w') (c_scope p, c_hash p) \<noteq> None" by fastforce
    with store r have "table (view w') (c_scope p, c_hash p) = table ?v (c_scope p, c_hash p)"
      by (auto simp: map_le_def domIff)
    then show ?thesis by (rule call_owns_same [OF _ I(5) [OF that]])
  qed
  have know: "knows (view w') p ex" if "calls s pid = Some p" "reclaiming (c_pc p) = Some ex" for pid p ex
  proof -
    have "table ?v k = Some r" if "table (view w') k = Some r" for k r
      using store that unfolding map_le_def by (metis domI)
    with I(7) [OF that] store show ?thesis unfolding knows_def by metis
  qed
  show ?thesis
    unfolding is_cleanup(1)
  proof (rule idem_invI)
    show "timely (wall (s\<lparr>world := w'\<rparr>)) (calls (s\<lparr>world := w'\<rparr>))"
      using assms(2) by (simp add: idem_inv_def)
  qed (use I facts(1) own know in auto)
next
  case (is_tick now)
  note I = idem_invD [OF assms(2)]
  show ?thesis
    unfolding is_tick(1)
    by (rule idem_invI) (use I is_tick in \<open>auto intro: order_trans\<close>)
qed

lemma idem_reach_inv: "idem_reach L P ok view cfg s \<Longrightarrow> sys_inv s"
proof (induction rule: idem_reach.induct)
  case (ir_start w now)
  then show ?case by (simp add: idem_inv_def timely_def)
next
  case (ir_step s t)
  then show ?case by (blast intro: idem_step_inv)
qed

end

subsection \<open>Properties\<close>

text \<open>The steps of a call that runs without interruption are \<^verbatim>\<open>Execute\<close>: they end after at most eight
  of them, with its answer and its effect.\<close>

theorem steps_are_Execute:
  assumes "exec_identity L opts = Some ident" and "8 \<le> n"
  shows "drive n L P cfg execute failedAt (new_call cfg opts ident now) s =
         Some (Execute L (Some P) cfg opts (Some execute) now failedAt s)"
proof -
  obtain scope keyHash fp where ident: "ident = (scope, keyHash, fp)" by (cases ident)
  let ?p = "new_call cfg opts (scope, keyHash, fp) now"
  have p: "c_scope ?p = scope" "c_hash ?p = keyHash" "c_fp ?p = fp" "c_now ?p = now" "c_pc ?p = Creating"
    "c_locked ?p = add_time now (ProcessingTimeout cfg)" "c_expires ?p = add_time now (exec_ttl cfg opts)"
    by (simp_all add: new_call_def)
  show ?thesis
    unfolding ident Execute_identified [OF assms(1) [unfolded ident]]
    using drive_new [OF assms(2) p(5), of L P cfg execute failedAt s] unfolding p .
qed

theorem steps_are_Execute_witness:
  "map_option fst (drive 8 witness_lib sql_repo DefaultIdempotencyConfig witness_execute 0
     (new_call DefaultIdempotencyConfig witness_opts
        (''s'', ''k'', ''POST'' @ bytes [10] @ ''/r'' @ bytes [10] @ ''u'' @ bytes [10] @ ''null'') 0) empty_db)
   = Some (Inr \<lparr>Data = Document (JBool True), Replayed = False\<rparr>)"
proof -
  have "fst (Execute witness_lib (Some sql_repo) DefaultIdempotencyConfig witness_opts (Some witness_execute) 0 0 empty_db)
        = Inr \<lparr>Data = Document (JBool True), Replayed = False\<rparr>" by code_simp
  then show ?thesis
    using steps_are_Execute [OF witness_identity order_refl,
        of sql_repo DefaultIdempotencyConfig witness_execute 0 0 empty_db] by simp
qed

text \<open>C7: at any time at most one call executes for a scope and key, however the calls interleave and whichever
  processes crash, as long as the calls are timely; and the record of the call that executes is in the
  table, processing, with the lock and the expiry the call asked for.\<close>

theorem one_execution_at_a_time:
  assumes "idempotency_repository P ok view" and "idem_reach L P ok view cfg s"
    and "calls s pid = Some p" and "owned_id (c_pc p) = Some i"
  shows "call_owns (view (world s)) p i \<and>
         (\<forall>pid' q j. calls s pid' = Some q \<and> owned_id (c_pc q) = Some j \<and>
            c_scope q = c_scope p \<and> c_hash q = c_hash p \<longrightarrow> pid' = pid)"
proof -
  have inv: "idem_inv ok view s" by (rule idempotency_repository.idem_reach_inv [OF assms(1,2)])
  note I = idem_invD [OF inv]
  from I(5) [OF assms(3,4)] have own: "call_owns (view (world s)) p i" .
  moreover have "pid' = pid" if "calls s pid' = Some q" "owned_id (c_pc q) = Some j"
    "c_scope q = c_scope p" "c_hash q = c_hash p" for pid' q j
  proof -
    from I(5) [OF that(1,2)] own that(3,4) have "j = i" by (auto simp: call_owns_def owned_def)
    with I(6) [OF that(1) assms(3) that(2)] assms(4) show ?thesis by simp
  qed
  ultimately show ?thesis by blast
qed

definition witness_call :: exec_call where
  "witness_call = new_call DefaultIdempotencyConfig witness_opts (''s'', ''k'', ''f'') 0"

definition witness_sys :: "idem_db idem_sys" where
  "witness_sys = \<lparr>world = snd (db_step witness_lib sql_repo witness_call Creating empty_db), wall = 0,
     calls = [3 \<mapsto> witness_call\<lparr>c_pc := Executing 1\<rparr>]\<rparr>"

lemma witness_sys_reach: "idem_reach witness_lib sql_repo db_ok db_view DefaultIdempotencyConfig witness_sys"
proof -
  let ?s0 = "\<lparr>world = empty_db, wall = 0, calls = Map.empty\<rparr> :: idem_db idem_sys"
  let ?s1 = "?s0\<lparr>calls := (calls ?s0)(3 \<mapsto> new_call DefaultIdempotencyConfig witness_opts (''s'', ''k'', ''f'') (wall ?s0))\<rparr>"
  have ttl: "0 < ProcessingTimeout DefaultIdempotencyConfig" "0 < exec_ttl DefaultIdempotencyConfig witness_opts"
    by (simp_all add: DefaultIdempotencyConfig_def second_def exec_ttl_def witness_opts_def hour_def)
  have 0: "idem_reach witness_lib sql_repo db_ok db_view DefaultIdempotencyConfig ?s0"
    by (rule idem_reach.ir_start) (rule empty_db_ok)
  have "idem_step witness_lib sql_repo db_ok db_view DefaultIdempotencyConfig ?s0 ?s1"
    by (rule idem_step.is_start [OF _ ttl]) simp
  with 0 have 1: "idem_reach witness_lib sql_repo db_ok db_view DefaultIdempotencyConfig ?s1"
    by (rule idem_reach.ir_step)
  have "fst (db_step witness_lib sql_repo witness_call Creating empty_db) = Executing 1" by code_simp
  note run = pair_of_fst [OF this]
  have "c_pc witness_call = Creating" by (simp add: witness_call_def new_call_def)
  with run have "idem_step witness_lib sql_repo db_ok db_view DefaultIdempotencyConfig ?s1
      (?s1\<lparr>world := world witness_sys, calls := (calls ?s1)(3 \<mapsto> witness_call\<lparr>c_pc := Executing 1\<rparr>)\<rparr>)"
    by (intro idem_step.is_db [of _ _ witness_call]) (simp_all add: witness_call_def witness_sys_def)
  from idem_reach.ir_step [OF 1 this] show ?thesis by (simp add: witness_sys_def)
qed

theorem one_execution_at_a_time_witness:
  "call_owns (db_view (world witness_sys)) (witness_call\<lparr>c_pc := Executing 1\<rparr>) 1"
  using one_execution_at_a_time [OF sql.idempotency_repository_axioms witness_sys_reach,
      of 3 "witness_call\<lparr>c_pc := Executing 1\<rparr>" 1]
  by (simp add: witness_sys_def)

end
