(* ===== verification/StreamCircuit.thy ===== *)
theory StreamCircuit
  imports Prelude "HOL-Library.AList" "HOL-Library.Sublist"
begin

section \<open>The circuit breaker for proxies that lose streams\<close>

text \<open>
  Models \<^verbatim>\<open>src/backend/internal/service/openai_proxy_stream_circuit.go\<close>: the settings, the circuit's operations
  and the functions of the gateway service that use them. The entries of the Go map are an association
  list; the order in which a \<^verbatim>\<open>range\<close> loop visits them is not determined by the language and is the
  parameter \<open>order\<close>, a rearrangement of the list. Every operation holds the mutex from its first to its last
  access, so the operations are atomic. A nil circuit is \<open>None\<close>; log lines are left out.
\<close>

subsection \<open>Settings\<close>

definition defaultOpenAIProxyStreamFailureThreshold :: int where "defaultOpenAIProxyStreamFailureThreshold = 2"
definition defaultOpenAIProxyStreamFailureWindow :: duration where "defaultOpenAIProxyStreamFailureWindow = minute"
definition defaultOpenAIProxyStreamQuarantineTTL :: duration where "defaultOpenAIProxyStreamQuarantineTTL = 10 * minute"
definition defaultOpenAIProxyStreamCircuitMaxEntries :: int where "defaultOpenAIProxyStreamCircuitMaxEntries = 4096"
definition defaultOpenAIProxyStreamFailureCollapse :: duration where "defaultOpenAIProxyStreamFailureCollapse = 3 * second"

lemmas circuit_default_defs = defaultOpenAIProxyStreamFailureThreshold_def defaultOpenAIProxyStreamFailureWindow_def
  defaultOpenAIProxyStreamQuarantineTTL_def defaultOpenAIProxyStreamCircuitMaxEntries_def
  defaultOpenAIProxyStreamFailureCollapse_def

record openAIProxyStreamCircuitSettings =
  disabled :: bool
  failureThreshold :: int
  failureWindow :: duration
  quarantineTTL :: duration
  collapseInterval :: duration
  maxEntries :: int

record circuit_config =
  cfg_Disabled :: bool
  cfg_FailureThreshold :: int
  cfg_WindowSeconds :: int
  cfg_TTLSeconds :: int

definition resolveOpenAIProxyStreamCircuitSettings :: "circuit_config option \<Rightarrow> openAIProxyStreamCircuitSettings" where
  "resolveOpenAIProxyStreamCircuitSettings config =
     (let settings = \<lparr>disabled = False, failureThreshold = defaultOpenAIProxyStreamFailureThreshold,
            failureWindow = defaultOpenAIProxyStreamFailureWindow, quarantineTTL = defaultOpenAIProxyStreamQuarantineTTL,
            collapseInterval = defaultOpenAIProxyStreamFailureCollapse,
            maxEntries = defaultOpenAIProxyStreamCircuitMaxEntries\<rparr>
      in case config of
           None \<Rightarrow> settings
         | Some cfg \<Rightarrow>
             (let settings = settings\<lparr>disabled := cfg_Disabled cfg\<rparr>;
                  settings = (if cfg_FailureThreshold cfg > 0
                              then settings\<lparr>failureThreshold := cfg_FailureThreshold cfg\<rparr> else settings);
                  settings = (if cfg_WindowSeconds cfg > 0
                              then settings\<lparr>failureWindow := cfg_WindowSeconds cfg * second\<rparr> else settings);
                  settings = (if cfg_TTLSeconds cfg > 0
                              then settings\<lparr>quarantineTTL := cfg_TTLSeconds cfg * second\<rparr> else settings)
              in settings))"

record openAIProxyStreamCircuitEntry =
  failureCount :: int
  windowStart :: time
  lastFailureAt :: time
  blockedUntil :: time
  lastTouched :: time

record openAIProxyStreamCircuit =
  settings :: openAIProxyStreamCircuitSettings
  entries :: "(int \<times> openAIProxyStreamCircuitEntry) list"

definition zero_entry :: openAIProxyStreamCircuitEntry where
  "zero_entry = \<lparr>failureCount = 0, windowStart = zero_time, lastFailureAt = zero_time, blockedUntil = zero_time,
                 lastTouched = zero_time\<rparr>"

definition newOpenAIProxyStreamCircuit :: "openAIProxyStreamCircuitSettings \<Rightarrow> openAIProxyStreamCircuit" where
  "newOpenAIProxyStreamCircuit s =
     (let s = (if failureThreshold s \<le> 0 then s\<lparr>failureThreshold := defaultOpenAIProxyStreamFailureThreshold\<rparr> else s);
          s = (if failureWindow s \<le> 0 then s\<lparr>failureWindow := defaultOpenAIProxyStreamFailureWindow\<rparr> else s);
          s = (if quarantineTTL s \<le> 0 then s\<lparr>quarantineTTL := defaultOpenAIProxyStreamQuarantineTTL\<rparr> else s);
          s = (if maxEntries s \<le> 0 then s\<lparr>maxEntries := defaultOpenAIProxyStreamCircuitMaxEntries\<rparr> else s);
          s = (if collapseInterval s < 0 then s\<lparr>collapseInterval := 0\<rparr> else s)
      in \<lparr>settings = s, entries = []\<rparr>)"

subsection \<open>Operations\<close>

type_synonym iteration = "(int \<times> openAIProxyStreamCircuitEntry) list \<Rightarrow> (int \<times> openAIProxyStreamCircuitEntry) list"

definition reclaimable_entry :: "openAIProxyStreamCircuitSettings \<Rightarrow> time \<Rightarrow> openAIProxyStreamCircuitEntry \<Rightarrow> bool" where
  "reclaimable_entry s now entry \<longleftrightarrow>
     (let staleObservation = is_zero (blockedUntil entry) \<and> sub_time now (lastTouched entry) > failureWindow s;
          expiredQuarantine = \<not> is_zero (blockedUntil entry) \<and> \<not> before now (blockedUntil entry)
      in staleObservation \<or> expiredQuarantine)"

definition oldest_entry :: "(int \<times> openAIProxyStreamCircuitEntry) list \<Rightarrow> int \<times> time" where
  "oldest_entry es =
     fold (\<lambda>(proxyID, entry) (oldestProxyID, oldest).
             if oldestProxyID = 0 \<or> before (lastTouched entry) oldest then (proxyID, lastTouched entry)
             else (oldestProxyID, oldest)) es (0, zero_time)"

definition ensureCapacityLocked :: "iteration \<Rightarrow> time \<Rightarrow> openAIProxyStreamCircuit \<Rightarrow> openAIProxyStreamCircuit" where
  "ensureCapacityLocked order now c =
     (if int (length (entries c)) < maxEntries (settings c) then c
      else
        (let c = c\<lparr>entries := filter (\<lambda>(proxyID, entry). \<not> reclaimable_entry (settings c) now entry) (entries c)\<rparr>
         in if int (length (entries c)) < maxEntries (settings c) then c
            else
              (let (oldestProxyID, oldest) = oldest_entry (order (entries c))
               in if oldestProxyID > 0 then c\<lparr>entries := AList.delete oldestProxyID (entries c)\<rparr> else c)))"

text \<open>The three parts of \<^verbatim>\<open>recordFailure\<close> that work on the entry: the window, the burst test, the count.\<close>

definition roll_window ::
  "openAIProxyStreamCircuitSettings \<Rightarrow> time \<Rightarrow> openAIProxyStreamCircuitEntry \<Rightarrow> openAIProxyStreamCircuitEntry" where
  "roll_window s now entry =
     (if is_zero (windowStart entry) \<or> before now (windowStart entry) \<or> sub_time now (windowStart entry) > failureWindow s
      then entry\<lparr>failureCount := 0, windowStart := now, blockedUntil := zero_time\<rparr>
      else entry)"

definition in_burst :: "openAIProxyStreamCircuitSettings \<Rightarrow> time \<Rightarrow> openAIProxyStreamCircuitEntry \<Rightarrow> bool" where
  "in_burst s now entry \<longleftrightarrow>
     collapseInterval s > 0 \<and> \<not> is_zero (lastFailureAt entry) \<and>
     sub_time now (lastFailureAt entry) \<ge> 0 \<and> sub_time now (lastFailureAt entry) < collapseInterval s"

definition count_failure ::
  "openAIProxyStreamCircuitSettings \<Rightarrow> time \<Rightarrow> openAIProxyStreamCircuitEntry \<Rightarrow> bool \<times> openAIProxyStreamCircuitEntry" where
  "count_failure s now entry =
     (let entry = entry\<lparr>failureCount := failureCount entry + 1, lastFailureAt := now, lastTouched := now\<rparr>;
          tripped = (failureCount entry \<ge> failureThreshold s)
      in (tripped, if tripped then entry\<lparr>blockedUntil := add_time now (quarantineTTL s)\<rparr> else entry))"

definition recordFailure ::
  "iteration \<Rightarrow> int \<Rightarrow> time \<Rightarrow> openAIProxyStreamCircuit \<Rightarrow> (bool \<times> time) \<times> openAIProxyStreamCircuit" where
  "recordFailure order proxyID now c =
     (if disabled (settings c) \<or> proxyID \<le> 0 then ((False, zero_time), c)
      else
        (let found = map_of (entries c) proxyID;
             entry = (case found of None \<Rightarrow> zero_entry | Some e \<Rightarrow> e)
         in if found \<noteq> None \<and> before now (blockedUntil entry)
            then ((False, blockedUntil entry),
                  c\<lparr>entries := AList.update proxyID (entry\<lparr>lastTouched := now\<rparr>) (entries c)\<rparr>)
            else
              (let c = (if found = None then ensureCapacityLocked order now c else c);
                   entry = roll_window (settings c) now entry
               in if in_burst (settings c) now entry
                  then ((False, zero_time),
                        c\<lparr>entries := AList.update proxyID (entry\<lparr>lastTouched := now\<rparr>) (entries c)\<rparr>)
                  else
                    (let (tripped, entry) = count_failure (settings c) now entry
                     in ((tripped, blockedUntil entry),
                         c\<lparr>entries := AList.update proxyID entry (entries c)\<rparr>)))))"

definition recordSuccess :: "int \<Rightarrow> openAIProxyStreamCircuit \<Rightarrow> bool \<times> openAIProxyStreamCircuit" where
  "recordSuccess proxyID c =
     (if proxyID \<le> 0 then (False, c)
      else if map_of (entries c) proxyID = None then (False, c)
      else (True, c\<lparr>entries := AList.delete proxyID (entries c)\<rparr>))"

definition isBlocked :: "int \<Rightarrow> time \<Rightarrow> openAIProxyStreamCircuit \<Rightarrow> bool \<times> openAIProxyStreamCircuit" where
  "isBlocked proxyID now c =
     (if disabled (settings c) \<or> proxyID \<le> 0 then (False, c)
      else case map_of (entries c) proxyID of
        None \<Rightarrow> (False, c)
      | Some entry \<Rightarrow>
          if is_zero (blockedUntil entry) then (False, c)
          else if \<not> before now (blockedUntil entry)
          then (False, c\<lparr>entries := AList.delete proxyID (entries c)\<rparr>)
          else (True, c))"

definition activeBlockCount :: "time \<Rightarrow> openAIProxyStreamCircuit \<Rightarrow> int" where
  "activeBlockCount now c =
     (if disabled (settings c) then 0
      else int (length (filter (\<lambda>(proxyID, entry). \<not> is_zero (blockedUntil entry) \<and> before now (blockedUntil entry))
                          (entries c))))"

subsection \<open>Use by the gateway service\<close>

text \<open>Of an account the code reads the platform and the proxy id.\<close>

record proxy_account =
  acc_Platform :: string
  acc_ProxyID :: "int option"

definition openAIProxyStreamCircuitProxyID :: "proxy_account option \<Rightarrow> int option" where
  "openAIProxyStreamCircuitProxyID account =
     (case account of
        None \<Rightarrow> None
      | Some a \<Rightarrow>
          if acc_Platform a \<noteq> ''openai'' then None
          else case acc_ProxyID a of None \<Rightarrow> None | Some i \<Rightarrow> if i \<le> 0 then None else Some i)"

text \<open>A stream error is told apart by what \<^verbatim>\<open>errors.Is\<close> finds in its chain.\<close>

datatype stream_error = ContextCanceled | ContextDeadlineExceeded | StreamBroken string

text \<open>The service creates its circuit at the first use.\<close>

definition getOpenAIProxyStreamCircuit ::
  "circuit_config option \<Rightarrow> openAIProxyStreamCircuit option \<Rightarrow> openAIProxyStreamCircuit" where
  "getOpenAIProxyStreamCircuit config circuit =
     (case circuit of
        Some c \<Rightarrow> c
      | None \<Rightarrow> newOpenAIProxyStreamCircuit (resolveOpenAIProxyStreamCircuitSettings config))"

definition recordOpenAIProxyStreamDisconnect ::
  "iteration \<Rightarrow> circuit_config option \<Rightarrow> proxy_account option \<Rightarrow> stream_error option \<Rightarrow> time \<Rightarrow>
   openAIProxyStreamCircuit option \<Rightarrow> openAIProxyStreamCircuit option" where
  "recordOpenAIProxyStreamDisconnect order config account streamErr now circuit =
     (case openAIProxyStreamCircuitProxyID account of
        None \<Rightarrow> circuit
      | Some proxyID \<Rightarrow>
          if streamErr = None \<or> streamErr = Some ContextCanceled \<or> streamErr = Some ContextDeadlineExceeded then circuit
          else Some (snd (recordFailure order proxyID now (getOpenAIProxyStreamCircuit config circuit))))"

definition clearOpenAIProxyStreamDisconnect ::
  "circuit_config option \<Rightarrow> proxy_account option \<Rightarrow> openAIProxyStreamCircuit option \<Rightarrow> openAIProxyStreamCircuit option" where
  "clearOpenAIProxyStreamDisconnect config account circuit =
     (case openAIProxyStreamCircuitProxyID account of
        None \<Rightarrow> circuit
      | Some proxyID \<Rightarrow> Some (snd (recordSuccess proxyID (getOpenAIProxyStreamCircuit config circuit))))"

definition isOpenAIProxyStreamQuarantined ::
  "circuit_config option \<Rightarrow> bool \<Rightarrow> proxy_account option \<Rightarrow> time \<Rightarrow> openAIProxyStreamCircuit option \<Rightarrow>
   bool \<times> openAIProxyStreamCircuit option" where
  "isOpenAIProxyStreamQuarantined config bypassed account now circuit =
     (case openAIProxyStreamCircuitProxyID account of
        None \<Rightarrow> (False, circuit)
      | Some proxyID \<Rightarrow>
          if bypassed then (False, circuit)
          else (case isBlocked proxyID now (getOpenAIProxyStreamCircuit config circuit) of
                  (blocked, c) \<Rightarrow> (blocked, Some c)))"

subsection \<open>Runs\<close>

text \<open>
  A run is a sequence of operations at times that do not go backwards. It records the failures reported
  for each proxy.
\<close>

inductive circuit_run ::
  "iteration \<Rightarrow> openAIProxyStreamCircuitSettings \<Rightarrow> (int \<times> time) list \<Rightarrow> time \<Rightarrow> openAIProxyStreamCircuit \<Rightarrow> bool"
  for order s
where
  cr_new: "0 < now \<Longrightarrow> circuit_run order s [] now (newOpenAIProxyStreamCircuit s)"
| cr_failure: "circuit_run order s h t c \<Longrightarrow> t \<le> now \<Longrightarrow>
     circuit_run order s (h @ [(p, now)]) now (snd (recordFailure order p now c))"
| cr_success: "circuit_run order s h t c \<Longrightarrow> circuit_run order s h t (snd (recordSuccess p c))"
| cr_query: "circuit_run order s h t c \<Longrightarrow> t \<le> now \<Longrightarrow> circuit_run order s h now (snd (isBlocked p now c))"

definition reported :: "int \<Rightarrow> (int \<times> time) list \<Rightarrow> time list" where
  "reported p h = map snd (filter (\<lambda>e. fst e = p) h)"

text \<open>What the code relies on of a \<^verbatim>\<open>range\<close> loop: it visits every entry once.\<close>

definition rearranges :: "iteration \<Rightarrow> bool" where
  "rearranges order \<longleftrightarrow> (\<forall>es. set (order es) = set es \<and> length (order es) = length es)"

subsection \<open>Capacity\<close>

definition circuit_ok :: "openAIProxyStreamCircuit \<Rightarrow> bool" where
  "circuit_ok c \<longleftrightarrow> distinct (map fst (entries c)) \<and> (\<forall>e \<in> set (entries c). 0 < fst e) \<and>
     int (length (entries c)) \<le> maxEntries (settings c) \<and> 0 < maxEntries (settings c)"

lemma oldest_in:
  assumes "\<forall>e \<in> set es. 0 < fst e"
  shows "es \<noteq> [] \<Longrightarrow> 0 < fst (oldest_entry es) \<and> fst (oldest_entry es) \<in> fst ` set es"
proof -
  define f where "f = (\<lambda>(proxyID, entry :: openAIProxyStreamCircuitEntry) (oldestProxyID :: int, oldest).
      if oldestProxyID = 0 \<or> before (lastTouched entry) oldest then (proxyID :: int, lastTouched entry)
      else (oldestProxyID, oldest))"
  have gen: "(0 < fst a \<longrightarrow> 0 < fst (fold f es a) \<and> fst (fold f es a) \<in> insert (fst a) (fst ` set es)) \<and>
        (fst a = 0 \<longrightarrow> es \<noteq> [] \<longrightarrow> 0 < fst (fold f es a) \<and> fst (fold f es a) \<in> fst ` set es)" for a
    using assms
  proof (induction es arbitrary: a)
    case (Cons e es)
    have "0 < fst (f e a) \<and> fst (f e a) \<in> {fst a, fst e}" if "0 < fst a"
      using that Cons.prems by (auto simp: f_def split: prod.splits)
    moreover have "0 < fst (f e a) \<and> fst (f e a) = fst e" if "fst a = 0"
      using that Cons.prems by (auto simp: f_def split: prod.splits)
    moreover have "0 < fst (f e a) \<longrightarrow> 0 < fst (fold f es (f e a)) \<and>
        fst (fold f es (f e a)) \<in> insert (fst (f e a)) (fst ` set es)"
      using Cons.IH [of "f e a"] Cons.prems by simp
    ultimately show ?case by auto
  qed simp
  show "es \<noteq> [] \<Longrightarrow> 0 < fst (oldest_entry es) \<and> fst (oldest_entry es) \<in> fst ` set es"
    using gen [of "(0, zero_time)"] by (simp add: oldest_entry_def f_def)
qed

lemma length_keys: "distinct (map fst al) \<Longrightarrow> length al = card (fst ` set al)"
  by (metis distinct_card length_map list.set_map)

lemma ensureCapacity_facts:
  assumes "circuit_ok c" "rearranges order"
  shows "settings (ensureCapacityLocked order now c) = settings c"
    "set (entries (ensureCapacityLocked order now c)) \<subseteq> set (entries c)"
    "distinct (map fst (entries (ensureCapacityLocked order now c)))"
    "int (length (entries (ensureCapacityLocked order now c))) < maxEntries (settings c)"
proof -
  let ?es = "filter (\<lambda>(proxyID, entry). \<not> reclaimable_entry (settings c) now entry) (entries c)"
  let ?k = "fst (oldest_entry (order ?es))"
  have dist: "distinct (map fst ?es)" using assms(1) by (simp add: circuit_ok_def distinct_map_filter)
  have ord: "set (order ?es) = set ?es" "length (order ?es) = length ?es" using assms(2) by (auto simp: rearranges_def)
  have len: "length ?es \<le> length (entries c)" by simp
  have evict: "0 < ?k" "int (length (AList.delete ?k ?es)) < maxEntries (settings c)"
    if "\<not> int (length ?es) < maxEntries (settings c)"
  proof -
    have "?es \<noteq> []" using that assms(1) unfolding circuit_ok_def by (metis list.size(3) of_nat_0)
    then have "order ?es \<noteq> []" using ord(2) by (metis length_0_conv)
    moreover have "\<forall>e \<in> set (order ?es). 0 < fst e" using assms(1) ord(1) by (auto simp: circuit_ok_def)
    ultimately have k: "0 < ?k" "?k \<in> fst ` set ?es" using oldest_in ord(1) by metis+
    then show "0 < ?k" by simp
    have "length (AList.delete ?k ?es) = length (removeAll ?k (map fst ?es))" by (metis AList.delete_keys length_map)
    also have "\<dots> < length (map fst ?es)" using k(2) by (intro length_removeAll_less) simp
    finally show "int (length (AList.delete ?k ?es)) < maxEntries (settings c)"
      using len assms(1) unfolding circuit_ok_def length_map by linarith
  qed
  note defs = ensureCapacityLocked_def Let_def case_prod_unfold
  show "settings (ensureCapacityLocked order now c) = settings c" by (simp add: defs)
  show "set (entries (ensureCapacityLocked order now c)) \<subseteq> set (entries c)"
    by (auto simp: defs AList.delete_eq)
  show "distinct (map fst (entries (ensureCapacityLocked order now c)))"
    using assms(1) dist distinct_delete [OF dist] by (auto simp: defs circuit_ok_def)
  show "int (length (entries (ensureCapacityLocked order now c))) < maxEntries (settings c)"
    using evict by (auto simp: defs)
qed

text \<open>Writing the entry of a proxy keeps the constraints when it is there or there is room.\<close>

lemma circuit_ok_update:
  assumes "distinct (map fst es)" "\<forall>e \<in> set es. 0 < fst e" "0 < p"
    and "p \<in> fst ` set es \<and> int (length es) \<le> maxEntries s \<or> int (length es) < maxEntries s" "0 < maxEntries s"
  shows "circuit_ok \<lparr>settings = s, entries = AList.update p e es\<rparr>"
proof -
  have dist: "distinct (map fst (AList.update p e es))" using assms(1) by (rule distinct_update)
  have "length (AList.update p e es) = card (insert p (fst ` set es))"
    using length_keys [OF dist] by (simp add: dom_update)
  moreover have "card (insert p (fst ` set es)) = (if p \<in> fst ` set es then length es else Suc (length es))"
    using length_keys [OF assms(1)] by (simp add: insert_absorb)
  ultimately have "int (length (AList.update p e es)) \<le> maxEntries s" using assms(4) by (auto split: if_splits)
  moreover have "\<forall>k \<in> fst ` set (AList.update p e es). 0 < k"
    using assms(2,3) by (auto simp: dom_update)
  ultimately show ?thesis using dist assms(5) by (simp add: circuit_ok_def)
qed

text \<open>The ways a reported failure ends, with the entry it writes.\<close>

lemma ensureCapacity_settings [simp]: "settings (ensureCapacityLocked order now c) = settings c"
  by (simp add: ensureCapacityLocked_def Let_def case_prod_unfold)

definition found_entry :: "int \<Rightarrow> openAIProxyStreamCircuit \<Rightarrow> openAIProxyStreamCircuitEntry" where
  "found_entry p c = (case map_of (entries c) p of None \<Rightarrow> zero_entry | Some e \<Rightarrow> e)"

definition roomy :: "iteration \<Rightarrow> int \<Rightarrow> time \<Rightarrow> openAIProxyStreamCircuit \<Rightarrow> openAIProxyStreamCircuit" where
  "roomy order p now c = (if map_of (entries c) p = None then ensureCapacityLocked order now c else c)"

lemma recordFailure_cases:
  assumes "recordFailure order p now c = (r, c')" and "\<not> disabled (settings c)" "0 < p"
  obtains (blocked) "map_of (entries c) p = Some (found_entry p c)" "now < blockedUntil (found_entry p c)"
      "r = (False, blockedUntil (found_entry p c))"
      "c' = c\<lparr>entries := AList.update p ((found_entry p c)\<lparr>lastTouched := now\<rparr>) (entries c)\<rparr>"
  | (collapsed) e where "e = roll_window (settings c) now (found_entry p c)" "in_burst (settings c) now e"
      "r = (False, zero_time)"
      "c' = (roomy order p now c)\<lparr>entries := AList.update p (e\<lparr>lastTouched := now\<rparr>) (entries (roomy order p now c))\<rparr>"
  | (counted) e tripped e' where "e = roll_window (settings c) now (found_entry p c)" "\<not> in_burst (settings c) now e"
      "count_failure (settings c) now e = (tripped, e')" "r = (tripped, blockedUntil e')"
      "c' = (roomy order p now c)\<lparr>entries := AList.update p e' (entries (roomy order p now c))\<rparr>"
proof -
  let ?c = "roomy order p now c"
  have set_c: "settings ?c = settings c" by (simp add: roomy_def)
  show ?thesis
  proof (cases "map_of (entries c) p \<noteq> None \<and> now < blockedUntil (found_entry p c)")
    case True
    with assms show ?thesis
      by (intro blocked) (auto simp: recordFailure_def found_entry_def before_def)
  next
    case False
    then have run: "(r, c') = (let e = roll_window (settings c) now (found_entry p c) in
        if in_burst (settings c) now e
        then ((False, zero_time), ?c\<lparr>entries := AList.update p (e\<lparr>lastTouched := now\<rparr>) (entries ?c)\<rparr>)
        else (let (tripped, e) = count_failure (settings c) now e
              in ((tripped, blockedUntil e), ?c\<lparr>entries := AList.update p e (entries ?c)\<rparr>)))"
      using assms set_c
      unfolding recordFailure_def Let_def before_def found_entry_def [symmetric] roomy_def [symmetric]
      by (auto simp del: not_None_eq split: if_splits prod.splits)
    show ?thesis
    proof (cases "in_burst (settings c) now (roll_window (settings c) now (found_entry p c))")
      case True
      with run show ?thesis by (intro collapsed [OF refl]) (auto simp: Let_def)
    next
      case no: False
      obtain tripped e' where ce: "count_failure (settings c) now (roll_window (settings c) now (found_entry p c)) = (tripped, e')"
        by fastforce
      with no run show ?thesis by (intro counted [OF refl no ce]) (auto simp: Let_def)
    qed
  qed
qed

lemma recordFailure_inactive:
  "disabled (settings c) \<or> p \<le> 0 \<Longrightarrow> recordFailure order p now c = ((False, zero_time), c)"
  by (simp add: recordFailure_def)

lemma roomy_facts:
  assumes "circuit_ok c" "rearranges order" "0 < p"
  shows "circuit_ok ((roomy order p now c)\<lparr>entries := AList.update p e (entries (roomy order p now c))\<rparr>)"
    "set (entries (roomy order p now c)) \<subseteq> set (entries c)" "settings (roomy order p now c) = settings c"
proof -
  let ?c = "roomy order p now c"
  note E = ensureCapacity_facts [OF assms(1,2)]
  show sub: "set (entries ?c) \<subseteq> set (entries c)" "settings ?c = settings c" using E by (auto simp: roomy_def)
  have "distinct (map fst (entries ?c))" using E(3) assms(1) by (simp add: roomy_def circuit_ok_def)
  moreover have "\<forall>e \<in> set (entries ?c). 0 < fst e" using sub(1) assms(1) by (auto simp: circuit_ok_def)
  moreover have "p \<in> fst ` set (entries ?c) \<and> int (length (entries ?c)) \<le> maxEntries (settings c) \<or>
      int (length (entries ?c)) < maxEntries (settings c)"
  proof (cases "map_of (entries c) p")
    case None
    then show ?thesis using E(4) by (simp add: roomy_def)
  next
    case (Some x)
    then have "p \<in> fst ` set (entries c)" by (metis domI dom_map_of_conv_image_fst)
    with Some assms(1) show ?thesis by (simp add: roomy_def circuit_ok_def)
  qed
  moreover have "0 < maxEntries (settings c)" using assms(1) by (simp add: circuit_ok_def)
  ultimately have "circuit_ok \<lparr>settings = settings c, entries = AList.update p e (entries ?c)\<rparr>"
    using assms(3) by (intro circuit_ok_update)
  moreover have "?c\<lparr>entries := x\<rparr> = \<lparr>settings = settings c, entries = x\<rparr>" for x
    using sub(2) by (metis openAIProxyStreamCircuit.surjective openAIProxyStreamCircuit.update_convs(2) old.unit.exhaust)
  ultimately show "circuit_ok (?c\<lparr>entries := AList.update p e (entries ?c)\<rparr>)" by metis
qed

lemma circuit_ok_delete: "circuit_ok c \<Longrightarrow> circuit_ok (c\<lparr>entries := AList.delete p (entries c)\<rparr>)"
proof -
  assume ok: "circuit_ok c"
  have "int (length (AList.delete p (entries c))) \<le> maxEntries (settings c)"
    using ok AList.length_delete_le [of p "entries c"] unfolding circuit_ok_def by linarith
  moreover have "set (AList.delete p (entries c)) \<subseteq> set (entries c)" by (auto simp: AList.delete_eq)
  moreover have "distinct (map fst (AList.delete p (entries c)))"
    using ok by (simp add: circuit_ok_def distinct_delete)
  ultimately show ?thesis using ok by (auto simp: circuit_ok_def)
qed

subsection \<open>The failures behind an entry\<close>

definition separate :: "duration \<Rightarrow> time list \<Rightarrow> bool" where
  "separate gap evs \<longleftrightarrow> sorted_wrt (\<lambda>a b. a + gap \<le> b) evs"

text \<open>The entry of a proxy counts reported failures: \<open>evs\<close> are the ones it counts.\<close>

definition explained :: "openAIProxyStreamCircuitSettings \<Rightarrow> time \<Rightarrow> time list \<Rightarrow> openAIProxyStreamCircuitEntry \<Rightarrow> bool" where
  "explained s now ts e \<longleftrightarrow>
     (\<exists>evs. subseq evs ts \<and> int (length evs) = failureCount e \<and> separate (collapseInterval s) evs \<and>
        (\<forall>t \<in> set evs. windowStart e \<le> t) \<and> (evs \<noteq> [] \<longrightarrow> last evs = lastFailureAt e)) \<and>
     lastFailureAt e \<le> now \<and> windowStart e \<le> now"

definition well_set :: "openAIProxyStreamCircuitSettings \<Rightarrow> bool" where
  "well_set s \<longleftrightarrow> 0 \<le> collapseInterval s \<and> collapseInterval s < max_int64 \<and> failureWindow s < max_int64 \<and>
     0 < failureWindow s \<and> 0 < failureThreshold s \<and> 0 < quarantineTTL s \<and> 0 < maxEntries s"

lemma explained_mono:
  assumes "explained s now ts e" "now \<le> now'"
  shows "explained s now' (ts @ us) e"
proof -
  from assms(1) obtain evs where "subseq evs ts" "int (length evs) = failureCount e"
    "separate (collapseInterval s) evs" "\<forall>t \<in> set evs. windowStart e \<le> t"
    "evs \<noteq> [] \<longrightarrow> last evs = lastFailureAt e" "lastFailureAt e \<le> now" "windowStart e \<le> now"
    by (auto simp: explained_def)
  moreover from this(1) have "subseq evs (ts @ us)" by (rule subseq_rev_drop_many)
  ultimately show ?thesis using assms(2) unfolding explained_def by (intro conjI exI [of _ evs]) auto
qed

lemma explained_touch [simp]: "explained s now ts (e\<lparr>lastTouched := t\<rparr>) \<longleftrightarrow> explained s now ts e"
  by (simp add: explained_def)

lemma explained_zero: "0 \<le> now \<Longrightarrow> explained s now ts zero_entry"
  by (auto simp: explained_def zero_entry_def zero_time_def separate_def intro!: exI [of _ "[]"])

lemma explained_roll:
  assumes "explained s now ts e"
  shows "explained s now ts (roll_window s now e)"
proof (cases "roll_window s now e = e")
  case False
  then have "roll_window s now e = e\<lparr>failureCount := 0, windowStart := now, blockedUntil := zero_time\<rparr>"
    by (auto simp: roll_window_def)
  with assms show ?thesis by (auto simp: explained_def separate_def intro!: exI [of _ "[]"])
qed (use assms in simp)

lemma roll_window_in: "well_set s \<Longrightarrow> now - windowStart (roll_window s now e) \<le> failureWindow s"
  by (auto simp: roll_window_def well_set_def less_sub_time min_int64_def not_less)

text \<open>Counting one more failure adds it to the counted ones: it is not in the burst of the last one.\<close>

lemma explained_count:
  assumes "well_set s" "explained s now ts e" "\<forall>t \<in> set ts. 0 < t" "\<not> in_burst s now e" "windowStart e \<le> now" "0 < now"
    and "count_failure s now e = (tripped, e')"
  shows "\<exists>evs. subseq evs (ts @ [now]) \<and> int (length evs) = failureCount e' \<and> separate (collapseInterval s) evs \<and>
        (\<forall>t \<in> set evs. windowStart e' \<le> t \<and> t \<le> now) \<and> evs \<noteq> [] \<and> last evs = lastFailureAt e'"
    "lastFailureAt e' = now" "windowStart e' = windowStart e" "tripped \<longleftrightarrow> failureThreshold s \<le> failureCount e'"
    "blockedUntil e' = (if tripped then now + quarantineTTL s else blockedUntil e)"
proof -
  from assms(7) show simps: "lastFailureAt e' = now" "windowStart e' = windowStart e" "tripped \<longleftrightarrow> failureThreshold s \<le> failureCount e'"
    "blockedUntil e' = (if tripped then now + quarantineTTL s else blockedUntil e)"
    by (auto simp: count_failure_def Let_def add_time_def)
  from assms(7) have count: "failureCount e' = failureCount e + 1" by (auto simp: count_failure_def Let_def)
  from assms(2) obtain evs where evs: "subseq evs ts" "int (length evs) = failureCount e"
    "separate (collapseInterval s) evs" "\<forall>t \<in> set evs. windowStart e \<le> t"
    "evs \<noteq> [] \<longrightarrow> last evs = lastFailureAt e" "lastFailureAt e \<le> now"
    by (auto simp: explained_def)
  have gap: "t + collapseInterval s \<le> now" if "t \<in> set evs" for t
  proof -
    from that have ne: "evs \<noteq> []" by auto
    note last = evs(5) [rule_format, OF this] last_in_set [OF this]
    then have "last evs \<in> set ts" using list_emb_set [OF evs(1) last(2)] by auto
    with assms(3) last have "0 < lastFailureAt e" by force
    with assms(1,4) evs(6) have "lastFailureAt e + collapseInterval s \<le> now"
      by (auto simp: in_burst_def is_zero_def well_set_def sub_time_less max_int64_def min_int64_def)
    moreover have "t \<le> last evs"
    proof (cases "t = last evs")
      case False
      with that ne have "t \<in> set (butlast evs)" by (metis in_set_conv_decomp_last butlast_snoc append_butlast_last_id rotate1.simps(2) set_ConsD set_rotate1)
      moreover have "sorted_wrt (\<lambda>a b. a + collapseInterval s \<le> b) (butlast evs @ [last evs])"
        using evs(3) ne by (simp add: separate_def)
      ultimately show ?thesis using assms(1) by (auto simp: sorted_wrt_append well_set_def)
    qed simp
    ultimately show ?thesis using last by simp
  qed
  have "separate (collapseInterval s) (evs @ [now])"
    using evs(3) gap by (auto simp: separate_def sorted_wrt_append)
  moreover have "subseq (evs @ [now]) (ts @ [now])" using evs(1) by (simp add: list_emb_append_mono)
  moreover have "\<forall>t \<in> set (evs @ [now]). windowStart e' \<le> t \<and> t \<le> now"
    using evs(4) gap assms(1,5) by (force simp: simps well_set_def)
  ultimately show "\<exists>evs. subseq evs (ts @ [now]) \<and> int (length evs) = failureCount e' \<and> separate (collapseInterval s) evs \<and>
        (\<forall>t \<in> set evs. windowStart e' \<le> t \<and> t \<le> now) \<and> evs \<noteq> [] \<and> last evs = lastFailureAt e'"
    using evs(2) by (intro exI [of _ "evs @ [now]"]) (simp add: simps count)
qed

subsection \<open>The invariant of runs\<close>

definition circuit_inv :: "openAIProxyStreamCircuitSettings \<Rightarrow> (int \<times> time) list \<Rightarrow> time \<Rightarrow> openAIProxyStreamCircuit \<Rightarrow> bool" where
  "circuit_inv s h now c \<longleftrightarrow>
     circuit_ok c \<and> settings c = settings (newOpenAIProxyStreamCircuit s) \<and> 0 < now \<and> (\<forall>e \<in> set h. 0 < snd e) \<and>
     (\<forall>p e. (p, e) \<in> set (entries c) \<longrightarrow> explained (settings c) now (reported p h) e)"

lemma circuit_inv_entry:
  "circuit_inv s h now c \<Longrightarrow> (p, e) \<in> set (entries c) \<Longrightarrow> explained (settings c) now (reported p h) e"
  unfolding circuit_inv_def by blast

lemma new_well_set:
  assumes "collapseInterval s < max_int64" "failureWindow s < max_int64"
  shows "well_set (settings (newOpenAIProxyStreamCircuit s))"
  using assms by (auto simp: newOpenAIProxyStreamCircuit_def Let_def well_set_def circuit_default_defs
      minute_def second_def max_int64_def)

lemma update_entry_mem:
  "distinct (map fst es) \<Longrightarrow> (q, x) \<in> set (AList.update p e es) \<Longrightarrow> (q = p \<and> x = e) \<or> (q \<noteq> p \<and> (q, x) \<in> set es)"
proof -
  assume dist: "distinct (map fst es)" and "(q, x) \<in> set (AList.update p e es)"
  then have "map_of (AList.update p e es) q = Some x" by (intro map_of_is_SomeI distinct_update)
  then show ?thesis by (auto simp: update_conv' dest: map_of_SomeD split: if_splits)
qed

lemma found_explained:
  assumes "circuit_inv s h t c" "t \<le> now"
  shows "explained (settings c) now (reported p h) (found_entry p c)"
proof (cases "map_of (entries c) p")
  case None
  then show ?thesis using assms by (simp add: found_entry_def explained_zero circuit_inv_def)
next
  case (Some e)
  then have "(p, e) \<in> set (entries c)" by (rule map_of_SomeD)
  from explained_mono [OF circuit_inv_entry [OF assms(1) this] assms(2), of "[]"] Some show ?thesis by (simp add: found_entry_def)
qed

lemma reported_snoc: "reported q (h @ [(p, now)]) = reported q h @ (if q = p then [now] else [])"
  by (simp add: reported_def)

lemma circuit_inv_write:
  assumes inv: "circuit_inv s h t c" and now: "t \<le> now" and ok: "circuit_ok (d\<lparr>entries := AList.update p e (entries d)\<rparr>)"
    and d: "set (entries d) \<subseteq> set (entries c)" "settings d = settings c" "distinct (map fst (entries d))"
    and e: "explained (settings c) now (reported p h @ [now]) e"
  shows "circuit_inv s (h @ [(p, now)]) now (d\<lparr>entries := AList.update p e (entries d)\<rparr>)"
proof -
  have "explained (settings c) now (reported q (h @ [(p, now)])) x"
    if x: "(q, x) \<in> set (AList.update p e (entries d))" for q x
  proof -
    from update_entry_mem [OF d(3) x] consider "q = p" "x = e" | "q \<noteq> p" "(q, x) \<in> set (entries c)" using d(1) by blast
    then show ?thesis
    proof cases
      case 1
      with e show ?thesis by (simp add: reported_snoc)
    next
      case 2
      from explained_mono [OF circuit_inv_entry [OF inv 2(2)] now, of "[]"] 2 show ?thesis by (simp add: reported_snoc)
    qed
  qed
  with inv now ok d(2) show ?thesis by (auto simp: circuit_inv_def)
qed

lemma count_explained:
  assumes "well_set s" "explained s now ts e" "\<forall>t \<in> set ts. 0 < t" "\<not> in_burst s now e" "windowStart e \<le> now" "0 < now"
    and "count_failure s now e = (tripped, e')"
  shows "explained s now (ts @ [now]) e'"
proof -
  from explained_count [OF assms] obtain evs where "subseq evs (ts @ [now])" "int (length evs) = failureCount e'"
    "separate (collapseInterval s) evs" "\<forall>t \<in> set evs. windowStart e' \<le> t \<and> t \<le> now" "last evs = lastFailureAt e'"
    "lastFailureAt e' = now" "windowStart e' = windowStart e" by metis
  with assms(5) show ?thesis unfolding explained_def by (intro conjI exI [of _ evs]) auto
qed

lemma circuit_inv_failure:
  assumes "rearranges order" "well_set (settings c)" "circuit_inv s h t c" "t \<le> now"
  shows "circuit_inv s (h @ [(p, now)]) now (snd (recordFailure order p now c))"
proof (cases "disabled (settings c) \<or> p \<le> 0")
  case True
  have "explained (settings c) now (reported q (h @ [(p, now)])) e" if "(q, e) \<in> set (entries c)" for q e
  proof -
    from explained_mono [OF circuit_inv_entry [OF assms(3) that] assms(4)] show ?thesis by (simp add: reported_snoc)
  qed
  with True assms show ?thesis by (auto simp: recordFailure_inactive circuit_inv_def)
next
  case False
  have ok: "circuit_ok c" and pos: "0 < now" "\<forall>x \<in> set (reported p h). 0 < x" and dist: "distinct (map fst (entries c))"
    using assms(3,4) by (auto simp: circuit_inv_def circuit_ok_def reported_def)
  have p: "0 < p" using False by simp
  note room = roomy_facts [OF ok assms(1) p, where now = now]
  have distr: "distinct (map fst (entries (roomy order p now c)))"
    using ensureCapacity_facts(3) [OF ok assms(1)] dist by (simp add: roomy_def)
  note found = found_explained [OF assms(3,4), of p]
  note rolled = explained_roll [OF found]
  have ws: "windowStart (roll_window (settings c) now (found_entry p c)) \<le> now" using rolled by (simp add: explained_def)
  obtain r c' where rf: "recordFailure order p now c = (r, c')" by fastforce
  from False have act: "\<not> disabled (settings c)" by simp
  from rf act p show ?thesis
  proof (cases rule: recordFailure_cases)
    case blocked
    from blocked(1) have "p \<in> fst ` set (entries c)" by (metis domI dom_map_of_conv_image_fst)
    with ok have ok': "circuit_ok \<lparr>settings = settings c, entries = AList.update p ((found_entry p c)\<lparr>lastTouched := now\<rparr>) (entries c)\<rparr>"
      using p by (intro circuit_ok_update) (auto simp: circuit_ok_def)
    have eq: "c\<lparr>entries := x\<rparr> = \<lparr>settings = settings c, entries = x\<rparr>" for x by (cases c) simp
    have "circuit_inv s (h @ [(p, now)]) now (c\<lparr>entries := AList.update p ((found_entry p c)\<lparr>lastTouched := now\<rparr>) (entries c)\<rparr>)"
      by (rule circuit_inv_write [OF assms(3,4)])
        (use ok' dist explained_mono [OF found order_refl, of "[now]"] in \<open>simp_all add: eq\<close>)
    with rf blocked show ?thesis by simp
  next
    case (collapsed e)
    have "circuit_inv s (h @ [(p, now)]) now c'"
      unfolding collapsed(4)
      by (rule circuit_inv_write [OF assms(3,4) room(1) room(2,3) distr])
        (use explained_mono [OF rolled order_refl, of "[now]"] collapsed(1) in simp)
    with rf show ?thesis by simp
  next
    case (counted e tripped e')
    have "circuit_inv s (h @ [(p, now)]) now c'"
      unfolding counted(5)
      by (rule circuit_inv_write [OF assms(3,4) room(1) room(2,3) distr])
        (rule count_explained [OF assms(2) rolled pos(2) counted(2) [unfolded counted(1)] ws pos(1) counted(3) [unfolded counted(1)]])
    with rf show ?thesis by simp
  qed
qed

lemma delete_subset: "set (AList.delete k es) \<subseteq> set es"
  by (auto simp: AList.delete_eq)

lemma circuit_inv_subset:
  assumes "circuit_inv s h t c" "t \<le> now" "circuit_ok d" "settings d = settings c" "set (entries d) \<subseteq> set (entries c)"
  shows "circuit_inv s h now d"
proof -
  have "explained (settings c) now (reported q h) e" if "(q, e) \<in> set (entries d)" for q e
  proof -
    from that assms(5) have "(q, e) \<in> set (entries c)" by blast
    from explained_mono [OF circuit_inv_entry [OF assms(1) this] assms(2), of "[]"] show ?thesis by simp
  qed
  with assms show ?thesis by (auto simp: circuit_inv_def)
qed

lemma circuit_run_inv:
  assumes "circuit_run order s h now c" "rearranges order" "collapseInterval s < max_int64" "failureWindow s < max_int64"
  shows "circuit_inv s h now c"
  using assms(1)
proof induction
  case (cr_new now)
  then show ?case
    by (auto simp: circuit_inv_def newOpenAIProxyStreamCircuit_def Let_def circuit_ok_def circuit_default_defs)
next
  case (cr_failure h t c now p)
  have "well_set (settings c)"
    using new_well_set [OF assms(3,4)] cr_failure.IH by (simp add: circuit_inv_def)
  from circuit_inv_failure [OF assms(2) this cr_failure.IH cr_failure.hyps(2)] show ?case .
next
  case (cr_success h t c p)
  show ?case
    by (rule circuit_inv_subset [OF cr_success.IH order_refl])
      (use cr_success.IH in \<open>auto simp: recordSuccess_def circuit_inv_def circuit_ok_delete delete_subset\<close>)
next
  case (cr_query h t c now p)
  show ?case
    by (rule circuit_inv_subset [OF cr_query.IH cr_query.hyps(2)])
      (use cr_query.IH in \<open>auto simp: isBlocked_def circuit_inv_def circuit_ok_delete delete_subset split: option.splits\<close>)
qed

subsection \<open>Properties\<close>

text \<open>C29: the circuit never holds more entries than its bound, nor two for one proxy, in any run and whatever the
  order in which the map is visited.\<close>

theorem circuit_bounded:
  assumes "rearranges order" and "circuit_run order s h now c"
    and "collapseInterval s < max_int64" and "failureWindow s < max_int64"
  shows "int (length (entries c)) \<le> maxEntries (settings (newOpenAIProxyStreamCircuit s)) \<and> distinct (map fst (entries c))"
  using circuit_run_inv [OF assms(2,1,3,4)] unfolding circuit_inv_def circuit_ok_def by metis

definition witness_circuit :: openAIProxyStreamCircuitSettings where
  "witness_circuit = (resolveOpenAIProxyStreamCircuitSettings None)\<lparr>maxEntries := 1\<rparr>"

lemma witness_circuit_bounds: "collapseInterval witness_circuit < max_int64" "failureWindow witness_circuit < max_int64"
  by (simp_all add: witness_circuit_def resolveOpenAIProxyStreamCircuitSettings_def circuit_default_defs
      minute_def second_def max_int64_def)

lemma rearranges_rev: "rearranges rev"
  by (simp add: rearranges_def)

lemma witness_run1:
  "circuit_run rev witness_circuit [(7, 100)] 100 (snd (recordFailure rev 7 100 (newOpenAIProxyStreamCircuit witness_circuit)))"
proof -
  have "circuit_run rev witness_circuit [] 100 (newOpenAIProxyStreamCircuit witness_circuit)" by (rule circuit_run.cr_new) simp
  from circuit_run.cr_failure [OF this order_refl, of 7] show ?thesis by simp
qed

lemma witness_run:
  "circuit_run rev witness_circuit [(7, 100), (8, 100)] 100
     (snd (recordFailure rev 8 100 (snd (recordFailure rev 7 100 (newOpenAIProxyStreamCircuit witness_circuit)))))"
  using circuit_run.cr_failure [OF witness_run1 order_refl, of 8] by simp

theorem circuit_bounded_witness:
  "length (entries (snd (recordFailure rev 8 100 (snd (recordFailure rev 7 100 (newOpenAIProxyStreamCircuit witness_circuit)))))) \<le> 1"
  using circuit_bounded [OF rearranges_rev witness_run witness_circuit_bounds]
  by (simp add: newOpenAIProxyStreamCircuit_def Let_def witness_circuit_def resolveOpenAIProxyStreamCircuitSettings_def
      circuit_default_defs minute_def second_def)

text \<open>C20: a proxy is quarantined only for as many separate incidents as the threshold asks for: among the
  failures reported for it there are that many, all within one failure window before now, each at least the
  collapse interval after the one before. A burst of disconnects counts once.\<close>

theorem quarantine_has_causes:
  assumes "rearranges order" and "circuit_run order s h t c"
    and "collapseInterval s < max_int64" and "failureWindow s < max_int64" and "t \<le> now"
    and "recordFailure order p now c = ((True, until), c')"
  shows "\<exists>evs. subseq evs (reported p h @ [now]) \<and> failureThreshold (settings c) \<le> int (length evs) \<and>
           separate (collapseInterval (settings c)) evs \<and>
           (\<forall>x \<in> set evs. now - failureWindow (settings c) \<le> x \<and> x \<le> now)"
proof -
  note inv = circuit_run_inv [OF assms(2,1,3,4)]
  have ws: "well_set (settings c)" using new_well_set [OF assms(3,4)] inv by (simp add: circuit_inv_def)
  have act: "\<not> disabled (settings c)" "0 < p" using assms(6) by (auto simp: recordFailure_def split: if_splits)
  have pos: "0 < now" "\<forall>x \<in> set (reported p h). 0 < x"
    using inv assms(5) by (auto simp: circuit_inv_def reported_def)
  note rolled = explained_roll [OF found_explained [OF inv assms(5), of p]]
  from assms(6) act show ?thesis
  proof (cases rule: recordFailure_cases)
    case (counted e tripped e')
    from counted(4) have "tripped" by simp
    have w: "windowStart e \<le> now" using rolled by (simp add: explained_def counted(1))
    note ec = explained_count [OF ws rolled [folded counted(1)] pos(2) counted(2) w pos(1) counted(3)]
    from ec(1) obtain evs where evs: "subseq evs (reported p h @ [now])" "int (length evs) = failureCount e'"
      "separate (collapseInterval (settings c)) evs" "\<forall>t \<in> set evs. windowStart e' \<le> t \<and> t \<le> now" by blast
    have "now - failureWindow (settings c) \<le> windowStart e'"
      using roll_window_in [OF ws, of now "found_entry p c"] by (simp add: ec(3) counted(1))
    with evs ec(4) \<open>tripped\<close> show ?thesis by (intro exI [of _ evs]) force
  qed auto
qed

theorem quarantine_has_causes_witness:
  "\<exists>evs. subseq evs [100, 5000000100] \<and> 2 \<le> int (length evs) \<and> separate (3 * second) evs"
proof -
  let ?c = "snd (recordFailure rev 7 100 (newOpenAIProxyStreamCircuit witness_circuit))"
  note run = witness_run1
  have "fst (recordFailure rev 7 5000000100 ?c) = (True, 605000000100)" by code_simp
  from quarantine_has_causes [OF rearranges_rev run witness_circuit_bounds _ pair_of_fst [OF this]]
  obtain evs where "subseq evs [100, 5000000100]" "failureThreshold (settings ?c) \<le> int (length evs)"
    "separate (collapseInterval (settings ?c)) evs" by (auto simp: reported_def)
  moreover have "failureThreshold (settings ?c) = 2" "collapseInterval (settings ?c) = 3 * second" by code_simp+
  ultimately show ?thesis by auto
qed

text \<open>A tripped proxy is blocked until the end of its quarantine and no longer.\<close>

theorem quarantine_lasts:
  assumes "recordFailure order p now c = ((True, until), c')" and "0 < now" and "0 < quarantineTTL (settings c)"
  shows "until = now + quarantineTTL (settings c) \<and> fst (isBlocked p t c') = (t < until)"
proof -
  have act: "\<not> disabled (settings c)" "0 < p" using assms(1) by (auto simp: recordFailure_def split: if_splits)
  from assms(1) act show ?thesis
  proof (cases rule: recordFailure_cases)
    case (counted e tripped e')
    from counted(4) have "tripped" and until: "until = blockedUntil e'" by auto
    with counted(3) have "until = now + quarantineTTL (settings c)" by (auto simp: count_failure_def Let_def add_time_def split: if_splits)
    moreover have "\<not> disabled (settings c')" using act counted(5) by (simp add: roomy_def)
    ultimately show ?thesis
      using act assms(2,3) until by (simp add: isBlocked_def counted(5) update_conv' is_zero_def before_def)
  qed auto
qed

theorem quarantine_lasts_witness:
  "fst (isBlocked 7 605000000099 (snd (recordFailure rev 7 5000000100
     (snd (recordFailure rev 7 100 (newOpenAIProxyStreamCircuit witness_circuit)))))) = True"
proof -
  let ?c = "snd (recordFailure rev 7 100 (newOpenAIProxyStreamCircuit witness_circuit))"
  have "fst (recordFailure rev 7 5000000100 ?c) = (True, 605000000100)" by code_simp
  note run = pair_of_fst [OF this]
  have "quarantineTTL (settings ?c) = 600000000000" by code_simp
  then show ?thesis using quarantine_lasts [OF run, of 605000000099] by simp
qed

end
