(* ===== verification/InvalidAuth.thy ===== *)
theory InvalidAuth
  imports Prelude "HOL-Library.AList" "HOL-Library.Word" "HOL-Library.Sublist"
begin

section \<open>The limiter for clients that fail to authenticate\<close>

text \<open>
  Models \<^verbatim>\<open>src/backend/internal/service/invalid_auth_abuse_limiter.go\<close>. The sixteen maps of the shards are
  association lists in a list; the shard of a client is its FNV-1a hash on 32-bit words. The current time is
  an argument. The atomic counters that only count are 64-bit words; the counter of entries is an integer,
  which the capacity bounds. A nil limiter is \<open>None\<close>. \<^verbatim>\<open>UnixNano\<close> is the distance from 1970, exact for the
  years 1678 to 2262. A retried compare-and-swap ends at the first attempt that no other goroutine disturbs:
  each is one atomic read and write.
\<close>

unbundle bit_operations_syntax

subsection \<open>Data\<close>

definition invalidAuthAbuseShardCount :: nat where "invalidAuthAbuseShardCount = 16"

record invalidAuthAbuseEntry =
  failures :: int
  windowStart :: time
  blockedUntil :: time

type_synonym invalidAuthAbuseShard = "(string \<times> invalidAuthAbuseEntry) list"
type_synonym invalidAuthOverflow = invalidAuthAbuseEntry

record invalidAuthAbuseLimiter =
  threshold :: int
  window :: duration
  block :: duration
  capacity :: int
  shards :: "invalidAuthAbuseShard list"
  overflow :: invalidAuthOverflow
  tracked :: int
  recorded :: "64 word"
  blocked :: "64 word"
  rejected :: "64 word"
  expired :: "64 word"
  overflowed :: "64 word"
  globalBlocked :: "64 word"
  cleanupNext :: int
  cleanupCursor :: "32 word"

record InvalidAuthAbuseHealth =
  Enabled :: bool
  Tracked :: int
  Capacity :: int
  Recorded :: "64 word"
  Blocks :: "64 word"
  Rejected :: "64 word"
  Expired :: "64 word"
  Overflowed :: "64 word"
  GlobalBlocked :: "64 word"

record InvalidAuthAbuseConfig =
  cfg_Enabled :: bool
  cfg_Threshold :: int
  cfg_WindowSeconds :: int
  cfg_BlockSeconds :: int
  cfg_Capacity :: int

definition newInvalidAuthAbuseLimiter :: "InvalidAuthAbuseConfig option \<Rightarrow> invalidAuthAbuseLimiter option" where
  "newInvalidAuthAbuseLimiter cfg =
     (case cfg of
        None \<Rightarrow> None
      | Some c \<Rightarrow>
          if \<not> cfg_Enabled c then None
          else if cfg_Threshold c \<le> 0 \<or> cfg_WindowSeconds c \<le> 0 \<or> cfg_BlockSeconds c \<le> 0 \<or> cfg_Capacity c \<le> 0 then None
          else Some \<lparr>threshold = cfg_Threshold c, window = cfg_WindowSeconds c * second, block = cfg_BlockSeconds c * second,
                 capacity = cfg_Capacity c, shards = replicate invalidAuthAbuseShardCount [],
                 overflow = \<lparr>failures = 0, windowStart = zero_time, blockedUntil = zero_time\<rparr>,
                 tracked = 0, recorded = 0, blocked = 0, rejected = 0, expired = 0, overflowed = 0, globalBlocked = 0,
                 cleanupNext = 0, cleanupCursor = 0\<rparr>)"

subsection \<open>Operations\<close>

definition unix_nano :: "time \<Rightarrow> int" where "unix_nano t = t - 62135596800 * second"

definition fnv_hash :: "string \<Rightarrow> 32 word" where
  "fnv_hash clientKey = fold (\<lambda>c hash. (hash XOR of_char c) * 16777619) clientKey 2166136261"

definition shard :: "string \<Rightarrow> nat" where
  "shard clientKey = unat (fnv_hash clientKey mod of_nat invalidAuthAbuseShardCount)"

definition entryExpired :: "invalidAuthAbuseLimiter \<Rightarrow> invalidAuthAbuseEntry \<Rightarrow> time \<Rightarrow> bool" where
  "entryExpired l entry now \<longleftrightarrow>
     \<not> after (blockedUntil entry) now \<and> \<not> after (windowStart entry) now \<and>
     \<not> before now (add_time (windowStart entry) (window l))"

definition set_shard :: "nat \<Rightarrow> invalidAuthAbuseShard \<Rightarrow> invalidAuthAbuseLimiter \<Rightarrow> invalidAuthAbuseLimiter" where
  "set_shard i es l = l\<lparr>shards := (shards l)[i := es]\<rparr>"

definition reserveEntry :: "invalidAuthAbuseLimiter \<Rightarrow> bool \<times> invalidAuthAbuseLimiter" where
  "reserveEntry l = (if tracked l \<ge> capacity l then (False, l) else (True, l\<lparr>tracked := tracked l + 1\<rparr>))"

text \<open>The loop of the cleanup: the shard without its expired entries, counted.\<close>

definition sweep_shard :: "nat \<Rightarrow> time \<Rightarrow> invalidAuthAbuseLimiter \<Rightarrow> invalidAuthAbuseLimiter" where
  "sweep_shard i now l =
     (let es = shards l ! i;
          gone = length (filter (\<lambda>(key, entry). entryExpired l entry now) es)
      in set_shard i (filter (\<lambda>(key, entry). \<not> entryExpired l entry now) es)
           (l\<lparr>tracked := tracked l - int gone, expired := expired l + of_nat gone\<rparr>))"

definition maybeCleanupAtCapacity :: "time \<Rightarrow> invalidAuthAbuseLimiter \<Rightarrow> invalidAuthAbuseLimiter" where
  "maybeCleanupAtCapacity now l =
     (if tracked l < capacity l then l
      else if unix_nano now < cleanupNext l then l
      else
        (let l = l\<lparr>cleanupNext := unix_nano (add_time now (100000000 * nanosecond))\<rparr>;
             l = l\<lparr>cleanupCursor := cleanupCursor l + 1\<rparr>;
             index = cleanupCursor l - 1
         in sweep_shard (unat (index mod of_nat invalidAuthAbuseShardCount)) now l))"

text \<open>The entry of a client, after an expired one has been dropped.\<close>

definition current_entry ::
  "string \<Rightarrow> time \<Rightarrow> invalidAuthAbuseLimiter \<Rightarrow> invalidAuthAbuseEntry option \<times> invalidAuthAbuseLimiter" where
  "current_entry clientKey now l =
     (let i = shard clientKey; es = shards l ! i
      in case map_of es clientKey of
           None \<Rightarrow> (None, l)
         | Some entry \<Rightarrow>
             if entryExpired l entry now
             then (None, set_shard i (AList.delete clientKey es) (l\<lparr>tracked := tracked l - 1, expired := expired l + 1\<rparr>))
             else (Some entry, l))"

definition checkOverflow :: "time \<Rightarrow> invalidAuthAbuseLimiter \<Rightarrow> duration \<times> bool" where
  "checkOverflow now l =
     (if after (blockedUntil (overflow l)) now then (sub_time (blockedUntil (overflow l)) now, True) else (0, False))"

text \<open>
  \<^verbatim>\<open>check\<close> after the cleanup: the part under the shard's lock, then the part for clients without an entry.
\<close>

definition check_shard ::
  "string \<Rightarrow> time \<Rightarrow> invalidAuthAbuseLimiter \<Rightarrow> (duration \<times> bool) option \<times> bool \<times> invalidAuthAbuseLimiter" where
  "check_shard clientKey now l =
     (let (entry, l) = current_entry clientKey now l
      in case entry of
           Some e \<Rightarrow>
             if after (blockedUntil e) now
             then (Some (sub_time (blockedUntil e) now, True), False, l\<lparr>rejected := rejected l + 1\<rparr>)
             else (None, False, l)
         | None \<Rightarrow> (None, True, l))"

definition check_overflow :: "time \<Rightarrow> invalidAuthAbuseLimiter \<Rightarrow> (duration \<times> bool) \<times> invalidAuthAbuseLimiter" where
  "check_overflow now l =
     (if tracked l \<ge> capacity l
      then (case checkOverflow now l of
              (retry, is_blocked) \<Rightarrow>
                if is_blocked
                then ((retry, True), l\<lparr>rejected := rejected l + 1, globalBlocked := globalBlocked l + 1\<rparr>)
                else ((0, False), l))
      else ((0, False), l))"

definition check :: "string \<Rightarrow> time \<Rightarrow> invalidAuthAbuseLimiter \<Rightarrow> (duration \<times> bool) \<times> invalidAuthAbuseLimiter" where
  "check clientKey now l =
     (if clientKey = '''' then ((0, False), l)
      else
        (let l = maybeCleanupAtCapacity now l
         in case check_shard clientKey now l of
              (Some answer, _, l) \<Rightarrow> (answer, l)
            | (None, absent, l) \<Rightarrow> if absent then check_overflow now l else ((0, False), l)))"

text \<open>Counting a failure on an entry: the window, the count and the block; the flag says that a block began.\<close>

definition count_auth_failure ::
  "invalidAuthAbuseLimiter \<Rightarrow> time \<Rightarrow> invalidAuthAbuseEntry \<Rightarrow> bool \<times> invalidAuthAbuseEntry" where
  "count_auth_failure l now entry =
     (let entry = (if after (windowStart entry) now \<or> \<not> before now (add_time (windowStart entry) (window l))
                   then entry\<lparr>windowStart := now, failures := 0\<rparr> else entry);
          entry = entry\<lparr>failures := failures entry + 1\<rparr>
      in if failures entry \<ge> threshold l
         then (True, entry\<lparr>failures := 0, blockedUntil := add_time now (block l), windowStart := add_time now (block l)\<rparr>)
         else (False, entry))"

definition recordOverflow :: "time \<Rightarrow> invalidAuthAbuseLimiter \<Rightarrow> invalidAuthAbuseLimiter" where
  "recordOverflow now l =
     (let l = l\<lparr>overflowed := overflowed l + 1\<rparr>;
          o1 = overflow l
      in if after (blockedUntil o1) now then l
         else
           (let o2 = (if is_zero (windowStart o1) \<or> \<not> before now (add_time (windowStart o1) (window l))
                      then o1\<lparr>windowStart := now, failures := 0\<rparr> else o1);
                o3 = o2\<lparr>failures := failures o2 + 1\<rparr>
            in if failures o3 \<ge> threshold l
               then l\<lparr>overflow := o3\<lparr>failures := 0, blockedUntil := add_time now (block l),
                                     windowStart := add_time now (block l)\<rparr>,
                      blocked := blocked l + 1\<rparr>
               else l\<lparr>overflow := o3\<rparr>))"

text \<open>\<^verbatim>\<open>record\<close> after the cleanup: the part under the shard's lock; the flag asks for the overflow part.\<close>

definition count_shard ::
  "string \<Rightarrow> time \<Rightarrow> invalidAuthAbuseEntry \<Rightarrow> invalidAuthAbuseLimiter \<Rightarrow> invalidAuthAbuseLimiter" where
  "count_shard clientKey now entry l =
     (if after (blockedUntil entry) now then set_shard (shard clientKey) (AList.update clientKey entry (shards l ! shard clientKey)) l
      else
        (let (began, entry) = count_auth_failure l now entry;
             l = set_shard (shard clientKey) (AList.update clientKey entry (shards l ! shard clientKey)) l
         in if began then l\<lparr>blocked := blocked l + 1\<rparr> else l))"

definition record_shard :: "string \<Rightarrow> time \<Rightarrow> invalidAuthAbuseLimiter \<Rightarrow> bool \<times> invalidAuthAbuseLimiter" where
  "record_shard clientKey now l =
     (let (entry, l) = current_entry clientKey now l
      in case entry of
           Some e \<Rightarrow> (False, count_shard clientKey now e l)
         | None \<Rightarrow>
             (case reserveEntry l of
                (False, l) \<Rightarrow> (True, l)
              | (True, l) \<Rightarrow>
                  (False, count_shard clientKey now \<lparr>failures = 0, windowStart = now, blockedUntil = zero_time\<rparr> l)))"

definition record_failure :: "string \<Rightarrow> time \<Rightarrow> invalidAuthAbuseLimiter \<Rightarrow> invalidAuthAbuseLimiter" where
  "record_failure clientKey now l =
     (if clientKey = '''' then l
      else
        (let l = maybeCleanupAtCapacity now (l\<lparr>recorded := recorded l + 1\<rparr>)
         in case record_shard clientKey now l of (full, l) \<Rightarrow> if full then recordOverflow now l else l))"

definition health :: "invalidAuthAbuseLimiter \<Rightarrow> InvalidAuthAbuseHealth" where
  "health l = \<lparr>Enabled = True, Tracked = tracked l, Capacity = capacity l, Recorded = recorded l, Blocks = blocked l,
     Rejected = rejected l, Expired = expired l, Overflowed = overflowed l, GlobalBlocked = globalBlocked l\<rparr>"

text \<open>The service's methods, on a limiter that is missing when the feature is off.\<close>

definition CheckInvalidAuthAbuse ::
  "string \<Rightarrow> time \<Rightarrow> invalidAuthAbuseLimiter option \<Rightarrow> (duration \<times> bool) \<times> invalidAuthAbuseLimiter option" where
  "CheckInvalidAuthAbuse clientKey now l =
     (case l of None \<Rightarrow> ((0, False), None)
      | Some l \<Rightarrow> (case check clientKey now l of (answer, l) \<Rightarrow> (answer, Some l)))"

definition RecordInvalidAuthFailure :: "string \<Rightarrow> time \<Rightarrow> invalidAuthAbuseLimiter option \<Rightarrow> invalidAuthAbuseLimiter option" where
  "RecordInvalidAuthFailure clientKey now l = map_option (record_failure clientKey now) l"

definition InvalidAuthHealth :: "invalidAuthAbuseLimiter option \<Rightarrow> InvalidAuthAbuseHealth" where
  "InvalidAuthHealth l =
     (case l of None \<Rightarrow> \<lparr>Enabled = False, Tracked = 0, Capacity = 0, Recorded = 0, Blocks = 0, Rejected = 0, Expired = 0,
                         Overflowed = 0, GlobalBlocked = 0\<rparr>
      | Some l \<Rightarrow> health l)"

subsection \<open>Runs\<close>

text \<open>
  The goroutines interleave at the locks: a run is a sequence of the locked parts of \<^verbatim>\<open>check\<close> and \<^verbatim>\<open>record\<close> and
  of cleanups, in any order, at any times and for any clients. It records the failures that reach an entry
  (under the client) and those that reach the overflow (under \<open>None\<close>).
\<close>

inductive auth_run :: "(string option \<times> time) list \<Rightarrow> invalidAuthAbuseLimiter \<Rightarrow> bool" where
  ar_new: "newInvalidAuthAbuseLimiter cfg = Some l \<Longrightarrow> auth_run [] l"
| ar_count: "auth_run h l \<Longrightarrow> auth_run h (l\<lparr>recorded := recorded l + 1\<rparr>)"
| ar_cleanup: "auth_run h l \<Longrightarrow> auth_run h (maybeCleanupAtCapacity now l)"
| ar_check: "auth_run h l \<Longrightarrow> auth_run h (snd (snd (check_shard k now l)))"
| ar_check_overflow: "auth_run h l \<Longrightarrow> auth_run h (snd (check_overflow now l))"
| ar_record: "auth_run h l \<Longrightarrow> record_shard k now l = (False, l') \<Longrightarrow> auth_run (h @ [(Some k, now)]) l'"
| ar_full: "auth_run h l \<Longrightarrow> record_shard k now l = (True, l') \<Longrightarrow> auth_run h l'"
| ar_overflow: "auth_run h l \<Longrightarrow> auth_run (h @ [(None, now)]) (recordOverflow now l)"

text \<open>A call that no other interrupts is such a sequence.\<close>

lemma check_is_run: "auth_run h l \<Longrightarrow> auth_run h (snd (check k now l))"
proof -
  assume run: "auth_run h l"
  let ?l = "maybeCleanupAtCapacity now l"
  obtain answer absent l' where cs: "check_shard k now ?l = (answer, absent, l')" by (metis prod_cases3)
  have "auth_run h ?l" using run by (rule ar_cleanup)
  with ar_check [OF this, of k now] have "auth_run h l'" by (simp add: cs)
  with ar_check_overflow [OF this, of now] run show ?thesis
    by (cases answer) (simp_all add: check_def cs)
qed

lemma record_is_run: "auth_run h l \<Longrightarrow> \<exists>h'. auth_run h' (record_failure k now l)"
proof -
  assume run: "auth_run h l"
  let ?l = "maybeCleanupAtCapacity now (l\<lparr>recorded := recorded l + 1\<rparr>)"
  have mid: "auth_run h ?l" by (intro ar_cleanup ar_count run)
  obtain full l' where rs: "record_shard k now ?l = (full, l')" by fastforce
  show ?thesis
  proof (cases full)
    case True
    from ar_overflow [OF ar_full [OF mid], of k now l' now] True rs run show ?thesis
      by (cases "k = ''''") (auto simp: record_failure_def)
  next
    case False
    from ar_record [OF mid, of k now l'] False rs run show ?thesis
      by (cases "k = ''''") (auto simp: record_failure_def)
  qed
qed

subsection \<open>The shards\<close>

definition times_of :: "string option \<Rightarrow> (string option \<times> time) list \<Rightarrow> time list" where
  "times_of k h = map snd (filter (\<lambda>e. fst e = k) h)"

definition total_entries :: "invalidAuthAbuseLimiter \<Rightarrow> nat" where
  "total_entries l = sum_list (map length (shards l))"

definition entry_of :: "string \<Rightarrow> invalidAuthAbuseLimiter \<Rightarrow> invalidAuthAbuseEntry option" where
  "entry_of k l = map_of (shards l ! shard k) k"

definition placed :: "invalidAuthAbuseLimiter \<Rightarrow> bool" where
  "placed l \<longleftrightarrow> length (shards l) = invalidAuthAbuseShardCount \<and>
     (\<forall>i < invalidAuthAbuseShardCount. distinct (map fst (shards l ! i)) \<and> (\<forall>k \<in> fst ` set (shards l ! i). shard k = i))"

definition counted :: "invalidAuthAbuseLimiter \<Rightarrow> bool" where
  "counted l \<longleftrightarrow> tracked l = int (total_entries l) \<and> tracked l \<le> capacity l"

lemma shard_less: "shard k < invalidAuthAbuseShardCount"
proof -
  have "fnv_hash k mod 16 < (16 :: 32 word)" by (simp add: word_mod_less_divisor)
  then have "unat (fnv_hash k mod 16) < unat (16 :: 32 word)" by (rule unat_mono)
  then show ?thesis by (simp add: shard_def invalidAuthAbuseShardCount_def)
qed

lemma placed_shard:
  "placed l \<Longrightarrow> shard k < length (shards l)" "placed l \<Longrightarrow> distinct (map fst (shards l ! shard k))"
  using shard_less by (auto simp: placed_def)

lemma set_shard_simps [simp]:
  "shards (set_shard i es l) = (shards l)[i := es]" "tracked (set_shard i es l) = tracked l"
  "capacity (set_shard i es l) = capacity l" "threshold (set_shard i es l) = threshold l"
  "window (set_shard i es l) = window l" "block (set_shard i es l) = block l" "overflow (set_shard i es l) = overflow l"
  by (simp_all add: set_shard_def)

lemma placed_set_shard:
  assumes "placed l" "i < invalidAuthAbuseShardCount" "distinct (map fst es)" "\<forall>k \<in> fst ` set es. shard k = i"
  shows "placed (set_shard i es l)"
  using assms by (simp add: placed_def nth_list_update)

lemma placed_tracked [simp]: "placed (l\<lparr>tracked := n\<rparr>) = placed l"
  by (simp add: placed_def)

lemma total_set_shard:
  "i < length (shards l) \<Longrightarrow> total_entries (set_shard i es l) = total_entries l + length es - length (shards l ! i)"
  "i < length (shards l) \<Longrightarrow> length (shards l ! i) \<le> total_entries l"
  by (simp_all add: total_entries_def map_update sum_list_update elem_le_sum_list)
    (metis elem_le_sum_list length_map nth_map)

lemma delete_length:
  assumes "distinct (map fst es)" "map_of es k = Some e"
  shows "int (length (AList.delete k es)) = int (length es) - 1"
proof -
  have "k \<in> set (map fst es)" using assms(2) by (auto dest: map_of_SomeD intro: rev_image_eqI)
  moreover have "length (AList.delete k es) = length (remove1 k (map fst es))"
    using assms(1) by (metis AList.delete_keys distinct_remove1_removeAll length_map)
  ultimately have "length (AList.delete k es) = length es - 1" by (simp add: length_remove1)
  moreover have "length es \<noteq> 0" using assms(2) by (cases es) auto
  ultimately show ?thesis by linarith
qed

lemma update_length:
  assumes "distinct (map fst es)"
  shows "length (AList.update k e es) = (if map_of es k = None then Suc (length es) else length es)"
proof -
  have "length (AList.update k e es) = card (fst ` set (AList.update k e es))"
    using distinct_update [OF assms] by (metis distinct_card length_map list.set_map)
  also have "\<dots> = card (insert k (fst ` set es))" by (simp add: dom_update)
  also have "card (fst ` set es) = length es" using assms by (metis distinct_card length_map list.set_map)
  then have "card (insert k (fst ` set es)) = (if k \<in> fst ` set es then length es else Suc (length es))"
    by (simp add: insert_absorb)
  finally show ?thesis by (simp add: map_of_eq_None_iff)
qed

lemma map_of_filter:
  "distinct (map fst es) \<Longrightarrow>
   map_of (filter (\<lambda>(k, e). P e) es) k = (case map_of es k of Some e \<Rightarrow> if P e then Some e else None | None \<Rightarrow> None)"
proof (induction es)
  case (Cons x es)
  obtain a b where x: "x = (a, b)" by fastforce
  have "map_of (filter (\<lambda>(k, e). P e) es) k = None" if "k \<notin> fst ` set es"
    using that by (auto simp: map_of_eq_None_iff)
  with Cons x show ?case by (cases "k = a") auto
qed simp

subsection \<open>Every operation keeps the shards\<close>

definition same_settings :: "invalidAuthAbuseLimiter \<Rightarrow> invalidAuthAbuseLimiter \<Rightarrow> bool" where
  "same_settings l l' \<longleftrightarrow> threshold l' = threshold l \<and> window l' = window l \<and> block l' = block l \<and> capacity l' = capacity l"

definition entries_within :: "invalidAuthAbuseLimiter \<Rightarrow> invalidAuthAbuseLimiter \<Rightarrow> bool" where
  "entries_within l' l \<longleftrightarrow> (\<forall>k e. entry_of k l' = Some e \<longrightarrow> entry_of k l = Some e)"

lemma entry_set_shard:
  "i < length (shards l) \<Longrightarrow> entry_of k (set_shard i es l) = (if shard k = i then map_of es k else entry_of k l)"
  by (simp add: entry_of_def)

lemma map_of_delete_sub: "map_of (AList.delete k' es) k = (if k = k' then None else map_of es k)"
  by (simp add: delete_conv')

lemma sweep_facts:
  assumes "placed l" "counted l" "i < invalidAuthAbuseShardCount"
  shows "placed (sweep_shard i now l)" "counted (sweep_shard i now l)" "same_settings l (sweep_shard i now l)"
    "entries_within (sweep_shard i now l) l" "overflow (sweep_shard i now l) = overflow l"
    "entry_of k l = Some e \<Longrightarrow> \<not> entryExpired l e now \<Longrightarrow> entry_of k (sweep_shard i now l) = Some e"
    "tracked (sweep_shard i now l) \<le> tracked l"
proof -
  let ?es = "shards l ! i" and ?P = "\<lambda>e. entryExpired l e now"
  let ?m = "\<lambda>n. l\<lparr>tracked := tracked l - int n, expired := expired l + of_nat n\<rparr>"
  let ?n = "length (filter (\<lambda>(key, entry). ?P entry) ?es)"
  have sw: "sweep_shard i now l = set_shard i (filter (\<lambda>(key, entry). \<not> ?P entry) ?es) (?m ?n)"
    by (simp add: sweep_shard_def Let_def)
  have i: "i < length (shards l)" and dist: "distinct (map fst ?es)" and at: "\<forall>k \<in> fst ` set ?es. shard k = i"
    using assms by (auto simp: placed_def)
  have m: "placed (?m ?n)" "shards (?m ?n) = shards l" using assms(1) by (simp_all add: placed_def)
  show "placed (sweep_shard i now l)"
    unfolding sw using at dist by (intro placed_set_shard m assms(3)) (auto simp: distinct_map_filter)
  have "?n + length (filter (\<lambda>(key, entry). \<not> ?P entry) ?es) = length ?es"
    using sum_length_filter_compl [of "\<lambda>(key, entry). ?P entry" ?es] by (simp add: case_prod_unfold)
  moreover have "total_entries (sweep_shard i now l) = total_entries l + length (filter (\<lambda>(key, entry). \<not> ?P entry) ?es) - length ?es"
    "length ?es \<le> total_entries l"
    using total_set_shard [of i "?m ?n"] total_set_shard(2) [of i l] i by (simp_all add: sw total_entries_def)
  ultimately show "counted (sweep_shard i now l)" using assms(2) unfolding counted_def by (simp add: sw)
  show "same_settings l (sweep_shard i now l)" "overflow (sweep_shard i now l) = overflow l"
    "tracked (sweep_shard i now l) \<le> tracked l" by (simp_all add: sw same_settings_def)
  have entry: "entry_of k (sweep_shard i now l) =
      (if shard k = i then (case map_of ?es k of Some e \<Rightarrow> if \<not> ?P e then Some e else None | None \<Rightarrow> None) else entry_of k l)" for k
    using i by (simp add: sw entry_set_shard map_of_filter [OF dist] entry_of_def)
  then show "entries_within (sweep_shard i now l) l"
    by (auto simp: entries_within_def entry_of_def split: option.splits if_splits)
  show "entry_of k l = Some e \<Longrightarrow> \<not> entryExpired l e now \<Longrightarrow> entry_of k (sweep_shard i now l) = Some e"
    unfolding entry by (auto simp: entry_of_def)
qed

lemma cleanup_index: "unat ((index :: 32 word) mod of_nat invalidAuthAbuseShardCount) < invalidAuthAbuseShardCount"
proof -
  have "index mod 16 < 16" by (simp add: word_mod_less_divisor)
  then have "unat (index mod 16) < unat (16 :: 32 word)" by (rule unat_mono)
  then show ?thesis by (simp add: invalidAuthAbuseShardCount_def)
qed

lemma cleanup_facts:
  assumes "placed l" "counted l"
  shows "placed (maybeCleanupAtCapacity now l)" "counted (maybeCleanupAtCapacity now l)"
    "same_settings l (maybeCleanupAtCapacity now l)"
    "entries_within (maybeCleanupAtCapacity now l) l" "overflow (maybeCleanupAtCapacity now l) = overflow l"
    "entry_of k l = Some e \<Longrightarrow> \<not> entryExpired l e now \<Longrightarrow> entry_of k (maybeCleanupAtCapacity now l) = Some e"
    "tracked (maybeCleanupAtCapacity now l) \<le> tracked l"
proof -
  let ?l = "l\<lparr>cleanupNext := unix_nano (add_time now (100000000 * nanosecond)), cleanupCursor := cleanupCursor l + 1\<rparr>"
  have eq: "maybeCleanupAtCapacity now l = l \<or>
      (\<exists>i < invalidAuthAbuseShardCount. maybeCleanupAtCapacity now l = sweep_shard i now ?l)"
    using cleanup_index by (auto simp: maybeCleanupAtCapacity_def Let_def)
  have l: "placed ?l" "counted ?l" "entry_of k ?l = entry_of k l" "entryExpired ?l e now = entryExpired l e now" for k e
    using assms by (simp_all add: placed_def counted_def total_entries_def entry_of_def entryExpired_def)
  from eq show "placed (maybeCleanupAtCapacity now l)" "counted (maybeCleanupAtCapacity now l)"
    using assms sweep_facts(1,2) [OF l(1,2)] by auto
  from eq show "same_settings l (maybeCleanupAtCapacity now l)" "overflow (maybeCleanupAtCapacity now l) = overflow l"
    using sweep_facts(3,5) [OF l(1,2)] by (auto simp: same_settings_def)
  from eq show "entries_within (maybeCleanupAtCapacity now l) l" "tracked (maybeCleanupAtCapacity now l) \<le> tracked l"
    using sweep_facts(4,7) [OF l(1,2), of _ now] l(3) by (fastforce simp: entries_within_def)+
  from eq show "entry_of k l = Some e \<Longrightarrow> \<not> entryExpired l e now \<Longrightarrow> entry_of k (maybeCleanupAtCapacity now l) = Some e"
    using sweep_facts(6) [OF l(1,2), of _ k e now] l(3,4) by auto
qed

lemma current_facts:
  assumes "placed l" "counted l" "current_entry k now l = (found, l')"
  shows "placed l'" "counted l'" "same_settings l l'" "entries_within l' l" "overflow l' = overflow l"
    "found = entry_of k l'" "found = (case entry_of k l of Some e \<Rightarrow> if entryExpired l e now then None else Some e | None \<Rightarrow> None)"
    "k' \<noteq> k \<Longrightarrow> entry_of k' l' = entry_of k' l" "tracked l' \<le> tracked l"
proof -
  let ?i = "shard k" let ?es = "shards l ! ?i"
  let ?m = "l\<lparr>tracked := tracked l - 1, expired := expired l + 1\<rparr>"
  have i: "?i < length (shards l)" and dist: "distinct (map fst ?es)" using placed_shard [OF assms(1)] by auto
  have at: "\<forall>k \<in> fst ` set ?es. shard k = ?i" using assms(1) shard_less by (auto simp: placed_def)
  consider (none) "map_of ?es k = None" "found = None" "l' = l"
    | (kept) e where "map_of ?es k = Some e" "\<not> entryExpired l e now" "found = Some e" "l' = l"
    | (dropped) e where "map_of ?es k = Some e" "entryExpired l e now" "found = None" "l' = set_shard ?i (AList.delete k ?es) ?m"
    using assms(3) by (auto simp: current_entry_def Let_def split: option.splits if_splits)
  then have "placed l' \<and> counted l' \<and> same_settings l l' \<and> entries_within l' l \<and> overflow l' = overflow l \<and>
    found = entry_of k l' \<and> found = (case entry_of k l of Some e \<Rightarrow> if entryExpired l e now then None else Some e | None \<Rightarrow> None) \<and>
    (k' \<noteq> k \<longrightarrow> entry_of k' l' = entry_of k' l) \<and> tracked l' \<le> tracked l"
  proof cases
    case dropped
    have "placed ?m" using assms(1) by (simp add: placed_def)
    moreover have "\<forall>k' \<in> fst ` set (AList.delete k ?es). shard k' = ?i" using at by (auto simp: AList.delete_eq)
    ultimately have "placed l'"
      unfolding dropped(4) by (intro placed_set_shard shard_less distinct_delete dist) auto
    moreover have "counted l'"
      using assms(2) delete_length [OF dist dropped(1)] total_set_shard(1) [of ?i ?m "AList.delete k ?es"] total_set_shard(2) [of ?i l] i
      unfolding counted_def dropped(4) by (simp add: total_entries_def)
    ultimately show ?thesis using dropped i
      by (auto simp: entries_within_def same_settings_def entry_set_shard entry_of_def map_of_delete_sub nth_list_update)
  qed (use assms(1,2) in \<open>auto simp: entries_within_def same_settings_def entry_of_def\<close>)
  then show "placed l'" "counted l'" "same_settings l l'" "entries_within l' l" "overflow l' = overflow l" "found = entry_of k l'"
    "found = (case entry_of k l of Some e \<Rightarrow> if entryExpired l e now then None else Some e | None \<Rightarrow> None)"
    "k' \<noteq> k \<Longrightarrow> entry_of k' l' = entry_of k' l" "tracked l' \<le> tracked l" by blast+
qed

lemma reserve_facts:
  assumes "placed l" "counted l" "reserveEntry l = (ok, l')"
  shows "ok \<longleftrightarrow> tracked l < capacity l" "\<not> ok \<Longrightarrow> l' = l" "ok \<Longrightarrow> l' = l\<lparr>tracked := tracked l + 1\<rparr>"
  using assms(3) by (auto simp: reserveEntry_def split: if_splits)

text \<open>Writing a client's entry into a limiter that has counted it already when it is new.\<close>

definition put_entry :: "string \<Rightarrow> invalidAuthAbuseEntry \<Rightarrow> invalidAuthAbuseLimiter \<Rightarrow> invalidAuthAbuseLimiter" where
  "put_entry k e l = set_shard (shard k) (AList.update k e (shards l ! shard k)) l"

lemma put_facts:
  assumes "placed l"
  shows "placed (put_entry k e l)" "entry_of k (put_entry k e l) = Some e"
    "k' \<noteq> k \<Longrightarrow> entry_of k' (put_entry k e l) = entry_of k' l" "same_settings l (put_entry k e l)"
    "overflow (put_entry k e l) = overflow l" "tracked (put_entry k e l) = tracked l"
    "total_entries (put_entry k e l) = (if entry_of k l = None then Suc (total_entries l) else total_entries l)"
proof -
  let ?i = "shard k" let ?es = "shards l ! ?i"
  have i: "?i < length (shards l)" and dist: "distinct (map fst ?es)" using placed_shard [OF assms] by auto
  have "\<forall>k \<in> fst ` set ?es. shard k = ?i" using assms shard_less unfolding placed_def by blast
  then have "\<forall>k' \<in> fst ` set (AList.update k e ?es). shard k' = ?i" by (auto simp: dom_update)
  then show "placed (put_entry k e l)"
    unfolding put_entry_def by (intro placed_set_shard assms shard_less distinct_update dist)
  show "entry_of k (put_entry k e l) = Some e" "k' \<noteq> k \<Longrightarrow> entry_of k' (put_entry k e l) = entry_of k' l"
    using i by (auto simp: put_entry_def entry_set_shard entry_of_def update_conv' nth_list_update)
  show "same_settings l (put_entry k e l)" "overflow (put_entry k e l) = overflow l" "tracked (put_entry k e l) = tracked l"
    by (simp_all add: put_entry_def same_settings_def)
  show "total_entries (put_entry k e l) = (if entry_of k l = None then Suc (total_entries l) else total_entries l)"
    using total_set_shard(1) [OF i, of "AList.update k e ?es"] total_set_shard(2) [OF i]
    by (simp add: put_entry_def update_length [OF dist] entry_of_def)
qed

lemma count_shard_put:
  "count_shard k now e l =
     (if after (blockedUntil e) now then put_entry k e l
      else (put_entry k (snd (count_auth_failure l now e)) l)
             \<lparr>blocked := if fst (count_auth_failure l now e) then blocked l + 1 else blocked l\<rparr>)"
  by (simp add: count_shard_def put_entry_def case_prod_unfold Let_def set_shard_def)

subsection \<open>What explains a block\<close>

text \<open>
  A block until \<open>b\<close> is caused by as many failures as the threshold, the last of them the block's length before
  \<open>b\<close>, all within one window. Where that is not \<open>strict\<close>, only the window's end bounds them.
\<close>

definition in_window :: "bool \<Rightarrow> invalidAuthAbuseLimiter \<Rightarrow> time \<Rightarrow> time list \<Rightarrow> bool" where
  "in_window strict l w evs \<longleftrightarrow> (\<forall>t \<in> set evs. (strict \<longrightarrow> w \<le> t) \<and> t < w + window l)"

definition block_caused :: "bool \<Rightarrow> invalidAuthAbuseLimiter \<Rightarrow> time list \<Rightarrow> time \<Rightarrow> bool" where
  "block_caused strict l ts b \<longleftrightarrow>
     (\<exists>evs w. subseq evs ts \<and> int (length evs) = threshold l \<and> in_window strict l w evs \<and> last evs + block l = b)"

definition auth_explained :: "bool \<Rightarrow> invalidAuthAbuseLimiter \<Rightarrow> time list \<Rightarrow> invalidAuthAbuseEntry \<Rightarrow> bool" where
  "auth_explained strict l ts e \<longleftrightarrow>
     failures e < threshold l \<and> (blockedUntil e = 0 \<or> block_caused strict l ts (blockedUntil e)) \<and>
     (\<exists>evs. subseq evs ts \<and> int (length evs) = failures e \<and> in_window strict l (windowStart e) evs)"

lemma block_caused_mono: "block_caused strict l ts b \<Longrightarrow> block_caused strict l (ts @ us) b"
  unfolding block_caused_def by (blast intro: subseq_rev_drop_many)

lemma auth_explained_mono: "auth_explained strict l ts e \<Longrightarrow> auth_explained strict l (ts @ us) e"
  unfolding auth_explained_def by (blast intro: subseq_rev_drop_many block_caused_mono)

lemma auth_explained_settings: "same_settings l l' \<Longrightarrow> auth_explained strict l' ts e = auth_explained strict l ts e"
  by (simp add: auth_explained_def block_caused_def in_window_def same_settings_def)

lemma auth_explained_fresh: "0 < threshold l \<Longrightarrow> auth_explained strict l ts \<lparr>failures = 0, windowStart = w, blockedUntil = 0\<rparr>"
  by (auto simp: auth_explained_def in_window_def intro!: exI [of _ "[]"])

text \<open>One more failure in an entry whose window holds it.\<close>

lemma auth_explained_step:
  assumes ex: "auth_explained strict l ts e" and pos: "0 < threshold l"
    and win: "strict \<longrightarrow> windowStart e \<le> now" "now < windowStart e + window l"
  shows "failures e + 1 < threshold l \<Longrightarrow> auth_explained strict l (ts @ [now]) (e\<lparr>failures := failures e + 1\<rparr>)"
    "threshold l \<le> failures e + 1 \<Longrightarrow> auth_explained strict l (ts @ [now])
       (e\<lparr>failures := 0, blockedUntil := now + block l, windowStart := now + block l\<rparr>)"
proof -
  from ex obtain evs where evs: "subseq evs ts" "int (length evs) = failures e" "in_window strict l (windowStart e) evs"
    and less: "failures e < threshold l" unfolding auth_explained_def by blast
  have sub: "subseq (evs @ [now]) (ts @ [now])" using evs(1) by (simp add: list_emb_append_mono)
  have inw: "in_window strict l (windowStart e) (evs @ [now])" using evs(3) win by (auto simp: in_window_def)
  show "auth_explained strict l (ts @ [now]) (e\<lparr>failures := failures e + 1\<rparr>)" if "failures e + 1 < threshold l"
    using that ex sub inw evs(2) unfolding auth_explained_def
    by (intro conjI exI [of _ "evs @ [now]"]) (auto intro: block_caused_mono)
  show "auth_explained strict l (ts @ [now]) (e\<lparr>failures := 0, blockedUntil := now + block l, windowStart := now + block l\<rparr>)"
    if "threshold l \<le> failures e + 1"
  proof -
    have "int (length (evs @ [now])) = threshold l" using that less evs(2) by simp
    with sub inw have "block_caused strict l (ts @ [now]) (now + block l)"
      unfolding block_caused_def by (intro exI [of _ "evs @ [now]"] exI [of _ "windowStart e"]) simp
    with pos show ?thesis unfolding auth_explained_def by (auto simp: in_window_def intro!: exI [of _ "[]"])
  qed
qed

lemma auth_explained_restart:
  "auth_explained strict l ts e \<Longrightarrow> 0 < threshold l \<Longrightarrow> auth_explained strict l ts (e\<lparr>windowStart := now, failures := 0\<rparr>)"
  by (auto simp: auth_explained_def in_window_def intro!: exI [of _ "[]"])

lemma count_auth_explained:
  assumes ex: "auth_explained True l ts e" and pos: "0 < threshold l" "0 < window l"
  shows "auth_explained True l (ts @ [now]) (snd (count_auth_failure l now e))"
proof -
  define e' where "e' = (if after (windowStart e) now \<or> \<not> before now (add_time (windowStart e) (window l))
                   then e\<lparr>windowStart := now, failures := 0\<rparr> else e)"
  have "auth_explained True l ts e'" using ex auth_explained_restart pos by (auto simp: e'_def)
  moreover have "windowStart e' \<le> now" "now < windowStart e' + window l"
    using pos by (auto simp: e'_def after_def before_def add_time_def)
  moreover have "snd (count_auth_failure l now e) =
      (if threshold l \<le> failures e' + 1
       then e'\<lparr>failures := 0, blockedUntil := now + block l, windowStart := now + block l\<rparr>
       else e'\<lparr>failures := failures e' + 1\<rparr>)"
    unfolding count_auth_failure_def e'_def [symmetric] by (simp add: Let_def add_time_def)
  ultimately show ?thesis using auth_explained_step [of True l ts e' now] pos by simp
qed

text \<open>
  The overflow tests only that its window is not over. Its window starts at a failure, or where the last block ended, so
  when the failures came in the order of their clocks they are all within the window.
\<close>

definition auth_overflow :: "invalidAuthAbuseLimiter \<Rightarrow> time list \<Rightarrow> invalidAuthAbuseEntry \<Rightarrow> bool" where
  "auth_overflow l ts e \<longleftrightarrow> auth_explained False l ts e \<and> (sorted ts \<longrightarrow> auth_explained True l ts e) \<and>
     (windowStart e = 0 \<or> windowStart e \<in> set ts \<or> windowStart e = blockedUntil e)"

lemma auth_overflow_settings: "same_settings l l' \<Longrightarrow> auth_overflow l' ts e = auth_overflow l ts e"
  by (simp add: auth_overflow_def auth_explained_settings)

lemma auth_overflow_mono: "auth_overflow l ts e \<Longrightarrow> auth_overflow l (ts @ us) e"
  by (auto simp: auth_overflow_def sorted_append intro: auth_explained_mono)

lemma overflow_explained:
  assumes ex: "auth_overflow l ts (overflow l)" and pos: "0 < threshold l" "0 < window l"
  shows "auth_overflow l (ts @ [now]) (overflow (recordOverflow now l))"
proof (cases "after (blockedUntil (overflow l)) now")
  case True
  with ex show ?thesis by (simp add: recordOverflow_def auth_overflow_mono)
next
  case False
  define e' where "e' = (if is_zero (windowStart (overflow l)) \<or> \<not> before now (add_time (windowStart (overflow l)) (window l))
                   then (overflow l)\<lparr>windowStart := now, failures := 0\<rparr> else overflow l)"
  have e': "auth_explained False l ts e'" "sorted ts \<Longrightarrow> auth_explained True l ts e'"
    using ex auth_explained_restart pos unfolding auth_overflow_def by (auto simp: e'_def)
  have less: "now < windowStart e' + window l" using pos by (auto simp: e'_def before_def add_time_def)
  have begun: "windowStart e' \<le> now" if "sorted (ts @ [now])"
    using that ex False by (auto simp: auth_overflow_def e'_def is_zero_def zero_time_def after_def sorted_append)
  have start: "windowStart e' = now \<or> e' = overflow l" by (simp add: e'_def)
  let ?o = "overflow (recordOverflow now l)"
  have o: "?o =
      (if threshold l \<le> failures e' + 1
       then e'\<lparr>failures := 0, blockedUntil := now + block l, windowStart := now + block l\<rparr>
       else e'\<lparr>failures := failures e' + 1\<rparr>)"
    using False unfolding recordOverflow_def e'_def by (auto simp: Let_def add_time_def)
  have "auth_explained False l (ts @ [now]) ?o"
    using auth_explained_step [of False l ts e' now] e'(1) pos less o by simp
  moreover have "auth_explained True l (ts @ [now]) ?o" if "sorted (ts @ [now])"
  proof -
    have "sorted ts" using that by (simp add: sorted_append)
    then show ?thesis using auth_explained_step [of True l ts e' now] e'(2) pos less begun [OF that] o by simp
  qed
  moreover have "windowStart ?o = 0 \<or> windowStart ?o \<in> set (ts @ [now]) \<or> windowStart ?o = blockedUntil ?o"
    using start ex unfolding o auth_overflow_def by auto
  ultimately show ?thesis by (simp add: auth_overflow_def)
qed

subsection \<open>The invariant of the runs\<close>

definition limiter_inv :: "(string option \<times> time) list \<Rightarrow> invalidAuthAbuseLimiter \<Rightarrow> bool" where
  "limiter_inv h l \<longleftrightarrow> placed l \<and> counted l \<and> 0 < threshold l \<and> 0 < window l \<and>
     (\<forall>k e. entry_of k l = Some e \<longrightarrow> auth_explained True l (times_of (Some k) h) e) \<and>
     auth_overflow l (times_of None h) (overflow l)"

lemma limiter_invD:
  assumes "limiter_inv h l"
  shows "placed l" "counted l" "0 < threshold l" "0 < window l"
    "entry_of k l = Some e \<Longrightarrow> auth_explained True l (times_of (Some k) h) e" "auth_overflow l (times_of None h) (overflow l)"
  using assms unfolding limiter_inv_def by blast+

lemma limiter_inv_within:
  assumes inv: "limiter_inv h l" and l': "placed l'" "counted l'" "same_settings l l'" "entries_within l' l" "overflow l' = overflow l"
  shows "limiter_inv h l'"
proof -
  have "auth_explained True l' (times_of (Some k) h) e" if "entry_of k l' = Some e" for k e
  proof -
    from that l'(4) have "entry_of k l = Some e" by (simp add: entries_within_def)
    from limiter_invD(5) [OF inv this] show ?thesis by (simp add: auth_explained_settings [OF l'(3)])
  qed
  moreover have "auth_overflow l' (times_of None h) (overflow l')"
    using limiter_invD(6) [OF inv] by (simp add: auth_overflow_settings [OF l'(3)] l'(5))
  moreover have "threshold l' = threshold l" "window l' = window l" using l'(3) by (simp_all add: same_settings_def)
  ultimately show ?thesis using l'(1,2) limiter_invD(3,4) [OF inv] unfolding limiter_inv_def by metis
qed

text \<open>Counters that only count do not matter.\<close>

lemma limiter_inv_counters:
  "limiter_inv h (l\<lparr>recorded := a\<rparr>) = limiter_inv h l" "limiter_inv h (l\<lparr>rejected := a\<rparr>) = limiter_inv h l"
  "limiter_inv h (l\<lparr>globalBlocked := a\<rparr>) = limiter_inv h l" "limiter_inv h (l\<lparr>blocked := a\<rparr>) = limiter_inv h l"
  by (simp_all add: limiter_inv_def placed_def counted_def total_entries_def entry_of_def auth_overflow_def auth_explained_def block_caused_def
      in_window_def)

lemma times_of_snoc: "times_of k (h @ [(k', now)]) = times_of k h @ (if k = k' then [now] else [])"
  by (auto simp: times_of_def)

lemma limiter_inv_put:
  assumes inv: "limiter_inv h l" and ex: "auth_explained True l (times_of (Some k) h @ [now]) e"
    and l': "l' = l \<and> entry_of k l \<noteq> None \<or> l' = l\<lparr>tracked := tracked l + 1\<rparr> \<and> entry_of k l = None \<and> tracked l < capacity l"
  shows "limiter_inv (h @ [(Some k, now)]) (put_entry k e l')"
proof -
  have l1: "placed l'" "same_settings l l'" "overflow l' = overflow l" "entry_of k' l' = entry_of k' l"
    "total_entries l' = total_entries l" for k'
    using l' limiter_invD(1) [OF inv] unfolding placed_def
    by (elim disjE conjE; simp add: same_settings_def entry_of_def total_entries_def)+
  note put = put_facts [OF l1(1), where k = k and e = e]
  have same: "same_settings l (put_entry k e l')" using put(4) l1(2) by (simp add: same_settings_def)
  have "counted (put_entry k e l')"
    using l' put(6,7) limiter_invD(2) [OF inv] same l1(4,5) unfolding counted_def same_settings_def by auto
  moreover have "auth_explained True (put_entry k e l') (times_of (Some k') (h @ [(Some k, now)])) e'"
    if e': "entry_of k' (put_entry k e l') = Some e'" for k' e'
  proof (cases "k' = k")
    case True
    with e' put(2) have "e' = e" by simp
    with ex True show ?thesis by (simp add: auth_explained_settings [OF same] times_of_snoc)
  next
    case False
    with e' put(3) [OF False] l1(4) have "entry_of k' l = Some e'" by simp
    from limiter_invD(5) [OF inv this] False show ?thesis by (simp add: auth_explained_settings [OF same] times_of_snoc)
  qed
  moreover have "auth_overflow (put_entry k e l') (times_of None (h @ [(Some k, now)])) (overflow (put_entry k e l'))"
    using limiter_invD(6) [OF inv] put(5) l1(3) by (simp add: auth_overflow_settings [OF same] times_of_snoc)
  moreover have "0 < threshold (put_entry k e l')" "0 < window (put_entry k e l')"
    using same limiter_invD(3,4) [OF inv] by (simp_all add: same_settings_def)
  ultimately show ?thesis using put(1) unfolding limiter_inv_def by blast
qed

lemma count_auth_failure_settings: "same_settings l l' \<Longrightarrow> count_auth_failure l' now e = count_auth_failure l now e"
  by (simp add: count_auth_failure_def same_settings_def Let_def)

lemma limiter_inv_count:
  assumes inv: "limiter_inv h l" and ex: "auth_explained True l (times_of (Some k) h) e"
    and l': "l' = l \<and> entry_of k l \<noteq> None \<or> l' = l\<lparr>tracked := tracked l + 1\<rparr> \<and> entry_of k l = None \<and> tracked l < capacity l"
  shows "limiter_inv (h @ [(Some k, now)]) (count_shard k now e l')"
proof -
  have "same_settings l l'" using l' by (auto simp: same_settings_def)
  note cf = count_auth_failure_settings [OF this]
  have "auth_explained True l (times_of (Some k) h @ [now]) (snd (count_auth_failure l now e))"
    by (rule count_auth_explained [OF ex limiter_invD(3,4) [OF inv]])
  with limiter_inv_put [OF inv _ l'] auth_explained_mono [OF ex, of "[now]"] show ?thesis
    by (simp add: count_shard_put limiter_inv_counters cf)
qed

lemma record_shard_cases:
  assumes "placed l" "counted l" "record_shard k now l = (full, l')"
  obtains (full) "full" "current_entry k now l = (None, l')" "capacity l' \<le> tracked l'"
  | (found) e l1 where "\<not> full" "current_entry k now l = (Some e, l1)" "l' = count_shard k now e l1"
  | (new) l1 where "\<not> full" "current_entry k now l = (None, l1)" "tracked l1 < capacity l1"
      "l' = count_shard k now \<lparr>failures = 0, windowStart = now, blockedUntil = zero_time\<rparr> (l1\<lparr>tracked := tracked l1 + 1\<rparr>)"
proof -
  obtain en l1 where ce: "current_entry k now l = (en, l1)" by fastforce
  show ?thesis
  proof (cases en)
    case None
    with assms(3) ce show ?thesis
      by (cases "tracked l1 < capacity l1") (auto simp: record_shard_def reserveEntry_def intro: full new)
  next
    case (Some e)
    with assms(3) ce show ?thesis by (auto simp: record_shard_def intro: found)
  qed
qed

lemma limiter_inv_current:
  assumes "limiter_inv h l" "current_entry k now l = (found, l1)"
  shows "limiter_inv h l1"
  using limiter_inv_within [OF assms(1)] current_facts(1-5) [OF limiter_invD(1,2) [OF assms(1)] assms(2)] by blast

lemma limiter_inv_record:
  assumes inv: "limiter_inv h l" and rec: "record_shard k now l = (full, l')"
  shows "limiter_inv (if full then h else h @ [(Some k, now)]) l'"
  using limiter_invD(1,2) [OF inv] rec
proof (cases rule: record_shard_cases)
  case full
  with limiter_inv_current [OF inv] show ?thesis by simp
next
  case (found e l1)
  have inv1: "limiter_inv h l1" using inv found(2) by (rule limiter_inv_current)
  have e: "entry_of k l1 = Some e" using current_facts(6) [OF limiter_invD(1,2) [OF inv] found(2)] by simp
  from limiter_inv_count [OF inv1 limiter_invD(5) [OF inv1 e], of l1] e found show ?thesis by simp
next
  case (new l1)
  have inv1: "limiter_inv h l1" using inv new(2) by (rule limiter_inv_current)
  have e: "entry_of k l1 = None" using current_facts(6) [OF limiter_invD(1,2) [OF inv] new(2)] by simp
  from limiter_inv_count [OF inv1 auth_explained_fresh [OF limiter_invD(3) [OF inv1]], where k = k and now = now] e new show ?thesis
    by (simp add: zero_time_def)
qed

lemma limiter_inv_overflow:
  assumes "limiter_inv h l"
  shows "limiter_inv (h @ [(None, now)]) (recordOverflow now l)"
proof -
  have same: "same_settings l (recordOverflow now l)" "shards (recordOverflow now l) = shards l"
    "tracked (recordOverflow now l) = tracked l"
    by (simp_all add: recordOverflow_def Let_def same_settings_def)
  have entries: "entry_of k (recordOverflow now l) = entry_of k l" for k by (simp add: entry_of_def same(2))
  have "placed (recordOverflow now l)" "counted (recordOverflow now l)"
    "0 < threshold (recordOverflow now l)" "0 < window (recordOverflow now l)"
    using limiter_invD(1-4) [OF assms] same by (simp_all add: placed_def counted_def total_entries_def same_settings_def)
  moreover have "auth_overflow (recordOverflow now l) (times_of None (h @ [(None, now)])) (overflow (recordOverflow now l))"
    using overflow_explained [OF limiter_invD(6,3,4) [OF assms]] by (simp add: auth_overflow_settings [OF same(1)] times_of_snoc)
  moreover have "auth_explained True (recordOverflow now l) (times_of (Some k) (h @ [(None, now)])) e" if "entry_of k l = Some e" for k e
    using limiter_invD(5) [OF assms that] by (simp add: auth_explained_settings [OF same(1)] times_of_snoc)
  ultimately show ?thesis unfolding limiter_inv_def entries by blast
qed

lemma limiter_inv_new: "newInvalidAuthAbuseLimiter cfg = Some l \<Longrightarrow> limiter_inv [] l"
  using shard_less by (auto simp: newInvalidAuthAbuseLimiter_def limiter_inv_def placed_def counted_def total_entries_def
      entry_of_def auth_overflow_def auth_explained_def in_window_def second_def zero_time_def sum_list_replicate
      split: option.splits if_splits intro!: exI [of _ "[]"])

lemma check_shard_cases:
  assumes "check_shard k now l = (answer, absent, l')"
  obtains e l1 where "current_entry k now l = (Some e, l1)" "now < blockedUntil e" "answer = Some (sub_time (blockedUntil e) now, True)"
      "\<not> absent" "l' = l1\<lparr>rejected := rejected l1 + 1\<rparr>"
  | e where "current_entry k now l = (Some e, l')" "\<not> now < blockedUntil e" "answer = None" "\<not> absent"
  | "current_entry k now l = (None, l')" "answer = None" "absent"
  using assms by (auto simp: check_shard_def after_def split: prod.splits option.splits if_splits)

lemma limiter_inv_check:
  assumes "limiter_inv h l" "check_shard k now l = (answer, absent, l')"
  shows "limiter_inv h l'"
  using assms(2) by (cases rule: check_shard_cases) (auto simp: limiter_inv_counters intro: limiter_inv_current [OF assms(1)])

lemma auth_run_inv: "auth_run h l \<Longrightarrow> limiter_inv h l"
proof (induction rule: auth_run.induct)
  case (ar_new cfg l)
  then show ?case by (rule limiter_inv_new)
next
  case (ar_count h l)
  then show ?case by (simp add: limiter_inv_counters)
next
  case (ar_cleanup h l now)
  from limiter_inv_within [OF ar_cleanup.IH cleanup_facts(1-5) [OF limiter_invD(1,2) [OF ar_cleanup.IH]]] show ?case .
next
  case (ar_check h l k now)
  then show ?case by (metis limiter_inv_check prod_cases3 snd_conv)
next
  case (ar_check_overflow h l now)
  then show ?case by (auto simp: check_overflow_def limiter_inv_counters split: prod.splits)
next
  case (ar_record h l k now l')
  from limiter_inv_record [OF ar_record.IH ar_record.hyps(2)] show ?case by simp
next
  case (ar_full h l k now l')
  from limiter_inv_record [OF ar_full.IH ar_full.hyps(2)] show ?case by simp
next
  case (ar_overflow h l now)
  from limiter_inv_overflow [OF ar_overflow.IH] show ?case .
qed

subsection \<open>What the calls do to one client's entry\<close>

datatype auth_call = Fail string time | Query string time

fun call_time :: "auth_call \<Rightarrow> time" where
  "call_time (Fail k t) = t" | "call_time (Query k t) = t"

fun perform :: "auth_call \<Rightarrow> invalidAuthAbuseLimiter \<Rightarrow> invalidAuthAbuseLimiter" where
  "perform (Fail k t) l = record_failure k t l" | "perform (Query k t) l = snd (check k t l)"

definition sound :: "invalidAuthAbuseLimiter \<Rightarrow> bool" where "sound l \<longleftrightarrow> placed l \<and> counted l"

lemma sound_counters [simp]:
  "sound (l\<lparr>recorded := a\<rparr>) = sound l" "sound (l\<lparr>rejected := a\<rparr>) = sound l" "sound (l\<lparr>blocked := a\<rparr>) = sound l"
  "sound (l\<lparr>globalBlocked := a\<rparr>) = sound l" "sound (l\<lparr>overflowed := a\<rparr>) = sound l" "sound (l\<lparr>overflow := ov\<rparr>) = sound l"
  by (simp_all add: sound_def placed_def counted_def total_entries_def)

lemma entry_counters [simp]:
  "entry_of k (l\<lparr>recorded := a\<rparr>) = entry_of k l" "entry_of k (l\<lparr>rejected := a\<rparr>) = entry_of k l"
  "entry_of k (l\<lparr>blocked := a\<rparr>) = entry_of k l" "entry_of k (l\<lparr>globalBlocked := a\<rparr>) = entry_of k l"
  "entry_of k (l\<lparr>overflowed := a\<rparr>) = entry_of k l" "entry_of k (l\<lparr>overflow := ov\<rparr>) = entry_of k l"
  "entry_of k (l\<lparr>tracked := n\<rparr>) = entry_of k l"
  by (simp_all add: entry_of_def)

lemma same_refl: "same_settings l l" and same_trans: "same_settings l l' \<Longrightarrow> same_settings l' l'' \<Longrightarrow> same_settings l l''"
  by (simp_all add: same_settings_def)

lemma same_counters [simp]:
  "same_settings l (l'\<lparr>recorded := a\<rparr>) = same_settings l l'" "same_settings l (l'\<lparr>rejected := a\<rparr>) = same_settings l l'"
  "same_settings l (l'\<lparr>blocked := a\<rparr>) = same_settings l l'" "same_settings l (l'\<lparr>globalBlocked := a\<rparr>) = same_settings l l'"
  "same_settings l (l'\<lparr>overflowed := a\<rparr>) = same_settings l l'" "same_settings l (l'\<lparr>overflow := ov\<rparr>) = same_settings l l'"
  "same_settings l (l'\<lparr>tracked := n\<rparr>) = same_settings l l'"
  by (simp_all add: same_settings_def)

lemma expired_settings: "same_settings l l' \<Longrightarrow> entryExpired l' e now = entryExpired l e now"
  by (simp add: entryExpired_def same_settings_def)

text \<open>The limiter after the start of a call by some client, up to the look at its own entry.\<close>

lemma sound_current:
  assumes "sound l" "current_entry k now (maybeCleanupAtCapacity now l) = (found, l1)"
  shows "sound l1" "same_settings l l1" "found = entry_of k l1" "found = None \<Longrightarrow> entry_of k l = None \<or> (\<exists>e. entry_of k l = Some e \<and> entryExpired l e now)"
    "entry_of k' l = Some e \<Longrightarrow> \<not> entryExpired l e now \<Longrightarrow> entry_of k' l1 = Some e"
    "tracked l1 \<le> tracked l" "found = Some e1 \<Longrightarrow> entry_of k l = Some e1"
proof -
  let ?l = "maybeCleanupAtCapacity now l"
  have l: "placed l" "counted l" using assms(1) by (auto simp: sound_def)
  note cl = cleanup_facts [OF l] and cu = current_facts [OF cleanup_facts(1,2) [OF l] assms(2)]
  show "sound l1" "found = entry_of k l1" using cu by (simp_all add: sound_def)
  show "found = Some e1 \<Longrightarrow> entry_of k l = Some e1" using cl(4) cu(4,6) unfolding entries_within_def by metis
  show "same_settings l l1" using cl(3) cu(3) by (rule same_trans)
  show "tracked l1 \<le> tracked l" using cl(7) cu(9) by (rule order_trans [rotated])
  show keep: "entry_of k' l = Some e \<Longrightarrow> \<not> entryExpired l e now \<Longrightarrow> entry_of k' l1 = Some e" for k' e
    using cl(6) cu(6,7) cu(8) [of k'] expired_settings [OF cl(3)] by (cases "k' = k") auto
  show "found = None \<Longrightarrow> entry_of k l = None \<or> (\<exists>e. entry_of k l = Some e \<and> entryExpired l e now)"
    using keep [of k] cu(6) by (cases "entry_of k l") auto
qed

lemma count_shard_facts:
  assumes "placed l" and "entry_of k l \<noteq> None \<and> counted l \<and> l' = l \<or> entry_of k l = None \<and> counted l \<and> tracked l < capacity l \<and> l' = l\<lparr>tracked := tracked l + 1\<rparr>"
  shows "sound (count_shard k now e l')" "same_settings l (count_shard k now e l')"
    "entry_of k (count_shard k now e l') = Some (if after (blockedUntil e) now then e else snd (count_auth_failure l now e))"
    "k' \<noteq> k \<Longrightarrow> entry_of k' (count_shard k now e l') = entry_of k' l"
proof -
  have l': "placed l'" "same_settings l l'" "total_entries l' = total_entries l" "entry_of k' l' = entry_of k' l" for k'
    using assms by (auto simp: same_refl total_entries_def)
  have "sound (put_entry k e' l')" "same_settings l (put_entry k e' l')" for e'
    using put_facts [OF l'(1), where k = k and e = e'] assms(2) same_trans [OF l'(2)] l'
    by (auto simp: sound_def counted_def same_settings_def)
  then show "sound (count_shard k now e l')" "same_settings l (count_shard k now e l')"
    by (simp_all add: count_shard_put)
  show "entry_of k (count_shard k now e l') = Some (if after (blockedUntil e) now then e else snd (count_auth_failure l now e))"
    "k' \<noteq> k \<Longrightarrow> entry_of k' (count_shard k now e l') = entry_of k' l"
    using put_facts(2,3) [OF l'(1)] l'(4) by (simp_all add: count_shard_put count_auth_failure_settings [OF l'(2)])
qed

lemma record_facts:
  assumes "sound l"
  shows "sound (record_failure k now l)" "same_settings l (record_failure k now l)"
    "k' \<noteq> k \<Longrightarrow> entry_of k' l = Some e \<Longrightarrow> \<not> entryExpired l e now \<Longrightarrow> entry_of k' (record_failure k now l) = Some e"
    "k \<noteq> '''' \<Longrightarrow> entry_of k l = Some e \<Longrightarrow> \<not> entryExpired l e now \<Longrightarrow>
       entry_of k (record_failure k now l) = Some (if after (blockedUntil e) now then e else snd (count_auth_failure l now e))"
    "k \<noteq> '''' \<Longrightarrow> entry_of k l = None \<Longrightarrow> tracked l < capacity l \<Longrightarrow> \<not> after zero_time now \<Longrightarrow>
       entry_of k (record_failure k now l) = Some (snd (count_auth_failure l now \<lparr>failures = 0, windowStart = now, blockedUntil = zero_time\<rparr>))"
proof -
  let ?start = "l\<lparr>recorded := recorded l + 1\<rparr>" let ?l = "maybeCleanupAtCapacity now ?start"
  let ?r = "record_failure k now l"
  obtain full l2 where rs: "record_shard k now ?l = (full, l2)" by fastforce
  have l0: "sound ?start" "same_settings l ?start" using assms by (simp_all add: same_refl)
  then have l: "placed ?l" "counted ?l" using cleanup_facts(1,2) by (auto simp: sound_def)
  have none_full: "sound ?r \<and> same_settings l ?r \<and>
    (k' \<noteq> k \<longrightarrow> entry_of k' l = Some e \<longrightarrow> \<not> entryExpired l e now \<longrightarrow> entry_of k' ?r = Some e) \<and>
    (entry_of k l = Some e \<longrightarrow> \<not> entryExpired l e now \<longrightarrow>
       entry_of k ?r = Some (if after (blockedUntil e) now then e else snd (count_auth_failure l now e))) \<and>
    (entry_of k l = None \<longrightarrow> tracked l < capacity l \<longrightarrow> \<not> after zero_time now \<longrightarrow>
       entry_of k ?r = Some (snd (count_auth_failure l now \<lparr>failures = 0, windowStart = now, blockedUntil = zero_time\<rparr>)))"
    if k: "k \<noteq> ''''" for k' e
    using l rs
  proof (cases rule: record_shard_cases)
    case full
    note cu = sound_current [OF l0(1) full(2)]
    have "?r = recordOverflow now l2" using k rs full(1) by (simp add: record_failure_def)
    moreover have "entry_of k' (recordOverflow now l2) = entry_of k' l2" "sound (recordOverflow now l2) = sound l2"
      "same_settings l (recordOverflow now l2) = same_settings l l2" for k'
      by (simp_all add: recordOverflow_def Let_def)
    moreover have "same_settings l l2" using l0(2) cu(2) by (rule same_trans)
    moreover have "entryExpired ?start e now = entryExpired l e now" by (rule expired_settings [OF l0(2)])
    ultimately show ?thesis using cu full(3) by (auto simp: same_settings_def)
  next
    case (found e1 l1)
    note cu = sound_current [OF l0(1) found(2)]
    have r: "?r = count_shard k now e1 l1" using k rs found(1,3) by (simp add: record_failure_def)
    have same: "same_settings l l1" using l0(2) cu(2) by (rule same_trans)
    note cs = count_shard_facts [where l = l1 and k = k and l' = l1 and now = now and e = e1]
    have ex: "entryExpired ?start e now = entryExpired l e now" for e by (rule expired_settings [OF l0(2)])
    have before: "entry_of k l = Some e1" using cu(7) by simp
    have "placed l1" "counted l1" "entry_of k l1 = Some e1" using cu(1,3) by (simp_all add: sound_def)
    with cs have r': "sound ?r" "same_settings l1 ?r" "entry_of k ?r = Some (if after (blockedUntil e1) now then e1 else snd (count_auth_failure l1 now e1))"
      "k' \<noteq> k \<Longrightarrow> entry_of k' ?r = entry_of k' l1" for k' unfolding r by simp_all
    have "k' \<noteq> k \<Longrightarrow> entry_of k' l = Some e \<Longrightarrow> \<not> entryExpired l e now \<Longrightarrow> entry_of k' ?r = Some e"
      using r'(4) cu(5) [of k' e] ex by simp
    with r'(1,3) same_trans [OF same r'(2)] before show ?thesis by (simp add: count_auth_failure_settings [OF same])
  next
    case (new l1)
    note cu = sound_current [OF l0(1) new(2)]
    let ?e = "\<lparr>failures = 0, windowStart = now, blockedUntil = zero_time\<rparr>"
    have r: "?r = count_shard k now ?e (l1\<lparr>tracked := tracked l1 + 1\<rparr>)" using k rs new(1,4) by (simp add: record_failure_def)
    have same: "same_settings l l1" using l0(2) cu(2) by (rule same_trans)
    note cs = count_shard_facts [where l = l1 and k = k and l' = "l1\<lparr>tracked := tracked l1 + 1\<rparr>" and now = now and e = ?e]
    have ex: "entryExpired ?start e now = entryExpired l e now" for e by (rule expired_settings [OF l0(2)])
    have "placed l1" "counted l1" "entry_of k l1 = None" using cu(1,3) by (simp_all add: sound_def)
    with cs cu(4,5) ex new(3) same same_trans [OF same] show ?thesis
      unfolding r by (auto simp: count_auth_failure_settings [OF same])
  qed
  show "sound ?r" "same_settings l ?r" using none_full assms by (cases "k = ''''"; simp add: record_failure_def same_refl)+
  show "k' \<noteq> k \<Longrightarrow> entry_of k' l = Some e \<Longrightarrow> \<not> entryExpired l e now \<Longrightarrow> entry_of k' ?r = Some e"
    using none_full by (cases "k = ''''") (auto simp: record_failure_def)
  show "k \<noteq> '''' \<Longrightarrow> entry_of k l = Some e \<Longrightarrow> \<not> entryExpired l e now \<Longrightarrow>
       entry_of k ?r = Some (if after (blockedUntil e) now then e else snd (count_auth_failure l now e))"
    "k \<noteq> '''' \<Longrightarrow> entry_of k l = None \<Longrightarrow> tracked l < capacity l \<Longrightarrow> \<not> after zero_time now \<Longrightarrow>
       entry_of k ?r = Some (snd (count_auth_failure l now \<lparr>failures = 0, windowStart = now, blockedUntil = zero_time\<rparr>))"
    using none_full by blast+
qed

lemma check_facts:
  assumes "sound l"
  shows "sound (snd (check k now l))" "same_settings l (snd (check k now l))"
    "entry_of k' l = Some e \<Longrightarrow> \<not> entryExpired l e now \<Longrightarrow> entry_of k' (snd (check k now l)) = Some e"
    "k \<noteq> '''' \<Longrightarrow> entry_of k l = Some e \<Longrightarrow> now < blockedUntil e \<Longrightarrow> fst (check k now l) = (sub_time (blockedUntil e) now, True)"
proof -
  let ?l = "maybeCleanupAtCapacity now l"
  obtain answer absent l2 where cs: "check_shard k now ?l = (answer, absent, l2)" by (metis prod_cases3)
  have ov: "sound (snd (check_overflow now l2)) = sound l2" "same_settings l (snd (check_overflow now l2)) = same_settings l l2"
    "entry_of k' (snd (check_overflow now l2)) = entry_of k' l2" for k'
    by (simp_all add: check_overflow_def split: prod.splits)
  have l2: "sound l2 \<and> same_settings l l2 \<and> (entry_of k' l = Some e \<longrightarrow> \<not> entryExpired l e now \<longrightarrow> entry_of k' l2 = Some e)" for k' e
    using cs by (cases rule: check_shard_cases) (use sound_current(1,2,5) [OF assms] in \<open>auto\<close>)
  have unfold: "k \<noteq> '''' \<Longrightarrow> check k now l = (case answer of Some a \<Rightarrow> (a, l2) | None \<Rightarrow> if absent then check_overflow now l2 else ((0, False), l2))"
    by (simp add: check_def cs split: option.splits)
  show "sound (snd (check k now l))" "same_settings l (snd (check k now l))"
    "entry_of k' l = Some e \<Longrightarrow> \<not> entryExpired l e now \<Longrightarrow> entry_of k' (snd (check k now l)) = Some e"
    using l2 ov unfold assms by (cases "k = ''''"; cases answer; simp add: check_def same_refl)+
  show "fst (check k now l) = (sub_time (blockedUntil e) now, True)"
    if "k \<noteq> ''''" "entry_of k l = Some e" "now < blockedUntil e"
  proof -
    have "\<not> entryExpired l e now" using that(3) by (simp add: entryExpired_def after_def)
    then have "found = Some e" if "current_entry k now ?l = (found, l1)" for found l1
      using sound_current(3,5) [OF assms that] \<open>entry_of k l = Some e\<close> by metis
    with cs that(3) have "answer = Some (sub_time (blockedUntil e) now, True)"
      by (cases rule: check_shard_cases) fastforce+
    with unfold that(1) show ?thesis by simp
  qed
qed

subsection \<open>Properties\<close>

text \<open>C27: the limiter stays within its capacity however the calls interleave: the atomic counter is the number
  of entries, no client has two, and each client's entry is in the shard of its hash.\<close>

theorem tracked_is_exact:
  assumes "auth_run h l"
  shows "tracked l = int (total_entries l) \<and> tracked l \<le> capacity l \<and>
     (\<forall>i < invalidAuthAbuseShardCount. distinct (map fst (shards l ! i)) \<and> (\<forall>k \<in> fst ` set (shards l ! i). shard k = i))"
  using limiter_invD(1,2) [OF auth_run_inv [OF assms]] unfolding placed_def counted_def by blast

definition witness_limiter :: invalidAuthAbuseLimiter where
  "witness_limiter = the (newInvalidAuthAbuseLimiter (Some \<lparr>cfg_Enabled = True, cfg_Threshold = 2, cfg_WindowSeconds = 60,
     cfg_BlockSeconds = 5, cfg_Capacity = 1\<rparr>))"

lemma witness_limiter_run: "auth_run [] witness_limiter"
  by (rule ar_new [of "Some \<lparr>cfg_Enabled = True, cfg_Threshold = 2, cfg_WindowSeconds = 60, cfg_BlockSeconds = 5, cfg_Capacity = 1\<rparr>"])
    (simp add: witness_limiter_def newInvalidAuthAbuseLimiter_def)

theorem tracked_is_exact_witness:
  "total_entries (record_failure ''b'' 200 (record_failure ''a'' 100 witness_limiter)) = 1"
proof -
  obtain h where "auth_run h (record_failure ''b'' 200 (record_failure ''a'' 100 witness_limiter))"
    using record_is_run record_is_run [OF witness_limiter_run] by blast
  note exact = tracked_is_exact [OF this]
  have "tracked (record_failure ''b'' 200 (record_failure ''a'' 100 witness_limiter)) = 1" by code_simp
  with exact show ?thesis by simp
qed

text \<open>C22: nobody is turned away without cause. When a check rejects, the block it reports ends \<open>retry\<close> after now and goes
  back to as many recorded failures as the threshold, within one window: failures of this client, or failures of clients
  that found the limiter full, and then it is full. Of the latter, which are counted under a lock that does not order the
  clocks, the window is guaranteed when they were counted in the order of their clocks; else they only all came before
  the end of one window.\<close>

theorem rejection_has_cause:
  assumes "auth_run h l" and "check k now l = ((retry, True), l')" and "0 < now"
  shows "\<exists>b. now < b \<and> retry = sub_time b now \<and>
     (block_caused True l (times_of (Some k) h) b \<or>
      capacity l \<le> tracked l' \<and> block_caused False l (times_of None h) b \<and>
      (sorted (times_of None h) \<longrightarrow> block_caused True l (times_of None h) b))"
proof -
  let ?l = "maybeCleanupAtCapacity now l"
  have inv: "limiter_inv h ?l" using auth_run_inv [OF ar_cleanup [OF assms(1)]] .
  have same: "same_settings l ?l" using cleanup_facts(3) limiter_invD(1,2) auth_run_inv [OF assms(1)] by blast
  obtain answer absent l2 where cs: "check_shard k now ?l = (answer, absent, l2)" by (metis prod_cases3)
  have "k \<noteq> ''''" using assms(2) by (auto simp: check_def)
  with assms(2) cs have result: "(case answer of Some a \<Rightarrow> (a, l2) | None \<Rightarrow> if absent then check_overflow now l2 else ((0, False), l2)) = ((retry, True), l')"
    by (cases answer; cases absent) (auto simp: check_def cs)
  have caused: "block_caused strict l ts (blockedUntil e)" if "auth_explained strict l ts e" "now < blockedUntil e" for strict ts e
    using that assms(3) unfolding auth_explained_def by auto
  from cs show ?thesis
  proof (cases rule: check_shard_cases)
    case (1 e l1)
    note cu = current_facts [OF limiter_invD(1,2) [OF inv] 1(1)]
    have inv1: "limiter_inv h l1" using limiter_inv_current [OF inv 1(1)] .
    have "auth_explained True l1 (times_of (Some k) h) e" using limiter_invD(5) [OF inv1] cu(6) by simp
    then have "auth_explained True l (times_of (Some k) h) e"
      by (simp add: auth_explained_settings [OF same_trans [OF same cu(3)]])
    from caused [OF this 1(2)] show ?thesis using 1 result by auto
  next
    case (2 e)
    with result show ?thesis by simp
  next
    case 3
    note cu = current_facts [OF limiter_invD(1,2) [OF inv] 3(1)]
    have "auth_overflow l2 (times_of None h) (overflow l2)" using limiter_invD(6) [OF limiter_inv_current [OF inv 3(1)]] .
    then have "auth_overflow l (times_of None h) (overflow l2)"
      by (simp add: auth_overflow_settings [OF same_trans [OF same cu(3)]])
    then have ex: "auth_explained False l (times_of None h) (overflow l2)"
      "sorted (times_of None h) \<Longrightarrow> auth_explained True l (times_of None h) (overflow l2)" by (simp_all add: auth_overflow_def)
    have "capacity l2 = capacity l" using same_trans [OF same cu(3)] by (simp add: same_settings_def)
    with result 3(2,3) have "now < blockedUntil (overflow l2)" "retry = sub_time (blockedUntil (overflow l2)) now" "capacity l \<le> tracked l'"
      by (auto simp: check_overflow_def checkOverflow_def after_def split: if_splits)
    with caused [OF ex(1)] caused [OF ex(2)] show ?thesis by blast
  qed
qed

theorem rejection_has_cause_witness:
  "block_caused True witness_limiter [100, 200] 5000000200"
proof -
  let ?w = "witness_limiter"
  let ?l1 = "snd (record_shard ''a'' 100 ?w)" let ?l2 = "snd (record_shard ''a'' 200 ?l1)"
  have "fst (record_shard ''a'' 100 ?w) = False" "fst (record_shard ''a'' 200 ?l1) = False" by code_simp+
  from ar_record [OF ar_record [OF witness_limiter_run pair_of_fst [OF this(1)]] pair_of_fst [OF this(2)]]
  have run: "auth_run [(Some ''a'', 100), (Some ''a'', 200)] ?l2" by simp
  have "fst (check ''a'' 300 ?l2) = (4999999900, True)" by code_simp
  from rejection_has_cause [OF run pair_of_fst [OF this]] obtain b where
    b: "300 < b" "4999999900 = sub_time b 300"
      "block_caused True ?l2 [100, 200] b \<or> block_caused False ?l2 [] b" by (auto simp: times_of_def)
  have "b = 5000000200" using b(1,2) by (auto simp: sub_time_def min_int64_def max_int64_def)
  have settings: "threshold ?l2 = 2" "threshold ?w = 2" "window ?l2 = window ?w" "block ?l2 = block ?w" by code_simp+
  have "\<not> block_caused False ?l2 [] b" by (auto simp: block_caused_def settings)
  with b(3) \<open>b = 5000000200\<close> have "block_caused True ?l2 [100, 200] 5000000200" by blast
  then show ?thesis by (simp add: block_caused_def in_window_def settings)
qed

definition fails :: "string \<Rightarrow> auth_call list \<Rightarrow> nat" where
  "fails k calls = length (filter (\<lambda>c. \<exists>t. c = Fail k t) calls)"

lemma not_expired_in_window:
  "windowStart e = t0 \<Longrightarrow> t < t0 + window l \<Longrightarrow> \<not> entryExpired l e t"
  by (simp add: entryExpired_def after_def before_def add_time_def)

lemma count_in_window:
  assumes "windowStart e \<le> t" "t < windowStart e + window l"
  shows "snd (count_auth_failure l t e) =
    (if threshold l \<le> failures e + 1
     then e\<lparr>failures := 0, blockedUntil := t + block l, windowStart := t + block l\<rparr>
     else e\<lparr>failures := failures e + 1\<rparr>)"
  using assms by (simp add: count_auth_failure_def after_def before_def add_time_def Let_def)

lemma failures_add_up:
  assumes "sound l" "k \<noteq> ''''" "entry_of k l = Some \<lparr>failures = n, windowStart = t0, blockedUntil = zero_time\<rparr>" "0 < t0"
    and "n + int (fails k calls) < threshold l" "\<forall>c \<in> set calls. t0 \<le> call_time c \<and> call_time c < t0 + window l"
  shows "sound (fold perform calls l) \<and> same_settings l (fold perform calls l) \<and>
    entry_of k (fold perform calls l) = Some \<lparr>failures = n + int (fails k calls), windowStart = t0, blockedUntil = zero_time\<rparr>"
  using assms
proof (induction calls arbitrary: l n)
  case Nil
  then show ?case by (simp add: same_refl fails_def)
next
  case (Cons c calls)
  let ?e = "\<lambda>n. \<lparr>failures = n, windowStart = t0, blockedUntil = zero_time\<rparr>"
  define m where "m = n + int (fails k [c])"
  have time: "t0 \<le> call_time c" "call_time c < t0 + window l" and rest: "\<forall>c \<in> set calls. t0 \<le> call_time c \<and> call_time c < t0 + window l"
    using Cons.prems(6) by auto
  have alive: "\<not> entryExpired l (?e n) (call_time c)" using time by (intro not_expired_in_window [of _ t0]) auto
  have split: "int (fails k (c # calls)) = int (fails k [c]) + int (fails k calls)" by (auto simp: fails_def)
  have step: "sound (perform c l) \<and> same_settings l (perform c l) \<and> entry_of k (perform c l) = Some (?e m)"
  proof (cases c)
    case (Fail k' t)
    show ?thesis
    proof (cases "k' = k")
      case True
      have "m = n + 1" using Fail True by (simp add: m_def fails_def)
      moreover have "m < threshold l" using Cons.prems(5) split by (simp add: m_def)
      ultimately show ?thesis
        using record_facts(1,2,4) [OF Cons.prems(1), where k = k and now = t] Cons.prems(2-4) alive Fail True time
        by (simp add: count_in_window zero_time_def after_def)
    next
      case False
      then have "m = n" using Fail by (simp add: m_def fails_def)
      then show ?thesis using record_facts(1,2) [OF Cons.prems(1)] record_facts(3) [OF Cons.prems(1), of k k' "?e n" t]
          Cons.prems(3) alive Fail False by simp
    qed
  next
    case (Query k' t)
    then have "m = n" by (simp add: m_def fails_def)
    then show ?thesis
      using check_facts(1,2) [OF Cons.prems(1)] check_facts(3) [OF Cons.prems(1), of k "?e n" t k'] Cons.prems(3) alive Query by simp
  qed
  then have eqs: "threshold (perform c l) = threshold l" "window (perform c l) = window l" by (simp_all add: same_settings_def)
  have "sound (fold perform calls (perform c l)) \<and> same_settings (perform c l) (fold perform calls (perform c l)) \<and>
    entry_of k (fold perform calls (perform c l)) = Some (?e (m + int (fails k calls)))"
    using Cons.IH [of "perform c l" m] step Cons.prems(2,4,5) rest split unfolding eqs m_def by linarith
  with step same_trans show ?case unfolding split m_def by (auto simp: add.assoc)
qed



end
