(* ===== verification/ResponsesStream.thy ===== *)
theory ResponsesStream
  imports Prelude
begin

section \<open>Responses events turned into Anthropic events\<close>

text \<open>
  Models \<^verbatim>\<open>src/backend/internal/pkg/apicompat/responses_to_anthropic.go\<close>: the converter of a whole response
  and the stateful converter of a stream. The records hold the fields of the Go structs (in \<^verbatim>\<open>types.go\<close>) that
  this file reads or writes; a pointer field is an option, and the \<open>zero_\<dots>\<close> constants are Go's zero values. A handler
  takes the state and returns the events with the new state. \<^verbatim>\<open>json.RawMessage\<close> is its text. What the code uses of
  \<^verbatim>\<open>encoding/json\<close> is the record \<open>raw_json\<close>, on which nothing is assumed.
\<close>

subsection \<open>Data\<close>

record AnthropicContentBlock =
  cb_Type :: string
  cb_Text :: string
  cb_Thinking :: string
  cb_Signature :: string
  cb_ID :: string
  cb_Name :: string
  cb_Input :: string
  cb_ToolUseID :: string
  cb_Content :: string

record AnthropicUsage =
  au_InputTokens :: int
  au_OutputTokens :: int
  au_CacheCreationInputTokens :: int
  au_CacheReadInputTokens :: int

record AnthropicResponse =
  ar_ID :: string
  ar_Type :: string
  ar_Role :: string
  ar_Content :: "AnthropicContentBlock list"
  ar_Model :: string
  ar_StopReason :: "string option"
  ar_Usage :: AnthropicUsage

record AnthropicDelta =
  d_Type :: string
  d_Text :: string
  d_PartialJSON :: string
  d_Thinking :: string
  d_Signature :: string
  d_StopReason :: string

record AnthropicStreamEvent =
  ev_Type :: string
  ev_Message :: "AnthropicResponse option"
  ev_Index :: "int option"
  ev_ContentBlock :: "AnthropicContentBlock option"
  ev_Delta :: "AnthropicDelta option"
  ev_Usage :: "AnthropicUsage option"

record ResponsesUsage =
  ru_InputTokens :: int
  ru_OutputTokens :: int
  ru_CacheCreationInputTokens :: int
  ru_CachedTokens :: "int option"

record ResponsesContentPart =
  cp_Type :: string
  cp_Text :: string

record ResponsesSummary =
  su_Type :: string
  su_Text :: string

record ResponsesOutput =
  ro_Type :: string
  ro_ID :: string
  ro_Content :: "ResponsesContentPart list"
  ro_Status :: string
  ro_EncryptedContent :: string
  ro_Summary :: "ResponsesSummary list"
  ro_CallID :: string
  ro_Name :: string
  ro_Arguments :: string
  ro_Query :: "string option"

record ResponsesResponse =
  rr_ID :: string
  rr_Model :: string
  rr_Status :: string
  rr_Output :: "ResponsesOutput list"
  rr_Usage :: "ResponsesUsage option"
  rr_IncompleteReason :: "string option"

record ResponsesStreamEvent =
  rs_Type :: string
  rs_Response :: "ResponsesResponse option"
  rs_Usage :: "ResponsesUsage option"
  rs_Item :: "ResponsesOutput option"
  rs_OutputIndex :: int
  rs_Delta :: string
  rs_Arguments :: string

definition zero_block :: AnthropicContentBlock where
  "zero_block = \<lparr>cb_Type = '''', cb_Text = '''', cb_Thinking = '''', cb_Signature = '''', cb_ID = '''', cb_Name = '''',
     cb_Input = '''', cb_ToolUseID = '''', cb_Content = ''''\<rparr>"

definition zero_usage :: AnthropicUsage where
  "zero_usage = \<lparr>au_InputTokens = 0, au_OutputTokens = 0, au_CacheCreationInputTokens = 0, au_CacheReadInputTokens = 0\<rparr>"

definition zero_delta :: AnthropicDelta where
  "zero_delta = \<lparr>d_Type = '''', d_Text = '''', d_PartialJSON = '''', d_Thinking = '''', d_Signature = '''', d_StopReason = ''''\<rparr>"

definition zero_event :: AnthropicStreamEvent where
  "zero_event = \<lparr>ev_Type = '''', ev_Message = None, ev_Index = None, ev_ContentBlock = None, ev_Delta = None, ev_Usage = None\<rparr>"

text \<open>The calls of \<^verbatim>\<open>encoding/json\<close>: \<^verbatim>\<open>Valid\<close>, \<^verbatim>\<open>Unmarshal\<close> into a map of raw messages, \<^verbatim>\<open>Marshal\<close> of such a map
  (which may fail), of a map with the one key \<^verbatim>\<open>query\<close> and of an event.\<close>

record raw_json =
  json_Valid :: "string \<Rightarrow> bool"
  json_object :: "string \<Rightarrow> (string \<rightharpoonup> string) option"
  json_Marshal :: "(string \<rightharpoonup> string) \<Rightarrow> string option"
  json_query :: "string \<Rightarrow> string"
  json_event :: "AnthropicStreamEvent \<Rightarrow> string + string"

subsection \<open>Whole responses\<close>

definition cut_prefix :: "string \<Rightarrow> string \<Rightarrow> string option" where
  "cut_prefix p s = (if take (length p) s = p then Some (drop (length p) s) else None)"

definition fromResponsesCallID :: "string \<Rightarrow> string" where
  "fromResponsesCallID i =
     (case cut_prefix ''fc_'' i of
        Some rest \<Rightarrow> if take 6 rest = ''toolu_'' \<or> take 5 rest = ''call_'' then rest else i
      | None \<Rightarrow> i)"

definition sanitizeAnthropicToolUseInput :: "raw_json \<Rightarrow> string \<Rightarrow> string \<Rightarrow> string" where
  "sanitizeAnthropicToolUseInput J name raw =
     (if name \<noteq> ''Read'' \<or> raw = '''' then raw
      else case json_object J raw of
        None \<Rightarrow> raw
      | Some input \<Rightarrow>
          if input ''pages'' \<noteq> Some [CHR 34, CHR 34] then raw
          else (case json_Marshal J (input(''pages'' := None)) of
                  None \<Rightarrow> raw
                | Some sanitized \<Rightarrow> sanitized))"

definition anthropicUsageFromResponsesUsage :: "ResponsesUsage option \<Rightarrow> AnthropicUsage" where
  "anthropicUsageFromResponsesUsage usage =
     (case usage of
        None \<Rightarrow> zero_usage
      | Some u \<Rightarrow>
          (let cachedTokens = (case ru_CachedTokens u of None \<Rightarrow> 0 | Some n \<Rightarrow> n);
               inputTokens = ru_InputTokens u - cachedTokens - ru_CacheCreationInputTokens u;
               inputTokens = (if inputTokens < 0 then 0 else inputTokens)
           in \<lparr>au_InputTokens = inputTokens, au_OutputTokens = ru_OutputTokens u,
               au_CacheCreationInputTokens = ru_CacheCreationInputTokens u, au_CacheReadInputTokens = cachedTokens\<rparr>))"

definition containsAnthropicToolUseBlock :: "AnthropicContentBlock list \<Rightarrow> bool" where
  "containsAnthropicToolUseBlock blocks \<longleftrightarrow> list_ex (\<lambda>b. cb_Type b = ''tool_use'') blocks"

definition responsesStatusToAnthropicStopReason :: "string \<Rightarrow> string option \<Rightarrow> AnthropicContentBlock list \<Rightarrow> string" where
  "responsesStatusToAnthropicStopReason status reason blocks =
     (if status = ''incomplete'' then if reason = Some ''max_output_tokens'' then ''max_tokens'' else ''end_turn''
      else if status = ''completed'' then if containsAnthropicToolUseBlock blocks then ''tool_use'' else ''end_turn''
      else ''end_turn'')"

definition summary_text :: "ResponsesSummary list \<Rightarrow> string" where
  "summary_text ss = concat (map su_Text (filter (\<lambda>s. su_Type s = ''summary_text'' \<and> su_Text s \<noteq> '''') ss))"

definition web_search_blocks :: "raw_json \<Rightarrow> ResponsesOutput \<Rightarrow> AnthropicContentBlock list" where
  "web_search_blocks J item =
     (let toolUseID = ''srvtoolu_'' @ ro_ID item;
          query = (case ro_Query item of None \<Rightarrow> '''' | Some q \<Rightarrow> q)
      in [zero_block\<lparr>cb_Type := ''server_tool_use'', cb_ID := toolUseID, cb_Name := ''web_search'', cb_Input := json_query J query\<rparr>,
          zero_block\<lparr>cb_Type := ''web_search_tool_result'', cb_ToolUseID := toolUseID, cb_Content := ''[]''\<rparr>])"

definition output_blocks :: "raw_json \<Rightarrow> ResponsesOutput \<Rightarrow> AnthropicContentBlock list" where
  "output_blocks J item =
     (if ro_Type item = ''reasoning'' then
        (if summary_text (ro_Summary item) \<noteq> '''' \<or> trim_space (ro_EncryptedContent item) \<noteq> ''''
         then [zero_block\<lparr>cb_Type := ''thinking'', cb_Thinking := summary_text (ro_Summary item),
                 cb_Signature := ro_EncryptedContent item\<rparr>] else [])
      else if ro_Type item = ''message'' then
        map (\<lambda>p. zero_block\<lparr>cb_Type := ''text'', cb_Text := cp_Text p\<rparr>)
          (filter (\<lambda>p. cp_Type p = ''output_text'' \<and> cp_Text p \<noteq> '''') (ro_Content item))
      else if ro_Type item = ''function_call'' then
        [zero_block\<lparr>cb_Type := ''tool_use'', cb_ID := fromResponsesCallID (ro_CallID item), cb_Name := ro_Name item,
           cb_Input := sanitizeAnthropicToolUseInput J (ro_Name item) (ro_Arguments item)\<rparr>]
      else if ro_Type item = ''web_search_call'' then web_search_blocks J item
      else [])"

definition ResponsesToAnthropic :: "raw_json \<Rightarrow> ResponsesResponse \<Rightarrow> string \<Rightarrow> AnthropicResponse" where
  "ResponsesToAnthropic J resp model =
     (let blocks = concat (map (output_blocks J) (rr_Output resp));
          blocks = (if blocks = [] then [zero_block\<lparr>cb_Type := ''text''\<rparr>] else blocks)
      in \<lparr>ar_ID = rr_ID resp, ar_Type = ''message'', ar_Role = ''assistant'', ar_Content = blocks, ar_Model = model,
          ar_StopReason = Some (responsesStatusToAnthropicStopReason (rr_Status resp) (rr_IncompleteReason resp) blocks),
          ar_Usage = (if rr_Usage resp \<noteq> None then anthropicUsageFromResponsesUsage (rr_Usage resp) else zero_usage)\<rparr>)"

subsection \<open>The state of a stream\<close>

record ResponsesEventToAnthropicState =
  MessageStartSent :: bool
  MessageStopSent :: bool
  ContentBlockIndex :: int
  ContentBlockOpen :: bool
  CurrentBlockType :: string
  CurrentToolName :: string
  CurrentToolArgs :: string
  CurrentToolHadDelta :: bool
  PendingThinkingSignature :: string
  HasToolCall :: bool
  OutputIndexToBlockIdx :: "int \<rightharpoonup> int"
  InputTokens :: int
  OutputTokens :: int
  CacheReadInputTokens :: int
  CacheCreationInputTokens :: int
  ResponseID :: string
  Model :: string
  Created :: int

type_synonym handler = "ResponsesEventToAnthropicState \<Rightarrow> AnthropicStreamEvent list \<times> ResponsesEventToAnthropicState"

definition NewResponsesEventToAnthropicState :: "int \<Rightarrow> ResponsesEventToAnthropicState" where
  "NewResponsesEventToAnthropicState unix =
     \<lparr>MessageStartSent = False, MessageStopSent = False, ContentBlockIndex = 0, ContentBlockOpen = False,
      CurrentBlockType = '''', CurrentToolName = '''', CurrentToolArgs = '''', CurrentToolHadDelta = False,
      PendingThinkingSignature = '''', HasToolCall = False, OutputIndexToBlockIdx = Map.empty, InputTokens = 0,
      OutputTokens = 0, CacheReadInputTokens = 0, CacheCreationInputTokens = 0, ResponseID = '''', Model = '''', Created = unix\<rparr>"

definition block_start :: "int \<Rightarrow> AnthropicContentBlock \<Rightarrow> AnthropicStreamEvent" where
  "block_start idx b = zero_event\<lparr>ev_Type := ''content_block_start'', ev_Index := Some idx, ev_ContentBlock := Some b\<rparr>"
definition block_delta :: "int \<Rightarrow> AnthropicDelta \<Rightarrow> AnthropicStreamEvent" where
  "block_delta idx d = zero_event\<lparr>ev_Type := ''content_block_delta'', ev_Index := Some idx, ev_Delta := Some d\<rparr>"
definition block_stop :: "int \<Rightarrow> AnthropicStreamEvent" where
  "block_stop idx = zero_event\<lparr>ev_Type := ''content_block_stop'', ev_Index := Some idx\<rparr>"

definition state_usage :: "ResponsesEventToAnthropicState \<Rightarrow> AnthropicUsage" where
  "state_usage state = \<lparr>au_InputTokens = InputTokens state, au_OutputTokens = OutputTokens state,
     au_CacheCreationInputTokens = CacheCreationInputTokens state, au_CacheReadInputTokens = CacheReadInputTokens state\<rparr>"

definition message_end :: "string \<Rightarrow> ResponsesEventToAnthropicState \<Rightarrow> AnthropicStreamEvent list" where
  "message_end stopReason state =
     [zero_event\<lparr>ev_Type := ''message_delta'', ev_Delta := Some (zero_delta\<lparr>d_StopReason := stopReason\<rparr>),
        ev_Usage := Some (state_usage state)\<rparr>,
      zero_event\<lparr>ev_Type := ''message_stop''\<rparr>]"

subsection \<open>Handlers\<close>

definition closeCurrentBlock :: handler where
  "closeCurrentBlock state =
     (if \<not> ContentBlockOpen state then ([], state)
      else
        (let idx = ContentBlockIndex state;
             sig = trim_space (PendingThinkingSignature state);
             thinking = (CurrentBlockType state = ''thinking'');
             events = (if thinking \<and> sig \<noteq> ''''
                       then [block_delta idx (zero_delta\<lparr>d_Type := ''signature_delta'', d_Signature := sig\<rparr>)] else []);
             state = (if thinking then state\<lparr>PendingThinkingSignature := ''''\<rparr> else state)
         in (events @ [block_stop idx],
             state\<lparr>ContentBlockOpen := False, ContentBlockIndex := ContentBlockIndex state + 1, CurrentToolName := '''',
                   CurrentToolArgs := '''', CurrentToolHadDelta := False\<rparr>)))"

definition resToAnthHandleCreated :: "ResponsesStreamEvent \<Rightarrow> handler" where
  "resToAnthHandleCreated evt state =
     (let state = (case rs_Response evt of
                     None \<Rightarrow> state
                   | Some r \<Rightarrow> (let state = state\<lparr>ResponseID := rr_ID r\<rparr>
                                in if Model state = '''' then state\<lparr>Model := rr_Model r\<rparr> else state))
      in if MessageStartSent state then ([], state)
         else ([zero_event\<lparr>ev_Type := ''message_start'',
                  ev_Message := Some \<lparr>ar_ID = ResponseID state, ar_Type = ''message'', ar_Role = ''assistant'', ar_Content = [],
                    ar_Model = Model state, ar_StopReason = None, ar_Usage = zero_usage\<rparr>\<rparr>],
               state\<lparr>MessageStartSent := True\<rparr>))"

definition resToAnthHandleOutputItemAdded :: "ResponsesStreamEvent \<Rightarrow> handler" where
  "resToAnthHandleOutputItemAdded evt state =
     (case rs_Item evt of
        None \<Rightarrow> ([], state)
      | Some item \<Rightarrow>
          if ro_Type item = ''function_call'' \<or> ro_Type item = ''custom_tool_call'' then
            (let (events, state) = closeCurrentBlock state;
                 idx = ContentBlockIndex state
             in (events @ [block_start idx (zero_block\<lparr>cb_Type := ''tool_use'', cb_ID := fromResponsesCallID (ro_CallID item),
                    cb_Name := ro_Name item, cb_Input := ''{}''\<rparr>)],
                 state\<lparr>OutputIndexToBlockIdx := (OutputIndexToBlockIdx state)(rs_OutputIndex evt \<mapsto> idx),
                       ContentBlockOpen := True, CurrentBlockType := ''tool_use'', CurrentToolName := ro_Name item,
                       CurrentToolArgs := '''', CurrentToolHadDelta := False, HasToolCall := True\<rparr>))
          else if ro_Type item = ''reasoning'' then
            (let (events, state) = closeCurrentBlock state;
                 idx = ContentBlockIndex state
             in (events @ [block_start idx (zero_block\<lparr>cb_Type := ''thinking'', cb_Thinking := ''''\<rparr>)],
                 state\<lparr>OutputIndexToBlockIdx := (OutputIndexToBlockIdx state)(rs_OutputIndex evt \<mapsto> idx),
                       ContentBlockOpen := True, CurrentBlockType := ''thinking'',
                       PendingThinkingSignature := trim_space (ro_EncryptedContent item)\<rparr>))
          else ([], state))"

definition resToAnthHandleTextDelta :: "ResponsesStreamEvent \<Rightarrow> handler" where
  "resToAnthHandleTextDelta evt state =
     (if rs_Delta evt = '''' then ([], state)
      else
        (let (events, state) =
               (if \<not> ContentBlockOpen state \<or> CurrentBlockType state \<noteq> ''text''
                then (let (events, state) = closeCurrentBlock state;
                          idx = ContentBlockIndex state
                      in (events @ [block_start idx (zero_block\<lparr>cb_Type := ''text'', cb_Text := ''''\<rparr>)],
                          state\<lparr>ContentBlockOpen := True, CurrentBlockType := ''text''\<rparr>))
                else ([], state));
             idx = ContentBlockIndex state
         in (events @ [block_delta idx (zero_delta\<lparr>d_Type := ''text_delta'', d_Text := rs_Delta evt\<rparr>)], state)))"

definition json_delta :: "int \<Rightarrow> string \<Rightarrow> AnthropicStreamEvent" where
  "json_delta idx s = block_delta idx (zero_delta\<lparr>d_Type := ''input_json_delta'', d_PartialJSON := s\<rparr>)"

definition resToAnthHandleFuncArgsDelta :: "raw_json \<Rightarrow> ResponsesStreamEvent \<Rightarrow> handler" where
  "resToAnthHandleFuncArgsDelta J evt state =
     (if rs_Delta evt = '''' then ([], state)
      else if CurrentBlockType state = ''tool_use'' \<and> CurrentToolName state = ''Read'' then
        (let state = state\<lparr>CurrentToolArgs := CurrentToolArgs state @ rs_Delta evt\<rparr>
         in if CurrentToolHadDelta state \<or> \<not> json_Valid J (CurrentToolArgs state) then ([], state)
            else (case OutputIndexToBlockIdx state (rs_OutputIndex evt) of
                    None \<Rightarrow> ([], state)
                  | Some blockIdx \<Rightarrow>
                      ([json_delta blockIdx (sanitizeAnthropicToolUseInput J (CurrentToolName state) (CurrentToolArgs state))],
                       state\<lparr>CurrentToolHadDelta := True\<rparr>)))
      else
        (let state = (if CurrentBlockType state = ''tool_use'' then state\<lparr>CurrentToolHadDelta := True\<rparr> else state)
         in case OutputIndexToBlockIdx state (rs_OutputIndex evt) of
              None \<Rightarrow> ([], state)
            | Some blockIdx \<Rightarrow> ([json_delta blockIdx (rs_Delta evt)], state)))"

definition resToAnthHandleBlockDone :: handler where
  "resToAnthHandleBlockDone state = (if \<not> ContentBlockOpen state then ([], state) else closeCurrentBlock state)"

definition resToAnthHandleFuncArgsDone :: "raw_json \<Rightarrow> ResponsesStreamEvent \<Rightarrow> handler" where
  "resToAnthHandleFuncArgsDone J evt state =
     (if \<not> ContentBlockOpen state then ([], state)
      else if CurrentBlockType state \<noteq> ''tool_use'' then resToAnthHandleBlockDone state
      else
        (let raw = (if rs_Arguments evt = '''' then CurrentToolArgs state else rs_Arguments evt)
         in if raw = '''' \<or> CurrentToolHadDelta state then closeCurrentBlock state
            else if CurrentToolName state = ''Read'' \<and> sanitizeAnthropicToolUseInput J (CurrentToolName state) raw = ''''
            then closeCurrentBlock state
            else
              (let raw = (if CurrentToolName state = ''Read''
                          then sanitizeAnthropicToolUseInput J (CurrentToolName state) raw else raw);
                   blockIdx = (case OutputIndexToBlockIdx state (rs_OutputIndex evt) of
                                 None \<Rightarrow> ContentBlockIndex state | Some i \<Rightarrow> i)
               in if \<not> ContentBlockOpen state \<or> blockIdx \<noteq> ContentBlockIndex state then ([], state)
                  else (let (events, state) = closeCurrentBlock state in (json_delta blockIdx raw # events, state)))))"

definition resToAnthHandleReasoningDelta :: "ResponsesStreamEvent \<Rightarrow> handler" where
  "resToAnthHandleReasoningDelta evt state =
     (if rs_Delta evt = '''' then ([], state)
      else case OutputIndexToBlockIdx state (rs_OutputIndex evt) of
             None \<Rightarrow> ([], state)
           | Some blockIdx \<Rightarrow>
               ([block_delta blockIdx (zero_delta\<lparr>d_Type := ''thinking_delta'', d_Thinking := rs_Delta evt\<rparr>)], state))"

definition resToAnthHandleWebSearchDone :: "raw_json \<Rightarrow> ResponsesOutput \<Rightarrow> handler" where
  "resToAnthHandleWebSearchDone J item state =
     (let (events, state) = closeCurrentBlock state;
          idx1 = ContentBlockIndex state;
          events = events @ [block_start idx1 (web_search_blocks J item ! 0), block_stop idx1];
          state = state\<lparr>ContentBlockIndex := ContentBlockIndex state + 1\<rparr>;
          idx2 = ContentBlockIndex state;
          events = events @ [block_start idx2 (web_search_blocks J item ! 1), block_stop idx2];
          state = state\<lparr>ContentBlockIndex := ContentBlockIndex state + 1\<rparr>
      in (events, state))"

definition resToAnthHandleOutputItemDone :: "raw_json \<Rightarrow> ResponsesStreamEvent \<Rightarrow> handler" where
  "resToAnthHandleOutputItemDone J evt state =
     (case rs_Item evt of
        None \<Rightarrow> ([], state)
      | Some item \<Rightarrow>
          if ro_Type item = ''web_search_call'' \<and> ro_Status item = ''completed''
          then resToAnthHandleWebSearchDone J item state
          else
            (let state = (if ro_Type item = ''reasoning'' \<and> trim_space (ro_EncryptedContent item) \<noteq> ''''
                          then state\<lparr>PendingThinkingSignature := trim_space (ro_EncryptedContent item)\<rparr> else state)
             in if ContentBlockOpen state then closeCurrentBlock state else ([], state)))"

definition set_usage :: "AnthropicUsage \<Rightarrow> ResponsesEventToAnthropicState \<Rightarrow> ResponsesEventToAnthropicState" where
  "set_usage usage state =
     state\<lparr>InputTokens := au_InputTokens usage, OutputTokens := au_OutputTokens usage,
           CacheReadInputTokens := au_CacheReadInputTokens usage, CacheCreationInputTokens := au_CacheCreationInputTokens usage\<rparr>"

definition resToAnthHandleCompleted :: "ResponsesStreamEvent \<Rightarrow> handler" where
  "resToAnthHandleCompleted evt state =
     (if MessageStopSent state then ([], state)
      else
        (let (events, state) = closeCurrentBlock state;
             state = (if rs_Usage evt \<noteq> None then set_usage (anthropicUsageFromResponsesUsage (rs_Usage evt)) state else state);
             (stopReason, state) =
               (case rs_Response evt of
                  None \<Rightarrow> (''end_turn'', state)
                | Some r \<Rightarrow>
                    (let state = (if rr_Usage r \<noteq> None then set_usage (anthropicUsageFromResponsesUsage (rr_Usage r)) state
                                  else state)
                     in (if rr_Status r = ''incomplete''
                         then (if rr_IncompleteReason r = Some ''max_output_tokens'' then ''max_tokens'' else ''end_turn'')
                         else if rr_Status r = ''completed''
                         then (if HasToolCall state then ''tool_use'' else ''end_turn'')
                         else ''end_turn'',
                         state)))
         in (events @ message_end stopReason state, state\<lparr>MessageStopSent := True\<rparr>)))"

definition ResponsesEventToAnthropicEvents :: "raw_json \<Rightarrow> ResponsesStreamEvent \<Rightarrow> handler" where
  "ResponsesEventToAnthropicEvents J evt state =
     (let t = rs_Type evt
      in if t = ''response.created'' then resToAnthHandleCreated evt state
         else if t = ''response.output_item.added'' then resToAnthHandleOutputItemAdded evt state
         else if t = ''response.output_text.delta'' then resToAnthHandleTextDelta evt state
         else if t = ''response.output_text.done'' then resToAnthHandleBlockDone state
         else if t = ''response.function_call_arguments.delta'' \<or> t = ''response.custom_tool_call_input.delta''
         then resToAnthHandleFuncArgsDelta J evt state
         else if t = ''response.function_call_arguments.done'' then resToAnthHandleFuncArgsDone J evt state
         else if t = ''response.output_item.done'' then resToAnthHandleOutputItemDone J evt state
         else if t = ''response.reasoning_summary_text.delta'' \<or> t = ''response.reasoning_text.delta''
         then resToAnthHandleReasoningDelta evt state
         else if t = ''response.reasoning_summary_text.done'' then ([], state)
         else if t = ''response.completed'' \<or> t = ''response.done'' \<or> t = ''response.incomplete'' \<or> t = ''response.failed''
         then resToAnthHandleCompleted evt state
         else ([], state))"

definition FinalizeResponsesAnthropicStream :: handler where
  "FinalizeResponsesAnthropicStream state =
     (if \<not> MessageStartSent state \<or> MessageStopSent state then ([], state)
      else
        (let (events, state) = closeCurrentBlock state;
             stopReason = (if HasToolCall state then ''tool_use'' else ''end_turn'')
         in (events @ message_end stopReason state, state\<lparr>MessageStopSent := True\<rparr>)))"

definition ResponsesAnthropicEventToSSE :: "raw_json \<Rightarrow> AnthropicStreamEvent \<Rightarrow> string + string" where
  "ResponsesAnthropicEventToSSE J evt =
     (case json_event J evt of
        Inl err \<Rightarrow> Inl err
      | Inr data \<Rightarrow> Inr (''event: '' @ ev_Type evt @ [CHR 10] @ ''data: '' @ data @ [CHR 10, CHR 10]))"

text \<open>The events of a stream: one after the other, then the synthetic end.\<close>

primrec convert_events :: "raw_json \<Rightarrow> ResponsesStreamEvent list \<Rightarrow> handler" where
  "convert_events J [] state = ([], state)"
| "convert_events J (evt # evts) state =
     (let (out, state) = ResponsesEventToAnthropicEvents J evt state;
          (outs, state) = convert_events J evts state
      in (out @ outs, state))"

definition convert_stream :: "raw_json \<Rightarrow> ResponsesStreamEvent list \<Rightarrow> handler" where
  "convert_stream J evts state =
     (let (out, state) = convert_events J evts state;
          (final, state) = FinalizeResponsesAnthropicStream state
      in (out @ final, state))"

subsection \<open>What a client reads\<close>

text \<open>
  The Anthropic protocol as an acceptor: one message start, then blocks numbered from 0, each opened, filled with
  deltas of its kind and closed before the next, then one message delta and the message stop.
\<close>

record reader =
  r_started :: bool
  r_open :: "string option"
  r_next :: int
  r_summed :: bool
  r_ended :: bool

definition reader_start :: reader where
  "reader_start = \<lparr>r_started = False, r_open = None, r_next = 0, r_summed = False, r_ended = False\<rparr>"

definition delta_fits :: "string \<Rightarrow> string \<Rightarrow> bool" where
  "delta_fits block delta \<longleftrightarrow>
     (block, delta) \<in> {(''text'', ''text_delta''), (''thinking'', ''thinking_delta''), (''thinking'', ''signature_delta''),
       (''tool_use'', ''input_json_delta'')}"

definition read_event :: "AnthropicStreamEvent \<Rightarrow> reader \<Rightarrow> reader option" where
  "read_event e r =
     (if ev_Type e = ''message_start'' then
        (if \<not> r_started r then Some (r\<lparr>r_started := True\<rparr>) else None)
      else if \<not> r_started r \<or> r_ended r then None
      else if ev_Type e = ''content_block_start'' then
        (if r_open r = None \<and> \<not> r_summed r \<and> ev_Index e = Some (r_next r)
         then map_option (\<lambda>b. r\<lparr>r_open := Some (cb_Type b)\<rparr>) (ev_ContentBlock e) else None)
      else if ev_Type e = ''content_block_delta'' then
        (case (r_open r, ev_Delta e) of
           (Some b, Some d) \<Rightarrow> if ev_Index e = Some (r_next r) \<and> delta_fits b (d_Type d) then Some r else None
         | _ \<Rightarrow> None)
      else if ev_Type e = ''content_block_stop'' then
        (if r_open r \<noteq> None \<and> ev_Index e = Some (r_next r) then Some (r\<lparr>r_open := None, r_next := r_next r + 1\<rparr>) else None)
      else if ev_Type e = ''message_delta'' then
        (if r_open r = None \<and> \<not> r_summed r \<and> ev_Usage e \<noteq> None then Some (r\<lparr>r_summed := True\<rparr>) else None)
      else if ev_Type e = ''message_stop'' then
        (if r_summed r then Some (r\<lparr>r_ended := True\<rparr>) else None)
      else None)"

primrec read_events :: "AnthropicStreamEvent list \<Rightarrow> reader \<Rightarrow> reader option" where
  "read_events [] r = Some r"
| "read_events (e # es) r = (case read_event e r of None \<Rightarrow> None | Some r \<Rightarrow> read_events es r)"

lemma read_events_append:
  "read_events (es @ fs) r = (case read_events es r of None \<Rightarrow> None | Some r \<Rightarrow> read_events fs r)"
  by (induction es arbitrary: r) (auto split: option.splits)

subsection \<open>What an upstream sends\<close>

text \<open>
  The Responses protocol as the code's comments and handlers describe it: the response is created, items are added and
  finished one after the other, an item's deltas come in between under its output index, and a terminal event ends the
  stream, possibly in the middle of an item. Events of other types may come at any time.
\<close>

datatype upstream = Waiting | Between | InMessage | InReasoning int | InCall int | CallDone | InSearch | Over

definition ignored_types :: "string \<Rightarrow> bool" where
  "ignored_types t \<longleftrightarrow> t \<notin> {''response.created'', ''response.output_item.added'', ''response.output_text.delta'', ''response.output_text.done'',
     ''response.function_call_arguments.delta'', ''response.custom_tool_call_input.delta'', ''response.function_call_arguments.done'',
     ''response.output_item.done'', ''response.reasoning_summary_text.delta'', ''response.reasoning_text.delta'',
     ''response.completed'', ''response.done'', ''response.incomplete'', ''response.failed''}"

definition terminal_type :: "string \<Rightarrow> bool" where
  "terminal_type t \<longleftrightarrow> t = ''response.completed'' \<or> t = ''response.done'' \<or> t = ''response.incomplete'' \<or> t = ''response.failed''"

definition item_state :: "ResponsesStreamEvent \<Rightarrow> upstream option" where
  "item_state e =
     (case rs_Item e of
        None \<Rightarrow> None
      | Some item \<Rightarrow>
          if ro_Type item = ''message'' then Some InMessage
          else if ro_Type item = ''reasoning'' then Some (InReasoning (rs_OutputIndex e))
          else if ro_Type item = ''function_call'' \<or> ro_Type item = ''custom_tool_call'' then Some (InCall (rs_OutputIndex e))
          else if ro_Type item = ''web_search_call'' then Some InSearch
          else None)"

fun item_kind :: "upstream \<Rightarrow> string \<Rightarrow> bool" where
  "item_kind InMessage t = (t = ''message'')"
| "item_kind (InReasoning k) t = (t = ''reasoning'')"
| "item_kind (InCall k) t = (t = ''function_call'' \<or> t = ''custom_tool_call'')"
| "item_kind CallDone t = (t = ''function_call'' \<or> t = ''custom_tool_call'')"
| "item_kind InSearch t = (t = ''web_search_call'')"
| "item_kind _ t = False"

definition send_event :: "ResponsesStreamEvent \<Rightarrow> upstream \<Rightarrow> upstream option" where
  "send_event e u =
     (let t = rs_Type e
      in if ignored_types t then Some u
         else if t = ''response.created'' then if u = Waiting then Some Between else None
         else if u = Waiting \<or> u = Over then None
         else if terminal_type t then Some Over
         else if t = ''response.output_item.added'' then if u = Between then item_state e else None
         else if t = ''response.output_item.done'' then
           (case rs_Item e of None \<Rightarrow> None | Some item \<Rightarrow> if item_kind u (ro_Type item) then Some Between else None)
         else if t = ''response.output_text.delta'' \<or> t = ''response.output_text.done'' then
           if u = InMessage then Some u else None
         else if t = ''response.reasoning_summary_text.delta'' \<or> t = ''response.reasoning_text.delta'' then
           if u = InReasoning (rs_OutputIndex e) then Some u else None
         else if t = ''response.function_call_arguments.done'' then
           if u = InCall (rs_OutputIndex e) then Some CallDone else None
         else if u = InCall (rs_OutputIndex e) then Some u else None)"

primrec send_events :: "ResponsesStreamEvent list \<Rightarrow> upstream \<Rightarrow> upstream option" where
  "send_events [] u = Some u"
| "send_events (e # es) u = (case send_event e u of None \<Rightarrow> None | Some u \<Rightarrow> send_events es u)"

subsection \<open>The converter between the two\<close>

fun in_step :: "upstream \<Rightarrow> ResponsesEventToAnthropicState \<Rightarrow> bool" where
  "in_step Waiting s = (\<not> MessageStartSent s \<and> \<not> MessageStopSent s \<and> \<not> ContentBlockOpen s)"
| "in_step Between s = (MessageStartSent s \<and> \<not> MessageStopSent s \<and> \<not> ContentBlockOpen s)"
| "in_step InMessage s = (MessageStartSent s \<and> \<not> MessageStopSent s \<and> (ContentBlockOpen s \<longrightarrow> CurrentBlockType s = ''text''))"
| "in_step (InReasoning k) s = (MessageStartSent s \<and> \<not> MessageStopSent s \<and> ContentBlockOpen s \<and> CurrentBlockType s = ''thinking'' \<and>
     OutputIndexToBlockIdx s k = Some (ContentBlockIndex s))"
| "in_step (InCall k) s = (MessageStartSent s \<and> \<not> MessageStopSent s \<and> ContentBlockOpen s \<and> CurrentBlockType s = ''tool_use'' \<and>
     OutputIndexToBlockIdx s k = Some (ContentBlockIndex s))"
| "in_step CallDone s = (MessageStartSent s \<and> \<not> MessageStopSent s \<and> \<not> ContentBlockOpen s)"
| "in_step InSearch s = (MessageStartSent s \<and> \<not> MessageStopSent s \<and> \<not> ContentBlockOpen s)"
| "in_step Over s = (MessageStartSent s \<and> MessageStopSent s \<and> \<not> ContentBlockOpen s)"

definition reader_of :: "ResponsesEventToAnthropicState \<Rightarrow> reader" where
  "reader_of s = \<lparr>r_started = MessageStartSent s, r_open = (if ContentBlockOpen s then Some (CurrentBlockType s) else None),
     r_next = ContentBlockIndex s, r_summed = MessageStopSent s, r_ended = MessageStopSent s\<rparr>"

text \<open>What the events of one kind do to the reader.\<close>

lemma read_start:
  "r_started r \<Longrightarrow> \<not> r_ended r \<Longrightarrow> \<not> r_summed r \<Longrightarrow> r_open r = None \<Longrightarrow> idx = r_next r \<Longrightarrow>
   read_event (block_start idx b) r = Some (r\<lparr>r_open := Some (cb_Type b)\<rparr>)"
  by (simp add: read_event_def block_start_def zero_event_def)

lemma read_delta:
  "r_started r \<Longrightarrow> \<not> r_ended r \<Longrightarrow> r_open r = Some b \<Longrightarrow> idx = r_next r \<Longrightarrow> delta_fits b (d_Type d) \<Longrightarrow>
   read_event (block_delta idx d) r = Some r"
  by (simp add: read_event_def block_delta_def zero_event_def)

lemma read_stop:
  "r_started r \<Longrightarrow> \<not> r_ended r \<Longrightarrow> r_open r \<noteq> None \<Longrightarrow> idx = r_next r \<Longrightarrow>
   read_event (block_stop idx) r = Some (r\<lparr>r_open := None, r_next := idx + 1\<rparr>)"
  by (simp add: read_event_def block_stop_def zero_event_def)

lemma read_message_end:
  "r_started r \<Longrightarrow> \<not> r_ended r \<Longrightarrow> \<not> r_summed r \<Longrightarrow> r_open r = None \<Longrightarrow>
   read_events (message_end reason s) r = Some (r\<lparr>r_summed := True, r_ended := True\<rparr>)"
  by (simp add: message_end_def read_event_def zero_event_def)

lemma close_facts:
  assumes "closeCurrentBlock s = (out, s')"
  shows "\<not> ContentBlockOpen s'" "MessageStartSent s' = MessageStartSent s" "MessageStopSent s' = MessageStopSent s"
    "ContentBlockIndex s' = (if ContentBlockOpen s then ContentBlockIndex s + 1 else ContentBlockIndex s)"
    "\<not> ContentBlockOpen s \<Longrightarrow> s' = s \<and> out = []" "OutputIndexToBlockIdx s' = OutputIndexToBlockIdx s"
    "HasToolCall s' = HasToolCall s"
  using assms by (auto simp: closeCurrentBlock_def Let_def split: if_splits)

lemma read_close:
  assumes "closeCurrentBlock s = (out, s')" "MessageStartSent s" "\<not> MessageStopSent s"
  shows "read_events out (reader_of s) = Some (reader_of s')"
  using assms
  by (auto simp: closeCurrentBlock_def Let_def reader_of_def read_delta read_stop delta_fits_def split: if_splits)

text \<open>Each handler keeps the reader in step, in the upstream states it is called in.\<close>

definition keeps :: "handler \<Rightarrow> ResponsesEventToAnthropicState \<Rightarrow> upstream \<Rightarrow> bool" where
  "keeps f s u \<longleftrightarrow> (case f s of (out, s') \<Rightarrow> in_step u s' \<and> read_events out (reader_of s) = Some (reader_of s'))"

lemma keepsI: "(\<And>out s'. f s = (out, s') \<Longrightarrow> in_step u s' \<and> read_events out (reader_of s) = Some (reader_of s')) \<Longrightarrow> keeps f s u"
  by (auto simp: keeps_def split: prod.splits)

lemma keeps_created: "in_step Waiting s \<Longrightarrow> keeps (resToAnthHandleCreated e) s Between"
  by (rule keepsI) (auto simp: resToAnthHandleCreated_def Let_def reader_of_def read_event_def zero_event_def split: option.splits if_splits)

lemma keeps_close_to:
  assumes "MessageStartSent s" "\<not> MessageStopSent s" "u = Between \<or> u = CallDone"
  shows "keeps closeCurrentBlock s u"
  using assms read_close close_facts(1-3) by (intro keepsI) auto

lemma keeps_started:
  assumes "in_step u s" "u \<noteq> Waiting" "u \<noteq> Over"
  shows "MessageStartSent s" "\<not> MessageStopSent s"
  using assms by (cases u; simp)+

lemma keeps_added:
  assumes "in_step Between s" "item_state e = Some u"
  shows "keeps (resToAnthHandleOutputItemAdded e) s u"
proof -
  have closed: "closeCurrentBlock s = ([], s)" using assms(1) by (simp add: closeCurrentBlock_def)
  from assms(2) obtain item where item: "rs_Item e = Some item" by (auto simp: item_state_def split: option.splits)
  show ?thesis
    using assms item closed
    by (intro keepsI) (auto simp: resToAnthHandleOutputItemAdded_def Let_def item_state_def reader_of_def read_start zero_block_def split: if_splits)
qed

lemma keeps_text: "in_step InMessage s \<Longrightarrow> keeps (resToAnthHandleTextDelta e) s InMessage"
proof (rule keepsI)
  fix out s' assume s: "in_step InMessage s" and h: "resToAnthHandleTextDelta e s = (out, s')"
  show "in_step InMessage s' \<and> read_events out (reader_of s) = Some (reader_of s')"
  proof (cases "ContentBlockOpen s")
    case True
    with s h show ?thesis
      by (auto simp: resToAnthHandleTextDelta_def Let_def reader_of_def read_delta delta_fits_def zero_delta_def split: if_splits)
  next
    case False
    then have "closeCurrentBlock s = ([], s)" by (simp add: closeCurrentBlock_def)
    with s h False show ?thesis
      by (auto simp: resToAnthHandleTextDelta_def Let_def reader_of_def read_start read_delta delta_fits_def zero_delta_def zero_block_def
          split: if_splits)
  qed
qed

lemma keeps_block_done: "in_step InMessage s \<Longrightarrow> keeps resToAnthHandleBlockDone s InMessage"
  using read_close close_facts(1-3)
  by (intro keepsI) (fastforce simp: resToAnthHandleBlockDone_def split: if_splits)

lemma keeps_reasoning: "in_step (InReasoning k) s \<Longrightarrow> rs_OutputIndex e = k \<Longrightarrow> keeps (resToAnthHandleReasoningDelta e) s (InReasoning k)"
  by (intro keepsI) (auto simp: resToAnthHandleReasoningDelta_def reader_of_def read_delta delta_fits_def zero_delta_def split: if_splits)

lemma keeps_args_delta:
  "in_step (InCall k) s \<Longrightarrow> rs_OutputIndex e = k \<Longrightarrow> keeps (resToAnthHandleFuncArgsDelta J e) s (InCall k)"
  by (intro keepsI) (auto simp: resToAnthHandleFuncArgsDelta_def Let_def json_delta_def reader_of_def read_delta delta_fits_def
      zero_delta_def split: if_splits)

lemma keeps_args_done:
  assumes s: "in_step (InCall k) s" and e: "rs_OutputIndex e = k"
  shows "keeps (resToAnthHandleFuncArgsDone J e) s CallDone"
proof (rule keepsI)
  fix out s' assume h: "resToAnthHandleFuncArgsDone J e s = (out, s')"
  obtain closing t where c: "closeCurrentBlock s = (closing, t)" by fastforce
  have rc: "read_events closing (reader_of s) = Some (reader_of t)" and t: "in_step CallDone t"
    using read_close [OF c] close_facts(1-3) [OF c] s by simp_all
  have delta: "read_event (json_delta (ContentBlockIndex s) raw) (reader_of s) = Some (reader_of s)" for raw
    using s by (simp add: json_delta_def reader_of_def read_delta delta_fits_def zero_delta_def)
  from h s e c have "s' = t \<and> (out = closing \<or> (\<exists>raw. out = json_delta (ContentBlockIndex s) raw # closing))"
    by (auto simp: resToAnthHandleFuncArgsDone_def Let_def split: if_splits)
  with rc t delta show "in_step CallDone s' \<and> read_events out (reader_of s) = Some (reader_of s')" by auto
qed

lemma keeps_item_done:
  assumes s: "in_step u s" and e: "rs_Item e = Some item" "item_kind u (ro_Type item)"
  shows "keeps (resToAnthHandleOutputItemDone J e) s Between"
proof -
  have u: "u \<noteq> Waiting" "u \<noteq> Over" using e(2) by auto
  note started = keeps_started [OF s u]
  let ?sig = "s\<lparr>PendingThinkingSignature := trim_space (ro_EncryptedContent item)\<rparr>"
  show ?thesis
  proof (cases "ro_Type item = ''web_search_call''")
    case True
    with e(2) have "u = InSearch" by (cases u) auto
    with s have shut: "\<not> ContentBlockOpen s" by simp
    then have "closeCurrentBlock s = ([], s)" by (simp add: closeCurrentBlock_def)
    with True e(1) started shut show ?thesis
      by (intro keepsI)
        (auto simp: resToAnthHandleOutputItemDone_def resToAnthHandleWebSearchDone_def Let_def reader_of_def read_start read_stop
          split: if_splits)
  next
    case False
    have close: "keeps closeCurrentBlock s Between" "keeps closeCurrentBlock ?sig Between"
      using started by (simp_all add: keeps_close_to)
    have same: "reader_of ?sig = reader_of s" by (simp add: reader_of_def)
    show ?thesis
    proof (cases "ContentBlockOpen s")
      case True
      with False e(1) close same show ?thesis by (auto simp: keeps_def resToAnthHandleOutputItemDone_def Let_def split: if_splits)
    next
      case closed: False
      have "reader_of ?sig = reader_of s" by (rule same)
      with False e(1) closed started show ?thesis by (auto simp: keeps_def resToAnthHandleOutputItemDone_def Let_def)
    qed
  qed
qed

lemma reader_of_usage [simp]: "reader_of (set_usage x s) = reader_of s"
  by (simp add: reader_of_def set_usage_def)

lemma usage_fields [simp]:
  "MessageStartSent (set_usage x s) = MessageStartSent s" "MessageStopSent (set_usage x s) = MessageStopSent s"
  "ContentBlockOpen (set_usage x s) = ContentBlockOpen s" "HasToolCall (set_usage x s) = HasToolCall s"
  "ContentBlockIndex (set_usage x s) = ContentBlockIndex s" "CurrentBlockType (set_usage x s) = CurrentBlockType s"
  "OutputIndexToBlockIdx (set_usage x s) = OutputIndexToBlockIdx s"
  by (simp_all add: set_usage_def)

lemma read_ending:
  assumes "closeCurrentBlock s = (out, t)" "MessageStartSent s" "\<not> MessageStopSent s" "reader_of t' = reader_of t"
  shows "read_events (out @ message_end reason x) (reader_of s) = Some (reader_of (t'\<lparr>MessageStopSent := True\<rparr>))"
proof -
  have closed: "r_open (reader_of t) = None" "r_started (reader_of t)" "\<not> r_ended (reader_of t)" "\<not> r_summed (reader_of t)"
    using close_facts(1-3) [OF assms(1)] assms(2,3) by (simp_all add: reader_of_def)
  have "reader_of (t'\<lparr>MessageStopSent := True\<rparr>) = (reader_of t')\<lparr>r_summed := True, r_ended := True\<rparr>" by (simp add: reader_of_def)
  with assms(4) read_message_end [OF closed(2-4,1)] read_close [OF assms(1-3)] show ?thesis by (simp add: read_events_append)
qed

lemma completed_form:
  assumes "\<not> MessageStopSent s" "closeCurrentBlock s = (closing, t)"
  shows "\<exists>t' reason. resToAnthHandleCompleted e s = (closing @ message_end reason t', t'\<lparr>MessageStopSent := True\<rparr>) \<and>
    reader_of t' = reader_of t \<and> MessageStartSent t' = MessageStartSent t \<and> ContentBlockOpen t' = ContentBlockOpen t \<and>
    OutputIndexToBlockIdx t' = OutputIndexToBlockIdx t"
proof -
  define t1 where "t1 = (if rs_Usage e \<noteq> None then set_usage (anthropicUsageFromResponsesUsage (rs_Usage e)) t else t)"
  have t1: "reader_of t1 = reader_of t" "MessageStartSent t1 = MessageStartSent t" "ContentBlockOpen t1 = ContentBlockOpen t"
    "OutputIndexToBlockIdx t1 = OutputIndexToBlockIdx t"
    by (simp_all add: t1_def)
  show ?thesis
  proof (cases "rs_Response e")
    case None
    with assms have "resToAnthHandleCompleted e s = (closing @ message_end ''end_turn'' t1, t1\<lparr>MessageStopSent := True\<rparr>)"
      by (simp add: resToAnthHandleCompleted_def Let_def t1_def)
    with t1 show ?thesis by blast
  next
    case (Some r)
    define t2 where "t2 = (if rr_Usage r \<noteq> None then set_usage (anthropicUsageFromResponsesUsage (rr_Usage r)) t1 else t1)"
    have t2: "reader_of t2 = reader_of t" "MessageStartSent t2 = MessageStartSent t" "ContentBlockOpen t2 = ContentBlockOpen t"
      "OutputIndexToBlockIdx t2 = OutputIndexToBlockIdx t"
      by (simp_all add: t2_def t1)
    with assms Some show ?thesis
      by (intro exI [of _ t2] exI [of _ "if rr_Status r = ''incomplete''
                         then (if rr_IncompleteReason r = Some ''max_output_tokens'' then ''max_tokens'' else ''end_turn'')
                         else if rr_Status r = ''completed''
                         then (if HasToolCall t2 then ''tool_use'' else ''end_turn'')
                         else ''end_turn''"])
        (simp only: resToAnthHandleCompleted_def Let_def t1_def [symmetric] t2_def [symmetric] prod.case option.case if_False simp_thms)
  qed
qed

lemma keeps_completed:
  assumes "MessageStartSent s" "\<not> MessageStopSent s"
  shows "keeps (resToAnthHandleCompleted e) s Over"
proof -
  obtain closing t where c: "closeCurrentBlock s = (closing, t)" by fastforce
  from completed_form [OF assms(2) c] obtain t' reason where t':
    "resToAnthHandleCompleted e s = (closing @ message_end reason t', t'\<lparr>MessageStopSent := True\<rparr>)"
    "reader_of t' = reader_of t" "MessageStartSent t' = MessageStartSent t" "ContentBlockOpen t' = ContentBlockOpen t" by blast
  from read_ending [OF c assms t'(2)] t'(1,3,4) close_facts(1,2) [OF c] assms show ?thesis by (simp add: keeps_def)
qed

lemma keeps_finalize:
  assumes "MessageStartSent s" "\<not> MessageStopSent s"
  shows "keeps FinalizeResponsesAnthropicStream s Over"
proof (rule keepsI)
  fix out s' assume h: "FinalizeResponsesAnthropicStream s = (out, s')"
  obtain closing t where c: "closeCurrentBlock s = (closing, t)" by fastforce
  from h c assms obtain reason where "out = closing @ message_end reason t" "s' = t\<lparr>MessageStopSent := True\<rparr>"
    by (auto simp: FinalizeResponsesAnthropicStream_def Let_def)
  with read_ending [OF c assms refl] close_facts(1-3) [OF c] assms
  show "in_step Over s' \<and> read_events out (reader_of s) = Some (reader_of s')" by simp
qed

lemma keeps_nothing: "in_step u s \<Longrightarrow> f s = ([], s) \<Longrightarrow> keeps f s u"
  by (simp add: keeps_def)

lemma keeps_step:
  assumes "in_step u s" "send_event e u = Some u'"
  shows "keeps (ResponsesEventToAnthropicEvents J e) s u'"
proof -
  let ?h = "ResponsesEventToAnthropicEvents J e" and ?t = "rs_Type e"
  note disp = ResponsesEventToAnthropicEvents_def Let_def
  have swap: "keeps f s u' \<Longrightarrow> ?h s = f s \<Longrightarrow> keeps ?h s u'" for f by (simp add: keeps_def)
  show ?thesis
  proof (cases "ignored_types ?t")
    case True
    with assms show ?thesis by (intro keeps_nothing) (simp_all add: send_event_def ignored_types_def disp)
  next
    case used: False
    show ?thesis
    proof (cases "u = Waiting \<or> u = Over \<or> ?t = ''response.created''")
      case True
      with used assms(2) have "?t = ''response.created''" "u = Waiting" "u' = Between"
        by (auto simp: send_event_def Let_def split: if_splits)
      with assms(1) keeps_created [of s e] show ?thesis by (intro swap [of "resToAnthHandleCreated e"]) (simp_all add: disp)
    next
      case False
      then have live: "u \<noteq> Waiting" "u \<noteq> Over" and t: "?t \<noteq> ''response.created''" by auto
      note started = keeps_started [OF assms(1) live]
      have sent: "send_event e u = (if terminal_type ?t then Some Over
         else if ?t = ''response.output_item.added'' then if u = Between then item_state e else None
         else if ?t = ''response.output_item.done'' then
           (case rs_Item e of None \<Rightarrow> None | Some item \<Rightarrow> if item_kind u (ro_Type item) then Some Between else None)
         else if ?t = ''response.output_text.delta'' \<or> ?t = ''response.output_text.done'' then
           if u = InMessage then Some u else None
         else if ?t = ''response.reasoning_summary_text.delta'' \<or> ?t = ''response.reasoning_text.delta'' then
           if u = InReasoning (rs_OutputIndex e) then Some u else None
         else if ?t = ''response.function_call_arguments.done'' then
           if u = InCall (rs_OutputIndex e) then Some CallDone else None
         else if u = InCall (rs_OutputIndex e) then Some u else None)"
        using used live t by (simp add: send_event_def Let_def)
      consider (ended) "terminal_type ?t"
        | (added) "?t = ''response.output_item.added''" | (item_done) "?t = ''response.output_item.done''"
        | (piece) "?t = ''response.output_text.delta''" | (text_done) "?t = ''response.output_text.done''"
        | (reasoning) "?t = ''response.reasoning_summary_text.delta'' \<or> ?t = ''response.reasoning_text.delta''"
        | (args_done) "?t = ''response.function_call_arguments.done''"
        | (args) "?t = ''response.function_call_arguments.delta'' \<or> ?t = ''response.custom_tool_call_input.delta''"
        using used t by (auto simp: ignored_types_def terminal_type_def)
      then show ?thesis
      proof cases
        case ended
        with assms(2) sent have "u' = Over" by simp
        with ended keeps_completed [OF started, of e] show ?thesis
          by (intro swap [of "resToAnthHandleCompleted e"]) (auto simp: disp terminal_type_def)
      next
        case added
        with assms(2) sent have "u = Between" "item_state e = Some u'" by (auto simp: terminal_type_def split: if_splits)
        with assms(1) added show ?thesis by (intro swap [OF keeps_added]) (simp_all add: disp)
      next
        case item_done
        with assms(2) sent obtain item where "rs_Item e = Some item" "item_kind u (ro_Type item)" "u' = Between"
          by (auto simp: terminal_type_def split: if_splits option.splits)
        with assms(1) item_done keeps_item_done [of u s e item J] show ?thesis
          by (intro swap [of "resToAnthHandleOutputItemDone J e"]) (simp_all add: disp)
      next
        case piece
        with assms(2) sent have "u = InMessage" "u' = InMessage" by (auto simp: terminal_type_def split: if_splits)
        with assms(1) piece show ?thesis by (intro swap [of "resToAnthHandleTextDelta e"]) (simp_all add: disp keeps_text)
      next
        case text_done
        with assms(2) sent have "u = InMessage" "u' = InMessage" by (auto simp: terminal_type_def split: if_splits)
        with assms(1) text_done show ?thesis by (intro swap [of resToAnthHandleBlockDone]) (simp_all add: disp keeps_block_done)
      next
        case reasoning
        with assms(2) sent have "u = InReasoning (rs_OutputIndex e)" "u' = u" by (auto simp: terminal_type_def split: if_splits)
        with assms(1) reasoning keeps_reasoning [of "rs_OutputIndex e" s e] show ?thesis
          by (intro swap [of "resToAnthHandleReasoningDelta e"]) (auto simp: disp)
      next
        case args_done
        with assms(2) sent have "u = InCall (rs_OutputIndex e)" "u' = CallDone" by (auto simp: terminal_type_def split: if_splits)
        with assms(1) args_done keeps_args_done [of "rs_OutputIndex e" s e J] show ?thesis
          by (intro swap [of "resToAnthHandleFuncArgsDone J e"]) (simp_all add: disp)
      next
        case args
        with assms(2) sent have "u = InCall (rs_OutputIndex e)" "u' = u" by (auto simp: terminal_type_def split: if_splits)
        with assms(1) args keeps_args_delta [of "rs_OutputIndex e" s e J] show ?thesis
          by (intro swap [of "resToAnthHandleFuncArgsDelta J e"]) (auto simp: disp)
      qed
    qed
  qed
qed

lemma keeps_events:
  "in_step u s \<Longrightarrow> send_events evts u = Some u' \<Longrightarrow> keeps (convert_events J evts) s u'"
proof (induction evts arbitrary: s u)
  case Nil
  then show ?case by (simp add: keeps_def)
next
  case (Cons e evts)
  then obtain v where v: "send_event e u = Some v" "send_events evts v = Some u'" by (auto split: option.splits)
  obtain out t where h: "ResponsesEventToAnthropicEvents J e s = (out, t)" by fastforce
  with keeps_step [OF Cons.prems(1) v(1), of J] have "in_step v t" "read_events out (reader_of s) = Some (reader_of t)"
    by (simp_all add: keeps_def)
  with Cons.IH [OF this(1) v(2)] h show ?case by (auto simp: keeps_def read_events_append split: prod.splits)
qed

subsection \<open>Whatever the upstream sends\<close>

text \<open>
  The part of the protocol that holds for every sequence of events, also one that breaks the Responses protocol:
  blocks are numbered from 0, opened and closed in turn, deltas name a block that has been opened, the message
  starts and stops at most once and stops with all blocks closed.
\<close>

definition loose_event :: "AnthropicStreamEvent \<Rightarrow> reader \<Rightarrow> reader option" where
  "loose_event e r =
     (if ev_Type e = ''message_start'' then
        (if \<not> r_started r then Some (r\<lparr>r_started := True\<rparr>) else None)
      else if ev_Type e = ''content_block_start'' then
        (if r_open r = None \<and> ev_Index e = Some (r_next r)
         then map_option (\<lambda>b. r\<lparr>r_open := Some (cb_Type b)\<rparr>) (ev_ContentBlock e) else None)
      else if ev_Type e = ''content_block_delta'' then
        (case ev_Index e of
           None \<Rightarrow> None
         | Some i \<Rightarrow> if 0 \<le> i \<and> (i < r_next r \<or> i = r_next r \<and> r_open r \<noteq> None) then Some r else None)
      else if ev_Type e = ''content_block_stop'' then
        (if r_open r \<noteq> None \<and> ev_Index e = Some (r_next r) then Some (r\<lparr>r_open := None, r_next := r_next r + 1\<rparr>) else None)
      else if ev_Type e = ''message_delta'' then
        (if r_open r = None \<and> \<not> r_summed r then Some (r\<lparr>r_summed := True\<rparr>) else None)
      else if ev_Type e = ''message_stop'' then
        (if r_open r = None \<and> r_summed r \<and> \<not> r_ended r then Some (r\<lparr>r_ended := True\<rparr>) else None)
      else None)"

primrec loose_events :: "AnthropicStreamEvent list \<Rightarrow> reader \<Rightarrow> reader option" where
  "loose_events [] r = Some r"
| "loose_events (e # es) r = (case loose_event e r of None \<Rightarrow> None | Some r \<Rightarrow> loose_events es r)"

lemma loose_events_append:
  "loose_events (es @ fs) r = (case loose_events es r of None \<Rightarrow> None | Some r \<Rightarrow> loose_events fs r)"
  by (induction es arbitrary: r) (auto split: option.splits)

definition opened_blocks :: "ResponsesEventToAnthropicState \<Rightarrow> bool" where
  "opened_blocks s \<longleftrightarrow> 0 \<le> ContentBlockIndex s \<and>
     (\<forall>k i. OutputIndexToBlockIdx s k = Some i \<longrightarrow>
        0 \<le> i \<and> (i < ContentBlockIndex s \<or> i = ContentBlockIndex s \<and> ContentBlockOpen s))"

definition tidy :: "handler \<Rightarrow> ResponsesEventToAnthropicState \<Rightarrow> bool" where
  "tidy f s \<longleftrightarrow> (case f s of (out, s') \<Rightarrow> opened_blocks s' \<and> loose_events out (reader_of s) = Some (reader_of s'))"

lemma tidyI:
  "(\<And>out s'. f s = (out, s') \<Longrightarrow> opened_blocks s' \<and> loose_events out (reader_of s) = Some (reader_of s')) \<Longrightarrow> tidy f s"
  by (auto simp: tidy_def split: prod.splits)

lemma tidy_nothing: "opened_blocks s \<Longrightarrow> f s = ([], s) \<Longrightarrow> tidy f s"
  by (simp add: tidy_def)

lemma loose_start:
  "r_open r = None \<Longrightarrow> idx = r_next r \<Longrightarrow> loose_event (block_start idx b) r = Some (r\<lparr>r_open := Some (cb_Type b)\<rparr>)"
  by (simp add: loose_event_def block_start_def zero_event_def)

lemma loose_delta:
  "0 \<le> idx \<and> (idx < r_next r \<or> idx = r_next r \<and> r_open r \<noteq> None) \<Longrightarrow> loose_event (block_delta idx d) r = Some r"
  by (auto simp: loose_event_def block_delta_def zero_event_def)

lemma loose_stop:
  "r_open r \<noteq> None \<Longrightarrow> idx = r_next r \<Longrightarrow> loose_event (block_stop idx) r = Some (r\<lparr>r_open := None, r_next := idx + 1\<rparr>)"
  by (simp add: loose_event_def block_stop_def zero_event_def)

lemma loose_message_end:
  "\<not> r_ended r \<Longrightarrow> \<not> r_summed r \<Longrightarrow> r_open r = None \<Longrightarrow>
   loose_events (message_end reason s) r = Some (r\<lparr>r_summed := True, r_ended := True\<rparr>)"
  by (simp add: message_end_def loose_event_def zero_event_def)

lemma tidy_close: "opened_blocks s \<Longrightarrow> tidy closeCurrentBlock s"
  by (intro tidyI)
    (fastforce simp: closeCurrentBlock_def Let_def opened_blocks_def reader_of_def loose_delta loose_stop split: if_splits)

lemma tidy_closeD:
  assumes "opened_blocks s" "closeCurrentBlock s = (out, t)"
  shows "opened_blocks t" "loose_events out (reader_of s) = Some (reader_of t)"
  using tidy_close [OF assms(1)] by (simp_all add: tidy_def assms(2))

lemma opened_known:
  "opened_blocks s \<Longrightarrow> OutputIndexToBlockIdx s k = Some i \<Longrightarrow> loose_event (block_delta i d) (reader_of s) = Some (reader_of s)"
  by (rule loose_delta) (auto simp: opened_blocks_def reader_of_def)

lemma opened_opening:
  "opened_blocks s \<Longrightarrow> \<not> ContentBlockOpen s \<Longrightarrow>
   opened_blocks (s\<lparr>OutputIndexToBlockIdx := (OutputIndexToBlockIdx s)(k \<mapsto> ContentBlockIndex s), ContentBlockOpen := True,
     CurrentBlockType := b\<rparr>)"
  by (auto simp: opened_blocks_def)

lemma tidy_added: "opened_blocks s \<Longrightarrow> tidy (resToAnthHandleOutputItemAdded e) s"
proof (rule tidyI)
  fix out s' assume s: "opened_blocks s" and h: "resToAnthHandleOutputItemAdded e s = (out, s')"
  obtain closing t where c: "closeCurrentBlock s = (closing, t)" by fastforce
  note t = tidy_closeD [OF s c] close_facts(1) [OF c]
  have start: "cb_Type b = k \<Longrightarrow> loose_event (block_start (ContentBlockIndex t) b) (reader_of t) = Some ((reader_of t)\<lparr>r_open := Some k\<rparr>)" for b k
    using t(3) by (simp add: loose_start reader_of_def)
  show "opened_blocks s' \<and> loose_events out (reader_of s) = Some (reader_of s')"
  proof (cases "rs_Item e")
    case None
    with h s show ?thesis by (simp add: resToAnthHandleOutputItemAdded_def)
  next
    case (Some item)
    with h c consider "out = [] \<and> s' = s"
      | "out = closing @ [block_start (ContentBlockIndex t) (zero_block\<lparr>cb_Type := ''tool_use'', cb_ID := fromResponsesCallID (ro_CallID item),
                    cb_Name := ro_Name item, cb_Input := ''{}''\<rparr>)] \<and>
         s' = t\<lparr>OutputIndexToBlockIdx := (OutputIndexToBlockIdx t)(rs_OutputIndex e \<mapsto> ContentBlockIndex t),
                       ContentBlockOpen := True, CurrentBlockType := ''tool_use'', CurrentToolName := ro_Name item,
                       CurrentToolArgs := '''', CurrentToolHadDelta := False, HasToolCall := True\<rparr>"
      | "out = closing @ [block_start (ContentBlockIndex t) (zero_block\<lparr>cb_Type := ''thinking'', cb_Thinking := ''''\<rparr>)] \<and>
         s' = t\<lparr>OutputIndexToBlockIdx := (OutputIndexToBlockIdx t)(rs_OutputIndex e \<mapsto> ContentBlockIndex t),
                       ContentBlockOpen := True, CurrentBlockType := ''thinking'',
                       PendingThinkingSignature := trim_space (ro_EncryptedContent item)\<rparr>"
      by (auto simp: resToAnthHandleOutputItemAdded_def Let_def split: if_splits)
    then show ?thesis
    proof cases
      case 1
      with s show ?thesis by simp
    next
      case 2
      with t start [where b = "zero_block\<lparr>cb_Type := ''tool_use'', cb_ID := fromResponsesCallID (ro_CallID item),
                    cb_Name := ro_Name item, cb_Input := ''{}''\<rparr>"] opened_opening [OF t(1,3), where k = "rs_OutputIndex e" and b = "''tool_use''"]
      show ?thesis by (simp add: loose_events_append) (simp add: reader_of_def opened_blocks_def)
    next
      case 3
      with t start [where b = "zero_block\<lparr>cb_Type := ''thinking'', cb_Thinking := ''''\<rparr>"]
        opened_opening [OF t(1,3), where k = "rs_OutputIndex e" and b = "''thinking''"]
      show ?thesis by (simp add: loose_events_append) (simp add: reader_of_def opened_blocks_def)
    qed
  qed
qed

lemma tidy_text: "opened_blocks s \<Longrightarrow> tidy (resToAnthHandleTextDelta e) s"
proof (rule tidyI)
  fix out s' assume s: "opened_blocks s" and h: "resToAnthHandleTextDelta e s = (out, s')"
  let ?d = "block_delta (ContentBlockIndex s') (zero_delta\<lparr>d_Type := ''text_delta'', d_Text := rs_Delta e\<rparr>)"
  obtain closing t where c: "closeCurrentBlock s = (closing, t)" by fastforce
  note t = tidy_closeD [OF s c] close_facts(1) [OF c]
  have nonneg: "0 \<le> ContentBlockIndex t" using t(1) by (simp add: opened_blocks_def)
  consider "out = [] \<and> s' = s" | "out = [?d] \<and> s' = s \<and> ContentBlockOpen s"
    | "out = closing @ [block_start (ContentBlockIndex t) (zero_block\<lparr>cb_Type := ''text'', cb_Text := ''''\<rparr>), ?d] \<and>
       s' = t\<lparr>ContentBlockOpen := True, CurrentBlockType := ''text''\<rparr>"
    using h c by (auto simp: resToAnthHandleTextDelta_def Let_def split: if_splits)
  then show "opened_blocks s' \<and> loose_events out (reader_of s) = Some (reader_of s')"
  proof cases
    case 1
    with s show ?thesis by simp
  next
    case 2
    with s show ?thesis by (auto simp: loose_delta reader_of_def opened_blocks_def)
  next
    case 3
    have "loose_events [block_start (ContentBlockIndex t) (zero_block\<lparr>cb_Type := ''text'', cb_Text := ''''\<rparr>), ?d] (reader_of t) = Some (reader_of s')"
      using 3 t(3) nonneg by (simp add: loose_start loose_delta reader_of_def zero_block_def)
    moreover have "opened_blocks s'" using 3 t(1,3) by (auto simp: opened_blocks_def)
    ultimately show ?thesis using 3 t(2) by (simp add: loose_events_append)
  qed
qed

lemma tidy_args_delta: "opened_blocks s \<Longrightarrow> tidy (resToAnthHandleFuncArgsDelta J e) s"
proof -
  assume s: "opened_blocks s"
  have same: "opened_blocks (s\<lparr>CurrentToolHadDelta := a\<rparr>)" "reader_of (s\<lparr>CurrentToolHadDelta := a\<rparr>) = reader_of s"
    "opened_blocks (s\<lparr>CurrentToolArgs := x\<rparr>)" "reader_of (s\<lparr>CurrentToolArgs := x\<rparr>) = reader_of s"
    "opened_blocks (s\<lparr>CurrentToolArgs := x, CurrentToolHadDelta := a\<rparr>)"
    "reader_of (s\<lparr>CurrentToolArgs := x, CurrentToolHadDelta := a\<rparr>) = reader_of s" for a x
    using s by (simp_all add: opened_blocks_def reader_of_def)
  show ?thesis
    by (intro tidyI) (auto simp: resToAnthHandleFuncArgsDelta_def Let_def json_delta_def same s opened_known [OF s] split: if_splits option.splits)
qed

lemma tidy_args_done: "opened_blocks s \<Longrightarrow> tidy (resToAnthHandleFuncArgsDone J e) s"
proof (rule tidyI)
  fix out s' assume s: "opened_blocks s" and h: "resToAnthHandleFuncArgsDone J e s = (out, s')"
  obtain closing t where c: "closeCurrentBlock s = (closing, t)" by fastforce
  note t = tidy_closeD [OF s c]
  have "ContentBlockOpen s \<Longrightarrow> loose_event (block_delta (ContentBlockIndex s) d) (reader_of s) = Some (reader_of s)" for d
    using s by (auto simp: loose_delta reader_of_def opened_blocks_def)
  moreover from h c have "out = [] \<and> s' = s \<or>
      s' = t \<and> (out = closing \<or> (\<exists>raw. ContentBlockOpen s \<and> out = json_delta (ContentBlockIndex s) raw # closing))"
    by (auto simp: resToAnthHandleFuncArgsDone_def resToAnthHandleBlockDone_def Let_def split: if_splits)
  ultimately show "opened_blocks s' \<and> loose_events out (reader_of s) = Some (reader_of s')"
    using s t by (auto simp: json_delta_def)
qed

lemma tidy_reasoning: "opened_blocks s \<Longrightarrow> tidy (resToAnthHandleReasoningDelta e) s"
  by (intro tidyI) (auto simp: resToAnthHandleReasoningDelta_def opened_known split: if_splits option.splits)

lemma tidy_item_done: "opened_blocks s \<Longrightarrow> tidy (resToAnthHandleOutputItemDone J e) s"
proof (rule tidyI)
  fix out s' assume s: "opened_blocks s" and h: "resToAnthHandleOutputItemDone J e s = (out, s')"
  obtain closing t where c: "closeCurrentBlock s = (closing, t)" by fastforce
  note t = tidy_closeD [OF s c] close_facts(1) [OF c]
  have searched: "opened_blocks s' \<and> loose_events out (reader_of s) = Some (reader_of s')"
    if "resToAnthHandleWebSearchDone J item s = (out, s')" for item
  proof -
    let ?n = "ContentBlockIndex t"
    have out: "out = closing @ [block_start ?n (web_search_blocks J item ! 0), block_stop ?n,
        block_start (?n + 1) (web_search_blocks J item ! 1), block_stop (?n + 1)]" "s' = t\<lparr>ContentBlockIndex := ?n + 2\<rparr>"
      using that c by (auto simp: resToAnthHandleWebSearchDone_def Let_def)
    moreover have "opened_blocks s'" using t(1,3) out(2) by (fastforce simp: opened_blocks_def)
    ultimately show ?thesis using t(2,3)
      by (simp add: loose_events_append) (simp add: loose_start loose_stop reader_of_def)
  qed
  show "opened_blocks s' \<and> loose_events out (reader_of s) = Some (reader_of s')"
  proof (cases "rs_Item e")
    case None
    with h s show ?thesis by (simp add: resToAnthHandleOutputItemDone_def)
  next
    case (Some item)
    let ?sig = "s\<lparr>PendingThinkingSignature := trim_space (ro_EncryptedContent item)\<rparr>"
    have sig: "opened_blocks ?sig" "reader_of ?sig = reader_of s" using s by (simp_all add: opened_blocks_def reader_of_def)
    have "resToAnthHandleWebSearchDone J item s = (out, s') \<or> closeCurrentBlock s = (out, s') \<or> closeCurrentBlock ?sig = (out, s') \<or>
        out = [] \<and> (s' = s \<or> s' = ?sig)"
      using h unfolding resToAnthHandleOutputItemDone_def Some option.case Let_def by (simp split: if_splits)
    then consider "resToAnthHandleWebSearchDone J item s = (out, s')" | "closeCurrentBlock s = (out, s')" | "closeCurrentBlock ?sig = (out, s')"
      | "out = [] \<and> (s' = s \<or> s' = ?sig)" by blast
    then show ?thesis
    proof cases
      case 1
      then show ?thesis by (rule searched)
    next
      case 2
      from tidy_closeD [OF s this] show ?thesis by simp
    next
      case 3
      from tidy_closeD [OF sig(1) this] sig(2) show ?thesis by simp
    next
      case 4
      with s sig show ?thesis by auto
    qed
  qed
qed

lemma tidy_ending:
  assumes "opened_blocks s" "\<not> MessageStopSent s" "closeCurrentBlock s = (closing, t)" "reader_of t' = reader_of t" "opened_blocks t'"
  shows "opened_blocks (t'\<lparr>MessageStopSent := True\<rparr>) \<and>
    loose_events (closing @ message_end reason x) (reader_of s) = Some (reader_of (t'\<lparr>MessageStopSent := True\<rparr>))"
proof -
  have "r_open (reader_of t) = None" "\<not> r_ended (reader_of t)" "\<not> r_summed (reader_of t)"
    using close_facts(1,3) [OF assms(3)] assms(2) by (simp_all add: reader_of_def)
  moreover have "reader_of (t'\<lparr>MessageStopSent := True\<rparr>) = (reader_of t')\<lparr>r_summed := True, r_ended := True\<rparr>" by (simp add: reader_of_def)
  moreover have "opened_blocks (t'\<lparr>MessageStopSent := True\<rparr>)" using assms(5) by (simp add: opened_blocks_def)
  ultimately show ?thesis using assms(4) tidy_closeD(2) [OF assms(1,3)] by (simp add: loose_events_append loose_message_end)
qed

lemma tidy_completed: "opened_blocks s \<Longrightarrow> tidy (resToAnthHandleCompleted e) s"
proof (cases "MessageStopSent s")
  case True
  then show "opened_blocks s \<Longrightarrow> ?thesis" by (intro tidy_nothing) (simp_all add: resToAnthHandleCompleted_def)
next
  case False
  assume s: "opened_blocks s"
  obtain closing t where c: "closeCurrentBlock s = (closing, t)" by fastforce
  from completed_form [OF False c] obtain t' reason where t':
    "resToAnthHandleCompleted e s = (closing @ message_end reason t', t'\<lparr>MessageStopSent := True\<rparr>)"
    "reader_of t' = reader_of t" "ContentBlockOpen t' = ContentBlockOpen t" "OutputIndexToBlockIdx t' = OutputIndexToBlockIdx t" by blast
  from t'(2) have "ContentBlockIndex t' = ContentBlockIndex t" by (simp add: reader_of_def)
  with t'(3,4) tidy_closeD(1) [OF s c] have "opened_blocks t'" by (simp add: opened_blocks_def)
  with tidy_ending [OF s False c t'(2)] t'(1) show ?thesis by (simp add: tidy_def)
qed

lemma tidy_finalize: "opened_blocks s \<Longrightarrow> tidy FinalizeResponsesAnthropicStream s"
proof (cases "\<not> MessageStartSent s \<or> MessageStopSent s")
  case True
  then show "opened_blocks s \<Longrightarrow> ?thesis" by (intro tidy_nothing) (simp_all add: FinalizeResponsesAnthropicStream_def)
next
  case False
  assume s: "opened_blocks s"
  obtain closing t where c: "closeCurrentBlock s = (closing, t)" by fastforce
  from False c tidy_ending [OF s _ c refl tidy_closeD(1) [OF s c]] show ?thesis
    by (auto simp: tidy_def FinalizeResponsesAnthropicStream_def Let_def)
qed

lemma tidy_created: "opened_blocks s \<Longrightarrow> tidy (resToAnthHandleCreated e) s"
  by (intro tidyI) (auto simp: resToAnthHandleCreated_def Let_def opened_blocks_def reader_of_def loose_event_def zero_event_def
      split: option.splits if_splits)

lemma tidy_block_done: "opened_blocks s \<Longrightarrow> tidy resToAnthHandleBlockDone s"
  using tidy_close [of s] by (auto simp: tidy_def resToAnthHandleBlockDone_def)

lemma tidy_step:
  assumes "opened_blocks s"
  shows "tidy (ResponsesEventToAnthropicEvents J e) s"
proof -
  note handlers = tidy_created tidy_added tidy_text tidy_block_done tidy_args_delta tidy_args_done tidy_item_done tidy_reasoning
    tidy_completed
  from assms show ?thesis
    using handlers [OF assms]
    by (auto simp: tidy_def ResponsesEventToAnthropicEvents_def Let_def)
qed

lemma tidy_events: "opened_blocks s \<Longrightarrow> tidy (convert_events J evts) s"
proof (induction evts arbitrary: s)
  case Nil
  then show ?case by (simp add: tidy_def)
next
  case (Cons e evts)
  obtain out t where h: "ResponsesEventToAnthropicEvents J e s = (out, t)" by fastforce
  with tidy_step [OF Cons.prems, of J e] have "opened_blocks t" "loose_events out (reader_of s) = Some (reader_of t)"
    by (simp_all add: tidy_def)
  with Cons.IH [OF this(1)] h show ?case by (auto simp: tidy_def loose_events_append split: prod.splits)
qed

subsection \<open>The text and the arguments\<close>

definition texts_of :: "AnthropicStreamEvent list \<Rightarrow> string" where
  "texts_of es = concat (map (\<lambda>e. case ev_Delta e of None \<Rightarrow> '''' | Some d \<Rightarrow> d_Text d) es)"

definition text_deltas :: "ResponsesStreamEvent list \<Rightarrow> string" where
  "text_deltas evts = concat (map rs_Delta (filter (\<lambda>e. rs_Type e = ''response.output_text.delta'') evts))"

lemma texts_append [simp]: "texts_of (xs @ ys) = texts_of xs @ texts_of ys"
  and texts_Nil [simp]: "texts_of [] = ''''"
  and texts_Cons [simp]: "texts_of (e # es) = (case ev_Delta e of None \<Rightarrow> '''' | Some d \<Rightarrow> d_Text d) @ texts_of es"
  by (simp_all add: texts_of_def)

lemma event_fields [simp]:
  "ev_Delta (block_start i b) = None" "ev_Delta (block_delta i d) = Some d" "ev_Delta (block_stop i) = None"
  by (simp_all add: block_start_def block_delta_def block_stop_def zero_event_def)

lemma no_text: "texts_of (message_end r s) = ''''"
  by (simp add: message_end_def zero_event_def zero_delta_def)

lemma close_no_text: "closeCurrentBlock s = (out, t) \<Longrightarrow> texts_of out = ''''"
  by (auto simp: closeCurrentBlock_def Let_def zero_delta_def split: if_splits)

lemma text_step:
  "ResponsesEventToAnthropicEvents J e s = (out, t) \<Longrightarrow>
   texts_of out = (if rs_Type e = ''response.output_text.delta'' then rs_Delta e else '''')"
proof -
  assume h: "ResponsesEventToAnthropicEvents J e s = (out, t)"
  have "texts_of (fst (resToAnthHandleCreated e s)) = ''''" by (simp add: resToAnthHandleCreated_def Let_def zero_event_def)
  moreover have "texts_of (fst (resToAnthHandleOutputItemAdded e s)) = ''''"
    by (auto simp: resToAnthHandleOutputItemAdded_def Let_def close_no_text split: option.splits prod.splits)
  moreover have "texts_of (fst (resToAnthHandleTextDelta e s)) = rs_Delta e"
    by (auto simp: resToAnthHandleTextDelta_def Let_def zero_delta_def close_no_text split: prod.splits if_splits)
  moreover have "texts_of (fst (resToAnthHandleFuncArgsDelta J e s)) = ''''"
    by (auto simp: resToAnthHandleFuncArgsDelta_def Let_def json_delta_def zero_delta_def split: option.splits)
  moreover have "texts_of (fst (resToAnthHandleBlockDone s)) = ''''"
    by (cases "closeCurrentBlock s") (auto simp: resToAnthHandleBlockDone_def close_no_text)
  moreover have "texts_of (fst (resToAnthHandleFuncArgsDone J e s)) = ''''"
    by (cases "closeCurrentBlock s")
      (auto simp: resToAnthHandleFuncArgsDone_def resToAnthHandleBlockDone_def Let_def close_no_text json_delta_def zero_delta_def
        split: option.splits)
  moreover have "texts_of (fst (resToAnthHandleOutputItemDone J e s)) = ''''"
    by (auto simp: resToAnthHandleOutputItemDone_def resToAnthHandleWebSearchDone_def Let_def split: option.splits prod.splits)
      (metis close_no_text prod.collapse)+
  moreover have "texts_of (fst (resToAnthHandleReasoningDelta e s)) = ''''"
    by (auto simp: resToAnthHandleReasoningDelta_def zero_delta_def split: option.splits)
  moreover have "texts_of (fst (resToAnthHandleCompleted e s)) = ''''"
  proof (cases "MessageStopSent s")
    case False
    obtain closing t where c: "closeCurrentBlock s = (closing, t)" by fastforce
    from completed_form [OF False c, of e] obtain t' reason where
      "resToAnthHandleCompleted e s = (closing @ message_end reason t', t'\<lparr>MessageStopSent := True\<rparr>)" by blast
    with close_no_text [OF c] show ?thesis by (simp add: no_text)
  qed (simp add: resToAnthHandleCompleted_def)
  ultimately show ?thesis
    using h [symmetric] unfolding ResponsesEventToAnthropicEvents_def Let_def by (auto split: if_splits) (metis fst_conv)+
qed

lemma text_events: "texts_of (fst (convert_events J evts s)) = text_deltas evts"
proof (induction evts arbitrary: s)
  case Nil
  then show ?case by (simp add: text_deltas_def)
next
  case (Cons e evts)
  obtain out t where h: "ResponsesEventToAnthropicEvents J e s = (out, t)" by fastforce
  from text_step [OF h] Cons.IH [of t] h show ?case by (auto simp: text_deltas_def case_prod_unfold Let_def)
qed

lemma text_finalize: "texts_of (fst (FinalizeResponsesAnthropicStream s)) = ''''"
  by (cases "closeCurrentBlock s") (auto simp: FinalizeResponsesAnthropicStream_def Let_def no_text close_no_text)

definition arguments_of :: "AnthropicStreamEvent list \<Rightarrow> string" where
  "arguments_of es = concat (map (\<lambda>e. case ev_Delta e of None \<Rightarrow> '''' | Some d \<Rightarrow> d_PartialJSON d) es)"

lemma arguments_append [simp]: "arguments_of (xs @ ys) = arguments_of xs @ arguments_of ys"
  and arguments_Nil [simp]: "arguments_of [] = ''''"
  and arguments_Cons [simp]: "arguments_of (e # es) = (case ev_Delta e of None \<Rightarrow> '''' | Some d \<Rightarrow> d_PartialJSON d) @ arguments_of es"
  by (simp_all add: arguments_of_def)

definition calling :: "int \<Rightarrow> bool \<Rightarrow> ResponsesEventToAnthropicState \<Rightarrow> bool" where
  "calling k had s \<longleftrightarrow> in_step (InCall k) s \<and> CurrentToolName s \<noteq> ''Read'' \<and> CurrentToolArgs s = '''' \<and> CurrentToolHadDelta s = had"

lemma calling_delta:
  assumes "calling k had s" "rs_OutputIndex e = k" "rs_Type e = ''response.function_call_arguments.delta''"
  obtains out t where "ResponsesEventToAnthropicEvents J e s = (out, t)" "arguments_of out = rs_Delta e"
    "calling k (had \<or> rs_Delta e \<noteq> '''') t"
  using assms
  by (cases "rs_Delta e = ''''")
    (simp_all add: ResponsesEventToAnthropicEvents_def resToAnthHandleFuncArgsDelta_def calling_def Let_def json_delta_def zero_delta_def)

lemma calling_deltas:
  "calling k had s \<Longrightarrow> \<forall>e \<in> set ds. rs_OutputIndex e = k \<and> rs_Type e = ''response.function_call_arguments.delta'' \<Longrightarrow>
   \<exists>out t. convert_events J ds s = (out, t) \<and> arguments_of out = concat (map rs_Delta ds) \<and>
     calling k (had \<or> concat (map rs_Delta ds) \<noteq> '''') t"
proof (induction ds arbitrary: s had)
  case Nil
  then show ?case by simp
next
  case (Cons e ds)
  then have e: "rs_OutputIndex e = k" "rs_Type e = ''response.function_call_arguments.delta''" by auto
  from calling_delta [OF Cons.prems(1) e] obtain out t where h: "ResponsesEventToAnthropicEvents J e s = (out, t)" "arguments_of out = rs_Delta e"
    "calling k (had \<or> rs_Delta e \<noteq> '''') t" by blast
  from Cons.IH [OF h(3)] Cons.prems(2) obtain outs u where "convert_events J ds t = (outs, u)"
    "arguments_of outs = concat (map rs_Delta ds)" "calling k ((had \<or> rs_Delta e \<noteq> '''') \<or> concat (map rs_Delta ds) \<noteq> '''') u" by auto
  with h show ?case by (intro exI [of _ "out @ outs"] exI [of _ u]) (auto simp: disj_assoc)
qed

lemma convert_events_append:
  "convert_events J (xs @ ys) s = (case convert_events J xs s of (out, t) \<Rightarrow> case convert_events J ys t of (outs, u) \<Rightarrow> (out @ outs, u))"
  by (induction xs arbitrary: s) (auto split: prod.splits)

lemma close_no_arguments: "closeCurrentBlock s = (out, t) \<Longrightarrow> arguments_of out = ''''"
  by (auto simp: closeCurrentBlock_def Let_def zero_delta_def split: if_splits)

lemma calling_done:
  assumes "calling k had s" "rs_OutputIndex e = k" "rs_Type e = ''response.function_call_arguments.done''"
  shows "arguments_of (fst (ResponsesEventToAnthropicEvents J e s)) = (if had then '''' else rs_Arguments e)"
  using assms by (cases "closeCurrentBlock s"; cases "rs_Arguments e = ''''")
    (auto simp: ResponsesEventToAnthropicEvents_def resToAnthHandleFuncArgsDone_def calling_def Let_def json_delta_def zero_delta_def
      close_no_arguments)

lemma calling_added:
  assumes "in_step Between s" "rs_Type e = ''response.output_item.added''" "rs_Item e = Some item" "ro_Type item = ''function_call''"
    "ro_Name item \<noteq> ''Read''"
  obtains out t where "ResponsesEventToAnthropicEvents J e s = (out, t)" "arguments_of out = ''''" "calling (rs_OutputIndex e) False t"
  using assms by (simp add: ResponsesEventToAnthropicEvents_def resToAnthHandleOutputItemAdded_def calling_def Let_def closeCurrentBlock_def)

subsection \<open>Properties\<close>

definition plain_response :: ResponsesResponse where
  "plain_response = \<lparr>rr_ID = ''r1'', rr_Model = ''m'', rr_Status = ''completed'', rr_Output = [], rr_Usage = None,
     rr_IncompleteReason = None\<rparr>"

definition plain_event :: "string \<Rightarrow> ResponsesStreamEvent" where
  "plain_event t = \<lparr>rs_Type = t, rs_Response = None, rs_Usage = None, rs_Item = None, rs_OutputIndex = 0, rs_Delta = '''',
     rs_Arguments = ''''\<rparr>"

definition plain_item :: "string \<Rightarrow> ResponsesOutput" where
  "plain_item t = \<lparr>ro_Type = t, ro_ID = ''i1'', ro_Content = [], ro_Status = '''', ro_EncryptedContent = '''', ro_Summary = [],
     ro_CallID = ''fc_call_7'', ro_Name = ''f'', ro_Arguments = '''', ro_Query = None\<rparr>"

definition cut_stream :: "ResponsesStreamEvent list" where
  "cut_stream = [plain_event ''response.created'',
     (plain_event ''response.output_item.added'')\<lparr>rs_Item := Some (plain_item ''reasoning'')\<rparr>,
     (plain_event ''response.reasoning_summary_text.delta'')\<lparr>rs_Delta := ''hm''\<rparr>,
     (plain_event ''response.output_item.done'')\<lparr>rs_Item := Some (plain_item ''reasoning'')\<rparr>,
     (plain_event ''response.output_item.added'')\<lparr>rs_Item := Some (plain_item ''message'')\<rparr>,
     (plain_event ''response.output_text.delta'')\<lparr>rs_Delta := ''hi''\<rparr>]"

definition some_json :: raw_json where
  "some_json = \<lparr>json_Valid = (\<lambda>s. True), json_object = (\<lambda>s. None), json_Marshal = (\<lambda>m. None), json_query = (\<lambda>q. ''{}''),
     json_event = (\<lambda>e. Inr ''{}'')\<rparr>"

text \<open>C18: from an upstream that keeps to the Responses protocol, cut off at any point, the client gets a message it can
  read: one start, blocks numbered from 0 with deltas of their kind, all closed, then the stop reason with the usage
  and the stop.\<close>

theorem valid_stream_is_read:
  assumes "send_events evts Waiting = Some u"
  shows "\<exists>r. read_events (fst (convert_stream J evts ((NewResponsesEventToAnthropicState n)\<lparr>Model := m\<rparr>))) reader_start = Some r \<and>
     (u \<noteq> Waiting \<longrightarrow> r_ended r \<and> r_open r = None)"
proof -
  let ?s = "(NewResponsesEventToAnthropicState n)\<lparr>Model := m\<rparr>"
  have start: "in_step Waiting ?s" "reader_of ?s = reader_start"
    by (simp_all add: NewResponsesEventToAnthropicState_def reader_of_def reader_start_def)
  obtain out t where ce: "convert_events J evts ?s = (out, t)" by fastforce
  with keeps_events [OF start(1) assms, of J] start(2) have t: "in_step u t" "read_events out reader_start = Some (reader_of t)"
    by (simp_all add: keeps_def)
  obtain final v where fin: "FinalizeResponsesAnthropicStream t = (final, v)" by fastforce
  have "read_events final (reader_of t) = Some (reader_of v) \<and> (u \<noteq> Waiting \<longrightarrow> in_step Over v)"
  proof (cases "MessageStartSent t \<and> \<not> MessageStopSent t")
    case True
    with keeps_finalize [of t] fin show ?thesis by (simp add: keeps_def)
  next
    case False
    then have "final = []" "v = t" using fin by (auto simp: FinalizeResponsesAnthropicStream_def)
    with False t(1) show ?thesis by (cases u) auto
  qed
  with t(2) ce fin show ?thesis
    by (intro exI [of _ "reader_of v"]) (auto simp: convert_stream_def read_events_append reader_of_def)
qed

theorem valid_stream_is_read_witness:
  "\<exists>r. read_events (fst (convert_stream some_json cut_stream ((NewResponsesEventToAnthropicState 5)\<lparr>Model := ''m''\<rparr>))) reader_start = Some r \<and>
     r_ended r"
proof -
  have "send_events cut_stream Waiting = Some InMessage" by code_simp
  from valid_stream_is_read [OF this, where J = some_json and n = 5 and m = "''m''"] show ?thesis by auto
qed

text \<open>C40: whatever the upstream sends, the blocks are numbered from 0 and opened and closed in turn, a delta names a
  block that has been opened, and the message starts at most once and stops at most once with all blocks closed.\<close>

theorem blocks_in_turn:
  "\<exists>r. loose_events (fst (convert_stream J evts ((NewResponsesEventToAnthropicState n)\<lparr>Model := m\<rparr>))) reader_start = Some r"
proof -
  let ?s = "(NewResponsesEventToAnthropicState n)\<lparr>Model := m\<rparr>"
  have start: "opened_blocks ?s" "reader_of ?s = reader_start"
    by (simp_all add: NewResponsesEventToAnthropicState_def opened_blocks_def reader_of_def reader_start_def)
  obtain out t where ce: "convert_events J evts ?s = (out, t)" by fastforce
  with tidy_events [OF start(1), of J evts] start(2) have t: "opened_blocks t" "loose_events out reader_start = Some (reader_of t)"
    by (simp_all add: tidy_def)
  obtain final v where "FinalizeResponsesAnthropicStream t = (final, v)" by fastforce
  with tidy_finalize [OF t(1)] t(2) ce show ?thesis by (simp add: tidy_def convert_stream_def loose_events_append)
qed

text \<open>The text reaches the client unchanged: the text deltas it gets are, joined, the text deltas of the upstream,
  whatever comes between them.\<close>

theorem text_passed_through:
  "texts_of (fst (convert_stream J evts s)) = text_deltas evts"
proof -
  obtain out t where ce: "convert_events J evts s = (out, t)" by fastforce
  obtain final v where fin: "FinalizeResponsesAnthropicStream t = (final, v)" by fastforce
  from text_events [of J evts s] text_finalize [of t] ce fin show ?thesis by (simp add: convert_stream_def)
qed

text \<open>The arguments of a function call reach the client once: as the deltas the upstream sent, or from the final
  event when it sent none. (The tool \<^verbatim>\<open>Read\<close>, whose arguments are cleaned, is left out.)\<close>

theorem tool_arguments_delivered:
  assumes "in_step Between s"
    and "rs_Type added = ''response.output_item.added''" and "rs_Item added = Some item"
    and "ro_Type item = ''function_call''" and "ro_Name item \<noteq> ''Read''"
    and "\<forall>e \<in> set deltas. rs_OutputIndex e = rs_OutputIndex added \<and> rs_Type e = ''response.function_call_arguments.delta''"
    and "rs_Type last_event = ''response.function_call_arguments.done''" and "rs_OutputIndex last_event = rs_OutputIndex added"
  shows "arguments_of (fst (convert_events J (added # deltas @ [last_event]) s)) =
    (if concat (map rs_Delta deltas) = '''' then rs_Arguments last_event else concat (map rs_Delta deltas))"
proof -
  from calling_added [OF assms(1-5)] obtain out t where a: "ResponsesEventToAnthropicEvents J added s = (out, t)" "arguments_of out = ''''"
    "calling (rs_OutputIndex added) False t" by blast
  from calling_deltas [OF a(3) assms(6), of J] obtain outs u where d: "convert_events J deltas t = (outs, u)"
    "arguments_of outs = concat (map rs_Delta deltas)" "calling (rs_OutputIndex added) (concat (map rs_Delta deltas) \<noteq> '''') u" by auto
  from calling_done [OF d(3) assms(8,7), of J] a d show ?thesis
    by (auto simp: convert_events_append case_prod_unfold Let_def)
qed

theorem tool_arguments_delivered_witness:
  "arguments_of (fst (convert_events some_json
     [(plain_event ''response.output_item.added'')\<lparr>rs_Item := Some (plain_item ''function_call'')\<rparr>,
      (plain_event ''response.function_call_arguments.delta'')\<lparr>rs_Delta := ''{''\<rparr>,
      (plain_event ''response.function_call_arguments.delta'')\<lparr>rs_Delta := ''}''\<rparr>,
      (plain_event ''response.function_call_arguments.done'')\<lparr>rs_Arguments := ''{}''\<rparr>]
     ((NewResponsesEventToAnthropicState 5)\<lparr>MessageStartSent := True\<rparr>))) = ''{}''"
  using tool_arguments_delivered [of "(NewResponsesEventToAnthropicState 5)\<lparr>MessageStartSent := True\<rparr>"
      "(plain_event ''response.output_item.added'')\<lparr>rs_Item := Some (plain_item ''function_call'')\<rparr>" "plain_item ''function_call''"
      "[(plain_event ''response.function_call_arguments.delta'')\<lparr>rs_Delta := ''{''\<rparr>,
        (plain_event ''response.function_call_arguments.delta'')\<lparr>rs_Delta := ''}''\<rparr>]"
      "(plain_event ''response.function_call_arguments.done'')\<lparr>rs_Arguments := ''{}''\<rparr>" some_json]
  by (simp add: NewResponsesEventToAnthropicState_def plain_event_def plain_item_def)

text \<open>The usage is split into Anthropic's buckets without losing a token: the uncached input is never negative, and
  the three input buckets add up to the input tokens of the upstream when it reports consistent numbers, to the
  cached ones otherwise.\<close>

theorem usage_buckets:
  "let a = anthropicUsageFromResponsesUsage (Some u);
       cached = (case ru_CachedTokens u of None \<Rightarrow> 0 | Some n \<Rightarrow> n)
   in 0 \<le> au_InputTokens a \<and> au_OutputTokens a = ru_OutputTokens u \<and>
      au_InputTokens a + au_CacheReadInputTokens a + au_CacheCreationInputTokens a =
        max (ru_InputTokens u) (cached + ru_CacheCreationInputTokens u)"
  by (simp add: anthropicUsageFromResponsesUsage_def Let_def)
text \<open>A tool call once seen is not forgotten, and only an ending event ends the message.\<close>

lemma tool_call_kept:
  assumes "ResponsesEventToAnthropicEvents J e s = (out, t)" and "HasToolCall s" "\<not> MessageStopSent s"
    and "rs_Type e \<notin> {''response.completed'', ''response.done'', ''response.incomplete'', ''response.failed''}"
  shows "HasToolCall t \<and> \<not> MessageStopSent t"
proof -
  obtain out0 t0 where c: "closeCurrentBlock s = (out0, t0)" by fastforce
  note [simp] = close_facts(3,7) [OF c]
  let ?kept = "\<lambda>f. HasToolCall (snd (f s)) \<and> \<not> MessageStopSent (snd (f s))"
  have "?kept (resToAnthHandleCreated e)"
    using assms(2,3) by (simp add: resToAnthHandleCreated_def Let_def split: option.splits)
  moreover have "?kept (resToAnthHandleOutputItemAdded e)"
    using assms(2,3) by (simp add: resToAnthHandleOutputItemAdded_def Let_def c split: option.splits)
  moreover have "?kept (resToAnthHandleTextDelta e)"
    using assms(2,3) by (simp add: resToAnthHandleTextDelta_def Let_def c)
  moreover have "?kept (resToAnthHandleFuncArgsDelta J e)"
    using assms(2,3) by (simp add: resToAnthHandleFuncArgsDelta_def Let_def split: option.splits)
  moreover have done_kept: "?kept resToAnthHandleBlockDone"
    using assms(2,3) by (simp add: resToAnthHandleBlockDone_def c)
  moreover have "?kept (resToAnthHandleFuncArgsDone J e)"
    using assms(2,3) done_kept by (simp add: resToAnthHandleFuncArgsDone_def Let_def c)
  moreover have "?kept (resToAnthHandleOutputItemDone J e)"
  proof (cases "rs_Item e")
    case (Some item)
    let ?s = "s\<lparr>PendingThinkingSignature := trim_space (ro_EncryptedContent item)\<rparr>"
    obtain out1 t1 where c1: "closeCurrentBlock ?s = (out1, t1)" by fastforce
    note [simp] = close_facts(3,7) [OF c1]
    from assms(2,3) Some show ?thesis
      by (simp add: resToAnthHandleOutputItemDone_def resToAnthHandleWebSearchDone_def Let_def c c1)
  qed (simp add: resToAnthHandleOutputItemDone_def assms(2,3))
  moreover have "?kept (resToAnthHandleReasoningDelta e)"
    using assms(2,3) by (simp add: resToAnthHandleReasoningDelta_def split: option.splits)
  ultimately show ?thesis
    using assms unfolding ResponsesEventToAnthropicEvents_def Let_def by (auto split: if_splits)
qed

lemma tool_calls_kept:
  assumes "HasToolCall s" "\<not> MessageStopSent s"
    and "\<forall>e \<in> set evts. rs_Type e \<notin> {''response.completed'', ''response.done'', ''response.incomplete'', ''response.failed''}"
  shows "HasToolCall (snd (convert_events J evts s)) \<and> \<not> MessageStopSent (snd (convert_events J evts s))"
  using assms
proof (induction evts arbitrary: s)
  case (Cons e evts)
  obtain out t where h: "ResponsesEventToAnthropicEvents J e s = (out, t)" by fastforce
  from tool_call_kept [OF h] Cons.prems have "HasToolCall t \<and> \<not> MessageStopSent t" by simp
  with Cons.IH [of t] Cons.prems(3) h show ?case by (simp add: case_prod_unfold Let_def)
qed simp

lemma completed_tool_use:
  assumes "\<not> MessageStopSent s" "HasToolCall s" "rs_Type e = ''response.completed''"
    and "rs_Response e = Some r" "rr_Status r = ''completed''"
  shows "\<exists>out u. fst (ResponsesEventToAnthropicEvents J e s) = out @ message_end ''tool_use'' u"
proof -
  obtain out0 t0 where c: "closeCurrentBlock s = (out0, t0)" by fastforce
  with close_facts(7) [OF c] assms show ?thesis
    by (auto simp: ResponsesEventToAnthropicEvents_def resToAnthHandleCompleted_def Let_def)
qed

lemma no_custom_blocks:
  "concat (map (output_blocks J) items) = concat (map (output_blocks J) (filter (\<lambda>i. ro_Type i \<noteq> ''custom_tool_call'') items))"
  by (induction items) (simp_all add: output_blocks_def)

lemma tool_blocks_of_item:
  "list_ex (\<lambda>b. cb_Type b = ''tool_use'') (output_blocks J item) \<longleftrightarrow> ro_Type item = ''function_call''"
  by (auto simp: output_blocks_def web_search_blocks_def Let_def zero_block_def list_ex_iff)

lemma tool_blocks_of_items:
  "list_ex (\<lambda>b. cb_Type b = ''tool_use'') (concat (map (output_blocks J) items)) \<longleftrightarrow> list_ex (\<lambda>i. ro_Type i = ''function_call'') items"
  by (induction items) (simp_all add: tool_blocks_of_item list_ex_append)

text \<open>C36: the two converters disagree on the calls of custom tools. Every response is converted as if it had no item
  \<^verbatim>\<open>custom_tool_call\<close>, and its stop reason is \<^verbatim>\<open>tool_use\<close> only if it completed and holds a
  \<^verbatim>\<open>function_call\<close>. In a stream, from whatever state that has not sent its end, the announcement of such
  an item opens a block \<^verbatim>\<open>tool_use\<close> with the name and the id of the call, and whatever comes between, the
  completion of the response ends the message with the stop reason \<^verbatim>\<open>tool_use\<close>.\<close>

theorem custom_call_dropped:
  assumes "rs_Type added = ''response.output_item.added''" "rs_Item added = Some item" "ro_Type item = ''custom_tool_call''"
    and "\<not> MessageStopSent s"
    and "\<forall>e \<in> set between. rs_Type e \<notin> {''response.completed'', ''response.done'', ''response.incomplete'', ''response.failed''}"
    and "rs_Type last_event = ''response.completed''" "rs_Response last_event = Some r" "rr_Status r = ''completed''"
  shows "ResponsesToAnthropic J resp m =
      ResponsesToAnthropic J (resp\<lparr>rr_Output := filter (\<lambda>i. ro_Type i \<noteq> ''custom_tool_call'') (rr_Output resp)\<rparr>) m \<and>
    (ar_StopReason (ResponsesToAnthropic J resp m) = Some ''tool_use'' \<longleftrightarrow>
      rr_Status resp = ''completed'' \<and> list_ex (\<lambda>i. ro_Type i = ''function_call'') (rr_Output resp)) \<and>
    (\<exists>opening rest idx u. fst (convert_events J (added # between @ [last_event]) s) =
      opening @ [block_start idx (zero_block\<lparr>cb_Type := ''tool_use'', cb_ID := fromResponsesCallID (ro_CallID item),
         cb_Name := ro_Name item, cb_Input := ''{}''\<rparr>)] @ rest @ message_end ''tool_use'' u)"
proof (intro conjI)
  show "ResponsesToAnthropic J resp m =
      ResponsesToAnthropic J (resp\<lparr>rr_Output := filter (\<lambda>i. ro_Type i \<noteq> ''custom_tool_call'') (rr_Output resp)\<rparr>) m"
    using no_custom_blocks [of J "rr_Output resp"] by (simp add: ResponsesToAnthropic_def)
  show "ar_StopReason (ResponsesToAnthropic J resp m) = Some ''tool_use'' \<longleftrightarrow>
      rr_Status resp = ''completed'' \<and> list_ex (\<lambda>i. ro_Type i = ''function_call'') (rr_Output resp)"
    using tool_blocks_of_items [of J "rr_Output resp"]
    by (cases "concat (map (output_blocks J) (rr_Output resp)) = []")
      (simp_all add: ResponsesToAnthropic_def Let_def responsesStatusToAnthropicStopReason_def
        containsAnthropicToolUseBlock_def zero_block_def del: concat_eq_Nil_conv)
  obtain out0 t0 where c: "closeCurrentBlock s = (out0, t0)" by fastforce
  let ?b = "block_start (ContentBlockIndex t0) (zero_block\<lparr>cb_Type := ''tool_use'', cb_ID := fromResponsesCallID (ro_CallID item),
         cb_Name := ro_Name item, cb_Input := ''{}''\<rparr>)"
  obtain out t where a: "ResponsesEventToAnthropicEvents J added s = (out, t)" by fastforce
  with assms(1-4) c close_facts(3) [OF c] have t: "out = out0 @ [?b]" "HasToolCall t" "\<not> MessageStopSent t"
    by (auto simp: ResponsesEventToAnthropicEvents_def resToAnthHandleOutputItemAdded_def Let_def)
  obtain mid v where b: "convert_events J between t = (mid, v)" by fastforce
  with tool_calls_kept [OF t(2,3) assms(5), of J] have v: "HasToolCall v" "\<not> MessageStopSent v" by simp_all
  from completed_tool_use [OF v(2,1) assms(6-8), of J] obtain closing u where
    "fst (ResponsesEventToAnthropicEvents J last_event v) = closing @ message_end ''tool_use'' u" by blast
  with a b t(1) have "fst (convert_events J (added # between @ [last_event]) s) =
      out0 @ [?b] @ (mid @ closing) @ message_end ''tool_use'' u"
    by (simp add: convert_events_append case_prod_unfold Let_def)
  then show "\<exists>opening rest idx u. fst (convert_events J (added # between @ [last_event]) s) =
      opening @ [block_start idx (zero_block\<lparr>cb_Type := ''tool_use'', cb_ID := fromResponsesCallID (ro_CallID item),
         cb_Name := ro_Name item, cb_Input := ''{}''\<rparr>)] @ rest @ message_end ''tool_use'' u" by blast
qed

theorem custom_call_dropped_witness:
  "ar_StopReason (ResponsesToAnthropic some_json (plain_response\<lparr>rr_Output := [plain_item ''custom_tool_call'']\<rparr>) ''m'') \<noteq> Some ''tool_use'' \<and>
   (\<exists>opening rest idx u. fst (convert_events some_json
     [(plain_event ''response.output_item.added'')\<lparr>rs_Item := Some (plain_item ''custom_tool_call'')\<rparr>,
      (plain_event ''response.custom_tool_call_input.delta'')\<lparr>rs_Delta := ''x''\<rparr>,
      (plain_event ''response.completed'')\<lparr>rs_Response := Some plain_response\<rparr>] (NewResponsesEventToAnthropicState 5)) =
     opening @ [block_start idx (zero_block\<lparr>cb_Type := ''tool_use'', cb_ID := fromResponsesCallID (ro_CallID (plain_item ''custom_tool_call'')),
         cb_Name := ro_Name (plain_item ''custom_tool_call''), cb_Input := ''{}''\<rparr>)] @ rest @ message_end ''tool_use'' u)"
proof -
  let ?added = "(plain_event ''response.output_item.added'')\<lparr>rs_Item := Some (plain_item ''custom_tool_call'')\<rparr>"
  let ?delta = "(plain_event ''response.custom_tool_call_input.delta'')\<lparr>rs_Delta := ''x''\<rparr>"
  let ?last = "(plain_event ''response.completed'')\<lparr>rs_Response := Some plain_response\<rparr>"
  have "rs_Type ?added = ''response.output_item.added''" "rs_Item ?added = Some (plain_item ''custom_tool_call'')"
    "ro_Type (plain_item ''custom_tool_call'') = ''custom_tool_call''" "\<not> MessageStopSent (NewResponsesEventToAnthropicState 5)"
    "\<forall>e \<in> set [?delta]. rs_Type e \<notin> {''response.completed'', ''response.done'', ''response.incomplete'', ''response.failed''}"
    "rs_Type ?last = ''response.completed''" "rs_Response ?last = Some plain_response" "rr_Status plain_response = ''completed''"
    by (simp_all add: NewResponsesEventToAnthropicState_def plain_event_def plain_item_def plain_response_def)
  note both = custom_call_dropped [OF this, where J = some_json and m = "''m''"
    and resp = "plain_response\<lparr>rr_Output := [plain_item ''custom_tool_call'']\<rparr>", THEN conjunct2]
  show ?thesis
  proof
    from both [THEN conjunct1] show "ar_StopReason (ResponsesToAnthropic some_json
        (plain_response\<lparr>rr_Output := [plain_item ''custom_tool_call'']\<rparr>) ''m'') \<noteq> Some ''tool_use''"
      by (simp add: plain_item_def)
  qed (use both [THEN conjunct2] in simp)
qed

end
