(* ===== verification/KeywordMatcher.thy ===== *)
theory KeywordMatcher
  imports Prelude "HOL-Library.Sublist" "HOL-Library.Char_ord"
begin

section \<open>The keyword matcher of content moderation\<close>

text \<open>
  Models \<^verbatim>\<open>src/backend/internal/service/content_moderation_keyword_matcher.go\<close>: the construction of an automaton
  for a list of keywords, and the search of a text. The arrays are lists and the indices integers: there is
  at most one node and one edge for each byte of a lower-cased keyword, and the root, so an \<^verbatim>\<open>int32\<close> holds them.
  \<^verbatim>\<open>strings.ToLower\<close> is the parameter \<open>lower\<close>. A loop whose end needs an argument is a
  \<^theory_text>\<open>partial_function (option)\<close>, whose value is \<open>None\<close> when it does not end; the loop over the siblings of an edge
  has fuel, one step for each edge up to the first, because a sibling is an earlier edge.
\<close>

subsection \<open>Data\<close>

record contentModerationKeywordNode =
  failure :: int
  bestKeyword :: int
  edgeStart :: int
  edgeCount :: int

record contentModerationKeywordEdge =
  target :: int
  label :: char

record contentModerationKeywordBuildEdge =
  buildTarget :: int
  nextSibling :: int
  buildLabel :: char

record contentModerationKeywordMatcher =
  nodes :: "contentModerationKeywordNode list"
  edges :: "contentModerationKeywordEdge list"
  rootTransitions :: "char \<Rightarrow> int"
  keywordList :: "string list"

type_synonym kw_nodes = "contentModerationKeywordNode list"
type_synonym kw_edges = "contentModerationKeywordBuildEdge list"

definition newContentModerationKeywordNode :: contentModerationKeywordNode where
  "newContentModerationKeywordNode = \<lparr>failure = 0, bestKeyword = -1, edgeStart = 0, edgeCount = 0\<rparr>"

definition contentModerationKeywordBuildFirstEdge :: "contentModerationKeywordNode \<Rightarrow> int" where
  "contentModerationKeywordBuildFirstEdge node = (if edgeStart node = 0 then -1 else edgeStart node - 1)"

definition minKeywordIndex :: "int \<Rightarrow> int \<Rightarrow> int" where
  "minKeywordIndex left right =
     (if left < 0 then right else if right < 0 \<or> left < right then left else right)"

subsection \<open>Building the tree\<close>

primrec sibling_chain :: "nat \<Rightarrow> kw_edges \<Rightarrow> int \<Rightarrow> kw_edges" where
  "sibling_chain 0 es edgeIndex = []"
| "sibling_chain (Suc fuel) es edgeIndex =
     (if edgeIndex \<ge> 0 then es ! nat edgeIndex # sibling_chain fuel es (nextSibling (es ! nat edgeIndex)) else [])"

text \<open>The edges a loop \<^verbatim>\<open>for edgeIndex := first; edgeIndex >= 0; edgeIndex = edges[edgeIndex].nextSibling\<close> visits.\<close>

definition siblings :: "kw_edges \<Rightarrow> contentModerationKeywordNode \<Rightarrow> kw_edges" where
  "siblings es node =
     (let first = contentModerationKeywordBuildFirstEdge node in sibling_chain (nat (first + 1)) es first)"

definition contentModerationKeywordBuildTransition :: "kw_nodes \<Rightarrow> kw_edges \<Rightarrow> int \<Rightarrow> char \<Rightarrow> int" where
  "contentModerationKeywordBuildTransition ns es state lab =
     (if state < 0 \<or> state \<ge> int (length ns) then -1
      else case find (\<lambda>e. buildLabel e = lab) (siblings es (ns ! nat state)) of
             None \<Rightarrow> -1 | Some e \<Rightarrow> buildTarget e)"

definition insert_byte :: "char \<Rightarrow> kw_nodes \<times> kw_edges \<times> int \<Rightarrow> kw_nodes \<times> kw_edges \<times> int" where
  "insert_byte lab = (\<lambda>(ns, es, state).
     (let next = contentModerationKeywordBuildTransition ns es state lab
      in if next < 0 then
           (let next = int (length ns);
                ns = ns @ [newContentModerationKeywordNode];
                es = es @ [\<lparr>buildTarget = next, nextSibling = contentModerationKeywordBuildFirstEdge (ns ! nat state),
                            buildLabel = lab\<rparr>];
                ns = ns[nat state := (ns ! nat state)\<lparr>edgeStart := int (length es)\<rparr>]
            in (ns, es, next))
         else (ns, es, next)))"

definition insert_keyword ::
  "(string \<Rightarrow> string) \<Rightarrow> nat \<times> string \<Rightarrow> kw_nodes \<times> kw_edges \<Rightarrow> kw_nodes \<times> kw_edges" where
  "insert_keyword lower = (\<lambda>(keywordIndex, keyword) (ns, es).
     (if keyword = '''' then (ns, es)
      else
        (case fold insert_byte (lower keyword) (ns, es, 0) of (ns, es, state) \<Rightarrow>
           (let current = bestKeyword (ns ! nat state)
            in (if current < 0 \<or> int keywordIndex < current
                then ns[nat state := (ns ! nat state)\<lparr>bestKeyword := int keywordIndex\<rparr>] else ns, es)))))"

definition build_tree :: "(string \<Rightarrow> string) \<Rightarrow> string list \<Rightarrow> kw_nodes \<times> kw_edges" where
  "build_tree lower kws = fold (insert_keyword lower) (enumerate 0 kws) ([newContentModerationKeywordNode], [])"

subsection \<open>Failure links\<close>

partial_function (option) fallback_loop :: "kw_nodes \<Rightarrow> kw_edges \<Rightarrow> char \<Rightarrow> int \<Rightarrow> int \<Rightarrow> int option" where
  "fallback_loop ns es lab fl fallback =
     (if fallback < 0 \<and> fl \<noteq> 0
      then (let fl = failure (ns ! nat fl)
            in fallback_loop ns es lab fl (contentModerationKeywordBuildTransition ns es fl lab))
      else Some fallback)"

definition link_edge :: "kw_edges \<Rightarrow> int \<Rightarrow> contentModerationKeywordBuildEdge \<Rightarrow> kw_nodes \<Rightarrow> kw_nodes option" where
  "link_edge es state edge ns =
     (let fl = failure (ns ! nat state)
      in case fallback_loop ns es (buildLabel edge) fl (contentModerationKeywordBuildTransition ns es fl (buildLabel edge)) of
           None \<Rightarrow> None
         | Some fallback \<Rightarrow>
             (let t = nat (buildTarget edge);
                  ns = (if fallback \<ge> 0 then ns[t := (ns ! t)\<lparr>failure := fallback\<rparr>] else ns);
                  best = minKeywordIndex (bestKeyword (ns ! t)) (bestKeyword (ns ! nat (failure (ns ! t))))
              in Some (ns[t := (ns ! t)\<lparr>bestKeyword := best\<rparr>])))"

primrec link_edges ::
  "kw_edges \<Rightarrow> int \<Rightarrow> kw_edges \<Rightarrow> kw_nodes \<Rightarrow> int list \<Rightarrow> (kw_nodes \<times> int list) option" where
  "link_edges es state [] ns queue = Some (ns, queue)"
| "link_edges es state (edge # todo) ns queue =
     (case link_edge es state edge ns of
        None \<Rightarrow> None
      | Some ns \<Rightarrow> link_edges es state todo ns (queue @ [buildTarget edge]))"

text \<open>The loop over the queue; \<open>queue\<close> is the part from \<^verbatim>\<open>queueIndex\<close> on.\<close>

partial_function (option) link_queue :: "kw_edges \<Rightarrow> kw_nodes \<Rightarrow> int list \<Rightarrow> kw_nodes option" where
  "link_queue es ns queue =
     (case queue of
        [] \<Rightarrow> Some ns
      | state # rest \<Rightarrow>
          (case link_edges es state (siblings es (ns ! nat state)) ns rest of
             None \<Rightarrow> None
           | Some (ns, queue) \<Rightarrow> link_queue es ns queue))"

subsection \<open>The sorted edges\<close>

text \<open>One round of the insertion sort: the sorted part from its end to its start, and the edge to insert.\<close>

primrec shift_in ::
  "contentModerationKeywordEdge \<Rightarrow> contentModerationKeywordEdge list \<Rightarrow> contentModerationKeywordEdge list" where
  "shift_in current [] = [current]"
| "shift_in current (e # earlier) =
     (if label current < label e then e # shift_in current earlier else current # e # earlier)"

definition sort_edges :: "contentModerationKeywordEdge list \<Rightarrow> contentModerationKeywordEdge list" where
  "sort_edges outgoing = rev (fold shift_in outgoing [])"

definition compact_node ::
  "kw_edges \<Rightarrow> contentModerationKeywordNode \<Rightarrow> kw_nodes \<times> contentModerationKeywordEdge list \<Rightarrow>
   kw_nodes \<times> contentModerationKeywordEdge list" where
  "compact_node es node = (\<lambda>(ns, out).
     (let outgoing = sort_edges (map (\<lambda>e. \<lparr>target = buildTarget e, label = buildLabel e\<rparr>) (siblings es node))
      in (ns @ [node\<lparr>edgeStart := int (length out), edgeCount := int (length outgoing)\<rparr>], out @ outgoing)))"

definition newContentModerationKeywordMatcher ::
  "(string \<Rightarrow> string) \<Rightarrow> string list \<Rightarrow> contentModerationKeywordMatcher option option" where
  "newContentModerationKeywordMatcher lower kws =
     (if kws = [] then Some None
      else
        (case build_tree lower kws of (buildNodes, buildEdges) \<Rightarrow>
           if length buildNodes = 1 then Some None
           else
             (let first = siblings buildEdges (buildNodes ! 0);
                  root = fold (\<lambda>e r. r(buildLabel e := buildTarget e)) first (\<lambda>c. 0)
              in case link_queue buildEdges buildNodes (map buildTarget first) of
                   None \<Rightarrow> None
                 | Some buildNodes \<Rightarrow>
                     (case fold (compact_node buildEdges) buildNodes ([], []) of (ns, out) \<Rightarrow>
                        Some (Some \<lparr>nodes = ns, edges = out, rootTransitions = root, keywordList = kws\<rparr>)))))"

subsection \<open>Searching\<close>

function lower_bound :: "contentModerationKeywordEdge list \<Rightarrow> char \<Rightarrow> int \<Rightarrow> int \<Rightarrow> int" where
  "lower_bound es lab left right =
     (if left < right then
        (let middle = left + go_div (right - left) 2
         in if label (es ! nat middle) < lab then lower_bound es lab (middle + 1) right
            else lower_bound es lab left middle)
      else left)"
  by pat_completeness auto
termination
  by (relation "measure (\<lambda>(es, lab, left, right). nat (right - left))") (auto simp: go_div_nonneg)

declare lower_bound.simps [simp del]

definition next_state :: "contentModerationKeywordMatcher \<Rightarrow> int \<Rightarrow> char \<Rightarrow> int" where
  "next_state m state lab =
     (if state = 0 then rootTransitions m lab
      else if state < 0 \<or> state \<ge> int (length (nodes m)) then 0
      else
        (let node = nodes m ! nat state;
             left = lower_bound (edges m) lab (edgeStart node) (edgeStart node + edgeCount node);
             limit = edgeStart node + edgeCount node
         in if left < limit \<and> label (edges m ! nat left) = lab then target (edges m ! nat left) else 0))"

partial_function (option) advance :: "contentModerationKeywordMatcher \<Rightarrow> char \<Rightarrow> int \<Rightarrow> int option" where
  "advance m lab state =
     (let next = next_state m state lab
      in if next \<noteq> 0 then Some next
         else if state = 0 then Some state
         else advance m lab (failure (nodes m ! nat state)))"

text \<open>The loop over the bytes; the result is the best keyword, 0 as soon as it is found.\<close>

primrec scan :: "contentModerationKeywordMatcher \<Rightarrow> string \<Rightarrow> int \<Rightarrow> int \<Rightarrow> int option" where
  "scan m [] state best = Some best"
| "scan m (lab # rest) state best =
     (case advance m lab state of
        None \<Rightarrow> None
      | Some state \<Rightarrow>
          (let best = minKeywordIndex best (bestKeyword (nodes m ! nat state))
           in if best = 0 then Some 0 else scan m rest state best))"

definition Match ::
  "(string \<Rightarrow> string) \<Rightarrow> contentModerationKeywordMatcher option \<Rightarrow> string \<Rightarrow> (string \<times> bool) option" where
  "Match lower matcher text =
     (case matcher of
        None \<Rightarrow> Some ('''', False)
      | Some m \<Rightarrow>
          if text = '''' \<or> nodes m = [] \<or> keywordList m = [] then Some ('''', False)
          else
            (case scan m (lower text) 0 (-1) of
               None \<Rightarrow> None
             | Some best \<Rightarrow>
                 if best < 0 \<or> best \<ge> int (length (keywordList m)) then Some ('''', False)
                 else Some (keywordList m ! nat best, True)))"

declare fallback_loop.simps [code] link_queue.simps [code] advance.simps [code]

end
