(* ===== verification/KeywordProofs.thy ===== *)
theory KeywordProofs
  imports KeywordMatcher
begin

section \<open>The keyword matcher finds the first keyword in the list that the text contains\<close>

text \<open>
  The nodes of the automaton stand for strings, the prefixes of the lower-cased keywords. The proofs carry
  the list of these strings beside the nodes, show what the three phases of the construction establish, and
  then that a scan is at the longest suffix of the text read so far that is such a prefix.
\<close>

subsection \<open>The longest suffix in a set\<close>

primrec deepest :: "string set \<Rightarrow> string \<Rightarrow> string" where
  "deepest N [] = []"
| "deepest N (c # w) = (if c # w \<in> N then c # w else deepest N w)"

definition prefix_closed :: "string set \<Rightarrow> bool" where
  "prefix_closed N \<longleftrightarrow> [] \<in> N \<and> (\<forall>u c. u @ [c] \<in> N \<longrightarrow> u \<in> N)"

lemma deepest_suffix: "suffix (deepest N w) w"
  by (induction w) (auto intro: suffix_ConsI)

lemma deepest_in: "[] \<in> N \<Longrightarrow> deepest N w \<in> N"
  by (induction w) auto

lemma deepest_covers: "v \<in> N \<Longrightarrow> suffix v w \<Longrightarrow> suffix v (deepest N w)"
  by (induction w) (auto simp: suffix_Cons)

lemma deepest_is:
  assumes "v \<in> N" "suffix v w" "\<And>u. u \<in> N \<Longrightarrow> suffix u w \<Longrightarrow> suffix u v" "[] \<in> N"
  shows "deepest N w = v"
  using deepest_covers [OF assms(1,2)] assms(3) [OF deepest_in [OF assms(4)] deepest_suffix]
  by (rule suffix_order.antisym [rotated])

lemma deepest_self: "w \<in> N \<Longrightarrow> deepest N w = w"
  by (cases w) auto

lemma deepest_snoc:
  assumes "prefix_closed N"
  shows "deepest N (u @ [c]) = deepest N (deepest N u @ [c])"
proof (rule deepest_is)
  show "deepest N (deepest N u @ [c]) \<in> N" using assms by (intro deepest_in) (simp add: prefix_closed_def)
  show "suffix (deepest N (deepest N u @ [c])) (u @ [c])"
    by (rule suffix_order.trans [OF deepest_suffix]) (simp add: deepest_suffix)
  show "[] \<in> N" using assms by (simp add: prefix_closed_def)
  fix v assume v: "v \<in> N" "suffix v (u @ [c])"
  have "suffix v (deepest N u @ [c])"
  proof (cases v rule: rev_cases)
    case (snoc v' d)
    with v have "d = c" "suffix v' u" "v' \<in> N" using assms by (auto simp: prefix_closed_def)
    with snoc deepest_covers show ?thesis by auto
  qed simp
  with v show "suffix v (deepest N (deepest N u @ [c]))" by (intro deepest_covers)
qed

lemma deepest_shorter: "v \<noteq> [] \<Longrightarrow> length (deepest N (tl v)) < length v"
  using suffix_length_le [OF deepest_suffix, of N "tl v"] by (cases v) auto

text \<open>What following a failure link does.\<close>

lemma deepest_fail:
  assumes "prefix_closed N" "v @ [c] \<notin> N" "v \<noteq> []"
  shows "deepest N (v @ [c]) = deepest N (deepest N (tl v) @ [c])"
proof -
  obtain d w where v: "v = d # w" using assms(3) by (cases v) auto
  with assms(2) have "deepest N (v @ [c]) = deepest N (w @ [c])" by simp
  with deepest_snoc [OF assms(1), of w c] v show ?thesis by simp
qed

subsection \<open>The smallest keyword\<close>

definition smallest :: "(nat \<Rightarrow> bool) \<Rightarrow> int" where
  "smallest P = (if \<exists>i. P i then int (LEAST i. P i) else -1)"

lemma smallest_is: "P i \<Longrightarrow> (\<And>j. P j \<Longrightarrow> i \<le> j) \<Longrightarrow> smallest P = int i"
  by (auto simp: smallest_def intro!: Least_equality)

lemma smallest_none: "(\<And>i. \<not> P i) \<Longrightarrow> smallest P = -1"
  by (simp add: smallest_def)

lemma smallest_cases:
  obtains "smallest P = -1" "\<And>i. \<not> P i" | i where "smallest P = int i" "P i" "\<And>j. P j \<Longrightarrow> i \<le> j"
proof (cases "\<exists>i. P i")
  case True
  then show ?thesis using that(2) [of "LEAST i. P i"] LeastI_ex [of P] Least_le [of P] by (auto simp: smallest_def)
qed (auto simp: smallest_def intro: that(1))

lemma min_smallest: "minKeywordIndex (smallest P) (smallest Q) = smallest (\<lambda>i. P i \<or> Q i)"
proof (cases rule: smallest_cases [of P])
  case 1
  then show ?thesis by (simp add: minKeywordIndex_def)
next
  case p: (2 i)
  show ?thesis
  proof (cases rule: smallest_cases [of Q])
    case 1
    with p(1) show ?thesis by (simp add: minKeywordIndex_def)
  next
    case q: (2 j)
    have "smallest (\<lambda>i. P i \<or> Q i) = int (min i j)"
      using p(2,3) q(2,3) by (intro smallest_is) (auto simp: min_def, fastforce+)
    with p(1) q(1) show ?thesis by (simp add: minKeywordIndex_def min_def)
  qed
qed

lemma smallest_cong: "(\<And>i. P i = Q i) \<Longrightarrow> smallest P = smallest Q"
  by (rule arg_cong [of P Q]) blast

text \<open>The keywords that end at a string.\<close>

definition ends_at :: "(string \<Rightarrow> string) \<Rightarrow> string list \<Rightarrow> nat \<Rightarrow> string \<Rightarrow> nat \<Rightarrow> bool" where
  "ends_at lower kws k v j \<longleftrightarrow> j < k \<and> kws ! j \<noteq> '''' \<and> lower (kws ! j) = v"

definition ends_in :: "(string \<Rightarrow> string) \<Rightarrow> string list \<Rightarrow> string \<Rightarrow> nat \<Rightarrow> bool" where
  "ends_in lower kws v j \<longleftrightarrow> (\<exists>u. suffix u v \<and> ends_at lower kws (length kws) u j)"

subsection \<open>The chains of siblings\<close>

definition chained :: "kw_edges \<Rightarrow> bool" where
  "chained es \<longleftrightarrow> (\<forall>j < length es. buildTarget (es ! j) = int j + 1 \<and> nextSibling (es ! j) < int j \<and> -1 \<le> nextSibling (es ! j))"

lemma chain_stable:
  assumes "chained es"
  shows "f < int (length es) \<Longrightarrow> nat (f + 1) \<le> fuel \<Longrightarrow> sibling_chain fuel (es @ xs) f = sibling_chain (nat (f + 1)) es f"
proof (induction "nat (f + 1)" arbitrary: f fuel xs rule: less_induct)
  case less
  show ?case
  proof (cases "f < 0")
    case True
    then show ?thesis by (cases fuel) auto
  next
    case False
    then obtain n where n: "fuel = Suc n" using less.prems(2) by (cases fuel) auto
    let ?next = "nextSibling (es ! nat f)"
    have nx: "?next < f" "-1 \<le> ?next" using assms False less.prems(1) by (auto simp: chained_def dest!: spec [of _ "nat f"])
    have at: "(es @ xs) ! nat f = es ! nat f" using False less.prems(1) by (simp add: nth_append nat_less_iff)
    have "nat (?next + 1) < nat (f + 1)" using nx(1) False by simp
    note IH = less.hyps [OF this]
    have "sibling_chain n (es @ xs) ?next = sibling_chain (nat (?next + 1)) es ?next"
      using n nx less.prems by (intro IH) auto
    moreover have "sibling_chain (nat f) (es @ []) ?next = sibling_chain (nat (?next + 1)) es ?next"
      using nx False less.prems by (intro IH) auto
    moreover have "nat (f + 1) = Suc (nat f)" using False by simp
    ultimately show ?thesis using False by (simp add: n at)
  qed
qed

definition first_ok :: "kw_edges \<Rightarrow> contentModerationKeywordNode \<Rightarrow> bool" where
  "first_ok es node \<longleftrightarrow> 0 \<le> edgeStart node \<and> edgeStart node \<le> int (length es)"

lemma siblings_extend:
  assumes "chained es" "first_ok es node"
  shows "siblings (es @ xs) node = siblings es node"
proof -
  let ?f = "contentModerationKeywordBuildFirstEdge node"
  have "?f < int (length es)" using assms(2) by (auto simp: first_ok_def contentModerationKeywordBuildFirstEdge_def)
  from chain_stable [OF assms(1) this order_refl] show ?thesis by (simp add: siblings_def Let_def)
qed

lemma siblings_new:
  assumes "chained es" "first_ok es node" "nextSibling e = contentModerationKeywordBuildFirstEdge node"
  shows "siblings (es @ [e]) (node'\<lparr>edgeStart := int (length (es @ [e]))\<rparr>) = e # siblings es node"
proof -
  have "contentModerationKeywordBuildFirstEdge node < int (length es)" "-1 \<le> contentModerationKeywordBuildFirstEdge node"
    using assms(2) by (auto simp: first_ok_def contentModerationKeywordBuildFirstEdge_def)
  with chain_stable [OF assms(1) this(1), of "length es" "[e]"] assms(3)
  show ?thesis by (simp add: siblings_def Let_def contentModerationKeywordBuildFirstEdge_def [of "node'\<lparr>edgeStart := _\<rparr>"] nat_add_distrib)
qed

lemma siblings_fresh [simp]: "siblings es newContentModerationKeywordNode = []"
  by (simp add: siblings_def newContentModerationKeywordNode_def contentModerationKeywordBuildFirstEdge_def)

lemma siblings_cong: "edgeStart node = edgeStart node' \<Longrightarrow> siblings es node = siblings es node'"
  by (simp add: siblings_def contentModerationKeywordBuildFirstEdge_def)

subsection \<open>The tree\<close>

definition tree_ok :: "string list \<Rightarrow> kw_nodes \<Rightarrow> kw_edges \<Rightarrow> bool" where
  "tree_ok names ns es \<longleftrightarrow>
     length names = length ns \<and> length ns = Suc (length es) \<and> distinct names \<and> names ! 0 = [] \<and> chained es \<and>
     (\<forall>i < length ns. first_ok es (ns ! i)) \<and>
     (\<forall>i < length ns. distinct (siblings es (ns ! i)) \<and>
        (\<forall>e \<in> set (siblings es (ns ! i)). \<exists>j < length es. e = es ! j \<and> names ! Suc j = names ! i @ [buildLabel e])) \<and>
     (\<forall>j < length es. \<exists>i < length ns. es ! j \<in> set (siblings es (ns ! i)))"

lemma tree_okD:
  assumes "tree_ok names ns es"
  shows "length names = length ns" "length ns = Suc (length es)" "distinct names" "names ! 0 = []" "chained es"
    "i < length ns \<Longrightarrow> first_ok es (ns ! i)" "i < length ns \<Longrightarrow> distinct (siblings es (ns ! i))"
    "i < length ns \<Longrightarrow> e \<in> set (siblings es (ns ! i)) \<Longrightarrow> \<exists>j < length es. e = es ! j \<and> names ! Suc j = names ! i @ [buildLabel e]"
    "j < length es \<Longrightarrow> \<exists>i < length ns. es ! j \<in> set (siblings es (ns ! i))"
  using assms unfolding tree_ok_def by blast+

lemma tree_ok_cong:
  assumes "tree_ok names ns es" "length ns' = length ns" "\<And>i. i < length ns \<Longrightarrow> edgeStart (ns' ! i) = edgeStart (ns ! i)"
  shows "tree_ok names ns' es"
proof -
  have "siblings es (ns' ! i) = siblings es (ns ! i)" "first_ok es (ns' ! i) = first_ok es (ns ! i)" if "i < length ns" for i
    using assms(3) [OF that] by (auto simp: first_ok_def intro: siblings_cong)
  with assms(1,2) show ?thesis unfolding tree_ok_def by metis
qed

text \<open>A child's string and its edge determine each other.\<close>

lemma child_target:
  assumes "tree_ok names ns es" "i < length ns" "e \<in> set (siblings es (ns ! i))"
  obtains t where "buildTarget e = int t" "0 < t" "t < length ns" "names ! t = names ! i @ [buildLabel e]" "e = es ! (t - 1)"
proof -
  from tree_okD(8) [OF assms] obtain j where j: "j < length es" "e = es ! j" "names ! Suc j = names ! i @ [buildLabel e]" by blast
  with tree_okD(5) [OF assms(1)] have "buildTarget e = int j + 1" by (simp add: chained_def)
  with j tree_okD(2) [OF assms(1)] show ?thesis by (intro that [of "Suc j"]) auto
qed

lemma child_edge:
  assumes "tree_ok names ns es" "t < length ns" "names ! t = names ! i @ [c]" "i < length ns"
  shows "es ! (t - 1) \<in> set (siblings es (ns ! i)) \<and> buildLabel (es ! (t - 1)) = c \<and> buildTarget (es ! (t - 1)) = int t"
proof -
  have pos: "0 < t" using assms(3) tree_okD(4) [OF assms(1)] by (cases t) auto
  then have j: "t - 1 < length es" using assms(2) tree_okD(2) [OF assms(1)] by simp
  then obtain i' where i': "i' < length ns" "es ! (t - 1) \<in> set (siblings es (ns ! i'))" using tree_okD(9) [OF assms(1)] by blast
  have target: "buildTarget (es ! (t - 1)) = int t" using tree_okD(5) [OF assms(1)] j pos by (simp add: chained_def of_nat_diff)
  from child_target [OF assms(1) i'] obtain t' where t': "buildTarget (es ! (t - 1)) = int t'"
    "names ! t' = names ! i' @ [buildLabel (es ! (t - 1))]" by metis
  with target assms(3) have "names ! i' = names ! i" "buildLabel (es ! (t - 1)) = c" by auto
  with i' target show ?thesis using tree_okD(1,3) [OF assms(1)] assms(4) by (metis nth_eq_iff_index_eq)
qed

lemma transition_cases:
  assumes "tree_ok names ns es" "i < length ns"
  obtains (found) t where "t < length ns" "names ! t = names ! i @ [c]" "contentModerationKeywordBuildTransition ns es (int i) c = int t"
    | (none) "names ! i @ [c] \<notin> set names" "contentModerationKeywordBuildTransition ns es (int i) c = -1"
proof (cases "find (\<lambda>e. buildLabel e = c) (siblings es (ns ! i))")
  case None
  have "names ! i @ [c] \<notin> set names"
  proof
    assume "names ! i @ [c] \<in> set names"
    then obtain t where "t < length ns" "names ! t = names ! i @ [c]"
      using tree_okD(1) [OF assms(1)] by (auto simp: in_set_conv_nth)
    from child_edge [OF assms(1) this assms(2)] None show False by (auto simp: find_None_iff)
  qed
  with None assms(2) none show ?thesis by (simp add: contentModerationKeywordBuildTransition_def)
next
  case (Some e)
  then have e: "e \<in> set (siblings es (ns ! i))" "buildLabel e = c" by (auto simp: find_Some_iff)
  from child_target [OF assms this(1)] obtain t where "buildTarget e = int t" "t < length ns" "names ! t = names ! i @ [buildLabel e]" by metis
  with Some assms(2) e(2) found show ?thesis by (simp add: contentModerationKeywordBuildTransition_def)
qed

subsection \<open>Inserting the keywords\<close>

definition grows :: "string list \<Rightarrow> kw_nodes \<Rightarrow> string list \<Rightarrow> kw_nodes \<Rightarrow> bool" where
  "grows names ns names' ns' \<longleftrightarrow>
     (\<exists>more. names' = names @ more \<and> length ns' = length ns + length more) \<and>
     (\<forall>j < length ns. bestKeyword (ns' ! j) = bestKeyword (ns ! j) \<and> failure (ns' ! j) = failure (ns ! j)) \<and>
     (\<forall>j < length ns'. length ns \<le> j \<longrightarrow> bestKeyword (ns' ! j) = -1 \<and> failure (ns' ! j) = 0)"

lemma grows_refl: "grows names ns names ns"
  by (simp add: grows_def)

lemma grows_trans:
  assumes "grows names ns names' ns'" "grows names' ns' names'' ns''"
  shows "grows names ns names'' ns''"
proof -
  have "bestKeyword (ns'' ! j) = -1 \<and> failure (ns'' ! j) = 0" if "j < length ns''" "length ns \<le> j" for j
    using assms that unfolding grows_def by (cases "j < length ns'") auto
  moreover have "length ns \<le> length ns'" using assms(1) by (auto simp: grows_def)
  ultimately show ?thesis using assms unfolding grows_def by auto
qed

lemma insert_byte_ok:
  assumes ok: "tree_ok names ns es" and i: "i < length ns"
  obtains names' ns' es' t where "insert_byte c (ns, es, int i) = (ns', es', int t)" "tree_ok names' ns' es'" "t < length ns'"
    "names' ! t = names ! i @ [c]" "grows names ns names' ns'" "set names' \<subseteq> insert (names ! i @ [c]) (set names)"
    "length es' \<le> Suc (length es)"
  using ok i
proof (cases rule: transition_cases [of names ns es i c])
  case (found t)
  with that [of ns es t names] ok show ?thesis by (simp add: insert_byte_def grows_refl subset_insertI)
next
  case none
  let ?n = "length ns"
  define e where "e = \<lparr>buildTarget = int ?n, nextSibling = contentModerationKeywordBuildFirstEdge (ns ! i), buildLabel = c\<rparr>"
  define ns' where "ns' = (ns @ [newContentModerationKeywordNode])[i := (ns ! i)\<lparr>edgeStart := int (length (es @ [e]))\<rparr>]"
  let ?names = "names @ [names ! i @ [c]]"
  note D = tree_okD [OF ok]
  have ib: "insert_byte c (ns, es, int i) = (ns', es @ [e], int ?n)"
    using none(2) i by (simp add: insert_byte_def Let_def ns'_def e_def nth_append)
  have len: "length ns' = Suc ?n" by (simp add: ns'_def)
  have nth: "ns' ! j = (if j = i then (ns ! i)\<lparr>edgeStart := int (length (es @ [e]))\<rparr> else if j = ?n then newContentModerationKeywordNode else ns ! j)"
    if "j \<le> ?n" for j
    using that i by (auto simp: ns'_def nth_list_update nth_append)
  have "-1 \<le> nextSibling e" "nextSibling e < int (length es)"
    using D(6) [OF i] by (auto simp: e_def first_ok_def contentModerationKeywordBuildFirstEdge_def)
  moreover have "buildTarget e = int (length es) + 1" using D(2) by (simp add: e_def)
  ultimately have chained: "chained (es @ [e])" using D(5) by (auto simp: chained_def nth_append less_Suc_eq)
  have sib_i: "siblings (es @ [e]) (ns' ! i) = e # siblings es (ns ! i)"
    using siblings_new [OF D(5) D(6) [OF i], of e] nth [of i] i by (simp add: e_def)
  have sib: "siblings (es @ [e]) (ns' ! j) = siblings es (ns ! j)" if "j < ?n" "j \<noteq> i" for j
    using siblings_extend [OF D(5) D(6) [OF that(1)]] nth [of j] that by simp
  have sib_n: "siblings (es @ [e]) (ns' ! ?n) = []" using nth [of ?n] i by simp
  have old_edge: "x \<in> set (siblings es (ns ! j)) \<Longrightarrow> \<exists>m < length es. x = (es @ [e]) ! m \<and> ?names ! Suc m = ?names ! j @ [buildLabel x]"
    if "j < ?n" for x j
    using D(8) [OF that, of x] D(1,2) that by (auto simp: nth_append)
  have fresh_edge: "e \<notin> set (siblings es (ns ! i))"
  proof
    assume "e \<in> set (siblings es (ns ! i))"
    from D(8) [OF i this] obtain j where "j < length es" "e = es ! j" by blast
    with D(5) have "buildTarget e = int j + 1" by (simp add: chained_def)
    with \<open>j < length es\<close> \<open>buildTarget e = int (length es) + 1\<close> show False by simp
  qed
  have tree: "tree_ok ?names ns' (es @ [e])"
    unfolding tree_ok_def
  proof (intro conjI allI impI ballI)
    show "length ?names = length ns'" "length ns' = Suc (length (es @ [e]))" "distinct ?names" "?names ! 0 = []" "chained (es @ [e])"
      using D(1-4) len none(1) chained by (auto simp: nth_append)
    fix j assume j: "j < length ns'"
    show "first_ok (es @ [e]) (ns' ! j)"
      using j nth [of j] len D(6) [of j] by (auto simp: first_ok_def newContentModerationKeywordNode_def less_Suc_eq)
    consider "j = i" | "j = ?n" | "j < ?n" "j \<noteq> i" using j len by linarith
    note cases_j = this
    show "distinct (siblings (es @ [e]) (ns' ! j))"
      using cases_j
    proof cases
      case 1
      with sib_i D(7) [OF i] fresh_edge show ?thesis by simp
    next
      case 2
      with sib_n show ?thesis by simp
    next
      case 3
      with sib D(7) show ?thesis by simp
    qed
    fix x assume x: "x \<in> set (siblings (es @ [e]) (ns' ! j))"
    show "\<exists>m < length (es @ [e]). x = (es @ [e]) ! m \<and> ?names ! Suc m = ?names ! j @ [buildLabel x]"
    proof (cases "x = e \<and> j = i")
      case True
      with D(1,2) i show ?thesis by (intro exI [of _ "length es"]) (simp add: nth_append e_def)
    next
      case False
      from cases_j have "j < ?n \<and> x \<in> set (siblings es (ns ! j))"
      proof cases
        case 1
        with x False i sib_i show ?thesis by simp
      next
        case 2
        with x sib_n show ?thesis by simp
      next
        case 3
        with x sib show ?thesis by simp
      qed
      with old_edge [of j x] show ?thesis by (auto intro: less_SucI)
    qed
  next
    fix j assume j: "j < length (es @ [e])"
    show "\<exists>k < length ns'. (es @ [e]) ! j \<in> set (siblings (es @ [e]) (ns' ! k))"
    proof (cases "j < length es")
      case True
      with D(9) obtain k where k: "k < ?n" "es ! j \<in> set (siblings es (ns ! k))" by blast
      then have "es ! j \<in> set (siblings (es @ [e]) (ns' ! k))" using sib_i sib by (cases "k = i") auto
      with k True len show ?thesis by (intro exI [of _ k]) (auto simp: nth_append)
    next
      case False
      with j have "(es @ [e]) ! j = e" by (simp add: nth_append)
      with sib_i i len show ?thesis by (intro exI [of _ i]) auto
    qed
  qed
  have "grows names ns ?names ns'"
    using len nth i by (auto simp: grows_def newContentModerationKeywordNode_def)
  with that [OF ib tree] len D(1) show ?thesis by (simp add: nth_append)
qed

lemma insert_word_ok:
  assumes "tree_ok names ns es" "i < length ns"
  shows "\<exists>names' ns' es' t. fold insert_byte w (ns, es, int i) = (ns', es', int t) \<and> tree_ok names' ns' es' \<and> t < length ns' \<and>
    names' ! t = names ! i @ w \<and> grows names ns names' ns' \<and>
    set names' \<subseteq> set names \<union> {names ! i @ u |u. prefix u w} \<and> length es' \<le> length es + length w"
  using assms
proof (induction w arbitrary: names ns es i)
  case Nil
  then show ?case using grows_refl by (intro exI [of _ names] exI [of _ ns] exI [of _ es] exI [of _ i]) auto
next
  case (Cons c w)
  from insert_byte_ok [OF Cons.prems, of c] obtain names1 ns1 es1 t1 where
    one: "insert_byte c (ns, es, int i) = (ns1, es1, int t1)" "tree_ok names1 ns1 es1" "t1 < length ns1"
    "names1 ! t1 = names ! i @ [c]" "grows names ns names1 ns1" "set names1 \<subseteq> insert (names ! i @ [c]) (set names)"
    "length es1 \<le> Suc (length es)" by metis
  from Cons.IH [OF one(2,3)] obtain names' ns' es' t where
    more: "fold insert_byte w (ns1, es1, int t1) = (ns', es', int t)" "tree_ok names' ns' es'" "t < length ns'"
    "names' ! t = names1 ! t1 @ w" "grows names1 ns1 names' ns'" "set names' \<subseteq> set names1 \<union> {names1 ! t1 @ u |u. prefix u w}"
    "length es' \<le> length es1 + length w" by metis
  have "{names1 ! t1 @ u |u. prefix u w} \<subseteq> {names ! i @ u |u. prefix u (c # w)}"
    unfolding one(4) by (auto intro: exI [of _ "c # _"])
  moreover have "names ! i @ [c] \<in> {names ! i @ u |u. prefix u (c # w)}" by (auto intro: exI [of _ "[c]"])
  ultimately have "set names' \<subseteq> set names \<union> {names ! i @ u |u. prefix u (c # w)}" using one(6) more(6) by blast
  moreover have "fold insert_byte (c # w) (ns, es, int i) = (ns', es', int t)" using one(1) more(1) by simp
  moreover have "names' ! t = names ! i @ c # w" using one(4) more(4) by simp
  moreover have "length es' \<le> length es + length (c # w)" using one(7) more(7) by simp
  ultimately show ?case using more(2,3) grows_trans [OF one(5) more(5)] by metis
qed

text \<open>The tree after the first \<open>k\<close> keywords.\<close>

definition built :: "(string \<Rightarrow> string) \<Rightarrow> string list \<Rightarrow> nat \<Rightarrow> string list \<Rightarrow> kw_nodes \<Rightarrow> kw_edges \<Rightarrow> bool" where
  "built lower kws k names ns es \<longleftrightarrow> tree_ok names ns es \<and>
     (\<forall>i < length ns. failure (ns ! i) = 0 \<and> bestKeyword (ns ! i) = smallest (ends_at lower kws k (names ! i))) \<and>
     (\<forall>j < k. kws ! j \<noteq> '''' \<longrightarrow> lower (kws ! j) \<in> set names) \<and>
     (\<forall>v \<in> set names. v = [] \<or> (\<exists>j < k. prefix v (lower (kws ! j)))) \<and>
     length es \<le> sum_list (map (length \<circ> lower) (take k kws))"

lemma smallest_ends_Suc:
  "smallest (ends_at lower kws (Suc k) v) =
   (let current = smallest (ends_at lower kws k v)
    in if (kws ! k \<noteq> '''' \<and> lower (kws ! k) = v) \<and> (current < 0 \<or> int k < current) then int k else current)"
proof (cases rule: smallest_cases [of "ends_at lower kws k v"])
  case 1
  show ?thesis
  proof (cases "kws ! k \<noteq> '''' \<and> lower (kws ! k) = v")
    case True
    have "smallest (ends_at lower kws (Suc k) v) = int k"
      using True 1(2) by (intro smallest_is) (auto simp: ends_at_def less_Suc_eq)
    with True 1(1) show ?thesis by simp
  next
    case False
    then have "ends_at lower kws (Suc k) v j = ends_at lower kws k v j" for j by (auto simp: ends_at_def less_Suc_eq)
    from smallest_cong [of "ends_at lower kws (Suc k) v" "ends_at lower kws k v", OF this] False show ?thesis
      by (auto simp: Let_def)
  qed
next
  case (2 i)
  then have "i < k" by (simp add: ends_at_def)
  have "smallest (ends_at lower kws (Suc k) v) = int i"
    using 2(2,3) \<open>i < k\<close> by (intro smallest_is) (auto simp: ends_at_def less_Suc_eq)
  with 2(1) \<open>i < k\<close> show ?thesis by simp
qed

lemma insert_keyword_ok:
  assumes b: "built lower kws k names ns es" and k: "k < length kws"
  obtains names' ns' es' where "insert_keyword lower (k, kws ! k) (ns, es) = (ns', es')" "built lower kws (Suc k) names' ns' es'"
proof (cases "kws ! k = ''''")
  case True
  have "smallest (ends_at lower kws (Suc k) v) = smallest (ends_at lower kws k v)" for v
    using True by (simp add: smallest_ends_Suc Let_def)
  moreover have "sum_list (map (length \<circ> lower) (take k kws)) \<le> sum_list (map (length \<circ> lower) (take (Suc k) kws))"
    using k by (simp add: take_Suc_conv_app_nth)
  ultimately have "built lower kws (Suc k) names ns es"
    using b True unfolding built_def by (auto simp: less_Suc_eq)
  with True that show ?thesis by (simp add: insert_keyword_def)
next
  case False
  let ?w = "lower (kws ! k)"
  have tree: "tree_ok names ns es" using b by (simp add: built_def)
  have pos: "0 < length ns" using tree_okD(2) [OF tree] by simp
  from insert_word_ok [OF tree pos, of ?w] tree_okD(4) [OF tree] obtain names' ns1 es' t where
    w: "fold insert_byte ?w (ns, es, 0) = (ns1, es', int t)" "tree_ok names' ns1 es'" "t < length ns1"
    "names' ! t = ?w" "grows names ns names' ns1" "set names' \<subseteq> set names \<union> {u. prefix u ?w}" "length es' \<le> length es + length ?w"
    by auto
  note N = tree_okD(1,3) [OF tree] tree_okD(1,3) [OF w(2)]
  obtain more where more: "names' = names @ more" using w(5) by (auto simp: grows_def)
  let ?old = "\<lambda>i. smallest (ends_at lower kws k (names' ! i))"
  have old: "bestKeyword (ns1 ! i) = ?old i \<and> failure (ns1 ! i) = 0" if i: "i < length ns1" for i
  proof (cases "i < length ns")
    case True
    with w(5) b more N(1) show ?thesis by (simp add: grows_def built_def nth_append)
  next
    case False
    have "length names \<le> i" using False N(1) by simp
    then have "names' ! i \<in> set more" using more i N(3) by (simp add: nth_append)
    then have "names' ! i \<notin> set names" using N(4) more by auto
    then have "\<not> ends_at lower kws k (names' ! i) j" for j using b by (auto simp: built_def ends_at_def)
    from smallest_none [OF this] False i w(5) show ?thesis by (simp add: grows_def)
  qed
  define ns' where "ns' = (let current = bestKeyword (ns1 ! t) in
      if current < 0 \<or> int k < current then ns1[t := (ns1 ! t)\<lparr>bestKeyword := int k\<rparr>] else ns1)"
  have ik: "insert_keyword lower (k, kws ! k) (ns, es) = (ns', es')"
    using False w(1) by (simp add: insert_keyword_def ns'_def Let_def)
  have len: "length ns' = length ns1" by (simp add: ns'_def Let_def)
  have nth: "edgeStart (ns' ! i) = edgeStart (ns1 ! i) \<and> failure (ns' ! i) = failure (ns1 ! i) \<and>
      bestKeyword (ns' ! i) = (if i = t \<and> (bestKeyword (ns1 ! t) < 0 \<or> int k < bestKeyword (ns1 ! t)) then int k else bestKeyword (ns1 ! i))"
    if "i < length ns1" for i
    using that w(3) by (auto simp: ns'_def Let_def nth_list_update)
  have "tree_ok names' ns' es'" using tree_ok_cong [OF w(2) len] nth by blast
  moreover have "failure (ns' ! i) = 0 \<and> bestKeyword (ns' ! i) = smallest (ends_at lower kws (Suc k) (names' ! i))" if i: "i < length ns'" for i
  proof -
    have "(kws ! k \<noteq> '''' \<and> ?w = names' ! i) = (i = t)"
      using False w(3,4) i len N(3,4) by (metis nth_eq_iff_index_eq)
    with nth [of i] old [of i] old [OF w(3)] i len show ?thesis by (cases "i = t") (auto simp: smallest_ends_Suc Let_def)
  qed
  moreover have "?w \<in> set names'" using w(3,4) N(3) by (metis nth_mem)
  then have "\<forall>j < Suc k. kws ! j \<noteq> '''' \<longrightarrow> lower (kws ! j) \<in> set names'"
    using b more by (auto simp: built_def less_Suc_eq)
  moreover have "\<forall>v \<in> set names'. v = [] \<or> (\<exists>j < Suc k. prefix v (lower (kws ! j)))"
    using w(6) b unfolding built_def by (blast intro: less_SucI)
  moreover have "length es' \<le> sum_list (map (length \<circ> lower) (take (Suc k) kws))"
    using w(7) b k by (simp add: built_def take_Suc_conv_app_nth)
  ultimately have "built lower kws (Suc k) names' ns' es'" unfolding built_def by blast
  with ik that show ?thesis by blast
qed

lemma build_tree_ok: "\<exists>names. built lower kws (length kws) names (fst (build_tree lower kws)) (snd (build_tree lower kws))"
proof -
  have start: "built lower kws 0 [[]] [newContentModerationKeywordNode] []"
    by (simp add: built_def tree_ok_def chained_def first_ok_def newContentModerationKeywordNode_def ends_at_def smallest_none
        siblings_def contentModerationKeywordBuildFirstEdge_def)
  have "\<exists>names. built lower kws k names (fst (fold (insert_keyword lower) (enumerate 0 (take k kws)) ([newContentModerationKeywordNode], [])))
     (snd (fold (insert_keyword lower) (enumerate 0 (take k kws)) ([newContentModerationKeywordNode], [])))" if "k \<le> length kws" for k
    using that
  proof (induction k)
    case 0
    with start show ?case by auto
  next
    case (Suc k)
    let ?f = "fold (insert_keyword lower) (enumerate 0 (take k kws)) ([newContentModerationKeywordNode], [])"
    from Suc obtain names where "built lower kws k names (fst ?f) (snd ?f)" by auto
    moreover have "k < length kws" using Suc.prems by simp
    ultimately obtain names' ns' es' where
      "insert_keyword lower (k, kws ! k) (fst ?f, snd ?f) = (ns', es')" "built lower kws (Suc k) names' ns' es'"
      by (rule insert_keyword_ok)
    with Suc.prems show ?case by (auto simp: take_Suc_conv_app_nth enumerate_append_eq min_absorb2)
  qed
  from this [of "length kws"] show ?thesis by (simp add: build_tree_def)
qed

subsection \<open>The failure links\<close>

lemma tree_prefix_closed:
  assumes "tree_ok names ns es"
  shows "prefix_closed (set names)"
proof -
  note D = tree_okD [OF assms]
  have root: "[] \<in> set names" using D(1,2,4) by (metis nth_mem zero_less_Suc)
  have "u \<in> set names" if u: "u @ [c] \<in> set names" for u c
  proof -
    from u obtain t where t: "t < length ns" "names ! t = u @ [c]" using D(1) by (auto simp: in_set_conv_nth)
    then have "t - 1 < length es" using D(2,4) by (cases t) auto
    with D(9) obtain i where i: "i < length ns" "es ! (t - 1) \<in> set (siblings es (ns ! i))" by blast
    from child_target [OF assms i] obtain t' where t': "buildTarget (es ! (t - 1)) = int t'" "names ! t' = names ! i @ [buildLabel (es ! (t - 1))]"
      by metis
    have "buildTarget (es ! (t - 1)) = int t"
      using D(5) \<open>t - 1 < length es\<close> t(2) D(4) by (cases t) (auto simp: chained_def)
    with t t' have "u = names ! i" by simp
    with i D(1) show ?thesis by simp
  qed
  with root show ?thesis by (simp add: prefix_closed_def)
qed

lemma node_nonempty:
  assumes "tree_ok names ns es" "i < length ns" "i \<noteq> 0"
  shows "names ! i \<noteq> []"
proof -
  have "0 < length names" "i < length names" using tree_okD(1) [OF assms(1)] assms(2) by auto
  with nth_eq_iff_index_eq [OF tree_okD(3) [OF assms(1)]] assms(3) have "names ! i \<noteq> names ! 0" by blast
  with tree_okD(4) [OF assms(1)] show ?thesis by simp
qed

definition linked :: "(string \<Rightarrow> string) \<Rightarrow> string list \<Rightarrow> string list \<Rightarrow> kw_nodes \<Rightarrow> nat \<Rightarrow> bool" where
  "linked lower kws names ns t \<longleftrightarrow>
     (\<exists>f < length ns. failure (ns ! t) = int f \<and> names ! f = deepest (set names) (tl (names ! t))) \<and>
     bestKeyword (ns ! t) = smallest (ends_in lower kws (names ! t))"

definition untouched :: "(string \<Rightarrow> string) \<Rightarrow> string list \<Rightarrow> string list \<Rightarrow> kw_nodes \<Rightarrow> nat \<Rightarrow> bool" where
  "untouched lower kws names ns t \<longleftrightarrow>
     failure (ns ! t) = 0 \<and> bestKeyword (ns ! t) = smallest (ends_at lower kws (length kws) (names ! t))"

text \<open>The strings of the tree contain those of the keywords, and none of these is empty.\<close>

definition spells :: "(string \<Rightarrow> string) \<Rightarrow> string list \<Rightarrow> string list \<Rightarrow> bool" where
  "spells lower kws names \<longleftrightarrow> (\<forall>v j. ends_at lower kws (length kws) v j \<longrightarrow> v \<in> set names \<and> v \<noteq> [])"

lemma smallest_ends_in:
  assumes "spells lower kws names" "v \<noteq> []"
  shows "smallest (ends_in lower kws v) =
    minKeywordIndex (smallest (ends_at lower kws (length kws) v)) (smallest (ends_in lower kws (deepest (set names) (tl v))))"
proof -
  have "ends_in lower kws v j \<longleftrightarrow> ends_at lower kws (length kws) v j \<or> ends_in lower kws (deepest (set names) (tl v)) j" for j
  proof -
    have split: "suffix u v \<longleftrightarrow> u = v \<or> suffix u (tl v)" for u using assms(2) by (cases v) (auto simp: suffix_Cons)
    have cover: "u \<in> set names \<Longrightarrow> suffix u (tl v) \<longleftrightarrow> suffix u (deepest (set names) (tl v))" for u
      using deepest_covers [of u "set names" "tl v"] suffix_order.trans [OF _ deepest_suffix, of u "set names" "tl v"] by blast
    have known: "ends_at lower kws (length kws) u j \<Longrightarrow> u \<in> set names" for u
      using assms(1) unfolding spells_def by blast
    show ?thesis
    proof
      assume "ends_in lower kws v j"
      then obtain u where "suffix u v" "ends_at lower kws (length kws) u j" by (auto simp: ends_in_def)
      with split [of u] cover known show "ends_at lower kws (length kws) v j \<or> ends_in lower kws (deepest (set names) (tl v)) j"
        by (auto simp: ends_in_def)
    next
      assume "ends_at lower kws (length kws) v j \<or> ends_in lower kws (deepest (set names) (tl v)) j"
      with split cover known show "ends_in lower kws v j" by (auto simp: ends_in_def)
    qed
  qed
  then show ?thesis unfolding min_smallest by (rule smallest_cong)
qed

text \<open>The search for the fallback ends, at the deepest node that continues a suffix.\<close>

lemma fallback_ends:
  assumes "tree_ok names ns es" "i < length ns"
    and "\<And>t. t < length ns \<Longrightarrow> length (names ! t) \<le> length (names ! i) \<Longrightarrow> linked lower kws names ns t"
  shows "\<exists>r. fallback_loop ns es c (int i) (contentModerationKeywordBuildTransition ns es (int i) c) = Some r \<and>
    ((\<exists>t < length ns. r = int t \<and> names ! t = deepest (set names) (names ! i @ [c]) \<and> t \<noteq> 0) \<or>
     r = -1 \<and> deepest (set names) (names ! i @ [c]) = [])"
  using assms(2,3)
proof (induction "length (names ! i)" arbitrary: i rule: less_induct)
  case less
  let ?N = "set names"
  note D = tree_okD [OF assms(1)]
  show ?case
    using assms(1) less.prems(1)
  proof (cases rule: transition_cases [of names ns es i c])
    case (found t)
    have "names ! t \<in> ?N" using D(1) found(1) by simp
    with found have "deepest ?N (names ! i @ [c]) = names ! t" by (simp add: deepest_self)
    moreover have "t \<noteq> 0" using found(2) D(4) by (cases t) auto
    ultimately show ?thesis using found by (subst fallback_loop.simps) auto
  next
    case none
    show ?thesis
    proof (cases "i = 0")
      case True
      with none D(4) show ?thesis by (subst fallback_loop.simps) auto
    next
      case False
      have ne: "names ! i \<noteq> []" by (rule node_nonempty [OF assms(1) less.prems(1) False])
      from less.prems(2) [OF less.prems(1) order_refl] obtain f where
        f: "f < length ns" "failure (ns ! i) = int f" "names ! f = deepest ?N (tl (names ! i))" by (auto simp: linked_def)
      have short: "length (names ! f) < length (names ! i)" using deepest_shorter [OF ne] f(3) by simp
      from less.hyps [OF short f(1)] less.prems(2) short obtain r where
        r: "fallback_loop ns es c (int f) (contentModerationKeywordBuildTransition ns es (int f) c) = Some r"
        "(\<exists>t < length ns. r = int t \<and> names ! t = deepest ?N (names ! f @ [c]) \<and> t \<noteq> 0) \<or> r = -1 \<and> deepest ?N (names ! f @ [c]) = []"
        by fastforce
      have "deepest ?N (names ! i @ [c]) = deepest ?N (names ! f @ [c])"
        using deepest_fail [OF tree_prefix_closed [OF assms(1)] none(1) ne] f(3) by simp
      moreover have "fallback_loop ns es c (int i) (contentModerationKeywordBuildTransition ns es (int i) c) =
          fallback_loop ns es c (int f) (contentModerationKeywordBuildTransition ns es (int f) c)"
        using none(2) False f(2) by (subst fallback_loop.simps) (simp add: Let_def)
      ultimately show ?thesis using r by simp
    qed
  qed
qed

text \<open>Nodes that a step leaves alone.\<close>

definition same_nodes :: "nat set \<Rightarrow> kw_nodes \<Rightarrow> kw_nodes \<Rightarrow> bool" where
  "same_nodes T ns ns' \<longleftrightarrow> length ns' = length ns \<and>
     (\<forall>t < length ns. edgeStart (ns' ! t) = edgeStart (ns ! t) \<and> (t \<notin> T \<longrightarrow> ns' ! t = ns ! t))"

lemma same_nodes_tree: "same_nodes T ns ns' \<Longrightarrow> tree_ok names ns es \<Longrightarrow> tree_ok names ns' es"
  by (auto simp: same_nodes_def intro: tree_ok_cong)

lemma same_nodes_linked:
  "same_nodes T ns ns' \<Longrightarrow> t < length ns \<Longrightarrow> t \<notin> T \<Longrightarrow> linked lower kws names ns' t = linked lower kws names ns t"
  "same_nodes T ns ns' \<Longrightarrow> t < length ns \<Longrightarrow> t \<notin> T \<Longrightarrow> untouched lower kws names ns' t = untouched lower kws names ns t"
  by (auto simp: same_nodes_def linked_def untouched_def)

lemma same_nodes_trans: "same_nodes T ns ns' \<Longrightarrow> same_nodes U ns' ns'' \<Longrightarrow> same_nodes (T \<union> U) ns ns''"
  by (auto simp: same_nodes_def)

lemma link_edge_ok:
  assumes tree: "tree_ok names ns es" and sp: "spells lower kws names" and i: "i < length ns" "i \<noteq> 0"
    and e: "e \<in> set (siblings es (ns ! i))" "buildTarget e = int t"
    and low: "\<And>t. t < length ns \<Longrightarrow> length (names ! t) \<le> length (names ! i) \<Longrightarrow> linked lower kws names ns t"
    and fresh: "untouched lower kws names ns t"
  shows "\<exists>ns'. link_edge es (int i) e ns = Some ns' \<and> same_nodes {t} ns ns' \<and> linked lower kws names ns' t"
proof -
  let ?N = "set names"
  note D = tree_okD [OF tree]
  from child_target [OF tree i(1) e(1)] obtain u where "buildTarget e = int u" "u < length ns" "names ! u = names ! i @ [buildLabel e]"
    by metis
  with e(2) have t: "t < length ns" "names ! t = names ! i @ [buildLabel e]" by simp_all
  have ne: "names ! i \<noteq> []" by (rule node_nonempty [OF tree i])
  from low [OF i(1) order_refl] obtain f where f: "f < length ns" "failure (ns ! i) = int f" "names ! f = deepest ?N (tl (names ! i))"
    by (auto simp: linked_def)
  have "length (names ! f) < length (names ! i)" using deepest_shorter [OF ne] f(3) by simp
  then have "\<And>t. t < length ns \<Longrightarrow> length (names ! t) \<le> length (names ! f) \<Longrightarrow> linked lower kws names ns t" using low by simp
  note fe = fallback_ends [OF tree f(1) this]
  from fe [of "buildLabel e"] obtain r where
    r: "fallback_loop ns es (buildLabel e) (int f) (contentModerationKeywordBuildTransition ns es (int f) (buildLabel e)) = Some r"
    "(\<exists>g < length ns. r = int g \<and> names ! g = deepest ?N (names ! f @ [buildLabel e]) \<and> g \<noteq> 0) \<or> r = -1 \<and> deepest ?N (names ! f @ [buildLabel e]) = []"
    by blast
  have tail: "deepest ?N (tl (names ! t)) = deepest ?N (names ! f @ [buildLabel e])"
    using deepest_snoc [OF tree_prefix_closed [OF tree]] t(2) ne f(3) by simp
  define g where "g = (if r \<ge> 0 then nat r else 0)"
  have g: "g < length ns" "names ! g = deepest ?N (tl (names ! t))" using r(2) tail D(2,4) by (auto simp: g_def)
  have len: "length (names ! g) \<le> length (names ! i)"
    using suffix_length_le [OF deepest_suffix, of ?N "tl (names ! t)"] g(2) t(2) ne by simp
  then have gt: "g \<noteq> t" using t(2) by auto
  define x where "x = (ns ! t)\<lparr>failure := int g, bestKeyword := minKeywordIndex (bestKeyword (ns ! t)) (bestKeyword (ns ! g))\<rparr>"
  have fail0: "failure (ns ! t) = 0" using fresh by (simp add: untouched_def)
  have keep: "(ns ! t)\<lparr>failure := 0, bestKeyword := b\<rparr> = (ns ! t)\<lparr>bestKeyword := b\<rparr>" for b
    using fail0 by (cases "ns ! t") simp
  have "g = 0 \<Longrightarrow> x = (ns ! t)\<lparr>bestKeyword := minKeywordIndex (bestKeyword (ns ! t)) (bestKeyword (ns ! 0))\<rparr>"
    by (simp only: x_def of_nat_0 keep)
  note x0 = this
  have res: "link_edge es (int i) e ns = Some (ns[t := x])"
  proof (cases "r \<ge> 0")
    case True
    with r(1) f(2) t(1) e(2) gt show ?thesis by (simp add: link_edge_def Let_def g_def x_def nth_list_update)
  next
    case False
    then have "g = 0" by (simp add: g_def)
    with False r(1) f(2) t(1) e(2) fail0 x0 show ?thesis by (simp add: link_edge_def Let_def)
  qed
  have "same_nodes {t} ns (ns[t := x])" using t(1) by (auto simp: same_nodes_def x_def nth_list_update)
  moreover have "linked lower kws names (ns[t := x]) t"
  proof -
    have "bestKeyword (ns ! g) = smallest (ends_in lower kws (names ! g))" using low [OF g(1) len] by (simp add: linked_def)
    moreover have "bestKeyword (ns ! t) = smallest (ends_at lower kws (length kws) (names ! t))" using fresh by (simp add: untouched_def)
    moreover have "names ! t \<noteq> []" using t(2) by simp
    ultimately have "bestKeyword x = smallest (ends_in lower kws (names ! t))"
      using smallest_ends_in [OF sp] g(2) by (simp add: x_def)
    with g t(1) show ?thesis by (auto simp: linked_def x_def)
  qed
  ultimately show ?thesis using res by blast
qed

lemma link_edges_ok:
  assumes "tree_ok names ns es" "spells lower kws names" "i < length ns" "i \<noteq> 0"
    and "set todo \<subseteq> set (siblings es (ns ! i))" "distinct todo"
    and "\<And>t. t < length ns \<Longrightarrow> length (names ! t) \<le> length (names ! i) \<Longrightarrow> linked lower kws names ns t"
    and "\<And>e. e \<in> set todo \<Longrightarrow> untouched lower kws names ns (nat (buildTarget e))"
  shows "\<exists>ns'. link_edges es (int i) todo ns queue = Some (ns', queue @ map buildTarget todo) \<and>
    same_nodes ((nat \<circ> buildTarget) ` set todo) ns ns' \<and> (\<forall>e \<in> set todo. linked lower kws names ns' (nat (buildTarget e)))"
  using assms
proof (induction todo arbitrary: ns queue)
  case Nil
  then show ?case by (auto simp: same_nodes_def)
next
  case (Cons e todo)
  note tree = Cons.prems(1)
  have e: "e \<in> set (siblings es (ns ! i))" using Cons.prems(5) by simp
  from child_target [OF tree Cons.prems(3) e] obtain t where
    t: "buildTarget e = int t" "t < length ns" "names ! t = names ! i @ [buildLabel e]" "e = es ! (t - 1)" by metis
  have "untouched lower kws names ns t" using Cons.prems(8) [of e] t(1) by simp
  from link_edge_ok [OF tree Cons.prems(2-4) e t(1) Cons.prems(7) this] obtain ns1 where
    one: "link_edge es (int i) e ns = Some ns1" "same_nodes {t} ns ns1" "linked lower kws names ns1 t" by blast
  have tree1: "tree_ok names ns1 es" using same_nodes_tree [OF one(2) tree] .
  have len: "length ns1 = length ns" using one(2) by (simp add: same_nodes_def)
  have sib: "siblings es (ns1 ! i) = siblings es (ns ! i)"
    using one(2) Cons.prems(3) by (intro siblings_cong) (simp add: same_nodes_def)
  have other: "nat (buildTarget e') \<noteq> t" "nat (buildTarget e') < length ns" if "e' \<in> set todo" for e'
  proof -
    have e': "e' \<in> set (siblings es (ns ! i))" "e' \<noteq> e" using that Cons.prems(5,6) by auto
    from child_target [OF tree Cons.prems(3) e'(1)] obtain t' where "buildTarget e' = int t'" "t' < length ns" "e' = es ! (t' - 1)" by metis
    with t e'(2) show "nat (buildTarget e') \<noteq> t" "nat (buildTarget e') < length ns" by auto
  qed
  have "\<exists>ns'. link_edges es (int i) todo ns1 (queue @ [buildTarget e]) = Some (ns', (queue @ [buildTarget e]) @ map buildTarget todo) \<and>
    same_nodes ((nat \<circ> buildTarget) ` set todo) ns1 ns' \<and> (\<forall>e \<in> set todo. linked lower kws names ns' (nat (buildTarget e)))"
  proof (rule Cons.IH [OF tree1 Cons.prems(2)])
    show "i < length ns1" "i \<noteq> 0" "set todo \<subseteq> set (siblings es (ns1 ! i))" "distinct todo"
      using Cons.prems(3-6) len sib by auto
    show "linked lower kws names ns1 u" if u: "u < length ns1" "length (names ! u) \<le> length (names ! i)" for u
    proof -
      have "u \<noteq> t" using u(2) t(3) by auto
      with same_nodes_linked(1) [OF one(2)] Cons.prems(7) u len show ?thesis by simp
    qed
    show "untouched lower kws names ns1 (nat (buildTarget e'))" if "e' \<in> set todo" for e'
      using same_nodes_linked(2) [OF one(2)] other [OF that] Cons.prems(8) that by simp
  qed
  then obtain ns' where rest: "link_edges es (int i) todo ns1 (queue @ [buildTarget e]) = Some (ns', (queue @ [buildTarget e]) @ map buildTarget todo)"
    "same_nodes ((nat \<circ> buildTarget) ` set todo) ns1 ns'" "\<forall>e \<in> set todo. linked lower kws names ns' (nat (buildTarget e))" by blast
  have "t \<notin> (nat \<circ> buildTarget) ` set todo" using other by auto
  with same_nodes_linked(1) [OF rest(2)] one(3) t(2) len have "linked lower kws names ns' t" by simp
  moreover have "same_nodes ((nat \<circ> buildTarget) ` set (e # todo)) ns ns'"
    using same_nodes_trans [OF one(2) rest(2)] t(1) by simp
  ultimately show ?case using one(1) rest(1,3) t(1) by auto
qed

text \<open>
  The loop over the queue: \<open>P\<close> are the nodes taken from it and the root. The nodes of \<open>P\<close> and of the queue are linked,
  they are the root and the children of \<open>P\<close>, and the queue goes from shorter strings to longer ones.
\<close>

definition queue_ok ::
  "(string \<Rightarrow> string) \<Rightarrow> string list \<Rightarrow> string list \<Rightarrow> kw_nodes \<Rightarrow> nat set \<Rightarrow> nat list \<Rightarrow> bool" where
  "queue_ok lower kws names ns P q \<longleftrightarrow>
     P \<subseteq> {..< length ns} \<and> 0 \<in> P \<and> set q \<subseteq> {..< length ns} \<and> set q \<inter> P = {} \<and> distinct q \<and>
     (\<forall>t < length ns. if t \<in> P \<union> set q then linked lower kws names ns t else untouched lower kws names ns t) \<and>
     (\<forall>t < length ns. t \<noteq> 0 \<longrightarrow> (t \<in> P \<union> set q \<longleftrightarrow> (\<exists>i \<in> P. \<exists>c. names ! t = names ! i @ [c]))) \<and>
     sorted (map (\<lambda>t. length (names ! t)) q) \<and>
     (\<forall>t \<in> set q. length (names ! t) \<le> Suc (length (names ! hd q)))"

lemma queue_okD:
  assumes "queue_ok lower kws names ns P q"
  shows "P \<subseteq> {..< length ns}" "0 \<in> P" "set q \<subseteq> {..< length ns}" "set q \<inter> P = {}" "distinct q"
    "t < length ns \<Longrightarrow> t \<in> P \<union> set q \<Longrightarrow> linked lower kws names ns t"
    "t < length ns \<Longrightarrow> t \<notin> P \<union> set q \<Longrightarrow> untouched lower kws names ns t"
    "t < length ns \<Longrightarrow> t \<noteq> 0 \<Longrightarrow> t \<in> P \<union> set q \<longleftrightarrow> (\<exists>i \<in> P. \<exists>c. names ! t = names ! i @ [c])"
    "sorted (map (\<lambda>t. length (names ! t)) q)" "t \<in> set q \<Longrightarrow> length (names ! t) \<le> Suc (length (names ! hd q))"
proof -
  note parts = assms [unfolded queue_ok_def]
  show "P \<subseteq> {..< length ns}" "0 \<in> P" "set q \<subseteq> {..< length ns}" "set q \<inter> P = {}" "distinct q"
    "sorted (map (\<lambda>t. length (names ! t)) q)"
    using parts by blast+
  from parts have status: "\<forall>t < length ns. if t \<in> P \<union> set q then linked lower kws names ns t else untouched lower kws names ns t"
    and reach: "\<forall>t < length ns. t \<noteq> 0 \<longrightarrow> (t \<in> P \<union> set q \<longleftrightarrow> (\<exists>i \<in> P. \<exists>c. names ! t = names ! i @ [c]))"
    and near: "\<forall>t \<in> set q. length (names ! t) \<le> Suc (length (names ! hd q))" by blast+
  show "t < length ns \<Longrightarrow> t \<in> P \<union> set q \<Longrightarrow> linked lower kws names ns t"
    "t < length ns \<Longrightarrow> t \<notin> P \<union> set q \<Longrightarrow> untouched lower kws names ns t"
    using status by auto
  show "t < length ns \<Longrightarrow> t \<noteq> 0 \<Longrightarrow> t \<in> P \<union> set q \<longleftrightarrow> (\<exists>i \<in> P. \<exists>c. names ! t = names ! i @ [c])"
    using reach by simp
  show "t \<in> set q \<Longrightarrow> length (names ! t) \<le> Suc (length (names ! hd q))" using near by simp
qed

lemma tree_parent:
  assumes "tree_ok names ns es" "t < length ns" "t \<noteq> 0"
  obtains i c where "i < length ns" "names ! t = names ! i @ [c]"
proof -
  have "names ! t \<noteq> []" by (rule node_nonempty [OF assms])
  then obtain u c where u: "names ! t = u @ [c]" by (metis rev_exhaust)
  moreover have "names ! t \<in> set names" using assms(2) tree_okD(1) [OF assms(1)] by simp
  ultimately have "u \<in> set names" using tree_prefix_closed [OF assms(1)] unfolding prefix_closed_def by metis
  then obtain i where "i < length ns" "names ! i = u" using tree_okD(1) [OF assms(1)] by (metis in_set_conv_nth)
  with u that show ?thesis by blast
qed

text \<open>Every node whose string is no longer than the first of the queue has been reached.\<close>

lemma short_reached:
  assumes tree: "tree_ok names ns es" and ok: "queue_ok lower kws names ns P q"
    and t: "t < length ns" and len: "\<And>s. s \<in> set q \<Longrightarrow> length (names ! t) \<le> length (names ! s)"
  shows "t \<in> P \<union> set q"
  using t len
proof (induction "length (names ! t)" arbitrary: t rule: less_induct)
  case less
  show ?case
  proof (cases "t = 0")
    case True
    with queue_okD(2) [OF ok] show ?thesis by simp
  next
    case False
    from tree_parent [OF tree less.prems(1) False] obtain i c where i: "i < length ns" "names ! t = names ! i @ [c]" .
    have shorter: "length (names ! i) < length (names ! t)" using i(2) by simp
    have "i \<in> P \<union> set q"
    proof (rule less.hyps [OF shorter i(1)])
      fix s assume "s \<in> set q"
      from less.prems(2) [OF this] shorter show "length (names ! i) \<le> length (names ! s)" by simp
    qed
    moreover have "i \<notin> set q" using shorter less.prems(2) [of i] by auto
    ultimately have "\<exists>i \<in> P. \<exists>c. names ! t = names ! i @ [c]" using i(2) by blast
    with queue_okD(8) [OF ok less.prems(1) False] show ?thesis by blast
  qed
qed

text \<open>The children of a node, as the siblings of its first edge.\<close>

definition children :: "kw_edges \<Rightarrow> contentModerationKeywordNode \<Rightarrow> nat list" where
  "children es node = map (nat \<circ> buildTarget) (siblings es node)"

lemma children_facts:
  assumes "tree_ok names ns es" "i < length ns"
  shows "distinct (children es (ns ! i))" "map int (children es (ns ! i)) = map buildTarget (siblings es (ns ! i))"
    "t \<in> set (children es (ns ! i)) \<longleftrightarrow> t < length ns \<and> (\<exists>c. names ! t = names ! i @ [c])"
proof -
  have target: "\<exists>t. buildTarget e = int t \<and> t < length ns \<and> names ! t = names ! i @ [buildLabel e] \<and> e = es ! (t - 1)"
    if "e \<in> set (siblings es (ns ! i))" for e
    using child_target [OF assms that] by metis
  have "inj_on (nat \<circ> buildTarget) (set (siblings es (ns ! i)))"
  proof (rule inj_onI)
    fix e e' assume e: "e \<in> set (siblings es (ns ! i))" "e' \<in> set (siblings es (ns ! i))" "(nat \<circ> buildTarget) e = (nat \<circ> buildTarget) e'"
    from target [OF e(1)] target [OF e(2)] e(3) show "e = e'" by (metis comp_apply nat_int)
  qed
  then show "distinct (children es (ns ! i))" using tree_okD(7) [OF assms] by (simp add: children_def distinct_map)
  show "map int (children es (ns ! i)) = map buildTarget (siblings es (ns ! i))"
    unfolding children_def map_map using target by (intro map_cong refl) force
  show "t \<in> set (children es (ns ! i)) \<longleftrightarrow> t < length ns \<and> (\<exists>c. names ! t = names ! i @ [c])"
  proof
    assume "t \<in> set (children es (ns ! i))"
    then obtain e where "e \<in> set (siblings es (ns ! i))" "t = nat (buildTarget e)" by (auto simp: children_def)
    with target [of e] show "t < length ns \<and> (\<exists>c. names ! t = names ! i @ [c])" by (metis nat_int)
  next
    assume "t < length ns \<and> (\<exists>c. names ! t = names ! i @ [c])"
    then obtain c where "t < length ns" "names ! t = names ! i @ [c]" by blast
    from child_edge [OF assms(1) this assms(2)]
    have e: "es ! (t - 1) \<in> set (siblings es (ns ! i))" "buildTarget (es ! (t - 1)) = int t" by blast+
    show "t \<in> set (children es (ns ! i))"
      unfolding children_def set_map by (rule image_eqI [OF _ e(1)]) (simp only: comp_apply e(2) nat_int)
  qed
qed

lemma sorted_constant: "(\<And>x. x \<in> set xs \<Longrightarrow> f x = n) \<Longrightarrow> sorted (map f xs)"
  by (induction xs) auto

lemma queue_step:
  assumes tree: "tree_ok names ns es" and sp: "spells lower kws names" and ok: "queue_ok lower kws names ns P (s # rest)"
  shows "\<exists>ns'. link_edges es (int s) (siblings es (ns ! s)) ns (map int rest) = Some (ns', map int (rest @ children es (ns ! s))) \<and>
    tree_ok names ns' es \<and> length ns' = length ns \<and> queue_ok lower kws names ns' (insert s P) (rest @ children es (ns ! s))"
proof -
  note Q = queue_okD [OF ok] and D = tree_okD [OF tree]
  have s: "s < length ns" "s \<noteq> 0" "s \<notin> P" using Q(2,3,4) by auto
  let ?C = "children es (ns ! s)"
  note C = children_facts [OF tree s(1)]
  have sorted_le: "length (names ! s) \<le> length (names ! t)" if "t \<in> set rest" for t using Q(9) that by simp
  have parent: "names ! t = names ! i @ [c] \<Longrightarrow> t \<in> set ?C \<Longrightarrow> i < length ns \<Longrightarrow> i = s" for t i c
    using C(3) [of t] D(1,3) s(1) by (metis append1_eq_conv nth_eq_iff_index_eq)
  have new: "t \<notin> P \<union> set (s # rest)" if t: "t \<in> set ?C" for t
  proof
    assume "t \<in> P \<union> set (s # rest)"
    moreover have "t < length ns" "t \<noteq> 0" using C(3) [of t] t D(4) by (cases t; auto)+
    ultimately obtain i c where "i \<in> P" "names ! t = names ! i @ [c]" using Q(8) [of t] by blast
    with parent [OF this(2) t] Q(1) s(3) show False by auto
  qed
  have low: "linked lower kws names ns t" if "t < length ns" "length (names ! t) \<le> length (names ! s)" for t
  proof (rule Q(6) [OF that(1)], rule short_reached [OF tree ok that(1)])
    fix r assume "r \<in> set (s # rest)"
    with that(2) sorted_le [of r] show "length (names ! t) \<le> length (names ! r)" by auto
  qed
  have "\<exists>ns'. link_edges es (int s) (siblings es (ns ! s)) ns (map int rest) = Some (ns', map int rest @ map buildTarget (siblings es (ns ! s))) \<and>
    same_nodes ((nat \<circ> buildTarget) ` set (siblings es (ns ! s))) ns ns' \<and>
    (\<forall>e \<in> set (siblings es (ns ! s)). linked lower kws names ns' (nat (buildTarget e)))"
  proof (rule link_edges_ok [OF tree sp s(1,2) order_refl D(7) [OF s(1)] low])
    fix e assume "e \<in> set (siblings es (ns ! s))"
    then have "nat (buildTarget e) \<in> set ?C" by (auto simp: children_def)
    with new C(3) Q(7) show "untouched lower kws names ns (nat (buildTarget e))" by blast
  qed
  then obtain ns' where ns': "link_edges es (int s) (siblings es (ns ! s)) ns (map int rest) = Some (ns', map int (rest @ ?C))"
    "same_nodes (set ?C) ns ns'" "\<forall>t \<in> set ?C. linked lower kws names ns' t"
    using C(2) by (auto simp: children_def)
  have len: "length ns' = length ns" using ns'(2) by (simp add: same_nodes_def)
  have reached: "insert s P \<union> set (rest @ ?C) = P \<union> set (s # rest) \<union> set ?C" by auto
  have child_len: "length (names ! t) = Suc (length (names ! s))" if "t \<in> set ?C" for t using C(3) that by fastforce
  have "queue_ok lower kws names ns' (insert s P) (rest @ ?C)"
    unfolding queue_ok_def len
  proof (intro conjI allI impI ballI)
    show "insert s P \<subseteq> {..< length ns}" "0 \<in> insert s P" "set (rest @ ?C) \<subseteq> {..< length ns}" using Q(1,2,3) s C(3) by auto
    show "set (rest @ ?C) \<inter> insert s P = {}" "distinct (rest @ ?C)" using Q(4,5) new C(1) by auto
    fix t assume t: "t < length ns"
    show "if t \<in> insert s P \<union> set (rest @ ?C) then linked lower kws names ns' t else untouched lower kws names ns' t"
    proof (cases "t \<in> set ?C")
      case True
      with ns'(3) show ?thesis by simp
    next
      case False
      with same_nodes_linked [OF ns'(2) t False] Q(6,7) [OF t] reached show ?thesis by auto
    qed
  next
    fix t assume t: "t < length ns" "t \<noteq> 0"
    show "t \<in> insert s P \<union> set (rest @ ?C) \<longleftrightarrow> (\<exists>i \<in> insert s P. \<exists>c. names ! t = names ! i @ [c])"
      unfolding reached using Q(8) [OF t] C(3) [of t] t(1) by blast
  next
    show "sorted (map (\<lambda>t. length (names ! t)) (rest @ ?C))"
    proof -
      have "sorted (map (\<lambda>t. length (names ! t)) ?C)" using child_len by (intro sorted_constant) simp
      moreover have "length (names ! t) \<le> Suc (length (names ! s))" if "t \<in> set rest" for t using Q(10) [of t] that by simp
      ultimately show ?thesis using Q(9) child_len by (simp add: sorted_append)
    qed
  next
    fix t assume t: "t \<in> set (rest @ ?C)"
    have upper: "length (names ! r) \<le> Suc (length (names ! s))" if "r \<in> set (rest @ ?C)" for r
      using Q(10) [of r] child_len [of r] that by auto
    have lower: "length (names ! s) \<le> length (names ! r)" if "r \<in> set (rest @ ?C)" for r
      using sorted_le [of r] child_len [of r] that by auto
    from t have "rest @ ?C \<noteq> []" by auto
    from upper [OF t] lower [OF hd_in_set [OF this]] show "length (names ! t) \<le> Suc (length (names ! hd (rest @ ?C)))" by simp
  qed
  with ns'(1) len same_nodes_tree [OF ns'(2) tree] show ?thesis by blast
qed

lemma queue_ends:
  assumes "tree_ok names ns es" "spells lower kws names" "queue_ok lower kws names ns P q"
  shows "\<exists>ns'. link_queue es ns (map int q) = Some ns' \<and> tree_ok names ns' es \<and> length ns' = length ns \<and>
    (\<forall>t < length ns'. linked lower kws names ns' t)"
  using assms
proof (induction "card ({..< length ns} - P)" arbitrary: ns P q rule: less_induct)
  case less
  note Q = queue_okD [OF less.prems(3)]
  show ?case
  proof (cases q)
    case Nil
    have "linked lower kws names ns t" if "t < length ns" for t
      using Q(6) [OF that] short_reached [OF less.prems(1,3) that] Nil by simp
    with Nil less.prems(1) show ?thesis by (subst link_queue.simps) simp
  next
    case (Cons s rest)
    from queue_step [OF less.prems(1,2) less.prems(3) [unfolded Cons]] obtain ns' where
      st: "link_edges es (int s) (siblings es (ns ! s)) ns (map int rest) = Some (ns', map int (rest @ children es (ns ! s)))"
      "tree_ok names ns' es" "length ns' = length ns" "queue_ok lower kws names ns' (insert s P) (rest @ children es (ns ! s))" by blast
    have "s < length ns" "s \<notin> P" using Q(3,4) Cons by auto
    then have "card ({..< length ns'} - insert s P) < card ({..< length ns} - P)"
      unfolding st(3) by (intro psubset_card_mono) auto
    from less.hyps [OF this st(2) less.prems(2) st(4)] st(1,3) Cons show ?thesis by (subst link_queue.simps) simp
  qed
qed

lemma spells_nothing: "spells lower kws names \<Longrightarrow> \<not> ends_at lower kws (length kws) [] j"
  unfolding spells_def by blast

lemma start_linked:
  assumes "tree_ok names ns es" "spells lower kws names" "t < length ns" "untouched lower kws names ns t" "length (names ! t) \<le> 1"
  shows "linked lower kws names ns t"
proof -
  have "tl (names ! t) = []" using assms(5) by (cases "names ! t") auto
  moreover have "ends_at lower kws (length kws) (names ! t) = ends_in lower kws (names ! t)"
  proof
    fix j
    have "suffix u (names ! t) \<Longrightarrow> u = names ! t \<or> u = []" for u
      using assms(5) by (cases "names ! t") (auto simp: suffix_Cons)
    with spells_nothing [OF assms(2)] show "ends_at lower kws (length kws) (names ! t) j = ends_in lower kws (names ! t) j"
      unfolding ends_in_def by blast
  qed
  moreover have "0 < length ns" "names ! 0 = []" using tree_okD(2,4) [OF assms(1)] by simp_all
  ultimately show ?thesis using assms(4) by (auto simp: linked_def untouched_def)
qed

lemma start_queue:
  assumes tree: "tree_ok names ns es" and sp: "spells lower kws names" and un: "\<And>t. t < length ns \<Longrightarrow> untouched lower kws names ns t"
  shows "queue_ok lower kws names ns {0} (children es (ns ! 0))"
proof -
  note D = tree_okD [OF tree]
  have pos: "0 < length ns" using D(2) by simp
  note C = children_facts [OF tree pos]
  have child: "t \<in> set (children es (ns ! 0)) \<longleftrightarrow> t < length ns \<and> length (names ! t) = 1" for t
    unfolding C(3) D(4) by (auto simp: length_Suc_conv)
  show ?thesis
    unfolding queue_ok_def
  proof (intro conjI allI impI ballI)
    show "{0} \<subseteq> {..< length ns}" "0 \<in> {0 :: nat}" "set (children es (ns ! 0)) \<subseteq> {..< length ns}" using pos child by auto
    show "set (children es (ns ! 0)) \<inter> {0} = {}" using child D(4) by fastforce
    show "distinct (children es (ns ! 0))" by (rule C(1))
    show "sorted (map (\<lambda>t. length (names ! t)) (children es (ns ! 0)))" using child by (intro sorted_constant) simp
  next
    fix t assume t: "t < length ns"
    show "if t \<in> {0} \<union> set (children es (ns ! 0)) then linked lower kws names ns t else untouched lower kws names ns t"
      using un [OF t] start_linked [OF tree sp t un [OF t]] child [of t] D(4) by auto
  next
    fix t assume "t < length ns" "t \<noteq> 0"
    then show "t \<in> {0} \<union> set (children es (ns ! 0)) \<longleftrightarrow> (\<exists>i \<in> {0}. \<exists>c. names ! t = names ! i @ [c])" using C(3) by simp
  next
    fix t assume "t \<in> set (children es (ns ! 0))"
    moreover from this have "hd (children es (ns ! 0)) \<in> set (children es (ns ! 0))" by (intro hd_in_set) auto
    ultimately show "length (names ! t) \<le> Suc (length (names ! hd (children es (ns ! 0))))" using child by simp
  qed
qed

subsection \<open>The sorted edges\<close>

abbreviation searchable :: "contentModerationKeywordEdge list \<Rightarrow> bool" where
  "searchable xs \<equiv> sorted_wrt (\<lambda>a b. label a < label b) xs"

lemma shift_in_ok:
  assumes "searchable (rev xs)" "\<And>e. e \<in> set xs \<Longrightarrow> label e \<noteq> label x"
  shows "searchable (rev (shift_in x xs))" "set (shift_in x xs) = insert x (set xs)" "length (shift_in x xs) = Suc (length xs)"
  using assms
proof (induction xs)
  case (Cons e xs)
  {
    case 1
    with Cons.IH show ?case by (fastforce simp: sorted_wrt_append)
  next
    case 2
    with Cons.IH(2) show ?case by (auto simp: sorted_wrt_append)
  next
    case 3
    with Cons.IH(3) show ?case by (auto simp: sorted_wrt_append)
  }
qed auto

lemma sort_edges_ok:
  assumes "distinct (map label xs)"
  shows "searchable (sort_edges xs)" "set (sort_edges xs) = set xs" "length (sort_edges xs) = length xs"
proof -
  have "searchable (rev (fold shift_in xs ys)) \<and> set (fold shift_in xs ys) = set xs \<union> set ys \<and> length (fold shift_in xs ys) = length xs + length ys"
    if "searchable (rev ys)" "distinct (map label (xs @ ys))" for ys
    using assms that
  proof (induction xs arbitrary: ys)
    case (Cons x xs)
    have no: "\<And>e. e \<in> set ys \<Longrightarrow> label e \<noteq> label x" using Cons.prems(3) by (auto simp: image_iff)
    note ins = shift_in_ok [OF Cons.prems(2) no]
    have "distinct (map label (shift_in x ys))" using ins(1)
      by (metis distinct_rev rev_map strict_sorted_iff sorted_wrt_map)
    then have "distinct (map label (xs @ shift_in x ys))" using Cons.prems(3) ins(2) by auto
    with Cons.IH [of "shift_in x ys"] Cons.prems(1) ins show ?case by auto
  qed simp
  from this [of "[]"] assms show "searchable (sort_edges xs)" "set (sort_edges xs) = set xs" "length (sort_edges xs) = length xs"
    by (simp_all add: sort_edges_def)
qed

definition conv_edge :: "contentModerationKeywordBuildEdge \<Rightarrow> contentModerationKeywordEdge" where
  "conv_edge e = \<lparr>target = buildTarget e, label = buildLabel e\<rparr>"

definition outgoing_of :: "kw_edges \<Rightarrow> contentModerationKeywordNode \<Rightarrow> contentModerationKeywordEdge list" where
  "outgoing_of es node = sort_edges (map conv_edge (siblings es node))"

lemma compact_node_eq:
  "compact_node es node (ns, out) =
    (ns @ [node\<lparr>edgeStart := int (length out), edgeCount := int (length (outgoing_of es node))\<rparr>], out @ outgoing_of es node)"
proof -
  have "(\<lambda>e. \<lparr>target = buildTarget e, label = buildLabel e\<rparr>) = conv_edge" by (simp add: conv_edge_def fun_eq_iff)
  then show ?thesis by (simp add: compact_node_def outgoing_of_def Let_def)
qed

lemma compact_all:
  "fold (compact_node es) todo (ns, out) = (ns', out') \<Longrightarrow>
   length ns' = length ns + length todo \<and> (\<forall>i < length ns. ns' ! i = ns ! i) \<and> (\<exists>more. out' = out @ more) \<and>
   (\<forall>i < length todo. let n = ns' ! (length ns + i) in
      failure n = failure (todo ! i) \<and> bestKeyword n = bestKeyword (todo ! i) \<and> 0 \<le> edgeStart n \<and>
      edgeCount n = int (length (outgoing_of es (todo ! i))) \<and>
      edgeStart n + edgeCount n \<le> int (length out') \<and>
      (\<forall>k < length (outgoing_of es (todo ! i)). out' ! (nat (edgeStart n) + k) = outgoing_of es (todo ! i) ! k))"
proof (induction todo arbitrary: ns out)
  case (Cons node todo)
  let ?node = "node\<lparr>edgeStart := int (length out), edgeCount := int (length (outgoing_of es node))\<rparr>"
  from Cons.prems have "fold (compact_node es) todo (ns @ [?node], out @ outgoing_of es node) = (ns', out')"
    by (simp add: compact_node_eq)
  note IH = Cons.IH [OF this]
  then obtain more where out': "out' = out @ outgoing_of es node @ more" by auto
  have head: "ns' ! length ns = ?node" using IH by (auto simp: nth_append)
  show ?case
  proof (intro conjI)
    show "length ns' = length ns + length (node # todo)" "\<forall>i < length ns. ns' ! i = ns ! i" "\<exists>more. out' = out @ more"
      using IH out' by (auto simp: nth_append)
    show "\<forall>i < length (node # todo). let n = ns' ! (length ns + i) in
      failure n = failure ((node # todo) ! i) \<and> bestKeyword n = bestKeyword ((node # todo) ! i) \<and> 0 \<le> edgeStart n \<and>
      edgeCount n = int (length (outgoing_of es ((node # todo) ! i))) \<and> edgeStart n + edgeCount n \<le> int (length out') \<and>
      (\<forall>k < length (outgoing_of es ((node # todo) ! i)). out' ! (nat (edgeStart n) + k) = outgoing_of es ((node # todo) ! i) ! k)"
    proof (intro allI impI)
      fix i assume i: "i < length (node # todo)"
      show "let n = ns' ! (length ns + i) in
        failure n = failure ((node # todo) ! i) \<and> bestKeyword n = bestKeyword ((node # todo) ! i) \<and> 0 \<le> edgeStart n \<and>
        edgeCount n = int (length (outgoing_of es ((node # todo) ! i))) \<and> edgeStart n + edgeCount n \<le> int (length out') \<and>
        (\<forall>k < length (outgoing_of es ((node # todo) ! i)). out' ! (nat (edgeStart n) + k) = outgoing_of es ((node # todo) ! i) ! k)"
      proof (cases i)
        case 0
        then show ?thesis using head out' by (simp add: Let_def nth_append)
      next
        case (Suc k)
        with i IH show ?thesis by (auto simp: Let_def)
      qed
    qed
  qed
qed simp

text \<open>The binary search finds the first edge whose label is not smaller.\<close>

lemma lower_bound_ok:
  assumes "0 \<le> left" "left \<le> right" "\<And>a b. left \<le> a \<Longrightarrow> a < b \<Longrightarrow> b < right \<Longrightarrow> label (es ! nat a) < label (es ! nat b)"
  shows "left \<le> lower_bound es lab left right \<and> lower_bound es lab left right \<le> right \<and>
    (\<forall>a. left \<le> a \<and> a < lower_bound es lab left right \<longrightarrow> label (es ! nat a) < lab) \<and>
    (\<forall>a. lower_bound es lab left right \<le> a \<and> a < right \<longrightarrow> \<not> label (es ! nat a) < lab)"
  using assms
proof (induction es lab left right rule: lower_bound.induct)
  case (1 es lab left right)
  show ?case
  proof (cases "left < right")
    case False
    then have "lower_bound es lab left right = left" by (subst lower_bound.simps) simp
    with False 1(4) show ?thesis by auto
  next
    case True
    define middle where "middle = left + go_div (right - left) 2"
    have mid: "left \<le> middle" "middle < right" using True by (auto simp: middle_def go_div_nonneg)
    show ?thesis
    proof (cases "label (es ! nat middle) < lab")
      case below: True
      have eq: "lower_bound es lab left right = lower_bound es lab (middle + 1) right"
        using True below by (subst lower_bound.simps) (simp add: middle_def Let_def)
      have IH: "middle + 1 \<le> lower_bound es lab (middle + 1) right \<and> lower_bound es lab (middle + 1) right \<le> right \<and>
        (\<forall>a. middle + 1 \<le> a \<and> a < lower_bound es lab (middle + 1) right \<longrightarrow> label (es ! nat a) < lab) \<and>
        (\<forall>a. lower_bound es lab (middle + 1) right \<le> a \<and> a < right \<longrightarrow> \<not> label (es ! nat a) < lab)"
        using mid 1(3) by (intro 1(1) [OF True middle_def below] 1(5)) auto
      have "label (es ! nat a) < lab" if "left \<le> a" "a \<le> middle" for a
        using below 1(5) [of a middle] that mid by (cases "a = middle") (auto intro: less_trans)
      with IH mid show ?thesis unfolding eq by (metis add.commute add_left_mono linorder_not_le order_trans zle_add1_eq_le zless_add1_eq)
    next
      case above: False
      have eq: "lower_bound es lab left right = lower_bound es lab left middle"
        using True above by (subst lower_bound.simps) (simp add: middle_def Let_def)
      have IH: "left \<le> lower_bound es lab left middle \<and> lower_bound es lab left middle \<le> middle \<and>
        (\<forall>a. left \<le> a \<and> a < lower_bound es lab left middle \<longrightarrow> label (es ! nat a) < lab) \<and>
        (\<forall>a. lower_bound es lab left middle \<le> a \<and> a < middle \<longrightarrow> \<not> label (es ! nat a) < lab)"
        using mid 1(3) by (intro 1(2) [OF True middle_def above] 1(5)) auto
      have "\<not> label (es ! nat a) < lab" if "middle \<le> a" "a < right" for a
        using above 1(5) [of middle a] that mid by (cases "a = middle") (auto dest: less_trans)
      with IH mid show ?thesis unfolding eq by (metis linorder_not_le order_trans less_imp_le)
    qed
  qed
qed

subsection \<open>The automaton\<close>

definition automaton :: "(string \<Rightarrow> string) \<Rightarrow> string list \<Rightarrow> string list \<Rightarrow> contentModerationKeywordMatcher \<Rightarrow> bool" where
  "automaton lower kws names m \<longleftrightarrow>
     length names = length (nodes m) \<and> names \<noteq> [] \<and> distinct names \<and> names ! 0 = [] \<and> prefix_closed (set names) \<and> spells lower kws names \<and>
     keywordList m = kws \<and> (\<forall>t < length names. linked lower kws names (nodes m) t) \<and>
     (\<forall>i < length names. \<forall>c. (\<exists>t < length names. names ! t = names ! i @ [c] \<and> next_state m (int i) c = int t) \<or>
        names ! i @ [c] \<notin> set names \<and> next_state m (int i) c = 0)"

lemma root_transitions:
  "(\<exists>e \<in> set xs. buildLabel e = c \<and> fold (\<lambda>e r. r(buildLabel e := buildTarget e)) xs f c = buildTarget e) \<or>
   (\<forall>e \<in> set xs. buildLabel e \<noteq> c) \<and> fold (\<lambda>e r. r(buildLabel e := buildTarget e)) xs f c = f c"
  by (induction xs rule: rev_induct) auto

lemma next_state_root:
  assumes tree: "tree_ok names ns es"
    and root: "rootTransitions m = fold (\<lambda>e r. r(buildLabel e := buildTarget e)) (siblings es (ns ! 0)) (\<lambda>c. 0)"
  shows "(\<exists>t < length ns. names ! t = names ! 0 @ [c] \<and> next_state m 0 c = int t) \<or> names ! 0 @ [c] \<notin> set names \<and> next_state m 0 c = 0"
proof -
  have pos: "0 < length ns" using tree_okD(2) [OF tree] by simp
  show ?thesis
    using root_transitions [of "siblings es (ns ! 0)" c "\<lambda>c. 0"]
  proof
    assume "\<exists>e \<in> set (siblings es (ns ! 0)). buildLabel e = c \<and> fold (\<lambda>e r. r(buildLabel e := buildTarget e)) (siblings es (ns ! 0)) (\<lambda>c. 0) c = buildTarget e"
    then obtain e where e: "e \<in> set (siblings es (ns ! 0))" "buildLabel e = c" "next_state m 0 c = buildTarget e"
      by (auto simp: next_state_def root)
    from child_target [OF tree pos e(1)] obtain t where "buildTarget e = int t" "t < length ns" "names ! t = names ! 0 @ [buildLabel e]" by metis
    with e show ?thesis by auto
  next
    assume none: "(\<forall>e \<in> set (siblings es (ns ! 0)). buildLabel e \<noteq> c) \<and>
      fold (\<lambda>e r. r(buildLabel e := buildTarget e)) (siblings es (ns ! 0)) (\<lambda>c. 0) c = 0"
    have "names ! 0 @ [c] \<notin> set names"
    proof
      assume "names ! 0 @ [c] \<in> set names"
      then obtain t where "t < length ns" "names ! t = names ! 0 @ [c]" using tree_okD(1) [OF tree] by (auto simp: in_set_conv_nth)
      from child_edge [OF tree this pos] none show False by blast
    qed
    with none show ?thesis by (simp add: next_state_def root)
  qed
qed

lemma outgoing_facts:
  assumes "tree_ok names ns es" "i < length ns"
  shows "searchable (outgoing_of es (ns ! i))" "set (outgoing_of es (ns ! i)) = conv_edge ` set (siblings es (ns ! i))"
proof -
  have "inj_on buildLabel (set (siblings es (ns ! i)))"
  proof (rule inj_onI)
    fix e e' assume e: "e \<in> set (siblings es (ns ! i))" "e' \<in> set (siblings es (ns ! i))" "buildLabel e = buildLabel e'"
    from child_target [OF assms e(1)] obtain t where t: "t < length ns" "names ! t = names ! i @ [buildLabel e]" "e = es ! (t - 1)" by metis
    from child_target [OF assms e(2)] obtain t' where t': "t' < length ns" "names ! t' = names ! i @ [buildLabel e']" "e' = es ! (t' - 1)" by metis
    have "t = t'" using t(1,2) t'(1,2) e(3) tree_okD(1,3) [OF assms(1)] by (simp add: nth_eq_iff_index_eq [symmetric])
    with t(3) t'(3) show "e = e'" by simp
  qed
  then have "distinct (map buildLabel (siblings es (ns ! i)))" using tree_okD(7) [OF assms] by (simp add: distinct_map)
  moreover have "map label (map conv_edge (siblings es (ns ! i))) = map buildLabel (siblings es (ns ! i))" by (simp add: conv_edge_def)
  ultimately have "distinct (map label (map conv_edge (siblings es (ns ! i))))" by (simp only:)
  from sort_edges_ok [OF this] show "searchable (outgoing_of es (ns ! i))"
    "set (outgoing_of es (ns ! i)) = conv_edge ` set (siblings es (ns ! i))" by (simp_all add: outgoing_of_def)
qed

text \<open>A search in the slice of a node.\<close>

lemma slice_search:
  fixes lab :: char
  assumes "searchable xs" "0 \<le> start" "\<forall>k < length xs. es ! (nat start + k) = xs ! k"
  defines "r \<equiv> lower_bound es lab start (start + int (length xs))"
  shows "(\<exists>e \<in> set xs. label e = lab \<and> r < start + int (length xs) \<and> es ! nat r = e) \<or>
    (\<forall>e \<in> set xs. label e \<noteq> lab) \<and> \<not> (r < start + int (length xs) \<and> label (es ! nat r) = lab)"
proof -
  have at: "es ! nat a = xs ! nat (a - start)" if "start \<le> a" "a < start + int (length xs)" for a
  proof -
    have "nat a = nat start + nat (a - start)" using that assms(2) by simp
    with assms(3) that show ?thesis by simp
  qed
  have mono: "label (es ! nat a) < label (es ! nat b)" if "start \<le> a" "a < b" "b < start + int (length xs)" for a b
  proof -
    have "nat (a - start) < nat (b - start)" "nat (b - start) < length xs" using that by linarith+
    from sorted_wrt_nth_less [OF assms(1) this] at [of a] at [of b] that show ?thesis by simp
  qed
  have "start \<le> start + int (length xs)" by simp
  note lb = lower_bound_ok [OF assms(2) this mono, where lab = lab, folded r_def]
  then have lb: "start \<le> r" "r \<le> start + int (length xs)"
    "\<And>a. start \<le> a \<Longrightarrow> a < r \<Longrightarrow> label (es ! nat a) < lab"
    "\<And>a. r \<le> a \<Longrightarrow> a < start + int (length xs) \<Longrightarrow> \<not> label (es ! nat a) < lab" by simp_all
  show ?thesis
  proof (cases "\<exists>e \<in> set xs. label e = lab")
    case True
    then obtain k where k: "k < length xs" "label (xs ! k) = lab" by (auto simp: in_set_conv_nth)
    let ?a = "start + int k"
    have a: "start \<le> ?a" "?a < start + int (length xs)" "es ! nat ?a = xs ! k" using k(1) at [of ?a] by auto
    have "\<not> ?a < r" using lb(3) [OF a(1)] a(3) k(2) by auto
    moreover have "\<not> r < ?a" using mono [OF lb(1) _ a(2)] lb(4) [of r] a k(2) by auto
    ultimately have "r = ?a" by simp
    with a k show ?thesis by (metis nth_mem)
  next
    case False
    have "label (es ! nat r) \<noteq> lab" if "r < start + int (length xs)"
    proof -
      have "nat (r - start) < length xs" using lb(1) that by linarith
      with at [OF lb(1) that] False show ?thesis by auto
    qed
    with False show ?thesis by blast
  qed
qed

lemma next_state_inner:
  assumes tree: "tree_ok names ns es" and i: "i < length ns" "i \<noteq> 0" and len: "length (nodes m) = length ns"
    and node: "0 \<le> edgeStart (nodes m ! i)" "edgeCount (nodes m ! i) = int (length (outgoing_of es (ns ! i)))"
      "\<forall>k < length (outgoing_of es (ns ! i)). edges m ! (nat (edgeStart (nodes m ! i)) + k) = outgoing_of es (ns ! i) ! k"
  shows "(\<exists>t < length ns. names ! t = names ! i @ [c] \<and> next_state m (int i) c = int t) \<or>
    names ! i @ [c] \<notin> set names \<and> next_state m (int i) c = 0"
proof -
  let ?xs = "outgoing_of es (ns ! i)" and ?s = "edgeStart (nodes m ! i)"
  let ?r = "lower_bound (edges m) c ?s (?s + int (length ?xs))"
  note O = outgoing_facts [OF tree i(1)]
  have ns: "next_state m (int i) c =
      (if ?r < ?s + int (length ?xs) \<and> label (edges m ! nat ?r) = c then target (edges m ! nat ?r) else 0)"
    using i len node(2) by (simp add: next_state_def Let_def)
  show ?thesis
    using slice_search [OF O(1) node(1,3), of c]
  proof
    assume "\<exists>e \<in> set ?xs. label e = c \<and> ?r < ?s + int (length ?xs) \<and> edges m ! nat ?r = e"
    then obtain e where e: "e \<in> set ?xs" "label e = c" "next_state m (int i) c = target e" using ns by auto
    from e(1) O(2) obtain b where b: "b \<in> set (siblings es (ns ! i))" "e = conv_edge b" by auto
    from child_target [OF tree i(1) b(1)] obtain t where "buildTarget b = int t" "t < length ns" "names ! t = names ! i @ [buildLabel b]" by metis
    with b e show ?thesis by (auto simp: conv_edge_def)
  next
    assume none: "(\<forall>e \<in> set ?xs. label e \<noteq> c) \<and> \<not> (?r < ?s + int (length ?xs) \<and> label (edges m ! nat ?r) = c)"
    have "names ! i @ [c] \<notin> set names"
    proof
      assume "names ! i @ [c] \<in> set names"
      then obtain t where "t < length ns" "names ! t = names ! i @ [c]" using tree_okD(1) [OF tree] by (auto simp: in_set_conv_nth)
      from child_edge [OF tree this i(1)] have e: "es ! (t - 1) \<in> set (siblings es (ns ! i))" "buildLabel (es ! (t - 1)) = c" by blast+
      have "conv_edge (es ! (t - 1)) \<in> set ?xs" unfolding O(2) using e(1) by (rule imageI)
      moreover have "label (conv_edge (es ! (t - 1))) = c" using e(2) by (simp add: conv_edge_def)
      ultimately have "\<exists>e \<in> set ?xs. label e = c" by blast
      with none show False by blast
    qed
    moreover have "next_state m (int i) c = 0" using ns none by simp
    ultimately show ?thesis by blast
  qed
qed

text \<open>The construction ends, and its result is the automaton of the keywords, or nothing when all keywords are empty.\<close>

definition lowering :: "(string \<Rightarrow> string) \<Rightarrow> bool" where
  "lowering lower \<longleftrightarrow> (\<forall>s. lower s = '''' \<longleftrightarrow> s = '''')"

lemma built_spells: "built lower kws (length kws) names ns es \<Longrightarrow> lowering lower \<Longrightarrow> spells lower kws names"
  by (auto simp: built_def spells_def ends_at_def lowering_def)

lemma construction:
  assumes "lowering lower"
  shows "newContentModerationKeywordMatcher lower kws = Some None \<and> (\<forall>kw \<in> set kws. kw = '''') \<or>
    (\<exists>m names. newContentModerationKeywordMatcher lower kws = Some (Some m) \<and> automaton lower kws names m \<and>
       length (nodes m) \<le> Suc (sum_list (map (length \<circ> lower) kws)))"
proof (cases "kws = []")
  case True
  then show ?thesis by (simp add: newContentModerationKeywordMatcher_def)
next
  case False
  obtain ns es where bt: "build_tree lower kws = (ns, es)" by fastforce
  with build_tree_ok [of lower kws] obtain names where b: "built lower kws (length kws) names ns es" by auto
  then have tree: "tree_ok names ns es" by (simp add: built_def)
  note D = tree_okD [OF tree]
  have sp: "spells lower kws names" by (rule built_spells [OF b assms])
  show ?thesis
  proof (cases "length ns = 1")
    case True
    then have "set names = {[]}" using D(1,4) by (cases names) auto
    then have "\<forall>j < length kws. kws ! j = ''''" using b assms by (auto simp: built_def lowering_def)
    then have "\<forall>kw \<in> set kws. kw = ''''" by (metis in_set_conv_nth)
    moreover have "newContentModerationKeywordMatcher lower kws = Some None"
      using False bt True by (simp add: newContentModerationKeywordMatcher_def)
    ultimately show ?thesis by blast
  next
    case many: False
    have un: "\<And>t. t < length ns \<Longrightarrow> untouched lower kws names ns t" using b by (simp add: built_def untouched_def)
    from queue_ends [OF tree sp start_queue [OF tree sp un]] obtain ns1 where
      q: "link_queue es ns (map int (children es (ns ! 0))) = Some ns1" "tree_ok names ns1 es" "length ns1 = length ns"
      "\<forall>t < length ns1. linked lower kws names ns1 t" by blast
    have pos: "0 < length ns" using D(2) by simp
    obtain ns2 out where cf: "fold (compact_node es) ns1 ([], []) = (ns2, out)" by fastforce
    define m where "m = \<lparr>nodes = ns2, edges = out,
      rootTransitions = fold (\<lambda>e r. r(buildLabel e := buildTarget e)) (siblings es (ns ! 0)) (\<lambda>c. 0), keywordList = kws\<rparr>"
    have new: "newContentModerationKeywordMatcher lower kws = Some (Some m)"
      using False bt many q(1) cf children_facts(2) [OF tree pos] by (simp add: newContentModerationKeywordMatcher_def m_def Let_def)
    note C = compact_all [OF cf]
    have len: "length ns2 = length names" using C q(3) D(1) by simp
    have node: "failure (ns2 ! i) = failure (ns1 ! i)" "bestKeyword (ns2 ! i) = bestKeyword (ns1 ! i)" "0 \<le> edgeStart (ns2 ! i)"
      "edgeCount (ns2 ! i) = int (length (outgoing_of es (ns1 ! i)))"
      "\<forall>k < length (outgoing_of es (ns1 ! i)). out ! (nat (edgeStart (ns2 ! i)) + k) = outgoing_of es (ns1 ! i) ! k" if "i < length names" for i
      using C that len by (auto simp: Let_def)
    have "automaton lower kws names m"
      unfolding automaton_def
    proof (intro conjI allI impI)
      show "length names = length (nodes m)" "names \<noteq> []" "distinct names" "names ! 0 = []" "prefix_closed (set names)" "spells lower kws names"
        "keywordList m = kws"
        using len D(1,3,4) pos tree_prefix_closed [OF tree] sp by (auto simp: m_def)
      fix t assume t: "t < length names"
      with q(4) have "linked lower kws names ns1 t" using q(3) D(1) by simp
      then show "linked lower kws names (nodes m) t" using node(1,2) [OF t] len q(3) D(1) by (simp add: linked_def m_def)
    next
      fix i c assume i: "i < length names"
      show "(\<exists>t < length names. names ! t = names ! i @ [c] \<and> next_state m (int i) c = int t) \<or>
        names ! i @ [c] \<notin> set names \<and> next_state m (int i) c = 0"
      proof (cases "i = 0")
        case True
        with next_state_root [OF tree, of m c] D(1) show ?thesis by (simp add: m_def)
      next
        case inner: False
        have "i < length ns1" "length (nodes m) = length ns1" using i len q(3) D(1) by (simp_all add: m_def)
        from next_state_inner [OF q(2) this(1) inner this(2), of c] node [OF i] q(3) D(1) show ?thesis by (simp add: m_def)
      qed
    qed
    moreover have "length (nodes m) \<le> Suc (sum_list (map (length \<circ> lower) kws))"
      using b len D(1,2) by (simp add: m_def built_def)
    ultimately show ?thesis using new by blast
  qed
qed

subsection \<open>The scan\<close>

lemma advance_ends:
  assumes auto: "automaton lower kws names m" and i: "i < length names"
  shows "\<exists>t < length names. advance m c (int i) = Some (int t) \<and> names ! t = deepest (set names) (names ! i @ [c])"
  using i
proof (induction "length (names ! i)" arbitrary: i rule: less_induct)
  case less
  let ?N = "set names"
  from auto less.prems consider
    (found) t where "t < length names" "names ! t = names ! i @ [c]" "next_state m (int i) c = int t"
    | (none) "names ! i @ [c] \<notin> ?N" "next_state m (int i) c = 0"
    unfolding automaton_def by metis
  then show ?case
  proof cases
    case found
    have "t \<noteq> 0" using found(2) auto by (metis automaton_def append_is_Nil_conv not_Cons_self2)
    moreover have "names ! i @ [c] \<in> ?N" using found(1,2) by (metis nth_mem)
    ultimately show ?thesis using found by (subst advance.simps) (auto simp: deepest_self)
  next
    case none
    show ?thesis
    proof (cases "i = 0")
      case True
      have "deepest ?N (names ! i @ [c]) = []" using none(1) auto True by (simp add: automaton_def)
      with True none(2) less.prems auto show ?thesis by (subst advance.simps) (auto simp: automaton_def)
    next
      case False
      have "distinct names" "names ! 0 = []" "0 < length names" using auto by (auto simp: automaton_def)
      then have ne: "names ! i \<noteq> []" using False less.prems nth_eq_iff_index_eq [of names i 0] by fastforce
      obtain f where f: "f < length names" "failure (nodes m ! i) = int f" "names ! f = deepest ?N (tl (names ! i))"
        using auto less.prems by (auto simp: automaton_def linked_def)
      have "length (names ! f) < length (names ! i)" using deepest_shorter [OF ne] f(3) by simp
      from less.hyps [OF this f(1)] obtain t where "t < length names" "advance m c (int f) = Some (int t)"
        "names ! t = deepest ?N (names ! f @ [c])" by blast
      moreover have "deepest ?N (names ! i @ [c]) = deepest ?N (names ! f @ [c])"
        using deepest_fail [OF _ none(1) ne] auto f(3) by (simp add: automaton_def)
      moreover have "advance m c (int i) = advance m c (int f)"
        using none(2) False f(2) by (subst advance.simps) (simp add: Let_def)
      ultimately show ?thesis by auto
    qed
  qed
qed

text \<open>The keywords that the text read so far contains.\<close>

definition occurs :: "(string \<Rightarrow> string) \<Rightarrow> string list \<Rightarrow> string \<Rightarrow> nat \<Rightarrow> bool" where
  "occurs lower kws text j \<longleftrightarrow> j < length kws \<and> kws ! j \<noteq> '''' \<and> sublist (lower (kws ! j)) text"

lemma sublist_snoc: "sublist u (v @ [c]) \<longleftrightarrow> sublist u v \<or> suffix u (v @ [c])"
proof
  assume "sublist u (v @ [c])"
  then obtain a b where ab: "v @ [c] = a @ u @ b" by (auto simp: sublist_def)
  show "sublist u v \<or> suffix u (v @ [c])"
  proof (cases b rule: rev_cases)
    case Nil
    with ab show ?thesis by (auto simp: suffix_def)
  next
    case (snoc b' d)
    with ab have "v = a @ u @ b'" by auto
    then show ?thesis by (auto simp: sublist_def)
  qed
qed (auto simp: suffix_imp_sublist sublist_append)

lemma occurs_snoc:
  assumes "spells lower kws names"
  shows "occurs lower kws (v @ [c]) j \<longleftrightarrow> occurs lower kws v j \<or> ends_in lower kws (deepest (set names) (v @ [c])) j"
proof -
  have "ends_in lower kws (deepest (set names) (v @ [c])) j \<longleftrightarrow> j < length kws \<and> kws ! j \<noteq> '''' \<and> suffix (lower (kws ! j)) (v @ [c])"
    using deepest_covers [of _ "set names" "v @ [c]"] suffix_order.trans [OF _ deepest_suffix, of _ "set names" "v @ [c]"] assms
    unfolding ends_in_def ends_at_def spells_def by blast
  then show ?thesis by (auto simp: occurs_def sublist_snoc)
qed

lemma scan_ends:
  assumes auto: "automaton lower kws names m" and "i < length names" "names ! i = deepest (set names) v"
  shows "scan m w (int i) (smallest (occurs lower kws v)) = Some (smallest (occurs lower kws (v @ w)))"
  using assms(2,3)
proof (induction w arbitrary: i v)
  case Nil
  then show ?case by simp
next
  case (Cons c w)
  let ?N = "set names"
  have sp: "spells lower kws names" and closed: "prefix_closed ?N" using auto by (simp_all add: automaton_def)
  from advance_ends [OF auto Cons.prems(1), of c] obtain t where t: "t < length names" "advance m c (int i) = Some (int t)"
    "names ! t = deepest ?N (names ! i @ [c])" by blast
  have name: "names ! t = deepest ?N (v @ [c])" using t(3) Cons.prems(2) deepest_snoc [OF closed, of v c] by simp
  have "bestKeyword (nodes m ! t) = smallest (ends_in lower kws (deepest ?N (v @ [c])))"
    using auto t(1) name by (simp add: automaton_def linked_def)
  then have best: "minKeywordIndex (smallest (occurs lower kws v)) (bestKeyword (nodes m ! t)) = smallest (occurs lower kws (v @ [c]))"
    unfolding min_smallest [of "occurs lower kws v", symmetric] by (simp add: min_smallest smallest_cong [OF occurs_snoc [OF sp]])
  show ?case
  proof (cases "smallest (occurs lower kws (v @ [c])) = 0")
    case True
    then have "occurs lower kws (v @ [c]) 0" by (cases rule: smallest_cases [of "occurs lower kws (v @ [c])"]) auto
    then have "occurs lower kws (v @ c # w) 0" by (auto simp: occurs_def sublist_def) (metis append.assoc append_Cons append_Nil)
    then have "smallest (occurs lower kws (v @ c # w)) = int 0" by (rule smallest_is) simp
    with True t(2) best show ?thesis by simp
  next
    case False
    with t(2) best Cons.IH [OF t(1) name] show ?thesis by simp
  qed
qed

lemma find_first:
  assumes "P (xs ! i)" "i < length xs" "\<And>j. j < length xs \<Longrightarrow> P (xs ! j) \<Longrightarrow> i \<le> j"
  shows "find P xs = Some (xs ! i)"
  using assms by (auto simp: find_Some_iff intro!: exI [of _ i]) (meson leD less_trans)

subsection \<open>Properties\<close>

lemma match_agrees:
  assumes "lowering lower" "automaton lower kws names m"
  shows "Match lower (Some m) text =
    Some (case find (\<lambda>kw. kw \<noteq> '''' \<and> sublist (lower kw) (lower text)) kws of
            None \<Rightarrow> ('''', False) | Some kw \<Rightarrow> (kw, True))"
proof -
  let ?P = "\<lambda>kw. kw \<noteq> '''' \<and> sublist (lower kw) (lower text)"
  have spec: "?P (kws ! j) = occurs lower kws (lower text) j" if "j < length kws" for j using that by (simp add: occurs_def)
  have start: "0 < length names" "names ! 0 = deepest (set names) []" "spells lower kws names" "keywordList m = kws" "nodes m \<noteq> []"
    using assms(2) by (auto simp: automaton_def)
  have "\<not> occurs lower kws [] j" for j
    using assms(1) by (auto simp: occurs_def lowering_def)
  then have "smallest (occurs lower kws []) = -1" by (rule smallest_none)
  with scan_ends [OF assms(2) start(1,2), of "lower text"]
  have scan: "scan m (lower text) 0 (-1) = Some (smallest (occurs lower kws (lower text)))" by simp
  show ?thesis
  proof (cases "text = '''' \<or> kws = []")
    case True
    have "\<not> ?P kw" if "kw \<in> set kws" for kw
    proof -
      from True that have "text = ''''" by auto
      then have "lower text = ''''" using assms(1) unfolding lowering_def by blast
      moreover have "lower kw = '''' \<longrightarrow> kw = ''''" using assms(1) unfolding lowering_def by blast
      ultimately show ?thesis by auto
    qed
    then have "find ?P kws = None" unfolding find_None_iff by blast
    with True start(4) show ?thesis by (auto simp: Match_def)
  next
    case False
    show ?thesis
    proof (cases rule: smallest_cases [of "occurs lower kws (lower text)"])
      case 1
      have "find ?P kws = None"
        unfolding find_None_iff
      proof
        assume "\<exists>kw. kw \<in> set kws \<and> ?P kw"
        then obtain j where "j < length kws" "?P (kws ! j)" unfolding in_set_conv_nth by blast
        with spec 1(2) show False by blast
      qed
      with 1 scan False start(4,5) show ?thesis by (simp add: Match_def)
    next
      case (2 i)
      then have i: "i < length kws" by (simp add: occurs_def)
      have "find ?P kws = Some (kws ! i)" using 2 i spec by (intro find_first) auto
      with 2 i scan False start(4,5) show ?thesis by (simp add: Match_def)
    qed
  qed
qed

text \<open>C10: the search finds the first keyword of the list that occurs in the text, ignoring case, and nothing when none
  does; the automaton agrees with that specification for every list of keywords and every text, and neither its
  construction nor the search runs forever.\<close>

theorem match_is_first_contained:
  assumes "lowering lower"
  shows "\<exists>matcher. newContentModerationKeywordMatcher lower kws = Some matcher \<and>
    Match lower matcher text =
      Some (case find (\<lambda>kw. kw \<noteq> '''' \<and> sublist (lower kw) (lower text)) kws of
              None \<Rightarrow> ('''', False) | Some kw \<Rightarrow> (kw, True))"
  using construction [OF assms, of kws]
proof
  assume none: "newContentModerationKeywordMatcher lower kws = Some None \<and> (\<forall>kw \<in> set kws. kw = '''')"
  then have "find (\<lambda>kw. kw \<noteq> '''' \<and> sublist (lower kw) (lower text)) kws = None" by (auto simp: find_None_iff)
  with none show ?thesis by (simp add: Match_def)
next
  assume "\<exists>m names. newContentModerationKeywordMatcher lower kws = Some (Some m) \<and> automaton lower kws names m \<and>
    length (nodes m) \<le> Suc (sum_list (map (length \<circ> lower) kws))"
  then show ?thesis using match_agrees [OF assms] by blast
qed

definition ascii_lower :: "string \<Rightarrow> string" where
  "ascii_lower = map (\<lambda>c. if CHR ''A'' \<le> c \<and> c \<le> CHR ''Z'' then char_of (of_char c + (32 :: nat)) else c)"

lemma lowering_ascii: "lowering ascii_lower"
  by (simp add: lowering_def ascii_lower_def)

theorem match_is_first_contained_witness:
  "Match ascii_lower (the (newContentModerationKeywordMatcher ascii_lower [''hers'', '''', ''His'', ''she'', ''HE''])) ''usHe'' = Some (''she'', True)"
proof -
  obtain matcher where m: "newContentModerationKeywordMatcher ascii_lower [''hers'', '''', ''His'', ''she'', ''HE''] = Some matcher"
    "Match ascii_lower matcher ''usHe'' = Some (case find (\<lambda>kw. kw \<noteq> '''' \<and> sublist (ascii_lower kw) (ascii_lower ''usHe''))
       [''hers'', '''', ''His'', ''she'', ''HE''] of None \<Rightarrow> ('''', False) | Some kw \<Rightarrow> (kw, True))"
    using match_is_first_contained [OF lowering_ascii] by blast
  have lows: "ascii_lower ''usHe'' = ''ushe''" "ascii_lower ''hers'' = ''hers''" "ascii_lower ''His'' = ''his''" "ascii_lower ''she'' = ''she''"
    by (simp_all add: ascii_lower_def) code_simp+
  have "\<not> sublist ''hers'' ''ushe''" "\<not> sublist ''his'' ''ushe''" "sublist ''she'' ''ushe''" by code_simp+
  with m lows show ?thesis by simp
qed

text \<open>The numbers the automaton stores fit their machine types: it has at most one node for each byte of a
  lower-cased keyword and the root, every failure link and every transition is the index of a node, and the best
  keyword of a node is -1 or the index of a keyword.\<close>

theorem matcher_fits:
  assumes "lowering lower" and "newContentModerationKeywordMatcher lower kws = Some (Some m)"
  shows "length (nodes m) \<le> Suc (sum_list (map (length \<circ> lower) kws)) \<and>
    (\<forall>i < length (nodes m). 0 \<le> failure (nodes m ! i) \<and> failure (nodes m ! i) < int (length (nodes m)) \<and>
       -1 \<le> bestKeyword (nodes m ! i) \<and> bestKeyword (nodes m ! i) < int (length kws) \<and>
       0 \<le> next_state m (int i) c \<and> next_state m (int i) c < int (length (nodes m)))"
proof -
  from construction [OF assms(1), of kws] assms(2) obtain names where
    auto: "automaton lower kws names m" and size: "length (nodes m) \<le> Suc (sum_list (map (length \<circ> lower) kws))" by auto
  have "0 \<le> failure (nodes m ! i) \<and> failure (nodes m ! i) < int (length (nodes m)) \<and>
       -1 \<le> bestKeyword (nodes m ! i) \<and> bestKeyword (nodes m ! i) < int (length kws) \<and>
       0 \<le> next_state m (int i) c \<and> next_state m (int i) c < int (length (nodes m))" if i: "i < length (nodes m)" for i
  proof -
    have len: "length names = length (nodes m)" using auto by (simp add: automaton_def)
    with auto i have l: "linked lower kws names (nodes m) i" by (simp add: automaton_def)
    then have "0 \<le> failure (nodes m ! i)" "failure (nodes m ! i) < int (length (nodes m))" by (auto simp: linked_def)
    moreover have "-1 \<le> bestKeyword (nodes m ! i)" "bestKeyword (nodes m ! i) < int (length kws)"
      using l by (cases rule: smallest_cases [of "ends_in lower kws (names ! i)"]; auto simp: linked_def ends_in_def ends_at_def)+
    moreover have "0 < length (nodes m)" using i by (rule le_less_trans [rotated]) simp
    then have "0 \<le> next_state m (int i) c" "next_state m (int i) c < int (length (nodes m))"
      using auto i len unfolding automaton_def by (metis of_nat_0_le_iff of_nat_0_less_iff of_nat_less_iff order_refl)+
    ultimately show ?thesis by blast
  qed
  with size show ?thesis by blast
qed

theorem matcher_fits_witness:
  "length (nodes (the (the (newContentModerationKeywordMatcher ascii_lower [''she'', ''he''])))) \<le> 6"
proof -
  obtain m where m: "newContentModerationKeywordMatcher ascii_lower [''she'', ''he''] = Some (Some m)"
    using construction [OF lowering_ascii, of "[''she'', ''he'']"] by auto
  have "length (ascii_lower ''she'') = 3" "length (ascii_lower ''he'') = 2" by (simp_all add: ascii_lower_def)
  with matcher_fits [OF lowering_ascii m] m show ?thesis by simp
qed

end
