(* ===== verification/Programs.thy ===== *)
theory Programs
  imports Prelude
begin

section \<open>Programs of atomic statements\<close>

text \<open>
  A function that talks to the database is not atomic: other processes run between its statements.
  Such a function is modelled as a value of the type \<open>prog\<close>: it returns, or performs one atomic statement,
  whose effect on the shared store and whose answer depend on the store at that moment and on a chance
  (whether the connection fails, what a third party answers), and goes on with a program that depends on
  the answer. The theory is independent of the store.

  \<open>run_prog\<close> runs a program alone. \<open>pool_step\<close> interleaves any number of them, with crashes and with steps of
  the environment. The locale \<open>protocol\<close> holds the rely-guarantee argument: an invariant of the store, and a
  preorder \<open>evolves\<close> every statement of every program obeys, so that a program may rely on what it saw having
  evolved since; \<open>safe_prog\<close> says that a program, started in a store, keeps to both and ends with \<open>Q\<close>.
\<close>

datatype ('c, 's, 'a) prog =
    Ret 'a
  | Atom "'c \<Rightarrow> 's \<Rightarrow> 's" "'c \<Rightarrow> 's \<Rightarrow> ('c, 's, 'a) prog"

lemma prog_induct [case_names Ret Atom, induct type]:
  assumes "\<And>a. P (Ret a)" "\<And>u n. (\<And>c s. P (n c s)) \<Longrightarrow> P (Atom u n)"
  shows "P p"
proof (induction p)
  case (Ret a)
  show ?case by (rule assms(1))
next
  case (Atom u n)
  show ?case by (rule assms(2), rule Atom.IH) auto
qed

definition stmt :: "('c \<Rightarrow> 's \<Rightarrow> 'a \<times> 's) \<Rightarrow> ('c, 's, 'a) prog" where
  "stmt f = Atom (\<lambda>c s. snd (f c s)) (\<lambda>c s. Ret (fst (f c s)))"

primrec and_then :: "('c, 's, 'a) prog \<Rightarrow> ('a \<Rightarrow> ('c, 's, 'b) prog) \<Rightarrow> ('c, 's, 'b) prog" where
  "and_then (Ret a) k = k a"
| "and_then (Atom u n) k = Atom u (\<lambda>c s. and_then (n c s) k)"

text \<open>\<^verbatim>\<open>if err != nil { return wrap(err) }\<close> after a call, and a call whose result is ignored.\<close>

definition checked :: "('c, 's, 'e + 'a) prog \<Rightarrow> ('e \<Rightarrow> ('c, 's, 'b) prog) \<Rightarrow> ('a \<Rightarrow> ('c, 's, 'b) prog) \<Rightarrow> ('c, 's, 'b) prog" where
  "checked p failed k = and_then p (case_sum failed k)"

definition ignoring :: "('c, 's, 'a) prog \<Rightarrow> ('c, 's, 'b) prog \<Rightarrow> ('c, 's, 'b) prog" where
  "ignoring p q = and_then p (\<lambda>_. q)"

subsection \<open>A program that runs alone\<close>

primrec run_prog :: "('c, 's, 'a) prog \<Rightarrow> 'c \<Rightarrow> 's \<Rightarrow> 'a \<times> 's" where
  "run_prog (Ret a) c s = (a, s)"
| "run_prog (Atom u n) c s = run_prog (n c s) c (u c s)"

lemma run_stmt [simp]: "run_prog (stmt f) c s = f c s"
  by (simp add: stmt_def)

lemma run_and_then [simp]: "run_prog (and_then p k) c s = (case run_prog p c s of (a, t) \<Rightarrow> run_prog (k a) c t)"
  by (induction p arbitrary: s) simp_all

lemma run_checked [simp]:
  "run_prog (checked p failed k) c s =
     (case run_prog p c s of (Inl e, t) \<Rightarrow> run_prog (failed e) c t | (Inr a, t) \<Rightarrow> run_prog (k a) c t)"
  by (auto simp: checked_def split: prod.splits sum.splits)

lemma run_ignoring [simp]: "run_prog (ignoring p q) c s = run_prog q c (snd (run_prog p c s))"
  by (simp add: ignoring_def split: prod.splits)

lemma and_then_assoc [simp]: "and_then (and_then p k) h = and_then p (\<lambda>a. and_then (k a) h)"
  by (induction p) simp_all

subsection \<open>Interleaved programs\<close>

record ('c, 's, 'a) pool =
  store :: 's
  procs :: "nat \<rightharpoonup> ('c, 's, 'a) prog"

inductive pool_step ::
  "(('c, 's, 'a) prog \<Rightarrow> bool) \<Rightarrow> ('s \<Rightarrow> 's \<Rightarrow> bool) \<Rightarrow> ('c, 's, 'a) pool \<Rightarrow> ('c, 's, 'a) pool \<Rightarrow> bool"
for may_start env
where
  ps_start: "procs S i = None \<Longrightarrow> may_start p \<Longrightarrow> pool_step may_start env S (S\<lparr>procs := (procs S)(i \<mapsto> p)\<rparr>)"
| ps_atom: "procs S i = Some (Atom u n) \<Longrightarrow>
     pool_step may_start env S (S\<lparr>store := u c (store S), procs := (procs S)(i \<mapsto> n c (store S))\<rparr>)"
| ps_gone: "pool_step may_start env S (S\<lparr>procs := (procs S)(i := None)\<rparr>)"
| ps_env: "env (store S) t \<Longrightarrow> pool_step may_start env S (S\<lparr>store := t\<rparr>)"

inductive pool_reach ::
  "(('c, 's, 'a) prog \<Rightarrow> bool) \<Rightarrow> ('s \<Rightarrow> 's \<Rightarrow> bool) \<Rightarrow> ('s \<Rightarrow> bool) \<Rightarrow> ('c, 's, 'a) pool \<Rightarrow> bool"
for may_start env init
where
  pr_init: "init s \<Longrightarrow> pool_reach may_start env init \<lparr>store = s, procs = Map.empty\<rparr>"
| pr_step: "pool_reach may_start env init S \<Longrightarrow> pool_step may_start env S T \<Longrightarrow> pool_reach may_start env init T"

text \<open>A program that runs alone in a pool is \<open>run_prog\<close>.\<close>

lemma pool_steps_run:
  assumes "procs S i = Some p"
  shows "(pool_step may_start env)\<^sup>*\<^sup>* S
           (S\<lparr>store := snd (run_prog p c (store S)), procs := (procs S)(i \<mapsto> Ret (fst (run_prog p c (store S))))\<rparr>)"
  using assms
proof (induction p arbitrary: S)
  case (Ret a)
  then show ?case by (simp add: fun_upd_idem)
next
  case (Atom u n)
  let ?T = "S\<lparr>store := u c (store S), procs := (procs S)(i \<mapsto> n c (store S))\<rparr>"
  have "pool_step may_start env S ?T" by (rule ps_atom [OF Atom.prems])
  also have "(pool_step may_start env)\<^sup>*\<^sup>* ?T
      (?T\<lparr>store := snd (run_prog (n c (store S)) c (store ?T)),
           procs := (procs ?T)(i \<mapsto> Ret (fst (run_prog (n c (store S)) c (store ?T))))\<rparr>)"
    by (rule Atom.IH) simp
  finally show ?case by (simp add: fun_upd_def if_distrib cong: if_cong)
qed

lemma pool_runs_prog:
  assumes "procs S i = None" "may_start p"
  shows "\<exists>T. (pool_step may_start env)\<^sup>*\<^sup>* S T \<and> store T = snd (run_prog p c (store S)) \<and>
             procs T = (procs S)(i \<mapsto> Ret (fst (run_prog p c (store S))))"
proof -
  let ?U = "S\<lparr>procs := (procs S)(i \<mapsto> p)\<rparr>"
  have "pool_step may_start env S ?U" using assms by (rule ps_start)
  also have "(pool_step may_start env)\<^sup>*\<^sup>* ?U
      (?U\<lparr>store := snd (run_prog p c (store ?U)), procs := (procs ?U)(i \<mapsto> Ret (fst (run_prog p c (store ?U))))\<rparr>)"
    by (rule pool_steps_run) simp
  finally show ?thesis by (intro exI conjI) auto
qed

lemma pool_reach_steps:
  assumes "pool_reach may_start env init S" "(pool_step may_start env)\<^sup>*\<^sup>* S T"
  shows "pool_reach may_start env init T"
  using assms(2,1) by induction (auto intro: pr_step)

subsection \<open>Rely and guarantee\<close>

locale protocol =
  fixes inv :: "'s \<Rightarrow> bool" and evolves :: "'s \<Rightarrow> 's \<Rightarrow> bool"
  assumes evolves_refl: "evolves s s"
    and evolves_trans: "evolves s t \<Longrightarrow> evolves t u \<Longrightarrow> evolves s u"
begin

primrec safe_prog :: "('c, 's, 'a) prog \<Rightarrow> ('a \<Rightarrow> 's \<Rightarrow> bool) \<Rightarrow> 's \<Rightarrow> bool" where
  "safe_prog (Ret a) Q s \<longleftrightarrow> (\<forall>t. inv t \<longrightarrow> evolves s t \<longrightarrow> Q a t)"
| "safe_prog (Atom u n) Q s \<longleftrightarrow>
     (\<forall>t c. inv t \<longrightarrow> evolves s t \<longrightarrow> inv (u c t) \<and> evolves t (u c t) \<and> safe_prog (n c t) Q (u c t))"

lemma safe_evolves: "safe_prog p Q s \<Longrightarrow> evolves s t \<Longrightarrow> safe_prog p Q t"
  by (cases p) (auto dest: evolves_trans)

lemma safe_Atom:
  assumes "\<And>t c. inv t \<Longrightarrow> evolves s t \<Longrightarrow> inv (u c t) \<and> evolves t (u c t) \<and> safe_prog (n c t) Q (u c t)"
  shows "safe_prog (Atom u n) Q s"
  using assms by simp

lemma safe_now:
  assumes "\<And>t. inv t \<Longrightarrow> evolves s t \<Longrightarrow> safe_prog p Q t"
  shows "safe_prog p Q s"
  using assms evolves_refl by (cases p) fastforce+

lemma safe_and_then:
  assumes "safe_prog p Q s" "\<And>a t. inv t \<Longrightarrow> evolves s t \<Longrightarrow> Q a t \<Longrightarrow> safe_prog (k a) R t"
  shows "safe_prog (and_then p k) R s"
  using assms
proof (induction p arbitrary: s)
  case (Ret a)
  then show ?case by (auto intro: safe_now)
next
  case (Atom u n)
  have "inv (u c t) \<and> evolves t (u c t) \<and> safe_prog (and_then (n c t) k) R (u c t)"
    if t: "inv t" "evolves s t" for t c
  proof -
    have ok: "inv (u c t)" "evolves t (u c t)" "safe_prog (n c t) Q (u c t)"
      using Atom.prems(1) t by auto
    have "safe_prog (k a) R t'" if "inv t'" "evolves (u c t) t'" "Q a t'" for a t'
      by (rule Atom.prems(2)) (use that t ok in \<open>blast intro: evolves_trans\<close>)+
    from Atom.IH [OF ok(3) this] ok show ?thesis by blast
  qed
  then show ?case by (simp add: safe_Atom)
qed

lemma safe_stmt:
  assumes "\<And>t c a u. inv t \<Longrightarrow> evolves s t \<Longrightarrow> f c t = (a, u) \<Longrightarrow> inv u \<and> evolves t u \<and> (\<forall>v. inv v \<longrightarrow> evolves u v \<longrightarrow> Q a v)"
  shows "safe_prog (stmt f) Q s"
proof -
  have "inv (snd (f c t)) \<and> evolves t (snd (f c t)) \<and> (\<forall>v. inv v \<longrightarrow> evolves (snd (f c t)) v \<longrightarrow> Q (fst (f c t)) v)"
    if "inv t" "evolves s t" for t c
    using assms [OF that, of c "fst (f c t)" "snd (f c t)"] by simp
  then show ?thesis by (simp add: stmt_def)
qed

lemma safe_weaken: "safe_prog p Q s \<Longrightarrow> (\<And>a t. Q a t \<Longrightarrow> R a t) \<Longrightarrow> safe_prog p R s"
  by (induction p arbitrary: s) auto

lemma safe_ignoring:
  "safe_prog p (\<lambda>_ _. True) s \<Longrightarrow> (\<And>t. inv t \<Longrightarrow> evolves s t \<Longrightarrow> safe_prog q R t) \<Longrightarrow> safe_prog (ignoring p q) R s"
  unfolding ignoring_def by (rule safe_and_then)

lemma safe_checked:
  assumes "safe_prog p Q s"
    "\<And>e t. inv t \<Longrightarrow> evolves s t \<Longrightarrow> safe_prog (failed e) R t"
    "\<And>a t. inv t \<Longrightarrow> evolves s t \<Longrightarrow> Q (Inr a) t \<Longrightarrow> safe_prog (k a) R t"
  shows "safe_prog (checked p failed k) R s"
  unfolding checked_def by (rule safe_and_then [OF assms(1)]) (auto intro: assms(2,3) split: sum.splits)

lemma safe_Ret: "(\<And>t. inv t \<Longrightarrow> evolves s t \<Longrightarrow> Q a t) \<Longrightarrow> safe_prog (Ret a) Q s"
  by simp

text \<open>Rules for programs of which nothing is claimed about the answer.\<close>

lemma keep_Ret: "safe_prog (Ret a) (\<lambda>_ _. True) s"
  by simp

lemma keep_then:
  assumes "safe_prog p (\<lambda>_ _. True) s" "\<And>a t. evolves s t \<Longrightarrow> safe_prog (k a) (\<lambda>_ _. True) t"
  shows "safe_prog (and_then p k) (\<lambda>_ _. True) s"
  using assms by (auto intro: safe_and_then)

lemma keep_checked:
  assumes "safe_prog p (\<lambda>_ _. True) s"
    "\<And>e t. evolves s t \<Longrightarrow> safe_prog (failed e) (\<lambda>_ _. True) t"
    "\<And>a t. evolves s t \<Longrightarrow> safe_prog (k a) (\<lambda>_ _. True) t"
  shows "safe_prog (checked p failed k) (\<lambda>_ _. True) s"
  using assms by (auto intro: safe_checked)

lemma keep_ignoring:
  assumes "safe_prog p (\<lambda>_ _. True) s" "\<And>t. evolves s t \<Longrightarrow> safe_prog q R t"
  shows "safe_prog (ignoring p q) R s"
  using assms by (auto intro: safe_ignoring)

lemma keep_if:
  assumes "b \<Longrightarrow> safe_prog p R s" "\<not> b \<Longrightarrow> safe_prog q R s"
  shows "safe_prog (if b then p else q) R s"
  using assms by simp

lemma keep_option:
  assumes "x = None \<Longrightarrow> safe_prog p R s" "\<And>a. x = Some a \<Longrightarrow> safe_prog (q a) R s"
  shows "safe_prog (case x of None \<Rightarrow> p | Some a \<Rightarrow> q a) R s"
  using assms by (cases x) simp_all

lemma keep_sum:
  assumes "\<And>a. x = Inl a \<Longrightarrow> safe_prog (p a) R s" "\<And>a. x = Inr a \<Longrightarrow> safe_prog (q a) R s"
  shows "safe_prog (case x of Inl a \<Rightarrow> p a | Inr a \<Rightarrow> q a) R s"
  using assms by (cases x) simp_all

lemma keep_reading: "safe_prog (stmt (\<lambda>c s. (f c s, s))) (\<lambda>_ _. True) s"
  by (rule safe_stmt) (auto intro: evolves_refl)

lemmas keep_rules = keep_Ret keep_then keep_checked keep_ignoring keep_if keep_option keep_sum

text \<open>Every interleaving of safe programs keeps the invariant, and the store evolves.\<close>

definition pool_good :: "('c, 's, 'a) pool \<Rightarrow> bool" where
  "pool_good S \<longleftrightarrow> inv (store S) \<and> (\<forall>i p. procs S i = Some p \<longrightarrow> safe_prog p (\<lambda>_ _. True) (store S))"

lemma pool_goodD: "pool_good S \<Longrightarrow> inv (store S)" "pool_good S \<Longrightarrow> procs S i = Some p \<Longrightarrow> safe_prog p (\<lambda>_ _. True) (store S)"
  by (simp_all add: pool_good_def)

lemma pool_good_update:
  assumes "pool_good S" "inv t" "evolves (store S) t" "\<And>p. q = Some p \<Longrightarrow> safe_prog p (\<lambda>_ _. True) t"
  shows "pool_good (S\<lparr>store := t, procs := (procs S)(i := q)\<rparr>)"
  using assms by (auto simp: pool_good_def intro: safe_evolves)

lemma pool_step_good:
  assumes "pool_step may_start env S T" "pool_good S"
    and start: "\<And>p s. may_start p \<Longrightarrow> inv s \<Longrightarrow> safe_prog p (\<lambda>_ _. True) s"
    and env: "\<And>s t. env s t \<Longrightarrow> inv s \<Longrightarrow> inv t \<and> evolves s t"
  shows "pool_good T \<and> evolves (store S) (store T)"
  using assms(1)
proof cases
  case (ps_start i p)
  then show ?thesis
    using assms(2) evolves_refl start by (auto simp: pool_good_def)
next
  case (ps_atom i u n c)
  from pool_goodD [OF assms(2)] ps_atom(2)
  have safe: "safe_prog (Atom u n) (\<lambda>_ _. True) (store S)" and now: "inv (store S)" by blast+
  then have "inv (u c (store S)) \<and> evolves (store S) (u c (store S)) \<and> safe_prog (n c (store S)) (\<lambda>_ _. True) (u c (store S))"
    using evolves_refl [of "store S"] by simp
  then show ?thesis
    using pool_good_update [OF assms(2), of "u c (store S)" "Some (n c (store S))" i] by (auto simp: ps_atom(1))
next
  case (ps_gone i)
  then show ?thesis
    using assms(2) evolves_refl by (auto simp: pool_good_def)
next
  case (ps_env t)
  then have "inv t" "evolves (store S) t" using pool_goodD(1) [OF assms(2)] env by blast+
  then show ?thesis
    using assms(2) by (auto simp: ps_env(1) pool_good_def intro: safe_evolves)
qed

lemma pool_reach_good:
  assumes "pool_reach may_start env init S"
    and "\<And>s. init s \<Longrightarrow> inv s"
    and "\<And>p s. may_start p \<Longrightarrow> inv s \<Longrightarrow> safe_prog p (\<lambda>_ _. True) s"
    and "\<And>s t. env s t \<Longrightarrow> inv s \<Longrightarrow> inv t \<and> evolves s t"
  shows "pool_good S"
  using assms(1)
proof induction
  case (pr_init s)
  then show ?case using assms(2) by (simp add: pool_good_def)
next
  case (pr_step S T)
  then show ?case using pool_step_good [OF pr_step.hyps(2) pr_step.IH] assms(3,4) by blast
qed

lemma pool_steps_evolve:
  assumes "(pool_step may_start env)\<^sup>*\<^sup>* S T" "pool_good S"
    and "\<And>p s. may_start p \<Longrightarrow> inv s \<Longrightarrow> safe_prog p (\<lambda>_ _. True) s"
    and "\<And>s t. env s t \<Longrightarrow> inv s \<Longrightarrow> inv t \<and> evolves s t"
  shows "pool_good T \<and> evolves (store S) (store T)"
  using assms(1)
proof induction
  case base
  then show ?case using assms(2) evolves_refl by blast
next
  case (step T U)
  have "pool_good U \<and> evolves (store T) (store U)"
    using step pool_step_good assms(3,4) by blast
  then show ?case using step.IH evolves_trans by blast
qed

end

end
