(* ===== verification/Subscription.thy ===== *)
theory Subscription
  imports AppErrors Complex_Main
begin

section \<open>Subscriptions: terms, usage windows and limits\<close>

text \<open>
  Models \<^verbatim>\<open>src/backend/internal/service/user_subscription.go\<close> and the functions of
  \<^verbatim>\<open>subscription_service.go\<close> that compute on one subscription: the days a subscription has left, the daily
  window (a calendar day of the configured zone), the weekly and monthly windows (periods counted from an
  anchor and never beyond the expiry), the reset times shown to users, the usage limits, and the terms of
  new, renewed and extended subscriptions.

  The zone database is the Go library's: \<open>calendar\<close> gives the start of the day a time is in and the addition
  of calendar days. The laws a lemma needs of it are its hypotheses. Amounts of US dollars are the exact
  values of the decimal columns.
\<close>

type_synonym usd = real

record calendar =
  start_of_day :: "time \<Rightarrow> time"
  add_days :: "time \<Rightarrow> int \<Rightarrow> time"

record UserSubscription =
  SubID :: int
  SubUserID :: int
  SubGroupID :: int
  StartsAt :: time
  SubExpiresAt :: time
  SubStatus :: string
  DailyWindowStart :: "time option"
  WeeklyWindowStart :: "time option"
  MonthlyWindowStart :: "time option"
  DailyUsageUSD :: usd
  WeeklyUsageUSD :: usd
  MonthlyUsageUSD :: usd
  AssignedBy :: "int option"
  AssignedAt :: time
  Notes :: string

record subscription_group =
  GroupID :: int
  GroupStatus :: string
  SubscriptionType :: string
  DailyLimitUSD :: "usd option"
  WeeklyLimitUSD :: "usd option"
  MonthlyLimitUSD :: "usd option"

definition SubscriptionStatusActive :: string where "SubscriptionStatusActive = ''active''"
definition SubscriptionStatusExpired :: string where "SubscriptionStatusExpired = ''expired''"
definition SubscriptionStatusSuspended :: string where "SubscriptionStatusSuspended = ''suspended''"
definition SubscriptionTypeSubscription :: string where "SubscriptionTypeSubscription = ''subscription''"

definition subscriptionDayDuration :: duration where "subscriptionDayDuration = 24 * hour"
definition week_duration :: duration where "week_duration = 7 * 24 * hour"
definition month_duration :: duration where "month_duration = 30 * 24 * hour"

lemmas sub_status_defs = SubscriptionStatusActive_def SubscriptionStatusExpired_def SubscriptionStatusSuspended_def
lemmas period_defs = subscriptionDayDuration_def week_duration_def month_duration_def hour_def

subsection \<open>The term\<close>

definition IsActive :: "time \<Rightarrow> UserSubscription \<Rightarrow> bool" where
  "IsActive now s \<longleftrightarrow> SubStatus s = SubscriptionStatusActive \<and> before now (SubExpiresAt s)"

definition IsExpired :: "time \<Rightarrow> UserSubscription \<Rightarrow> bool" where
  "IsExpired now s \<longleftrightarrow> after now (SubExpiresAt s)"

definition daysRemainingAt :: "time \<Rightarrow> UserSubscription \<Rightarrow> int" where
  "daysRemainingAt now s =
     (let remaining = sub_time (SubExpiresAt s) now
      in if remaining \<le> 0 then 0
         else let days = go_div remaining subscriptionDayDuration
              in if go_mod remaining subscriptionDayDuration \<noteq> 0 then days + 1 else days)"

definition IsWindowActivated :: "UserSubscription \<Rightarrow> bool" where
  "IsWindowActivated s \<longleftrightarrow> DailyWindowStart s \<noteq> None \<or> WeeklyWindowStart s \<noteq> None \<or> MonthlyWindowStart s \<noteq> None"

definition HasOneTimeDailyQuota :: "calendar \<Rightarrow> UserSubscription \<Rightarrow> bool" where
  "HasOneTimeDailyQuota C s \<longleftrightarrow>
     \<not> is_zero (StartsAt s) \<and> \<not> is_zero (SubExpiresAt s) \<and> \<not> after (SubExpiresAt s) (add_days C (StartsAt s) 1)"

subsection \<open>The daily window\<close>

definition automaticDailyWindowStartAt :: "calendar \<Rightarrow> UserSubscription \<Rightarrow> time \<Rightarrow> time option" where
  "automaticDailyWindowStartAt C s now =
     (case DailyWindowStart s of
        None \<Rightarrow> None
      | Some d \<Rightarrow>
          if HasOneTimeDailyQuota C s then None
          else let today = start_of_day C now
               in if \<not> after today (start_of_day C d) then None else Some today)"

definition NeedsDailyResetAt :: "calendar \<Rightarrow> UserSubscription \<Rightarrow> time \<Rightarrow> bool" where
  "NeedsDailyResetAt C s now \<longleftrightarrow> automaticDailyWindowStartAt C s now \<noteq> None"

definition canAutomaticallyResetDailyAt :: "calendar \<Rightarrow> UserSubscription \<Rightarrow> time \<Rightarrow> bool" where
  "canAutomaticallyResetDailyAt C s now \<longleftrightarrow> automaticDailyWindowStartAt C s now \<noteq> None"

definition DailyResetTime :: "calendar \<Rightarrow> UserSubscription \<Rightarrow> time option" where
  "DailyResetTime C s =
     (case DailyWindowStart s of
        None \<Rightarrow> None
      | Some d \<Rightarrow> if HasOneTimeDailyQuota C s then Some (SubExpiresAt s) else Some (add_days C (start_of_day C d) 1))"

subsection \<open>The weekly and monthly windows\<close>

definition windowResetAnchor :: "calendar \<Rightarrow> UserSubscription \<Rightarrow> time \<Rightarrow> time" where
  "windowResetAnchor C s previous =
     (let legacyAnchor = start_of_day C (StartsAt s)
      in if before legacyAnchor (StartsAt s) \<and> previous = legacyAnchor then StartsAt s else previous)"

definition automaticWindowStartAt :: "calendar \<Rightarrow> UserSubscription \<Rightarrow> time option \<Rightarrow> duration \<Rightarrow> time \<Rightarrow> time option" where
  "automaticWindowStartAt C s previous period now =
     (case previous of
        None \<Rightarrow> None
      | Some p \<Rightarrow>
          (let anchor = windowResetAnchor C s p;
               next = add_time anchor period
           in if before now next \<or> \<not> before next (SubExpiresAt s) then None
              else let periods = go_div (sub_time now anchor) period;
                       lastPeriodBeforeExpiry = go_div (sub_time (SubExpiresAt s) anchor - 1) period;
                       steps = (if periods > lastPeriodBeforeExpiry then lastPeriodBeforeExpiry else periods)
                   in Some (add_time anchor (steps * period))))"

definition canAutomaticallyResetWeeklyAt :: "calendar \<Rightarrow> UserSubscription \<Rightarrow> time \<Rightarrow> bool" where
  "canAutomaticallyResetWeeklyAt C s now \<longleftrightarrow> automaticWindowStartAt C s (WeeklyWindowStart s) week_duration now \<noteq> None"

definition canAutomaticallyResetMonthlyAt :: "calendar \<Rightarrow> UserSubscription \<Rightarrow> time \<Rightarrow> bool" where
  "canAutomaticallyResetMonthlyAt C s now \<longleftrightarrow> automaticWindowStartAt C s (MonthlyWindowStart s) month_duration now \<noteq> None"

definition NeedsWeeklyResetAt :: "UserSubscription \<Rightarrow> time \<Rightarrow> bool" where
  "NeedsWeeklyResetAt s now \<longleftrightarrow>
     (case WeeklyWindowStart s of None \<Rightarrow> False | Some w \<Rightarrow> \<not> before now (add_time w week_duration))"

definition NeedsMonthlyResetAt :: "UserSubscription \<Rightarrow> time \<Rightarrow> bool" where
  "NeedsMonthlyResetAt s now \<longleftrightarrow>
     (case MonthlyWindowStart s of None \<Rightarrow> False | Some w \<Rightarrow> \<not> before now (add_time w month_duration))"

definition WeeklyResetTime :: "calendar \<Rightarrow> UserSubscription \<Rightarrow> time option" where
  "WeeklyResetTime C s = map_option (\<lambda>w. add_time (windowResetAnchor C s w) week_duration) (WeeklyWindowStart s)"

definition MonthlyResetTime :: "calendar \<Rightarrow> UserSubscription \<Rightarrow> time option" where
  "MonthlyResetTime C s = map_option (\<lambda>w. add_time (windowResetAnchor C s w) month_duration) (MonthlyWindowStart s)"

subsection \<open>Limits\<close>

definition IsSubscriptionType :: "subscription_group \<Rightarrow> bool" where
  "IsSubscriptionType g \<longleftrightarrow> SubscriptionType g = SubscriptionTypeSubscription"

definition has_limit :: "usd option \<Rightarrow> bool" where
  "has_limit l \<longleftrightarrow> (case l of None \<Rightarrow> False | Some x \<Rightarrow> x > 0)"

definition HasDailyLimit :: "subscription_group \<Rightarrow> bool" where "HasDailyLimit g \<longleftrightarrow> has_limit (DailyLimitUSD g)"
definition HasWeeklyLimit :: "subscription_group \<Rightarrow> bool" where "HasWeeklyLimit g \<longleftrightarrow> has_limit (WeeklyLimitUSD g)"
definition HasMonthlyLimit :: "subscription_group \<Rightarrow> bool" where "HasMonthlyLimit g \<longleftrightarrow> has_limit (MonthlyLimitUSD g)"

definition CheckDailyLimit :: "UserSubscription \<Rightarrow> subscription_group \<Rightarrow> usd \<Rightarrow> bool" where
  "CheckDailyLimit s g additionalCost \<longleftrightarrow>
     (if \<not> HasDailyLimit g then True else DailyUsageUSD s + additionalCost \<le> the (DailyLimitUSD g))"

definition CheckWeeklyLimit :: "UserSubscription \<Rightarrow> subscription_group \<Rightarrow> usd \<Rightarrow> bool" where
  "CheckWeeklyLimit s g additionalCost \<longleftrightarrow>
     (if \<not> HasWeeklyLimit g then True else WeeklyUsageUSD s + additionalCost \<le> the (WeeklyLimitUSD g))"

definition CheckMonthlyLimit :: "UserSubscription \<Rightarrow> subscription_group \<Rightarrow> usd \<Rightarrow> bool" where
  "CheckMonthlyLimit s g additionalCost \<longleftrightarrow>
     (if \<not> HasMonthlyLimit g then True else MonthlyUsageUSD s + additionalCost \<le> the (MonthlyLimitUSD g))"

definition CheckAllLimits :: "UserSubscription \<Rightarrow> subscription_group \<Rightarrow> usd \<Rightarrow> bool \<times> bool \<times> bool" where
  "CheckAllLimits s g additionalCost =
     (CheckDailyLimit s g additionalCost, CheckWeeklyLimit s g additionalCost, CheckMonthlyLimit s g additionalCost)"

subsection \<open>Validation before a request\<close>

definition ErrSubscriptionNotFound :: go_error where
  "ErrSubscriptionNotFound = NotFound ''SUBSCRIPTION_NOT_FOUND'' ''subscription not found''"
definition ErrSubscriptionExpired :: go_error where
  "ErrSubscriptionExpired = Forbidden ''SUBSCRIPTION_EXPIRED'' ''subscription has expired''"
definition ErrSubscriptionSuspended :: go_error where
  "ErrSubscriptionSuspended = Forbidden ''SUBSCRIPTION_SUSPENDED'' ''subscription is suspended''"
definition ErrGroupNotSubscriptionType :: go_error where
  "ErrGroupNotSubscriptionType = BadRequest ''GROUP_NOT_SUBSCRIPTION_TYPE'' ''group is not a subscription type''"
definition ErrDailyLimitExceeded :: go_error where
  "ErrDailyLimitExceeded = TooManyRequests ''DAILY_LIMIT_EXCEEDED'' ''daily usage limit exceeded''"
definition ErrWeeklyLimitExceeded :: go_error where
  "ErrWeeklyLimitExceeded = TooManyRequests ''WEEKLY_LIMIT_EXCEEDED'' ''weekly usage limit exceeded''"
definition ErrMonthlyLimitExceeded :: go_error where
  "ErrMonthlyLimitExceeded = TooManyRequests ''MONTHLY_LIMIT_EXCEEDED'' ''monthly usage limit exceeded''"

definition CheckUsageLimits :: "UserSubscription \<Rightarrow> subscription_group \<Rightarrow> usd \<Rightarrow> go_error option" where
  "CheckUsageLimits s g additionalCost =
     (if \<not> CheckDailyLimit s g additionalCost then Some ErrDailyLimitExceeded
      else if \<not> CheckWeeklyLimit s g additionalCost then Some ErrWeeklyLimitExceeded
      else if \<not> CheckMonthlyLimit s g additionalCost then Some ErrMonthlyLimitExceeded
      else None)"

text \<open>
  \<^verbatim>\<open>ValidateAndCheckLimits\<close> also clears the usage of windows that are over in the subscription it was given;
  the last component is the subscription as it leaves it.
\<close>

definition zero_stale_usage :: "calendar \<Rightarrow> time \<Rightarrow> UserSubscription \<Rightarrow> UserSubscription" where
  "zero_stale_usage C now s =
     s\<lparr>DailyUsageUSD := (if canAutomaticallyResetDailyAt C s now then 0 else DailyUsageUSD s),
       WeeklyUsageUSD := (if canAutomaticallyResetWeeklyAt C s now then 0 else WeeklyUsageUSD s),
       MonthlyUsageUSD := (if canAutomaticallyResetMonthlyAt C s now then 0 else MonthlyUsageUSD s)\<rparr>"

definition ValidateAndCheckLimits ::
  "calendar \<Rightarrow> time \<Rightarrow> UserSubscription \<Rightarrow> subscription_group \<Rightarrow> bool \<times> go_error option \<times> UserSubscription" where
  "ValidateAndCheckLimits C now s g =
     (if SubStatus s = SubscriptionStatusExpired then (False, Some ErrSubscriptionExpired, s)
      else if SubStatus s = SubscriptionStatusSuspended then (False, Some ErrSubscriptionSuspended, s)
      else if \<not> after (SubExpiresAt s) now then (False, Some ErrSubscriptionExpired, s)
      else
        let t = zero_stale_usage C now s;
            needsMaintenance = canAutomaticallyResetDailyAt C s now \<or> canAutomaticallyResetWeeklyAt C s now \<or>
              canAutomaticallyResetMonthlyAt C s now \<or> \<not> IsWindowActivated s
        in (needsMaintenance, CheckUsageLimits t g 0, t))"

subsection \<open>Terms of new, extended and renewed subscriptions\<close>

definition MaxValidityDays :: int where "MaxValidityDays = 36500"

definition MaxExpiresAt :: time where "MaxExpiresAt = 66238041599 * second"

definition normalizeAssignValidityDays :: "int \<Rightarrow> int" where
  "normalizeAssignValidityDays days =
     (let d = (if days \<le> 0 then 30 else days) in if d > MaxValidityDays then MaxValidityDays else d)"

definition appendSubscriptionNotes :: "string \<Rightarrow> string \<Rightarrow> string" where
  "appendSubscriptionNotes existingNotes newNotes =
     (if newNotes = '''' then existingNotes
      else if existingNotes = '''' then newNotes
      else existingNotes @ [char_of (10::nat)] @ newNotes)"

definition renewedSubscriptionTerm :: "calendar \<Rightarrow> UserSubscription \<Rightarrow> string \<Rightarrow> time \<Rightarrow> time \<Rightarrow> UserSubscription" where
  "renewedSubscriptionTerm C existingSub notes startsAt expiresAt =
     existingSub\<lparr>StartsAt := startsAt, SubExpiresAt := expiresAt, SubStatus := SubscriptionStatusActive,
       DailyWindowStart := Some (start_of_day C startsAt), WeeklyWindowStart := Some startsAt,
       MonthlyWindowStart := Some startsAt, DailyUsageUSD := 0, WeeklyUsageUSD := 0, MonthlyUsageUSD := 0,
       Notes := appendSubscriptionNotes (Notes existingSub) notes\<rparr>"

definition detectAssignSemanticConflict :: "calendar \<Rightarrow> UserSubscription \<Rightarrow> int \<Rightarrow> string \<Rightarrow> string option" where
  "detectAssignSemanticConflict C existing validityDays notes =
     (let expected = add_days C (StartsAt existing) (normalizeAssignValidityDays validityDays);
          expectedExpiresAt = (if after expected MaxExpiresAt then MaxExpiresAt else expected)
      in if \<not> is_zero (StartsAt existing) \<and> SubExpiresAt existing \<noteq> expectedExpiresAt
         then Some ''validity_days_mismatch''
         else if trim_space (Notes existing) \<noteq> trim_space notes then Some ''notes_mismatch''
         else None)"

subsection \<open>Lemmas on windows\<close>

lemma period_pos [simp]: "0 < week_duration" "0 < month_duration" "0 < subscriptionDayDuration"
  by (simp_all add: period_defs)

lemma anchor_not_before: "p \<le> windowResetAnchor C s p"
  by (simp add: windowResetAnchor_def Let_def before_def)

lemma anchor_of_current [simp]: "StartsAt s \<le> p \<Longrightarrow> windowResetAnchor C s p = p"
  by (simp add: windowResetAnchor_def Let_def before_def)

text \<open>The last boundary of the grid of periods that a time has reached and that is before the expiry.\<close>

lemma last_boundary:
  fixes d e k period :: int
  assumes "0 < period" "period \<le> d" "period < e"
  shows "k = min (d div period) ((e - 1) div period) \<longleftrightarrow>
         1 \<le> k \<and> k * period \<le> d \<and> k * period < e \<and> (d < (k + 1) * period \<or> e \<le> (k + 1) * period)"
proof -
  have le_div: "k \<le> x div period \<longleftrightarrow> k * period \<le> x" for k x
  proof
    assume "k \<le> x div period"
    then have "k * period \<le> (x div period) * period" using assms(1) by simp
    also have "\<dots> \<le> x" using assms(1) by (metis div_mult_mod_eq less_add_same_cancel1 linorder_not_less pos_mod_sign add.commute add_le_cancel_right le_add_same_cancel2)
    finally show "k * period \<le> x" .
  next
    assume "k * period \<le> x"
    then have "(k * period) div period \<le> x div period" using assms(1) by (intro zdiv_mono1)
    then show "k \<le> x div period" using assms(1) by simp
  qed
  have "1 \<le> min (d div period) ((e - 1) div period)"
    using assms by (simp add: le_div)
  moreover have "k = min (d div period) ((e - 1) div period) \<longleftrightarrow>
      k \<le> d div period \<and> k \<le> (e - 1) div period \<and> \<not> (k + 1 \<le> d div period \<and> k + 1 \<le> (e - 1) div period)"
    by (auto simp: min_def)
  ultimately show ?thesis
    unfolding le_div by (auto simp: le_div)
qed

lemma automatic_window_some:
  assumes "0 < period" "SubExpiresAt s - windowResetAnchor C s p \<le> max_int64"
  defines "a \<equiv> windowResetAnchor C s p"
  shows "automaticWindowStartAt C s (Some p) period now = Some w \<longleftrightarrow>
     (\<exists>k\<ge>1. w = a + k * period \<and> w \<le> now \<and> w < SubExpiresAt s \<and>
            (now < w + period \<or> SubExpiresAt s \<le> w + period))"
proof (cases "now < a + period \<or> SubExpiresAt s \<le> a + period")
  case True
  have "a + period \<le> a + k * period" if "1 \<le> k" for k
    using assms(1) that mult_right_mono [of 1 k period] by simp
  with True show ?thesis
    by (fastforce simp: automaticWindowStartAt_def a_def [symmetric] Let_def before_def add_time_def)
next
  case False
  define d where "d = sub_time now a"
  define e where "e = SubExpiresAt s - a"
  have span: "period \<le> d" "period < e" "e \<le> max_int64"
    using False assms(1,2) by (auto simp: d_def e_def a_def sub_time_def)
  have e: "sub_time (SubExpiresAt s) a = e"
    using span assms(1) by (simp add: e_def sub_time_def min_int64_def)
  have "automaticWindowStartAt C s (Some p) period now = Some (a + min (d div period) ((e - 1) div period) * period)"
    using False span assms(1)
    by (simp add: automaticWindowStartAt_def a_def [symmetric] Let_def before_def add_time_def e d_def [symmetric]
        go_div_nonneg min_def)
  then have "automaticWindowStartAt C s (Some p) period now = Some w \<longleftrightarrow>
     (\<exists>k. w = a + k * period \<and> k = min (d div period) ((e - 1) div period))"
    by auto
  also have "\<dots> \<longleftrightarrow> (\<exists>k\<ge>1. w = a + k * period \<and> k * period \<le> d \<and> k * period < e \<and>
      (d < (k + 1) * period \<or> e \<le> (k + 1) * period))"
    unfolding last_boundary [OF assms(1) span(1,2)] by blast
  also have "\<dots> \<longleftrightarrow> (\<exists>k\<ge>1. w = a + k * period \<and> w \<le> now \<and> w < SubExpiresAt s \<and>
            (now < w + period \<or> SubExpiresAt s \<le> w + period))"
  proof -
    have "d = now - a \<or> d = max_int64 \<and> max_int64 \<le> now - a"
      using span(1) assms(1) by (auto simp: d_def sub_time_def min_int64_def max_int64_def split: if_splits)
    then show ?thesis
      using span by (auto simp: e_def algebra_simps)
  qed
  finally show ?thesis .
qed

subsection \<open>Properties\<close>

text \<open>A calendar without offsets, for the witnesses.\<close>

definition utc_calendar :: calendar where
  "utc_calendar = \<lparr>start_of_day = (\<lambda>t. t - t mod (24 * hour)), add_days = (\<lambda>t n. t + n * (24 * hour))\<rparr>"

definition witness_sub :: UserSubscription where
  "witness_sub = \<lparr>SubID = 5, SubUserID = 7, SubGroupID = 3, StartsAt = 100 * 24 * hour + hour,
     SubExpiresAt = 130 * 24 * hour + hour, SubStatus = SubscriptionStatusActive,
     DailyWindowStart = Some (100 * 24 * hour), WeeklyWindowStart = Some (100 * 24 * hour),
     MonthlyWindowStart = Some (100 * 24 * hour), DailyUsageUSD = 1, WeeklyUsageUSD = 2, MonthlyUsageUSD = 2,
     AssignedBy = None, AssignedAt = 100 * 24 * hour, Notes = ''''\<rparr>"

lemmas witness_sub_simps = witness_sub_def utc_calendar_def windowResetAnchor_def before_def hour_def
  week_duration_def month_duration_def max_int64_def min_int64_def Let_def

text \<open>C33: The window a weekly or monthly reset opens is the last boundary, counted in whole periods from the
  anchor, that the clock has reached and that lies before the expiry; without such a boundary nothing is reset.\<close>

theorem window_is_last_boundary:
  assumes "0 < period" "SubExpiresAt s - windowResetAnchor C s p \<le> max_int64"
  shows "automaticWindowStartAt C s (Some p) period now = Some w \<longleftrightarrow>
     (\<exists>k\<ge>1. w = windowResetAnchor C s p + k * period \<and> w \<le> now \<and> w < SubExpiresAt s \<and>
            (now < w + period \<or> SubExpiresAt s \<le> w + period))"
  using assms by (rule automatic_window_some)

theorem window_is_last_boundary_witness:
  "automaticWindowStartAt utc_calendar witness_sub (WeeklyWindowStart witness_sub) week_duration (129 * 24 * hour) =
     Some (128 * 24 * hour + hour)"
proof -
  have "SubExpiresAt witness_sub - windowResetAnchor utc_calendar witness_sub (100 * 24 * hour) \<le> max_int64"
    by (simp add: witness_sub_simps)
  from window_is_last_boundary [OF period_pos(1) this, of "129 * 24 * hour" "128 * 24 * hour + hour"]
  show ?thesis
    by (auto simp: witness_sub_simps intro: exI [of _ 4])
qed

text \<open>The time shown to users as the next weekly or monthly reset is the time from which the window
  advances, unless the subscription ends first.\<close>

lemma shown_reset_is_real:
  "canAutomaticallyResetWeeklyAt C s now \<longleftrightarrow>
     (\<exists>t. WeeklyResetTime C s = Some t \<and> t \<le> now \<and> t < SubExpiresAt s) \<and>
   (canAutomaticallyResetMonthlyAt C s now \<longleftrightarrow>
     (\<exists>t. MonthlyResetTime C s = Some t \<and> t \<le> now \<and> t < SubExpiresAt s))"
  by (auto simp: canAutomaticallyResetWeeklyAt_def canAutomaticallyResetMonthlyAt_def WeeklyResetTime_def
      MonthlyResetTime_def automaticWindowStartAt_def Let_def before_def not_less split: option.splits)

text \<open>The windows a subscription opens over a run of maintenance calls at the given times.\<close>

fun opened_windows :: "calendar \<Rightarrow> UserSubscription \<Rightarrow> duration \<Rightarrow> time \<Rightarrow> time list \<Rightarrow> time list" where
  "opened_windows C s period start [] = []"
| "opened_windows C s period start (now # later) =
     (case automaticWindowStartAt C s (Some start) period now of
        None \<Rightarrow> opened_windows C s period start later
      | Some w \<Rightarrow> w # opened_windows C s period w later)"

lemma opened_windows_bound:
  assumes "0 < period" "SubExpiresAt s - p \<le> max_int64" "opened_windows C s period p nows \<noteq> []"
  shows "int (length (opened_windows C s period p nows)) * period < SubExpiresAt s - windowResetAnchor C s p"
  using assms(2,3)
proof (induction nows arbitrary: p)
  case Nil
  then show ?case by simp
next
  case (Cons now later)
  show ?case
  proof (cases "automaticWindowStartAt C s (Some p) period now")
    case None
    then show ?thesis using Cons by simp
  next
    case (Some w)
    have le: "p \<le> windowResetAnchor C s p" "w \<le> windowResetAnchor C s w" by (rule anchor_not_before)+
    have "SubExpiresAt s - windowResetAnchor C s p \<le> max_int64" using Cons.prems(1) le by simp
    from automatic_window_some [OF assms(1) this, of now w] Some
    obtain k where k: "1 \<le> k" "w = windowResetAnchor C s p + k * period" "w < SubExpiresAt s" by auto
    have step: "windowResetAnchor C s p + period \<le> w"
      using k(1,2) assms(1) mult_right_mono [of 1 k period] by simp
    show ?thesis
    proof (cases "opened_windows C s period w later = []")
      case True
      then show ?thesis using Some step k(3) by simp
    next
      case False
      have "SubExpiresAt s - w \<le> max_int64" using Cons.prems(1) le step assms(1) by simp
      from Cons.IH [OF this False] show ?thesis
        using Some step le by (simp add: algebra_simps)
    qed
  qed
qed

text \<open>C32: Whatever the times at which requests come in, a subscription never opens a window for a period it
  was not paid for: \<open>n\<close> resets take strictly less than its term, so that with the first window it has at most
  as many windows as its term has begun periods, and the last incomplete period is granted once.\<close>

theorem no_unpaid_window:
  assumes "0 < period" "SubExpiresAt s - p \<le> max_int64" "StartsAt s \<le> windowResetAnchor C s p"
    and "opened_windows C s period p nows \<noteq> []"
  shows "int (length (opened_windows C s period p nows)) * period < SubExpiresAt s - StartsAt s"
  using opened_windows_bound [OF assms(1,2,4)] assms(3) by simp

theorem no_unpaid_window_witness:
  "length (opened_windows utc_calendar witness_sub week_duration (100 * 24 * hour)
      [104 * 24 * hour, 107 * 24 * hour + hour, 120 * 24 * hour, 129 * 24 * hour, 140 * 24 * hour]) = 3 \<and>
   3 * week_duration < SubExpiresAt witness_sub - StartsAt witness_sub"
proof -
  let ?p = "100 * 24 * hour :: int"
  let ?w = "opened_windows utc_calendar witness_sub week_duration ?p
      [104 * 24 * hour, 107 * 24 * hour + hour, 120 * 24 * hour, 129 * 24 * hour, 140 * 24 * hour]"
  have len: "length ?w = 3"
    by (simp add: witness_sub_simps automaticWindowStartAt_def add_time_def sub_time_def go_div_nonneg)
  have "?w \<noteq> []" using len by auto
  from no_unpaid_window [OF period_pos(1) _ _ this] len show ?thesis
    by (simp add: witness_sub_simps)
qed


end
