(* ===== verification/GatewayStore.thy ===== *)
theory GatewayStore
  imports Programs Subscription
begin

section \<open>The tables behind payments, redeem codes and subscriptions\<close>

text \<open>
  The database of the gateway, as far as payments, redeem codes and subscriptions use it, and the
  statements on it: \<^verbatim>\<open>redeem_code_repo.go\<close>, \<^verbatim>\<open>user_subscription_repo.go\<close> and the balance functions of
  \<^verbatim>\<open>user_repo.go\<close> under \<^verbatim>\<open>src/backend/internal/repository\<close>, the order statements of
  \<^verbatim>\<open>payment_fulfillment.go\<close> and the audit log of \<^verbatim>\<open>payment_stats.go\<close> under \<^verbatim>\<open>src/backend/internal/service\<close>.

  A statement, or a transaction up to its commit, is a function on the database that returns an error and
  leaves the database alone, or an answer and the database after it. \<open>sql\<close> makes it one atomic step of a
  program, under a chance: the connection works, or it fails before the statement took effect, or it fails after
  the commit, so that the caller sees an error although the effect is there.

  A timestamp is stored to the microsecond (\<open>pg_time\<close>); amounts are exact decimals. Rows that were deleted
  softly are absent.
\<close>

subsection \<open>Rows\<close>

datatype snapshot_value = SnapText string | SnapNumber int | SnapOther

record payment_order =
  order_id :: int
  order_user :: int
  order_type :: string
  order_amount :: usd
  pay_amount :: usd
  order_status :: string
  recharge_code :: string
  out_trade_no :: string
  payment_type :: string
  payment_trade_no :: string
  provider_key :: "string option"
  provider_snapshot :: "(string \<times> snapshot_value) list"
  subscription_group_id :: "int option"
  subscription_days :: "int option"
  paid_at :: "time option"
  completed_at :: "time option"
  failed_at :: "time option"
  failed_reason :: "string option"
  order_created_at :: time
  order_expires_at :: time
  order_updated_at :: time

record RedeemCode =
  rc_id :: int
  rc_code :: string
  rc_type :: string
  rc_value :: usd
  rc_status :: string
  rc_used_by :: "int option"
  rc_used_at :: "time option"
  rc_expires_at :: "time option"
  rc_group :: "int option"
  rc_days :: int

record user_row =
  balance :: usd
  total_recharged :: usd
  concurrency :: int

record gateway_db =
  clock :: time
  orders :: "payment_order list"
  next_order_id :: int
  redeem_codes :: "RedeemCode list"
  next_code_id :: int
  users :: "int \<rightharpoonup> user_row"
  audit_logs :: "(int \<times> string) list"
  rebates :: "(int option \<times> usd) list"
  groups :: "int \<rightharpoonup> subscription_group"
  subs :: "UserSubscription list"
  next_sub_id :: int
  redeem_attempts :: "int \<Rightarrow> int"
  redeem_locks :: "string list"

definition OrderStatusPending :: string where "OrderStatusPending = ''PENDING''"
definition OrderStatusPaid :: string where "OrderStatusPaid = ''PAID''"
definition OrderStatusRecharging :: string where "OrderStatusRecharging = ''RECHARGING''"
definition OrderStatusCompleted :: string where "OrderStatusCompleted = ''COMPLETED''"
definition OrderStatusExpired :: string where "OrderStatusExpired = ''EXPIRED''"
definition OrderStatusCancelled :: string where "OrderStatusCancelled = ''CANCELLED''"
definition OrderStatusFailed :: string where "OrderStatusFailed = ''FAILED''"
definition OrderStatusRefundRequested :: string where "OrderStatusRefundRequested = ''REFUND_REQUESTED''"
definition OrderStatusRefunding :: string where "OrderStatusRefunding = ''REFUNDING''"
definition OrderStatusRefundPending :: string where "OrderStatusRefundPending = ''REFUND_PENDING''"
definition OrderStatusPartiallyRefunded :: string where "OrderStatusPartiallyRefunded = ''PARTIALLY_REFUNDED''"
definition OrderStatusRefunded :: string where "OrderStatusRefunded = ''REFUNDED''"
definition OrderStatusRefundFailed :: string where "OrderStatusRefundFailed = ''REFUND_FAILED''"

lemmas order_status_defs = OrderStatusPending_def OrderStatusPaid_def OrderStatusRecharging_def
  OrderStatusCompleted_def OrderStatusExpired_def OrderStatusCancelled_def OrderStatusFailed_def
  OrderStatusRefundRequested_def OrderStatusRefunding_def OrderStatusRefundPending_def
  OrderStatusPartiallyRefunded_def OrderStatusRefunded_def OrderStatusRefundFailed_def

definition RedeemTypeBalance :: string where "RedeemTypeBalance = ''balance''"
definition RedeemTypeConcurrency :: string where "RedeemTypeConcurrency = ''concurrency''"
definition RedeemTypeSubscription :: string where "RedeemTypeSubscription = ''subscription''"
definition RedeemTypeInvitation :: string where "RedeemTypeInvitation = ''invitation''"
definition StatusUnused :: string where "StatusUnused = ''unused''"
definition StatusUsed :: string where "StatusUsed = ''used''"
definition StatusExpired :: string where "StatusExpired = ''expired''"

lemmas redeem_const_defs = RedeemTypeBalance_def RedeemTypeConcurrency_def RedeemTypeSubscription_def
  RedeemTypeInvitation_def StatusUnused_def StatusUsed_def StatusExpired_def

subsection \<open>Errors\<close>

definition wrap :: "string \<Rightarrow> go_error \<Rightarrow> go_error" where "wrap msg e = OtherError msg (Some e)"
definition plain_error :: "string \<Rightarrow> go_error" where "plain_error msg = OtherError msg None"

definition ent_not_found :: go_error where "ent_not_found = plain_error ''ent: not found''"
definition ent_constraint :: go_error where "ent_constraint = plain_error ''ent: constraint failed''"
definition IsNotFound :: "go_error \<Rightarrow> bool" where "IsNotFound e \<longleftrightarrow> e = ent_not_found"
definition IsConstraintError :: "go_error \<Rightarrow> bool" where "IsConstraintError e \<longleftrightarrow> e = ent_constraint"

definition ErrRedeemCodeNotFound :: go_error where
  "ErrRedeemCodeNotFound = NotFound ''REDEEM_CODE_NOT_FOUND'' ''redeem code not found''"
definition ErrRedeemCodeUsed :: go_error where
  "ErrRedeemCodeUsed = Conflict ''REDEEM_CODE_USED'' ''redeem code already used''"
definition ErrRedeemCodeExpired :: go_error where
  "ErrRedeemCodeExpired = Conflict ''REDEEM_CODE_EXPIRED'' ''redeem code expired''"
definition ErrRedeemRateLimited :: go_error where
  "ErrRedeemRateLimited = TooManyRequests ''REDEEM_RATE_LIMITED'' ''too many failed attempts, please try again later''"
definition ErrRedeemCodeLocked :: go_error where
  "ErrRedeemCodeLocked = Conflict ''REDEEM_CODE_LOCKED'' ''redeem code is being processed, please try again''"
definition ErrUserNotFound :: go_error where
  "ErrUserNotFound = NotFound ''USER_NOT_FOUND'' ''user not found''"

subsection \<open>Statements as steps of a program\<close>

datatype weather = Fair | Refused go_error | Unacknowledged go_error

record query_response =
  resp_status :: string
  resp_amount :: "usd option"
  resp_trade_no :: string
  resp_metadata :: "(string \<times> string) list"

record chance =
  weather :: weather
  instance_key :: "string option"
  order_provider :: "go_error + string"
  query_order :: "go_error + query_response"
  rebate_rule :: "go_error + usd"
  random_suffix :: string
  create_payment :: "go_error + string"

type_synonym 'a pay = "(chance, gateway_db, 'a) prog"
type_synonym 'a db_stmt = "gateway_db \<Rightarrow> (go_error + 'a) \<times> gateway_db"

definition under_weather ::
  "weather \<Rightarrow> ('s \<Rightarrow> (go_error + 'a) \<times> 's) \<Rightarrow> 's \<Rightarrow> (go_error + 'a) \<times> 's" where
  "under_weather w f s =
     (case w of
        Refused e \<Rightarrow> (Inl e, s)
      | Fair \<Rightarrow> (case f s of (Inl e, _) \<Rightarrow> (Inl e, s) | (Inr a, t) \<Rightarrow> (Inr a, t))
      | Unacknowledged e \<Rightarrow> (case f s of (Inl e', _) \<Rightarrow> (Inl e', s) | (Inr _, t) \<Rightarrow> (Inl e, t)))"

definition sql :: "'a db_stmt \<Rightarrow> (go_error + 'a) pay" where
  "sql f = stmt (\<lambda>c. under_weather (weather c) f)"

definition time_now :: "time pay" where "time_now = stmt (\<lambda>c s. (clock s, s))"

definition pg_time :: "time \<Rightarrow> time" where "pg_time t = (t + 500) div 1000 * 1000"

subsection \<open>Payment orders\<close>

definition find_order :: "(payment_order \<Rightarrow> bool) \<Rightarrow> payment_order db_stmt" where
  "find_order p s = (case List.find p (orders s) of None \<Rightarrow> (Inl ent_not_found, s) | Some r \<Rightarrow> (Inr r, s))"

definition order_by_id :: "int \<Rightarrow> (go_error + payment_order) pay" where
  "order_by_id i = sql (find_order (\<lambda>r. order_id r = i))"

definition order_by_trade_no :: "string \<Rightarrow> (go_error + payment_order) pay" where
  "order_by_trade_no no = sql (find_order (\<lambda>r. out_trade_no r = no))"

text \<open>\<^verbatim>\<open>UPDATE payment_orders SET ... WHERE id = i AND ...\<close>, with the number of rows changed.\<close>

definition update_order :: "int \<Rightarrow> (payment_order \<Rightarrow> bool) \<Rightarrow> (payment_order \<Rightarrow> payment_order) \<Rightarrow> nat db_stmt" where
  "update_order i cond f s =
     (let hit = (\<lambda>r. order_id r = i \<and> cond r)
      in (Inr (length (filter hit (orders s))), s\<lparr>orders := map (\<lambda>r. if hit r then f r else r) (orders s)\<rparr>))"

definition update_one_order :: "int \<Rightarrow> (payment_order \<Rightarrow> payment_order) \<Rightarrow> unit db_stmt" where
  "update_one_order i f s =
     (if \<exists>r\<in>set (orders s). order_id r = i
      then (Inr (), s\<lparr>orders := map (\<lambda>r. if order_id r = i then f r else r) (orders s)\<rparr>)
      else (Inl ent_not_found, s))"

definition touched :: "gateway_db \<Rightarrow> payment_order \<Rightarrow> payment_order" where
  "touched s o1 = o1\<lparr>order_updated_at := pg_time (clock s)\<rparr>"

subsection \<open>The audit log\<close>

text \<open>The index \<^verbatim>\<open>idx_payment_audit_logs_order_action_uniq\<close> of migration 131 makes an action unique per order.\<close>

definition insert_audit :: "int \<Rightarrow> string \<Rightarrow> unit db_stmt" where
  "insert_audit i action s =
     (if (i, action) \<in> set (audit_logs s) then (Inl ent_constraint, s)
      else (Inr (), s\<lparr>audit_logs := audit_logs s @ [(i, action)]\<rparr>))"

definition writeAuditLog :: "int \<Rightarrow> string \<Rightarrow> (go_error + unit) pay" where
  "writeAuditLog i action = sql (insert_audit i action)"

definition hasAuditLog :: "int \<Rightarrow> string \<Rightarrow> bool pay" where
  "hasAuditLog i action =
     and_then (sql (\<lambda>s. (Inr ((i, action) \<in> set (audit_logs s)), s)))
       (\<lambda>r. Ret (case r of Inl _ \<Rightarrow> False | Inr b \<Rightarrow> b))"

subsection \<open>Redeem codes\<close>

definition IsUsed :: "RedeemCode \<Rightarrow> bool" where "IsUsed r \<longleftrightarrow> rc_status r = StatusUsed"

definition IsExpiredAt :: "time \<Rightarrow> RedeemCode \<Rightarrow> bool" where
  "IsExpiredAt now r \<longleftrightarrow> rc_status r = StatusExpired \<or>
     rc_status r = StatusUnused \<and> (case rc_expires_at r of None \<Rightarrow> False | Some e \<Rightarrow> \<not> after e now)"

definition CanUse :: "time \<Rightarrow> RedeemCode \<Rightarrow> bool" where
  "CanUse now r \<longleftrightarrow> rc_status r = StatusUnused \<and> \<not> IsExpiredAt now r"

definition insert_code :: "RedeemCode \<Rightarrow> unit db_stmt" where
  "insert_code r s =
     (if rc_code r = '''' \<or> length (rc_code r) > 32 then (Inl (plain_error ''ent: validator failed''), s)
      else if rc_code r \<in> rc_code ` set (redeem_codes s) then (Inl ent_constraint, s)
      else (Inr (), s\<lparr>redeem_codes := redeem_codes s @ [r\<lparr>rc_id := next_code_id s\<rparr>],
                      next_code_id := next_code_id s + 1\<rparr>))"

definition find_code :: "(RedeemCode \<Rightarrow> bool) \<Rightarrow> RedeemCode db_stmt" where
  "find_code p s =
     (case List.find p (redeem_codes s) of None \<Rightarrow> (Inl ErrRedeemCodeNotFound, s) | Some r \<Rightarrow> (Inr r, s))"

definition use_code :: "int \<Rightarrow> int \<Rightarrow> unit db_stmt" where
  "use_code i userID s =
     (if \<exists>r\<in>set (redeem_codes s). rc_id r = i \<and> rc_status r = StatusUnused
      then (Inr (), s\<lparr>redeem_codes := map (\<lambda>r. if rc_id r = i \<and> rc_status r = StatusUnused
              then r\<lparr>rc_status := StatusUsed, rc_used_by := Some userID, rc_used_at := Some (pg_time (clock s))\<rparr>
              else r) (redeem_codes s)\<rparr>)
      else (Inl ErrRedeemCodeUsed, s))"

subsection \<open>Users\<close>

definition update_user :: "int \<Rightarrow> (user_row \<Rightarrow> user_row) \<Rightarrow> unit db_stmt" where
  "update_user i f s =
     (case users s i of None \<Rightarrow> (Inl ErrUserNotFound, s) | Some u \<Rightarrow> (Inr (), s\<lparr>users := (users s)(i \<mapsto> f u)\<rparr>))"

definition UpdateBalance :: "int \<Rightarrow> usd \<Rightarrow> unit db_stmt" where
  "UpdateBalance i amount = update_user i (\<lambda>u. u\<lparr>balance := balance u + amount,
     total_recharged := (if amount > 0 then total_recharged u + amount else total_recharged u)\<rparr>)"

definition ApplyRedeemBalanceAdjustment :: "int \<Rightarrow> usd \<Rightarrow> unit db_stmt" where
  "ApplyRedeemBalanceAdjustment i delta = update_user i (\<lambda>u. u\<lparr>balance := max (balance u + delta) 0\<rparr>)"

definition UpdateConcurrency :: "int \<Rightarrow> int \<Rightarrow> unit db_stmt" where
  "UpdateConcurrency i amount = update_user i (\<lambda>u. u\<lparr>concurrency := concurrency u + amount\<rparr>)"

definition ApplyRedeemConcurrencyAdjustment :: "int \<Rightarrow> int \<Rightarrow> unit db_stmt" where
  "ApplyRedeemConcurrencyAdjustment i delta = update_user i (\<lambda>u. u\<lparr>concurrency := max (concurrency u + delta) 0\<rparr>)"

definition find_user :: "int \<Rightarrow> user_row db_stmt" where
  "find_user i s = (case users s i of None \<Rightarrow> (Inl ErrUserNotFound, s) | Some u \<Rightarrow> (Inr u, s))"

text \<open>Statements of one transaction: the first error ends it.\<close>

definition also_stmt :: "'a db_stmt \<Rightarrow> ('a \<Rightarrow> 'b db_stmt) \<Rightarrow> 'b db_stmt" where
  "also_stmt f g s = (case f s of (Inl e, t) \<Rightarrow> (Inl e, t) | (Inr a, t) \<Rightarrow> g a t)"

definition wrapping :: "string \<Rightarrow> 'a db_stmt \<Rightarrow> 'a db_stmt" where
  "wrapping msg f s = apfst (map_sum (wrap msg) id) (f s)"

subsection \<open>Subscriptions\<close>

definition find_sub :: "(UserSubscription \<Rightarrow> bool) \<Rightarrow> UserSubscription db_stmt" where
  "find_sub p s =
     (case List.find p (subs s) of
        None \<Rightarrow> (Inl (WithCause ErrSubscriptionNotFound ent_not_found), s)
      | Some r \<Rightarrow> (Inr r, s))"

definition of_user_and_group :: "int \<Rightarrow> int \<Rightarrow> UserSubscription \<Rightarrow> bool" where
  "of_user_and_group u g r \<longleftrightarrow> SubUserID r = u \<and> SubGroupID r = g"

definition ErrSubscriptionAlreadyExists :: go_error where
  "ErrSubscriptionAlreadyExists =
     Conflict ''SUBSCRIPTION_ALREADY_EXISTS'' ''subscription already exists for this user and group''"

definition insert_sub :: "UserSubscription \<Rightarrow> unit db_stmt" where
  "insert_sub r s =
     (if \<exists>x\<in>set (subs s). of_user_and_group (SubUserID r) (SubGroupID r) x
      then (Inl (WithCause ErrSubscriptionAlreadyExists ent_constraint), s)
      else (Inr (), s\<lparr>subs := subs s @ [r\<lparr>SubID := next_sub_id s, StartsAt := pg_time (StartsAt r),
                        SubExpiresAt := pg_time (SubExpiresAt r), AssignedAt := pg_time (AssignedAt r)\<rparr>],
                      next_sub_id := next_sub_id s + 1\<rparr>))"

text \<open>\<^verbatim>\<open>UpdateOneID\<close>, and an update under a condition with the number of rows changed.\<close>

definition update_sub_where ::
  "int \<Rightarrow> (UserSubscription \<Rightarrow> bool) \<Rightarrow> (UserSubscription \<Rightarrow> UserSubscription) \<Rightarrow> nat db_stmt" where
  "update_sub_where i cond f s =
     (let hit = (\<lambda>r. SubID r = i \<and> cond r)
      in (Inr (length (filter hit (subs s))), s\<lparr>subs := map (\<lambda>r. if hit r then f r else r) (subs s)\<rparr>))"

definition update_sub :: "int \<Rightarrow> (UserSubscription \<Rightarrow> UserSubscription) \<Rightarrow> unit db_stmt" where
  "update_sub i f s =
     (if \<exists>r\<in>set (subs s). SubID r = i
      then (Inr (), s\<lparr>subs := map (\<lambda>r. if SubID r = i then f r else r) (subs s)\<rparr>)
      else (Inl (WithCause ErrSubscriptionNotFound ent_not_found), s))"

definition ExtendExpiry :: "int \<Rightarrow> time \<Rightarrow> unit db_stmt" where
  "ExtendExpiry i newExpiresAt = update_sub i (\<lambda>r. r\<lparr>SubExpiresAt := pg_time newExpiresAt\<rparr>)"

definition UpdateStatus :: "int \<Rightarrow> string \<Rightarrow> unit db_stmt" where
  "UpdateStatus i status = update_sub i (\<lambda>r. r\<lparr>SubStatus := status\<rparr>)"

definition UpdateNotes :: "int \<Rightarrow> string \<Rightarrow> unit db_stmt" where
  "UpdateNotes i notes = update_sub i (\<lambda>r. r\<lparr>Notes := notes\<rparr>)"

definition store_sub :: "UserSubscription \<Rightarrow> unit db_stmt" where
  "store_sub r = update_sub (SubID r) (\<lambda>_. r\<lparr>StartsAt := pg_time (StartsAt r), SubExpiresAt := pg_time (SubExpiresAt r),
     DailyWindowStart := map_option pg_time (DailyWindowStart r),
     WeeklyWindowStart := map_option pg_time (WeeklyWindowStart r),
     MonthlyWindowStart := map_option pg_time (MonthlyWindowStart r), AssignedAt := pg_time (AssignedAt r)\<rparr>)"

text \<open>A conditional update that hit no row is a no-op when the row is there.\<close>

definition translateConditionalWindowReset :: "int \<Rightarrow> nat db_stmt \<Rightarrow> (go_error + unit) pay" where
  "translateConditionalWindowReset i f =
     and_then (sql f) (\<lambda>r. case r of
        Inl e \<Rightarrow> Ret (Inl e)
      | Inr affected \<Rightarrow>
          if affected > 0 then Ret (Inr ())
          else and_then (sql (\<lambda>s. (Inr (\<exists>x\<in>set (subs s). SubID x = i), s))) (\<lambda>r. case r of
                 Inl e \<Rightarrow> Ret (Inl e)
               | Inr exist \<Rightarrow> if \<not> exist then Ret (Inl ErrSubscriptionNotFound) else Ret (Inr ())))"

definition ActivateWindows :: "int \<Rightarrow> time \<Rightarrow> time \<Rightarrow> (go_error + unit) pay" where
  "ActivateWindows i dailyStart periodicStart =
     translateConditionalWindowReset i
       (update_sub_where i (\<lambda>r. DailyWindowStart r = None \<and> WeeklyWindowStart r = None \<and> MonthlyWindowStart r = None)
         (\<lambda>r. r\<lparr>DailyWindowStart := Some (pg_time dailyStart), WeeklyWindowStart := Some (pg_time periodicStart),
               MonthlyWindowStart := Some (pg_time periodicStart)\<rparr>))"

definition ResetDailyUsage :: "int \<Rightarrow> time option \<Rightarrow> time \<Rightarrow> (go_error + unit) pay" where
  "ResetDailyUsage i expected newStart =
     translateConditionalWindowReset i
       (update_sub_where i (\<lambda>r. DailyWindowStart r = expected)
         (\<lambda>r. r\<lparr>DailyUsageUSD := 0, DailyWindowStart := Some (pg_time newStart)\<rparr>))"

definition ResetWeeklyUsage :: "int \<Rightarrow> time option \<Rightarrow> time \<Rightarrow> (go_error + unit) pay" where
  "ResetWeeklyUsage i expected newStart =
     translateConditionalWindowReset i
       (update_sub_where i (\<lambda>r. WeeklyWindowStart r = expected)
         (\<lambda>r. r\<lparr>WeeklyUsageUSD := 0, WeeklyWindowStart := Some (pg_time newStart)\<rparr>))"

definition ResetMonthlyUsage :: "int \<Rightarrow> time option \<Rightarrow> time \<Rightarrow> (go_error + unit) pay" where
  "ResetMonthlyUsage i expected newStart =
     translateConditionalWindowReset i
       (update_sub_where i (\<lambda>r. MonthlyWindowStart r = expected)
         (\<lambda>r. r\<lparr>MonthlyUsageUSD := 0, MonthlyWindowStart := Some (pg_time newStart)\<rparr>))"

definition IncrementUsage :: "int \<Rightarrow> usd \<Rightarrow> (go_error + unit) pay" where
  "IncrementUsage i costUSD =
     and_then (sql (\<lambda>s.
       let hit = (\<lambda>r. SubID r = i \<and> groups s (SubGroupID r) \<noteq> None)
       in (Inr (length (filter hit (subs s))),
           s\<lparr>subs := map (\<lambda>r. if hit r then r\<lparr>DailyUsageUSD := DailyUsageUSD r + costUSD,
               WeeklyUsageUSD := WeeklyUsageUSD r + costUSD, MonthlyUsageUSD := MonthlyUsageUSD r + costUSD\<rparr> else r) (subs s)\<rparr>)))
     (\<lambda>r. case r of
        Inl e \<Rightarrow> Ret (Inl e)
      | Inr affected \<Rightarrow> if affected > 0 then Ret (Inr ()) else Ret (Inl ErrSubscriptionNotFound))"


end
