(* ===== verification/SubscriptionRun.thy ===== *)
theory SubscriptionRun
  imports GatewayStore
begin

section \<open>The subscription service\<close>

text \<open>
  The functions of \<^verbatim>\<open>src/backend/internal/service/subscription_service.go\<close> that read and write subscriptions:
  the maintenance of usage windows, the recording of usage, and the assignment, renewal and extension of
  terms. Functions that run inside a transaction of their own or of their caller are statements
  (\<open>db_stmt\<close>); the others are programs. The invalidation of caches is not modelled.

  The second half interleaves maintenance and recording of usage for any number of requests and shows that
  usage is never lost inside a window.
\<close>

subsection \<open>Terms\<close>

definition ErrGroupNotFound :: go_error where
  "ErrGroupNotFound = NotFound ''GROUP_NOT_FOUND'' ''group not found''"

definition find_group :: "int \<Rightarrow> subscription_group db_stmt" where
  "find_group i s = (case groups s i of None \<Rightarrow> (Inl ErrGroupNotFound, s) | Some g \<Rightarrow> (Inr g, s))"

definition updateExistingSubscriptionTerm :: "calendar \<Rightarrow> int \<Rightarrow> int \<Rightarrow> string \<Rightarrow> bool \<Rightarrow> unit db_stmt" where
  "updateExistingSubscriptionTerm C subscriptionID validityDays notes assignmentSemantics =
     also_stmt (wrapping ''lock subscription for renewal'' (find_sub (\<lambda>r. SubID r = subscriptionID))) (\<lambda>existingSub s.
       if assignmentSemantics \<and> SubStatus existingSub = SubscriptionStatusSuspended then (Inr (), s)
       else
         let now = clock s;
             isExpired = (if assignmentSemantics
               then SubStatus existingSub = SubscriptionStatusExpired \<or>
                    (SubStatus existingSub \<noteq> SubscriptionStatusSuspended \<and> \<not> after (SubExpiresAt existingSub) now)
               else \<not> after (SubExpiresAt existingSub) now);
             e0 = (if isExpired then add_days C now validityDays else add_days C (SubExpiresAt existingSub) validityDays);
             newExpiresAt = (if after e0 MaxExpiresAt then MaxExpiresAt else e0);
             note = (if assignmentSemantics \<and> trim_space (Notes existingSub) = trim_space notes then '''' else notes)
         in if isExpired
            then wrapping ''renew expired subscription'' (store_sub (renewedSubscriptionTerm C existingSub note now newExpiresAt)) s
            else also_stmt (wrapping ''extend subscription'' (ExtendExpiry (SubID existingSub) newExpiresAt)) (\<lambda>_.
                 also_stmt (if SubStatus existingSub \<noteq> SubscriptionStatusActive
                            then wrapping ''update subscription status'' (UpdateStatus (SubID existingSub) SubscriptionStatusActive)
                            else (\<lambda>s. (Inr (), s))) (\<lambda>_.
                 if note \<noteq> ''''
                 then wrapping ''update subscription notes''
                        (UpdateNotes (SubID existingSub) (appendSubscriptionNotes (Notes existingSub) note))
                 else (\<lambda>s. (Inr (), s)))) s)"

definition createSubscription :: "calendar \<Rightarrow> int \<Rightarrow> int \<Rightarrow> int \<Rightarrow> int \<Rightarrow> string \<Rightarrow> unit db_stmt" where
  "createSubscription C userID groupID validityDays assignedBy notes s =
     (let now = clock s;
          e0 = add_days C now (normalizeAssignValidityDays validityDays);
          expiresAt = (if after e0 MaxExpiresAt then MaxExpiresAt else e0)
      in insert_sub \<lparr>SubID = 0, SubUserID = userID, SubGroupID = groupID, StartsAt = now, SubExpiresAt = expiresAt,
           SubStatus = SubscriptionStatusActive, DailyWindowStart = None, WeeklyWindowStart = None,
           MonthlyWindowStart = None, DailyUsageUSD = 0, WeeklyUsageUSD = 0, MonthlyUsageUSD = 0,
           AssignedBy = (if assignedBy > 0 then Some assignedBy else None), AssignedAt = now, Notes = notes\<rparr> s)"

definition assignOrExtendSubscription :: "calendar \<Rightarrow> int \<Rightarrow> int \<Rightarrow> int \<Rightarrow> int \<Rightarrow> string \<Rightarrow> unit db_stmt" where
  "assignOrExtendSubscription C userID groupID days assignedBy notes =
     also_stmt (wrapping ''group not found'' (find_group groupID)) (\<lambda>group s.
       if \<not> IsSubscriptionType group then (Inl ErrGroupNotSubscriptionType, s)
       else case List.find (of_user_and_group userID groupID) (subs s) of
              Some existingSub \<Rightarrow>
                updateExistingSubscriptionTerm C (SubID existingSub) (normalizeAssignValidityDays days) notes False s
            | None \<Rightarrow> createSubscription C userID groupID days assignedBy notes s)"

definition ErrAdjustWouldExpire :: go_error where
  "ErrAdjustWouldExpire =
     BadRequest ''ADJUST_WOULD_EXPIRE'' ''adjustment would result in expired subscription (remaining days must be > 0)''"

definition ExtendSubscription :: "calendar \<Rightarrow> int \<Rightarrow> int \<Rightarrow> (go_error + UserSubscription) pay" where
  "ExtendSubscription C subscriptionID days =
     checked (sql (find_sub (\<lambda>r. SubID r = subscriptionID))) (\<lambda>_. Ret (Inl ErrSubscriptionNotFound)) (\<lambda>sub.
     let d = max (- MaxValidityDays) (min MaxValidityDays days) in
     and_then time_now (\<lambda>now.
     let isExpired = (\<not> after (SubExpiresAt sub) now) in
     if isExpired \<and> d < 0
     then Ret (Inl (BadRequest ''CANNOT_SHORTEN_EXPIRED'' ''cannot shorten an expired subscription''))
     else
       let e0 = (if isExpired then add_days C now d else add_days C (SubExpiresAt sub) d);
           newExpiresAt = (if after e0 MaxExpiresAt then MaxExpiresAt else e0)
       in if \<not> after newExpiresAt now then Ret (Inl ErrAdjustWouldExpire)
          else checked (sql (ExtendExpiry subscriptionID newExpiresAt)) (\<lambda>e. Ret (Inl e)) (\<lambda>_.
               checked (if SubStatus sub = SubscriptionStatusExpired
                        then sql (UpdateStatus subscriptionID SubscriptionStatusActive) else Ret (Inr ())) (\<lambda>e. Ret (Inl e))
                 (\<lambda>_. sql (find_sub (\<lambda>r. SubID r = subscriptionID))))))"

text \<open>A deletion is soft, so that the row leaves the table; a missing row is no error.\<close>

definition DeleteSubscription :: "int \<Rightarrow> unit db_stmt" where
  "DeleteSubscription i s = (Inr (), s\<lparr>subs := filter (\<lambda>r. SubID r \<noteq> i) (subs s)\<rparr>)"

subsection \<open>Usage windows\<close>

definition checkAndActivateWindowAt :: "calendar \<Rightarrow> UserSubscription \<Rightarrow> time \<Rightarrow> (go_error + unit) pay" where
  "checkAndActivateWindowAt C sub now =
     (if IsWindowActivated sub then Ret (Inr ()) else ActivateWindows (SubID sub) (start_of_day C now) now)"

definition CheckAndActivateWindow :: "calendar \<Rightarrow> UserSubscription \<Rightarrow> (go_error + unit) pay" where
  "CheckAndActivateWindow C sub = and_then time_now (checkAndActivateWindowAt C sub)"

text \<open>The three resets of \<^verbatim>\<open>CheckAndResetWindows\<close>; each hands on the subscription as it is in memory.\<close>

definition reset_daily :: "calendar \<Rightarrow> time \<Rightarrow> UserSubscription \<Rightarrow> (go_error + UserSubscription) pay" where
  "reset_daily C now sub =
     (case automaticDailyWindowStartAt C sub now of
        None \<Rightarrow> Ret (Inr sub)
      | Some windowStart \<Rightarrow>
          checked (ResetDailyUsage (SubID sub) (DailyWindowStart sub) windowStart) (\<lambda>e. Ret (Inl e))
            (\<lambda>_. Ret (Inr (sub\<lparr>DailyWindowStart := Some windowStart, DailyUsageUSD := 0\<rparr>))))"

definition reset_weekly :: "calendar \<Rightarrow> time \<Rightarrow> UserSubscription \<Rightarrow> (go_error + UserSubscription) pay" where
  "reset_weekly C now sub =
     (case automaticWindowStartAt C sub (WeeklyWindowStart sub) week_duration now of
        None \<Rightarrow> Ret (Inr sub)
      | Some windowStart \<Rightarrow>
          checked (ResetWeeklyUsage (SubID sub) (WeeklyWindowStart sub) windowStart) (\<lambda>e. Ret (Inl e))
            (\<lambda>_. Ret (Inr (sub\<lparr>WeeklyWindowStart := Some windowStart, WeeklyUsageUSD := 0\<rparr>))))"

definition reset_monthly :: "calendar \<Rightarrow> time \<Rightarrow> UserSubscription \<Rightarrow> (go_error + UserSubscription) pay" where
  "reset_monthly C now sub =
     (case automaticWindowStartAt C sub (MonthlyWindowStart sub) month_duration now of
        None \<Rightarrow> Ret (Inr sub)
      | Some windowStart \<Rightarrow>
          checked (ResetMonthlyUsage (SubID sub) (MonthlyWindowStart sub) windowStart) (\<lambda>e. Ret (Inl e))
            (\<lambda>_. Ret (Inr (sub\<lparr>MonthlyWindowStart := Some windowStart, MonthlyUsageUSD := 0\<rparr>))))"

definition CheckAndResetWindows :: "calendar \<Rightarrow> UserSubscription \<Rightarrow> (go_error + UserSubscription) pay" where
  "CheckAndResetWindows C sub =
     and_then time_now (\<lambda>now.
     checked (reset_daily C now sub) (\<lambda>e. Ret (Inl e)) (\<lambda>sub1.
     checked (reset_weekly C now sub1) (\<lambda>e. Ret (Inl e)) (\<lambda>sub2.
     reset_monthly C now sub2)))"

definition EnsureWindowMaintenance :: "calendar \<Rightarrow> UserSubscription \<Rightarrow> (go_error + UserSubscription) pay" where
  "EnsureWindowMaintenance C sub =
     checked (if \<not> IsWindowActivated sub then CheckAndActivateWindow C sub else Ret (Inr ())) (\<lambda>e. Ret (Inl e)) (\<lambda>_.
     checked (CheckAndResetWindows C sub) (\<lambda>e. Ret (Inl e)) (\<lambda>_.
     sql (find_sub (\<lambda>r. SubID r = SubID sub))))"

definition doWindowMaintenance :: "calendar \<Rightarrow> UserSubscription \<Rightarrow> unit pay" where
  "doWindowMaintenance C sub =
     ignoring (if \<not> IsWindowActivated sub then CheckAndActivateWindow C sub else Ret (Inr ()))
       (ignoring (CheckAndResetWindows C sub) (Ret ()))"

definition RecordUsage :: "int \<Rightarrow> usd \<Rightarrow> (go_error + unit) pay" where "RecordUsage = IncrementUsage"

definition ErrInvalidInput :: go_error where
  "ErrInvalidInput =
     BadRequest ''INVALID_INPUT'' ''at least one of resetDaily, resetWeekly, or resetMonthly must be true''"

definition AdminResetQuota :: "calendar \<Rightarrow> int \<Rightarrow> bool \<Rightarrow> bool \<Rightarrow> bool \<Rightarrow> (go_error + UserSubscription) pay" where
  "AdminResetQuota C subscriptionID resetDaily resetWeekly resetMonthly =
     (if \<not> resetDaily \<and> \<not> resetWeekly \<and> \<not> resetMonthly then Ret (Inl ErrInvalidInput)
      else checked (sql (find_sub (\<lambda>r. SubID r = subscriptionID))) (\<lambda>e. Ret (Inl e)) (\<lambda>sub.
           and_then time_now (\<lambda>now.
           checked (sql (update_sub (SubID sub) (\<lambda>r.
               let r1 = (if resetDaily then r\<lparr>DailyUsageUSD := 0, DailyWindowStart := Some (pg_time (start_of_day C now))\<rparr> else r);
                   r2 = (if resetWeekly then r1\<lparr>WeeklyUsageUSD := 0, WeeklyWindowStart := Some (pg_time now)\<rparr> else r1)
               in if resetMonthly then r2\<lparr>MonthlyUsageUSD := 0, MonthlyWindowStart := Some (pg_time now)\<rparr> else r2)))
             (\<lambda>e. Ret (Inl e)) (\<lambda>_. sql (find_sub (\<lambda>r. SubID r = subscriptionID))))))"

subsection \<open>Usage is never lost inside a window\<close>

text \<open>
  What may happen to a window, given by its start and the usage counted in it: the usage grows, or the
  window moves to a later start. A window that was not activated may start anywhere.
\<close>

definition window_moves :: "time option \<Rightarrow> usd \<Rightarrow> time option \<Rightarrow> usd \<Rightarrow> bool" where
  "window_moves w u w' u' \<longleftrightarrow>
     (case w of
        None \<Rightarrow> w' \<noteq> None \<or> u \<le> u'
      | Some x \<Rightarrow> (case w' of None \<Rightarrow> False | Some y \<Rightarrow> x < y \<or> x = y \<and> u \<le> u'))"

definition sub_moves :: "UserSubscription \<Rightarrow> UserSubscription \<Rightarrow> bool" where
  "sub_moves r r' \<longleftrightarrow> SubID r' = SubID r \<and>
     window_moves (DailyWindowStart r) (DailyUsageUSD r) (DailyWindowStart r') (DailyUsageUSD r') \<and>
     window_moves (WeeklyWindowStart r) (WeeklyUsageUSD r) (WeeklyWindowStart r') (WeeklyUsageUSD r') \<and>
     window_moves (MonthlyWindowStart r) (MonthlyUsageUSD r) (MonthlyWindowStart r') (MonthlyUsageUSD r')"

definition usage_evolves :: "gateway_db \<Rightarrow> gateway_db \<Rightarrow> bool" where
  "usage_evolves s t \<longleftrightarrow> list_all2 sub_moves (subs s) (subs t)"

text \<open>What the code relies on of the days of the zone.\<close>

definition calendar_ok :: "calendar \<Rightarrow> bool" where
  "calendar_ok C \<longleftrightarrow>
     (\<forall>t u. t \<le> u \<longrightarrow> start_of_day C t \<le> start_of_day C u) \<and>
     (\<forall>t. start_of_day C (start_of_day C t) = start_of_day C t) \<and>
     (\<forall>t. start_of_day C t mod second = 0)"

lemma window_moves_refl [simp]: "window_moves w u w u"
  by (simp add: window_moves_def split: option.splits)

lemma window_moves_trans: "window_moves w u w' u' \<Longrightarrow> window_moves w' u' w'' u'' \<Longrightarrow> window_moves w u w'' u''"
  by (auto simp: window_moves_def split: option.splits)

lemma sub_moves_refl [simp]: "sub_moves r r"
  by (simp add: sub_moves_def)

lemma sub_moves_trans: "sub_moves r r' \<Longrightarrow> sub_moves r' r'' \<Longrightarrow> sub_moves r r''"
  unfolding sub_moves_def by (auto intro: window_moves_trans)

lemma usage_evolves_refl [simp]: "usage_evolves s s"
  by (simp add: usage_evolves_def list_all2_refl)

lemma usage_evolves_trans: "usage_evolves s t \<Longrightarrow> usage_evolves t u \<Longrightarrow> usage_evolves s u"
  unfolding usage_evolves_def by (rule list_all2_trans [where ?P1.0 = sub_moves and ?P2.0 = sub_moves]) (auto intro: sub_moves_trans)

interpretation usage: protocol "\<lambda>_. True" usage_evolves
  by unfold_locales (auto intro: usage_evolves_trans)

lemma usage_same [simp]: "subs t = subs s \<Longrightarrow> usage_evolves s t"
  by (simp add: usage_evolves_def list_all2_refl)

lemma usage_map:
  assumes "subs t = map f (subs s)" "\<And>r. sub_moves r (f r)"
  shows "usage_evolves s t"
  using assms by (simp add: usage_evolves_def list_all2_map2 list_all2_same)

lemma safe_sql:
  assumes "\<And>t. usage_evolves t (snd (f t))"
  shows "usage.safe_prog (sql f) (\<lambda>_ _. True) s"
  unfolding sql_def
proof (rule usage.safe_stmt)
  fix t c a u assume "under_weather (weather c) f t = (a, u)"
  then have "u = t \<or> u = snd (f t)"
    by (auto simp: under_weather_def split: weather.splits prod.splits sum.splits)
  then show "True \<and> usage_evolves t u \<and> (\<forall>v. True \<longrightarrow> usage_evolves u v \<longrightarrow> True)"
    using assms by auto
qed

lemma safe_time: "usage.safe_prog time_now (\<lambda>_ _. True) s"
  unfolding time_now_def by (rule usage.safe_stmt) auto

lemma safe_seq:
  assumes "usage.safe_prog p (\<lambda>_ _. True) s" "\<And>a t. usage.safe_prog (k a) (\<lambda>_ _. True) t"
  shows "usage.safe_prog (and_then p k) (\<lambda>_ _. True) s"
  using assms by (rule usage.safe_and_then)

lemma safe_check:
  assumes "usage.safe_prog p (\<lambda>_ _. True) s" "\<And>e t. usage.safe_prog (failed e) (\<lambda>_ _. True) t"
    "\<And>a t. usage.safe_prog (k a) (\<lambda>_ _. True) t"
  shows "usage.safe_prog (checked p failed k) (\<lambda>_ _. True) s"
  using assms by (rule usage.safe_checked)

lemma safe_conditional:
  assumes "\<And>r. SubID r = i \<Longrightarrow> cond r \<Longrightarrow> sub_moves r (f r)"
  shows "usage.safe_prog (translateConditionalWindowReset i (update_sub_where i cond f)) (\<lambda>_ _. True) s"
proof -
  have "usage_evolves t (snd (update_sub_where i cond f t))" for t
    by (rule usage_map [where f = "\<lambda>r. if SubID r = i \<and> cond r then f r else r"])
      (auto simp: update_sub_where_def Let_def assms)
  then have "usage.safe_prog (sql (update_sub_where i cond f)) (\<lambda>_ _. True) s" for s
    by (rule safe_sql)
  then show ?thesis
    unfolding translateConditionalWindowReset_def
    by (intro safe_seq) (auto split: sum.splits intro!: safe_seq safe_sql)
qed

subsection \<open>The calls keep to it\<close>

lemma pg_time_ge: "t - 500 \<le> pg_time t"
proof -
  have "pg_time t = t + 500 - (t + 500) mod 1000"
    by (simp add: pg_time_def minus_mod_eq_div_mult [symmetric])
  moreover have "(t + 500) mod 1000 < 1000" by simp
  ultimately show ?thesis by linarith
qed

lemma pg_time_whole: "t mod second = 0 \<Longrightarrow> pg_time t = t"
proof -
  assume "t mod second = 0"
  then have "1000 dvd t" by (auto simp: second_def mod_eq_0_iff_dvd intro: dvd_trans [of _ 1000000000])
  then obtain k where "t = 1000 * k" ..
  then show ?thesis by (simp add: pg_time_def)
qed

lemma daily_moves:
  assumes "calendar_ok C" "automaticDailyWindowStartAt C s now = Some w" "DailyWindowStart s = Some d"
  shows "d < pg_time w"
proof -
  have w: "w = start_of_day C now" "start_of_day C d < start_of_day C now"
    using assms(2,3) by (auto simp: automaticDailyWindowStartAt_def Let_def after_def split: if_splits)
  then have "d < w"
    using assms(1) unfolding calendar_ok_def by (metis not_less)
  moreover have "pg_time w = w"
    using assms(1) w(1) by (simp add: calendar_ok_def pg_time_whole)
  ultimately show ?thesis by simp
qed

lemma periodic_moves:
  assumes "automaticWindowStartAt C s (Some p) period now = Some w" "second \<le> period" "period < max_int64"
  shows "p < pg_time w"
proof -
  define a where "a = windowResetAnchor C s p"
  have pos: "0 < period" using assms(2) by (simp add: second_def)
  have g: "a + period \<le> now" "a + period < SubExpiresAt s"
    using assms(1) by (auto simp: automaticWindowStartAt_def a_def Let_def before_def add_time_def split: if_splits)
  have d: "period \<le> sub_time now a" "period \<le> sub_time (SubExpiresAt s) a - 1"
    using g pos assms(3) by (auto simp: sub_time_def)
  have "1 \<le> go_div x period" if "period \<le> x" for x
    using that pos zdiv_mono1 [of period x period] by (simp add: go_div_nonneg)
  then have "1 \<le> go_div (sub_time now a) period" "1 \<le> go_div (sub_time (SubExpiresAt s) a - 1) period"
    using d by blast+
  moreover obtain k where k: "w = a + k * period"
      "k = go_div (sub_time now a) period \<or> k = go_div (sub_time (SubExpiresAt s) a - 1) period"
    using assms(1) by (auto simp: automaticWindowStartAt_def a_def [symmetric] Let_def add_time_def split: if_splits)
  ultimately have "1 \<le> k" by auto
  then have "a + period \<le> w"
    using k(1) pos mult_right_mono [of 1 k period] by simp
  then show ?thesis
    using anchor_not_before [of p C s] pg_time_ge [of w] assms(2) by (simp add: a_def second_def)
qed

lemma safe_daily:
  assumes "calendar_ok C"
  shows "usage.safe_prog (reset_daily C now sub) (\<lambda>_ _. True) s"
proof (cases "DailyWindowStart sub")
  case None
  then show ?thesis by (simp add: reset_daily_def automaticDailyWindowStartAt_def)
next
  case (Some d)
  then show ?thesis
    unfolding reset_daily_def ResetDailyUsage_def
    by (auto intro!: safe_check safe_conditional dest: daily_moves [OF assms] simp: sub_moves_def window_moves_def
        split: option.splits)
qed

lemma safe_weekly: "usage.safe_prog (reset_weekly C now sub) (\<lambda>_ _. True) s"
proof (cases "WeeklyWindowStart sub")
  case None
  then show ?thesis by (simp add: reset_weekly_def automaticWindowStartAt_def)
next
  case (Some p)
  have "second \<le> week_duration" "week_duration < max_int64"
    by (simp_all add: period_defs second_def max_int64_def)
  then show ?thesis
    unfolding reset_weekly_def ResetWeeklyUsage_def
    by (auto intro!: safe_check safe_conditional dest: periodic_moves simp: Some sub_moves_def window_moves_def
        split: option.splits)
qed

lemma safe_monthly: "usage.safe_prog (reset_monthly C now sub) (\<lambda>_ _. True) s"
proof (cases "MonthlyWindowStart sub")
  case None
  then show ?thesis by (simp add: reset_monthly_def automaticWindowStartAt_def)
next
  case (Some p)
  have "second \<le> month_duration" "month_duration < max_int64"
    by (simp_all add: period_defs second_def max_int64_def)
  then show ?thesis
    unfolding reset_monthly_def ResetMonthlyUsage_def
    by (auto intro!: safe_check safe_conditional dest: periodic_moves simp: Some sub_moves_def window_moves_def
        split: option.splits)
qed

lemma safe_reset_windows: "calendar_ok C \<Longrightarrow> usage.safe_prog (CheckAndResetWindows C sub) (\<lambda>_ _. True) s"
  unfolding CheckAndResetWindows_def
  by (intro safe_seq safe_check safe_time safe_daily safe_weekly safe_monthly usage.safe_Ret TrueI)

lemma safe_activate: "usage.safe_prog (CheckAndActivateWindow C sub) (\<lambda>_ _. True) s"
  unfolding CheckAndActivateWindow_def checkAndActivateWindowAt_def ActivateWindows_def
  by (auto intro!: safe_seq safe_time safe_conditional simp: sub_moves_def window_moves_def)

lemma safe_ensure: "calendar_ok C \<Longrightarrow> usage.safe_prog (EnsureWindowMaintenance C sub) (\<lambda>_ _. True) s"
  unfolding EnsureWindowMaintenance_def
  by (auto intro!: safe_check safe_activate safe_reset_windows safe_sql simp: find_sub_def split: option.splits)

lemma safe_background: "calendar_ok C \<Longrightarrow> usage.safe_prog (doWindowMaintenance C sub) (\<lambda>_ _. True) s"
  unfolding doWindowMaintenance_def ignoring_def
  by (auto intro!: safe_seq safe_activate safe_reset_windows)

lemma safe_record: "0 \<le> cost \<Longrightarrow> usage.safe_prog (RecordUsage i cost) (\<lambda>_ _. True) s"
  unfolding RecordUsage_def IncrementUsage_def
  by (intro safe_seq safe_sql)
    (auto simp: Let_def sub_moves_def window_moves_def usage_evolves_def list_all2_map2 list_all2_same
      split: option.splits sum.splits)

subsection \<open>Interleaved requests\<close>

text \<open>
  The requests in flight: maintenance of a subscription as some cache or table once gave it (however
  stale), maintenance in the background, and the recording of a cost that is not negative.
\<close>

definition usage_request :: "calendar \<Rightarrow> unit pay \<Rightarrow> bool" where
  "usage_request C p \<longleftrightarrow>
     (\<exists>sub. p = ignoring (EnsureWindowMaintenance C sub) (Ret ()) \<or> p = doWindowMaintenance C sub) \<or>
     (\<exists>i cost. 0 \<le> cost \<and> p = ignoring (RecordUsage i cost) (Ret ()))"

definition time_passes :: "gateway_db \<Rightarrow> gateway_db \<Rightarrow> bool" where
  "time_passes s t \<longleftrightarrow> (\<exists>now\<ge>clock s. t = s\<lparr>clock := now\<rparr>)"

lemma usage_requests_safe: "calendar_ok C \<Longrightarrow> usage_request C p \<Longrightarrow> usage.safe_prog p (\<lambda>_ _. True) s"
  unfolding usage_request_def
  by (auto intro!: usage.safe_ignoring safe_ensure safe_background safe_record)

lemma time_passes_usage: "time_passes s t \<Longrightarrow> usage_evolves s t"
  by (auto simp: time_passes_def)

text \<open>C12: However many requests maintain and charge subscriptions at once, with failing connections, lost
  answers and stale snapshots, the usage counted for a subscription never decreases unless its window has
  moved to a later start: no charge of the current window is wiped out by a competing reset.\<close>

theorem usage_not_lost:
  assumes "calendar_ok C"
    and "pool_reach (usage_request C) time_passes (\<lambda>_. True) S"
    and "(pool_step (usage_request C) time_passes)\<^sup>*\<^sup>* S T"
  shows "list_all2 sub_moves (subs (store S)) (subs (store T))"
proof -
  have req: "\<And>p s. usage_request C p \<Longrightarrow> usage.safe_prog p (\<lambda>_ _. True) s"
    using usage_requests_safe [OF assms(1)] .
  have "usage.pool_good S"
    by (rule usage.pool_reach_good [OF assms(2)]) (auto intro: req time_passes_usage)
  then have "usage.pool_good T \<and> usage_evolves (store S) (store T)"
    by (rule usage.pool_steps_evolve [OF assms(3)]) (auto intro: req time_passes_usage)
  then show ?thesis by (simp add: usage_evolves_def)
qed

lemma utc_calendar_ok: "calendar_ok utc_calendar"
proof -
  have mono: "t - t mod d \<le> u - u mod d" if "t \<le> u" "0 < d" for t u d :: int
    using that zdiv_mono1 [of t u d] by (simp add: minus_mod_eq_mult_div)
  have again: "(t - t mod d) mod d = 0" for t d :: int by simp
  have whole: "(t - t mod (24 * hour)) mod second = 0" for t
    by (rule mod_0_imp_dvd [THEN dvd_trans [rotated], THEN dvd_imp_mod_0, of _ "24 * hour"])
      (auto simp: hour_def second_def again)
  show ?thesis
    unfolding calendar_ok_def utc_calendar_def using mono [of _ _ "24 * hour"] whole again [of _ "24 * hour"]
    by (auto simp: hour_def)
qed

definition witness_db :: gateway_db where
  "witness_db = \<lparr>clock = 104 * 24 * hour, orders = [], next_order_id = 1, redeem_codes = [], next_code_id = 1, users = Map.empty,
     audit_logs = [], rebates = [],
     groups = [3 \<mapsto> \<lparr>GroupID = 3, GroupStatus = ''active'', SubscriptionType = SubscriptionTypeSubscription,
                     DailyLimitUSD = Some 10, WeeklyLimitUSD = None, MonthlyLimitUSD = None\<rparr>],
     subs = [witness_sub], next_sub_id = 6, redeem_attempts = (\<lambda>_. 0), redeem_locks = []\<rparr>"

definition fair_chance :: chance where
  "fair_chance = \<lparr>weather = Fair, instance_key = None, order_provider = Inl ent_not_found,
     query_order = Inl ent_not_found, rebate_rule = Inr 0, random_suffix = ''20260101Ab3x9QzT'',
     create_payment = Inr ''''\<rparr>"

theorem usage_not_lost_witness:
  "\<exists>T. (pool_step (usage_request utc_calendar) time_passes)\<^sup>*\<^sup>* \<lparr>store = witness_db, procs = Map.empty\<rparr> T \<and>
       map WeeklyUsageUSD (subs (store T)) = [5] \<and> list_all2 sub_moves [witness_sub] (subs (store T))"
proof -
  let ?S = "\<lparr>store = witness_db, procs = Map.empty\<rparr> :: (chance, gateway_db, unit) pool"
  let ?p = "ignoring (RecordUsage 5 3) (Ret ()) :: unit pay"
  have "(0::usd) \<le> 3" by simp
  then have "usage_request utc_calendar ?p" unfolding usage_request_def by blast
  with pool_runs_prog [of ?S 0 "usage_request utc_calendar" ?p time_passes fair_chance]
  obtain T where T: "(pool_step (usage_request utc_calendar) time_passes)\<^sup>*\<^sup>* ?S T"
      "store T = snd (run_prog ?p fair_chance witness_db)" by auto
  have "map WeeklyUsageUSD (subs (store T)) = [5]"
    unfolding T(2) by (simp add: RecordUsage_def IncrementUsage_def sql_def under_weather_def fair_chance_def
        witness_db_def witness_sub_def Let_def)
  moreover have "pool_reach (usage_request utc_calendar) time_passes (\<lambda>_. True) ?S" by (rule pr_init) simp
  then have "list_all2 sub_moves (subs (store ?S)) (subs (store T))"
    using usage_not_lost [where C = utc_calendar and S = ?S and T = T] utc_calendar_ok T(1) by blast
  then have "list_all2 sub_moves [witness_sub] (subs (store T))" by (simp only: witness_db_def pool.simps gateway_db.simps)
  ultimately show ?thesis using T(1) by (intro exI [of _ T] conjI)
qed

end
