(* ===== verification/Payment.thy ===== *)
theory Payment
  imports SubscriptionRun
begin

section \<open>Payment orders: confirmation and fulfilment\<close>

text \<open>
  Models \<^verbatim>\<open>payment_fulfillment.go\<close>, the cancellation and expiry of \<^verbatim>\<open>payment_order_lifecycle.go\<close>,
  \<^verbatim>\<open>payment_order_provider_snapshot.go\<close>, \<^verbatim>\<open>payment_currency.go\<close> and the redemption of codes in
  \<^verbatim>\<open>redeem_service.go\<close>, under \<^verbatim>\<open>src/backend/internal/service\<close>. Every function that talks to the database is a
  program whose atomic statements are the database's (\<open>GatewayStore\<close>); a database transaction is one
  statement. A Go function that returns only an error is a program with an optional error.

  What the payment provider answers, what the lookup of the provider instance of an order finds, and the
  rebate the affiliate service decides on, come from the chance of the statement. The loaded provider
  registry, the texts of errors and the Unicode functions of the Go library are the parameter \<open>pay_lib\<close>. A \<^verbatim>\<open>float64\<close> amount from a
  provider is an optional number, \<open>None\<close> for NaN and the infinities; its rounding is not modelled. E-mails,
  logs and cache invalidations are left out.
\<close>

record pay_lib =
  equal_fold :: "string \<Rightarrow> string \<Rightarrow> bool"
  to_upper :: "string \<Rightarrow> string"
  registry_key :: "string \<Rightarrow> string"
  error_text :: "go_error \<Rightarrow> string"
  cal :: calendar

type_synonym go_amount = "usd option"

subsection \<open>Payment types and currencies\<close>

definition TypeAlipay :: string where "TypeAlipay = ''alipay''"
definition TypeWxpay :: string where "TypeWxpay = ''wxpay''"
definition TypeStripe :: string where "TypeStripe = ''stripe''"
definition TypeEasyPay :: string where "TypeEasyPay = ''easypay''"
definition TypeAirwallex :: string where "TypeAirwallex = ''airwallex''"

lemmas pay_type_defs = TypeAlipay_def TypeWxpay_def TypeStripe_def TypeEasyPay_def TypeAirwallex_def

definition GetBasePaymentType :: "string \<Rightarrow> string" where
  "GetBasePaymentType t =
     (if t = TypeEasyPay then TypeEasyPay
      else if t = TypeAirwallex then TypeAirwallex
      else if t = TypeStripe \<or> t = ''card'' \<or> t = ''link'' then TypeStripe
      else if take (length TypeAlipay) t = TypeAlipay then TypeAlipay
      else if take (length TypeWxpay) t = TypeWxpay then TypeWxpay
      else t)"

definition DefaultPaymentCurrency :: string where "DefaultPaymentCurrency = ''CNY''"

definition NormalizePaymentCurrency :: "pay_lib \<Rightarrow> string \<Rightarrow> string option" where
  "NormalizePaymentCurrency L raw =
     (let currency = to_upper L (trim_space raw)
      in if currency = '''' then Some DefaultPaymentCurrency
         else if length currency \<noteq> 3 then None
         else if \<exists>ch\<in>set currency. of_char ch < (65::nat) \<or> of_char ch > (90::nat) then None
         else Some currency)"

definition zero_decimal_currencies :: "string list" where
  "zero_decimal_currencies = [''BIF'', ''CLP'', ''DJF'', ''GNF'', ''JPY'', ''KMF'', ''KRW'', ''MGA'', ''PYG'', ''RWF'',
     ''VND'', ''VUV'', ''XAF'', ''XOF'', ''XPF'']"

definition three_decimal_currencies :: "string list" where
  "three_decimal_currencies = [''BHD'', ''IQD'', ''JOD'', ''KWD'', ''LYD'', ''OMR'', ''TND'']"

definition CurrencyMinorUnit :: "pay_lib \<Rightarrow> string \<Rightarrow> nat" where
  "CurrencyMinorUnit L currency =
     (case NormalizePaymentCurrency L currency of
        None \<Rightarrow> 2
      | Some c \<Rightarrow> if c \<in> set zero_decimal_currencies then 0
                  else if c \<in> set three_decimal_currencies then 3 else 2)"

definition paymentAmountToleranceForCurrency :: "pay_lib \<Rightarrow> string \<Rightarrow> usd" where
  "paymentAmountToleranceForCurrency L currency =
     (let minorUnit = CurrencyMinorUnit L currency
      in if minorUnit \<le> 2 then 1 / 100 else (1 / 10) ^ minorUnit / 2)"

definition isValidProviderAmount :: "go_amount \<Rightarrow> bool" where
  "isValidProviderAmount amount \<longleftrightarrow> (case amount of None \<Rightarrow> False | Some x \<Rightarrow> x > 0)"

subsection \<open>The provider snapshot of an order\<close>

record paymentOrderProviderSnapshot =
  snap_SchemaVersion :: int
  snap_ProviderInstanceID :: string
  snap_ProviderKey :: string
  snap_PaymentMode :: string
  snap_MerchantAppID :: string
  snap_MerchantID :: string
  snap_Currency :: string

definition snap_field :: "(string \<times> snapshot_value) list \<Rightarrow> string \<Rightarrow> snapshot_value" where
  "snap_field m k = (case map_of m k of None \<Rightarrow> SnapOther | Some v \<Rightarrow> v)"

definition psSnapshotStringValue :: "snapshot_value \<Rightarrow> string" where
  "psSnapshotStringValue v = (case v of SnapText t \<Rightarrow> trim_space t | _ \<Rightarrow> '''')"

definition psSnapshotIntValue :: "snapshot_value \<Rightarrow> int" where
  "psSnapshotIntValue v =
     (case v of
        SnapNumber n \<Rightarrow> n
      | SnapText t \<Rightarrow> (case parse_int64 (trim_space t) of None \<Rightarrow> 0 | Some n \<Rightarrow> n)
      | SnapOther \<Rightarrow> 0)"

definition psOrderProviderSnapshot :: "payment_order \<Rightarrow> paymentOrderProviderSnapshot option" where
  "psOrderProviderSnapshot r =
     (let m = provider_snapshot r;
          snapshot = \<lparr>snap_SchemaVersion = psSnapshotIntValue (snap_field m ''schema_version''),
            snap_ProviderInstanceID = psSnapshotStringValue (snap_field m ''provider_instance_id''),
            snap_ProviderKey = psSnapshotStringValue (snap_field m ''provider_key''),
            snap_PaymentMode = psSnapshotStringValue (snap_field m ''payment_mode''),
            snap_MerchantAppID = psSnapshotStringValue (snap_field m ''merchant_app_id''),
            snap_MerchantID = psSnapshotStringValue (snap_field m ''merchant_id''),
            snap_Currency = psSnapshotStringValue (snap_field m ''currency'')\<rparr>
      in if m = [] then None
         else if snap_SchemaVersion snapshot = 0 \<and> snap_ProviderInstanceID snapshot = '''' \<and>
                 snap_ProviderKey snapshot = '''' \<and> snap_PaymentMode snapshot = '''' \<and>
                 snap_MerchantAppID snapshot = '''' \<and> snap_MerchantID snapshot = '''' \<and> snap_Currency snapshot = ''''
         then None else Some snapshot)"

definition PaymentOrderCurrency :: "pay_lib \<Rightarrow> payment_order \<Rightarrow> string" where
  "PaymentOrderCurrency L r =
     (case psOrderProviderSnapshot r of
        None \<Rightarrow> DefaultPaymentCurrency
      | Some sn \<Rightarrow> (case NormalizePaymentCurrency L (snap_Currency sn) of
                     None \<Rightarrow> DefaultPaymentCurrency | Some c \<Rightarrow> c))"

text \<open>The checks of a notification's metadata run in order; the first that fails is the error.\<close>

fun first_error :: "go_error option list \<Rightarrow> go_error option" where
  "first_error [] = None"
| "first_error (Some e # checks) = Some e"
| "first_error (None # checks) = first_error checks"

definition meta_field :: "(string \<times> string) list \<Rightarrow> string \<Rightarrow> string" where
  "meta_field m k = (case map_of m k of None \<Rightarrow> '''' | Some v \<Rightarrow> v)"

definition expect_same :: "pay_lib \<Rightarrow> string \<Rightarrow> string \<Rightarrow> string \<Rightarrow> go_error option" where
  "expect_same L what snapped actual =
     (let expected = trim_space snapped
      in if expected = '''' then None
         else if actual = '''' then Some (plain_error (what @ '' missing''))
         else if \<not> equal_fold L expected actual
         then Some (plain_error (what @ '' mismatch: expected '' @ expected @ '', got '' @ actual))
         else None)"

definition expect_state :: "pay_lib \<Rightarrow> string \<Rightarrow> string \<Rightarrow> string \<Rightarrow> go_error option" where
  "expect_state L what wanted actual =
     (if actual \<noteq> '''' \<and> \<not> equal_fold L actual wanted
      then Some (plain_error (what @ '' mismatch: expected '' @ wanted @ '', got '' @ actual)) else None)"

definition validateProviderSnapshotMetadata ::
  "pay_lib \<Rightarrow> payment_order \<Rightarrow> string \<Rightarrow> (string \<times> string) list \<Rightarrow> go_error option" where
  "validateProviderSnapshotMetadata L r providerKey metadata =
     (if metadata = [] then None
      else case psOrderProviderSnapshot r of
        None \<Rightarrow> None
      | Some sn \<Rightarrow>
          (let pk = trim_space providerKey;
               text_of = (\<lambda>k. trim_space (meta_field metadata k));
               upper_of = (\<lambda>k. to_upper L (trim_space (meta_field metadata k)))
           in if pk = TypeWxpay then first_error
                [expect_same L ''wxpay appid'' (snap_MerchantAppID sn) (text_of ''appid''),
                 expect_same L ''wxpay mchid'' (snap_MerchantID sn) (text_of ''mchid''),
                 expect_same L ''wxpay currency'' (snap_Currency sn) (upper_of ''currency''),
                 expect_state L ''wxpay trade_state'' ''SUCCESS'' (text_of ''trade_state'')]
              else if pk = TypeAlipay then
                expect_same L ''alipay app_id'' (snap_MerchantAppID sn) (text_of ''app_id'')
              else if pk = TypeEasyPay then
                expect_same L ''easypay pid'' (snap_MerchantID sn) (text_of ''pid'')
              else if pk = TypeStripe then
                expect_same L ''stripe currency'' (snap_Currency sn) (upper_of ''currency'')
              else if pk = TypeAirwallex then first_error
                [expect_same L ''airwallex account_id'' (snap_MerchantID sn) (text_of ''account_id''),
                 expect_same L ''airwallex currency'' (snap_Currency sn) (upper_of ''currency''),
                 expect_state L ''airwallex status'' ''SUCCEEDED'' (text_of ''status'')]
              else None))"

definition expectedNotificationProviderKey :: "pay_lib \<Rightarrow> string \<Rightarrow> string \<Rightarrow> string \<Rightarrow> string" where
  "expectedNotificationProviderKey L orderPaymentType orderProviderKey instanceProviderKey =
     (if trim_space instanceProviderKey \<noteq> '''' then trim_space instanceProviderKey
      else if trim_space orderProviderKey \<noteq> '''' then trim_space orderProviderKey
      else if trim_space (registry_key L orderPaymentType) \<noteq> '''' then trim_space (registry_key L orderPaymentType)
      else trim_space orderPaymentType)"

definition expectedNotificationProviderKeyForOrder :: "pay_lib \<Rightarrow> payment_order \<Rightarrow> string \<Rightarrow> string" where
  "expectedNotificationProviderKeyForOrder L r instanceProviderKey =
     (let column = (case provider_key r of None \<Rightarrow> '''' | Some k \<Rightarrow> k);
          orderProviderKey = (case psOrderProviderSnapshot r of
             Some sn \<Rightarrow> if snap_ProviderKey sn \<noteq> '''' then snap_ProviderKey sn else column
           | None \<Rightarrow> column)
      in expectedNotificationProviderKey L (payment_type r) orderProviderKey instanceProviderKey)"

end
