(* ===== verification/PaymentFlow.thy ===== *)
theory PaymentFlow
  imports Payment "HOL-Library.Char_ord"
begin

section \<open>The programs of the payment service\<close>

text \<open>
  Redemption of codes (\<^verbatim>\<open>redeem_service.go\<close>), fulfilment of paid orders and handling of provider
  notifications (\<^verbatim>\<open>payment_fulfillment.go\<close>), cancellation and expiry (\<^verbatim>\<open>payment_order_lifecycle.go\<close>), as
  programs over the tables of \<open>GatewayStore\<close>.
\<close>

subsection \<open>Redeeming a code\<close>

definition redeemMaxErrorsPerHour :: int where "redeemMaxErrorsPerHour = 20"

definition checkRedeemRateLimit :: "int \<Rightarrow> go_error option pay" where
  "checkRedeemRateLimit userID =
     and_then (sql (\<lambda>s. (Inr (redeem_attempts s userID), s))) (\<lambda>r. case r of
        Inl _ \<Rightarrow> Ret None
      | Inr count \<Rightarrow> Ret (if count \<ge> redeemMaxErrorsPerHour then Some ErrRedeemRateLimited else None))"

definition incrementRedeemErrorCount :: "int \<Rightarrow> (go_error + unit) pay" where
  "incrementRedeemErrorCount userID =
     sql (\<lambda>s. (Inr (), s\<lparr>redeem_attempts := (redeem_attempts s)(userID := redeem_attempts s userID + 1)\<rparr>))"

definition acquireRedeemLock :: "string \<Rightarrow> bool pay" where
  "acquireRedeemLock code =
     and_then (sql (\<lambda>s. if code \<in> set (redeem_locks s) then (Inr False, s)
                        else (Inr True, s\<lparr>redeem_locks := code # redeem_locks s\<rparr>))) (\<lambda>r. case r of
        Inl _ \<Rightarrow> Ret True
      | Inr ok \<Rightarrow> Ret ok)"

definition releaseRedeemLock :: "string \<Rightarrow> (go_error + unit) pay" where
  "releaseRedeemLock code = sql (\<lambda>s. (Inr (), s\<lparr>redeem_locks := removeAll code (redeem_locks s)\<rparr>))"

definition CreateCode :: "RedeemCode \<Rightarrow> go_error option pay" where
  "CreateCode r0 =
     (let code = trim_space (rc_code r0);
          r1 = r0\<lparr>rc_code := code, rc_type := (if rc_type r0 = '''' then RedeemTypeBalance else rc_type r0)\<rparr>
      in if code = '''' then Ret (Some (plain_error ''code is required''))
         else if rc_type r1 \<noteq> RedeemTypeInvitation \<and> rc_value r1 = 0 then Ret (Some (plain_error ''value must not be zero''))
         else
           let r = r1\<lparr>rc_status := (if rc_status r1 = '''' then StatusUnused else rc_status r1)\<rparr>
           in and_then time_now (\<lambda>now.
                if IsExpiredAt now r then Ret (Some ErrRedeemCodeExpired)
                else checked (sql (insert_code r)) (\<lambda>e. Ret (Some (wrap ''create redeem code'' e))) (\<lambda>_. Ret None)))"

text \<open>Shortening a subscription, inside the transaction of a redemption. \<^verbatim>\<open>Hours() / 24\<close> is truncated to whole days.\<close>

definition reduceOrCancelSubscription :: "calendar \<Rightarrow> int \<Rightarrow> int \<Rightarrow> int \<Rightarrow> string \<Rightarrow> unit db_stmt" where
  "reduceOrCancelSubscription C userID groupID reduceDays notes s =
     (case List.find (of_user_and_group userID groupID) (subs s) of
        None \<Rightarrow> (Inl ErrSubscriptionNotFound, s)
      | Some sub \<Rightarrow>
          (let now = clock s;
               left = go_div (sub_time (SubExpiresAt sub) now) subscriptionDayDuration;
               remaining = (if left < 0 then 0 else left);
               shorten = (if remaining \<le> reduceDays
                 then also_stmt (wrapping ''cancel subscription'' (UpdateStatus (SubID sub) SubscriptionStatusExpired))
                        (\<lambda>_. wrapping ''set subscription expiry'' (ExtendExpiry (SubID sub) now))
                 else wrapping ''reduce subscription''
                        (ExtendExpiry (SubID sub) (add_days C (SubExpiresAt sub) (- reduceDays))));
               newNotes = (if Notes sub \<noteq> '''' then Notes sub @ [char_of (10::nat)] else '''') @ notes
           in also_stmt shorten (\<lambda>_. wrapping ''update subscription notes'' (UpdateNotes (SubID sub) newNotes)) s))"

text \<open>
  The transaction of a redemption: mark the code used if it is still unused, then hand out what it is
  worth. The texts written into a subscription's notes are arguments.
\<close>

definition redeem_benefit :: "calendar \<Rightarrow> int \<Rightarrow> RedeemCode \<Rightarrow> string \<Rightarrow> unit db_stmt" where
  "redeem_benefit C userID r notes =
     (if rc_type r = RedeemTypeBalance then
        wrapping ''update user balance''
          (if rc_value r < 0 then ApplyRedeemBalanceAdjustment userID (rc_value r) else UpdateBalance userID (rc_value r))
      else if rc_type r = RedeemTypeConcurrency then
        (let delta = (if rc_value r < 0 then - \<lfloor>- rc_value r\<rfloor> else \<lfloor>rc_value r\<rfloor>)
         in wrapping ''update user concurrency''
              (if delta < 0 then ApplyRedeemConcurrencyAdjustment userID delta else UpdateConcurrency userID delta))
      else if rc_type r = RedeemTypeSubscription then
        (if rc_days r < 0
         then wrapping ''reduce or cancel subscription''
                (reduceOrCancelSubscription C userID (the (rc_group r)) (- rc_days r) notes)
         else wrapping ''assign or extend subscription''
                (assignOrExtendSubscription C userID (the (rc_group r)) (if rc_days r = 0 then 30 else rc_days r) 0 notes))
      else (\<lambda>s. (Inl (BadRequest ''REDEEM_CODE_UNSUPPORTED_TYPE'' ''unsupported redeem type''), s)))"

definition redeem_tx :: "calendar \<Rightarrow> int \<Rightarrow> RedeemCode \<Rightarrow> string \<Rightarrow> unit db_stmt" where
  "redeem_tx C userID r notes = also_stmt (use_code (rc_id r) userID) (\<lambda>_. redeem_benefit C userID r notes)"

text \<open>The conditions on the type of a code before anything is written.\<close>

definition redeem_precheck :: "RedeemCode \<Rightarrow> go_error option" where
  "redeem_precheck r =
     (if rc_type r = RedeemTypeBalance \<or> rc_type r = RedeemTypeConcurrency then None
      else if rc_type r = RedeemTypeSubscription then
        (if rc_group r = None
         then Some (BadRequest ''REDEEM_CODE_INVALID'' ''invalid subscription redeem code: missing group_id'') else None)
      else if rc_type r = RedeemTypeInvitation
      then Some (BadRequest ''REDEEM_CODE_UNSUPPORTED_TYPE'' ''invitation codes can only be used during registration'')
      else Some (BadRequest ''REDEEM_CODE_UNSUPPORTED_TYPE'' (''unsupported redeem type: '' @ rc_type r)))"

definition tryAccrueAffiliateRebateForRedeem :: "bool \<Rightarrow> (go_error + unit) pay" where
  "tryAccrueAffiliateRebateForRedeem skip =
     (if skip then Ret (Inr ())
      else stmt (\<lambda>c. under_weather (weather c) (\<lambda>s.
             case rebate_rule c of
               Inl e \<Rightarrow> (Inl e, s)
             | Inr x \<Rightarrow> if x > 0 then (Inr (), s\<lparr>rebates := rebates s @ [(None, x)]\<rparr>) else (Inr (), s))))"

definition redeem_locked :: "pay_lib \<Rightarrow> bool \<Rightarrow> int \<Rightarrow> string \<Rightarrow> string \<Rightarrow> (go_error + RedeemCode) pay" where
  "redeem_locked L skip userID code notes =
     checked (sql (find_code (\<lambda>r. rc_code r = code)))
       (\<lambda>e. if e = ErrRedeemCodeNotFound
            then ignoring (incrementRedeemErrorCount userID) (Ret (Inl ErrRedeemCodeNotFound))
            else Ret (Inl (wrap ''get redeem code'' e))) (\<lambda>r.
     and_then time_now (\<lambda>now.
     if IsExpiredAt now r then ignoring (incrementRedeemErrorCount userID) (Ret (Inl ErrRedeemCodeExpired))
     else and_then time_now (\<lambda>now.
     if \<not> CanUse now r then ignoring (incrementRedeemErrorCount userID) (Ret (Inl ErrRedeemCodeUsed))
     else case redeem_precheck r of Some e \<Rightarrow> Ret (Inl e) | None \<Rightarrow>
     checked (sql (find_user userID)) (\<lambda>e. Ret (Inl (wrap ''get user'' e))) (\<lambda>_.
     checked (sql (redeem_tx (cal L) userID r notes)) (\<lambda>e. Ret (Inl e)) (\<lambda>_.
     ignoring (if rc_type r = RedeemTypeBalance \<and> rc_value r > 0 then tryAccrueAffiliateRebateForRedeem skip else Ret (Inr ()))
     (checked (sql (find_code (\<lambda>x. rc_id x = rc_id r))) (\<lambda>e. Ret (Inl (wrap ''get updated redeem code'' e)))
        (\<lambda>x. Ret (Inr x))))))))"

definition Redeem :: "pay_lib \<Rightarrow> bool \<Rightarrow> int \<Rightarrow> string \<Rightarrow> string \<Rightarrow> (go_error + RedeemCode) pay" where
  "Redeem L skip userID code notes =
     and_then (checkRedeemRateLimit userID) (\<lambda>limited. case limited of
        Some e \<Rightarrow> Ret (Inl e)
      | None \<Rightarrow>
          and_then (acquireRedeemLock code) (\<lambda>ok.
          if \<not> ok then Ret (Inl ErrRedeemCodeLocked)
          else and_then (redeem_locked L skip userID code notes) (\<lambda>res.
               ignoring (releaseRedeemLock code) (Ret res))))"

subsection \<open>The lease of a fulfilment\<close>

definition paymentFulfillmentLeaseDuration :: duration where "paymentFulfillmentLeaseDuration = 5 * minute"

definition acquirePaymentFulfillmentLease :: "payment_order \<Rightarrow> (go_error + time option) pay" where
  "acquirePaymentFulfillmentLease o1 =
     and_then time_now (\<lambda>t.
     let now = t div 1000 * 1000;
         staleBefore = add_time now (- paymentFulfillmentLeaseDuration) in
     checked (sql (update_order (order_id o1)
         (\<lambda>r. order_status r = OrderStatusPaid \<or> order_status r = OrderStatusFailed \<or>
              order_status r = OrderStatusRecharging \<and> order_updated_at r \<le> staleBefore)
         (\<lambda>r. r\<lparr>order_status := OrderStatusRecharging, order_updated_at := pg_time now, failed_at := None, failed_reason := None\<rparr>)))
       (\<lambda>e. Ret (Inl (wrap ''acquire fulfillment lease'' e))) (\<lambda>updated.
     if updated = 0 then
       checked (order_by_id (order_id o1)) (\<lambda>e. Ret (Inl (wrap ''reload fulfillment lease'' e))) (\<lambda>current.
       if order_status current = OrderStatusCompleted then Ret (Inr None)
       else if order_status current = OrderStatusRecharging then Ret (Inl (Conflict ''CONFLICT'' ''order is being processed''))
       else Ret (Inl (Conflict ''CONFLICT'' ''order status changed while acquiring fulfillment lease'')))
     else
       checked (order_by_id (order_id o1)) (\<lambda>e. Ret (Inl (wrap ''reload acquired fulfillment lease'' e))) (\<lambda>claimed.
       if order_status claimed \<noteq> OrderStatusRecharging
       then Ret (Inl (Conflict ''CONFLICT'' ''fulfillment lease was lost''))
       else Ret (Inr (Some (order_updated_at claimed))))))"

definition markCompleted :: "payment_order \<Rightarrow> time \<Rightarrow> string \<Rightarrow> go_error option pay" where
  "markCompleted o1 lease auditAction =
     and_then time_now (\<lambda>now.
     checked (sql (\<lambda>s. update_order (order_id o1)
         (\<lambda>r. order_status r = OrderStatusRecharging \<and> order_updated_at r = lease)
         (\<lambda>r. (touched s r)\<lparr>order_status := OrderStatusCompleted, completed_at := Some (pg_time now)\<rparr>) s))
       (\<lambda>e. Ret (Some (wrap ''mark completed'' e))) (\<lambda>updated.
     if updated = 0 then
       and_then (order_by_id (order_id o1)) (\<lambda>r. case r of
          Inr current \<Rightarrow>
            if order_status current = OrderStatusCompleted then Ret None
            else Ret (Some (Conflict ''CONFLICT'' ''fulfillment lease was lost before completion''))
        | Inl _ \<Rightarrow> Ret (Some (Conflict ''CONFLICT'' ''fulfillment lease was lost before completion'')))
     else
       and_then (hasAuditLog (order_id o1) auditAction) (\<lambda>logged.
       if \<not> logged then ignoring (writeAuditLog (order_id o1) auditAction) (Ret None) else Ret None)))"

definition markFailed :: "int \<Rightarrow> time \<Rightarrow> string \<Rightarrow> unit pay" where
  "markFailed oid lease reason =
     and_then time_now (\<lambda>now.
     and_then (sql (\<lambda>s. update_order oid
         (\<lambda>r. order_status r = OrderStatusRecharging \<and> order_updated_at r = lease)
         (\<lambda>r. (touched s r)\<lparr>order_status := OrderStatusFailed, failed_at := Some (pg_time now), failed_reason := Some reason\<rparr>) s))
     (\<lambda>res. case res of
        Inr c \<Rightarrow> if c > 0 then ignoring (writeAuditLog oid ''FULFILLMENT_FAILED'') (Ret ()) else Ret ()
      | Inl _ \<Rightarrow> Ret ()))"

subsection \<open>The affiliate rebate of an order\<close>

definition OrderTypeBalance :: string where "OrderTypeBalance = ''balance''"
definition OrderTypeSubscription :: string where "OrderTypeSubscription = ''subscription''"

definition affiliateRebateBaseAmount :: "payment_order \<Rightarrow> usd" where
  "affiliateRebateBaseAmount o1 =
     (if order_type o1 = OrderTypeBalance \<or> order_type o1 = OrderTypeSubscription then order_amount o1 else 0)"

text \<open>
  The transaction: the audit row claims the order, unless it was claimed before; the rebate the affiliate
  service decides on is entered, and the claim becomes a skip when there is none.
\<close>

definition rebate_tx :: "int \<Rightarrow> go_error + usd \<Rightarrow> unit db_stmt" where
  "rebate_tx oid rule s =
     (if (oid, ''AFFILIATE_REBATE_APPLIED'') \<in> set (audit_logs s) \<or> (oid, ''AFFILIATE_REBATE_SKIPPED'') \<in> set (audit_logs s)
      then (Inr (), s)
      else case rule of
             Inl e \<Rightarrow> (Inl (wrap ''accrue affiliate rebate'' e), s)
           | Inr rebateAmount \<Rightarrow>
               if rebateAmount \<le> 0
               then (Inr (), s\<lparr>audit_logs := audit_logs s @ [(oid, ''AFFILIATE_REBATE_SKIPPED'')]\<rparr>)
               else (Inr (), s\<lparr>audit_logs := audit_logs s @ [(oid, ''AFFILIATE_REBATE_APPLIED'')],
                               rebates := rebates s @ [(Some oid, rebateAmount)]\<rparr>))"

definition applyAffiliateRebateForOrder :: "payment_order \<Rightarrow> go_error option pay" where
  "applyAffiliateRebateForOrder o1 =
     (if affiliateRebateBaseAmount o1 \<le> 0 then Ret None
      else checked (stmt (\<lambda>c. under_weather (weather c) (rebate_tx (order_id o1) (rebate_rule c))))
             (\<lambda>e. ignoring (writeAuditLog (order_id o1) ''AFFILIATE_REBATE_FAILED'') (Ret (Some e)))
             (\<lambda>_. Ret None))"

subsection \<open>Fulfilling a balance order\<close>

datatype redeemAction = redeemActionCreate | redeemActionRedeem | redeemActionSkipCompleted

definition resolveRedeemAction :: "go_error + RedeemCode \<Rightarrow> redeemAction" where
  "resolveRedeemAction looked_up =
     (case looked_up of
        Inl _ \<Rightarrow> redeemActionCreate
      | Inr existing \<Rightarrow> if IsUsed existing then redeemActionSkipCompleted else redeemActionRedeem)"

definition rebate_and_complete :: "payment_order \<Rightarrow> time \<Rightarrow> string \<Rightarrow> go_error option pay" where
  "rebate_and_complete o1 lease auditAction =
     and_then (applyAffiliateRebateForOrder o1) (\<lambda>r. case r of
        Some e \<Rightarrow> Ret (Some e)
      | None \<Rightarrow> markCompleted o1 lease auditAction)"

definition redeem_and_complete :: "pay_lib \<Rightarrow> payment_order \<Rightarrow> time \<Rightarrow> go_error option pay" where
  "redeem_and_complete L o1 lease =
     checked (Redeem L True (order_user o1) (recharge_code o1) '''') (\<lambda>e. Ret (Some (wrap ''redeem balance'' e)))
       (\<lambda>_. rebate_and_complete o1 lease ''RECHARGE_SUCCESS'')"

definition order_code :: "payment_order \<Rightarrow> RedeemCode" where
  "order_code o1 = \<lparr>rc_id = 0, rc_code = recharge_code o1, rc_type = RedeemTypeBalance, rc_value = order_amount o1,
     rc_status = StatusUnused, rc_used_by = None, rc_used_at = None, rc_expires_at = None, rc_group = None, rc_days = 0\<rparr>"

definition doBalance :: "pay_lib \<Rightarrow> payment_order \<Rightarrow> time \<Rightarrow> go_error option pay" where
  "doBalance L o1 lease =
     and_then (sql (find_code (\<lambda>r. rc_code r = recharge_code o1))) (\<lambda>looked_up.
     case resolveRedeemAction looked_up of
       redeemActionSkipCompleted \<Rightarrow> rebate_and_complete o1 lease ''RECHARGE_SUCCESS''
     | redeemActionCreate \<Rightarrow>
         and_then (CreateCode (order_code o1)) (\<lambda>r. case r of
            Some e \<Rightarrow> Ret (Some (wrap ''create redeem code'' e))
          | None \<Rightarrow> redeem_and_complete L o1 lease)
     | redeemActionRedeem \<Rightarrow> redeem_and_complete L o1 lease)"

definition psIsRefundStatus :: "string \<Rightarrow> bool" where
  "psIsRefundStatus st \<longleftrightarrow>
     st \<in> {OrderStatusRefundRequested, OrderStatusRefunding, OrderStatusRefundPending,
           OrderStatusPartiallyRefunded, OrderStatusRefunded, OrderStatusRefundFailed}"

text \<open>Taking the lease, doing the work under it and recording a failure, shared by both kinds of order.\<close>

definition under_lease :: "pay_lib \<Rightarrow> payment_order \<Rightarrow> (time \<Rightarrow> go_error option pay) \<Rightarrow> go_error option pay" where
  "under_lease L o1 work =
     checked (acquirePaymentFulfillmentLease o1) (\<lambda>e. Ret (Some e)) (\<lambda>lease. case lease of
        None \<Rightarrow> Ret None
      | Some v \<Rightarrow>
          and_then (work v) (\<lambda>r. case r of
             Some e \<Rightarrow> ignoring (markFailed (order_id o1) v (error_text L e)) (Ret (Some e))
           | None \<Rightarrow> Ret None))"

definition may_fulfil :: "payment_order \<Rightarrow> go_error option" where
  "may_fulfil o1 =
     (if psIsRefundStatus (order_status o1)
      then Some (BadRequest ''INVALID_STATUS'' ''refund-related order cannot fulfill'')
      else if order_status o1 \<noteq> OrderStatusPaid \<and> order_status o1 \<noteq> OrderStatusFailed \<and>
              order_status o1 \<noteq> OrderStatusRecharging
      then Some (BadRequest ''INVALID_STATUS'' (''order cannot fulfill in status '' @ order_status o1))
      else None)"

definition ExecuteBalanceFulfillment :: "pay_lib \<Rightarrow> int \<Rightarrow> go_error option pay" where
  "ExecuteBalanceFulfillment L oid =
     checked (order_by_id oid) (\<lambda>_. Ret (Some (NotFound ''NOT_FOUND'' ''order not found''))) (\<lambda>o1.
     if order_status o1 = OrderStatusCompleted then Ret None
     else case may_fulfil o1 of Some e \<Rightarrow> Ret (Some e) | None \<Rightarrow> under_lease L o1 (doBalance L o1))"

subsection \<open>Fulfilling a subscription order\<close>

definition paymentSubscriptionOrderNote :: "int \<Rightarrow> string" where
  "paymentSubscriptionOrderNote oid = ''payment order '' @ itoa oid"

fun replace_crlf :: "string \<Rightarrow> string" where
  "replace_crlf (a # b # cs) =
     (if a = char_of (13::nat) \<and> b = char_of (10::nat) then b # replace_crlf cs else a # replace_crlf (b # cs))"
| "replace_crlf cs = cs"

fun split_lines :: "string \<Rightarrow> string list" where
  "split_lines [] = [[]]"
| "split_lines (c # cs) =
     (if c = char_of (10::nat) then [] # split_lines cs
      else (case split_lines cs of [] \<Rightarrow> [[c]] | l # ls \<Rightarrow> (c # l) # ls))"

definition hasPaymentSubscriptionOrderNote :: "string \<Rightarrow> string \<Rightarrow> bool" where
  "hasPaymentSubscriptionOrderNote notes orderNote \<longleftrightarrow>
     (\<exists>line\<in>set (split_lines (replace_crlf notes)). trim_space line = orderNote)"

definition hasPaymentSubscriptionAssignmentAudit :: "int \<Rightarrow> bool db_stmt" where
  "hasPaymentSubscriptionAssignmentAudit oid s =
     (Inr ((oid, ''SUBSCRIPTION_ASSIGNED'') \<in> set (audit_logs s) \<or> (oid, ''SUBSCRIPTION_SUCCESS'') \<in> set (audit_logs s)), s)"

text \<open>
  The writes of the assignment and their commit: the subscription is extended unless its notes name the
  order already, and the audit row, unique per order, is entered. Two transactions that both found no
  audit row before are told apart by it.
\<close>

definition assign_tx :: "calendar \<Rightarrow> payment_order \<Rightarrow> int \<Rightarrow> int \<Rightarrow> unit db_stmt" where
  "assign_tx C o1 groupID days =
     (let orderNote = paymentSubscriptionOrderNote (order_id o1)
      in also_stmt
           (\<lambda>s. case List.find (of_user_and_group (order_user o1) groupID) (subs s) of
              Some existing \<Rightarrow>
                if hasPaymentSubscriptionOrderNote (Notes existing) orderNote then (Inr (), s)
                else wrapping ''assign subscription'' (assignOrExtendSubscription C (order_user o1) groupID days 0 orderNote) s
            | None \<Rightarrow>
                wrapping ''assign subscription'' (assignOrExtendSubscription C (order_user o1) groupID days 0 orderNote) s)
           (\<lambda>_. insert_audit (order_id o1) ''SUBSCRIPTION_ASSIGNED''))"

definition ensurePaymentSubscriptionAssigned :: "calendar \<Rightarrow> payment_order \<Rightarrow> int \<Rightarrow> int \<Rightarrow> go_error option pay" where
  "ensurePaymentSubscriptionAssigned C o1 groupID days =
     checked (sql (hasPaymentSubscriptionAssignmentAudit (order_id o1)))
       (\<lambda>e. Ret (Some (wrap ''check subscription assignment audit'' e))) (\<lambda>alreadyAssigned.
     if alreadyAssigned then Ret None
     else checked (sql (assign_tx C o1 groupID days))
       (\<lambda>e. if IsConstraintError e
            then and_then (sql (hasPaymentSubscriptionAssignmentAudit (order_id o1))) (\<lambda>r. case r of
                   Inr claimed \<Rightarrow>
                     if claimed then Ret None else Ret (Some (wrap ''record subscription assignment audit'' e))
                 | Inl _ \<Rightarrow> Ret (Some (wrap ''record subscription assignment audit'' e)))
            else Ret (Some e))
       (\<lambda>_. Ret None))"

definition doSub :: "pay_lib \<Rightarrow> payment_order \<Rightarrow> int \<Rightarrow> int \<Rightarrow> time \<Rightarrow> go_error option pay" where
  "doSub L o1 gid days lease =
     checked (sql (find_group gid)) (\<lambda>_. Ret (Some (plain_error ''group no longer exists or inactive''))) (\<lambda>g.
     if GroupStatus g \<noteq> ''active'' then Ret (Some (plain_error ''group no longer exists or inactive''))
     else and_then (ensurePaymentSubscriptionAssigned (cal L) o1 gid days) (\<lambda>r. case r of
            Some e \<Rightarrow> Ret (Some e)
          | None \<Rightarrow> rebate_and_complete o1 lease ''SUBSCRIPTION_SUCCESS''))"

definition ExecuteSubscriptionFulfillment :: "pay_lib \<Rightarrow> int \<Rightarrow> go_error option pay" where
  "ExecuteSubscriptionFulfillment L oid =
     checked (order_by_id oid) (\<lambda>_. Ret (Some (NotFound ''NOT_FOUND'' ''order not found''))) (\<lambda>o1.
     if order_status o1 = OrderStatusCompleted then Ret None
     else case may_fulfil o1 of Some e \<Rightarrow> Ret (Some e) | None \<Rightarrow>
       (case (subscription_group_id o1, subscription_days o1) of
          (Some gid, Some days) \<Rightarrow> under_lease L o1 (doSub L o1 gid days)
        | _ \<Rightarrow> Ret (Some (BadRequest ''INVALID_STATUS'' ''missing subscription info''))))"

definition executeFulfillment :: "pay_lib \<Rightarrow> int \<Rightarrow> go_error option pay" where
  "executeFulfillment L oid =
     checked (order_by_id oid) (\<lambda>e. Ret (Some (wrap ''get order'' e))) (\<lambda>o1.
     if order_type o1 = OrderTypeSubscription then ExecuteSubscriptionFulfillment L oid
     else ExecuteBalanceFulfillment L oid)"

definition RetryFulfillment :: "pay_lib \<Rightarrow> int \<Rightarrow> go_error option pay" where
  "RetryFulfillment L oid =
     checked (order_by_id oid) (\<lambda>_. Ret (Some (NotFound ''NOT_FOUND'' ''order not found''))) (\<lambda>o1.
     if paid_at o1 = None then Ret (Some (BadRequest ''INVALID_STATUS'' ''order is not paid''))
     else if psIsRefundStatus (order_status o1)
     then Ret (Some (BadRequest ''INVALID_STATUS'' ''refund-related order cannot retry''))
     else if order_status o1 = OrderStatusCompleted
     then Ret (Some (BadRequest ''INVALID_STATUS'' ''order already completed''))
     else if order_status o1 \<noteq> OrderStatusFailed \<and> order_status o1 \<noteq> OrderStatusPaid \<and>
             order_status o1 \<noteq> OrderStatusRecharging
     then Ret (Some (BadRequest ''INVALID_STATUS'' ''only paid, failed, and recoverable recharging orders can retry''))
     else ignoring (writeAuditLog oid ''RECHARGE_RETRY'') (executeFulfillment L oid))"

subsection \<open>Payment notifications\<close>

definition paymentGrace :: duration where "paymentGrace = 5 * minute"

definition alreadyProcessed :: "pay_lib \<Rightarrow> payment_order \<Rightarrow> go_error option pay" where
  "alreadyProcessed L o1 =
     checked (order_by_id (order_id o1)) (\<lambda>_. Ret None) (\<lambda>cur.
     if order_status cur = OrderStatusCompleted \<or> order_status cur = OrderStatusRefunded then Ret None
     else if order_status cur = OrderStatusFailed \<or> order_status cur = OrderStatusPaid \<or>
             order_status cur = OrderStatusRecharging
     then executeFulfillment L (order_id o1)
     else if order_status cur = OrderStatusExpired
     then ignoring (writeAuditLog (order_id o1) ''PAYMENT_AFTER_EXPIRY'') (Ret None)
     else Ret None)"

definition toPaid :: "pay_lib \<Rightarrow> payment_order \<Rightarrow> string \<Rightarrow> usd \<Rightarrow> go_error option pay" where
  "toPaid L o1 tradeNo paid =
     and_then time_now (\<lambda>now.
     let grace = add_time now (- paymentGrace) in
     checked (sql (\<lambda>s. update_order (order_id o1)
         (\<lambda>r. order_status r = OrderStatusPending \<or> order_status r = OrderStatusCancelled \<or>
              order_status r = OrderStatusExpired \<and> order_updated_at r \<ge> grace)
         (\<lambda>r. (touched s r)\<lparr>order_status := OrderStatusPaid, pay_amount := paid, payment_trade_no := tradeNo,
                paid_at := Some (pg_time now), failed_at := None, failed_reason := None\<rparr>) s))
       (\<lambda>e. Ret (Some (wrap ''update to PAID'' e))) (\<lambda>c.
     if c = 0 then alreadyProcessed L o1
     else ignoring
       (if order_status o1 = OrderStatusCancelled \<or> order_status o1 = OrderStatusExpired
        then writeAuditLog (order_id o1) ''ORDER_RECOVERED'' else Ret (Inr ()))
       (ignoring (writeAuditLog (order_id o1) ''ORDER_PAID'') (executeFulfillment L (order_id o1)))))"

text \<open>What the lookup of an order's provider, and its query at the provider, give.\<close>

definition getOrderProviderInstance :: "string option pay" where
  "getOrderProviderInstance = stmt (\<lambda>c s. (instance_key c, s))"

definition getOrderProvider :: "(go_error + string) pay" where
  "getOrderProvider = stmt (\<lambda>c s. (order_provider c, s))"

definition QueryOrder :: "(go_error + query_response) pay" where
  "QueryOrder = stmt (\<lambda>c s. (query_order c, s))"

text \<open>An error recorded in the audit log and returned.\<close>

definition audited_error :: "int \<Rightarrow> string \<Rightarrow> go_error \<Rightarrow> go_error option pay" where
  "audited_error oid action e = ignoring (writeAuditLog oid action) (Ret (Some e))"

definition amounts_differ :: "usd \<Rightarrow> usd \<Rightarrow> usd \<Rightarrow> bool" where
  "amounts_differ tol a b \<longleftrightarrow> \<bar>a - b\<bar> > tol"

definition confirmEasyPayUpstream :: "pay_lib \<Rightarrow> payment_order \<Rightarrow> string \<Rightarrow> usd \<Rightarrow> go_error option pay" where
  "confirmEasyPayUpstream L o1 tradeNo paid =
     (let notifiedTradeNo = trim_space tradeNo;
          audited = audited_error (order_id o1)
      in if notifiedTradeNo = ''''
         then audited ''PAYMENT_UPSTREAM_TRADE_MISMATCH'' (plain_error ''easypay notification missing trade number'')
         else and_then getOrderProvider (\<lambda>prov. case prov of
           Inl e \<Rightarrow> audited ''PAYMENT_UPSTREAM_UNCONFIRMED'' (wrap ''easypay upstream confirmation unavailable'' e)
         | Inr key \<Rightarrow>
             if GetBasePaymentType key \<noteq> TypeEasyPay
             then audited ''PAYMENT_UPSTREAM_UNCONFIRMED'' (plain_error ''easypay upstream confirmation unavailable'')
             else let queryRef = trim_space (out_trade_no o1)
             in if queryRef = ''''
                then audited ''PAYMENT_UPSTREAM_UNCONFIRMED''
                       (plain_error ''easypay upstream confirmation missing order reference'')
                else and_then QueryOrder (\<lambda>res. case res of
                  Inl e \<Rightarrow> audited ''PAYMENT_UPSTREAM_UNCONFIRMED'' (wrap ''easypay upstream query failed'' e)
                | Inr resp \<Rightarrow>
                    if resp_status resp \<noteq> ''paid''
                    then audited ''PAYMENT_UPSTREAM_NOT_PAID'' (plain_error ''easypay upstream order is not paid'')
                    else let tolerance = paymentAmountToleranceForCurrency L (PaymentOrderCurrency L o1)
                    in if \<not> isValidProviderAmount (resp_amount resp) \<or>
                          amounts_differ tolerance (the (resp_amount resp)) (pay_amount o1) \<or>
                          amounts_differ tolerance (the (resp_amount resp)) paid
                       then audited ''PAYMENT_UPSTREAM_AMOUNT_MISMATCH'' (plain_error ''easypay upstream amount mismatch'')
                       else let upstreamTradeNo = trim_space (resp_trade_no resp)
                       in if upstreamTradeNo = '''' \<or> upstreamTradeNo = queryRef \<or> upstreamTradeNo \<noteq> notifiedTradeNo
                          then audited ''PAYMENT_UPSTREAM_TRADE_MISMATCH''
                                 (plain_error ''easypay upstream trade number mismatch'')
                          else Ret None)))"

definition confirmPayment ::
  "pay_lib \<Rightarrow> int \<Rightarrow> string \<Rightarrow> go_amount \<Rightarrow> string \<Rightarrow> (string \<times> string) list \<Rightarrow> go_error option pay" where
  "confirmPayment L oid tradeNo paid pk metadata =
     checked (order_by_id oid) (\<lambda>_. Ret None) (\<lambda>o1.
     and_then getOrderProviderInstance (\<lambda>inst.
     let expectedProviderKey =
           expectedNotificationProviderKeyForOrder L o1 (case inst of None \<Rightarrow> '''' | Some k \<Rightarrow> k)
     in if expectedProviderKey \<noteq> '''' \<and> trim_space pk \<noteq> '''' \<and> \<not> equal_fold L expectedProviderKey (trim_space pk)
        then audited_error (order_id o1) ''PAYMENT_PROVIDER_MISMATCH''
               (plain_error (''provider mismatch: expected '' @ expectedProviderKey @ '', got '' @ pk))
        else case validateProviderSnapshotMetadata L o1 pk metadata of
          Some e \<Rightarrow> audited_error (order_id o1) ''PAYMENT_PROVIDER_METADATA_MISMATCH'' e
        | None \<Rightarrow>
            if \<not> isValidProviderAmount paid
            then audited_error (order_id o1) ''PAYMENT_INVALID_AMOUNT'' (plain_error ''invalid paid amount from provider'')
            else if amounts_differ (paymentAmountToleranceForCurrency L (PaymentOrderCurrency L o1)) (the paid) (pay_amount o1)
            then audited_error (order_id o1) ''PAYMENT_AMOUNT_MISMATCH'' (plain_error ''amount mismatch'')
            else if GetBasePaymentType pk = TypeEasyPay
            then and_then (confirmEasyPayUpstream L o1 tradeNo (the paid)) (\<lambda>r. case r of
                   Some e \<Rightarrow> Ret (Some e)
                 | None \<Rightarrow> toPaid L o1 tradeNo (the paid))
            else toPaid L o1 tradeNo (the paid)))"

record payment_notification =
  n_trade_no :: string
  n_order_id :: string
  n_amount :: go_amount
  n_status :: string
  n_metadata :: "(string \<times> string) list"

definition orderIDPrefix :: string where "orderIDPrefix = ''sub2_''"

definition parseLegacyPaymentOrderID :: "string \<Rightarrow> go_error \<Rightarrow> int option" where
  "parseLegacyPaymentOrderID orderID lookupErr =
     (if \<not> IsNotFound lookupErr then None
      else let t = trim_space orderID
      in if take (length orderIDPrefix) t \<noteq> orderIDPrefix then None
         else let trimmed = drop (length orderIDPrefix) t
         in if trimmed = '''' then None
            else case parse_int64 trimmed of
              None \<Rightarrow> None
            | Some oid \<Rightarrow> if oid \<le> 0 then None else Some oid)"

definition ErrOrderNotFound :: go_error where "ErrOrderNotFound = plain_error ''payment order not found''"

definition HandlePaymentNotification :: "pay_lib \<Rightarrow> payment_notification \<Rightarrow> string \<Rightarrow> go_error option pay" where
  "HandlePaymentNotification L n pk =
     (if n_status n \<noteq> ''success'' then Ret None
      else and_then (order_by_trade_no (n_order_id n)) (\<lambda>r. case r of
        Inl e \<Rightarrow>
          (case parseLegacyPaymentOrderID (n_order_id n) e of
             Some oid \<Rightarrow> confirmPayment L oid (n_trade_no n) (n_amount n) pk (n_metadata n)
           | None \<Rightarrow>
               if IsNotFound e then Ret (Some (wrap (''out_trade_no='' @ n_order_id n) ErrOrderNotFound))
               else Ret (Some (wrap (''lookup order failed for out_trade_no '' @ n_order_id n) e)))
      | Inr o1 \<Rightarrow> confirmPayment L (order_id o1) (n_trade_no n) (n_amount n) pk (n_metadata n)))"

subsection \<open>Cancellation, expiry and reconciliation\<close>

definition paymentOrderQueryReference :: "payment_order \<Rightarrow> string \<Rightarrow> string" where
  "paymentOrderQueryReference o1 provKey =
     (let k1 = trim_space provKey;
          k2 = (if k1 = '''' then (case psOrderProviderSnapshot o1 of None \<Rightarrow> '''' | Some sn \<Rightarrow> trim_space (snap_ProviderKey sn)) else k1);
          k3 = (if k2 = '''' then trim_space (case provider_key o1 of None \<Rightarrow> '''' | Some k \<Rightarrow> k) else k2);
          k4 = (if k3 = '''' then trim_space (payment_type o1) else k3)
      in if GetBasePaymentType k4 \<in> {TypeAlipay, TypeEasyPay, TypeWxpay} then trim_space (out_trade_no o1)
         else if trim_space (payment_trade_no o1) \<noteq> '''' then trim_space (payment_trade_no o1)
         else trim_space (out_trade_no o1))"

definition paymentOrderShouldPersistUpstreamTradeNo :: "pay_lib \<Rightarrow> string \<Rightarrow> string \<Rightarrow> string \<Rightarrow> bool" where
  "paymentOrderShouldPersistUpstreamTradeNo L queryRef upstreamTradeNo currentTradeNo \<longleftrightarrow>
     (let up = trim_space upstreamTradeNo
      in up \<noteq> '''' \<and> \<not> equal_fold L up (trim_space currentTradeNo) \<and> \<not> equal_fold L up (trim_space queryRef))"

definition requeryPaidOrderOnce :: "string \<Rightarrow> query_response option pay" where
  "requeryPaidOrderOnce queryRef =
     (if trim_space queryRef = '''' then Ret None
      else and_then QueryOrder (\<lambda>r. case r of
        Inl _ \<Rightarrow> Ret None
      | Inr resp \<Rightarrow>
          if resp_status resp \<noteq> ''paid'' \<or> \<not> isValidProviderAmount (resp_amount resp) then Ret None else Ret (Some resp)))"

text \<open>Whether the provider says that the order is paid; the answer \<open>True\<close> is \<^verbatim>\<open>already_paid\<close>.\<close>

definition settle_paid :: "pay_lib \<Rightarrow> payment_order \<Rightarrow> string \<Rightarrow> string \<Rightarrow> query_response \<Rightarrow> bool pay" where
  "settle_paid L o1 provKey queryRef resp =
     (let up = trim_space (resp_trade_no resp);
          notify = (\<lambda>no. ignoring (HandlePaymentNotification L
             \<lparr>n_trade_no = no, n_order_id = out_trade_no o1, n_amount = resp_amount resp, n_status = ''success'',
              n_metadata = resp_metadata resp\<rparr> provKey) (Ret True))
      in if paymentOrderShouldPersistUpstreamTradeNo L queryRef up (payment_trade_no o1)
         then ignoring (sql (\<lambda>s. update_order (order_id o1) (\<lambda>_. True)
                  (\<lambda>r. (touched s r)\<lparr>payment_trade_no := up\<rparr>) s)) (notify up)
         else notify (payment_trade_no o1))"

definition checkPaidWithOptions :: "pay_lib \<Rightarrow> payment_order \<Rightarrow> bool pay" where
  "checkPaidWithOptions L o1 =
     checked getOrderProvider (\<lambda>_. Ret False) (\<lambda>provKey.
     let queryRef = paymentOrderQueryReference o1 provKey in
     if queryRef = '''' then Ret False
     else checked QueryOrder (\<lambda>_. Ret False) (\<lambda>resp.
     if resp_status resp \<noteq> ''paid'' then Ret False
     else if \<not> isValidProviderAmount (resp_amount resp)
     then ignoring (writeAuditLog (order_id o1) ''PAYMENT_INVALID_AMOUNT'')
            (and_then (requeryPaidOrderOnce queryRef) (\<lambda>r. case r of
               None \<Rightarrow> Ret False
             | Some resp2 \<Rightarrow> settle_paid L o1 provKey queryRef resp2))
     else settle_paid L o1 provKey queryRef resp))"

text \<open>\<open>Inr True\<close> is \<^verbatim>\<open>already_paid\<close>, \<open>Inr False\<close> is \<^verbatim>\<open>cancelled\<close>.\<close>

definition cancelCore :: "pay_lib \<Rightarrow> payment_order \<Rightarrow> string \<Rightarrow> (go_error + bool) pay" where
  "cancelCore L o1 fs =
     and_then (if payment_trade_no o1 \<noteq> '''' \<or> payment_type o1 \<noteq> '''' then checkPaidWithOptions L o1 else Ret False)
       (\<lambda>alreadyPaid.
     if alreadyPaid then Ret (Inr True)
     else checked (sql (\<lambda>s. update_order (order_id o1) (\<lambda>r. order_status r = OrderStatusPending)
             (\<lambda>r. (touched s r)\<lparr>order_status := fs\<rparr>) s))
       (\<lambda>e. Ret (Inl (wrap ''update order status'' e))) (\<lambda>c.
     if c > 0
     then ignoring (writeAuditLog (order_id o1) (if fs = OrderStatusExpired then ''ORDER_EXPIRED'' else ''ORDER_CANCELLED''))
            (Ret (Inr False))
     else Ret (Inr False)))"

definition CancelOrder :: "pay_lib \<Rightarrow> int \<Rightarrow> int \<Rightarrow> (go_error + bool) pay" where
  "CancelOrder L orderID userID =
     checked (order_by_id orderID) (\<lambda>_. Ret (Inl (NotFound ''NOT_FOUND'' ''order not found''))) (\<lambda>o1.
     if order_user o1 \<noteq> userID then Ret (Inl (Forbidden ''FORBIDDEN'' ''no permission for this order''))
     else if order_status o1 \<noteq> OrderStatusPending
     then Ret (Inl (BadRequest ''INVALID_STATUS'' ''order cannot be cancelled in current status''))
     else cancelCore L o1 OrderStatusCancelled)"

definition AdminCancelOrder :: "pay_lib \<Rightarrow> int \<Rightarrow> (go_error + bool) pay" where
  "AdminCancelOrder L orderID =
     checked (order_by_id orderID) (\<lambda>_. Ret (Inl (NotFound ''NOT_FOUND'' ''order not found''))) (\<lambda>o1.
     if order_status o1 \<noteq> OrderStatusPending
     then Ret (Inl (BadRequest ''INVALID_STATUS'' ''order cannot be cancelled in current status''))
     else cancelCore L o1 OrderStatusCancelled)"

fun expire_each :: "pay_lib \<Rightarrow> payment_order list \<Rightarrow> nat \<Rightarrow> nat pay" where
  "expire_each L [] n = Ret n"
| "expire_each L (o1 # os) n =
     and_then (cancelCore L o1 OrderStatusExpired) (\<lambda>outcome. case outcome of
        Inr True \<Rightarrow> expire_each L os n
      | Inr False \<Rightarrow> expire_each L os (n + 1)
      | Inl _ \<Rightarrow> expire_each L os n)"

definition ExpireTimedOutOrders :: "pay_lib \<Rightarrow> (go_error + nat) pay" where
  "ExpireTimedOutOrders L =
     and_then time_now (\<lambda>now.
     checked (sql (\<lambda>s. (Inr (filter (\<lambda>r. order_status r = OrderStatusPending \<and> order_expires_at r \<le> now) (orders s)), s)))
       (\<lambda>e. Ret (Inl (wrap ''query expired'' e))) (\<lambda>os.
     and_then (expire_each L os 0) (\<lambda>n. Ret (Inr n))))"

definition normalizeOrderLookupOutTradeNo :: "string \<Rightarrow> go_error + string" where
  "normalizeOrderLookupOutTradeNo raw =
     (let outTradeNo = trim_space raw;
          allowed = (\<lambda>ch. CHR ''a'' \<le> ch \<and> ch \<le> CHR ''z'' \<or> CHR ''A'' \<le> ch \<and> ch \<le> CHR ''Z'' \<or>
                          CHR ''0'' \<le> ch \<and> ch \<le> CHR ''9'' \<or> ch = CHR ''_'' \<or> ch = CHR ''-'')
      in if outTradeNo = '''' then Inl (BadRequest ''INVALID_OUT_TRADE_NO'' ''out_trade_no is required'')
         else if length outTradeNo > 64 then Inl (BadRequest ''INVALID_OUT_TRADE_NO'' ''out_trade_no is invalid'')
         else if \<exists>ch\<in>set outTradeNo. \<not> allowed ch then Inl (BadRequest ''INVALID_OUT_TRADE_NO'' ''out_trade_no is invalid'')
         else Inr outTradeNo)"

definition VerifyOrderByOutTradeNo :: "pay_lib \<Rightarrow> string \<Rightarrow> int \<Rightarrow> (go_error + payment_order) pay" where
  "VerifyOrderByOutTradeNo L raw userID =
     (case normalizeOrderLookupOutTradeNo raw of Inl e \<Rightarrow> Ret (Inl e) | Inr outTradeNo \<Rightarrow>
     checked (order_by_trade_no outTradeNo) (\<lambda>_. Ret (Inl (NotFound ''NOT_FOUND'' ''order not found''))) (\<lambda>o1.
     if order_user o1 \<noteq> userID then Ret (Inl (Forbidden ''FORBIDDEN'' ''no permission for this order''))
     else if order_status o1 = OrderStatusPending \<or> order_status o1 = OrderStatusExpired
     then and_then (checkPaidWithOptions L o1) (\<lambda>alreadyPaid.
            if alreadyPaid
            then checked (order_by_id (order_id o1)) (\<lambda>e. Ret (Inl (wrap ''reload order'' e))) (\<lambda>r. Ret (Inr r))
            else Ret (Inr o1))
     else Ret (Inr o1)))"

definition has_prefix :: "string \<Rightarrow> string \<Rightarrow> bool" where "has_prefix s p \<longleftrightarrow> take (length p) s = p"

definition reconcilable :: "time \<Rightarrow> payment_order \<Rightarrow> bool" where
  "reconcilable now r \<longleftrightarrow>
     order_status r = OrderStatusPending \<and> order_expires_at r > now \<and>
     (\<exists>t\<in>{TypeWxpay, TypeAlipay}.
        payment_type r = t \<or> has_prefix (payment_type r) (t @ ''_'') \<or>
        (case provider_key r of None \<Rightarrow> False | Some k \<Rightarrow> k = t \<or> has_prefix k (t @ ''_'')))"

fun reconcile_each :: "pay_lib \<Rightarrow> payment_order list \<Rightarrow> nat \<Rightarrow> nat pay" where
  "reconcile_each L [] n = Ret n"
| "reconcile_each L (o1 # os) n =
     and_then (checkPaidWithOptions L o1) (\<lambda>alreadyPaid. reconcile_each L os (if alreadyPaid then n + 1 else n))"

definition ReconcilePendingPaymentOrders :: "pay_lib \<Rightarrow> (go_error + nat) pay" where
  "ReconcilePendingPaymentOrders L =
     and_then time_now (\<lambda>now.
     checked (sql (\<lambda>s. (Inr (take 20 (sort_key order_created_at (filter (reconcilable now) (orders s)))), s)))
       (\<lambda>e. Ret (Inl (wrap ''query pending payment orders'' e))) (\<lambda>os.
     and_then (reconcile_each L os 0) (\<lambda>n. Ret (Inr n))))"

end
