(* ===== verification/OrderCreation.thy ===== *)
theory OrderCreation
  imports PaymentFlow
begin

section \<open>Creating payment orders\<close>

text \<open>
  The part of \<^verbatim>\<open>service/payment_order.go\<close> that writes orders: the limits of a user, the row with its number
  and its redeem code, the call of the provider, and what happens to the order when the call fails. The amounts, the plan and the
  provider instance that \<^verbatim>\<open>CreateOrder\<close> computed before are arguments. The reads of the transaction are steps of their own, because
  the database does not keep other transactions from writing in between.
\<close>

record InstanceSelection =
  sel_InstanceID :: string
  sel_ProviderKey :: string
  sel_Config :: "(string \<times> string) list"
  sel_PaymentMode :: string

record CreateOrderRequest =
  req_UserID :: int
  req_PaymentType :: string
  req_OrderType :: string
  req_OpenID :: string

record SubscriptionPlan =
  plan_GroupID :: int
  plan_ValidityDays :: int
  plan_ValidityUnit :: string

record PaymentConfig =
  MaxPendingOrders :: int
  DailyLimit :: usd
  OrderTimeoutMin :: int

definition defaultOrderTimeoutMin :: int where "defaultOrderTimeoutMin = 30"
definition defaultMaxPendingOrders :: int where "defaultMaxPendingOrders = 3"

subsection \<open>The snapshot of the provider\<close>

definition paymentProviderConfigCurrency :: "pay_lib \<Rightarrow> string \<Rightarrow> (string \<times> string) list \<Rightarrow> string" where
  "paymentProviderConfigCurrency L providerKey cfg =
     (if trim_space providerKey = TypeStripe \<or> trim_space providerKey = TypeAirwallex
      then (case NormalizePaymentCurrency L (meta_field cfg ''currency'') of
              Some currency \<Rightarrow> currency | None \<Rightarrow> DefaultPaymentCurrency)
      else DefaultPaymentCurrency)"

definition ResolveWxpayJSAPIAppID :: "(string \<times> string) list \<Rightarrow> string" where
  "ResolveWxpayJSAPIAppID config =
     (let appID = trim_space (meta_field config ''mpAppId'')
      in if appID \<noteq> '''' then appID else trim_space (meta_field config ''appId''))"

definition paymentOrderSnapshotWxpayAppID :: "InstanceSelection option \<Rightarrow> CreateOrderRequest \<Rightarrow> string" where
  "paymentOrderSnapshotWxpayAppID sel req =
     (case sel of
        None \<Rightarrow> ''''
      | Some i \<Rightarrow>
          if trim_space (sel_ProviderKey i) \<noteq> TypeWxpay then ''''
          else if trim_space (req_OpenID req) \<noteq> '''' then trim_space (ResolveWxpayJSAPIAppID (sel_Config i))
          else trim_space (meta_field (sel_Config i) ''appId''))"

definition unless_empty :: "string \<Rightarrow> string \<Rightarrow> (string \<times> snapshot_value) list" where
  "unless_empty k v = (if v = '''' then [] else [(k, SnapText v)])"

definition buildPaymentOrderProviderSnapshot ::
  "pay_lib \<Rightarrow> InstanceSelection option \<Rightarrow> CreateOrderRequest \<Rightarrow> (string \<times> snapshot_value) list option" where
  "buildPaymentOrderProviderSnapshot L sel req =
     (case sel of
        None \<Rightarrow> None
      | Some i \<Rightarrow>
          (let providerKey = trim_space (sel_ProviderKey i);
               config = (\<lambda>k. trim_space (meta_field (sel_Config i) k));
               snapshot =
                 [(''schema_version'', SnapNumber 2)] @
                 unless_empty ''provider_instance_id'' (trim_space (sel_InstanceID i)) @
                 unless_empty ''provider_key'' providerKey @
                 unless_empty ''payment_mode'' (trim_space (sel_PaymentMode i)) @
                 (if providerKey = TypeWxpay
                  then unless_empty ''merchant_app_id'' (paymentOrderSnapshotWxpayAppID sel req) @
                       unless_empty ''merchant_id'' (config ''mchId'') @ [(''currency'', SnapText DefaultPaymentCurrency)]
                  else []) @
                 (if providerKey = TypeAlipay then unless_empty ''merchant_app_id'' (config ''appId'') else []) @
                 (if providerKey = TypeEasyPay then unless_empty ''merchant_id'' (config ''pid'') else []) @
                 (if providerKey = TypeStripe
                  then [(''currency'', SnapText (paymentProviderConfigCurrency L providerKey (sel_Config i)))] else []) @
                 (if providerKey = TypeAirwallex
                  then unless_empty ''merchant_id'' (config ''accountId'') @
                       [(''currency'', SnapText (paymentProviderConfigCurrency L providerKey (sel_Config i)))]
                  else [])
           in if length snapshot = 1 then None else Some snapshot))"

subsection \<open>Limits\<close>

definition psStartOfDayUTC :: "time \<Rightarrow> time" where "psStartOfDayUTC t = t div (24 * hour) * (24 * hour)"

definition psComputeValidityDays :: "int \<Rightarrow> string \<Rightarrow> int" where
  "psComputeValidityDays days unit =
     (if unit = ''week'' \<or> unit = ''weeks'' then days * 7
      else if unit = ''month'' \<or> unit = ''months'' then days * 30
      else days)"

definition pending_of :: "int \<Rightarrow> gateway_db \<Rightarrow> payment_order list" where
  "pending_of userID s = filter (\<lambda>r. order_user r = userID \<and> order_status r = OrderStatusPending) (orders s)"

definition checkPendingLimit :: "int \<Rightarrow> int \<Rightarrow> go_error option pay" where
  "checkPendingLimit userID m =
     (let limit = (if m \<le> 0 then defaultMaxPendingOrders else m)
      in checked (sql (\<lambda>s. (Inr (int (length (pending_of userID s))), s)))
           (\<lambda>e. Ret (Some (wrap ''count pending orders'' e)))
           (\<lambda>c. Ret (if c \<ge> limit
                     then Some (WithMetadata (TooManyRequests ''TOO_MANY_PENDING'' ''too_many_pending'') (Some [(''max'', itoa limit)]))
                     else None)))"

definition day_usage :: "payment_order list \<Rightarrow> usd" where
  "day_usage os = sum_list (map (\<lambda>r. if order_type r = OrderTypeBalance then pay_amount r else order_amount r) os)"

definition counts_for_day :: "int \<Rightarrow> time \<Rightarrow> payment_order \<Rightarrow> bool" where
  "counts_for_day userID ts r \<longleftrightarrow>
     order_user r = userID \<and> order_status r \<in> {OrderStatusPaid, OrderStatusRecharging, OrderStatusCompleted} \<and>
     (case paid_at r of None \<Rightarrow> False | Some t \<Rightarrow> t \<ge> ts)"

definition checkDailyLimit :: "int \<Rightarrow> usd \<Rightarrow> usd \<Rightarrow> go_error option pay" where
  "checkDailyLimit userID amount limit =
     (if limit \<le> 0 then Ret None
      else and_then time_now (\<lambda>now.
           checked (sql (\<lambda>s. (Inr (filter (counts_for_day userID (psStartOfDayUTC now)) (orders s)), s)))
             (\<lambda>e. Ret (Some (wrap ''query daily usage'' e)))
             (\<lambda>os. Ret (if day_usage os + amount > limit
                        then Some (TooManyRequests ''DAILY_LIMIT_EXCEEDED'' ''daily_limit_exceeded'') else None))))"

subsection \<open>The row\<close>

text \<open>The order number is random; the draws are part of the chance.\<close>

definition generateOutTradeNo :: "chance \<Rightarrow> string" where
  "generateOutTradeNo c = orderIDPrefix @ random_suffix c"

primrec allocate_attempts :: "nat \<Rightarrow> (go_error + string) pay" where
  "allocate_attempts 0 = Ret (Inl (plain_error ''generate unique out_trade_no: exhausted 5 attempts''))"
| "allocate_attempts (Suc n) =
     checked (stmt (\<lambda>c. under_weather (weather c)
         (\<lambda>s. (Inr (generateOutTradeNo c, generateOutTradeNo c \<in> out_trade_no ` set (orders s)), s))))
       (\<lambda>e. Ret (Inl (wrap ''check out_trade_no uniqueness'' e)))
       (\<lambda>(candidate, exists). if \<not> exists then Ret (Inr candidate) else allocate_attempts n)"

definition allocateOutTradeNo :: "(go_error + string) pay" where "allocateOutTradeNo = allocate_attempts 5"

definition UnixNano :: "time \<Rightarrow> int" where "UnixNano t = t - 62135596800 * second"

definition order_recharge_code :: "int \<Rightarrow> int \<Rightarrow> string" where
  "order_recharge_code oid n = ''PAY-'' @ itoa oid @ ''-'' @ itoa n"

definition new_order ::
  "pay_lib \<Rightarrow> CreateOrderRequest \<Rightarrow> SubscriptionPlan option \<Rightarrow> usd \<Rightarrow> usd \<Rightarrow> InstanceSelection option \<Rightarrow> string \<Rightarrow> time \<Rightarrow>
   gateway_db \<Rightarrow> payment_order" where
  "new_order L req plan orderAmount payAmount sel outTradeNo expires s =
     \<lparr>order_id = next_order_id s, order_user = req_UserID req, order_type = req_OrderType req, order_amount = orderAmount,
      pay_amount = payAmount, order_status = OrderStatusPending,
      recharge_code = order_recharge_code (next_order_id s) (go_mod (UnixNano (clock s)) 100000),
      out_trade_no = outTradeNo, payment_type = req_PaymentType req, payment_trade_no = '''',
      provider_key = (case sel of None \<Rightarrow> None
         | Some i \<Rightarrow> if trim_space (sel_ProviderKey i) \<noteq> '''' then Some (trim_space (sel_ProviderKey i)) else None),
      provider_snapshot = (case buildPaymentOrderProviderSnapshot L sel req of None \<Rightarrow> [] | Some m \<Rightarrow> m),
      subscription_group_id = map_option plan_GroupID plan,
      subscription_days = map_option (\<lambda>p. psComputeValidityDays (plan_ValidityDays p) (plan_ValidityUnit p)) plan,
      paid_at = None, completed_at = None, failed_at = None, failed_reason = None,
      order_created_at = pg_time (clock s), order_expires_at = pg_time expires, order_updated_at = pg_time (clock s)\<rparr>"

definition insert_order :: "(gateway_db \<Rightarrow> payment_order) \<Rightarrow> payment_order db_stmt" where
  "insert_order row s =
     (if out_trade_no (row s) \<noteq> '''' \<and> out_trade_no (row s) \<in> out_trade_no ` set (orders s)
      then (Inl (wrap ''create order'' ent_constraint), s)
      else (Inr (row s), s\<lparr>orders := orders s @ [row s], next_order_id := next_order_id s + 1\<rparr>))"

definition createOrderInTx ::
  "pay_lib \<Rightarrow> CreateOrderRequest \<Rightarrow> SubscriptionPlan option \<Rightarrow> PaymentConfig \<Rightarrow> usd \<Rightarrow> usd \<Rightarrow> usd \<Rightarrow> InstanceSelection option \<Rightarrow>
   (go_error + payment_order) pay" where
  "createOrderInTx L req plan cfg orderAmount limitAmount payAmount sel =
     and_then (checkPendingLimit (req_UserID req) (MaxPendingOrders cfg)) (\<lambda>r. case r of Some e \<Rightarrow> Ret (Inl e) | None \<Rightarrow>
     and_then (checkDailyLimit (req_UserID req) limitAmount (DailyLimit cfg)) (\<lambda>r. case r of Some e \<Rightarrow> Ret (Inl e) | None \<Rightarrow>
     let tm = (if OrderTimeoutMin cfg \<le> 0 then defaultOrderTimeoutMin else OrderTimeoutMin cfg) in
     and_then time_now (\<lambda>now.
     checked allocateOutTradeNo (\<lambda>e. Ret (Inl e)) (\<lambda>outTradeNo.
     sql (insert_order (new_order L req plan orderAmount payAmount sel outTradeNo (add_time now (tm * minute))))))))"

subsection \<open>The call of the provider\<close>

text \<open>
  Everything from the construction of the provider to its answer is one chance: an error, or the trade
  number it assigned.
\<close>

definition invokeProvider :: "payment_order \<Rightarrow> InstanceSelection \<Rightarrow> (go_error + unit) pay" where
  "invokeProvider order sel =
     checked (stmt (\<lambda>c s. (create_payment c, s))) (\<lambda>e. Ret (Inl e)) (\<lambda>tradeNo.
     checked (sql (\<lambda>s. update_one_order (order_id order)
         (\<lambda>r. (touched s r)\<lparr>payment_trade_no := (if tradeNo = '''' then payment_trade_no r else tradeNo),
            provider_key := (if sel_ProviderKey sel = '''' then provider_key r else Some (sel_ProviderKey sel))\<rparr>) s))
       (\<lambda>e. Ret (Inl (wrap ''update order with payment details'' e))) (\<lambda>_.
     ignoring (writeAuditLog (order_id order) ''ORDER_CREATED'') (Ret (Inr ()))))"

definition place_order ::
  "pay_lib \<Rightarrow> CreateOrderRequest \<Rightarrow> SubscriptionPlan option \<Rightarrow> PaymentConfig \<Rightarrow> usd \<Rightarrow> usd \<Rightarrow> usd \<Rightarrow> InstanceSelection \<Rightarrow>
   (go_error + payment_order) pay" where
  "place_order L req plan cfg orderAmount limitAmount payAmount sel =
     checked (createOrderInTx L req plan cfg orderAmount limitAmount payAmount (Some sel)) (\<lambda>e. Ret (Inl e)) (\<lambda>order.
     checked (invokeProvider order sel)
       (\<lambda>e. ignoring (sql (\<lambda>s. update_one_order (order_id order) (\<lambda>r. (touched s r)\<lparr>order_status := OrderStatusFailed\<rparr>) s))
              (Ret (Inl e)))
       (\<lambda>_. Ret (Inr order)))"

subsection \<open>Redeem codes of orders\<close>

lemma dash_not_digit: "\<not> is_digit (CHR ''-'')"
  by (simp add: is_digit_def)

lemma itoa_pos_digits: "0 < i \<Longrightarrow> list_all is_digit (itoa i)"
  by (simp add: itoa_def nat_digits_all_digits)

lemma digits_then_dash:
  assumes "list_all is_digit a" "list_all is_digit b" "a @ CHR ''-'' # x = b @ CHR ''-'' # y"
  shows "a = b"
  using assms
proof (induction a arbitrary: b)
  case Nil
  then show ?case using dash_not_digit by (cases b) auto
next
  case (Cons c a)
  then show ?case using dash_not_digit by (cases b) auto
qed

lemma order_recharge_code_id:
  assumes "0 < i" "0 < j" "order_recharge_code i m = order_recharge_code j n"
  shows "i = j"
  using digits_then_dash [OF itoa_pos_digits [OF assms(1)] itoa_pos_digits [OF assms(2)]] assms(3)
  by (simp add: order_recharge_code_def)

lemma plain_itoa: "list_all plain_char (itoa n)"
proof -
  have "list_all plain_char (nat_digits k)" for k
    using nat_digits_all_digits [of k] plain_char_digit by (auto simp: list_all_iff)
  then show ?thesis by (simp add: itoa_def plain_char_def)
qed

lemma trim_recharge_code [simp]: "trim_space (order_recharge_code i n) = order_recharge_code i n"
  by (rule trim_space_plain) (simp add: order_recharge_code_def plain_itoa, simp add: plain_char_def)

lemma recharge_code_prefix [simp]: "has_prefix (order_recharge_code i n) ''PAY-''"
  by (simp add: has_prefix_def order_recharge_code_def)

end
