(* ===== verification/PaymentProofs.thy ===== *)
theory PaymentProofs
  imports OrderCreation
begin

section \<open>Payments: the invariant of all interleavings\<close>

text \<open>
  Any number of notifications, retries, redemptions, cancellations and expiries run at once, every statement may
  fail or lose its answer, and processes may die at any point. The store keeps \<open>payment_inv\<close>, and what a
  program saw evolves only along \<open>payment_evolves\<close>: rows of orders keep what they were created with and
  their status drifts; a code that was used stays as it is.
\<close>

subsection \<open>The abstract machine of an order\<close>

inductive order_edge :: "string \<Rightarrow> string \<Rightarrow> bool" where
  oe_cancel: "order_edge OrderStatusPending OrderStatusCancelled"
| oe_expire: "order_edge OrderStatusPending OrderStatusExpired"
| oe_pay: "st \<in> {OrderStatusPending, OrderStatusCancelled, OrderStatusExpired} \<Longrightarrow> order_edge st OrderStatusPaid"
| oe_claim: "st \<in> {OrderStatusPaid, OrderStatusFailed, OrderStatusRecharging} \<Longrightarrow> order_edge st OrderStatusRecharging"
| oe_complete: "order_edge OrderStatusRecharging OrderStatusCompleted"
| oe_fail: "order_edge OrderStatusRecharging OrderStatusFailed"

text \<open>
  The process that creates an order gives it up when the provider does not answer, whatever has become of the order by
  then; with its last statement counted in, orders drift.
\<close>

definition order_drift :: "string \<Rightarrow> string \<Rightarrow> bool" where
  "order_drift st st' \<longleftrightarrow> order_edge st st' \<or> st' = OrderStatusFailed"

subsection \<open>How rows evolve\<close>

definition same_order :: "payment_order \<Rightarrow> payment_order \<Rightarrow> bool" where
  "same_order r r' \<longleftrightarrow> order_id r' = order_id r \<and> order_user r' = order_user r \<and> order_type r' = order_type r \<and>
     order_amount r' = order_amount r \<and> recharge_code r' = recharge_code r \<and> out_trade_no r' = out_trade_no r"

definition order_moves :: "payment_order \<Rightarrow> payment_order \<Rightarrow> bool" where
  "order_moves r r' \<longleftrightarrow> same_order r r' \<and> order_drift\<^sup>*\<^sup>* (order_status r) (order_status r')"

definition code_moves :: "RedeemCode \<Rightarrow> RedeemCode \<Rightarrow> bool" where
  "code_moves r r' \<longleftrightarrow> rc_id r' = rc_id r \<and> rc_code r' = rc_code r \<and> rc_type r' = rc_type r \<and>
     rc_value r' = rc_value r \<and> rc_expires_at r' = rc_expires_at r \<and> (IsUsed r \<longrightarrow> r' = r)"

definition payment_evolves :: "gateway_db \<Rightarrow> gateway_db \<Rightarrow> bool" where
  "payment_evolves s t \<longleftrightarrow>
     (\<forall>r\<in>set (orders s). \<exists>r'\<in>set (orders t). order_moves r r') \<and>
     (\<forall>r\<in>set (redeem_codes s). \<exists>r'\<in>set (redeem_codes t). code_moves r r')"

lemma same_order_refl [simp]: "same_order r r" by (simp add: same_order_def)
lemma order_moves_refl [simp]: "order_moves r r" by (simp add: order_moves_def)
lemma code_moves_refl [simp]: "code_moves r r" by (simp add: code_moves_def)

lemma order_moves_trans: "order_moves r r' \<Longrightarrow> order_moves r' r'' \<Longrightarrow> order_moves r r''"
  by (auto simp: order_moves_def same_order_def)

lemma code_moves_trans: "code_moves r r' \<Longrightarrow> code_moves r' r'' \<Longrightarrow> code_moves r r''"
  by (auto simp: code_moves_def)

lemma payment_evolves_refl [simp]: "payment_evolves s s"
  by (auto simp: payment_evolves_def intro: order_moves_refl code_moves_refl)

lemma payment_evolves_trans: "payment_evolves s t \<Longrightarrow> payment_evolves t u \<Longrightarrow> payment_evolves s u"
  unfolding payment_evolves_def by (meson order_moves_trans code_moves_trans)

subsection \<open>The invariant\<close>

text \<open>What a user was credited by the codes used up so far.\<close>

definition credits :: "int \<Rightarrow> RedeemCode \<Rightarrow> bool" where
  "credits u r \<longleftrightarrow> IsUsed r \<and> rc_used_by r = Some u \<and> rc_type r = RedeemTypeBalance \<and> rc_value r > 0"

definition credited :: "RedeemCode list \<Rightarrow> int \<Rightarrow> usd" where
  "credited rs u = sum_list (map rc_value (filter (credits u) rs))"

definition orders_ok :: "payment_order list \<Rightarrow> int \<Rightarrow> bool" where
  "orders_ok os next \<longleftrightarrow> 0 < next \<and> distinct (map order_id os) \<and>
     (\<forall>r\<in>set os. 0 < order_id r \<and> order_id r < next \<and> (\<exists>n. recharge_code r = order_recharge_code (order_id r) n))"

definition codes_ok :: "RedeemCode list \<Rightarrow> int \<Rightarrow> bool" where
  "codes_ok rs next \<longleftrightarrow> distinct (map rc_id rs) \<and> distinct (map rc_code rs) \<and> (\<forall>r\<in>set rs. rc_id r < next)"

text \<open>The code of an order is worth what the order is, and there are no codes for orders to come.\<close>

definition codes_match :: "payment_order list \<Rightarrow> RedeemCode list \<Rightarrow> bool" where
  "codes_match os rs \<longleftrightarrow>
     (\<forall>r\<in>set os. \<forall>c\<in>set rs. rc_code c = recharge_code r \<longrightarrow>
        rc_type c = RedeemTypeBalance \<and> rc_value c = order_amount r \<and> rc_expires_at c = None \<and>
        rc_status c \<in> {StatusUnused, StatusUsed}) \<and>
     (\<forall>c\<in>set rs. has_prefix (rc_code c) ''PAY-'' \<longrightarrow> (\<exists>r\<in>set os. recharge_code r = rc_code c))"

definition code_used :: "string \<Rightarrow> gateway_db \<Rightarrow> bool" where
  "code_used code s \<longleftrightarrow> (\<exists>c\<in>set (redeem_codes s). rc_code c = code \<and> IsUsed c)"

definition completed_paid :: "gateway_db \<Rightarrow> bool" where
  "completed_paid s \<longleftrightarrow>
     (\<forall>r\<in>set (orders s). order_status r = OrderStatusCompleted \<longrightarrow> order_type r \<noteq> OrderTypeSubscription \<longrightarrow>
        code_used (recharge_code r) s)"

definition rebates_ok :: "gateway_db \<Rightarrow> bool" where
  "rebates_ok s \<longleftrightarrow> distinct (filter (\<lambda>k. k \<noteq> None) (map fst (rebates s))) \<and>
     (\<forall>oid. Some oid \<in> fst ` set (rebates s) \<longrightarrow> (oid, ''AFFILIATE_REBATE_APPLIED'') \<in> set (audit_logs s))"

definition ledger_ok :: "(int \<Rightarrow> usd) \<Rightarrow> gateway_db \<Rightarrow> bool" where
  "ledger_ok initial s \<longleftrightarrow>
     (\<forall>u row. users s u = Some row \<longrightarrow> total_recharged row = initial u + credited (redeem_codes s) u)"

definition payment_inv :: "(int \<Rightarrow> usd) \<Rightarrow> gateway_db \<Rightarrow> bool" where
  "payment_inv initial s \<longleftrightarrow>
     orders_ok (orders s) (next_order_id s) \<and> codes_ok (redeem_codes s) (next_code_id s) \<and>
     codes_match (orders s) (redeem_codes s) \<and> completed_paid s \<and> rebates_ok s \<and> ledger_ok initial s"

lemma payment_invD:
  assumes "payment_inv initial s"
  shows "orders_ok (orders s) (next_order_id s)" "codes_ok (redeem_codes s) (next_code_id s)" "codes_match (orders s) (redeem_codes s)"
    "completed_paid s" "rebates_ok s" "ledger_ok initial s"
  using assms by (simp_all add: payment_inv_def)

lemmas payment_inv_parts = orders_ok_def codes_ok_def codes_match_def completed_paid_def rebates_ok_def ledger_ok_def
  code_used_def

text \<open>A statement that leaves these tables alone keeps the invariant.\<close>

lemma payment_inv_same:
  assumes "payment_inv initial s" "orders t = orders s" "next_order_id t = next_order_id s" "redeem_codes t = redeem_codes s" "next_code_id t = next_code_id s"
    "rebates t = rebates s" "set (audit_logs s) \<subseteq> set (audit_logs t)"
    "\<And>u row. users t u = Some row \<Longrightarrow> \<exists>row0. users s u = Some row0 \<and> total_recharged row = total_recharged row0"
  shows "payment_inv initial t \<and> payment_evolves s t"
proof -
  have "ledger_ok initial t"
    using payment_invD(6) [OF assms(1)] assms(4,8) by (fastforce simp: ledger_ok_def)
  moreover have "rebates_ok t"
    using payment_invD(5) [OF assms(1)] assms(6,7) by (auto simp: rebates_ok_def)
  moreover have "completed_paid t"
    using payment_invD(4) [OF assms(1)] assms(2,4) by (simp add: completed_paid_def code_used_def)
  moreover have "payment_evolves s t"
    using assms(2,4) by (auto simp: payment_evolves_def intro: order_moves_refl code_moves_refl)
  ultimately show ?thesis
    using payment_invD(1-3) [OF assms(1)] assms(2-5) by (simp add: payment_inv_def)
qed

interpretation pay: protocol "payment_inv initial" payment_evolves for initial
  by unfold_locales (auto intro: payment_evolves_trans)

subsection \<open>Statements\<close>

definition on_ok :: "('a \<Rightarrow> gateway_db \<Rightarrow> bool) \<Rightarrow> 'e + 'a \<Rightarrow> gateway_db \<Rightarrow> bool" where
  "on_ok P r t \<longleftrightarrow> (\<forall>a. r = Inr a \<longrightarrow> P a t)"

lemma on_ok_simps [simp]: "on_ok P (Inl e) t" "on_ok P (Inr a) t \<longleftrightarrow> P a t" "on_ok (\<lambda>_ _. True) r t"
  by (simp_all add: on_ok_def)

lemma on_ok_True [simp]: "on_ok (\<lambda>_ _. True) = (\<lambda>_ _. True)"
  by (simp add: fun_eq_iff)

lemma pay_weather:
  assumes "\<And>t a u. payment_inv initial t \<Longrightarrow> payment_evolves s t \<Longrightarrow> f c t = (Inr a, u) \<Longrightarrow>
             payment_inv initial u \<and> payment_evolves t u \<and> P a u"
    and "\<And>a u v. P a u \<Longrightarrow> payment_evolves u v \<Longrightarrow> P a v"
    and "payment_inv initial t" "payment_evolves s t" "under_weather w (f c) t = (r, u)"
  shows "payment_inv initial u \<and> payment_evolves t u \<and> (\<forall>v. payment_inv initial v \<longrightarrow> payment_evolves u v \<longrightarrow> on_ok P r v)"
proof (cases "f c t")
  case (Pair x u')
  show ?thesis
  proof (cases x)
    case (Inl e)
    then show ?thesis
      using assms(3,5) Pair by (auto simp: under_weather_def split: weather.splits)
  next
    case (Inr a)
    then have "payment_inv initial u'" "payment_evolves t u'" "P a u'"
      using assms(1) [OF assms(3,4)] Pair by auto
    then show ?thesis
      using assms(2,3,5) Pair Inr by (auto simp: under_weather_def split: weather.splits)
  qed
qed

lemma pay_stmt:
  assumes "\<And>c t a u. payment_inv initial t \<Longrightarrow> payment_evolves s t \<Longrightarrow> f c t = (Inr a, u) \<Longrightarrow>
             payment_inv initial u \<and> payment_evolves t u \<and> P a u"
    and "\<And>a u v. P a u \<Longrightarrow> payment_evolves u v \<Longrightarrow> P a v"
  shows "pay.safe_prog initial (stmt (\<lambda>c. under_weather (weather c) (f c))) (on_ok P) s"
  by (rule pay.safe_stmt) (rule pay_weather [OF assms], assumption+)

lemma pay_sql:
  assumes "\<And>t a u. payment_inv initial t \<Longrightarrow> payment_evolves s t \<Longrightarrow> f t = (Inr a, u) \<Longrightarrow>
             payment_inv initial u \<and> payment_evolves t u \<and> P a u"
    and "\<And>a u v. P a u \<Longrightarrow> payment_evolves u v \<Longrightarrow> P a v"
  shows "pay.safe_prog initial (sql f) (on_ok P) s"
  unfolding sql_def using assms by (rule pay_stmt)

lemma pay_sql_plain:
  assumes "\<And>t a u. payment_inv initial t \<Longrightarrow> f t = (Inr a, u) \<Longrightarrow> payment_inv initial u \<and> payment_evolves t u"
  shows "pay.safe_prog initial (sql f) (\<lambda>_ _. True) s"
  using pay_sql [where P = "\<lambda>_ _. True" and f = f and s = s] assms by simp

lemma pay_read:
  assumes "\<And>t. snd (f t) = t"
  shows "pay.safe_prog initial (sql f) (\<lambda>_ _. True) s"
proof (rule pay_sql_plain)
  fix t a u assume "payment_inv initial t" "f t = (Inr a, u)"
  then show "payment_inv initial u \<and> payment_evolves t u"
    using assms [of t] by simp
qed

lemma pay_time: "pay.safe_prog initial time_now (\<lambda>_ _. True) s"
  unfolding time_now_def by (rule pay.safe_stmt) auto

subsection \<open>What the statements do to the invariant\<close>

definition quiet :: "gateway_db \<Rightarrow> gateway_db \<Rightarrow> bool" where
  "quiet s t \<longleftrightarrow> orders t = orders s \<and> next_order_id t = next_order_id s \<and> redeem_codes t = redeem_codes s \<and> next_code_id t = next_code_id s \<and>
     rebates t = rebates s \<and> users t = users s \<and> set (audit_logs s) \<subseteq> set (audit_logs t)"

definition quiet_stmt :: "'a db_stmt \<Rightarrow> bool" where
  "quiet_stmt f \<longleftrightarrow> (\<forall>s. quiet s (snd (f s)))"

lemma quiet_trans: "quiet s t \<Longrightarrow> quiet t u \<Longrightarrow> quiet s u"
  by (auto simp: quiet_def)

lemma quiet_inv: "payment_inv initial s \<Longrightarrow> quiet s t \<Longrightarrow> payment_inv initial t \<and> payment_evolves s t"
  unfolding quiet_def by (rule payment_inv_same) auto

lemma quiet_safe:
  assumes "quiet_stmt f"
  shows "pay.safe_prog initial (sql f) (\<lambda>_ _. True) s"
proof (rule pay_sql_plain)
  fix t a u assume "payment_inv initial t" "f t = (Inr a, u)"
  then show "payment_inv initial u \<and> payment_evolves t u"
    using assms quiet_inv unfolding quiet_stmt_def by (metis snd_conv)
qed

lemma quiet_also:
  assumes "quiet_stmt f" "\<And>a. quiet_stmt (g a)"
  shows "quiet_stmt (also_stmt f g)"
  unfolding quiet_stmt_def
proof
  fix s
  obtain r t where f: "f s = (r, t)" by (cases "f s")
  then have "quiet s t" using assms(1) unfolding quiet_stmt_def by (metis snd_conv)
  moreover have "quiet t (snd (g a t))" for a using assms(2) by (simp add: quiet_stmt_def)
  ultimately show "quiet s (snd (also_stmt f g s))"
    by (auto simp: also_stmt_def f intro: quiet_trans split: sum.splits)
qed

lemma quiet_wrapping: "quiet_stmt f \<Longrightarrow> quiet_stmt (wrapping msg f)"
  by (simp add: quiet_stmt_def wrapping_def)

lemma quiet_refl [simp]: "quiet s s" by (simp add: quiet_def)

lemma quiet_same [simp]: "quiet_stmt (\<lambda>s. (r s, s))"
  by (simp add: quiet_stmt_def)

lemma quiet_if: "quiet_stmt f \<Longrightarrow> quiet_stmt g \<Longrightarrow> quiet_stmt (if b then f else g)"
  by simp

lemma quiet_update_sub: "quiet_stmt (update_sub i f)"
  by (simp add: quiet_stmt_def update_sub_def quiet_def)

lemma quiet_audit: "quiet_stmt (insert_audit i action)"
  by (auto simp: quiet_stmt_def insert_audit_def quiet_def)

lemma quiet_find_sub: "quiet_stmt (find_sub p)"
  by (simp add: quiet_stmt_def find_sub_def quiet_def split: option.splits)

lemma quiet_find_group: "quiet_stmt (find_group i)"
  by (simp add: quiet_stmt_def find_group_def quiet_def split: option.splits)

lemma quiet_create: "quiet_stmt (createSubscription C u g d b notes)"
  by (simp add: quiet_stmt_def createSubscription_def insert_sub_def quiet_def Let_def)

lemma quiet_at: "quiet_stmt f \<Longrightarrow> quiet s (snd (f s))"
  by (simp add: quiet_stmt_def)

lemmas quiet_rules = quiet_also quiet_wrapping quiet_if quiet_update_sub quiet_audit quiet_find_sub quiet_find_group
  quiet_create quiet_same

lemma quiet_stmtI: "(\<And>s. quiet s (snd (f s))) \<Longrightarrow> quiet_stmt f"
  by (simp add: quiet_stmt_def)

lemma quiet_choice: "quiet s (snd x) \<Longrightarrow> quiet s (snd y) \<Longrightarrow> quiet s (snd (if b then x else y))"
  by simp

lemma quiet_at_wrapping: "quiet_stmt f \<Longrightarrow> quiet s (snd (wrapping msg f s))"
  using quiet_at quiet_wrapping by blast

lemma quiet_at_also: "quiet_stmt f \<Longrightarrow> (\<And>a. quiet_stmt (g a)) \<Longrightarrow> quiet s (snd (also_stmt f g s))"
  using quiet_at quiet_also by blast

lemma quiet_term: "quiet_stmt (updateExistingSubscriptionTerm C i d notes b)"
  unfolding updateExistingSubscriptionTerm_def Let_def ExtendExpiry_def UpdateStatus_def UpdateNotes_def store_sub_def
  by (rule quiet_also, rule quiet_wrapping, rule quiet_find_sub, rule quiet_stmtI)
    (intro quiet_choice quiet_at_wrapping quiet_at_also quiet_rules, simp)

lemma quiet_assign: "quiet_stmt (assignOrExtendSubscription C u g d b notes)"
  unfolding assignOrExtendSubscription_def
  by (rule quiet_also, rule quiet_wrapping, rule quiet_find_group, rule quiet_stmtI)
    (auto split: option.splits intro: quiet_at [OF quiet_create] quiet_at [OF quiet_term])

lemma quiet_assign_tx: "quiet_stmt (assign_tx C o1 g d)"
  unfolding assign_tx_def Let_def
  by (rule quiet_also, rule quiet_stmtI)
    (auto split: option.splits intro: quiet_audit quiet_at [OF quiet_wrapping [OF quiet_assign]])

lemma quiet_reduce: "quiet_stmt (reduceOrCancelSubscription C u g d notes)"
proof (rule quiet_stmtI)
  fix s
  show "quiet s (snd (reduceOrCancelSubscription C u g d notes s))"
  proof (cases "List.find (of_user_and_group u g) (subs s)")
    case None
    then show ?thesis by (simp add: reduceOrCancelSubscription_def)
  next
    case (Some sub)
    show ?thesis
      unfolding reduceOrCancelSubscription_def Some option.case Let_def ExtendExpiry_def UpdateStatus_def UpdateNotes_def
      by (intro quiet_at_also quiet_rules)
  qed
qed

lemma update_order_inv:
  assumes inv: "payment_inv initial s" and upd: "update_order i cond f s = (x, u)"
    and f: "\<And>r. r \<in> set (orders s) \<Longrightarrow> order_id r = i \<Longrightarrow> cond r \<Longrightarrow> order_moves r (f r)"
    and finished: "\<And>r. r \<in> set (orders s) \<Longrightarrow> order_id r = i \<Longrightarrow> cond r \<Longrightarrow> order_status (f r) = OrderStatusCompleted \<Longrightarrow>
      order_type r \<noteq> OrderTypeSubscription \<Longrightarrow> code_used (recharge_code r) s"
  shows "payment_inv initial u \<and> payment_evolves s u"
proof -
  define g where "g r = (if order_id r = i \<and> cond r then f r else r)" for r
  have u: "u = s\<lparr>orders := map g (orders s)\<rparr>"
    using upd by (auto simp: update_order_def Let_def g_def)
  have g: "order_moves r (g r)" if "r \<in> set (orders s)" for r
    using f that by (simp add: g_def)
  then have same: "same_order r (g r)" if "r \<in> set (orders s)" for r
    using that by (simp add: order_moves_def)
  have kept: "order_id (g r) = order_id r" "recharge_code (g r) = recharge_code r" "order_amount (g r) = order_amount r"
    if "r \<in> set (orders s)" for r
    using same [OF that] by (simp_all add: same_order_def)
  have "map order_id (map g (orders s)) = map order_id (orders s)"
    using kept(1) by simp
  then have "orders_ok (map g (orders s)) (next_order_id s)"
    using payment_invD(1) [OF inv] unfolding orders_ok_def by (simp only: set_map ball_simps) (simp add: kept)
  moreover have "codes_match (map g (orders s)) (redeem_codes s)"
    using payment_invD(3) [OF inv] by (simp add: codes_match_def kept)
  moreover have "completed_paid u"
    unfolding completed_paid_def u
  proof (intro ballI impI)
    fix r' assume r': "r' \<in> set (orders (s\<lparr>orders := map g (orders s)\<rparr>))" "order_status r' = OrderStatusCompleted"
      "order_type r' \<noteq> OrderTypeSubscription"
    then obtain r where r: "r \<in> set (orders s)" "r' = g r" by auto
    have "order_type r \<noteq> OrderTypeSubscription" "recharge_code r' = recharge_code r"
      using same [OF r(1)] r' r(2) by (auto simp: same_order_def)
    moreover from this(1) have "code_used (recharge_code r) s"
      using finished [OF r(1)] payment_invD(4) [OF inv] r r'(2) by (auto simp: g_def completed_paid_def split: if_splits)
    ultimately show "code_used (recharge_code r') (s\<lparr>orders := map g (orders s)\<rparr>)"
      by (simp add: code_used_def)
  qed
  moreover have "payment_evolves s u"
    using g by (auto simp: payment_evolves_def u intro: code_moves_refl)
  ultimately show ?thesis
    using payment_invD [OF inv] by (simp add: payment_inv_def u rebates_ok_def ledger_ok_def)
qed

lemma insert_code_inv:
  assumes inv: "payment_inv initial s" and ins: "insert_code c s = (Inr x, u)"
    and fresh: "\<not> IsUsed c" "\<And>r. r \<in> set (orders s) \<Longrightarrow> recharge_code r = rc_code c \<Longrightarrow>
      rc_type c = RedeemTypeBalance \<and> rc_value c = order_amount r \<and> rc_expires_at c = None \<and>
      rc_status c \<in> {StatusUnused, StatusUsed}"
      "has_prefix (rc_code c) ''PAY-'' \<Longrightarrow> \<exists>r\<in>set (orders s). recharge_code r = rc_code c"
  shows "payment_inv initial u \<and> payment_evolves s u"
proof -
  have new: "rc_code c \<notin> rc_code ` set (redeem_codes s)"
    and u: "u = s\<lparr>redeem_codes := redeem_codes s @ [c\<lparr>rc_id := next_code_id s\<rparr>], next_code_id := next_code_id s + 1\<rparr>"
    using ins by (auto simp: insert_code_def split: if_splits)
  have "codes_ok (redeem_codes u) (next_code_id u)"
    using payment_invD(2) [OF inv] new by (fastforce simp: codes_ok_def u)
  moreover have "codes_match (orders u) (redeem_codes u)"
    using payment_invD(3) [OF inv] fresh(2,3) unfolding codes_match_def u by simp
  moreover have "completed_paid u"
    using payment_invD(4) [OF inv] by (auto simp: completed_paid_def code_used_def u)
  moreover have "credited (redeem_codes u) w = credited (redeem_codes s) w" for w
    using fresh(1) by (simp add: credited_def u credits_def IsUsed_def)
  then have "ledger_ok initial u"
    using payment_invD(6) [OF inv] by (simp add: ledger_ok_def u)
  moreover have "payment_evolves s u"
    by (auto simp: payment_evolves_def u intro: order_moves_refl code_moves_refl)
  ultimately show ?thesis
    using payment_invD [OF inv] by (simp add: payment_inv_def u rebates_ok_def)
qed

text \<open>A code that was unused becomes used: its worth is added to what its user was credited.\<close>

definition used_row :: "gateway_db \<Rightarrow> int \<Rightarrow> RedeemCode \<Rightarrow> RedeemCode" where
  "used_row s userID r = r\<lparr>rc_status := StatusUsed, rc_used_by := Some userID, rc_used_at := Some (pg_time (clock s))\<rparr>"

lemma used_row_fields [simp]: "rc_id (used_row s w r) = rc_id r" "rc_code (used_row s w r) = rc_code r"
  "rc_type (used_row s w r) = rc_type r" "rc_value (used_row s w r) = rc_value r" "IsUsed (used_row s w r)"
  "rc_expires_at (used_row s w r) = rc_expires_at r" "rc_used_by (used_row s w r) = Some w"
  "rc_status (used_row s w r) = StatusUsed"
  by (simp_all add: used_row_def IsUsed_def)

lemma credited_use:
  assumes "distinct (map rc_id rs)" "c \<in> set rs" "rc_status c = StatusUnused"
  shows "credited (map (\<lambda>r. if rc_id r = rc_id c \<and> rc_status r = StatusUnused then used_row s w r else r) rs) v =
    credited rs v + (if v = w \<and> rc_type c = RedeemTypeBalance \<and> rc_value c > 0 then rc_value c else 0)"
  using assms
proof (induction rs)
  case Nil
  then show ?case by simp
next
  case (Cons r rs)
  show ?case
  proof (cases "r = c")
    case True
    then have "\<forall>x\<in>set rs. rc_id x \<noteq> rc_id c" using Cons.prems(1) by (simp, metis image_eqI)
    then have "map (\<lambda>r. if rc_id r = rc_id c \<and> rc_status r = StatusUnused then used_row s w r else r) rs = rs"
      by (auto intro: map_idI)
    then show ?thesis
      using True Cons.prems(3) by (auto simp: credited_def credits_def IsUsed_def redeem_const_defs)
  next
    case False
    then have "rc_id r \<noteq> rc_id c" "c \<in> set rs" using Cons.prems by force+
    then show ?thesis
      using Cons.IH Cons.prems by (cases "credits v r") (simp_all add: credited_def split: if_splits)
  qed
qed
subsection \<open>What a program knows of a row it read\<close>

definition known_order :: "payment_order \<Rightarrow> gateway_db \<Rightarrow> bool" where
  "known_order o1 s \<longleftrightarrow> (\<exists>r\<in>set (orders s). order_moves o1 r)"

definition known_code :: "RedeemCode \<Rightarrow> gateway_db \<Rightarrow> bool" where
  "known_code c s \<longleftrightarrow> (\<exists>r\<in>set (redeem_codes s). code_moves c r)"

lemma known_order_now: "r \<in> set (orders s) \<Longrightarrow> known_order r s"
  unfolding known_order_def using order_moves_refl by blast

lemma known_code_now: "r \<in> set (redeem_codes s) \<Longrightarrow> known_code r s"
  unfolding known_code_def using code_moves_refl by blast

lemma known_order_evolves: "known_order o1 s \<Longrightarrow> payment_evolves s t \<Longrightarrow> known_order o1 t"
  unfolding known_order_def payment_evolves_def using order_moves_trans by meson

lemma known_code_evolves: "known_code c s \<Longrightarrow> payment_evolves s t \<Longrightarrow> known_code c t"
  unfolding known_code_def payment_evolves_def using code_moves_trans by meson

lemma code_used_evolves: "code_used code s \<Longrightarrow> payment_evolves s t \<Longrightarrow> code_used code t"
  unfolding code_used_def payment_evolves_def code_moves_def by metis

lemmas still_known = known_order_evolves known_code_evolves code_used_evolves

lemma known_used: "known_code c s \<Longrightarrow> IsUsed c \<Longrightarrow> code_used (rc_code c) s"
  by (auto simp: known_code_def code_used_def code_moves_def)

lemma distinct_map_same: "distinct (map f xs) \<Longrightarrow> x \<in> set xs \<Longrightarrow> y \<in> set xs \<Longrightarrow> f x = f y \<Longrightarrow> x = y"
  by (auto simp: distinct_map dest: inj_onD)

lemma known_order_row:
  assumes "known_order o1 s" "orders_ok (orders s) (next_order_id s)" "r \<in> set (orders s)" "order_id r = order_id o1"
  shows "order_moves o1 r"
proof -
  obtain r' where r': "r' \<in> set (orders s)" "order_moves o1 r'" using assms(1) by (auto simp: known_order_def)
  then have "order_id r' = order_id r" using assms(4) by (simp add: order_moves_def same_order_def)
  moreover have "distinct (map order_id (orders s))" using assms(2) by (simp add: orders_ok_def)
  ultimately have "r' = r" using distinct_map_same r'(1) assms(3) by metis
  then show ?thesis using r'(2) by simp
qed

lemma known_code_row:
  assumes "known_code c s" "codes_ok (redeem_codes s) n" "r \<in> set (redeem_codes s)" "rc_id r = rc_id c"
  shows "code_moves c r"
proof -
  obtain r' where r': "r' \<in> set (redeem_codes s)" "code_moves c r'" using assms(1) by (auto simp: known_code_def)
  then have "rc_id r' = rc_id r" using assms(4) by (simp add: code_moves_def)
  moreover have "distinct (map rc_id (redeem_codes s))" using assms(2) by (simp add: codes_ok_def)
  ultimately have "r' = r" using distinct_map_same r'(1) assms(3) by metis
  then show ?thesis using r'(2) by simp
qed

subsection \<open>The transaction of a redemption\<close>

definition worth :: "int \<Rightarrow> RedeemCode \<Rightarrow> int \<Rightarrow> usd" where
  "worth w r v = (if v = w \<and> rc_type r = RedeemTypeBalance \<and> rc_value r > 0 then rc_value r else 0)"

definition benefits :: "int \<Rightarrow> RedeemCode \<Rightarrow> gateway_db \<Rightarrow> gateway_db \<Rightarrow> bool" where
  "benefits w r t u \<longleftrightarrow> orders u = orders t \<and> next_order_id u = next_order_id t \<and> redeem_codes u = redeem_codes t \<and> next_code_id u = next_code_id t \<and>
     rebates u = rebates t \<and> set (audit_logs t) \<subseteq> set (audit_logs u) \<and>
     (\<forall>v row. users u v = Some row \<longrightarrow>
        (\<exists>row0. users t v = Some row0 \<and> total_recharged row = total_recharged row0 + worth w r v))"

lemma benefits_quiet: "quiet t u \<Longrightarrow> rc_type r \<noteq> RedeemTypeBalance \<Longrightarrow> benefits w r t u"
  by (simp add: quiet_def benefits_def worth_def)

lemma benefits_user:
  assumes "update_user w f t = (Inr x, u)" "\<And>row. total_recharged (f row) = total_recharged row + worth w r w"
  shows "benefits w r t u"
  using assms by (auto simp: update_user_def benefits_def worth_def split: option.splits if_splits)

lemma wrapping_ok [simp]: "wrapping msg f s = (Inr x, t) \<longleftrightarrow> f s = (Inr x, t)"
  by (cases "f s"; cases "fst (f s)") (auto simp: wrapping_def)

lemma redeem_benefits:
  assumes "redeem_benefit C w r notes t = (Inr x, u)"
  shows "benefits w r t u"
proof -
  consider "rc_type r = RedeemTypeBalance" | "rc_type r = RedeemTypeConcurrency" | "rc_type r = RedeemTypeSubscription"
    using assms by (auto simp: redeem_benefit_def split: if_splits)
  then show ?thesis
  proof cases
    case 1
    then show ?thesis
      using assms unfolding redeem_benefit_def UpdateBalance_def ApplyRedeemBalanceAdjustment_def
      by (auto simp: worth_def split: if_splits elim!: benefits_user)
  next
    case 2
    then show ?thesis
      using assms unfolding redeem_benefit_def UpdateConcurrency_def ApplyRedeemConcurrencyAdjustment_def Let_def
      by (auto simp: worth_def redeem_const_defs split: if_splits elim!: benefits_user)
  next
    case 3
    then have "quiet t u"
      using assms quiet_at [OF quiet_reduce] quiet_at [OF quiet_assign] unfolding redeem_benefit_def
      by (auto simp: redeem_const_defs split: if_splits; metis snd_conv)
    then show ?thesis using 3 by (auto intro: benefits_quiet simp: redeem_const_defs)
  qed
qed

lemma use_code_ok:
  assumes "use_code i w s = (Inr x, t)"
  obtains r where "r \<in> set (redeem_codes s)" "rc_id r = i" "rc_status r = StatusUnused"
    "t = s\<lparr>redeem_codes := map (\<lambda>r. if rc_id r = i \<and> rc_status r = StatusUnused then used_row s w r else r) (redeem_codes s)\<rparr>"
  using assms by (auto simp: use_code_def used_row_def split: if_splits)
lemma used_row_moves: "rc_status r = StatusUnused \<Longrightarrow> code_moves r (used_row s w r)"
  by (simp add: code_moves_def IsUsed_def redeem_const_defs)

lemma redeem_tx_inv:
  assumes inv: "payment_inv initial s" and tx: "redeem_tx C w c notes s = (Inr x, u)" and known: "known_code c s"
  shows "payment_inv initial u \<and> payment_evolves s u \<and> code_used (rc_code c) u"
proof -
  obtain y t where use: "use_code (rc_id c) w s = (Inr y, t)" and ben: "redeem_benefit C w c notes t = (Inr x, u)"
    using tx by (auto simp: redeem_tx_def also_stmt_def split: prod.splits sum.splits)
  obtain r where r: "r \<in> set (redeem_codes s)" "rc_id r = rc_id c" "rc_status r = StatusUnused"
    and t: "t = s\<lparr>redeem_codes := map (\<lambda>x. if rc_id x = rc_id c \<and> rc_status x = StatusUnused then used_row s w x else x)
       (redeem_codes s)\<rparr>"
    using use by (rule use_code_ok)
  define g where "g x = (if rc_id x = rc_id c \<and> rc_status x = StatusUnused then used_row s w x else x)" for x
  have t: "t = s\<lparr>redeem_codes := map g (redeem_codes s)\<rparr>" using t by (simp add: g_def)
  have same: "rc_code r = rc_code c" "rc_type r = rc_type c" "rc_value r = rc_value c"
    using known_code_row [OF known payment_invD(2) [OF inv] r(1,2)] by (simp_all add: code_moves_def)
  have g: "code_moves x (g x)" "rc_id (g x) = rc_id x" "rc_code (g x) = rc_code x" "rc_type (g x) = rc_type x"
    "rc_value (g x) = rc_value x" "rc_expires_at (g x) = rc_expires_at x" "IsUsed x \<Longrightarrow> IsUsed (g x)"
    "rc_status (g x) = rc_status x \<or> rc_status (g x) = StatusUsed" for x
    by (simp_all add: g_def used_row_moves)
  have u: "orders u = orders s" "redeem_codes u = map g (redeem_codes s)" "next_code_id u = next_code_id s"
    "rebates u = rebates s" "set (audit_logs s) \<subseteq> set (audit_logs u)" "next_order_id u = next_order_id s"
    using redeem_benefits [OF ben] by (simp_all add: benefits_def t)
  have "credited (redeem_codes u) v = credited (redeem_codes s) v + worth w c v" for v
    using credited_use [of "redeem_codes s" r s w v] payment_invD(2) [OF inv] r same
    by (simp add: u(2) g_def [abs_def] codes_ok_def worth_def)
  then have "ledger_ok initial u"
    using redeem_benefits [OF ben] payment_invD(6) [OF inv] unfolding ledger_ok_def benefits_def t by fastforce
  moreover have "codes_ok (redeem_codes u) (next_code_id u)"
    using payment_invD(2) [OF inv] by (simp add: codes_ok_def u g comp_def)
  moreover have "codes_match (orders u) (redeem_codes u)"
    unfolding codes_match_def u(1,2)
  proof (intro conjI ballI impI)
    fix d assume "d \<in> set (map g (redeem_codes s))" "has_prefix (rc_code d) ''PAY-''"
    then show "\<exists>r\<in>set (orders s). recharge_code r = rc_code d"
      using payment_invD(3) [OF inv] by (auto simp: codes_match_def g)
  next
    fix o1 d assume o1: "o1 \<in> set (orders s)" and d: "d \<in> set (map g (redeem_codes s))" "rc_code d = recharge_code o1"
    then obtain x where x: "x \<in> set (redeem_codes s)" "d = g x" by auto
    then have "rc_type x = RedeemTypeBalance \<and> rc_value x = order_amount o1 \<and> rc_expires_at x = None \<and>
        rc_status x \<in> {StatusUnused, StatusUsed}"
      using payment_invD(3) [OF inv] o1 d(2) by (simp add: codes_match_def g)
    then show "rc_type d = RedeemTypeBalance" "rc_value d = order_amount o1" "rc_expires_at d = None"
        "rc_status d \<in> {StatusUnused, StatusUsed}"
      using g(8) [of x] by (auto simp: x(2) g(2-6))
  qed
  moreover have "completed_paid u"
    using payment_invD(4) [OF inv] g(3,7) unfolding completed_paid_def code_used_def u by (metis image_eqI set_map)
  moreover have "rebates_ok u"
    using payment_invD(5) [OF inv] u(4,5) by (auto simp: rebates_ok_def)
  moreover have "payment_evolves s u"
    using g(1) by (auto simp: payment_evolves_def u intro: order_moves_refl)
  moreover have "IsUsed (g r)" by (simp add: g_def r)
  then have "code_used (rc_code c) u"
    using r(1) same(1) by (auto simp: code_used_def u(2) g)
  ultimately show ?thesis
    using payment_invD(1) [OF inv] by (simp add: payment_inv_def u(1,6))
qed

lemma rebate_tx_inv:
  assumes inv: "payment_inv initial s" and tx: "rebate_tx oid rule s = (Inr x, u)"
  shows "payment_inv initial u \<and> payment_evolves s u"
proof (cases "u = s")
  case True
  then show ?thesis using inv by simp
next
  case False
  then obtain a where new: "(oid, ''AFFILIATE_REBATE_APPLIED'') \<notin> set (audit_logs s)" and rule: "rule = Inr a"
    using tx by (auto simp: rebate_tx_def split: if_splits sum.splits)
  have "rebates_ok u"
  proof (cases "a \<le> 0")
    case True
    then show ?thesis
      using tx new payment_invD(5) [OF inv] by (fastforce simp: rebate_tx_def rule rebates_ok_def split: if_splits)
  next
    case pos: False
    then have u: "u = s\<lparr>audit_logs := audit_logs s @ [(oid, ''AFFILIATE_REBATE_APPLIED'')], rebates := rebates s @ [(Some oid, a)]\<rparr>"
      using tx False by (auto simp: rebate_tx_def rule split: if_splits)
    have "Some oid \<notin> fst ` set (rebates s)"
      using new payment_invD(5) [OF inv] by (auto simp: rebates_ok_def)
    then show ?thesis
      using payment_invD(5) [OF inv] by (auto simp: rebates_ok_def u)
  qed
  moreover have "orders u = orders s" "next_order_id u = next_order_id s" "redeem_codes u = redeem_codes s"
    "next_code_id u = next_code_id s" "users u = users s"
    using tx by (auto simp: rebate_tx_def rule split: if_splits)
  ultimately show ?thesis
    using payment_invD [OF inv]
    by (auto simp: payment_inv_def payment_evolves_def completed_paid_def code_used_def ledger_ok_def
        intro: order_moves_refl code_moves_refl)
qed

subsection \<open>Programs keep to the invariant\<close>

lemmas fine_Ret = pay.keep_Ret
lemmas fine_then = pay.keep_then
lemmas fine_checked = pay.keep_checked
lemmas fine_ignoring = pay.keep_ignoring
lemmas fine_sum = pay.keep_sum
lemmas fine_if = pay.keep_if
lemmas fine_option = pay.keep_option
lemmas fine_rules = pay.keep_rules pay_time

lemma quiet_fields [simp]:
  "quiet s (s\<lparr>redeem_attempts := A\<rparr>)" "quiet s (s\<lparr>redeem_locks := L\<rparr>)"
  by (simp_all add: quiet_def)

lemma fine_quiet: "quiet_stmt f \<Longrightarrow> pay.safe_prog initial (sql f) (\<lambda>_ _. True) s"
  by (rule quiet_safe)

lemma fine_same: "pay.safe_prog initial (sql (\<lambda>s. (r s, s))) (\<lambda>_ _. True) s"
  by (rule fine_quiet) simp

lemma fine_audit: "pay.safe_prog initial (writeAuditLog i action) (\<lambda>_ _. True) s"
  unfolding writeAuditLog_def by (rule fine_quiet [OF quiet_audit])

lemma fine_logged: "pay.safe_prog initial (hasAuditLog i action) (\<lambda>_ _. True) s"
  unfolding hasAuditLog_def by (intro fine_rules fine_same)

lemma known_order_found: "find_order p s = (Inr r, t) \<Longrightarrow> t = s \<and> known_order r s \<and> p r"
  by (auto simp: find_order_def find_Some_iff intro!: known_order_now split: option.splits)

lemma known_code_found: "find_code p s = (Inr r, t) \<Longrightarrow> t = s \<and> known_code r s \<and> p r"
  by (auto simp: find_code_def find_Some_iff intro!: known_code_now split: option.splits)

lemma read_order: "pay.safe_prog initial (sql (find_order p)) (on_ok (\<lambda>r t. known_order r t \<and> p r)) s"
  by (rule pay_sql) (auto dest!: known_order_found intro: still_known)

lemma read_code: "pay.safe_prog initial (sql (find_code p)) (on_ok (\<lambda>r t. known_code r t \<and> p r)) s"
  by (rule pay_sql) (auto dest!: known_code_found intro: still_known)

lemma fine_order:
  assumes "\<And>e t. payment_evolves s t \<Longrightarrow> pay.safe_prog initial (failed e) (\<lambda>_ _. True) t"
    "\<And>r t. payment_evolves s t \<Longrightarrow> known_order r t \<Longrightarrow> p r \<Longrightarrow> pay.safe_prog initial (k r) (\<lambda>_ _. True) t"
  shows "pay.safe_prog initial (checked (sql (find_order p)) failed k) (\<lambda>_ _. True) s"
  by (rule pay.safe_checked [OF read_order]) (auto intro: assms)

lemma fine_read_order: "pay.safe_prog initial (sql (find_order p)) (\<lambda>_ _. True) s"
  by (rule pay.safe_weaken [OF read_order]) simp
subsubsection \<open>Redeeming\<close>

lemma fine_attempts: "pay.safe_prog initial (incrementRedeemErrorCount w) (\<lambda>_ _. True) s"
  unfolding incrementRedeemErrorCount_def by (rule fine_quiet) (simp add: quiet_stmt_def)

lemma fine_limit: "pay.safe_prog initial (checkRedeemRateLimit w) (\<lambda>_ _. True) s"
  unfolding checkRedeemRateLimit_def by (intro fine_rules fine_same)

lemma fine_lock: "pay.safe_prog initial (acquireRedeemLock code) (\<lambda>_ _. True) s"
  unfolding acquireRedeemLock_def
  by (intro fine_rules, rule fine_quiet) (simp add: quiet_stmt_def)

lemma fine_unlock: "pay.safe_prog initial (releaseRedeemLock code) (\<lambda>_ _. True) s"
  unfolding releaseRedeemLock_def by (rule fine_quiet) (simp add: quiet_stmt_def)

lemma fine_user: "pay.safe_prog initial (sql (find_user w)) (\<lambda>_ _. True) s"
  by (rule fine_quiet) (simp add: quiet_stmt_def find_user_def split: option.splits)

lemma fine_redeem_rebate: "pay.safe_prog initial (tryAccrueAffiliateRebateForRedeem skip) (\<lambda>_ _. True) s"
proof -
  define f :: "chance \<Rightarrow> unit db_stmt" where "f c = (\<lambda>s. case rebate_rule c of
      Inl e \<Rightarrow> (Inl e, s) | Inr x \<Rightarrow> if x > 0 then (Inr (), s\<lparr>rebates := rebates s @ [(None, x)]\<rparr>) else (Inr (), s))" for c
  have "payment_inv initial u \<and> payment_evolves t u \<and> True"
    if inv: "payment_inv initial t" and f: "f c t = (Inr a, u)" for c t a u
  proof (cases "u = t")
    case True
    then show ?thesis using inv by simp
  next
    case False
    then obtain x where "u = t\<lparr>rebates := rebates t @ [(None, x)]\<rparr>"
      using f by (auto simp: f_def split: sum.splits if_splits)
    then show ?thesis
      using payment_invD [OF inv]
      by (auto simp: payment_inv_def payment_evolves_def completed_paid_def code_used_def ledger_ok_def rebates_ok_def
          intro: order_moves_refl code_moves_refl)
  qed
  then have "pay.safe_prog initial (stmt (\<lambda>c. under_weather (weather c) (f c))) (on_ok (\<lambda>_ _. True)) s"
    by (intro pay_stmt) auto
  then show ?thesis
    unfolding tryAccrueAffiliateRebateForRedeem_def f_def by simp
qed

lemma redeem_tx_safe:
  assumes "known_code c s"
  shows "pay.safe_prog initial (sql (redeem_tx C w c notes)) (on_ok (\<lambda>_ t. code_used (rc_code c) t)) s"
proof (rule pay_sql)
  fix t a u assume t: "payment_inv initial t" "payment_evolves s t" "redeem_tx C w c notes t = (Inr a, u)"
  then show "payment_inv initial u \<and> payment_evolves t u \<and> code_used (rc_code c) u"
    using redeem_tx_inv [OF t(1,3)] assms known_code_evolves by blast
qed (rule code_used_evolves)

text \<open>What a redemption that succeeded leaves behind: the code is used.\<close>

definition redeemed :: "string \<Rightarrow> go_error + RedeemCode \<Rightarrow> gateway_db \<Rightarrow> bool" where
  "redeemed code = on_ok (\<lambda>_ t. code_used code t)"

lemma redeemed_simps [simp]: "redeemed code (Inl e) t" "redeemed code (Inr a) t \<longleftrightarrow> code_used code t"
  by (simp_all add: redeemed_def)

lemma redeemed_Ret: "code_used code s \<Longrightarrow> pay.safe_prog initial (Ret r) (redeemed code) s"
  by (cases r) (auto intro: code_used_evolves)

lemma redeemed_error: "pay.safe_prog initial (Ret (Inl e)) (redeemed code) s"
  by simp

lemma then_any:
  assumes "pay.safe_prog initial p (\<lambda>_ _. True) s" "\<And>a t. payment_evolves s t \<Longrightarrow> pay.safe_prog initial (k a) R t"
  shows "pay.safe_prog initial (and_then p k) R s"
  using assms by (auto intro: pay.safe_and_then)

lemma checked_any:
  assumes "pay.safe_prog initial p (\<lambda>_ _. True) s" "\<And>e t. payment_evolves s t \<Longrightarrow> pay.safe_prog initial (failed e) R t"
    "\<And>a t. payment_evolves s t \<Longrightarrow> pay.safe_prog initial (k a) R t"
  shows "pay.safe_prog initial (checked p failed k) R s"
  using assms by (auto intro: pay.safe_checked)

lemma redeem_locked_safe: "pay.safe_prog initial (redeem_locked L skip w code notes) (redeemed code) s"
  unfolding redeem_locked_def
proof (rule pay.safe_checked [OF read_code])
  fix e t
  show "pay.safe_prog initial
      (if e = ErrRedeemCodeNotFound then ignoring (incrementRedeemErrorCount w) (Ret (Inl ErrRedeemCodeNotFound))
       else Ret (Inl (wrap ''get redeem code'' e))) (redeemed code) t"
    by (intro fine_if fine_ignoring fine_attempts redeemed_error)
next
  fix c t
  assume "on_ok (\<lambda>r t. known_code r t \<and> rc_code r = code) (Inr c) t"
  then have c: "known_code c t" "rc_code c = code" by simp_all
  have tx: "pay.safe_prog initial (checked (sql (redeem_tx (cal L) w c notes)) (\<lambda>e. Ret (Inl e)) (\<lambda>_.
      ignoring (if rc_type c = RedeemTypeBalance \<and> rc_value c > 0 then tryAccrueAffiliateRebateForRedeem skip else Ret (Inr ()))
      (checked (sql (find_code (\<lambda>x. rc_id x = rc_id c))) (\<lambda>e. Ret (Inl (wrap ''get updated redeem code'' e)))
        (\<lambda>x. Ret (Inr x))))) (redeemed code) u" if "payment_evolves t u" for u
  proof (rule pay.safe_checked [OF redeem_tx_safe])
    show "known_code c u" using c(1) that by (rule known_code_evolves)
  next
    fix e v show "pay.safe_prog initial (Ret (Inl e)) (redeemed code) v" by (rule redeemed_error)
  next
    fix a v assume "on_ok (\<lambda>_. code_used (rc_code c)) (Inr a) v"
    then have used: "code_used code v" using c(2) by simp
    show "pay.safe_prog initial
        (ignoring (if rc_type c = RedeemTypeBalance \<and> rc_value c > 0 then tryAccrueAffiliateRebateForRedeem skip else Ret (Inr ()))
        (checked (sql (find_code (\<lambda>x. rc_id x = rc_id c))) (\<lambda>e. Ret (Inl (wrap ''get updated redeem code'' e)))
          (\<lambda>x. Ret (Inr x)))) (redeemed code) v"
      by (intro fine_ignoring fine_if fine_redeem_rebate fine_Ret checked_any redeemed_error redeemed_Ret
            pay.safe_weaken [OF read_code]) (auto intro: code_used_evolves [OF used] payment_evolves_trans)
  qed
  show "pay.safe_prog initial (and_then time_now (\<lambda>now.
      if IsExpiredAt now c then ignoring (incrementRedeemErrorCount w) (Ret (Inl ErrRedeemCodeExpired))
      else and_then time_now (\<lambda>now.
      if \<not> CanUse now c then ignoring (incrementRedeemErrorCount w) (Ret (Inl ErrRedeemCodeUsed))
      else case redeem_precheck c of Some e \<Rightarrow> Ret (Inl e) | None \<Rightarrow>
      checked (sql (find_user w)) (\<lambda>e. Ret (Inl (wrap ''get user'' e))) (\<lambda>_.
      checked (sql (redeem_tx (cal L) w c notes)) (\<lambda>e. Ret (Inl e)) (\<lambda>_.
      ignoring (if rc_type c = RedeemTypeBalance \<and> rc_value c > 0 then tryAccrueAffiliateRebateForRedeem skip else Ret (Inr ()))
      (checked (sql (find_code (\<lambda>x. rc_id x = rc_id c))) (\<lambda>e. Ret (Inl (wrap ''get updated redeem code'' e)))
         (\<lambda>x. Ret (Inr x)))))))) (redeemed code) t"
    by (intro then_any fine_if fine_ignoring fine_option checked_any pay_time fine_attempts fine_user redeemed_error tx)
      (blast intro: payment_evolves_trans)
qed

lemma redeem_under_lock:
  "pay.safe_prog initial (and_then (redeem_locked L skip w code notes) (\<lambda>res. ignoring (releaseRedeemLock code) (Ret res)))
     (redeemed code) s"
proof (rule pay.safe_and_then [OF redeem_locked_safe])
  fix r u assume "redeemed code r u"
  then show "pay.safe_prog initial (ignoring (releaseRedeemLock code) (Ret r)) (redeemed code) u"
    by (intro fine_ignoring fine_unlock; cases r) (auto intro: redeemed_Ret code_used_evolves)
qed

lemma Redeem_safe: "pay.safe_prog initial (Redeem L skip w code notes) (redeemed code) s"
  unfolding Redeem_def
  by (rule then_any, rule fine_limit, rule fine_option, rule then_any, rule fine_lock, rule fine_if)
    (rule redeemed_error redeem_under_lock)+

lemma fine_redeem: "pay.safe_prog initial (Redeem L skip w code notes) (\<lambda>_ _. True) s"
  by (rule pay.safe_weaken [OF Redeem_safe]) simp
subsubsection \<open>Fulfilling an order\<close>

lemma update_order_fine:
  assumes moves: "\<And>t r. cond r \<Longrightarrow> order_moves r (f t r)"
    and finished: "\<And>t u r. payment_inv initial u \<Longrightarrow> payment_evolves s u \<Longrightarrow> r \<in> set (orders u) \<Longrightarrow> order_id r = i \<Longrightarrow>
      cond r \<Longrightarrow> order_status (f t r) = OrderStatusCompleted \<Longrightarrow> order_type r \<noteq> OrderTypeSubscription \<Longrightarrow>
      code_used (recharge_code r) u"
  shows "pay.safe_prog initial (sql (\<lambda>s. update_order i cond (f s) s)) (\<lambda>_ _. True) s"
proof -
  have "pay.safe_prog initial (sql (\<lambda>s. update_order i cond (f s) s)) (on_ok (\<lambda>_ _. True)) s"
  proof (rule pay_sql)
    fix t a u assume t: "payment_inv initial t" "payment_evolves s t" "update_order i cond (f t) t = (Inr a, u)"
    have "payment_inv initial u \<and> payment_evolves t u"
    proof (rule update_order_inv [OF t(1,3)])
      fix r assume "cond r" then show "order_moves r (f t r)" by (rule moves)
    next
      fix r assume "r \<in> set (orders t)" "order_id r = i" "cond r" "order_status (f t r) = OrderStatusCompleted"
        "order_type r \<noteq> OrderTypeSubscription"
      then show "code_used (recharge_code r) t" by (rule finished [OF t(1,2)])
    qed
    then show "payment_inv initial u \<and> payment_evolves t u \<and> True" by simp
  qed simp
  then show ?thesis by simp
qed

lemma moves_keep: "order_moves r (r\<lparr>order_updated_at := a\<rparr>)" "order_moves r (r\<lparr>payment_trade_no := no\<rparr>)"
  by (simp_all add: order_moves_def same_order_def)

lemma order_moves_to:
  "order_edge (order_status r) (order_status r') \<Longrightarrow> same_order r r' \<Longrightarrow> order_moves r r'"
  by (auto simp: order_moves_def order_drift_def)

lemma status_neq [simp]:
  "OrderStatusRecharging \<noteq> OrderStatusCompleted" "OrderStatusFailed \<noteq> OrderStatusCompleted"
  "OrderStatusPaid \<noteq> OrderStatusCompleted" "OrderStatusCancelled \<noteq> OrderStatusCompleted"
  "OrderStatusExpired \<noteq> OrderStatusCompleted" "OrderStatusPending \<noteq> OrderStatusCompleted"
  "OrderStatusRecharging \<noteq> OrderStatusFailed" "OrderStatusPaid \<noteq> OrderStatusRecharging"
  by (simp_all add: order_status_defs)

text \<open>A step that does not complete an order.\<close>

lemma move_order_fine:
  assumes "\<And>t r. cond r \<Longrightarrow> order_moves r (f t r)" "\<And>t r. cond r \<Longrightarrow> order_status (f t r) \<noteq> OrderStatusCompleted"
  shows "pay.safe_prog initial (sql (\<lambda>s. update_order i cond (f s) s)) (\<lambda>_ _. True) s"
  using assms by (intro update_order_fine) blast+

lemma claim_fine:
  "pay.safe_prog initial (sql (update_order i
     (\<lambda>r. order_status r = OrderStatusPaid \<or> order_status r = OrderStatusFailed \<or>
          order_status r = OrderStatusRecharging \<and> order_updated_at r \<le> stale)
     (\<lambda>r. r\<lparr>order_status := OrderStatusRecharging, order_updated_at := a, failed_at := None, failed_reason := None\<rparr>)))
     (\<lambda>_ _. True) s"
  by (rule move_order_fine [where f = "\<lambda>_ r. r\<lparr>order_status := OrderStatusRecharging, order_updated_at := a, failed_at := None,
      failed_reason := None\<rparr>"]) (auto intro!: order_moves_to oe_claim simp: same_order_def)

lemma fine_lease: "pay.safe_prog initial (acquirePaymentFulfillmentLease o1) (\<lambda>_ _. True) s"
  unfolding acquirePaymentFulfillmentLease_def Let_def order_by_id_def
  by (intro fine_rules claim_fine fine_read_order)

lemma complete_fine:
  assumes "known_order o1 s" "order_type o1 \<noteq> OrderTypeSubscription \<Longrightarrow> code_used (recharge_code o1) s"
  shows "pay.safe_prog initial (sql (\<lambda>s. update_order (order_id o1)
     (\<lambda>r. order_status r = OrderStatusRecharging \<and> order_updated_at r = lease)
     (\<lambda>r. (touched s r)\<lparr>order_status := OrderStatusCompleted, completed_at := Some now\<rparr>) s)) (\<lambda>_ _. True) s"
proof (rule update_order_fine)
  fix t u r assume u: "payment_inv initial u" "payment_evolves s u" "r \<in> set (orders u)" "order_id r = order_id o1"
    "order_type r \<noteq> OrderTypeSubscription"
  then have "order_moves o1 r"
    using known_order_row [OF known_order_evolves [OF assms(1)]] payment_invD(1) by blast
  then have "order_type r = order_type o1" "recharge_code r = recharge_code o1"
    by (simp_all add: order_moves_def same_order_def)
  then show "code_used (recharge_code r) u"
    using u assms(2) code_used_evolves by metis
qed (auto intro!: order_moves_to oe_complete simp: same_order_def touched_def)

lemma fine_markCompleted:
  assumes "known_order o1 s" "order_type o1 \<noteq> OrderTypeSubscription \<Longrightarrow> code_used (recharge_code o1) s"
  shows "pay.safe_prog initial (markCompleted o1 lease auditAction) (\<lambda>_ _. True) s"
  unfolding markCompleted_def order_by_id_def
  by (intro fine_rules complete_fine fine_read_order fine_audit fine_logged)
    (use assms still_known in blast)+

lemma fine_markFailed: "pay.safe_prog initial (markFailed oid lease reason) (\<lambda>_ _. True) s"
  unfolding markFailed_def
  by (intro fine_rules fine_audit move_order_fine)
    (auto intro!: order_moves_to oe_fail simp: same_order_def touched_def)

lemma fine_rebate: "pay.safe_prog initial (applyAffiliateRebateForOrder o1) (\<lambda>_ _. True) s"
proof -
  have "pay.safe_prog initial (stmt (\<lambda>c. under_weather (weather c) (rebate_tx (order_id o1) (rebate_rule c))))
      (on_ok (\<lambda>_ _. True)) s" for s
    by (rule pay_stmt) (auto dest: rebate_tx_inv)
  then have "pay.safe_prog initial (stmt (\<lambda>c. under_weather (weather c) (rebate_tx (order_id o1) (rebate_rule c))))
      (\<lambda>_ _. True) s" for s by simp
  then show ?thesis
    unfolding applyAffiliateRebateForOrder_def by (intro fine_rules fine_audit)
qed

lemma fine_rebate_and_complete:
  assumes "known_order o1 s" "order_type o1 \<noteq> OrderTypeSubscription \<Longrightarrow> code_used (recharge_code o1) s"
  shows "pay.safe_prog initial (rebate_and_complete o1 lease auditAction) (\<lambda>_ _. True) s"
  unfolding rebate_and_complete_def
  by (intro fine_rules fine_rebate fine_markCompleted) (use assms still_known in blast)+

lemma fine_redeem_and_complete:
  assumes "known_order o1 s"
  shows "pay.safe_prog initial (redeem_and_complete L o1 lease) (\<lambda>_ _. True) s"
  unfolding redeem_and_complete_def
proof (rule pay.safe_checked [OF Redeem_safe])
  fix a t assume "redeemed (recharge_code o1) (Inr a) t" "payment_evolves s t"
  then show "pay.safe_prog initial (rebate_and_complete o1 lease ''RECHARGE_SUCCESS'') (\<lambda>_ _. True) t"
    using assms known_order_evolves by (intro fine_rebate_and_complete) auto
qed simp

lemma orders_ok_code:
  assumes "orders_ok os next" "r \<in> set os" "r' \<in> set os" "recharge_code r = recharge_code r'"
  shows "r = r'"
proof -
  obtain m n where "recharge_code r = order_recharge_code (order_id r) m" "recharge_code r' = order_recharge_code (order_id r') n"
    "0 < order_id r" "0 < order_id r'" using assms(1-3) unfolding orders_ok_def by meson
  then have "order_id r = order_id r'" using order_recharge_code_id assms(4) by metis
  moreover have "distinct (map order_id os)" using assms(1) by (simp add: orders_ok_def)
  ultimately show ?thesis using distinct_map_same assms(2,3) by metis
qed

lemma create_code_inv:
  assumes inv: "payment_inv initial s" and known: "known_order o1 s"
    and ins: "insert_code c s = (Inr x, u)" and c: "rc_code c = trim_space (recharge_code o1)" "rc_type c = RedeemTypeBalance"
      "rc_value c = order_amount o1" "rc_expires_at c = None" "rc_status c = StatusUnused"
  shows "payment_inv initial u \<and> payment_evolves s u"
proof -
  obtain o2 where o2: "o2 \<in> set (orders s)" "order_moves o1 o2" using known by (auto simp: known_order_def)
  then have same: "recharge_code o2 = recharge_code o1" "order_amount o2 = order_amount o1"
    by (simp_all add: order_moves_def same_order_def)
  have "trim_space (recharge_code o2) = recharge_code o2"
    using payment_invD(1) [OF inv] o2(1) by (auto simp: orders_ok_def)
  then have code: "recharge_code o2 = rc_code c" using c(1) same(1) by simp
  show ?thesis
  proof (rule insert_code_inv [OF inv ins])
    show "\<not> IsUsed c" using c(5) by (simp add: IsUsed_def redeem_const_defs)
  next
    show "\<exists>r\<in>set (orders s). recharge_code r = rc_code c" using o2(1) code by blast
  next
    fix r assume r: "r \<in> set (orders s)" "recharge_code r = rc_code c"
    then have "r = o2"
      using orders_ok_code [OF payment_invD(1) [OF inv] r(1) o2(1)] code by simp
    then show "rc_type c = RedeemTypeBalance \<and> rc_value c = order_amount r \<and> rc_expires_at c = None \<and>
        rc_status c \<in> {StatusUnused, StatusUsed}"
      using c same(2) by simp
  qed
qed

lemma fine_create:
  assumes "known_order o1 s"
  shows "pay.safe_prog initial (CreateCode (order_code o1)) (\<lambda>_ _. True) s"
proof -
  define c where "c = (order_code o1)\<lparr>rc_code := trim_space (recharge_code o1)\<rparr>"
  have nonempty: "RedeemTypeBalance \<noteq> ''''" "StatusUnused \<noteq> ''''" by (simp_all add: redeem_const_defs)
  have ins: "pay.safe_prog initial (sql (insert_code c)) (\<lambda>_ _. True) t" if "payment_evolves s t" for t
  proof -
    have "pay.safe_prog initial (sql (insert_code c)) (on_ok (\<lambda>_ _. True)) t"
    proof (rule pay_sql)
      fix u a v assume u: "payment_inv initial u" "payment_evolves t u" "insert_code c u = (Inr a, v)"
      then have "known_order o1 u" using assms that known_order_evolves by blast
      from create_code_inv [OF u(1) this u(3)] show "payment_inv initial v \<and> payment_evolves u v \<and> True"
        by (simp add: c_def order_code_def)
    qed simp
    then show ?thesis by simp
  qed
  have "CreateCode (order_code o1) =
     (if trim_space (recharge_code o1) = '''' then Ret (Some (plain_error ''code is required''))
      else if RedeemTypeBalance \<noteq> RedeemTypeInvitation \<and> order_amount o1 = 0 then Ret (Some (plain_error ''value must not be zero''))
      else and_then time_now (\<lambda>now. if IsExpiredAt now c then Ret (Some ErrRedeemCodeExpired)
           else checked (sql (insert_code c)) (\<lambda>e. Ret (Some (wrap ''create redeem code'' e))) (\<lambda>_. Ret None)))"
    by (simp add: CreateCode_def order_code_def c_def Let_def nonempty cong: if_cong)
  then show ?thesis
    by (simp only:) (intro fine_rules ins)
qed

lemma fine_doBalance:
  assumes "known_order o1 s"
  shows "pay.safe_prog initial (doBalance L o1 lease) (\<lambda>_ _. True) s"
  unfolding doBalance_def
proof (rule pay.safe_and_then [OF read_code])
  fix a :: "go_error + RedeemCode" and t assume t: "payment_evolves s t" and a: "on_ok (\<lambda>r t. known_code r t \<and> rc_code r = recharge_code o1) a t"
  have o1: "known_order o1 t" using assms t by (rule known_order_evolves)
  show "pay.safe_prog initial (case resolveRedeemAction a of
       redeemActionSkipCompleted \<Rightarrow> rebate_and_complete o1 lease ''RECHARGE_SUCCESS''
     | redeemActionCreate \<Rightarrow>
         and_then (CreateCode (order_code o1)) (\<lambda>r. case r of
            Some e \<Rightarrow> Ret (Some (wrap ''create redeem code'' e))
          | None \<Rightarrow> redeem_and_complete L o1 lease)
     | redeemActionRedeem \<Rightarrow> redeem_and_complete L o1 lease) (\<lambda>_ _. True) t"
  proof (cases "resolveRedeemAction a")
    case redeemActionCreate
    have "pay.safe_prog initial (and_then (CreateCode (order_code o1)) (\<lambda>r. case r of
        Some e \<Rightarrow> Ret (Some (wrap ''create redeem code'' e)) | None \<Rightarrow> redeem_and_complete L o1 lease)) (\<lambda>_ _. True) t"
      by (intro fine_rules fine_create fine_redeem_and_complete) (use o1 known_order_evolves in blast)+
    then show ?thesis by (simp add: redeemActionCreate)
  next
    case redeemActionRedeem
    then show ?thesis using fine_redeem_and_complete [OF o1] by simp
  next
    case redeemActionSkipCompleted
    then obtain c where "a = Inr c" "IsUsed c" by (auto simp: resolveRedeemAction_def split: sum.splits if_splits)
    then have "code_used (recharge_code o1) t" using a known_used [of c t] by simp
    then show ?thesis using fine_rebate_and_complete [OF o1] redeemActionSkipCompleted by simp
  qed
qed

end
