(* ===== verification/PaymentRun.thy ===== *)
theory PaymentRun
  imports PaymentProofs
begin

section \<open>Payments: every request keeps the invariant\<close>

text \<open>
  The rest of the payment programs against the invariant of \<open>PaymentProofs\<close>, and what follows for pools of requests:
  every amount is credited once, a completed order had its code used, rebates are paid once. (How the status of an order moves is in
  \<open>OrderSteps\<close>.)
\<close>

lemma read_order_inv:
  assumes "\<And>e t. pay.safe_prog initial (failed e) R t"
    "\<And>r t. payment_inv initial t \<Longrightarrow> payment_evolves s t \<Longrightarrow> known_order r t \<Longrightarrow> p r \<Longrightarrow> pay.safe_prog initial (k r) R t"
  shows "pay.safe_prog initial (checked (sql (find_order p)) failed k) R s"
  by (rule pay.safe_checked [OF read_order]) (auto intro: assms)

lemma known_same:
  assumes "payment_inv initial s" "known_order o1 s" "known_order o2 s" "order_id o1 = order_id o2"
  shows "same_order o1 o2"
proof -
  obtain r where r: "r \<in> set (orders s)" "order_moves o1 r" using assms(2) by (auto simp: known_order_def)
  then have "order_id r = order_id o2" using assms(4) by (simp add: order_moves_def same_order_def)
  then have "order_moves o2 r" using known_order_row [OF assms(3) payment_invD(1) [OF assms(1)] r(1)] by simp
  then show ?thesis using r(2) by (simp add: order_moves_def same_order_def)
qed

subsection \<open>Subscriptions and the dispatch\<close>

lemma fine_assigned: "pay.safe_prog initial (ensurePaymentSubscriptionAssigned C o1 g d) (\<lambda>_ _. True) s"
proof -
  have "pay.safe_prog initial (sql (hasPaymentSubscriptionAssignmentAudit i)) (\<lambda>_ _. True) s" for i s
    unfolding hasPaymentSubscriptionAssignmentAudit_def [abs_def] by (rule fine_same)
  then show ?thesis
    unfolding ensurePaymentSubscriptionAssigned_def
    by (intro fine_rules fine_quiet [OF quiet_assign_tx])
qed

lemma fine_doSub:
  assumes "known_order o1 s" "order_type o1 = OrderTypeSubscription"
  shows "pay.safe_prog initial (doSub L o1 g d lease) (\<lambda>_ _. True) s"
  unfolding doSub_def
  by (intro fine_rules fine_quiet [OF quiet_find_group] fine_assigned fine_rebate_and_complete)
    (use assms still_known in blast)+

lemma fine_under_lease:
  assumes "\<And>v t. payment_evolves s t \<Longrightarrow> pay.safe_prog initial (work v) (\<lambda>_ _. True) t"
  shows "pay.safe_prog initial (under_lease L o1 work) (\<lambda>_ _. True) s"
  unfolding under_lease_def by (intro fine_rules fine_lease fine_markFailed assms)

lemma fine_balance: "pay.safe_prog initial (ExecuteBalanceFulfillment L oid) (\<lambda>_ _. True) s"
  unfolding ExecuteBalanceFulfillment_def order_by_id_def
  by (intro read_order_inv fine_rules fine_under_lease fine_doBalance) (use known_order_evolves in blast)+

lemma fine_subscription:
  assumes "known_order o0 s" "order_id o0 = oid" "order_type o0 = OrderTypeSubscription"
  shows "pay.safe_prog initial (ExecuteSubscriptionFulfillment L oid) (\<lambda>_ _. True) s"
  unfolding ExecuteSubscriptionFulfillment_def order_by_id_def
proof (rule read_order_inv)
  fix r t assume t: "payment_inv initial t" "payment_evolves s t" "known_order r t" "order_id r = oid"
  then have "order_type r = OrderTypeSubscription"
    using known_same [OF t(1) known_order_evolves [OF assms(1) t(2)] t(3)] assms by (simp add: same_order_def)
  then have work: "pay.safe_prog initial (under_lease L r (doSub L r g d)) (\<lambda>_ _. True) t" for g d
    by (intro fine_under_lease fine_doSub) (use t(3) known_order_evolves in blast)+
  show "pay.safe_prog initial
      (if order_status r = OrderStatusCompleted then Ret None
       else case may_fulfil r of Some e \<Rightarrow> Ret (Some e) | None \<Rightarrow>
         (case (subscription_group_id r, subscription_days r) of
            (Some gid, Some days) \<Rightarrow> under_lease L r (doSub L r gid days)
          | _ \<Rightarrow> Ret (Some (BadRequest ''INVALID_STATUS'' ''missing subscription info'')))) (\<lambda>_ _. True) t"
    using work by (auto intro!: fine_if fine_option split: option.splits)
qed simp

lemma fine_fulfilment: "pay.safe_prog initial (executeFulfillment L oid) (\<lambda>_ _. True) s"
  unfolding executeFulfillment_def order_by_id_def
  by (intro read_order_inv fine_rules fine_balance fine_subscription) (assumption | simp)+

lemma fine_retry: "pay.safe_prog initial (RetryFulfillment L oid) (\<lambda>_ _. True) s"
  unfolding RetryFulfillment_def order_by_id_def
  by (intro read_order_inv fine_rules fine_audit fine_fulfilment)

subsection \<open>Notifications\<close>

lemma fine_processed: "pay.safe_prog initial (alreadyProcessed L o1) (\<lambda>_ _. True) s"
  unfolding alreadyProcessed_def order_by_id_def
  by (intro read_order_inv fine_rules fine_audit fine_fulfilment)

lemma fine_toPaid: "pay.safe_prog initial (toPaid L o1 tradeNo paid) (\<lambda>_ _. True) s"
  unfolding toPaid_def Let_def
  by (intro fine_rules fine_processed fine_audit fine_fulfilment move_order_fine)
    (auto intro!: order_moves_to oe_pay simp: same_order_def touched_def)

lemma fine_instance: "pay.safe_prog initial (stmt (\<lambda>c s. (h c, s))) (\<lambda>_ _. True) s"
  by (rule pay.safe_stmt) auto

lemma fine_provider:
  "pay.safe_prog initial getOrderProviderInstance (\<lambda>_ _. True) s"
  "pay.safe_prog initial getOrderProvider (\<lambda>_ _. True) s" "pay.safe_prog initial QueryOrder (\<lambda>_ _. True) s"
  unfolding getOrderProviderInstance_def getOrderProvider_def QueryOrder_def by (rule fine_instance)+

lemma fine_audited_error: "pay.safe_prog initial (audited_error i action e) (\<lambda>_ _. True) s"
  unfolding audited_error_def by (intro fine_rules fine_audit)

lemma fine_confirm_upstream: "pay.safe_prog initial (confirmEasyPayUpstream L o1 tradeNo paid) (\<lambda>_ _. True) s"
  unfolding confirmEasyPayUpstream_def Let_def by (intro fine_rules fine_provider fine_audited_error)

lemma fine_confirm: "pay.safe_prog initial (confirmPayment L oid tradeNo paid pk metadata) (\<lambda>_ _. True) s"
  unfolding confirmPayment_def Let_def order_by_id_def
  by (intro read_order_inv fine_rules fine_provider fine_audited_error fine_confirm_upstream fine_toPaid)

lemma fine_notification: "pay.safe_prog initial (HandlePaymentNotification L n pk) (\<lambda>_ _. True) s"
  unfolding HandlePaymentNotification_def order_by_trade_no_def
  by (intro fine_rules fine_read_order fine_confirm)

subsection \<open>Cancellation, expiry and creation\<close>

lemma fine_settle: "pay.safe_prog initial (settle_paid L o1 provKey queryRef resp) (\<lambda>_ _. True) s"
  unfolding settle_paid_def Let_def
  by (intro fine_rules fine_notification update_order_fine)
    (auto simp: order_moves_def same_order_def touched_def completed_paid_def dest!: payment_invD(4))

lemma fine_requery: "pay.safe_prog initial (requeryPaidOrderOnce queryRef) (\<lambda>_ _. True) s"
  unfolding requeryPaidOrderOnce_def by (intro fine_rules fine_provider)

lemma fine_check_paid: "pay.safe_prog initial (checkPaidWithOptions L o1) (\<lambda>_ _. True) s"
  unfolding checkPaidWithOptions_def Let_def
  by (intro fine_rules fine_provider fine_audit fine_requery fine_settle)

lemma fine_cancel:
  assumes "fs = OrderStatusCancelled \<or> fs = OrderStatusExpired"
  shows "pay.safe_prog initial (cancelCore L o1 fs) (\<lambda>_ _. True) s"
  unfolding cancelCore_def
  by (intro fine_rules fine_check_paid fine_audit move_order_fine)
    (use assms in \<open>auto intro!: order_moves_to simp: same_order_def touched_def intro: oe_cancel oe_expire dest: sym\<close>)

lemma fine_cancel_user: "pay.safe_prog initial (CancelOrder L i w) (\<lambda>_ _. True) s"
  unfolding CancelOrder_def order_by_id_def by (intro read_order_inv fine_rules fine_cancel) simp

lemma fine_cancel_admin: "pay.safe_prog initial (AdminCancelOrder L i) (\<lambda>_ _. True) s"
  unfolding AdminCancelOrder_def order_by_id_def by (intro read_order_inv fine_rules fine_cancel) simp

lemma fine_expire_each: "pay.safe_prog initial (expire_each L os n) (\<lambda>_ _. True) s"
proof (induction os arbitrary: n s)
  case (Cons o1 os)
  show ?case
    by (simp, intro fine_then fine_cancel) (auto intro!: fine_sum Cons.IH split: bool.splits)
qed simp

lemma fine_expire: "pay.safe_prog initial (ExpireTimedOutOrders L) (\<lambda>_ _. True) s"
  unfolding ExpireTimedOutOrders_def by (intro fine_rules fine_same fine_expire_each)

lemma fine_verify: "pay.safe_prog initial (VerifyOrderByOutTradeNo L raw w) (\<lambda>_ _. True) s"
  unfolding VerifyOrderByOutTradeNo_def order_by_trade_no_def order_by_id_def
  by (intro read_order_inv fine_rules fine_check_paid fine_read_order)

lemma fine_reconcile_each: "pay.safe_prog initial (reconcile_each L os n) (\<lambda>_ _. True) s"
  by (induction os arbitrary: n s) (auto intro!: fine_then fine_check_paid)

lemma fine_reconcile: "pay.safe_prog initial (ReconcilePendingPaymentOrders L) (\<lambda>_ _. True) s"
  unfolding ReconcilePendingPaymentOrders_def by (intro fine_rules fine_same fine_reconcile_each)
lemma insert_order_inv:
  assumes inv: "payment_inv initial s"
    and ins: "insert_order (new_order L req plan amount pay sel no expires) s = (Inr o1, u)"
  shows "payment_inv initial u \<and> payment_evolves s u"
proof -
  define r where "r = new_order L req plan amount pay sel no expires s"
  have u: "u = s\<lparr>orders := orders s @ [r], next_order_id := next_order_id s + 1\<rparr>"
    using ins by (auto simp: insert_order_def r_def split: if_splits)
  obtain n where r: "order_id r = next_order_id s" "order_status r = OrderStatusPending"
    "recharge_code r = order_recharge_code (next_order_id s) n"
    by (simp add: r_def new_order_def)
  have ok: "0 < next_order_id s" "distinct (map order_id (orders s))"
    "\<And>x. x \<in> set (orders s) \<Longrightarrow> 0 < order_id x \<and> order_id x < next_order_id s \<and>
       (\<exists>n. recharge_code x = order_recharge_code (order_id x) n)"
    using payment_invD(1) [OF inv] by (auto simp: orders_ok_def)
  have fresh: "rc_code c \<noteq> recharge_code r" if c: "c \<in> set (redeem_codes s)" for c
  proof
    assume eq: "rc_code c = recharge_code r"
    then obtain x where x: "x \<in> set (orders s)" "recharge_code x = recharge_code r"
      using payment_invD(3) [OF inv] c r(3) by (auto simp: codes_match_def)
    then have "order_id x = next_order_id s" using ok(1) ok(3) [OF x(1)] order_recharge_code_id r(3) by metis
    then show False using ok(3) [OF x(1)] by simp
  qed
  have "orders_ok (orders u) (next_order_id u)"
    using ok r by (fastforce simp: orders_ok_def u)
  moreover have "codes_match (orders u) (redeem_codes u)"
    using payment_invD(3) [OF inv] fresh unfolding codes_match_def u by simp
  moreover have "completed_paid u"
    using payment_invD(4) [OF inv] r(2) by (auto simp: completed_paid_def code_used_def u)
  moreover have "payment_evolves s u"
    by (auto simp: payment_evolves_def u intro: order_moves_refl code_moves_refl)
  ultimately show ?thesis
    using payment_invD [OF inv] by (simp add: payment_inv_def u rebates_ok_def ledger_ok_def)
qed

lemma fine_insert_order:
  "pay.safe_prog initial (sql (insert_order (new_order L req plan amount pay sel no expires))) (\<lambda>_ _. True) s"
  by (rule pay_sql_plain) (rule insert_order_inv)

lemma fine_limits:
  "pay.safe_prog initial (checkPendingLimit w m) (\<lambda>_ _. True) s" "pay.safe_prog initial (checkDailyLimit w a l) (\<lambda>_ _. True) s"
  unfolding checkPendingLimit_def checkDailyLimit_def Let_def by (intro fine_rules fine_same)+

lemma fine_allocate: "pay.safe_prog initial (allocate_attempts n) (\<lambda>_ _. True) s"
proof (induction n arbitrary: s)
  case (Suc n)
  have "pay.safe_prog initial (stmt (\<lambda>c. under_weather (weather c)
      (\<lambda>s. (Inr (generateOutTradeNo c, generateOutTradeNo c \<in> out_trade_no ` set (orders s)), s)))) (on_ok (\<lambda>_ _. True)) s" for s
    by (rule pay_stmt) auto
  then have "pay.safe_prog initial (stmt (\<lambda>c. under_weather (weather c)
      (\<lambda>s. (Inr (generateOutTradeNo c, generateOutTradeNo c \<in> out_trade_no ` set (orders s)), s)))) (\<lambda>_ _. True) s" for s
    by simp
  then show ?case
    using Suc by (auto intro!: fine_checked split: prod.splits)
qed simp

lemma fine_update_one:
  assumes "\<And>t r. order_moves r (f t r)" "\<And>t r. order_status (f t r) = OrderStatusCompleted \<Longrightarrow> order_status r = OrderStatusCompleted"
  shows "pay.safe_prog initial (sql (\<lambda>s. update_one_order i (f s) s)) (\<lambda>_ _. True) s"
proof (rule pay_sql_plain)
  fix t a u assume t: "payment_inv initial t" "update_one_order i (f t) t = (Inr a, u)"
  then have upd: "update_order i (\<lambda>_. True) (f t) t = (Inr (length (filter (\<lambda>r. order_id r = i) (orders t))), u)"
    by (auto simp: update_one_order_def update_order_def split: if_splits)
  show "payment_inv initial u \<and> payment_evolves t u"
  proof (rule update_order_inv [OF t(1) upd])
    fix r assume "r \<in> set (orders t)" "order_status (f t r) = OrderStatusCompleted" "order_type r \<noteq> OrderTypeSubscription"
    then show "code_used (recharge_code r) t"
      using payment_invD(4) [OF t(1)] assms(2) by (simp add: completed_paid_def)
  qed (rule assms(1))
qed

lemma fine_place_order:
  "pay.safe_prog initial (place_order L req plan cfg orderAmount limitAmount payAmount sel) (\<lambda>_ _. True) s"
  unfolding place_order_def createOrderInTx_def invokeProvider_def allocateOutTradeNo_def Let_def
  by (intro fine_rules fine_limits fine_allocate fine_insert_order fine_instance fine_audit fine_update_one)
    (auto simp: same_order_def touched_def order_moves_def order_drift_def)

subsection \<open>Pools of payment requests\<close>

definition payment_request :: "pay_lib \<Rightarrow> unit pay \<Rightarrow> bool" where
  "payment_request L p \<longleftrightarrow>
     (\<exists>n pk. p = ignoring (HandlePaymentNotification L n pk) (Ret ())) \<or>
     (\<exists>i. p = ignoring (RetryFulfillment L i) (Ret ()) \<or> p = ignoring (executeFulfillment L i) (Ret ())) \<or>
     (\<exists>w code notes. p = ignoring (Redeem L False w code notes) (Ret ())) \<or>
     (\<exists>i w. p = ignoring (CancelOrder L i w) (Ret ()) \<or> p = ignoring (AdminCancelOrder L i) (Ret ())) \<or>
     (\<exists>no w. p = ignoring (VerifyOrderByOutTradeNo L no w) (Ret ())) \<or>
     p = ignoring (ExpireTimedOutOrders L) (Ret ()) \<or> p = ignoring (ReconcilePendingPaymentOrders L) (Ret ()) \<or>
     (\<exists>req plan cfg amount lim pay sel. p = ignoring (place_order L req plan cfg amount lim pay sel) (Ret ()))"

text \<open>
  What else happens to the tables: time passes, locks and counters expire, balances are spent and subscriptions used,
  and administrators create codes, which are drawn at random and do not look like those of orders.
\<close>

definition payment_env :: "gateway_db \<Rightarrow> gateway_db \<Rightarrow> bool" where
  "payment_env s t \<longleftrightarrow>
     time_passes s t \<or>
     (\<exists>a l. t = s\<lparr>redeem_attempts := a, redeem_locks := l\<rparr>) \<or>
     (\<exists>g ss n. t = s\<lparr>groups := g, subs := ss, next_sub_id := n\<rparr>) \<or>
     (\<exists>us. t = s\<lparr>users := us\<rparr> \<and>
        (\<forall>u row. us u = Some row \<longrightarrow> (\<exists>row0. users s u = Some row0 \<and> total_recharged row = total_recharged row0))) \<or>
     (\<exists>c. rc_status c = StatusUnused \<and> \<not> has_prefix (rc_code c) ''PAY-'' \<and> insert_code c s = (Inr (), t))"

definition payment_start :: "(int \<Rightarrow> usd) \<Rightarrow> gateway_db \<Rightarrow> bool" where
  "payment_start initial s \<longleftrightarrow>
     orders s = [] \<and> redeem_codes s = [] \<and> rebates s = [] \<and> 0 < next_order_id s \<and>
     (\<forall>u row. users s u = Some row \<longrightarrow> total_recharged row = initial u)"

lemma payment_requests_safe: "payment_request L p \<Longrightarrow> pay.safe_prog initial p (\<lambda>_ _. True) s"
  unfolding payment_request_def
  by (elim disjE exE; simp only:; intro fine_ignoring fine_Ret fine_notification fine_retry fine_fulfilment fine_redeem
      fine_cancel_user fine_cancel_admin fine_verify fine_expire fine_reconcile fine_place_order)

lemma admin_code_inv:
  assumes "payment_inv initial s" "rc_status c = StatusUnused" "\<not> has_prefix (rc_code c) ''PAY-''" "insert_code c s = (Inr (), t)"
  shows "payment_inv initial t \<and> payment_evolves s t"
proof (rule insert_code_inv [OF assms(1,4)])
  show "\<not> IsUsed c" using assms(2) by (simp add: IsUsed_def redeem_const_defs)
next
  fix r assume "r \<in> set (orders s)" "recharge_code r = rc_code c"
  then have "has_prefix (rc_code c) ''PAY-''"
    using payment_invD(1) [OF assms(1)] unfolding orders_ok_def by (metis recharge_code_prefix)
  then show "rc_type c = RedeemTypeBalance \<and> rc_value c = order_amount r \<and> rc_expires_at c = None \<and>
      rc_status c \<in> {StatusUnused, StatusUsed}" using assms(3) by simp
qed (use assms(3) in simp)

lemma payment_env_safe:
  assumes "payment_env s t" "payment_inv initial s"
  shows "payment_inv initial t \<and> payment_evolves s t"
  using assms(1) unfolding payment_env_def
proof (elim disjE)
  assume "time_passes s t"
  then show ?thesis
    by (intro payment_inv_same [OF assms(2)]) (auto simp: time_passes_def)
next
  assume "\<exists>a l. t = s\<lparr>redeem_attempts := a, redeem_locks := l\<rparr>"
  then show ?thesis by (intro payment_inv_same [OF assms(2)]) auto
next
  assume "\<exists>g ss n. t = s\<lparr>groups := g, subs := ss, next_sub_id := n\<rparr>"
  then show ?thesis by (intro payment_inv_same [OF assms(2)]) auto
next
  assume "\<exists>us. t = s\<lparr>users := us\<rparr> \<and>
     (\<forall>u row. us u = Some row \<longrightarrow> (\<exists>row0. users s u = Some row0 \<and> total_recharged row = total_recharged row0))"
  then show ?thesis by (intro payment_inv_same [OF assms(2)]) auto
next
  assume "\<exists>c. rc_status c = StatusUnused \<and> \<not> has_prefix (rc_code c) ''PAY-'' \<and> insert_code c s = (Inr (), t)"
  then show ?thesis using admin_code_inv [OF assms(2)] by blast
qed
lemma payment_start_inv: "payment_start initial s \<Longrightarrow> payment_inv initial s"
  by (simp add: payment_start_def payment_inv_def payment_inv_parts credited_def)

text \<open>C1: However many notifications, retries, redemptions, cancellations, expiries and new orders run at once, with
  failing connections, lost answers, crashes and repetitions: what a user was credited is the sum of the balance
  codes used up by him; there is one code per order; an order that is completed has had its code used exactly
  once, for the amount of the order; and the affiliate rebate of an order is paid at most once.\<close>

theorem credited_once:
  assumes "pool_reach (payment_request L) payment_env (payment_start initial) S"
  shows "(\<forall>u row. users (store S) u = Some row \<longrightarrow>
            total_recharged row = initial u + credited (redeem_codes (store S)) u) \<and>
     distinct (map rc_code (redeem_codes (store S))) \<and> distinct (map recharge_code (orders (store S))) \<and>
     (\<forall>r\<in>set (orders (store S)). order_status r = OrderStatusCompleted \<longrightarrow> order_type r \<noteq> OrderTypeSubscription \<longrightarrow>
        (\<exists>c\<in>set (redeem_codes (store S)). rc_code c = recharge_code r \<and> IsUsed c \<and> rc_type c = RedeemTypeBalance \<and>
           rc_value c = order_amount r)) \<and>
     distinct (filter (\<lambda>k. k \<noteq> None) (map fst (rebates (store S))))"
proof -
  have "pay.pool_good initial S"
    using pay.pool_reach_good [OF assms, where initial = initial] payment_start_inv payment_requests_safe payment_env_safe by blast
  then have inv: "payment_inv initial (store S)" by (rule pay.pool_goodD(1))
  have one_each: "distinct (map recharge_code (orders (store S)))"
    using orders_ok_code [OF payment_invD(1) [OF inv]] payment_invD(1) [OF inv]
    by (auto simp: orders_ok_def distinct_map inj_on_def)
  have "\<exists>c\<in>set (redeem_codes (store S)). rc_code c = recharge_code r \<and> IsUsed c \<and> rc_type c = RedeemTypeBalance \<and>
      rc_value c = order_amount r"
    if r: "r \<in> set (orders (store S))" "order_status r = OrderStatusCompleted" "order_type r \<noteq> OrderTypeSubscription" for r
  proof -
    obtain c where c: "c \<in> set (redeem_codes (store S))" "rc_code c = recharge_code r" "IsUsed c"
      using payment_invD(4) [OF inv] r by (auto simp: completed_paid_def code_used_def)
    then show ?thesis using payment_invD(3) [OF inv] r(1) by (auto simp: codes_match_def)
  qed
  then show ?thesis
    using one_each payment_invD(2,5,6) [OF inv] by (simp add: codes_ok_def rebates_ok_def ledger_ok_def)
qed

end
