(* ===== verification/PaymentSettles.thy ===== *)
theory PaymentSettles
  imports PaymentRun
begin

section \<open>Payments: what a single run does\<close>

text \<open>
  Runs without interference and on a connection that works: an order that was paid is completed and credited by one
  call of \<^verbatim>\<open>executeFulfillment\<close>, whatever an earlier attempt left behind; a notification that does not match
  its order changes no order.
\<close>

subsection \<open>Statements on a connection that works\<close>

lemma run_sql:
  assumes "weather c = Fair"
  shows "run_prog (sql f) c s = (case f s of (Inl e, _) \<Rightarrow> (Inl e, s) | (Inr a, t) \<Rightarrow> (Inr a, t))"
  using assms by (simp add: sql_def under_weather_def)

lemma run_time [simp]: "run_prog time_now c s = (clock s, s)"
  by (simp add: time_now_def)

definition has_order :: "gateway_db \<Rightarrow> payment_order \<Rightarrow> bool" where
  "has_order s r \<longleftrightarrow> distinct (map order_id (orders s)) \<and> r \<in> set (orders s)"

definition set_order :: "gateway_db \<Rightarrow> payment_order \<Rightarrow> gateway_db" where
  "set_order s r' = s\<lparr>orders := map (\<lambda>x. if order_id x = order_id r' then r' else x) (orders s)\<rparr>"

lemma set_order_fields [simp]:
  "clock (set_order s r) = clock s" "redeem_codes (set_order s r) = redeem_codes s" "users (set_order s r) = users s"
  "redeem_attempts (set_order s r) = redeem_attempts s" "redeem_locks (set_order s r) = redeem_locks s"
  "next_code_id (set_order s r) = next_code_id s" "audit_logs (set_order s r) = audit_logs s"
  by (simp_all add: set_order_def)

lemma has_order_set:
  assumes "has_order s r" "order_id r' = order_id r"
  shows "has_order (set_order s r') r'"
proof -
  have "map order_id (orders (set_order s r')) = map order_id (orders s)" by (simp add: set_order_def)
  moreover have "r' \<in> set (orders (set_order s r'))"
    using assms by (auto simp: has_order_def set_order_def intro!: image_eqI [of _ _ r])
  ultimately show ?thesis using assms(1) unfolding has_order_def by (simp only:)
qed

lemma has_order_cong: "orders t = orders s \<Longrightarrow> has_order t r = has_order s r"
  by (simp add: has_order_def)

lemma find_has_order:
  assumes "has_order s r"
  shows "find_order (\<lambda>x. order_id x = order_id r) s = (Inr r, s)"
proof -
  have "List.find (\<lambda>x. order_id x = order_id r) xs = Some r" if "distinct (map order_id xs)" "r \<in> set xs" for xs
    using that by (induction xs) (auto simp: image_iff)
  then show ?thesis using assms by (simp add: has_order_def find_order_def)
qed

lemma run_read_order:
  assumes "weather c = Fair" "has_order s r" "order_id r = i"
  shows "run_prog (order_by_id i) c s = (Inr r, s)"
  using find_has_order [OF assms(2)] assms by (simp add: order_by_id_def run_sql)

lemma update_has_order:
  assumes "has_order s r" "cond r" "order_id (f r) = order_id r"
  shows "\<exists>n. update_order (order_id r) cond f s = (Inr (Suc n), set_order s (f r))"
proof -
  have same: "x = r" if "x \<in> set (orders s)" "order_id x = order_id r" for x
    using assms(1) that distinct_map_same [of order_id "orders s" x r] by (simp add: has_order_def)
  have "r \<in> set (filter (\<lambda>x. order_id x = order_id r \<and> cond x) (orders s))"
    using assms by (simp add: has_order_def)
  then have "0 < length (filter (\<lambda>x. order_id x = order_id r \<and> cond x) (orders s))"
    by (rule length_pos_if_in_set)
  moreover have "map (\<lambda>x. if order_id x = order_id r \<and> cond x then f x else x) (orders s) =
      map (\<lambda>x. if order_id x = order_id (f r) then f r else x) (orders s)"
    using same assms(2,3) by (intro map_cong) auto
  ultimately show ?thesis
    by (auto simp: update_order_def Let_def set_order_def gr0_conv_Suc)
qed

subsection \<open>The lease\<close>

definition lease_time :: "gateway_db \<Rightarrow> time" where "lease_time s = clock s div 1000 * 1000"

definition leased :: "gateway_db \<Rightarrow> payment_order \<Rightarrow> payment_order" where
  "leased s r = r\<lparr>order_status := OrderStatusRecharging, order_updated_at := lease_time s, failed_at := None, failed_reason := None\<rparr>"

definition claimable :: "gateway_db \<Rightarrow> payment_order \<Rightarrow> bool" where
  "claimable s r \<longleftrightarrow> order_status r = OrderStatusPaid \<or> order_status r = OrderStatusFailed \<or>
     order_status r = OrderStatusRecharging \<and> order_updated_at r \<le> lease_time s - paymentFulfillmentLeaseDuration"

lemma pg_lease_time: "pg_time (lease_time s) = lease_time s"
  by (simp add: pg_time_def lease_time_def)

lemma leased_id [simp]: "order_id (leased s r) = order_id r" by (simp add: leased_def)

lemma run_lease:
  assumes "weather c = Fair" "has_order s r" "claimable s r"
  shows "run_prog (acquirePaymentFulfillmentLease r) c s = (Inr (Some (lease_time s)), set_order s (leased s r))"
proof -
  have "\<exists>n. update_order (order_id r)
      (\<lambda>r. order_status r = OrderStatusPaid \<or> order_status r = OrderStatusFailed \<or>
           order_status r = OrderStatusRecharging \<and> order_updated_at r \<le> add_time (lease_time s) (- paymentFulfillmentLeaseDuration))
      (\<lambda>r. r\<lparr>order_status := OrderStatusRecharging, order_updated_at := pg_time (lease_time s), failed_at := None,
         failed_reason := None\<rparr>) s = (Inr (Suc n), set_order s (leased s r))"
    using update_has_order [OF assms(2), where cond = "\<lambda>r. order_status r = OrderStatusPaid \<or> order_status r = OrderStatusFailed \<or>
           order_status r = OrderStatusRecharging \<and> order_updated_at r \<le> add_time (lease_time s) (- paymentFulfillmentLeaseDuration)"
        and f = "\<lambda>r. r\<lparr>order_status := OrderStatusRecharging, order_updated_at := pg_time (lease_time s), failed_at := None,
         failed_reason := None\<rparr>"] assms(3)
    by (simp add: claimable_def leased_def pg_lease_time add_time_def)
  moreover have "run_prog (order_by_id (order_id r)) c (set_order s (leased s r)) = (Inr (leased s r), set_order s (leased s r))"
    by (rule run_read_order [OF assms(1) has_order_set [OF assms(2)]]) simp_all
  ultimately show ?thesis
    unfolding acquirePaymentFulfillmentLease_def Let_def lease_time_def [symmetric]
    by (auto simp: run_sql [OF assms(1)]) (simp_all add: leased_def lease_time_def)
qed

subsection \<open>Completion\<close>

lemma run_audit:
  assumes "weather c = Fair"
  shows "\<exists>x t. run_prog (writeAuditLog i action) c s = (x, t) \<and> (t = s \<or> t = s\<lparr>audit_logs := audit_logs s @ [(i, action)]\<rparr>)"
  using assms by (auto simp: writeAuditLog_def run_sql insert_audit_def)

lemma run_logged: "weather c = Fair \<Longrightarrow> run_prog (hasAuditLog i action) c s = ((i, action) \<in> set (audit_logs s), s)"
  by (simp add: hasAuditLog_def run_sql)

definition completed_row :: "gateway_db \<Rightarrow> payment_order \<Rightarrow> payment_order" where
  "completed_row s r = (touched s r)\<lparr>order_status := OrderStatusCompleted, completed_at := Some (pg_time (clock s))\<rparr>"

lemma run_completed:
  assumes "weather c = Fair" "has_order s r" "order_status r = OrderStatusRecharging" "order_updated_at r = lease"
    and "order_id r = order_id o1"
  shows "\<exists>t. run_prog (markCompleted o1 lease action) c s = (None, t) \<and> orders t = orders (set_order s (completed_row s r)) \<and>
     users t = users s \<and> redeem_codes t = redeem_codes s"
proof -
  obtain n where n: "update_order (order_id o1)
      (\<lambda>r. order_status r = OrderStatusRecharging \<and> order_updated_at r = lease)
      (\<lambda>r. (touched s r)\<lparr>order_status := OrderStatusCompleted, completed_at := Some (pg_time (clock s))\<rparr>) s =
        (Inr (Suc n), set_order s (completed_row s r))"
    using update_has_order [OF assms(2), where cond = "\<lambda>r. order_status r = OrderStatusRecharging \<and> order_updated_at r = lease"
        and f = "\<lambda>r. (touched s r)\<lparr>order_status := OrderStatusCompleted, completed_at := Some (pg_time (clock s))\<rparr>"] assms(3-5)
    by (auto simp: completed_row_def touched_def)
  obtain x t where t: "run_prog (writeAuditLog (order_id o1) action) c (set_order s (completed_row s r)) = (x, t)"
    "t = set_order s (completed_row s r) \<or>
     t = (set_order s (completed_row s r))\<lparr>audit_logs := audit_logs (set_order s (completed_row s r)) @ [(order_id o1, action)]\<rparr>"
    using run_audit [OF assms(1)] by meson
  show ?thesis
    using t unfolding markCompleted_def
    by (auto simp: run_sql [OF assms(1)] run_logged [OF assms(1)] n)
qed

lemma run_rebate:
  assumes "weather c = Fair" "rebate_rule c = Inr x"
  shows "\<exists>t. run_prog (applyAffiliateRebateForOrder o1) c s = (None, t) \<and> orders t = orders s \<and> users t = users s \<and>
     redeem_codes t = redeem_codes s \<and> clock t = clock s"
  using assms by (simp add: applyAffiliateRebateForOrder_def under_weather_def rebate_tx_def)
subsection \<open>Redemption\<close>

text \<open>A state in which the code of a paid order can be redeemed by its user.\<close>

definition redeemable :: "gateway_db \<Rightarrow> int \<Rightarrow> RedeemCode \<Rightarrow> bool" where
  "redeemable s w cd \<longleftrightarrow> List.find (\<lambda>r. rc_code r = rc_code cd) (redeem_codes s) = Some cd \<and>
     rc_type cd = RedeemTypeBalance \<and> rc_value cd > 0 \<and> rc_expires_at cd = None \<and> rc_status cd = StatusUnused \<and>
     redeem_attempts s w < redeemMaxErrorsPerHour"

definition raised :: "usd \<Rightarrow> user_row \<Rightarrow> user_row" where
  "raised x u = u\<lparr>balance := balance u + x, total_recharged := total_recharged u + x\<rparr>"

lemma unused_not_expired: "StatusUnused \<noteq> StatusExpired" "StatusUnused \<noteq> StatusUsed"
  by (simp_all add: redeem_const_defs)

lemma run_redeem_locked:
  assumes fair: "weather c = Fair" and rule: "rebate_rule c = Inr x" and ok: "redeemable s w cd" and user: "users s w = Some row"
  shows "\<exists>y t. run_prog (redeem_locked L skip w (rc_code cd) notes) c s = (Inr y, t) \<and> orders t = orders s \<and>
     users t = (users s)(w \<mapsto> raised (rc_value cd) row) \<and> clock t = clock s \<and> code_used (rc_code cd) t"
proof -
  have find: "List.find (\<lambda>r. rc_code r = rc_code cd) (redeem_codes s) = Some cd"
    using ok by (simp add: redeemable_def)
  have cd: "cd \<in> set (redeem_codes s)" using ok by (auto simp: redeemable_def find_Some_iff)
  have fields: "rc_type cd = RedeemTypeBalance" "rc_value cd > 0" "rc_expires_at cd = None" "rc_status cd = StatusUnused"
    using ok by (simp_all add: redeemable_def)
  define t where "t = s\<lparr>redeem_codes := map (\<lambda>r. if rc_id r = rc_id cd \<and> rc_status r = StatusUnused
      then r\<lparr>rc_status := StatusUsed, rc_used_by := Some w, rc_used_at := Some (pg_time (clock s))\<rparr> else r) (redeem_codes s),
      users := (users s)(w \<mapsto> raised (rc_value cd) row)\<rparr>"
  have tx: "redeem_tx (cal L) w cd notes s = (Inr (), t)"
    using cd fields user unfolding redeem_tx_def also_stmt_def use_code_def redeem_benefit_def UpdateBalance_def update_user_def
    by (auto simp: wrapping_def t_def raised_def)
  have "map rc_id (redeem_codes t) = map rc_id (redeem_codes s)"
    by (simp add: t_def)
  then have "rc_id cd \<in> rc_id ` set (redeem_codes t)"
    using cd by (metis image_eqI set_map)
  then have "List.find (\<lambda>x. rc_id x = rc_id cd) (redeem_codes t) \<noteq> None"
    by (auto simp: find_None_iff)
  then obtain y where y: "List.find (\<lambda>x. rc_id x = rc_id cd) (redeem_codes t) = Some y" by auto
  have user': "find_user w s = (Inr row, s)" using user by (simp add: find_user_def)
  have "\<exists>u. run_prog (tryAccrueAffiliateRebateForRedeem skip) c t = (Inr (), u) \<and> orders u = orders t \<and> users u = users t \<and>
      clock u = clock t \<and> redeem_codes u = redeem_codes t"
    by (simp add: tryAccrueAffiliateRebateForRedeem_def under_weather_def fair rule)
  then obtain u where u: "run_prog (tryAccrueAffiliateRebateForRedeem skip) c t = (Inr (), u)" "orders u = orders t"
    "users u = users t" "clock u = clock t" "redeem_codes u = redeem_codes t" by meson
  have "run_prog (redeem_locked L skip w (rc_code cd) notes) c s = (Inr y, u)"
    using fields y u(1,5)
    by (simp add: redeem_locked_def run_sql [OF fair] find IsExpiredAt_def CanUse_def unused_not_expired redeem_precheck_def
        user' tx find_code_def)
  moreover have "code_used (rc_code cd) u"
    unfolding code_used_def u(5)
    by (rule bexI [of _ "cd\<lparr>rc_status := StatusUsed, rc_used_by := Some w, rc_used_at := Some (pg_time (clock s))\<rparr>"])
      (use cd fields(4) in \<open>auto simp: t_def IsUsed_def intro!: image_eqI [of _ _ cd]\<close>)
  ultimately show ?thesis using u by (simp add: t_def)
qed

lemma run_redeem:
  assumes fair: "weather c = Fair" and rule: "rebate_rule c = Inr x" and ok: "redeemable s w cd" and user: "users s w = Some row"
    and free: "rc_code cd \<notin> set (redeem_locks s)"
  shows "\<exists>y t. run_prog (Redeem L skip w (rc_code cd) notes) c s = (Inr y, t) \<and> orders t = orders s \<and>
     users t = (users s)(w \<mapsto> raised (rc_value cd) row) \<and> clock t = clock s \<and> code_used (rc_code cd) t"
proof -
  let ?s = "s\<lparr>redeem_locks := rc_code cd # redeem_locks s\<rparr>"
  have ok': "redeem_attempts s w < redeemMaxErrorsPerHour" using ok by (simp add: redeemable_def)
  then have limit: "\<not> redeemMaxErrorsPerHour \<le> redeem_attempts s w" by simp
  have "\<exists>y t. run_prog (redeem_locked L skip w (rc_code cd) notes) c ?s = (Inr y, t) \<and> orders t = orders ?s \<and>
     users t = (users ?s)(w \<mapsto> raised (rc_value cd) row) \<and> clock t = clock ?s \<and> code_used (rc_code cd) t"
    by (rule run_redeem_locked [OF fair rule]) (use ok user in \<open>simp_all add: redeemable_def\<close>)
  then show ?thesis
    by (auto simp: code_used_def Redeem_def checkRedeemRateLimit_def acquireRedeemLock_def releaseRedeemLock_def run_sql [OF fair] limit free)
qed
subsection \<open>Balance orders\<close>

text \<open>What an earlier attempt may have left: no code, a code that is not used, or a used code.\<close>

definition settleable :: "gateway_db \<Rightarrow> payment_order \<Rightarrow> user_row \<Rightarrow> bool" where
  "settleable s r row \<longleftrightarrow> users s (order_user r) = Some row \<and> 0 < order_amount r \<and>
     length (recharge_code r) \<le> 32 \<and> trim_space (recharge_code r) = recharge_code r \<and> recharge_code r \<noteq> '''' \<and>
     redeem_attempts s (order_user r) < redeemMaxErrorsPerHour \<and> recharge_code r \<notin> set (redeem_locks s) \<and>
     (\<forall>cd\<in>set (redeem_codes s). rc_code cd = recharge_code r \<longrightarrow>
        rc_type cd = RedeemTypeBalance \<and> rc_value cd = order_amount r \<and> rc_expires_at cd = None \<and>
        rc_status cd \<in> {StatusUnused, StatusUsed})"

text \<open>What the user has after the order was settled: the amount, unless its code was used before.\<close>

definition settled_users :: "gateway_db \<Rightarrow> payment_order \<Rightarrow> user_row \<Rightarrow> (int \<rightharpoonup> user_row)" where
  "settled_users s r row =
     (if code_used (recharge_code r) s then users s else (users s)(order_user r \<mapsto> raised (order_amount r) row))"

lemma run_rebate_and_complete:
  assumes fair: "weather c = Fair" and rule: "rebate_rule c = Inr x" and r: "has_order s r"
    "order_status r = OrderStatusRecharging" "order_updated_at r = lease" "order_id r = order_id o1"
  shows "\<exists>t r'. run_prog (rebate_and_complete o1 lease action) c s = (None, t) \<and> users t = users s \<and>
     has_order t r' \<and> same_order r r' \<and> order_status r' = OrderStatusCompleted"
proof -
  obtain u where u: "run_prog (applyAffiliateRebateForOrder o1) c s = (None, u)" "orders u = orders s" "users u = users s"
    using run_rebate [OF fair rule] by meson
  have "has_order u r" using r(1) u(2) has_order_cong by blast
  then obtain t where t: "run_prog (markCompleted o1 lease action) c u = (None, t)"
      "orders t = orders (set_order u (completed_row u r))" "users t = users u"
    using run_completed [OF fair _ r(2-4)] by meson
  have "has_order (set_order u (completed_row u r)) (completed_row u r)"
    by (rule has_order_set [OF \<open>has_order u r\<close>]) (simp add: completed_row_def touched_def)
  then have "has_order t (completed_row u r)" using t(2) has_order_cong by blast
  moreover have "run_prog (rebate_and_complete o1 lease action) c s = (None, t)"
    using u(1) t(1) by (simp add: rebate_and_complete_def)
  ultimately show ?thesis
    using u(3) t(3) by (intro exI [of _ t] exI [of _ "completed_row u r"]) (simp add: completed_row_def touched_def same_order_def)
qed

lemma run_redeem_and_complete:
  assumes fair: "weather c = Fair" and rule: "rebate_rule c = Inr x" and r: "has_order s r"
    "order_status r = OrderStatusRecharging" "order_updated_at r = lease" "order_id r = order_id o1"
    and ok: "redeemable s (order_user o1) cd" "rc_code cd = recharge_code o1" "rc_code cd \<notin> set (redeem_locks s)"
      "users s (order_user o1) = Some row"
  shows "\<exists>t r'. run_prog (redeem_and_complete L o1 lease) c s = (None, t) \<and>
     users t = (users s)(order_user o1 \<mapsto> raised (rc_value cd) row) \<and>
     has_order t r' \<and> same_order r r' \<and> order_status r' = OrderStatusCompleted"
proof -
  obtain y u where u: "run_prog (Redeem L True (order_user o1) (recharge_code o1) '''') c s = (Inr y, u)" "orders u = orders s"
    "users u = (users s)(order_user o1 \<mapsto> raised (rc_value cd) row)"
    using run_redeem [OF fair rule ok(1,4,3)] ok(2) by metis
  have "has_order u r" using r(1) u(2) has_order_cong by blast
  then show ?thesis
    using run_rebate_and_complete [OF fair rule _ r(2-4), of u "''RECHARGE_SUCCESS''"] u
    by (simp add: redeem_and_complete_def)
qed

lemma find_append:
  "List.find P (xs @ ys) = (case List.find P xs of None \<Rightarrow> List.find P ys | Some x \<Rightarrow> Some x)"
  by (induction xs) auto

lemma find_code_cases:
  obtains (missing) "List.find (\<lambda>r. rc_code r = code) rs = None" "code \<notin> rc_code ` set rs"
  | (found) cd where "List.find (\<lambda>r. rc_code r = code) rs = Some cd" "cd \<in> set rs" "rc_code cd = code"
  by (cases "List.find (\<lambda>r. rc_code r = code) rs") (auto simp: find_None_iff find_Some_iff)

lemma run_create:
  assumes fair: "weather c = Fair" and r: "settleable s r row" and none: "recharge_code r \<notin> rc_code ` set (redeem_codes s)"
  shows "run_prog (CreateCode (order_code r)) c s = (None,
     s\<lparr>redeem_codes := redeem_codes s @ [(order_code r)\<lparr>rc_id := next_code_id s\<rparr>], next_code_id := next_code_id s + 1\<rparr>)"
proof -
  have "RedeemTypeBalance \<noteq> ''''" "StatusUnused \<noteq> ''''" "StatusUnused \<noteq> StatusExpired" by (simp_all add: redeem_const_defs)
  moreover have "trim_space (recharge_code r) = recharge_code r" "recharge_code r \<noteq> ''''" "order_amount r \<noteq> 0"
    "\<not> 32 < length (recharge_code r)" using r by (simp_all add: settleable_def)
  ultimately show ?thesis
    using none by (simp add: CreateCode_def order_code_def Let_def IsExpiredAt_def run_sql [OF fair] insert_code_def)
qed

lemma run_doBalance:
  assumes fair: "weather c = Fair" and rule: "rebate_rule c = Inr x" and r: "has_order s r"
    "order_status r = OrderStatusRecharging" "order_updated_at r = lease" "order_id r = order_id o1"
    and ok: "settleable s o1 row" and codes: "distinct (map rc_code (redeem_codes s))"
  shows "\<exists>t r'. run_prog (doBalance L o1 lease) c s = (None, t) \<and> users t = settled_users s o1 row \<and>
     has_order t r' \<and> same_order r r' \<and> order_status r' = OrderStatusCompleted"
proof (rule find_code_cases [of "recharge_code o1" "redeem_codes s"])
  assume none: "List.find (\<lambda>r. rc_code r = recharge_code o1) (redeem_codes s) = None"
    "recharge_code o1 \<notin> rc_code ` set (redeem_codes s)"
  define cd where "cd = (order_code o1)\<lparr>rc_id := next_code_id s\<rparr>"
  define u where "u = s\<lparr>redeem_codes := redeem_codes s @ [cd], next_code_id := next_code_id s + 1\<rparr>"
  have "List.find (\<lambda>r. rc_code r = recharge_code o1) (redeem_codes s @ [cd]) = Some cd"
    using none by (simp add: find_append cd_def order_code_def)
  then have red: "redeemable u (order_user o1) cd"
    using ok by (simp add: redeemable_def u_def settleable_def cd_def order_code_def)
  have "\<not> code_used (recharge_code o1) s" using none(2) by (force simp: code_used_def)
  then have users: "settled_users s o1 row = (users u)(order_user o1 \<mapsto> raised (rc_value cd) row)"
    by (simp add: settled_users_def u_def cd_def order_code_def)
  have "has_order u r" using r(1) by (simp add: has_order_def u_def)
  from run_redeem_and_complete [OF fair rule this r(2-4) red, of row L]
  show ?thesis
    using none(1) ok users run_create [OF fair ok none(2)]
    by (simp add: doBalance_def run_sql [OF fair] find_code_def resolveRedeemAction_def settleable_def u_def [symmetric]
        cd_def [symmetric]) (simp add: u_def cd_def order_code_def)
next
  fix cd assume cd: "List.find (\<lambda>r. rc_code r = recharge_code o1) (redeem_codes s) = Some cd" "cd \<in> set (redeem_codes s)"
    "rc_code cd = recharge_code o1"
  have fields: "rc_type cd = RedeemTypeBalance" "rc_value cd = order_amount o1" "rc_expires_at cd = None"
    "rc_status cd = StatusUnused \<or> rc_status cd = StatusUsed"
    using ok cd(2,3) by (auto simp: settleable_def)
  have used: "code_used (recharge_code o1) s \<longleftrightarrow> IsUsed cd"
    using cd(2,3) distinct_map_same [OF codes] unfolding code_used_def by metis
  show ?thesis
  proof (cases "IsUsed cd")
    case True
    then show ?thesis
      using run_rebate_and_complete [OF fair rule r, of "''RECHARGE_SUCCESS''"] used
      by (simp add: doBalance_def run_sql [OF fair] find_code_def cd(1) resolveRedeemAction_def settled_users_def)
  next
    case False
    then have red: "redeemable s (order_user o1) cd"
      using ok fields cd(1,3) by (auto simp: redeemable_def settleable_def IsUsed_def)
    have "rc_code cd \<notin> set (redeem_locks s)" "users s (order_user o1) = Some row"
      using ok cd(3) by (simp_all add: settleable_def)
    from run_redeem_and_complete [OF fair rule r red cd(3) this, of L] show ?thesis
      using False used fields(2)
      by (simp add: doBalance_def run_sql [OF fair] find_code_def cd(1) resolveRedeemAction_def settled_users_def)
  qed
qed
lemma settles:
  assumes inv: "payment_inv initial s" and r: "r \<in> set (orders s)" "order_type r \<noteq> OrderTypeSubscription" "claimable s r"
    and user: "users s (order_user r) = Some row" "redeem_attempts s (order_user r) < redeemMaxErrorsPerHour"
    and code: "0 < order_amount r" "length (recharge_code r) \<le> 32" "recharge_code r \<notin> set (redeem_locks s)"
    and fair: "weather c = Fair" "rebate_rule c = Inr x"
  shows "\<exists>t r'. run_prog (executeFulfillment L (order_id r)) c s = (None, t) \<and> r' \<in> set (orders t) \<and>
     same_order r r' \<and> order_status r' = OrderStatusCompleted \<and> users t = settled_users s r row"
proof -
  have has: "has_order s r"
    using payment_invD(1) [OF inv] r(1) by (simp add: has_order_def orders_ok_def)
  obtain n where n: "recharge_code r = order_recharge_code (order_id r) n"
    using payment_invD(1) [OF inv] r(1) by (auto simp: orders_ok_def)
  have ok: "settleable s r row"
    using user code payment_invD(3) [OF inv] r(1) n
    by (simp add: settleable_def codes_match_def) (simp add: order_recharge_code_def)
  define s1 where "s1 = set_order s (leased s r)"
  have lease: "run_prog (acquirePaymentFulfillmentLease r) c s = (Inr (Some (lease_time s)), s1)"
    unfolding s1_def by (rule run_lease [OF fair(1) has r(3)])
  have has1: "has_order s1 (leased s r)" unfolding s1_def by (rule has_order_set [OF has]) simp
  have same_use: "code_used (recharge_code r) s1 = code_used (recharge_code r) s" by (simp add: code_used_def s1_def)
  have ok1: "settleable s1 r row" "settled_users s1 r row = settled_users s r row" "distinct (map rc_code (redeem_codes s1))"
    using ok payment_invD(2) [OF inv] same_use by (simp_all add: s1_def settleable_def settled_users_def codes_ok_def)
  obtain t r' where t: "run_prog (doBalance L r (lease_time s)) c s1 = (None, t)" "users t = settled_users s r row"
    "has_order t r'" "same_order (leased s r) r'" "order_status r' = OrderStatusCompleted"
    using run_doBalance [OF fair has1 _ _ _ ok1(1,3), of "lease_time s" L] ok1(2) by (auto simp: leased_def)
  have "may_fulfil r = None" "order_status r \<noteq> OrderStatusCompleted"
    using r(3) by (auto simp: may_fulfil_def claimable_def psIsRefundStatus_def order_status_defs)
  then have "run_prog (executeFulfillment L (order_id r)) c s = (None, t)"
    using r(2) lease t(1)
    by (simp add: executeFulfillment_def ExecuteBalanceFulfillment_def under_lease_def run_read_order [OF fair(1) has])
  moreover have "same_order r r'" using t(4) by (simp add: same_order_def leased_def)
  ultimately show ?thesis using t has_order_def by blast
qed

text \<open>C11: A paid order of a balance is not left behind: whatever earlier attempts did before they failed or died, one
  undisturbed call of \<^verbatim>\<open>executeFulfillment\<close> on a working connection completes it. If the redeem code of the order was not
  used before, the user is credited its amount by this call; if it was, by an earlier attempt or by somebody else
  (\<open>paid_to_another\<close>), nobody is credited again. The order may be paid, failed, or held by a lease that is over; its user
  exists and is not locked out by the redeem limiter, and nobody else is just redeeming its code.\<close>

theorem order_settles:
  assumes "payment_inv initial s" "r \<in> set (orders s)" "order_type r \<noteq> OrderTypeSubscription" "claimable s r"
    and "users s (order_user r) = Some row" "redeem_attempts s (order_user r) < redeemMaxErrorsPerHour"
    and "0 < order_amount r" "length (recharge_code r) \<le> 32" "recharge_code r \<notin> set (redeem_locks s)"
    and "weather c = Fair" "rebate_rule c = Inr x"
  shows "\<exists>t r'. run_prog (executeFulfillment L (order_id r)) c s = (None, t) \<and> r' \<in> set (orders t) \<and>
     same_order r r' \<and> order_status r' = OrderStatusCompleted \<and> users t = settled_users s r row"
  using assms by (rule settles)

subsection \<open>Notifications that do not match\<close>


definition untouched :: "gateway_db \<Rightarrow> gateway_db \<Rightarrow> bool" where
  "untouched s t \<longleftrightarrow> orders t = orders s \<and> users t = users s \<and> redeem_codes t = redeem_codes s \<and> subs t = subs s"

lemma untouched_refl [simp]: "untouched s s"
  by (simp add: untouched_def)

lemma runs_audited: "untouched s (snd (run_prog (audited_error i action e) c s))"
  by (simp add: untouched_def audited_error_def writeAuditLog_def sql_def under_weather_def insert_audit_def split: weather.splits)

lemma mismatch_refused:
  assumes "\<And>r. r \<in> set (orders s) \<Longrightarrow> order_id r = oid \<Longrightarrow> \<not> isValidProviderAmount paid \<or>
     amounts_differ (paymentAmountToleranceForCurrency L (PaymentOrderCurrency L r)) (the paid) (pay_amount r)"
  shows "untouched s (snd (run_prog (confirmPayment L oid tradeNo paid pk metadata) c s))"
proof (cases "run_prog (order_by_id oid) c s")
  case (Pair res t)
  then have t: "t = s" and found: "\<And>r. res = Inr r \<Longrightarrow> r \<in> set (orders s) \<and> order_id r = oid"
    by (auto simp: order_by_id_def sql_def under_weather_def find_order_def find_Some_iff split: weather.splits option.splits)
  show ?thesis
  proof (cases res)
    case (Inl e)
    then show ?thesis by (simp add: confirmPayment_def Pair t)
  next
    case (Inr r)
    with found have "r \<in> set (orders s)" "order_id r = oid" by blast+
    note bad = assms [OF this]
    show ?thesis
    proof (cases "isValidProviderAmount paid")
      case True
      with bad have "amounts_differ (paymentAmountToleranceForCurrency L (PaymentOrderCurrency L r)) (the paid) (pay_amount r)"
        by blast
      with True show ?thesis
        by (simp add: confirmPayment_def Pair t Inr getOrderProviderInstance_def Let_def runs_audited split: option.split)
    next
      case False
      then show ?thesis
        by (simp add: confirmPayment_def Pair t Inr getOrderProviderInstance_def Let_def runs_audited split: option.split)
    qed
  qed
qed

lemma tolerance_small: "paymentAmountToleranceForCurrency L cur \<le> 1 / 100"
  by (simp add: paymentAmountToleranceForCurrency_def CurrencyMinorUnit_def Let_def power_divide split: option.split)

text \<open>C23: A notification whose amount is not a positive number, or is more than a cent (a hundredth of the unit, whatever the
  currency) off what the order it names asks for, changes no order, no code, no balance and no subscription, whatever the
  database, the provider and the caller answer. It names an order by its trade number, or by the number behind the legacy prefix.\<close>

theorem mismatch_never_pays:
  assumes "distinct (map order_id (orders s))"
    and "\<And>r. r \<in> set (orders s) \<Longrightarrow>
       out_trade_no r = n_order_id n \<or> parse_int64 (drop 5 (trim_space (n_order_id n))) = Some (order_id r) \<Longrightarrow>
       n_amount n = None \<or> the (n_amount n) \<le> 0 \<or> 1 / 100 < \<bar>the (n_amount n) - pay_amount r\<bar>"
  shows "orders (snd (run_prog (HandlePaymentNotification L n pk) c s)) = orders s \<and>
     users (snd (run_prog (HandlePaymentNotification L n pk) c s)) = users s \<and>
     redeem_codes (snd (run_prog (HandlePaymentNotification L n pk) c s)) = redeem_codes s \<and>
     subs (snd (run_prog (HandlePaymentNotification L n pk) c s)) = subs s"
proof -
  have refused: "\<not> isValidProviderAmount (n_amount n) \<or>
      amounts_differ (paymentAmountToleranceForCurrency L (PaymentOrderCurrency L r)) (the (n_amount n)) (pay_amount r)"
    if "r \<in> set (orders s)" "out_trade_no r = n_order_id n \<or> parse_int64 (drop 5 (trim_space (n_order_id n))) = Some (order_id r)" for r
    using assms(2) [OF that] tolerance_small [of L "PaymentOrderCurrency L r"]
    by (auto simp: isValidProviderAmount_def amounts_differ_def split: option.split)
  have same: "untouched s (snd (run_prog (confirmPayment L oid no (n_amount n) pk m) c s))"
    if "\<And>r. r \<in> set (orders s) \<Longrightarrow> order_id r = oid \<Longrightarrow>
      out_trade_no r = n_order_id n \<or> parse_int64 (drop 5 (trim_space (n_order_id n))) = Some (order_id r)" for oid no m
    by (rule mismatch_refused) (use refused that in blast)
  obtain res t where look: "run_prog (order_by_trade_no (n_order_id n)) c s = (res, t)" by fastforce
  then have t: "t = s" and found: "\<And>r. res = Inr r \<Longrightarrow> r \<in> set (orders s) \<and> out_trade_no r = n_order_id n"
    by (auto simp: order_by_trade_no_def sql_def under_weather_def find_order_def find_Some_iff split: weather.splits option.splits)
  have "untouched s (snd (run_prog (HandlePaymentNotification L n pk) c s))"
  proof (cases res)
    case (Inl e)
    have legacy: "parse_int64 (drop 5 (trim_space (n_order_id n))) = Some oid" if "parseLegacyPaymentOrderID (n_order_id n) e = Some oid" for oid
      using that by (auto simp: parseLegacyPaymentOrderID_def orderIDPrefix_def Let_def eval_nat_numeral split: if_splits option.splits)
    show ?thesis
      using same legacy by (auto simp: HandlePaymentNotification_def look t Inl split: option.split)
  next
    case (Inr o1)
    have "r = o1" if "r \<in> set (orders s)" "order_id r = order_id o1" for r
      using distinct_map_same [OF assms(1) that(1)] found [OF Inr] that(2) by blast
    then have "untouched s (snd (run_prog (confirmPayment L (order_id o1) (n_trade_no n) (n_amount n) pk (n_metadata n)) c s))"
      using found [OF Inr] by (intro same) blast
    then show ?thesis by (simp add: HandlePaymentNotification_def look t Inr)
  qed
  then show ?thesis by (simp add: untouched_def)
qed
subsection \<open>A shop\<close>

definition shop_lib :: pay_lib where
  "shop_lib = \<lparr>equal_fold = (=), to_upper = id, registry_key = (\<lambda>_. ''''), error_text = (\<lambda>_. ''failed''), cal = utc_calendar\<rparr>"

definition shop_user :: user_row where
  "shop_user = \<lparr>balance = 0, total_recharged = 0, concurrency = 5\<rparr>"

definition shop_db :: gateway_db where
  "shop_db = \<lparr>clock = 63900000000 * second, orders = [], next_order_id = 7, redeem_codes = [], next_code_id = 1,
     users = [1 \<mapsto> shop_user, 2 \<mapsto> shop_user], audit_logs = [], rebates = [], groups = Map.empty, subs = [],
     next_sub_id = 1, redeem_attempts = (\<lambda>_. 0), redeem_locks = []\<rparr>"

definition shop_sel :: InstanceSelection where
  "shop_sel = \<lparr>sel_InstanceID = ''3'', sel_ProviderKey = ''alipay'', sel_Config = [(''appId'', ''app1'')], sel_PaymentMode = ''''\<rparr>"

definition shop_req :: CreateOrderRequest where
  "shop_req = \<lparr>req_UserID = 1, req_PaymentType = ''alipay'', req_OrderType = ''balance'', req_OpenID = ''''\<rparr>"

definition shop_cfg :: PaymentConfig where
  "shop_cfg = \<lparr>MaxPendingOrders = 3, DailyLimit = 0, OrderTimeoutMin = 30\<rparr>"

definition shop_order :: payment_order where
  "shop_order = new_order shop_lib shop_req None 20 10 (Some shop_sel) ''sub2_20260101Ab3x9QzT'' (63900001800 * second) shop_db"

lemma shop_order_fields [simp]:
  "order_id shop_order = 7" "order_user shop_order = 1" "order_type shop_order = ''balance''" "order_amount shop_order = 20"
  "pay_amount shop_order = 10" "order_status shop_order = OrderStatusPending" "recharge_code shop_order = order_recharge_code 7 0"
  "out_trade_no shop_order = ''sub2_20260101Ab3x9QzT''"
  by (simp_all add: shop_order_def new_order_def shop_req_def shop_db_def UnixNano_def second_def go_mod_def go_div_def)

lemma shop_code_length: "length (order_recharge_code 7 0) = 7"
  by code_simp

lemma shop_db_fields [simp]:
  "clock shop_db = 63900000000 * second" "orders shop_db = []" "next_order_id shop_db = 7" "redeem_codes shop_db = []"
  "next_code_id shop_db = 1" "users shop_db = [1 \<mapsto> shop_user, 2 \<mapsto> shop_user]" "audit_logs shop_db = []"
  "redeem_attempts shop_db w = 0" "redeem_locks shop_db = []" "rebates shop_db = []"
  by (simp_all add: shop_db_def)

lemma shop_fair [simp]:
  "weather fair_chance = Fair" "create_payment fair_chance = Inr ''''" "rebate_rule fair_chance = Inr 0"
  "instance_key fair_chance = None" "generateOutTradeNo fair_chance = ''sub2_20260101Ab3x9QzT''"
  by (simp_all add: generateOutTradeNo_def fair_chance_def orderIDPrefix_def)

lemma shop_new_order:
  "new_order shop_lib shop_req None 20 10 (Some shop_sel) ''sub2_20260101Ab3x9QzT'' (add_time (63900000000 * second) (30 * minute)) shop_db =
     shop_order"
  by (simp add: shop_order_def second_def minute_def add_time_def)

lemma shop_touched: "order_updated_at shop_order = pg_time (63900000000 * second)" "payment_trade_no shop_order = ''''"
  "provider_key shop_order = Some ''alipay''"
proof -
  have "trim_space ''alipay'' = ''alipay''" by (rule trim_space_plain) (simp add: plain_char_def)
  then show "provider_key shop_order = Some ''alipay''" by (simp add: shop_order_def new_order_def shop_sel_def)
qed (simp_all add: shop_order_def new_order_def)

definition ordered_db :: gateway_db where
  "ordered_db = shop_db\<lparr>orders := [shop_order], next_order_id := 8, audit_logs := [(7, ''ORDER_CREATED'')]\<rparr>"

lemma same_row: "r\<lparr>order_updated_at := order_updated_at r, payment_trade_no := payment_trade_no r, provider_key := provider_key r\<rparr> = r"
  by simp

lemma shop_places_order:
  "run_prog (place_order shop_lib shop_req None shop_cfg 20 10 10 shop_sel) fair_chance shop_db = (Inr shop_order, ordered_db)"
proof -
  have "(touched (shop_db\<lparr>orders := [shop_order], next_order_id := 8\<rparr>) shop_order)
      \<lparr>payment_trade_no := '''', provider_key := Some ''alipay''\<rparr> = shop_order"
    using same_row [of shop_order] by (simp add: touched_def shop_touched)
  then show ?thesis
    by (simp add: place_order_def createOrderInTx_def checkPendingLimit_def checkDailyLimit_def allocateOutTradeNo_def run_sql
        eval_nat_numeral under_weather_def invokeProvider_def writeAuditLog_def insert_audit_def insert_order_def
        update_one_order_def shop_cfg_def pending_of_def Let_def shop_new_order shop_touched ordered_db_def)
      (simp add: shop_sel_def)
qed
definition shop_notice :: payment_notification where
  "shop_notice = \<lparr>n_trade_no = ''T1'', n_order_id = ''sub2_20260101Ab3x9QzT'', n_amount = Some 10, n_status = ''success'',
     n_metadata = []\<rparr>"

definition paid_order :: payment_order where
  "paid_order = (touched ordered_db shop_order)\<lparr>order_status := OrderStatusPaid, pay_amount := 10, payment_trade_no := ''T1'',
     paid_at := Some (pg_time (clock ordered_db)), failed_at := None, failed_reason := None\<rparr>"

definition paid_db :: gateway_db where
  "paid_db = ordered_db\<lparr>orders := [paid_order]\<rparr>"

definition paid_logged_db :: gateway_db where
  "paid_logged_db = paid_db\<lparr>audit_logs := [(7, ''ORDER_CREATED''), (7, ''ORDER_PAID'')]\<rparr>"

lemma paid_order_fields [simp]:
  "order_id paid_order = 7" "order_user paid_order = 1" "order_type paid_order = ''balance''" "order_amount paid_order = 20"
  "order_status paid_order = OrderStatusPaid" "recharge_code paid_order = order_recharge_code 7 0"
  by (simp_all add: paid_order_def touched_def)

lemma tolerance_nonneg: "0 \<le> paymentAmountToleranceForCurrency L cur"
  by (simp add: paymentAmountToleranceForCurrency_def Let_def)

lemma paid_inv: "payment_inv (\<lambda>_. 0) paid_logged_db"
  by (auto simp: payment_inv_def payment_inv_parts paid_logged_db_def paid_db_def ordered_db_def credited_def shop_user_def
      split: if_splits)

lemma paid_settles:
  "\<exists>t r'. run_prog (executeFulfillment L 7) fair_chance paid_logged_db = (None, t) \<and> r' \<in> set (orders t) \<and>
     order_id r' = 7 \<and> order_status r' = OrderStatusCompleted \<and> users t = settled_users paid_logged_db paid_order shop_user"
  using settles [OF paid_inv, of paid_order shop_user fair_chance 0 L]
  by (simp add: same_order_def paid_logged_db_def paid_db_def ordered_db_def OrderTypeSubscription_def claimable_def shop_code_length
      redeemMaxErrorsPerHour_def) blast

lemma shop_confirms:
  "run_prog (HandlePaymentNotification shop_lib shop_notice '''') fair_chance (ordered_db\<lparr>redeem_attempts := A\<rparr>) =
   run_prog (executeFulfillment shop_lib 7) fair_chance (paid_logged_db\<lparr>redeem_attempts := A\<rparr>)"
proof -
  let ?s = "ordered_db\<lparr>redeem_attempts := A\<rparr>" and ?t = "paid_db\<lparr>redeem_attempts := A\<rparr>"
  have order: "List.find (\<lambda>r. out_trade_no r = ''sub2_20260101Ab3x9QzT'') (orders ordered_db) = Some shop_order"
    "List.find (\<lambda>r. order_id r = 7) (orders ordered_db) = Some shop_order" by (simp_all add: ordered_db_def)
  have "\<not> amounts_differ (paymentAmountToleranceForCurrency shop_lib cur) 10 10" for cur
    using tolerance_nonneg [of shop_lib cur] by (simp add: amounts_differ_def)
  moreover have "trim_space '''' = ''''" by simp
  moreover have "GetBasePaymentType '''' \<noteq> TypeEasyPay" by (simp add: GetBasePaymentType_def TypeEasyPay_def)
  moreover have "order_status shop_order \<noteq> OrderStatusCancelled \<and> order_status shop_order \<noteq> OrderStatusExpired"
    by (simp add: order_status_defs)
  moreover have "insert_audit 7 ''ORDER_PAID'' ?t = (Inr (), paid_logged_db\<lparr>redeem_attempts := A\<rparr>)"
    by (simp add: insert_audit_def paid_logged_db_def paid_db_def ordered_db_def)
  moreover have "update_order 7 (\<lambda>r. order_status r = OrderStatusPending \<or> order_status r = OrderStatusCancelled \<or>
      order_status r = OrderStatusExpired \<and> order_updated_at r \<ge> g) (\<lambda>r. (touched ?s r)\<lparr>order_status := OrderStatusPaid,
      pay_amount := 10, payment_trade_no := ''T1'', paid_at := Some (pg_time (clock ordered_db)), failed_at := None,
      failed_reason := None\<rparr>) ?s = (Inr 1, ?t)" for g
    by (simp add: update_order_def Let_def ordered_db_def paid_db_def paid_order_def touched_def)
  ultimately show ?thesis
    by (simp add: HandlePaymentNotification_def shop_notice_def order_by_trade_no_def order_by_id_def run_sql find_order_def order
        confirmPayment_def getOrderProviderInstance_def Let_def validateProviderSnapshotMetadata_def isValidProviderAmount_def
        toPaid_def writeAuditLog_def)
qed

lemma shop_pays:
  "\<exists>t r'. run_prog (HandlePaymentNotification shop_lib shop_notice '''') fair_chance ordered_db = (None, t) \<and>
     r' \<in> set (orders t) \<and> order_id r' = 7 \<and> order_status r' = OrderStatusCompleted \<and>
     users t = settled_users paid_logged_db paid_order shop_user"
proof -
  have "ordered_db\<lparr>redeem_attempts := \<lambda>_. 0\<rparr> = ordered_db" "paid_logged_db\<lparr>redeem_attempts := \<lambda>_. 0\<rparr> = paid_logged_db"
    by (simp_all add: paid_logged_db_def paid_db_def ordered_db_def shop_db_def)
  then show ?thesis using paid_settles shop_confirms [of "\<lambda>_. 0"] by simp
qed

lemma shop_runs:
  "\<exists>S T r'. pool_reach (payment_request shop_lib) payment_env (payment_start (\<lambda>_. 0)) S \<and>
     (pool_step (payment_request shop_lib) payment_env)\<^sup>*\<^sup>* S T \<and> store S = ordered_db \<and> r' \<in> set (orders (store T)) \<and> order_id r' = 7 \<and>
     order_status r' = OrderStatusCompleted \<and> users (store T) = settled_users paid_logged_db paid_order shop_user"
proof -
  let ?S0 = "\<lparr>store = shop_db, procs = Map.empty\<rparr> :: (chance, gateway_db, unit) pool"
  let ?p = "ignoring (place_order shop_lib shop_req None shop_cfg 20 10 10 shop_sel) (Ret ()) :: unit pay"
  let ?q = "ignoring (HandlePaymentNotification shop_lib shop_notice '''') (Ret ()) :: unit pay"
  have "payment_start (\<lambda>_. 0) shop_db" by (auto simp: payment_start_def shop_user_def split: if_splits)
  then have S0: "pool_reach (payment_request shop_lib) payment_env (payment_start (\<lambda>_. 0)) ?S0" by (rule pr_init)
  have req: "payment_request shop_lib ?p" "payment_request shop_lib ?q" unfolding payment_request_def by blast+
  obtain S where S: "(pool_step (payment_request shop_lib) payment_env)\<^sup>*\<^sup>* ?S0 S" "store S = ordered_db"
      "procs S = [0 \<mapsto> Ret ()]"
    using pool_runs_prog [of ?S0 0 "payment_request shop_lib" ?p payment_env fair_chance] req(1) by (auto simp: shop_places_order)
  obtain t r' where t: "run_prog (HandlePaymentNotification shop_lib shop_notice '''') fair_chance ordered_db = (None, t)"
      "r' \<in> set (orders t)" "order_id r' = 7" "order_status r' = OrderStatusCompleted"
      "users t = settled_users paid_logged_db paid_order shop_user" using shop_pays by meson
  obtain T where T: "(pool_step (payment_request shop_lib) payment_env)\<^sup>*\<^sup>* S T" "store T = t"
    using pool_runs_prog [of S 1 "payment_request shop_lib" ?q payment_env fair_chance] req(2) t(1) by (auto simp: S(2,3))
  show ?thesis using pool_reach_steps [OF S0 S(1)] S(2) T t by blast
qed
theorem credited_once_witness:
  "\<exists>T row. pool_reach (payment_request shop_lib) payment_env (payment_start (\<lambda>_. 0)) T \<and>
     (\<exists>r\<in>set (orders (store T)). order_status r = OrderStatusCompleted) \<and> users (store T) 1 = Some row \<and>
     total_recharged row = 20 \<and> credited (redeem_codes (store T)) 1 = 20"
proof -
  obtain S T r' where T: "pool_reach (payment_request shop_lib) payment_env (payment_start (\<lambda>_. 0)) S"
    "(pool_step (payment_request shop_lib) payment_env)\<^sup>*\<^sup>* S T" "r' \<in> set (orders (store T))"
    "order_status r' = OrderStatusCompleted" "users (store T) = settled_users paid_logged_db paid_order shop_user"
    using shop_runs by meson
  have reach: "pool_reach (payment_request shop_lib) payment_env (payment_start (\<lambda>_. 0)) T"
    using T(1,2) by (rule pool_reach_steps)
  have row: "users (store T) 1 = Some (raised 20 shop_user)" "total_recharged (raised 20 shop_user) = 20"
    by (simp_all add: T(5) settled_users_def code_used_def paid_logged_db_def paid_db_def ordered_db_def raised_def shop_user_def)
  then have "credited (redeem_codes (store T)) 1 = 20"
    using credited_once [OF reach] by fastforce
  then show ?thesis using reach T(3,4) row by blast
qed

theorem order_settles_witness:
  "\<exists>t r'. run_prog (executeFulfillment shop_lib 7) fair_chance paid_logged_db = (None, t) \<and> r' \<in> set (orders t) \<and>
     order_status r' = OrderStatusCompleted \<and> users t 1 = Some (raised 20 shop_user)"
proof -
  have "claimable paid_logged_db paid_order" by (simp add: claimable_def)
  moreover have "settled_users paid_logged_db paid_order shop_user 1 = Some (raised 20 shop_user)"
    by (simp add: settled_users_def code_used_def paid_logged_db_def paid_db_def ordered_db_def)
  ultimately show ?thesis
    using order_settles [OF paid_inv, of paid_order shop_user fair_chance 0 shop_lib]
    by (simp add: paid_logged_db_def paid_db_def ordered_db_def OrderTypeSubscription_def shop_code_length
        redeemMaxErrorsPerHour_def) metis
qed

theorem mismatch_never_pays_witness:
  "orders (snd (run_prog (HandlePaymentNotification shop_lib (shop_notice\<lparr>n_amount := Some (21 / 2)\<rparr>) '''') fair_chance ordered_db)) = [shop_order]"
  using mismatch_never_pays [of ordered_db "shop_notice\<lparr>n_amount := Some (21 / 2)\<rparr>" shop_lib "''''" fair_chance]
  by (simp add: ordered_db_def)
subsection \<open>A user locked out of redeeming\<close>

lemma run_limited:
  assumes fair: "weather c = Fair" and limit: "redeemMaxErrorsPerHour \<le> redeem_attempts s w"
  shows "run_prog (Redeem L skip w code notes) c s = (Inl ErrRedeemRateLimited, s)"
  using limit by (simp add: Redeem_def checkRedeemRateLimit_def run_sql [OF fair])

definition failed_row :: "pay_lib \<Rightarrow> gateway_db \<Rightarrow> go_error \<Rightarrow> payment_order \<Rightarrow> payment_order" where
  "failed_row L s e r = (touched s r)\<lparr>order_status := OrderStatusFailed, failed_at := Some (pg_time (clock s)),
     failed_reason := Some (error_text L e)\<rparr>"

lemma run_failed:
  assumes fair: "weather c = Fair" and r: "has_order s r" "order_status r = OrderStatusRecharging" "order_updated_at r = lease"
  shows "\<exists>t. run_prog (markFailed (order_id r) lease (error_text L e)) c s = ((), t) \<and>
     orders t = orders (set_order s (failed_row L s e r)) \<and> users t = users s \<and> redeem_codes t = redeem_codes s \<and>
     redeem_locks t = redeem_locks s \<and> redeem_attempts t = redeem_attempts s \<and> next_order_id t = next_order_id s \<and>
     clock t = clock s"
proof -
  obtain n where n: "update_order (order_id r)
      (\<lambda>r. order_status r = OrderStatusRecharging \<and> order_updated_at r = lease)
      (\<lambda>r. (touched s r)\<lparr>order_status := OrderStatusFailed, failed_at := Some (pg_time (clock s)), failed_reason := Some (error_text L e)\<rparr>) s =
        (Inr (Suc n), set_order s (failed_row L s e r))"
    using update_has_order [OF r(1), where cond = "\<lambda>r. order_status r = OrderStatusRecharging \<and> order_updated_at r = lease"
        and f = "\<lambda>r. (touched s r)\<lparr>order_status := OrderStatusFailed, failed_at := Some (pg_time (clock s)),
          failed_reason := Some (error_text L e)\<rparr>"] r(2,3)
    by (auto simp: failed_row_def touched_def)
  obtain x t where t: "run_prog (writeAuditLog (order_id r) ''FULFILLMENT_FAILED'') c (set_order s (failed_row L s e r)) = (x, t)"
    "t = set_order s (failed_row L s e r) \<or>
     t = (set_order s (failed_row L s e r))\<lparr>audit_logs := audit_logs (set_order s (failed_row L s e r)) @
       [(order_id r, ''FULFILLMENT_FAILED'')]\<rparr>"
    using run_audit [OF fair] by meson
  have "next_order_id (set_order s (failed_row L s e r)) = next_order_id s" by (simp add: set_order_def)
  then show ?thesis
    using t unfolding markFailed_def by (auto simp: run_sql [OF fair] n)
qed

lemma run_locked_out:
  assumes inv: "payment_inv initial s" and r: "r \<in> set (orders s)" "order_type r \<noteq> OrderTypeSubscription" "claimable s r"
    and limit: "redeemMaxErrorsPerHour \<le> redeem_attempts s (order_user r)"
    and code: "0 < order_amount r" "length (recharge_code r) \<le> 32" "recharge_code r \<notin> rc_code ` set (redeem_codes s)"
    and fair: "weather c = Fair"
  shows "\<exists>t r' e. run_prog (executeFulfillment L (order_id r)) c s = (Some e, t) \<and> r' \<in> set (orders t) \<and>
     same_order r r' \<and> order_status r' = OrderStatusFailed \<and> users t = users s \<and>
     redeem_codes t = redeem_codes s @ [(order_code r)\<lparr>rc_id := next_code_id s\<rparr>] \<and>
     redeem_locks t = redeem_locks s \<and> redeem_attempts t = redeem_attempts s"
proof -
  have has: "has_order s r"
    using payment_invD(1) [OF inv] r(1) by (simp add: has_order_def orders_ok_def)
  obtain n where n: "recharge_code r = order_recharge_code (order_id r) n"
    using payment_invD(1) [OF inv] r(1) by (auto simp: orders_ok_def)
  define s1 where "s1 = set_order s (leased s r)"
  define cd where "cd = (order_code r)\<lparr>rc_id := next_code_id s\<rparr>"
  define s2 where "s2 = s1\<lparr>redeem_codes := redeem_codes s1 @ [cd], next_code_id := next_code_id s1 + 1\<rparr>"
  have lease: "run_prog (acquirePaymentFulfillmentLease r) c s = (Inr (Some (lease_time s)), s1)"
    unfolding s1_def by (rule run_lease [OF fair has r(3)])
  have has1: "has_order s1 (leased s r)" unfolding s1_def by (rule has_order_set [OF has]) simp
  then have has2: "has_order s2 (leased s r)" by (simp add: has_order_def s2_def)
  have none: "List.find (\<lambda>x. rc_code x = recharge_code r) (redeem_codes s1) = None"
    using code(3) by (force simp: find_None_iff s1_def)
  have "RedeemTypeBalance \<noteq> ''''" "StatusUnused \<noteq> ''''" "StatusUnused \<noteq> StatusExpired" by (simp_all add: redeem_const_defs)
  then have create: "run_prog (CreateCode (order_code r)) c s1 = (None, s2)"
    using code n by (simp add: CreateCode_def order_code_def Let_def IsExpiredAt_def run_sql [OF fair] insert_code_def s2_def
        cd_def s1_def) (simp add: order_recharge_code_def)
  define e where "e = wrap ''redeem balance'' ErrRedeemRateLimited"
  have redeem: "run_prog (Redeem L True (order_user r) (recharge_code r) '''') c s2 = (Inl ErrRedeemRateLimited, s2)"
    by (rule run_limited [OF fair]) (use limit in \<open>simp add: s2_def s1_def\<close>)
  have balance: "run_prog (doBalance L r (lease_time s)) c s1 = (Some e, s2)"
    using none create redeem
    by (simp add: doBalance_def run_sql [OF fair] find_code_def resolveRedeemAction_def redeem_and_complete_def e_def)
  obtain t where t: "run_prog (markFailed (order_id (leased s r)) (lease_time s) (error_text L e)) c s2 = ((), t)"
    "orders t = orders (set_order s2 (failed_row L s2 e (leased s r)))" "users t = users s2" "redeem_codes t = redeem_codes s2"
    "redeem_locks t = redeem_locks s2" "redeem_attempts t = redeem_attempts s2"
    using run_failed [OF fair has2, of "lease_time s" L e] by (auto simp: leased_def)
  have "may_fulfil r = None" "order_status r \<noteq> OrderStatusCompleted"
    using r(3) by (auto simp: may_fulfil_def claimable_def psIsRefundStatus_def order_status_defs)
  then have "run_prog (executeFulfillment L (order_id r)) c s = (Some e, t)"
    using r(2) lease balance t(1)
    by (simp add: executeFulfillment_def ExecuteBalanceFulfillment_def under_lease_def run_read_order [OF fair has])
  moreover have "has_order (set_order s2 (failed_row L s2 e (leased s r))) (failed_row L s2 e (leased s r))"
    by (rule has_order_set [OF has2]) (simp add: failed_row_def touched_def)
  then have "failed_row L s2 e (leased s r) \<in> set (orders t)" by (simp add: has_order_def t(2))
  ultimately show ?thesis
    using t(3-6) by (intro exI [of _ t] exI [of _ "failed_row L s2 e (leased s r)"] exI [of _ e])
      (simp add: failed_row_def touched_def leased_def same_order_def s2_def s1_def cd_def)
qed
lemma reach_run:
  assumes "pool_reach may_start env init S" "finite (dom (procs S))" "may_start (ignoring p (Ret ()))" "run_prog p c (store S) = (a, t)"
  shows "\<exists>T. pool_reach may_start env init T \<and> finite (dom (procs T)) \<and> store T = t"
proof -
  obtain i where i: "procs S i = None"
    using ex_new_if_finite [OF infinite_UNIV_nat assms(2)] by (auto simp: domIff)
  obtain T where "(pool_step may_start env)\<^sup>*\<^sup>* S T" "store T = t" "procs T = (procs S)(i \<mapsto> Ret ())"
    using pool_runs_prog [where S = S and i = i and p = "ignoring p (Ret ())" and env = env and c = c and may_start = may_start] i assms(3,4)
    by auto
  then show ?thesis using pool_reach_steps [OF assms(1)] assms(2) by (intro exI [of _ T]) simp
qed

lemma reach_env:
  assumes "pool_reach may_start env init S" "finite (dom (procs S))" "env (store S) t"
  shows "\<exists>T. pool_reach may_start env init T \<and> finite (dom (procs T)) \<and> store T = t"
  using pr_step [OF assms(1) ps_env [of env S t may_start, OF assms(3)]] assms(2)
  by (intro exI [of _ "S\<lparr>store := t\<rparr>"]) simp

lemma reach_inv:
  "pool_reach (payment_request L) payment_env (payment_start initial) S \<Longrightarrow> payment_inv initial (store S)"
  using pay.pool_reach_good [where initial = initial] pay.pool_goodD(1) payment_start_inv payment_requests_safe payment_env_safe
  by blast

text \<open>The limiter of redemptions is not among the tables of payments: its counters may be anything at any time.\<close>

lemma limiter_env:
  "payment_env s (s\<lparr>redeem_attempts := A\<rparr>)" "payment_env s (s\<lparr>redeem_attempts := \<lambda>_. 0, redeem_locks := []\<rparr>)"
proof -
  have "s\<lparr>redeem_attempts := A\<rparr> = s\<lparr>redeem_attempts := A, redeem_locks := redeem_locks s\<rparr>" by simp
  then show "payment_env s (s\<lparr>redeem_attempts := A\<rparr>)" unfolding payment_env_def by blast
  show "payment_env s (s\<lparr>redeem_attempts := \<lambda>_. 0, redeem_locks := []\<rparr>)" unfolding payment_env_def by blast
qed

text \<open>An order whose user is locked out of redeeming fails with its code unused.\<close>

lemma stranded_code:
  "\<exists>S t r. pool_reach (payment_request shop_lib) payment_env (payment_start (\<lambda>_. 0)) S \<and> finite (dom (procs S)) \<and>
     store S = t\<lparr>redeem_attempts := \<lambda>_. 0, redeem_locks := []\<rparr> \<and> r \<in> set (orders t) \<and> same_order paid_order r \<and>
     order_status r = OrderStatusFailed \<and> users t = users shop_db \<and> redeem_codes t = [(order_code paid_order)\<lparr>rc_id := 1\<rparr>]"
proof -
  let ?reach = "pool_reach (payment_request shop_lib) payment_env (payment_start (\<lambda>_. 0))"
  let ?A = "\<lambda>_::int. 20 :: int" and ?cd = "(order_code paid_order)\<lparr>rc_id := 1\<rparr>"
  let ?s = "paid_logged_db\<lparr>redeem_attempts := ?A\<rparr>"
  let ?free = "\<lambda>s. s\<lparr>redeem_attempts := \<lambda>_. 0, redeem_locks := []\<rparr>"
  have "payment_start (\<lambda>_. 0) shop_db" by (auto simp: payment_start_def shop_user_def split: if_splits)
  then have S0: "?reach \<lparr>store = shop_db, procs = Map.empty\<rparr>" by (rule pr_init)
  have req: "payment_request shop_lib (ignoring (place_order shop_lib shop_req None shop_cfg 20 10 10 shop_sel) (Ret ()))"
    "payment_request shop_lib (ignoring (HandlePaymentNotification shop_lib shop_notice '''') (Ret ()))"
    unfolding payment_request_def by blast+
  obtain S1 where S1: "?reach S1" "finite (dom (procs S1))" "store S1 = ordered_db"
    using reach_run [OF S0 _ req(1), of fair_chance "Inr shop_order" ordered_db] shop_places_order by auto
  obtain S2 where S2: "?reach S2" "finite (dom (procs S2))" "store S2 = ordered_db\<lparr>redeem_attempts := ?A\<rparr>"
    using reach_env [OF S1(1,2) limiter_env(1)] S1(3) by auto
  have inv: "payment_inv (\<lambda>_. 0) ?s"
    by (rule conjunct1 [OF payment_env_safe [OF limiter_env(1) paid_inv]])
  obtain t r1 e where t: "run_prog (executeFulfillment shop_lib 7) fair_chance ?s = (Some e, t)" "r1 \<in> set (orders t)"
    "same_order paid_order r1" "order_status r1 = OrderStatusFailed" "users t = users shop_db" "redeem_codes t = [?cd]"
    using run_locked_out [OF inv, of paid_order fair_chance shop_lib]
    by (simp add: paid_logged_db_def paid_db_def ordered_db_def OrderTypeSubscription_def claimable_def shop_code_length
        redeemMaxErrorsPerHour_def) blast
  obtain S3 where S3: "?reach S3" "finite (dom (procs S3))" "store S3 = t"
    using reach_run [OF S2(1,2) req(2), of fair_chance "Some e" t] shop_confirms [of ?A] t(1) S2(3) by auto
  obtain S4 where S4: "?reach S4" "finite (dom (procs S4))" "store S4 = ?free t"
    using reach_env [OF S3(1,2) limiter_env(2)] S3(3) by auto
  then show ?thesis using t by blast
qed

text \<open>C34: The money of an order can reach another user. While the user of a paid order is locked out of redeeming,
  his order fails after its redeem code was written; the code is \<^verbatim>\<open>PAY-\<close>, the number of the order and at most five digits.
  Another user who enters it gets the amount, and the next attempt to fulfil the order finds the code used,
  does not look by whom, and completes the order without crediting the user who paid.\<close>

theorem paid_to_another:
  "\<exists>T r' row row'. pool_reach (payment_request shop_lib) payment_env (payment_start (\<lambda>_. 0)) T \<and>
     r' \<in> set (orders (store T)) \<and> order_user r' = 1 \<and> order_status r' = OrderStatusCompleted \<and> order_amount r' = 20 \<and>
     users (store T) 1 = Some row \<and> total_recharged row = 0 \<and> users (store T) 2 = Some row' \<and> total_recharged row' = 20"
proof -
  let ?reach = "pool_reach (payment_request shop_lib) payment_env (payment_start (\<lambda>_. 0))"
  let ?cd = "(order_code paid_order)\<lparr>rc_id := 1\<rparr>"
  let ?free = "\<lambda>s. s\<lparr>redeem_attempts := \<lambda>_. 0, redeem_locks := []\<rparr>"
  have req: "payment_request shop_lib (ignoring (Redeem shop_lib False 2 (order_recharge_code 7 0) '''') (Ret ()))"
    "payment_request shop_lib (ignoring (executeFulfillment shop_lib 7) (Ret ()))"
    unfolding payment_request_def by blast+
  obtain S4 t r1 where S4: "?reach S4" "finite (dom (procs S4))" "store S4 = ?free t" "r1 \<in> set (orders t)"
    and t: "same_order paid_order r1" "order_status r1 = OrderStatusFailed" "users t = users shop_db" "redeem_codes t = [?cd]"
    using stranded_code by blast
  have "redeemable (?free t) 2 ?cd"
    by (simp add: redeemable_def t(4) order_code_def redeemMaxErrorsPerHour_def)
  moreover have "rc_code ?cd = order_recharge_code 7 0" "rc_value ?cd = 20" by (simp_all add: order_code_def)
  ultimately obtain y u where u: "run_prog (Redeem shop_lib False 2 (order_recharge_code 7 0) '''') fair_chance (?free t) = (Inr y, u)"
    "orders u = orders t" "users u = (users shop_db)(2 \<mapsto> raised 20 shop_user)" "code_used (order_recharge_code 7 0) u"
    using run_redeem [of fair_chance 0 "?free t" 2 ?cd shop_user shop_lib False "''''"] by (auto simp: t(3))
  obtain S5 where S5: "?reach S5" "finite (dom (procs S5))" "store S5 = u"
    using reach_run [OF S4(1,2) req(1), of fair_chance "Inr y" u] u(1) S4(3) by auto
  obtain S6 where S6: "?reach S6" "finite (dom (procs S6))" "store S6 = ?free u"
    using reach_env [OF S5(1,2) limiter_env(2)] S5(3) by auto
  have r1: "order_id r1 = 7" "order_user r1 = 1" "order_type r1 = ''balance''" "order_amount r1 = 20"
    "recharge_code r1 = order_recharge_code 7 0" using t(1) by (simp_all add: same_order_def)
  have inv6: "payment_inv (\<lambda>_. 0) (?free u)" using reach_inv [OF S6(1)] S6(3) by simp
  obtain v r2 where v: "run_prog (executeFulfillment shop_lib 7) fair_chance (?free u) = (None, v)" "r2 \<in> set (orders v)"
    "same_order r1 r2" "order_status r2 = OrderStatusCompleted" "users v = settled_users (?free u) r1 shop_user"
    using settles [OF inv6, of r1 shop_user fair_chance 0 shop_lib] S4(4) t(2) r1 u(2,3)
    by (auto simp: OrderTypeSubscription_def claimable_def shop_code_length redeemMaxErrorsPerHour_def)
  obtain S7 where S7: "?reach S7" "store S7 = v"
    using reach_run [OF S6(1,2) req(2), of fair_chance None v] v(1) S6(3) by auto
  have "code_used (order_recharge_code 7 0) (?free u)" using u(4) by (simp add: code_used_def)
  then have "users v = (users shop_db)(2 \<mapsto> raised 20 shop_user)" using v(5) r1(5) u(3) by (simp add: settled_users_def)
  then show ?thesis
    using S7 v(2,3,4) r1 by (intro exI [of _ S7] exI [of _ r2]) (simp add: same_order_def shop_user_def raised_def)
qed

end
