(* ===== verification/ProxyFallback.thy ===== *)
theory ProxyFallback
  imports AppErrors
begin

section \<open>Expired proxies and their fallbacks\<close>

text \<open>
  \<^verbatim>\<open>service/proxy_fallback.go\<close> and the sweep of \<^verbatim>\<open>repository/proxy_repo.go\<close>: when a proxy expires, its accounts are
  moved to the first live proxy along its chain of backups, or to a direct connection. The loop over the
  chain need not end by itself when the chain is cyclic; it remembers what it visited. It is a partial
  function here, and that it returns is a theorem. The billing probe snapshots in an account's extra data,
  and the event for the scheduler, are left out.
\<close>

definition FallbackModeNone :: string where "FallbackModeNone = ''none''"
definition FallbackModeProxy :: string where "FallbackModeProxy = ''proxy''"
definition FallbackModeDirect :: string where "FallbackModeDirect = ''direct''"
definition ProxyStatusActive :: string where "ProxyStatusActive = ''active''"
definition ProxyStatusExpired :: string where "ProxyStatusExpired = ''expired''"

lemmas fallback_modes = FallbackModeNone_def FallbackModeProxy_def FallbackModeDirect_def

record Proxy =
  ProxyID :: int
  ProxyStatus :: string
  ProxyExpiresAt :: "time option"
  FallbackMode :: string
  BackupProxyID :: "int option"

definition ProxyIsExpired :: "time \<Rightarrow> Proxy \<Rightarrow> bool" where
  "ProxyIsExpired now p \<longleftrightarrow> (case ProxyExpiresAt p of None \<Rightarrow> False | Some e \<Rightarrow> \<not> after e now)"

definition proxy_live :: "time \<Rightarrow> Proxy \<Rightarrow> bool" where
  "proxy_live now p \<longleftrightarrow> \<not> ProxyIsExpired now p \<and> ProxyStatus p \<noteq> ProxyStatusExpired"

partial_function (option) follow_chain ::
  "(int \<rightharpoonup> Proxy) \<Rightarrow> time \<Rightarrow> int list \<Rightarrow> int option \<Rightarrow> (int option \<times> bool) option" where
  "follow_chain byID now visited curID =
     (if curID = None then Some (None, False)
      else if the curID \<in> set visited then Some (None, False)
      else if byID (the curID) = None then Some (None, False)
      else let p = the (byID (the curID)) in
        if proxy_live now p then Some (Some (ProxyID p), True)
        else if FallbackMode p = FallbackModeDirect then Some (None, True)
        else if FallbackMode p = FallbackModeProxy then follow_chain byID now (the curID # visited) (BackupProxyID p)
        else Some (None, False))"

definition ResolveProxyFallbackTarget :: "Proxy \<Rightarrow> (int \<rightharpoonup> Proxy) \<Rightarrow> time \<Rightarrow> (int option \<times> bool) option" where
  "ResolveProxyFallbackTarget start byID now =
     (if FallbackMode start = FallbackModeDirect then Some (None, True)
      else if FallbackMode start = FallbackModeProxy then follow_chain byID now [ProxyID start] (BackupProxyID start)
      else Some (None, False))"

subsection \<open>The sweep\<close>

text \<open>The rows with no \<^verbatim>\<open>deleted_at\<close>. A row's extra data are its entries, each with the text of its JSON value.\<close>

record account_row =
  acc_id :: int
  acc_type :: string
  acc_platform :: string
  acc_proxy :: "int option"
  acc_origin :: "int option"
  acc_extra :: "(string \<times> string) list"

record proxy_db =
  proxies :: "Proxy list"
  accounts :: "account_row list"
  bulk_events :: "int list list"

definition drop_extra :: "string \<Rightarrow> account_row \<Rightarrow> account_row" where
  "drop_extra k a = a\<lparr>acc_extra := filter (\<lambda>(k', v). k' \<noteq> k) (acc_extra a)\<rparr>"

definition has_extra :: "string \<Rightarrow> account_row \<Rightarrow> bool" where
  "has_extra k a \<longleftrightarrow> (case map_of (acc_extra a) k of None \<Rightarrow> False | Some v \<Rightarrow> v \<noteq> ''null'')"

definition has_probe :: "account_row \<Rightarrow> bool" where
  "has_probe a \<longleftrightarrow> acc_type a = ''apikey'' \<and>
     (has_extra ''upstream_billing_probe'' a \<or>
      acc_platform a \<in> {''openai'', ''anthropic'', ''kimi'', ''zhipu'', ''deepseek''} \<and> has_extra ''ollama_cloud_usage_snapshot'' a)"

definition invalidateProxyProbeSnapshots :: "int \<Rightarrow> proxy_db \<Rightarrow> int list \<times> proxy_db" where
  "invalidateProxyProbeSnapshots proxyID s =
     (let hit = (\<lambda>a. acc_proxy a = Some proxyID \<and> has_probe a)
      in (map acc_id (filter hit (accounts s)),
          s\<lparr>accounts := map (\<lambda>a. if hit a then drop_extra ''ollama_cloud_usage_snapshot'' (drop_extra ''upstream_billing_probe'' a) else a)
              (accounts s)\<rparr>))"

definition sortedUniqueAccountIDs :: "int list \<Rightarrow> int list" where
  "sortedUniqueAccountIDs ids = (if length ids < 2 then ids else remdups_adj (sort ids))"

definition proxyProbeOutboxAccountChunkSize :: nat where "proxyProbeOutboxAccountChunkSize = 500"

function chunks :: "int list \<Rightarrow> int list list" where
  "chunks ids = (if ids = [] then []
     else take proxyProbeOutboxAccountChunkSize ids # chunks (drop proxyProbeOutboxAccountChunkSize ids))"
  by auto
termination by (relation "measure length") (auto simp: proxyProbeOutboxAccountChunkSize_def)

declare chunks.simps [simp del]

definition enqueueProxyProbeAccountChanges :: "int list \<Rightarrow> proxy_db \<Rightarrow> proxy_db" where
  "enqueueProxyProbeAccountChanges ids s = s\<lparr>bulk_events := bulk_events s @ chunks (sortedUniqueAccountIDs ids)\<rparr>"

definition bound_to :: "int \<Rightarrow> account_row \<Rightarrow> bool" where
  "bound_to proxyID a \<longleftrightarrow> acc_proxy a = Some proxyID \<and> acc_origin a = None"

definition redirect :: "int \<Rightarrow> int option \<Rightarrow> account_row \<Rightarrow> account_row" where
  "redirect proxyID target a =
     (if bound_to proxyID a
      then (if acc_type a = ''apikey'' then drop_extra ''upstream_billing_probe'' a else a)
             \<lparr>acc_proxy := target, acc_origin := Some proxyID\<rparr>
      else a)"

definition sweepOneExpiredProxyOnExec :: "int \<Rightarrow> int option \<Rightarrow> bool \<Rightarrow> proxy_db \<Rightarrow> int list \<times> proxy_db" where
  "sweepOneExpiredProxyOnExec proxyID target change s =
     (let s1 = s\<lparr>proxies := map (\<lambda>p. if ProxyID p = proxyID then p\<lparr>ProxyStatus := ProxyStatusExpired\<rparr> else p) (proxies s)\<rparr>
      in if \<not> change
         then (case invalidateProxyProbeSnapshots proxyID s1 of (ids, s2) \<Rightarrow> ([], enqueueProxyProbeAccountChanges ids s2))
         else (map acc_id (filter (bound_to proxyID) (accounts s1)),
               s1\<lparr>accounts := map (redirect proxyID target) (accounts s1)\<rparr>))"

text \<open>The sub-transaction of a proxy may fail; \<open>fails\<close> says with which error. It is rolled back then.\<close>

definition sweepOneExpiredProxy ::
  "(int \<Rightarrow> go_error option) \<Rightarrow> int \<Rightarrow> int option \<Rightarrow> bool \<Rightarrow> proxy_db \<Rightarrow> (go_error + int list) \<times> proxy_db" where
  "sweepOneExpiredProxy fails proxyID target change s =
     (case fails proxyID of
        Some e \<Rightarrow> (Inl e, s)
      | None \<Rightarrow> (case sweepOneExpiredProxyOnExec proxyID target change s of (ids, t) \<Rightarrow> (Inr ids, t)))"

text \<open>
  The loop over the snapshot, with the ids of the accounts moved so far; the outer option is that of the search.
  An error is returned with how many were moved before it.
\<close>

primrec sweep_each ::
  "(int \<Rightarrow> go_error option) \<Rightarrow> (int \<rightharpoonup> Proxy) \<Rightarrow> time \<Rightarrow> Proxy list \<Rightarrow> int list \<Rightarrow> proxy_db \<Rightarrow>
   (((go_error \<times> int) + int list) \<times> proxy_db) option" where
  "sweep_each fails byID now [] moved s = Some (Inr moved, s)"
| "sweep_each fails byID now (p # ps) moved s =
     (if ProxyStatus p \<noteq> ProxyStatusActive \<or> \<not> ProxyIsExpired now p then sweep_each fails byID now ps moved s
      else (case ResolveProxyFallbackTarget p byID now of
         None \<Rightarrow> None
       | Some (target, change) \<Rightarrow>
           (case sweepOneExpiredProxy fails (ProxyID p) target change s of
              (Inl e, t) \<Rightarrow> Some (Inl (e, int (length moved)), t)
            | (Inr ids, t) \<Rightarrow> sweep_each fails byID now ps (moved @ ids) t)))"

definition by_id :: "Proxy list \<Rightarrow> int \<rightharpoonup> Proxy" where
  "by_id ps i = List.find (\<lambda>p. ProxyID p = i) (rev ps)"

text \<open>The event of the end is only logged when it cannot be stored; \<open>stores\<close> says whether it is.\<close>

definition SweepExpiredProxies ::
  "(int \<Rightarrow> go_error option) \<Rightarrow> bool \<Rightarrow> time \<Rightarrow> proxy_db \<Rightarrow> ((int \<times> go_error option) \<times> proxy_db) option" where
  "SweepExpiredProxies fails stores now s =
     (case sweep_each fails (by_id (proxies s)) now (proxies s) [] s of
        None \<Rightarrow> None
      | Some (Inl (e, n), t) \<Rightarrow> Some ((n, Some e), t)
      | Some (Inr moved, t) \<Rightarrow>
          Some ((int (length moved), None),
            if moved \<noteq> [] \<and> stores then t\<lparr>bulk_events := bulk_events t @ [sortedUniqueAccountIDs moved]\<rparr> else t))"

definition ErrAccountNotInFallback :: go_error where
  "ErrAccountNotInFallback = BadRequest ''ACCOUNT_NOT_IN_FALLBACK'' ''account is not in proxy fallback state''"

text \<open>The way back, by hand; the event it stores for one account is left out.\<close>

definition RevertProxyFallback :: "int \<Rightarrow> proxy_db \<Rightarrow> go_error option \<times> proxy_db" where
  "RevertProxyFallback accountID s =
     (let hit = (\<lambda>a. acc_id a = accountID \<and> acc_origin a \<noteq> None)
      in if filter hit (accounts s) = [] then (Some ErrAccountNotInFallback, s)
         else (None, s\<lparr>accounts := map (\<lambda>a. if hit a then a\<lparr>acc_proxy := acc_origin a, acc_origin := None\<rparr> else a) (accounts s)\<rparr>))"

subsection \<open>The search ends\<close>

lemma follow_chain_stop:
  "\<not> (\<exists>i p. curID = Some i \<and> i \<notin> set visited \<and> byID i = Some p) \<Longrightarrow> follow_chain byID now visited curID = Some (None, False)"
  by (subst follow_chain.simps) auto

lemma follow_chain_hop:
  "i \<notin> set visited \<Longrightarrow> byID i = Some p \<Longrightarrow> follow_chain byID now visited (Some i) =
     (if proxy_live now p then Some (Some (ProxyID p), True)
      else if FallbackMode p = FallbackModeDirect then Some (None, True)
      else if FallbackMode p = FallbackModeProxy then follow_chain byID now (i # visited) (BackupProxyID p)
      else Some (None, False))"
  by (subst follow_chain.simps) simp

lemma unvisited_fewer:
  "finite (dom byID) \<Longrightarrow> i \<notin> set visited \<Longrightarrow> byID i = Some p \<Longrightarrow>
   card (dom byID - set (i # visited)) < card (dom byID - set visited)"
  by (rule psubset_card_mono) auto

lemma follow_chain_ends: "finite (dom byID) \<Longrightarrow> \<exists>r. follow_chain byID now visited curID = Some r"
proof (induction "card (dom byID - set visited)" arbitrary: visited curID rule: less_induct)
  case less
  show ?case
  proof (cases "\<exists>i p. curID = Some i \<and> i \<notin> set visited \<and> byID i = Some p")
    case False
    then show ?thesis using follow_chain_stop by blast
  next
    case True
    then obtain i p where i: "curID = Some i" "i \<notin> set visited" "byID i = Some p" by blast
    from less.hyps [OF unvisited_fewer [OF less.prems i(2,3)] less.prems]
    obtain r where "follow_chain byID now (i # visited) (BackupProxyID p) = Some r" by blast
    then show ?thesis using i by (auto simp: follow_chain_hop)
  qed
qed

lemma resolve_ends: "finite (dom byID) \<Longrightarrow> \<exists>r. ResolveProxyFallbackTarget start byID now = Some r"
  using follow_chain_ends [of byID now "[ProxyID start]" "BackupProxyID start"] unfolding ResolveProxyFallbackTarget_def
  by auto

subsection \<open>What it finds\<close>

text \<open>A dead proxy hands its accounts on to its backup.\<close>

definition hands_on :: "(int \<rightharpoonup> Proxy) \<Rightarrow> time \<Rightarrow> Proxy \<Rightarrow> Proxy \<Rightarrow> bool" where
  "hands_on byID now q p \<longleftrightarrow> \<not> proxy_live now q \<and> FallbackMode q = FallbackModeProxy \<and>
     (\<exists>i. BackupProxyID q = Some i \<and> byID i = Some p)"

text \<open>
  The state of the search at \<open>q\<close>: what was visited is dead, hands on, and everything it hands on to was visited too,
  but for the backup of \<open>q\<close>.
\<close>

definition searched :: "(int \<rightharpoonup> Proxy) \<Rightarrow> time \<Rightarrow> Proxy \<Rightarrow> int list \<Rightarrow> Proxy \<Rightarrow> bool" where
  "searched byID now start visited q \<longleftrightarrow>
     (\<exists>v\<in>set visited. byID v = Some start) \<and> (\<exists>v\<in>set visited. byID v = Some q) \<and>
     (hands_on byID now)\<^sup>*\<^sup>* start q \<and>
     (\<forall>v\<in>set visited. \<forall>x. byID v = Some x \<longrightarrow> \<not> proxy_live now x \<and> FallbackMode x = FallbackModeProxy \<and>
        (x \<noteq> q \<longrightarrow> (\<forall>y. hands_on byID now x y \<longrightarrow> (\<exists>v\<in>set visited. byID v = Some y))))"

lemma searched_closed:
  "searched byID now start visited q \<Longrightarrow> v \<in> set visited \<Longrightarrow> byID v = Some x \<Longrightarrow> x \<noteq> q \<Longrightarrow> hands_on byID now x y \<Longrightarrow>
   \<exists>v\<in>set visited. byID v = Some y"
  unfolding searched_def by blast

lemma searched_dead:
  "searched byID now start visited q \<Longrightarrow> v \<in> set visited \<Longrightarrow> byID v = Some x \<Longrightarrow>
   \<not> proxy_live now x \<and> FallbackMode x = FallbackModeProxy"
  unfolding searched_def by blast

lemma searched_here:
  "searched byID now start visited q \<Longrightarrow> (\<exists>v\<in>set visited. byID v = Some start) \<and> (\<exists>v\<in>set visited. byID v = Some q) \<and>
   (hands_on byID now)\<^sup>*\<^sup>* start q"
  unfolding searched_def by blast

lemma searched_reach:
  assumes "searched byID now start visited q" "(hands_on byID now)\<^sup>*\<^sup>* start x"
  shows "(\<exists>v\<in>set visited. byID v = Some x) \<or> (\<exists>y. hands_on byID now q y \<and> (hands_on byID now)\<^sup>*\<^sup>* y x)"
  using assms(2)
proof induction
  case base
  then show ?case using assms(1) by (auto simp: searched_def)
next
  case (step x z)
  show ?case
    using step.IH
  proof (elim disjE exE conjE)
    fix y assume "hands_on byID now q y" "(hands_on byID now)\<^sup>*\<^sup>* y x"
    then show ?thesis using step.hyps(2) by (blast intro: rtranclp.rtrancl_into_rtrancl)
  next
    assume x: "\<exists>v\<in>set visited. byID v = Some x"
    show ?thesis
    proof (cases "x = q")
      case True
      then show ?thesis using step.hyps(2) by blast
    next
      case False
      then show ?thesis using searched_closed [OF assms(1)] x step.hyps(2) by blast
    qed
  qed
qed

lemma hands_on_unique: "hands_on byID now q p \<Longrightarrow> hands_on byID now q p' \<Longrightarrow> p' = p"
  by (auto simp: hands_on_def)

lemma searched_next:
  assumes s: "searched byID now start visited q" and i: "byID i = Some p" and qp: "hands_on byID now q p"
    and p: "\<not> proxy_live now p" "FallbackMode p = FallbackModeProxy"
  shows "searched byID now start (i # visited) p"
  unfolding searched_def
proof (intro conjI ballI allI impI)
  show "\<exists>v\<in>set (i # visited). byID v = Some start" using searched_here [OF s] by auto
  show "\<exists>v\<in>set (i # visited). byID v = Some p" using i by auto
  show "(hands_on byID now)\<^sup>*\<^sup>* start p" using searched_here [OF s] qp by (blast intro: rtranclp.rtrancl_into_rtrancl)
next
  fix v x assume v: "v \<in> set (i # visited)" "byID v = Some x"
  then show "\<not> proxy_live now x" "FallbackMode x = FallbackModeProxy"
    using searched_dead [OF s, of v x] i p by auto
  fix y assume x: "x \<noteq> p" "hands_on byID now x y"
  then have v': "v \<in> set visited" using v i by auto
  show "\<exists>v\<in>set (i # visited). byID v = Some y"
  proof (cases "x = q")
    case True
    then show ?thesis using hands_on_unique [OF qp] x(2) i by auto
  next
    case False
    then show ?thesis using searched_closed [OF s v' v(2)] x(2) by auto
  qed
qed

lemma live_end: "(hands_on byID now)\<^sup>*\<^sup>* p x \<Longrightarrow> (\<And>y. \<not> hands_on byID now p y) \<Longrightarrow> x = p"
  by (erule converse_rtranclpE) auto

text \<open>The answer the specification asks for.\<close>

definition right_target :: "(int \<rightharpoonup> Proxy) \<Rightarrow> time \<Rightarrow> Proxy \<Rightarrow> int option \<times> bool \<Rightarrow> bool" where
  "right_target byID now start r \<longleftrightarrow>
     (\<forall>i. r = (Some i, True) \<longleftrightarrow> (\<exists>p. (hands_on byID now)\<^sup>*\<^sup>* start p \<and> proxy_live now p \<and> ProxyID p = i)) \<and>
     (r = (None, True) \<longleftrightarrow> (\<exists>p. (hands_on byID now)\<^sup>*\<^sup>* start p \<and> \<not> proxy_live now p \<and> FallbackMode p = FallbackModeDirect)) \<and>
     (snd r \<or> fst r = None)"

lemma direct_no_hand: "FallbackMode p \<noteq> FallbackModeProxy \<Longrightarrow> \<not> hands_on byID now p y"
  by (simp add: hands_on_def)

lemma live_no_hand: "proxy_live now p \<Longrightarrow> \<not> hands_on byID now p y"
  by (simp add: hands_on_def)

lemma right_at_end:
  assumes "searched byID now start visited q"
    and ends: "\<And>x. (hands_on byID now)\<^sup>*\<^sup>* start x \<Longrightarrow> (\<exists>v\<in>set visited. byID v = Some x) \<or> x = p"
    and p: "(hands_on byID now)\<^sup>*\<^sup>* start p"
    and r: "proxy_live now p \<and> r = (Some (ProxyID p), True) \<or>
      \<not> proxy_live now p \<and> FallbackMode p = FallbackModeDirect \<and> r = (None, True) \<or>
      \<not> proxy_live now p \<and> FallbackMode p \<noteq> FallbackModeDirect \<and> r = (None, False)"
  shows "right_target byID now start r"
proof -
  have dead: "\<not> proxy_live now x \<and> FallbackMode x \<noteq> FallbackModeDirect" if x: "\<exists>v\<in>set visited. byID v = Some x" for x
  proof -
    from x obtain v where "v \<in> set visited" "byID v = Some x" by blast
    from searched_dead [OF assms(1) this] show ?thesis by (simp add: fallback_modes)
  qed
  have only: "x = p" if "(hands_on byID now)\<^sup>*\<^sup>* start x" "proxy_live now x \<or> FallbackMode x = FallbackModeDirect" for x
    using ends [OF that(1)] dead [of x] that(2) by blast
  have live: "(\<exists>x. (hands_on byID now)\<^sup>*\<^sup>* start x \<and> proxy_live now x \<and> ProxyID x = i) \<longleftrightarrow> proxy_live now p \<and> ProxyID p = i" for i
    using only p by blast
  have direct: "(\<exists>x. (hands_on byID now)\<^sup>*\<^sup>* start x \<and> \<not> proxy_live now x \<and> FallbackMode x = FallbackModeDirect) \<longleftrightarrow>
      \<not> proxy_live now p \<and> FallbackMode p = FallbackModeDirect"
    using only p by blast
  show ?thesis
    unfolding right_target_def live direct using r by (elim disjE) simp_all
qed

lemma follow_chain_right:
  assumes "finite (dom byID)" "searched byID now start visited q" "follow_chain byID now visited (BackupProxyID q) = Some r"
  shows "right_target byID now start r"
  using assms(2,3)
proof (induction "card (dom byID - set visited)" arbitrary: visited q rule: less_induct)
  case less
  have q: "(hands_on byID now)\<^sup>*\<^sup>* start q" "\<not> proxy_live now q" "FallbackMode q = FallbackModeProxy"
    using less.prems(1) by (auto simp: searched_def)
  have stuck: "right_target byID now start (None, False)"
    if "\<And>y. hands_on byID now q y \<Longrightarrow> \<exists>v\<in>set visited. byID v = Some y"
  proof (rule right_at_end [OF less.prems(1) _ q(1)])
    have closed: "\<exists>v\<in>set visited. byID v = Some x" if "(hands_on byID now)\<^sup>*\<^sup>* start x" for x
      using that
    proof induction
      case base then show ?case using searched_here [OF less.prems(1)] by blast
    next
      case (step x z)
      then show ?case using \<open>\<And>y. hands_on byID now q y \<Longrightarrow> \<exists>v\<in>set visited. byID v = Some y\<close> less.prems(1)
        searched_closed [OF less.prems(1)] by (cases "x = q") blast+
    qed
    show "(\<exists>v\<in>set visited. byID v = Some x) \<or> x = q" if "(hands_on byID now)\<^sup>*\<^sup>* start x" for x
      using closed [OF that] by blast
  qed (use q in \<open>simp add: fallback_modes\<close>)
  show ?case
  proof (cases "\<exists>i p. BackupProxyID q = Some i \<and> i \<notin> set visited \<and> byID i = Some p")
    case False
    then have "r = (None, False)"
      using less.prems(2) follow_chain_stop by simp
    moreover have "\<exists>v\<in>set visited. byID v = Some y" if "hands_on byID now q y" for y
      using that False by (auto simp: hands_on_def)
    ultimately show ?thesis using stuck by simp
  next
    case True
    then obtain i p where i: "BackupProxyID q = Some i" "i \<notin> set visited" "byID i = Some p" by blast
    have qp: "hands_on byID now q p" using q i by (simp add: hands_on_def)
    then have p: "(hands_on byID now)\<^sup>*\<^sup>* start p" using q(1) by simp
    show ?thesis
    proof (cases "proxy_live now p \<or> FallbackMode p \<noteq> FallbackModeProxy")
      case True
      then have "\<not> hands_on byID now p y" for y by (auto simp: hands_on_def)
      then have ends: "(\<exists>v\<in>set visited. byID v = Some x) \<or> x = p" if "(hands_on byID now)\<^sup>*\<^sup>* start x" for x
        using searched_reach [OF less.prems(1) that] hands_on_unique [OF qp] live_end [of byID now p x] by blast
      show ?thesis
        by (rule right_at_end [OF less.prems(1) ends p])
          (use less.prems(2) True i in \<open>auto simp: follow_chain_hop split: if_splits\<close>)
    next
      case False
      have "card (dom byID - set (i # visited)) < card (dom byID - set visited)"
        by (rule unvisited_fewer [OF assms(1) i(2,3)])
      moreover have "searched byID now start (i # visited) p"
        by (rule searched_next [OF less.prems(1) i(3) qp]) (use False in simp_all)
      moreover have "follow_chain byID now (i # visited) (BackupProxyID p) = Some r"
        using less.prems(2) False i by (auto simp: follow_chain_hop fallback_modes)
      ultimately show ?thesis by (rule less.hyps)
    qed
  qed
qed
lemma resolve_right:
  assumes "finite (dom byID)" "byID (ProxyID start) = Some start" "\<not> proxy_live now start"
    "ResolveProxyFallbackTarget start byID now = Some r"
  shows "right_target byID now start r"
proof (cases "FallbackMode start = FallbackModeProxy")
  case True
  then have "searched byID now start [ProxyID start] start" using assms(2,3) by (auto simp: searched_def)
  then show ?thesis
    using follow_chain_right [OF assms(1)] assms(4) True by (auto simp: ResolveProxyFallbackTarget_def fallback_modes)
next
  case False
  then have "(hands_on byID now)\<^sup>*\<^sup>* start x \<longleftrightarrow> x = start" for x
    using live_end [of byID now start x] by (auto simp: hands_on_def)
  then show ?thesis
    using assms(3,4) False by (auto simp: right_target_def ResolveProxyFallbackTarget_def split: if_splits)
qed

subsection \<open>What the sweep does to the rows\<close>

definition due :: "time \<Rightarrow> Proxy \<Rightarrow> bool" where
  "due now p \<longleftrightarrow> ProxyStatus p = ProxyStatusActive \<and> ProxyIsExpired now p"

lemma due_dead: "due now p \<Longrightarrow> \<not> proxy_live now p"
  by (simp add: due_def proxy_live_def)

text \<open>The account's binding after the proxies \<open>ps\<close> are done: the first of them it is bound to decides.\<close>

primrec fate :: "(int \<rightharpoonup> Proxy) \<Rightarrow> time \<Rightarrow> Proxy list \<Rightarrow> int option \<times> int option \<Rightarrow> int option \<times> int option" where
  "fate byID now [] b = b"
| "fate byID now (p # ps) b =
     (if due now p \<and> b = (Some (ProxyID p), None)
      then (case ResolveProxyFallbackTarget p byID now of Some (target, True) \<Rightarrow> (target, Some (ProxyID p)) | _ \<Rightarrow> b)
      else fate byID now ps b)"

definition binding :: "account_row \<Rightarrow> int option \<times> int option" where
  "binding a = (acc_proxy a, acc_origin a)"

lemma fate_origin: "snd b \<noteq> None \<Longrightarrow> fate byID now ps b = b"
  by (induction ps) auto

lemma fate_other: "(\<And>p. p \<in> set ps \<Longrightarrow> b \<noteq> (Some (ProxyID p), None)) \<Longrightarrow> fate byID now ps b = b"
  by (induction ps) auto

lemma binding_drop [simp]: "binding (drop_extra k a) = binding a" "acc_id (drop_extra k a) = acc_id a"
  by (simp_all add: binding_def drop_extra_def)

lemma bound_binding: "bound_to i a \<longleftrightarrow> binding a = (Some i, None)"
  by (simp add: bound_to_def binding_def)

lemma bound_to_eq: "bound_to i = (\<lambda>a. binding a = (Some i, None))"
  by (simp add: fun_eq_iff bound_binding)

lemma binding_redirect:
  "binding (redirect i target a) = (if binding a = (Some i, None) then (target, Some i) else binding a)"
  "acc_id (redirect i target a) = acc_id a"
  by (auto simp: redirect_def bound_binding) (auto simp: binding_def drop_extra_def)

definition mark_expired :: "int set \<Rightarrow> Proxy \<Rightarrow> Proxy" where
  "mark_expired I p = (if ProxyID p \<in> I then p\<lparr>ProxyStatus := ProxyStatusExpired\<rparr> else p)"

lemma mark_expired_id [simp]: "ProxyID (mark_expired I p) = ProxyID p"
  by (simp add: mark_expired_def)

lemma mark_expired_twice: "mark_expired I (mark_expired J p) = mark_expired (I \<union> J) p"
  by (auto simp: mark_expired_def)

definition rows :: "proxy_db \<Rightarrow> (int \<times> int option \<times> int option) list" where
  "rows s = map (\<lambda>a. (acc_id a, binding a)) (accounts s)"

text \<open>One proxy of the sweep, in these terms.\<close>

lemma sweep_one:
  assumes "sweepOneExpiredProxyOnExec i target change s = (ids, t)"
  shows "proxies t = map (mark_expired {i}) (proxies s)"
    "rows t = map (\<lambda>(a, b). (a, if change \<and> b = (Some i, None) then (target, Some i) else b)) (rows s)"
    "ids = map fst (filter (\<lambda>(a, b). change \<and> b = (Some i, None)) (rows s))"
  using assms
  by (auto simp: sweepOneExpiredProxyOnExec_def Let_def invalidateProxyProbeSnapshots_def enqueueProxyProbeAccountChanges_def
      rows_def mark_expired_def binding_redirect bound_to_eq filter_map o_def split: if_splits)
lemma filter_split:
  assumes "\<And>x. x \<in> set xs \<Longrightarrow> P x \<Longrightarrow> \<not> Q (f x) \<and> R x" "\<And>x. x \<in> set xs \<Longrightarrow> \<not> P x \<Longrightarrow> Q (f x) \<longleftrightarrow> R x"
  shows "length (filter P xs) + length (filter Q (map f xs)) = length (filter R xs)"
  using assms by (induction xs) auto

lemma sweep_each_rows:
  assumes fin: "finite (dom byID)" and ok: "\<And>i. fails i = None"
  shows "distinct (map ProxyID ps) \<Longrightarrow> \<exists>m t. sweep_each fails byID now ps moved s = Some (Inr m, t) \<and>
     proxies t = map (mark_expired (ProxyID ` {p \<in> set ps. due now p})) (proxies s) \<and>
     rows t = map (\<lambda>(a, b). (a, fate byID now ps b)) (rows s) \<and>
     length m = length moved + length (filter (\<lambda>(a, b). fate byID now ps b \<noteq> b) (rows s))"
proof (induction ps arbitrary: moved s)
  case Nil
  then show ?case by (simp add: mark_expired_def case_prod_unfold)
next
  case (Cons p ps)
  then have d: "distinct (map ProxyID ps)" "ProxyID p \<notin> ProxyID ` set ps" by auto
  show ?case
  proof (cases "due now p")
    case False
    then have "{q \<in> set (p # ps). due now q} = {q \<in> set ps. due now q}" by auto
    moreover have "fate byID now (p # ps) b = fate byID now ps b" for b using False by simp
    moreover have "sweep_each fails byID now (p # ps) moved s = sweep_each fails byID now ps moved s"
      using False by (auto simp: due_def)
    ultimately show ?thesis using Cons.IH [OF d(1), of moved s] by (simp del: fate.simps sweep_each.simps)
  next
    case True
    obtain target change where r: "ResolveProxyFallbackTarget p byID now = Some (target, change)"
      using resolve_ends [OF fin, of p now] by auto
    obtain ids s1 where one: "sweepOneExpiredProxyOnExec (ProxyID p) target change s = (ids, s1)" by (cases "sweepOneExpiredProxyOnExec (ProxyID p) target change s")
    have step: "sweep_each fails byID now (p # ps) moved s = sweep_each fails byID now ps (moved @ ids) s1"
      using True r one ok by (simp add: due_def sweepOneExpiredProxy_def)
    have fate_p: "fate byID now (p # ps) b =
        fate byID now ps (if change \<and> b = (Some (ProxyID p), None) then (target, Some (ProxyID p)) else b)" for b
    proof (cases "b = (Some (ProxyID p), None)")
      case b: True
      then have "fate byID now ps b = b" using d(2) by (intro fate_other) auto
      then show ?thesis using True r b fate_origin [of "(target, Some (ProxyID p))"] by (cases change) auto
    qed (use True in simp)
    obtain m t where ih: "sweep_each fails byID now ps (moved @ ids) s1 = Some (Inr m, t)"
      "proxies t = map (mark_expired (ProxyID ` {p \<in> set ps. due now p})) (proxies s1)"
      "rows t = map (\<lambda>(a, b). (a, fate byID now ps b)) (rows s1)"
      "length m = length (moved @ ids) + length (filter (\<lambda>(a, b). fate byID now ps b \<noteq> b) (rows s1))"
      using Cons.IH [OF d(1)] by blast
    have I: "ProxyID ` {p \<in> set ps. due now p} \<union> {ProxyID p} = ProxyID ` {q \<in> set (p # ps). due now q}"
      using True by auto
    have "proxies t = map (mark_expired (ProxyID ` {q \<in> set (p # ps). due now q})) (proxies s)"
      unfolding ih(2) sweep_one(1) [OF one] I [symmetric] by (simp add: mark_expired_twice)
    moreover have "rows t = map (\<lambda>(a, b). (a, fate byID now (p # ps) b)) (rows s)"
      unfolding ih(3) sweep_one(2) [OF one] fate_p by (simp add: case_prod_unfold)
    moreover have "length m = length moved + length (filter (\<lambda>(a, b). fate byID now (p # ps) b \<noteq> b) (rows s))"
    proof -
      have "length ids + length (filter (\<lambda>(a, b). fate byID now ps b \<noteq> b) (rows s1)) =
          length (filter (\<lambda>(a, b). fate byID now (p # ps) b \<noteq> b) (rows s))"
        unfolding sweep_one(2,3) [OF one] length_map
        by (rule filter_split) (auto simp: fate_p fate_origin simp del: fate.simps)
      then show ?thesis using ih(4) by simp
    qed
    ultimately show ?thesis unfolding step ih(1) by blast
  qed
qed
lemma find_in: "List.find P xs = Some x \<Longrightarrow> x \<in> set xs \<and> P x"
  by (induction xs) (auto split: if_splits)

lemma by_id_in:
  assumes "distinct (map ProxyID ps)" "p \<in> set ps"
  shows "by_id ps (ProxyID p) = Some p"
proof (cases "by_id ps (ProxyID p)")
  case None
  then show ?thesis using assms(2) by (auto simp: by_id_def find_None_iff)
next
  case (Some q)
  then have "q \<in> set ps" "ProxyID q = ProxyID p" by (auto simp: by_id_def dest: find_in)
  then show ?thesis using Some assms by (auto simp: distinct_map dest: inj_onD)
qed

lemma by_id_finite: "finite (dom (by_id ps))"
  by (rule finite_subset [of _ "ProxyID ` set ps"]) (auto simp: by_id_def dest!: find_in)

lemma list_all2_maps: "map f xs = map g ys \<Longrightarrow> list_all2 (\<lambda>y x. f x = g y) ys xs"
  by (auto simp: list_all2_conv_all_nth list_eq_iff_nth_eq)

lemma fate_due:
  "fate byID now ps b = (case List.find (\<lambda>p. due now p \<and> b = (Some (ProxyID p), None)) ps of
     None \<Rightarrow> b
   | Some p \<Rightarrow> (case ResolveProxyFallbackTarget p byID now of Some (target, True) \<Rightarrow> (target, Some (ProxyID p)) | _ \<Rightarrow> b))"
  by (induction ps) auto

text \<open>Where an account \<open>a\<close> of the store \<open>s\<close> has to be after a sweep: \<open>b\<close>.\<close>

definition moved_right :: "time \<Rightarrow> proxy_db \<Rightarrow> account_row \<Rightarrow> account_row \<Rightarrow> bool" where
  "moved_right now s a b \<longleftrightarrow> acc_id b = acc_id a \<and>
     (case List.find (\<lambda>p. due now p \<and> binding a = (Some (ProxyID p), None)) (proxies s) of
        None \<Rightarrow> binding b = binding a
      | Some p \<Rightarrow> (\<exists>target change. right_target (by_id (proxies s)) now p (target, change) \<and>
          binding b = (if change then (target, Some (ProxyID p)) else binding a)))"

lemma fate_moved_right:
  assumes "distinct (map ProxyID (proxies s))" "acc_id b = acc_id a" "binding b = fate (by_id (proxies s)) now (proxies s) (binding a)"
  shows "moved_right now s a b"
proof (cases "List.find (\<lambda>p. due now p \<and> binding a = (Some (ProxyID p), None)) (proxies s)")
  case None
  then show ?thesis using assms(2,3) by (simp add: moved_right_def fate_due)
next
  case (Some p)
  then have p: "p \<in> set (proxies s)" "due now p" by (auto dest: find_in)
  obtain target change where r: "ResolveProxyFallbackTarget p (by_id (proxies s)) now = Some (target, change)"
    using resolve_ends [OF by_id_finite, of p "proxies s" now] by auto
  then have "right_target (by_id (proxies s)) now p (target, change)"
    using resolve_right [OF by_id_finite by_id_in [OF assms(1) p(1)] due_dead [OF p(2)]] by simp
  moreover have "binding b = (if change then (target, Some (ProxyID p)) else binding a)"
    using assms(3) Some r by (simp add: fate_due)
  ultimately show ?thesis unfolding moved_right_def Some option.case using assms(2) by blast
qed

lemma fate_changes: "fate byID now ps b \<noteq> b \<longleftrightarrow> snd (fate byID now ps b) \<noteq> snd b"
  proof (induction ps)
  case (Cons p ps)
  show ?case
  proof (cases "due now p \<and> b = (Some (ProxyID p), None)")
    case True
    then show ?thesis by (auto split: option.splits bool.splits)
  next
    case False
    then have "fate byID now (p # ps) b = fate byID now ps b" by auto
    then show ?thesis using Cons.IH by simp
  qed
qed simp

lemma origin_binding: "acc_origin a = snd (binding a)"
  by (simp add: binding_def)

lemma sweep_rows:
  assumes "distinct (map ProxyID (proxies s))"
  obtains t n where "SweepExpiredProxies (\<lambda>_. None) stores now s = Some ((n, None), t)"
    "proxies t = map (\<lambda>p. if due now p then p\<lparr>ProxyStatus := ProxyStatusExpired\<rparr> else p) (proxies s)"
    "list_all2 (\<lambda>a b. acc_id b = acc_id a \<and> binding b = fate (by_id (proxies s)) now (proxies s) (binding a)) (accounts s) (accounts t)"
    "n = int (length (filter (\<lambda>(a, b). acc_origin b \<noteq> acc_origin a) (zip (accounts s) (accounts t))))"
proof -
  let ?f = "fate (by_id (proxies s)) now (proxies s)"
  obtain m t where t: "sweep_each (\<lambda>_. None) (by_id (proxies s)) now (proxies s) [] s = Some (Inr m, t)"
    "proxies t = map (mark_expired (ProxyID ` {p \<in> set (proxies s). due now p})) (proxies s)"
    "rows t = map (\<lambda>(a, b). (a, ?f b)) (rows s)"
    "length m = length (filter (\<lambda>(a, b). ?f b \<noteq> b) (rows s))"
    using sweep_each_rows [OF by_id_finite _ assms, of "\<lambda>_. None" "proxies s" now "[]" s] by auto
  obtain u where u: "SweepExpiredProxies (\<lambda>_. None) stores now s = Some ((int (length m), None), u)"
    "proxies u = proxies t" "accounts u = accounts t"
    using that t(1) by (auto simp: SweepExpiredProxies_def)
  have "mark_expired (ProxyID ` {p \<in> set (proxies s). due now p}) p = (if due now p then p\<lparr>ProxyStatus := ProxyStatusExpired\<rparr> else p)"
    if "p \<in> set (proxies s)" for p
    using that assms by (auto simp: mark_expired_def distinct_map dest: inj_onD)
  then have 2: "proxies u = map (\<lambda>p. if due now p then p\<lparr>ProxyStatus := ProxyStatusExpired\<rparr> else p) (proxies s)"
    unfolding u(2) t(2) by simp
  have 3: "list_all2 (\<lambda>a b. acc_id b = acc_id a \<and> binding b = ?f (binding a)) (accounts s) (accounts u)"
    using list_all2_maps [of "\<lambda>a. (acc_id a, binding a)" "accounts t" "\<lambda>a. (acc_id a, ?f (binding a))" "accounts s"] t(3)
    by (simp add: u(3) rows_def o_def)
  have "length (filter (\<lambda>(a, b). acc_origin b \<noteq> acc_origin a) (zip xs ys)) = length (filter (\<lambda>a. ?f (binding a) \<noteq> binding a) xs)"
    if "list_all2 (\<lambda>a b. acc_id b = acc_id a \<and> binding b = ?f (binding a)) xs ys" for xs ys
    using that by induction (auto simp: fate_changes origin_binding)
  from this [OF 3] have 4: "int (length m) = int (length (filter (\<lambda>(a, b). acc_origin b \<noteq> acc_origin a) (zip (accounts s) (accounts u))))"
    unfolding t(4) rows_def by (simp add: filter_map o_def)
  from that [OF u(1) 2 3 4] show thesis .
qed
subsection \<open>The properties\<close>

definition ex_proxy :: "int \<Rightarrow> time option \<Rightarrow> string \<Rightarrow> int option \<Rightarrow> Proxy" where
  "ex_proxy i expires mode backup =
     \<lparr>ProxyID = i, ProxyStatus = ProxyStatusActive, ProxyExpiresAt = expires, FallbackMode = mode, BackupProxyID = backup\<rparr>"

text \<open>Proxy 1 goes to 3 over 2; 4 and 5 are each other's backups.\<close>

definition ex_proxies :: "Proxy list" where
  "ex_proxies =
     [ex_proxy 1 (Some 10) FallbackModeProxy (Some 2), ex_proxy 2 (Some 20) FallbackModeProxy (Some 3),
      ex_proxy 3 None FallbackModeNone None,
      ex_proxy 4 (Some 15) FallbackModeProxy (Some 5), ex_proxy 5 (Some 15) FallbackModeProxy (Some 4)]"

definition ex_account :: "int \<Rightarrow> int option \<Rightarrow> account_row" where
  "ex_account i p = \<lparr>acc_id = i, acc_type = ''apikey'', acc_platform = ''openai'', acc_proxy = p, acc_origin = None,
     acc_extra = [(''upstream_billing_probe'', ''{}'')]\<rparr>"

definition ex_proxy_db :: proxy_db where
  "ex_proxy_db = \<lparr>proxies = ex_proxies, accounts = [ex_account 7 (Some 1), ex_account 8 (Some 4), ex_account 9 None], bulk_events = []\<rparr>"

lemmas ex_proxy_defs = ex_proxy_def ex_proxies_def ex_account_def ex_proxy_db_def fallback_modes ProxyStatusActive_def ProxyStatusExpired_def

text \<open>C31: The search for a fallback always ends, on cyclic chains of backups too, and finds what it should: the proxy it
  answers is the live one that the chain of dead proxies from the start leads to; it answers "direct" exactly if
  the chain leads to a dead proxy that falls back to direct; in every other case it changes nothing.
\<close>

theorem fallback_resolves:
  assumes "finite (dom byID)" "byID (ProxyID start) = Some start" "\<not> proxy_live now start"
  shows "\<exists>r. ResolveProxyFallbackTarget start byID now = Some r \<and> right_target byID now start r"
  using resolve_ends [OF assms(1)] resolve_right [OF assms] by blast

theorem fallback_resolves_witness:
  "(\<exists>r. ResolveProxyFallbackTarget (ex_proxies ! 3) (by_id ex_proxies) 30 = Some r \<and>
     right_target (by_id ex_proxies) 30 (ex_proxies ! 3) r) \<and>
   ResolveProxyFallbackTarget (ex_proxies ! 3) (by_id ex_proxies) 30 = Some (None, False) \<and>
   ResolveProxyFallbackTarget (ex_proxies ! 0) (by_id ex_proxies) 30 = Some (Some 3, True)"
proof (intro conjI)
  show "\<exists>r. ResolveProxyFallbackTarget (ex_proxies ! 3) (by_id ex_proxies) 30 = Some r \<and>
     right_target (by_id ex_proxies) 30 (ex_proxies ! 3) r"
    by (rule fallback_resolves [OF by_id_finite])
      (simp_all add: ex_proxy_defs by_id_def proxy_live_def ProxyIsExpired_def after_def)
qed (simp_all add: ResolveProxyFallbackTarget_def follow_chain.simps ex_proxy_defs by_id_def proxy_live_def ProxyIsExpired_def after_def Let_def)

text \<open>C30: A sweep in which no transaction fails marks exactly the active proxies whose time is over as expired. An account
  that such a proxy serves, and that is on no fallback yet, is bound to the fallback the search specification asks
  for, with the expired proxy kept as its origin; where there is none it stays. Every other account keeps its
  binding, no account moves twice, and the number the sweep returns is that of the accounts it moved.
\<close>

theorem sweep_moves_accounts:
  assumes "distinct (map ProxyID (proxies s))"
  shows "\<exists>t n. SweepExpiredProxies (\<lambda>_. None) stores now s = Some ((n, None), t) \<and>
     proxies t = map (\<lambda>p. if due now p then p\<lparr>ProxyStatus := ProxyStatusExpired\<rparr> else p) (proxies s) \<and>
     list_all2 (moved_right now s) (accounts s) (accounts t) \<and>
     n = int (length (filter (\<lambda>(a, b). acc_origin b \<noteq> acc_origin a) (zip (accounts s) (accounts t))))"
  by (rule sweep_rows [OF assms, of stores now]) (blast intro: list_all2_mono fate_moved_right [OF assms])

theorem sweep_moves_accounts_witness:
  "(\<exists>t n. SweepExpiredProxies (\<lambda>_. None) True 30 ex_proxy_db = Some ((n, None), t) \<and>
     proxies t = map (\<lambda>p. if due 30 p then p\<lparr>ProxyStatus := ProxyStatusExpired\<rparr> else p) (proxies ex_proxy_db) \<and>
     list_all2 (moved_right 30 ex_proxy_db) (accounts ex_proxy_db) (accounts t) \<and>
     n = int (length (filter (\<lambda>(a, b). acc_origin b \<noteq> acc_origin a) (zip (accounts ex_proxy_db) (accounts t))))) \<and>
   moved_right 30 ex_proxy_db (ex_account 9 None) (ex_account 9 None)"
proof
  show "\<exists>t n. SweepExpiredProxies (\<lambda>_. None) True 30 ex_proxy_db = Some ((n, None), t) \<and>
     proxies t = map (\<lambda>p. if due 30 p then p\<lparr>ProxyStatus := ProxyStatusExpired\<rparr> else p) (proxies ex_proxy_db) \<and>
     list_all2 (moved_right 30 ex_proxy_db) (accounts ex_proxy_db) (accounts t) \<and>
     n = int (length (filter (\<lambda>(a, b). acc_origin b \<noteq> acc_origin a) (zip (accounts ex_proxy_db) (accounts t))))"
    by (rule sweep_moves_accounts) (simp add: ex_proxy_defs)
qed (simp add: moved_right_def ex_proxy_defs binding_def)

lemma chunks_short: "chunks [] = []" "length ids < 500 \<Longrightarrow> chunks (i # ids) = [i # ids]"
  by (subst chunks.simps, simp, subst chunks.simps, simp add: proxyProbeOutboxAccountChunkSize_def take_Cons' drop_Cons' chunks.simps)

text \<open>Account 7 goes from proxy 1 to proxy 3, over the expired 2.\<close>

lemma sweep_example:
  "SweepExpiredProxies (\<lambda>_. None) True 15 (ex_proxy_db\<lparr>proxies := [ex_proxy 1 (Some 10) FallbackModeProxy (Some 2), ex_proxies ! 2, (ex_proxies ! 1)\<lparr>ProxyStatus := ProxyStatusExpired\<rparr>], accounts := [ex_account 7 (Some 1)]\<rparr>) =
   Some ((1, None),
     \<lparr>proxies = [(ex_proxies ! 0)\<lparr>ProxyStatus := ProxyStatusExpired\<rparr>, ex_proxies ! 2, (ex_proxies ! 1)\<lparr>ProxyStatus := ProxyStatusExpired\<rparr>],
      accounts = [(ex_account 7 (Some 3))\<lparr>acc_origin := Some 1, acc_extra := []\<rparr>],
      bulk_events = [[7]]\<rparr>)"
  by (simp add: SweepExpiredProxies_def ResolveProxyFallbackTarget_def follow_chain.simps ex_proxy_defs by_id_def proxy_live_def
      ProxyIsExpired_def after_def Let_def sweepOneExpiredProxy_def sweepOneExpiredProxyOnExec_def invalidateProxyProbeSnapshots_def
      enqueueProxyProbeAccountChanges_def has_probe_def has_extra_def drop_extra_def redirect_def bound_to_def
      sortedUniqueAccountIDs_def chunks_short)

end
