(* ===== verification/UsageBilling.thy ===== *)
theory UsageBilling
  imports GatewayStore
begin

section \<open>Charging for requests\<close>

text \<open>
  \<^verbatim>\<open>service/usage_billing.go\<close>, \<^verbatim>\<open>repository/usage_billing_repo.go\<close> and the clean-up of its keys in
  \<^verbatim>\<open>repository/dashboard_aggregation_repo.go\<close>. A request is charged in one transaction that first claims the
  request's id; so are the reservation, capture and release of money for a batch of images. The tables are a
  record that theories further on extend; a transaction is an atomic statement of it: its
  updates lock their rows until the commit, and a second claim of an id waits for the first.

  Amounts are exact. \<^verbatim>\<open>sha256\<close> is a parameter. A nil command or repository is not represented.
\<close>

subsection \<open>Amounts and fingerprints\<close>

definition UsageBillingMonetaryScale :: nat where "UsageBillingMonetaryScale = 8"

definition QuantizeUsageBillingAmount :: "usd \<Rightarrow> usd" where
  "QuantizeUsageBillingAmount v =
     sgn v * of_int \<lfloor>\<bar>v\<bar> * 10 ^ UsageBillingMonetaryScale + 1 / 2\<rfloor> / 10 ^ UsageBillingMonetaryScale"

text \<open>\<^verbatim>\<open>%0.10f\<close>.\<close>

definition format_10f :: "usd \<Rightarrow> string" where
  "format_10f v =
     (let n = nat \<lfloor>\<bar>v\<bar> * 10 ^ 10 + 1 / 2\<rfloor>; frac = nat_digits (n mod 10 ^ 10)
      in (if v < 0 then ''-'' else '''') @ nat_digits (n div 10 ^ 10) @ ''.'' @ replicate (10 - length frac) CHR ''0'' @ frac)"

record UsageBillingCommand =
  BillRequestID :: string
  BillAPIKeyID :: int
  BillFingerprint :: string
  BillPayloadHash :: string
  BillUserID :: int
  BillAccountID :: int
  BillSubscriptionID :: "int option"
  BillAccountType :: string
  BillModel :: string
  BillServiceTier :: string
  BillReasoningEffort :: string
  BillBillingType :: int
  BillInputTokens :: int
  BillOutputTokens :: int
  BillCacheCreationTokens :: int
  BillCacheReadTokens :: int
  BillImageCount :: int
  BillMediaType :: string
  BalanceCost :: usd
  SubscriptionCost :: usd
  APIKeyQuotaCost :: usd
  APIKeyRateLimitCost :: usd
  AccountQuotaCost :: usd

definition joined :: "string list \<Rightarrow> string" where
  "joined parts = concat (case parts of [] \<Rightarrow> [] | p # ps \<Rightarrow> p # map ((@) ''|'') ps)"

definition buildUsageBillingFingerprint :: "(string \<Rightarrow> string) \<Rightarrow> UsageBillingCommand \<Rightarrow> string" where
  "buildUsageBillingFingerprint H c =
     (let raw = joined
        [itoa (BillUserID c), itoa (BillAccountID c), itoa (BillAPIKeyID c), trim_space (BillAccountType c), trim_space (BillModel c),
         trim_space (BillServiceTier c), trim_space (BillReasoningEffort c), itoa (BillBillingType c), itoa (BillInputTokens c),
         itoa (BillOutputTokens c), itoa (BillCacheCreationTokens c), itoa (BillCacheReadTokens c), itoa (BillImageCount c),
         trim_space (BillMediaType c), itoa (case BillSubscriptionID c of None \<Rightarrow> 0 | Some i \<Rightarrow> i), format_10f (BalanceCost c),
         format_10f (SubscriptionCost c), format_10f (APIKeyQuotaCost c), format_10f (APIKeyRateLimitCost c),
         format_10f (AccountQuotaCost c)];
         payloadHash = trim_space (BillPayloadHash c)
      in H (if payloadHash \<noteq> '''' then raw @ ''|'' @ payloadHash else raw))"

definition quantizeMonetaryFields :: "UsageBillingCommand \<Rightarrow> UsageBillingCommand" where
  "quantizeMonetaryFields c = c\<lparr>
     BalanceCost := QuantizeUsageBillingAmount (BalanceCost c),
     SubscriptionCost := QuantizeUsageBillingAmount (SubscriptionCost c),
     APIKeyQuotaCost := QuantizeUsageBillingAmount (APIKeyQuotaCost c),
     APIKeyRateLimitCost := QuantizeUsageBillingAmount (APIKeyRateLimitCost c),
     AccountQuotaCost := QuantizeUsageBillingAmount (AccountQuotaCost c)\<rparr>"

definition NormalizeUsageBilling :: "(string \<Rightarrow> string) \<Rightarrow> UsageBillingCommand \<Rightarrow> UsageBillingCommand" where
  "NormalizeUsageBilling H c0 =
     (let c1 = c0\<lparr>BillRequestID := trim_space (BillRequestID c0)\<rparr>;
          c2 = (if trim_space (BillFingerprint c1) = '''' then c1\<lparr>BillFingerprint := buildUsageBillingFingerprint H c1\<rparr> else c1)
      in quantizeMonetaryFields c2)"

record BatchImageBalanceHoldCommand =
  HoldRequestID :: string
  HoldAPIKeyID :: int
  HoldFingerprint :: string
  HoldPayloadHash :: string
  HoldUserID :: int
  HoldBatchID :: string
  HoldAmount :: usd
  ActualAmount :: usd

definition buildBatchImageBalanceHoldFingerprint :: "(string \<Rightarrow> string) \<Rightarrow> BatchImageBalanceHoldCommand \<Rightarrow> string" where
  "buildBatchImageBalanceHoldFingerprint H c =
     (let raw = joined [itoa (HoldUserID c), itoa (HoldAPIKeyID c), trim_space (HoldBatchID c), format_10f (HoldAmount c), format_10f (ActualAmount c)];
          payloadHash = trim_space (HoldPayloadHash c)
      in H (if payloadHash \<noteq> '''' then raw @ ''|'' @ payloadHash else raw))"

definition NormalizeHold :: "(string \<Rightarrow> string) \<Rightarrow> BatchImageBalanceHoldCommand \<Rightarrow> BatchImageBalanceHoldCommand" where
  "NormalizeHold H c0 =
     (let c1 = c0\<lparr>HoldRequestID := trim_space (HoldRequestID c0), HoldBatchID := trim_space (HoldBatchID c0)\<rparr>
      in if trim_space (HoldFingerprint c1) = '''' then c1\<lparr>HoldFingerprint := buildBatchImageBalanceHoldFingerprint H c1\<rparr> else c1)"

subsection \<open>Tables\<close>

text \<open>The rows with no \<^verbatim>\<open>deleted_at\<close>. A frozen balance that is NULL reads as 0.\<close>

record billing_user =
  bal :: usd
  frozen :: usd

record api_key_row =
  key_quota :: usd
  key_quota_used :: usd
  key_status :: string
  usage_5h :: usd
  usage_1d :: usd
  usage_7d :: usd
  window_5h_start :: "time option"
  window_1d_start :: "time option"
  window_7d_start :: "time option"

text \<open>One period of an account's quota, from the row's extra data; \<open>qw_next\<close> is the next reset of the fixed mode after a moment.\<close>

record quota_window =
  qw_used :: usd
  qw_limit :: usd
  qw_start :: "time option"
  qw_fixed :: bool
  qw_reset_at :: "time option"
  qw_next :: "time \<Rightarrow> time"

record account_quota =
  quota_used :: usd
  quota_limit :: usd
  quota_daily :: quota_window
  quota_weekly :: quota_window

record sub_usage =
  sub_group :: int
  sub_daily :: usd
  sub_weekly :: usd
  sub_monthly :: usd

record dedup_row =
  dd_request :: string
  dd_key :: int
  dd_fingerprint :: string
  dd_created_at :: time

record billing_db =
  bill_clock :: time
  bill_users :: "int \<rightharpoonup> billing_user"
  bill_keys :: "int \<rightharpoonup> api_key_row"
  bill_accounts :: "int \<rightharpoonup> account_quota"
  bill_subs :: "int \<rightharpoonup> sub_usage"
  bill_groups :: "int set"
  dedup :: "dedup_row list"
  dedup_archive :: "dedup_row list"
  account_events :: "int list"

type_synonym ('z, 'a) bill_stmt = "'z billing_db_scheme \<Rightarrow> (go_error + 'a) \<times> 'z billing_db_scheme"

definition ErrUsageBillingRequestIDRequired :: go_error where
  "ErrUsageBillingRequestIDRequired = plain_error ''usage billing request_id is required''"
definition ErrUsageBillingRequestConflict :: go_error where
  "ErrUsageBillingRequestConflict = plain_error ''usage billing request fingerprint conflict''"
definition ErrAPIKeyNotFound :: go_error where "ErrAPIKeyNotFound = NotFound ''API_KEY_NOT_FOUND'' ''api key not found''"
definition ErrAccountNotFound :: go_error where "ErrAccountNotFound = NotFound ''ACCOUNT_NOT_FOUND'' ''account not found''"
definition ErrBatchImageInsufficientBalance :: go_error where
  "ErrBatchImageInsufficientBalance =
     New 402 ''BATCH_IMAGE_INSUFFICIENT_BALANCE'' ''insufficient balance for batch image hold''"
definition ErrBatchImageSettlementCostExceedsHold :: go_error where
  "ErrBatchImageSettlementCostExceedsHold =
     New 409 ''BATCH_IMAGE_SETTLEMENT_COST_EXCEEDS_HOLD'' ''batch image settlement cost exceeds held balance''"

definition StatusAPIKeyActive :: string where "StatusAPIKeyActive = ''active''"
definition StatusAPIKeyQuotaExhausted :: string where "StatusAPIKeyQuotaExhausted = ''quota_exhausted''"

subsection \<open>Claiming a request\<close>

definition claimed_as :: "string \<Rightarrow> int \<Rightarrow> dedup_row \<Rightarrow> bool" where
  "claimed_as rid k r \<longleftrightarrow> dd_request r = rid \<and> dd_key r = k"

definition same_fingerprint :: "dedup_row \<Rightarrow> string \<Rightarrow> go_error + bool" where
  "same_fingerprint r fp =
     (if trim_space (dd_fingerprint r) \<noteq> trim_space fp then Inl ErrUsageBillingRequestConflict else Inr False)"

definition claimUsageBillingRequest :: "string \<Rightarrow> int \<Rightarrow> string \<Rightarrow> ('z, bool) bill_stmt" where
  "claimUsageBillingRequest rid k fp s =
     (case List.find (claimed_as rid k) (dedup s) of
        Some r \<Rightarrow> (same_fingerprint r fp, s)
      | None \<Rightarrow>
          (let t = s\<lparr>dedup := dedup s @ [\<lparr>dd_request = rid, dd_key = k, dd_fingerprint = fp, dd_created_at = bill_clock s\<rparr>]\<rparr>
           in case List.find (claimed_as rid k) (dedup_archive s) of
                Some r \<Rightarrow> (same_fingerprint r fp, t)
              | None \<Rightarrow> (Inr True, t)))"

text \<open>
  The frame of every transaction of this repository: it is rolled back unless the claim was new and the work
  succeeded. \<open>None\<close> is the answer of a request that was claimed before.
\<close>

definition claimed_tx :: "string \<Rightarrow> int \<Rightarrow> string \<Rightarrow> ('z, 'a) bill_stmt \<Rightarrow> ('z, 'a option) bill_stmt" where
  "claimed_tx rid k fp work s =
     (if rid = '''' then (Inl ErrUsageBillingRequestIDRequired, s)
      else case claimUsageBillingRequest rid k fp s of
        (Inl e, _) \<Rightarrow> (Inl e, s)
      | (Inr False, _) \<Rightarrow> (Inr None, s)
      | (Inr True, t) \<Rightarrow> (case work t of (Inl e, _) \<Rightarrow> (Inl e, s) | (Inr a, u) \<Rightarrow> (Inr (Some a), u)))"

subsection \<open>The effects of a request\<close>

definition bill_and :: "('z, 'a) bill_stmt \<Rightarrow> ('a \<Rightarrow> ('z, 'b) bill_stmt) \<Rightarrow> ('z, 'b) bill_stmt" where
  "bill_and f g s = (case f s of (Inl e, t) \<Rightarrow> (Inl e, t) | (Inr a, t) \<Rightarrow> g a t)"

definition bill_when :: "bool \<Rightarrow> 'a \<Rightarrow> ('z, 'a) bill_stmt \<Rightarrow> ('z, 'a) bill_stmt" where
  "bill_when b a f = (if b then f else (\<lambda>s. (Inr a, s)))"

definition incrementUsageBillingSubscription :: "int \<Rightarrow> usd \<Rightarrow> ('z, unit) bill_stmt" where
  "incrementUsageBillingSubscription i cost s =
     (case bill_subs s i of
        Some r \<Rightarrow> (if sub_group r \<in> bill_groups s
          then (Inr (), s\<lparr>bill_subs := (bill_subs s)(i \<mapsto> r\<lparr>sub_daily := sub_daily r + cost, sub_weekly := sub_weekly r + cost,
                  sub_monthly := sub_monthly r + cost\<rparr>)\<rparr>)
          else (Inl ErrSubscriptionNotFound, s))
      | None \<Rightarrow> (Inl ErrSubscriptionNotFound, s))"

definition set_user :: "int \<Rightarrow> billing_user \<Rightarrow> 'z billing_db_scheme \<Rightarrow> 'z billing_db_scheme" where
  "set_user i u s = s\<lparr>bill_users := (bill_users s)(i \<mapsto> u)\<rparr>"

definition deductUsageBillingBalance :: "int \<Rightarrow> usd \<Rightarrow> ('z, usd \<times> bool) bill_stmt" where
  "deductUsageBillingBalance userID amount s =
     (case bill_users s userID of
        None \<Rightarrow> (Inl ErrUserNotFound, s)
      | Some u \<Rightarrow>
          (let t = set_user userID (u\<lparr>bal := bal u - amount\<rparr>) s
           in if bal u \<ge> amount then (Inr (bal u - amount, True), t) else (Inr (bal u - amount, False), t)))"

definition crosses_quota :: "usd \<Rightarrow> api_key_row \<Rightarrow> bool" where
  "crosses_quota amount r \<longleftrightarrow> key_quota r > 0 \<and> key_quota_used r < key_quota r \<and> key_quota_used r + amount \<ge> key_quota r"

definition spend_key :: "usd \<Rightarrow> api_key_row \<Rightarrow> api_key_row" where
  "spend_key amount r = r\<lparr>key_quota_used := key_quota_used r + amount,
     key_status := (if key_status r = StatusAPIKeyActive \<and> crosses_quota amount r then StatusAPIKeyQuotaExhausted else key_status r)\<rparr>"

definition incrementUsageBillingAPIKeyQuota :: "int \<Rightarrow> usd \<Rightarrow> ('z, bool) bill_stmt" where
  "incrementUsageBillingAPIKeyQuota k amount s =
     (case bill_keys s k of
        None \<Rightarrow> (Inl ErrAPIKeyNotFound, s)
      | Some r \<Rightarrow> (Inr (crosses_quota amount r), s\<lparr>bill_keys := (bill_keys s)(k \<mapsto> spend_key amount r)\<rparr>))"

text \<open>A day of the database begins at multiples of 24 hours.\<close>

definition trunc_day :: "time \<Rightarrow> time" where "trunc_day t = t div (24 * hour) * (24 * hour)"

definition window_over :: "duration \<Rightarrow> time \<Rightarrow> time option \<Rightarrow> bool" where
  "window_over d now start \<longleftrightarrow> (case start of None \<Rightarrow> False | Some t \<Rightarrow> t + d \<le> now)"

definition window_usage :: "duration \<Rightarrow> time \<Rightarrow> time option \<Rightarrow> usd \<Rightarrow> usd \<Rightarrow> usd" where
  "window_usage d now start used cost = (if window_over d now start then cost else used + cost)"

definition window_begin :: "duration \<Rightarrow> time \<Rightarrow> time \<Rightarrow> time option \<Rightarrow> time option" where
  "window_begin d now fresh start = (if start = None \<or> window_over d now start then Some fresh else start)"

definition spend_windows :: "time \<Rightarrow> usd \<Rightarrow> api_key_row \<Rightarrow> api_key_row" where
  "spend_windows now cost r = r\<lparr>
     usage_5h := window_usage (5 * hour) now (window_5h_start r) (usage_5h r) cost,
     usage_1d := window_usage (24 * hour) now (window_1d_start r) (usage_1d r) cost,
     usage_7d := window_usage (7 * 24 * hour) now (window_7d_start r) (usage_7d r) cost,
     window_5h_start := window_begin (5 * hour) now now (window_5h_start r),
     window_1d_start := window_begin (24 * hour) now (trunc_day now) (window_1d_start r),
     window_7d_start := window_begin (7 * 24 * hour) now (trunc_day now) (window_7d_start r)\<rparr>"

definition incrementUsageBillingAPIKeyRateLimit :: "int \<Rightarrow> usd \<Rightarrow> ('z, unit) bill_stmt" where
  "incrementUsageBillingAPIKeyRateLimit k cost s =
     (case bill_keys s k of
        None \<Rightarrow> (Inl ErrAPIKeyNotFound, s)
      | Some r \<Rightarrow> (Inr (), s\<lparr>bill_keys := (bill_keys s)(k \<mapsto> spend_windows (bill_clock s) cost r)\<rparr>))"

definition quota_period_over :: "duration \<Rightarrow> time \<Rightarrow> quota_window \<Rightarrow> bool" where
  "quota_period_over d now w \<longleftrightarrow>
     (if qw_fixed w then now \<ge> (case qw_reset_at w of None \<Rightarrow> 0 | Some t \<Rightarrow> t)
      else (case qw_start w of None \<Rightarrow> 0 | Some t \<Rightarrow> t) + d \<le> now)"

definition charge_quota_window :: "duration \<Rightarrow> time \<Rightarrow> usd \<Rightarrow> quota_window \<Rightarrow> quota_window" where
  "charge_quota_window d now amount w =
     (if qw_limit w > 0
      then w\<lparr>qw_used := (if quota_period_over d now w then amount else qw_used w + amount),
             qw_start := (if quota_period_over d now w then Some now else Some (case qw_start w of None \<Rightarrow> now | Some t \<Rightarrow> t)),
             qw_reset_at := (if quota_period_over d now w \<and> qw_fixed w then Some (qw_next w now) else qw_reset_at w)\<rparr>
      else w)"

record AccountQuotaState =
  TotalUsed :: usd
  TotalLimit :: usd
  DailyUsed :: usd
  DailyLimit :: usd
  WeeklyUsed :: usd
  WeeklyLimit :: usd

definition crossed :: "usd \<Rightarrow> usd \<Rightarrow> usd \<Rightarrow> bool" where
  "crossed limit used amount \<longleftrightarrow> limit > 0 \<and> used \<ge> limit \<and> used - amount < limit"

definition spend_account :: "time \<Rightarrow> usd \<Rightarrow> account_quota \<Rightarrow> account_quota" where
  "spend_account now amount q = q\<lparr>quota_used := quota_used q + amount,
     quota_daily := charge_quota_window (24 * hour) now amount (quota_daily q),
     quota_weekly := charge_quota_window (168 * hour) now amount (quota_weekly q)\<rparr>"

definition quota_state :: "account_quota \<Rightarrow> AccountQuotaState" where
  "quota_state q = \<lparr>TotalUsed = quota_used q, TotalLimit = quota_limit q, DailyUsed = qw_used (quota_daily q),
     DailyLimit = qw_limit (quota_daily q), WeeklyUsed = qw_used (quota_weekly q), WeeklyLimit = qw_limit (quota_weekly q)\<rparr>"

definition incrementUsageBillingAccountQuota :: "int \<Rightarrow> usd \<Rightarrow> ('z, AccountQuotaState) bill_stmt" where
  "incrementUsageBillingAccountQuota i amount s =
     (case bill_accounts s i of
        None \<Rightarrow> (Inl ErrAccountNotFound, s)
      | Some q0 \<Rightarrow>
          (let q = spend_account (bill_clock s) amount q0; st = quota_state q;
               news = crossed (TotalLimit st) (TotalUsed st) amount \<or> crossed (DailyLimit st) (DailyUsed st) amount \<or>
                      crossed (WeeklyLimit st) (WeeklyUsed st) amount
           in (Inr st, s\<lparr>bill_accounts := (bill_accounts s)(i \<mapsto> q),
                 account_events := (if news \<and> i \<notin> set (account_events s) then account_events s @ [i] else account_events s)\<rparr>)))"

record UsageBillingApplyResult =
  APIKeyQuotaExhausted :: bool
  NewBalance :: "usd option"
  BalanceOverdrafted :: bool
  QuotaState :: "AccountQuotaState option"

text \<open>
  \<^verbatim>\<open>strings.EqualFold\<close> with a lower-case ASCII word: besides the capital letters, the Kelvin sign folds to k and the
  long s to s.
\<close>

fun fold_ascii :: "string \<Rightarrow> string" where
  "fold_ascii (a # b # c # s) =
     (if [a, b, c] = bytes [0xE2, 0x84, 0xAA] then CHR ''k'' # fold_ascii s
      else if [a, b] = bytes [0xC5, 0xBF] then CHR ''s'' # fold_ascii (c # s)
      else (if 65 \<le> (of_char a :: nat) \<and> (of_char a :: nat) \<le> 90 then char_of (of_char a + 32 :: nat) else a) # fold_ascii (b # c # s))"
| "fold_ascii s = (if s = bytes [0xC5, 0xBF] then ''s''
      else map (\<lambda>a. if 65 \<le> (of_char a :: nat) \<and> (of_char a :: nat) \<le> 90 then char_of (of_char a + 32 :: nat) else a) s)"

definition quota_account_type :: "string \<Rightarrow> bool" where
  "quota_account_type t \<longleftrightarrow> fold_ascii t = ''apikey'' \<or> fold_ascii t = ''bedrock''"

definition applyUsageBillingEffects :: "UsageBillingCommand \<Rightarrow> ('z, UsageBillingApplyResult) bill_stmt" where
  "applyUsageBillingEffects cmd =
     bill_and (case BillSubscriptionID cmd of
         Some i \<Rightarrow> bill_when (SubscriptionCost cmd > 0) () (incrementUsageBillingSubscription i (SubscriptionCost cmd))
       | None \<Rightarrow> (\<lambda>s. (Inr (), s))) (\<lambda>_.
     bill_and (bill_when (BalanceCost cmd > 0) (None, False)
         (bill_and (deductUsageBillingBalance (BillUserID cmd) (BalanceCost cmd)) (\<lambda>(b, sufficient) s. (Inr (Some b, \<not> sufficient), s)))) (\<lambda>(newBalance, overdrafted).
     bill_and (bill_when (APIKeyQuotaCost cmd > 0) False (incrementUsageBillingAPIKeyQuota (BillAPIKeyID cmd) (APIKeyQuotaCost cmd))) (\<lambda>exhausted.
     bill_and (bill_when (APIKeyRateLimitCost cmd > 0) () (incrementUsageBillingAPIKeyRateLimit (BillAPIKeyID cmd) (APIKeyRateLimitCost cmd))) (\<lambda>_.
     bill_and (bill_when (AccountQuotaCost cmd > 0 \<and> quota_account_type (BillAccountType cmd)) None
         (bill_and (incrementUsageBillingAccountQuota (BillAccountID cmd) (AccountQuotaCost cmd)) (\<lambda>q s. (Inr (Some q), s)))) (\<lambda>quota s.
     (Inr \<lparr>APIKeyQuotaExhausted = exhausted, NewBalance = newBalance, BalanceOverdrafted = overdrafted, QuotaState = quota\<rparr>, s))))))"

definition Apply :: "(string \<Rightarrow> string) \<Rightarrow> UsageBillingCommand \<Rightarrow> ('z, UsageBillingApplyResult option) bill_stmt" where
  "Apply H cmd0 =
     (let cmd = NormalizeUsageBilling H cmd0
      in claimed_tx (BillRequestID cmd) (BillAPIKeyID cmd) (BillFingerprint cmd) (applyUsageBillingEffects cmd))"

subsection \<open>Money held for a batch of images\<close>

definition trim_key :: "string \<Rightarrow> string \<Rightarrow> string" where "trim_key pre batchID = pre @ trim_space batchID"
definition BatchImageHoldRequestID :: "string \<Rightarrow> string" where "BatchImageHoldRequestID = trim_key ''batch_image_hold:''"
definition BatchImageCaptureRequestID :: "string \<Rightarrow> string" where "BatchImageCaptureRequestID = trim_key ''batch_image_capture:''"
definition BatchImageReleaseRequestID :: "string \<Rightarrow> string" where "BatchImageReleaseRequestID = trim_key ''batch_image_release:''"

type_synonym hold_result = "(usd \<times> usd) option"

text \<open>A conditional update of the user's row, and the error when it hit none.\<close>

definition update_money :: "int \<Rightarrow> (billing_user \<Rightarrow> bool) \<Rightarrow> (billing_user \<Rightarrow> billing_user) \<Rightarrow> go_error \<Rightarrow> ('z, hold_result) bill_stmt" where
  "update_money userID cond f missed s =
     (case bill_users s userID of
        None \<Rightarrow> (Inl ErrUserNotFound, s)
      | Some u \<Rightarrow> (if cond u then (Inr (Some (bal (f u), frozen (f u))), set_user userID (f u) s) else (Inl missed, s)))"

definition frozen_insufficient :: go_error where
  "frozen_insufficient = plain_error ''batch image frozen balance is insufficient''"

definition reserveUsageBillingBatchImageBalance :: "BatchImageBalanceHoldCommand \<Rightarrow> ('z, hold_result) bill_stmt" where
  "reserveUsageBillingBatchImageBalance cmd =
     (if HoldAmount cmd \<le> 0 then (\<lambda>s. (Inr None, s))
      else update_money (HoldUserID cmd) (\<lambda>u. bal u \<ge> HoldAmount cmd)
        (\<lambda>u. u\<lparr>bal := bal u - HoldAmount cmd, frozen := frozen u + HoldAmount cmd\<rparr>) ErrBatchImageInsufficientBalance)"

definition captureUsageBillingBatchImageBalance :: "BatchImageBalanceHoldCommand \<Rightarrow> ('z, hold_result) bill_stmt" where
  "captureUsageBillingBatchImageBalance cmd =
     (if HoldAmount cmd \<le> 0 \<and> ActualAmount cmd \<le> 0 then (\<lambda>s. (Inr None, s))
      else if ActualAmount cmd - HoldAmount cmd > 1 / 10 ^ 8 then (\<lambda>s. (Inl ErrBatchImageSettlementCostExceedsHold, s))
      else update_money (HoldUserID cmd) (\<lambda>u. frozen u \<ge> HoldAmount cmd)
        (\<lambda>u. u\<lparr>bal := bal u + (if HoldAmount cmd > ActualAmount cmd then HoldAmount cmd - ActualAmount cmd else 0)
                           - (if ActualAmount cmd > HoldAmount cmd then ActualAmount cmd - HoldAmount cmd else 0),
               frozen := frozen u - HoldAmount cmd\<rparr>) frozen_insufficient)"

definition batchImageHoldClaimExists :: "string \<Rightarrow> int \<Rightarrow> 'z billing_db_scheme \<Rightarrow> bool" where
  "batchImageHoldClaimExists rid k s \<longleftrightarrow> List.find (claimed_as rid k) (dedup s) \<noteq> None \<or> List.find (claimed_as rid k) (dedup_archive s) \<noteq> None"

definition releaseUsageBillingBatchImageBalance :: "BatchImageBalanceHoldCommand \<Rightarrow> ('z, hold_result) bill_stmt" where
  "releaseUsageBillingBatchImageBalance cmd s =
     (if HoldAmount cmd \<le> 0 then (Inr None, s)
      else if \<not> batchImageHoldClaimExists (BatchImageHoldRequestID (HoldBatchID cmd)) (HoldAPIKeyID cmd) s then (Inr None, s)
      else update_money (HoldUserID cmd) (\<lambda>u. frozen u \<ge> HoldAmount cmd)
        (\<lambda>u. u\<lparr>bal := bal u + HoldAmount cmd, frozen := frozen u - HoldAmount cmd\<rparr>) frozen_insufficient s)"

definition applyBatchImageBalanceHold ::
  "(string \<Rightarrow> string) \<Rightarrow> (BatchImageBalanceHoldCommand \<Rightarrow> ('z, hold_result) bill_stmt) \<Rightarrow> BatchImageBalanceHoldCommand \<Rightarrow>
   ('z, hold_result option) bill_stmt" where
  "applyBatchImageBalanceHold H work cmd0 =
     (let cmd = NormalizeHold H cmd0 in claimed_tx (HoldRequestID cmd) (HoldAPIKeyID cmd) (HoldFingerprint cmd) (work cmd))"

definition ReserveBatchImageBalance :: "(string \<Rightarrow> string) \<Rightarrow> BatchImageBalanceHoldCommand \<Rightarrow> ('z, hold_result option) bill_stmt" where
  "ReserveBatchImageBalance H = applyBatchImageBalanceHold H reserveUsageBillingBatchImageBalance"
definition CaptureBatchImageBalance :: "(string \<Rightarrow> string) \<Rightarrow> BatchImageBalanceHoldCommand \<Rightarrow> ('z, hold_result option) bill_stmt" where
  "CaptureBatchImageBalance H = applyBatchImageBalanceHold H captureUsageBillingBatchImageBalance"
definition ReleaseBatchImageBalance :: "(string \<Rightarrow> string) \<Rightarrow> BatchImageBalanceHoldCommand \<Rightarrow> ('z, hold_result option) bill_stmt" where
  "ReleaseBatchImageBalance H = applyBatchImageBalanceHold H releaseUsageBillingBatchImageBalance"

subsection \<open>The archive of claims\<close>

text \<open>
  One statement of the clean-up: it moves at most \<open>n\<close> of the old claims, any of them; \<open>pick\<close> says which. A claim that is
  archived already stays as it is there.
\<close>

definition archive_claims :: "time \<Rightarrow> (dedup_row \<Rightarrow> bool) \<Rightarrow> 'z billing_db_scheme \<Rightarrow> 'z billing_db_scheme" where
  "archive_claims cutoff pick s =
     (let victim = (\<lambda>r. dd_created_at r < cutoff \<and> pick r);
          absent = (\<lambda>r. List.find (claimed_as (dd_request r) (dd_key r)) (dedup_archive s) = None)
      in s\<lparr>dedup_archive := dedup_archive s @ filter (\<lambda>r. victim r \<and> absent r) (dedup s),
           dedup := filter (\<lambda>r. \<not> victim r) (dedup s)\<rparr>)"

subsection \<open>From a finished request to its command\<close>

text \<open>\<^verbatim>\<open>service/gateway_usage_billing.go\<close>: what is charged for a request. \<open>Some\<close> in \<open>ctx_*\<close> is a value of the context.\<close>

record billing_context =
  ctx_client_request :: "string option"
  ctx_request :: "string option"

definition isForcedUsageBillingRequestID :: "string \<Rightarrow> bool" where
  "isForcedUsageBillingRequestID requestID =
     (let i = trim_space requestID
      in prefix ''web_search:'' i \<or> prefix ''grok-video:'' i \<or> prefix ''grok_audio:'' i \<or> prefix ''grok_realtime:'' i)"

definition trimmed :: "string option \<Rightarrow> string" where
  "trimmed v = (case v of None \<Rightarrow> '''' | Some s \<Rightarrow> trim_space s)"

definition resolveUsageBillingRequestID :: "string \<Rightarrow> billing_context option \<Rightarrow> string \<Rightarrow> string" where
  "resolveUsageBillingRequestID generated ctx upstreamRequestID =
     (let up = trim_space upstreamRequestID
      in if up \<noteq> '''' \<and> isForcedUsageBillingRequestID up then up
         else case ctx of
           Some x \<Rightarrow>
             (if trimmed (ctx_client_request x) \<noteq> '''' then ''client:'' @ trimmed (ctx_client_request x)
              else if trimmed (ctx_request x) \<noteq> '''' then ''local:'' @ trimmed (ctx_request x)
              else if up \<noteq> '''' then up else ''generated:'' @ generated)
         | None \<Rightarrow> if up \<noteq> '''' then up else ''generated:'' @ generated)"

definition resolveUsageBillingPayloadFingerprint :: "billing_context option \<Rightarrow> string \<Rightarrow> string" where
  "resolveUsageBillingPayloadFingerprint ctx requestPayloadHash =
     (if trim_space requestPayloadHash \<noteq> '''' then trim_space requestPayloadHash
      else case ctx of
        Some x \<Rightarrow>
          (if trimmed (ctx_client_request x) \<noteq> '''' then ''client:'' @ trimmed (ctx_client_request x)
           else if trimmed (ctx_request x) \<noteq> '''' then ''local:'' @ trimmed (ctx_request x) else '''')
      | None \<Rightarrow> '''')"

record usage_log =
  log_model :: string
  log_service_tier :: "string option"
  log_reasoning_effort :: "string option"
  log_billing_type :: int
  log_input_tokens :: int
  log_output_tokens :: int
  log_cache_creation_tokens :: int
  log_cache_read_tokens :: int
  log_image_count :: int
  log_subscription :: "int option"

record postUsageBillingParams =
  p_total_cost :: usd
  p_actual_cost :: usd
  p_user :: int
  p_key :: int
  p_key_quota :: usd
  p_rate_limits :: "usd \<times> usd \<times> usd"
  p_account :: int
  p_account_type :: string
  p_account_limits :: "usd \<times> usd \<times> usd"
  p_subscription :: "int option"
  p_payload_hash :: string
  p_is_subscription :: bool
  p_account_rate :: usd
  p_key_service :: bool

definition HasRateLimits :: "postUsageBillingParams \<Rightarrow> bool" where
  "HasRateLimits p \<longleftrightarrow> (case p_rate_limits p of (a, b, c) \<Rightarrow> a > 0 \<or> b > 0 \<or> c > 0)"

definition HasAnyQuotaLimit :: "postUsageBillingParams \<Rightarrow> bool" where
  "HasAnyQuotaLimit p \<longleftrightarrow> (case p_account_limits p of (a, b, c) \<Rightarrow> a > 0 \<or> b > 0 \<or> c > 0)"

definition IsAPIKeyOrBedrock :: "postUsageBillingParams \<Rightarrow> bool" where
  "IsAPIKeyOrBedrock p \<longleftrightarrow> p_account_type p = ''apikey'' \<or> p_account_type p = ''bedrock''"

definition shouldDeductAPIKeyQuota :: "postUsageBillingParams \<Rightarrow> bool" where
  "shouldDeductAPIKeyQuota p \<longleftrightarrow> p_actual_cost p > 0 \<and> p_key_quota p > 0 \<and> p_key_service p"

definition shouldUpdateRateLimits :: "postUsageBillingParams \<Rightarrow> bool" where
  "shouldUpdateRateLimits p \<longleftrightarrow> p_actual_cost p > 0 \<and> HasRateLimits p \<and> p_key_service p"

definition shouldUpdateAccountQuota :: "postUsageBillingParams \<Rightarrow> bool" where
  "shouldUpdateAccountQuota p \<longleftrightarrow> p_total_cost p > 0 \<and> IsAPIKeyOrBedrock p \<and> HasAnyQuotaLimit p"

definition or_blank :: "string option \<Rightarrow> string" where "or_blank v = (case v of None \<Rightarrow> '''' | Some s \<Rightarrow> s)"

definition logged_command :: "string \<Rightarrow> usage_log option \<Rightarrow> postUsageBillingParams \<Rightarrow> UsageBillingCommand" where
  "logged_command requestID usageLog p =
     \<lparr>BillRequestID = requestID, BillAPIKeyID = p_key p, BillFingerprint = '''', BillPayloadHash = trim_space (p_payload_hash p),
      BillUserID = p_user p, BillAccountID = p_account p,
      BillSubscriptionID = (case usageLog of None \<Rightarrow> None | Some l \<Rightarrow> log_subscription l), BillAccountType = p_account_type p,
      BillModel = (case usageLog of None \<Rightarrow> '''' | Some l \<Rightarrow> log_model l),
      BillServiceTier = (case usageLog of None \<Rightarrow> '''' | Some l \<Rightarrow> or_blank (log_service_tier l)),
      BillReasoningEffort = (case usageLog of None \<Rightarrow> '''' | Some l \<Rightarrow> or_blank (log_reasoning_effort l)),
      BillBillingType = (case usageLog of None \<Rightarrow> 0 | Some l \<Rightarrow> log_billing_type l),
      BillInputTokens = (case usageLog of None \<Rightarrow> 0 | Some l \<Rightarrow> log_input_tokens l),
      BillOutputTokens = (case usageLog of None \<Rightarrow> 0 | Some l \<Rightarrow> log_output_tokens l),
      BillCacheCreationTokens = (case usageLog of None \<Rightarrow> 0 | Some l \<Rightarrow> log_cache_creation_tokens l),
      BillCacheReadTokens = (case usageLog of None \<Rightarrow> 0 | Some l \<Rightarrow> log_cache_read_tokens l),
      BillImageCount = (case usageLog of None \<Rightarrow> 0 | Some l \<Rightarrow> log_image_count l),
      BillMediaType = '''', BalanceCost = 0, SubscriptionCost = 0, APIKeyQuotaCost = 0, APIKeyRateLimitCost = 0, AccountQuotaCost = 0\<rparr>"

definition priced_command :: "postUsageBillingParams \<Rightarrow> UsageBillingCommand \<Rightarrow> UsageBillingCommand" where
  "priced_command p c0 =
     (let c1 = (case p_subscription p of
            Some i \<Rightarrow> if p_is_subscription p \<and> p_total_cost p > 0
              then c0\<lparr>BillSubscriptionID := Some i, SubscriptionCost := p_actual_cost p\<rparr>
              else if p_actual_cost p > 0 then c0\<lparr>BalanceCost := p_actual_cost p\<rparr> else c0
          | None \<Rightarrow> if p_actual_cost p > 0 then c0\<lparr>BalanceCost := p_actual_cost p\<rparr> else c0);
          c2 = (if shouldDeductAPIKeyQuota p then c1\<lparr>APIKeyQuotaCost := p_actual_cost p\<rparr> else c1);
          c3 = (if shouldUpdateRateLimits p then c2\<lparr>APIKeyRateLimitCost := p_actual_cost p\<rparr> else c2)
      in if shouldUpdateAccountQuota p then c3\<lparr>AccountQuotaCost := p_total_cost p * p_account_rate p\<rparr> else c3)"

definition buildUsageBillingCommand ::
  "(string \<Rightarrow> string) \<Rightarrow> string \<Rightarrow> usage_log option \<Rightarrow> postUsageBillingParams \<Rightarrow> UsageBillingCommand" where
  "buildUsageBillingCommand H requestID usageLog p = NormalizeUsageBilling H (priced_command p (logged_command requestID usageLog p))"

end
