(* ===== verification/BatchResult.thy ===== *)
theory BatchResult
  imports LogRedact AppErrors "HOL-Library.List_Lexorder" "HOL-Library.Char_ord"
begin

section \<open>The results of a batch of images\<close>

text \<open>
  The part of \<^verbatim>\<open>service/batch_image_processor.go\<close> that reads a provider's output: one line is parsed into an item
  (\<^verbatim>\<open>ParseBatchImageResultLine\<close>), and all lines are reconciled with the items that were submitted (the body of
  \<^verbatim>\<open>BatchImageResultIndexer.Index\<close> between its two accesses to the database). The JSON decoder, the case table and
  the conversion of a JSON number to an integer literal are parameters; the lines a \<^verbatim>\<open>bufio.Scanner\<close> found, and the error it
  ended with, are arguments. The text of a cause that quotes its arguments is shortened.
\<close>

record result_lib = json_lib +
  j_integer :: "string \<Rightarrow> string"

subsection \<open>Errors\<close>

definition ErrBatchImageIndexOutputMissing :: go_error where
  "ErrBatchImageIndexOutputMissing = New 502 ''BATCH_IMAGE_INDEX_OUTPUT_MISSING'' ''batch image provider output is missing''"
definition ErrBatchImageIndexParseFailed :: go_error where
  "ErrBatchImageIndexParseFailed = New 502 ''BATCH_IMAGE_INDEX_PARSE_FAILED'' ''batch image provider output parse failed''"
definition ErrBatchImageIndexNoResultLines :: go_error where
  "ErrBatchImageIndexNoResultLines = New 502 ''BATCH_IMAGE_INDEX_NO_RESULT_LINES'' ''batch image provider output has no result lines''"
definition ErrBatchImageDuplicateCustomID :: go_error where
  "ErrBatchImageDuplicateCustomID = New 502 ''DUPLICATE_CUSTOM_ID_IN_OUTPUT'' ''batch image provider output contains duplicate custom id''"
definition ErrBatchImageIndexStateConflict :: go_error where
  "ErrBatchImageIndexStateConflict = New 409 ''BATCH_IMAGE_INDEX_STATE_CONFLICT'' ''batch image job is no longer in indexing state''"

text \<open>\<^verbatim>\<open>errors.Is\<close>: the target is in the chain of causes, or an application error of it has its code and reason.\<close>

fun errors_is :: "go_error \<Rightarrow> go_error \<Rightarrow> bool" where
  "errors_is (AppError st c) target \<longleftrightarrow>
     AppError st c = target \<or> error_is st target \<or> (case c of None \<Rightarrow> False | Some e \<Rightarrow> errors_is e target)"
| "errors_is (OtherError m c) target \<longleftrightarrow> OtherError m c = target \<or> (case c of None \<Rightarrow> False | Some e \<Rightarrow> errors_is e target)"

definition io_unexpected_eof :: go_error where "io_unexpected_eof = OtherError ''unexpected EOF'' None"

subsection \<open>One line\<close>

definition BatchImageParsedStatusSucceeded :: string where "BatchImageParsedStatusSucceeded = ''succeeded''"
definition BatchImageParsedStatusFailed :: string where "BatchImageParsedStatusFailed = ''failed''"
definition batchImageMaxErrorMessageLength :: int where "batchImageMaxErrorMessageLength = 1000"

record ParsedBatchImageResult =
  ParsedCustomID :: string
  ParsedStatus :: string
  ParsedMimeType :: string
  ParsedFileExtension :: string
  ParsedImageCount :: int
  ParsedErrorCode :: string
  ParsedErrorMessage :: string
  SourceLineNumber :: int

text \<open>The value of a key of a Go map, nil when there is none; of entries that share a key the decoder keeps the last.\<close>

definition map_entry :: "(string \<times> json) list \<Rightarrow> string \<Rightarrow> json option" where
  "map_entry es k = map_of (rev es) k"

definition at_key :: "(string \<times> json) list \<Rightarrow> string \<Rightarrow> json" where
  "at_key es k = (case map_entry es k of None \<Rightarrow> JNull | Some v \<Rightarrow> v)"

primrec batchImageNestedAny :: "json \<Rightarrow> string list \<Rightarrow> json" where
  "batchImageNestedAny v [] = v"
| "batchImageNestedAny v (k # ks) = (case v of JObj es \<Rightarrow> batchImageNestedAny (at_key es k) ks | _ \<Rightarrow> JNull)"

definition batchImageMapString :: "'x result_lib_scheme \<Rightarrow> (string \<times> json) list \<Rightarrow> string \<Rightarrow> string" where
  "batchImageMapString J m k = (case at_key m k of JStr v \<Rightarrow> trim_space v | JNum v \<Rightarrow> j_integer J v | _ \<Rightarrow> '''')"

definition batchImageNestedString :: "(string \<times> json) list \<Rightarrow> string list \<Rightarrow> string" where
  "batchImageNestedString m ks = (case batchImageNestedAny (JObj m) ks of JStr v \<Rightarrow> trim_space v | _ \<Rightarrow> '''')"

primrec firstMap :: "json list \<Rightarrow> (string \<times> json) list option" where
  "firstMap [] = None"
| "firstMap (v # vs) = (case v of JObj m \<Rightarrow> Some m | _ \<Rightarrow> firstMap vs)"

primrec batchImageFirstNonEmptyString :: "string list \<Rightarrow> string" where
  "batchImageFirstNonEmptyString [] = ''''"
| "batchImageFirstNonEmptyString (v # vs) = (if trim_space v \<noteq> '''' then trim_space v else batchImageFirstNonEmptyString vs)"

definition batchImageDerefString :: "string option \<Rightarrow> string" where
  "batchImageDerefString v = (case v of None \<Rightarrow> '''' | Some s \<Rightarrow> trim_space s)"

definition batchImageOptionalStringPtr :: "string \<Rightarrow> string option" where
  "batchImageOptionalStringPtr v = (if trim_space v = '''' then None else Some (trim_space v))"

definition truncateBatchImageMessage :: "string \<Rightarrow> int \<Rightarrow> string" where
  "truncateBatchImageMessage message limit =
     (let m = trim_space message in if limit \<le> 0 \<or> int (length m) \<le> limit then m else take (nat limit) m)"

text \<open>One inline part: its trimmed media type when it is an image that is not empty.\<close>

definition image_part :: "'x result_lib_scheme \<Rightarrow> json \<Rightarrow> string option" where
  "image_part J partRaw =
     (case partRaw of
        JObj part \<Rightarrow>
          (case firstMap [at_key part ''inlineData'', at_key part ''inline_data''] of
             None \<Rightarrow> None
           | Some inl \<Rightarrow>
               (let data = trim_space (batchImageMapString J inl ''data'');
                    mime = batchImageFirstNonEmptyString [batchImageMapString J inl ''mimeType'', batchImageMapString J inl ''mime_type'']
                in if data = '''' \<or> \<not> prefix ''image/'' (j_lower J (trim_space mime)) then None else Some (trim_space mime)))
      | _ \<Rightarrow> None)"

definition image_parts :: "'x result_lib_scheme \<Rightarrow> json \<Rightarrow> string list" where
  "image_parts J candidateRaw =
     (case candidateRaw of
        JObj c \<Rightarrow> (case batchImageNestedAny (JObj c) [''content'', ''parts''] of
                    JArr parts \<Rightarrow> List.map_filter (image_part J) parts | _ \<Rightarrow> [])
      | _ \<Rightarrow> [])"

definition batchImageFindImagePartsInCandidates :: "'x result_lib_scheme \<Rightarrow> json \<Rightarrow> int \<times> string" where
  "batchImageFindImagePartsInCandidates J raw =
     (case raw of
        JArr candidates \<Rightarrow>
          (let mimes = concat (map (image_parts J) candidates)
           in (int (length mimes), case List.find (\<lambda>m. m \<noteq> '''') mimes of None \<Rightarrow> '''' | Some m \<Rightarrow> m))
      | _ \<Rightarrow> (0, ''''))"

definition batchImageFindImageParts :: "'x result_lib_scheme \<Rightarrow> (string \<times> json) list \<Rightarrow> int \<times> string" where
  "batchImageFindImageParts J obj =
     (let r = batchImageFindImagePartsInCandidates J (batchImageNestedAny (JObj obj) [''response'', ''candidates''])
      in if fst r > 0 then r else batchImageFindImagePartsInCandidates J (at_key obj ''candidates''))"

definition batchImageMapFailureCode :: "'x result_lib_scheme \<Rightarrow> string \<Rightarrow> string \<Rightarrow> string" where
  "batchImageMapFailureCode J code message =
     (let text = j_lower J (trim_space (code @ '' '' @ message)); has = list_ex (\<lambda>w. sublist w text)
      in if has [''safety'', ''policy'', ''blocked'', ''prohibited''] then ''SAFETY_BLOCKED''
         else if has [''invalid_argument'', ''invalid argument'', ''bad request''] then ''INVALID_ARGUMENT''
         else if has [''quota'', ''rate'', ''resource_exhausted'', ''too many requests''] then ''PROVIDER_RATE_LIMITED''
         else ''PROVIDER_ITEM_FAILED'')"

definition failure_fields :: "'x result_lib_scheme \<Rightarrow> (string \<times> json) list \<Rightarrow> string \<times> string" where
  "failure_fields J m =
     (let message = batchImageFirstNonEmptyString [batchImageMapString J m ''message'', batchImageMapString J m ''details''];
          code = batchImageFirstNonEmptyString [batchImageMapString J m ''code'', batchImageMapString J m ''status'']
      in (batchImageMapFailureCode J code message, message))"

definition batchImageFailureFromProviderFields :: "'x result_lib_scheme \<Rightarrow> (string \<times> json) list \<Rightarrow> (string \<times> string) option" where
  "batchImageFailureFromProviderFields J obj =
     (case at_key obj ''status'' of
        JObj status \<Rightarrow> Some (failure_fields J status)
      | _ \<Rightarrow> (case at_key obj ''error'' of JObj e \<Rightarrow> Some (failure_fields J e) | _ \<Rightarrow> None))"

definition batchImageFileExtension :: "'x result_lib_scheme \<Rightarrow> string \<Rightarrow> string" where
  "batchImageFileExtension J mimeType =
     (let m = j_lower J (trim_space mimeType)
      in if m = ''image/png'' then ''png'' else if m = ''image/jpeg'' \<or> m = ''image/jpg'' then ''jpg''
         else if m = ''image/webp'' then ''webp'' else '''')"

definition batchImageHasCandidates :: "(string \<times> json) list \<Rightarrow> bool" where
  "batchImageHasCandidates obj \<longleftrightarrow> map_entry obj ''candidates'' \<noteq> None \<or>
     (case batchImageNestedAny (JObj obj) [''response'', ''candidates''] of JArr _ \<Rightarrow> True | _ \<Rightarrow> False)"

definition parsed_failure :: "string \<Rightarrow> int \<Rightarrow> string \<Rightarrow> string \<Rightarrow> ParsedBatchImageResult" where
  "parsed_failure customID lineNumber code message =
     \<lparr>ParsedCustomID = customID, ParsedStatus = BatchImageParsedStatusFailed, ParsedMimeType = '''', ParsedFileExtension = '''',
      ParsedImageCount = 0, ParsedErrorCode = code, ParsedErrorMessage = message, SourceLineNumber = lineNumber\<rparr>"

definition ParseBatchImageResultLine :: "'x result_lib_scheme \<Rightarrow> string \<Rightarrow> int \<Rightarrow> go_error + ParsedBatchImageResult" where
  "ParseBatchImageResultLine J line lineNumber =
     (case (case j_unmarshal J line of Some (JObj es) \<Rightarrow> Some es | Some JNull \<Rightarrow> Some [] | _ \<Rightarrow> None) of
        None \<Rightarrow> Inl (WithCause ErrBatchImageIndexParseFailed (OtherError (''line '' @ itoa lineNumber) None))
      | Some obj \<Rightarrow>
          (let customID = batchImageFirstNonEmptyString
             [batchImageMapString J obj ''key'', batchImageMapString J obj ''custom_id'', batchImageMapString J obj ''customId'',
              batchImageNestedString obj [''request'', ''key'']]
           in if customID = ''''
              then Inl (WithCause ErrBatchImageIndexParseFailed (OtherError (''line '' @ itoa lineNumber @ '': missing custom id'') None))
              else case batchImageFindImageParts J obj of (imageCount, mimeType) \<Rightarrow>
                if imageCount > 0
                then Inr \<lparr>ParsedCustomID = customID, ParsedStatus = BatchImageParsedStatusSucceeded, ParsedMimeType = mimeType,
                       ParsedFileExtension = batchImageFileExtension J mimeType, ParsedImageCount = imageCount,
                       ParsedErrorCode = '''', ParsedErrorMessage = '''', SourceLineNumber = lineNumber\<rparr>
                else case batchImageFailureFromProviderFields J obj of
                  Some (code, message) \<Rightarrow>
                    Inr (parsed_failure customID lineNumber code (truncateBatchImageMessage message batchImageMaxErrorMessageLength))
                | None \<Rightarrow>
                    if map_entry obj ''response'' \<noteq> None \<or> batchImageHasCandidates obj
                    then Inr (parsed_failure customID lineNumber ''EMPTY_IMAGE_OUTPUT'' ''provider response contained no image output'')
                    else Inr (parsed_failure customID lineNumber ''PROVIDER_ITEM_FAILED'' ''provider result line contained no image output'')))"

subsection \<open>All lines\<close>

definition BatchImageItemStatusPending :: string where "BatchImageItemStatusPending = ''pending''"
definition BatchImageItemStatusSuccess :: string where "BatchImageItemStatusSuccess = ''success''"
definition BatchImageItemStatusFailed :: string where "BatchImageItemStatusFailed = ''failed''"

record BatchImageItem =
  ItemJobID :: string
  CustomID :: string
  ItemStatus :: string
  ItemRequestHash :: "string option"
  PromptPreview :: "string option"
  ProviderSourceObject :: "string option"
  ItemSourceLine :: "int option"
  MimeType :: "string option"
  FileExtension :: "string option"
  ImageCount :: int
  ItemErrorCode :: "string option"
  ItemErrorMessage :: "string option"
  IndexedAt :: "time option"

record BatchImageIndexResult =
  IndexSuccess :: int
  IndexFail :: int
  IndexTotal :: int

record index_state =
  ix_seen :: "(string \<times> int) list"
  ix_unknown :: int
  ix_items :: "BatchImageItem list"
  ix_result :: BatchImageIndexResult

definition index_start :: index_state where
  "index_start = \<lparr>ix_seen = [], ix_unknown = 0, ix_items = [], ix_result = \<lparr>IndexSuccess = 0, IndexFail = 0, IndexTotal = 0\<rparr>\<rparr>"

definition indexed_item :: "string \<Rightarrow> string \<Rightarrow> time \<Rightarrow> ParsedBatchImageResult \<Rightarrow> BatchImageItem" where
  "indexed_item jobID sourceObject now p =
     (let ok = ParsedStatus p = BatchImageParsedStatusSucceeded
      in \<lparr>ItemJobID = jobID, CustomID = ParsedCustomID p,
          ItemStatus = (if ok then BatchImageItemStatusSuccess else BatchImageItemStatusFailed),
          ItemRequestHash = None, PromptPreview = None, ProviderSourceObject = batchImageOptionalStringPtr sourceObject,
          ItemSourceLine = Some (SourceLineNumber p),
          MimeType = (if ok then batchImageOptionalStringPtr (ParsedMimeType p) else None),
          FileExtension = (if ok then batchImageOptionalStringPtr (ParsedFileExtension p) else None),
          ImageCount = ParsedImageCount p,
          ItemErrorCode = (if ok then None else batchImageOptionalStringPtr (ParsedErrorCode p)),
          ItemErrorMessage = (if ok then None else batchImageOptionalStringPtr (ParsedErrorMessage p)),
          IndexedAt = Some now\<rparr>)"

definition count_item :: "bool \<Rightarrow> BatchImageIndexResult \<Rightarrow> BatchImageIndexResult" where
  "count_item ok r =
     (if ok then r\<lparr>IndexSuccess := IndexSuccess r + 1, IndexTotal := IndexTotal r + 1\<rparr>
      else r\<lparr>IndexFail := IndexFail r + 1, IndexTotal := IndexTotal r + 1\<rparr>)"

definition add_parsed :: "string list \<Rightarrow> string \<Rightarrow> string \<Rightarrow> time \<Rightarrow> int \<Rightarrow> ParsedBatchImageResult \<Rightarrow> index_state \<Rightarrow> go_error + index_state" where
  "add_parsed expected jobID sourceObject now lineNumber p s =
     (if expected \<noteq> [] \<and> ParsedCustomID p \<notin> set expected then Inr (s\<lparr>ix_unknown := ix_unknown s + 1\<rparr>)
      else case map_of (ix_seen s) (ParsedCustomID p) of
        Some firstLine \<Rightarrow>
          Inl (WithCause ErrBatchImageDuplicateCustomID
            (OtherError (''custom id duplicated at lines '' @ itoa firstLine @ '' and '' @ itoa lineNumber) None))
      | None \<Rightarrow>
          Inr (s\<lparr>ix_seen := ix_seen s @ [(ParsedCustomID p, lineNumber)],
                 ix_items := ix_items s @ [indexed_item jobID sourceObject now p],
                 ix_result := count_item (ParsedStatus p = BatchImageParsedStatusSucceeded) (ix_result s)\<rparr>))"

primrec index_lines ::
  "'x result_lib_scheme \<Rightarrow> string list \<Rightarrow> string \<Rightarrow> string \<Rightarrow> time \<Rightarrow> int \<Rightarrow> string list \<Rightarrow> index_state \<Rightarrow> go_error + index_state" where
  "index_lines J expected jobID sourceObject now n [] s = Inr s"
| "index_lines J expected jobID sourceObject now n (l # ls) s =
     (let lineNumber = n + 1; line = trim_space l
      in if line = '''' then index_lines J expected jobID sourceObject now lineNumber ls s
         else case ParseBatchImageResultLine J line lineNumber of
           Inl e \<Rightarrow> Inl e
         | Inr p \<Rightarrow> (case add_parsed expected jobID sourceObject now lineNumber p s of
               Inl e \<Rightarrow> Inl e
             | Inr t \<Rightarrow> index_lines J expected jobID sourceObject now lineNumber ls t))"

definition missing_item :: "string \<Rightarrow> string \<Rightarrow> time \<Rightarrow> string \<Rightarrow> BatchImageItem" where
  "missing_item jobID sourceObject now customID =
     \<lparr>ItemJobID = jobID, CustomID = customID, ItemStatus = BatchImageItemStatusFailed, ItemRequestHash = None, PromptPreview = None,
      ProviderSourceObject = batchImageOptionalStringPtr sourceObject, ItemSourceLine = None, MimeType = None, FileExtension = None,
      ImageCount = 0, ItemErrorCode = Some ''PROVIDER_RESULT_MISSING'',
      ItemErrorMessage = Some ''provider output did not include a result for this item'', IndexedAt = Some now\<rparr>"

definition missing_ids :: "string list \<Rightarrow> index_state \<Rightarrow> string list" where
  "missing_ids expected s = sort (filter (\<lambda>i. i \<notin> fst ` set (ix_seen s)) (remdups expected))"

definition index_output ::
  "'x result_lib_scheme \<Rightarrow> string list \<Rightarrow> string \<Rightarrow> string \<Rightarrow> time \<Rightarrow> string list \<times> go_error option \<Rightarrow>
   go_error + BatchImageIndexResult \<times> BatchImageItem list \<times> bool" where
  "index_output J expected jobID sourceObject now out =
     (case index_lines J expected jobID sourceObject now 0 (fst out) index_start of
        Inl e \<Rightarrow> Inl e
      | Inr s \<Rightarrow>
          (case snd out of
             Some e \<Rightarrow> Inl (if errors_is e io_unexpected_eof then WithCause ErrBatchImageIndexParseFailed e else e)
           | None \<Rightarrow>
               (let missing = missing_ids expected s;
                    result = (ix_result s)\<lparr>IndexFail := IndexFail (ix_result s) + int (length missing),
                      IndexTotal := IndexTotal (ix_result s) + int (length missing)\<rparr>
                in if IndexTotal result = 0 then Inl ErrBatchImageIndexNoResultLines
                   else Inr (result, ix_items s @ map (missing_item jobID sourceObject now) missing,
                             ix_unknown s > 0 \<or> missing \<noteq> []))))"

subsection \<open>Every submitted item has exactly one result\<close>

definition is_success :: "BatchImageItem \<Rightarrow> bool" where "is_success i \<longleftrightarrow> ItemStatus i = BatchImageItemStatusSuccess"

text \<open>An item read from one of the lines, and the counts of a list of items.\<close>

definition read_from :: "'x result_lib_scheme \<Rightarrow> string list \<Rightarrow> BatchImageItem \<Rightarrow> bool" where
  "read_from J ls i \<longleftrightarrow> (\<exists>l\<in>set ls. \<exists>n p. ParseBatchImageResultLine J (trim_space l) n = Inr p \<and> ParsedCustomID p = CustomID i \<and>
     ImageCount i = ParsedImageCount p \<and> ItemSourceLine i = Some (SourceLineNumber p) \<and>
     (is_success i \<longleftrightarrow> ParsedStatus p = BatchImageParsedStatusSucceeded))"

definition counts_fit :: "BatchImageItem list \<Rightarrow> BatchImageIndexResult \<Rightarrow> bool" where
  "counts_fit items r \<longleftrightarrow> IndexTotal r = int (length items) \<and> IndexSuccess r = int (length (filter is_success items)) \<and>
     IndexFail r = int (length (filter (\<lambda>i. \<not> is_success i) items))"

definition index_ok :: "'x result_lib_scheme \<Rightarrow> string list \<Rightarrow> string list \<Rightarrow> index_state \<Rightarrow> bool" where
  "index_ok J expected ls s \<longleftrightarrow> map fst (ix_seen s) = map CustomID (ix_items s) \<and> distinct (map CustomID (ix_items s)) \<and>
     (expected \<noteq> [] \<longrightarrow> CustomID ` set (ix_items s) \<subseteq> set expected) \<and> counts_fit (ix_items s) (ix_result s) \<and>
     (\<forall>i\<in>set (ix_items s). read_from J ls i)"

lemma statuses_differ [simp]: "BatchImageItemStatusFailed \<noteq> BatchImageItemStatusSuccess"
  by (simp add: BatchImageItemStatusFailed_def BatchImageItemStatusSuccess_def)

lemma indexed_item_fields [simp]:
  "CustomID (indexed_item j src now p) = ParsedCustomID p" "ImageCount (indexed_item j src now p) = ParsedImageCount p"
  "ItemSourceLine (indexed_item j src now p) = Some (SourceLineNumber p)"
  "is_success (indexed_item j src now p) \<longleftrightarrow> ParsedStatus p = BatchImageParsedStatusSucceeded"
  by (simp_all add: indexed_item_def is_success_def Let_def)

lemma missing_item_fields [simp]:
  "CustomID (missing_item j src now c) = c" "\<not> is_success (missing_item j src now c)"
  by (simp_all add: missing_item_def is_success_def)

lemma counts_fit_add: "counts_fit is r \<Longrightarrow> counts_fit (is @ [i]) (count_item (is_success i) r)"
  by (simp add: counts_fit_def count_item_def)

lemma add_parsed_ok:
  assumes "add_parsed expected j src now n p s = Inr t" "index_ok J expected ls s"
    "l \<in> set ls" "ParseBatchImageResultLine J (trim_space l) m = Inr p"
  shows "index_ok J expected ls t"
proof (cases "expected \<noteq> [] \<and> ParsedCustomID p \<notin> set expected")
  case True
  then show ?thesis using assms(1,2) by (auto simp: add_parsed_def index_ok_def)
next
  case False
  let ?i = "indexed_item j src now p"
  have new: "map_of (ix_seen s) (ParsedCustomID p) = None"
    and t: "t = s\<lparr>ix_seen := ix_seen s @ [(ParsedCustomID p, n)], ix_items := ix_items s @ [?i],
        ix_result := count_item (is_success ?i) (ix_result s)\<rparr>"
    using assms(1) False by (auto simp: add_parsed_def split: if_splits option.splits)
  have "ParsedCustomID p \<notin> CustomID ` set (ix_items s)"
    using new assms(2) by (metis index_ok_def list.set_map map_of_eq_None_iff)
  moreover have "read_from J ls ?i" unfolding read_from_def using assms(3,4) by auto
  ultimately show ?thesis
    using assms(2) False counts_fit_add [of "ix_items s" "ix_result s" ?i] by (auto simp: index_ok_def t)
qed

lemma index_lines_ok:
  "index_lines J expected j src now n ls s = Inr t \<Longrightarrow> index_ok J expected all s \<Longrightarrow> set ls \<subseteq> set all \<Longrightarrow> index_ok J expected all t"
proof (induction ls arbitrary: n s)
  case (Cons l ls)
  show ?case
  proof (cases "trim_space l = ''''")
    case True
    then show ?thesis using Cons by (simp add: Let_def)
  next
    case False
    with Cons.prems(1) obtain p u where pu: "ParseBatchImageResultLine J (trim_space l) (n + 1) = Inr p"
      "add_parsed expected j src now (n + 1) p s = Inr u" "index_lines J expected j src now (n + 1) ls u = Inr t"
      by (auto simp: Let_def split: sum.splits)
    have "index_ok J expected all u"
      by (rule add_parsed_ok [OF pu(2) Cons.prems(2) _ pu(1)]) (use Cons.prems(3) in simp)
    with Cons.IH [OF pu(3)] Cons.prems(3) show ?thesis by simp
  qed
qed simp

lemma index_start_ok: "index_ok J expected ls index_start"
  by (simp add: index_ok_def index_start_def counts_fit_def)

lemma succeeded_has_images: "ParseBatchImageResultLine J l n = Inr p \<Longrightarrow> ParsedStatus p = BatchImageParsedStatusSucceeded \<Longrightarrow> 0 < ParsedImageCount p"
  by (auto simp: ParseBatchImageResultLine_def Let_def parsed_failure_def BatchImageParsedStatusSucceeded_def BatchImageParsedStatusFailed_def
      split: option.splits if_splits prod.splits)

lemma counts_fit_missing:
  "counts_fit is r \<Longrightarrow> (\<And>i. i \<in> set ms \<Longrightarrow> \<not> is_success i) \<Longrightarrow>
   n = int (length ms) \<Longrightarrow> counts_fit (is @ ms) (r\<lparr>IndexFail := IndexFail r + n, IndexTotal := IndexTotal r + n\<rparr>)"
  by (auto simp: counts_fit_def filter_empty_conv filter_id_conv)

lemma missing_ids_props:
  "distinct (missing_ids expected s)" "set (missing_ids expected s) = set expected - fst ` set (ix_seen s)"
  by (auto simp: missing_ids_def)

text \<open>C16: When an output is accepted, the items that are written have different ids and, where the submitted ids are known, exactly those
  ids: a result nobody asked for is dropped, one that is missing becomes a failure. The counts a settlement is computed from are the
  numbers of successful and failed items. A success was read from a line of its id with at least one image in it.\<close>

theorem index_accounts_for_items:
  assumes "index_output J expected jobID sourceObject now out = Inr (r, items, changed)"
  shows "distinct (map CustomID items) \<and> (expected \<noteq> [] \<longrightarrow> CustomID ` set items = set expected) \<and> 0 < IndexTotal r \<and>
    counts_fit items r \<and> (\<forall>i\<in>set items. is_success i \<longrightarrow> read_from J (fst out) i \<and> 0 < ImageCount i)"
proof -
  obtain s where s: "index_lines J expected jobID sourceObject now 0 (fst out) index_start = Inr s" "snd out = None"
    and r: "r = (ix_result s)\<lparr>IndexFail := IndexFail (ix_result s) + int (length (missing_ids expected s)),
                IndexTotal := IndexTotal (ix_result s) + int (length (missing_ids expected s))\<rparr>" "IndexTotal r \<noteq> 0"
    and items: "items = ix_items s @ map (missing_item jobID sourceObject now) (missing_ids expected s)"
    using assms by (auto simp: index_output_def Let_def split: sum.splits option.splits if_splits)
  have ok: "index_ok J expected (fst out) s" by (rule index_lines_ok [OF s(1) index_start_ok]) simp
  have seen: "fst ` set (ix_seen s) = CustomID ` set (ix_items s)" using ok by (metis index_ok_def list.set_map)
  have ids: "map CustomID items = map CustomID (ix_items s) @ missing_ids expected s" by (simp add: items comp_def)
  have "counts_fit (ix_items s) (ix_result s)" using ok by (simp add: index_ok_def)
  then have fit: "counts_fit items r" unfolding items r(1) by (rule counts_fit_missing) auto
  have "distinct (map CustomID items)"
    using ok missing_ids_props [of expected s] by (auto simp: ids index_ok_def seen)
  moreover have "CustomID ` set items = CustomID ` set (ix_items s) \<union> set (missing_ids expected s)"
    by (metis ids list.set_map set_append)
  then have "expected \<noteq> [] \<longrightarrow> CustomID ` set items = set expected"
    using ok missing_ids_props(2) [of expected s] by (auto simp: index_ok_def seen)
  moreover have "read_from J (fst out) i \<and> 0 < ImageCount i" if "i \<in> set items" "is_success i" for i
  proof -
    have "i \<in> set (ix_items s)" using that by (auto simp: items)
    then have from_line: "read_from J (fst out) i" using ok by (simp add: index_ok_def)
    then show ?thesis using that(2) succeeded_has_images unfolding read_from_def by metis
  qed
  moreover have "0 < IndexTotal r" using fit r(2) by (simp add: counts_fit_def)
  ultimately show ?thesis using fit by blast
qed

definition ex_result_lib :: result_lib where
  "ex_result_lib = \<lparr>j_marshal = (\<lambda>_. ''''), j_unmarshal =
     (\<lambda>l. if l = ''a'' then Some (JObj [(''key'', JStr ''a''), (''candidates'', JArr [JObj [(''content'', JObj [(''parts'',
              JArr [JObj [(''inlineData'', JObj [(''data'', JStr ''x''), (''mimeType'', JStr ''image/png'')])]])])]])])
           else Some (JObj [(''key'', JStr l), (''error'', JObj [(''message'', JStr ''quota'')])])),
     j_lower = id, j_replace = id, j_integer = id\<rparr>"

theorem index_accounts_for_items_witness:
  "\<exists>r items. index_output ex_result_lib [''c'', ''a''] ''j'' ''o'' 0 ([''a'', '' '', ''z''], None) = Inr (r, items, True) \<and>
     distinct (map CustomID items) \<and> CustomID ` set items = {''c'', ''a''} \<and> 0 < IndexTotal r \<and> counts_fit items r \<and> IndexSuccess r = 1"
proof -
  have "(case index_output ex_result_lib [''c'', ''a''] ''j'' ''o'' 0 ([''a'', '' '', ''z''], None) of
      Inr (r, items, changed) \<Rightarrow> changed \<and> IndexSuccess r = 1 | Inl _ \<Rightarrow> False)"
    by code_simp
  then obtain r items where run: "index_output ex_result_lib [''c'', ''a''] ''j'' ''o'' 0 ([''a'', '' '', ''z''], None) = Inr (r, items, True)"
    "IndexSuccess r = 1" by (auto split: sum.splits)
  from index_accounts_for_items [OF run(1)] run show ?thesis by (intro exI [of _ r] exI [of _ items]) simp
qed

end
