(* ===== verification/BatchImage.thy ===== *)
theory BatchImage
  imports UsageBilling BatchResult
begin

section \<open>Batches of images\<close>

text \<open>
  A batch of images runs at a provider for hours. Its price is held back on the user's balance when it is submitted
  (\<^verbatim>\<open>service/batch_image_public.go\<close>), and captured when it is settled (\<^verbatim>\<open>service/batch_image_settlement.go\<close>) or released when
  it fails or is cancelled; \<^verbatim>\<open>service/batch_image_processor.go\<close> follows the provider, \<^verbatim>\<open>service/batch_image_billing_recovery.go\<close>
  gives up submissions that never arrived. Each of these is a program of statements of \<^verbatim>\<open>repository/batch_image_repo.go\<close> and
  transactions of \<open>UsageBilling\<close>. A row of the event log is a statement that may fail and that nothing reads. Log lines, the
  invalidation of caches and storage references are left out; an answer of the queue or of the provider is a chance.
\<close>

subsection \<open>Jobs\<close>

definition BatchImageJobStatusCreated :: string where "BatchImageJobStatusCreated = ''created''"
definition BatchImageJobStatusUploading :: string where "BatchImageJobStatusUploading = ''uploading''"
definition BatchImageJobStatusSubmitted :: string where "BatchImageJobStatusSubmitted = ''submitted''"
definition BatchImageJobStatusRunning :: string where "BatchImageJobStatusRunning = ''running''"
definition BatchImageJobStatusIndexing :: string where "BatchImageJobStatusIndexing = ''indexing''"
definition BatchImageJobStatusSettling :: string where "BatchImageJobStatusSettling = ''settling''"
definition BatchImageJobStatusCompleted :: string where "BatchImageJobStatusCompleted = ''completed''"
definition BatchImageJobStatusFailed :: string where "BatchImageJobStatusFailed = ''failed''"
definition BatchImageJobStatusCancelled :: string where "BatchImageJobStatusCancelled = ''cancelled''"
definition BatchImageJobStatusOutputDeleted :: string where "BatchImageJobStatusOutputDeleted = ''output_deleted''"

lemmas job_status_defs = BatchImageJobStatusCreated_def BatchImageJobStatusUploading_def BatchImageJobStatusSubmitted_def
  BatchImageJobStatusRunning_def BatchImageJobStatusIndexing_def BatchImageJobStatusSettling_def BatchImageJobStatusCompleted_def
  BatchImageJobStatusFailed_def BatchImageJobStatusCancelled_def BatchImageJobStatusOutputDeleted_def

definition IsTerminalBatchImageJobStatus :: "string \<Rightarrow> bool" where
  "IsTerminalBatchImageJobStatus st \<longleftrightarrow> st = BatchImageJobStatusCompleted \<or> st = BatchImageJobStatusFailed \<or>
     st = BatchImageJobStatusCancelled \<or> st = BatchImageJobStatusOutputDeleted"

definition allowed_transitions :: "(string \<times> string) list" where
  "allowed_transitions =
     [(BatchImageJobStatusCreated, BatchImageJobStatusUploading), (BatchImageJobStatusCreated, BatchImageJobStatusSubmitted),
      (BatchImageJobStatusCreated, BatchImageJobStatusCancelled),
      (BatchImageJobStatusUploading, BatchImageJobStatusSubmitted), (BatchImageJobStatusUploading, BatchImageJobStatusCancelled),
      (BatchImageJobStatusSubmitted, BatchImageJobStatusRunning), (BatchImageJobStatusSubmitted, BatchImageJobStatusIndexing),
      (BatchImageJobStatusSubmitted, BatchImageJobStatusFailed), (BatchImageJobStatusSubmitted, BatchImageJobStatusCancelled),
      (BatchImageJobStatusRunning, BatchImageJobStatusRunning), (BatchImageJobStatusRunning, BatchImageJobStatusIndexing),
      (BatchImageJobStatusRunning, BatchImageJobStatusFailed), (BatchImageJobStatusRunning, BatchImageJobStatusCancelled),
      (BatchImageJobStatusIndexing, BatchImageJobStatusSettling), (BatchImageJobStatusIndexing, BatchImageJobStatusFailed),
      (BatchImageJobStatusSettling, BatchImageJobStatusCompleted)]"

definition CanTransitionBatchImageJob :: "string \<Rightarrow> string \<Rightarrow> bool" where
  "CanTransitionBatchImageJob from to \<longleftrightarrow>
     (if from = '''' \<or> to = '''' then False
      else if IsTerminalBatchImageJobStatus from
      then to = BatchImageJobStatusOutputDeleted \<and> from \<noteq> BatchImageJobStatusOutputDeleted \<and>
           (from = BatchImageJobStatusCompleted \<or> from = BatchImageJobStatusFailed \<or> from = BatchImageJobStatusCancelled)
      else if to = BatchImageJobStatusFailed then True
      else (from, to) \<in> set allowed_transitions)"

subsection \<open>Errors\<close>

definition ErrBatchImageJobNotFound :: go_error where
  "ErrBatchImageJobNotFound = New 404 ''BATCH_IMAGE_JOB_NOT_FOUND'' ''batch image job not found''"
definition ErrBatchImageJobExists :: go_error where
  "ErrBatchImageJobExists = New 409 ''BATCH_IMAGE_JOB_EXISTS'' ''batch image job already exists''"
definition ErrBatchImageItemExists :: go_error where
  "ErrBatchImageItemExists = New 409 ''BATCH_IMAGE_ITEM_EXISTS'' ''batch image item already exists''"
definition ErrBatchImageInvalidTransition :: go_error where
  "ErrBatchImageInvalidTransition = New 400 ''BATCH_IMAGE_INVALID_TRANSITION'' ''invalid batch image job status transition''"
definition ErrBatchImageMissingProviderJobName :: go_error where
  "ErrBatchImageMissingProviderJobName = New 400 ''BATCH_IMAGE_MISSING_PROVIDER_JOB_NAME'' ''batch image provider job name is missing''"
definition ErrBatchImageMissingAccountID :: go_error where
  "ErrBatchImageMissingAccountID = New 400 ''BATCH_IMAGE_MISSING_ACCOUNT_ID'' ''batch image account id is missing''"
definition ErrBatchImageSettlementInvalidStatus :: go_error where
  "ErrBatchImageSettlementInvalidStatus = New 400 ''BATCH_IMAGE_SETTLEMENT_INVALID_STATUS'' ''batch image job is not ready for settlement''"
definition ErrBatchImageSettlementManifestConflict :: go_error where
  "ErrBatchImageSettlementManifestConflict = New 409 ''BATCH_IMAGE_SETTLEMENT_MANIFEST_CONFLICT'' ''batch image settlement manifest hash conflict''"
definition ErrBatchImageSettlementPricingMissing :: go_error where
  "ErrBatchImageSettlementPricingMissing = New 400 ''BATCH_IMAGE_SETTLEMENT_PRICING_MISSING'' ''batch image settlement pricing is missing''"
definition ErrBatchImageSettlementBillingFailed :: go_error where
  "ErrBatchImageSettlementBillingFailed = New 502 ''BATCH_IMAGE_SETTLEMENT_BILLING_FAILED'' ''batch image settlement billing failed''"
definition ErrBatchImageAlreadySettled :: go_error where
  "ErrBatchImageAlreadySettled = New 409 ''BATCH_IMAGE_ALREADY_SETTLED'' ''batch image job is already settled''"
definition ErrBatchImageSettlementMissingAPIKeyID :: go_error where
  "ErrBatchImageSettlementMissingAPIKeyID = New 400 ''BATCH_IMAGE_SETTLEMENT_MISSING_API_KEY_ID'' ''batch image settlement api key id is missing''"
definition ErrBatchImageSettlementMissingAccountID :: go_error where
  "ErrBatchImageSettlementMissingAccountID = New 400 ''BATCH_IMAGE_SETTLEMENT_MISSING_ACCOUNT_ID'' ''batch image settlement account id is missing''"
definition ErrBatchImageSettlementInvalidCounts :: go_error where
  "ErrBatchImageSettlementInvalidCounts = New 400 ''BATCH_IMAGE_SETTLEMENT_INVALID_COUNTS'' ''batch image settlement counts are invalid''"
definition ErrBatchImageBillingHoldFailed :: go_error where
  "ErrBatchImageBillingHoldFailed = New 502 ''BATCH_IMAGE_BILLING_HOLD_FAILED'' ''batch image balance hold failed''"
definition ErrBatchImageProviderSubmitFailed :: go_error where
  "ErrBatchImageProviderSubmitFailed = New 502 ''BATCH_IMAGE_PROVIDER_SUBMIT_FAILED'' ''batch image provider submit failed''"
definition ErrBatchImageQueueFailed :: go_error where
  "ErrBatchImageQueueFailed = New 502 ''BATCH_IMAGE_QUEUE_FAILED'' ''batch image queue failed''"
definition ErrBatchImageCancelFailed :: go_error where
  "ErrBatchImageCancelFailed = New 502 ''BATCH_IMAGE_CANCEL_FAILED'' ''batch image cancel failed''"
definition ErrBatchImageInvalidProvider :: go_error where
  "ErrBatchImageInvalidProvider = New 400 ''BATCH_IMAGE_INVALID_PROVIDER'' ''invalid batch image provider''"
definition ErrBatchImageUnsupportedProvider :: go_error where
  "ErrBatchImageUnsupportedProvider = New 400 ''BATCH_IMAGE_UNSUPPORTED_PROVIDER'' ''unsupported batch image provider''"
definition ErrBatchImageIdempotencyConflict :: go_error where
  "ErrBatchImageIdempotencyConflict = New 409 ''BATCH_IMAGE_IDEMPOTENCY_CONFLICT'' ''idempotency key reused with different batch image request''"
definition ErrBatchImageRecordDeleteNotReady :: go_error where
  "ErrBatchImageRecordDeleteNotReady = New 409 ''BATCH_IMAGE_RECORD_DELETE_NOT_READY'' ''batch image record can only be deleted after the job finishes''"
definition ErrBatchImageVertexGCSBucketMissing :: go_error where
  "ErrBatchImageVertexGCSBucketMissing = New 502 ''BATCH_IMAGE_VERTEX_GCS_BUCKET_MISSING'' ''Vertex managed GCS bucket is not configured''"
definition ErrBatchImageProviderUnsupportedAccount :: go_error where
  "ErrBatchImageProviderUnsupportedAccount = New 400 ''BATCH_IMAGE_PROVIDER_UNSUPPORTED_ACCOUNT'' ''batch image provider does not support this account''"
definition ErrBatchImageProviderMissingAPIKey :: go_error where
  "ErrBatchImageProviderMissingAPIKey = New 400 ''BATCH_IMAGE_PROVIDER_MISSING_API_KEY'' ''batch image provider account is missing api key''"
definition ErrBatchImageProviderMissingServiceAccount :: go_error where
  "ErrBatchImageProviderMissingServiceAccount = New 400 ''BATCH_IMAGE_PROVIDER_MISSING_SERVICE_ACCOUNT'' ''batch image provider account is missing service account credentials''"
definition ErrBatchImageAlreadyQueued :: go_error where
  "ErrBatchImageAlreadyQueued = New 409 ''BATCH_IMAGE_ALREADY_QUEUED'' ''batch image job is already queued''"
definition sql_no_rows :: go_error where "sql_no_rows = plain_error ''sql: no rows in result set''"
definition unique_violation :: go_error where "unique_violation = plain_error ''pq: duplicate key value violates unique constraint''"


subsection \<open>Tables\<close>

text \<open>The columns the programs read or write, except the texts of errors, the references to storage, the snapshot of prices other than the unit price, and the
  times nothing depends on.\<close>

record BatchImageJob =
  BatchID :: string
  JobUserID :: int
  JobAPIKeyID :: "int option"
  JobAccountID :: "int option"
  JobProvider :: string
  JobModel :: string
  JobStatus :: string
  ProviderJobName :: "string option"
  ProviderOutputRef :: "string option"
  ItemCount :: int
  SuccessCount :: int
  FailCount :: int
  EstimatedCost :: usd
  JobHoldAmount :: "usd option"
  ActualCost :: "usd option"
  BillableUnitPrice :: usd
  PricingSnapshotVersion :: int
  IdempotencyKey :: "string option"
  RequestHash :: "string option"
  ManifestHash :: "string option"
  RetryCount :: int
  LastErrorCode :: "string option"
  JobUpdatedAt :: time
  UserDeletedAt :: "time option"

record batch_db = billing_db +
  image_jobs :: "BatchImageJob list"
  image_items :: "BatchImageItem list"

type_synonym 'a batch_stmt = "batch_db \<Rightarrow> (go_error + 'a) \<times> batch_db"

definition stamp :: "batch_db \<Rightarrow> time" where "stamp s = pg_time (bill_clock s)"

definition with_job :: "string \<Rightarrow> (BatchImageJob \<Rightarrow> 'a batch_stmt) \<Rightarrow> 'a batch_stmt" where
  "with_job b f s =
     (case List.find (\<lambda>r. BatchID r = b) (image_jobs s) of
        None \<Rightarrow> (Inl (WithCause ErrBatchImageJobNotFound sql_no_rows), s)
      | Some r \<Rightarrow> f r s)"

definition set_jobs :: "(BatchImageJob \<Rightarrow> bool) \<Rightarrow> (BatchImageJob \<Rightarrow> BatchImageJob) \<Rightarrow> batch_db \<Rightarrow> batch_db" where
  "set_jobs hit f s = s\<lparr>image_jobs := map (\<lambda>r. if hit r then f r else r) (image_jobs s)\<rparr>"

definition hits :: "(BatchImageJob \<Rightarrow> bool) \<Rightarrow> batch_db \<Rightarrow> bool" where "hits hit s \<longleftrightarrow> list_ex hit (image_jobs s)"

subsection \<open>Statements on jobs\<close>

definition BatchImageProviderGeminiAPI :: string where "BatchImageProviderGeminiAPI = ''gemini_api''"
definition BatchImageProviderVertex :: string where "BatchImageProviderVertex = ''vertex''"

definition IsSupportedBatchImageProvider :: "string \<Rightarrow> bool" where
  "IsSupportedBatchImageProvider p \<longleftrightarrow> p = BatchImageProviderGeminiAPI \<or> p = BatchImageProviderVertex"

text \<open>The row to insert has its id and its status; the index on \<^verbatim>\<open>batch_id\<close> is unique.\<close>

definition CreateBatchImageJob :: "BatchImageJob \<Rightarrow> BatchImageJob batch_stmt" where
  "CreateBatchImageJob r s =
     (if \<not> IsSupportedBatchImageProvider (JobProvider r) then (Inl ErrBatchImageInvalidProvider, s)
      else if hits (\<lambda>x. BatchID x = BatchID r) s then (Inl (WithCause ErrBatchImageJobExists unique_violation), s)
      else (Inr (r\<lparr>JobUpdatedAt := stamp s\<rparr>), s\<lparr>image_jobs := image_jobs s @ [r\<lparr>JobUpdatedAt := stamp s\<rparr>]\<rparr>))"

definition GetBatchImageJobByBatchID :: "string \<Rightarrow> BatchImageJob batch_stmt" where
  "GetBatchImageJobByBatchID b = with_job b (\<lambda>r s. (Inr r, s))"

definition GetBatchImageJobByIdempotencyKey :: "int \<Rightarrow> int \<Rightarrow> string \<Rightarrow> BatchImageJob batch_stmt" where
  "GetBatchImageJobByIdempotencyKey userID apiKeyID key s =
     (case List.find (\<lambda>r. JobUserID r = userID \<and> JobAPIKeyID r = Some apiKeyID \<and> IdempotencyKey r = Some key) (rev (image_jobs s)) of
        None \<Rightarrow> (Inl (WithCause ErrBatchImageJobNotFound sql_no_rows), s)
      | Some r \<Rightarrow> (Inr r, s))"

definition GetBatchImageJobByBatchIDForOwner :: "int \<Rightarrow> int \<Rightarrow> string \<Rightarrow> BatchImageJob batch_stmt" where
  "GetBatchImageJobByBatchIDForOwner userID apiKeyID b s =
     (case List.find (\<lambda>r. BatchID r = b \<and> JobUserID r = userID \<and> JobAPIKeyID r = Some apiKeyID \<and> UserDeletedAt r = None) (image_jobs s) of
        None \<Rightarrow> (Inl (WithCause ErrBatchImageJobNotFound sql_no_rows), s)
      | Some r \<Rightarrow> (Inr r, s))"

definition TransitionBatchImageJobStatus :: "string \<Rightarrow> string \<Rightarrow> string option \<Rightarrow> unit batch_stmt" where
  "TransitionBatchImageJobStatus b to errorCode =
     with_job b (\<lambda>r s.
       if \<not> CanTransitionBatchImageJob (JobStatus r) to then (Inl ErrBatchImageInvalidTransition, s)
       else (Inr (), set_jobs (\<lambda>x. BatchID x = b)
              (\<lambda>x. x\<lparr>JobStatus := to, JobUpdatedAt := stamp s,
                    LastErrorCode := (if to = BatchImageJobStatusFailed then errorCode else LastErrorCode x)\<rparr>) s))"

definition TouchBatchImageJobSubmitting :: "string \<Rightarrow> unit batch_stmt" where
  "TouchBatchImageJobSubmitting b s =
     (Inr (), set_jobs (\<lambda>x. BatchID x = b \<and> (JobStatus x = BatchImageJobStatusCreated \<or> JobStatus x = BatchImageJobStatusUploading))
        (\<lambda>x. x\<lparr>JobUpdatedAt := stamp s\<rparr>) s)"

definition stale_unsubmitted :: "time \<Rightarrow> BatchImageJob \<Rightarrow> bool" where
  "stale_unsubmitted cutoff x \<longleftrightarrow> (JobStatus x = BatchImageJobStatusCreated \<or> JobStatus x = BatchImageJobStatusUploading) \<and>
     ProviderJobName x = None \<and> JobUpdatedAt x \<le> pg_time cutoff"

text \<open>The update of \<^verbatim>\<open>FailStaleUnsubmittedBatchImageJob\<close>; whether it hit a row.\<close>

definition fail_stale :: "string \<Rightarrow> time \<Rightarrow> string \<Rightarrow> bool batch_stmt" where
  "fail_stale b cutoff code s =
     (let hit = (\<lambda>x. BatchID x = b \<and> stale_unsubmitted cutoff x)
      in (Inr (hits hit s), set_jobs hit
           (\<lambda>x. x\<lparr>JobStatus := BatchImageJobStatusFailed, LastErrorCode := Some code, JobUpdatedAt := stamp s\<rparr>) s))"

definition ListStaleUnsubmittedBatchImageJobs :: "time \<Rightarrow> int \<Rightarrow> BatchImageJob list batch_stmt" where
  "ListStaleUnsubmittedBatchImageJobs cutoff limit s =
     (let n = (if limit \<le> 0 \<or> limit > 1000 then 100 else nat limit);
          due = filter (\<lambda>x. stale_unsubmitted cutoff x \<and>
                  (case JobHoldAmount x of None \<Rightarrow> EstimatedCost x | Some h \<Rightarrow> h) > 0) (image_jobs s)
      in (Inr (take n (sort_key JobUpdatedAt due)), s))"

definition UpdateBatchImageJobProviderOutputRef :: "string \<Rightarrow> string \<Rightarrow> unit batch_stmt" where
  "UpdateBatchImageJobProviderOutputRef b ref s =
     (if hits (\<lambda>x. BatchID x = b) s
      then (Inr (), set_jobs (\<lambda>x. BatchID x = b) (\<lambda>x. x\<lparr>ProviderOutputRef := Some ref, JobUpdatedAt := stamp s\<rparr>) s)
      else (Inl ErrBatchImageJobNotFound, s))"

definition null_if_empty :: "string \<Rightarrow> string option" where "null_if_empty v = (if v = '''' then None else Some v)"

definition UpdateBatchImageJobProviderSubmit :: "string \<Rightarrow> string \<Rightarrow> string \<Rightarrow> unit batch_stmt" where
  "UpdateBatchImageJobProviderSubmit b providerJobName providerOutputRef =
     with_job b (\<lambda>r s.
       if \<not> CanTransitionBatchImageJob (JobStatus r) BatchImageJobStatusSubmitted then (Inl ErrBatchImageInvalidTransition, s)
       else (Inr (), set_jobs (\<lambda>x. BatchID x = b)
              (\<lambda>x. x\<lparr>JobStatus := BatchImageJobStatusSubmitted, ProviderJobName := Some providerJobName,
                    ProviderOutputRef := null_if_empty providerOutputRef, JobUpdatedAt := stamp s\<rparr>) s))"

definition submit_failure :: "string \<Rightarrow> string \<Rightarrow> bool \<Rightarrow> unit batch_stmt" where
  "submit_failure b code markFailed s =
     (Inr (), set_jobs (\<lambda>x. BatchID x = b)
        (\<lambda>x. x\<lparr>JobStatus := (if markFailed then BatchImageJobStatusFailed else JobStatus x), LastErrorCode := Some code,
              JobUpdatedAt := stamp s\<rparr>) s)"

definition settling_row :: "string \<Rightarrow> string \<Rightarrow> BatchImageJob \<Rightarrow> bool" where
  "settling_row b manifestHash x \<longleftrightarrow> BatchID x = b \<and> JobStatus x = BatchImageJobStatusSettling \<and>
     (ManifestHash x = None \<or> ManifestHash x = Some '''' \<or> ManifestHash x = Some manifestHash)"

text \<open>The index on \<^verbatim>\<open>manifest_hash\<close> is unique.\<close>

definition MarkBatchImageJobSettled :: "string \<Rightarrow> usd \<Rightarrow> string \<Rightarrow> time \<Rightarrow> unit batch_stmt" where
  "MarkBatchImageJobSettled b actualCost manifestHash now s =
     (if hits (settling_row b manifestHash) s
      then (if manifestHash \<noteq> '''' \<and> hits (\<lambda>x. BatchID x \<noteq> b \<and> ManifestHash x = Some manifestHash) s then (Inl unique_violation, s)
            else (Inr (), set_jobs (settling_row b manifestHash)
                   (\<lambda>x. x\<lparr>JobStatus := BatchImageJobStatusCompleted, ActualCost := Some actualCost, ManifestHash := Some manifestHash,
                         JobUpdatedAt := pg_time now\<rparr>) s))
      else with_job b (\<lambda>r s.
        if JobStatus r \<noteq> BatchImageJobStatusSettling
        then (Inl (if JobStatus r = BatchImageJobStatusCompleted then ErrBatchImageAlreadySettled else ErrBatchImageSettlementInvalidStatus), s)
        else (Inl ErrBatchImageSettlementManifestConflict, s)) s)"

definition settlement_failure :: "string \<Rightarrow> string \<Rightarrow> int batch_stmt" where
  "settlement_failure b code =
     with_job b (\<lambda>r s. (Inr (RetryCount r + 1), set_jobs (\<lambda>x. BatchID x = b)
       (\<lambda>x. x\<lparr>LastErrorCode := Some code, RetryCount := RetryCount x + 1, JobUpdatedAt := stamp s\<rparr>) s))"

definition MarkBatchImageJobUserDeleted :: "int \<Rightarrow> int \<Rightarrow> string \<Rightarrow> time \<Rightarrow> unit batch_stmt" where
  "MarkBatchImageJobUserDeleted userID apiKeyID b deletedAt s =
     (let hit = (\<lambda>x. BatchID x = b \<and> JobUserID x = userID \<and> JobAPIKeyID x = Some apiKeyID \<and> UserDeletedAt x = None \<and>
                    IsTerminalBatchImageJobStatus (JobStatus x))
      in if hits hit s then (Inr (), set_jobs hit (\<lambda>x. x\<lparr>UserDeletedAt := Some (pg_time deletedAt), JobUpdatedAt := pg_time deletedAt\<rparr>) s)
         else (Inl ErrBatchImageRecordDeleteNotReady, s))"

definition MarkBatchImageOutputDeleted :: "string \<Rightarrow> time \<Rightarrow> unit batch_stmt" where
  "MarkBatchImageOutputDeleted b deletedAt s =
     (if hits (\<lambda>x. BatchID x = b) s
      then (Inr (), set_jobs (\<lambda>x. BatchID x = b)
             (\<lambda>x. x\<lparr>JobStatus := (if JobStatus x = BatchImageJobStatusCompleted then BatchImageJobStatusOutputDeleted else JobStatus x),
                   JobUpdatedAt := pg_time deletedAt\<rparr>) s)
      else (Inl ErrBatchImageJobNotFound, s))"

subsection \<open>Statements on items\<close>

text \<open>The index on the job and the custom id is unique.\<close>

primrec insert_items :: "BatchImageItem list \<Rightarrow> unit batch_stmt" where
  "insert_items [] s = (Inr (), s)"
| "insert_items (i # is) s =
     (if list_ex (\<lambda>x. ItemJobID x = ItemJobID i \<and> CustomID x = CustomID i) (image_items s)
      then (Inl (WithCause ErrBatchImageItemExists unique_violation), s)
      else insert_items is (s\<lparr>image_items := image_items s @ [i]\<rparr>))"

definition BulkCreateBatchImageItems :: "BatchImageItem list \<Rightarrow> unit batch_stmt" where
  "BulkCreateBatchImageItems is s = (case insert_items is s of (Inl e, _) \<Rightarrow> (Inl e, s) | (Inr a, t) \<Rightarrow> (Inr a, t))"

definition ListBatchImageItems :: "string \<Rightarrow> nat \<Rightarrow> nat \<Rightarrow> BatchImageItem list batch_stmt" where
  "ListBatchImageItems b limit offset s =
     (Inr (take (if limit = 0 \<or> limit > 500 then 100 else limit) (drop offset (filter (\<lambda>i. ItemJobID i = b) (image_items s)))), s)"

text \<open>The preview of an item that stays is kept; of rows that share an id the last one counts, and an empty preview is none.\<close>

definition batchImageItemPromptPreviews :: "string \<Rightarrow> batch_db \<Rightarrow> string \<Rightarrow> string option" where
  "batchImageItemPromptPreviews b s c =
     map_of (rev (List.map_filter (\<lambda>i. case PromptPreview i of
        Some p \<Rightarrow> if ItemJobID i = b \<and> p \<noteq> '''' then Some (CustomID i, p) else None | None \<Rightarrow> None) (image_items s))) c"

definition replace_items :: "string \<Rightarrow> BatchImageItem list \<Rightarrow> int \<Rightarrow> int \<Rightarrow> unit batch_stmt" where
  "replace_items b items successCount failCount s =
     (let previews = batchImageItemPromptPreviews b s;
          rows = map (\<lambda>i. i\<lparr>ItemJobID := b, PromptPreview := (case PromptPreview i of None \<Rightarrow> previews (CustomID i) | Some p \<Rightarrow> Some p)\<rparr>) items
      in case insert_items rows (s\<lparr>image_items := filter (\<lambda>i. ItemJobID i \<noteq> b) (image_items s)\<rparr>) of
           (Inl e, _) \<Rightarrow> (Inl e, s)
         | (Inr _, t) \<Rightarrow> (Inr (), set_jobs (\<lambda>x. BatchID x = b)
             (\<lambda>x. x\<lparr>SuccessCount := successCount, FailCount := failCount, JobUpdatedAt := stamp s\<rparr>) t))"

definition ReplaceBatchImageItemsForJob :: "string \<Rightarrow> BatchImageItem list \<Rightarrow> int \<Rightarrow> int \<Rightarrow> unit batch_stmt" where
  "ReplaceBatchImageItemsForJob b items successCount failCount =
     with_job b (\<lambda>r s. if JobStatus r \<noteq> BatchImageJobStatusIndexing then (Inl ErrBatchImageIndexStateConflict, s)
       else replace_items b items successCount failCount s)"

subsection \<open>Programs\<close>

text \<open>
  Beside the weather of a statement a chance holds what the world outside the repository answers: the random bytes of an id, the registry of providers and the account
  behind a job (an error, or whether the provider supports it), the provider's answers, the queue's and the price list's.
\<close>

record BatchProviderJob =
  NewProviderJobName :: string
  NewProviderOutputRef :: string

record BatchProviderStatus =
  InternalState :: string
  StatusOutputRef :: string
  StatusErrorCode :: string
  SuggestedRequeueAfter :: duration

record batch_chance =
  batch_weather :: weather
  random_bytes :: "go_error + string"
  provider_known :: bool
  account_answer :: "go_error + bool"
  submit_answer :: "go_error + BatchProviderJob option"
  get_answer :: "go_error + BatchProviderStatus option"
  cancel_answer :: "go_error option"
  open_answer :: "go_error + string list \<times> go_error option"
  enqueue_answer :: "go_error option"
  price_answer :: "go_error + usd"

type_synonym 'a batch = "(batch_chance, batch_db, 'a) prog"

definition batch_sql :: "'a batch_stmt \<Rightarrow> (go_error + 'a) batch" where
  "batch_sql f = stmt (\<lambda>c. under_weather (batch_weather c) f)"

definition hex_digit :: "nat \<Rightarrow> char" where "hex_digit d = char_of (if d < 10 then 48 + d else 87 + d)"

definition hex_encode :: "string \<Rightarrow> string" where
  "hex_encode s = concat (map (\<lambda>c. [hex_digit (of_char c div 16), hex_digit (of_char c mod 16)]) s)"

definition NewBatchImageID :: "batch_chance \<Rightarrow> go_error + string" where
  "NewBatchImageID c = map_sum id (\<lambda>b. ''imgbatch_'' @ hex_encode b) (random_bytes c)"

definition asked :: "(batch_chance \<Rightarrow> 'a) \<Rightarrow> 'a batch" where "asked f = stmt (\<lambda>c s. (f c, s))"

definition batch_now :: "time batch" where "batch_now = stmt (\<lambda>c s. (bill_clock s, s))"

text \<open>A row of the event log, which no program reads: it may fail to be written.\<close>

definition AppendBatchImageEvent :: "(go_error + unit) batch" where "AppendBatchImageEvent = batch_sql (\<lambda>s. (Inr (), s))"

text \<open>An enqueue fails with an error other than \<^verbatim>\<open>ErrBatchImageAlreadyQueued\<close>.\<close>

definition Enqueue :: "go_error option batch" where
  "Enqueue = asked (\<lambda>c. case enqueue_answer c of None \<Rightarrow> None
     | Some e \<Rightarrow> if errors_is e ErrBatchImageAlreadyQueued then None else Some e)"

definition FailStaleUnsubmittedBatchImageJob :: "string \<Rightarrow> time \<Rightarrow> string \<Rightarrow> (bool \<times> go_error option) batch" where
  "FailStaleUnsubmittedBatchImageJob b cutoff code =
     checked (batch_sql (fail_stale b cutoff code)) (\<lambda>e. Ret (False, Some e)) (\<lambda>applied.
     if \<not> applied then Ret (False, None)
     else checked AppendBatchImageEvent (\<lambda>e. Ret (True, Some e)) (\<lambda>_. Ret (True, None)))"

definition RecordBatchImageJobSubmitFailure :: "string \<Rightarrow> string \<Rightarrow> bool \<Rightarrow> (go_error + unit) batch" where
  "RecordBatchImageJobSubmitFailure b code markFailed =
     checked (batch_sql (submit_failure b code markFailed)) (\<lambda>e. Ret (Inl e)) (\<lambda>_. AppendBatchImageEvent)"

definition SetBatchImageJobSettlementFailed :: "string \<Rightarrow> string \<Rightarrow> (go_error + int) batch" where
  "SetBatchImageJobSettlementFailed b code =
     checked (batch_sql (settlement_failure b code)) (\<lambda>e. Ret (Inl e)) (\<lambda>retryCount.
     checked AppendBatchImageEvent (\<lambda>e. Ret (Inl e)) (\<lambda>_. Ret (Inr retryCount)))"

subsection \<open>Holds\<close>

definition held_amount :: "BatchImageJob \<Rightarrow> usd" where
  "held_amount job = (case JobHoldAmount job of None \<Rightarrow> EstimatedCost job | Some h \<Rightarrow> h)"

definition buildBatchImageHoldCommand ::
  "BatchImageJob \<Rightarrow> string \<Rightarrow> usd \<Rightarrow> string \<Rightarrow> go_error + BatchImageBalanceHoldCommand" where
  "buildBatchImageHoldCommand job requestID actualAmount payloadHash =
     (case JobAPIKeyID job of
        None \<Rightarrow> Inl ErrBatchImageSettlementMissingAPIKeyID
      | Some k \<Rightarrow>
          if k \<le> 0 then Inl ErrBatchImageSettlementMissingAPIKeyID
          else Inr \<lparr>HoldRequestID = requestID, HoldAPIKeyID = k, HoldFingerprint = '''', HoldPayloadHash = trim_space payloadHash,
                 HoldUserID = JobUserID job, HoldBatchID = BatchID job,
                 HoldAmount = (if held_amount job < 0 then 0 else held_amount job),
                 ActualAmount = (if actualAmount < 0 then 0 else actualAmount)\<rparr>)"

definition reserveBatchImageBalanceHold :: "(string \<Rightarrow> string) \<Rightarrow> BatchImageJob \<Rightarrow> string \<Rightarrow> go_error option batch" where
  "reserveBatchImageBalanceHold H job payloadHash =
     (case buildBatchImageHoldCommand job (BatchImageHoldRequestID (BatchID job)) 0 payloadHash of
        Inl e \<Rightarrow> Ret (Some e)
      | Inr cmd \<Rightarrow>
          if HoldAmount cmd \<le> 0 then Ret None
          else checked (batch_sql (ReserveBatchImageBalance H cmd))
            (\<lambda>e. Ret (Some (if errors_is e ErrBatchImageInsufficientBalance then ErrBatchImageInsufficientBalance
                            else WithCause ErrBatchImageBillingHoldFailed e)))
            (\<lambda>_. Ret None))"

definition captureBatchImageBalanceHold :: "(string \<Rightarrow> string) \<Rightarrow> BatchImageJob \<Rightarrow> usd \<Rightarrow> string \<Rightarrow> go_error option batch" where
  "captureBatchImageBalanceHold H job actualAmount payloadHash =
     (case buildBatchImageHoldCommand job (BatchImageCaptureRequestID (BatchID job)) actualAmount payloadHash of
        Inl e \<Rightarrow> Ret (Some e)
      | Inr cmd \<Rightarrow>
          checked (batch_sql (CaptureBatchImageBalance H cmd))
            (\<lambda>e. Ret (Some (WithCause ErrBatchImageSettlementBillingFailed e))) (\<lambda>_. Ret None))"

definition releaseBatchImageBalanceHold :: "(string \<Rightarrow> string) \<Rightarrow> BatchImageJob \<Rightarrow> string \<Rightarrow> go_error option batch" where
  "releaseBatchImageBalanceHold H job payloadHash =
     (case buildBatchImageHoldCommand job (BatchImageReleaseRequestID (BatchID job)) 0 payloadHash of
        Inl e \<Rightarrow> Ret (Some e)
      | Inr cmd \<Rightarrow>
          if HoldAmount cmd \<le> 0 then Ret None
          else checked (batch_sql (ReleaseBatchImageBalance H cmd))
            (\<lambda>e. Ret (if errors_is e ErrUsageBillingRequestConflict then None
                      else Some (WithCause ErrBatchImageBillingHoldFailed e)))
            (\<lambda>_. Ret None))"

text \<open>\<^verbatim>\<open>if err != nil\<close> after a call that returns only an error.\<close>

definition unless_error :: "go_error option batch \<Rightarrow> (go_error \<Rightarrow> 'a batch) \<Rightarrow> 'a batch \<Rightarrow> 'a batch" where
  "unless_error p failed k = and_then p (\<lambda>r. case r of Some e \<Rightarrow> failed e | None \<Rightarrow> k)"

subsection \<open>Submission\<close>

text \<open>What \<^verbatim>\<open>Submit\<close> has computed before it looks for the idempotency key: the owner, the provider and account it chose, the prices, the
  validated items with their prompts. The look-up of a parent batch, which only reads, is left out.\<close>

record submission =
  sub_user :: int
  sub_key :: int
  sub_account :: int
  sub_provider :: string
  sub_model :: string
  sub_items :: "(string \<times> string) list"
  sub_max_prompt :: int
  sub_estimated :: usd
  sub_hold :: usd
  sub_unit_price :: usd
  sub_hash :: string
  sub_idempotency :: string

definition submitted_job :: "submission \<Rightarrow> string \<Rightarrow> BatchImageJob" where
  "submitted_job q b = \<lparr>BatchID = b, JobUserID = sub_user q, JobAPIKeyID = Some (sub_key q), JobAccountID = Some (sub_account q),
     JobProvider = sub_provider q, JobModel = sub_model q, JobStatus = BatchImageJobStatusCreated, ProviderJobName = None,
     ProviderOutputRef = None, ItemCount = int (length (sub_items q)), SuccessCount = 0, FailCount = 0,
     EstimatedCost = sub_estimated q, JobHoldAmount = Some (sub_hold q), ActualCost = None, BillableUnitPrice = sub_unit_price q,
     PricingSnapshotVersion = 1, IdempotencyKey = batchImageOptionalStringPtr (trim_space (sub_idempotency q)),
     RequestHash = Some (sub_hash q), ManifestHash = None, RetryCount = 0, LastErrorCode = None, JobUpdatedAt = 0,
     UserDeletedAt = None\<rparr>"

definition pending_item :: "submission \<Rightarrow> string \<Rightarrow> string \<times> string \<Rightarrow> BatchImageItem" where
  "pending_item q b i = \<lparr>ItemJobID = b, CustomID = fst i, ItemStatus = BatchImageItemStatusPending, ItemRequestHash = Some (sub_hash q),
     PromptPreview = Some (truncateBatchImageMessage (snd i) (sub_max_prompt q)), ProviderSourceObject = None, ItemSourceLine = None,
     MimeType = None, FileExtension = None, ImageCount = 0, ItemErrorCode = None, ItemErrorMessage = None, IndexedAt = None\<rparr>"

definition createPendingItems :: "submission \<Rightarrow> string \<Rightarrow> (go_error + unit) batch" where
  "createPendingItems q b =
     (if sub_items q = [] then Ret (Inr ()) else batch_sql (BulkCreateBatchImageItems (map (pending_item q b) (sub_items q))))"

definition enqueueBillingRetry :: "(go_error + unit) batch" where
  "enqueueBillingRetry = unless_error Enqueue (\<lambda>e. AppendBatchImageEvent) (Ret (Inr ()))"

definition releaseFailedSubmitHold :: "(string \<Rightarrow> string) \<Rightarrow> BatchImageJob \<Rightarrow> string \<Rightarrow> go_error option batch" where
  "releaseFailedSubmitHold H job requestHash =
     unless_error (releaseBatchImageBalanceHold H job requestHash)
       (\<lambda>e. ignoring (RecordBatchImageJobSubmitFailure (BatchID job) ''BILLING_RELEASE_FAILED'' True)
              (ignoring enqueueBillingRetry (Ret (Some ErrBatchImageBillingHoldFailed))))
       (Ret None)"

definition hidePreUpstreamSubmitFailure :: "submission \<Rightarrow> BatchImageJob \<Rightarrow> (go_error + unit) batch" where
  "hidePreUpstreamSubmitFailure q job =
     (if ProviderJobName job \<noteq> None then Ret (Inr ())
      else and_then batch_now (\<lambda>now.
        checked (batch_sql (MarkBatchImageJobUserDeleted (sub_user q) (sub_key q) (BatchID job) now)) (\<lambda>e. Ret (Inl e)) (\<lambda>_. AppendBatchImageEvent)))"

text \<open>A submission that failed before the provider took it: the hold is released, the job fails and is hidden.\<close>

definition abandon_submit :: "(string \<Rightarrow> string) \<Rightarrow> submission \<Rightarrow> BatchImageJob \<Rightarrow> string \<Rightarrow> go_error \<Rightarrow> (go_error + BatchImageJob) batch" where
  "abandon_submit H q job code err =
     unless_error (releaseFailedSubmitHold H job (sub_hash q)) (\<lambda>e. Ret (Inl e))
       (ignoring (RecordBatchImageJobSubmitFailure (BatchID job) code True)
         (ignoring (hidePreUpstreamSubmitFailure q job) (Ret (Inl err))))"

definition batchImageProviderSubmitPublicError :: "go_error \<Rightarrow> go_error" where
  "batchImageProviderSubmitPublicError err =
     (let reason = trim_space (error_reason (Some err))
      in if reason = ''VERTEX_MANAGED_GCS_BUCKET_MISSING'' then ErrBatchImageVertexGCSBucketMissing
         else if reason = ''BATCH_IMAGE_PROVIDER_MISSING_API_KEY'' then ErrBatchImageProviderMissingAPIKey
         else if reason = ''BATCH_IMAGE_PROVIDER_MISSING_SERVICE_ACCOUNT'' then ErrBatchImageProviderMissingServiceAccount
         else if reason = ''BATCH_IMAGE_PROVIDER_UNSUPPORTED_ACCOUNT'' then ErrBatchImageProviderUnsupportedAccount
         else ErrBatchImageProviderSubmitFailed)"

definition batchImageProviderSubmitRecordCode :: "go_error \<Rightarrow> string" where
  "batchImageProviderSubmitRecordCode err =
     (let reason = trim_space (error_reason (Some err))
      in if reason = '''' \<or> reason = ''BATCH_IMAGE_PROVIDER_SUBMIT_FAILED'' then ''PROVIDER_SUBMIT_FAILED'' else reason)"

text \<open>The provider has taken the batch. A job that cannot be marked so any more is cancelled at the provider, as far as that goes.\<close>

definition abortOrphanProviderJob :: "(go_error + unit) batch" where
  "abortOrphanProviderJob = ignoring (asked cancel_answer) (ignoring (asked cancel_answer) AppendBatchImageEvent)"

definition submit_taken :: "BatchImageJob \<Rightarrow> BatchProviderJob \<Rightarrow> (go_error + BatchImageJob) batch" where
  "submit_taken job pj =
     checked (batch_sql (UpdateBatchImageJobProviderSubmit (BatchID job) (NewProviderJobName pj) (NewProviderOutputRef pj)))
       (\<lambda>e. ignoring abortOrphanProviderJob (Ret (Inl e))) (\<lambda>_.
     unless_error Enqueue
       (\<lambda>e. ignoring (RecordBatchImageJobSubmitFailure (BatchID job) ''QUEUE_FAILED'' False) (Ret (Inl ErrBatchImageQueueFailed)))
       (batch_sql (GetBatchImageJobByBatchID (BatchID job))))"

definition submit_held :: "(string \<Rightarrow> string) \<Rightarrow> submission \<Rightarrow> BatchImageJob \<Rightarrow> (go_error + BatchImageJob) batch" where
  "submit_held H q job =
     checked (createPendingItems q (BatchID job)) (\<lambda>e. abandon_submit H q job ''ITEM_CREATE_FAILED'' ErrBatchImageQueueFailed) (\<lambda>_.
     checked (batch_sql (TransitionBatchImageJobStatus (BatchID job) BatchImageJobStatusUploading None))
       (\<lambda>e. if errors_is e ErrBatchImageInvalidTransition
            then unless_error (releaseFailedSubmitHold H job (sub_hash q)) (\<lambda>e'. Ret (Inl e')) (Ret (Inl e))
            else abandon_submit H q job ''UPLOAD_TRANSITION_FAILED'' e) (\<lambda>_.
     checked (asked submit_answer)
       (\<lambda>e. abandon_submit H q job (batchImageProviderSubmitRecordCode (batchImageProviderSubmitPublicError e))
              (batchImageProviderSubmitPublicError e)) (\<lambda>answer.
     case answer of
       None \<Rightarrow> abandon_submit H q job ''PROVIDER_SUBMIT_FAILED'' ErrBatchImageProviderSubmitFailed
     | Some pj \<Rightarrow>
         if trim_space (NewProviderJobName pj) = ''''
         then abandon_submit H q job ''PROVIDER_SUBMIT_FAILED'' ErrBatchImageProviderSubmitFailed
         else submit_taken job pj)))"

definition submit_new :: "(string \<Rightarrow> string) \<Rightarrow> submission \<Rightarrow> (go_error + BatchImageJob) batch" where
  "submit_new H q =
     checked (asked NewBatchImageID) (\<lambda>e. Ret (Inl e)) (\<lambda>b.
     checked (batch_sql (CreateBatchImageJob (submitted_job q b))) (\<lambda>e. Ret (Inl e)) (\<lambda>job.
     unless_error (reserveBatchImageBalanceHold H job (sub_hash q))
       (\<lambda>e. ignoring (RecordBatchImageJobSubmitFailure b
              (if errors_is e ErrBatchImageInsufficientBalance then ''INSUFFICIENT_BALANCE'' else ''BILLING_HOLD_FAILED'') True)
              (ignoring (hidePreUpstreamSubmitFailure q job) (Ret (Inl e))))
       (submit_held H q job)))"

definition Submit :: "(string \<Rightarrow> string) \<Rightarrow> submission \<Rightarrow> (go_error + BatchImageJob) batch" where
  "Submit H q =
     (let idempotencyKey = trim_space (sub_idempotency q)
      in if idempotencyKey = '''' then submit_new H q
         else and_then (batch_sql (GetBatchImageJobByIdempotencyKey (sub_user q) (sub_key q) idempotencyKey)) (\<lambda>r. case r of
           Inr existing \<Rightarrow>
             if batchImageDerefString (RequestHash existing) \<noteq> sub_hash q then Ret (Inl ErrBatchImageIdempotencyConflict)
             else if JobStatus existing = BatchImageJobStatusSubmitted
             then unless_error Enqueue
               (\<lambda>e. ignoring (RecordBatchImageJobSubmitFailure (BatchID existing) ''QUEUE_FAILED'' False) (Ret (Inl ErrBatchImageQueueFailed)))
               (Ret (Inr existing))
             else Ret (Inr existing)
         | Inl e \<Rightarrow> if errors_is e ErrBatchImageJobNotFound then submit_new H q else Ret (Inl e)))"

subsection \<open>Cancellation\<close>

definition isBatchImageProcessorDoneStatus :: "string \<Rightarrow> bool" where
  "isBatchImageProcessorDoneStatus st \<longleftrightarrow> st = BatchImageJobStatusSettling \<or> IsTerminalBatchImageJobStatus st"

definition Cancel :: "(string \<Rightarrow> string) \<Rightarrow> int \<Rightarrow> int \<Rightarrow> string \<Rightarrow> (go_error + BatchImageJob) batch" where
  "Cancel H userID apiKeyID b =
     checked (batch_sql (GetBatchImageJobByBatchIDForOwner userID apiKeyID b)) (\<lambda>e. Ret (Inl e)) (\<lambda>job.
     if isBatchImageProcessorDoneStatus (JobStatus job)
     then if JobStatus job = BatchImageJobStatusFailed \<or> JobStatus job = BatchImageJobStatusCancelled
       then unless_error (releaseBatchImageBalanceHold H job (batchImageDerefString (RequestHash job)))
              (\<lambda>e. ignoring enqueueBillingRetry (Ret (Inl ErrBatchImageCancelFailed))) (Ret (Inr job))
       else Ret (Inr job)
     else if batchImageDerefString (ProviderJobName job) \<noteq> ''''
     then and_then (asked provider_known) (\<lambda>known.
       if \<not> known then Ret (Inl ErrBatchImageUnsupportedProvider)
       else if JobAccountID job = None then Ret (Inl ErrBatchImageCancelFailed)
       else checked (asked account_answer) (\<lambda>e. Ret (Inl ErrBatchImageCancelFailed)) (\<lambda>_.
         unless_error (asked cancel_answer) (\<lambda>e. Ret (Inl ErrBatchImageCancelFailed))
           (ignoring AppendBatchImageEvent
             (unless_error Enqueue (\<lambda>e. Ret (Inl ErrBatchImageCancelFailed))
               (batch_sql (GetBatchImageJobByBatchIDForOwner userID apiKeyID b))))))
     else checked (batch_sql (TransitionBatchImageJobStatus (BatchID job) BatchImageJobStatusCancelled None)) (\<lambda>e. Ret (Inl e)) (\<lambda>_.
       unless_error (releaseBatchImageBalanceHold H job (batchImageDerefString (RequestHash job)))
         (\<lambda>e. ignoring enqueueBillingRetry (Ret (Inl ErrBatchImageCancelFailed)))
         (batch_sql (GetBatchImageJobByBatchIDForOwner userID apiKeyID b))))"

definition DeleteRecord :: "int \<Rightarrow> int \<Rightarrow> string \<Rightarrow> (go_error + unit) batch" where
  "DeleteRecord userID apiKeyID b =
     checked (batch_sql (GetBatchImageJobByBatchIDForOwner userID apiKeyID b)) (\<lambda>e. Ret (Inl e)) (\<lambda>job.
     if \<not> isBatchImageProcessorDoneStatus (JobStatus job) then Ret (Inl ErrBatchImageRecordDeleteNotReady)
     else and_then batch_now (\<lambda>now.
       checked (batch_sql (MarkBatchImageJobUserDeleted userID apiKeyID (BatchID job) now)) (\<lambda>e. Ret (Inl e)) (\<lambda>_. AppendBatchImageEvent)))"

subsection \<open>Submissions that never arrived\<close>

definition defaultBatchImageBillingRecoveryStaleAfter :: duration where "defaultBatchImageBillingRecoveryStaleAfter = 10 * minute"
definition defaultBatchImageBillingRecoveryLimit :: int where "defaultBatchImageBillingRecoveryLimit = 100"

primrec release_each :: "(string \<Rightarrow> string) \<Rightarrow> time \<Rightarrow> BatchImageJob list \<Rightarrow> int \<Rightarrow> go_error option \<Rightarrow> (int \<times> go_error option) batch" where
  "release_each H cutoff [] released lastErr = Ret (released, lastErr)"
| "release_each H cutoff (job # jobs) released lastErr =
     and_then (FailStaleUnsubmittedBatchImageJob (BatchID job) cutoff ''SUBMIT_STALE_BEFORE_PROVIDER'') (\<lambda>(applied, err).
     if \<not> applied then release_each H cutoff jobs released (case err of Some e \<Rightarrow> Some e | None \<Rightarrow> lastErr)
     else unless_error (releaseBatchImageBalanceHold H job (batchImageDerefString (RequestHash job)))
       (\<lambda>e. ignoring Enqueue (release_each H cutoff jobs released (Some e)))
       (release_each H cutoff jobs (released + 1) lastErr))"

definition ReleaseStaleUnsubmittedOnce :: "(string \<Rightarrow> string) \<Rightarrow> duration \<Rightarrow> int \<Rightarrow> (int \<times> go_error option) batch" where
  "ReleaseStaleUnsubmittedOnce H staleAfter0 limit0 =
     (let staleAfter = (if staleAfter0 \<le> 0 then defaultBatchImageBillingRecoveryStaleAfter else staleAfter0);
          limit = (if limit0 \<le> 0 then defaultBatchImageBillingRecoveryLimit else limit0)
      in and_then batch_now (\<lambda>now.
         let cutoff = add_time now (- staleAfter) in
         checked (batch_sql (ListStaleUnsubmittedBatchImageJobs cutoff limit)) (\<lambda>e. Ret (0, Some e)) (\<lambda>jobs.
         release_each H cutoff jobs 0 None)))"

subsection \<open>Following the provider\<close>

record BatchImageProcessResult =
  RequeueAfter :: duration
  Terminal :: bool

type_synonym process = "(go_error + BatchImageProcessResult) batch"

definition requeue :: "duration \<Rightarrow> process" where "requeue d = Ret (Inr \<lparr>RequeueAfter = d, Terminal = False\<rparr>)"
definition finished :: process where "finished = Ret (Inr \<lparr>RequeueAfter = 0, Terminal = True\<rparr>)"

definition millisecond :: duration where "millisecond = 1000000"
definition defaultBatchImageProcessorRequeue :: duration where "defaultBatchImageProcessorRequeue = 30 * second"
definition batchImageProviderErrorRequeue :: duration where "batchImageProviderErrorRequeue = minute"

definition requeueDelay :: "duration \<Rightarrow> duration \<Rightarrow> duration" where
  "requeueDelay configured suggested =
     (if suggested > 0 then suggested else if configured > 0 then configured else defaultBatchImageProcessorRequeue)"

definition releaseTerminalHold :: "(string \<Rightarrow> string) \<Rightarrow> BatchImageJob \<Rightarrow> go_error option batch" where
  "releaseTerminalHold H job =
     (if JobStatus job \<noteq> BatchImageJobStatusFailed \<and> JobStatus job \<noteq> BatchImageJobStatusCancelled then Ret None
      else releaseBatchImageBalanceHold H job (batchImageDerefString (RequestHash job)))"

text \<open>The job moves to \<open>to\<close>, its hold is released, and the worker is done with it.\<close>

definition fail_and_release :: "(string \<Rightarrow> string) \<Rightarrow> BatchImageJob \<Rightarrow> string \<Rightarrow> string option \<Rightarrow> process" where
  "fail_and_release H job to code =
     checked (batch_sql (TransitionBatchImageJobStatus (BatchID job) to code)) (\<lambda>e. Ret (Inl e)) (\<lambda>_.
     unless_error (releaseTerminalHold H (job\<lparr>JobStatus := to\<rparr>)) (\<lambda>e. Ret (Inl e)) finished)"

text \<open>
  The items known for a job, by pages of 500. The recursion is bounded by a number of pages; \<open>BatchLedger\<close> shows which number is enough.
\<close>

primrec listExpectedCustomIDs :: "nat \<Rightarrow> string \<Rightarrow> nat \<Rightarrow> string list \<Rightarrow> (go_error + string list) batch" where
  "listExpectedCustomIDs 0 b offset expected = Ret (Inl (plain_error ''out of pages''))"
| "listExpectedCustomIDs (Suc n) b offset expected =
     checked (batch_sql (ListBatchImageItems b 500 offset)) (\<lambda>e. Ret (Inl e)) (\<lambda>page.
     if length page < 500 then Ret (Inr (expected @ map CustomID page))
     else listExpectedCustomIDs n b (offset + length page) (expected @ map CustomID page))"

definition Index :: "result_lib \<Rightarrow> nat \<Rightarrow> BatchImageJob \<Rightarrow> (go_error + BatchImageIndexResult) batch" where
  "Index J pages job =
     checked (listExpectedCustomIDs pages (BatchID job) 0 []) (\<lambda>e. Ret (Inl e)) (\<lambda>expected.
     checked (asked open_answer) (\<lambda>e. Ret (Inl (WithCause ErrBatchImageIndexOutputMissing e))) (\<lambda>out.
     and_then batch_now (\<lambda>now.
     let sourceObject = (if batchImageDerefString (ProviderOutputRef job) = '''' then batchImageDerefString (ProviderJobName job)
                         else batchImageDerefString (ProviderOutputRef job)) in
     case index_output J expected (BatchID job) sourceObject now out of
       Inl e \<Rightarrow> Ret (Inl e)
     | Inr (result, items, reconciled) \<Rightarrow>
         ignoring (if reconciled then AppendBatchImageEvent else Ret (Inr ()))
           (checked (batch_sql (ReplaceBatchImageItemsForJob (BatchID job) items (IndexSuccess result) (IndexFail result)))
             (\<lambda>e. Ret (Inl e)) (\<lambda>_. Ret (Inr result))))))"

definition indexAndSettle :: "(string \<Rightarrow> string) \<Rightarrow> result_lib \<Rightarrow> nat \<Rightarrow> BatchImageJob \<Rightarrow> process" where
  "indexAndSettle H J pages job =
     checked (Index J pages job)
       (\<lambda>e. if errors_is e ErrBatchImageIndexOutputMissing then Ret (Inl e)
            else if errors_is e ErrBatchImageIndexStateConflict then requeue millisecond
            else fail_and_release H job BatchImageJobStatusFailed
              (Some (if errors_is e ErrBatchImageDuplicateCustomID then ''DUPLICATE_CUSTOM_ID_IN_OUTPUT'' else ''INDEX_PARSE_FAILED'')))
       (\<lambda>result.
     checked (batch_sql (TransitionBatchImageJobStatus (BatchID job) BatchImageJobStatusSettling None)) (\<lambda>e. Ret (Inl e))
       (\<lambda>_. requeue millisecond))"

definition persistProviderOutputRef :: "BatchImageJob \<Rightarrow> string \<Rightarrow> (go_error + BatchImageJob) batch" where
  "persistProviderOutputRef job ref0 =
     (let ref = trim_space ref0
      in if ref = '''' \<or> batchImageDerefString (ProviderOutputRef job) = ref then Ret (Inr job)
         else checked (batch_sql (UpdateBatchImageJobProviderOutputRef (BatchID job) ref)) (\<lambda>e. Ret (Inl e))
           (\<lambda>_. Ret (Inr (job\<lparr>ProviderOutputRef := Some ref\<rparr>))))"

definition BatchProviderStateQueued :: string where "BatchProviderStateQueued = ''queued''"
definition BatchProviderStateRunning :: string where "BatchProviderStateRunning = ''running''"
definition BatchProviderStateSucceeded :: string where "BatchProviderStateSucceeded = ''succeeded''"
definition BatchProviderStateFailed :: string where "BatchProviderStateFailed = ''failed''"
definition BatchProviderStateCancelled :: string where "BatchProviderStateCancelled = ''cancelled''"
definition BatchProviderStateExpired :: string where "BatchProviderStateExpired = ''expired''"

definition follow_status :: "(string \<Rightarrow> string) \<Rightarrow> result_lib \<Rightarrow> nat \<Rightarrow> duration \<Rightarrow> BatchImageJob \<Rightarrow> BatchProviderStatus \<Rightarrow> process" where
  "follow_status H J pages configured job st =
     (let delay = requeueDelay configured (SuggestedRequeueAfter st) in
      if InternalState st = BatchProviderStateQueued then requeue delay
      else if InternalState st = BatchProviderStateRunning then
        (if JobStatus job \<noteq> BatchImageJobStatusRunning
         then checked (batch_sql (TransitionBatchImageJobStatus (BatchID job) BatchImageJobStatusRunning None)) (\<lambda>e. Ret (Inl e)) (\<lambda>_. requeue delay)
         else requeue delay)
      else if InternalState st = BatchProviderStateSucceeded then
        (if JobStatus job \<noteq> BatchImageJobStatusIndexing
         then checked (batch_sql (TransitionBatchImageJobStatus (BatchID job) BatchImageJobStatusIndexing None)) (\<lambda>e. Ret (Inl e))
           (\<lambda>_. indexAndSettle H J pages (job\<lparr>JobStatus := BatchImageJobStatusIndexing\<rparr>))
         else indexAndSettle H J pages job)
      else if InternalState st = BatchProviderStateFailed \<or> InternalState st = BatchProviderStateExpired then
        fail_and_release H job BatchImageJobStatusFailed
          (Some (if trim_space (StatusErrorCode st) \<noteq> '''' then trim_space (StatusErrorCode st)
                 else if InternalState st = BatchProviderStateExpired then ''PROVIDER_BATCH_EXPIRED'' else ''PROVIDER_BATCH_FAILED''))
      else if InternalState st = BatchProviderStateCancelled then fail_and_release H job BatchImageJobStatusCancelled None
      else requeue delay)"

definition provider_Process :: "(string \<Rightarrow> string) \<Rightarrow> result_lib \<Rightarrow> nat \<Rightarrow> duration \<Rightarrow> string \<Rightarrow> process" where
  "provider_Process H J pages configured b =
     checked (batch_sql (GetBatchImageJobByBatchID b)) (\<lambda>e. Ret (Inl e)) (\<lambda>job.
     if isBatchImageProcessorDoneStatus (JobStatus job)
     then unless_error (releaseTerminalHold H job) (\<lambda>e. Ret (Inl e)) finished
     else and_then (asked provider_known) (\<lambda>known.
       if \<not> known then Ret (Inl ErrBatchImageUnsupportedProvider)
       else if (case JobAccountID job of None \<Rightarrow> True | Some a \<Rightarrow> a \<le> 0) then Ret (Inl ErrBatchImageMissingAccountID)
       else checked (asked account_answer) (\<lambda>e. Ret (Inl e)) (\<lambda>supported.
         if \<not> supported then Ret (Inl ErrBatchImageProviderUnsupportedAccount)
         else if batchImageDerefString (ProviderJobName job) = '''' then Ret (Inl ErrBatchImageMissingProviderJobName)
         else if JobStatus job = BatchImageJobStatusIndexing then indexAndSettle H J pages job
         else checked (asked get_answer) (\<lambda>e. requeue batchImageProviderErrorRequeue) (\<lambda>answer. case answer of
             None \<Rightarrow> requeue (requeueDelay configured 0)
           | Some st \<Rightarrow>
               checked (persistProviderOutputRef job (StatusOutputRef st)) (\<lambda>e. Ret (Inl e))
                 (\<lambda>job'. follow_status H J pages configured job' st)))))"

subsection \<open>Settlement\<close>

definition batchImageSettlementMaxRetries :: int where "batchImageSettlementMaxRetries = 5"
definition batchImageSettlementRetryDelay :: duration where "batchImageSettlementRetryDelay = minute"
definition batchImageCostEpsilon :: usd where "batchImageCostEpsilon = 1 / 10 ^ 8"

text \<open>The parts of the manifest hash are joined by a zero byte.\<close>

definition BuildBatchImageSettlementManifestHash :: "(string \<Rightarrow> string) \<Rightarrow> BatchImageJob \<Rightarrow> string" where
  "BuildBatchImageSettlementManifestHash H job =
     (let parts = [trim_space (BatchID job), trim_space (JobProvider job), trim_space (JobModel job),
        batchImageDerefString (ProviderJobName job), batchImageDerefString (ProviderOutputRef job),
        itoa (SuccessCount job), itoa (FailCount job), itoa (ItemCount job)]
      in H (concat (hd parts # map (\<lambda>p. char_of (0::nat) # p) (tl parts))))"

definition isBatchImageSettlementRetryExhausted :: "BatchImageJob \<Rightarrow> bool" where
  "isBatchImageSettlementRetryExhausted job \<longleftrightarrow> JobStatus job = BatchImageJobStatusSettling \<and>
     RetryCount job \<ge> batchImageSettlementMaxRetries \<and> prefix ''SETTLEMENT_'' (batchImageDerefString (LastErrorCode job))"

definition failExhaustedSettlement :: "(string \<Rightarrow> string) \<Rightarrow> BatchImageJob \<Rightarrow> go_error batch" where
  "failExhaustedSettlement H job =
     unless_error (releaseBatchImageBalanceHold H job (batchImageDerefString (RequestHash job)))
       (\<lambda>e. ignoring (SetBatchImageJobSettlementFailed (BatchID job) ''SETTLEMENT_RELEASE_FAILED'')
              (Ret (WithCause ErrBatchImageSettlementBillingFailed e)))
       (checked (batch_sql (TransitionBatchImageJobStatus (BatchID job) BatchImageJobStatusFailed (Some ''SETTLEMENT_BILLING_RETRY_EXHAUSTED'')))
         Ret (\<lambda>_. Ret ErrBatchImageSettlementBillingFailed))"

definition recordSettlementFailure :: "(string \<Rightarrow> string) \<Rightarrow> BatchImageJob \<Rightarrow> string \<Rightarrow> go_error option batch" where
  "recordSettlementFailure H job code =
     checked (SetBatchImageJobSettlementFailed (BatchID job) code) (\<lambda>_. Ret None) (\<lambda>retryCount.
     if retryCount \<ge> batchImageSettlementMaxRetries
     then and_then (failExhaustedSettlement H (job\<lparr>RetryCount := retryCount, LastErrorCode := Some code\<rparr>)) (\<lambda>e. Ret (Some e))
     else Ret None)"

definition settlementUnitPrice :: "BatchImageJob \<Rightarrow> (go_error + usd) batch" where
  "settlementUnitPrice job =
     (if PricingSnapshotVersion job \<ge> 1
      then Ret (if BillableUnitPrice job < 0 then Inl ErrBatchImageSettlementPricingMissing else Inr (BillableUnitPrice job))
      else asked price_answer)"

text \<open>The result of \<^verbatim>\<open>Settle\<close>: the actual cost, and whether it had been settled before.\<close>

type_synonym settled = "usd \<times> bool"

definition failed_settlement :: "(string \<Rightarrow> string) \<Rightarrow> BatchImageJob \<Rightarrow> string \<Rightarrow> go_error \<Rightarrow> (go_error + settled) batch" where
  "failed_settlement H job code err =
     unless_error (recordSettlementFailure H job code) (\<lambda>e. Ret (Inl e)) (Ret (Inl err))"

definition settle_amount :: "(string \<Rightarrow> string) \<Rightarrow> BatchImageJob \<Rightarrow> string \<Rightarrow> usd \<Rightarrow> (go_error + settled) batch" where
  "settle_amount H job manifestHash actualCost =
     (if actualCost - held_amount job > batchImageCostEpsilon
      then failed_settlement H job ''SETTLEMENT_COST_EXCEEDS_HOLD'' ErrBatchImageSettlementCostExceedsHold
      else unless_error (captureBatchImageBalanceHold H job actualCost manifestHash)
        (\<lambda>e. failed_settlement H job ''SETTLEMENT_BILLING_FAILED'' e)
        (and_then batch_now (\<lambda>now.
          checked (batch_sql (MarkBatchImageJobSettled (BatchID job) actualCost manifestHash now)) (\<lambda>e. Ret (Inl e))
            (\<lambda>_. Ret (Inr (actualCost, False))))))"

definition Settle :: "(string \<Rightarrow> string) \<Rightarrow> string \<Rightarrow> (go_error + settled) batch" where
  "Settle H b =
     checked (batch_sql (GetBatchImageJobByBatchID b)) (\<lambda>e. Ret (Inl e)) (\<lambda>job.
     let manifestHash = BuildBatchImageSettlementManifestHash H job in
     if JobStatus job = BatchImageJobStatusCompleted then Ret (Inr (case ActualCost job of None \<Rightarrow> 0 | Some a \<Rightarrow> a, True))
     else if JobStatus job \<noteq> BatchImageJobStatusSettling then Ret (Inl ErrBatchImageSettlementInvalidStatus)
     else if (case JobAPIKeyID job of None \<Rightarrow> True | Some k \<Rightarrow> k \<le> 0) then Ret (Inl ErrBatchImageSettlementMissingAPIKeyID)
     else if (case JobAccountID job of None \<Rightarrow> True | Some a \<Rightarrow> a \<le> 0) then Ret (Inl ErrBatchImageSettlementMissingAccountID)
     else if isBatchImageSettlementRetryExhausted job then and_then (failExhaustedSettlement H job) (\<lambda>e. Ret (Inl e))
     else if SuccessCount job < 0 \<or> FailCount job < 0 \<or> ItemCount job < 0 \<or> SuccessCount job + FailCount job > ItemCount job
     then failed_settlement H job ''SETTLEMENT_INVALID_COUNTS'' ErrBatchImageSettlementInvalidCounts
     else if batchImageDerefString (ManifestHash job) \<noteq> '''' \<and> batchImageDerefString (ManifestHash job) \<noteq> manifestHash
     then failed_settlement H job ''SETTLEMENT_MANIFEST_CONFLICT'' ErrBatchImageSettlementManifestConflict
     else and_then (settlementUnitPrice job) (\<lambda>r.
       case (case r of Inl e \<Rightarrow> Inl e | Inr p \<Rightarrow> if p < 0 then Inl ErrBatchImageSettlementPricingMissing else Inr p) of
         Inl e \<Rightarrow> failed_settlement H job ''SETTLEMENT_PRICING_MISSING'' e
       | Inr unitPrice \<Rightarrow> settle_amount H job manifestHash (of_int (SuccessCount job) * unitPrice)))"

definition pipeline_Process :: "(string \<Rightarrow> string) \<Rightarrow> result_lib \<Rightarrow> nat \<Rightarrow> duration \<Rightarrow> duration \<Rightarrow> string \<Rightarrow> process" where
  "pipeline_Process H J pages configured retryDelay b =
     checked (batch_sql (GetBatchImageJobByBatchID b)) (\<lambda>e. Ret (Inl e)) (\<lambda>job.
     if JobStatus job = BatchImageJobStatusSettling
     then checked (Settle H b)
       (\<lambda>e. if errors_is e ErrBatchImageSettlementBillingFailed
            then and_then (batch_sql (GetBatchImageJobByBatchID b)) (\<lambda>r.
              if (case r of Inr updated \<Rightarrow> IsTerminalBatchImageJobStatus (JobStatus updated) | Inl _ \<Rightarrow> False) then finished
              else requeue (if retryDelay \<le> 0 then batchImageSettlementRetryDelay else retryDelay))
            else Ret (Inl e))
       (\<lambda>_. finished)
     else provider_Process H J pages configured b)"

end
