(* ===== verification/BillingRun.thy ===== *)
theory BillingRun
  imports UsageBilling "HOL-Library.Multiset"
begin

section \<open>Runs of charges and holds\<close>

text \<open>
  What any interleaving of the transactions of \<open>UsageBilling\<close> keeps: each request is charged at most once, the books
  agree with a ledger of what was committed, frozen money is never negative, an active key has quota left. Amounts are
  rounded once.
\<close>

subsection \<open>Runs, and a ledger of what was committed\<close>

text \<open>
  Any number of processes send these transactions, archive claims and credit users; time goes on. The ledger is a list
  beside the database of what the committed transactions were asked to do, their commands normalised. An entry is
  written when the transaction commits, whether or not the caller hears of it.
\<close>

datatype entry =
    Charged UsageBillingCommand
  | Reserved BatchImageBalanceHoldCommand
  | Captured BatchImageBalanceHoldCommand
  | Released BatchImageBalanceHoldCommand bool
  | Deposited int usd

primrec entry_claim :: "entry \<Rightarrow> (string \<times> int) option" where
  "entry_claim (Charged c) = Some (BillRequestID c, BillAPIKeyID c)"
| "entry_claim (Reserved c) = Some (HoldRequestID c, HoldAPIKeyID c)"
| "entry_claim (Captured c) = Some (HoldRequestID c, HoldAPIKeyID c)"
| "entry_claim (Released c moved) = Some (HoldRequestID c, HoldAPIKeyID c)"
| "entry_claim (Deposited i a) = None"

text \<open>What an entry adds to the balance and to the frozen money of a user, and to the usage of a key, subscription or account.\<close>

primrec to_balance :: "int \<Rightarrow> entry \<Rightarrow> usd" where
  "to_balance i (Charged c) = (if BillUserID c = i \<and> BalanceCost c > 0 then - BalanceCost c else 0)"
| "to_balance i (Reserved c) = (if HoldUserID c = i \<and> HoldAmount c > 0 then - HoldAmount c else 0)"
| "to_balance i (Captured c) = (if HoldUserID c = i \<and> \<not> (HoldAmount c \<le> 0 \<and> ActualAmount c \<le> 0) then HoldAmount c - ActualAmount c else 0)"
| "to_balance i (Released c moved) = (if HoldUserID c = i \<and> moved then HoldAmount c else 0)"
| "to_balance i (Deposited j a) = (if j = i then a else 0)"

primrec to_frozen :: "int \<Rightarrow> entry \<Rightarrow> usd" where
  "to_frozen i (Charged c) = 0"
| "to_frozen i (Reserved c) = (if HoldUserID c = i \<and> HoldAmount c > 0 then HoldAmount c else 0)"
| "to_frozen i (Captured c) = (if HoldUserID c = i \<and> \<not> (HoldAmount c \<le> 0 \<and> ActualAmount c \<le> 0) then - HoldAmount c else 0)"
| "to_frozen i (Released c moved) = (if HoldUserID c = i \<and> moved then - HoldAmount c else 0)"
| "to_frozen i (Deposited j a) = 0"

primrec to_key :: "int \<Rightarrow> entry \<Rightarrow> usd" where
  "to_key i (Charged c) = (if BillAPIKeyID c = i \<and> APIKeyQuotaCost c > 0 then APIKeyQuotaCost c else 0)"
| "to_key i (Reserved c) = 0" | "to_key i (Captured c) = 0" | "to_key i (Released c moved) = 0" | "to_key i (Deposited j a) = 0"

primrec to_sub :: "int \<Rightarrow> entry \<Rightarrow> usd" where
  "to_sub i (Charged c) = (if BillSubscriptionID c = Some i \<and> SubscriptionCost c > 0 then SubscriptionCost c else 0)"
| "to_sub i (Reserved c) = 0" | "to_sub i (Captured c) = 0" | "to_sub i (Released c moved) = 0" | "to_sub i (Deposited j a) = 0"

primrec to_account :: "int \<Rightarrow> entry \<Rightarrow> usd" where
  "to_account i (Charged c) =
     (if BillAccountID c = i \<and> AccountQuotaCost c > 0 \<and> quota_account_type (BillAccountType c) then AccountQuotaCost c else 0)"
| "to_account i (Reserved c) = 0" | "to_account i (Captured c) = 0" | "to_account i (Released c moved) = 0" | "to_account i (Deposited j a) = 0"

definition booked :: "(entry \<Rightarrow> usd) \<Rightarrow> entry list \<Rightarrow> usd" where "booked f es = sum_list (map f es)"

lemma booked_simps [simp]: "booked f [] = 0" "booked f (es @ fs) = booked f es + booked f fs" "booked f (e # es) = f e + booked f es"
  by (simp_all add: booked_def)

definition logged :: "weather \<Rightarrow> go_error + 'a option \<Rightarrow> ('a \<Rightarrow> entry) \<Rightarrow> entry list" where
  "logged w r f = (case r of Inr (Some a) \<Rightarrow> (case w of Refused _ \<Rightarrow> [] | _ \<Rightarrow> [f a]) | _ \<Rightarrow> [])"

inductive bill_reach :: "(string \<Rightarrow> string) \<Rightarrow> billing_db \<Rightarrow> billing_db \<times> entry list \<Rightarrow> bool" for H initial where
  br_init: "bill_reach H initial (initial, [])"
| br_charge: "bill_reach H initial (s, l) \<Longrightarrow>
     bill_reach H initial (snd (under_weather w (Apply H c) s),
       l @ logged w (fst (Apply H c s)) (\<lambda>_. Charged (NormalizeUsageBilling H c)))"
| br_reserve: "bill_reach H initial (s, l) \<Longrightarrow>
     bill_reach H initial (snd (under_weather w (ReserveBatchImageBalance H h) s),
       l @ logged w (fst (ReserveBatchImageBalance H h s)) (\<lambda>_. Reserved (NormalizeHold H h)))"
| br_capture: "bill_reach H initial (s, l) \<Longrightarrow>
     bill_reach H initial (snd (under_weather w (CaptureBatchImageBalance H h) s),
       l @ logged w (fst (CaptureBatchImageBalance H h s)) (\<lambda>_. Captured (NormalizeHold H h)))"
| br_release: "bill_reach H initial (s, l) \<Longrightarrow>
     bill_reach H initial (snd (under_weather w (ReleaseBatchImageBalance H h) s),
       l @ logged w (fst (ReleaseBatchImageBalance H h s)) (\<lambda>r. Released (NormalizeHold H h) (r \<noteq> None)))"
| br_archive: "bill_reach H initial (s, l) \<Longrightarrow> bill_reach H initial (archive_claims cutoff pick s, l)"
| br_deposit: "bill_reach H initial (s, l) \<Longrightarrow> bill_users s i = Some u \<Longrightarrow>
     bill_reach H initial (set_user i (u\<lparr>bal := bal u + a\<rparr>) s, l @ [Deposited i a])"
| br_time: "bill_reach H initial (s, l) \<Longrightarrow> bill_clock s \<le> now \<Longrightarrow> bill_reach H initial (s\<lparr>bill_clock := now\<rparr>, l)"

subsection \<open>What a committed transaction does\<close>

text \<open>The effects of a request on each table, as functions.\<close>

definition charge_users :: "UsageBillingCommand \<Rightarrow> (int \<rightharpoonup> billing_user) \<Rightarrow> int \<rightharpoonup> billing_user" where
  "charge_users c us = (\<lambda>i. map_option (\<lambda>u. u\<lparr>bal := bal u + to_balance i (Charged c)\<rparr>) (us i))"

definition charge_subs :: "UsageBillingCommand \<Rightarrow> (int \<rightharpoonup> sub_usage) \<Rightarrow> int \<rightharpoonup> sub_usage" where
  "charge_subs c ss = (\<lambda>i. map_option (\<lambda>r. r\<lparr>sub_daily := sub_daily r + to_sub i (Charged c),
     sub_weekly := sub_weekly r + to_sub i (Charged c), sub_monthly := sub_monthly r + to_sub i (Charged c)\<rparr>) (ss i))"

definition charge_keys :: "UsageBillingCommand \<Rightarrow> (int \<rightharpoonup> api_key_row) \<Rightarrow> int \<rightharpoonup> api_key_row" where
  "charge_keys c ks = (\<lambda>i. map_option (\<lambda>r. if BillAPIKeyID c = i \<and> APIKeyQuotaCost c > 0 then spend_key (APIKeyQuotaCost c) r else r) (ks i))"

definition charge_limits :: "UsageBillingCommand \<Rightarrow> time \<Rightarrow> (int \<rightharpoonup> api_key_row) \<Rightarrow> int \<rightharpoonup> api_key_row" where
  "charge_limits c now ks =
     (\<lambda>i. map_option (\<lambda>r. if BillAPIKeyID c = i \<and> APIKeyRateLimitCost c > 0 then spend_windows now (APIKeyRateLimitCost c) r else r) (ks i))"

definition charge_accounts :: "UsageBillingCommand \<Rightarrow> time \<Rightarrow> (int \<rightharpoonup> account_quota) \<Rightarrow> int \<rightharpoonup> account_quota" where
  "charge_accounts c now qs =
     (\<lambda>i. map_option (\<lambda>q. if BillAccountID c = i \<and> AccountQuotaCost c > 0 \<and> quota_account_type (BillAccountType c)
        then spend_account now (AccountQuotaCost c) q else q) (qs i))"

lemma bill_andE:
  assumes "bill_and f g s = (Inr b, u)"
  obtains a t where "f s = (Inr a, t)" "g a t = (Inr b, u)"
  using assms by (auto simp: bill_and_def split: prod.splits sum.splits)

lemma bill_whenE:
  assumes "bill_when b a f s = (Inr r, t)"
  obtains "b" "f s = (Inr r, t)" | "\<not> b" "r = a" "t = s"
  using assms by (auto simp: bill_when_def split: if_splits)

lemma sub_step:
  assumes "(case BillSubscriptionID c of Some i \<Rightarrow> bill_when (SubscriptionCost c > 0) () (incrementUsageBillingSubscription i (SubscriptionCost c))
      | None \<Rightarrow> (\<lambda>s. (Inr (), s))) s = (Inr a, t)"
  shows "t = s\<lparr>bill_subs := charge_subs c (bill_subs s)\<rparr>"
proof -
  have same: "charge_subs c ss = ss" if "BillSubscriptionID c = None \<or> \<not> SubscriptionCost c > 0" for ss
    using that by (auto simp: charge_subs_def fun_eq_iff option.map_id0 option.map_ident)
  show ?thesis
  proof (cases "BillSubscriptionID c")
    case None
    then show ?thesis using assms same by simp
  next
    case (Some i)
    from assms [unfolded Some option.case] show ?thesis
    proof (rule bill_whenE)
      assume "SubscriptionCost c > 0" "incrementUsageBillingSubscription i (SubscriptionCost c) s = (Inr a, t)"
      then show ?thesis
        using Some by (auto simp: incrementUsageBillingSubscription_def charge_subs_def fun_eq_iff option.map_ident
            intro!: arg_cong [of _ _ "\<lambda>m. s\<lparr>bill_subs := m\<rparr>"] split: option.splits if_splits)
    qed (use same in simp)
  qed
qed

lemma user_step:
  assumes "bill_when (BalanceCost c > 0) (None, False)
     (bill_and (deductUsageBillingBalance (BillUserID c) (BalanceCost c)) (\<lambda>(b, sufficient) s. (Inr (Some b, \<not> sufficient), s))) s = (Inr a, t)"
  shows "t = s\<lparr>bill_users := charge_users c (bill_users s)\<rparr>"
  using assms
proof (rule bill_whenE)
  assume "BalanceCost c > 0" "bill_and (deductUsageBillingBalance (BillUserID c) (BalanceCost c)) (\<lambda>(b, sufficient) s. (Inr (Some b, \<not> sufficient), s)) s = (Inr a, t)"
  then show ?thesis
    by (auto simp: deductUsageBillingBalance_def set_user_def Let_def charge_users_def fun_eq_iff option.map_ident elim!: bill_andE
        intro!: arg_cong [of _ _ "\<lambda>m. s\<lparr>bill_users := m\<rparr>"] split: option.splits if_splits)
next
  assume "\<not> BalanceCost c > 0" "t = s"
  then show ?thesis by (simp add: charge_users_def option.map_ident)
qed

lemma key_step:
  assumes "bill_when (APIKeyQuotaCost c > 0) False (incrementUsageBillingAPIKeyQuota (BillAPIKeyID c) (APIKeyQuotaCost c)) s = (Inr a, t)"
  shows "t = s\<lparr>bill_keys := charge_keys c (bill_keys s)\<rparr>"
  using assms
proof (rule bill_whenE)
  assume "APIKeyQuotaCost c > 0" "incrementUsageBillingAPIKeyQuota (BillAPIKeyID c) (APIKeyQuotaCost c) s = (Inr a, t)"
  then show ?thesis
    by (auto simp: incrementUsageBillingAPIKeyQuota_def charge_keys_def fun_eq_iff option.map_ident
        intro!: arg_cong [of _ _ "\<lambda>m. s\<lparr>bill_keys := m\<rparr>"] split: option.splits)
next
  assume "\<not> APIKeyQuotaCost c > 0" "t = s"
  then show ?thesis by (simp add: charge_keys_def option.map_ident)
qed

lemma limit_step:
  assumes "bill_when (APIKeyRateLimitCost c > 0) () (incrementUsageBillingAPIKeyRateLimit (BillAPIKeyID c) (APIKeyRateLimitCost c)) s = (Inr a, t)"
  shows "t = s\<lparr>bill_keys := charge_limits c (bill_clock s) (bill_keys s)\<rparr>"
  using assms
proof (rule bill_whenE)
  assume "APIKeyRateLimitCost c > 0" "incrementUsageBillingAPIKeyRateLimit (BillAPIKeyID c) (APIKeyRateLimitCost c) s = (Inr a, t)"
  then show ?thesis
    by (auto simp: incrementUsageBillingAPIKeyRateLimit_def charge_limits_def fun_eq_iff option.map_ident
        intro!: arg_cong [of _ _ "\<lambda>m. s\<lparr>bill_keys := m\<rparr>"] split: option.splits)
next
  assume "\<not> APIKeyRateLimitCost c > 0" "t = s"
  then show ?thesis by (simp add: charge_limits_def option.map_ident)
qed

lemma account_step:
  assumes "bill_when (AccountQuotaCost c > 0 \<and> quota_account_type (BillAccountType c)) None
     (bill_and (incrementUsageBillingAccountQuota (BillAccountID c) (AccountQuotaCost c)) (\<lambda>q s. (Inr (Some q), s))) s = (Inr a, t)"
  shows "\<exists>ev. t = s\<lparr>bill_accounts := charge_accounts c (bill_clock s) (bill_accounts s), account_events := ev\<rparr>"
  using assms
proof (rule bill_whenE)
  assume "AccountQuotaCost c > 0 \<and> quota_account_type (BillAccountType c)"
    "bill_and (incrementUsageBillingAccountQuota (BillAccountID c) (AccountQuotaCost c)) (\<lambda>q s. (Inr (Some q), s)) s = (Inr a, t)"
  then obtain q0 ev where q0: "bill_accounts s (BillAccountID c) = Some q0"
    "t = s\<lparr>bill_accounts := (bill_accounts s)(BillAccountID c \<mapsto> spend_account (bill_clock s) (AccountQuotaCost c) q0), account_events := ev\<rparr>"
    and on: "AccountQuotaCost c > 0 \<and> quota_account_type (BillAccountType c)"
    by (auto simp: incrementUsageBillingAccountQuota_def Let_def elim!: bill_andE split: option.splits)
  have "(bill_accounts s)(BillAccountID c \<mapsto> spend_account (bill_clock s) (AccountQuotaCost c) q0) =
      charge_accounts c (bill_clock s) (bill_accounts s)"
    using q0(1) on by (auto simp: charge_accounts_def fun_eq_iff option.map_ident)
  then show ?thesis using q0(2) by auto
next
  assume "\<not> (AccountQuotaCost c > 0 \<and> quota_account_type (BillAccountType c))" "t = s"
  then show ?thesis by (intro exI [of _ "account_events s"]) (auto simp: charge_accounts_def option.map_ident)
qed

text \<open>The whole request.\<close>

lemma effects_step:
  assumes "applyUsageBillingEffects c s = (Inr r, t)"
  shows "\<exists>ev. t = s\<lparr>bill_subs := charge_subs c (bill_subs s), bill_users := charge_users c (bill_users s),
      bill_keys := charge_limits c (bill_clock s) (charge_keys c (bill_keys s)),
      bill_accounts := charge_accounts c (bill_clock s) (bill_accounts s), account_events := ev\<rparr>"
  using assms unfolding applyUsageBillingEffects_def
  by (auto elim!: bill_andE dest!: sub_step user_step key_step limit_step account_step)

definition row_claim :: "dedup_row \<Rightarrow> string \<times> int" where "row_claim r = (dd_request r, dd_key r)"

definition claim_rows :: "'z billing_db_scheme \<Rightarrow> dedup_row list" where "claim_rows s = dedup s @ dedup_archive s"

definition claimed :: "'z billing_db_scheme \<Rightarrow> string \<Rightarrow> int \<Rightarrow> bool" where
  "claimed s rid k \<longleftrightarrow> (rid, k) \<in> row_claim ` set (claim_rows s)"

lemma no_row: "List.find (claimed_as rid k) rs = None \<longleftrightarrow> (rid, k) \<notin> row_claim ` set rs"
  by (auto simp: find_None_iff claimed_as_def row_claim_def)

lemma row_found: "List.find (claimed_as rid k) rs = Some r \<Longrightarrow> r \<in> set rs \<and> row_claim r = (rid, k)"
  by (induction rs) (auto simp: claimed_as_def row_claim_def split: if_splits)

definition claim_row :: "string \<Rightarrow> int \<Rightarrow> string \<Rightarrow> 'z billing_db_scheme \<Rightarrow> 'z billing_db_scheme" where
  "claim_row rid k fp s = s\<lparr>dedup := dedup s @ [\<lparr>dd_request = rid, dd_key = k, dd_fingerprint = fp, dd_created_at = bill_clock s\<rparr>]\<rparr>"

lemma claim_fresh:
  "\<not> claimed s rid k \<Longrightarrow> claimUsageBillingRequest rid k fp s = (Inr True, claim_row rid k fp s)"
  unfolding claimUsageBillingRequest_def claim_row_def claimed_def claim_rows_def
  by (simp add: image_Un flip: no_row)

lemma request_claim_taken:
  assumes "claimed s rid k"
  shows "\<exists>r t. r \<in> set (claim_rows s) \<and> row_claim r = (rid, k) \<and> claimUsageBillingRequest rid k fp s = (same_fingerprint r fp, t)"
proof (cases "List.find (claimed_as rid k) (dedup s)")
  case (Some r)
  then show ?thesis using row_found [OF Some] by (auto simp: claimUsageBillingRequest_def claim_rows_def)
next
  case None
  then have "List.find (claimed_as rid k) (dedup_archive s) \<noteq> None"
    using assms by (auto simp: claimed_def claim_rows_def no_row)
  then obtain r where r: "List.find (claimed_as rid k) (dedup_archive s) = Some r" by blast
  then show ?thesis using None row_found [OF r] by (auto simp: claimUsageBillingRequest_def claim_rows_def Let_def)
qed

lemma same_fingerprint_not_new: "same_fingerprint r fp \<noteq> Inr True"
  by (simp add: same_fingerprint_def)

lemma claimed_tx_done:
  assumes "claimed_tx rid k fp work s = (Inr (Some a), t)"
  shows "rid \<noteq> '''' \<and> \<not> claimed s rid k \<and> work (claim_row rid k fp s) = (Inr a, t)"
proof (cases "claimed s rid k")
  case True
  then show ?thesis using request_claim_taken [OF True, of fp] assms same_fingerprint_not_new
    by (auto simp: claimed_tx_def split: if_splits sum.splits bool.splits)
next
  case False
  then show ?thesis using assms by (auto simp: claimed_tx_def claim_fresh split: if_splits prod.splits sum.splits)
qed

lemma claimed_tx_fresh:
  "rid \<noteq> '''' \<Longrightarrow> \<not> claimed s rid k \<Longrightarrow> work (claim_row rid k fp s) = (Inr a, t) \<Longrightarrow>
   claimed_tx rid k fp work s = (Inr (Some a), t)"
  by (simp add: claimed_tx_def claim_fresh)

lemma claimed_tx_undone: "claimed_tx rid k fp work s = (r, t) \<Longrightarrow> (\<And>a. r \<noteq> Inr (Some a)) \<Longrightarrow> t = s"
  by (auto simp: claimed_tx_def split: if_splits prod.splits sum.splits bool.splits)

lemma claimed_tx_repeat:
  assumes "rid \<noteq> ''''" "r \<in> set (claim_rows s)" "row_claim r = (rid, k)" "dd_fingerprint r = fp"
    and "distinct (map row_claim (claim_rows s))"
  shows "claimed_tx rid k fp work s = (Inr None, s)"
proof -
  have "claimed s rid k" using assms(2,3) by (force simp: claimed_def)
  then obtain r' t where r': "r' \<in> set (claim_rows s)" "row_claim r' = (rid, k)"
    "claimUsageBillingRequest rid k fp s = (same_fingerprint r' fp, t)" using request_claim_taken by blast
  then have "r' = r" using assms(2,3,5) by (metis distinct_map inj_onD)
  then have "claimUsageBillingRequest rid k fp s = (Inr False, t)" using r'(3) assms(4) by (simp add: same_fingerprint_def)
  then show ?thesis using assms(1) by (simp add: claimed_tx_def)
qed

text \<open>A transaction under some weather: nothing happened and nothing is in the ledger, or it was done and is.\<close>

lemma tx_cases:
  obtains "snd (under_weather w (claimed_tx rid k fp work) s) = s" "logged w (fst (claimed_tx rid k fp work s)) f = []"
  | a t where "\<not> claimed s rid k" "work (claim_row rid k fp s) = (Inr a, t)"
      "snd (under_weather w (claimed_tx rid k fp work) s) = t" "logged w (fst (claimed_tx rid k fp work s)) f = [f a]"
proof (cases "\<exists>a t. claimed_tx rid k fp work s = (Inr (Some a), t) \<and> (\<forall>e. w \<noteq> Refused e)")
  case True
  then obtain a t where tx: "claimed_tx rid k fp work s = (Inr (Some a), t)" and w: "\<And>e. w \<noteq> Refused e" by blast
  show ?thesis
  proof (rule that(2))
    show "\<not> claimed s rid k" "work (claim_row rid k fp s) = (Inr a, t)" using claimed_tx_done [OF tx] by auto
    show "snd (under_weather w (claimed_tx rid k fp work) s) = t" using tx w by (cases w) (auto simp: under_weather_def)
    show "logged w (fst (claimed_tx rid k fp work s)) f = [f a]" using tx w by (cases w) (auto simp: logged_def)
  qed
next
  case False
  obtain r t where tx: "claimed_tx rid k fp work s = (r, t)" by (cases "claimed_tx rid k fp work s")
  show ?thesis
  proof (rule that(1))
    show "snd (under_weather w (claimed_tx rid k fp work) s) = s"
      using False tx claimed_tx_undone [OF tx] by (cases w) (auto simp: under_weather_def split: sum.splits option.splits)
    show "logged w (fst (claimed_tx rid k fp work s)) f = []"
      using False tx by (cases w) (auto simp: logged_def split: sum.splits option.splits)
  qed
qed

subsection \<open>Every claim is kept, every amount is in the books\<close>

primrec entry_fingerprint :: "entry \<Rightarrow> string" where
  "entry_fingerprint (Charged c) = BillFingerprint c"
| "entry_fingerprint (Reserved c) = HoldFingerprint c"
| "entry_fingerprint (Captured c) = HoldFingerprint c"
| "entry_fingerprint (Released c moved) = HoldFingerprint c"
| "entry_fingerprint (Deposited i a) = ''''"

definition entry_claims :: "entry list \<Rightarrow> (string \<times> int) list" where "entry_claims l = List.map_filter entry_claim l"

lemma entry_claims_append [simp]:
  "entry_claims [] = []" "entry_claims (l @ [e]) = entry_claims l @ (case entry_claim e of None \<Rightarrow> [] | Some x \<Rightarrow> [x])"
  by (simp_all add: entry_claims_def List.map_filter_def split: option.splits)

definition claims_kept :: "billing_db \<Rightarrow> billing_db \<Rightarrow> entry list \<Rightarrow> bool" where
  "claims_kept initial s l \<longleftrightarrow>
     distinct (map row_claim (claim_rows s)) \<and>
     set (map row_claim (claim_rows initial) @ entry_claims l) = set (map row_claim (claim_rows s)) \<and>
     distinct (map row_claim (claim_rows initial) @ entry_claims l) \<and>
     (\<forall>e\<in>set l. \<forall>x. entry_claim e = Some x \<longrightarrow> x \<noteq> ('''', snd x) \<and>
        (\<exists>r\<in>set (claim_rows s). row_claim r = x \<and> dd_fingerprint r = entry_fingerprint e))"

definition books :: "billing_db \<Rightarrow> billing_db \<Rightarrow> entry list \<Rightarrow> bool" where
  "books initial s l \<longleftrightarrow>
     (\<forall>i. map_option (\<lambda>u. (bal u, frozen u)) (bill_users s i) =
        map_option (\<lambda>u. (bal u + booked (to_balance i) l, frozen u + booked (to_frozen i) l)) (bill_users initial i)) \<and>
     (\<forall>i. map_option (\<lambda>r. (key_quota r, key_quota_used r)) (bill_keys s i) =
        map_option (\<lambda>r. (key_quota r, key_quota_used r + booked (to_key i) l)) (bill_keys initial i)) \<and>
     (\<forall>i. map_option (\<lambda>r. (sub_daily r, sub_weekly r, sub_monthly r)) (bill_subs s i) =
        map_option (\<lambda>r. (sub_daily r + booked (to_sub i) l, sub_weekly r + booked (to_sub i) l, sub_monthly r + booked (to_sub i) l)) (bill_subs initial i)) \<and>
     (\<forall>i. map_option quota_used (bill_accounts s i) = map_option (\<lambda>q. quota_used q + booked (to_account i) l) (bill_accounts initial i))"

lemma claim_rows_claim_row:
  "set (claim_rows (claim_row rid k fp s)) = insert \<lparr>dd_request = rid, dd_key = k, dd_fingerprint = fp, dd_created_at = bill_clock s\<rparr> (set (claim_rows s))"
  "mset (claim_rows (claim_row rid k fp s)) = add_mset \<lparr>dd_request = rid, dd_key = k, dd_fingerprint = fp, dd_created_at = bill_clock s\<rparr> (mset (claim_rows s))"
  by (simp_all add: claim_rows_def claim_row_def)

lemma distinct_perm: "mset xs = mset ys \<Longrightarrow> distinct (map f xs) \<longleftrightarrow> distinct (map f ys)"
  by (metis distinct_count_atmost_1 mset_map set_mset_mset)

lemma claims_kept_claim:
  assumes k: "claims_kept initial s l" and fresh: "\<not> claimed s rid k" "rid \<noteq> ''''"
    and t: "claim_rows t = claim_rows (claim_row rid k fp s)" and e: "entry_claim e = Some (rid, k)" "entry_fingerprint e = fp"
  shows "claims_kept initial t (l @ [e])"
proof -
  let ?r = "\<lparr>dd_request = rid, dd_key = k, dd_fingerprint = fp, dd_created_at = bill_clock s\<rparr>"
  have r: "row_claim ?r = (rid, k)" by (simp add: row_claim_def)
  have set: "set (claim_rows t) = insert ?r (set (claim_rows s))" unfolding t claim_rows_claim_row ..
  have new: "(rid, k) \<notin> set (map row_claim (claim_rows s))" using fresh by (simp add: claimed_def)
  have "mset (claim_rows t) = mset (?r # claim_rows s)" unfolding t claim_rows_claim_row by simp
  from distinct_perm [OF this, of row_claim] have "distinct (map row_claim (claim_rows t))"
    using k new by (simp add: claims_kept_def r)
  moreover have "set (map row_claim (claim_rows initial) @ entry_claims (l @ [e])) = set (map row_claim (claim_rows t))"
    using k by (simp add: claims_kept_def set e r)
  moreover have "distinct (map row_claim (claim_rows initial) @ entry_claims (l @ [e]))"
    using k new unfolding claims_kept_def by (auto simp: e)
  moreover have "\<forall>e'\<in>set (l @ [e]). \<forall>x. entry_claim e' = Some x \<longrightarrow> x \<noteq> ('''', snd x) \<and>
      (\<exists>r\<in>set (claim_rows t). row_claim r = x \<and> dd_fingerprint r = entry_fingerprint e')"
    using k e r fresh unfolding claims_kept_def set by auto
  ultimately show ?thesis unfolding claims_kept_def by blast
qed

lemma claims_kept_same:
  assumes "claims_kept initial s l" "mset (claim_rows t) = mset (claim_rows s)" "entry_claims l' = []" "\<forall>e\<in>set l'. entry_claim e = None"
  shows "claims_kept initial t (l @ l')"
proof -
  have "set (claim_rows t) = set (claim_rows s)" using assms(2) mset_eq_setD by blast
  moreover have "entry_claims (l @ l') = entry_claims l" using assms(3) by (simp add: entry_claims_def List.map_filter_def)
  ultimately show ?thesis using assms(1,4) distinct_perm [OF assms(2), of row_claim] unfolding claims_kept_def by auto
qed

lemma archive_mset:
  assumes "distinct (map row_claim (claim_rows s))"
  shows "mset (claim_rows (archive_claims cutoff pick s)) = mset (claim_rows s)"
proof -
  let ?v = "\<lambda>r. dd_created_at r < cutoff \<and> pick r"
  have "List.find (claimed_as (dd_request r) (dd_key r)) (dedup_archive s) = None" if "r \<in> set (dedup s)" for r
    using assms that by (auto simp: no_row claim_rows_def row_claim_def)
  then have "filter (\<lambda>r. ?v r \<and> List.find (claimed_as (dd_request r) (dd_key r)) (dedup_archive s) = None) (dedup s) = filter ?v (dedup s)"
    by (auto intro: filter_cong)
  moreover have "mset (filter (\<lambda>r. \<not> ?v r) xs) + mset (filter ?v xs) = mset xs" for xs
    by (induction xs) simp_all
  ultimately show ?thesis
    by (simp add: archive_claims_def Let_def claim_rows_def del: mset_filter)
qed

lemma spend_key_simps [simp]:
  "key_quota (spend_key a r) = key_quota r" "key_quota_used (spend_key a r) = key_quota_used r + a"
  "key_quota (spend_windows now a r) = key_quota r" "key_quota_used (spend_windows now a r) = key_quota_used r"
  "key_status (spend_windows now a r) = key_status r" "quota_used (spend_account now a q) = quota_used q + a"
  by (simp_all add: spend_key_def spend_windows_def spend_account_def)

lemma books_charge_tables:
  "map_option (\<lambda>u. (bal u, frozen u)) (us i) = map_option (\<lambda>u. (bal u + a, frozen u + b)) (us0 i) \<Longrightarrow>
   map_option (\<lambda>u. (bal u, frozen u)) (charge_users c us i) = map_option (\<lambda>u. (bal u + (a + to_balance i (Charged c)), frozen u + b)) (us0 i)"
  "map_option (\<lambda>r. (key_quota r, key_quota_used r)) (ks i) = map_option (\<lambda>r. (key_quota r, key_quota_used r + a)) (ks0 i) \<Longrightarrow>
   map_option (\<lambda>r. (key_quota r, key_quota_used r)) (charge_limits c now (charge_keys c ks) i) =
   map_option (\<lambda>r. (key_quota r, key_quota_used r + (a + to_key i (Charged c)))) (ks0 i)"
  "map_option (\<lambda>r. (sub_daily r, sub_weekly r, sub_monthly r)) (ss i) =
     map_option (\<lambda>r. (sub_daily r + a, sub_weekly r + a, sub_monthly r + a)) (ss0 i) \<Longrightarrow>
   map_option (\<lambda>r. (sub_daily r, sub_weekly r, sub_monthly r)) (charge_subs c ss i) =
     map_option (\<lambda>r. (sub_daily r + (a + to_sub i (Charged c)), sub_weekly r + (a + to_sub i (Charged c)), sub_monthly r + (a + to_sub i (Charged c)))) (ss0 i)"
  "map_option quota_used (qs i) = map_option (\<lambda>q. quota_used q + a) (qs0 i) \<Longrightarrow>
   map_option quota_used (charge_accounts c now qs i) = map_option (\<lambda>q. quota_used q + (a + to_account i (Charged c))) (qs0 i)"
  subgoal by (cases "us i"; cases "us0 i") (auto simp: charge_users_def)
  subgoal by (cases "ks i"; cases "ks0 i") (auto simp: charge_keys_def charge_limits_def)
  subgoal by (cases "ss i"; cases "ss0 i") (auto simp: charge_subs_def)
  subgoal by (cases "qs i"; cases "qs0 i") (auto simp: charge_accounts_def)
  done

lemma booksD:
  assumes "books initial s l"
  shows "map_option (\<lambda>u. (bal u, frozen u)) (bill_users s i) =
        map_option (\<lambda>u. (bal u + booked (to_balance i) l, frozen u + booked (to_frozen i) l)) (bill_users initial i)"
    "map_option (\<lambda>r. (key_quota r, key_quota_used r)) (bill_keys s i) =
        map_option (\<lambda>r. (key_quota r, key_quota_used r + booked (to_key i) l)) (bill_keys initial i)"
    "map_option (\<lambda>r. (sub_daily r, sub_weekly r, sub_monthly r)) (bill_subs s i) =
        map_option (\<lambda>r. (sub_daily r + booked (to_sub i) l, sub_weekly r + booked (to_sub i) l, sub_monthly r + booked (to_sub i) l)) (bill_subs initial i)"
    "map_option quota_used (bill_accounts s i) = map_option (\<lambda>q. quota_used q + booked (to_account i) l) (bill_accounts initial i)"
  using assms unfolding books_def by blast+

lemma books_charge:
  assumes "books initial s l" and t: "applyUsageBillingEffects c (claim_row rid k fp s) = (Inr r, t)"
  shows "books initial t (l @ [Charged c]) \<and> claim_rows t = claim_rows (claim_row rid k fp s) \<and> bill_clock t = bill_clock s"
proof -
  obtain ev where eq: "t = (claim_row rid k fp s)\<lparr>bill_subs := charge_subs c (bill_subs s), bill_users := charge_users c (bill_users s),
      bill_keys := charge_limits c (bill_clock s) (charge_keys c (bill_keys s)),
      bill_accounts := charge_accounts c (bill_clock s) (bill_accounts s), account_events := ev\<rparr>"
    using effects_step [OF t] by (auto simp: claim_row_def)
  have frozen: "to_frozen i (Charged c) = 0" for i by simp
  have "books initial t (l @ [Charged c])"
    unfolding books_def eq
    using books_charge_tables(1) [where us = "bill_users s" and ?us0.0 = "bill_users initial" and c = c, OF booksD(1) [OF assms(1)]]
      books_charge_tables(2) [where ks = "bill_keys s" and ?ks0.0 = "bill_keys initial" and c = c and now = "bill_clock s", OF booksD(2) [OF assms(1)]]
      books_charge_tables(3) [where ss = "bill_subs s" and ?ss0.0 = "bill_subs initial" and c = c, OF booksD(3) [OF assms(1)]]
      books_charge_tables(4) [where qs = "bill_accounts s" and ?qs0.0 = "bill_accounts initial" and c = c and now = "bill_clock s", OF booksD(4) [OF assms(1)]]
    by (simp add: claim_row_def)
  then show ?thesis by (simp add: eq claim_row_def claim_rows_def)
qed

lemma books_users:
  assumes "books initial s l"
    and "\<And>i. map_option (\<lambda>u. (bal u, frozen u)) (bill_users t i) =
           map_option (\<lambda>u. (bal u + to_balance i e, frozen u + to_frozen i e)) (bill_users s i)"
    and "bill_keys t = bill_keys s" "bill_subs t = bill_subs s" "bill_accounts t = bill_accounts s"
    and "\<And>i. to_key i e = 0 \<and> to_sub i e = 0 \<and> to_account i e = 0"
  shows "books initial t (l @ [e])"
proof -
  have "map_option (\<lambda>u. (bal u, frozen u)) (bill_users t i) =
      map_option (\<lambda>u. (bal u + booked (to_balance i) (l @ [e]), frozen u + booked (to_frozen i) (l @ [e]))) (bill_users initial i)" for i
    using assms(2) [of i] booksD(1) [OF assms(1), of i]
    by (cases "bill_users t i"; cases "bill_users s i"; cases "bill_users initial i") auto
  then show ?thesis using booksD [OF assms(1)] assms(3-6) unfolding books_def by simp
qed

lemma update_money_users:
  assumes "update_money j cond f missed s = (Inr r, t)"
  obtains u where "bill_users s j = Some u" "cond u" "t = set_user j (f u) s"
  using assms by (auto simp: update_money_def split: option.splits if_splits)

lemma capture_refund: "(b::usd) + (if h > a then h - a else 0) - (if a > h then a - h else 0) = b + (h - a)"
  by simp

text \<open>The work of the three transactions, by what they do to the users.\<close>

lemma hold_work:
  assumes "work = reserveUsageBillingBatchImageBalance c \<and> e = Reserved c \<or> work = captureUsageBillingBatchImageBalance c \<and> e = Captured c \<or>
      work = releaseUsageBillingBatchImageBalance c \<and> e = Released c (r \<noteq> None)"
    and w: "work s = (Inr r, t)"
  shows "t = s \<and> (\<forall>i. to_balance i e = 0 \<and> to_frozen i e = 0) \<or>
    (\<exists>u. bill_users s (HoldUserID c) = Some u \<and>
       t = set_user (HoldUserID c) (u\<lparr>bal := bal u + to_balance (HoldUserID c) e, frozen := frozen u + to_frozen (HoldUserID c) e\<rparr>) s \<and>
       (to_frozen (HoldUserID c) e \<ge> 0 \<or> frozen u + to_frozen (HoldUserID c) e \<ge> 0) \<and>
       (\<forall>i. i \<noteq> HoldUserID c \<longrightarrow> to_balance i e = 0 \<and> to_frozen i e = 0))"
  using assms(1)
proof (elim disjE conjE)
  assume e: "work = reserveUsageBillingBatchImageBalance c" "e = Reserved c"
  show ?thesis
  proof (cases "HoldAmount c \<le> 0")
    case True
    then show ?thesis using w by (auto simp: e reserveUsageBillingBatchImageBalance_def)
  next
    case False
    then show ?thesis using w
      by (auto simp: e reserveUsageBillingBatchImageBalance_def set_user_def elim!: update_money_users)
  qed
next
  assume e: "work = captureUsageBillingBatchImageBalance c" "e = Captured c"
  show ?thesis
  proof (cases "HoldAmount c \<le> 0 \<and> ActualAmount c \<le> 0")
    case True
    then show ?thesis using w by (auto simp: e captureUsageBillingBatchImageBalance_def)
  next
    case False
    then show ?thesis using w False
      by (auto simp: capture_refund e captureUsageBillingBatchImageBalance_def set_user_def elim!: update_money_users split: if_split_asm)
  qed
next
  assume e: "work = releaseUsageBillingBatchImageBalance c" "e = Released c (r \<noteq> None)"
  show ?thesis
  proof (cases r)
    case None
    then have "t = s" using w by (auto simp: e releaseUsageBillingBatchImageBalance_def update_money_def split: if_splits option.splits)
    then show ?thesis by (simp add: e None)
  next
    case (Some m)
    then show ?thesis using w
      by (auto simp: e releaseUsageBillingBatchImageBalance_def set_user_def elim!: update_money_users split: if_splits)
  qed
qed

definition frozen_fine :: "'z billing_db_scheme \<Rightarrow> bool" where
  "frozen_fine s \<longleftrightarrow> (\<forall>i u. bill_users s i = Some u \<longrightarrow> 0 \<le> frozen u)"

lemma claim_row_tables [simp]:
  "bill_users (claim_row rid k fp s) = bill_users s" "bill_keys (claim_row rid k fp s) = bill_keys s"
  "bill_subs (claim_row rid k fp s) = bill_subs s" "bill_accounts (claim_row rid k fp s) = bill_accounts s"
  by (simp_all add: claim_row_def)

lemma books_claim_row [simp]: "books initial (claim_row rid k fp s) l = books initial s l"
  by (simp add: books_def)

lemma set_user_simps [simp]:
  "claim_rows (set_user i u s) = claim_rows s" "bill_keys (set_user i u s) = bill_keys s" "bill_subs (set_user i u s) = bill_subs s"
  "bill_accounts (set_user i u s) = bill_accounts s" "bill_users (set_user i u s) = (bill_users s)(i \<mapsto> u)"
  by (simp_all add: set_user_def claim_rows_def)

lemma hold_books:
  assumes e: "work = reserveUsageBillingBatchImageBalance c \<and> e = Reserved c \<or> work = captureUsageBillingBatchImageBalance c \<and> e = Captured c \<or>
      work = releaseUsageBillingBatchImageBalance c \<and> e = Released c (r \<noteq> None)"
    and w: "work (claim_row rid k fp s) = (Inr r, t)" and b: "books initial s l"
  shows "books initial t (l @ [e]) \<and> claim_rows t = claim_rows (claim_row rid k fp s) \<and> bill_keys t = bill_keys s \<and>
    (frozen_fine s \<longrightarrow> frozen_fine t)"
proof -
  have none: "to_key i e = 0 \<and> to_sub i e = 0 \<and> to_account i e = 0" for i using e by auto
  from hold_work [OF e w] show ?thesis
  proof
    assume "t = claim_row rid k fp s \<and> (\<forall>i. to_balance i e = 0 \<and> to_frozen i e = 0)"
    then have t: "t = claim_row rid k fp s" and z: "\<forall>i. to_balance i e = 0 \<and> to_frozen i e = 0" by auto
    have "books initial t (l @ [e])"
      by (rule books_users [OF b _ _ _ _ none]) (simp_all add: t z option.map_id)
    then show ?thesis by (simp add: t frozen_fine_def)
  next
    assume "\<exists>u. bill_users (claim_row rid k fp s) (HoldUserID c) = Some u \<and>
       t = set_user (HoldUserID c) (u\<lparr>bal := bal u + to_balance (HoldUserID c) e, frozen := frozen u + to_frozen (HoldUserID c) e\<rparr>) (claim_row rid k fp s) \<and>
       (to_frozen (HoldUserID c) e \<ge> 0 \<or> frozen u + to_frozen (HoldUserID c) e \<ge> 0) \<and>
       (\<forall>i. i \<noteq> HoldUserID c \<longrightarrow> to_balance i e = 0 \<and> to_frozen i e = 0)"
    then obtain u where u: "bill_users (claim_row rid k fp s) (HoldUserID c) = Some u"
      and t: "t = set_user (HoldUserID c) (u\<lparr>bal := bal u + to_balance (HoldUserID c) e, frozen := frozen u + to_frozen (HoldUserID c) e\<rparr>) (claim_row rid k fp s)"
      and f: "to_frozen (HoldUserID c) e \<ge> 0 \<or> frozen u + to_frozen (HoldUserID c) e \<ge> 0"
      and z: "\<forall>i. i \<noteq> HoldUserID c \<longrightarrow> to_balance i e = 0 \<and> to_frozen i e = 0" by blast
    have "books initial t (l @ [e])"
      by (rule books_users [OF b _ _ _ _ none]) (use u z in \<open>auto simp: t\<close>)
    moreover have "frozen_fine t" if "frozen_fine s"
      using that u f by (auto simp: t frozen_fine_def)
    ultimately show ?thesis by (simp add: t)
  qed
qed

definition bill_inv :: "billing_db \<Rightarrow> billing_db \<Rightarrow> entry list \<Rightarrow> bool" where
  "bill_inv initial s l \<longleftrightarrow> claims_kept initial s l \<and> books initial s l"

lemma hold_inv:
  assumes e: "\<And>r. work = reserveUsageBillingBatchImageBalance c \<and> f r = Reserved c \<or> work = captureUsageBillingBatchImageBalance c \<and> f r = Captured c \<or>
      work = releaseUsageBillingBatchImageBalance c \<and> f r = Released c (r \<noteq> None)"
    and inv: "bill_inv initial s l" and rid: "HoldRequestID c \<noteq> ''''"
  shows "bill_inv initial (snd (under_weather w (claimed_tx (HoldRequestID c) (HoldAPIKeyID c) (HoldFingerprint c) work) s))
     (l @ logged w (fst (claimed_tx (HoldRequestID c) (HoldAPIKeyID c) (HoldFingerprint c) work s)) f)"
proof (rule tx_cases [of w "HoldRequestID c" "HoldAPIKeyID c" "HoldFingerprint c" work s f])
  fix a t
  assume a: "\<not> claimed s (HoldRequestID c) (HoldAPIKeyID c)"
    "work (claim_row (HoldRequestID c) (HoldAPIKeyID c) (HoldFingerprint c) s) = (Inr a, t)"
    "snd (under_weather w (claimed_tx (HoldRequestID c) (HoldAPIKeyID c) (HoldFingerprint c) work) s) = t"
    "logged w (fst (claimed_tx (HoldRequestID c) (HoldAPIKeyID c) (HoldFingerprint c) work s)) f = [f a]"
  have b: "books initial t (l @ [f a])" "claim_rows t = claim_rows (claim_row (HoldRequestID c) (HoldAPIKeyID c) (HoldFingerprint c) s)"
    using hold_books [OF e [of a] a(2)] inv by (auto simp: bill_inv_def)
  have "entry_claim (f a) = Some (HoldRequestID c, HoldAPIKeyID c)" "entry_fingerprint (f a) = HoldFingerprint c"
    using e [of a] by auto
  then have "claims_kept initial t (l @ [f a])"
    using claims_kept_claim [OF _ a(1) rid b(2)] inv by (simp add: bill_inv_def)
  then show ?thesis using b(1) a(3,4) by (simp add: bill_inv_def)
qed (use inv in simp)

lemma claimed_tx_blank: "claimed_tx '''' k fp work s = (Inl ErrUsageBillingRequestIDRequired, s)"
  by (simp add: claimed_tx_def)

lemma bill_inv_reach:
  assumes "bill_reach H initial S" "distinct (map row_claim (claim_rows initial))"
  shows "bill_inv initial (fst S) (snd S)"
  using assms(1)
proof induction
  case br_init
  then show ?case using assms(2) by (simp add: bill_inv_def claims_kept_def books_def option.map_id entry_claims_def List.map_filter_def)
next
  case (br_charge s l w c)
  let ?c = "NormalizeUsageBilling H c"
  show ?case
  proof (cases "BillRequestID ?c = ''''")
    case True
    then show ?thesis using br_charge.IH by (cases w) (simp_all add: Apply_def Let_def claimed_tx_blank under_weather_def logged_def)
  next
    case False
    show ?thesis unfolding Apply_def Let_def fst_conv snd_conv
    proof (rule tx_cases [of w "BillRequestID ?c" "BillAPIKeyID ?c" "BillFingerprint ?c" "applyUsageBillingEffects ?c" s "\<lambda>_. Charged ?c"])
      fix a t
      assume a: "\<not> claimed s (BillRequestID ?c) (BillAPIKeyID ?c)"
        "applyUsageBillingEffects ?c (claim_row (BillRequestID ?c) (BillAPIKeyID ?c) (BillFingerprint ?c) s) = (Inr a, t)"
        "snd (under_weather w (claimed_tx (BillRequestID ?c) (BillAPIKeyID ?c) (BillFingerprint ?c) (applyUsageBillingEffects ?c)) s) = t"
        "logged w (fst (claimed_tx (BillRequestID ?c) (BillAPIKeyID ?c) (BillFingerprint ?c) (applyUsageBillingEffects ?c) s)) (\<lambda>_. Charged ?c) = [Charged ?c]"
      have b: "books initial t (l @ [Charged ?c])" "claim_rows t = claim_rows (claim_row (BillRequestID ?c) (BillAPIKeyID ?c) (BillFingerprint ?c) s)"
        using books_charge [OF _ a(2)] br_charge.IH by (auto simp: bill_inv_def)
      have "claims_kept initial t (l @ [Charged ?c])"
        using claims_kept_claim [OF _ a(1) False b(2), where e = "Charged ?c"] br_charge.IH by (simp add: bill_inv_def)
      then show "bill_inv initial (snd (under_weather w (claimed_tx (BillRequestID ?c) (BillAPIKeyID ?c) (BillFingerprint ?c) (applyUsageBillingEffects ?c)) s))
          (l @ logged w (fst (claimed_tx (BillRequestID ?c) (BillAPIKeyID ?c) (BillFingerprint ?c) (applyUsageBillingEffects ?c) s)) (\<lambda>_. Charged ?c))"
        using b(1) a(3,4) by (simp add: bill_inv_def)
    qed (use br_charge.IH in simp)
  qed
next
  case (br_reserve s l w h)
  then show ?case
    by (cases "HoldRequestID (NormalizeHold H h) = ''''"; cases w)
      (use hold_inv [where f = "\<lambda>_. Reserved (NormalizeHold H h)" and work = "reserveUsageBillingBatchImageBalance (NormalizeHold H h)" and w = w] in
        \<open>simp_all add: ReserveBatchImageBalance_def applyBatchImageBalanceHold_def Let_def claimed_tx_blank under_weather_def logged_def\<close>)
next
  case (br_capture s l w h)
  then show ?case
    by (cases "HoldRequestID (NormalizeHold H h) = ''''"; cases w)
      (use hold_inv [where f = "\<lambda>_. Captured (NormalizeHold H h)" and work = "captureUsageBillingBatchImageBalance (NormalizeHold H h)" and w = w] in
        \<open>simp_all add: CaptureBatchImageBalance_def applyBatchImageBalanceHold_def Let_def claimed_tx_blank under_weather_def logged_def\<close>)
next
  case (br_release s l w h)
  then show ?case
    by (cases "HoldRequestID (NormalizeHold H h) = ''''"; cases w)
      (use hold_inv [where f = "\<lambda>r. Released (NormalizeHold H h) (r \<noteq> None)" and work = "releaseUsageBillingBatchImageBalance (NormalizeHold H h)" and w = w] in
        \<open>simp_all add: ReleaseBatchImageBalance_def applyBatchImageBalanceHold_def Let_def claimed_tx_blank under_weather_def logged_def\<close>)
next
  case (br_archive s l cutoff pick)
  have "claims_kept initial (archive_claims cutoff pick s) (l @ [])"
    by (rule claims_kept_same [OF _ archive_mset])
      (use br_archive.IH in \<open>simp_all add: bill_inv_def claims_kept_def [of initial s l]\<close>)
  moreover have "books initial (archive_claims cutoff pick s) l"
    using br_archive.IH by (simp add: bill_inv_def books_def archive_claims_def Let_def)
  ultimately show ?case by (simp add: bill_inv_def)
next
  case (br_deposit s l i u a)
  have "claims_kept initial (set_user i (u\<lparr>bal := bal u + a\<rparr>) s) (l @ [Deposited i a])"
    using br_deposit.IH by (intro claims_kept_same) (auto simp: bill_inv_def entry_claims_def List.map_filter_def)
  moreover have "books initial (set_user i (u\<lparr>bal := bal u + a\<rparr>) s) (l @ [Deposited i a])"
    using br_deposit by (intro books_users) (auto simp: bill_inv_def)
  ultimately show ?case by (simp add: bill_inv_def)
next
  case (br_time s l now)
  then show ?case by (simp add: bill_inv_def claims_kept_def books_def claim_rows_def)
qed

text \<open>The three transactions on any extension of the tables.\<close>

lemma hold_frozen:
  "reserveUsageBillingBatchImageBalance c s = (Inr r, t) \<Longrightarrow> frozen_fine s \<Longrightarrow> frozen_fine t"
  "captureUsageBillingBatchImageBalance c s = (Inr r, t) \<Longrightarrow> frozen_fine s \<Longrightarrow> frozen_fine t"
  "releaseUsageBillingBatchImageBalance c s = (Inr r, t) \<Longrightarrow> frozen_fine s \<Longrightarrow> frozen_fine t"
  by (auto simp: reserveUsageBillingBatchImageBalance_def captureUsageBillingBatchImageBalance_def releaseUsageBillingBatchImageBalance_def
      update_money_def frozen_fine_def split: if_splits option.splits)

lemma hold_keys:
  "reserveUsageBillingBatchImageBalance c s = (Inr r, t) \<Longrightarrow> bill_keys t = bill_keys s"
  "captureUsageBillingBatchImageBalance c s = (Inr r, t) \<Longrightarrow> bill_keys t = bill_keys s"
  "releaseUsageBillingBatchImageBalance c s = (Inr r, t) \<Longrightarrow> bill_keys t = bill_keys s"
  by (auto simp: reserveUsageBillingBatchImageBalance_def captureUsageBillingBatchImageBalance_def releaseUsageBillingBatchImageBalance_def
      update_money_def split: if_splits option.splits)

lemma frozen_claim_row [simp]: "frozen_fine (claim_row rid k fp s) = frozen_fine s"
  by (simp add: frozen_fine_def)

text \<open>What every transaction keeps, a call keeps under any weather.\<close>

lemma tx_keeps:
  assumes "P s" "\<And>a t. work (claim_row rid k fp s) = (Inr a, t) \<Longrightarrow> P t"
  shows "P (snd (under_weather w (claimed_tx rid k fp work) s))"
  by (rule tx_cases [of w rid k fp work s "\<lambda>_. Deposited 0 0"]) (use assms in auto)

lemma keeps_Apply:
  assumes "P s" "\<And>d rid k fp r t. applyUsageBillingEffects d (claim_row rid k fp s) = (Inr r, t) \<Longrightarrow> P t"
  shows "P (snd (under_weather w (Apply H c) s))"
  unfolding Apply_def Let_def by (rule tx_keeps [where P = P], rule assms(1), erule assms(2))

lemma keeps_hold:
  assumes "P s" "\<And>d rid k fp r t. reserveUsageBillingBatchImageBalance d (claim_row rid k fp s) = (Inr r, t) \<Longrightarrow> P t"
    "\<And>d rid k fp r t. captureUsageBillingBatchImageBalance d (claim_row rid k fp s) = (Inr r, t) \<Longrightarrow> P t"
    "\<And>d rid k fp r t. releaseUsageBillingBatchImageBalance d (claim_row rid k fp s) = (Inr r, t) \<Longrightarrow> P t"
  shows "P (snd (under_weather w (ReserveBatchImageBalance H c) s))" "P (snd (under_weather w (CaptureBatchImageBalance H c) s))"
    "P (snd (under_weather w (ReleaseBatchImageBalance H c) s))"
  unfolding ReserveBatchImageBalance_def CaptureBatchImageBalance_def ReleaseBatchImageBalance_def applyBatchImageBalanceHold_def Let_def
  subgoal by (rule tx_keeps [where P = P], rule assms(1), erule assms(2))
  subgoal by (rule tx_keeps [where P = P], rule assms(1), erule assms(3))
  subgoal by (rule tx_keeps [where P = P], rule assms(1), erule assms(4))
  done

lemma repeat_noop:
  assumes "claims_kept initial s l" "Charged (NormalizeUsageBilling H c) \<in> set l"
  shows "Apply H c s = (Inr None, s)"
proof -
  let ?c = "NormalizeUsageBilling H c"
  have "\<forall>x. entry_claim (Charged ?c) = Some x \<longrightarrow> x \<noteq> ('''', snd x) \<and>
      (\<exists>r\<in>set (claim_rows s). row_claim r = x \<and> dd_fingerprint r = entry_fingerprint (Charged ?c))"
    using assms unfolding claims_kept_def by blast
  then obtain r where r: "BillRequestID ?c \<noteq> ''''" "r \<in> set (claim_rows s)" "row_claim r = (BillRequestID ?c, BillAPIKeyID ?c)"
    "dd_fingerprint r = BillFingerprint ?c" by auto
  show ?thesis
    unfolding Apply_def Let_def by (rule claimed_tx_repeat [OF r]) (use assms(1) in \<open>simp add: claims_kept_def\<close>)
qed

lemma charge_frozen: "applyUsageBillingEffects d (claim_row rid k fp s) = (Inr r, t) \<Longrightarrow> frozen_fine s \<Longrightarrow> frozen_fine t"
  by (drule effects_step) (auto simp: frozen_fine_def charge_users_def)

lemma frozen_reach:
  assumes "bill_reach H initial S" "frozen_fine initial"
  shows "frozen_fine (fst S)"
  using assms(1)
proof induction
  case (br_charge s l w c)
  show ?case unfolding fst_conv by (rule keeps_Apply) (use br_charge.IH in \<open>auto dest: charge_frozen\<close>)
next
  case (br_reserve s l w h)
  show ?case unfolding fst_conv by (rule keeps_hold) (use br_reserve.IH in \<open>auto dest: hold_frozen\<close>)
next
  case (br_capture s l w h)
  show ?case unfolding fst_conv by (rule keeps_hold) (use br_capture.IH in \<open>auto dest: hold_frozen\<close>)
next
  case (br_release s l w h)
  show ?case unfolding fst_conv by (rule keeps_hold) (use br_release.IH in \<open>auto dest: hold_frozen\<close>)
qed (use assms(2) in \<open>auto simp: frozen_fine_def archive_claims_def Let_def split: if_splits\<close>)

text \<open>An active key with a quota has some of it left.\<close>

definition active_keys_fine :: "'z billing_db_scheme \<Rightarrow> bool" where
  "active_keys_fine s \<longleftrightarrow>
     (\<forall>i r. bill_keys s i = Some r \<longrightarrow> key_status r = StatusAPIKeyActive \<longrightarrow> key_quota r > 0 \<longrightarrow> key_quota_used r < key_quota r)"

lemma spend_key_fine:
  "(key_status r = StatusAPIKeyActive \<longrightarrow> key_quota r > 0 \<longrightarrow> key_quota_used r < key_quota r) \<Longrightarrow>
   key_status (spend_key a r) = StatusAPIKeyActive \<longrightarrow> key_quota r > 0 \<longrightarrow> key_quota_used r + a < key_quota r"
  by (auto simp: spend_key_def crosses_quota_def StatusAPIKeyActive_def StatusAPIKeyQuotaExhausted_def)

lemma active_charge:
  assumes "applyUsageBillingEffects d (claim_row rid k fp s) = (Inr r, t)" "active_keys_fine s"
  shows "active_keys_fine t"
  using effects_step [OF assms(1)] assms(2) spend_key_fine
  by (auto simp: active_keys_fine_def charge_limits_def charge_keys_def split: if_splits)

lemma active_reach:
  assumes "bill_reach H initial S" "active_keys_fine initial"
  shows "active_keys_fine (fst S)"
  using assms(1)
proof induction
  case (br_charge s l w c)
  show ?case unfolding fst_conv by (rule keeps_Apply) (use br_charge.IH in \<open>auto dest: active_charge\<close>)
next
  case (br_reserve s l w h)
  show ?case unfolding fst_conv by (rule keeps_hold) (use br_reserve.IH in \<open>auto simp: active_keys_fine_def dest: hold_keys\<close>)
next
  case (br_capture s l w h)
  show ?case unfolding fst_conv by (rule keeps_hold) (use br_capture.IH in \<open>auto simp: active_keys_fine_def dest: hold_keys\<close>)
next
  case (br_release s l w h)
  show ?case unfolding fst_conv by (rule keeps_hold) (use br_release.IH in \<open>auto simp: active_keys_fine_def dest: hold_keys\<close>)
qed (use assms(2) in \<open>auto simp: active_keys_fine_def archive_claims_def Let_def\<close>)

subsection \<open>Amounts\<close>

lemma quantize_zero [simp]: "QuantizeUsageBillingAmount 0 = 0"
  by (simp add: QuantizeUsageBillingAmount_def)

lemma quantize_grid: "\<exists>n::int. QuantizeUsageBillingAmount v = of_int n / 10 ^ 8"
proof -
  have "QuantizeUsageBillingAmount v = of_int ((if v > 0 then 1 else if v < 0 then - 1 else 0) * \<lfloor>\<bar>v\<bar> * 10 ^ 8 + 1 / 2\<rfloor>) / 10 ^ 8"
    by (simp add: QuantizeUsageBillingAmount_def UsageBillingMonetaryScale_def sgn_real_def)
  then show ?thesis by blast
qed

lemma quantize_close: "\<bar>QuantizeUsageBillingAmount v - v\<bar> \<le> 1 / (2 * 10 ^ 8)"
proof -
  let ?n = "\<lfloor>\<bar>v\<bar> * 10 ^ 8 + 1 / 2\<rfloor>"
  have n: "of_int ?n \<le> \<bar>v\<bar> * 10 ^ 8 + 1 / 2" "\<bar>v\<bar> * 10 ^ 8 + 1 / 2 < of_int ?n + 1" by linarith+
  have "of_int ?n / 10 ^ 8 - \<bar>v\<bar> \<le> 1 / (2 * 10 ^ 8)" using n(1) by (simp add: field_simps)
  moreover have "\<bar>v\<bar> - of_int ?n / 10 ^ 8 \<le> 1 / (2 * 10 ^ 8)" using n(2) by (simp add: field_simps)
  ultimately have "\<bar>of_int ?n / 10 ^ 8 - \<bar>v\<bar>\<bar> \<le> 1 / (2 * 10 ^ 8)" by linarith
  then show ?thesis
    by (cases "v = 0"; cases "v > 0") (auto simp: QuantizeUsageBillingAmount_def UsageBillingMonetaryScale_def sgn_real_def abs_real_def split: if_splits)
qed

lemma quantize_on_grid: "QuantizeUsageBillingAmount (of_int n / 10 ^ 8) = of_int n / 10 ^ 8"
proof -
  have "\<lfloor>\<bar>of_int n / 10 ^ 8\<bar> * 10 ^ 8 + 1 / 2 :: real\<rfloor> = \<bar>n\<bar>"
    by (simp add: abs_divide) linarith
  then show ?thesis
    by (simp add: QuantizeUsageBillingAmount_def UsageBillingMonetaryScale_def sgn_real_def zero_less_divide_iff)
qed

lemma quantize_again: "QuantizeUsageBillingAmount (QuantizeUsageBillingAmount v) = QuantizeUsageBillingAmount v"
proof -
  obtain n where "QuantizeUsageBillingAmount v = of_int n / 10 ^ 8" using quantize_grid by blast
  then show ?thesis by (simp only: quantize_on_grid)
qed

lemma normalize_costs [simp]:
  "BalanceCost (NormalizeUsageBilling H c) = QuantizeUsageBillingAmount (BalanceCost c)"
  "SubscriptionCost (NormalizeUsageBilling H c) = QuantizeUsageBillingAmount (SubscriptionCost c)"
  "APIKeyQuotaCost (NormalizeUsageBilling H c) = QuantizeUsageBillingAmount (APIKeyQuotaCost c)"
  "APIKeyRateLimitCost (NormalizeUsageBilling H c) = QuantizeUsageBillingAmount (APIKeyRateLimitCost c)"
  "AccountQuotaCost (NormalizeUsageBilling H c) = QuantizeUsageBillingAmount (AccountQuotaCost c)"
  "BillSubscriptionID (NormalizeUsageBilling H c) = BillSubscriptionID c" "BillUserID (NormalizeUsageBilling H c) = BillUserID c"
  by (simp_all add: NormalizeUsageBilling_def quantizeMonetaryFields_def Let_def)

lemma priced_costs:
  "BalanceCost (priced_command p (logged_command i l p)) =
     (if p_is_subscription p \<and> p_subscription p \<noteq> None \<and> p_total_cost p > 0 then 0 else if p_actual_cost p > 0 then p_actual_cost p else 0)"
  "SubscriptionCost (priced_command p (logged_command i l p)) =
     (if p_is_subscription p \<and> p_subscription p \<noteq> None \<and> p_total_cost p > 0 then p_actual_cost p else 0)"
  "APIKeyQuotaCost (priced_command p (logged_command i l p)) = (if shouldDeductAPIKeyQuota p then p_actual_cost p else 0)"
  "p_is_subscription p \<and> p_subscription p \<noteq> None \<and> p_total_cost p > 0 \<Longrightarrow> BillSubscriptionID (priced_command p (logged_command i l p)) = p_subscription p"
  "BillUserID (priced_command p (logged_command i l p)) = p_user p"
  by (auto simp: priced_command_def logged_command_def Let_def split: option.splits)

subsection \<open>The properties\<close>

text \<open>C2: However transactions interleave, fail, lose their acknowledgement or are repeated, and however their claims are
  moved to the archive meanwhile, each request id of a key is charged at most once; the balance, the frozen money, the use
  of keys, subscriptions and accounts are what they were at first plus exactly what the ledger of committed transactions says;
  and sending a charged command again does nothing.\<close>

theorem charged_once:
  assumes "bill_reach H initial (s, l)" "distinct (map row_claim (claim_rows initial))"
  shows "distinct (map row_claim (claim_rows initial) @ entry_claims l) \<and> books initial s l \<and>
    (\<forall>c. Charged (NormalizeUsageBilling H c) \<in> set l \<longrightarrow> Apply H c s = (Inr None, s))"
  using bill_inv_reach [OF assms] repeat_noop by (auto simp: bill_inv_def claims_kept_def)

definition ex_command :: UsageBillingCommand where
  "ex_command = (priced_command
     \<lparr>p_total_cost = 2, p_actual_cost = 3, p_user = 1, p_key = 7, p_key_quota = 5, p_rate_limits = (0, 0, 0), p_account = 9,
      p_account_type = ''oauth'', p_account_limits = (0, 0, 0), p_subscription = None, p_payload_hash = '''', p_is_subscription = False,
      p_account_rate = 1, p_key_service = True\<rparr>
     (logged_command ''r'' None
     \<lparr>p_total_cost = 2, p_actual_cost = 3, p_user = 1, p_key = 7, p_key_quota = 5, p_rate_limits = (0, 0, 0), p_account = 9,
      p_account_type = ''oauth'', p_account_limits = (0, 0, 0), p_subscription = None, p_payload_hash = '''', p_is_subscription = False,
      p_account_rate = 1, p_key_service = True\<rparr>))\<lparr>BillFingerprint := ''f''\<rparr>"

definition ex_billing :: billing_db where
  "ex_billing = \<lparr>bill_clock = 0, bill_users = [1 \<mapsto> \<lparr>bal = 10, frozen = 0\<rparr>],
     bill_keys = [7 \<mapsto> \<lparr>key_quota = 5, key_quota_used = 4, key_status = StatusAPIKeyActive, usage_5h = 0, usage_1d = 0, usage_7d = 0,
        window_5h_start = None, window_1d_start = None, window_7d_start = None\<rparr>],
     bill_accounts = Map.empty, bill_subs = Map.empty, bill_groups = {}, dedup = [], dedup_archive = [], account_events = []\<rparr>"

text \<open>The command is committed, but the caller hears of an error.\<close>

definition ex_billed :: "billing_db \<times> entry list" where
  "ex_billed = (snd (under_weather (Unacknowledged (plain_error ''lost'')) (Apply id ex_command) ex_billing),
     [] @ logged (Unacknowledged (plain_error ''lost'')) (fst (Apply id ex_command ex_billing)) (\<lambda>_. Charged (NormalizeUsageBilling id ex_command)))"

lemma ex_billed_reach: "bill_reach id ex_billing (fst ex_billed, snd ex_billed)"
  unfolding ex_billed_def fst_conv snd_conv by (rule br_charge [OF br_init])

lemma ex_trim: "trim_space ''r'' = ''r''" "trim_space ''f'' = ''f''" "trim_space '''' = ''''"
  by code_simp+

lemma ex_amount: "QuantizeUsageBillingAmount 3 = 3"
  using quantize_on_grid [of 300000000] by simp

lemma ex_fields:
  "BillRequestID ex_command = ''r''" "BillAPIKeyID ex_command = 7" "BillUserID ex_command = 1" "BillSubscriptionID ex_command = None"
  "BalanceCost ex_command = 3" "APIKeyQuotaCost ex_command = 3" "APIKeyRateLimitCost ex_command = 0" "AccountQuotaCost ex_command = 0"
  by (simp_all add: ex_command_def priced_command_def logged_command_def Let_def shouldDeductAPIKeyQuota_def shouldUpdateRateLimits_def
      HasRateLimits_def shouldUpdateAccountQuota_def IsAPIKeyOrBedrock_def)

lemma ex_normal: "NormalizeUsageBilling id ex_command = ex_command"
  by (simp add: NormalizeUsageBilling_def quantizeMonetaryFields_def Let_def ex_command_def priced_command_def logged_command_def
      shouldDeductAPIKeyQuota_def shouldUpdateRateLimits_def HasRateLimits_def shouldUpdateAccountQuota_def IsAPIKeyOrBedrock_def ex_trim ex_amount)

theorem charged_once_witness:
  "distinct (map row_claim (claim_rows ex_billing) @ entry_claims (snd ex_billed)) \<and> books ex_billing (fst ex_billed) (snd ex_billed) \<and>
   Apply id ex_command (fst ex_billed) = (Inr None, fst ex_billed) \<and> snd ex_billed = [Charged ex_command]"
proof -
  have l: "snd ex_billed = [Charged (NormalizeUsageBilling id ex_command)]"
    by (simp add: ex_billed_def logged_def Apply_def Let_def ex_normal claimed_tx_def claimUsageBillingRequest_def applyUsageBillingEffects_def
        bill_and_def bill_when_def deductUsageBillingBalance_def incrementUsageBillingAPIKeyQuota_def set_user_def ex_billing_def ex_fields)
  have "distinct (map row_claim (claim_rows ex_billing))" by (simp add: ex_billing_def claim_rows_def)
  from charged_once [OF ex_billed_reach this] show ?thesis unfolding l by (simp add: ex_normal)
qed

text \<open>C24: In a run of the billing transactions that starts where no active key has used up its quota, none ever does: the request
  that uses up the quota switches the key off in the same transaction, whatever charges, holds, archive runs and credits run
  beside it. What owners do to their keys is not part of these runs: \<^verbatim>\<open>APIKeyService.Update\<close> can set a used up key active again or
  lower a quota below what was used.\<close>

theorem active_key_has_quota:
  assumes "bill_reach H initial (s, l)"
    "\<And>i r. bill_keys initial i = Some r \<Longrightarrow> key_status r = StatusAPIKeyActive \<Longrightarrow> 0 < key_quota r \<Longrightarrow> key_quota_used r < key_quota r"
    "bill_keys s i = Some r" "key_status r = StatusAPIKeyActive" "0 < key_quota r"
  shows "key_quota_used r < key_quota r"
  using active_reach [OF assms(1)] assms(2-5) by (auto simp: active_keys_fine_def)

text \<open>C37: A request is paid by the balance or by the subscription and not by both, with the actual cost to eight decimals, to which
  rounding brings it within half a unit of the last place; the amounts no longer change when they are rounded again.\<close>

theorem one_payer:
  assumes "0 \<le> p_actual_cost p"
  shows "let c = buildUsageBillingCommand H i l p in
    BalanceCost c + SubscriptionCost c = QuantizeUsageBillingAmount (p_actual_cost p) \<and>
    (BalanceCost c = 0 \<or> SubscriptionCost c = 0) \<and>
    (APIKeyQuotaCost c = 0 \<or> APIKeyQuotaCost c = BalanceCost c + SubscriptionCost c) \<and>
    \<bar>BalanceCost c + SubscriptionCost c - p_actual_cost p\<bar> \<le> 1 / (2 * 10 ^ 8) \<and> quantizeMonetaryFields c = c"
proof -
  let ?c = "buildUsageBillingCommand H i l p"
  have sum: "BalanceCost ?c + SubscriptionCost ?c = QuantizeUsageBillingAmount (p_actual_cost p)"
    and one: "BalanceCost ?c = 0 \<or> SubscriptionCost ?c = 0"
    using assms by (auto simp: buildUsageBillingCommand_def priced_costs)
  have key: "APIKeyQuotaCost ?c = 0 \<or> APIKeyQuotaCost ?c = QuantizeUsageBillingAmount (p_actual_cost p)"
    by (simp add: buildUsageBillingCommand_def priced_costs)
  have "quantizeMonetaryFields ?c = ?c"
    by (simp add: buildUsageBillingCommand_def NormalizeUsageBilling_def quantizeMonetaryFields_def Let_def quantize_again)
  then show ?thesis using sum one key quantize_close [of "p_actual_cost p"] unfolding Let_def by simp
qed

theorem active_key_has_quota_witness:
  "key_quota_used ((the (bill_keys ex_billing 7))) < key_quota (the (bill_keys ex_billing 7)) \<and>
   key_status (the (bill_keys (fst ex_billed) 7)) = StatusAPIKeyQuotaExhausted"
proof
  show "key_quota_used ((the (bill_keys ex_billing 7))) < key_quota (the (bill_keys ex_billing 7))"
    by (rule active_key_has_quota [OF br_init [of id ex_billing], of 7]) (auto simp: ex_billing_def split: if_splits)
  show "key_status (the (bill_keys (fst ex_billed) 7)) = StatusAPIKeyQuotaExhausted"
    by (simp add: ex_billed_def under_weather_def Apply_def Let_def ex_normal claimed_tx_def claimUsageBillingRequest_def applyUsageBillingEffects_def
        bill_and_def bill_when_def deductUsageBillingBalance_def incrementUsageBillingAPIKeyQuota_def set_user_def ex_billing_def ex_fields
        spend_key_def crosses_quota_def)
qed

theorem one_payer_witness:
  "let c = buildUsageBillingCommand id ''r'' None
      \<lparr>p_total_cost = 2, p_actual_cost = 3, p_user = 1, p_key = 7, p_key_quota = 5, p_rate_limits = (0, 0, 0), p_account = 9,
       p_account_type = ''oauth'', p_account_limits = (0, 0, 0), p_subscription = Some 4, p_payload_hash = '''', p_is_subscription = True,
       p_account_rate = 1, p_key_service = True\<rparr> in
    BalanceCost c + SubscriptionCost c = QuantizeUsageBillingAmount 3 \<and>
    (BalanceCost c = 0 \<or> SubscriptionCost c = 0) \<and>
    (APIKeyQuotaCost c = 0 \<or> APIKeyQuotaCost c = BalanceCost c + SubscriptionCost c) \<and>
    \<bar>BalanceCost c + SubscriptionCost c - 3\<bar> \<le> 1 / (2 * 10 ^ 8) \<and> quantizeMonetaryFields c = c"
  using one_payer [of "\<lparr>p_total_cost = 2, p_actual_cost = 3, p_user = 1, p_key = 7, p_key_quota = 5, p_rate_limits = (0, 0, 0), p_account = 9,
       p_account_type = ''oauth'', p_account_limits = (0, 0, 0), p_subscription = Some 4, p_payload_hash = '''', p_is_subscription = True,
       p_account_rate = 1, p_key_service = True\<rparr>" id "''r''" None] by simp

end
