(* ===== verification/BatchRun.thy ===== *)
theory BatchRun
  imports BatchImage BillingRun
begin

section \<open>Runs of batches of images\<close>

text \<open>
  Any number of submissions, cancellations, workers and recoveries of \<open>BatchImage\<close> interleave statement by statement, with each other and
  with the charges, deposits and archive runs of \<open>BillingRun\<close>. What they do to the money is a run of \<open>BillingRun\<close>, whose ledger has for each
  batch only the job's own hold; a batch that completed was charged.
\<close>

subsection \<open>Transactions on the larger tables\<close>

abbreviation books_of :: "batch_db \<Rightarrow> billing_db" where "books_of \<equiv> billing_db.truncate"

text \<open>A transaction of \<open>UsageBilling\<close> does the same on the tables of money whatever other tables there are, and leaves those alone.\<close>

definition lifts :: "(unit, 'a) bill_stmt \<Rightarrow> 'a batch_stmt \<Rightarrow> bool" where
  "lifts f g \<longleftrightarrow> (\<forall>s. fst (g s) = fst (f (books_of s)) \<and> books_of (snd (g s)) = snd (f (books_of s)) \<and>
     image_jobs (snd (g s)) = image_jobs s \<and> image_items (snd (g s)) = image_items s)"

lemma books_of_simps [simp]:
  "bill_clock (books_of s) = bill_clock s" "bill_users (books_of s) = bill_users s" "bill_keys (books_of s) = bill_keys s"
  "bill_accounts (books_of s) = bill_accounts s" "bill_subs (books_of s) = bill_subs s" "bill_groups (books_of s) = bill_groups s"
  "dedup (books_of s) = dedup s" "dedup_archive (books_of s) = dedup_archive s" "account_events (books_of s) = account_events s"
  "books_of (s\<lparr>bill_clock := x0\<rparr>) = (books_of s)\<lparr>bill_clock := x0\<rparr>" "books_of (s\<lparr>bill_users := x1\<rparr>) = (books_of s)\<lparr>bill_users := x1\<rparr>"
  "books_of (s\<lparr>dedup := x2\<rparr>) = (books_of s)\<lparr>dedup := x2\<rparr>" "books_of (s\<lparr>dedup_archive := x3\<rparr>) = (books_of s)\<lparr>dedup_archive := x3\<rparr>"
  "books_of (s\<lparr>image_jobs := x4\<rparr>) = books_of s" "books_of (s\<lparr>image_items := x5\<rparr>) = books_of s"
  by (simp_all add: billing_db.truncate_def)

lemma lifts_weather: "lifts f g \<Longrightarrow> lifts (under_weather w f) (under_weather w g)"
  unfolding lifts_def under_weather_def
  by (cases w) (auto simp: split_beta split: prod.splits sum.splits)

lemma lifts_claimed_tx:
  assumes "lifts f g"
  shows "lifts (claimed_tx rid k fp f) (claimed_tx rid k fp g)"
  unfolding lifts_def
proof
  fix s
  have claim: "fst (claimUsageBillingRequest rid k fp s) = fst (claimUsageBillingRequest rid k fp (books_of s))"
    "books_of (snd (claimUsageBillingRequest rid k fp s)) = snd (claimUsageBillingRequest rid k fp (books_of s))"
    "image_jobs (snd (claimUsageBillingRequest rid k fp s)) = image_jobs s"
    "image_items (snd (claimUsageBillingRequest rid k fp s)) = image_items s"
    by (simp_all add: claimUsageBillingRequest_def Let_def split: option.splits)
  obtain r t where rt: "claimUsageBillingRequest rid k fp s = (r, t)" by (cases "claimUsageBillingRequest rid k fp s")
  then have rt': "claimUsageBillingRequest rid k fp (books_of s) = (r, books_of t)" "image_jobs t = image_jobs s" "image_items t = image_items s"
    using claim by (simp_all add: prod_eq_iff)
  obtain a u where au: "g t = (a, u)" by (cases "g t")
  have "f (books_of t) = (a, books_of u)" "image_jobs u = image_jobs t" "image_items u = image_items t"
    using assms [unfolded lifts_def, rule_format, of t] au by (simp_all add: prod_eq_iff)
  then show "fst (claimed_tx rid k fp g s) = fst (claimed_tx rid k fp f (books_of s)) \<and>
      books_of (snd (claimed_tx rid k fp g s)) = snd (claimed_tx rid k fp f (books_of s)) \<and>
      image_jobs (snd (claimed_tx rid k fp g s)) = image_jobs s \<and> image_items (snd (claimed_tx rid k fp g s)) = image_items s"
    using rt rt' au by (auto simp: claimed_tx_def split: sum.splits bool.splits)
qed

lemma lifts_update_money: "lifts (update_money i p h e) (update_money i p h e)"
  by (auto simp: lifts_def update_money_def set_user_def split: option.splits)

lemma lifts_same: "lifts (\<lambda>s. (r, s)) (\<lambda>s. (r, s))"
  by (simp add: lifts_def)

lemma lifts_holds:
  "lifts (ReserveBatchImageBalance H c) (ReserveBatchImageBalance H c)"
  "lifts (CaptureBatchImageBalance H c) (CaptureBatchImageBalance H c)"
  "lifts (ReleaseBatchImageBalance H c) (ReleaseBatchImageBalance H c)"
proof -
  have reserve: "lifts (reserveUsageBillingBatchImageBalance d) (reserveUsageBillingBatchImageBalance d)"
    and capture: "lifts (captureUsageBillingBatchImageBalance d) (captureUsageBillingBatchImageBalance d)" for d
    by (auto simp: reserveUsageBillingBatchImageBalance_def captureUsageBillingBatchImageBalance_def lifts_update_money lifts_same)
  have release: "lifts (releaseUsageBillingBatchImageBalance d) (releaseUsageBillingBatchImageBalance d)" for d
    using lifts_update_money [unfolded lifts_def, rule_format]
    by (auto simp: lifts_def releaseUsageBillingBatchImageBalance_def batchImageHoldClaimExists_def)
  show "lifts (ReserveBatchImageBalance H c) (ReserveBatchImageBalance H c)"
    "lifts (CaptureBatchImageBalance H c) (CaptureBatchImageBalance H c)"
    "lifts (ReleaseBatchImageBalance H c) (ReleaseBatchImageBalance H c)"
    unfolding ReserveBatchImageBalance_def CaptureBatchImageBalance_def ReleaseBatchImageBalance_def
      applyBatchImageBalanceHold_def Let_def
    by (intro lifts_claimed_tx reserve capture release)+
qed

subsection \<open>What may happen to the tables\<close>

definition bill_run :: "(string \<Rightarrow> string) \<Rightarrow> billing_db \<Rightarrow> billing_db \<Rightarrow> entry list \<Rightarrow> bool" where
  "bill_run H s t es \<longleftrightarrow> (\<forall>initial l. bill_reach H initial (s, l) \<longrightarrow> bill_reach H initial (t, l @ es))"

lemma bill_run_refl [simp]: "bill_run H s s []"
  by (simp add: bill_run_def)

lemma bill_run_trans: "bill_run H s t es \<Longrightarrow> bill_run H t u fs \<Longrightarrow> bill_run H s u (es @ fs)"
  by (simp add: bill_run_def) (metis append_assoc)

text \<open>The ids of the transactions of batches.\<close>

definition batch_claim :: "string \<Rightarrow> bool" where "batch_claim rid \<longleftrightarrow> prefix ''batch_image_'' rid"

text \<open>The columns of a job that no statement changes.\<close>

definition same_terms :: "BatchImageJob \<Rightarrow> BatchImageJob \<Rightarrow> bool" where
  "same_terms r r' \<longleftrightarrow> BatchID r' = BatchID r \<and> JobUserID r' = JobUserID r \<and> JobAPIKeyID r' = JobAPIKeyID r \<and>
     JobProvider r' = JobProvider r \<and> JobModel r' = JobModel r \<and> ItemCount r' = ItemCount r \<and> EstimatedCost r' = EstimatedCost r \<and>
     JobHoldAmount r' = JobHoldAmount r \<and> BillableUnitPrice r' = BillableUnitPrice r \<and> RequestHash r' = RequestHash r"

lemma same_terms_refl [simp]: "same_terms r r"
  by (simp add: same_terms_def)

lemma same_terms_trans: "same_terms a b \<Longrightarrow> same_terms b c \<Longrightarrow> same_terms a c"
  by (simp add: same_terms_def)

lemma held_same: "same_terms r r' \<Longrightarrow> held_amount r' = held_amount r"
  by (simp add: same_terms_def held_amount_def split: option.split)

lemma build_same: "same_terms r r' \<Longrightarrow> buildBatchImageHoldCommand r' rid a p = buildBatchImageHoldCommand r rid a p"
  using held_same [of r r'] by (simp add: buildBatchImageHoldCommand_def same_terms_def cong: option.case_cong if_cong)

text \<open>A command about a job's hold, and the entries of the ledger that batches and others may make.\<close>

definition hold_of :: "BatchImageJob \<Rightarrow> BatchImageBalanceHoldCommand \<Rightarrow> bool" where
  "hold_of job c \<longleftrightarrow> HoldUserID c = JobUserID job \<and> JobAPIKeyID job = Some (HoldAPIKeyID c) \<and> HoldBatchID c = BatchID job \<and>
     HoldAmount c = (if held_amount job < 0 then 0 else held_amount job)"

text \<open>An entry about a batch is a command the code builds from a job of that batch.\<close>

definition job_command ::
  "(string \<Rightarrow> string) \<Rightarrow> BatchImageJob list \<Rightarrow> (string \<Rightarrow> string) \<Rightarrow> BatchImageBalanceHoldCommand \<Rightarrow> bool" where
  "job_command H js rid c \<longleftrightarrow>
     (\<exists>job\<in>set js. \<exists>a p cmd. buildBatchImageHoldCommand job (rid (BatchID job)) a p = Inr cmd \<and> c = NormalizeHold H cmd)"

primrec proper_entry :: "(string \<Rightarrow> string) \<Rightarrow> BatchImageJob list \<Rightarrow> entry \<Rightarrow> bool" where
  "proper_entry H js (Charged c) \<longleftrightarrow> \<not> batch_claim (BillRequestID c)"
| "proper_entry H js (Reserved c) \<longleftrightarrow> job_command H js BatchImageHoldRequestID c \<and> HoldAmount c > 0"
| "proper_entry H js (Captured c) \<longleftrightarrow> job_command H js BatchImageCaptureRequestID c"
| "proper_entry H js (Released c moved) \<longleftrightarrow> job_command H js BatchImageReleaseRequestID c \<and> HoldAmount c > 0"
| "proper_entry H js (Deposited i a) \<longleftrightarrow> True"

definition persist :: "BatchImageJob list \<Rightarrow> BatchImageJob list \<Rightarrow> bool" where
  "persist js js' \<longleftrightarrow> (\<forall>r\<in>set js. \<exists>r'\<in>set js'. same_terms r r')"

lemma persist_refl [simp]: "persist js js"
  by (auto simp: persist_def intro: same_terms_refl)

lemma persist_trans: "persist a b \<Longrightarrow> persist b c \<Longrightarrow> persist a c"
  unfolding persist_def by (meson same_terms_trans)

lemma hold_of_same: "hold_of r c \<Longrightarrow> same_terms r r' \<Longrightarrow> hold_of r' c"
  using held_same [of r r'] by (simp add: hold_of_def same_terms_def)

lemma command_persist: "job_command H js rid c \<Longrightarrow> persist js js' \<Longrightarrow> job_command H js' rid c"
proof -
  assume "job_command H js rid c" and p: "persist js js'"
  then obtain job a x cmd where job: "job \<in> set js" "buildBatchImageHoldCommand job (rid (BatchID job)) a x = Inr cmd" "c = NormalizeHold H cmd"
    by (auto simp: job_command_def)
  then obtain job' where job': "job' \<in> set js'" "same_terms job job'" using p by (auto simp: persist_def)
  have "buildBatchImageHoldCommand job' (rid (BatchID job')) a x = Inr cmd"
    using job(2) build_same [OF job'(2)] job'(2) by (simp add: same_terms_def)
  then show "job_command H js' rid c" using job'(1) job(3) unfolding job_command_def by blast
qed

lemma proper_persist: "proper_entry H js e \<Longrightarrow> persist js js' \<Longrightarrow> proper_entry H js' e"
  using command_persist by (cases e) (simp_all, blast+)

text \<open>What a row of claims says, without its time.\<close>

definition claim_prints :: "'z billing_db_scheme \<Rightarrow> (string \<times> int \<times> string) set" where
  "claim_prints s = (\<lambda>r. (dd_request r, dd_key r, dd_fingerprint r)) ` set (claim_rows s)"

definition batch_evolves :: "(string \<Rightarrow> string) \<Rightarrow> batch_db \<Rightarrow> batch_db \<Rightarrow> bool" where
  "batch_evolves H s t \<longleftrightarrow>
     (\<exists>es. bill_run H (books_of s) (books_of t) es \<and> (\<forall>e\<in>set es. proper_entry H (image_jobs t) e)) \<and>
     claim_prints s \<subseteq> claim_prints t \<and> persist (image_jobs s) (image_jobs t)"

lemma batch_evolves_refl: "batch_evolves H s s"
  unfolding batch_evolves_def by (intro conjI exI [of _ "[]"]) simp_all

lemma batch_evolves_trans:
  assumes "batch_evolves H s t" "batch_evolves H t u"
  shows "batch_evolves H s u"
proof -
  obtain es fs where "bill_run H (books_of s) (books_of t) es" "\<forall>e\<in>set es. proper_entry H (image_jobs t) e"
    "bill_run H (books_of t) (books_of u) fs" "\<forall>e\<in>set fs. proper_entry H (image_jobs u) e"
    using assms unfolding batch_evolves_def by blast
  moreover have "persist (image_jobs t) (image_jobs u)" using assms(2) by (simp add: batch_evolves_def)
  ultimately have "bill_run H (books_of s) (books_of u) (es @ fs)" "\<forall>e\<in>set (es @ fs). proper_entry H (image_jobs u) e"
    using bill_run_trans proper_persist by (blast, fastforce)
  then show ?thesis using assms persist_trans unfolding batch_evolves_def by blast
qed

subsection \<open>The invariant\<close>

definition job_statuses :: "string set" where
  "job_statuses = {BatchImageJobStatusCreated, BatchImageJobStatusUploading, BatchImageJobStatusSubmitted, BatchImageJobStatusRunning,
     BatchImageJobStatusIndexing, BatchImageJobStatusSettling, BatchImageJobStatusCompleted, BatchImageJobStatusFailed,
     BatchImageJobStatusCancelled, BatchImageJobStatusOutputDeleted}"

definition settled_status :: "string \<Rightarrow> bool" where
  "settled_status st \<longleftrightarrow> st = BatchImageJobStatusCompleted \<or> st = BatchImageJobStatusOutputDeleted"

text \<open>The capture with the job's actual cost and manifest hash is claimed.\<close>

definition capture_claimed :: "(string \<Rightarrow> string) \<Rightarrow> (string \<times> int \<times> string) set \<Rightarrow> BatchImageJob \<Rightarrow> usd \<Rightarrow> string \<Rightarrow> bool" where
  "capture_claimed H prints job a m \<longleftrightarrow>
     (\<exists>cmd fp. buildBatchImageHoldCommand job (BatchImageCaptureRequestID (BatchID job)) a m = Inr cmd \<and>
        (BatchImageCaptureRequestID (BatchID job), HoldAPIKeyID cmd, fp) \<in> prints \<and>
        trim_space fp = trim_space (HoldFingerprint (NormalizeHold H cmd)))"

definition paid_job :: "(string \<Rightarrow> string) \<Rightarrow> (string \<times> int \<times> string) set \<Rightarrow> BatchImageJob \<Rightarrow> bool" where
  "paid_job H prints r \<longleftrightarrow> (settled_status (JobStatus r) \<longrightarrow>
     (\<exists>a m. ActualCost r = Some a \<and> ManifestHash r = Some m \<and> capture_claimed H prints r a m))"

definition items_unique :: "BatchImageItem list \<Rightarrow> bool" where
  "items_unique is \<longleftrightarrow> distinct (map (\<lambda>i. (ItemJobID i, CustomID i)) is)"

definition job_fine :: "BatchImageJob \<Rightarrow> bool" where
  "job_fine r \<longleftrightarrow> list_all plain_char (BatchID r) \<and> JobStatus r \<in> job_statuses \<and> IsSupportedBatchImageProvider (JobProvider r)"

definition batch_inv :: "(string \<Rightarrow> string) \<Rightarrow> batch_db \<Rightarrow> bool" where
  "batch_inv H s \<longleftrightarrow> distinct (map row_claim (claim_rows s)) \<and> distinct (map BatchID (image_jobs s)) \<and> items_unique (image_items s) \<and>
     (\<forall>r\<in>set (image_jobs s). job_fine r \<and> paid_job H (claim_prints s) r)"

interpretation bat: protocol "batch_inv H" "batch_evolves H" for H
  by unfold_locales (auto intro: batch_evolves_refl batch_evolves_trans)

lemma capture_claimed_mono: "capture_claimed H P job a m \<Longrightarrow> P \<subseteq> Q \<Longrightarrow> capture_claimed H Q job a m"
  unfolding capture_claimed_def by blast

lemma capture_claimed_same: "capture_claimed H P r a m \<Longrightarrow> same_terms r r' \<Longrightarrow> capture_claimed H P r' a m"
  unfolding capture_claimed_def by (simp add: build_same) (simp add: same_terms_def)

lemma paid_job_mono: "paid_job H P r \<Longrightarrow> P \<subseteq> Q \<Longrightarrow> paid_job H Q r"
  unfolding paid_job_def using capture_claimed_mono by blast

lemma batch_invD:
  assumes "batch_inv H s" "r \<in> set (image_jobs s)"
  shows "job_fine r" "paid_job H (claim_prints s) r"
  using assms by (auto simp: batch_inv_def)

subsection \<open>Steps on the tables of money\<close>

lemma prints_cong: "set (claim_rows s) = set (claim_rows t) \<Longrightarrow> claim_prints s = claim_prints t"
  by (simp add: claim_prints_def)

lemma hold_rows:
  "reserveUsageBillingBatchImageBalance c s = (Inr r, t) \<Longrightarrow> claim_rows t = claim_rows s"
  "captureUsageBillingBatchImageBalance c s = (Inr r, t) \<Longrightarrow> claim_rows t = claim_rows s"
  "releaseUsageBillingBatchImageBalance c s = (Inr r, t) \<Longrightarrow> claim_rows t = claim_rows s"
  by (auto simp: reserveUsageBillingBatchImageBalance_def captureUsageBillingBatchImageBalance_def releaseUsageBillingBatchImageBalance_def
      update_money_def set_user_def claim_rows_def split: if_splits option.splits)

lemma prints_claim_row: "claim_prints s \<subseteq> claim_prints (claim_row rid k fp s)"
  unfolding claim_prints_def claim_rows_claim_row by blast

lemma prints_grow:
  assumes "P \<subseteq> claim_prints s" "claim_rows t = claim_rows (claim_row rid k fp s)"
  shows "P \<subseteq> claim_prints t"
  using assms prints_claim_row [of s rid k fp] prints_cong [of t "claim_row rid k fp s"] by auto

lemma hold_prints:
  assumes "P \<subseteq> claim_prints s"
  shows "reserveUsageBillingBatchImageBalance c (claim_row rid k fp s) = (Inr r, t) \<Longrightarrow> P \<subseteq> claim_prints t"
    "captureUsageBillingBatchImageBalance c (claim_row rid k fp s) = (Inr r, t) \<Longrightarrow> P \<subseteq> claim_prints t"
    "releaseUsageBillingBatchImageBalance c (claim_row rid k fp s) = (Inr r, t) \<Longrightarrow> P \<subseteq> claim_prints t"
  by (rule prints_grow [OF assms], erule hold_rows)+

lemma prints_reach:
  assumes "bill_reach H initial S" "distinct (map row_claim (claim_rows initial))"
  shows "claim_prints initial \<subseteq> claim_prints (fst S)"
  using assms(1)
proof induction
  case (br_charge s l w c)
  show ?case unfolding fst_conv
  proof (rule keeps_Apply)
    fix d rid k fp r t assume "applyUsageBillingEffects d (claim_row rid k fp s) = (Inr r, t)"
    from effects_step [OF this] have "claim_rows t = claim_rows (claim_row rid k fp s)" by (auto simp: claim_rows_def)
    then show "claim_prints initial \<subseteq> claim_prints t" using br_charge.IH prints_grow by simp
  qed (use br_charge.IH in simp)
next
  case (br_reserve s l w h)
  then have "claim_prints initial \<subseteq> claim_prints s" by simp
  note this hold_prints [OF this]
  from keeps_hold(1) [of "\<lambda>s. claim_prints initial \<subseteq> claim_prints s" s, OF this] show ?case by simp
next
  case (br_capture s l w h)
  then have "claim_prints initial \<subseteq> claim_prints s" by simp
  note this hold_prints [OF this]
  from keeps_hold(2) [of "\<lambda>s. claim_prints initial \<subseteq> claim_prints s" s, OF this] show ?case by simp
next
  case (br_release s l w h)
  then have "claim_prints initial \<subseteq> claim_prints s" by simp
  note this hold_prints [OF this]
  from keeps_hold(3) [of "\<lambda>s. claim_prints initial \<subseteq> claim_prints s" s, OF this] show ?case by simp
next
  case (br_archive s l cutoff pick)
  have "distinct (map row_claim (claim_rows s))"
    using bill_inv_reach [OF br_archive.hyps assms(2)] by (simp add: bill_inv_def claims_kept_def)
  then have "set (claim_rows (archive_claims cutoff pick s)) = set (claim_rows s)" using archive_mset mset_eq_setD by blast
  from prints_cong [OF this] show ?case using br_archive.IH by simp
qed (auto simp: claim_prints_def claim_rows_def set_user_def)

lemma books_rows [simp]: "claim_rows (books_of s) = claim_rows s" "claim_prints (books_of s) = claim_prints s"
  by (simp_all add: claim_rows_def claim_prints_def)

lemma bill_run_keeps:
  assumes "bill_run H (books_of s) (books_of t) es" "distinct (map row_claim (claim_rows s))"
  shows "distinct (map row_claim (claim_rows t))" "claim_prints s \<subseteq> claim_prints t"
proof -
  have reach: "bill_reach H (books_of s) (books_of t, es)"
    using assms(1) br_init [of H "books_of s"] unfolding bill_run_def by fastforce
  show "distinct (map row_claim (claim_rows t))"
    using bill_inv_reach [OF reach] assms(2) by (simp add: bill_inv_def claims_kept_def)
  show "claim_prints s \<subseteq> claim_prints t"
    using prints_reach [OF reach] assms(2) by simp
qed

lemma money_step:
  assumes inv: "batch_inv H s" and run: "bill_run H (books_of s) (books_of t) es" and es: "\<And>e. e \<in> set es \<Longrightarrow> proper_entry H (image_jobs s) e"
    and same: "image_jobs t = image_jobs s" "image_items t = image_items s"
  shows "batch_inv H t \<and> batch_evolves H s t"
proof -
  have rows: "distinct (map row_claim (claim_rows s))" using inv by (simp add: batch_inv_def)
  note keeps = bill_run_keeps [OF run rows]
  have "batch_inv H t"
    using inv keeps paid_job_mono [OF _ keeps(2)] by (auto simp: batch_inv_def same)
  moreover have "batch_evolves H s t"
    unfolding batch_evolves_def same using run es keeps(2) persist_refl by blast
  ultimately show ?thesis by blast
qed

subsection \<open>Steps on the tables of batches\<close>

lemma persist_map:
  "(\<And>r. r \<in> set js \<Longrightarrow> hit r \<Longrightarrow> same_terms r (f r)) \<Longrightarrow> persist js (map (\<lambda>r. if hit r then f r else r) js @ extra)"
  unfolding persist_def
proof
  fix r assume r: "\<And>r. r \<in> set js \<Longrightarrow> hit r \<Longrightarrow> same_terms r (f r)" "r \<in> set js"
  then have "(if hit r then f r else r) \<in> set (map (\<lambda>r. if hit r then f r else r) js @ extra)" by (simp only: set_append set_map) blast
  moreover have "same_terms r (if hit r then f r else r)" using r by simp
  ultimately show "\<exists>r'\<in>set (map (\<lambda>r. if hit r then f r else r) js @ extra). same_terms r r'" by blast
qed

text \<open>A statement on jobs and items: the jobs it hits keep their terms, the jobs it adds are new.\<close>

lemma batch_step:
  assumes inv: "batch_inv H s" and books: "books_of t = books_of s"
    and jobs: "image_jobs t = map (\<lambda>r. if hit r then f r else r) (image_jobs s) @ new" and items: "items_unique (image_items t)"
    and ok: "\<And>r. r \<in> set (image_jobs s) \<Longrightarrow> hit r \<Longrightarrow> same_terms r (f r) \<and> JobStatus (f r) \<in> job_statuses \<and> paid_job H (claim_prints s) (f r)"
    and new: "distinct (map BatchID new)" "\<And>r. r \<in> set new \<Longrightarrow> job_fine r \<and> paid_job H (claim_prints s) r \<and> BatchID r \<notin> BatchID ` set (image_jobs s)"
  shows "batch_inv H t \<and> batch_evolves H s t"
proof -
  have rows: "claim_rows t = claim_rows s" "claim_prints t = claim_prints s"
    using books by (metis books_rows(1), metis books_rows(2))
  have "map BatchID (map (\<lambda>r. if hit r then f r else r) (image_jobs s)) = map BatchID (image_jobs s)"
    using ok by (auto simp: same_terms_def)
  then have ids: "map BatchID (image_jobs t) = map BatchID (image_jobs s) @ map BatchID new" by (simp add: jobs)
  have "distinct (map BatchID (image_jobs t))"
  proof -
    have "BatchID r \<noteq> BatchID x" if "r \<in> set new" "x \<in> set (image_jobs s)" for r x using new(2) [OF that(1)] that(2) by blast
    then show ?thesis unfolding ids using inv new(1) by (fastforce simp: batch_inv_def)
  qed
  moreover have "job_fine (f r) \<and> paid_job H (claim_prints s) (f r)" if "r \<in> set (image_jobs s)" "hit r" for r
    using batch_invD(1) [OF inv that(1)] ok [OF that] by (simp add: job_fine_def same_terms_def)
  then have "\<forall>r\<in>set (image_jobs t). job_fine r \<and> paid_job H (claim_prints t) r"
    using inv new(2) by (auto simp: jobs batch_inv_def rows)
  ultimately have "batch_inv H t" using inv items by (simp add: batch_inv_def rows)
  moreover have "persist (image_jobs s) (image_jobs t)" unfolding jobs by (rule persist_map) (use ok in blast)
  then have "batch_evolves H s t"
    unfolding batch_evolves_def books rows by (intro conjI exI [of _ "[]"]) auto
  ultimately show ?thesis by blast
qed

lemma set_jobs_step:
  assumes "batch_inv H s"
    and "\<And>r. r \<in> set (image_jobs s) \<Longrightarrow> hit r \<Longrightarrow> same_terms r (f r) \<and> JobStatus (f r) \<in> job_statuses \<and> paid_job H (claim_prints s) (f r)"
  shows "batch_inv H (set_jobs hit f s) \<and> batch_evolves H s (set_jobs hit f s)"
  by (rule batch_step [OF assms(1), where new = "[]" and hit = hit and f = f])
    (use assms in \<open>auto simp: set_jobs_def batch_inv_def\<close>)

text \<open>Statements under any weather.\<close>

definition batch_safe :: "(string \<Rightarrow> string) \<Rightarrow> 'a batch_stmt \<Rightarrow> bool" where
  "batch_safe H f \<longleftrightarrow> (\<forall>s. batch_inv H s \<longrightarrow> batch_inv H (snd (f s)) \<and> batch_evolves H s (snd (f s)))"

lemma snd_under_weather: "snd (under_weather w f s) = s \<or> snd (under_weather w f s) = snd (f s)"
  by (cases w) (auto simp: under_weather_def split: prod.splits sum.splits)

lemma fine_batch_sql:
  assumes "\<And>t. batch_inv H t \<Longrightarrow> batch_evolves H s t \<Longrightarrow> batch_inv H (snd (f t)) \<and> batch_evolves H t (snd (f t))"
  shows "bat.safe_prog H (batch_sql f) (\<lambda>_ _. True) s"
  unfolding batch_sql_def
proof (rule bat.safe_stmt)
  fix t :: batch_db and c a u
  assume t: "batch_inv H t" "batch_evolves H s t" "under_weather (batch_weather c) f t = (a, u)"
  then have "u = t \<or> u = snd (f t)" using snd_under_weather [of "batch_weather c" f t] by simp
  then show "batch_inv H u \<and> batch_evolves H t u \<and> (\<forall>v. batch_inv H v \<longrightarrow> batch_evolves H u v \<longrightarrow> True)"
    using t assms batch_evolves_refl by blast
qed

lemma fine_safe: "batch_safe H f \<Longrightarrow> bat.safe_prog H (batch_sql f) (\<lambda>_ _. True) s"
  by (rule fine_batch_sql) (simp add: batch_safe_def)

lemma fine_asked: "bat.safe_prog H (asked f) (\<lambda>_ _. True) s"
  unfolding asked_def by (rule bat.keep_reading)

lemma fine_now: "bat.safe_prog H batch_now (\<lambda>_ _. True) s"
  unfolding batch_now_def by (rule bat.keep_reading)

lemma fine_unless:
  assumes "bat.safe_prog H p (\<lambda>_ _. True) s" "\<And>e t. batch_evolves H s t \<Longrightarrow> bat.safe_prog H (failed e) (\<lambda>_ _. True) t"
    "\<And>t. batch_evolves H s t \<Longrightarrow> bat.safe_prog H k (\<lambda>_ _. True) t"
  shows "bat.safe_prog H (unless_error p failed k) (\<lambda>_ _. True) s"
  unfolding unless_error_def by (rule bat.keep_then [OF assms(1)], rule bat.keep_option) (use assms(2,3) in auto)

lemmas batch_rules = bat.keep_rules fine_unless fine_asked fine_now

lemma safe_read: "(\<And>s. snd (f s) = s) \<Longrightarrow> batch_safe H f"
  by (simp add: batch_safe_def batch_evolves_refl)

subsection \<open>Holds\<close>

definition known_job :: "BatchImageJob \<Rightarrow> batch_db \<Rightarrow> bool" where
  "known_job job s \<longleftrightarrow> (\<exists>r\<in>set (image_jobs s). same_terms job r)"

lemma known_job_evolves: "known_job job s \<Longrightarrow> batch_evolves H s t \<Longrightarrow> known_job job t"
  unfolding known_job_def batch_evolves_def persist_def by (meson same_terms_trans)

lemma known_job_same: "known_job job s \<Longrightarrow> same_terms job' job \<Longrightarrow> known_job job' s"
  unfolding known_job_def by (meson same_terms_trans)

lemma known_plain: "known_job job s \<Longrightarrow> batch_inv H s \<Longrightarrow> list_all plain_char (BatchID job)"
  unfolding known_job_def by (auto simp: same_terms_def dest: batch_invD(1) simp: job_fine_def)

lemma request_ids:
  assumes "list_all plain_char b"
  shows "trim_space (BatchImageHoldRequestID b) = BatchImageHoldRequestID b" "trim_space (BatchImageCaptureRequestID b) = BatchImageCaptureRequestID b"
    "trim_space (BatchImageReleaseRequestID b) = BatchImageReleaseRequestID b" "trim_space b = b"
    "BatchImageHoldRequestID b = ''batch_image_hold:'' @ b" "BatchImageCaptureRequestID b = ''batch_image_capture:'' @ b"
    "BatchImageReleaseRequestID b = ''batch_image_release:'' @ b"
proof -
  show t: "trim_space b = b" using assms by (rule trim_space_plain)
  then show ids: "BatchImageHoldRequestID b = ''batch_image_hold:'' @ b" "BatchImageCaptureRequestID b = ''batch_image_capture:'' @ b"
    "BatchImageReleaseRequestID b = ''batch_image_release:'' @ b"
    by (simp_all add: BatchImageHoldRequestID_def BatchImageCaptureRequestID_def BatchImageReleaseRequestID_def trim_key_def)
  show "trim_space (BatchImageHoldRequestID b) = BatchImageHoldRequestID b" "trim_space (BatchImageCaptureRequestID b) = BatchImageCaptureRequestID b"
    "trim_space (BatchImageReleaseRequestID b) = BatchImageReleaseRequestID b"
    unfolding ids by (rule trim_space_plain, use assms in \<open>simp add: plain_char_def\<close>)+
qed

lemma request_ids_nonempty:
  "BatchImageHoldRequestID b \<noteq> ''''" "BatchImageCaptureRequestID b \<noteq> ''''" "BatchImageReleaseRequestID b \<noteq> ''''"
  by (simp_all add: BatchImageHoldRequestID_def BatchImageCaptureRequestID_def BatchImageReleaseRequestID_def trim_key_def)

lemma normalized_hold:
  assumes "buildBatchImageHoldCommand job rid a p = Inr cmd" "list_all plain_char (BatchID job)"
  shows "hold_of job (NormalizeHold H cmd)" "HoldRequestID (NormalizeHold H cmd) = trim_space rid"
    "HoldAmount (NormalizeHold H cmd) = HoldAmount cmd" "ActualAmount (NormalizeHold H cmd) = (if a < 0 then 0 else a)"
    "HoldAPIKeyID (NormalizeHold H cmd) = HoldAPIKeyID cmd"
  using assms by (auto simp: buildBatchImageHoldCommand_def NormalizeHold_def Let_def hold_of_def request_ids split: option.splits if_splits)

lemma fair_tx: "snd (under_weather Fair (claimed_tx rid k fp work) s) = snd (claimed_tx rid k fp work s)"
  using claimed_tx_undone [of rid k fp work s] by (cases "claimed_tx rid k fp work s") (auto simp: under_weather_def split: sum.splits)

lemma logged_set: "e \<in> set (logged w r f) \<Longrightarrow> \<exists>a. e = f a"
  by (cases w) (auto simp: logged_def split: sum.splits option.splits)

lemma hold_run:
  "\<exists>es. bill_run H (books_of s) (books_of (snd (ReserveBatchImageBalance H h s))) es \<and> (\<forall>e\<in>set es. e = Reserved (NormalizeHold H h))"
  "\<exists>es. bill_run H (books_of s) (books_of (snd (CaptureBatchImageBalance H h s))) es \<and> (\<forall>e\<in>set es. e = Captured (NormalizeHold H h))"
  "\<exists>es. bill_run H (books_of s) (books_of (snd (ReleaseBatchImageBalance H h s))) es \<and> (\<forall>e\<in>set es. \<exists>m. e = Released (NormalizeHold H h) m)"
proof -
  have fair: "snd (under_weather Fair (ReserveBatchImageBalance H h) u) = snd (ReserveBatchImageBalance H h u)"
    "snd (under_weather Fair (CaptureBatchImageBalance H h) u) = snd (CaptureBatchImageBalance H h u)"
    "snd (under_weather Fair (ReleaseBatchImageBalance H h) u) = snd (ReleaseBatchImageBalance H h u)" for u :: billing_db
    by (simp_all add: ReserveBatchImageBalance_def CaptureBatchImageBalance_def ReleaseBatchImageBalance_def applyBatchImageBalanceHold_def Let_def fair_tx)
  have down: "books_of (snd (ReserveBatchImageBalance H h s)) = snd (ReserveBatchImageBalance H h (books_of s))"
    "books_of (snd (CaptureBatchImageBalance H h s)) = snd (CaptureBatchImageBalance H h (books_of s))"
    "books_of (snd (ReleaseBatchImageBalance H h s)) = snd (ReleaseBatchImageBalance H h (books_of s))"
    using lifts_holds [of H h] by (simp_all add: lifts_def)
  show "\<exists>es. bill_run H (books_of s) (books_of (snd (ReserveBatchImageBalance H h s))) es \<and> (\<forall>e\<in>set es. e = Reserved (NormalizeHold H h))"
    unfolding bill_run_def down
    using br_reserve [of H _ "books_of s" _ Fair h] unfolding fair by (intro exI conjI allI impI) (assumption | auto dest: logged_set)+
  show "\<exists>es. bill_run H (books_of s) (books_of (snd (CaptureBatchImageBalance H h s))) es \<and> (\<forall>e\<in>set es. e = Captured (NormalizeHold H h))"
    unfolding bill_run_def down
    using br_capture [of H _ "books_of s" _ Fair h] unfolding fair by (intro exI conjI allI impI) (assumption | auto dest: logged_set)+
  show "\<exists>es. bill_run H (books_of s) (books_of (snd (ReleaseBatchImageBalance H h s))) es \<and> (\<forall>e\<in>set es. \<exists>m. e = Released (NormalizeHold H h) m)"
    unfolding bill_run_def down
    using br_release [of H _ "books_of s" _ Fair h] unfolding fair by (intro exI conjI allI impI) (assumption | auto dest: logged_set)+
qed

lemma hold_tables:
  fixes s :: batch_db
  shows "image_jobs (snd (ReserveBatchImageBalance H h s)) = image_jobs s" "image_items (snd (ReserveBatchImageBalance H h s)) = image_items s"
  "image_jobs (snd (CaptureBatchImageBalance H h s)) = image_jobs s" "image_items (snd (CaptureBatchImageBalance H h s)) = image_items s"
  "image_jobs (snd (ReleaseBatchImageBalance H h s)) = image_jobs s" "image_items (snd (ReleaseBatchImageBalance H h s)) = image_items s"
  using lifts_holds [of H h] by (simp_all add: lifts_def)

lemma claimed_answer:
  assumes "claimed_tx rid k fp work s = (Inr x, t)"
    "\<And>a u. work (claim_row rid k fp s) = (Inr a, u) \<Longrightarrow> claim_rows u = claim_rows (claim_row rid k fp s)"
  shows "\<exists>fp'. (rid, k, fp') \<in> claim_prints t \<and> trim_space fp' = trim_space fp"
proof (cases x)
  case (Some a)
  from claimed_tx_done [OF assms(1) [unfolded Some]] assms(2) have "claim_rows t = claim_rows (claim_row rid k fp s)" by blast
  then have "set (claim_rows t) = insert \<lparr>dd_request = rid, dd_key = k, dd_fingerprint = fp, dd_created_at = bill_clock s\<rparr> (set (claim_rows s))"
    using claim_rows_claim_row(1) by metis
  then show ?thesis by (auto simp: claim_prints_def)
next
  case None
  have t: "t = s" using claimed_tx_undone [OF assms(1)] None by simp
  have "claimed s rid k"
  proof (rule ccontr)
    assume "\<not> claimed s rid k"
    then show False using assms(1) None by (auto simp: claimed_tx_def claim_fresh split: if_splits prod.splits sum.splits)
  qed
  then obtain r u where r: "r \<in> set (claim_rows s)" "row_claim r = (rid, k)" "claimUsageBillingRequest rid k fp s = (same_fingerprint r fp, u)"
    using request_claim_taken by blast
  then have "trim_space (dd_fingerprint r) = trim_space fp"
    using assms(1) by (auto simp: claimed_tx_def same_fingerprint_def split: if_splits)
  then show ?thesis using r(1,2) unfolding t claim_prints_def row_claim_def by force
qed

lemma capture_answer:
  assumes "CaptureBatchImageBalance H cmd s = (Inr x, t)"
    "buildBatchImageHoldCommand job (BatchImageCaptureRequestID (BatchID job)) a m = Inr cmd" "list_all plain_char (BatchID job)"
  shows "capture_claimed H (claim_prints t) job a m"
proof -
  let ?c = "NormalizeHold H cmd"
  have id: "HoldRequestID ?c = BatchImageCaptureRequestID (BatchID job)" "HoldAPIKeyID ?c = HoldAPIKeyID cmd"
    using normalized_hold [OF assms(2,3), of H] request_ids [OF assms(3)] by simp_all
  have "\<exists>fp'. (HoldRequestID ?c, HoldAPIKeyID ?c, fp') \<in> claim_prints t \<and> trim_space fp' = trim_space (HoldFingerprint ?c)"
    using assms(1) unfolding CaptureBatchImageBalance_def applyBatchImageBalanceHold_def Let_def
    by (rule claimed_answer) (rule hold_rows)
  then show ?thesis unfolding capture_claimed_def id using assms(2) by blast
qed

text \<open>The three transactions as statements of a program.\<close>

lemma known_command:
  assumes "known_job job s" "buildBatchImageHoldCommand job (rid (BatchID job)) a p = Inr cmd"
  shows "job_command H (image_jobs s) rid (NormalizeHold H cmd)"
proof -
  obtain r where r: "r \<in> set (image_jobs s)" "same_terms job r" using assms(1) by (auto simp: known_job_def)
  then have "buildBatchImageHoldCommand r (rid (BatchID r)) a p = Inr cmd"
    using assms(2) build_same [OF r(2)] by (simp add: same_terms_def)
  then show ?thesis using r(1) unfolding job_command_def by blast
qed

lemma hold_steps:
  assumes "known_job job s" "batch_inv H s"
  shows "buildBatchImageHoldCommand job (BatchImageHoldRequestID (BatchID job)) 0 p = Inr cmd \<Longrightarrow> 0 < HoldAmount cmd \<Longrightarrow>
      batch_inv H (snd (ReserveBatchImageBalance H cmd s)) \<and> batch_evolves H s (snd (ReserveBatchImageBalance H cmd s))"
    and "buildBatchImageHoldCommand job (BatchImageCaptureRequestID (BatchID job)) a p = Inr cmd \<Longrightarrow>
      batch_inv H (snd (CaptureBatchImageBalance H cmd s)) \<and> batch_evolves H s (snd (CaptureBatchImageBalance H cmd s))"
    and "buildBatchImageHoldCommand job (BatchImageReleaseRequestID (BatchID job)) 0 p = Inr cmd \<Longrightarrow> 0 < HoldAmount cmd \<Longrightarrow>
      batch_inv H (snd (ReleaseBatchImageBalance H cmd s)) \<and> batch_evolves H s (snd (ReleaseBatchImageBalance H cmd s))"
proof -
  note plain = known_plain [OF assms]
  note ids = request_ids [OF plain]
  show "batch_inv H (snd (ReserveBatchImageBalance H cmd s)) \<and> batch_evolves H s (snd (ReserveBatchImageBalance H cmd s))"
    if c: "buildBatchImageHoldCommand job (BatchImageHoldRequestID (BatchID job)) 0 p = Inr cmd" "0 < HoldAmount cmd"
  proof -
    obtain es where es: "bill_run H (books_of s) (books_of (snd (ReserveBatchImageBalance H cmd s))) es" "\<forall>e\<in>set es. e = Reserved (NormalizeHold H cmd)"
      using hold_run(1) by blast
    have "job_command H (image_jobs s) BatchImageHoldRequestID (NormalizeHold H cmd)"
      using known_command [where rid = BatchImageHoldRequestID, OF assms(1) c(1)] .
    then have "proper_entry H (image_jobs s) e" if "e \<in> set es" for e
      using es(2) [rule_format, OF that] normalized_hold(3) [OF c(1) plain, of H] c(2) by auto
    then show ?thesis by (intro money_step [OF assms(2) es(1)] hold_tables)
  qed
  show "batch_inv H (snd (CaptureBatchImageBalance H cmd s)) \<and> batch_evolves H s (snd (CaptureBatchImageBalance H cmd s))"
    if c: "buildBatchImageHoldCommand job (BatchImageCaptureRequestID (BatchID job)) a p = Inr cmd"
  proof -
    obtain es where es: "bill_run H (books_of s) (books_of (snd (CaptureBatchImageBalance H cmd s))) es" "\<forall>e\<in>set es. e = Captured (NormalizeHold H cmd)"
      using hold_run(2) by blast
    have "job_command H (image_jobs s) BatchImageCaptureRequestID (NormalizeHold H cmd)"
      using known_command [where rid = BatchImageCaptureRequestID, OF assms(1) c] .
    then have "proper_entry H (image_jobs s) e" if "e \<in> set es" for e
      using es(2) [rule_format, OF that] normalized_hold(3) [OF c plain, of H] by auto
    then show ?thesis by (intro money_step [OF assms(2) es(1)] hold_tables)
  qed
  show "batch_inv H (snd (ReleaseBatchImageBalance H cmd s)) \<and> batch_evolves H s (snd (ReleaseBatchImageBalance H cmd s))"
    if c: "buildBatchImageHoldCommand job (BatchImageReleaseRequestID (BatchID job)) 0 p = Inr cmd" "0 < HoldAmount cmd"
  proof -
    obtain es where es: "bill_run H (books_of s) (books_of (snd (ReleaseBatchImageBalance H cmd s))) es" "\<forall>e\<in>set es. \<exists>m. e = Released (NormalizeHold H cmd) m"
      using hold_run(3) by blast
    have "job_command H (image_jobs s) BatchImageReleaseRequestID (NormalizeHold H cmd)"
      using known_command [where rid = BatchImageReleaseRequestID, OF assms(1) c(1)] .
    then have "proper_entry H (image_jobs s) e" if "e \<in> set es" for e
      using es(2) [rule_format, OF that] normalized_hold(3) [OF c(1) plain, of H] c(2) by auto
    then show ?thesis by (intro money_step [OF assms(2) es(1)] hold_tables)
  qed
qed

lemma fine_reserve: "known_job job s \<Longrightarrow> bat.safe_prog H (reserveBatchImageBalanceHold H job p) (\<lambda>_ _. True) s"
  unfolding reserveBatchImageBalanceHold_def
  by (intro batch_rules fine_batch_sql hold_steps(1)) (auto intro: known_job_evolves)

lemma fine_release: "known_job job s \<Longrightarrow> bat.safe_prog H (releaseBatchImageBalanceHold H job p) (\<lambda>_ _. True) s"
  unfolding releaseBatchImageBalanceHold_def
  by (intro batch_rules fine_batch_sql hold_steps(3)) (auto intro: known_job_evolves)

text \<open>A capture that reports no error is claimed, with this amount and manifest hash.\<close>

lemma fine_capture:
  assumes "known_job job s"
  shows "bat.safe_prog H (captureBatchImageBalanceHold H job a m) (\<lambda>r t. r = None \<longrightarrow> capture_claimed H (claim_prints t) job a m) s"
proof (cases "buildBatchImageHoldCommand job (BatchImageCaptureRequestID (BatchID job)) a m")
  case (Inl e)
  then show ?thesis by (simp add: captureBatchImageBalanceHold_def)
next
  case (Inr cmd)
  have "bat.safe_prog H (batch_sql (CaptureBatchImageBalance H cmd))
      (\<lambda>r t. \<forall>x. r = Inr x \<longrightarrow> capture_claimed H (claim_prints t) job a m) s"
    unfolding batch_sql_def
  proof (rule bat.safe_stmt)
    fix t :: batch_db and c r u
    assume t: "batch_inv H t" "batch_evolves H s t" "under_weather (batch_weather c) (CaptureBatchImageBalance H cmd) t = (r, u)"
    have known: "known_job job t" using known_job_evolves [OF assms t(2)] .
    have "u = t \<or> u = snd (CaptureBatchImageBalance H cmd t)"
      using snd_under_weather [of "batch_weather c" "CaptureBatchImageBalance H cmd" t] t(3) by simp
    then have step: "batch_inv H u \<and> batch_evolves H t u"
      using hold_steps(2) [OF known t(1) Inr] t(1) batch_evolves_refl by blast
    have claimed: "capture_claimed H (claim_prints u) job a m" if "r = Inr x" for x
    proof -
      have "CaptureBatchImageBalance H cmd t = (Inr x, u)"
        using t(3) that by (cases "batch_weather c") (auto simp: under_weather_def split: prod.splits sum.splits)
      then show ?thesis using capture_answer Inr known_plain [OF known t(1)] by blast
    qed
    have "capture_claimed H (claim_prints v) job a m" if "r = Inr x" "batch_evolves H u v" for x v
      using claimed [OF that(1)] capture_claimed_mono that(2) unfolding batch_evolves_def by blast
    then show "batch_inv H u \<and> batch_evolves H t u \<and>
        (\<forall>v. batch_inv H v \<longrightarrow> batch_evolves H u v \<longrightarrow> (\<forall>x. r = Inr x \<longrightarrow> capture_claimed H (claim_prints v) job a m))"
      using step by blast
  qed
  then show ?thesis
    unfolding captureBatchImageBalanceHold_def Inr sum.case
    by (rule bat.safe_checked) (auto simp: batch_evolves_def dest: capture_claimed_mono)
qed

subsection \<open>Statements on jobs and items\<close>

definition keeps_settled :: "BatchImageJob \<Rightarrow> BatchImageJob \<Rightarrow> bool" where
  "keeps_settled r r' \<longleftrightarrow> same_terms r r' \<and> JobStatus r' \<in> job_statuses \<and>
     (settled_status (JobStatus r') \<longrightarrow> settled_status (JobStatus r) \<and> ActualCost r' = ActualCost r \<and> ManifestHash r' = ManifestHash r)"

lemma paid_keeps: "paid_job H P r \<Longrightarrow> keeps_settled r r' \<Longrightarrow> paid_job H P r'"
  unfolding paid_job_def keeps_settled_def using capture_claimed_same by fastforce

lemma set_jobs_keeps:
  assumes "batch_inv H s" "\<And>r. r \<in> set (image_jobs s) \<Longrightarrow> hit r \<Longrightarrow> JobStatus r \<in> job_statuses \<Longrightarrow> keeps_settled r (f r)"
  shows "batch_inv H (set_jobs hit f s) \<and> batch_evolves H s (set_jobs hit f s)"
proof (rule set_jobs_step [OF assms(1)])
  fix r assume r: "r \<in> set (image_jobs s)" "hit r"
  have "JobStatus r \<in> job_statuses" using batch_invD(1) [OF assms(1) r(1)] by (simp add: job_fine_def)
  then show "same_terms r (f r) \<and> JobStatus (f r) \<in> job_statuses \<and> paid_job H (claim_prints s) (f r)"
    using assms(2) [OF r] paid_keeps batch_invD(2) [OF assms(1) r(1)] by (auto simp: keeps_settled_def)
qed

lemma settled_status_simps [simp]:
  "\<not> settled_status BatchImageJobStatusCreated" "\<not> settled_status BatchImageJobStatusUploading" "\<not> settled_status BatchImageJobStatusSubmitted"
  "\<not> settled_status BatchImageJobStatusRunning" "\<not> settled_status BatchImageJobStatusIndexing" "\<not> settled_status BatchImageJobStatusSettling"
  "\<not> settled_status BatchImageJobStatusFailed" "\<not> settled_status BatchImageJobStatusCancelled"
  "settled_status BatchImageJobStatusCompleted" "settled_status BatchImageJobStatusOutputDeleted"
  by (simp_all add: settled_status_def job_status_defs)

lemma job_statuses_simps [simp]:
  "BatchImageJobStatusCreated \<in> job_statuses" "BatchImageJobStatusUploading \<in> job_statuses" "BatchImageJobStatusSubmitted \<in> job_statuses"
  "BatchImageJobStatusRunning \<in> job_statuses" "BatchImageJobStatusIndexing \<in> job_statuses" "BatchImageJobStatusSettling \<in> job_statuses"
  "BatchImageJobStatusFailed \<in> job_statuses" "BatchImageJobStatusCancelled \<in> job_statuses"
  "BatchImageJobStatusCompleted \<in> job_statuses" "BatchImageJobStatusOutputDeleted \<in> job_statuses"
  by (simp_all add: job_statuses_def)

lemmas job_stmt_simps = keeps_settled_def same_terms_def

lemma with_job_safe:
  assumes "\<And>r s. batch_inv H s \<Longrightarrow> batch_inv H (snd (f r s)) \<and> batch_evolves H s (snd (f r s))"
  shows "batch_safe H (with_job b f)"
  using assms by (auto simp: batch_safe_def with_job_def batch_evolves_refl split: option.split)

lemma safe_gets:
  "batch_safe H (GetBatchImageJobByBatchID b)" "batch_safe H (GetBatchImageJobByIdempotencyKey u k key)"
  "batch_safe H (GetBatchImageJobByBatchIDForOwner u k b)" "batch_safe H (ListStaleUnsubmittedBatchImageJobs cutoff limit)"
  "batch_safe H (ListBatchImageItems b n off)"
  by (rule safe_read, simp add: GetBatchImageJobByBatchID_def with_job_def GetBatchImageJobByIdempotencyKey_def
      GetBatchImageJobByBatchIDForOwner_def ListStaleUnsubmittedBatchImageJobs_def Let_def ListBatchImageItems_def split: option.split)+

lemma safe_transition: "to \<in> job_statuses \<Longrightarrow> \<not> settled_status to \<Longrightarrow> batch_safe H (TransitionBatchImageJobStatus b to code)"
  unfolding TransitionBatchImageJobStatus_def
  by (rule with_job_safe) (auto simp: batch_evolves_refl job_stmt_simps intro!: set_jobs_keeps)

lemma safe_touch: "batch_safe H (TouchBatchImageJobSubmitting b)"
  by (auto simp: batch_safe_def TouchBatchImageJobSubmitting_def job_stmt_simps intro!: set_jobs_keeps)

lemma safe_fail_stale: "batch_safe H (fail_stale b cutoff code)"
  by (auto simp: batch_safe_def fail_stale_def Let_def job_stmt_simps intro!: set_jobs_keeps)

lemma safe_output_ref: "batch_safe H (UpdateBatchImageJobProviderOutputRef b ref)"
  by (auto simp: batch_safe_def UpdateBatchImageJobProviderOutputRef_def job_stmt_simps batch_evolves_refl intro!: set_jobs_keeps)

lemma safe_provider_submit: "batch_safe H (UpdateBatchImageJobProviderSubmit b n ref)"
  unfolding UpdateBatchImageJobProviderSubmit_def
  by (rule with_job_safe) (auto simp: batch_evolves_refl job_stmt_simps intro!: set_jobs_keeps)

lemma safe_submit_failure: "batch_safe H (submit_failure b code failed)"
  by (auto simp: batch_safe_def submit_failure_def job_stmt_simps intro!: set_jobs_keeps)

lemma safe_settlement_failure: "batch_safe H (settlement_failure b code)"
  unfolding settlement_failure_def
  by (rule with_job_safe) (auto simp: job_stmt_simps intro!: set_jobs_keeps)

lemma safe_user_deleted: "batch_safe H (MarkBatchImageJobUserDeleted u k b d)"
  by (auto simp: batch_safe_def MarkBatchImageJobUserDeleted_def Let_def job_stmt_simps batch_evolves_refl intro!: set_jobs_keeps)

lemma safe_output_deleted: "batch_safe H (MarkBatchImageOutputDeleted b d)"
  by (auto simp: batch_safe_def MarkBatchImageOutputDeleted_def job_stmt_simps batch_evolves_refl intro!: set_jobs_keeps)

lemma insert_items_keeps:
  "insert_items is s = (r, t) \<Longrightarrow> items_unique (image_items s) \<Longrightarrow>
   items_unique (image_items t) \<and> image_jobs t = image_jobs s \<and> books_of t = books_of s"
proof (induction "is" arbitrary: s)
  case (Cons i "is")
  show ?case
  proof (cases "list_ex (\<lambda>x. ItemJobID x = ItemJobID i \<and> CustomID x = CustomID i) (image_items s)")
    case False
    then have "items_unique (image_items (s\<lparr>image_items := image_items s @ [i]\<rparr>))"
      using Cons.prems(2) by (auto simp: items_unique_def list_ex_iff)
    from Cons.IH [OF _ this] Cons.prems(1) False show ?thesis by simp
  qed (use Cons.prems in auto)
qed simp

lemma safe_bulk_create: "batch_safe H (BulkCreateBatchImageItems is)"
  unfolding batch_safe_def
proof (intro allI impI)
  fix s assume inv: "batch_inv H s"
  obtain r t where rt: "insert_items is s = (r, t)" by (cases "insert_items is s")
  have keep: "items_unique (image_items t) \<and> image_jobs t = image_jobs s \<and> books_of t = books_of s"
    using insert_items_keeps [OF rt] inv by (simp add: batch_inv_def)
  then have "batch_inv H t \<and> batch_evolves H s t"
    by (intro batch_step [OF inv, where new = "[]" and hit = "\<lambda>_. False" and f = id]) auto
  then show "batch_inv H (snd (BulkCreateBatchImageItems is s)) \<and> batch_evolves H s (snd (BulkCreateBatchImageItems is s))"
    using inv batch_evolves_refl by (cases r) (auto simp: BulkCreateBatchImageItems_def rt)
qed

lemma safe_replace_items: "batch_safe H (replace_items b items a c)"
  unfolding batch_safe_def
proof (intro allI impI)
  fix s assume inv: "batch_inv H s"
  let ?rows = "map (\<lambda>i. i\<lparr>ItemJobID := b, PromptPreview := (case PromptPreview i of None \<Rightarrow> batchImageItemPromptPreviews b s (CustomID i)
      | Some p \<Rightarrow> Some p)\<rparr>) items"
  let ?s0 = "s\<lparr>image_items := filter (\<lambda>i. ItemJobID i \<noteq> b) (image_items s)\<rparr>"
  let ?f = "\<lambda>x. x\<lparr>SuccessCount := a, FailCount := c, JobUpdatedAt := stamp s\<rparr>"
  obtain x t where t: "insert_items ?rows ?s0 = (x, t)" by (cases "insert_items ?rows ?s0")
  have "items_unique (image_items ?s0)" using inv by (simp add: batch_inv_def items_unique_def distinct_map_filter)
  from insert_items_keeps [OF t this] have keep: "items_unique (image_items t)" "image_jobs t = image_jobs s" "books_of t = books_of s"
    by simp_all
  have inv_t: "batch_inv H t \<and> batch_evolves H s t"
    using keep by (intro batch_step [OF inv, where new = "[]" and hit = "\<lambda>_. False" and f = id]) auto
  have "batch_inv H (set_jobs (\<lambda>x. BatchID x = b) ?f t) \<and> batch_evolves H t (set_jobs (\<lambda>x. BatchID x = b) ?f t)"
    by (rule set_jobs_keeps) (use inv_t in \<open>auto simp: job_stmt_simps\<close>)
  then have "batch_inv H (set_jobs (\<lambda>x. BatchID x = b) ?f t) \<and> batch_evolves H s (set_jobs (\<lambda>x. BatchID x = b) ?f t)"
    using inv_t batch_evolves_trans by blast
  then show "batch_inv H (snd (replace_items b items a c s)) \<and> batch_evolves H s (snd (replace_items b items a c s))"
    using inv batch_evolves_refl by (cases x) (simp_all add: replace_items_def Let_def t)
qed

lemma safe_replace: "batch_safe H (ReplaceBatchImageItemsForJob b items a c)"
  unfolding ReplaceBatchImageItemsForJob_def
  by (rule with_job_safe) (use safe_replace_items in \<open>auto simp: batch_safe_def batch_evolves_refl\<close>)

lemma safe_create:
  assumes "list_all plain_char (BatchID r)" "JobStatus r = BatchImageJobStatusCreated"
  shows "batch_safe H (CreateBatchImageJob r)"
  unfolding batch_safe_def
proof (intro allI impI)
  fix s assume inv: "batch_inv H s"
  show "batch_inv H (snd (CreateBatchImageJob r s)) \<and> batch_evolves H s (snd (CreateBatchImageJob r s))"
  proof (cases "IsSupportedBatchImageProvider (JobProvider r) \<and> \<not> hits (\<lambda>x. BatchID x = BatchID r) s")
    case True
    then show ?thesis
      by (intro batch_step [OF inv, where new = "[r\<lparr>JobUpdatedAt := stamp s\<rparr>]" and hit = "\<lambda>_. False" and f = id])
        (use assms inv in \<open>auto simp: CreateBatchImageJob_def hits_def list_ex_iff job_fine_def paid_job_def batch_inv_def\<close>)
  next
    case False
    then show ?thesis using inv batch_evolves_refl by (auto simp: CreateBatchImageJob_def)
  qed
qed

subsection \<open>Programs keep to the invariant\<close>

lemma fine_event: "bat.safe_prog H AppendBatchImageEvent (\<lambda>_ _. True) s"
  unfolding AppendBatchImageEvent_def by (rule fine_safe) (simp add: safe_read)

lemma fine_enqueue: "bat.safe_prog H Enqueue (\<lambda>_ _. True) s"
  unfolding Enqueue_def by (rule fine_asked)

lemma fine_record: "bat.safe_prog H (RecordBatchImageJobSubmitFailure b code failed) (\<lambda>_ _. True) s"
  unfolding RecordBatchImageJobSubmitFailure_def by (intro batch_rules fine_event fine_safe safe_submit_failure)

lemma fine_record_settlement: "bat.safe_prog H (SetBatchImageJobSettlementFailed b code) (\<lambda>_ _. True) s"
  unfolding SetBatchImageJobSettlementFailed_def by (intro batch_rules fine_event fine_safe safe_settlement_failure)

lemma fine_retry_enqueue: "bat.safe_prog H enqueueBillingRetry (\<lambda>_ _. True) s"
  unfolding enqueueBillingRetry_def by (intro batch_rules fine_event fine_enqueue)

lemma fine_hide: "bat.safe_prog H (hidePreUpstreamSubmitFailure q job) (\<lambda>_ _. True) s"
  unfolding hidePreUpstreamSubmitFailure_def by (intro batch_rules fine_event fine_safe safe_user_deleted)

lemma fine_transition: "to \<in> job_statuses \<Longrightarrow> \<not> settled_status to \<Longrightarrow> bat.safe_prog H (batch_sql (TransitionBatchImageJobStatus b to code)) (\<lambda>_ _. True) s"
  by (intro fine_safe safe_transition)

text \<open>A read gives a job that is known from then on.\<close>

definition reads_job :: "BatchImageJob batch_stmt \<Rightarrow> bool" where
  "reads_job f \<longleftrightarrow> (\<forall>s. snd (f s) = s \<and> (\<forall>r. fst (f s) = Inr r \<longrightarrow> r \<in> set (image_jobs s)))"

lemma reads_jobs:
  "reads_job (GetBatchImageJobByBatchID b)" "reads_job (GetBatchImageJobByBatchIDForOwner u k b)"
  by (auto simp: reads_job_def GetBatchImageJobByBatchID_def with_job_def GetBatchImageJobByBatchIDForOwner_def find_Some_iff split: option.split)

lemma known_now: "r \<in> set (image_jobs s) \<Longrightarrow> known_job r s"
  unfolding known_job_def using same_terms_refl by blast

lemma under_weather_Inr: "under_weather w f s = (Inr a, t) \<Longrightarrow> f s = (Inr a, t)"
  by (cases w) (auto simp: under_weather_def split: prod.splits sum.splits)

lemma safe_answer:
  assumes "\<And>t a u. batch_inv H t \<Longrightarrow> batch_evolves H s t \<Longrightarrow> f t = (Inr a, u) \<Longrightarrow> P a u"
    "\<And>a t u. P a t \<Longrightarrow> batch_evolves H t u \<Longrightarrow> P a u" "batch_safe H f"
  shows "bat.safe_prog H (batch_sql f) (\<lambda>r t. \<forall>a. r = Inr a \<longrightarrow> P a t) s"
  unfolding batch_sql_def
proof (rule bat.safe_stmt)
  fix t :: batch_db and c r u
  assume t: "batch_inv H t" "batch_evolves H s t" "under_weather (batch_weather c) f t = (r, u)"
  then have "u = t \<or> u = snd (f t)" using snd_under_weather [of "batch_weather c" f t] by simp
  then have "batch_inv H u \<and> batch_evolves H t u"
    using t(1) assms(3) [unfolded batch_safe_def, rule_format, OF t(1)] batch_evolves_refl by fastforce
  moreover have "P a v" if a: "r = Inr a" and v: "batch_evolves H u v" for a v
  proof (rule assms(2) [OF _ v], rule assms(1) [OF t(1,2)])
    show "f t = (Inr a, u)" using t(3) unfolding a by (rule under_weather_Inr)
  qed
  ultimately show "batch_inv H u \<and> batch_evolves H t u \<and> (\<forall>v. batch_inv H v \<longrightarrow> batch_evolves H u v \<longrightarrow> (\<forall>a. r = Inr a \<longrightarrow> P a v))"
    by simp
qed

lemma read_job:
  assumes "reads_job f" "\<And>e t. batch_evolves H s t \<Longrightarrow> bat.safe_prog H (failed e) R t"
    "\<And>r t. batch_evolves H s t \<Longrightarrow> known_job r t \<Longrightarrow> bat.safe_prog H (k r) R t"
  shows "bat.safe_prog H (checked (batch_sql f) failed k) R s"
proof (rule bat.safe_checked)
  show "bat.safe_prog H (batch_sql f) (\<lambda>r t. \<forall>a. r = Inr a \<longrightarrow> known_job a t) s"
  proof (rule safe_answer)
    fix t a u assume "f t = (Inr a, u)"
    then have "u = t" "a \<in> set (image_jobs t)" using assms(1) [unfolded reads_job_def, rule_format, of t] by auto
    then show "known_job a u" using known_now by simp
  next
    have "snd (f s) = s" for s using assms(1) by (simp add: reads_job_def)
    then show "batch_safe H f" by (rule safe_read)
  qed (rule known_job_evolves)
qed (use assms(2,3) in auto)

lemma fine_release_failed: "known_job job s \<Longrightarrow> bat.safe_prog H (releaseFailedSubmitHold H job h) (\<lambda>_ _. True) s"
  unfolding releaseFailedSubmitHold_def by (intro batch_rules fine_release fine_record fine_retry_enqueue)

lemma fine_abandon: "known_job job s \<Longrightarrow> bat.safe_prog H (abandon_submit H q job code err) (\<lambda>_ _. True) s"
  unfolding abandon_submit_def by (intro batch_rules fine_release_failed fine_record fine_hide)

lemma fine_taken: "bat.safe_prog H (submit_taken job pj) (\<lambda>_ _. True) s"
  unfolding submit_taken_def abortOrphanProviderJob_def
  by (intro batch_rules fine_event fine_enqueue fine_record fine_safe safe_provider_submit safe_gets)

lemma fine_items: "bat.safe_prog H (createPendingItems q b) (\<lambda>_ _. True) s"
  unfolding createPendingItems_def by (intro batch_rules fine_safe safe_bulk_create)

lemma fine_held: "known_job job s \<Longrightarrow> bat.safe_prog H (submit_held H q job) (\<lambda>_ _. True) s"
  unfolding submit_held_def
  by (intro batch_rules fine_items fine_transition fine_taken fine_abandon fine_release_failed) (blast intro: known_job_evolves | simp)+

lemma plain_hex: "list_all plain_char (hex_encode b)"
proof -
  have "plain_char (hex_digit d)" if "d < 16" for d
    using that by (auto simp: hex_digit_def plain_char_def)
  then show ?thesis by (induction b) (simp_all add: hex_encode_def less_mult_imp_div_less)
qed

lemma fine_submit_new: "bat.safe_prog H (submit_new H q) (\<lambda>_ _. True) s"
  unfolding submit_new_def
proof (rule bat.safe_checked)
  show "bat.safe_prog H (asked NewBatchImageID) (\<lambda>r _. \<forall>b. r = Inr b \<longrightarrow> list_all plain_char b) s"
    unfolding asked_def
    by (rule bat.safe_stmt) (auto simp: NewBatchImageID_def plain_hex plain_char_def batch_evolves_refl map_sum_def split: sum.splits)
next
  fix b t assume b: "\<forall>c. Inr b = Inr c \<longrightarrow> list_all plain_char c"
  show "bat.safe_prog H (checked (batch_sql (CreateBatchImageJob (submitted_job q b))) (\<lambda>e. Ret (Inl e)) (\<lambda>job.
     unless_error (reserveBatchImageBalanceHold H job (sub_hash q))
       (\<lambda>e. ignoring (RecordBatchImageJobSubmitFailure b
              (if errors_is e ErrBatchImageInsufficientBalance then ''INSUFFICIENT_BALANCE'' else ''BILLING_HOLD_FAILED'') True)
              (ignoring (hidePreUpstreamSubmitFailure q job) (Ret (Inl e))))
       (submit_held H q job))) (\<lambda>_ _. True) t"
  proof (rule bat.safe_checked)
    show "bat.safe_prog H (batch_sql (CreateBatchImageJob (submitted_job q b))) (\<lambda>r t. \<forall>a. r = Inr a \<longrightarrow> known_job a t) t"
    proof (rule safe_answer)
      fix t a u assume "CreateBatchImageJob (submitted_job q b) t = (Inr a, u)"
      then show "known_job a u" by (auto simp: CreateBatchImageJob_def intro!: known_now split: if_splits)
    next
      show "batch_safe H (CreateBatchImageJob (submitted_job q b))" using b by (intro safe_create) (simp_all add: submitted_job_def)
    qed (rule known_job_evolves)
  next
    fix job u assume "\<forall>a. Inr job = Inr a \<longrightarrow> known_job a u"
    then show "bat.safe_prog H (unless_error (reserveBatchImageBalanceHold H job (sub_hash q))
       (\<lambda>e. ignoring (RecordBatchImageJobSubmitFailure b
              (if errors_is e ErrBatchImageInsufficientBalance then ''INSUFFICIENT_BALANCE'' else ''BILLING_HOLD_FAILED'') True)
              (ignoring (hidePreUpstreamSubmitFailure q job) (Ret (Inl e))))
       (submit_held H q job)) (\<lambda>_ _. True) u"
      by (intro batch_rules fine_reserve fine_record fine_hide fine_held) (auto intro: known_job_evolves)
  qed simp
qed simp

lemma fine_submit: "bat.safe_prog H (Submit H q) (\<lambda>_ _. True) s"
  unfolding Submit_def Let_def
  by (intro batch_rules fine_submit_new fine_enqueue fine_record fine_safe safe_gets)

lemma fine_cancel_batch: "bat.safe_prog H (Cancel H u k b) (\<lambda>_ _. True) s"
  unfolding Cancel_def
  by (intro read_job [OF reads_jobs(2)] batch_rules fine_release fine_retry_enqueue fine_event fine_enqueue fine_transition fine_safe safe_gets)
    (blast intro: known_job_evolves | simp)+

lemma fine_delete: "bat.safe_prog H (DeleteRecord u k b) (\<lambda>_ _. True) s"
  unfolding DeleteRecord_def
  by (intro read_job [OF reads_jobs(2)] batch_rules fine_event fine_safe safe_user_deleted)

lemma fine_fail_stale: "bat.safe_prog H (FailStaleUnsubmittedBatchImageJob b cutoff code) (\<lambda>_ _. True) s"
  unfolding FailStaleUnsubmittedBatchImageJob_def by (intro batch_rules fine_event fine_safe safe_fail_stale)

lemma fine_release_each:
  "\<forall>j\<in>set jobs. known_job j s \<Longrightarrow> bat.safe_prog H (release_each H cutoff jobs n e) (\<lambda>_ _. True) s"
proof (induction jobs arbitrary: n e s)
  case (Cons j jobs)
  have IH: "bat.safe_prog H (release_each H cutoff jobs n e) (\<lambda>_ _. True) t" if "batch_evolves H s t" for n e t
    using Cons that known_job_evolves by (metis list.set_intros(2))
  have "bat.safe_prog H (unless_error (releaseBatchImageBalanceHold H j p)
       (\<lambda>e. ignoring Enqueue (release_each H cutoff jobs n (Some e))) (release_each H cutoff jobs (n + 1) e')) (\<lambda>_ _. True) t"
    if "batch_evolves H s t" for p e' t
    using that Cons.prems known_job_evolves
    by (intro batch_rules fine_release fine_enqueue IH) (auto intro: batch_evolves_trans)
  then show ?case
    by (simp, intro bat.keep_then fine_fail_stale) (auto intro: IH)
qed simp

lemma fine_recovery: "bat.safe_prog H (ReleaseStaleUnsubmittedOnce H d n) (\<lambda>_ _. True) s"
  unfolding ReleaseStaleUnsubmittedOnce_def Let_def
proof (rule bat.keep_then [OF fine_now], rule bat.safe_checked)
  fix now t
  let ?cutoff = "add_time now (- (if d \<le> 0 then defaultBatchImageBillingRecoveryStaleAfter else d))"
  let ?limit = "if n \<le> 0 then defaultBatchImageBillingRecoveryLimit else n"
  show "bat.safe_prog H (batch_sql (ListStaleUnsubmittedBatchImageJobs ?cutoff ?limit)) (\<lambda>r t. \<forall>js. r = Inr js \<longrightarrow> (\<forall>j\<in>set js. known_job j t)) t"
  proof (rule safe_answer)
    fix t js u assume "ListStaleUnsubmittedBatchImageJobs ?cutoff ?limit t = (Inr js, u)"
    then show "\<forall>j\<in>set js. known_job j u"
      by (auto simp: ListStaleUnsubmittedBatchImageJobs_def Let_def dest!: in_set_takeD intro!: known_now)
  qed (use known_job_evolves safe_gets(4) in blast)+
qed (auto intro: fine_release_each)

subsection \<open>Processing and settlement\<close>

lemma fine_requeue: "bat.safe_prog H (requeue d) (\<lambda>_ _. True) s" "bat.safe_prog H finished (\<lambda>_ _. True) s"
  by (simp_all add: requeue_def finished_def)

lemma known_status: "known_job job s \<Longrightarrow> known_job (job\<lparr>JobStatus := st\<rparr>) s" "known_job job s \<Longrightarrow> known_job (job\<lparr>ProviderOutputRef := ref\<rparr>) s"
  "known_job job s \<Longrightarrow> known_job (job\<lparr>RetryCount := n, LastErrorCode := e\<rparr>) s"
  by (auto intro: known_job_same simp: same_terms_def)

lemma fine_terminal: "known_job job s \<Longrightarrow> bat.safe_prog H (releaseTerminalHold H job) (\<lambda>_ _. True) s"
  unfolding releaseTerminalHold_def by (intro batch_rules fine_release)

lemma fine_fail_release:
  "known_job job s \<Longrightarrow> to \<in> job_statuses \<Longrightarrow> \<not> settled_status to \<Longrightarrow> bat.safe_prog H (fail_and_release H job to code) (\<lambda>_ _. True) s"
  unfolding fail_and_release_def
  by (intro batch_rules fine_transition fine_terminal fine_requeue known_status) (blast intro: known_job_evolves)+

lemma fine_expected: "bat.safe_prog H (listExpectedCustomIDs n b off ids) (\<lambda>_ _. True) s"
proof (induction n arbitrary: off ids s)
  case (Suc n)
  show ?case by (simp, intro batch_rules fine_safe safe_gets Suc.IH)
qed simp

lemma fine_index: "bat.safe_prog H (Index J n job) (\<lambda>_ _. True) s"
proof -
  have "bat.safe_prog H (case x of (result, items, reconciled) \<Rightarrow>
      ignoring (if reconciled then AppendBatchImageEvent else Ret (Inr ()))
        (checked (batch_sql (ReplaceBatchImageItemsForJob (BatchID job) items (IndexSuccess result) (IndexFail result)))
          (\<lambda>e. Ret (Inl e)) (\<lambda>_. Ret (Inr result)))) (\<lambda>_ _. True) t"
    for x :: "BatchImageIndexResult \<times> BatchImageItem list \<times> bool" and t
    by (cases x, simp only: prod.case, intro batch_rules fine_event fine_safe safe_replace)
  then show ?thesis unfolding Index_def Let_def by (intro batch_rules fine_expected)
qed

lemma fine_index_settle: "known_job job s \<Longrightarrow> bat.safe_prog H (indexAndSettle H J n job) (\<lambda>_ _. True) s"
  unfolding indexAndSettle_def
  by (intro batch_rules fine_index fine_requeue fine_fail_release fine_transition) (blast intro: known_job_evolves | simp)+

lemma fine_persist:
  "known_job job s \<Longrightarrow> bat.safe_prog H (persistProviderOutputRef job ref) (\<lambda>r t. \<forall>j. r = Inr j \<longrightarrow> known_job j t) s"
  unfolding persistProviderOutputRef_def Let_def
proof (rule bat.keep_if)
  assume known: "known_job job s"
  show "bat.safe_prog H (checked (batch_sql (UpdateBatchImageJobProviderOutputRef (BatchID job) (trim_space ref))) (\<lambda>e. Ret (Inl e))
      (\<lambda>_. Ret (Inr (job\<lparr>ProviderOutputRef := Some (trim_space ref)\<rparr>)))) (\<lambda>r t. \<forall>j. r = Inr j \<longrightarrow> known_job j t) s"
  proof (rule bat.safe_checked [OF fine_safe [OF safe_output_ref]])
    fix a :: unit and t assume "batch_evolves H s t"
    then have "known_job (job\<lparr>ProviderOutputRef := Some (trim_space ref)\<rparr>) t" using known known_job_evolves known_status(2) by blast
    then show "bat.safe_prog H (Ret (Inr (job\<lparr>ProviderOutputRef := Some (trim_space ref)\<rparr>))) (\<lambda>r t. \<forall>j. r = Inr j \<longrightarrow> known_job j t) t"
      using known_job_evolves by auto
  qed simp
qed (auto intro: known_job_evolves)

lemma fine_follow: "known_job job s \<Longrightarrow> bat.safe_prog H (follow_status H J n d job st) (\<lambda>_ _. True) s"
  unfolding follow_status_def Let_def
  by (intro batch_rules fine_requeue fine_transition fine_index_settle fine_fail_release known_status) (blast intro: known_job_evolves | simp)+

lemma fine_provider_process: "bat.safe_prog H (provider_Process H J n d b) (\<lambda>_ _. True) s"
  unfolding provider_Process_def
proof (rule read_job [OF reads_jobs(1)], simp, rule bat.keep_if)
  fix job t assume known: "known_job job t"
  then show "bat.safe_prog H (unless_error (releaseTerminalHold H job) (\<lambda>e. Ret (Inl e)) finished) (\<lambda>_ _. True) t"
    by (intro batch_rules fine_terminal fine_requeue)
  have follow: "bat.safe_prog H (checked (persistProviderOutputRef job ref) (\<lambda>e. Ret (Inl e)) (\<lambda>job'. follow_status H J n d job' st)) (\<lambda>_ _. True) u"
    if "known_job job u" for ref st u
    by (rule bat.safe_checked [OF fine_persist [OF that]]) (auto intro: fine_follow)
  show "bat.safe_prog H (and_then (asked provider_known) (\<lambda>k.
       if \<not> k then Ret (Inl ErrBatchImageUnsupportedProvider)
       else if (case JobAccountID job of None \<Rightarrow> True | Some a \<Rightarrow> a \<le> 0) then Ret (Inl ErrBatchImageMissingAccountID)
       else checked (asked account_answer) (\<lambda>e. Ret (Inl e)) (\<lambda>supported.
         if \<not> supported then Ret (Inl ErrBatchImageProviderUnsupportedAccount)
         else if batchImageDerefString (ProviderJobName job) = '''' then Ret (Inl ErrBatchImageMissingProviderJobName)
         else if JobStatus job = BatchImageJobStatusIndexing then indexAndSettle H J n job
         else checked (asked get_answer) (\<lambda>e. requeue batchImageProviderErrorRequeue) (\<lambda>answer. case answer of
             None \<Rightarrow> requeue (requeueDelay d 0)
           | Some st \<Rightarrow>
               checked (persistProviderOutputRef job (StatusOutputRef st)) (\<lambda>e. Ret (Inl e))
                 (\<lambda>job'. follow_status H J n d job' st))))) (\<lambda>_ _. True) t"
    by (intro batch_rules fine_index_settle fine_requeue follow) (blast intro: known known_job_evolves | simp)+
qed

lemma fine_exhausted: "known_job job s \<Longrightarrow> bat.safe_prog H (failExhaustedSettlement H job) (\<lambda>_ _. True) s"
  unfolding failExhaustedSettlement_def
  by (intro batch_rules fine_release fine_record_settlement fine_transition) simp_all

lemma fine_record_failure: "known_job job s \<Longrightarrow> bat.safe_prog H (recordSettlementFailure H job code) (\<lambda>_ _. True) s"
  unfolding recordSettlementFailure_def
  by (intro batch_rules fine_record_settlement fine_exhausted known_status) (blast intro: known_job_evolves)+

lemma fine_failed_settlement: "known_job job s \<Longrightarrow> bat.safe_prog H (failed_settlement H job code e) (\<lambda>_ _. True) s"
  unfolding failed_settlement_def by (intro batch_rules fine_record_failure)

lemma fine_mark_settled:
  assumes "known_job job s" "capture_claimed H (claim_prints s) job a m"
  shows "bat.safe_prog H (batch_sql (MarkBatchImageJobSettled (BatchID job) a m now)) (\<lambda>_ _. True) s"
proof (rule fine_batch_sql)
  fix t assume inv: "batch_inv H t" and ev: "batch_evolves H s t"
  have known: "known_job job t" using known_job_evolves [OF assms(1) ev] .
  have claimed: "capture_claimed H (claim_prints t) job a m"
    using capture_claimed_mono [OF assms(2)] ev by (simp add: batch_evolves_def)
  let ?f = "\<lambda>x. x\<lparr>JobStatus := BatchImageJobStatusCompleted, ActualCost := Some a, ManifestHash := Some m, JobUpdatedAt := pg_time now\<rparr>"
  have "batch_inv H (set_jobs (settling_row (BatchID job) m) ?f t) \<and> batch_evolves H t (set_jobs (settling_row (BatchID job) m) ?f t)"
  proof (rule set_jobs_step [OF inv])
    fix r assume r: "r \<in> set (image_jobs t)" "settling_row (BatchID job) m r"
    obtain r' where r': "r' \<in> set (image_jobs t)" "same_terms job r'" using known by (auto simp: known_job_def)
    then have "BatchID r' = BatchID r" using r(2) by (simp add: settling_row_def same_terms_def)
    then have "r' = r" using inv r(1) r'(1) by (auto simp: batch_inv_def distinct_map dest: inj_onD)
    then have same: "same_terms job (?f r)" using r'(2) by (simp add: same_terms_def)
    then show "same_terms r (?f r) \<and> JobStatus (?f r) \<in> job_statuses \<and> paid_job H (claim_prints t) (?f r)"
      using capture_claimed_same [OF claimed same] by (simp add: paid_job_def same_terms_def)
  qed
  then show "batch_inv H (snd (MarkBatchImageJobSettled (BatchID job) a m now t)) \<and>
      batch_evolves H t (snd (MarkBatchImageJobSettled (BatchID job) a m now t))"
    using inv batch_evolves_refl by (auto simp: MarkBatchImageJobSettled_def with_job_def split: option.split)
qed

lemma fine_settle_amount:
  assumes "known_job job s"
  shows "bat.safe_prog H (settle_amount H job m a) (\<lambda>_ _. True) s"
  unfolding settle_amount_def
proof (rule bat.keep_if)
  show "bat.safe_prog H (failed_settlement H job code e) (\<lambda>_ _. True) s" for code e by (rule fine_failed_settlement [OF assms])
  show "bat.safe_prog H (unless_error (captureBatchImageBalanceHold H job a m) (\<lambda>e. failed_settlement H job ''SETTLEMENT_BILLING_FAILED'' e)
        (and_then batch_now (\<lambda>now.
          checked (batch_sql (MarkBatchImageJobSettled (BatchID job) a m now)) (\<lambda>e. Ret (Inl e)) (\<lambda>_. Ret (Inr (a, False)))))) (\<lambda>_ _. True) s"
    unfolding unless_error_def
  proof (rule bat.safe_and_then [OF fine_capture [OF assms]])
    fix r :: "go_error option" and t assume t: "batch_inv H t" "batch_evolves H s t" "r = None \<longrightarrow> capture_claimed H (claim_prints t) job a m"
    have known: "known_job job t" using known_job_evolves [OF assms t(2)] .
    have later: "known_job job u" "r = None \<Longrightarrow> capture_claimed H (claim_prints u) job a m" if "batch_evolves H t u" for u
      using known_job_evolves [OF known that] t(3) that capture_claimed_mono by (auto simp: batch_evolves_def)
    have marked: "bat.safe_prog H (and_then batch_now (\<lambda>now.
          checked (batch_sql (MarkBatchImageJobSettled (BatchID job) a m now)) (\<lambda>e. Ret (Inl e)) (\<lambda>_. Ret (Inr (a, False))))) (\<lambda>_ _. True) t"
      if "r = None"
      by (intro batch_rules fine_mark_settled later that)
    show "bat.safe_prog H (case r of None \<Rightarrow> and_then batch_now (\<lambda>now.
          checked (batch_sql (MarkBatchImageJobSettled (BatchID job) a m now)) (\<lambda>e. Ret (Inl e)) (\<lambda>_. Ret (Inr (a, False))))
        | Some e \<Rightarrow> failed_settlement H job ''SETTLEMENT_BILLING_FAILED'' e) (\<lambda>_ _. True) t"
      using marked fine_failed_settlement [OF known] by (cases r) auto
  qed
qed

lemma fine_unit_price: "bat.safe_prog H (settlementUnitPrice job) (\<lambda>_ _. True) s"
  unfolding settlementUnitPrice_def by (intro batch_rules)

lemma fine_settle_batch: "bat.safe_prog H (Settle H b) (\<lambda>_ _. True) s"
  unfolding Settle_def Let_def
  by (intro read_job [OF reads_jobs(1)] batch_rules fine_exhausted fine_failed_settlement fine_unit_price fine_settle_amount)
    (blast intro: known_job_evolves)+

lemma fine_pipeline: "bat.safe_prog H (pipeline_Process H J n d e b) (\<lambda>_ _. True) s"
  unfolding pipeline_Process_def
  by (intro batch_rules fine_settle_batch fine_provider_process fine_requeue fine_safe safe_gets)

subsection \<open>Pools of requests\<close>

text \<open>Everything that runs on the tables of batches: users who submit, cancel and delete, workers, the recovery, the heartbeat of a submission and the
  clean-up that deletes outputs. Other parts of the program charge, credit, archive; time goes on.\<close>

definition batch_request :: "(string \<Rightarrow> string) \<Rightarrow> unit batch \<Rightarrow> bool" where
  "batch_request H p \<longleftrightarrow>
     (\<exists>q. p = ignoring (Submit H q) (Ret ())) \<or> (\<exists>u k b. p = ignoring (Cancel H u k b) (Ret ())) \<or>
     (\<exists>u k b. p = ignoring (DeleteRecord u k b) (Ret ())) \<or> (\<exists>d n. p = ignoring (ReleaseStaleUnsubmittedOnce H d n) (Ret ())) \<or>
     (\<exists>J n d e b. p = ignoring (pipeline_Process H J n d e b) (Ret ())) \<or>
     (\<exists>b. p = ignoring (batch_sql (TouchBatchImageJobSubmitting b)) (Ret ())) \<or>
     (\<exists>b d. p = ignoring (batch_sql (MarkBatchImageOutputDeleted b d)) (Ret ()))"

definition others_move :: "(string \<Rightarrow> string) \<Rightarrow> batch_db \<Rightarrow> batch_db \<Rightarrow> bool" where
  "others_move H s t \<longleftrightarrow> image_jobs t = image_jobs s \<and> image_items t = image_items s \<and>
     (\<exists>es. bill_run H (books_of s) (books_of t) es \<and> (\<forall>e\<in>set es. proper_entry H [] e))"

definition no_batches :: "batch_db \<Rightarrow> bool" where
  "no_batches s \<longleftrightarrow> image_jobs s = [] \<and> image_items s = [] \<and> distinct (map row_claim (claim_rows s)) \<and>
     (\<forall>r\<in>set (claim_rows s). \<not> batch_claim (dd_request r))"

abbreviation batch_run :: "(string \<Rightarrow> string) \<Rightarrow> batch_db \<Rightarrow> (batch_chance, batch_db, unit) pool \<Rightarrow> bool" where
  "batch_run H initial \<equiv> pool_reach (batch_request H) (others_move H) (\<lambda>s. s = initial)"

lemma batch_requests_safe: "batch_request H p \<Longrightarrow> bat.safe_prog H p (\<lambda>_ _. True) s"
  unfolding batch_request_def
  by (elim disjE exE; simp only:;
      intro batch_rules fine_submit fine_cancel_batch fine_delete fine_recovery fine_pipeline fine_safe safe_touch safe_output_deleted)

lemma others_safe: "others_move H s t \<Longrightarrow> batch_inv H s \<Longrightarrow> batch_inv H t \<and> batch_evolves H s t"
proof -
  assume o: "others_move H s t" and inv: "batch_inv H s"
  then obtain es where es: "bill_run H (books_of s) (books_of t) es" "\<forall>e\<in>set es. proper_entry H [] e"
    and same: "image_jobs t = image_jobs s" "image_items t = image_items s" unfolding others_move_def by blast
  have "proper_entry H (image_jobs s) e" if "e \<in> set es" for e
    using proper_persist [of H "[]" e "image_jobs s"] es(2) that by (simp add: persist_def)
  then show ?thesis by (rule money_step [OF inv es(1) _ same])
qed

lemma no_batches_inv: "no_batches s \<Longrightarrow> batch_inv H s"
  by (simp add: no_batches_def batch_inv_def items_unique_def)

lemma batch_run_good:
  assumes "batch_run H initial S" "no_batches initial"
  shows "batch_inv H (store S) \<and> batch_evolves H initial (store S)"
proof -
  have "bat.pool_good H S"
    by (rule bat.pool_reach_good [OF assms(1)]) (use assms(2) no_batches_inv batch_requests_safe others_safe in blast)+
  then have inv: "batch_inv H (store S)" by (rule bat.pool_goodD)
  have "batch_evolves H initial (store S)"
    using assms(1)
  proof (induction)
    case (pr_init s)
    then show ?case by (simp add: batch_evolves_refl)
  next
    case (pr_step S T)
    have "bat.pool_good H S"
      by (rule bat.pool_reach_good [OF pr_step.hyps(1)]) (use assms(2) no_batches_inv batch_requests_safe others_safe in blast)+
    then have "batch_evolves H (store S) (store T)"
      using bat.pool_step_good [OF pr_step.hyps(2)] batch_requests_safe others_safe by blast
    with pr_step.IH show ?case by (rule batch_evolves_trans)
  qed
  with inv show ?thesis by blast
qed

lemma batch_ledger:
  assumes "batch_run H initial S" "no_batches initial"
  shows "\<exists>l. bill_reach H (books_of initial) (books_of (store S), l) \<and> (\<forall>e\<in>set l. proper_entry H (image_jobs (store S)) e)"
proof -
  obtain es where es: "bill_run H (books_of initial) (books_of (store S)) es" "\<forall>e\<in>set es. proper_entry H (image_jobs (store S)) e"
    using batch_run_good [OF assms] by (auto simp: batch_evolves_def)
  have "bill_reach H (books_of initial) (books_of (store S), [] @ es)"
    using es(1) br_init unfolding bill_run_def by blast
  then show ?thesis using es(2) by auto
qed

end
