(* ===== verification/BatchLedger.thy ===== *)
theory BatchLedger
  imports BatchRun
begin

section \<open>What batches cost\<close>

text \<open>
  Properties of every run of batches, drawn from the ledger of \<open>BatchRun\<close>: what a user pays, that each hold is spent once, that a batch that
  completed was charged what it cost; and what an undisturbed settlement does.
\<close>

text \<open>C3: Whatever batches do, statement by statement and under any weather, is on the tables of money a run of the transactions of
  \<open>BillingRun\<close>: what it says of charges, books and frozen money holds of them too. All its entries about batches are commands the code built
  from a job that is in the table.\<close>

theorem batches_refine_billing:
  assumes "batch_run H initial S" "no_batches initial"
  shows "\<exists>l. bill_reach H (books_of initial) (books_of (store S), l) \<and> (\<forall>e\<in>set l. proper_entry H (image_jobs (store S)) e) \<and>
    books (books_of initial) (books_of (store S)) l"
proof -
  obtain l where l: "bill_reach H (books_of initial) (books_of (store S), l)" "\<forall>e\<in>set l. proper_entry H (image_jobs (store S)) e"
    using batch_ledger [OF assms] by blast
  moreover have "books (books_of initial) (books_of (store S)) l"
    using bill_inv_reach [OF l(1)] assms(2) by (simp add: bill_inv_def no_batches_def)
  ultimately show ?thesis by blast
qed

subsection \<open>Fingerprints of amounts\<close>

text \<open>Amounts that print alike.\<close>

lemma length_nat_digits: "n < 10 ^ Suc k \<Longrightarrow> length (nat_digits n) \<le> Suc k"
proof (induction k arbitrary: n)
  case 0
  then show ?case by (subst nat_digits.simps) simp
next
  case (Suc k)
  then have "n div 10 < 10 ^ Suc k" by (simp add: less_mult_imp_div_less)
  from Suc.IH [OF this] show ?case by (subst nat_digits.simps) simp
qed

lemma digits_value_zeros: "digits_value (replicate k CHR ''0'' @ s) = digits_value s"
  by (induction k) (simp_all add: digits_value_def)

lemma format_no_bar: "CHR ''|'' \<notin> set (format_10f v)"
proof -
  have "CHR ''|'' \<notin> set (nat_digits n)" for n
  proof
    assume "CHR ''|'' \<in> set (nat_digits n)"
    then have "is_digit CHR ''|''" using nat_digits_all_digits [of n] by (auto simp: list_all_iff)
    then show False by (simp add: is_digit_def)
  qed
  then show ?thesis by (auto simp: format_10f_def Let_def)
qed

lemma format_close:
  assumes "format_10f a = format_10f b" "0 \<le> a" "0 \<le> b"
  shows "\<bar>a - b\<bar> \<le> 1 / 10 ^ 10"
proof -
  define n where "n v = nat \<lfloor>v * 10 ^ 10 + 1 / 2\<rfloor>" for v :: usd
  define frac where "frac v = (let d = nat_digits (n v mod 10 ^ 10) in replicate (10 - length d) CHR ''0'' @ d)" for v
  have split: "format_10f v = nat_digits (n v div 10 ^ 10) @ CHR ''.'' # frac v" if "0 \<le> v" for v
    using that by (simp add: format_10f_def n_def frac_def Let_def)
  have len: "length (frac v) = 10" for v
    using length_nat_digits [of "n v mod 10 ^ 10" 9] by (simp add: frac_def Let_def)
  have val: "digits_value (frac v) = n v mod 10 ^ 10" for v
    by (simp add: frac_def Let_def digits_value_zeros)
  from assms split have "nat_digits (n a div 10 ^ 10) @ CHR ''.'' # frac a = nat_digits (n b div 10 ^ 10) @ CHR ''.'' # frac b" by simp
  then have "nat_digits (n a div 10 ^ 10) = nat_digits (n b div 10 ^ 10) \<and> frac a = frac b" by (simp add: len)
  then have "n a div 10 ^ 10 = n b div 10 ^ 10" "n a mod 10 ^ 10 = n b mod 10 ^ 10" using val by (simp, metis)
  then have "n a = n b" by (metis div_mult_mod_eq)
  moreover have "0 \<le> \<lfloor>v * 10 ^ 10 + 1 / 2\<rfloor>" if "0 \<le> v" for v :: usd using that by simp
  ultimately have "\<lfloor>a * 10 ^ 10 + 1 / 2\<rfloor> = \<lfloor>b * 10 ^ 10 + 1 / 2\<rfloor>" using assms(2,3) unfolding n_def by (metis eq_nat_nat_iff)
  then have "\<bar>a * 10 ^ 10 - b * 10 ^ 10\<bar> \<le> 1" by linarith
  then have "a - b \<le> 1 / 10 ^ 10" "b - a \<le> 1 / 10 ^ 10" by (simp_all add: abs_le_iff field_simps)
  then show ?thesis by (simp only: abs_le_iff minus_diff_eq)
qed

text \<open>Commands about one hold that have the same fingerprint.\<close>

lemma split_at_bar:
  assumes "a @ s = b @ t" "CHR ''|'' \<notin> set a" "CHR ''|'' \<notin> set b" "s = [] \<or> hd s = CHR ''|''" "t = [] \<or> hd t = CHR ''|''"
  shows "a = b"
proof -
  have "takeWhile (\<lambda>c. c \<noteq> CHR ''|'') (x @ y) = x" if "CHR ''|'' \<notin> set x" "y = [] \<or> hd y = CHR ''|''" for x y
    using that by (cases y) (auto simp: takeWhile_append)
  then show ?thesis using assms by metis
qed

lemma print_of_hold:
  assumes "\<And>x y. trim_space (H x) = trim_space (H y) \<Longrightarrow> x = y"
    "HoldFingerprint c = ''''" "HoldFingerprint d = ''''"
    "trim_space (HoldFingerprint (NormalizeHold H c)) = trim_space (HoldFingerprint (NormalizeHold H d))"
    "HoldUserID c = HoldUserID d" "HoldAPIKeyID c = HoldAPIKeyID d" "HoldBatchID c = HoldBatchID d" "HoldAmount c = HoldAmount d"
  shows "format_10f (ActualAmount c) = format_10f (ActualAmount d)"
proof -
  define raw where "raw x = itoa (HoldUserID x) @ ''|'' @ itoa (HoldAPIKeyID x) @ ''|'' @ trim_space (trim_space (HoldBatchID x)) @ ''|'' @ format_10f (HoldAmount x) @ ''|''"
    for x :: BatchImageBalanceHoldCommand
  define rest where "rest x = (if trim_space (HoldPayloadHash x) \<noteq> '''' then ''|'' @ trim_space (HoldPayloadHash x) else '''')" for x :: BatchImageBalanceHoldCommand
  have fp: "HoldFingerprint (NormalizeHold H x) = H (raw x @ format_10f (ActualAmount x) @ rest x)" if "HoldFingerprint x = ''''" for x
    using that by (simp add: NormalizeHold_def Let_def buildBatchImageBalanceHoldFingerprint_def joined_def raw_def rest_def)
  have "raw c @ format_10f (ActualAmount c) @ rest c = raw d @ format_10f (ActualAmount d) @ rest d"
    by (rule assms(1)) (use assms(2-4) fp in simp)
  moreover have "raw c = raw d" by (simp add: raw_def assms(5-8))
  ultimately have "format_10f (ActualAmount c) @ rest c = format_10f (ActualAmount d) @ rest d" by simp
  then show ?thesis by (rule split_at_bar) (auto simp: format_no_bar rest_def)
qed

subsection \<open>Each hold is spent once\<close>

definition reserves :: "string \<Rightarrow> entry \<Rightarrow> bool" where
  "reserves b e \<longleftrightarrow> (case e of Reserved c \<Rightarrow> HoldBatchID c = b | _ \<Rightarrow> False)"
definition captures :: "string \<Rightarrow> entry \<Rightarrow> bool" where
  "captures b e \<longleftrightarrow> (case e of Captured c \<Rightarrow> HoldBatchID c = b | _ \<Rightarrow> False)"
definition releases :: "string \<Rightarrow> entry \<Rightarrow> bool" where
  "releases b e \<longleftrightarrow> (case e of Released c moved \<Rightarrow> HoldBatchID c = b | _ \<Rightarrow> False)"

text \<open>What an entry does to all the money of a user, free or frozen: a hold moves it, only a capture spends it.\<close>

primrec to_wealth :: "int \<Rightarrow> entry \<Rightarrow> usd" where
  "to_wealth i (Charged c) = (if BillUserID c = i \<and> BalanceCost c > 0 then - BalanceCost c else 0)"
| "to_wealth i (Reserved c) = 0"
| "to_wealth i (Captured c) = (if HoldUserID c = i then - ActualAmount c else 0)"
| "to_wealth i (Released c moved) = 0"
| "to_wealth i (Deposited j a) = (if j = i then a else 0)"

lemma entry_claims_Cons: "entry_claims (e # l) = (case entry_claim e of None \<Rightarrow> [] | Some x \<Rightarrow> [x]) @ entry_claims l"
  by (simp add: entry_claims_def List.map_filter_def split: option.split)

lemma entry_claims_mem: "e \<in> set l \<Longrightarrow> entry_claim e = Some x \<Longrightarrow> x \<in> set (entry_claims l)"
proof (induction l)
  case (Cons d l)
  then show ?case by (cases "d = e") (simp_all add: entry_claims_Cons)
qed simp

lemma claimed_entry: "(rid, k) \<in> set (entry_claims l) \<Longrightarrow> \<exists>e\<in>set l. entry_claim e = Some (rid, k)"
  by (induction l) (auto simp: entry_claims_Cons split: option.split_asm)

lemma one_claim:
  "distinct (entry_claims l) \<Longrightarrow> (\<And>e. e \<in> set l \<Longrightarrow> P e \<Longrightarrow> entry_claim e = Some x) \<Longrightarrow> length (filter P l) \<le> 1"
proof (induction l)
  case (Cons e l)
  have "filter P l = []" if "P e"
  proof (rule ccontr)
    assume "filter P l \<noteq> []"
    then obtain d where d: "d \<in> set l" "P d" by (auto simp: filter_empty_conv)
    then have "x \<in> set (entry_claims l)" using Cons.prems(2) [of d] entry_claims_mem by simp
    then show False using Cons.prems(1) Cons.prems(2) [of e] that by (simp add: entry_claims_Cons)
  qed
  moreover have "length (filter P l) \<le> 1"
    using Cons.IH Cons.prems by (simp add: entry_claims_Cons)
  ultimately show ?case by simp
qed simp

lemma command_of_job:
  assumes "job_command H js rid c" "distinct (map BatchID js)" "\<forall>r\<in>set js. list_all plain_char (BatchID r)"
    "\<And>b. list_all plain_char b \<Longrightarrow> trim_space (rid b) = rid b"
  shows "\<exists>job\<in>set js. hold_of job c \<and> HoldRequestID c = rid (BatchID job) \<and> 0 \<le> ActualAmount c \<and> 0 \<le> HoldAmount c"
proof -
  obtain job a p cmd where job: "job \<in> set js" "buildBatchImageHoldCommand job (rid (BatchID job)) a p = Inr cmd" "c = NormalizeHold H cmd"
    using assms(1) by (auto simp: job_command_def)
  have plain: "list_all plain_char (BatchID job)" using assms(3) job(1) by blast
  note n = normalized_hold [OF job(2) plain, of H]
  have "0 \<le> ActualAmount c" "0 \<le> HoldAmount c" using n by (simp_all add: job(3) hold_of_def)
  then show ?thesis using job(1) n assms(4) [OF plain] by (auto simp: job(3))
qed

lemma command_claim:
  assumes "job_command H js rid c" "job_command H js rid d" "HoldBatchID c = HoldBatchID d" "distinct (map BatchID js)"
    "\<forall>r\<in>set js. list_all plain_char (BatchID r)" "\<And>b. list_all plain_char b \<Longrightarrow> trim_space (rid b) = rid b"
  shows "HoldRequestID c = HoldRequestID d" "HoldAPIKeyID c = HoldAPIKeyID d"
proof -
  obtain j where j: "j \<in> set js" "hold_of j c" "HoldRequestID c = rid (BatchID j)" using command_of_job [OF assms(1,4-6)] by blast
  obtain k where k: "k \<in> set js" "hold_of k d" "HoldRequestID d = rid (BatchID k)" using command_of_job [OF assms(2,4-6)] by blast
  have "BatchID j = BatchID k" using j(2) k(2) assms(3) by (simp add: hold_of_def)
  then have "j = k" using j(1) k(1) assms(4) by (auto simp: distinct_map dest: inj_onD)
  then show "HoldRequestID c = HoldRequestID d" "HoldAPIKeyID c = HoldAPIKeyID d" using j k by (auto simp: hold_of_def)
qed

lemma once:
  assumes dist: "distinct (entry_claims l)" and js: "distinct (map BatchID js)" "\<forall>r\<in>set js. list_all plain_char (BatchID r)"
    and rid: "\<And>b. list_all plain_char b \<Longrightarrow> trim_space (rid b) = rid b"
    and P: "\<And>e. e \<in> set l \<Longrightarrow> P e \<Longrightarrow> \<exists>c. job_command H js rid c \<and> HoldBatchID c = b \<and> entry_claim e = Some (HoldRequestID c, HoldAPIKeyID c)"
  shows "length (filter P l) \<le> 1"
proof (cases "\<exists>e\<in>set l. P e")
  case True
  then obtain d where d: "job_command H js rid d" "HoldBatchID d = b" using P by blast
  show ?thesis
  proof (rule one_claim [OF dist, where x = "(HoldRequestID d, HoldAPIKeyID d)"])
    fix e assume "e \<in> set l" "P e"
    then obtain c where c: "job_command H js rid c" "HoldBatchID c = b" "entry_claim e = Some (HoldRequestID c, HoldAPIKeyID c)"
      using P by blast
    then have "HoldRequestID c = HoldRequestID d" "HoldAPIKeyID c = HoldAPIKeyID d"
      using command_claim [OF c(1) d(1) _ js rid] d(2) by simp_all
    then show "entry_claim e = Some (HoldRequestID d, HoldAPIKeyID d)" using c(3) by simp
  qed
qed (auto simp: filter_empty_conv)

text \<open>A committed capture is within its hold, up to the tolerance.\<close>

lemma logged_answer:
  assumes "e \<in> set (logged w r f)"
  obtains a where "r = Inr (Some a)" "e = f a"
proof (cases r)
  case (Inr x)
  then show ?thesis using assms that by (cases x; cases w) (simp_all add: logged_def)
qed (use assms in \<open>simp add: logged_def\<close>)

lemma captured_within_hold:
  assumes "bill_reach H initial S" "Captured c \<in> set (snd S)"
  shows "ActualAmount c - HoldAmount c \<le> 1 / 10 ^ 8 \<or> ActualAmount c \<le> 0"
  using assms
proof induction
  case (br_capture s l w h)
  show ?case
  proof (cases "Captured c \<in> set l")
    case False
    then have "Captured c \<in> set (logged w (fst (CaptureBatchImageBalance H h s)) (\<lambda>_. Captured (NormalizeHold H h)))"
      using br_capture.prems by simp
    then obtain a where "fst (CaptureBatchImageBalance H h s) = Inr (Some a)" and "Captured c = Captured (NormalizeHold H h)"
      by (rule logged_answer)
    then obtain t where "CaptureBatchImageBalance H h s = (Inr (Some a), t)" and c: "c = NormalizeHold H h"
      by (metis entry.inject(3) prod.collapse)
    from claimed_tx_done [OF this(1) [unfolded CaptureBatchImageBalance_def applyBatchImageBalanceHold_def Let_def]]
    show ?thesis by (auto simp: c captureUsageBillingBatchImageBalance_def split: if_splits)
  qed (use br_capture.IH in simp)
qed (auto elim!: logged_answer)

text \<open>What a ledger about batches says of a batch, and of all the money of a user.\<close>

primrec spent_within :: "BatchImageJob list \<Rightarrow> entry \<Rightarrow> bool" where
  "spent_within js (Charged c) \<longleftrightarrow> True"
| "spent_within js (Reserved c) \<longleftrightarrow> list_ex (\<lambda>job. hold_of job c) js"
| "spent_within js (Captured c) \<longleftrightarrow> list_ex (\<lambda>job. hold_of job c) js \<and> 0 \<le> ActualAmount c \<and> ActualAmount c \<le> HoldAmount c + 1 / 10 ^ 8"
| "spent_within js (Released c moved) \<longleftrightarrow> list_ex (\<lambda>job. hold_of job c) js"
| "spent_within js (Deposited i a) \<longleftrightarrow> True"

lemma batch_run_tables:
  assumes "batch_run H initial S" "no_batches initial"
  obtains l where "bill_reach H (books_of initial) (books_of (store S), l)" "\<forall>e\<in>set l. proper_entry H (image_jobs (store S)) e"
    "claims_kept (books_of initial) (books_of (store S)) l" "books (books_of initial) (books_of (store S)) l"
    "distinct (map BatchID (image_jobs (store S)))" "\<forall>r\<in>set (image_jobs (store S)). list_all plain_char (BatchID r)"
proof -
  obtain l where l: "bill_reach H (books_of initial) (books_of (store S), l)" "\<forall>e\<in>set l. proper_entry H (image_jobs (store S)) e"
    using batch_ledger [OF assms] by blast
  moreover have "bill_inv (books_of initial) (books_of (store S)) l"
    using bill_inv_reach [OF l(1)] assms(2) by (simp add: no_batches_def)
  moreover have "batch_inv H (store S)" using batch_run_good [OF assms] by blast
  ultimately show ?thesis using that by (simp add: bill_inv_def batch_inv_def job_fine_def)
qed

lemma proper_spent:
  assumes "proper_entry H js e" "bill_reach H initial (s, l)" "e \<in> set l" "distinct (map BatchID js)" "\<forall>r\<in>set js. list_all plain_char (BatchID r)"
  shows "spent_within js e" "to_wealth i e = to_balance i e + to_frozen i e"
proof -
  note job = command_of_job [where js = js, OF _ assms(4,5)]
  note ids = request_ids
  show "spent_within js e"
  proof (cases e)
    case (Captured c)
    obtain j where "j \<in> set js" "hold_of j c" "0 \<le> ActualAmount c" "0 \<le> HoldAmount c"
      using assms(1) job [where rid = BatchImageCaptureRequestID, OF _ ids(2)] unfolding Captured by auto
    moreover have "ActualAmount c - HoldAmount c \<le> 1 / 10 ^ 8 \<or> ActualAmount c \<le> 0"
      using captured_within_hold [OF assms(2)] assms(3) by (simp add: Captured)
    ultimately show ?thesis by (auto simp: Captured list_ex_iff)
  next
    case (Reserved c)
    then show ?thesis using assms(1) job [where rid = BatchImageHoldRequestID, OF _ ids(1)] by (auto simp: list_ex_iff)
  next
    case (Released c m)
    then show ?thesis using assms(1) job [where rid = BatchImageReleaseRequestID, OF _ ids(3)] by (auto simp: list_ex_iff)
  qed simp_all
  then show "to_wealth i e = to_balance i e + to_frozen i e" by (cases e) auto
qed

lemma each_once:
  assumes "distinct (entry_claims l)" "distinct (map BatchID js)" "\<forall>r\<in>set js. list_all plain_char (BatchID r)" "\<forall>e\<in>set l. proper_entry H js e"
  shows "length (filter (reserves b) l) \<le> 1" "length (filter (captures b) l) \<le> 1" "length (filter (releases b) l) \<le> 1"
proof -
  note once = once [OF assms(1-3), where H = H and b = b]
  have e: "proper_entry H js e" if "e \<in> set l" for e using assms(4) that by blast
  show "length (filter (reserves b) l) \<le> 1"
  proof (rule once [OF request_ids(1)])
    fix e assume "e \<in> set l" "reserves b e"
    then show "\<exists>c. job_command H js BatchImageHoldRequestID c \<and> HoldBatchID c = b \<and> entry_claim e = Some (HoldRequestID c, HoldAPIKeyID c)"
      using e [of e] by (auto simp: reserves_def split: entry.split_asm)
  qed
  show "length (filter (captures b) l) \<le> 1"
  proof (rule once [OF request_ids(2)])
    fix e assume "e \<in> set l" "captures b e"
    then show "\<exists>c. job_command H js BatchImageCaptureRequestID c \<and> HoldBatchID c = b \<and> entry_claim e = Some (HoldRequestID c, HoldAPIKeyID c)"
      using e [of e] by (auto simp: captures_def split: entry.split_asm)
  qed
  show "length (filter (releases b) l) \<le> 1"
  proof (rule once [OF request_ids(3)])
    fix e assume "e \<in> set l" "releases b e"
    then show "\<exists>c. job_command H js BatchImageReleaseRequestID c \<and> HoldBatchID c = b \<and> entry_claim e = Some (HoldRequestID c, HoldAPIKeyID c)"
      using e [of e] by (auto simp: releases_def split: entry.split_asm)
  qed
qed

text \<open>C4: In every run of batches each batch's hold is reserved at most once, captured at most once and released at most once, whatever is retried;
  what a capture spends is not negative and not more than that batch's hold, up to the tolerance of 1e-8; and what a user owns, free and
  frozen together, is what it was, plus deposits, less charges and the amounts captured. Frozen money stays non-negative.\<close>

theorem hold_spent_once:
  assumes "batch_run H initial S" "no_batches initial" "frozen_fine initial"
  shows "\<exists>l. bill_reach H (books_of initial) (books_of (store S), l) \<and>
    (\<forall>b. length (filter (reserves b) l) \<le> 1 \<and> length (filter (captures b) l) \<le> 1 \<and> length (filter (releases b) l) \<le> 1) \<and>
    list_all (spent_within (image_jobs (store S))) l \<and> frozen_fine (store S) \<and>
    (\<forall>i. map_option (\<lambda>u. bal u + frozen u) (bill_users (store S) i) =
         map_option (\<lambda>u. bal u + frozen u + booked (to_wealth i) l) (bill_users initial i))"
proof -
  obtain l where l: "bill_reach H (books_of initial) (books_of (store S), l)" "\<forall>e\<in>set l. proper_entry H (image_jobs (store S)) e"
    and kept: "claims_kept (books_of initial) (books_of (store S)) l" and books: "books (books_of initial) (books_of (store S)) l"
    and js: "distinct (map BatchID (image_jobs (store S)))" "\<forall>r\<in>set (image_jobs (store S)). list_all plain_char (BatchID r)"
    using batch_run_tables [OF assms(1,2)] by blast
  have dist: "distinct (entry_claims l)" using kept by (simp add: claims_kept_def)
  have once: "\<forall>b. length (filter (reserves b) l) \<le> 1 \<and> length (filter (captures b) l) \<le> 1 \<and> length (filter (releases b) l) \<le> 1"
    using each_once [OF dist js l(2)] by blast
  have "list_all (spent_within (image_jobs (store S))) l"
    using proper_spent(1) [OF l(2) [rule_format] l(1) _ js] by (simp add: list_all_iff)
  moreover have wealth: "booked (to_wealth i) l = booked (to_balance i) l + booked (to_frozen i) l" for i
  proof -
    have "booked (to_wealth i) l = booked (\<lambda>e. to_balance i e + to_frozen i e) l"
      unfolding booked_def using proper_spent(2) [OF l(2) [rule_format] l(1) _ js] by (intro arg_cong [of _ _ sum_list] map_cong) auto
    then show ?thesis by (simp add: booked_def sum_list_addf)
  qed
  have "map_option (\<lambda>u. bal u + frozen u) (bill_users (store S) i) =
      map_option (\<lambda>u. bal u + frozen u + booked (to_wealth i) l) (bill_users initial i)" for i
    using booksD(1) [OF books, of i]
    by (cases "bill_users (store S) i"; cases "bill_users initial i") (auto simp: wealth)
  moreover have "frozen_fine (store S)"
    using frozen_reach [OF l(1)] assms(3) by (simp add: frozen_fine_def)
  ultimately show ?thesis using l(1) once by blast
qed

subsection \<open>What completes is paid\<close>

lemma request_id_kinds:
  "BatchImageHoldRequestID b \<noteq> BatchImageCaptureRequestID b'" "BatchImageReleaseRequestID b \<noteq> BatchImageCaptureRequestID b'"
  by (simp_all add: BatchImageHoldRequestID_def BatchImageCaptureRequestID_def BatchImageReleaseRequestID_def trim_key_def)

lemma claimed_capture:
  assumes kept: "claims_kept (books_of initial) (books_of s) l" and none: "no_batches initial"
    and proper: "\<And>e. e \<in> set l \<Longrightarrow> proper_entry H js e"
    and js: "distinct (map BatchID js)" "\<forall>r\<in>set js. list_all plain_char (BatchID r)"
    and r: "(BatchImageCaptureRequestID b, k, fp) \<in> claim_prints s" "list_all plain_char b"
  shows "\<exists>c. Captured c \<in> set l \<and> job_command H js BatchImageCaptureRequestID c \<and> HoldBatchID c = b \<and> HoldFingerprint c = fp"
proof -
  let ?x = "(BatchImageCaptureRequestID b, k)"
  obtain r where row: "r \<in> set (claim_rows s)" "row_claim r = ?x" "dd_fingerprint r = fp"
    using r(1) by (auto simp: claim_prints_def row_claim_def)
  then have "?x \<in> set (map row_claim (claim_rows initial) @ entry_claims l)"
    using kept unfolding claims_kept_def by (metis books_rows(1) image_eqI set_map)
  moreover have "?x \<notin> set (map row_claim (claim_rows initial))"
  proof
    assume "?x \<in> set (map row_claim (claim_rows initial))"
    then obtain r' where "r' \<in> set (claim_rows initial)" "dd_request r' = BatchImageCaptureRequestID b" by (auto simp: row_claim_def)
    then show False using none by (auto simp: no_batches_def batch_claim_def BatchImageCaptureRequestID_def trim_key_def)
  qed
  ultimately obtain e where e: "e \<in> set l" "entry_claim e = Some ?x" using claimed_entry [of "BatchImageCaptureRequestID b" k l] by auto
  then obtain r' where r': "r' \<in> set (claim_rows s)" "row_claim r' = ?x" "dd_fingerprint r' = entry_fingerprint e"
    using kept unfolding claims_kept_def by fastforce
  have "distinct (map row_claim (claim_rows s))" using kept by (simp add: claims_kept_def)
  then have "r' = r" using r'(1,2) row(1,2) by (metis distinct_map inj_onD)
  then have fp: "entry_fingerprint e = fp" using r'(3) row(3) by simp
  note job = command_of_job [where js = js, OF _ js]
  show ?thesis
  proof (cases e)
    case (Charged c)
    then have "batch_claim (BillRequestID c)"
      using e(2) by (simp add: batch_claim_def BatchImageCaptureRequestID_def trim_key_def)
    then show ?thesis using proper [OF e(1)] by (simp add: Charged)
  next
    case (Reserved c)
    then have "job_command H js BatchImageHoldRequestID c" using proper [OF e(1)] by simp
    from job [OF this request_ids(1)] show ?thesis using e(2) request_id_kinds by (fastforce simp: Reserved)
  next
    case (Released c m)
    then have "job_command H js BatchImageReleaseRequestID c" using proper [OF e(1)] by simp
    from job [OF this request_ids(3)] show ?thesis using e(2) request_id_kinds by (fastforce simp: Released)
  next
    case (Captured c)
    then have c: "job_command H js BatchImageCaptureRequestID c" using proper [OF e(1)] by simp
    obtain j where j: "j \<in> set js" "hold_of j c" "HoldRequestID c = BatchImageCaptureRequestID (BatchID j)"
      using job [OF c request_ids(2)] by blast
    then have "BatchImageCaptureRequestID (BatchID j) = BatchImageCaptureRequestID b" using e(2) by (simp add: Captured)
    then have "BatchID j = b" using request_ids(6) r(2) js(2) j(1) by (metis same_append_eq)
    then show ?thesis using c e(1) fp j(2) by (auto simp: Captured hold_of_def)
  qed (use e(2) in simp)
qed

text \<open>C5: A batch that is completed, or whose output has since been deleted, was charged: whatever else ran and failed, there is a committed capture of its hold in
  the ledger, of the actual cost its row shows, to the ten digits a fingerprint has. That the fingerprint's hash does not collide is a
  hypothesis, since a repeated capture is recognised by it.\<close>

theorem completed_was_charged:
  assumes "batch_run H initial S" "no_batches initial"
    and "\<And>x y. trim_space (H x) = trim_space (H y) \<Longrightarrow> x = y"
    and "job \<in> set (image_jobs (store S))" "JobStatus job = BatchImageJobStatusCompleted \<or> JobStatus job = BatchImageJobStatusOutputDeleted"
  shows "\<exists>l c a. bill_reach H (books_of initial) (books_of (store S), l) \<and> Captured c \<in> set l \<and> hold_of job c \<and>
    ActualCost job = Some a \<and> \<bar>ActualAmount c - max 0 a\<bar> \<le> 1 / 10 ^ 10"
proof -
  obtain l where l: "bill_reach H (books_of initial) (books_of (store S), l)" "\<forall>e\<in>set l. proper_entry H (image_jobs (store S)) e"
    and kept: "claims_kept (books_of initial) (books_of (store S)) l" and "books (books_of initial) (books_of (store S)) l"
    and js: "distinct (map BatchID (image_jobs (store S)))" "\<forall>r\<in>set (image_jobs (store S)). list_all plain_char (BatchID r)"
    using batch_run_tables [OF assms(1,2)] by blast
  have plain: "list_all plain_char (BatchID job)" using js(2) assms(4) by blast
  have "batch_inv H (store S)" using batch_run_good [OF assms(1,2)] by blast
  from batch_invD(2) [OF this assms(4)] obtain a m where a: "ActualCost job = Some a" "capture_claimed H (claim_prints (store S)) job a m"
    using assms(5) by (auto simp: paid_job_def settled_status_def)
  then obtain cmd fp where cmd: "buildBatchImageHoldCommand job (BatchImageCaptureRequestID (BatchID job)) a m = Inr cmd"
    "(BatchImageCaptureRequestID (BatchID job), HoldAPIKeyID cmd, fp) \<in> claim_prints (store S)"
    "trim_space fp = trim_space (HoldFingerprint (NormalizeHold H cmd))" by (auto simp: capture_claimed_def)
  obtain c where c: "Captured c \<in> set l" "job_command H (image_jobs (store S)) BatchImageCaptureRequestID c" "HoldBatchID c = BatchID job" "HoldFingerprint c = fp"
    using claimed_capture [OF kept assms(2) l(2) [rule_format] js cmd(2) plain] by blast
  obtain job' a' p' cmd' where c': "job' \<in> set (image_jobs (store S))"
    "buildBatchImageHoldCommand job' (BatchImageCaptureRequestID (BatchID job')) a' p' = Inr cmd'" "c = NormalizeHold H cmd'"
    using c(2) by (auto simp: job_command_def)
  have plain': "list_all plain_char (BatchID job')" using js(2) c'(1) by blast
  note n = normalized_hold [OF cmd(1) plain, of H] and n' = normalized_hold [OF c'(2) plain', of H]
  have "BatchID job' = BatchID job" using c(3) n'(1) by (simp add: c'(3) hold_of_def)
  then have same: "job' = job" using js(1) c'(1) assms(4) by (auto simp: distinct_map dest: inj_onD)
  have blank: "HoldFingerprint cmd = ''''" "HoldFingerprint cmd' = ''''" "HoldUserID cmd' = HoldUserID cmd" "HoldAPIKeyID cmd' = HoldAPIKeyID cmd"
    "HoldBatchID cmd' = HoldBatchID cmd" "HoldAmount cmd' = HoldAmount cmd"
    using cmd(1) c'(2) unfolding same by (auto simp: buildBatchImageHoldCommand_def split: option.splits if_splits)
  have amounts: "ActualAmount c = ActualAmount cmd'" "ActualAmount cmd = max 0 a" "0 \<le> ActualAmount cmd'"
    using cmd(1) c'(2) n'(4) by (auto simp: c'(3) buildBatchImageHoldCommand_def split: option.splits if_splits)
  have prints: "trim_space (HoldFingerprint (NormalizeHold H cmd')) = trim_space (HoldFingerprint (NormalizeHold H cmd))"
    using c(4) cmd(3) unfolding c'(3) by (rule subst [OF sym])
  have "format_10f (ActualAmount cmd') = format_10f (ActualAmount cmd)"
    by (rule print_of_hold [OF assms(3) blank(2,1) prints blank(3-6)])
  then have "\<bar>ActualAmount c - max 0 a\<bar> \<le> 1 / 10 ^ 10"
    using format_close [of "ActualAmount cmd'" "ActualAmount cmd"] amounts by simp
  moreover have "hold_of job c" using n'(1) by (simp add: c'(3) same)
  ultimately show ?thesis using l(1) c(1) a(1) by blast
qed

subsection \<open>An undisturbed settlement\<close>

lemma find_changed: "(\<And>r. BatchID (f r) = BatchID r) \<Longrightarrow>
    List.find (\<lambda>r. BatchID r = b) (map f xs) = map_option f (List.find (\<lambda>r. BatchID r = b) xs)"
  by (induction xs) simp_all

lemma found_job: "List.find (\<lambda>r. BatchID r = b) js = Some job \<Longrightarrow> job \<in> set js \<and> BatchID job = b"
  by (auto simp: find_Some_iff)

lemma capture_run:
  assumes "buildBatchImageHoldCommand job (BatchImageCaptureRequestID (BatchID job)) a m = Inr cmd" "list_all plain_char (BatchID job)"
    and "\<not> claimed s (BatchImageCaptureRequestID (BatchID job)) (HoldAPIKeyID cmd)" "batch_weather c = Fair"
    and "0 \<le> a" "0 < held_amount job" "a - held_amount job \<le> 1 / 10 ^ 8" "bill_users s (JobUserID job) = Some u" "held_amount job \<le> frozen u"
  shows "\<exists>fp. run_prog (captureBatchImageBalanceHold H job a m) c s =
    (None, (claim_row (BatchImageCaptureRequestID (BatchID job)) (HoldAPIKeyID cmd) fp s)
       \<lparr>bill_users := (bill_users s)(JobUserID job \<mapsto> u\<lparr>bal := bal u + (held_amount job - a), frozen := frozen u - held_amount job\<rparr>)\<rparr>)"
proof -
  let ?c = "NormalizeHold H cmd"
  note n = normalized_hold [OF assms(1,2), of H]
  have id: "HoldRequestID ?c = BatchImageCaptureRequestID (BatchID job)" "HoldAPIKeyID ?c = HoldAPIKeyID cmd" "HoldUserID ?c = JobUserID job"
    "HoldAmount ?c = held_amount job" "ActualAmount ?c = a"
    using n request_ids [OF assms(2)] assms(5,6) by (simp_all add: hold_of_def)
  let ?s = "claim_row (HoldRequestID ?c) (HoldAPIKeyID ?c) (HoldFingerprint ?c) s"
  let ?u = "u\<lparr>bal := bal u + (held_amount job - a), frozen := frozen u - held_amount job\<rparr>"
  have less: "bal u - (a - held_amount job) = bal u + (held_amount job - a)" by simp
  have "captureUsageBillingBatchImageBalance ?c ?s = (Inr (Some (bal ?u, frozen ?u)), ?s\<lparr>bill_users := (bill_users s)(JobUserID job \<mapsto> ?u)\<rparr>)"
    using assms(6-9) by (simp add: captureUsageBillingBatchImageBalance_def update_money_def id set_user_def less)
  then have "claimed_tx (HoldRequestID ?c) (HoldAPIKeyID ?c) (HoldFingerprint ?c) (captureUsageBillingBatchImageBalance ?c) s =
      (Inr (Some (Some (bal ?u, frozen ?u))), ?s\<lparr>bill_users := (bill_users s)(JobUserID job \<mapsto> ?u)\<rparr>)"
    by (intro claimed_tx_fresh) (simp_all add: id request_ids_nonempty assms(3))
  then show ?thesis
    unfolding captureBatchImageBalanceHold_def assms(1)
    by (intro exI [of _ "HoldFingerprint ?c"])
      (simp add: batch_sql_def under_weather_def assms(4) CaptureBatchImageBalance_def applyBatchImageBalanceHold_def Let_def id)
qed

text \<open>C13: A settlement that nothing disturbs, of a job that is ready, charges exactly the price of its successful images: the job completes with that cost, the
  whole hold leaves the frozen money and what is left of it returns to the balance. Settling once more reports the same cost and changes nothing.\<close>

theorem settle_charges:
  assumes "batch_weather c = Fair" "List.find (\<lambda>r. BatchID r = b) (image_jobs s) = Some job" "list_all plain_char b"
    and "JobStatus job = BatchImageJobStatusSettling" "RetryCount job < batchImageSettlementMaxRetries" "ManifestHash job = None"
    and "JobAPIKeyID job = Some k" "0 < k" "JobAccountID job = Some acc" "0 < acc"
    and "0 \<le> SuccessCount job" "0 \<le> FailCount job" "SuccessCount job + FailCount job \<le> ItemCount job"
    and "1 \<le> PricingSnapshotVersion job" "0 \<le> BillableUnitPrice job"
    and "of_int (SuccessCount job) * BillableUnitPrice job \<le> held_amount job + batchImageCostEpsilon" "0 < held_amount job"
    and "bill_users s (JobUserID job) = Some u" "held_amount job \<le> frozen u"
    and "\<not> claimed s (BatchImageCaptureRequestID b) k"
    and "\<not> hits (\<lambda>x. BatchID x \<noteq> b \<and> ManifestHash x = Some (BuildBatchImageSettlementManifestHash H job)) s"
  shows "\<exists>t. run_prog (Settle H b) c s = (Inr (of_int (SuccessCount job) * BillableUnitPrice job, False), t) \<and>
    bill_users t = (bill_users s)(JobUserID job \<mapsto>
      u\<lparr>bal := bal u + (held_amount job - of_int (SuccessCount job) * BillableUnitPrice job), frozen := frozen u - held_amount job\<rparr>) \<and>
    (\<exists>r. List.find (\<lambda>r. BatchID r = b) (image_jobs t) = Some r \<and> JobStatus r = BatchImageJobStatusCompleted \<and>
      ActualCost r = Some (of_int (SuccessCount job) * BillableUnitPrice job)) \<and>
    run_prog (Settle H b) c t = (Inr (of_int (SuccessCount job) * BillableUnitPrice job, True), t)"
proof -
  define cost m where "cost = of_int (SuccessCount job) * BillableUnitPrice job" and "m = BuildBatchImageSettlementManifestHash H job"
  have b: "job \<in> set (image_jobs s)" "BatchID job = b" using found_job [OF assms(2)] by auto
  obtain cmd where cmd: "buildBatchImageHoldCommand job (BatchImageCaptureRequestID (BatchID job)) cost m = Inr cmd" "HoldAPIKeyID cmd = k"
    using assms(7,8) by (auto simp: buildBatchImageHoldCommand_def)
  let ?u = "u\<lparr>bal := bal u + (held_amount job - cost), frozen := frozen u - held_amount job\<rparr>"
  have cost: "0 \<le> cost" "cost - held_amount job \<le> 1 / 10 ^ 8"
    using assms(11,15,16) by (simp_all add: cost_def batchImageCostEpsilon_def)
  obtain fp where capture: "run_prog (captureBatchImageBalanceHold H job cost m) c s =
      (None, (claim_row (BatchImageCaptureRequestID b) k fp s)\<lparr>bill_users := (bill_users s)(JobUserID job \<mapsto> ?u)\<rparr>)"
    using capture_run [where H = H, OF cmd(1) _ _ assms(1) cost(1) assms(17) cost(2) assms(18,19)] assms(3,20) b(2) cmd(2) by auto
  define p where "p = (claim_row (BatchImageCaptureRequestID b) k fp s)\<lparr>bill_users := (bill_users s)(JobUserID job \<mapsto> ?u)\<rparr>"
  have p: "image_jobs p = image_jobs s" "bill_users p = (bill_users s)(JobUserID job \<mapsto> ?u)" by (simp_all add: p_def claim_row_def)
  define f where "f x = (if settling_row b m x then x\<lparr>JobStatus := BatchImageJobStatusCompleted, ActualCost := Some cost, ManifestHash := Some m,
      JobUpdatedAt := pg_time (bill_clock p)\<rparr> else x)" for x
  define t where "t = p\<lparr>image_jobs := map f (image_jobs s)\<rparr>"
  have ready: "settling_row b m job" using assms(4,6) b(2) by (simp add: settling_row_def)
  then have hit: "hits (settling_row b m) p" using b(1) by (auto simp: hits_def p list_ex_iff)
  have free: "\<not> hits (\<lambda>x. BatchID x \<noteq> b \<and> ManifestHash x = Some m) p" using assms(21) by (simp add: hits_def p m_def)
  have mark: "MarkBatchImageJobSettled b cost m (bill_clock p) p = (Inr (), t)"
    using hit free by (simp add: MarkBatchImageJobSettled_def set_jobs_def t_def f_def p)
  have found: "List.find (\<lambda>r. BatchID r = b) (image_jobs t) = Some (f job)"
    using assms(2) by (simp add: t_def find_changed f_def)
  have run: "run_prog (Settle H b) c s = (Inr (cost, False), t)"
    using assms(2,4-10,12-15) capture mark cost b(2) assms(11)
    by (simp add: Settle_def batch_sql_def under_weather_def assms(1) GetBatchImageJobByBatchID_def with_job_def Let_def job_status_defs
        isBatchImageSettlementRetryExhausted_def batchImageDerefString_def settlementUnitPrice_def settle_amount_def batchImageCostEpsilon_def
        unless_error_def batch_now_def flip: m_def cost_def p_def)
  have again: "run_prog (Settle H b) c t = (Inr (cost, True), t)"
    using found ready by (simp add: Settle_def batch_sql_def under_weather_def assms(1) GetBatchImageJobByBatchID_def with_job_def Let_def f_def)
  show ?thesis
    unfolding cost_def [symmetric]
    using run again found ready p by (intro exI [of _ t]) (simp add: f_def t_def)
qed

text \<open>A listing that is not disturbed finds all items, once the bound on its pages of 500 exceeds their number.\<close>

lemma expected_listed:
  fixes s :: batch_db
  assumes "batch_weather c = Fair" "items = filter (\<lambda>i. ItemJobID i = b) (image_items s)"
  shows "off \<le> length items \<Longrightarrow> length items < off + 500 * n \<Longrightarrow>
    run_prog (listExpectedCustomIDs n b off acc) c s = (Inr (acc @ map CustomID (drop off items)), s)"
proof (induction n arbitrary: off acc)
  case (Suc n)
  let ?page = "take 500 (drop off items)"
  have page: "run_prog (batch_sql (ListBatchImageItems b 500 off)) c s = (Inr ?page, s)"
    by (simp add: batch_sql_def under_weather_def assms ListBatchImageItems_def)
  show ?case
  proof (cases "length ?page < 500")
    case True
    then have "?page = drop off items" by simp
    then show ?thesis using page True by simp
  next
    case False
    then have len: "length ?page = 500" "off + 500 \<le> length items" by simp_all
    have "run_prog (listExpectedCustomIDs n b (off + 500) (acc @ map CustomID ?page)) c s =
        (Inr ((acc @ map CustomID ?page) @ map CustomID (drop (off + 500) items)), s)"
      using Suc.IH [of "off + 500" "acc @ map CustomID ?page"] Suc.prems(2) len(2) by simp
    moreover have "?page @ drop (off + 500) items = drop off items"
      by (metis add.commute append_take_drop_id drop_drop)
    then have "map CustomID ?page @ map CustomID (drop (off + 500) items) = map CustomID (drop off items)" by (metis map_append)
    ultimately show ?thesis using page len by simp
  qed
qed simp

text \<open>C38: The tables of batches are well formed in every run: the status of a job is one of the ten, its provider is a supported one, its id has no
  white space; no two jobs share an id, no two items of a job share a custom id.\<close>

theorem batch_tables_typed:
  assumes "batch_run H initial S" "no_batches initial"
  shows "distinct (map BatchID (image_jobs (store S))) \<and> items_unique (image_items (store S)) \<and> list_all job_fine (image_jobs (store S))"
  using batch_run_good [OF assms] by (auto simp: batch_inv_def list_all_iff)

subsection \<open>An example\<close>

text \<open>One image at a price of 1, of which 2 were held: it is submitted, the provider succeeds with it, it is indexed and settled.\<close>

definition ex_chance :: batch_chance where
  "ex_chance = \<lparr>batch_weather = Fair, random_bytes = Inr ''ab'', provider_known = True, account_answer = Inr True,
     submit_answer = Inr (Some \<lparr>NewProviderJobName = ''p'', NewProviderOutputRef = ''o''\<rparr>),
     get_answer = Inr (Some \<lparr>InternalState = BatchProviderStateSucceeded, StatusOutputRef = '''', StatusErrorCode = '''', SuggestedRequeueAfter = 0\<rparr>),
     cancel_answer = None, open_answer = Inr ([''a''], None), enqueue_answer = None, price_answer = Inr 1\<rparr>"

definition ex_submission :: submission where
  "ex_submission = \<lparr>sub_user = 1, sub_key = 7, sub_account = 9, sub_provider = BatchImageProviderGeminiAPI, sub_model = ''m'',
     sub_items = [(''a'', ''cat'')], sub_max_prompt = 10, sub_estimated = 2, sub_hold = 2, sub_unit_price = 1, sub_hash = ''h'',
     sub_idempotency = ''''\<rparr>"

definition ex_batches :: batch_db where
  "ex_batches = \<lparr>bill_clock = 0, bill_users = [1 \<mapsto> \<lparr>bal = 10, frozen = 0\<rparr>], bill_keys = Map.empty,
     bill_accounts = Map.empty, bill_subs = Map.empty, bill_groups = {}, dedup = [], dedup_archive = [], account_events = [],
     image_jobs = [], image_items = []\<rparr>"

definition ex_job :: BatchImageJob where
  "ex_job = (submitted_job ex_submission ''imgbatch_6162'')
     \<lparr>JobStatus := BatchImageJobStatusSubmitted, ProviderJobName := Some ''p'', ProviderOutputRef := Some ''o''\<rparr>"

definition ex_claim :: "string \<Rightarrow> usd \<Rightarrow> string \<Rightarrow> dedup_row" where
  "ex_claim rid a p = \<lparr>dd_request = rid, dd_key = 7, dd_fingerprint = buildBatchImageBalanceHoldFingerprint hex_encode
     \<lparr>HoldRequestID = rid, HoldAPIKeyID = 7, HoldFingerprint = '''', HoldPayloadHash = p, HoldUserID = 1,
      HoldBatchID = ''imgbatch_6162'', HoldAmount = 2, ActualAmount = a\<rparr>, dd_created_at = 0\<rparr>"

definition ex_submitted :: batch_db where
  "ex_submitted = ex_batches\<lparr>bill_users := [1 \<mapsto> \<lparr>bal = 8, frozen = 2\<rparr>], dedup := [ex_claim ''batch_image_hold:imgbatch_6162'' 0 ''h''],
     image_jobs := [ex_job], image_items := [pending_item ex_submission ''imgbatch_6162'' (''a'', ''cat'')]\<rparr>"

definition ex_item :: BatchImageItem where
  "ex_item = \<lparr>ItemJobID = ''imgbatch_6162'', CustomID = ''a'', ItemStatus = BatchImageItemStatusSuccess, ItemRequestHash = None,
     PromptPreview = None, ProviderSourceObject = Some ''o'', ItemSourceLine = Some 1, MimeType = Some ''image/png'',
     FileExtension = Some ''png'', ImageCount = 1, ItemErrorCode = None, ItemErrorMessage = None, IndexedAt = Some 0\<rparr>"

definition ex_indexed :: batch_db where
  "ex_indexed = ex_submitted\<lparr>image_jobs := [ex_job\<lparr>JobStatus := BatchImageJobStatusSettling, SuccessCount := 1\<rparr>],
     image_items := [ex_item\<lparr>PromptPreview := Some ''cat''\<rparr>]\<rparr>"

definition ex_manifest :: string where
  "ex_manifest = BuildBatchImageSettlementManifestHash hex_encode (ex_job\<lparr>JobStatus := BatchImageJobStatusSettling, SuccessCount := 1\<rparr>)"

definition ex_paid :: BatchImageJob where
  "ex_paid = ex_job\<lparr>JobStatus := BatchImageJobStatusCompleted, SuccessCount := 1, ActualCost := Some 1, ManifestHash := Some ex_manifest\<rparr>"

definition ex_settled :: batch_db where
  "ex_settled = ex_indexed\<lparr>bill_users := [1 \<mapsto> \<lparr>bal = 9, frozen = 0\<rparr>],
     dedup := [ex_claim ''batch_image_hold:imgbatch_6162'' 0 ''h'', ex_claim ''batch_image_capture:imgbatch_6162'' 1 (trim_space ex_manifest)],
     image_jobs := [ex_paid]\<rparr>"

definition ex_work :: process where "ex_work = pipeline_Process hex_encode ex_result_lib 1 0 0 ''imgbatch_6162''"

lemma ex_trims: "hex_encode ''ab'' = ''6162''" "trim_space ''h'' = ''h''"
  "trim_space ''cat'' = ''cat''" "trim_space ''p'' = ''p''" "trim_space ''o'' = ''o''" "trim_space ''imgbatch_6162'' = ''imgbatch_6162''"
  "trim_space ''batch_image_hold:imgbatch_6162'' = ''batch_image_hold:imgbatch_6162''"
  "trim_space ''batch_image_capture:imgbatch_6162'' = ''batch_image_capture:imgbatch_6162''"
  by code_simp+

lemma ex_submits: "snd (run_prog (Submit hex_encode ex_submission) ex_chance ex_batches) = ex_submitted"
  unfolding Submit_def Let_def
  by (simp add: ex_submission_def ex_trims submit_new_def asked_def ex_chance_def NewBatchImageID_def batch_sql_def under_weather_def CreateBatchImageJob_def
    submitted_job_def IsSupportedBatchImageProvider_def hits_def ex_batches_def stamp_def pg_time_def unless_error_def reserveBatchImageBalanceHold_def
    buildBatchImageHoldCommand_def held_amount_def BatchImageHoldRequestID_def trim_key_def ReserveBatchImageBalance_def applyBatchImageBalanceHold_def Let_def
    NormalizeHold_def claimed_tx_def claimUsageBillingRequest_def reserveUsageBillingBatchImageBalance_def update_money_def set_user_def
    submit_held_def createPendingItems_def BulkCreateBatchImageItems_def pending_item_def TransitionBatchImageJobStatus_def with_job_def set_jobs_def
    submit_taken_def UpdateBatchImageJobProviderSubmit_def Enqueue_def GetBatchImageJobByBatchID_def null_if_empty_def
    CanTransitionBatchImageJob_def IsTerminalBatchImageJobStatus_def job_status_defs allowed_transitions_def truncateBatchImageMessage_def
    batchImageOptionalStringPtr_def ex_submitted_def ex_job_def ex_claim_def)

lemma ex_output: "index_output ex_result_lib [''a''] ''imgbatch_6162'' ''o'' 0 ([''a''], None) =
    Inr (\<lparr>IndexSuccess = 1, IndexFail = 0, IndexTotal = 1\<rparr>, [ex_item], False)"
  by code_simp

lemmas ex_simps = ex_trims pipeline_Process_def batch_sql_def ex_chance_def under_weather_def GetBatchImageJobByBatchID_def with_job_def
  ex_batches_def job_status_defs asked_def batchImageDerefString_def set_jobs_def ex_submission_def submitted_job_def hits_def pg_time_def
  batch_now_def stamp_def unless_error_def

lemma ex_indexes: "snd (run_prog ex_work ex_chance ex_submitted) = ex_indexed"
  unfolding ex_work_def
  by (simp add: ex_simps ex_submitted_def ex_job_def provider_Process_def isBatchImageProcessorDoneStatus_def IsTerminalBatchImageJobStatus_def
    BatchProviderStateSucceeded_def BatchProviderStateQueued_def BatchProviderStateRunning_def persistProviderOutputRef_def Let_def follow_status_def
    TransitionBatchImageJobStatus_def CanTransitionBatchImageJob_def allowed_transitions_def indexAndSettle_def Index_def ListBatchImageItems_def
    pending_item_def ex_output ReplaceBatchImageItemsForJob_def replace_items_def requeue_def ex_indexed_def ex_item_def
    batchImageItemPromptPreviews_def List.map_filter_def truncateBatchImageMessage_def batchImageOptionalStringPtr_def)

lemma ex_settles: "snd (run_prog ex_work ex_chance ex_indexed) = ex_settled"
  unfolding ex_work_def
  by (simp add: ex_simps ex_indexed_def ex_submitted_def ex_job_def Settle_def Let_def isBatchImageSettlementRetryExhausted_def
    batchImageSettlementMaxRetries_def settlementUnitPrice_def settle_amount_def held_amount_def batchImageCostEpsilon_def captureBatchImageBalanceHold_def
    buildBatchImageHoldCommand_def BatchImageCaptureRequestID_def trim_key_def CaptureBatchImageBalance_def applyBatchImageBalanceHold_def NormalizeHold_def
    claimed_tx_def claimUsageBillingRequest_def claimed_as_def captureUsageBillingBatchImageBalance_def update_money_def set_user_def
    MarkBatchImageJobSettled_def settling_row_def finished_def ex_settled_def ex_paid_def ex_claim_def ex_manifest_def)

lemma ex_run: "\<exists>T. batch_run hex_encode ex_batches T \<and> store T = ex_settled"
proof -
  let ?request = "batch_request hex_encode" and ?move = "others_move hex_encode" and ?init = "\<lambda>s. s = ex_batches"
  have start: "?request (ignoring (Submit hex_encode ex_submission) (Ret ()))" "?request (ignoring ex_work (Ret ()))"
    unfolding batch_request_def ex_work_def by blast+
  let ?S = "\<lparr>store = ex_batches, procs = Map.empty\<rparr> :: (batch_chance, batch_db, unit) pool"
  obtain A where A: "(pool_step ?request ?move)\<^sup>*\<^sup>* ?S A" "store A = ex_submitted" "procs A = [0 \<mapsto> Ret ()]"
    using pool_runs_prog [of ?S 0 ?request, OF _ start(1), where c = ex_chance] ex_submits by auto
  obtain B where B: "(pool_step ?request ?move)\<^sup>*\<^sup>* A B" "store B = ex_indexed" "procs B = [0 \<mapsto> Ret (), 1 \<mapsto> Ret ()]"
    using pool_runs_prog [of A 1 ?request, OF _ start(2), where c = ex_chance] ex_indexes A by auto
  obtain C where C: "(pool_step ?request ?move)\<^sup>*\<^sup>* B C" "store C = ex_settled"
    using pool_runs_prog [of B 2 ?request, OF _ start(2), where c = ex_chance] ex_settles B by auto
  have "batch_run hex_encode ex_batches ?S" by (rule pr_init) (rule refl)
  from pool_reach_steps [OF pool_reach_steps [OF pool_reach_steps [OF this A(1)] B(1)] C(1)] have "batch_run hex_encode ex_batches C" .
  then show ?thesis using C(2) by blast
qed

lemma ex_no_batches: "no_batches ex_batches"
  by (simp add: no_batches_def ex_batches_def claim_rows_def)

lemma hex_encode_inj: "hex_encode x = hex_encode y \<Longrightarrow> x = y"
proof (induction x arbitrary: y)
  case Nil
  then show ?case by (cases y) (simp_all add: hex_encode_def)
next
  case (Cons c x)
  then obtain d y' where y: "y = d # y'" by (cases y) (auto simp: hex_encode_def)
  have digit: "hex_digit a = hex_digit b \<Longrightarrow> a < 16 \<Longrightarrow> b < 16 \<Longrightarrow> a = b" for a b
    unfolding hex_digit_def by (drule arg_cong [where f = "of_char :: char \<Rightarrow> nat"]) (auto split: if_splits)
  have "hex_digit (of_char c div 16) = hex_digit (of_char d div 16)" "hex_digit (of_char c mod 16) = hex_digit (of_char d mod 16)"
    "hex_encode x = hex_encode y'"
    using Cons.prems by (simp_all add: y hex_encode_def)
  moreover have "(of_char e :: nat) div 16 < 16" for e :: char
    using nat_of_char_less_256 [of e] by (simp add: less_mult_imp_div_less)
  ultimately have "(of_char c :: nat) div 16 = of_char d div 16" "(of_char c :: nat) mod 16 = of_char d mod 16"
    using digit by simp_all
  then have "(of_char c :: nat) = of_char d" by (metis div_mult_mod_eq)
  then show ?case using Cons.IH [of y'] \<open>hex_encode x = hex_encode y'\<close> by (simp add: y)
qed

lemma hex_no_collision: "trim_space (hex_encode x) = trim_space (hex_encode y) \<Longrightarrow> x = y"
  by (simp add: trim_space_plain plain_hex hex_encode_inj)

theorem batches_refine_billing_witness:
  "\<exists>l. bill_reach hex_encode (books_of ex_batches) (books_of ex_settled, l) \<and> list_all (proper_entry hex_encode [ex_paid]) l \<and>
     books (books_of ex_batches) (books_of ex_settled) l"
proof -
  obtain T where T: "batch_run hex_encode ex_batches T" "store T = ex_settled" using ex_run by blast
  have "image_jobs ex_settled = [ex_paid]" by (simp add: ex_settled_def)
  then show ?thesis using batches_refine_billing [OF T(1) ex_no_batches] by (simp add: T(2) list_all_iff)
qed

theorem hold_spent_once_witness:
  "\<exists>l. bill_reach hex_encode (books_of ex_batches) (books_of ex_settled, l) \<and> length (filter (captures ''imgbatch_6162'') l) \<le> 1 \<and>
     list_all (spent_within [ex_paid]) l \<and> booked (to_wealth 1) l = - 1"
proof -
  obtain T where T: "batch_run hex_encode ex_batches T" "store T = ex_settled" using ex_run by blast
  have fine: "frozen_fine ex_batches" by (auto simp: frozen_fine_def ex_batches_def split: if_splits)
  have tables: "image_jobs ex_settled = [ex_paid]" "bill_users ex_settled 1 = Some \<lparr>bal = 9, frozen = 0\<rparr>"
    "bill_users ex_batches 1 = Some \<lparr>bal = 10, frozen = 0\<rparr>"
    by (simp_all add: ex_settled_def ex_batches_def)
  from hold_spent_once [OF T(1) ex_no_batches fine] obtain l where l: "bill_reach hex_encode (books_of ex_batches) (books_of ex_settled, l)"
    "length (filter (captures ''imgbatch_6162'') l) \<le> 1" "list_all (spent_within [ex_paid]) l"
    "map_option (\<lambda>u. bal u + frozen u) (bill_users ex_settled 1) = map_option (\<lambda>u. bal u + frozen u + booked (to_wealth 1) l) (bill_users ex_batches 1)"
    unfolding T(2) tables(1) by blast
  from l(4) have "booked (to_wealth 1) l = - 1" by (simp add: tables)
  with l show ?thesis by blast
qed

theorem completed_was_charged_witness:
  "\<exists>l c. bill_reach hex_encode (books_of ex_batches) (books_of ex_settled, l) \<and> Captured c \<in> set l \<and> hold_of ex_paid c \<and>
     \<bar>ActualAmount c - 1\<bar> \<le> 1 / 10 ^ 10"
proof -
  obtain T where T: "batch_run hex_encode ex_batches T" "store T = ex_settled" using ex_run by blast
  have "ex_paid \<in> set (image_jobs (store T))" "JobStatus ex_paid = BatchImageJobStatusCompleted \<or> JobStatus ex_paid = BatchImageJobStatusOutputDeleted"
    by (simp_all add: T(2) ex_settled_def ex_paid_def)
  from completed_was_charged [OF T(1) ex_no_batches hex_no_collision this] show ?thesis by (auto simp: T(2) ex_paid_def)
qed

theorem batch_tables_typed_witness:
  "distinct (map BatchID [ex_paid]) \<and> items_unique (image_items ex_settled) \<and> list_all job_fine [ex_paid] \<and> JobStatus ex_paid \<in> job_statuses"
proof -
  obtain T where T: "batch_run hex_encode ex_batches T" "store T = ex_settled" using ex_run by blast
  have "image_jobs ex_settled = [ex_paid]" by (simp add: ex_settled_def)
  then show ?thesis using batch_tables_typed [OF T(1) ex_no_batches] by (simp add: T(2) job_fine_def)
qed

theorem settle_charges_witness:
  "\<exists>t. run_prog (Settle hex_encode ''imgbatch_6162'') ex_chance ex_indexed = (Inr (1, False), t) \<and>
    bill_users t = [1 \<mapsto> \<lparr>bal = 9, frozen = 0\<rparr>] \<and> run_prog (Settle hex_encode ''imgbatch_6162'') ex_chance t = (Inr (1, True), t)"
proof -
  let ?job = "ex_job\<lparr>JobStatus := BatchImageJobStatusSettling, SuccessCount := 1\<rparr>"
  have j: "List.find (\<lambda>r. BatchID r = ''imgbatch_6162'') (image_jobs ex_indexed) = Some ?job"
    "bill_users ex_indexed (JobUserID ?job) = Some \<lparr>bal = 8, frozen = 2\<rparr>" "bill_users ex_indexed = [1 \<mapsto> \<lparr>bal = 8, frozen = 2\<rparr>]"
    "\<not> hits (\<lambda>x. BatchID x \<noteq> ''imgbatch_6162'' \<and> ManifestHash x = Some (BuildBatchImageSettlementManifestHash hex_encode ?job)) ex_indexed"
    "\<not> claimed ex_indexed (BatchImageCaptureRequestID ''imgbatch_6162'') 7"
    by (simp_all add: ex_indexed_def ex_submitted_def ex_batches_def ex_job_def submitted_job_def ex_submission_def hits_def claimed_def claim_rows_def
        row_claim_def ex_claim_def BatchImageCaptureRequestID_def trim_key_def ex_trims)
  have plain: "list_all plain_char ''imgbatch_6162''" by (simp add: plain_char_def)
  from settle_charges [where c = ex_chance and H = hex_encode, OF _ j(1) plain _ _ _ _ _ _ _ _ _ _ _ _ _ _ j(2) _ j(5,4)]
  show ?thesis
    by (simp add: ex_chance_def ex_job_def submitted_job_def ex_submission_def batchImageSettlementMaxRetries_def held_amount_def
        batchImageCostEpsilon_def j(3)) blast
qed

end
