(* ===== verification/Ownership.thy ===== *)
theory Ownership
  imports Programs
begin

section \<open>Programs that own a part of the store\<close>

text \<open>
  A process that wins a conditional update owns what it claimed: until it gives it up, or is gone, no other process
  may touch it. The rely-guarantee argument of \<open>Programs\<close> cannot say this, since there every process may do what any
  process may do.

  The locale \<open>ownership\<close> takes an invariant of the store and what is claimed in it: \<open>None\<close> when nobody has a claim,
  or the claim with what its owner knows of it. \<open>keeps p Q own\<close> says that a program that owns \<open>own\<close> (nothing, or the
  claim) keeps the invariant, leaves a claim alone that is not its own, and ends with \<open>Q\<close> of its answer and of what it
  then owns; it may claim, give up or forget its claim. A process that is gone leaves the claim behind, which then
  stays as it is.

  \<open>steady I R p Q\<close> is for programs that own nothing: from any store with \<open>I\<close>, each of their statements relates the
  stores by \<open>R\<close>, whatever happened in between.
\<close>

subsection \<open>Steady programs\<close>

primrec steady :: "('s \<Rightarrow> bool) \<Rightarrow> ('s \<Rightarrow> 's \<Rightarrow> bool) \<Rightarrow> ('c, 's, 'a) prog \<Rightarrow> ('a \<Rightarrow> bool) \<Rightarrow> bool" where
  "steady I R (Ret a) Q \<longleftrightarrow> Q a"
| "steady I R (Atom u n) Q \<longleftrightarrow> (\<forall>t c. I t \<longrightarrow> R t (u c t) \<and> steady I R (n c t) Q)"

lemma steady_Ret: "steady I R (Ret a) (\<lambda>_. True)"
  by simp

lemma steady_stmt: "(\<And>t c. I t \<Longrightarrow> R t (snd (f c t)) \<and> Q (fst (f c t))) \<Longrightarrow> steady I R (stmt f) Q"
  by (simp add: stmt_def)

lemma steady_weaken: "steady I R p Q \<Longrightarrow> (\<And>a. Q a \<Longrightarrow> Q' a) \<Longrightarrow> steady I R p Q'"
  by (induction p) auto

lemma steady_and_then: "steady I R p Q \<Longrightarrow> (\<And>a. Q a \<Longrightarrow> steady I R (k a) Q') \<Longrightarrow> steady I R (and_then p k) Q'"
  by (induction p) auto

lemma steady_then: "steady I R p (\<lambda>_. True) \<Longrightarrow> (\<And>a. steady I R (k a) Q) \<Longrightarrow> steady I R (and_then p k) Q"
  by (rule steady_and_then)

lemma steady_checked:
  "steady I R p (\<lambda>_. True) \<Longrightarrow> (\<And>e. steady I R (failed e) Q) \<Longrightarrow> (\<And>a. steady I R (k a) Q) \<Longrightarrow>
   steady I R (checked p failed k) Q"
  unfolding checked_def by (rule steady_then) (auto split: sum.splits)

lemma steady_checked_with:
  "steady I R p (\<lambda>r. \<forall>a. r = Inr a \<longrightarrow> P a) \<Longrightarrow> (\<And>e. steady I R (failed e) Q) \<Longrightarrow> (\<And>a. P a \<Longrightarrow> steady I R (k a) Q) \<Longrightarrow>
   steady I R (checked p failed k) Q"
  unfolding checked_def by (rule steady_and_then [where Q = "\<lambda>r. \<forall>a. r = Inr a \<longrightarrow> P a"]) (auto split: sum.splits)

lemma steady_ignoring: "steady I R p (\<lambda>_. True) \<Longrightarrow> steady I R q Q \<Longrightarrow> steady I R (ignoring p q) Q"
  unfolding ignoring_def by (rule steady_then)

lemma steady_if: "(b \<Longrightarrow> steady I R p Q) \<Longrightarrow> (\<not> b \<Longrightarrow> steady I R q Q) \<Longrightarrow> steady I R (if b then p else q) Q"
  by simp

lemma steady_option:
  "(x = None \<Longrightarrow> steady I R p Q) \<Longrightarrow> (\<And>a. x = Some a \<Longrightarrow> steady I R (q a) Q) \<Longrightarrow>
   steady I R (case x of None \<Rightarrow> p | Some a \<Rightarrow> q a) Q"
  by (cases x) simp_all

lemma steady_sum:
  "(\<And>a. x = Inl a \<Longrightarrow> steady I R (p a) Q) \<Longrightarrow> (\<And>a. x = Inr a \<Longrightarrow> steady I R (q a) Q) \<Longrightarrow>
   steady I R (case x of Inl a \<Rightarrow> p a | Inr a \<Rightarrow> q a) Q"
  by (cases x) simp_all

lemma steady_prod: "(\<And>a b. x = (a, b) \<Longrightarrow> steady I R (p a b) Q) \<Longrightarrow> steady I R (case x of (a, b) \<Rightarrow> p a b) Q"
  by (cases x) simp

lemma steady_conj: "steady I R p Q \<Longrightarrow> steady I R p Q' \<Longrightarrow> steady I R p (\<lambda>a. Q a \<and> Q' a)"
  by (induction p) auto

text \<open>A steady program as one statement.\<close>

lemma steady_run:
  assumes "steady I R p Q" "I s" "\<And>s. I s \<Longrightarrow> R s s" "\<And>s t u. R s t \<Longrightarrow> R t u \<Longrightarrow> R s u" "\<And>s t. R s t \<Longrightarrow> I t"
  shows "R s (snd (run_prog p c s)) \<and> Q (fst (run_prog p c s))"
  using assms(1,2)
proof (induction p arbitrary: s)
  case (Atom u n)
  then have "R s (u c s)" "steady I R (n c s) Q" by auto
  then show ?case using Atom.IH [of c s "u c s"] assms(4,5) by auto
qed (use assms(3) in auto)

text \<open>Steady programs in a pool: every step of the pool relates the stores by \<open>R\<close>.\<close>

lemma pool_reach_steady:
  assumes "pool_reach may_start env init S"
    and "\<And>s. init s \<Longrightarrow> I s" "\<And>p. may_start p \<Longrightarrow> steady I R p (\<lambda>_. True)" "\<And>s t. R s t \<Longrightarrow> I t" "\<And>s t. env s t \<Longrightarrow> I s \<Longrightarrow> R s t"
  shows "I (store S) \<and> (\<forall>i p. procs S i = Some p \<longrightarrow> steady I R p (\<lambda>_. True))"
  using assms(1)
proof induction
  case (pr_init s)
  then show ?case using assms(2) by simp
next
  case (pr_step S T)
  from pr_step.hyps(2) show ?case
  proof cases
    case (ps_start i p)
    then show ?thesis using pr_step.IH assms(3) by simp
  next
    case (ps_atom i u n c)
    have "steady I R (Atom u n) (\<lambda>_. True)" "I (store S)" using ps_atom(2) pr_step.IH by blast+
    then have "R (store S) (u c (store S))" "steady I R (n c (store S)) (\<lambda>_. True)" by simp_all
    then show ?thesis using pr_step.IH assms(4) by (auto simp: ps_atom(1))
  next
    case (ps_gone i)
    then show ?thesis using pr_step.IH by simp
  next
    case (ps_env t)
    then have "R (store S) t" using pr_step.IH assms(5) by blast
    then show ?thesis using pr_step.IH assms(4) by (auto simp: ps_env(1))
  qed
qed

lemma pool_step_steady:
  assumes "pool_reach may_start env init S" "pool_step may_start env S T"
    and "\<And>s. init s \<Longrightarrow> I s" "\<And>p. may_start p \<Longrightarrow> steady I R p (\<lambda>_. True)" "\<And>s t. R s t \<Longrightarrow> I t" "\<And>s t. env s t \<Longrightarrow> I s \<Longrightarrow> R s t"
  shows "store T = store S \<or> R (store S) (store T)"
proof -
  have "I (store S) \<and> (\<forall>i p. procs S i = Some p \<longrightarrow> steady I R p (\<lambda>_. True))"
    by (rule pool_reach_steady [OF assms(1)]) (use assms(3-6) in blast)+
  then have good: "I (store S)" "\<And>i p. procs S i = Some p \<Longrightarrow> steady I R p (\<lambda>_. True)" by blast+
  from assms(2) show ?thesis
  proof cases
    case (ps_atom i u n c)
    then have "steady I R (Atom u n) (\<lambda>_. True)" using good(2) by blast
    then show ?thesis using good(1) by (simp add: ps_atom(1))
  next
    case (ps_env t)
    then show ?thesis using assms(6) good(1) by simp
  qed simp_all
qed

lemmas steady_rules = steady_Ret steady_then steady_checked steady_ignoring steady_if steady_option steady_sum steady_prod

subsection \<open>Owners\<close>

locale ownership =
  fixes inv :: "'s \<Rightarrow> bool" and claim :: "'s \<Rightarrow> 'v option"
begin

text \<open>What a program that owned \<open>own\<close> may make of the store, when it owns \<open>own'\<close> afterwards.\<close>

definition passes :: "'v option \<Rightarrow> 's \<Rightarrow> 'v option \<Rightarrow> 's \<Rightarrow> bool" where
  "passes own s own' t \<longleftrightarrow> inv t \<and> (own' = None \<or> claim t = own') \<and>
     (own = None \<longrightarrow> claim s \<noteq> None \<longrightarrow> claim t = claim s \<and> own' = None)"

definition owned :: "'v option \<Rightarrow> 's \<Rightarrow> bool" where
  "owned own s \<longleftrightarrow> inv s \<and> (own = None \<or> claim s = own)"

primrec keeps :: "('c, 's, 'a) prog \<Rightarrow> ('a \<Rightarrow> 'v option \<Rightarrow> bool) \<Rightarrow> 'v option \<Rightarrow> bool" where
  "keeps (Ret a) Q own \<longleftrightarrow> Q a own"
| "keeps (Atom u n) Q own \<longleftrightarrow>
     (\<forall>t c. owned own t \<longrightarrow> (\<exists>own'. passes own t own' (u c t) \<and> keeps (n c t) Q own'))"

lemma keeps_weaken: "keeps p Q own \<Longrightarrow> (\<And>a x. Q a x \<Longrightarrow> R a x) \<Longrightarrow> keeps p R own"
  by (induction p arbitrary: own) (fastforce)+

lemma keeps_and_then: "keeps p Q own \<Longrightarrow> (\<And>a x. Q a x \<Longrightarrow> keeps (k a) R x) \<Longrightarrow> keeps (and_then p k) R own"
  by (induction p arbitrary: own) (fastforce)+

lemma keeps_checked:
  "keeps p Q own \<Longrightarrow> (\<And>e x. Q (Inl e) x \<Longrightarrow> keeps (failed e) R x) \<Longrightarrow> (\<And>a x. Q (Inr a) x \<Longrightarrow> keeps (k a) R x) \<Longrightarrow>
   keeps (checked p failed k) R own"
  unfolding checked_def by (erule keeps_and_then) (auto split: sum.splits)

lemma keeps_ignoring: "keeps p Q own \<Longrightarrow> (\<And>a x. Q a x \<Longrightarrow> keeps q R x) \<Longrightarrow> keeps (ignoring p q) R own"
  unfolding ignoring_def by (rule keeps_and_then)

lemma keeps_stmt:
  assumes "\<And>t c a u. owned own t \<Longrightarrow> f c t = (a, u) \<Longrightarrow> \<exists>own'. passes own t own' u \<and> Q a own'"
  shows "keeps (stmt f) Q own"
  using assms by (simp add: stmt_def)

lemma keeps_steady:
  assumes "steady I R p Q" "\<And>s. inv s \<Longrightarrow> I s" "\<And>s t. R s t \<Longrightarrow> inv s \<Longrightarrow> inv t \<and> claim t = claim s"
  shows "keeps p (\<lambda>a x. Q a \<and> x = own) own"
  using assms(1)
proof (induction p)
  case (Ret a)
  then show ?case by simp
next
  case (Atom u n)
  have "\<exists>own'. passes own t own' (u c t) \<and> keeps (n c t) (\<lambda>a x. Q a \<and> x = own) own'" if "owned own t" for t c
  proof -
    have t: "I t" using that assms(2) by (simp add: owned_def)
    then have "inv (u c t)" "claim (u c t) = claim t" using Atom.prems assms(3) that by (auto simp: owned_def)
    moreover have "keeps (n c t) (\<lambda>a x. Q a \<and> x = own) own" using Atom t by simp
    ultimately show ?thesis using that by (auto simp: passes_def owned_def intro!: exI [of _ own])
  qed
  then show ?case by simp
qed

lemma keeps_Ret: "keeps (Ret a) (\<lambda>_ _. True) own"
  by simp

lemma keeps_if: "(b \<Longrightarrow> keeps p Q own) \<Longrightarrow> (\<not> b \<Longrightarrow> keeps q Q own) \<Longrightarrow> keeps (if b then p else q) Q own"
  by simp

lemma keeps_option:
  "(x = None \<Longrightarrow> keeps p Q own) \<Longrightarrow> (\<And>a. x = Some a \<Longrightarrow> keeps (q a) Q own) \<Longrightarrow>
   keeps (case x of None \<Rightarrow> p | Some a \<Rightarrow> q a) Q own"
  by (cases x) simp_all

text \<open>In a pool at most one process owns the claim.\<close>

definition pool_owned :: "('c, 's, 'a) pool \<Rightarrow> bool" where
  "pool_owned S \<longleftrightarrow> inv (store S) \<and>
     (\<exists>owns. (\<forall>i p. procs S i = Some p \<longrightarrow> keeps p (\<lambda>_ _. True) (owns i)) \<and>
             (\<forall>i. owns i = None \<or> owns i = claim (store S)) \<and>
             (\<forall>i j. owns i \<noteq> None \<longrightarrow> owns j \<noteq> None \<longrightarrow> i = j))"

lemma pool_owned_atom:
  assumes own: "\<forall>i p. procs S i = Some p \<longrightarrow> keeps p (\<lambda>_ _. True) (owns i)" "\<forall>i. owns i = None \<or> owns i = claim (store S)"
      "\<forall>i j. owns i \<noteq> None \<longrightarrow> owns j \<noteq> None \<longrightarrow> i = j"
    and inv: "inv (store S)" and at: "procs S i = Some (Atom u n)"
  shows "pool_owned (S\<lparr>store := u c (store S), procs := (procs S)(i \<mapsto> n c (store S))\<rparr>)"
proof -
  have "owned (owns i) (store S)" using own(2) inv by (auto simp: owned_def)
  then obtain own' where own': "passes (owns i) (store S) own' (u c (store S))" "keeps (n c (store S)) (\<lambda>_ _. True) own'"
    using own(1) at by fastforce
  define owns' where "owns' = (\<lambda>j. if j = i then own' else owns j)"
  have others: "owns j = None \<or> owns j = claim (u c (store S)) \<and> own' = None" if "j \<noteq> i" for j
  proof (cases "owns j")
    case (Some v)
    then have "owns i = None" "claim (store S) = owns j" using that own(2,3) by (force, metis option.distinct(1))
    then show ?thesis using own'(1) Some by (simp add: passes_def)
  qed simp
  have "owns' k = None \<or> owns' k = claim (u c (store S))" for k
    using others [of k] own'(1) by (auto simp: owns'_def passes_def)
  moreover have "j = k" if "owns' j \<noteq> None" "owns' k \<noteq> None" for j k
    using that others [of j] others [of k] own(3) by (cases "j = i"; cases "k = i") (auto simp: owns'_def)
  moreover have "keeps p (\<lambda>_ _. True) (owns' j)" if "((procs S)(i \<mapsto> n c (store S))) j = Some p" for j p
    using that own(1) own'(2) by (auto simp: owns'_def split: if_splits)
  moreover have "inv (u c (store S))" using own'(1) by (simp add: passes_def)
  ultimately show ?thesis unfolding pool_owned_def by (auto intro!: exI [of _ owns'])
qed

lemma pool_step_owned:
  assumes "pool_step may_start env S T" "pool_owned S"
    and start: "\<And>p. may_start p \<Longrightarrow> keeps p (\<lambda>_ _. True) None"
    and env: "\<And>s t. env s t \<Longrightarrow> inv s \<Longrightarrow> inv t \<and> claim t = claim s"
  shows "pool_owned T"
proof -
  obtain owns where inv: "inv (store S)" and own: "\<forall>i p. procs S i = Some p \<longrightarrow> keeps p (\<lambda>_ _. True) (owns i)"
      "\<forall>i. owns i = None \<or> owns i = claim (store S)" "\<forall>i j. owns i \<noteq> None \<longrightarrow> owns j \<noteq> None \<longrightarrow> i = j"
    using assms(2) unfolding pool_owned_def by blast
  show ?thesis using assms(1)
  proof cases
    case (ps_start i p)
    define owns' where "owns' = owns(i := None)"
    have "keeps q (\<lambda>_ _. True) (owns' j)" if "((procs S)(i \<mapsto> p)) j = Some q" for j q
      using that own(1) start [OF ps_start(3)] by (auto simp: owns'_def split: if_splits)
    moreover have "owns' j = None \<or> owns' j = claim (store S)" for j
      using own(2) by (simp add: owns'_def)
    moreover have "j = k" if "owns' j \<noteq> None" "owns' k \<noteq> None" for j k
      using that own(3) by (auto simp: owns'_def split: if_splits)
    ultimately show ?thesis
      using inv unfolding ps_start(1) pool_owned_def by (intro conjI exI [of _ owns']) simp_all
  next
    case (ps_atom i u n c)
    then show ?thesis using pool_owned_atom [OF own inv] by simp
  next
    case (ps_gone i)
    then show ?thesis
      using inv own unfolding ps_gone pool_owned_def by (auto intro!: exI [of _ owns] split: if_splits)
  next
    case (ps_env t)
    then have "inv t" "claim t = claim (store S)" using env inv by blast+
    then show ?thesis using own unfolding ps_env(1) pool_owned_def by (auto intro!: exI [of _ owns])
  qed
qed

lemma pool_reach_owned:
  assumes "pool_reach may_start env init S"
    and "\<And>s. init s \<Longrightarrow> inv s"
    and "\<And>p. may_start p \<Longrightarrow> keeps p (\<lambda>_ _. True) None"
    and "\<And>s t. env s t \<Longrightarrow> inv s \<Longrightarrow> inv t \<and> claim t = claim s"
  shows "inv (store S)"
proof -
  have "pool_owned S"
    using assms(1)
  proof induction
    case (pr_init s)
    then show ?case using assms(2) by (auto simp: pool_owned_def intro!: exI [of _ "\<lambda>_. None"])
  next
    case (pr_step S T)
    then show ?case using pool_step_owned assms(3,4) by blast
  qed
  then show ?thesis by (simp add: pool_owned_def)
qed

end

end
