(* ===== verification/OrderSteps.thy ===== *)
theory OrderSteps
  imports PaymentSettles Ownership
begin

section \<open>The status of an order, statement by statement\<close>

text \<open>
  \<open>order_step oid\<close> relates two successive databases when the row of the order \<open>oid\<close> keeps what it was created with, and its
  status stays or takes one edge of the machine \<open>order_edge\<close>. Every statement of every payment program keeps to it, from any
  database: no statement relies on what an earlier one saw, each update carries its condition. The exception is the
  process that created the order, which may give it up in any status; the runs here start when the order exists and that
  process is over.
\<close>

definition order_status_of :: "int \<Rightarrow> gateway_db \<Rightarrow> string option" where
  "order_status_of oid s = map_option order_status (List.find (\<lambda>r. order_id r = oid) (orders s))"

definition rows_ok :: "int \<Rightarrow> gateway_db \<Rightarrow> bool" where
  "rows_ok oid s \<longleftrightarrow> distinct (map order_id (orders s)) \<and> order_status_of oid s \<noteq> None \<and>
     (\<forall>r\<in>set (orders s). order_id r < next_order_id s)"

definition row_step :: "payment_order \<Rightarrow> payment_order \<Rightarrow> bool" where
  "row_step r r' \<longleftrightarrow> same_order r r' \<and> (order_status r' = order_status r \<or> order_edge (order_status r) (order_status r'))"

definition order_step :: "int \<Rightarrow> gateway_db \<Rightarrow> gateway_db \<Rightarrow> bool" where
  "order_step oid s t \<longleftrightarrow> rows_ok oid t \<and>
     (\<exists>r r'. List.find (\<lambda>r. order_id r = oid) (orders s) = Some r \<and>
        List.find (\<lambda>r. order_id r = oid) (orders t) = Some r' \<and> row_step r r')"

abbreviation follows :: "int \<Rightarrow> 'a pay \<Rightarrow> bool" where
  "follows oid p \<equiv> steady (rows_ok oid) (order_step oid) p (\<lambda>_. True)"

lemma row_step_refl [simp]: "row_step r r"
  by (simp add: row_step_def)

lemma found_row: "rows_ok oid s \<Longrightarrow> \<exists>r. List.find (\<lambda>r. order_id r = oid) (orders s) = Some r"
  by (auto simp: rows_ok_def order_status_of_def)

subsection \<open>Statements\<close>

lemma follows_self: "rows_ok oid s \<Longrightarrow> order_step oid s s"
  using found_row [of oid s] by (auto simp: order_step_def)

lemma follows_same: "rows_ok oid s \<Longrightarrow> orders t = orders s \<Longrightarrow> next_order_id t = next_order_id s \<Longrightarrow> order_step oid s t"
  using found_row [of oid s] by (auto simp: order_step_def rows_ok_def order_status_of_def)

lemma follows_quiet: "rows_ok oid s \<Longrightarrow> quiet s t \<Longrightarrow> order_step oid s t"
  by (simp add: quiet_def follows_same)

lemma follows_weather:
  assumes "rows_ok oid t" "\<And>a u. f t = (Inr a, u) \<Longrightarrow> order_step oid t u"
  shows "order_step oid t (snd (under_weather w f t))"
  using assms follows_self by (cases "f t"; cases "fst (f t)") (auto simp: under_weather_def split: weather.splits)

lemma follows_sql: "(\<And>t a u. rows_ok oid t \<Longrightarrow> f t = (Inr a, u) \<Longrightarrow> order_step oid t u) \<Longrightarrow> follows oid (sql f)"
  unfolding sql_def by (rule steady_stmt) (auto intro: follows_weather)

lemma follows_quiet_sql: "quiet_stmt f \<Longrightarrow> follows oid (sql f)"
  by (rule follows_sql) (metis follows_quiet quiet_at snd_conv)

lemma follows_read: "follows oid (sql (\<lambda>s. (r s, s)))"
  by (rule follows_quiet_sql) simp

lemma follows_stmt: "follows oid (stmt (\<lambda>c s. (r c s, s)))"
  by (rule steady_stmt) (simp add: follows_self)

lemma find_snoc: "List.find P (xs @ [x]) = (case List.find P xs of Some y \<Rightarrow> Some y | None \<Rightarrow> if P x then Some x else None)"
  by (induction xs) auto

lemma find_map:
  assumes "\<And>r. order_id (f r) = order_id r"
  shows "List.find (\<lambda>r. order_id r = oid) (map f xs) = map_option f (List.find (\<lambda>r. order_id r = oid) xs)"
  using assms by (induction xs) auto

lemma find_row:
  "List.find (\<lambda>r. order_id r = oid) (orders s) = Some r \<Longrightarrow> order_id r = oid \<and> r \<in> set (orders s)"
  by (auto simp: find_Some_iff)

lemma follows_map:
  assumes "rows_ok oid s" "\<And>r. order_id (f r) = order_id r" "\<And>r. order_id r = oid \<Longrightarrow> row_step r (f r)"
  shows "order_step oid s (s\<lparr>orders := map f (orders s)\<rparr>)"
proof -
  obtain r where r: "List.find (\<lambda>r. order_id r = oid) (orders s) = Some r" using found_row [OF assms(1)] by blast
  have after: "List.find (\<lambda>r. order_id r = oid) (map f (orders s)) = Some (f r)"
    by (simp add: find_map [OF assms(2)] r)
  have "map order_id (map f (orders s)) = map order_id (orders s)" using assms(2) by simp
  then have "rows_ok oid (s\<lparr>orders := map f (orders s)\<rparr>)"
    using assms(1,2) by (auto simp: rows_ok_def order_status_of_def after simp del: map_map)
  then show ?thesis using assms(3) find_row [OF r] by (auto simp: order_step_def after r)
qed

lemma follows_update:
  assumes "\<And>s r. order_id (f s r) = order_id r" "\<And>s r. order_id r = oid \<Longrightarrow> i = oid \<Longrightarrow> cond r \<Longrightarrow> row_step r (f s r)"
  shows "follows oid (sql (\<lambda>s. update_order i cond (f s) s))"
proof (rule follows_sql)
  fix t a u assume ok: "rows_ok oid t" and "update_order i cond (f t) t = (Inr a, u)"
  then have u: "u = t\<lparr>orders := map (\<lambda>r. if order_id r = i \<and> cond r then f t r else r) (orders t)\<rparr>"
    by (auto simp: update_order_def Let_def)
  show "order_step oid t u" unfolding u by (rule follows_map [OF ok]) (use assms in auto)
qed

lemma follows_update_one:
  assumes "\<And>s r. order_id (f s r) = order_id r" "\<And>s r. order_id r = oid \<Longrightarrow> i = oid \<Longrightarrow> row_step r (f s r)"
  shows "follows oid (sql (\<lambda>s. update_one_order i (f s) s))"
proof (rule follows_sql)
  fix t a u assume ok: "rows_ok oid t" and "update_one_order i (f t) t = (Inr a, u)"
  then have u: "u = t\<lparr>orders := map (\<lambda>r. if order_id r = i then f t r else r) (orders t)\<rparr>"
    by (auto simp: update_one_order_def split: if_splits)
  show "order_step oid t u" unfolding u by (rule follows_map [OF ok]) (use assms in auto)
qed

lemma follows_audit: "follows oid (writeAuditLog i action)"
  unfolding writeAuditLog_def by (rule follows_quiet_sql [OF quiet_audit])

lemma follows_logged: "follows oid (hasAuditLog i action)"
  unfolding hasAuditLog_def by (intro steady_rules follows_read)

lemma follows_time: "follows oid time_now"
  unfolding time_now_def by (rule follows_stmt)

lemma follows_find_order: "follows oid (sql (find_order p))"
  by (rule follows_sql) (auto simp: find_order_def intro: follows_self split: option.splits)

lemma follows_order: "follows oid (order_by_id i)" "follows oid (order_by_trade_no no)"
  unfolding order_by_id_def order_by_trade_no_def by (rule follows_find_order)+

lemma follows_find_code: "follows oid (sql (find_code p))"
  by (rule follows_sql) (auto simp: find_code_def intro: follows_self split: option.splits)

lemma follows_find_user: "follows oid (sql (find_user i))"
  by (rule follows_sql) (auto simp: find_user_def intro: follows_self split: option.splits)

lemma follows_user: "follows oid (sql (update_user i f))"
  by (rule follows_sql) (auto simp: update_user_def intro!: follows_same split: option.splits)

lemma follows_provider: "follows oid getOrderProviderInstance" "follows oid getOrderProvider" "follows oid QueryOrder"
  unfolding getOrderProviderInstance_def getOrderProvider_def QueryOrder_def by (rule follows_stmt)+

lemmas follows_steps = steady_rules follows_audit follows_logged follows_time follows_order follows_find_order follows_find_code follows_find_user
  follows_provider

lemmas row_step_defs = row_step_def same_order_def touched_def

subsection \<open>Redemption and fulfilment\<close>

lemma follows_insert_code: "follows oid (sql (insert_code r))"
  by (rule follows_sql) (auto simp: insert_code_def intro!: follows_same split: if_splits)

lemma follows_redeem_tx: "follows oid (sql (redeem_tx C w r notes))"
proof (rule follows_sql)
  fix t a u assume ok: "rows_ok oid t" and "redeem_tx C w r notes t = (Inr a, u)"
  then obtain y v where "use_code (rc_id r) w t = (Inr y, v)" "redeem_benefit C w r notes v = (Inr a, u)"
    by (auto simp: redeem_tx_def also_stmt_def split: prod.splits sum.splits)
  then show "order_step oid t u"
    using redeem_benefits [of C w r "notes" v] by (auto simp: use_code_def benefits_def intro!: follows_same [OF ok] split: if_splits)
qed

lemma follows_limit: "follows oid (checkRedeemRateLimit w)"
  unfolding checkRedeemRateLimit_def by (intro follows_steps follows_read)

lemma follows_count: "follows oid (incrementRedeemErrorCount w)"
  unfolding incrementRedeemErrorCount_def by (rule follows_sql) (auto intro: follows_same)

lemma follows_lock: "follows oid (acquireRedeemLock code)"
  unfolding acquireRedeemLock_def
  by (intro follows_steps follows_sql) (auto intro!: follows_same split: if_splits)

lemma follows_unlock: "follows oid (releaseRedeemLock code)"
  unfolding releaseRedeemLock_def by (rule follows_sql) (auto intro!: follows_same)

lemma follows_rebate_of_code: "follows oid (tryAccrueAffiliateRebateForRedeem skip)"
  unfolding tryAccrueAffiliateRebateForRedeem_def
  by (intro follows_steps steady_stmt conjI follows_weather TrueI) (auto intro!: follows_same split: sum.splits if_splits)

lemma follows_redeem_locked: "follows oid (redeem_locked L skip w code notes)"
  unfolding redeem_locked_def by (intro follows_steps follows_count follows_redeem_tx follows_rebate_of_code)

lemma follows_redeem: "follows oid (Redeem L skip w code notes)"
  unfolding Redeem_def by (intro follows_steps follows_limit follows_lock follows_unlock follows_redeem_locked)

lemma follows_create_code: "follows oid (CreateCode r)"
  unfolding CreateCode_def Let_def by (intro follows_steps follows_insert_code)

lemma follows_lease: "follows oid (acquirePaymentFulfillmentLease o1)"
proof -
  have "follows oid (sql (update_order i
     (\<lambda>r. order_status r = OrderStatusPaid \<or> order_status r = OrderStatusFailed \<or>
          order_status r = OrderStatusRecharging \<and> order_updated_at r \<le> stale)
     (\<lambda>r. r\<lparr>order_status := OrderStatusRecharging, order_updated_at := a, failed_at := None, failed_reason := None\<rparr>)))" for i a stale
    by (rule follows_update [where f = "\<lambda>_ r. r\<lparr>order_status := OrderStatusRecharging, order_updated_at := a, failed_at := None,
      failed_reason := None\<rparr>"]) (auto simp: row_step_defs intro: oe_claim)
  then show ?thesis
    unfolding acquirePaymentFulfillmentLease_def Let_def by (intro follows_steps)
qed

lemma follows_completed: "follows oid (markCompleted o1 lease action)"
  unfolding markCompleted_def by (intro follows_steps follows_update) (auto simp: row_step_defs intro: oe_complete)

lemma follows_failed: "follows oid (markFailed i lease reason)"
  unfolding markFailed_def by (intro follows_steps follows_update) (auto simp: row_step_defs intro: oe_fail)

lemma follows_rebate: "follows oid (applyAffiliateRebateForOrder o1)"
  unfolding applyAffiliateRebateForOrder_def
  by (intro follows_steps steady_stmt conjI follows_weather TrueI)
    (auto simp: rebate_tx_def intro!: follows_same split: sum.splits if_splits)

lemma follows_rebate_and_complete: "follows oid (rebate_and_complete o1 lease action)"
  unfolding rebate_and_complete_def by (intro follows_steps follows_rebate follows_completed)

lemma follows_doBalance: "follows oid (doBalance L o1 lease)"
  unfolding doBalance_def redeem_and_complete_def
  by (intro follows_steps)
    (auto intro!: follows_steps follows_rebate_and_complete follows_redeem follows_create_code split: redeemAction.splits)

lemma follows_under_lease: "(\<And>v. follows oid (work v)) \<Longrightarrow> follows oid (under_lease L o1 work)"
  unfolding under_lease_def by (intro follows_steps follows_lease follows_failed)

lemma follows_balance: "follows oid (ExecuteBalanceFulfillment L i)"
  unfolding ExecuteBalanceFulfillment_def by (intro follows_steps follows_under_lease follows_doBalance)

lemma follows_assigned: "follows oid (ensurePaymentSubscriptionAssigned C o1 g d)"
  unfolding ensurePaymentSubscriptionAssigned_def hasPaymentSubscriptionAssignmentAudit_def [abs_def]
  by (intro follows_steps follows_read follows_quiet_sql [OF quiet_assign_tx])

lemma follows_doSub: "follows oid (doSub L o1 g d lease)"
  unfolding doSub_def
  by (intro follows_steps follows_quiet_sql [OF quiet_find_group] follows_assigned follows_rebate_and_complete)

lemma follows_subscription: "follows oid (ExecuteSubscriptionFulfillment L i)"
  unfolding ExecuteSubscriptionFulfillment_def by (intro follows_steps follows_under_lease follows_doSub)

lemma follows_fulfilment: "follows oid (executeFulfillment L i)" "follows oid (RetryFulfillment L i)"
  unfolding RetryFulfillment_def executeFulfillment_def by (intro follows_steps follows_balance follows_subscription)+

subsection \<open>Notifications, cancellation, expiry and creation\<close>

lemma follows_toPaid: "follows oid (toPaid L o1 no paid)"
  unfolding toPaid_def alreadyProcessed_def Let_def
  by (intro follows_steps follows_fulfilment follows_update) (auto simp: row_step_defs intro: oe_pay)

lemma follows_confirm: "follows oid (confirmPayment L i no paid pk metadata)"
  unfolding confirmPayment_def confirmEasyPayUpstream_def audited_error_def Let_def by (intro follows_steps follows_toPaid)

lemma follows_notification: "follows oid (HandlePaymentNotification L n pk)"
  unfolding HandlePaymentNotification_def by (intro follows_steps follows_confirm)

lemma follows_settle: "follows oid (settle_paid L o1 provKey queryRef resp)"
  unfolding settle_paid_def Let_def by (intro follows_steps follows_notification follows_update) (auto simp: row_step_defs)

lemma follows_check_paid: "follows oid (checkPaidWithOptions L o1)"
  unfolding checkPaidWithOptions_def requeryPaidOrderOnce_def Let_def by (intro follows_steps follows_settle)

lemma follows_cancel_core:
  assumes "fs = OrderStatusCancelled \<or> fs = OrderStatusExpired"
  shows "follows oid (cancelCore L o1 fs)"
  unfolding cancelCore_def by (intro follows_steps follows_check_paid follows_update) (use assms in \<open>auto simp: row_step_defs intro: oe_cancel oe_expire\<close>)

lemma follows_cancel: "follows oid (CancelOrder L i w)" "follows oid (AdminCancelOrder L i)"
  unfolding CancelOrder_def AdminCancelOrder_def by (intro follows_steps follows_cancel_core; simp)+

lemma follows_expire_each: "follows oid (expire_each L os n)"
proof (induction os arbitrary: n)
  case (Cons o1 os)
  show ?case
    by (simp, intro steady_then follows_cancel_core) (auto intro!: steady_sum Cons.IH split: bool.splits)
qed simp

lemma follows_expire: "follows oid (ExpireTimedOutOrders L)"
  unfolding ExpireTimedOutOrders_def by (intro follows_steps follows_read follows_expire_each)

lemma follows_verify: "follows oid (VerifyOrderByOutTradeNo L raw w)"
  unfolding VerifyOrderByOutTradeNo_def by (intro follows_steps follows_check_paid)

lemma follows_reconcile: "follows oid (ReconcilePendingPaymentOrders L)"
proof -
  have "follows oid (reconcile_each L os n)" for os n
    by (induction os arbitrary: n) (auto intro!: steady_then follows_check_paid)
  then show ?thesis unfolding ReconcilePendingPaymentOrders_def by (intro follows_steps follows_read)
qed

lemma insert_order_follows:
  assumes "rows_ok oid t" "insert_order (new_order L req plan amount pay sel no expires) t = (Inr a, u)"
  shows "order_step oid t u \<and> order_id a \<noteq> oid"
proof -
  define r where "r = new_order L req plan amount pay sel no expires t"
  have r: "order_id r = next_order_id t" by (simp add: r_def new_order_def)
  have u: "u = t\<lparr>orders := orders t @ [r], next_order_id := next_order_id t + 1\<rparr>" "a = r"
    using assms(2) by (auto simp: insert_order_def r_def split: if_splits)
  obtain x where x: "List.find (\<lambda>r. order_id r = oid) (orders t) = Some x"
    using assms(1) by (auto simp: rows_ok_def order_status_of_def)
  have small: "order_id y < next_order_id t" if "y \<in> set (orders t)" for y
    using assms(1) that by (simp add: rows_ok_def)
  have x': "List.find (\<lambda>r. order_id r = oid) (orders u) = Some x" by (simp add: u find_snoc x)
  then have "order_step oid t u"
    using assms(1) small x by (fastforce simp: order_step_def rows_ok_def order_status_of_def u r)
  moreover have "order_id r \<noteq> oid" using small find_row [OF x] r by fastforce
  ultimately show ?thesis by (simp add: u)
qed

lemma follows_created:
  "steady (rows_ok oid) (order_step oid) (createOrderInTx L req plan cfg amount limitAmount pay sel) (\<lambda>r. \<forall>a. r = Inr a \<longrightarrow> order_id a \<noteq> oid)"
proof -
  let ?P = "\<lambda>r :: go_error + payment_order. \<forall>a. r = Inr a \<longrightarrow> order_id a \<noteq> oid"
  have insert: "steady (rows_ok oid) (order_step oid) (sql (insert_order (new_order L req plan amount pay sel no expires))) ?P" for no expires
    unfolding sql_def
  proof (rule steady_stmt)
    fix t c assume ok: "rows_ok oid t"
    show "order_step oid t (snd (under_weather (weather c) (insert_order (new_order L req plan amount pay sel no expires)) t)) \<and>
        ?P (fst (under_weather (weather c) (insert_order (new_order L req plan amount pay sel no expires)) t))"
      using insert_order_follows [OF ok] follows_self [OF ok]
      by (auto simp: under_weather_def split: weather.splits prod.splits sum.splits)
  qed
  have attempts: "follows oid (allocate_attempts n)" for n
  proof (induction n)
    case (Suc n)
    have "follows oid (stmt (\<lambda>c. under_weather (weather c)
        (\<lambda>s. (Inr (generateOutTradeNo c, generateOutTradeNo c \<in> out_trade_no ` set (orders s)), s))))"
      by (intro steady_stmt conjI follows_weather TrueI) (auto intro: follows_self)
    then show ?case using Suc by (auto intro!: follows_steps)
  qed simp
  have fail: "steady (rows_ok oid) (order_step oid) (Ret (Inl e)) ?P" for e by simp
  have limits: "follows oid (checkPendingLimit w m)" "follows oid (checkDailyLimit w a l)" for w m a l
    unfolding checkPendingLimit_def checkDailyLimit_def Let_def by (intro follows_steps follows_read)+
  show ?thesis
    unfolding createOrderInTx_def allocateOutTradeNo_def Let_def
    by (intro steady_then steady_checked steady_option fail limits attempts insert follows_time)
qed

lemma follows_place_order: "follows oid (place_order L req plan cfg amount limitAmount pay sel)"
proof -
  have set_row: "follows oid (sql (\<lambda>s. update_one_order i (f s) s))"
    if "i \<noteq> oid" "\<And>s r. order_id (f s r) = order_id r" for i f
    by (rule follows_update_one) (use that in auto)
  have "follows oid (invokeProvider o1 sel)" if "order_id o1 \<noteq> oid" for o1
    unfolding invokeProvider_def by (intro follows_steps follows_stmt set_row that) (simp add: touched_def)
  then show ?thesis
    unfolding place_order_def
    by (intro steady_checked_with [OF follows_created] follows_steps set_row) (simp_all add: touched_def)
qed

subsection \<open>Every request, and the environment\<close>

lemma follows_requests: "payment_request L p \<Longrightarrow> follows oid p"
  unfolding payment_request_def
  by (elim disjE exE; simp only:; intro steady_ignoring steady_Ret follows_notification follows_fulfilment follows_redeem
      follows_cancel follows_verify follows_expire follows_reconcile follows_place_order)

lemma follows_env: "payment_env s t \<Longrightarrow> rows_ok oid s \<Longrightarrow> order_step oid s t"
  unfolding payment_env_def time_passes_def insert_code_def
  by (elim disjE exE conjE) (auto intro!: follows_same split: if_splits)

subsection \<open>The machine\<close>

lemma step_ok: "order_step oid s t \<Longrightarrow> rows_ok oid t"
  by (simp add: order_step_def)

lemma runs_ok:
  assumes "pool_reach (payment_request L) payment_env (rows_ok oid) S"
  shows "rows_ok oid (store S)"
proof -
  have "rows_ok oid (store S) \<and> (\<forall>i p. procs S i = Some p \<longrightarrow> follows oid p)"
    by (rule pool_reach_steady [OF assms]) (use step_ok follows_requests follows_env in blast)+
  then show ?thesis by simp
qed

text \<open>C8: From the moment an order exists and the process that created it is over, every single step of every request moves its
  status along at most one edge of \<open>order_edge\<close>, whatever runs beside it: it is paid only from pending, cancelled or expired,
  claimed only from paid, failed or recharging, completed and failed only from recharging, cancelled and expired only from
  pending, and leaves completed for nothing. Its user, type, amount and codes never change. (The process that creates an
  order may give it up in any status when the provider does not answer; a refund is not among these requests.)\<close>

theorem order_status_refines:
  assumes "pool_reach (payment_request L) payment_env (rows_ok oid) S" and "pool_step (payment_request L) payment_env S T"
  shows "\<exists>r r'. List.find (\<lambda>r. order_id r = oid) (orders (store S)) = Some r \<and>
     List.find (\<lambda>r. order_id r = oid) (orders (store T)) = Some r' \<and> same_order r r' \<and>
     (order_status r' = order_status r \<or> order_edge (order_status r) (order_status r'))"
proof -
  have "rows_ok oid (store S)" using assms(1) by (rule runs_ok)
  then have "order_step oid (store S) (store S)" by (rule follows_self)
  moreover have "store T = store S \<or> order_step oid (store S) (store T)"
    by (rule pool_step_steady [OF assms]) (use step_ok follows_requests follows_env in blast)+
  ultimately have "order_step oid (store S) (store T)" by fastforce
  then show ?thesis by (auto simp: order_step_def row_step_def)
qed

text \<open>A run on which something changes has a step that changes it.\<close>

lemma changing_step:
  assumes "(pool_step may_start env)\<^sup>*\<^sup>* S T" "\<not> P S" "P T" "pool_reach may_start env init S"
  shows "\<exists>U V. pool_reach may_start env init U \<and> pool_step may_start env U V \<and> \<not> P U \<and> P V"
  using assms
proof (induction rule: converse_rtranclp_induct)
  case (step S U)
  then show ?case by (cases "P U") (blast intro: pr_step)+
qed simp
lemma find_own: "distinct (map order_id xs) \<Longrightarrow> r \<in> set xs \<Longrightarrow> List.find (\<lambda>x. order_id x = order_id r) xs = Some r"
  by (induction xs) force+

theorem order_status_refines_witness:
  "\<exists>U V :: (chance, gateway_db, unit) pool. pool_reach (payment_request shop_lib) payment_env (rows_ok 7) U \<and>
     pool_step (payment_request shop_lib) payment_env U V \<and>
     order_status_of 7 (store U) = Some OrderStatusRecharging \<and> order_status_of 7 (store V) = Some OrderStatusCompleted"
proof -
  let ?done = "\<lambda>S. order_status_of 7 (store S) = Some OrderStatusCompleted"
  let ?S = "\<lparr>store = paid_logged_db, procs = Map.empty\<rparr> :: (chance, gateway_db, unit) pool"
  let ?p = "ignoring (executeFulfillment shop_lib 7) (Ret ())"
  have ok: "rows_ok 7 paid_logged_db" "\<not> ?done ?S"
    by (simp_all add: rows_ok_def order_status_of_def paid_logged_db_def paid_db_def ordered_db_def order_status_defs)
  have start: "pool_reach (payment_request shop_lib) payment_env (rows_ok 7) ?S" using ok(1) by (rule pr_init)
  have "payment_request shop_lib ?p" unfolding payment_request_def by blast
  with pool_runs_prog [of ?S 0 "payment_request shop_lib" ?p payment_env fair_chance]
  obtain T where T: "(pool_step (payment_request shop_lib) payment_env)\<^sup>*\<^sup>* ?S T" "store T = snd (run_prog ?p fair_chance paid_logged_db)"
    by auto
  obtain t r' where t: "run_prog (executeFulfillment shop_lib 7) fair_chance paid_logged_db = (None, t)" "r' \<in> set (orders t)"
    "same_order paid_order r'" "order_status r' = OrderStatusCompleted"
    using settles [OF paid_inv, of paid_order shop_user fair_chance 0 shop_lib]
    by (auto simp: claimable_def paid_logged_db_def paid_db_def ordered_db_def OrderTypeSubscription_def shop_code_length redeemMaxErrorsPerHour_def)
  have "distinct (map order_id (orders (store T)))"
    using runs_ok [OF pool_reach_steps [OF start T(1)]] by (simp add: rows_ok_def)
  then have "?done T" using find_own [of "orders (store T)" r'] t T(2) by (simp add: order_status_of_def same_order_def)
  then obtain U V where UV: "pool_reach (payment_request shop_lib) payment_env (rows_ok 7) U"
    "pool_step (payment_request shop_lib) payment_env U V" "\<not> ?done U" "?done V"
    using changing_step [OF T(1), where P = ?done] ok(2) start by blast
  obtain r z where r: "List.find (\<lambda>r. order_id r = 7) (orders (store U)) = Some r" "List.find (\<lambda>r. order_id r = 7) (orders (store V)) = Some z"
    "order_status z = order_status r \<or> order_edge (order_status r) (order_status z)"
    using order_status_refines [OF UV(1,2)] by blast
  then have "order_status z = OrderStatusCompleted" "order_status r \<noteq> OrderStatusCompleted"
    using UV(3,4) by (auto simp: order_status_of_def)
  moreover have "order_status r = OrderStatusRecharging" if "order_edge (order_status r) OrderStatusCompleted"
    using that by cases (auto simp: order_status_defs)
  ultimately show ?thesis using UV(1,2) r by (intro exI [of _ U] exI [of _ V]) (auto simp: order_status_of_def)
qed

end
