(* ===== verification/Refund.thy ===== *)
theory Refund
  imports PaymentFlow
begin

section \<open>Refunds of payment orders\<close>

text \<open>
  Models \<^verbatim>\<open>payment_refund.go\<close>, \<^verbatim>\<open>calculateGatewayRefundAmount\<close> of \<^verbatim>\<open>payment_amounts.go\<close>, the resolution of an
  order's provider instance of \<^verbatim>\<open>payment_order_provider_snapshot.go\<close>, \<^verbatim>\<open>RevokeSubscription\<close> and
  \<^verbatim>\<open>GetActiveSubscription\<close> of \<^verbatim>\<open>subscription_service.go\<close> and \<^verbatim>\<open>DeductAvailableBalance\<close> of \<^verbatim>\<open>user_repo.go\<close>.

  The state adds to the tables of \<open>GatewayStore\<close> the columns of an order that only refunds use (by the order's
  id), the provider instances, the details of the audit rows \<^verbatim>\<open>REFUND_PENDING\<close>, and the book of the refunds asked
  of providers with their answers, which the code does not keep: it records what the world saw. A program of the
  payment service is lifted by \<open>on_gate\<close>. What a provider answers, what the provider factory makes of an instance and
  what the subscription cache holds come from the chance of the statement. The answer of a provider is Go's pair of a
  response, possibly nil, and an error, possibly nil.
\<close>

subsection \<open>State\<close>

record refund_columns =
  provider_instance_id :: "string option"
  refund_amount :: usd
  refund_reason :: "string option"
  refund_request_reason :: "string option"
  refund_requested_at :: "time option"
  refund_requested_by :: "string option"
  refund_at :: "time option"
  force_refund :: bool

record provider_instance =
  instance_provider_key :: string
  allow_user_refund :: bool
  refund_enabled :: bool

record RefundResponse =
  refund_id :: string
  refund_status :: string

type_synonym refund_answer = "RefundResponse option \<times> go_error option"

record refund_db =
  gate :: gateway_db
  refund_cols :: "int \<Rightarrow> refund_columns"
  instances :: "int \<rightharpoonup> provider_instance"
  pending_details :: "int \<rightharpoonup> string \<times> bool"
  provider_book :: "(int \<times> usd \<times> refund_answer) list"

record refund_provider =
  refund_provider_key :: string
  merchant_metadata :: "(string \<times> string) list"
  can_query_refund :: bool

record refund_chance =
  gate_chance :: chance
  provider_made :: "go_error + refund_provider"
  provider_refund :: refund_answer
  provider_query :: "go_error + RefundResponse option"
  cached_subscription :: "UserSubscription option"
  cache_invalidation :: "go_error option"

type_synonym 'a refund = "(refund_chance, refund_db, 'a) prog"
type_synonym 'a refund_stmt = "refund_db \<Rightarrow> (go_error + 'a) \<times> refund_db"

primrec on_gate :: "'a pay \<Rightarrow> 'a refund" where
  "on_gate (Ret a) = Ret a"
| "on_gate (Atom u n) =
     Atom (\<lambda>c s. s\<lparr>gate := u (gate_chance c) (gate s)\<rparr>) (\<lambda>c s. on_gate (n (gate_chance c) (gate s)))"

definition rsql :: "'a refund_stmt \<Rightarrow> (go_error + 'a) refund" where
  "rsql f = stmt (\<lambda>c. under_weather (weather (gate_chance c)) f)"

text \<open>A database transaction: its statements run alone, and take effect together or not at all.\<close>

definition in_tx :: "(go_error + 'a) refund \<Rightarrow> (go_error + 'a) refund" where
  "in_tx p = stmt (\<lambda>c. under_weather (weather (gate_chance c))
     (run_prog p (c\<lparr>gate_chance := (gate_chance c)\<lparr>weather := Fair\<rparr>\<rparr>)))"

definition refund_now :: "time refund" where "refund_now = on_gate time_now"

text \<open>The updates of an order, in both parts of its row.\<close>

definition update_refund ::
  "int \<Rightarrow> (payment_order \<Rightarrow> bool) \<Rightarrow> (payment_order \<Rightarrow> payment_order) \<Rightarrow> (refund_columns \<Rightarrow> refund_columns) \<Rightarrow> nat refund_stmt"
where
  "update_refund i cond f g s =
     (case update_order i cond (\<lambda>r. f (touched (gate s) r)) (gate s) of
        (Inl e, _) \<Rightarrow> (Inl e, s)
      | (Inr n, t) \<Rightarrow> (Inr n, s\<lparr>gate := t,
          refund_cols := (if n = 0 then refund_cols s else (refund_cols s)(i := g (refund_cols s i)))\<rparr>))"

definition update_one_refund ::
  "int \<Rightarrow> (payment_order \<Rightarrow> payment_order) \<Rightarrow> (refund_columns \<Rightarrow> refund_columns) \<Rightarrow> unit refund_stmt"
where
  "update_one_refund i f g s =
     (case update_one_order i (\<lambda>r. f (touched (gate s) r)) (gate s) of
        (Inl e, _) \<Rightarrow> (Inl e, s)
      | (Inr _, t) \<Rightarrow> (Inr (), s\<lparr>gate := t, refund_cols := (refund_cols s)(i := g (refund_cols s i))\<rparr>))"

definition refund_order_by_id :: "int \<Rightarrow> (go_error + payment_order \<times> refund_columns) refund" where
  "refund_order_by_id i = rsql (\<lambda>s.
     case find_order (\<lambda>r. order_id r = i) (gate s) of
       (Inl e, _) \<Rightarrow> (Inl e, s)
     | (Inr r, _) \<Rightarrow> (Inr (r, refund_cols s i), s))"

definition writeRefundAudit :: "int \<Rightarrow> string \<Rightarrow> (go_error + unit) refund" where
  "writeRefundAudit i action = on_gate (writeAuditLog i action)"

subsection \<open>Amounts\<close>

text \<open>\<^verbatim>\<open>decimal.Round\<close> rounds halves away from zero; \<^verbatim>\<open>decimal.Div\<close> keeps 16 digits after the point.\<close>

definition decimal_round :: "nat \<Rightarrow> usd \<Rightarrow> usd" where
  "decimal_round n x = sgn x * (of_int \<lfloor>\<bar>x\<bar> * 10 ^ n + 1 / 2\<rfloor> / 10 ^ n)"

definition CurrencyMaxFractionDigits :: "pay_lib \<Rightarrow> string \<Rightarrow> nat" where
  "CurrencyMaxFractionDigits L currency =
     (case NormalizePaymentCurrency L currency of
        None \<Rightarrow> 2
      | Some c \<Rightarrow> if c \<in> set zero_decimal_currencies \<or> c = ''ISK'' \<or> c = ''UGX'' then 0
                  else if c \<in> set three_decimal_currencies then 3 else 2)"

definition calculateGatewayRefundAmount :: "pay_lib \<Rightarrow> usd \<Rightarrow> usd \<Rightarrow> usd \<Rightarrow> string \<Rightarrow> usd" where
  "calculateGatewayRefundAmount L orderAmount payAmount refundAmount currency =
     (if orderAmount \<le> 0 \<or> payAmount \<le> 0 \<or> refundAmount \<le> 0 then 0
      else let fractionDigits = CurrencyMaxFractionDigits L currency
      in if \<bar>refundAmount - orderAmount\<bar> \<le> paymentAmountToleranceForCurrency L currency
         then decimal_round fractionDigits payAmount
         else decimal_round fractionDigits (decimal_round 16 (payAmount * refundAmount / orderAmount)))"

subsection \<open>The provider instance of an order\<close>

definition psStringValue :: "string option \<Rightarrow> string" where
  "psStringValue v = (case v of None \<Rightarrow> '''' | Some t \<Rightarrow> t)"

definition find_instance :: "int \<Rightarrow> provider_instance refund_stmt" where
  "find_instance i s = (case instances s i of None \<Rightarrow> (Inl ent_not_found, s) | Some r \<Rightarrow> (Inr r, s))"

definition resolveSnapshotOrderProviderInstance ::
  "pay_lib \<Rightarrow> payment_order \<Rightarrow> refund_columns \<Rightarrow> paymentOrderProviderSnapshot \<Rightarrow> (go_error + provider_instance) refund"
where
  "resolveSnapshotOrderProviderInstance L o1 cols sn =
     (let columnInstanceID = trim_space (psStringValue (provider_instance_id cols));
          snapshotInstanceID = (let t = trim_space (snap_ProviderInstanceID sn) in if t = '''' then columnInstanceID else t);
          order_text = ''order '' @ itoa (order_id o1)
      in if snapshotInstanceID = ''''
         then Ret (Inl (plain_error (order_text @ '' provider snapshot is missing provider_instance_id'')))
         else if columnInstanceID \<noteq> '''' \<and> snap_ProviderInstanceID sn \<noteq> '''' \<and>
                 \<not> equal_fold L columnInstanceID (snap_ProviderInstanceID sn)
         then Ret (Inl (plain_error (order_text @ '' provider snapshot instance mismatch: snapshot='' @
                snap_ProviderInstanceID sn @ '' order='' @ columnInstanceID)))
         else case parse_int64 snapshotInstanceID of
           None \<Rightarrow> Ret (Inl (plain_error (order_text @ '' provider snapshot instance id is invalid: '' @ snapshotInstanceID)))
         | Some instID \<Rightarrow>
             checked (rsql (find_instance instID))
               (\<lambda>e. if IsNotFound e
                    then Ret (Inl (plain_error (order_text @ '' provider snapshot instance '' @ snapshotInstanceID @ '' is missing'')))
                    else Ret (Inl e)) (\<lambda>inst.
             if snap_ProviderKey sn \<noteq> '''' \<and> \<not> equal_fold L (trim_space (instance_provider_key inst)) (snap_ProviderKey sn)
             then Ret (Inl (plain_error (order_text @ '' provider snapshot key mismatch: snapshot='' @ snap_ProviderKey sn @
                    '' instance='' @ instance_provider_key inst)))
             else Ret (Inr inst)))"

definition getRefundOrderProviderInstance ::
  "pay_lib \<Rightarrow> payment_order \<Rightarrow> refund_columns \<Rightarrow> (go_error + provider_instance option) refund"
where
  "getRefundOrderProviderInstance L o1 cols =
     (case psOrderProviderSnapshot o1 of
        Some sn \<Rightarrow>
          checked (resolveSnapshotOrderProviderInstance L o1 cols sn) (\<lambda>e. Ret (Inl e)) (\<lambda>inst. Ret (Inr (Some inst)))
      | None \<Rightarrow>
          (let instIDStr = trim_space (psStringValue (provider_instance_id cols));
               order_text = ''order '' @ itoa (order_id o1)
           in if instIDStr = '''' then Ret (Inr None)
              else case parse_int64 instIDStr of
                None \<Rightarrow> Ret (Inl (plain_error (order_text @ '' refund provider instance id is invalid: '' @ instIDStr)))
              | Some instID \<Rightarrow>
                  checked (rsql (find_instance instID))
                    (\<lambda>e. if IsNotFound e
                         then Ret (Inl (plain_error (order_text @ '' refund provider instance '' @ instIDStr @ '' is missing'')))
                         else Ret (Inl e))
                    (\<lambda>inst. Ret (Inr (Some inst)))))"

definition createProviderFromInstance :: "(go_error + refund_provider) refund" where
  "createProviderFromInstance = stmt (\<lambda>c s. (provider_made c, s))"

definition getRefundProvider :: "pay_lib \<Rightarrow> payment_order \<Rightarrow> refund_columns \<Rightarrow> (go_error + refund_provider) refund" where
  "getRefundProvider L o1 cols =
     checked (getRefundOrderProviderInstance L o1 cols) (\<lambda>e. Ret (Inl e)) (\<lambda>inst. case inst of
        None \<Rightarrow> Ret (Inl (plain_error (''refund provider instance is unavailable for order '' @ itoa (order_id o1))))
      | Some _ \<Rightarrow> createProviderFromInstance)"

subsection \<open>A user's request for a refund\<close>

definition validateRefundRequest :: "pay_lib \<Rightarrow> int \<Rightarrow> int \<Rightarrow> (go_error + payment_order) refund" where
  "validateRefundRequest L oid uid =
     checked (refund_order_by_id oid) (\<lambda>_. Ret (Inl (NotFound ''NOT_FOUND'' ''order not found''))) (\<lambda>(o1, cols).
     if order_user o1 \<noteq> uid then Ret (Inl (Forbidden ''FORBIDDEN'' ''no permission''))
     else if order_type o1 \<noteq> OrderTypeBalance
     then Ret (Inl (BadRequest ''INVALID_ORDER_TYPE'' ''only balance orders can request refund''))
     else if order_status o1 \<noteq> OrderStatusCompleted
     then Ret (Inl (BadRequest ''INVALID_STATUS'' ''only completed orders can request refund''))
     else and_then (getRefundOrderProviderInstance L o1 cols) (\<lambda>r. case r of
        Inr (Some inst) \<Rightarrow>
          if \<not> allow_user_refund inst
          then Ret (Inl (Forbidden ''USER_REFUND_DISABLED'' ''user refund is not enabled for this provider''))
          else Ret (Inr o1)
      | _ \<Rightarrow> Ret (Inl (Forbidden ''USER_REFUND_DISABLED'' ''refund is not available for this order''))))"

definition RequestRefund :: "pay_lib \<Rightarrow> int \<Rightarrow> int \<Rightarrow> string \<Rightarrow> go_error option refund" where
  "RequestRefund L oid uid reason =
     checked (validateRefundRequest L oid uid) (\<lambda>e. Ret (Some e)) (\<lambda>o1.
     checked (on_gate (sql (find_user (order_user o1)))) (\<lambda>e. Ret (Some (wrap ''get user'' e))) (\<lambda>u.
     if balance u < order_amount o1 then Ret (Some (BadRequest ''BALANCE_NOT_ENOUGH'' ''refund amount exceeds balance''))
     else and_then refund_now (\<lambda>now.
     checked (rsql (update_refund oid
         (\<lambda>r. order_user r = uid \<and> order_status r = OrderStatusCompleted \<and> order_type r = OrderTypeBalance)
         (\<lambda>r. r\<lparr>order_status := OrderStatusRefundRequested\<rparr>)
         (\<lambda>k. k\<lparr>refund_requested_at := Some (pg_time now), refund_request_reason := Some (trim_space reason),
               refund_requested_by := Some (itoa uid), refund_amount := order_amount o1\<rparr>)))
       (\<lambda>e. Ret (Some (wrap ''update'' e))) (\<lambda>c.
     if c = 0 then Ret (Some (Conflict ''CONFLICT'' ''order status changed''))
     else ignoring (writeRefundAudit oid ''REFUND_REQUESTED'') (Ret None)))))"
subsection \<open>Plans\<close>

definition DeductionTypeNone :: string where "DeductionTypeNone = ''none''"
definition DeductionTypeBalance :: string where "DeductionTypeBalance = ''balance''"
definition DeductionTypeSubscription :: string where "DeductionTypeSubscription = ''subscription''"

lemmas deduction_defs = DeductionTypeNone_def DeductionTypeBalance_def DeductionTypeSubscription_def

record RefundPlan =
  OrderID :: int
  plan_order :: payment_order
  plan_cols :: refund_columns
  RefundAmount :: usd
  GatewayAmount :: usd
  plan_reason :: string
  plan_force :: bool
  DeductBalance :: bool
  DeductionType :: string
  BalanceToDeduct :: usd
  SubDaysToDeduct :: int
  plan_subscription :: int

record RefundResult =
  result_success :: bool
  result_warning :: string
  RequireForce :: bool
  BalanceDeducted :: usd
  SubDaysDeducted :: int

definition failed_result :: "string \<Rightarrow> bool \<Rightarrow> RefundResult" where
  "failed_result warning requireForce = \<lparr>result_success = False, result_warning = warning, RequireForce = requireForce,
     BalanceDeducted = 0, SubDaysDeducted = 0\<rparr>"

text \<open>\<^verbatim>\<open>GetActiveSubscription\<close> answers from a cache of the process, however old, or from the table.\<close>

definition GetActiveByUserIDAndGroupID :: "int \<Rightarrow> int \<Rightarrow> UserSubscription db_stmt" where
  "GetActiveByUserIDAndGroupID userID groupID s =
     find_sub (\<lambda>r. of_user_and_group userID groupID r \<and> SubStatus r = SubscriptionStatusActive \<and>
       SubExpiresAt r > clock s) s"

definition GetActiveSubscription :: "int \<Rightarrow> int \<Rightarrow> (go_error + UserSubscription) refund" where
  "GetActiveSubscription userID groupID =
     and_then (stmt (\<lambda>c s. (cached_subscription c, s))) (\<lambda>hit. case hit of
        Some sub \<Rightarrow> Ret (Inr sub)
      | None \<Rightarrow> on_gate (sql (GetActiveByUserIDAndGroupID userID groupID)))"

text \<open>The answer is an early result, or the plan with the deduction filled in.\<close>

definition prepDeduct ::
  "payment_order \<Rightarrow> RefundPlan \<Rightarrow> bool \<Rightarrow> (RefundResult + RefundPlan) refund" where
  "prepDeduct o1 p force =
     (if order_type o1 = OrderTypeSubscription then
        (let p1 = p\<lparr>DeductionType := DeductionTypeSubscription\<rparr>
         in case (subscription_group_id o1, subscription_days o1) of
              (Some gid, Some days) \<Rightarrow>
                (let p2 = p1\<lparr>SubDaysToDeduct := days\<rparr>
                 in and_then (GetActiveSubscription (order_user o1) gid) (\<lambda>r. case r of
                      Inr sub \<Rightarrow> Ret (Inr (p2\<lparr>plan_subscription := SubID sub\<rparr>))
                    | Inl _ \<Rightarrow>
                        if \<not> force
                        then Ret (Inl (failed_result ''cannot find active subscription for deduction, use force'' True))
                        else Ret (Inr p2)))
            | _ \<Rightarrow> Ret (Inr p1))
      else
        and_then (on_gate (sql (find_user (order_user o1)))) (\<lambda>r. case r of
          Inl _ \<Rightarrow>
            if \<not> force then Ret (Inl (failed_result ''cannot fetch user balance, use force'' True)) else Ret (Inr p)
        | Inr u \<Rightarrow>
            if balance u < RefundAmount p \<and> \<not> force
            then Ret (Inl (failed_result ''user balance is insufficient for deduction, use force'' True))
            else Ret (Inr (p\<lparr>DeductionType := DeductionTypeBalance,
                              BalanceToDeduct := max 0 (min (RefundAmount p) (balance u))\<rparr>))))"

definition refundable_statuses :: "string list" where
  "refundable_statuses = [OrderStatusCompleted, OrderStatusRefundRequested, OrderStatusRefundPending, OrderStatusRefundFailed]"

text \<open>The answer is an early result or a plan.\<close>

definition PrepareRefund ::
  "pay_lib \<Rightarrow> int \<Rightarrow> go_amount \<Rightarrow> string \<Rightarrow> bool \<Rightarrow> bool \<Rightarrow> (go_error + (RefundResult + RefundPlan)) refund" where
  "PrepareRefund L oid amt reason force deduct =
     checked (refund_order_by_id oid) (\<lambda>_. Ret (Inl (NotFound ''NOT_FOUND'' ''order not found''))) (\<lambda>(o1, cols).
     if order_status o1 \<notin> set refundable_statuses
     then Ret (Inl (BadRequest ''INVALID_STATUS'' ''order status does not allow refund''))
     else checked (getRefundOrderProviderInstance L o1 cols)
       (\<lambda>_. Ret (Inl (InternalServer ''PROVIDER_LOOKUP_FAILED'' ''failed to look up payment provider for this order'')))
       (\<lambda>found. case found of
          None \<Rightarrow> Ret (Inl (Forbidden ''REFUND_DISABLED'' ''refund is not available for this order''))
        | Some inst \<Rightarrow>
     if \<not> refund_enabled inst then Ret (Inl (Forbidden ''REFUND_DISABLED'' ''refund is not enabled for this provider''))
     else case amt of None \<Rightarrow> Ret (Inl (BadRequest ''INVALID_AMOUNT'' ''invalid refund amount'')) | Some asked \<Rightarrow>
     let wanted = (if asked \<le> 0 then order_amount o1 else asked);
         orderCurrency = PaymentOrderCurrency L o1 in
     if wanted - order_amount o1 > paymentAmountToleranceForCurrency L orderCurrency
     then Ret (Inl (BadRequest ''REFUND_AMOUNT_EXCEEDED'' ''refund amount exceeds recharge''))
     else
       let ga = calculateGatewayRefundAmount L (order_amount o1) (pay_amount o1) wanted orderCurrency;
           r1 = trim_space reason;
           r2 = (if r1 = '''' then psStringValue (refund_request_reason cols) else r1);
           r3 = (if r2 = '''' then ''refund order:'' @ itoa (order_id o1) else r2);
           p = \<lparr>OrderID = oid, plan_order = o1, plan_cols = cols, RefundAmount = wanted, GatewayAmount = ga, plan_reason = r3,
                plan_force = force, DeductBalance = deduct, DeductionType = DeductionTypeNone, BalanceToDeduct = 0,
                SubDaysToDeduct = 0, plan_subscription = 0\<rparr>
       in if deduct then and_then (prepDeduct o1 p force) (\<lambda>r. Ret (Inr r)) else Ret (Inr (Inr p))))"

subsection \<open>Deducting\<close>

text \<open>Deducts what there is, up to an amount, and never touches a deficit.\<close>

definition DeductAvailableBalance :: "int \<Rightarrow> usd \<Rightarrow> usd db_stmt" where
  "DeductAvailableBalance i amount s =
     (if amount < 0 then (Inl (plain_error ''deduction amount must be nonnegative''), s)
      else case users s i of
             None \<Rightarrow> (Inl ErrUserNotFound, s)
           | Some u \<Rightarrow>
               let d = min amount (max (balance u) 0)
               in (Inr d, s\<lparr>users := (users s)(i \<mapsto> u\<lparr>balance := balance u - d\<rparr>)\<rparr>))"

definition RevokeSubscription :: "int \<Rightarrow> (go_error + unit) refund" where
  "RevokeSubscription subscriptionID =
     checked (on_gate (sql (find_sub (\<lambda>r. SubID r = subscriptionID)))) (\<lambda>e. Ret (Inl e)) (\<lambda>sub.
     checked (on_gate (sql (DeleteSubscription subscriptionID))) (\<lambda>e. Ret (Inl e)) (\<lambda>_.
     stmt (\<lambda>c s. (case cache_invalidation c of None \<Rightarrow> Inr () | Some e \<Rightarrow> Inl e, s))))"

definition restoreStatus :: "RefundPlan \<Rightarrow> (go_error + unit) refund" where
  "restoreStatus p =
     (let rs = (if order_status (plan_order p) = OrderStatusRefundRequested then OrderStatusRefundRequested
                else OrderStatusCompleted)
      in rsql (update_one_refund (OrderID p) (\<lambda>r. r\<lparr>order_status := rs\<rparr>) id))"

definition deduct_balance :: "RefundPlan \<Rightarrow> (go_error + RefundPlan) refund" where
  "deduct_balance p =
     (if DeductionType p = DeductionTypeBalance \<and> BalanceToDeduct p > 0 then
        and_then (on_gate (hasAuditLog (OrderID p) ''REFUND_ROLLBACK_FAILED'')) (\<lambda>skip.
        if \<not> skip then
          checked (on_gate (sql (DeductAvailableBalance (order_user (plan_order p)) (BalanceToDeduct p))))
            (\<lambda>e. ignoring (restoreStatus p) (Ret (Inl (wrap ''deduction'' e))))
            (\<lambda>deducted. Ret (Inr (p\<lparr>BalanceToDeduct := deducted\<rparr>)))
        else Ret (Inr (p\<lparr>BalanceToDeduct := 0\<rparr>)))
      else Ret (Inr p))"

definition deduct_days :: "calendar \<Rightarrow> RefundPlan \<Rightarrow> (go_error + RefundPlan) refund" where
  "deduct_days C p =
     (if DeductionType p = DeductionTypeSubscription \<and> SubDaysToDeduct p > 0 \<and> plan_subscription p > 0 then
        and_then (on_gate (hasAuditLog (OrderID p) ''REFUND_ROLLBACK_FAILED'')) (\<lambda>skip.
        if \<not> skip then
          checked (on_gate (ExtendSubscription C (plan_subscription p) (- SubDaysToDeduct p)))
            (\<lambda>e. if e = ErrAdjustWouldExpire
                 then checked (RevokeSubscription (plan_subscription p))
                        (\<lambda>e. ignoring (restoreStatus p) (Ret (Inl (wrap ''revoke subscription'' e)))) (\<lambda>_. Ret (Inr p))
                 else ignoring (restoreStatus p) (Ret (Inl (wrap ''deduct subscription days'' e))))
            (\<lambda>_. Ret (Inr p))
        else Ret (Inr (p\<lparr>SubDaysToDeduct := 0\<rparr>)))
      else Ret (Inr p))"
subsection \<open>Asking the provider\<close>

definition ProviderStatusPending :: string where "ProviderStatusPending = ''pending''"
definition ProviderStatusSuccess :: string where "ProviderStatusSuccess = ''success''"
definition ProviderStatusFailed :: string where "ProviderStatusFailed = ''failed''"
definition ProviderStatusRefunded :: string where "ProviderStatusRefunded = ''refunded''"

lemmas provider_status_defs = ProviderStatusPending_def ProviderStatusSuccess_def ProviderStatusFailed_def
  ProviderStatusRefunded_def

definition validateRefundProviderResponse :: "RefundResponse option \<Rightarrow> go_error option" where
  "validateRefundProviderResponse resp =
     (case resp of
        None \<Rightarrow> Some (plain_error ''payment refund response missing'')
      | Some r \<Rightarrow>
          (let status = trim_space (refund_status r)
           in if status \<in> {ProviderStatusSuccess, ProviderStatusRefunded, ProviderStatusPending} then None
              else if status = ProviderStatusFailed then Some (plain_error (''payment refund failed: status '' @ status))
              else Some (plain_error (''payment refund returned unknown status: '' @ status))))"

definition ask_refund :: "RefundPlan \<Rightarrow> refund_answer refund" where
  "ask_refund p = stmt (\<lambda>c s. (provider_refund c,
     s\<lparr>provider_book := provider_book s @ [(order_id (plan_order p), GatewayAmount p, provider_refund c)]\<rparr>))"

definition gwRefund :: "pay_lib \<Rightarrow> RefundPlan \<Rightarrow> (go_error + RefundResponse) refund" where
  "gwRefund L p =
     (let o1 = plan_order p in
      if payment_trade_no o1 = ''''
      then ignoring (writeRefundAudit (order_id o1) ''REFUND_NO_TRADE_NO'')
             (Ret (Inr \<lparr>refund_id = '''', refund_status = ProviderStatusSuccess\<rparr>))
      else checked (getRefundProvider L o1 (plan_cols p)) (\<lambda>e. Ret (Inl (wrap ''get refund provider'' e))) (\<lambda>prov.
      case validateProviderSnapshotMetadata L o1 (refund_provider_key prov) (merchant_metadata prov) of
        Some e \<Rightarrow> ignoring (writeRefundAudit (order_id o1) ''REFUND_PROVIDER_METADATA_MISMATCH'') (Ret (Inl e))
      | None \<Rightarrow>
          and_then (ask_refund p) (\<lambda>(resp, err). case err of
            Some e \<Rightarrow>
              (case resp of
                 Some r \<Rightarrow> if trim_space (refund_status r) = ProviderStatusPending then Ret (Inr r) else Ret (Inl e)
               | None \<Rightarrow> Ret (Inl e))
          | None \<Rightarrow>
              (case validateRefundProviderResponse resp of
                 Some e \<Rightarrow> Ret (Inl e)
               | None \<Rightarrow> Ret (Inr (the resp))))))"

subsection \<open>After the answer\<close>

definition psErrMsg :: "pay_lib \<Rightarrow> go_error option \<Rightarrow> string" where
  "psErrMsg L err = (case err of None \<Rightarrow> '''' | Some e \<Rightarrow> error_text L e)"

definition RollbackRefund :: "calendar \<Rightarrow> RefundPlan \<Rightarrow> bool refund" where
  "RollbackRefund C p =
     (let failed = (\<lambda>_. ignoring (writeRefundAudit (OrderID p) ''REFUND_ROLLBACK_FAILED'') (Ret False));
          days = (if DeductionType p = DeductionTypeSubscription \<and> SubDaysToDeduct p > 0 \<and> plan_subscription p > 0
                  then checked (on_gate (ExtendSubscription C (plan_subscription p) (SubDaysToDeduct p))) failed (\<lambda>_. Ret True)
                  else Ret True)
      in if DeductionType p = DeductionTypeBalance \<and> BalanceToDeduct p > 0
         then checked (on_gate (sql (UpdateBalance (order_user (plan_order p)) (BalanceToDeduct p)))) failed (\<lambda>_. days)
         else days)"

definition mark_failed_refund :: "pay_lib \<Rightarrow> int \<Rightarrow> go_error \<Rightarrow> (go_error + unit) refund" where
  "mark_failed_refund L oid gErr =
     and_then refund_now (\<lambda>now.
     ignoring (rsql (update_one_refund oid
         (\<lambda>r. r\<lparr>order_status := OrderStatusRefundFailed, failed_at := Some (pg_time now),
               failed_reason := Some (psErrMsg L (Some gErr))\<rparr>) id))
     (writeRefundAudit oid ''REFUND_FAILED''))"

definition handleGwFail :: "pay_lib \<Rightarrow> RefundPlan \<Rightarrow> go_error \<Rightarrow> (go_error + RefundResult) refund" where
  "handleGwFail L p gErr =
     and_then (RollbackRefund (cal L) p) (\<lambda>ok.
     if ok then
       ignoring (restoreStatus p) (ignoring (writeRefundAudit (OrderID p) ''REFUND_GATEWAY_FAILED'')
         (Ret (Inr (failed_result (''gateway failed: '' @ psErrMsg L (Some gErr) @ '', rolled back'') False))))
     else
       ignoring (mark_failed_refund L (OrderID p) gErr)
         (Ret (Inl (InternalServer ''REFUND_FAILED'' (psErrMsg L (Some gErr))))))"

definition refunded_row :: "RefundPlan \<Rightarrow> payment_order \<Rightarrow> payment_order" where
  "refunded_row p r = r\<lparr>order_status :=
     (if RefundAmount p < order_amount (plan_order p) then OrderStatusPartiallyRefunded else OrderStatusRefunded)\<rparr>"

definition refunded_cols :: "RefundPlan \<Rightarrow> time \<Rightarrow> refund_columns \<Rightarrow> refund_columns" where
  "refunded_cols p now k = k\<lparr>refund_amount := RefundAmount p, refund_reason := Some (plan_reason p),
     refund_at := Some (pg_time now), force_refund := plan_force p\<rparr>"

definition success_result :: "RefundPlan \<Rightarrow> RefundResult" where
  "success_result p = \<lparr>result_success = True, result_warning = '''', RequireForce = False,
     BalanceDeducted = BalanceToDeduct p, SubDaysDeducted = SubDaysToDeduct p\<rparr>"

definition markRefundOk :: "RefundPlan \<Rightarrow> (go_error + RefundResult) refund" where
  "markRefundOk p =
     and_then refund_now (\<lambda>now.
     checked (rsql (update_one_refund (OrderID p) (refunded_row p) (refunded_cols p now)))
       (\<lambda>e. Ret (Inl (wrap ''mark refund'' e)))
       (\<lambda>_. ignoring (writeRefundAudit (OrderID p) ''REFUND_SUCCESS'') (Ret (Inr (success_result p)))))"

definition markRefundOkTx :: "RefundPlan \<Rightarrow> (go_error + RefundResult) refund" where
  "markRefundOkTx p =
     and_then refund_now (\<lambda>now.
     checked (rsql (update_one_refund (OrderID p) (refunded_row p) (refunded_cols p now)))
       (\<lambda>e. Ret (Inl (wrap ''mark refund'' e)))
       (\<lambda>_. checked (writeRefundAudit (OrderID p) ''REFUND_SUCCESS'') (\<lambda>e. Ret (Inl (wrap ''write refund audit'' e)))
              (\<lambda>_. Ret (Inr (success_result p)))))"

text \<open>The audit row of a pending refund, with what its detail says of the refund's id and of the rollback.\<close>

definition insert_pending_audit :: "int \<Rightarrow> string \<Rightarrow> bool \<Rightarrow> unit refund_stmt" where
  "insert_pending_audit oid refundID rollbackOK s =
     (case insert_audit oid ''REFUND_PENDING'' (gate s) of
        (Inl e, _) \<Rightarrow> (Inl e, s)
      | (Inr _, t) \<Rightarrow> (Inr (), s\<lparr>gate := t, pending_details := (pending_details s)(oid \<mapsto> (refundID, rollbackOK))\<rparr>))"

definition refundResponseID :: "RefundResponse option \<Rightarrow> string" where
  "refundResponseID resp = (case resp of None \<Rightarrow> '''' | Some r \<Rightarrow> trim_space (refund_id r))"

definition markRefundPending :: "calendar \<Rightarrow> RefundPlan \<Rightarrow> RefundResponse \<Rightarrow> (go_error + RefundResult) refund" where
  "markRefundPending C p resp =
     and_then (RollbackRefund C p) (\<lambda>rollbackOK.
     checked (rsql (update_one_refund (OrderID p)
         (\<lambda>r. r\<lparr>order_status := OrderStatusRefundPending, failed_at := None, failed_reason := None\<rparr>)
         (\<lambda>k. k\<lparr>refund_amount := RefundAmount p, refund_reason := Some (plan_reason p), refund_at := None,
               force_refund := plan_force p\<rparr>)))
       (\<lambda>e. Ret (Inl (wrap ''mark refund pending'' e))) (\<lambda>_.
     ignoring (rsql (insert_pending_audit (OrderID p) (refundResponseID (Some resp)) rollbackOK))
       (Ret (Inr (failed_result (''gateway refund is pending confirmation'' @
          (if rollbackOK then '''' else ''; refund deduction rollback failed'')) False)))))"

definition finishRefund :: "pay_lib \<Rightarrow> RefundPlan \<Rightarrow> RefundResponse \<Rightarrow> (go_error + RefundResult) refund" where
  "finishRefund L p resp =
     (case validateRefundProviderResponse (Some resp) of
        Some e \<Rightarrow> handleGwFail L p e
      | None \<Rightarrow>
          (let status = trim_space (refund_status resp)
           in if status = ProviderStatusSuccess \<or> status = ProviderStatusRefunded then markRefundOk p
              else if status = ProviderStatusPending then markRefundPending (cal L) p resp
              else handleGwFail L p (plain_error (''payment refund returned unknown status: '' @ status))))"

definition claim_refund :: "int \<Rightarrow> nat refund_stmt" where
  "claim_refund oid = update_refund oid (\<lambda>r. order_status r \<in> set refundable_statuses)
     (\<lambda>r. r\<lparr>order_status := OrderStatusRefunding\<rparr>) id"

definition ExecuteRefund :: "pay_lib \<Rightarrow> RefundPlan \<Rightarrow> (go_error + RefundResult) refund" where
  "ExecuteRefund L p =
     checked (rsql (claim_refund (OrderID p))) (\<lambda>e. Ret (Inl (wrap ''lock'' e))) (\<lambda>c.
     if c = 0 then Ret (Inl (Conflict ''CONFLICT'' ''order status changed''))
     else checked (deduct_balance p) (\<lambda>e. Ret (Inl e)) (\<lambda>p1.
          checked (deduct_days (cal L) p1) (\<lambda>e. Ret (Inl e)) (\<lambda>p2.
          checked (gwRefund L p2) (handleGwFail L p2) (finishRefund L p2))))"

text \<open>The administrator's request.\<close>

definition ProcessRefund ::
  "pay_lib \<Rightarrow> int \<Rightarrow> go_amount \<Rightarrow> string \<Rightarrow> bool \<Rightarrow> bool \<Rightarrow> (go_error + RefundResult) refund" where
  "ProcessRefund L oid amt reason force deduct =
     checked (PrepareRefund L oid amt reason force deduct) (\<lambda>e. Ret (Inl e)) (\<lambda>r. case r of
        Inl earlyResult \<Rightarrow> Ret (Inr earlyResult)
      | Inr plan \<Rightarrow> ExecuteRefund L plan)"

subsection \<open>Refunds the provider left pending\<close>

definition latestRefundPendingDetail :: "int \<Rightarrow> (string \<times> bool) refund" where
  "latestRefundPendingDetail oid =
     and_then (rsql (\<lambda>s. (Inr (pending_details s oid), s))) (\<lambda>r. Ret (case r of
        Inr (Some (refundID, ok)) \<Rightarrow> (trim_space refundID, ok)
      | _ \<Rightarrow> ('''', True)))"

definition refundFinalizePlan :: "pay_lib \<Rightarrow> payment_order \<Rightarrow> refund_columns \<Rightarrow> RefundPlan" where
  "refundFinalizePlan L o1 cols =
     (let refundAmount = refund_amount cols;
          r1 = trim_space (psStringValue (refund_reason cols));
          r2 = (if r1 = '''' then ''refund order:'' @ itoa (order_id o1) else r1)
      in \<lparr>OrderID = order_id o1, plan_order = o1, plan_cols = cols, RefundAmount = refundAmount,
          GatewayAmount = calculateGatewayRefundAmount L (order_amount o1) (pay_amount o1) refundAmount
            (PaymentOrderCurrency L o1),
          plan_reason = r2, plan_force = force_refund cols, DeductBalance = True, DeductionType = DeductionTypeBalance,
          BalanceToDeduct = (if order_type o1 = OrderTypeBalance then refundAmount else 0),
          SubDaysToDeduct = 0, plan_subscription = 0\<rparr>)"

definition applyRefundFinalDeduction :: "calendar \<Rightarrow> RefundPlan \<Rightarrow> (go_error + RefundPlan) refund" where
  "applyRefundFinalDeduction C p =
     checked
       (if DeductionType p = DeductionTypeBalance \<and> BalanceToDeduct p > 0
        then checked (on_gate (sql (DeductAvailableBalance (order_user (plan_order p)) (BalanceToDeduct p))))
               (\<lambda>e. Ret (Inl (wrap ''deduction'' e))) (\<lambda>deducted. Ret (Inr (p\<lparr>BalanceToDeduct := deducted\<rparr>)))
        else Ret (Inr p))
       (\<lambda>e. Ret (Inl e)) (\<lambda>p1.
     if DeductionType p1 = DeductionTypeSubscription \<and> SubDaysToDeduct p1 > 0 \<and> plan_subscription p1 > 0
     then checked (on_gate (ExtendSubscription C (plan_subscription p1) (- SubDaysToDeduct p1)))
            (\<lambda>e. if e = ErrAdjustWouldExpire
                 then checked (RevokeSubscription (plan_subscription p1))
                        (\<lambda>e. Ret (Inl (wrap ''revoke subscription'' e))) (\<lambda>_. Ret (Inr p1))
                 else Ret (Inl (wrap ''deduct subscription days'' e)))
            (\<lambda>_. Ret (Inr p1))
     else Ret (Inr p1))"

definition finalizePendingRefundSuccess :: "calendar \<Rightarrow> RefundPlan \<Rightarrow> (go_error + RefundResult) refund" where
  "finalizePendingRefundSuccess C p =
     in_tx (checked (rsql (update_refund (OrderID p) (\<lambda>r. order_status r = OrderStatusRefundPending)
              (\<lambda>r. r\<lparr>order_status := OrderStatusRefunding\<rparr>) id))
       (\<lambda>e. Ret (Inl (wrap ''claim pending refund'' e))) (\<lambda>claimed.
     if claimed = 0 then Ret (Inl (Conflict ''CONFLICT'' ''order status changed''))
     else checked (applyRefundFinalDeduction C p) (\<lambda>e. Ret (Inl e)) markRefundOkTx))"

definition finalizeRefundFailed :: "pay_lib \<Rightarrow> payment_order \<Rightarrow> go_error \<Rightarrow> (go_error + RefundResult) refund" where
  "finalizeRefundFailed L o1 gErr =
     ignoring (mark_failed_refund L (order_id o1) gErr)
       (Ret (Inr (failed_result (''gateway refund failed: '' @ psErrMsg L (Some gErr)) False)))"

definition QueryRefund :: "(go_error + RefundResponse option) refund" where
  "QueryRefund = stmt (\<lambda>c s. (provider_query c, s))"

definition QueryAndFinalizeRefund :: "pay_lib \<Rightarrow> int \<Rightarrow> (go_error + RefundResult) refund" where
  "QueryAndFinalizeRefund L oid =
     checked (refund_order_by_id oid) (\<lambda>_. Ret (Inl (NotFound ''NOT_FOUND'' ''order not found''))) (\<lambda>(o1, cols).
     if order_status o1 \<noteq> OrderStatusRefundPending
     then Ret (Inl (BadRequest ''INVALID_STATUS'' ''only refund pending orders can be finalized''))
     else checked (getRefundProvider L o1 cols) (\<lambda>e. Ret (Inl (wrap ''get refund provider'' e))) (\<lambda>prov.
     if \<not> can_query_refund prov
     then Ret (Inl (BadRequest ''REFUND_QUERY_UNSUPPORTED''
            ''this payment provider does not support refund status query; please verify manually''))
     else and_then (latestRefundPendingDetail oid) (\<lambda>(refundID, deductionRollbackOK).
     checked QueryRefund (\<lambda>e. Ret (Inl (wrap ''query refund'' e))) (\<lambda>resp.
     case validateRefundProviderResponse resp of
       Some e \<Rightarrow> finalizeRefundFailed L o1 e
     | None \<Rightarrow>
         let plan = refundFinalizePlan L o1 cols;
             status = trim_space (refund_status (the resp)) in
         and_then (if \<not> deductionRollbackOK then Ret (Inr (plan\<lparr>BalanceToDeduct := 0, SubDaysToDeduct := 0\<rparr>))
                   else if order_type o1 = OrderTypeSubscription then prepDeduct o1 plan True
                   else Ret (Inr plan)) (\<lambda>r. case r of
           Inl early \<Rightarrow> Ret (Inr early)
         | Inr p \<Rightarrow>
             if status = ProviderStatusSuccess \<or> status = ProviderStatusRefunded
             then finalizePendingRefundSuccess (cal L) p
             else if status = ProviderStatusPending
             then ignoring (writeRefundAudit oid ''REFUND_QUERY_PENDING'')
                    (Ret (Inr (failed_result ''gateway refund is still pending confirmation'' False)))
             else finalizeRefundFailed L o1 (plain_error (''payment refund returned unknown status: '' @ status)))))))"

end
