(* ===== verification/RefundCalm.thy ===== *)
theory RefundCalm
  imports OrderSteps Refund
begin

section \<open>What payments leave alone\<close>

text \<open>
  Once an order is being refunded or is refunded, its status is the business of the refund alone: no notification,
  fulfilment, cancellation, expiry, verification or creation of orders changes it. \<open>calm_db oid\<close> says this of two
  successive databases; every statement of every payment program keeps to it, because the statuses of refunds are on no
  edge of the machine of \<open>OrderSteps\<close>.
\<close>

definition refund_taken :: "string \<Rightarrow> bool" where
  "refund_taken st \<longleftrightarrow> st \<in> {OrderStatusRefunding, OrderStatusPartiallyRefunded, OrderStatusRefunded}"

definition taken :: "int \<Rightarrow> gateway_db \<Rightarrow> bool" where
  "taken oid s \<longleftrightarrow> (\<exists>st. order_status_of oid s = Some st \<and> refund_taken st)"

definition calm_db :: "int \<Rightarrow> gateway_db \<Rightarrow> gateway_db \<Rightarrow> bool" where
  "calm_db oid s t \<longleftrightarrow> rows_ok oid t \<and> (order_status_of oid t = order_status_of oid s \<or> \<not> taken oid s \<and> \<not> taken oid t)"

abbreviation calm_prog :: "int \<Rightarrow> 'a pay \<Rightarrow> bool" where
  "calm_prog oid p \<equiv> steady (rows_ok oid) (calm_db oid) p (\<lambda>_. True)"

lemma edge_not_taken: "order_edge st st' \<Longrightarrow> \<not> refund_taken st \<and> \<not> refund_taken st'"
  by (erule order_edge.cases) (auto simp: refund_taken_def order_status_defs)

lemma calm_order_step:
  assumes "order_step oid s t"
  shows "calm_db oid s t"
proof -
  obtain r r' where r: "List.find (\<lambda>r. order_id r = oid) (orders s) = Some r" "List.find (\<lambda>r. order_id r = oid) (orders t) = Some r'"
    "rows_ok oid t" "order_status r' = order_status r \<or> order_edge (order_status r) (order_status r')"
    using assms by (auto simp: order_step_def row_step_def)
  then show ?thesis
    using edge_not_taken [of "order_status r" "order_status r'"] by (auto simp: calm_db_def taken_def order_status_of_def)
qed

lemma steady_mono: "steady I R p Q \<Longrightarrow> (\<And>s t. R s t \<Longrightarrow> R' s t) \<Longrightarrow> steady I R' p Q"
  by (induction p) auto

lemma calm_follows: "follows oid p \<Longrightarrow> calm_prog oid p"
  by (rule steady_mono [OF _ calm_order_step])

subsection \<open>Statements\<close>

lemma calm_self: "rows_ok oid s \<Longrightarrow> calm_db oid s s"
  by (simp add: calm_db_def)

lemma calm_same: "rows_ok oid s \<Longrightarrow> orders t = orders s \<Longrightarrow> next_order_id t = next_order_id s \<Longrightarrow> calm_db oid s t"
  by (simp add: calm_db_def rows_ok_def order_status_of_def)

lemma calm_quiet: "rows_ok oid s \<Longrightarrow> quiet s t \<Longrightarrow> calm_db oid s t"
  by (simp add: quiet_def calm_same)

lemma calm_weather:
  assumes "rows_ok oid t" "\<And>a u. f t = (Inr a, u) \<Longrightarrow> calm_db oid t u"
  shows "calm_db oid t (snd (under_weather w f t))"
  using assms calm_self by (cases "f t"; cases "fst (f t)") (auto simp: under_weather_def split: weather.splits)

lemma calm_sql: "(\<And>t a u. rows_ok oid t \<Longrightarrow> f t = (Inr a, u) \<Longrightarrow> calm_db oid t u) \<Longrightarrow> calm_prog oid (sql f)"
  unfolding sql_def by (rule steady_stmt) (auto intro: calm_weather)

lemma calm_quiet_sql: "quiet_stmt f \<Longrightarrow> calm_prog oid (sql f)"
  by (rule calm_sql) (metis calm_quiet quiet_at snd_conv)

lemma calm_map:
  assumes "rows_ok oid s" "\<And>r. order_id (f r) = order_id r"
    "\<And>r. order_id r = oid \<Longrightarrow> order_status (f r) = order_status r \<or>
       \<not> refund_taken (order_status r) \<and> \<not> refund_taken (order_status (f r))"
  shows "calm_db oid s (s\<lparr>orders := map f (orders s)\<rparr>)"
proof -
  obtain r where r: "List.find (\<lambda>r. order_id r = oid) (orders s) = Some r"
    using assms(1) by (auto simp: rows_ok_def order_status_of_def)
  have before: "order_status_of oid s = Some (order_status r)"
    by (simp add: order_status_of_def r)
  have after: "order_status_of oid (s\<lparr>orders := map f (orders s)\<rparr>) = Some (order_status (f r))"
    by (simp add: order_status_of_def find_map [OF assms(2)] r)
  have "map order_id (map f (orders s)) = map order_id (orders s)" using assms(2) by simp
  then have "rows_ok oid (s\<lparr>orders := map f (orders s)\<rparr>)"
    using assms(1,2) by (auto simp: rows_ok_def after simp del: map_map)
  moreover have "order_status (f r) = order_status r \<or> \<not> refund_taken (order_status r) \<and> \<not> refund_taken (order_status (f r))"
    using assms(3) find_row [OF r] by blast
  ultimately show ?thesis by (auto simp: calm_db_def taken_def before after)
qed

lemmas calm_audit = calm_follows [OF follows_audit]
lemmas calm_logged = calm_follows [OF follows_logged]
lemmas calm_time = calm_follows [OF follows_time]
lemmas calm_find_user = calm_follows [OF follows_find_user]
lemmas calm_user = calm_follows [OF follows_user]
lemmas calm_steps = steady_rules calm_audit calm_logged calm_time calm_find_user

lemma calm_requests: "payment_request L p \<Longrightarrow> calm_prog oid p"
  by (rule calm_follows [OF follows_requests])

lemma calm_env: "payment_env s t \<Longrightarrow> rows_ok oid s \<Longrightarrow> calm_db oid s t"
  by (rule calm_order_step [OF follows_env])

end
