(* ===== verification/RefundRun.thy ===== *)
theory RefundRun
  imports RefundCalm
begin

section \<open>Refunds in parallel\<close>

text \<open>
  The claim on an order is its status \<^verbatim>\<open>REFUNDING\<close>, which \<open>ExecuteRefund\<close> sets by a conditional update: whoever wins
  it owns the order until he writes the outcome. The theory proves with \<open>Ownership\<close> that the provider is not told
  twice to pay an order back and says yes both times (\<open>refunded_once\<close>). What one refund does is \<open>RefundSettles\<close>.
\<close>

subsection \<open>The claim on an order\<close>

definition answered_success :: "refund_answer \<Rightarrow> bool" where
  "answered_success a \<longleftrightarrow> snd a = None \<and>
     (case fst a of None \<Rightarrow> False
      | Some r \<Rightarrow> trim_space (refund_status r) = ProviderStatusSuccess \<or> trim_space (refund_status r) = ProviderStatusRefunded)"

definition successes :: "int \<Rightarrow> refund_db \<Rightarrow> nat" where
  "successes oid s = length (filter (\<lambda>(i, _, a). i = oid \<and> answered_success a) (provider_book s))"

definition refund_inv :: "int \<Rightarrow> refund_db \<Rightarrow> bool" where
  "refund_inv oid s \<longleftrightarrow> rows_ok oid (gate s) \<and> successes oid s \<le> 1 \<and> (0 < successes oid s \<longrightarrow> taken oid (gate s))"

definition refund_claim :: "int \<Rightarrow> refund_db \<Rightarrow> nat option" where
  "refund_claim oid s =
     (if order_status_of oid (gate s) = Some OrderStatusRefunding then Some (successes oid s) else None)"

interpretation refunds: ownership "refund_inv oid" "refund_claim oid" for oid .

definition leaves :: "int \<Rightarrow> refund_db \<Rightarrow> refund_db \<Rightarrow> bool" where
  "leaves oid s t \<longleftrightarrow> refund_inv oid t \<and> refund_claim oid t = refund_claim oid s"

abbreviation idle :: "int \<Rightarrow> 'a refund \<Rightarrow> bool" where
  "idle oid p \<equiv> steady (refund_inv oid) (leaves oid) p (\<lambda>_. True)"

lemma leaves_refl: "refund_inv oid s \<Longrightarrow> leaves oid s s"
  by (simp add: leaves_def)

lemma leaves_trans: "leaves oid s t \<Longrightarrow> leaves oid t u \<Longrightarrow> leaves oid s u"
  by (simp add: leaves_def)

lemma leaves_inv: "leaves oid s t \<Longrightarrow> refund_inv oid t"
  by (simp add: leaves_def)

lemma keeps_idle: "steady (refund_inv oid) (leaves oid) p Q \<Longrightarrow> refunds.keeps oid p (\<lambda>a x. Q a \<and> x = own) own"
  by (erule refunds.keeps_steady) (auto simp: leaves_def)

lemma keeps_idle_True: "idle oid p \<Longrightarrow> refunds.keeps oid p (\<lambda>_ _. True) own"
  by (rule refunds.keeps_weaken [OF keeps_idle]) simp_all

lemma keeps_idle_then:
  "idle oid p \<Longrightarrow> (\<And>a. refunds.keeps oid (k a) R own) \<Longrightarrow> refunds.keeps oid (and_then p k) R own"
  by (rule refunds.keeps_and_then [OF keeps_idle]) auto

lemma keeps_idle_checked:
  "idle oid p \<Longrightarrow> (\<And>e. refunds.keeps oid (failed e) R own) \<Longrightarrow> (\<And>a. refunds.keeps oid (k a) R own) \<Longrightarrow>
   refunds.keeps oid (checked p failed k) R own"
  by (rule refunds.keeps_checked [OF keeps_idle]) auto

lemma keeps_idle_ignoring: "idle oid p \<Longrightarrow> refunds.keeps oid q R own \<Longrightarrow> refunds.keeps oid (ignoring p q) R own"
  by (rule refunds.keeps_ignoring [OF keeps_idle]) auto

subsection \<open>Statements that leave the claim alone\<close>

lemma leaves_calm:
  assumes "refund_inv oid s" "calm_db oid (gate s) g"
  shows "leaves oid s (s\<lparr>gate := g\<rparr>)"
proof -
  have refunding: "order_status_of oid h = Some OrderStatusRefunding \<Longrightarrow> taken oid h" for h
    by (simp add: taken_def refund_taken_def)
  have count: "successes oid (s\<lparr>gate := g\<rparr>) = successes oid s" by (simp add: successes_def)
  have rows: "rows_ok oid g" using assms(2) by (simp add: calm_db_def)
  consider "order_status_of oid g = order_status_of oid (gate s)" | "\<not> taken oid (gate s)" "\<not> taken oid g"
    using assms(2) by (auto simp: calm_db_def)
  then show ?thesis
  proof cases
    case 1
    then have "taken oid g = taken oid (gate s)" by (simp add: taken_def)
    then show ?thesis using assms(1) 1 count rows by (simp add: leaves_def refund_inv_def refund_claim_def)
  next
    case 2
    then have "order_status_of oid g \<noteq> Some OrderStatusRefunding" "order_status_of oid (gate s) \<noteq> Some OrderStatusRefunding"
      using refunding by blast+
    then show ?thesis using assms(1) 2 count rows by (simp add: leaves_def refund_inv_def refund_claim_def)
  qed
qed

lemma idle_gate: "calm_prog oid p \<Longrightarrow> idle oid (on_gate p)"
proof (induction p)
  case (Atom u n)
  have "leaves oid s (s\<lparr>gate := u (gate_chance c) (gate s)\<rparr>) \<and> idle oid (on_gate (n (gate_chance c) (gate s)))"
    if s: "refund_inv oid s" for s c
  proof -
    have "rows_ok oid (gate s)" using s by (simp add: refund_inv_def)
    then have "calm_db oid (gate s) (u (gate_chance c) (gate s))" "calm_prog oid (n (gate_chance c) (gate s))"
      using Atom.prems by simp_all
    then show ?thesis using leaves_calm [OF s] Atom.IH by blast
  qed
  then show ?case by (auto simp only: on_gate.simps steady.simps)
qed simp

lemma leaves_weather:
  assumes "refund_inv oid t" "\<And>a u. f t = (Inr a, u) \<Longrightarrow> leaves oid t u"
  shows "leaves oid t (snd (under_weather w f t))"
  using assms leaves_refl by (cases "f t"; cases "fst (f t)") (auto simp: under_weather_def split: weather.splits)

lemma idle_sql: "(\<And>t a u. refund_inv oid t \<Longrightarrow> f t = (Inr a, u) \<Longrightarrow> leaves oid t u) \<Longrightarrow> idle oid (rsql f)"
  unfolding rsql_def by (rule steady_stmt) (auto intro: leaves_weather)

lemma idle_read: "idle oid (rsql (\<lambda>s. (r s, s)))"
  by (rule idle_sql) (auto intro: leaves_refl)

lemma idle_stmt: "idle oid (stmt (\<lambda>c s. (r c s, s)))"
  by (rule steady_stmt) (simp add: leaves_refl)

lemma leaves_cong: "gate u = gate t \<Longrightarrow> provider_book u = provider_book t \<Longrightarrow> leaves oid s u \<longleftrightarrow> leaves oid s t"
  unfolding leaves_def refund_inv_def refund_claim_def successes_def by simp

lemma leaves_columns: "leaves oid s t \<Longrightarrow> leaves oid s (t\<lparr>refund_cols := k\<rparr>)" "leaves oid s t \<Longrightarrow> leaves oid s (t\<lparr>pending_details := d\<rparr>)"
  using leaves_cong [of "t\<lparr>refund_cols := k\<rparr>" t] leaves_cong [of "t\<lparr>pending_details := d\<rparr>" t] by simp_all

lemma idle_update:
  assumes "\<And>r. order_id (f r) = order_id r"
    "\<And>r. order_id r = oid \<Longrightarrow> i = oid \<Longrightarrow> cond r \<Longrightarrow> \<not> refund_taken (order_status r) \<and> \<not> refund_taken (order_status (f r))"
    "\<And>s r. order_status (f (touched s r)) = order_status (f r) "
  shows "idle oid (rsql (update_refund i cond f g))"
proof (rule idle_sql)
  fix t a u assume t: "refund_inv oid t" and "update_refund i cond f g t = (Inr a, u)"
  then obtain k where u: "u = (t\<lparr>gate := (gate t)\<lparr>orders := map (\<lambda>r. if order_id r = i \<and> cond r then f (touched (gate t) r) else r)
      (orders (gate t))\<rparr>\<rparr>)\<lparr>refund_cols := k\<rparr>"
    by (auto simp: update_refund_def update_order_def Let_def)
  show "leaves oid t u"
    unfolding u
  proof (intro leaves_columns leaves_calm calm_map)
    show "rows_ok oid (gate t)" using t by (simp add: refund_inv_def)
  qed (use t assms in \<open>auto simp: touched_def\<close>)
qed

lemma idle_update_one:
  assumes "i \<noteq> oid" "\<And>r. order_id (f r) = order_id r"
  shows "idle oid (rsql (update_one_refund i f g))"
proof (rule idle_sql)
  fix t a u assume t: "refund_inv oid t" and "update_one_refund i f g t = (Inr a, u)"
  then obtain k where u: "u = (t\<lparr>gate := (gate t)\<lparr>orders := map (\<lambda>r. if order_id r = i then f (touched (gate t) r) else r)
      (orders (gate t))\<rparr>\<rparr>)\<lparr>refund_cols := k\<rparr>"
    by (auto simp: update_one_refund_def update_one_order_def Let_def split: if_splits)
  show "leaves oid t u"
    unfolding u
  proof (intro leaves_columns leaves_calm calm_map)
    show "rows_ok oid (gate t)" using t by (simp add: refund_inv_def)
  qed (use t assms in \<open>auto simp: touched_def\<close>)
qed

lemma idle_tx: "idle oid p \<Longrightarrow> idle oid (in_tx p)"
  unfolding in_tx_def
proof (rule steady_stmt, intro conjI TrueI leaves_weather)
  fix t c a u
  assume p: "idle oid p" and t: "refund_inv oid t"
    and run: "run_prog p (c\<lparr>gate_chance := (gate_chance c)\<lparr>weather := Fair\<rparr>\<rparr>) t = (Inr a, u)"
  have "leaves oid t (snd (run_prog p (c\<lparr>gate_chance := (gate_chance c)\<lparr>weather := Fair\<rparr>\<rparr>) t)) \<and> True"
    by (rule steady_run [OF p t leaves_refl leaves_trans leaves_inv])
  then show "leaves oid t u" using run by simp
qed

lemma idle_audit: "idle oid (writeRefundAudit i action)"
  unfolding writeRefundAudit_def by (intro idle_gate calm_audit)

lemma idle_now: "idle oid refund_now"
  unfolding refund_now_def by (intro idle_gate calm_time)

lemma idle_logged: "idle oid (on_gate (hasAuditLog i action))"
  by (intro idle_gate calm_logged)

lemma idle_pending_audit: "idle oid (rsql (insert_pending_audit i rid ok))"
proof (rule idle_sql)
  fix t a u assume t: "refund_inv oid t" and "insert_pending_audit i rid ok t = (Inr a, u)"
  then obtain g d where u: "u = (t\<lparr>gate := g\<rparr>)\<lparr>pending_details := d\<rparr>" and g: "insert_audit i ''REFUND_PENDING'' (gate t) = (Inr (), g)"
    by (auto simp: insert_pending_audit_def split: prod.splits sum.splits)
  have "calm_db oid (gate t) g"
    using t g by (auto simp: refund_inv_def insert_audit_def intro!: calm_same split: if_splits)
  then show "leaves oid t u" unfolding u by (intro leaves_columns leaves_calm t)
qed

lemma idle_user: "idle oid (on_gate (sql (find_user w)))"
  by (intro idle_gate calm_find_user)

lemma idle_balance: "idle oid (on_gate (sql (UpdateBalance w a)))" "idle oid (on_gate (sql (DeductAvailableBalance w a)))"
  unfolding UpdateBalance_def
  by (intro idle_gate calm_user calm_sql;
      auto simp: DeductAvailableBalance_def Let_def intro!: calm_same split: if_splits option.splits)+

lemma idle_extend: "idle oid (on_gate (ExtendSubscription C i d))"
  unfolding ExtendSubscription_def ExtendExpiry_def UpdateStatus_def Let_def
  by (intro idle_gate calm_steps calm_quiet_sql quiet_find_sub quiet_update_sub)

lemma idle_delete: "idle oid (on_gate (sql (DeleteSubscription i)))"
  by (intro idle_gate calm_sql) (auto simp: DeleteSubscription_def intro!: calm_same)

lemma idle_find_sub: "idle oid (on_gate (sql (find_sub p)))"
  by (intro idle_gate calm_quiet_sql quiet_find_sub)

lemmas idle_steps = steady_rules idle_audit idle_now idle_logged idle_pending_audit idle_user idle_balance idle_extend
  idle_delete idle_find_sub idle_read idle_stmt
subsection \<open>Reading and preparing\<close>

lemma idle_order: "idle oid (refund_order_by_id i)"
  unfolding refund_order_by_id_def
  by (rule idle_sql) (auto simp: find_order_def intro: leaves_refl split: option.splits)

lemma order_found:
  "steady (refund_inv oid) (leaves oid) (refund_order_by_id i) (\<lambda>r. \<forall>a. r = Inr a \<longrightarrow> order_id (fst a) = i)"
proof -
  let ?f = "\<lambda>s. case find_order (\<lambda>r. order_id r = i) (gate s) of (Inl e, _) \<Rightarrow> (Inl e, s) | (Inr r, _) \<Rightarrow> (Inr (r, refund_cols s i), s)"
  have f: "?f t = (case List.find (\<lambda>r. order_id r = i) (orders (gate t)) of None \<Rightarrow> (Inl ent_not_found, t)
      | Some r \<Rightarrow> (Inr (r, refund_cols t i), t))" for t
    by (simp add: find_order_def split: option.split)
  have same: "snd (under_weather w ?f t) = t" for w t
    unfolding under_weather_def f by (simp split: weather.split option.split)
  have found: "order_id (fst a) = i" if "fst (under_weather w ?f t) = Inr a" for w t a
    using that find_row [of i "gate t"] unfolding under_weather_def f by (auto split: weather.splits option.splits)
  show ?thesis
    unfolding refund_order_by_id_def rsql_def
  proof (rule steady_stmt)
    fix t c assume "refund_inv oid t"
    then show "leaves oid t (snd (under_weather (weather (gate_chance c)) ?f t)) \<and>
        (\<forall>a. fst (under_weather (weather (gate_chance c)) ?f t) = Inr a \<longrightarrow> order_id (fst a) = i)"
      unfolding same using found leaves_refl by blast
  qed
qed

lemma idle_instance: "idle oid (getRefundOrderProviderInstance L o1 cols)"
proof -
  have "idle oid (rsql (find_instance i))" for i
    by (rule idle_sql) (auto simp: find_instance_def intro: leaves_refl split: option.splits)
  then show ?thesis
    unfolding getRefundOrderProviderInstance_def resolveSnapshotOrderProviderInstance_def Let_def
    by (intro idle_steps)
qed

lemma idle_provider: "idle oid (getRefundProvider L o1 cols)"
  unfolding getRefundProvider_def createProviderFromInstance_def by (intro idle_steps idle_instance)

lemma idle_active: "idle oid (GetActiveSubscription w g)"
proof -
  have "idle oid (on_gate (sql (GetActiveByUserIDAndGroupID w g)))"
    by (rule idle_gate, rule calm_quiet_sql)
      (auto simp: quiet_stmt_def quiet_def GetActiveByUserIDAndGroupID_def find_sub_def split: option.splits)
  then show ?thesis unfolding GetActiveSubscription_def by (intro idle_steps)
qed

text \<open>What \<open>prepDeduct\<close> does not change of a plan.\<close>

definition same_target :: "RefundPlan \<Rightarrow> RefundPlan \<Rightarrow> bool" where
  "same_target p q \<longleftrightarrow> OrderID q = OrderID p \<and> plan_order q = plan_order p \<and> plan_cols q = plan_cols p \<and>
     RefundAmount q = RefundAmount p \<and> GatewayAmount q = GatewayAmount p"

definition target_kept :: "RefundPlan \<Rightarrow> 'e + RefundPlan \<Rightarrow> bool" where
  "target_kept p r \<longleftrightarrow> (\<forall>q. r = Inr q \<longrightarrow> same_target p q)"

lemma same_target_simps [simp]: "same_target p p" "same_target p (p\<lparr>DeductionType := d\<rparr>)"
  "same_target p (p\<lparr>BalanceToDeduct := b\<rparr>)" "same_target p (p\<lparr>SubDaysToDeduct := n\<rparr>)"
  "same_target p (p\<lparr>plan_subscription := i\<rparr>)" "same_target p (p\<lparr>DeductionType := d, BalanceToDeduct := b\<rparr>)"
  "same_target p (p\<lparr>DeductionType := d, SubDaysToDeduct := n\<rparr>)"
  "same_target p (p\<lparr>DeductionType := d, SubDaysToDeduct := n, plan_subscription := i\<rparr>)"
  "same_target p (p\<lparr>BalanceToDeduct := b, SubDaysToDeduct := n\<rparr>)"
  by (simp_all add: same_target_def)

lemma target_kept_simps [simp]: "target_kept p (Inl e)" "target_kept p (Inr q) \<longleftrightarrow> same_target p q"
  by (simp_all add: target_kept_def)

lemma same_target_trans: "same_target p q \<Longrightarrow> same_target q r \<Longrightarrow> same_target p r"
  by (simp add: same_target_def)

lemma steady_kept: "target_kept p r \<Longrightarrow> steady I R (Ret r) (target_kept p)"
  by simp

lemma prepared: "steady (refund_inv oid) (leaves oid) (prepDeduct o1 p force) (target_kept p)"
  unfolding prepDeduct_def Let_def
  by (cases "subscription_group_id o1"; cases "subscription_days o1"; simp only: option.case prod.case;
      intro steady_if steady_then steady_sum steady_kept idle_active idle_user; simp)

definition plan_for :: "int \<Rightarrow> RefundPlan \<Rightarrow> bool" where
  "plan_for i p \<longleftrightarrow> OrderID p = i \<and> order_id (plan_order p) = i"

lemma same_target_for: "same_target p q \<Longrightarrow> plan_for i p \<longleftrightarrow> plan_for i q"
  by (auto simp: same_target_def plan_for_def)

lemma plan_prepared:
  "steady (refund_inv oid) (leaves oid) (PrepareRefund L i amt reason force deduct) (\<lambda>r. \<forall>p. r = Inr (Inr p) \<longrightarrow> plan_for i p)"
proof -
  let ?P = "\<lambda>r :: go_error + RefundResult + RefundPlan. \<forall>p. r = Inr (Inr p) \<longrightarrow> plan_for i p"
  have Ret: "steady I R (Ret r) ?P" if "\<And>p. r = Inr (Inr p) \<Longrightarrow> plan_for i p" for I R r
    using that by simp
  have prep: "steady (refund_inv oid) (leaves oid) (and_then (prepDeduct o1 p f) (\<lambda>r. Ret (Inr r))) ?P"
    if "plan_for i p" for o1 p f
    by (rule steady_and_then [OF prepared]) (use that in \<open>auto simp: same_target_for\<close>)
  show ?thesis
    unfolding PrepareRefund_def Let_def
    by (intro steady_checked_with [OF order_found] steady_prod steady_if steady_option steady_checked prep Ret idle_instance)
      (auto simp: plan_for_def)
qed
subsection \<open>Programs of the owner\<close>

lemma taken_row: "order_status_of oid s = Some st \<Longrightarrow> taken oid s = refund_taken st"
  by (simp add: taken_def)

text \<open>The owner writes the outcome into the order, and owns nothing any more, whether or not the write took effect.\<close>

lemma status_after:
  assumes "rows_ok oid g" "\<And>r. order_id (f r) = order_id r" "\<And>r. order_status (f r) = st"
  shows "rows_ok oid (g\<lparr>orders := map (\<lambda>r. if order_id r = oid then f (touched g r) else r) (orders g)\<rparr>) \<and>
     order_status_of oid (g\<lparr>orders := map (\<lambda>r. if order_id r = oid then f (touched g r) else r) (orders g)\<rparr>) = Some st"
proof -
  let ?h = "\<lambda>r. if order_id r = oid then f (touched g r) else r"
  have ids: "order_id (?h r) = order_id r" for r using assms(2) by (simp add: touched_def)
  obtain r where r: "List.find (\<lambda>r. order_id r = oid) (orders g) = Some r"
    using assms(1) by (auto simp: rows_ok_def order_status_of_def)
  have st: "order_status_of oid (g\<lparr>orders := map ?h (orders g)\<rparr>) = Some st"
    using find_row [OF r] assms(3) by (simp add: order_status_of_def find_map [OF ids] r)
  have "map order_id (map ?h (orders g)) = map order_id (orders g)" using ids by simp
  then have "rows_ok oid (g\<lparr>orders := map ?h (orders g)\<rparr>)"
    using assms(1) by (auto simp: rows_ok_def st assms(2) touched_def simp del: map_map)
  then show ?thesis using st by simp
qed

lemma owner_writes:
  assumes "\<And>r. order_id (f r) = order_id r" "\<And>r. order_status (f r) = st" "n = 0 \<or> refund_taken st"
  shows "refunds.keeps oid (rsql (update_one_refund oid f g)) (\<lambda>_ x. x = None) (Some n)"
  unfolding rsql_def
proof (rule refunds.keeps_stmt)
  fix s c a u
  assume s: "refunds.owned oid (Some n) s" and run: "under_weather (weather (gate_chance c)) (update_one_refund oid f g) s = (a, u)"
  then have inv: "refund_inv oid s" and own: "refund_claim oid s = Some n" by (simp_all add: refunds.owned_def)
  have "refund_inv oid u"
  proof (cases "u = s")
    case False
    then have "u = snd (update_one_refund oid f g s)"
      using run by (auto simp: under_weather_def split: weather.splits prod.splits sum.splits)
    then obtain k where u: "u = (s\<lparr>gate := (gate s)\<lparr>orders := map (\<lambda>r. if order_id r = oid then f (touched (gate s) r) else r)
        (orders (gate s))\<rparr>\<rparr>)\<lparr>refund_cols := k\<rparr>"
      using False by (auto simp: update_one_refund_def update_one_order_def split: if_splits)
    have count: "successes oid u = successes oid s" "successes oid s = n"
      using own by (auto simp: u successes_def refund_claim_def split: if_splits)
    have rows: "rows_ok oid (gate s)" using inv by (simp add: refund_inv_def)
    note after = status_after [OF rows assms(1,2)]
    have "rows_ok oid (gate u)" "taken oid (gate u) = refund_taken st"
      using after taken_row by (simp_all add: u)
    then show ?thesis using inv assms(3) count by (auto simp: refund_inv_def)
  qed (use inv in simp)
  then show "\<exists>own'. refunds.passes oid (Some n) s own' u \<and> own' = None"
    by (simp add: refunds.passes_def)
qed

lemma untaken [simp]: "\<not> refund_taken OrderStatusCompleted" "\<not> refund_taken OrderStatusRefundRequested"
  "\<not> refund_taken OrderStatusRefundPending" "\<not> refund_taken OrderStatusRefundFailed"
  "refund_taken OrderStatusRefunded" "refund_taken OrderStatusPartiallyRefunded" "refund_taken OrderStatusRefunding"
  by (simp_all add: refund_taken_def order_status_defs)

text \<open>Whoever owns the order with no success so far, or another order's refund.\<close>

definition may_act :: "int \<Rightarrow> RefundPlan \<Rightarrow> nat option \<Rightarrow> bool" where
  "may_act oid p own \<longleftrightarrow> (if OrderID p = oid then order_id (plan_order p) = oid \<and> own = Some 0
     else order_id (plan_order p) \<noteq> oid \<and> own = None)"

lemma may_act_same: "same_target p q \<Longrightarrow> may_act oid p own \<Longrightarrow> may_act oid q own"
  by (simp add: may_act_def same_target_def)

lemma keeps_end: "refunds.keeps oid p (\<lambda>_ _. True) own \<Longrightarrow> refunds.keeps oid (and_then p (\<lambda>a. Ret (k a))) (\<lambda>_ _. True) own"
  by (rule refunds.keeps_and_then) auto

lemma owner_restores:
  assumes "may_act oid p own"
  shows "refunds.keeps oid (restoreStatus p) (\<lambda>_ x. x = None) own"
proof (cases "OrderID p = oid")
  case True
  then have "own = Some 0" using assms by (simp add: may_act_def)
  then show ?thesis
    unfolding restoreStatus_def Let_def True by (auto intro!: owner_writes)
next
  case False
  then have own: "own = None" using assms by (simp add: may_act_def)
  have "idle oid (restoreStatus p)"
    unfolding restoreStatus_def Let_def by (rule idle_update_one [OF False]) simp
  then show ?thesis unfolding own by (rule refunds.keeps_weaken [OF keeps_idle]) simp
qed

lemma owner_fails:
  assumes "may_act oid p own"
  shows "refunds.keeps oid (mark_failed_refund L (OrderID p) e) (\<lambda>_ x. x = None) own"
proof (cases "OrderID p = oid")
  case True
  then have own: "own = Some 0" using assms by (simp add: may_act_def)
  have audit: "refunds.keeps oid (writeRefundAudit oid a) (\<lambda>_ x. x = None) None" for a
    by (rule refunds.keeps_weaken [OF keeps_idle [OF idle_audit]]) simp
  show ?thesis
    unfolding mark_failed_refund_def True own
    by (intro keeps_idle_then idle_now refunds.keeps_ignoring [OF owner_writes [where st = OrderStatusRefundFailed]])
      (use audit in auto)
next
  case False
  then have own: "own = None" using assms by (simp add: may_act_def)
  have "idle oid (mark_failed_refund L (OrderID p) e)"
    unfolding mark_failed_refund_def by (intro idle_steps idle_update_one [OF False]) simp
  then show ?thesis unfolding own by (rule refunds.keeps_weaken [OF keeps_idle]) simp
qed
text \<open>The conditional update that takes the order.\<close>

definition claimed_by :: "int \<Rightarrow> int \<Rightarrow> 'e + nat \<Rightarrow> nat option \<Rightarrow> bool" where
  "claimed_by oid i r own \<longleftrightarrow> own = (if i = oid \<and> (\<exists>c>0. r = Inr c) then Some 0 else None)"

lemma refundable_not_taken: "st \<in> set refundable_statuses \<Longrightarrow> \<not> refund_taken st"
  by (auto simp: refundable_statuses_def)

lemma claim_effect:
  assumes inv: "refund_inv oid s"
  obtains "fst (claim_refund oid s) = Inr 0" "leaves oid s (snd (claim_refund oid s))"
  | c where "fst (claim_refund oid s) = Inr c" "0 < c" "refund_claim oid s = None"
      "refund_inv oid (snd (claim_refund oid s))" "refund_claim oid (snd (claim_refund oid s)) = Some 0"
proof -
  let ?g = "gate s" let ?hit = "\<lambda>r. order_id r = oid \<and> order_status r \<in> set refundable_statuses"
  let ?h = "\<lambda>r. if ?hit r then (touched ?g r)\<lparr>order_status := OrderStatusRefunding\<rparr> else r"
  let ?c = "length (filter ?hit (orders ?g))"
  have rows: "rows_ok oid ?g" using inv by (simp add: refund_inv_def)
  obtain k where run: "claim_refund oid s = (Inr ?c, (s\<lparr>gate := ?g\<lparr>orders := map ?h (orders ?g)\<rparr>\<rparr>)\<lparr>refund_cols := k\<rparr>)"
    by (simp add: claim_refund_def update_refund_def update_order_def Let_def)
  have ids: "order_id (?h r) = order_id r" for r by (simp add: touched_def)
  obtain r where r: "List.find (\<lambda>r. order_id r = oid) (orders ?g) = Some r"
    using rows by (auto simp: rows_ok_def order_status_of_def)
  have row: "order_id r = oid" "r \<in> set (orders ?g)" using find_row [OF r] by simp_all
  have st: "order_status_of oid ?g = Some (order_status r)" by (simp add: order_status_of_def r)
  have st': "order_status_of oid (?g\<lparr>orders := map ?h (orders ?g)\<rparr>) = Some (order_status (?h r))"
    by (simp add: order_status_of_def find_map [OF ids] r)
  show thesis
  proof (cases "order_status r \<in> set refundable_statuses")
    case False
    have none: "\<not> ?hit x" if "x \<in> set (orders ?g)" for x
    proof
      assume "?hit x"
      then have "x = r" using rows row that distinct_map_same [of order_id "orders ?g" x r] by (auto simp: rows_ok_def)
      then show False using False \<open>?hit x\<close> by simp
    qed
    then have "map ?h (orders ?g) = orders ?g" by (intro map_idI if_not_P none)
    then have "leaves oid s (snd (claim_refund oid s))"
      using leaves_columns(1) [OF leaves_refl [OF inv], of k] by (simp add: run)
    moreover have "?c = 0" using none by (simp add: filter_empty_conv)
    ultimately show ?thesis using that(1) run by simp
  next
    case True
    then have hit: "?hit r" using row by simp
    then have "0 < ?c" using row(2) by (auto simp: filter_empty_conv)
    have untaken: "\<not> taken oid ?g" using refundable_not_taken [OF True] by (simp add: taken_row [OF st])
    then have zero: "successes oid s = 0" using inv by (auto simp: refund_inv_def)
    have "order_status r \<noteq> OrderStatusRefunding" using refundable_not_taken [OF True] by auto
    then have free: "refund_claim oid s = None" by (simp add: refund_claim_def st)
    have "map order_id (map ?h (orders ?g)) = map order_id (orders ?g)" using ids by simp
    then have rows': "rows_ok oid (?g\<lparr>orders := map ?h (orders ?g)\<rparr>)"
      using rows ids by (auto simp: rows_ok_def st' touched_def simp del: map_map)
    have now: "order_status_of oid (gate (snd (claim_refund oid s))) = Some OrderStatusRefunding"
      using st' hit by (simp add: run)
    have count: "successes oid (snd (claim_refund oid s)) = 0" using zero by (simp add: run successes_def)
    have "refund_inv oid (snd (claim_refund oid s))"
      using rows' count by (simp add: refund_inv_def run)
    moreover have "refund_claim oid (snd (claim_refund oid s)) = Some 0" using now count by (simp add: refund_claim_def)
    ultimately show ?thesis using that(2) \<open>0 < ?c\<close> free run by simp
  qed
qed

lemma keeps_claim: "refunds.keeps oid (rsql (claim_refund i)) (claimed_by oid i) None"
proof (cases "i = oid")
  case False
  have "idle oid (rsql (claim_refund i))"
    unfolding claim_refund_def by (rule idle_update) (use False in \<open>auto simp: touched_def\<close>)
  then show ?thesis
    by (rule refunds.keeps_weaken [OF keeps_idle]) (simp add: claimed_by_def False)
next
  case True
  show ?thesis
    unfolding rsql_def True
  proof (rule refunds.keeps_stmt)
    fix s c a u
    assume s: "refunds.owned oid None s" and run: "under_weather (weather (gate_chance c)) (claim_refund oid) s = (a, u)"
    then have inv: "refund_inv oid s" by (simp add: refunds.owned_def)
    from claim_effect [OF inv]
    show "\<exists>own'. refunds.passes oid None s own' u \<and> claimed_by oid oid a own'"
    proof cases
      case 1
      then have "leaves oid s u \<and> \<not> (\<exists>c>0. a = Inr c)"
        using run leaves_refl [OF inv] by (auto simp: under_weather_def split: weather.splits prod.splits)
      then show ?thesis by (intro exI [of _ None]) (auto simp: refunds.passes_def leaves_def claimed_by_def)
    next
      case (2 n)
      show ?thesis
      proof (cases "\<exists>c>0. a = Inr c")
        case True
        then have "u = snd (claim_refund oid s)"
          using run 2 by (auto simp: under_weather_def split: weather.splits prod.splits sum.splits)
        then show ?thesis using 2 True by (intro exI [of _ "Some 0"]) (simp add: refunds.passes_def claimed_by_def)
      next
        case False
        have "u = s \<or> u = snd (claim_refund oid s)"
          using run 2 by (auto simp: under_weather_def split: weather.splits prod.splits sum.splits)
        then have "refund_inv oid u" using inv 2 by auto
        then show ?thesis using False 2 by (intro exI [of _ None]) (simp add: refunds.passes_def claimed_by_def)
      qed
    qed
  qed
qed
subsection \<open>Asking the provider\<close>

definition acted :: "int \<Rightarrow> RefundPlan \<Rightarrow> RefundResponse \<Rightarrow> nat option \<Rightarrow> bool" where
  "acted oid p r own \<longleftrightarrow> may_act oid p own \<or>
     OrderID p = oid \<and> own = Some 1 \<and>
     (trim_space (refund_status r) = ProviderStatusSuccess \<or> trim_space (refund_status r) = ProviderStatusRefunded)"

lemma ask_other: "order_id (plan_order p) \<noteq> oid \<Longrightarrow> idle oid (ask_refund p)"
  unfolding ask_refund_def
  by (rule steady_stmt) (auto simp: leaves_def refund_inv_def refund_claim_def successes_def)

lemma keeps_ask:
  assumes "may_act oid p own"
  shows "refunds.keeps oid (ask_refund p)
     (\<lambda>a x. if answered_success a \<and> OrderID p = oid then x = Some 1 else may_act oid p x) own"
proof (cases "OrderID p = oid")
  case False
  then have "order_id (plan_order p) \<noteq> oid" using assms by (simp add: may_act_def)
  then show ?thesis
    by (intro refunds.keeps_weaken [OF keeps_idle [OF ask_other]]) (use assms False in auto)
next
  case True
  then have act: "order_id (plan_order p) = oid" "own = Some 0" using assms by (simp_all add: may_act_def)
  show ?thesis
    unfolding ask_refund_def
  proof (rule refunds.keeps_stmt)
    fix s c a u
    assume s: "refunds.owned oid own s" and run: "(provider_refund c,
       s\<lparr>provider_book := provider_book s @ [(order_id (plan_order p), GatewayAmount p, provider_refund c)]\<rparr>) = (a, u)"
    then have inv: "refund_inv oid s" and own: "order_status_of oid (gate s) = Some OrderStatusRefunding" "successes oid s = 0"
      by (auto simp: refunds.owned_def act refund_claim_def split: if_splits)
    have u: "gate u = gate s" "successes oid u = (if answered_success a then 1 else 0)"
      using run own(2) by (auto simp: successes_def act)
    have "refund_inv oid u"
      using inv own(1) u by (simp add: refund_inv_def taken_row)
    moreover have "refund_claim oid u = Some (successes oid u)" using u(1) own(1) by (simp add: refund_claim_def)
    ultimately show "\<exists>own'. refunds.passes oid own s own' u \<and>
        (if answered_success a \<and> OrderID p = oid then own' = Some 1 else may_act oid p own')"
      using act True u(2) by (intro exI [of _ "Some (successes oid u)"]) (auto simp: refunds.passes_def may_act_def)
  qed
qed

lemma keeps_gateway:
  assumes act: "may_act oid p own"
  shows "refunds.keeps oid (gwRefund L p) (\<lambda>r x. case r of Inl _ \<Rightarrow> may_act oid p x | Inr resp \<Rightarrow> acted oid p resp x) own"
    (is "refunds.keeps oid _ ?Q own")
proof -
  have stop: "refunds.keeps oid (ignoring (writeRefundAudit i action) (Ret r)) ?Q own"
    if "\<And>x. may_act oid p x \<Longrightarrow> ?Q r x" for i action r
    by (intro keeps_idle_ignoring idle_audit) (use act that in simp)
  have answered: "refunds.keeps oid (case (resp, err) of (resp, err) \<Rightarrow> (case err of
          Some e \<Rightarrow> (case resp of
             Some r \<Rightarrow> if trim_space (refund_status r) = ProviderStatusPending then Ret (Inr r) else Ret (Inl e)
           | None \<Rightarrow> Ret (Inl e))
        | None \<Rightarrow> (case validateRefundProviderResponse resp of Some e \<Rightarrow> Ret (Inl e) | None \<Rightarrow> Ret (Inr (the resp))))) ?Q x"
    if x: "if answered_success (resp, err) \<and> OrderID p = oid then x = Some 1 else may_act oid p x" for resp err x
  proof (cases err)
    case (Some e)
    then have "may_act oid p x" using x by (simp add: answered_success_def)
    then show ?thesis by (auto simp: Some acted_def split: option.split)
  next
    case None
    have "may_act oid p x" if "validateRefundProviderResponse resp = Some e" for e
      using x that None by (auto simp: answered_success_def validateRefundProviderResponse_def Let_def split: option.splits if_splits)
    moreover have "acted oid p (the resp) x" if "validateRefundProviderResponse resp = None"
      using x that None
      by (auto simp: acted_def answered_success_def validateRefundProviderResponse_def split: option.splits if_splits)
    ultimately show ?thesis by (simp add: None split: option.split)
  qed
  show ?thesis
    unfolding gwRefund_def Let_def
  proof (rule refunds.keeps_if)
    show "refunds.keeps oid (ignoring (writeRefundAudit (order_id (plan_order p)) ''REFUND_NO_TRADE_NO'')
        (Ret (Inr \<lparr>refund_id = '''', refund_status = ProviderStatusSuccess\<rparr>))) ?Q own"
      by (rule stop) (simp add: acted_def)
  next
    show "refunds.keeps oid (checked (getRefundProvider L (plan_order p) (plan_cols p))
        (\<lambda>e. Ret (Inl (wrap ''get refund provider'' e))) (\<lambda>prov.
        case validateProviderSnapshotMetadata L (plan_order p) (refund_provider_key prov) (merchant_metadata prov) of
          Some e \<Rightarrow> ignoring (writeRefundAudit (order_id (plan_order p)) ''REFUND_PROVIDER_METADATA_MISMATCH'') (Ret (Inl e))
        | None \<Rightarrow> and_then (ask_refund p) (\<lambda>(resp, err). case err of
            Some e \<Rightarrow> (case resp of
               Some r \<Rightarrow> if trim_space (refund_status r) = ProviderStatusPending then Ret (Inr r) else Ret (Inl e)
             | None \<Rightarrow> Ret (Inl e))
          | None \<Rightarrow> (case validateRefundProviderResponse resp of Some e \<Rightarrow> Ret (Inl e) | None \<Rightarrow> Ret (Inr (the resp)))))) ?Q own"
    proof (intro keeps_idle_checked idle_provider refunds.keeps_option stop)
      show "refunds.keeps oid (Ret (Inl (wrap ''get refund provider'' e))) ?Q own" for e using act by simp
    next
      show "refunds.keeps oid (and_then (ask_refund p) (\<lambda>(resp, err). case err of
            Some e \<Rightarrow> (case resp of
               Some r \<Rightarrow> if trim_space (refund_status r) = ProviderStatusPending then Ret (Inr r) else Ret (Inl e)
             | None \<Rightarrow> Ret (Inl e))
          | None \<Rightarrow> (case validateRefundProviderResponse resp of Some e \<Rightarrow> Ret (Inl e) | None \<Rightarrow> Ret (Inr (the resp))))) ?Q own"
        by (rule refunds.keeps_and_then [OF keeps_ask [OF act]]) (use answered in \<open>auto split: prod.split\<close>)
    qed simp
  qed
qed
subsection \<open>The whole of a refund\<close>

definition deducted :: "int \<Rightarrow> RefundPlan \<Rightarrow> 'e + RefundPlan \<Rightarrow> nat option \<Rightarrow> bool" where
  "deducted oid p r own \<longleftrightarrow> (\<forall>q. r = Inr q \<longrightarrow> same_target p q \<and> may_act oid p own)"

lemma deducted_simps [simp]: "deducted oid p (Inl e) own"
  "deducted oid p (Inr q) own \<longleftrightarrow> same_target p q \<and> may_act oid p own"
  by (simp_all add: deducted_def)

lemma keeps_restored: "may_act oid p own \<Longrightarrow> refunds.keeps oid (ignoring (restoreStatus p) (Ret (Inl e))) (deducted oid q) own"
  by (rule refunds.keeps_ignoring [OF owner_restores]) simp_all

lemma idle_revoke: "idle oid (RevokeSubscription i)"
  unfolding RevokeSubscription_def by (intro idle_steps)

lemma keeps_deduct_balance: "may_act oid p own \<Longrightarrow> refunds.keeps oid (deduct_balance p) (deducted oid p) own"
  unfolding deduct_balance_def
  by (intro refunds.keeps_if keeps_idle_then keeps_idle_checked idle_logged idle_balance keeps_restored) simp_all

lemma keeps_deduct_days: "may_act oid p own \<Longrightarrow> refunds.keeps oid (deduct_days C p) (deducted oid p) own"
  unfolding deduct_days_def
  by (intro refunds.keeps_if keeps_idle_then keeps_idle_checked idle_logged idle_extend idle_revoke keeps_restored) simp_all

lemma idle_rollback: "idle oid (RollbackRefund C p)"
  unfolding RollbackRefund_def Let_def by (intro idle_steps)

lemma keeps_fail:
  assumes "may_act oid p own"
  shows "refunds.keeps oid (handleGwFail L p e) (\<lambda>_ _. True) own"
proof -
  have end_of: "refunds.keeps oid (ignoring q (Ret r)) (\<lambda>_ _. True) None" if "idle oid q" for q :: "(go_error + unit) refund" and r
    using that by (intro keeps_idle_ignoring) simp_all
  show ?thesis
    unfolding handleGwFail_def
    by (intro keeps_idle_then idle_rollback refunds.keeps_if refunds.keeps_ignoring [OF owner_restores [OF assms]]
        refunds.keeps_ignoring [OF owner_fails [OF assms]])
      (auto intro: end_of idle_audit)
qed

lemma acted_other: "OrderID p \<noteq> oid \<Longrightarrow> acted oid p r own \<Longrightarrow> own = None"
  by (simp add: acted_def may_act_def)

lemma keeps_write:
  assumes "\<And>r. order_id (f r) = order_id r" "\<And>r. order_status (f r) = st" "acted oid p r own"
    "may_act oid p own \<or> refund_taken st"
  shows "refunds.keeps oid (rsql (update_one_refund (OrderID p) f g)) (\<lambda>_ x. x = None) own"
proof (cases "OrderID p = oid")
  case True
  then obtain n where "own = Some n" "n = 0 \<or> refund_taken st"
    using assms(3,4) by (auto simp: acted_def may_act_def split: if_splits)
  then show ?thesis using owner_writes [of f st n] assms(1,2) by (simp add: True)
next
  case False
  show ?thesis
    unfolding acted_other [OF False assms(3)]
    by (rule refunds.keeps_weaken [OF keeps_idle [OF idle_update_one [OF False assms(1)]]]) simp
qed

lemma keeps_ok:
  assumes "acted oid p r own"
  shows "refunds.keeps oid (markRefundOk p) (\<lambda>_ _. True) own"
proof -
  define st where "st = (if RefundAmount p < order_amount (plan_order p) then OrderStatusPartiallyRefunded else OrderStatusRefunded)"
  have written: "refunds.keeps oid (rsql (update_one_refund (OrderID p) (refunded_row p) g)) (\<lambda>_ x. x = None) own" for g
    by (rule keeps_write [where st = st, OF _ _ assms]) (simp_all add: refunded_row_def st_def)
  show ?thesis
    unfolding markRefundOk_def
    by (intro keeps_idle_then idle_now refunds.keeps_checked [OF written] keeps_idle_ignoring idle_audit) simp_all
qed

lemma keeps_pending:
  assumes "may_act oid p own"
  shows "refunds.keeps oid (markRefundPending C p r) (\<lambda>_ _. True) own"
proof -
  have written: "refunds.keeps oid (rsql (update_one_refund (OrderID p)
      (\<lambda>r. r\<lparr>order_status := OrderStatusRefundPending, failed_at := None, failed_reason := None\<rparr>) g)) (\<lambda>_ x. x = None) own" for g
    by (rule keeps_write [where st = OrderStatusRefundPending]) (use assms in \<open>auto simp: acted_def\<close>)
  show ?thesis
    unfolding markRefundPending_def
    by (intro keeps_idle_then idle_rollback refunds.keeps_checked [OF written] keeps_idle_ignoring idle_pending_audit) simp_all
qed

lemma keeps_finish:
  assumes "acted oid p r own"
  shows "refunds.keeps oid (finishRefund L p r) (\<lambda>_ _. True) own"
proof -
  have differ: "ProviderStatusPending \<noteq> ProviderStatusSuccess" "ProviderStatusPending \<noteq> ProviderStatusRefunded"
    by (simp_all add: provider_status_defs)
  let ?st = "trim_space (refund_status r)"
  have act: "may_act oid p own" if "?st \<noteq> ProviderStatusSuccess" "?st \<noteq> ProviderStatusRefunded"
    using assms that by (simp add: acted_def)
  show ?thesis
  proof (cases "?st = ProviderStatusSuccess \<or> ?st = ProviderStatusRefunded")
    case True
    then have "validateRefundProviderResponse (Some r) = None" by (auto simp: validateRefundProviderResponse_def)
    then show ?thesis using True keeps_ok [OF assms] by (simp add: finishRefund_def)
  next
    case False
    then show ?thesis
      unfolding finishRefund_def Let_def
      by (intro refunds.keeps_option refunds.keeps_if keeps_fail keeps_pending act) simp_all
  qed
qed

lemma keeps_execute:
  assumes "plan_for i p"
  shows "refunds.keeps oid (ExecuteRefund L p) (\<lambda>_ _. True) None"
  unfolding ExecuteRefund_def
proof (rule refunds.keeps_checked [OF keeps_claim])
  fix c x assume x: "claimed_by oid (OrderID p) (Inr c :: go_error + nat) x"
  show "refunds.keeps oid (if c = 0 then Ret (Inl (Conflict ''CONFLICT'' ''order status changed''))
      else checked (deduct_balance p) (\<lambda>e. Ret (Inl e)) (\<lambda>p1.
           checked (deduct_days (cal L) p1) (\<lambda>e. Ret (Inl e)) (\<lambda>p2.
           checked (gwRefund L p2) (handleGwFail L p2) (finishRefund L p2)))) (\<lambda>_ _. True) x"
  proof (rule refunds.keeps_if)
    assume "c \<noteq> 0"
    then have act: "may_act oid p x" using x assms by (auto simp: claimed_by_def may_act_def plan_for_def)
    show "refunds.keeps oid (checked (deduct_balance p) (\<lambda>e. Ret (Inl e)) (\<lambda>p1.
           checked (deduct_days (cal L) p1) (\<lambda>e. Ret (Inl e)) (\<lambda>p2.
           checked (gwRefund L p2) (handleGwFail L p2) (finishRefund L p2)))) (\<lambda>_ _. True) x"
    proof (rule refunds.keeps_checked [OF keeps_deduct_balance [OF act]])
      fix p1 y assume "deducted oid p (Inr p1 :: go_error + RefundPlan) y"
      then have y: "may_act oid p1 y" by (auto intro: may_act_same)
      show "refunds.keeps oid (checked (deduct_days (cal L) p1) (\<lambda>e. Ret (Inl e)) (\<lambda>p2.
           checked (gwRefund L p2) (handleGwFail L p2) (finishRefund L p2))) (\<lambda>_ _. True) y"
      proof (rule refunds.keeps_checked [OF keeps_deduct_days [OF y]])
        fix p2 z assume "deducted oid p1 (Inr p2 :: go_error + RefundPlan) z"
        then have z: "may_act oid p2 z" by (auto intro: may_act_same)
        show "refunds.keeps oid (checked (gwRefund L p2) (handleGwFail L p2) (finishRefund L p2)) (\<lambda>_ _. True) z"
          by (rule refunds.keeps_checked [OF keeps_gateway [OF z]]) (simp_all add: keeps_fail keeps_finish)
      qed simp
    qed simp
  qed simp
qed simp

lemma keeps_process: "refunds.keeps oid (ProcessRefund L i amt reason force deduct) (\<lambda>_ _. True) None"
  unfolding ProcessRefund_def
proof (rule refunds.keeps_checked [OF keeps_idle [OF plan_prepared]])
  fix a and x :: "nat option" assume a: "(\<forall>p. (Inr a :: go_error + RefundResult + RefundPlan) = Inr (Inr p) \<longrightarrow> plan_for i p) \<and> x = None"
  then show "refunds.keeps oid (case a of Inl earlyResult \<Rightarrow> Ret (Inr earlyResult) | Inr plan \<Rightarrow> ExecuteRefund L plan) (\<lambda>_ _. True) x"
    by (cases a) (auto intro: keeps_execute)
qed simp
subsection \<open>The other requests\<close>

lemma idle_request: "idle oid (RequestRefund L i w reason)"
proof -
  have untouched: "idle oid (rsql (update_refund i
         (\<lambda>r. order_user r = w \<and> order_status r = OrderStatusCompleted \<and> order_type r = OrderTypeBalance)
         (\<lambda>r. r\<lparr>order_status := OrderStatusRefundRequested\<rparr>) g))" for g
    by (rule idle_update) (auto simp: touched_def)
  show ?thesis
    unfolding RequestRefund_def validateRefundRequest_def
    by (intro idle_steps idle_order idle_instance untouched)
qed

lemma idle_final_deduction: "steady (refund_inv oid) (leaves oid) (applyRefundFinalDeduction C p) (target_kept p)"
proof -
  let ?K = "target_kept p :: go_error + RefundPlan \<Rightarrow> bool"
  have fst_part: "steady (refund_inv oid) (leaves oid) (if DeductionType p = DeductionTypeBalance \<and> BalanceToDeduct p > 0
        then checked (on_gate (sql (DeductAvailableBalance (order_user (plan_order p)) (BalanceToDeduct p))))
               (\<lambda>e. Ret (Inl (wrap ''deduction'' e))) (\<lambda>deducted. Ret (Inr (p\<lparr>BalanceToDeduct := deducted\<rparr>)))
        else Ret (Inr p)) (\<lambda>r. \<forall>a. r = Inr a \<longrightarrow> same_target p a)"
    by (intro steady_if steady_checked idle_balance) simp_all
  show ?thesis
    unfolding applyRefundFinalDeduction_def
    by (intro steady_checked_with [OF fst_part] steady_if steady_checked idle_extend idle_revoke steady_kept) simp_all
qed

lemma idle_finalize:
  assumes "OrderID p \<noteq> oid"
  shows "idle oid (finalizePendingRefundSuccess C p)"
proof -
  have claim: "idle oid (rsql (update_refund (OrderID p) (\<lambda>r. order_status r = OrderStatusRefundPending)
      (\<lambda>r. r\<lparr>order_status := OrderStatusRefunding\<rparr>) id))"
    by (rule idle_update) (use assms in \<open>auto simp: touched_def\<close>)
  have mark: "idle oid (markRefundOkTx q)" if "same_target p q" for q
  proof -
    have "OrderID q \<noteq> oid" using that assms by (simp add: same_target_def)
    then show ?thesis
      unfolding markRefundOkTx_def by (intro idle_steps idle_update_one) (simp_all add: refunded_row_def)
  qed
  have deduct: "steady (refund_inv oid) (leaves oid) (applyRefundFinalDeduction C p) (\<lambda>r. \<forall>a. r = Inr a \<longrightarrow> same_target p a)"
    by (rule steady_weaken [OF idle_final_deduction]) (simp add: target_kept_def)
  show ?thesis
    unfolding finalizePendingRefundSuccess_def
    by (intro idle_tx steady_checked [OF claim] steady_if steady_Ret steady_checked_with [OF deduct] mark)
qed

lemma idle_finalize_failed: "order_id o1 \<noteq> oid \<Longrightarrow> idle oid (finalizeRefundFailed L o1 e)"
  unfolding finalizeRefundFailed_def mark_failed_refund_def
  by (intro idle_steps idle_update_one) simp_all

lemma idle_query:
  assumes "i \<noteq> oid"
  shows "idle oid (QueryAndFinalizeRefund L i)"
proof -
  have prepared': "steady (refund_inv oid) (leaves oid)
      (if \<not> ok then Ret (Inr (plan\<lparr>BalanceToDeduct := 0, SubDaysToDeduct := 0\<rparr>))
       else if order_type o1 = OrderTypeSubscription then prepDeduct o1 plan True else Ret (Inr plan)) (target_kept plan)"
    for ok plan o1 by (intro steady_if prepared) simp_all
  have detail: "idle oid (latestRefundPendingDetail i)"
    unfolding latestRefundPendingDetail_def by (intro idle_steps)
  have finish: "idle oid (and_then
        (if \<not> ok then Ret (Inr (plan\<lparr>BalanceToDeduct := 0, SubDaysToDeduct := 0\<rparr>))
         else if order_type o1 = OrderTypeSubscription then prepDeduct o1 plan True else Ret (Inr plan)) (\<lambda>r. case r of
           Inl early \<Rightarrow> Ret (Inr early)
         | Inr p \<Rightarrow>
             if status = ProviderStatusSuccess \<or> status = ProviderStatusRefunded
             then finalizePendingRefundSuccess (cal L) p
             else if status = ProviderStatusPending
             then ignoring (writeRefundAudit i ''REFUND_QUERY_PENDING'')
                    (Ret (Inr (failed_result ''gateway refund is still pending confirmation'' False)))
             else finalizeRefundFailed L o1 (plain_error (''payment refund returned unknown status: '' @ status))))"
    if "order_id o1 = i" "OrderID plan = i" for ok plan o1 status
  proof (rule steady_and_then [OF prepared'])
    fix r assume "target_kept plan (r :: RefundResult + RefundPlan)"
    then have "OrderID p \<noteq> oid" if "r = Inr p" for p
      using that assms \<open>OrderID plan = i\<close> by (simp add: same_target_def)
    then show "idle oid (case r of
           Inl early \<Rightarrow> Ret (Inr early)
         | Inr p \<Rightarrow>
             if status = ProviderStatusSuccess \<or> status = ProviderStatusRefunded
             then finalizePendingRefundSuccess (cal L) p
             else if status = ProviderStatusPending
             then ignoring (writeRefundAudit i ''REFUND_QUERY_PENDING'')
                    (Ret (Inr (failed_result ''gateway refund is still pending confirmation'' False)))
             else finalizeRefundFailed L o1 (plain_error (''payment refund returned unknown status: '' @ status)))"
      using assms \<open>order_id o1 = i\<close> by (intro idle_steps idle_finalize idle_finalize_failed) auto
  qed
  show ?thesis
    unfolding QueryAndFinalizeRefund_def QueryRefund_def Let_def
    by (intro steady_checked_with [OF order_found] steady_prod steady_if steady_checked steady_then steady_option steady_Ret
        idle_provider detail idle_stmt idle_finalize_failed finish)
      (use assms in \<open>simp_all add: refundFinalizePlan_def Let_def\<close>)
qed

subsection \<open>At most one successful refund\<close>

text \<open>
  The requests in flight: every request of payments, users' requests for refunds, refunds by administrators (prepared at
  any time, executed later), and queries of pending refunds of other orders than \<open>oid\<close>. Beside them, whatever else
  happens to the tables of payments, and changes of the provider instances.
\<close>

definition refund_request :: "pay_lib \<Rightarrow> int \<Rightarrow> unit refund \<Rightarrow> bool" where
  "refund_request L oid p \<longleftrightarrow>
     (\<exists>q. payment_request L q \<and> p = on_gate q) \<or>
     (\<exists>i w reason. p = ignoring (RequestRefund L i w reason) (Ret ())) \<or>
     (\<exists>i amt reason force deduct. p = ignoring (ProcessRefund L i amt reason force deduct) (Ret ())) \<or>
     (\<exists>i. i \<noteq> oid \<and> p = ignoring (QueryAndFinalizeRefund L i) (Ret ()))"

definition refund_env :: "refund_db \<Rightarrow> refund_db \<Rightarrow> bool" where
  "refund_env s t \<longleftrightarrow> (\<exists>g. payment_env (gate s) g \<and> t = s\<lparr>gate := g\<rparr>) \<or> (\<exists>m. t = s\<lparr>instances := m\<rparr>)"

definition refund_start :: "int \<Rightarrow> refund_db \<Rightarrow> bool" where
  "refund_start oid s \<longleftrightarrow> rows_ok oid (gate s) \<and> successes oid s = 0"

lemma refund_requests_keep: "refund_request L oid p \<Longrightarrow> refunds.keeps oid p (\<lambda>_ _. True) None"
  unfolding refund_request_def
proof (elim disjE exE conjE)
  fix q assume "payment_request L q" "p = on_gate q"
  then show ?thesis using keeps_idle_True [OF idle_gate [OF calm_requests]] by blast
next
  fix i w reason assume "p = ignoring (RequestRefund L i w reason) (Ret ())"
  then show ?thesis by (simp only:) (intro keeps_idle_ignoring idle_request refunds.keeps_Ret)
next
  fix i amt reason force deduct assume "p = ignoring (ProcessRefund L i amt reason force deduct) (Ret ())"
  then show ?thesis by (simp only:) (rule refunds.keeps_ignoring [OF keeps_process], rule refunds.keeps_Ret)
next
  fix i assume "i \<noteq> oid" "p = ignoring (QueryAndFinalizeRefund L i) (Ret ())"
  then show ?thesis by (simp only:) (intro keeps_idle_ignoring idle_query refunds.keeps_Ret)
qed

lemma refund_env_keeps:
  assumes "refund_env s t" "refund_inv oid s"
  shows "refund_inv oid t \<and> refund_claim oid t = refund_claim oid s"
  using assms(1) unfolding refund_env_def
proof (elim disjE exE conjE)
  fix g assume "payment_env (gate s) g" "t = s\<lparr>gate := g\<rparr>"
  then have "leaves oid s t"
    using leaves_calm [OF assms(2) calm_env] assms(2) by (simp add: refund_inv_def)
  then show ?thesis by (simp add: leaves_def)
next
  fix m assume "t = s\<lparr>instances := m\<rparr>"
  then have "leaves oid s t"
    using leaves_cong [of t s oid s] leaves_refl [OF assms(2)] by simp
  then show ?thesis by (simp add: leaves_def)
qed

lemma refund_start_inv: "refund_start oid s \<Longrightarrow> refund_inv oid s"
  by (simp add: refund_start_def refund_inv_def)

text \<open>C6: However many refunds of an order and other requests run at once, with failing connections, lost answers and
  crashes, the provider is asked at most once for a refund of the order that it then confirms; and once it has
  confirmed one, the order is refunding or refunded, and no payment, cancellation or later refund takes it back. Queries of
  its own pending refund are not among the requests: they break this (\<open>query_undoes_claim\<close>).\<close>

theorem refunded_once:
  assumes "pool_reach (refund_request L oid) refund_env (refund_start oid) S"
  shows "successes oid (store S) \<le> 1 \<and>
     (0 < successes oid (store S) \<longrightarrow> (\<exists>st\<in>{OrderStatusRefunding, OrderStatusPartiallyRefunded, OrderStatusRefunded}.
        order_status_of oid (gate (store S)) = Some st))"
proof -
  have "refund_inv oid (store S)"
    by (rule refunds.pool_reach_owned [OF assms refund_start_inv refund_requests_keep refund_env_keeps])
  then show ?thesis by (auto simp: refund_inv_def taken_def refund_taken_def)
qed

end
