(* ===== verification/RefundSettles.thy ===== *)
theory RefundSettles
  imports RefundRun PaymentSettles
begin

section \<open>What an undisturbed refund does\<close>

text \<open>
  One refund of a balance order, run alone on a working connection: what becomes of the balance and of the order for each
  answer of the provider (\<open>refund_settles\<close>), a concrete shop, and the runs that show where the refund code goes wrong:
  a query of a pending refund undoes the claim of a later one, so that the provider pays twice (\<open>query_undoes_claim\<close>), and
  a failed repetition forgets that a refund is pending (\<open>pending_forgotten\<close>). What a query that the provider confirms makes
  of balance and order is \<open>pending_refund_settles\<close>.
\<close>

subsection \<open>Running statements\<close>

lemma run_on_gate:
  "run_prog (on_gate p) c s = (case run_prog p (gate_chance c) (gate s) of (a, g) \<Rightarrow> (a, s\<lparr>gate := g\<rparr>))"
  by (induction p arbitrary: s) (auto split: prod.splits)

definition fair_weather :: "refund_chance \<Rightarrow> bool" where
  "fair_weather c \<longleftrightarrow> weather (gate_chance c) = Fair"

lemma run_rsql:
  "fair_weather c \<Longrightarrow> run_prog (rsql f) c s = (case f s of (Inl e, _) \<Rightarrow> (Inl e, s) | (Inr a, t) \<Rightarrow> (Inr a, t))"
  by (simp add: rsql_def under_weather_def fair_weather_def)

lemma run_gate_sql:
  "fair_weather c \<Longrightarrow> run_prog (on_gate (sql f)) c s =
     (case f (gate s) of (Inl e, _) \<Rightarrow> (Inl e, s) | (Inr a, g) \<Rightarrow> (Inr a, s\<lparr>gate := g\<rparr>))"
  by (simp add: run_on_gate sql_def under_weather_def fair_weather_def split: prod.split sum.split)

text \<open>What the audit log does not touch.\<close>

definition same_but_log :: "refund_db \<Rightarrow> refund_db \<Rightarrow> bool" where
  "same_but_log s t \<longleftrightarrow> (\<exists>l. gate t = (gate s)\<lparr>audit_logs := l\<rparr>) \<and> refund_cols t = refund_cols s \<and>
     instances t = instances s \<and> provider_book t = provider_book s"

lemma same_but_log_refl [simp]: "same_but_log s s"
  by (auto simp: same_but_log_def intro: exI [of _ "audit_logs (gate s)"])

lemma same_but_log_trans: "same_but_log s t \<Longrightarrow> same_but_log t u \<Longrightarrow> same_but_log s u"
  by (auto simp: same_but_log_def)

lemma audit_runs: "fair_weather c \<Longrightarrow> same_but_log s (snd (run_prog (writeRefundAudit i action) c s))"
  by (auto simp: writeRefundAudit_def writeAuditLog_def run_gate_sql insert_audit_def same_but_log_def
      intro: exI [of _ "audit_logs (gate s)"])

lemma pending_audit_runs: "fair_weather c \<Longrightarrow> same_but_log s (snd (run_prog (rsql (insert_pending_audit i rid ok)) c s))"
  by (auto simp: run_rsql insert_pending_audit_def insert_audit_def same_but_log_def intro: exI [of _ "audit_logs (gate s)"])

definition refund_users :: "refund_db \<Rightarrow> int \<rightharpoonup> user_row" where "refund_users s = users (gate s)"

definition refund_status_of :: "int \<Rightarrow> refund_db \<Rightarrow> string option" where
  "refund_status_of i s = order_status_of i (gate s)"

lemma same_but_log_fields:
  assumes "same_but_log s t"
  shows "refund_users t = refund_users s" "refund_status_of i t = refund_status_of i s" "refund_cols t = refund_cols s"
    "instances t = instances s" "provider_book t = provider_book s"
  using assms by (auto simp: same_but_log_def refund_users_def refund_status_of_def order_status_of_def)

lemma user_balance_runs:
  assumes "fair_weather c" "refund_users s w = Some u" "run_prog (on_gate (sql (UpdateBalance w a))) c s = (r, t)"
  shows "r = Inr () \<and> refund_users t = (refund_users s)(w \<mapsto> u\<lparr>balance := balance u + a,
       total_recharged := (if a > 0 then total_recharged u + a else total_recharged u)\<rparr>) \<and>
     refund_status_of i t = refund_status_of i s \<and> provider_book t = provider_book s \<and> refund_cols t = refund_cols s"
  using assms
  by (auto simp: run_gate_sql UpdateBalance_def update_user_def refund_users_def refund_status_of_def order_status_of_def)

text \<open>A write of the owner, on a working connection.\<close>

lemma owner_write_runs:
  assumes "fair_weather c" "refund_status_of i s \<noteq> None" "\<And>r. order_id (f r) = order_id r" "\<And>r. order_status (f r) = st"
  shows "\<exists>t. run_prog (rsql (update_one_refund i f g)) c s = (Inr (), t) \<and> refund_status_of i t = Some st \<and>
     refund_users t = refund_users s \<and> provider_book t = provider_book s \<and>
     refund_cols t = (refund_cols s)(i := g (refund_cols s i))"
proof -
  obtain r where r: "List.find (\<lambda>r. order_id r = i) (orders (gate s)) = Some r"
    using assms(2) by (auto simp: refund_status_of_def order_status_of_def)
  have row: "order_id r = i" "r \<in> set (orders (gate s))" using find_row [OF r] by simp_all
  let ?h = "\<lambda>r. if order_id r = i then f (touched (gate s) r) else r"
  have ids: "order_id (?h r) = order_id r" for r using assms(3) by (simp add: touched_def)
  have "order_status_of i ((gate s)\<lparr>orders := map ?h (orders (gate s))\<rparr>) = Some st"
    using row assms(4) by (simp add: order_status_of_def find_map [OF ids] r)
  moreover have "\<exists>r\<in>set (orders (gate s)). order_id r = i" using row by blast
  ultimately show ?thesis
    by (auto simp: run_rsql [OF assms(1)] update_one_refund_def update_one_order_def refund_status_of_def refund_users_def)
qed
subsection \<open>The steps of a refund\<close>

lemma claim_runs:
  assumes "fair_weather c" "refund_status_of i s = Some st" "st \<in> set refundable_statuses"
  shows "\<exists>n t. run_prog (rsql (claim_refund i)) c s = (Inr n, t) \<and> 0 < n \<and> refund_status_of i t = Some OrderStatusRefunding \<and>
     refund_users t = refund_users s \<and> provider_book t = provider_book s \<and> instances t = instances s \<and>
     audit_logs (gate t) = audit_logs (gate s) \<and> refund_cols t = refund_cols s"
proof -
  obtain r where r: "List.find (\<lambda>r. order_id r = i) (orders (gate s)) = Some r" "order_status r = st"
    using assms(2) by (auto simp: refund_status_of_def order_status_of_def)
  have row: "order_id r = i" "r \<in> set (orders (gate s))" using find_row [OF r(1)] by simp_all
  let ?hit = "\<lambda>r. order_id r = i \<and> order_status r \<in> set refundable_statuses"
  let ?h = "\<lambda>r. if ?hit r then (touched (gate s) r)\<lparr>order_status := OrderStatusRefunding\<rparr> else r"
  have ids: "order_id (?h r) = order_id r" for r by (simp add: touched_def)
  have hit: "?hit r" using row r(2) assms(3) by simp
  then have some: "0 < length (filter ?hit (orders (gate s)))" using row(2) by (auto simp: filter_empty_conv)
  have "order_status_of i ((gate s)\<lparr>orders := map ?h (orders (gate s))\<rparr>) = Some OrderStatusRefunding"
    using hit by (simp add: order_status_of_def find_map [OF ids] r(1))
  then show ?thesis
    using some by (simp add: run_rsql [OF assms(1)] claim_refund_def update_refund_def update_order_def Let_def
        refund_status_of_def refund_users_def)
qed

text \<open>A plan that takes money from the balance, or nothing from anybody.\<close>

definition balance_plan :: "RefundPlan \<Rightarrow> bool" where
  "balance_plan p \<longleftrightarrow> DeductionType p = DeductionTypeBalance \<and> 0 \<le> BalanceToDeduct p \<or>
     DeductionType p = DeductionTypeNone \<and> BalanceToDeduct p = 0"

definition deductible :: "RefundPlan \<Rightarrow> user_row \<Rightarrow> usd" where
  "deductible p u = min (BalanceToDeduct p) (max (balance u) 0)"

lemma deductible_nonneg: "balance_plan p \<Longrightarrow> 0 \<le> deductible p u"
  by (auto simp: balance_plan_def deductible_def)

lemma nothing_deductible:
  assumes "balance_plan p" "\<not> (DeductionType p = DeductionTypeBalance \<and> 0 < BalanceToDeduct p)"
  shows "BalanceToDeduct p = 0" "deductible p u = 0" "p\<lparr>BalanceToDeduct := deductible p u\<rparr> = p"
proof -
  show b: "BalanceToDeduct p = 0" using assms by (auto simp: balance_plan_def)
  then show d: "deductible p u = 0" by (simp add: deductible_def)
  show "p\<lparr>BalanceToDeduct := deductible p u\<rparr> = p" using b d by (cases p) simp
qed

lemma deduct_runs:
  assumes "fair_weather c" "balance_plan p"
    "refund_users s (order_user (plan_order p)) = Some u" "(OrderID p, ''REFUND_ROLLBACK_FAILED'') \<notin> set (audit_logs (gate s))"
  shows "\<exists>t. run_prog (deduct_balance p) c s = (Inr (p\<lparr>BalanceToDeduct := deductible p u\<rparr>), t) \<and>
     refund_users t = (refund_users s)(order_user (plan_order p) \<mapsto> u\<lparr>balance := balance u - deductible p u\<rparr>) \<and>
     refund_status_of i t = refund_status_of i s \<and> provider_book t = provider_book s \<and> instances t = instances s \<and>
     refund_cols t = refund_cols s"
proof (cases "DeductionType p = DeductionTypeBalance \<and> 0 < BalanceToDeduct p")
  case True
  have logged: "run_prog (on_gate (hasAuditLog (OrderID p) ''REFUND_ROLLBACK_FAILED'')) c s = (False, s)"
    using assms(1,4) by (simp add: hasAuditLog_def run_on_gate sql_def under_weather_def fair_weather_def)
  have taken: "run_prog (on_gate (sql (DeductAvailableBalance (order_user (plan_order p)) (BalanceToDeduct p)))) c s =
      (Inr (deductible p u), s\<lparr>gate := (gate s)\<lparr>users := (users (gate s))(order_user (plan_order p) \<mapsto>
         u\<lparr>balance := balance u - deductible p u\<rparr>)\<rparr>\<rparr>)"
    using True assms(3) by (simp add: run_gate_sql [OF assms(1)] DeductAvailableBalance_def refund_users_def deductible_def Let_def)
  show ?thesis
    using True by (simp add: deduct_balance_def logged taken refund_users_def refund_status_of_def order_status_of_def)
next
  case False
  note none = nothing_deductible [OF assms(2) False]
  have "run_prog (deduct_balance p) c s = (Inr p, s)" using none(1) by (simp add: deduct_balance_def)
  then show ?thesis using none(3) assms(3) by (simp add: none(2) fun_upd_idem)
qed

lemma no_days: "balance_plan p \<Longrightarrow> run_prog (deduct_days C (p\<lparr>BalanceToDeduct := d\<rparr>)) c s = (Inr (p\<lparr>BalanceToDeduct := d\<rparr>), s)"
  by (auto simp: deduct_days_def balance_plan_def deduction_defs)

text \<open>Programs that only read, and only the provider instances.\<close>

definition reads_instances :: "refund_chance \<Rightarrow> (int \<rightharpoonup> provider_instance) \<Rightarrow> 'a refund \<Rightarrow> bool" where
  "reads_instances c m p \<longleftrightarrow> (\<exists>r. \<forall>s. instances s = m \<longrightarrow> run_prog p c s = (r, s))"

lemma reads_Ret: "reads_instances c m (Ret a)"
  by (simp add: reads_instances_def)

lemma reads_find: "fair_weather c \<Longrightarrow> reads_instances c m (rsql (find_instance i))"
  by (cases "m i") (simp_all add: reads_instances_def run_rsql find_instance_def)

lemma reads_made: "reads_instances c m createProviderFromInstance"
  by (simp add: reads_instances_def createProviderFromInstance_def)

lemma reads_checked:
  assumes "reads_instances c m p" "\<And>e. reads_instances c m (failed e)" "\<And>a. reads_instances c m (k a)"
  shows "reads_instances c m (checked p failed k)"
proof -
  obtain r where r: "\<And>s. instances s = m \<Longrightarrow> run_prog p c s = (r, s)" using assms(1) by (auto simp: reads_instances_def)
  show ?thesis
  proof (cases r)
    case (Inl e)
    then show ?thesis using assms(2) [of e] r by (simp add: reads_instances_def)
  next
    case (Inr a)
    then show ?thesis using assms(3) [of a] r by (simp add: reads_instances_def)
  qed
qed

lemma reads_if: "reads_instances c m p \<Longrightarrow> reads_instances c m q \<Longrightarrow> reads_instances c m (if b then p else q)"
  by simp

lemma reads_option:
  "reads_instances c m p \<Longrightarrow> (\<And>a. reads_instances c m (q a)) \<Longrightarrow> reads_instances c m (case x of None \<Rightarrow> p | Some a \<Rightarrow> q a)"
  by (cases x) simp_all

lemma reads_provider: "fair_weather c \<Longrightarrow> reads_instances c m (getRefundProvider L o1 k)"
  unfolding getRefundProvider_def getRefundOrderProviderInstance_def resolveSnapshotOrderProviderInstance_def Let_def
  by (intro reads_checked reads_if reads_option reads_Ret reads_find reads_made)

lemma provider_runs:
  assumes "fair_weather c" "instances t = instances s"
  shows "run_prog (getRefundProvider L o1 k) c t = (fst (run_prog (getRefundProvider L o1 k) c s), t)"
proof -
  obtain r where "\<And>u. instances u = instances s \<Longrightarrow> run_prog (getRefundProvider L o1 k) c u = (r, u)"
    using reads_provider [OF assms(1)] unfolding reads_instances_def by blast
  then show ?thesis using assms(2) by simp
qed

definition asked_of :: "RefundPlan \<Rightarrow> refund_chance \<Rightarrow> int \<times> usd \<times> refund_answer" where
  "asked_of p c = (order_id (plan_order p), GatewayAmount p, provider_refund c)"

definition gateway_result :: "refund_answer \<Rightarrow> go_error + RefundResponse" where
  "gateway_result a = (case a of (resp, err) \<Rightarrow> (case err of
      Some e \<Rightarrow> (case resp of
         Some r \<Rightarrow> if trim_space (refund_status r) = ProviderStatusPending then Inr r else Inl e
       | None \<Rightarrow> Inl e)
    | None \<Rightarrow> (case validateRefundProviderResponse resp of Some e \<Rightarrow> Inl e | None \<Rightarrow> Inr (the resp))))"

lemma gateway_runs:
  assumes "fair_weather c" "payment_trade_no (plan_order p) \<noteq> ''''"
    "fst (run_prog (getRefundProvider L (plan_order p) (plan_cols p)) c s) = Inr prov"
    "validateProviderSnapshotMetadata L (plan_order p) (refund_provider_key prov) (merchant_metadata prov) = None"
  shows "run_prog (gwRefund L p) c s =
     (gateway_result (provider_refund c), s\<lparr>provider_book := provider_book s @ [asked_of p c]\<rparr>)"
proof -
  have "run_prog (getRefundProvider L (plan_order p) (plan_cols p)) c s = (Inr prov, s)"
    using provider_runs [OF assms(1) refl, of L "plan_order p" "plan_cols p" s] assms(3) by simp
  then show ?thesis
    using assms(2,4) by (auto simp: gwRefund_def Let_def ask_refund_def asked_of_def gateway_result_def split: prod.split option.split)
qed

lemma rollback_runs:
  assumes "fair_weather c" "balance_plan q" "refund_users s (order_user (plan_order q)) = Some u"
  shows "\<exists>t. run_prog (RollbackRefund C q) c s = (True, t) \<and>
     refund_users t = (refund_users s)(order_user (plan_order q) \<mapsto>
       u\<lparr>balance := balance u + BalanceToDeduct q, total_recharged := total_recharged u + BalanceToDeduct q\<rparr>) \<and>
     refund_status_of i t = refund_status_of i s \<and> provider_book t = provider_book s \<and> refund_cols t = refund_cols s"
proof (cases "DeductionType q = DeductionTypeBalance \<and> 0 < BalanceToDeduct q")
  case False
  have "DeductionType q \<noteq> DeductionTypeSubscription" using assms(2) by (auto simp: balance_plan_def deduction_defs)
  then have "run_prog (RollbackRefund C q) c s = (True, s)" using False by (auto simp: RollbackRefund_def Let_def)
  then show ?thesis using nothing_deductible(1) [OF assms(2) False] assms(3) by (simp add: fun_upd_idem)
next
  case True
  let ?p = "on_gate (sql (UpdateBalance (order_user (plan_order q)) (BalanceToDeduct q)))"
  obtain r t where run: "run_prog ?p c s = (r, t)" by (cases "run_prog ?p c s")
  show ?thesis
    using user_balance_runs [OF assms(1,3) run, of i] True
    by (simp add: RollbackRefund_def Let_def run deduction_defs)
qed
subsection \<open>The outcome\<close>

definition answered_pending :: "refund_answer \<Rightarrow> bool" where
  "answered_pending a \<longleftrightarrow> (case fst a of None \<Rightarrow> False | Some r \<Rightarrow> trim_space (refund_status r) = ProviderStatusPending)"

text \<open>What the answer of the provider makes of the order and of the user.\<close>

definition outcome_status :: "RefundPlan \<Rightarrow> refund_answer \<Rightarrow> string" where
  "outcome_status p a =
     (if answered_success a then
        (if RefundAmount p < order_amount (plan_order p) then OrderStatusPartiallyRefunded else OrderStatusRefunded)
      else if answered_pending a then OrderStatusRefundPending
      else if order_status (plan_order p) = OrderStatusRefundRequested then OrderStatusRefundRequested
      else OrderStatusCompleted)"

definition outcome_user :: "RefundPlan \<Rightarrow> refund_answer \<Rightarrow> user_row \<Rightarrow> user_row" where
  "outcome_user p a u =
     (if answered_success a then u\<lparr>balance := balance u - deductible p u\<rparr>
      else u\<lparr>total_recharged := total_recharged u + deductible p u\<rparr>)"

definition refund_ready :: "pay_lib \<Rightarrow> RefundPlan \<Rightarrow> refund_chance \<Rightarrow> refund_db \<Rightarrow> user_row \<Rightarrow> bool" where
  "refund_ready L p c s u \<longleftrightarrow> fair_weather c \<and>
     (\<exists>st\<in>set refundable_statuses. refund_status_of (OrderID p) s = Some st) \<and>
     balance_plan p \<and>
     refund_users s (order_user (plan_order p)) = Some u \<and>
     (OrderID p, ''REFUND_ROLLBACK_FAILED'') \<notin> set (audit_logs (gate s)) \<and> payment_trade_no (plan_order p) \<noteq> '''' \<and>
     (\<exists>prov. fst (run_prog (getRefundProvider L (plan_order p) (plan_cols p)) c s) = Inr prov \<and>
        validateProviderSnapshotMetadata L (plan_order p) (refund_provider_key prov) (merchant_metadata prov) = None)"

lemma status_words [simp]: "ProviderStatusPending \<noteq> ProviderStatusSuccess" "ProviderStatusPending \<noteq> ProviderStatusRefunded"
  "ProviderStatusFailed \<noteq> ProviderStatusSuccess" "ProviderStatusFailed \<noteq> ProviderStatusRefunded"
  "ProviderStatusFailed \<noteq> ProviderStatusPending"
  by (simp_all add: provider_status_defs)

lemmas status_words_sym [simp] = status_words [symmetric]

text \<open>The answer, as the code classifies it.\<close>

lemma gateway_classes:
  obtains e where "gateway_result a = Inl e" "\<not> answered_success a" "\<not> answered_pending a"
  | r where "gateway_result a = Inr r" "answered_success a" "\<not> answered_pending a"
      "trim_space (refund_status r) = ProviderStatusSuccess \<or> trim_space (refund_status r) = ProviderStatusRefunded"
  | r where "gateway_result a = Inr r" "\<not> answered_success a" "answered_pending a"
      "trim_space (refund_status r) = ProviderStatusPending"
proof -
  obtain resp err where a: "a = (resp, err)" by fastforce
  show thesis
  proof (cases resp)
    case None
    then show ?thesis
      using that(1) by (cases err) (simp_all add: a gateway_result_def validateRefundProviderResponse_def answered_success_def
          answered_pending_def)
  next
    case (Some r)
    let ?st = "trim_space (refund_status r)"
    consider "?st = ProviderStatusPending" | "?st = ProviderStatusSuccess \<or> ?st = ProviderStatusRefunded"
      | "?st \<notin> {ProviderStatusSuccess, ProviderStatusRefunded, ProviderStatusPending}" by blast
    then show ?thesis
    proof cases
      case 1
      then show ?thesis
        using that(3) [of r] Some by (cases err) (simp_all add: a gateway_result_def validateRefundProviderResponse_def
            answered_success_def answered_pending_def)
    next
      case 2
      show ?thesis
      proof (cases err)
        case None
        then show ?thesis using that(2) [of r] 2 Some
          by (auto simp: a gateway_result_def validateRefundProviderResponse_def answered_success_def answered_pending_def)
      next
        case (Some e)
        then show ?thesis using that(1) [of e] 2 \<open>resp = Some r\<close>
          by (auto simp: a gateway_result_def answered_success_def answered_pending_def)
      qed
    next
      case 3
      have "\<exists>e. gateway_result a = Inl e"
        using 3 Some by (cases err) (simp_all add: a gateway_result_def validateRefundProviderResponse_def Let_def)
      then obtain e where "gateway_result a = Inl e" by blast
      then show ?thesis using that(1) 3 Some by (simp add: a answered_success_def answered_pending_def)
    qed
  qed
qed
definition same_money :: "refund_db \<Rightarrow> refund_db \<Rightarrow> bool" where
  "same_money s t \<longleftrightarrow> refund_users t = refund_users s \<and> provider_book t = provider_book s"

lemma now_runs [simp]: "run_prog refund_now c s = (clock (gate s), s)"
  by (simp add: refund_now_def run_on_gate time_now_def)

lemma audit_ends:
  assumes "fair_weather c"
  shows "\<exists>t. run_prog (ignoring (writeRefundAudit i a) (Ret r)) c s = (r, t) \<and> same_but_log s t"
  using audit_runs [OF assms] by simp

lemma ok_runs:
  assumes "fair_weather c" "refund_status_of (OrderID q) s \<noteq> None"
  shows "\<exists>t. run_prog (markRefundOk q) c s = (Inr (success_result q), t) \<and> same_money s t \<and>
     refund_status_of (OrderID q) t = Some (if RefundAmount q < order_amount (plan_order q) then OrderStatusPartiallyRefunded
       else OrderStatusRefunded) \<and> refund_amount (refund_cols t (OrderID q)) = RefundAmount q"
proof -
  let ?st = "if RefundAmount q < order_amount (plan_order q) then OrderStatusPartiallyRefunded else OrderStatusRefunded"
  obtain t where t: "run_prog (rsql (update_one_refund (OrderID q) (refunded_row q) (refunded_cols q (clock (gate s))))) c s = (Inr (), t)"
    "refund_status_of (OrderID q) t = Some ?st" "refund_users t = refund_users s" "provider_book t = provider_book s"
    "refund_cols t = (refund_cols s)(OrderID q := refunded_cols q (clock (gate s)) (refund_cols s (OrderID q)))"
    using owner_write_runs [OF assms, of "refunded_row q" ?st "refunded_cols q (clock (gate s))"] by (auto simp: refunded_row_def)
  obtain u where u: "run_prog (ignoring (writeRefundAudit (OrderID q) ''REFUND_SUCCESS'') (Ret (Inr (success_result q)))) c t =
      (Inr (success_result q) :: go_error + RefundResult, u)" "same_but_log t u"
    using audit_ends [OF assms(1), of "OrderID q" "''REFUND_SUCCESS''" "Inr (success_result q) :: go_error + RefundResult" t] by blast
  show ?thesis
    using t same_but_log_fields [OF u(2)] u(1) by (simp add: markRefundOk_def same_money_def refunded_cols_def)
qed

lemma fail_runs:
  assumes "fair_weather c" "balance_plan q"
    "refund_users s (order_user (plan_order q)) = Some u" "refund_status_of (OrderID q) s \<noteq> None"
  shows "\<exists>t res. run_prog (handleGwFail L q e) c s = (Inr res, t) \<and> \<not> result_success res \<and> provider_book t = provider_book s \<and>
     refund_users t = (refund_users s)(order_user (plan_order q) \<mapsto>
       u\<lparr>balance := balance u + BalanceToDeduct q, total_recharged := total_recharged u + BalanceToDeduct q\<rparr>) \<and>
     refund_status_of (OrderID q) t = Some (if order_status (plan_order q) = OrderStatusRefundRequested
       then OrderStatusRefundRequested else OrderStatusCompleted)"
proof -
  let ?st = "if order_status (plan_order q) = OrderStatusRefundRequested then OrderStatusRefundRequested else OrderStatusCompleted"
  obtain s1 where s1: "run_prog (RollbackRefund (cal L) q) c s = (True, s1)"
    "refund_users s1 = (refund_users s)(order_user (plan_order q) \<mapsto>
       u\<lparr>balance := balance u + BalanceToDeduct q, total_recharged := total_recharged u + BalanceToDeduct q\<rparr>)"
    "refund_status_of (OrderID q) s1 = refund_status_of (OrderID q) s" "provider_book s1 = provider_book s"
    using rollback_runs [OF assms(1-3)] by blast
  have here: "refund_status_of (OrderID q) s1 \<noteq> None" using s1(3) assms(4) by simp
  obtain s2 where s2: "run_prog (restoreStatus q) c s1 = (Inr (), s2)"
    "refund_status_of (OrderID q) s2 = Some ?st" "refund_users s2 = refund_users s1" "provider_book s2 = provider_book s1"
    using owner_write_runs [OF assms(1) here, of "\<lambda>r. r\<lparr>order_status := ?st\<rparr>" ?st id] by (auto simp: restoreStatus_def)
  let ?r = "Inr (failed_result (''gateway failed: '' @ psErrMsg L (Some e) @ '', rolled back'') False) :: go_error + RefundResult"
  obtain s3 where s3: "run_prog (ignoring (writeRefundAudit (OrderID q) ''REFUND_GATEWAY_FAILED'') (Ret ?r)) c s2 = (?r, s3)"
    "same_but_log s2 s3"
    using audit_ends [OF assms(1), of "OrderID q" "''REFUND_GATEWAY_FAILED''" ?r s2] by blast
  show ?thesis
    using s1 s2 s3(1) same_but_log_fields [OF s3(2)] by (simp add: handleGwFail_def failed_result_def)
qed

lemma pending_runs:
  assumes "fair_weather c" "balance_plan q"
    "refund_users s (order_user (plan_order q)) = Some u" "refund_status_of (OrderID q) s \<noteq> None"
  shows "\<exists>t res. run_prog (markRefundPending C q r) c s = (Inr res, t) \<and> \<not> result_success res \<and> provider_book t = provider_book s \<and>
     refund_users t = (refund_users s)(order_user (plan_order q) \<mapsto>
       u\<lparr>balance := balance u + BalanceToDeduct q, total_recharged := total_recharged u + BalanceToDeduct q\<rparr>) \<and>
     refund_status_of (OrderID q) t = Some OrderStatusRefundPending"
proof -
  obtain s1 where s1: "run_prog (RollbackRefund C q) c s = (True, s1)"
    "refund_users s1 = (refund_users s)(order_user (plan_order q) \<mapsto>
       u\<lparr>balance := balance u + BalanceToDeduct q, total_recharged := total_recharged u + BalanceToDeduct q\<rparr>)"
    "refund_status_of (OrderID q) s1 = refund_status_of (OrderID q) s" "provider_book s1 = provider_book s"
    using rollback_runs [OF assms(1-3)] by blast
  have here: "refund_status_of (OrderID q) s1 \<noteq> None" using s1(3) assms(4) by simp
  let ?f = "\<lambda>r. r\<lparr>order_status := OrderStatusRefundPending, failed_at := None, failed_reason := None\<rparr>"
  let ?g = "\<lambda>k. k\<lparr>refund_amount := RefundAmount q, refund_reason := Some (plan_reason q), refund_at := None, force_refund := plan_force q\<rparr>"
  obtain s2 where s2: "run_prog (rsql (update_one_refund (OrderID q) ?f ?g)) c s1 = (Inr (), s2)"
    "refund_status_of (OrderID q) s2 = Some OrderStatusRefundPending" "refund_users s2 = refund_users s1"
    "provider_book s2 = provider_book s1"
    using owner_write_runs [OF assms(1) here, of ?f OrderStatusRefundPending ?g] by auto
  note logged = same_but_log_fields [OF pending_audit_runs [OF assms(1), of s2 "OrderID q" "refundResponseID (Some r)" True]]
  show ?thesis
    using s1 s2 logged by (simp add: markRefundPending_def failed_result_def)
qed

lemma execute_settles:
  assumes "refund_ready L p c s u"
  shows "\<exists>t res. run_prog (ExecuteRefund L p) c s = (Inr res, t) \<and>
     result_success res = answered_success (provider_refund c) \<and>
     refund_users t = (refund_users s)(order_user (plan_order p) \<mapsto> outcome_user p (provider_refund c) u) \<and>
     refund_status_of (OrderID p) t = Some (outcome_status p (provider_refund c)) \<and>
     provider_book t = provider_book s @ [asked_of p c]"
proof -
  obtain st prov where ready: "fair_weather c" "refund_status_of (OrderID p) s = Some st" "st \<in> set refundable_statuses"
    "balance_plan p" "refund_users s (order_user (plan_order p)) = Some u"
    "(OrderID p, ''REFUND_ROLLBACK_FAILED'') \<notin> set (audit_logs (gate s))" "payment_trade_no (plan_order p) \<noteq> ''''"
    "fst (run_prog (getRefundProvider L (plan_order p) (plan_cols p)) c s) = Inr prov"
    "validateProviderSnapshotMetadata L (plan_order p) (refund_provider_key prov) (merchant_metadata prov) = None"
    using assms unfolding refund_ready_def by blast
  let ?w = "order_user (plan_order p)" let ?d = "deductible p u" let ?q = "p\<lparr>BalanceToDeduct := ?d\<rparr>"
  obtain n s1 where s1: "run_prog (rsql (claim_refund (OrderID p))) c s = (Inr n, s1)" "0 < n"
    "refund_status_of (OrderID p) s1 = Some OrderStatusRefunding" "refund_users s1 = refund_users s"
    "provider_book s1 = provider_book s" "instances s1 = instances s" "audit_logs (gate s1) = audit_logs (gate s)"
    using claim_runs [OF ready(1,2,3)] by blast
  have u1: "refund_users s1 ?w = Some u" "(OrderID p, ''REFUND_ROLLBACK_FAILED'') \<notin> set (audit_logs (gate s1))"
    using s1 ready by simp_all
  obtain s2 where s2: "run_prog (deduct_balance p) c s1 = (Inr ?q, s2)"
    "refund_users s2 = (refund_users s1)(?w \<mapsto> u\<lparr>balance := balance u - ?d\<rparr>)"
    "refund_status_of (OrderID p) s2 = refund_status_of (OrderID p) s1" "provider_book s2 = provider_book s1"
    "instances s2 = instances s1"
    using deduct_runs [OF ready(1,4) u1] by blast
  have "fst (run_prog (getRefundProvider L (plan_order ?q) (plan_cols ?q)) c s2) = Inr prov"
    using provider_runs [OF ready(1), of s2 s L "plan_order p" "plan_cols p"] ready(8) s1(6) s2(5) by simp
  then have gw: "run_prog (gwRefund L ?q) c s2 =
      (gateway_result (provider_refund c), s2\<lparr>provider_book := provider_book s2 @ [asked_of p c]\<rparr>)"
    using gateway_runs [OF ready(1), of ?q L s2 prov] ready(7,9) by (simp add: asked_of_def)
  define s3 where "s3 = s2\<lparr>provider_book := provider_book s2 @ [asked_of p c]\<rparr>"
  have run: "run_prog (ExecuteRefund L p) c s = (case gateway_result (provider_refund c) of
       Inl e \<Rightarrow> run_prog (handleGwFail L ?q e) c s3 | Inr r \<Rightarrow> run_prog (finishRefund L ?q r) c s3)"
    using s1(1,2) s2(1) no_days [OF ready(4), of "cal L" ?d c s2] gw by (simp add: ExecuteRefund_def s3_def split: sum.split)
  have q: "balance_plan ?q" "OrderID ?q = OrderID p" "plan_order ?q = plan_order p"
    using ready(4) by (auto simp: balance_plan_def deductible_def)
  have s3: "refund_users s3 (order_user (plan_order ?q)) = Some (u\<lparr>balance := balance u - ?d\<rparr>)"
    "refund_status_of (OrderID ?q) s3 \<noteq> None" "provider_book s3 = provider_book s @ [asked_of p c]"
    "refund_users s3 = (refund_users s)(?w \<mapsto> u\<lparr>balance := balance u - ?d\<rparr>)"
    using s1 s2 by (simp_all add: s3_def refund_users_def refund_status_of_def)
  show ?thesis
  proof (rule gateway_classes [of "provider_refund c"])
    fix e assume "gateway_result (provider_refund c) = Inl e" "\<not> answered_success (provider_refund c)"
      "\<not> answered_pending (provider_refund c)"
    then show ?thesis
      using fail_runs [OF ready(1) q(1) s3(1,2), of L e] run s3(3,4) by (auto simp: outcome_user_def outcome_status_def)
  next
    fix r assume "gateway_result (provider_refund c) = Inr r" "answered_success (provider_refund c)"
      "\<not> answered_pending (provider_refund c)"
      "trim_space (refund_status r) = ProviderStatusSuccess \<or> trim_space (refund_status r) = ProviderStatusRefunded"
    moreover from this have "run_prog (finishRefund L ?q r) c s3 = run_prog (markRefundOk ?q) c s3"
      by (auto simp: finishRefund_def validateRefundProviderResponse_def)
    ultimately show ?thesis
      using ok_runs [OF ready(1) s3(2)] run s3(3,4) by (auto simp: outcome_user_def outcome_status_def success_result_def same_money_def)
  next
    fix r assume "gateway_result (provider_refund c) = Inr r" "\<not> answered_success (provider_refund c)"
      "answered_pending (provider_refund c)" "trim_space (refund_status r) = ProviderStatusPending"
    moreover from this have "run_prog (finishRefund L ?q r) c s3 = run_prog (markRefundPending (cal L) ?q r) c s3"
      by (simp add: finishRefund_def validateRefundProviderResponse_def)
    ultimately show ?thesis
      using pending_runs [OF ready(1) q(1) s3(1,2), of "cal L" r] run s3(3,4)
      by (auto simp: outcome_user_def outcome_status_def)
  qed
qed

subsection \<open>A shop that refunds\<close>

definition refund_order :: payment_order where
  "refund_order = shop_order\<lparr>order_status := OrderStatusCompleted, payment_trade_no := ''T1'', provider_snapshot := []\<rparr>"

definition shop_columns :: refund_columns where
  "shop_columns = \<lparr>provider_instance_id = Some ''3'', refund_amount = 0, refund_reason = None, refund_request_reason = None,
     refund_requested_at = None, refund_requested_by = None, refund_at = None, force_refund = False\<rparr>"

definition shop_instance :: provider_instance where
  "shop_instance = \<lparr>instance_provider_key = ''alipay'', allow_user_refund = True, refund_enabled = True\<rparr>"

definition refund_shop :: refund_db where
  "refund_shop = \<lparr>gate = shop_db\<lparr>orders := [refund_order], next_order_id := 8, users := [1 \<mapsto> shop_user\<lparr>balance := 15\<rparr>]\<rparr>,
     refund_cols = (\<lambda>_. shop_columns), instances = [3 \<mapsto> shop_instance], pending_details = Map.empty, provider_book = []\<rparr>"

definition answering :: "refund_answer \<Rightarrow> go_error + RefundResponse option \<Rightarrow> refund_chance" where
  "answering a q = \<lparr>gate_chance = fair_chance, provider_made = Inr \<lparr>refund_provider_key = ''alipay'', merchant_metadata = [],
     can_query_refund = True\<rparr>, provider_refund = a, provider_query = q, cached_subscription = None, cache_invalidation = None\<rparr>"

definition saying :: "string \<Rightarrow> RefundResponse" where
  "saying st = \<lparr>refund_id = ''R1'', refund_status = st\<rparr>"

definition says_yes :: refund_answer where "says_yes = (Some (saying ''success''), None)"

lemma shop_trims: "trim_space ''3'' = ''3''" "trim_space ''success'' = ''success''" "trim_space ''failed'' = ''failed''"
  "trim_space ''x'' = ''x''" "trim_space ''CNY'' = ''CNY''" "trim_space ''pending'' = ''pending''"
  by (rule trim_space_plain; simp add: plain_char_def)+

lemma shop_three: "parse_int64 ''3'' = Some 3"
  by code_simp

lemma shop_yes [simp]: "answered_success says_yes" "\<not> answered_pending says_yes"
  by (simp_all add: answered_success_def answered_pending_def says_yes_def saying_def shop_trims provider_status_defs)

lemma refund_order_fields [simp]: "order_id refund_order = 7" "order_user refund_order = 1" "order_type refund_order = ''balance''"
  "order_amount refund_order = 20" "pay_amount refund_order = 10" "order_status refund_order = OrderStatusCompleted"
  "payment_trade_no refund_order = ''T1''" "provider_snapshot refund_order = []"
  by (simp_all add: refund_order_def)

lemma fair_answering [simp]: "fair_weather (answering a q)" "gate_chance (answering a q) = fair_chance"
  "provider_refund (answering a q) = a" "provider_query (answering a q) = q"
  by (simp_all add: fair_weather_def answering_def)

definition shop_provider :: refund_provider where
  "shop_provider = \<lparr>refund_provider_key = ''alipay'', merchant_metadata = [], can_query_refund = True\<rparr>"

lemma no_snapshot: "provider_snapshot r = [] \<Longrightarrow> psOrderProviderSnapshot r = None"
  by (simp add: psOrderProviderSnapshot_def Let_def)

lemma shop_instance_runs:
  assumes "instances s = [3 \<mapsto> shop_instance]" "provider_snapshot r = []" "provider_instance_id k = Some ''3''"
  shows "run_prog (getRefundOrderProviderInstance shop_lib r k) (answering a q) s = (Inr (Some shop_instance), s)"
  using assms by (simp add: getRefundOrderProviderInstance_def no_snapshot psStringValue_def shop_trims shop_three run_rsql
      find_instance_def)

lemma shop_provider_runs:
  assumes "instances s = [3 \<mapsto> shop_instance]" "provider_snapshot r = []" "provider_instance_id k = Some ''3''"
  shows "run_prog (getRefundProvider shop_lib r k) (answering a q) s = (Inr shop_provider, s)"
  using shop_instance_runs [OF assms] by (simp add: getRefundProvider_def createProviderFromInstance_def)
    (simp add: answering_def shop_provider_def)

lemma shop_metadata: "validateProviderSnapshotMetadata L r (refund_provider_key shop_provider) (merchant_metadata shop_provider) = None"
  by (simp add: validateProviderSnapshotMetadata_def shop_provider_def)

definition shop_plan :: RefundPlan where
  "shop_plan = \<lparr>OrderID = 7, plan_order = refund_order, plan_cols = shop_columns, RefundAmount = 20, GatewayAmount = 10,
     plan_reason = ''x'', plan_force = True, DeductBalance = True, DeductionType = DeductionTypeBalance, BalanceToDeduct = 15,
     SubDaysToDeduct = 0, plan_subscription = 0\<rparr>"

lemma shop_plan_fields [simp]: "OrderID shop_plan = 7" "plan_order shop_plan = refund_order" "plan_cols shop_plan = shop_columns"
  "RefundAmount shop_plan = 20" "GatewayAmount shop_plan = 10" "DeductionType shop_plan = DeductionTypeBalance"
  "BalanceToDeduct shop_plan = 15"
  by (simp_all add: shop_plan_def)

lemma shop_plan_balance [simp]: "balance_plan shop_plan"
  by (simp add: balance_plan_def)

lemma refund_shop_fields [simp]: "instances refund_shop = [3 \<mapsto> shop_instance]" "refund_cols refund_shop i = shop_columns"
  "provider_book refund_shop = []" "orders (gate refund_shop) = [refund_order]" "next_order_id (gate refund_shop) = 8"
  "refund_users refund_shop = [1 \<mapsto> shop_user\<lparr>balance := 15\<rparr>]" "users (gate refund_shop) = [1 \<mapsto> shop_user\<lparr>balance := 15\<rparr>]"
  "audit_logs (gate refund_shop) = []"
  by (simp_all add: refund_shop_def refund_users_def)

lemma refundable_completed [simp]: "OrderStatusCompleted \<in> set refundable_statuses" "OrderStatusRefundPending \<in> set refundable_statuses"
  "OrderStatusRefundFailed \<in> set refundable_statuses"
  by (simp_all add: refundable_statuses_def)

lemma shop_ready: "refund_ready shop_lib shop_plan (answering a q) refund_shop (shop_user\<lparr>balance := 15\<rparr>)"
proof -
  have "provider_instance_id shop_columns = Some ''3''" by (simp add: shop_columns_def)
  then have "fst (run_prog (getRefundProvider shop_lib refund_order shop_columns) (answering a q) refund_shop) = Inr shop_provider"
    by (simp add: shop_provider_runs)
  then show ?thesis
    using shop_metadata by (auto simp: refund_ready_def refund_status_of_def order_status_of_def)
qed


lemma shop_currency [simp]: "NormalizePaymentCurrency shop_lib ''CNY'' = Some ''CNY''"
  by (simp add: NormalizePaymentCurrency_def shop_lib_def shop_trims)

lemma shop_amount: "calculateGatewayRefundAmount shop_lib 20 10 20 ''CNY'' = 10"
  by (simp add: calculateGatewayRefundAmount_def CurrencyMaxFractionDigits_def zero_decimal_currencies_def
      three_decimal_currencies_def paymentAmountToleranceForCurrency_def CurrencyMinorUnit_def decimal_round_def)

lemma shop_prepares:
  "run_prog (PrepareRefund shop_lib 7 (Some 20) ''x'' True True) (answering a q) refund_shop = (Inr (Inr shop_plan), refund_shop)"
proof -
  have tol: "0 \<le> paymentAmountToleranceForCurrency shop_lib cur" for cur by (rule tolerance_nonneg)
  have "run_prog (prepDeduct refund_order p True) (answering a q) refund_shop =
     (Inr (p\<lparr>DeductionType := DeductionTypeBalance, BalanceToDeduct := 15\<rparr>), refund_shop)" if "RefundAmount p = 20" for p
    using that by (simp add: prepDeduct_def OrderTypeSubscription_def run_gate_sql find_user_def min_def max_def)
  moreover have "run_prog (refund_order_by_id 7) (answering a q) refund_shop = (Inr (refund_order, shop_columns), refund_shop)"
    by (simp add: refund_order_by_id_def run_rsql find_order_def)
  ultimately show ?thesis
    using shop_instance_runs [of refund_shop refund_order shop_columns a q] tol [of "''CNY''"]
    by (simp add: PrepareRefund_def shop_columns_def [of] shop_trims PaymentOrderCurrency_def no_snapshot
        DefaultPaymentCurrency_def shop_amount shop_plan_def Let_def shop_instance_def not_less)
qed
lemma shop_starts: "refund_start 7 refund_shop"
  by (simp add: refund_start_def rows_ok_def order_status_of_def successes_def)

lemma shop_refund_reached:
  "\<exists>T. pool_reach (refund_request shop_lib 7) refund_env (refund_start 7) T \<and> successes 7 (store T) = 1"
proof -
  let ?S = "\<lparr>store = refund_shop, procs = Map.empty\<rparr> :: (refund_chance, refund_db, unit) pool"
  let ?p = "ignoring (ProcessRefund shop_lib 7 (Some 20) ''x'' True True) (Ret ()) :: unit refund"
  let ?c = "answering says_yes (Inr None)"
  have "refund_request shop_lib 7 ?p" unfolding refund_request_def by blast
  with pool_runs_prog [of ?S 0 "refund_request shop_lib 7" ?p refund_env ?c]
  obtain T where T: "(pool_step (refund_request shop_lib 7) refund_env)\<^sup>*\<^sup>* ?S T" "store T = snd (run_prog ?p ?c refund_shop)"
    by auto
  have "provider_book (snd (run_prog (ExecuteRefund shop_lib shop_plan) ?c refund_shop)) = [(7, 10, says_yes)]"
    using execute_settles [OF shop_ready, of says_yes "Inr None"] by (auto simp: asked_of_def)
  then have "successes 7 (store T) = 1"
    by (simp add: T(2) successes_def ProcessRefund_def shop_prepares)
  moreover have "pool_reach (refund_request shop_lib 7) refund_env (refund_start 7) ?S" by (rule pr_init) (rule shop_starts)
  ultimately show ?thesis using pool_reach_steps T(1) by blast
qed

theorem refunded_once_witness:
  "\<exists>T. pool_reach (refund_request shop_lib 7) refund_env (refund_start 7) T \<and> successes 7 (store T) = 1 \<and>
     order_status_of 7 (gate (store T)) \<in> Some ` {OrderStatusRefunding, OrderStatusPartiallyRefunded, OrderStatusRefunded}"
proof -
  obtain T where T: "pool_reach (refund_request shop_lib 7) refund_env (refund_start 7) T" "successes 7 (store T) = 1"
    using shop_refund_reached by blast
  show ?thesis using refunded_once [OF T(1)] T by auto
qed

subsection \<open>Where the refund code goes wrong\<close>

lemma missing_row: "order_status_of i s \<noteq> None \<Longrightarrow> \<exists>r. find_order (\<lambda>r. order_id r = i) s = (Inr r, s) \<and> order_status_of i s = Some (order_status r)"
  by (auto simp: order_status_of_def find_order_def)

text \<open>
  A refund that is pending at the provider and is tried again: when the repetition fails, the order is completed again, as
  if no refund were under way, and the pending one can no longer be finalised, although the provider may still pay it.
\<close>

theorem pending_forgotten:
  assumes "refund_ready L p c s u" "order_status (plan_order p) = OrderStatusRefundPending"
    and "\<not> answered_success (provider_refund c)" "\<not> answered_pending (provider_refund c)" "fair_weather d"
  shows "\<exists>t res. run_prog (ExecuteRefund L p) c s = (Inr res, t) \<and> refund_status_of (OrderID p) t = Some OrderStatusCompleted \<and>
     run_prog (QueryAndFinalizeRefund L (OrderID p)) d t =
       (Inl (BadRequest ''INVALID_STATUS'' ''only refund pending orders can be finalized''), t)"
proof -
  obtain t res where run: "run_prog (ExecuteRefund L p) c s = (Inr res, t)"
    and st: "refund_status_of (OrderID p) t = Some (outcome_status p (provider_refund c))"
    using execute_settles [OF assms(1)] by blast
  have "OrderStatusRefundPending \<noteq> OrderStatusRefundRequested" by (simp add: order_status_defs)
  then have finished: "refund_status_of (OrderID p) t = Some OrderStatusCompleted"
    using st assms(2-4) by (simp add: outcome_status_def)
  then obtain r where r: "find_order (\<lambda>r. order_id r = OrderID p) (gate t) = (Inr r, gate t)" "order_status r = OrderStatusCompleted"
    using missing_row [of "OrderID p" "gate t"] by (auto simp: refund_status_of_def)
  have "run_prog (refund_order_by_id (OrderID p)) d t = (Inr (r, refund_cols t (OrderID p)), t)"
    by (simp add: refund_order_by_id_def run_rsql [OF assms(5)] r(1))
  moreover have "OrderStatusCompleted \<noteq> OrderStatusRefundPending" by (simp add: order_status_defs)
  ultimately have "run_prog (QueryAndFinalizeRefund L (OrderID p)) d t =
       (Inl (BadRequest ''INVALID_STATUS'' ''only refund pending orders can be finalized''), t)"
    using r(2) by (simp add: QueryAndFinalizeRefund_def)
  then show ?thesis using run finished by blast
qed
subsection \<open>Finalising a pending refund\<close>

definition pending_ready ::
  "pay_lib \<Rightarrow> int \<Rightarrow> refund_chance \<Rightarrow> refund_db \<Rightarrow> payment_order \<Rightarrow> user_row \<Rightarrow> string \<times> bool \<Rightarrow> bool" where
  "pending_ready L i c s r u detail \<longleftrightarrow> fair_weather c \<and>
     List.find (\<lambda>r. order_id r = i) (orders (gate s)) = Some r \<and> order_status r = OrderStatusRefundPending \<and>
     order_type r = OrderTypeBalance \<and> 0 < refund_amount (refund_cols s i) \<and> users (gate s) (order_user r) = Some u \<and>
     (i, ''REFUND_SUCCESS'') \<notin> set (audit_logs (gate s)) \<and> pending_details s i = Some detail \<and>
     (\<exists>prov. fst (run_prog (getRefundProvider L r (refund_cols s i)) c s) = Inr prov \<and> can_query_refund prov) \<and>
     (\<exists>resp. provider_query c = Inr (Some resp) \<and>
        (trim_space (refund_status resp) = ProviderStatusSuccess \<or> trim_space (refund_status resp) = ProviderStatusRefunded))"

text \<open>What the finalisation of a pending refund takes from a balance: the amount of the refund, when the deduction had been
  rolled back, whether or not a deduction was asked for.\<close>

definition final_deduction :: "usd \<Rightarrow> bool \<Rightarrow> user_row \<Rightarrow> usd" where
  "final_deduction a rolledBack u = (if rolledBack then min a (max (balance u) 0) else 0)"

lemma balance_not_subscription: "OrderTypeBalance \<noteq> OrderTypeSubscription"
  by (simp add: OrderTypeBalance_def OrderTypeSubscription_def)

text \<open>No row of the order is pending any more: whoever still means to finalise its refund comes too late.\<close>

definition none_pending :: "int \<Rightarrow> refund_db \<Rightarrow> bool" where
  "none_pending i s \<longleftrightarrow> (\<forall>r\<in>set (orders (gate s)). order_id r = i \<longrightarrow> order_status r \<noteq> OrderStatusRefundPending)"

lemma finalize_too_late:
  assumes "none_pending (OrderID p) s"
  shows "\<exists>e. run_prog (finalizePendingRefundSuccess C p) c s = (Inl e, s)"
proof -
  let ?c = "c\<lparr>gate_chance := (gate_chance c)\<lparr>weather := Fair\<rparr>\<rparr>"
  let ?cond = "\<lambda>r. order_status r = OrderStatusRefundPending"
  have fair: "fair_weather ?c" by (simp add: fair_weather_def)
  have "filter (\<lambda>r. order_id r = OrderID p \<and> ?cond r) (orders (gate s)) = []"
    using assms by (auto simp: none_pending_def filter_empty_conv)
  moreover have "map (\<lambda>r. if order_id r = OrderID p \<and> ?cond r then f r else r) (orders (gate s)) = orders (gate s)" for f
    using assms by (intro map_idI) (auto simp: none_pending_def)
  ultimately have "run_prog (rsql (update_refund (OrderID p) ?cond (\<lambda>r. r\<lparr>order_status := OrderStatusRefunding\<rparr>) id)) ?c s = (Inr 0, s)"
    by (simp add: run_rsql [OF fair] update_refund_def update_order_def Let_def)
  then show ?thesis
    by (simp add: finalizePendingRefundSuccess_def in_tx_def under_weather_def split: weather.split)
qed

lemma query_too_late:
  assumes "none_pending i s"
  shows "\<exists>e. run_prog (QueryAndFinalizeRefund L i) c s = (Inl e, s)"
proof (cases "run_prog (refund_order_by_id i) c s")
  case (Pair res t)
  then have t: "t = s" and found: "\<And>r k. res = Inr (r, k) \<Longrightarrow> r \<in> set (orders (gate s)) \<and> order_id r = i"
    by (auto simp: refund_order_by_id_def rsql_def under_weather_def find_order_def find_Some_iff
        split: weather.splits option.splits)
  show ?thesis
  proof (cases res)
    case (Inl e)
    then show ?thesis by (simp add: QueryAndFinalizeRefund_def Pair t)
  next
    case (Inr rk)
    obtain r k where rk: "rk = (r, k)" by fastforce
    then have "order_status r \<noteq> OrderStatusRefundPending" using found Inr assms by (auto simp: none_pending_def)
    then show ?thesis by (simp add: QueryAndFinalizeRefund_def Pair t Inr rk)
  qed
qed

lemma finalize_runs:
  assumes c: "fair_weather c" and row: "List.find (\<lambda>r. order_id r = OrderID p) (orders (gate s)) = Some r"
      "order_status r = OrderStatusRefundPending" "plan_order p = r" and u: "users (gate s) (order_user r) = Some u"
    and log: "(OrderID p, ''REFUND_SUCCESS'') \<notin> set (audit_logs (gate s))"
    and p: "DeductionType p = DeductionTypeBalance" "0 \<le> BalanceToDeduct p"
  shows "\<exists>t. run_prog (finalizePendingRefundSuccess C p) c s = (Inr (success_result (p\<lparr>BalanceToDeduct := deductible p u\<rparr>)), t) \<and>
     users (gate t) = (users (gate s))(order_user r \<mapsto> u\<lparr>balance := balance u - deductible p u\<rparr>) \<and>
     order_status_of (OrderID p) (gate t) = Some (if RefundAmount p < order_amount r then OrderStatusPartiallyRefunded else OrderStatusRefunded) \<and>
     provider_book t = provider_book s \<and> none_pending (OrderID p) t"
proof -
  let ?c = "c\<lparr>gate_chance := (gate_chance c)\<lparr>weather := Fair\<rparr>\<rparr>"
  have fair: "fair_weather ?c" by (simp add: fair_weather_def)
  let ?i = "OrderID p" let ?d = "deductible p u" let ?q = "p\<lparr>BalanceToDeduct := ?d\<rparr>"
  have id: "order_id r = ?i" "r \<in> set (orders (gate s))" using find_row [OF row(1)] by simp_all
  let ?hit = "\<lambda>r. order_id r = ?i \<and> order_status r = OrderStatusRefundPending"
  let ?h = "\<lambda>r. if ?hit r then (touched (gate s) r)\<lparr>order_status := OrderStatusRefunding\<rparr> else r"
  let ?n = "length (filter ?hit (orders (gate s)))"
  have some: "0 < ?n" using id row(2) by (auto simp: filter_empty_conv)
  obtain s1 where s1: "run_prog (rsql (update_refund ?i (\<lambda>r. order_status r = OrderStatusRefundPending)
      (\<lambda>r. r\<lparr>order_status := OrderStatusRefunding\<rparr>) id)) ?c s = (Inr ?n, s1)"
    "gate s1 = (gate s)\<lparr>orders := map ?h (orders (gate s))\<rparr>" "provider_book s1 = provider_book s"
    by (simp add: run_rsql [OF fair] update_refund_def update_order_def Let_def)
  have "order_id (?h x) = order_id x" for x by (simp add: touched_def)
  then have here: "refund_status_of ?i s1 \<noteq> None"
    by (simp add: refund_status_of_def s1(2) order_status_of_def find_map row(1))
  have u1: "users (gate s1) (order_user r) = Some u" using u s1(2) by simp
  obtain s2 where s2: "run_prog (applyRefundFinalDeduction C p) ?c s1 = (Inr ?q, s2)"
    "users (gate s2) = (users (gate s1))(order_user r \<mapsto> u\<lparr>balance := balance u - ?d\<rparr>)" "orders (gate s2) = orders (gate s1)"
    "audit_logs (gate s2) = audit_logs (gate s1)" "provider_book s2 = provider_book s1"
  proof (cases "0 < BalanceToDeduct p")
    case True
    then show ?thesis
      using that p(1) u1 by (simp add: applyRefundFinalDeduction_def run_gate_sql [OF fair] DeductAvailableBalance_def row(3)
          deductible_def deduction_defs Let_def)
  next
    case False
    then have "?d = 0" "p\<lparr>BalanceToDeduct := 0\<rparr> = p" using p(2) by (simp_all add: deductible_def)
    then show ?thesis
      using that [of s1] False p(1) u1 by (simp add: applyRefundFinalDeduction_def deduction_defs fun_upd_idem)
  qed
  have "refund_status_of (OrderID ?q) s2 \<noteq> None" using here s2(3) by (simp add: refund_status_of_def order_status_of_def)
  from owner_write_runs [OF fair this, of "refunded_row ?q"
      "if RefundAmount p < order_amount r then OrderStatusPartiallyRefunded else OrderStatusRefunded"
      "refunded_cols ?q (clock (gate s2))"]
  obtain s3 where s3: "run_prog (rsql (update_one_refund ?i (refunded_row ?q) (refunded_cols ?q (clock (gate s2))))) ?c s2 = (Inr (), s3)"
    "refund_status_of ?i s3 = Some (if RefundAmount p < order_amount r then OrderStatusPartiallyRefunded else OrderStatusRefunded)"
    "refund_users s3 = refund_users s2" "provider_book s3 = provider_book s2"
    by (auto simp: refunded_row_def row(3))
  have "audit_logs (gate s3) = audit_logs (gate s2)"
    using s3(1) by (auto simp: run_rsql [OF fair] update_one_refund_def update_one_order_def split: if_splits)
  then have log3: "(?i, ''REFUND_SUCCESS'') \<notin> set (audit_logs (gate s3))" using log s1(2) s2(4) by simp
  define t where "t = s3\<lparr>gate := (gate s3)\<lparr>audit_logs := audit_logs (gate s3) @ [(?i, ''REFUND_SUCCESS'')]\<rparr>\<rparr>"
  have audit: "run_prog (writeRefundAudit ?i ''REFUND_SUCCESS'') ?c s3 = (Inr (), t)"
    using log3 by (simp add: writeRefundAudit_def writeAuditLog_def run_gate_sql [OF fair] insert_audit_def t_def)
  have inner: "run_prog (checked (rsql (update_refund ?i (\<lambda>r. order_status r = OrderStatusRefundPending)
              (\<lambda>r. r\<lparr>order_status := OrderStatusRefunding\<rparr>) id))
       (\<lambda>e. Ret (Inl (wrap ''claim pending refund'' e))) (\<lambda>claimed.
     if claimed = 0 then Ret (Inl (Conflict ''CONFLICT'' ''order status changed''))
     else checked (applyRefundFinalDeduction C p) (\<lambda>e. Ret (Inl e)) markRefundOkTx)) ?c s = (Inr (success_result ?q), t)"
    using s1(1) some s2(1) s3(1) audit by (simp add: markRefundOkTx_def)
  have run: "run_prog (finalizePendingRefundSuccess C p) c s = (Inr (success_result ?q), t)"
    using c unfolding finalizePendingRefundSuccess_def in_tx_def run_stmt
    by (simp only: fair_weather_def under_weather_def weather.case inner prod.case sum.case)
  have "none_pending ?i s3"
    using s3(1) by (auto simp: run_rsql [OF fair] update_one_refund_def update_one_order_def none_pending_def refunded_row_def
        order_status_defs split: if_splits)
  then have "none_pending ?i t" by (simp add: none_pending_def t_def)
  then show ?thesis
    using run s1 s2 s3 u1
    by (auto simp: t_def refund_users_def refund_status_of_def order_status_of_def)
qed

lemma query_runs:
  assumes "pending_ready L i c s r u (rid, rolledBack)"
  shows "\<exists>t res. run_prog (QueryAndFinalizeRefund L i) c s = (Inr res, t) \<and> result_success res \<and>
     users (gate t) = (users (gate s))(order_user r \<mapsto>
        u\<lparr>balance := balance u - final_deduction (refund_amount (refund_cols s i)) rolledBack u\<rparr>) \<and>
     order_status_of i (gate t) = Some (if refund_amount (refund_cols s i) < order_amount r then OrderStatusPartiallyRefunded
        else OrderStatusRefunded) \<and> provider_book t = provider_book s \<and> none_pending i t"
proof -
  obtain prov resp where ready: "fair_weather c" "List.find (\<lambda>r. order_id r = i) (orders (gate s)) = Some r"
    "order_status r = OrderStatusRefundPending" "order_type r = OrderTypeBalance" "0 < refund_amount (refund_cols s i)"
    "users (gate s) (order_user r) = Some u" "(i, ''REFUND_SUCCESS'') \<notin> set (audit_logs (gate s))"
    "pending_details s i = Some (rid, rolledBack)"
    "fst (run_prog (getRefundProvider L r (refund_cols s i)) c s) = Inr prov" "can_query_refund prov"
    "provider_query c = Inr (Some resp)"
    "trim_space (refund_status resp) = ProviderStatusSuccess \<or> trim_space (refund_status resp) = ProviderStatusRefunded"
    using assms unfolding pending_ready_def by blast
  have id: "order_id r = i" using find_row [OF ready(2)] by simp
  let ?plan = "refundFinalizePlan L r (refund_cols s i)"
  let ?p = "if rolledBack then ?plan else ?plan\<lparr>BalanceToDeduct := 0, SubDaysToDeduct := 0\<rparr>"
  have plan: "OrderID ?p = i" "plan_order ?p = r" "DeductionType ?p = DeductionTypeBalance" "0 \<le> BalanceToDeduct ?p"
    "RefundAmount ?p = refund_amount (refund_cols s i)"
    "deductible ?p u = final_deduction (refund_amount (refund_cols s i)) rolledBack u"
    using ready(4,5) by (simp_all add: refundFinalizePlan_def Let_def id deductible_def final_deduction_def)
  have rows: "List.find (\<lambda>r. order_id r = OrderID ?p) (orders (gate s)) = Some r" "plan_order ?p = r"
    "(OrderID ?p, ''REFUND_SUCCESS'') \<notin> set (audit_logs (gate s))"
    using ready(2,7) plan by simp_all
  obtain t where t: "run_prog (finalizePendingRefundSuccess (cal L) ?p) c s = (Inr (success_result (?p\<lparr>BalanceToDeduct := deductible ?p u\<rparr>)), t)"
     "users (gate t) = (users (gate s))(order_user r \<mapsto> u\<lparr>balance := balance u - deductible ?p u\<rparr>)"
     "order_status_of (OrderID ?p) (gate t) = Some (if RefundAmount ?p < order_amount r then OrderStatusPartiallyRefunded else OrderStatusRefunded)"
     "provider_book t = provider_book s" "none_pending (OrderID ?p) t"
    using finalize_runs [OF ready(1) rows(1) ready(3) rows(2) ready(6) rows(3) plan(3,4), of "cal L"] by blast
  have order: "run_prog (refund_order_by_id i) c s = (Inr (r, refund_cols s i), s)"
    by (simp add: refund_order_by_id_def run_rsql [OF ready(1)] find_order_def ready(2))
  have prov: "run_prog (getRefundProvider L r (refund_cols s i)) c s = (Inr prov, s)"
    using provider_runs [OF ready(1) refl, of L r "refund_cols s i" s] ready(9) by simp
  have detail: "run_prog (latestRefundPendingDetail i) c s = ((trim_space rid, rolledBack), s)"
    by (simp add: latestRefundPendingDetail_def run_rsql [OF ready(1)] ready(8))
  have query: "run_prog QueryRefund c s = (Inr (Some resp), s)" by (simp add: QueryRefund_def ready(11))
  have valid: "validateRefundProviderResponse (Some resp) = None"
    using ready(12) by (auto simp: validateRefundProviderResponse_def)
  have kind: "order_type r \<noteq> OrderTypeSubscription" using ready(4) balance_not_subscription by simp
  have "run_prog (QueryAndFinalizeRefund L i) c s = run_prog (finalizePendingRefundSuccess (cal L) ?p) c s"
    using ready(3,10,12) kind by (simp add: QueryAndFinalizeRefund_def order prov detail query valid Let_def)
  then show ?thesis using t plan by (simp add: success_result_def)
qed

text \<open>C15: A pending refund of a balance order that the provider confirms when it is asked again is finalised, once: the order is
  refunded, in part or in full, and the balance loses what is left of it up to the amount, whether or not the refund was asked
  for with a deduction, unless a deduction at the time of the refund was never rolled back. Nothing is asked of the provider but
  the state of the refund. Whoever read the order while it was pending and finalises it later, whatever his plan, and every
  later query are refused and change nothing, so that nothing is deducted twice.\<close>

theorem pending_refund_settles:
  assumes "pending_ready L i c s r u (rid, rolledBack)"
  shows "\<exists>t res. run_prog (QueryAndFinalizeRefund L i) c s = (Inr res, t) \<and> result_success res \<and>
     users (gate t) = (users (gate s))(order_user r \<mapsto>
        u\<lparr>balance := balance u - final_deduction (refund_amount (refund_cols s i)) rolledBack u\<rparr>) \<and>
     order_status_of i (gate t) = Some (if refund_amount (refund_cols s i) < order_amount r then OrderStatusPartiallyRefunded
        else OrderStatusRefunded) \<and> provider_book t = provider_book s \<and>
     (\<forall>C p d. OrderID p = i \<longrightarrow> (\<exists>e. run_prog (finalizePendingRefundSuccess C p) d t = (Inl e, t))) \<and>
     (\<forall>L' d. \<exists>e. run_prog (QueryAndFinalizeRefund L' i) d t = (Inl e, t))"
proof -
  obtain t res where t: "run_prog (QueryAndFinalizeRefund L i) c s = (Inr res, t)" "result_success res"
    "users (gate t) = (users (gate s))(order_user r \<mapsto>
        u\<lparr>balance := balance u - final_deduction (refund_amount (refund_cols s i)) rolledBack u\<rparr>)"
    "order_status_of i (gate t) = Some (if refund_amount (refund_cols s i) < order_amount r then OrderStatusPartiallyRefunded
        else OrderStatusRefunded)" "provider_book t = provider_book s" "none_pending i t"
    using query_runs [OF assms] by blast
  moreover have "\<exists>e. run_prog (finalizePendingRefundSuccess C p) d t = (Inl e, t)" if "OrderID p = i" for C p d
    by (rule finalize_too_late) (simp add: that t(6))
  moreover have "\<exists>e. run_prog (QueryAndFinalizeRefund L' i) d t = (Inl e, t)" for L' d by (rule query_too_late [OF t(6)])
  ultimately show ?thesis by blast
qed

definition pending_order :: payment_order where
  "pending_order = refund_order\<lparr>order_status := OrderStatusRefundPending\<rparr>"

definition pending_shop :: refund_db where
  "pending_shop = refund_shop\<lparr>gate := (gate refund_shop)\<lparr>orders := [pending_order]\<rparr>,
     refund_cols := (\<lambda>_. shop_columns\<lparr>refund_amount := 20\<rparr>), pending_details := [7 \<mapsto> (''R1'', True)]\<rparr>"

lemma pending_order_fields [simp]: "order_id pending_order = 7" "order_user pending_order = 1" "order_type pending_order = ''balance''"
  "order_amount pending_order = 20" "order_status pending_order = OrderStatusRefundPending" "payment_trade_no pending_order = ''T1''"
  "provider_snapshot pending_order = []" "pay_amount pending_order = 10"
  by (simp_all add: pending_order_def)

lemma pending_shop_fields [simp]: "orders (gate pending_shop) = [pending_order]" "instances pending_shop = [3 \<mapsto> shop_instance]"
  "users (gate pending_shop) = [1 \<mapsto> shop_user\<lparr>balance := 15\<rparr>]" "refund_cols pending_shop i = shop_columns\<lparr>refund_amount := 20\<rparr>"
  "audit_logs (gate pending_shop) = []" "pending_details pending_shop = [7 \<mapsto> (''R1'', True)]" "provider_book pending_shop = []"
  by (simp_all add: pending_shop_def)

lemma pending_shop_ready:
  "pending_ready shop_lib 7 (answering a (Inr (Some (saying ''success'')))) pending_shop pending_order (shop_user\<lparr>balance := 15\<rparr>) (''R1'', True)"
proof -
  have "run_prog (getRefundProvider shop_lib pending_order (shop_columns\<lparr>refund_amount := 20\<rparr>))
      (answering a (Inr (Some (saying ''success'')))) pending_shop = (Inr shop_provider, pending_shop)"
    by (rule shop_provider_runs) (simp_all add: shop_columns_def)
  then show ?thesis
    by (simp add: pending_ready_def OrderTypeBalance_def saying_def shop_trims provider_status_defs) (simp add: shop_provider_def)
qed

theorem pending_refund_settles_witness:
  "\<exists>t res. run_prog (QueryAndFinalizeRefund shop_lib 7) (answering says_yes (Inr (Some (saying ''success'')))) pending_shop = (Inr res, t) \<and>
     map_option balance (users (gate t) 1) = Some 0 \<and> order_status_of 7 (gate t) = Some OrderStatusRefunded \<and>
     (\<exists>e. run_prog (finalizePendingRefundSuccess (cal shop_lib) shop_plan) (answering says_yes (Inr None)) t = (Inl e, t))"
  using pending_refund_settles [OF pending_shop_ready, of says_yes] by (auto simp: final_deduction_def)
subsection \<open>A query that undoes a refund\<close>

definition stocked :: "refund_db \<Rightarrow> payment_order \<Rightarrow> bool" where
  "stocked s r \<longleftrightarrow> orders (gate s) = [r] \<and> order_id r = 7 \<and> order_amount r = 20 \<and> pay_amount r = 10 \<and> provider_snapshot r = [] \<and>
     payment_trade_no r = ''T1'' \<and> instances s = [3 \<mapsto> shop_instance] \<and> provider_instance_id (refund_cols s 7) = Some ''3''"

lemma stocked_log: "same_but_log s t \<Longrightarrow> stocked s r \<Longrightarrow> stocked t r \<and> provider_book t = provider_book s"
  by (auto simp: same_but_log_def stocked_def)

lemma answering_made: "provider_made (answering a q) = Inr shop_provider"
  by (simp add: answering_def shop_provider_def)

text \<open>A refund of the whole order, without deduction, that the provider confirms.\<close>

lemma wholly_refunded:
  assumes "stocked s r" "order_status r \<in> set refundable_statuses"
  shows "\<exists>r' t. snd (run_prog (ProcessRefund shop_lib 7 (Some 20) ''x'' True False) (answering says_yes q) s) = t \<and> stocked t r' \<and>
     order_status r' = OrderStatusRefunded \<and> provider_book t = provider_book s @ [(7, 10, says_yes)]"
proof -
  let ?c = "answering says_yes q"
  have s: "orders (gate s) = [r]" "order_id r = 7" "order_amount r = 20" "pay_amount r = 10" "provider_snapshot r = []"
    "payment_trade_no r = ''T1''" "instances s = [3 \<mapsto> shop_instance]" "provider_instance_id (refund_cols s 7) = Some ''3''"
    using assms(1) by (simp_all add: stocked_def)
  have order: "run_prog (refund_order_by_id 7) ?c s = (Inr (r, refund_cols s 7), s)"
    by (simp add: refund_order_by_id_def run_rsql find_order_def s(1,2))
  obtain p where prep: "run_prog (PrepareRefund shop_lib 7 (Some 20) ''x'' True False) ?c s = (Inr (Inr p), s)"
    and p: "OrderID p = 7" "plan_order p = r" "plan_cols p = refund_cols s 7" "RefundAmount p = 20" "GatewayAmount p = 10" "DeductionType p = DeductionTypeNone"
    using assms(2) shop_instance_runs [OF s(7,5,8), of says_yes q] tolerance_nonneg [of shop_lib "PaymentOrderCurrency shop_lib r"]
    by (simp add: PrepareRefund_def order s(3) shop_instance_def Let_def not_less PaymentOrderCurrency_def no_snapshot s(4,5)
        DefaultPaymentCurrency_def shop_amount)
  have claimed: "run_prog (rsql (claim_refund 7)) ?c s =
     (Inr 1, s\<lparr>gate := (gate s)\<lparr>orders := [(touched (gate s) r)\<lparr>order_status := OrderStatusRefunding\<rparr>]\<rparr>\<rparr>)" (is "_ = (_, ?s1)")
    using assms(2) by (simp add: run_rsql claim_refund_def update_refund_def update_order_def s(1,2) Let_def)
  have none: "run_prog (deduct_balance p) ?c u = (Inr p, u)" "run_prog (deduct_days C p) ?c u = (Inr p, u)" for u C
    using p(6) by (simp_all add: deduct_balance_def deduct_days_def deduction_defs)
  have prov: "run_prog (getRefundProvider shop_lib r (refund_cols s 7)) ?c ?s1 = (Inr shop_provider, ?s1)"
    by (rule shop_provider_runs) (simp_all add: s)
  have gw: "run_prog (gwRefund shop_lib p) ?c ?s1 = (gateway_result says_yes, ?s1\<lparr>provider_book := provider_book s @ [asked_of p ?c]\<rparr>)"
    (is "_ = (_, ?s2)")
    using gateway_runs [of ?c p shop_lib ?s1 shop_provider] prov shop_metadata p s(6) by simp
  have yes: "gateway_result says_yes = Inr (saying ''success'')"
    by (simp add: gateway_result_def says_yes_def validateRefundProviderResponse_def saying_def shop_trims provider_status_defs)
  have fin: "run_prog (finishRefund shop_lib p (saying ''success'')) ?c ?s2 = run_prog (markRefundOk p) ?c ?s2"
    by (simp add: finishRefund_def validateRefundProviderResponse_def saying_def shop_trims provider_status_defs)
  let ?r = "(touched (gate s) ((touched (gate s) r)\<lparr>order_status := OrderStatusRefunding\<rparr>))\<lparr>order_status := OrderStatusRefunded\<rparr>"
  obtain k s3 where s3: "run_prog (rsql (update_one_refund 7 (refunded_row p) (refunded_cols p (clock (gate ?s2))))) ?c ?s2 = (Inr (), s3)"
    "s3 = ?s2\<lparr>gate := (gate s)\<lparr>orders := [?r]\<rparr>, refund_cols := k\<rparr>" "provider_instance_id (k 7) = Some ''3''"
    by (simp add: run_rsql update_one_refund_def update_one_order_def refunded_row_def refunded_cols_def p s touched_def)
  have st3: "stocked s3 ?r" "provider_book s3 = provider_book s @ [(7, 10, says_yes)]"
    using s3(2,3) p s by (simp_all add: stocked_def touched_def asked_of_def)
  let ?t = "snd (run_prog (ProcessRefund shop_lib 7 (Some 20) ''x'' True False) ?c s)"
  have "?t = snd (run_prog (writeRefundAudit 7 ''REFUND_SUCCESS'') ?c s3)"
    by (simp add: ProcessRefund_def prep ExecuteRefund_def p(1) claimed none gw yes fin markRefundOk_def s3(1) del: run_rsql)
      (simp add: s3(1) [simplified])
  then have "same_but_log s3 ?t" using audit_runs [of ?c s3] by simp
  then have "stocked ?t ?r" "provider_book ?t = provider_book s @ [(7, 10, says_yes)]" using stocked_log st3 by simp_all
  then show ?thesis by (intro exI [of _ ?r] exI [of _ ?t]) simp
qed
text \<open>A program that runs alone for a while, up to what is left of it.\<close>

inductive leads_to :: "'c \<Rightarrow> 's \<Rightarrow> ('c, 's, 'a) prog \<Rightarrow> 's \<Rightarrow> ('c, 's, 'a) prog \<Rightarrow> bool" for c where
  leads_here: "leads_to c s p s p"
| leads_atom: "leads_to c (u c s) (n c s) t q \<Longrightarrow> leads_to c s (Atom u n) t q"

lemma leads_then: "run_prog p c s = (a, t) \<Longrightarrow> leads_to c t (k a) t' q \<Longrightarrow> leads_to c s (and_then p k) t' q"
  by (induction p arbitrary: s) (auto intro: leads_atom)

lemma leads_and_then:
  "run_prog p c s = (a, t) \<Longrightarrow> leads_to c t (and_then (k a) h) t' q \<Longrightarrow> leads_to c s (and_then (and_then p k) h) t' q"
  by (simp add: leads_then)

lemma leads_checked:
  "run_prog p c s = (Inr a, t) \<Longrightarrow> leads_to c t (and_then (k a) h) t' q \<Longrightarrow> leads_to c s (and_then (checked p f k) h) t' q"
  by (simp add: checked_def leads_then)

lemma pool_leads:
  assumes "leads_to c s p t q" "procs S i = Some p" "store S = s"
  shows "(pool_step may_start env)\<^sup>*\<^sup>* S (S\<lparr>store := t, procs := (procs S)(i \<mapsto> q)\<rparr>)"
  using assms
proof (induction arbitrary: S)
  case (leads_here s p)
  then show ?case by (cases S) (auto simp: fun_upd_idem)
next
  case (leads_atom u s n t q)
  let ?T = "S\<lparr>store := u c s, procs := (procs S)(i \<mapsto> n c s)\<rparr>"
  have "pool_step may_start env S ?T" using ps_atom [OF leads_atom.prems(1)] leads_atom.prems(2) by blast
  also have "(pool_step may_start env)\<^sup>*\<^sup>* ?T (?T\<lparr>store := t, procs := (procs ?T)(i \<mapsto> q)\<rparr>)"
    by (rule leads_atom.IH) simp_all
  finally show ?case by (simp add: fun_upd_def if_distrib cong: if_cong)
qed

text \<open>A query that was told the refund failed, just before it writes that down.\<close>

lemma query_leads:
  "\<exists>e. leads_to (answering says_yes (Inr (Some (saying ''failed'')))) pending_shop
     (ignoring (QueryAndFinalizeRefund shop_lib 7) (Ret ())) pending_shop
     (and_then (finalizeRefundFailed shop_lib pending_order e) (\<lambda>_. Ret ()))"
proof -
  let ?c = "answering says_yes (Inr (Some (saying ''failed'')))"
  let ?k = "shop_columns\<lparr>refund_amount := 20\<rparr>"
  have order: "run_prog (refund_order_by_id 7) ?c pending_shop = (Inr (pending_order, ?k), pending_shop)"
    by (simp add: refund_order_by_id_def run_rsql find_order_def)
  have prov: "run_prog (getRefundProvider shop_lib pending_order ?k) ?c pending_shop = (Inr shop_provider, pending_shop)"
    by (rule shop_provider_runs) (simp_all add: shop_columns_def)
  have detail: "run_prog (latestRefundPendingDetail 7) ?c pending_shop = ((trim_space ''R1'', True), pending_shop)"
    by (simp add: latestRefundPendingDetail_def run_rsql)
  have query: "run_prog QueryRefund ?c pending_shop = (Inr (Some (saying ''failed'')), pending_shop)"
    by (simp add: QueryRefund_def)
  obtain e where failed: "validateRefundProviderResponse (Some (saying ''failed'')) = Some e"
    by (simp add: validateRefundProviderResponse_def saying_def shop_trims provider_status_defs)
  have "leads_to ?c pending_shop (ignoring (QueryAndFinalizeRefund shop_lib 7) (Ret ())) pending_shop
     (and_then (finalizeRefundFailed shop_lib pending_order e) (\<lambda>_. Ret ()))"
    unfolding ignoring_def QueryAndFinalizeRefund_def
    by (rule leads_checked [OF order], simp del: and_then_assoc, rule leads_checked [OF prov],
        simp add: shop_provider_def del: and_then_assoc, rule leads_and_then [OF detail], simp del: and_then_assoc,
        rule leads_checked [OF query], simp add: failed, rule leads_here)
  then show ?thesis ..
qed
text \<open>The late write of a query, over whatever the order is by then.\<close>

lemma late_failure:
  assumes "stocked s r"
  shows "\<exists>r' t. snd (run_prog (finalizeRefundFailed shop_lib pending_order e) (answering a q) s) = t \<and> stocked t r' \<and>
     order_status r' = OrderStatusRefundFailed \<and> provider_book t = provider_book s"
proof -
  let ?c = "answering a q"
  have s: "orders (gate s) = [r]" "order_id r = 7" using assms by (simp_all add: stocked_def)
  let ?r = "(touched (gate s) r)\<lparr>order_status := OrderStatusRefundFailed, failed_at := Some (pg_time (clock (gate s))),
      failed_reason := Some (psErrMsg shop_lib (Some e))\<rparr>"
  let ?s1 = "s\<lparr>gate := (gate s)\<lparr>orders := [?r]\<rparr>\<rparr>"
  have st: "stocked ?s1 ?r" "provider_book ?s1 = provider_book s"
    using assms by (simp_all add: stocked_def touched_def)
  let ?t = "snd (run_prog (finalizeRefundFailed shop_lib pending_order e) ?c s)"
  have "?t = snd (run_prog (writeRefundAudit 7 ''REFUND_FAILED'') ?c ?s1)"
    by (simp add: finalizeRefundFailed_def mark_failed_refund_def run_rsql update_one_refund_def update_one_order_def s touched_def
        fun_upd_idem)
  then have "same_but_log ?s1 ?t" using audit_runs [of ?c ?s1] by simp
  then have "stocked ?t ?r" "provider_book ?t = provider_book s" using stocked_log [OF _ st(1)] st(2) by simp_all
  then show ?thesis by (intro exI [of _ ?r] exI [of _ ?t]) simp
qed

lemma stocked_status: "stocked s r \<Longrightarrow> order_status_of 7 (gate s) = Some (order_status r)"
  by (simp add: stocked_def order_status_of_def)

text \<open>C39: The provider can pay an order of ten back twice, because a query of a pending refund overwrites whatever has become of
  the order since it read it. In \<open>S\<close> an administrator's query (process 0), who saw the refund of the order pending and was
  told that it failed, has only its last statements left; another administrator has refunded the order in full meanwhile, and the
  provider has paid the ten. The query alone runs to \<open>T\<close>: the refunded order is one whose refund failed. So a third request
  refunds it in full once more, in \<open>U\<close>, and the provider pays another ten. This is why \<open>refunded_once\<close> leaves out
  queries of the order itself.\<close>

theorem query_undoes_claim:
  "\<exists>S T U e t. pool_reach (\<lambda>p. refund_request shop_lib 7 p \<or> p = ignoring (QueryAndFinalizeRefund shop_lib 7) (Ret ())) refund_env
       (\<lambda>s. s = pending_shop) S \<and>
     procs S 0 = Some (and_then (finalizeRefundFailed shop_lib pending_order e) (\<lambda>_. Ret ())) \<and>
     order_status_of 7 (gate (store S)) = Some OrderStatusRefunded \<and> provider_book (store S) = [(7, 10, says_yes)] \<and>
     T = S\<lparr>store := t, procs := (procs S)(0 \<mapsto> Ret ())\<rparr> \<and>
     (pool_step (\<lambda>p. refund_request shop_lib 7 p \<or> p = ignoring (QueryAndFinalizeRefund shop_lib 7) (Ret ())) refund_env)\<^sup>*\<^sup>* S T \<and>
     order_status_of 7 (gate t) = Some OrderStatusRefundFailed \<and> provider_book t = [(7, 10, says_yes)] \<and>
     (pool_step (\<lambda>p. refund_request shop_lib 7 p \<or> p = ignoring (QueryAndFinalizeRefund shop_lib 7) (Ret ())) refund_env)\<^sup>*\<^sup>* T U \<and>
     order_status_of 7 (gate (store U)) = Some OrderStatusRefunded \<and>
     provider_book (store U) = [(7, 10, says_yes), (7, 10, says_yes)] \<and>
     orders (gate pending_shop) = [pending_order] \<and> pay_amount pending_order = 10 \<and> refund_start 7 pending_shop"
proof -
  let ?start = "\<lambda>p. refund_request shop_lib 7 p \<or> p = ignoring (QueryAndFinalizeRefund shop_lib 7) (Ret ())"
  let ?steps = "(pool_step ?start refund_env)\<^sup>*\<^sup>*"
  let ?refund = "ignoring (ProcessRefund shop_lib 7 (Some 20) ''x'' True False) (Ret ()) :: unit refund"
  let ?query = "ignoring (QueryAndFinalizeRefund shop_lib 7) (Ret ()) :: unit refund"
  let ?c = "answering says_yes (Inr None)"
  let ?S0 = "\<lparr>store = pending_shop, procs = Map.empty\<rparr> :: (refund_chance, refund_db, unit) pool"
  have may: "?start ?refund" unfolding refund_request_def by blast
  have shop: "stocked pending_shop pending_order" by (simp add: stocked_def shop_columns_def)
  have start: "pool_reach ?start refund_env (\<lambda>s. s = pending_shop) ?S0" by (rule pr_init) (rule refl)
  have started: "?steps ?S0 (?S0\<lparr>procs := [0 \<mapsto> ?query]\<rparr>)"
    using ps_start [of ?S0 0 ?start ?query refund_env] by (intro r_into_rtranclp) simp
  obtain e where "leads_to (answering says_yes (Inr (Some (saying ''failed'')))) pending_shop ?query pending_shop
      (and_then (finalizeRefundFailed shop_lib pending_order e) (\<lambda>_. Ret ()))" (is "leads_to _ _ _ _ ?rest")
    using query_leads by blast
  from pool_leads [OF this, of "?S0\<lparr>procs := [0 \<mapsto> ?query]\<rparr>" 0]
  have asked: "?steps (?S0\<lparr>procs := [0 \<mapsto> ?query]\<rparr>) (?S0\<lparr>procs := [0 \<mapsto> ?rest]\<rparr>)" by simp
  obtain S where S: "?steps (?S0\<lparr>procs := [0 \<mapsto> ?rest]\<rparr>) S" "store S = snd (run_prog ?refund ?c pending_shop)"
     "procs S 0 = Some ?rest" "procs S 2 = None"
    using pool_runs_prog [of "?S0\<lparr>procs := [0 \<mapsto> ?rest]\<rparr>" 1 ?start ?refund refund_env ?c] may by auto
  have reach: "pool_reach ?start refund_env (\<lambda>s. s = pending_shop) S"
    by (rule pool_reach_steps [OF start]) (use started asked S(1) in \<open>meson rtranclp_trans\<close>)
  obtain r1 where r1: "stocked (store S) r1" "order_status r1 = OrderStatusRefunded" "provider_book (store S) = [(7, 10, says_yes)]"
    using wholly_refunded [OF shop, of "Inr None"] S(2) by auto
  obtain r2 t where r2: "snd (run_prog (finalizeRefundFailed shop_lib pending_order e) ?c (store S)) = t" "stocked t r2"
    "order_status r2 = OrderStatusRefundFailed" "provider_book t = [(7, 10, says_yes)]"
    using late_failure [OF r1(1), of e says_yes "Inr None"] r1(3) by auto
  let ?T = "S\<lparr>store := t, procs := (procs S)(0 \<mapsto> Ret ())\<rparr>"
  have late: "run_prog ?rest ?c (store S) = ((), t)" using r2(1) by (simp split: prod.split) (metis snd_conv)
  have T: "?steps S ?T" using pool_steps_run [of S 0 ?rest ?start refund_env ?c, OF S(3)] unfolding late by simp
  obtain U where U: "?steps ?T U" "store U = snd (run_prog ?refund ?c t)"
    using pool_runs_prog [of ?T 2 ?start ?refund refund_env ?c] may S(4) by auto
  obtain r3 where r3: "stocked (store U) r3" "order_status r3 = OrderStatusRefunded"
    "provider_book (store U) = [(7, 10, says_yes), (7, 10, says_yes)]"
    using wholly_refunded [OF r2(2), of "Inr None"] r2(3,4) U(2) by auto
  have "next_order_id (gate pending_shop) = 8" by (simp add: pending_shop_def)
  then have begins: "refund_start 7 pending_shop" by (simp add: refund_start_def rows_ok_def order_status_of_def successes_def)
  show ?thesis
    by (intro exI [of _ S] exI [of _ ?T] exI [of _ U] exI [of _ e] exI [of _ t] conjI reach S(3) T U(1) refl begins)
      (simp_all add: stocked_status [OF r1(1)] stocked_status [OF r2(2)] stocked_status [OF r3(1)] r1 r2 r3)
qed

end
