(* ===== verification/Spec2Isabelle.thy ===== *)
theory Spec2Isabelle
  imports ConcurrencyProofs SessionLimit LogRedact IdempotencyRun StreamCircuit InvalidAuth ResponsesStream
    KeywordProofs PaymentSettles ProxyFallback BatchLedger RefundSettles
begin

text \<open>
  A verification development of the gateway under \<^verbatim>\<open>src/backend\<close>: a reverse proxy that sells access to AI
  providers. Requests come in with an API key, are admitted under limits, converted to the protocol of an
  upstream account and charged to a balance or a subscription that was paid for. File names below are
  relative to \<^verbatim>\<open>src/backend/internal\<close>.

  \<^bold>\<open>Shared.\<close> \<open>Prelude\<close> holds Go's times, durations, integer division, strings and generic lemmas. \<open>RedisStore\<close>
  models the Redis commands the scripts use, as a locale over an abstract server with an interpretation on
  an association of keys to values. \<open>AppErrors\<close> is \<^verbatim>\<open>pkg/errors\<close>. \<open>Programs\<close> models functions that talk to a
  database as sequences of atomic statements which any number of other processes interleave with, and holds
  the rely-guarantee argument as the locale \<open>protocol\<close>.

  \<^bold>\<open>Admission.\<close> \<open>ConcurrencyCache\<close> and \<open>ConcurrencyProofs\<close> (\<^verbatim>\<open>repository/concurrency_cache.go\<close>): slots, live leases,
  wait counters and their clean-up; the limit is an invariant of every run. \<open>SessionLimit\<close>
  (\<^verbatim>\<open>repository/session_limit_cache.go\<close>): sessions per account. \<open>InvalidAuth\<close>
  (\<^verbatim>\<open>service/invalid_auth_abuse_limiter.go\<close>): the limiter of clients with wrong keys, at the granularity of its
  locks. \<open>StreamCircuit\<close> (\<^verbatim>\<open>service/openai_proxy_stream_circuit.go\<close>): quarantine of proxies whose streams break.
  \<open>KeywordMatcher\<close> and \<open>KeywordProofs\<close> (\<^verbatim>\<open>service/content_moderation_keyword_matcher.go\<close>): the automaton that looks
  for blocked keywords; loops over failure links are partial functions proved to return.

  \<^bold>\<open>Conversion.\<close> \<open>ResponsesStream\<close> (\<^verbatim>\<open>pkg/apicompat/responses_to_anthropic.go\<close>): a stream of one protocol is read as a
  stream of the other, against an acceptor of complete messages.

  \<^bold>\<open>Writes.\<close> \<open>IdempotencyRepo\<close>, \<open>Idempotency\<close>, \<open>IdempotencyProofs\<close> and \<open>IdempotencyRun\<close> (\<^verbatim>\<open>service/idempotency.go\<close>,
  \<^verbatim>\<open>repository/idempotency_repo.go\<close>): at most one execution per key, replays of stored answers. \<open>LogRedact\<close>
  (\<^verbatim>\<open>util/logredact/redact.go\<close>): secrets in logged documents.

  \<^bold>\<open>Money.\<close> \<open>Subscription\<close> (\<^verbatim>\<open>service/user_subscription.go\<close>) holds the pure rules of usage windows and terms;
  \<open>GatewayStore\<close> the tables and statements of \<^verbatim>\<open>repository/\<close> for orders, codes, users and subscriptions;
  \<open>SubscriptionRun\<close> the programs of \<^verbatim>\<open>service/subscription_service.go\<close>; \<open>Payment\<close> and \<open>PaymentFlow\<close> those of
  \<^verbatim>\<open>service/redeem_service.go\<close>, \<^verbatim>\<open>service/payment_fulfillment.go\<close> and \<^verbatim>\<open>service/payment_order_lifecycle.go\<close>;
  \<open>OrderCreation\<close> the transaction of \<^verbatim>\<open>service/payment_order.go\<close> that creates an order, and the provider call after it.
  \<open>PaymentProofs\<close> holds the invariant of all their interleavings and what each statement keeps of it; \<open>PaymentRun\<close> shows
  every program safe and draws the invariants of runs (credits, completed orders, rebates); \<open>PaymentSettles\<close> runs one program alone:
  an undisturbed fulfilment of a balance order completes, a wrong amount pays nothing. \<open>OrderSteps\<close> refines every single step by the
  state machine \<open>order_edge\<close> of an order, once the process that created it, which may still give it up, is over.

  \<open>UsageBilling\<close> (\<^verbatim>\<open>service/usage_billing.go\<close>, \<^verbatim>\<open>repository/usage_billing_repo.go\<close>) charges a finished request and holds,
  captures and releases money for a batch, each in one transaction that claims the request's id; \<open>BillingRun\<close> keeps a ledger of what
  committed and shows that the tables agree with it. \<open>BatchResult\<close> reads a provider's output and reconciles it with what was
  submitted (\<^verbatim>\<open>service/batch_image_processor.go\<close>); \<open>BatchImage\<close> has the programs of batches of images: submission, cancellation, recovery,
  the worker and the settlement (\<^verbatim>\<open>service/batch_image_*.go\<close>, \<^verbatim>\<open>repository/batch_image_repo.go\<close>). \<open>BatchRun\<close> holds the invariant of all
  their interleavings and shows that on the tables of money they are a run of \<open>BillingRun\<close>; \<open>BatchLedger\<close> draws from its
  ledger that a hold is spent once and that a completed batch was charged, and runs one settlement alone.

  \<open>Refund\<close> (\<^verbatim>\<open>service/payment_refund.go\<close>) adds refunds: users' requests, plans, their execution, and queries of refunds the
  provider left pending. The columns of an order that only refunds use are a table of their own, by the order's id; the provider
  instances and the details of pending refunds are tables beside it, and the refunds asked of providers with their answers are a
  book the code does not keep. \<open>Ownership\<close> is the argument for a process that wins a conditional update and then owns what it
  claimed, as the locale \<open>ownership\<close>; \<open>RefundCalm\<close> draws from \<open>OrderSteps\<close> that the requests of payments leave a refunding or refunded order alone, and
  \<open>RefundRun\<close>, with the status \<^verbatim>\<open>REFUNDING\<close> as the claim, that a provider confirms at most one refund of an order.
  \<open>RefundSettles\<close> runs one refund and one query alone, and exhibits the interleaving in which a query makes the provider pay twice.

  \<^bold>\<open>Upkeep.\<close> \<open>ProxyFallback\<close> (\<^verbatim>\<open>service/proxy_fallback.go\<close>, the sweep of \<^verbatim>\<open>repository/proxy_repo.go\<close>): accounts of an
  expired proxy move along its chain of backups, which may be a cycle.

  \<^bold>\<open>Conventions.\<close> Times are nanoseconds as integers; amounts of money are reals, so rounding of floats is not
  modelled. Errors are values of \<open>go_error\<close>. A statement of a program may fail before its effect or after it.
  Third-party code (JSON, regular expressions, case folding, the calendar) is a record of functions; SHA-256 is a function, and where
  a property needs that two prints do not collide, that is a hypothesis.

  \<^bold>\<open>Granularity.\<close> Where the model takes larger steps, or sees less, than the code: the accrual of a rebate (\<open>rebate_tx\<close>) is one
  statement, so that two fulfilments racing from the audit row \<^verbatim>\<open>APPLIED\<close> to \<^verbatim>\<open>SKIPPED\<close> are not distinguished; one
  \<^verbatim>\<open>SCAN\<close> of the clean-up of foreign members is one round trip; \<open>maybeCleanupAtCapacity\<close> is one step, although the code walks the
  shards one by one under their locks; runs of the circuit call it at times that do not decrease; \<open>RedactMap\<close> takes values that have
  a JSON document; holds and costs of batches are exact, where the code rounds them to \<^verbatim>\<open>float64\<close> and \<^verbatim>\<open>DECIMAL(20,10)\<close>; \<open>Settle\<close> leaves
  out the usage log it writes after the settlement; and the book of refunds records the answers the code received, so a refund a provider
  paid without its answer arriving is not a confirmed one. Properties of one program alone say so and list what they start from.

  \<^bold>\<open>Bounds and fuel.\<close> Loops whose end is a matter of the data are partial functions, and that they return is proved: the
  failure links of the keyword automaton and the chain of backups of a proxy. The walk along the siblings of an edge has
  the number of earlier edges as fuel, which is enough because a sibling is an earlier edge. The five attempts at an order number and
  the pages of a clean-up are structural recursions over what the code counts or the server returns. The pages of items of a batch
  are bounded by a number that an indexing gets as an argument; any number above a five-hundredth of the items is enough
  (\<open>expected_listed\<close>). The chain of causes of
  an error and the depth of a redacted document are bounded by the value itself; the redaction has the depth limit of
  the code.

  \<^bold>\<open>Not modelled.\<close> Of batches, the validation and pricing of a submission (they are its arguments), downloads, the clean-up of
  outputs, the providers and the queue. Of refunds, the payment providers themselves (their answers are chances) and the guess at the
  provider instance of orders without one, which refunds do not use. Of the program, generated code (\<^verbatim>\<open>ent/\<close>), HTTP handlers and routing, configuration loading, caches in front of the
  tables, e-mails, metrics and log lines, the providers' own protocols and the frontend: they are glue, input and
  output, or generated, and no property here depends on them.
\<close>

end
